(* ===== verification/Mrs_Prelude.thy ===== *)
theory Mrs_Prelude
  imports Main "HOL-Library.Word" "HOL-Library.Finite_Map" "HOL-Library.Sublist" "HOL-Library.Code_Target_Numeral"
begin

text \<open>
  Shared vocabulary of the development: the machine types of the Rust sources, the checked
  arithmetic they use, Rust's \<^verbatim>\<open>Result\<close> as a sum type with its combinators, the string
  operations of the standard library that the sources call, and the generic facts on finite
  maps, lists and cardinalities that the component theories share.
\<close>

unbundle bit_operations_syntax

named_theorems res_simps \<open>computation rules of the result combinators\<close>

section \<open>Machine types\<close>

text \<open>
  Unsigned counters and sizes (\<^verbatim>\<open>u64\<close>, \<^verbatim>\<open>usize\<close> on a 64-bit target) are natural numbers with
  the bound written out where the source checks it. Bit sets (file modes, open flags, digests)
  are machine words. Millisecond timestamps (\<^verbatim>\<open>i64\<close>) are integers with the bound written out.
  Strings are byte lists, as the UTF-8 bytes of a Rust string are: every separator the sources
  look for is ASCII.
\<close>

type_synonym u8 = "8 word"
type_synonym u32 = "32 word"
type_synonym u64w = "64 word"
type_synonym bytes = "u8 list"

definition U64_MAX :: nat where
  "U64_MAX = 18446744073709551615"

definition I64_MAX :: int where
  "I64_MAX = 9223372036854775807"

definition U32_MAX :: u32 where
  "U32_MAX = 0xffffffff"

lemma U64_MAX_pos [simp]: "0 < U64_MAX"
  by (simp add: U64_MAX_def)

text \<open>Rust's \<^verbatim>\<open>u64::checked_add\<close> and \<^verbatim>\<open>u64::saturating_add\<close>.\<close>

definition checked_add :: "nat \<Rightarrow> nat \<Rightarrow> nat option" where
  "checked_add a b = (if a + b \<le> U64_MAX then Some (a + b) else None)"

definition saturating_add :: "nat \<Rightarrow> nat \<Rightarrow> nat" where
  "saturating_add a b = min (a + b) U64_MAX"

lemma checked_add_eq_Some [simp]:
  "checked_add a b = Some c \<longleftrightarrow> c = a + b \<and> a + b \<le> U64_MAX"
  by (auto simp: checked_add_def)

lemma checked_add_eq_None [simp]: "checked_add a b = None \<longleftrightarrow> U64_MAX < a + b"
  by (auto simp: checked_add_def)

text \<open>\<^verbatim>\<open>u64::div_ceil\<close>, for a positive divisor.\<close>

definition div_ceil :: "nat \<Rightarrow> nat \<Rightarrow> nat" where
  "div_ceil a b = (a div b) + (if a mod b > 0 then 1 else 0)"

lemma div_ceil_0 [simp]: "div_ceil 0 b = 0"
  by (simp add: div_ceil_def)

section \<open>Results\<close>

text \<open>
  A fallible computation returns \<open>'e + 'a\<close>, the error on the left. \<open>and_then\<close> is the \<open>?\<close>
  operator of the source: the rest of the function runs on the value, an error returns at once.
\<close>

definition and_then :: "'e + 'a \<Rightarrow> ('a \<Rightarrow> 'e + 'b) \<Rightarrow> 'e + 'b" where
  "and_then r f = (case r of Inl e \<Rightarrow> Inl e | Inr x \<Rightarrow> f x)"

definition ok_or :: "'a option \<Rightarrow> 'e \<Rightarrow> 'e + 'a" where
  "ok_or v e = (case v of None \<Rightarrow> Inl e | Some x \<Rightarrow> Inr x)"

definition guard_err :: "bool \<Rightarrow> 'e \<Rightarrow> 'e + unit" where
  "guard_err bad e = (if bad then Inl e else Inr ())"

definition is_ok :: "'e + 'a \<Rightarrow> bool" where
  "is_ok r = (case r of Inl _ \<Rightarrow> False | Inr _ \<Rightarrow> True)"

lemma and_then_simps [simp, res_simps]:
  "and_then (Inl e) f = Inl e"
  "and_then (Inr x) f = f x"
  by (simp_all add: and_then_def)

lemma ok_or_simps [simp, res_simps]:
  "ok_or None e = Inl e"
  "ok_or (Some x) e = Inr x"
  by (simp_all add: ok_or_def)

lemma is_ok_simps [simp, res_simps]:
  "\<not> is_ok (Inl e)"
  "is_ok (Inr x)"
  by (simp_all add: is_ok_def)

lemma and_then_eq_Inr [simp]:
  "and_then r f = Inr y \<longleftrightarrow> (\<exists>x. r = Inr x \<and> f x = Inr y)"
  by (cases r) auto

lemma and_then_eq_Inl:
  "and_then r f = Inl e \<longleftrightarrow> r = Inl e \<or> (\<exists>x. r = Inr x \<and> f x = Inl e)"
  by (cases r) auto

lemma ok_or_eq_Inr [simp]: "ok_or v e = Inr x \<longleftrightarrow> v = Some x"
  by (cases v) auto

lemma ok_or_eq_Inl [simp]: "ok_or v e = Inl e' \<longleftrightarrow> v = None \<and> e' = e"
  by (cases v) auto

lemma guard_err_eq_Inr [simp]: "guard_err b e = Inr u \<longleftrightarrow> \<not> b"
  by (simp add: guard_err_def)

lemma guard_err_eq_Inl [simp]: "guard_err b e = Inl e' \<longleftrightarrow> b \<and> e' = e"
  by (auto simp: guard_err_def)

lemma is_ok_iff: "is_ok r \<longleftrightarrow> (\<exists>x. r = Inr x)"
  by (cases r) auto

lemma is_ok_and_then: "is_ok (and_then r f) \<longleftrightarrow> (\<exists>x. r = Inr x \<and> is_ok (f x))"
  by (cases r) auto

text \<open>A \<^verbatim>\<open>for\<close> loop whose body may return an error, and one that threads an accumulator.\<close>

fun for_each :: "('a \<Rightarrow> 'e + unit) \<Rightarrow> 'a list \<Rightarrow> 'e + unit" where
  "for_each f [] = Inr ()"
| "for_each f (x # xs) = and_then (f x) (\<lambda>_. for_each f xs)"

fun try_fold :: "('s \<Rightarrow> 'a \<Rightarrow> 'e + 's) \<Rightarrow> 's \<Rightarrow> 'a list \<Rightarrow> 'e + 's" where
  "try_fold f s [] = Inr s"
| "try_fold f s (x # xs) = and_then (f s x) (\<lambda>s'. try_fold f s' xs)"

fun try_map :: "('a \<Rightarrow> 'e + 'b) \<Rightarrow> 'a list \<Rightarrow> 'e + 'b list" where
  "try_map f [] = Inr []"
| "try_map f (x # xs) = and_then (f x) (\<lambda>y. and_then (try_map f xs) (\<lambda>ys. Inr (y # ys)))"

lemma for_each_eq_Inr: "for_each f xs = Inr u \<longleftrightarrow> (\<forall>x \<in> set xs. f x = Inr ())"
  by (induction xs) auto

lemma is_ok_for_each: "is_ok (for_each f xs) \<longleftrightarrow> (\<forall>x \<in> set xs. is_ok (f x))"
  by (simp add: is_ok_iff for_each_eq_Inr)

lemma for_each_eq_Inl:
  "for_each f xs = Inl e \<Longrightarrow> \<exists>x \<in> set xs. f x = Inl e"
  by (induction xs) (auto simp: and_then_eq_Inl)

lemma try_fold_invariant:
  assumes "try_fold f s xs = Inr s'" "P s"
    and "\<And>t x t'. x \<in> set xs \<Longrightarrow> P t \<Longrightarrow> f t x = Inr t' \<Longrightarrow> P t'"
  shows "P s'"
  using assms by (induction xs arbitrary: s) auto

lemma try_map_eq_Inr:
  "try_map f xs = Inr ys \<longleftrightarrow> list_all2 (\<lambda>x y. f x = Inr y) xs ys"
  by (induction xs arbitrary: ys) (auto simp: list_all2_Cons1)

section \<open>Strings of the standard library\<close>

text \<open>
  \<^verbatim>\<open>str::split(char)\<close>: the pieces between separators, empty pieces included; \<^verbatim>\<open>[str]::join\<close>;
  \<^verbatim>\<open>str::contains(char)\<close>; \<^verbatim>\<open>str::starts_with\<close>.
\<close>

fun split_on :: "char \<Rightarrow> string \<Rightarrow> string list" where
  "split_on c [] = [[]]"
| "split_on c (x # xs) =
     (if x = c then [] # split_on c xs
      else (case split_on c xs of [] \<Rightarrow> [[x]] | y # ys \<Rightarrow> (x # y) # ys))"

fun join_with :: "string \<Rightarrow> string list \<Rightarrow> string" where
  "join_with sep [] = []"
| "join_with sep [x] = x"
| "join_with sep (x # y # ys) = x @ sep @ join_with sep (y # ys)"

definition str_contains :: "char \<Rightarrow> string \<Rightarrow> bool" where
  "str_contains c s = List.member s c"

definition starts_with :: "string \<Rightarrow> string \<Rightarrow> bool" where
  "starts_with s p = (take (length p) s = p)"

lemma str_contains_iff [simp]: "str_contains c s \<longleftrightarrow> c \<in> set s"
  by (simp add: str_contains_def)

lemma starts_with_prefix: "starts_with s p \<longleftrightarrow> prefix p s"
  by (auto simp: starts_with_def prefix_def) (metis append_take_drop_id)

lemma split_on_nonempty [simp]: "split_on c s \<noteq> []"
  by (induction s) (auto split: list.splits)

lemma split_on_no_sep: "c \<notin> set s \<Longrightarrow> split_on c s = [s]"
  by (induction s) auto

lemma split_on_pieces: "x \<in> set (split_on c s) \<Longrightarrow> c \<notin> set x"
proof (induction s arbitrary: x)
  case (Cons a s)
  then show ?case
    by (cases "split_on c s") (auto split: if_splits)
qed simp

lemma split_on_pieces_chars: "x \<in> set (split_on c s) \<Longrightarrow> set x \<subseteq> set s"
proof (induction s arbitrary: x)
  case (Cons a s)
  then show ?case
    by (cases "split_on c s") (fastforce split: if_splits)+
qed simp

lemma split_on_append_sep:
  "split_on c (s @ c # t) = split_on c s @ split_on c t"
proof (induction s)
  case (Cons a s)
  then show ?case by (cases "split_on c s") auto
qed simp

lemma split_on_join:
  assumes "xs \<noteq> []" and "\<And>x. x \<in> set xs \<Longrightarrow> c \<notin> set x"
  shows "split_on c (join_with [c] xs) = xs"
  using assms
proof (induction xs rule: list_nonempty_induct)
  case (cons x xs)
  then show ?case by (cases xs) (auto simp: split_on_append_sep split_on_no_sep)
qed (auto simp: split_on_no_sep)

lemma join_with_append:
  "xs \<noteq> [] \<Longrightarrow> ys \<noteq> [] \<Longrightarrow> join_with sep (xs @ ys) = join_with sep xs @ sep @ join_with sep ys"
proof (induction xs)
  case (Cons x xs)
  then show ?case
    by (cases xs; cases ys) auto
qed simp

lemma join_with_snoc:
  "join_with sep (xs @ [x]) = (if xs = [] then x else join_with sep xs @ sep @ x)"
  by (simp add: join_with_append)

section \<open>Finite maps\<close>

lemma fmap_singleton:
  assumes "fcard (fmdom m) = 1" "fmlookup m k = Some v"
  shows "m = fmap_of_list [(k, v)]"
proof -
  have "k |\<in>| fmdom m" using assms(2) by (rule fmdomI)
  moreover obtain k' where "fmdom m = {|k'|}"
    using assms(1) by (metis One_nat_def card_1_singletonE fcard.rep_eq fset_inverse fset_simps)
  ultimately have "fmdom m = {|k|}" by auto
  then have "fmlookup m x = None" if "x \<noteq> k" for x
    using that by (metis fmdom_notD fsingleton_iff)
  then show ?thesis using assms(2) by (intro fmap_ext) auto
qed

text \<open>The entries of a map in the order of the keys.\<close>

lemma distinct_sorted_list_of_fset: "distinct (sorted_list_of_fset S)"
  by (simp add: sorted_list_of_fset.rep_eq)

lemma distinct_keys_sorted_fmap: "distinct (map fst (sorted_list_of_fmap m))"
  by (simp add: sorted_list_of_fmap_def comp_def distinct_sorted_list_of_fset)

lemma set_sorted_fmap: "kn \<in> set (sorted_list_of_fmap m) \<longleftrightarrow> fmlookup m (fst kn) = Some (snd kn)"
  by (cases kn) (auto simp: sorted_list_of_fmap_def image_iff fmlookup_dom_iff)

lemma for_each_sorted_fmap:
  "for_each f (sorted_list_of_fmap m) = Inr () \<longleftrightarrow>
     (\<forall>i n. fmlookup m i = Some n \<longrightarrow> f (i, n) = Inr ())"
  unfolding for_each_eq_Inr set_sorted_fmap Ball_def by (metis fst_conv prod.collapse snd_conv)

lemma sum_list_sorted_fmap:
  "sum_list (map (\<lambda>kn. f (snd kn)) (sorted_list_of_fmap m)) = (\<Sum>p \<in> fmdom' m. f (the (fmlookup m p)))"
  by (simp add: sorted_list_of_fmap_def comp_def sum_list_distinct_conv_sum_set
      distinct_sorted_list_of_fset fmdom'_alt_def)

lemma all_sorted_fmap: "(\<forall>kn \<in> set (sorted_list_of_fmap m). P kn) \<longleftrightarrow> (\<forall>k n. fmlookup m k = Some n \<longrightarrow> P (k, n))"
proof
  assume *: "\<forall>kn \<in> set (sorted_list_of_fmap m). P kn"
  show "\<forall>k n. fmlookup m k = Some n \<longrightarrow> P (k, n)" using set_sorted_fmap [of "(_, _)" m] * by simp
next
  assume *: "\<forall>k n. fmlookup m k = Some n \<longrightarrow> P (k, n)"
  show "\<forall>kn \<in> set (sorted_list_of_fmap m). P kn"
  proof
    fix kn assume "kn \<in> set (sorted_list_of_fmap m)"
    then have "fmlookup m (fst kn) = Some (snd kn)" by (simp add: set_sorted_fmap)
    then have "P (fst kn, snd kn)" using * by blast
    then show "P kn" by simp
  qed
qed

lemma ex_sorted_fmap: "(\<exists>kn \<in> set (sorted_list_of_fmap m). P kn) \<longleftrightarrow> (\<exists>k n. fmlookup m k = Some n \<and> P (k, n))"
  using all_sorted_fmap [of m "\<lambda>kn. \<not> P kn"] by blast

end
