(* ===== verification/Core_Path.thy ===== *)
theory Core_Path
  imports Mrs_Prelude
begin

text \<open>
  Model of \<^verbatim>\<open>src/path.rs\<close>: lexical normalisation of absolute POSIX paths with \<^verbatim>\<open>..\<close> clamped at
  the virtual root, and the operations built on it. The abstract view of a path is its list of
  components; \<open>render_path\<close> prints one, and every operation is shown to act on the components.
\<close>

section \<open>Operations\<close>

definition normalize_step :: "string list \<Rightarrow> string \<Rightarrow> string list" where
  "normalize_step segments segment =
     (if segment = '''' \<or> segment = ''.'' then segments
      else if segment = ''..'' then butlast segments
      else segments @ [segment])"

definition normalize_path :: "string \<Rightarrow> string" where
  "normalize_path path =
     (let segments = foldl normalize_step [] (split_on CHR ''/'' path)
      in if segments = [] then ''/'' else ''/'' @ join_with ''/'' segments)"

definition split_path :: "string \<Rightarrow> string list" where
  "split_path path = filter (\<lambda>segment. segment \<noteq> []) (split_on CHR ''/'' (normalize_path path))"

definition join_path :: "string list \<Rightarrow> string" where
  "join_path parts = normalize_path (join_with ''/'' parts)"

text \<open>\<^verbatim>\<open>str::rfind\<close>: the byte index of the last occurrence.\<close>

fun rfind :: "char \<Rightarrow> string \<Rightarrow> nat option" where
  "rfind c [] = None"
| "rfind c (x # xs) =
     (case rfind c xs of Some i \<Rightarrow> Some (Suc i) | None \<Rightarrow> if x = c then Some 0 else None)"

definition dirname :: "string \<Rightarrow> string" where
  "dirname path =
     (let normalized = normalize_path path
      in case rfind CHR ''/'' normalized of
           None \<Rightarrow> ''/''
         | Some i \<Rightarrow> if i = 0 then ''/'' else take i normalized)"

definition basename :: "string \<Rightarrow> string" where
  "basename path =
     (let name = last (split_on CHR ''/'' (normalize_path path))
      in if name = [] then ''/'' else name)"

definition has_component_prefix :: "string \<Rightarrow> string \<Rightarrow> bool" where
  "has_component_prefix path parent \<longleftrightarrow>
     path = parent
     \<or> (parent = ''/'' \<and> starts_with path ''/'')
     \<or> (starts_with path parent
        \<and> length parent < length path \<and> path ! length parent = CHR ''/'')"

definition is_path_inside :: "string \<Rightarrow> string \<Rightarrow> bool" where
  "is_path_inside path parent =
     has_component_prefix (normalize_path path) (normalize_path parent)"

section \<open>The component view\<close>

definition valid_component :: "string \<Rightarrow> bool" where
  "valid_component x \<longleftrightarrow> x \<noteq> '''' \<and> x \<noteq> ''.'' \<and> x \<noteq> ''..'' \<and> CHR ''/'' \<notin> set x"

definition render_path :: "string list \<Rightarrow> string" where
  "render_path xs = (if xs = [] then ''/'' else ''/'' @ join_with ''/'' xs)"

definition norm_comps :: "string \<Rightarrow> string list" where
  "norm_comps path = foldl normalize_step [] (split_on CHR ''/'' path)"

lemma render_path_Nil: "render_path [] = ''/''"
  by (simp add: render_path_def)

lemma normalize_path_render: "normalize_path p = render_path (norm_comps p)"
  by (simp add: normalize_path_def render_path_def norm_comps_def Let_def)

lemma foldl_normalize_valid:
  assumes "list_all valid_component acc"
    and "\<And>x. x \<in> set xs \<Longrightarrow> CHR ''/'' \<notin> set x"
  shows "list_all valid_component (foldl normalize_step acc xs)"
  using assms
proof (induction xs arbitrary: acc)
  case (Cons x xs)
  have "list_all valid_component (normalize_step acc x)"
    using Cons.prems
    by (auto simp: normalize_step_def valid_component_def list_all_iff dest: in_set_butlastD)
  with Cons.prems Cons.IH show ?case by simp
qed simp

lemma norm_comps_valid: "list_all valid_component (norm_comps p)"
  unfolding norm_comps_def
  by (rule foldl_normalize_valid) (auto dest: split_on_pieces)

lemma norm_comps_valid_in: "x \<in> set (norm_comps p) \<Longrightarrow> valid_component x"
  using norm_comps_valid [of p] by (simp add: list_all_iff)

lemma foldl_normalize_push:
  "list_all valid_component xs \<Longrightarrow> foldl normalize_step acc xs = acc @ xs"
  by (induction xs arbitrary: acc) (auto simp: normalize_step_def valid_component_def)

lemma split_on_render:
  assumes "list_all valid_component xs"
  shows "split_on CHR ''/'' (render_path xs) = (if xs = [] then [[], []] else [] # xs)"
proof (cases "xs = []")
  case False
  have "split_on CHR ''/'' (join_with [CHR ''/''] xs) = xs"
    by (rule split_on_join) (use False assms in \<open>auto simp: list_all_iff valid_component_def\<close>)
  with False show ?thesis by (simp add: render_path_def)
qed (simp add: render_path_def)

lemma norm_comps_render [simp]:
  "list_all valid_component xs \<Longrightarrow> norm_comps (render_path xs) = xs"
  by (cases "xs = []")
    (simp_all add: norm_comps_def split_on_render foldl_normalize_push normalize_step_def)

lemma split_path_norm_comps: "split_path p = norm_comps p"
proof -
  have "filter (\<lambda>s. s \<noteq> []) (norm_comps p) = norm_comps p"
    by (rule filter_True) (auto dest: norm_comps_valid_in simp: valid_component_def)
  then show ?thesis
    by (simp add: split_path_def normalize_path_render split_on_render norm_comps_valid)
qed

lemma norm_comps_normalize [simp]: "norm_comps (normalize_path p) = norm_comps p"
  by (simp add: normalize_path_render norm_comps_valid)

lemma render_path_inj:
  "list_all valid_component xs \<Longrightarrow> list_all valid_component ys \<Longrightarrow>
    render_path xs = render_path ys \<longleftrightarrow> xs = ys"
  by (metis norm_comps_render)

lemma normalize_path_eq_iff: "normalize_path p = normalize_path q \<longleftrightarrow> norm_comps p = norm_comps q"
  by (simp add: normalize_path_render render_path_inj norm_comps_valid)

lemma normalize_path_root_iff: "normalize_path p = ''/'' \<longleftrightarrow> norm_comps p = []"
  using render_path_inj [of "norm_comps p" "[]"]
  by (simp add: normalize_path_render norm_comps_valid render_path_def)

lemma norm_comps_append_sep:
  "norm_comps (p @ ''/'' @ q) = foldl normalize_step (norm_comps p) (split_on CHR ''/'' q)"
  by (simp add: norm_comps_def split_on_append_sep)

lemma norm_comps_append_comps:
  assumes "ys \<noteq> []" "list_all valid_component ys"
  shows "norm_comps (p @ ''/'' @ join_with ''/'' ys) = norm_comps p @ ys"
proof -
  have "split_on CHR ''/'' (join_with [CHR ''/''] ys) = ys"
    by (rule split_on_join) (use assms in \<open>auto simp: list_all_iff valid_component_def\<close>)
  with assms show ?thesis
    by (simp add: norm_comps_append_sep foldl_normalize_push del: append_Cons)
qed

lemma norm_comps_child:
  "valid_component x \<Longrightarrow> norm_comps (p @ ''/'' @ x) = norm_comps p @ [x]"
  using norm_comps_append_comps [of "[x]" p] by simp

lemma norm_comps_chars: "x \<in> set (norm_comps p) \<Longrightarrow> set x \<subseteq> set p"
proof -
  have "\<And>acc xs. (\<And>x. x \<in> set acc \<union> set xs \<Longrightarrow> set x \<subseteq> A) \<Longrightarrow>
      x \<in> set (foldl normalize_step acc xs) \<Longrightarrow> set x \<subseteq> A" for A
  proof -
    fix acc xs
    assume "\<And>x. x \<in> set acc \<union> set xs \<Longrightarrow> set x \<subseteq> A" "x \<in> set (foldl normalize_step acc xs)"
    then show "set x \<subseteq> A"
    proof (induction xs arbitrary: acc)
      case (Cons y ys)
      show ?case
        by (rule Cons.IH [of "normalize_step acc y"])
          (use Cons.prems in \<open>auto simp: normalize_step_def split: if_splits dest: in_set_butlastD\<close>)
    qed simp
  qed
  from this [of "[]" "split_on CHR ''/'' p" "set p"] show "x \<in> set (norm_comps p) \<Longrightarrow> set x \<subseteq> set p"
    using split_on_pieces_chars by (auto simp: norm_comps_def)
qed

section \<open>Properties\<close>

text \<open>
  Normalisation is canonical. The result is the printed form of a list of proper components
  (none empty, \<^verbatim>\<open>.\<close>, \<^verbatim>\<open>..\<close> or containing a slash), \<^verbatim>\<open>split_path\<close> returns exactly these components,
  and normalising a normalised path, or joining its components, gives it back.
\<close>

theorem normalize_path_canonical:
  "normalize_path p = render_path (split_path p)
   \<and> list_all valid_component (split_path p)
   \<and> normalize_path (normalize_path p) = normalize_path p
   \<and> join_path (split_path p) = normalize_path p"
proof -
  have "norm_comps (join_with ''/'' (norm_comps p)) = norm_comps p"
  proof (cases "norm_comps p = []")
    case False
    then show ?thesis
      using norm_comps_append_comps [OF False norm_comps_valid, of "''''"]
      by (simp add: norm_comps_def normalize_step_def)
  qed (simp add: norm_comps_def normalize_step_def)
  then show ?thesis
    by (simp add: split_path_norm_comps join_path_def norm_comps_valid normalize_path_render)
qed

lemma rfind_append_sep: "c \<notin> set t \<Longrightarrow> rfind c (s @ c # t) = Some (length s)"
proof -
  have "rfind c t = None" if "c \<notin> set t" for t using that by (induction t) auto
  then show "c \<notin> set t \<Longrightarrow> rfind c (s @ c # t) = Some (length s)"
    by (induction s) auto
qed

lemma dirname_basename_comps:
  assumes "norm_comps p = xs @ [x]"
  shows "dirname p = render_path xs" and "basename p = x"
proof -
  have v: "list_all valid_component (xs @ [x])" using norm_comps_valid [of p] assms by simp
  then have x: "CHR ''/'' \<notin> set x" "x \<noteq> []" by (auto simp: valid_component_def)
  let ?pre = "if xs = [] then [] else render_path xs"
  have n: "normalize_path p = ?pre @ CHR ''/'' # x"
    by (simp add: normalize_path_render assms render_path_def join_with_snoc)
  then have "rfind CHR ''/'' (normalize_path p) = Some (length ?pre)"
    by (simp only: n rfind_append_sep [OF x(1)])
  moreover have "length (render_path xs) > 0" by (simp add: render_path_def)
  ultimately show "dirname p = render_path xs"
    by (simp add: dirname_def Let_def n) (simp add: render_path_def)
  have "split_on CHR ''/'' (normalize_path p) = [] # xs @ [x]"
    using split_on_render [OF v] by (simp add: normalize_path_render assms)
  then show "basename p = x" using x by (simp add: basename_def Let_def)
qed

text \<open>
  A path other than the root is its directory name followed by its base name, and the base
  name is a proper component; the root has itself as directory and base name.
\<close>

theorem dirname_basename_join:
  "if normalize_path p = ''/'' then dirname p = ''/'' \<and> basename p = ''/''
   else join_path [dirname p, basename p] = normalize_path p
        \<and> split_path p = split_path (dirname p) @ [basename p]
        \<and> valid_component (basename p)"
proof (cases "norm_comps p" rule: rev_cases)
  case Nil
  then have "normalize_path p = ''/''" by (simp add: normalize_path_root_iff)
  then show ?thesis by (simp add: dirname_def basename_def)
next
  case (snoc xs x)
  have v: "list_all valid_component xs" "valid_component x"
    using norm_comps_valid [of p] snoc by auto
  have "normalize_path p \<noteq> ''/''" using snoc by (simp add: normalize_path_root_iff)
  moreover have "norm_comps (render_path xs @ ''/'' @ x) = norm_comps p"
    using v snoc by (simp add: norm_comps_child del: append_Cons)
  ultimately show ?thesis
    using v by (simp add: dirname_basename_comps [OF snoc] join_path_def split_path_norm_comps
        snoc normalize_path_eq_iff)
qed

lemma is_path_inside_comps:
  "is_path_inside path parent \<longleftrightarrow> prefix (norm_comps parent) (norm_comps path)"
proof -
  let ?xs = "norm_comps path" and ?ys = "norm_comps parent"
  have v: "list_all valid_component ?xs" "list_all valid_component ?ys"
    by (rule norm_comps_valid)+
  have "is_path_inside path parent \<longleftrightarrow> has_component_prefix (render_path ?xs) (render_path ?ys)"
    by (simp add: is_path_inside_def normalize_path_render)
  also have "\<dots> \<longleftrightarrow> prefix ?ys ?xs"
  proof
    assume h: "has_component_prefix (render_path ?xs) (render_path ?ys)"
    show "prefix ?ys ?xs"
    proof (cases "?ys = [] \<or> ?ys = ?xs")
      case False
      then have "render_path ?xs \<noteq> render_path ?ys" "render_path ?ys \<noteq> ''/''"
        using v render_path_inj [of ?ys "[]"] by (auto simp: render_path_inj render_path_Nil)
      with h obtain r where r: "render_path ?xs = render_path ?ys @ CHR ''/'' # r"
        unfolding has_component_prefix_def starts_with_prefix
        by (metis append_self_conv list.exhaust_sel nth_append_length prefixE)
      have "split_on CHR ''/'' (render_path ?xs) = split_on CHR ''/'' (render_path ?ys) @ split_on CHR ''/'' r"
        by (simp only: r split_on_append_sep)
      moreover have "?xs \<noteq> []" using r False by (auto simp: render_path_def)
      ultimately have "?xs = ?ys @ split_on CHR ''/'' r"
        using False v by (simp add: split_on_render)
      then show ?thesis by (metis prefixI)
    qed auto
  next
    assume "prefix ?ys ?xs"
    then obtain zs where zs: "?xs = ?ys @ zs" by (auto simp: prefix_def)
    show "has_component_prefix (render_path ?xs) (render_path ?ys)"
      by (cases "?ys = []"; cases "zs = []")
        (auto simp: zs has_component_prefix_def render_path_def starts_with_def join_with_append
          nth_append)
  qed
  finally show ?thesis .
qed

text \<open>
  Containment respects component boundaries: \<^verbatim>\<open>is_path_inside\<close> holds exactly when the
  components of the parent are a prefix of the components of the path, so \<^verbatim>\<open>/ab\<close> is never
  inside \<^verbatim>\<open>/a\<close> and no \<^verbatim>\<open>..\<close> escapes.
\<close>

theorem is_path_inside_iff_prefix:
  "is_path_inside path parent \<longleftrightarrow> prefix (split_path parent) (split_path path)"
  by (simp add: is_path_inside_comps split_path_norm_comps)

end
