(* ===== verification/Core_Error.thy ===== *)
theory Core_Error
  imports Mrs_Prelude
begin

text \<open>
  Model of \<^verbatim>\<open>src/error.rs\<close>: the POSIX error codes with their names, Linux numbers and
  descriptions, the error value \<^verbatim>\<open>FsError\<close> with its builders, and its \<^verbatim>\<open>Display\<close> text.
\<close>

datatype error_code =
    Eperm | Enoent | Eintr | Eio | Enxio | Ebadf
  | Eagain | Enomem | Eacces | Ebusy | Eexist | Exdev
  | Enodev | Enotdir | Eisdir | Einval | Enfile | Emfile
  | Efbig | Enospc | Espipe | Erofs | Emlink | Erange
  | Enametoolong | Enosys | Enotempty | Eloop | Enodata | Eproto
  | Eoverflow | Enotsup | Estale | Edquot

primrec error_as_str :: "error_code \<Rightarrow> string" where
  "error_as_str Eperm = ''EPERM''"
| "error_as_str Enoent = ''ENOENT''"
| "error_as_str Eintr = ''EINTR''"
| "error_as_str Eio = ''EIO''"
| "error_as_str Enxio = ''ENXIO''"
| "error_as_str Ebadf = ''EBADF''"
| "error_as_str Eagain = ''EAGAIN''"
| "error_as_str Enomem = ''ENOMEM''"
| "error_as_str Eacces = ''EACCES''"
| "error_as_str Ebusy = ''EBUSY''"
| "error_as_str Eexist = ''EEXIST''"
| "error_as_str Exdev = ''EXDEV''"
| "error_as_str Enodev = ''ENODEV''"
| "error_as_str Enotdir = ''ENOTDIR''"
| "error_as_str Eisdir = ''EISDIR''"
| "error_as_str Einval = ''EINVAL''"
| "error_as_str Enfile = ''ENFILE''"
| "error_as_str Emfile = ''EMFILE''"
| "error_as_str Efbig = ''EFBIG''"
| "error_as_str Enospc = ''ENOSPC''"
| "error_as_str Espipe = ''ESPIPE''"
| "error_as_str Erofs = ''EROFS''"
| "error_as_str Emlink = ''EMLINK''"
| "error_as_str Erange = ''ERANGE''"
| "error_as_str Enametoolong = ''ENAMETOOLONG''"
| "error_as_str Enosys = ''ENOSYS''"
| "error_as_str Enotempty = ''ENOTEMPTY''"
| "error_as_str Eloop = ''ELOOP''"
| "error_as_str Enodata = ''ENODATA''"
| "error_as_str Eproto = ''EPROTO''"
| "error_as_str Eoverflow = ''EOVERFLOW''"
| "error_as_str Enotsup = ''ENOTSUP''"
| "error_as_str Estale = ''ESTALE''"
| "error_as_str Edquot = ''EDQUOT''"

primrec errno :: "error_code \<Rightarrow> int" where
  "errno Eperm = 1"
| "errno Enoent = 2"
| "errno Eintr = 4"
| "errno Eio = 5"
| "errno Enxio = 6"
| "errno Ebadf = 9"
| "errno Eagain = 11"
| "errno Enomem = 12"
| "errno Eacces = 13"
| "errno Ebusy = 16"
| "errno Eexist = 17"
| "errno Exdev = 18"
| "errno Enodev = 19"
| "errno Enotdir = 20"
| "errno Eisdir = 21"
| "errno Einval = 22"
| "errno Enfile = 23"
| "errno Emfile = 24"
| "errno Efbig = 27"
| "errno Enospc = 28"
| "errno Espipe = 29"
| "errno Erofs = 30"
| "errno Emlink = 31"
| "errno Erange = 34"
| "errno Enametoolong = 36"
| "errno Enosys = 38"
| "errno Enotempty = 39"
| "errno Eloop = 40"
| "errno Enodata = 61"
| "errno Eproto = 71"
| "errno Eoverflow = 75"
| "errno Enotsup = 95"
| "errno Estale = 116"
| "errno Edquot = 122"

primrec error_description :: "error_code \<Rightarrow> string" where
  "error_description Eperm = ''operation not permitted''"
| "error_description Enoent = ''no such file or directory''"
| "error_description Eintr = ''interrupted system call''"
| "error_description Eio = ''i/o error''"
| "error_description Enxio = ''no such device or address''"
| "error_description Ebadf = ''bad file descriptor''"
| "error_description Eagain = ''resource temporarily unavailable''"
| "error_description Enomem = ''not enough memory''"
| "error_description Eacces = ''permission denied''"
| "error_description Ebusy = ''resource busy or locked''"
| "error_description Eexist = ''file already exists''"
| "error_description Exdev = ''cross-device link not permitted''"
| "error_description Enodev = ''no such device''"
| "error_description Enotdir = ''not a directory''"
| "error_description Eisdir = ''illegal operation on a directory''"
| "error_description Einval = ''invalid argument''"
| "error_description Enfile = ''file table overflow''"
| "error_description Emfile = ''too many open files''"
| "error_description Efbig = ''file too large''"
| "error_description Enospc = ''no space left on device''"
| "error_description Espipe = ''invalid seek''"
| "error_description Erofs = ''read-only file system''"
| "error_description Emlink = ''too many links''"
| "error_description Erange = ''result too large''"
| "error_description Enametoolong = ''name too long''"
| "error_description Enosys = ''function not implemented''"
| "error_description Enotempty = ''directory not empty''"
| "error_description Eloop = ''too many symbolic links encountered''"
| "error_description Enodata = ''no data available''"
| "error_description Eproto = ''protocol error''"
| "error_description Eoverflow = ''value too large for defined data type''"
| "error_description Enotsup = ''operation not supported''"
| "error_description Estale = ''stale file handle''"
| "error_description Edquot = ''disk quota exceeded''"

record fs_error =
  err_code :: error_code
  err_syscall :: "string option"
  err_path :: "string option"
  err_dest :: "string option"
  err_message :: "string option"

type_synonym 'a result = "fs_error + 'a"

definition fs_error_new :: "error_code \<Rightarrow> fs_error" where
  "fs_error_new c =
     \<lparr>err_code = c, err_syscall = None, err_path = None, err_dest = None, err_message = None\<rparr>"

definition with_syscall :: "string \<Rightarrow> fs_error \<Rightarrow> fs_error" where
  "with_syscall sc e = e\<lparr>err_syscall := Some sc\<rparr>"

definition with_path :: "string \<Rightarrow> fs_error \<Rightarrow> fs_error" where
  "with_path p e = e\<lparr>err_path := Some p\<rparr>"

definition with_dest :: "string \<Rightarrow> fs_error \<Rightarrow> fs_error" where
  "with_dest d e = e\<lparr>err_dest := Some d\<rparr>"

definition with_message :: "string \<Rightarrow> fs_error \<Rightarrow> fs_error" where
  "with_message m e = e\<lparr>err_message := Some m\<rparr>"

definition fs_error_backend :: "string \<Rightarrow> fs_error" where
  "fs_error_backend m = with_message m (fs_error_new Eio)"

definition fs_error_enosys :: "string \<Rightarrow> fs_error" where
  "fs_error_enosys sc = with_syscall sc (fs_error_new Enosys)"

definition fs_error_enotsup :: "string \<Rightarrow> fs_error" where
  "fs_error_enotsup sc = with_syscall sc (fs_error_new Enotsup)"

definition fs_error_is :: "fs_error \<Rightarrow> error_code \<Rightarrow> bool" where
  "fs_error_is e c \<longleftrightarrow> err_code e = c"

definition fs_error_display :: "fs_error \<Rightarrow> string" where
  "fs_error_display e =
     (case err_message e of
        Some m \<Rightarrow> m
      | None \<Rightarrow>
          error_as_str (err_code e) @ '': '' @ error_description (err_code e)
          @ (case err_syscall e of None \<Rightarrow> [] | Some sc \<Rightarrow> '', '' @ sc)
          @ (case err_path e of None \<Rightarrow> [] | Some p \<Rightarrow> '' '' @ [CHR 0x27] @ p @ [CHR 0x27])
          @ (case err_dest e of None \<Rightarrow> [] | Some d \<Rightarrow> '' -> '' @ [CHR 0x27] @ d @ [CHR 0x27]))"

section \<open>Facts\<close>

lemma err_code_builders [simp]:
  "err_code (fs_error_new c) = c"
  "err_code (with_syscall sc e) = err_code e"
  "err_code (with_path p e) = err_code e"
  "err_code (with_dest d e) = err_code e"
  "err_code (with_message m e) = err_code e"
  "err_code (fs_error_backend m) = Eio"
  by (simp_all add: fs_error_new_def with_syscall_def with_path_def with_dest_def
      with_message_def fs_error_backend_def)

end
