(* ===== verification/Core_Types.thy ===== *)
theory Core_Types
  imports Core_Error
begin

text \<open>
  Model of \<^verbatim>\<open>src/types.rs\<close> (file kinds, mode bits, \<^verbatim>\<open>Stats\<close> and the other records drivers
  exchange) and of \<^verbatim>\<open>src/handle.rs\<close> (open flags, parsed from text and from Linux wire bits).
\<close>

section \<open>File types and modes\<close>

definition S_IFMT :: u32 where "S_IFMT = 0xF000"
definition S_IFREG :: u32 where "S_IFREG = 0x8000"
definition S_IFDIR :: u32 where "S_IFDIR = 0x4000"
definition S_IFLNK :: u32 where "S_IFLNK = 0xA000"
definition S_IFBLK :: u32 where "S_IFBLK = 0x6000"
definition S_IFCHR :: u32 where "S_IFCHR = 0x2000"
definition S_IFIFO :: u32 where "S_IFIFO = 0x1000"
definition S_IFSOCK :: u32 where "S_IFSOCK = 0xC000"

lemmas mode_consts =
  S_IFMT_def S_IFREG_def S_IFDIR_def S_IFLNK_def S_IFBLK_def S_IFCHR_def S_IFIFO_def S_IFSOCK_def

datatype file_type = File | Directory | Symlink | BlockDevice | CharacterDevice | Fifo | Socket

primrec mode_bits :: "file_type \<Rightarrow> u32" where
  "mode_bits File = S_IFREG"
| "mode_bits Directory = S_IFDIR"
| "mode_bits Symlink = S_IFLNK"
| "mode_bits BlockDevice = S_IFBLK"
| "mode_bits CharacterDevice = S_IFCHR"
| "mode_bits Fifo = S_IFIFO"
| "mode_bits Socket = S_IFSOCK"

definition file_type_from_mode :: "u32 \<Rightarrow> file_type" where
  "file_type_from_mode mode =
     (let m = mode AND S_IFMT in
      if m = S_IFDIR then Directory
      else if m = S_IFLNK then Symlink
      else if m = S_IFBLK then BlockDevice
      else if m = S_IFCHR then CharacterDevice
      else if m = S_IFIFO then Fifo
      else if m = S_IFSOCK then Socket
      else File)"

primrec is_special :: "file_type \<Rightarrow> bool" where
  "is_special File = False"
| "is_special Directory = False"
| "is_special Symlink = False"
| "is_special BlockDevice = True"
| "is_special CharacterDevice = True"
| "is_special Fifo = True"
| "is_special Socket = True"

text \<open>The permission bits \<^verbatim>\<open>0o7777\<close>.\<close>

definition PERM_MASK :: u32 where "PERM_MASK = 0xFFF"

section \<open>Records exchanged with drivers\<close>

record stats =
  st_dev :: nat
  st_ino :: nat
  st_mode :: u32
  st_nlink :: nat
  st_uid :: u32
  st_gid :: u32
  st_rdev :: nat
  st_size :: nat
  st_blksize :: nat
  st_blocks :: nat
  st_atime_ms :: int
  st_mtime_ms :: int
  st_ctime_ms :: int
  st_birthtime_ms :: int

record dir_entry =
  de_name :: string
  de_parent_path :: string
  de_file_type :: file_type

record stats_fs =
  sf_filesystem_type :: nat
  sf_block_size :: nat
  sf_blocks :: nat
  sf_blocks_free :: nat
  sf_blocks_available :: nat
  sf_files :: nat
  sf_files_free :: nat

record mkdir_options =
  mo_recursive :: bool
  mo_mode :: "u32 option"

definition stats_file_type :: "stats \<Rightarrow> file_type" where
  "stats_file_type st = file_type_from_mode (st_mode st)"

section \<open>Open flags\<close>

record open_flags =
  of_read :: bool
  of_write :: bool
  of_create :: bool
  of_truncate :: bool
  of_append :: bool
  of_exclusive :: bool

definition has_valid_truncate_access :: "open_flags \<Rightarrow> bool" where
  "has_valid_truncate_access f \<longleftrightarrow> \<not> of_truncate f \<or> of_write f"

definition mk_flags :: "bool \<Rightarrow> bool \<Rightarrow> bool \<Rightarrow> bool \<Rightarrow> bool \<Rightarrow> bool \<Rightarrow> open_flags" where
  "mk_flags r w c t a x =
     \<lparr>of_read = r, of_write = w, of_create = c, of_truncate = t, of_append = a, of_exclusive = x\<rparr>"

definition open_flags_parse :: "string \<Rightarrow> string \<Rightarrow> open_flags result" where
  "open_flags_parse value path =
     (let normalized = filter (\<lambda>c. c \<noteq> CHR ''s'') value in
      if normalized = ''r'' then Inr (mk_flags True False False False False False)
      else if normalized = ''r+'' then Inr (mk_flags True True False False False False)
      else if normalized = ''w'' then Inr (mk_flags False True True True False False)
      else if normalized = ''wx'' then Inr (mk_flags False True True True False True)
      else if normalized = ''w+'' then Inr (mk_flags True True True True False False)
      else if normalized = ''wx+'' then Inr (mk_flags True True True True False True)
      else if normalized = ''a'' then Inr (mk_flags False True True False True False)
      else if normalized = ''ax'' then Inr (mk_flags False True True False True True)
      else if normalized = ''a+'' then Inr (mk_flags True True True False True False)
      else if normalized = ''ax+'' then Inr (mk_flags True True True False True True)
      else Inl (with_message (''EINVAL: invalid open flags: '' @ [CHR 0x27] @ value @ [CHR 0x27])
             (with_path path (with_syscall ''open'' (fs_error_new Einval)))))"

definition open_flags_from_bits :: "u64w \<Rightarrow> open_flags" where
  "open_flags_from_bits bits =
     (let access = bits AND 3 in
      \<lparr>of_read = (access = 0 \<or> access = 2),
       of_write = (access = 1 \<or> access = 2),
       of_create = (bits AND 0x40 \<noteq> 0),
       of_truncate = (bits AND 0x200 \<noteq> 0),
       of_append = (bits AND 0x400 \<noteq> 0),
       of_exclusive = (bits AND 0x80 \<noteq> 0)\<rparr>)"

text \<open>
  \<^verbatim>\<open>usize::try_from(u64)\<close> on a 64-bit target fails for no value of the type; the branch is kept
  for values beyond it.
\<close>

definition checked_position :: "nat \<Rightarrow> nat result" where
  "checked_position position =
     (if position \<le> U64_MAX then Inr position
      else Inl (with_syscall ''seek'' (fs_error_new Efbig)))"

section \<open>Facts\<close>

lemma PERM_MASK_disjoint: "PERM_MASK AND S_IFMT = 0"
  by (simp add: PERM_MASK_def S_IFMT_def)

lemma mode_bits_masked [simp]: "mode_bits t AND S_IFMT = mode_bits t"
  by (cases t) (simp_all add: mode_consts)

lemma from_mode_of_bits: "m AND S_IFMT = mode_bits t \<Longrightarrow> file_type_from_mode m = t"
  by (cases t) (simp_all add: file_type_from_mode_def mode_consts Let_def)

lemma masked_or_perm: "(a OR (p AND PERM_MASK)) AND S_IFMT = a AND S_IFMT"
proof -
  have "(p AND PERM_MASK) AND S_IFMT = 0"
    by (simp add: and.assoc PERM_MASK_disjoint)
  then show ?thesis by (simp add: bit.conj_disj_distrib2)
qed

lemma masked_or_perm3: "(a OR (p AND q AND PERM_MASK)) AND S_IFMT = a AND S_IFMT"
  using masked_or_perm [of a "p AND q"] by (simp add: and.assoc)

lemma masked_or_perm4: "(a OR (p AND q AND r AND PERM_MASK)) AND S_IFMT = a AND S_IFMT"
  using masked_or_perm [of a "p AND q AND r"] by (simp add: and.assoc)

lemma masked_twice [simp]: "(m AND S_IFMT) AND S_IFMT = m AND S_IFMT"
  by (simp add: and.assoc)

lemma from_mode_bits_perm [simp]:
  "file_type_from_mode (mode_bits t OR (p AND PERM_MASK)) = t"
  by (rule from_mode_of_bits) (simp add: masked_or_perm)

lemma from_mode_cong: "m AND S_IFMT = m' AND S_IFMT \<Longrightarrow> file_type_from_mode m = file_type_from_mode m'"
  by (simp add: file_type_from_mode_def)

lemma from_mode_Directory_iff: "file_type_from_mode m = Directory \<longleftrightarrow> m AND S_IFMT = S_IFDIR"
  by (simp add: file_type_from_mode_def Let_def)

lemma not_special_cases: "\<not> is_special t \<Longrightarrow> t = File \<or> t = Directory \<or> t = Symlink"
  by (cases t) auto

section \<open>Properties\<close>

text \<open>
  Open flags never let truncation through without write access by way of the text parser: a
  text that parses grants read or write, truncates only with write access and with creation, and
  never both truncates and appends; every other text is refused with EINVAL.
\<close>

theorem open_flags_parse_sound:
  "case open_flags_parse value path of
     Inr f \<Rightarrow> has_valid_truncate_access f \<and> (of_read f \<or> of_write f)
              \<and> (of_truncate f \<longrightarrow> of_create f) \<and> \<not> (of_truncate f \<and> of_append f)
              \<and> (of_exclusive f \<longrightarrow> of_create f)
   | Inl e \<Rightarrow> err_code e = Einval"
  by (simp add: open_flags_parse_def Let_def has_valid_truncate_access_def mk_flags_def)

theorem open_flags_parse_sound_witness:
  "open_flags_parse ''wxs+'' ''/a'' = Inr (mk_flags True True True True False True)
   \<and> has_valid_truncate_access (mk_flags True True True True False True)"
  using open_flags_parse_sound [of "''wxs+''" "''/a''"]
  by (simp add: open_flags_parse_def)

text \<open>
  The wire decoder reads exactly the six Linux flags it names: bits outside them never change
  the decoded flags, and the invalid access mode 3 grants neither reading nor writing.
\<close>

theorem open_flags_from_bits_known:
  "open_flags_from_bits (bits AND 0x6C3) = open_flags_from_bits bits
   \<and> (bits AND 3 = 3 \<longrightarrow> \<not> of_read (open_flags_from_bits bits) \<and> \<not> of_write (open_flags_from_bits bits))"
  by (simp add: open_flags_from_bits_def and.assoc Let_def)

theorem open_flags_from_bits_known_witness:
  "(0x203 :: u64w) AND 3 = 3
   \<and> \<not> of_read (open_flags_from_bits 0x203) \<and> \<not> of_write (open_flags_from_bits 0x203)"
  using open_flags_from_bits_known [of "0x203"] by simp

end
