(* ===== verification/Core_Chunking.thy ===== *)
theory Core_Chunking
  imports Core_Error
begin

text \<open>
  Model of \<^verbatim>\<open>src/chunking.rs\<close>: the persisted chunker configuration, the \<^verbatim>\<open>Chunker\<close> contract as a
  locale, and the fixed-size chunker that implements it.
\<close>

section \<open>The Chunker contract\<close>

text \<open>
  The trait's documented promises: chunks are nonempty, come in order and concatenate to the
  input. What a reader of chunks may rely on is proved once from these.
\<close>

locale chunker =
  fixes chunks :: "'a list \<Rightarrow> 'a list list"
  assumes chunks_concat: "concat (chunks bs) = bs"
    and chunks_nonempty: "c \<in> set (chunks bs) \<Longrightarrow> c \<noteq> []"
begin

lemma chunks_empty_iff: "chunks bs = [] \<longleftrightarrow> bs = []"
proof
  assume "bs = []"
  then have "\<forall>c \<in> set (chunks bs). c = []" using chunks_concat [of bs] by auto
  then show "chunks bs = []" using chunks_nonempty [of _ bs] by (cases "chunks bs") auto
qed (use chunks_concat [of bs] in auto)

lemma chunks_total_length: "sum_list (map length (chunks bs)) = length bs"
  using arg_cong [OF chunks_concat, of length] by (simp add: length_concat)

lemma chunks_count_le: "length (chunks bs) \<le> length bs"
proof -
  have "length xs \<le> sum_list (map length xs)" if "\<forall>c \<in> set xs. c \<noteq> []" for xs :: "'a list list"
    using that
  proof (induction xs)
    case (Cons a xs)
    then show ?case by (cases a) auto
  qed simp
  then show ?thesis using chunks_nonempty chunks_total_length by metis
qed

lemma chunks_inj: "chunks bs = chunks cs \<Longrightarrow> bs = cs"
  using chunks_concat by metis

end

section \<open>Configuration and the fixed-size chunker\<close>

record chunker_config =
  cc_algorithm :: string
  cc_version :: nat
  cc_parameters :: "(string, nat) fmap"

text \<open>A chunker is its positive size (\<^verbatim>\<open>NonZeroUsize\<close>).\<close>

record fixed_size_chunker =
  fsc_size :: nat

definition fixed_size_new :: "nat \<Rightarrow> fixed_size_chunker result" where
  "fixed_size_new n =
     (if n = 0 then Inl (with_message ''chunk size must be positive'' (fs_error_new Einval))
      else Inr \<lparr>fsc_size = n\<rparr>)"

definition fixed_size_locate :: "fixed_size_chunker \<Rightarrow> nat \<Rightarrow> nat \<times> nat" where
  "fixed_size_locate c offset = (offset div fsc_size c, offset mod fsc_size c)"

definition fixed_size_config :: "fixed_size_chunker \<Rightarrow> chunker_config" where
  "fixed_size_config c =
     \<lparr>cc_algorithm = ''fixed-size'', cc_version = 1,
      cc_parameters = fmap_of_list [(''chunk_size'', fsc_size c)]\<rparr>"

text \<open>\<^verbatim>\<open><[u8]>::chunks(n)\<close>: consecutive slices of \<open>n\<close> bytes, the last one possibly shorter.\<close>

function slice_chunks :: "nat \<Rightarrow> 'a list \<Rightarrow> 'a list list" where
  "slice_chunks n bs =
     (if bs = [] \<or> n = 0 then [] else take n bs # slice_chunks n (drop n bs))"
  by pat_completeness auto
termination
  by (relation "measure (\<lambda>(n, bs). length bs)") auto

declare slice_chunks.simps [simp del]

definition fixed_size_chunks :: "fixed_size_chunker \<Rightarrow> 'a list \<Rightarrow> 'a list list" where
  "fixed_size_chunks c bs = slice_chunks (fsc_size c) bs"

definition chunker_from_config :: "chunker_config \<Rightarrow> fixed_size_chunker result" where
  "chunker_from_config config =
     (if cc_algorithm config \<noteq> ''fixed-size'' \<or> cc_version config \<noteq> 1
      then Inl (with_message ''unsupported chunker algorithm/version'' (fs_error_new Enotsup))
      else if fcard (fmdom (cc_parameters config)) \<noteq> 1
      then Inl (with_message ''invalid fixed-size parameters'' (fs_error_new Einval))
      else and_then
        (ok_or (case fmlookup (cc_parameters config) ''chunk_size'' of
                  None \<Rightarrow> None
                | Some n \<Rightarrow> if n \<le> U64_MAX then Some n else None)
               (with_message ''invalid chunk_size'' (fs_error_new Einval)))
        fixed_size_new)"

section \<open>Facts\<close>

lemma slice_chunks_Nil [simp]: "slice_chunks n [] = []"
  by (simp add: slice_chunks.simps)

lemma slice_chunks_step:
  "n > 0 \<Longrightarrow> bs \<noteq> [] \<Longrightarrow> slice_chunks n bs = take n bs # slice_chunks n (drop n bs)"
  by (subst slice_chunks.simps) simp

lemma concat_slice_chunks: "n > 0 \<Longrightarrow> concat (slice_chunks n bs) = bs"
proof (induction n bs rule: slice_chunks.induct)
  case (1 n bs)
  then show ?case by (cases "bs = []") (simp_all add: slice_chunks_step)
qed

lemma slice_chunks_sizes:
  "n > 0 \<Longrightarrow> c \<in> set (slice_chunks n bs) \<Longrightarrow> c \<noteq> [] \<and> length c \<le> n"
proof (induction n bs rule: slice_chunks.induct)
  case (1 n bs)
  then show ?case by (cases "bs = []") (auto simp: slice_chunks_step)
qed

lemma length_slice_chunks: "n > 0 \<Longrightarrow> length (slice_chunks n bs) = div_ceil (length bs) n"
proof (induction n bs rule: slice_chunks.induct)
  case (1 n bs)
  show ?case
  proof (cases "bs = []")
    case False
    then have IH: "length (slice_chunks n (drop n bs)) = div_ceil (length bs - n) n"
      using 1 by simp
    have "Suc (div_ceil (length bs - n) n) = div_ceil (length bs) n"
    proof (cases "n \<le> length bs")
      case True
      with 1 show ?thesis by (simp add: div_ceil_def le_div_geq le_mod_geq)
    next
      case le: False
      with False show ?thesis by (simp add: div_ceil_def)
    qed
    with IH False 1 show ?thesis by (simp add: slice_chunks_step)
  qed simp
qed

lemma nth_slice_chunks:
  "n > 0 \<Longrightarrow> i < div_ceil (length bs) n \<Longrightarrow> slice_chunks n bs ! i = take n (drop (i * n) bs)"
proof (induction i arbitrary: bs)
  case 0
  then have "bs \<noteq> []" by auto
  with 0 show ?case by (simp add: slice_chunks_step)
next
  case (Suc i)
  then have ne: "bs \<noteq> []" by auto
  with Suc.prems have "Suc i < length (slice_chunks n bs)" by (simp add: length_slice_chunks)
  with ne Suc.prems have "i < div_ceil (length (drop n bs)) n"
    using length_slice_chunks [of n "drop n bs"] by (simp add: slice_chunks_step)
  with Suc ne show ?case by (simp add: slice_chunks_step add.commute)
qed

lemma fixed_size_new_Inr [simp]:
  "fixed_size_new n = Inr c \<longleftrightarrow> n > 0 \<and> c = \<lparr>fsc_size = n\<rparr>"
  by (auto simp: fixed_size_new_def)

text \<open>The fixed-size chunker meets the contract for every size the constructor lets through.\<close>

interpretation fixed_chunks: chunker "fixed_size_chunks \<lparr>fsc_size = Suc k\<rparr>" for k
  by unfold_locales
    (auto simp: fixed_size_chunks_def concat_slice_chunks dest: slice_chunks_sizes [rotated])

section \<open>Properties\<close>

text \<open>
  The fixed-size chunker the constructor returns cuts any input into nonempty chunks of at
  most the configured size that concatenate to the input, and their number is the input length
  divided by the size, rounded up.
\<close>

theorem fixed_size_chunks_partition:
  assumes "fixed_size_new n = Inr c"
  shows "concat (fixed_size_chunks c bs) = bs
    \<and> (\<forall>x \<in> set (fixed_size_chunks c bs). x \<noteq> [] \<and> length x \<le> n)
    \<and> length (fixed_size_chunks c bs) = div_ceil (length bs) n"
proof -
  obtain k where k: "n = Suc k" "c = \<lparr>fsc_size = Suc k\<rparr>"
    using assms by (auto simp: gr0_conv_Suc)
  have "length (fixed_size_chunks c bs) = div_ceil (length bs) n"
    by (simp add: k fixed_size_chunks_def length_slice_chunks)
  moreover have "x \<noteq> [] \<and> length x \<le> n" if "x \<in> set (fixed_size_chunks c bs)" for x
    using that slice_chunks_sizes [of n x bs] by (simp add: k fixed_size_chunks_def)
  ultimately show ?thesis
    using fixed_chunks.chunks_concat [of k bs] k by blast
qed

theorem fixed_size_chunks_partition_witness:
  "fixed_size_new 2 = Inr \<lparr>fsc_size = 2\<rparr>
   \<and> length (fixed_size_chunks \<lparr>fsc_size = 2\<rparr> [1 :: u8, 2, 3]) = 2"
  using fixed_size_chunks_partition [of 2 "\<lparr>fsc_size = 2\<rparr>" "[1 :: u8, 2, 3]"]
  by (simp add: div_ceil_def)

text \<open>
  \<^verbatim>\<open>locate\<close> agrees with \<^verbatim>\<open>chunks\<close>: an offset inside the input is found in the chunk with the
  located index at the located position, and the pair determines the offset for every offset.
\<close>

theorem fixed_size_locate_chunks:
  assumes "fixed_size_new n = Inr c"
  shows "fst (fixed_size_locate c offset) * n + snd (fixed_size_locate c offset) = offset
    \<and> snd (fixed_size_locate c offset) < n
    \<and> (offset < length bs \<longrightarrow>
         fst (fixed_size_locate c offset) < length (fixed_size_chunks c bs)
         \<and> snd (fixed_size_locate c offset)
             < length (fixed_size_chunks c bs ! fst (fixed_size_locate c offset))
         \<and> fixed_size_chunks c bs ! fst (fixed_size_locate c offset)
             ! snd (fixed_size_locate c offset) = bs ! offset)"
proof -
  have n: "n > 0" "c = \<lparr>fsc_size = n\<rparr>" using assms by auto
  have split: "offset div n * n + offset mod n = offset" by simp
  have "offset div n < div_ceil (length bs) n \<and> offset mod n < length bs - offset div n * n"
    if "offset < length bs"
  proof
    have "offset div n \<le> length bs div n" using that by (simp add: div_le_mono)
    moreover have "length bs mod n > 0" if "offset div n = length bs div n"
      using that \<open>offset < length bs\<close> split
      by (metis add.right_neutral bot_nat_0.not_eq_extremum div_mult_mod_eq le_add1 not_le)
    ultimately show "offset div n < div_ceil (length bs) n"
      by (auto simp: div_ceil_def less_Suc_eq_le le_less)
    show "offset mod n < length bs - offset div n * n"
      using that split by linarith
  qed
  with n split show ?thesis
    by (auto simp: fixed_size_locate_def fixed_size_chunks_def length_slice_chunks nth_slice_chunks)
qed

theorem fixed_size_locate_chunks_witness:
  "fixed_size_new 2 = Inr \<lparr>fsc_size = 2\<rparr>
   \<and> fixed_size_chunks \<lparr>fsc_size = 2\<rparr> [7 :: u8, 8, 9] ! 1 ! 0 = 9"
  using fixed_size_locate_chunks [of 2 "\<lparr>fsc_size = 2\<rparr>" 2 "[7 :: u8, 8, 9]"]
  by (simp add: fixed_size_locate_def)

text \<open>
  A persisted layout is never reinterpreted: a chunker survives the round trip through its
  configuration, and every configuration that is accepted is the configuration of the chunker it
  restores.
\<close>

theorem chunker_config_roundtrip:
  "(\<forall>c. 0 < fsc_size c \<and> fsc_size c \<le> U64_MAX \<longrightarrow> chunker_from_config (fixed_size_config c) = Inr c)
   \<and> (\<forall>config c. chunker_from_config config = Inr c \<longrightarrow>
        0 < fsc_size c \<and> fixed_size_config c = config)"
proof (intro conjI allI impI)
  fix c :: fixed_size_chunker
  assume "0 < fsc_size c \<and> fsc_size c \<le> U64_MAX"
  then show "chunker_from_config (fixed_size_config c) = Inr c"
    by (simp add: chunker_from_config_def fixed_size_config_def fcard.rep_eq)
next
  fix config c
  assume h: "chunker_from_config config = Inr c"
  then have lk: "fmlookup (cc_parameters config) ''chunk_size'' = Some (fsc_size c)"
    and pos: "0 < fsc_size c" and one: "fcard (fmdom (cc_parameters config)) = 1"
    and alg: "cc_algorithm config = ''fixed-size''" "cc_version config = 1"
    by (auto simp: chunker_from_config_def split: if_splits option.splits)
  show "0 < fsc_size c" by (rule pos)
  have "fmap_of_list [(''chunk_size'', fsc_size c)] = cc_parameters config"
    using fmap_singleton [OF one lk] by simp
  with alg show "fixed_size_config c = config"
    by (simp add: fixed_size_config_def)
qed

theorem chunker_config_roundtrip_witness:
  "chunker_from_config (fixed_size_config \<lparr>fsc_size = 4096\<rparr>) = Inr \<lparr>fsc_size = 4096\<rparr>"
  using chunker_config_roundtrip by (simp add: U64_MAX_def)

end
