(* ===== verification/Core_Storage.thy ===== *)
theory Core_Storage
  imports Core_Types Core_Chunking
begin

text \<open>
  Model of \<^verbatim>\<open>src/storage.rs\<close>: the backing identity of a concurrent volume, the metadata
  namespace of a volume (inodes, directory entries, file layouts made of block extents) and its
  validation, which every provider and every reader runs before it trusts a namespace.
\<close>

section \<open>Backing identities and cache reservations\<close>

text \<open>
  A failed index or \<^verbatim>\<open>expect\<close> of the source ends the program. The model gives it a value of its own,
  so that a lemma can say that it is not reached.
\<close>

definition rust_panic :: "string \<Rightarrow> fs_error" where
  "rust_panic msg = with_message (''panic: '' @ msg) (fs_error_new Eio)"

text \<open>A \<^verbatim>\<open>ConcurrentBackingId\<close> is sixteen bytes, not all zero.\<close>

definition backing_from_bytes :: "bytes \<Rightarrow> bytes result" where
  "backing_from_bytes bs =
     (if bs = replicate 16 0 then Inl (fs_error_new Einval) else Inr bs)"

definition hex_digit :: "nat \<Rightarrow> char" where
  "hex_digit n = (if n < 10 then char_of (48 + n) else char_of (87 + n))"

definition backing_to_hex :: "bytes \<Rightarrow> string" where
  "backing_to_hex bs =
     concat (map (\<lambda>b. [hex_digit (unat b div 16), hex_digit (unat b mod 16)]) bs)"

definition nibble :: "char \<Rightarrow> nat option" where
  "nibble c =
     (let b = (of_char c :: nat) in
      if 48 \<le> b \<and> b \<le> 57 then Some (b - 48)
      else if 97 \<le> b \<and> b \<le> 102 then Some (b - 97 + 10)
      else None)"

text \<open>The loop over the sixteen pairs of digits.\<close>

fun hex_pairs :: "string \<Rightarrow> bytes result" where
  "hex_pairs (h # l # rest) =
     and_then (ok_or (nibble h) (fs_error_new Einval)) (\<lambda>hi.
     and_then (ok_or (nibble l) (fs_error_new Einval)) (\<lambda>lo.
     and_then (hex_pairs rest) (\<lambda>bs.
     Inr ((push_bit 4 (of_nat hi) OR of_nat lo) # bs))))"
| "hex_pairs _ = Inr []"

definition backing_from_hex :: "string \<Rightarrow> bytes result" where
  "backing_from_hex text =
     (if length text \<noteq> 32 then Inl (fs_error_new Einval)
      else and_then (hex_pairs text) backing_from_bytes)"

definition checked_buffer_reservation :: "nat \<Rightarrow> nat \<Rightarrow> nat \<Rightarrow> nat \<Rightarrow> nat option" where
  "checked_buffer_reservation used payload overhead limit =
     (case checked_add used (max payload 1) of
        None \<Rightarrow> None
      | Some a \<Rightarrow>
          (case checked_add a overhead of
             None \<Rightarrow> None
           | Some next \<Rightarrow> if next \<le> limit then Some next else None))"

section \<open>The namespace\<close>

record block_extent =
  be_file_offset :: nat
  be_block :: string
  be_block_offset :: nat
  be_length :: nat

record file_layout =
  fl_chunker :: chunker_config
  fl_extents :: "block_extent list"

record directory_entry =
  dn_name :: string
  dn_inode :: nat

datatype node_data =
    ND_Directory "directory_entry list"
  | ND_File file_layout
  | ND_Symlink string
  | ND_Special

record node_metadata =
  nm_stats :: stats
  nm_data :: node_data

record namespace =
  ns_format_version :: nat
  ns_root :: nat
  ns_next_inode :: nat
  ns_default_uid :: u32
  ns_default_gid :: u32
  ns_umask :: u32
  ns_default_chunker :: chunker_config
  ns_nodes :: "(nat, node_metadata) fmap"

definition NAMESPACE_FORMAT_VERSION :: nat where
  "NAMESPACE_FORMAT_VERSION = 1"

definition is_dir_data :: "node_data \<Rightarrow> bool" where
  "is_dir_data d = (case d of ND_Directory _ \<Rightarrow> True | _ \<Rightarrow> False)"

definition is_file_data :: "node_data \<Rightarrow> bool" where
  "is_file_data d = (case d of ND_File _ \<Rightarrow> True | _ \<Rightarrow> False)"

section \<open>Validation\<close>

definition invalid_namespace :: "string \<Rightarrow> fs_error" where
  "invalid_namespace m = with_message m (fs_error_new Einval)"

definition overflow_namespace :: "string \<Rightarrow> fs_error" where
  "overflow_namespace m = with_message m (fs_error_new Eoverflow)"

definition validate_format_version :: "nat \<Rightarrow> unit result" where
  "validate_format_version version =
     (if version > NAMESPACE_FORMAT_VERSION
      then Inl (with_message ''namespace format version is newer than this core'' (fs_error_new Enotsup))
      else if version \<noteq> NAMESPACE_FORMAT_VERSION
      then Inl (invalid_namespace ''unsupported namespace format version'')
      else Inr ())"

text \<open>The loop of \<^verbatim>\<open>validate_file_extents\<close>, with the end of the previous extent.\<close>

fun validate_extents_from :: "nat option \<Rightarrow> block_extent list \<Rightarrow> nat \<Rightarrow> unit result" where
  "validate_extents_from previous_end [] file_size = Inr ()"
| "validate_extents_from previous_end (e # es) file_size =
     (if be_length e = 0 then Inl (invalid_namespace ''file extents must be nonempty'')
      else if be_block e = [] then Inl (invalid_namespace ''file extents must name a block'')
      else and_then (ok_or (checked_add (be_file_offset e) (be_length e))
             (overflow_namespace ''file extent offset overflows'')) (\<lambda>file_end.
      and_then (ok_or (checked_add (be_block_offset e) (be_length e))
             (overflow_namespace ''block extent offset overflows'')) (\<lambda>_.
      if file_end > file_size then Inl (invalid_namespace ''file extent exceeds file size'')
      else if (case previous_end of None \<Rightarrow> False | Some pe \<Rightarrow> be_file_offset e < pe)
      then Inl (invalid_namespace ''file extents must be sorted and non-overlapping'')
      else validate_extents_from (Some file_end) es file_size)))"

definition validate_file_extents :: "block_extent list \<Rightarrow> nat \<Rightarrow> unit result" where
  "validate_file_extents extents file_size = validate_extents_from None extents file_size"

definition validate_file_layout :: "file_layout \<Rightarrow> nat \<Rightarrow> unit result" where
  "validate_file_layout layout file_size =
     and_then (chunker_from_config (fl_chunker layout)) (\<lambda>_.
     validate_file_extents (fl_extents layout) file_size)"

definition validate_node_kind :: "node_metadata \<Rightarrow> unit result" where
  "validate_node_kind node =
     (let mode_type = st_mode (nm_stats node) AND S_IFMT in
      and_then
        (case nm_data node of
           ND_Directory _ \<Rightarrow> Inr (mode_type = S_IFDIR)
         | ND_File layout \<Rightarrow>
             (if mode_type = S_IFREG
              then and_then (validate_file_layout layout (st_size (nm_stats node))) (\<lambda>_. Inr True)
              else Inr False)
         | ND_Symlink _ \<Rightarrow> Inr (mode_type = S_IFLNK)
         | ND_Special \<Rightarrow>
             Inr (mode_type = S_IFBLK \<or> mode_type = S_IFCHR \<or> mode_type = S_IFIFO
                  \<or> mode_type = S_IFSOCK))
        (\<lambda>valid. if valid then Inr ()
           else Inl (invalid_namespace ''node metadata kind does not match stats.mode'')))"

definition validate_entry_name :: "string \<Rightarrow> unit result" where
  "validate_entry_name name =
     (if name = [] \<or> name = ''.'' \<or> name = ''..'' \<or> str_contains CHR ''/'' name
         \<or> str_contains CHR 0x00 name
      then Inl (invalid_namespace ''invalid directory entry name'') else Inr ())"

definition increment_count :: "(nat, nat) fmap \<Rightarrow> nat \<Rightarrow> string \<Rightarrow> (nat, nat) fmap result" where
  "increment_count counts inode what =
     (let count = (case fmlookup counts inode of None \<Rightarrow> 0 | Some c \<Rightarrow> c) in
      and_then (ok_or (checked_add count 1) (overflow_namespace what)) (\<lambda>count'.
      Inr (fmupd inode count' counts)))"

text \<open>
  The counting pass of \<^verbatim>\<open>Namespace::validate\<close>: one entry of a directory (the names seen, the
  child directories counted, the two reference tables), then one node.
\<close>

type_synonym entry_counts = "string fset \<times> nat \<times> (nat, nat) fmap \<times> (nat, nat) fmap"

definition count_entry ::
  "(nat, node_metadata) fmap \<Rightarrow> entry_counts \<Rightarrow> directory_entry \<Rightarrow> entry_counts result" where
  "count_entry nodes st entry =
     (case st of (names, child_directories, references, directory_references) \<Rightarrow>
      and_then (validate_entry_name (dn_name entry)) (\<lambda>_.
      if dn_name entry |\<in>| names
      then Inl (invalid_namespace ''directory entry names must be unique'')
      else and_then (ok_or (fmlookup nodes (dn_inode entry))
             (invalid_namespace ''directory entry references a missing inode'')) (\<lambda>child.
      and_then (increment_count references (dn_inode entry) ''inode reference count'') (\<lambda>references'.
      if is_dir_data (nm_data child)
      then and_then (ok_or (checked_add child_directories 1)
             (overflow_namespace ''directory child count overflow'')) (\<lambda>child_directories'.
           and_then (increment_count directory_references (dn_inode entry)
             ''directory parent count'') (\<lambda>directory_references'.
           Inr (finsert (dn_name entry) names, child_directories', references', directory_references')))
      else Inr (finsert (dn_name entry) names, child_directories, references', directory_references)))))"

type_synonym node_counts = "(nat, nat) fmap \<times> (nat, nat) fmap \<times> (nat, nat) fmap"

definition count_node ::
  "(nat, node_metadata) fmap \<Rightarrow> node_counts \<Rightarrow> nat \<times> node_metadata \<Rightarrow> node_counts result" where
  "count_node nodes st kn =
     (case st of (references, directory_references, directory_children) \<Rightarrow>
      (case nm_data (snd kn) of
         ND_Directory entries \<Rightarrow>
           and_then (try_fold (count_entry nodes) ({||}, 0, references, directory_references) entries)
             (\<lambda>(names, child_directories, references', directory_references').
              Inr (references', directory_references',
                   fmupd (fst kn) child_directories directory_children))
       | _ \<Rightarrow> Inr st))"

definition validate_directory_link_counts :: "bool \<Rightarrow> nat \<Rightarrow> nat \<Rightarrow> nat \<Rightarrow> unit result" where
  "validate_directory_link_counts is_root parent_count child_count nlink =
     and_then
       (if is_root
        then guard_err (parent_count \<noteq> 0)
               (invalid_namespace ''root directory cannot be linked as a child'')
        else guard_err (parent_count \<noteq> 1)
               (invalid_namespace ''non-root directories must have exactly one parent'')) (\<lambda>_.
     and_then (ok_or (checked_add 2 child_count)
       (overflow_namespace ''directory nlink overflows'')) (\<lambda>expected_nlink.
     if nlink \<noteq> expected_nlink
     then Inl (invalid_namespace ''directory nlink is inconsistent'') else Inr ()))"

text \<open>
  The child directories a visited node pushes, in push order. The source indexes the node table
  with each entry, which panics on a missing inode.
\<close>

fun push_children ::
  "(nat, node_metadata) fmap \<Rightarrow> directory_entry list \<Rightarrow> nat list \<Rightarrow> nat list result" where
  "push_children nodes [] pending = Inr pending"
| "push_children nodes (e # es) pending =
     (case fmlookup nodes (dn_inode e) of
        None \<Rightarrow> Inl (rust_panic ''no entry found for key'')
      | Some child \<Rightarrow>
          push_children nodes es
            (if is_dir_data (nm_data child) then dn_inode e # pending else pending))"

text \<open>The iterative traversal; the stack's top is the head of \<open>pending\<close>.\<close>

function traverse_directories ::
  "(nat, node_metadata) fmap \<Rightarrow> nat fset \<Rightarrow> nat list \<Rightarrow> nat fset result" where
  "traverse_directories nodes visited [] = Inr visited"
| "traverse_directories nodes visited (inode # pending) =
     (if inode |\<in>| visited
      then Inl (invalid_namespace ''directory graph contains a cycle or hard-linked directory'')
      else (case fmlookup nodes inode of
              None \<Rightarrow> Inl (invalid_namespace ''directory traversal reached missing inode'')
            | Some node \<Rightarrow>
                (case (case nm_data node of
                         ND_Directory entries \<Rightarrow> push_children nodes entries pending
                       | _ \<Rightarrow> Inr pending) of
                   Inl e \<Rightarrow> Inl e
                 | Inr pending' \<Rightarrow> traverse_directories nodes (finsert inode visited) pending')))"
  by pat_completeness auto
termination
proof (relation "measure (\<lambda>(nodes, visited, _). fcard (fmdom nodes |-| visited))")
  show "wf (measure (\<lambda>(nodes, visited, _). fcard (fmdom nodes |-| visited)))" by simp
next
  fix nodes :: "(nat, node_metadata) fmap" and visited inode pending node pending'
  assume new: "inode |\<notin>| visited" and lk: "fmlookup nodes inode = Some node"
  have "inode |\<in>| fmdom nodes" using lk by (rule fmdomI)
  with new have "fmdom nodes |-| finsert inode visited |\<subset>| fmdom nodes |-| visited" by auto
  then show "((nodes, finsert inode visited, pending'), nodes, visited, inode # pending)
      \<in> measure (\<lambda>(nodes, visited, _). fcard (fmdom nodes |-| visited))"
    by (simp add: pfsubset_fcard_mono)
qed

definition validate_directory_links ::
  "namespace \<Rightarrow> (nat, nat) fmap \<Rightarrow> (nat, nat) fmap \<Rightarrow> unit result" where
  "validate_directory_links ns directory_references directory_children =
     and_then
       (for_each (\<lambda>(inode, node).
          if \<not> is_dir_data (nm_data node) then Inr ()
          else validate_directory_link_counts (inode = ns_root ns)
                 (case fmlookup directory_references inode of None \<Rightarrow> 0 | Some c \<Rightarrow> c)
                 (case fmlookup directory_children inode of None \<Rightarrow> 0 | Some c \<Rightarrow> c)
                 (st_nlink (nm_stats node)))
          (sorted_list_of_fmap (ns_nodes ns))) (\<lambda>_.
     and_then (traverse_directories (ns_nodes ns) {||} [ns_root ns]) (\<lambda>visited.
     if fcard visited
        \<noteq> length (filter (\<lambda>(_, node). is_dir_data (nm_data node)) (sorted_list_of_fmap (ns_nodes ns)))
     then Inl (invalid_namespace ''directory is unreachable from root'')
     else Inr ()))"

definition validate_node_links :: "namespace \<Rightarrow> (nat, nat) fmap \<Rightarrow> unit result" where
  "validate_node_links ns references =
     for_each (\<lambda>(inode, node).
       if is_dir_data (nm_data node) then Inr ()
       else (let reference_count = (case fmlookup references inode of None \<Rightarrow> 0 | Some c \<Rightarrow> c) in
             if reference_count = 0
             then guard_err (st_nlink (nm_stats node) \<noteq> 0)
                    (invalid_namespace ''unlinked orphan must have zero nlink'')
             else guard_err (st_nlink (nm_stats node) \<noteq> reference_count)
                    (invalid_namespace ''file nlink is inconsistent'')))
       (sorted_list_of_fmap (ns_nodes ns))"

definition validate_node :: "nat \<times> node_metadata \<Rightarrow> unit result" where
  "validate_node kn =
     (if fst kn = 0 then Inl (invalid_namespace ''inode keys must be nonzero'')
      else if st_ino (nm_stats (snd kn)) \<noteq> fst kn
      then Inl (invalid_namespace ''inode key and stats.ino disagree'')
      else validate_node_kind (snd kn))"

definition namespace_validate :: "namespace \<Rightarrow> unit result" where
  "namespace_validate ns =
     and_then (validate_format_version (ns_format_version ns)) (\<lambda>_.
     and_then (chunker_from_config (ns_default_chunker ns)) (\<lambda>_.
     (let keys = sorted_list_of_fset (fmdom (ns_nodes ns)) in
      if keys = [] then Inl (invalid_namespace ''namespace must contain a root node'')
      else if last keys = U64_MAX
      then Inl (overflow_namespace ''namespace cannot allocate an inode after u64::MAX'')
      else if ns_next_inode ns \<le> last keys
      then Inl (invalid_namespace ''next_inode must be greater than every inode'')
      else if ns_root ns = 0 then Inl (invalid_namespace ''root inode must be nonzero'')
      else and_then (ok_or (fmlookup (ns_nodes ns) (ns_root ns))
             (invalid_namespace ''root inode is missing'')) (\<lambda>root.
      if st_mode (nm_stats root) AND S_IFMT \<noteq> S_IFDIR
      then Inl (invalid_namespace ''root inode must be a directory'')
      else and_then (for_each validate_node (sorted_list_of_fmap (ns_nodes ns))) (\<lambda>_.
      and_then (try_fold (count_node (ns_nodes ns)) (fmempty, fmempty, fmempty)
                 (sorted_list_of_fmap (ns_nodes ns)))
        (\<lambda>(references, directory_references, directory_children).
      and_then (validate_directory_links ns directory_references directory_children) (\<lambda>_.
      validate_node_links ns references)))))))"

section \<open>Metadata records built on namespaces\<close>

record loaded_metadata =
  lm_revision :: nat
  lm_namespace :: "namespace option"

definition loaded_metadata_validate :: "loaded_metadata \<Rightarrow> unit result" where
  "loaded_metadata_validate m =
     (if (lm_revision m = 0) \<noteq> (lm_namespace m = None)
      then Inl (invalid_namespace ''metadata revision and initialization state disagree'')
      else (case lm_namespace m of None \<Rightarrow> Inr () | Some ns \<Rightarrow> namespace_validate ns))"

record inode_metadata_snapshot =
  im_structural_generation :: nat
  im_namespace :: namespace
  im_inode_revisions :: "(nat, nat) fmap"

definition inode_snapshot_validate :: "inode_metadata_snapshot \<Rightarrow> unit result" where
  "inode_snapshot_validate m =
     (if im_structural_generation m = 0
      then Inl (invalid_namespace ''inode structural generation must be nonzero'')
      else and_then (namespace_validate (im_namespace m)) (\<lambda>_.
      if sorted_list_of_fset (fmdom (im_inode_revisions m))
         \<noteq> sorted_list_of_fset (fmdom (ns_nodes (im_namespace m)))
      then Inl (invalid_namespace ''inode revision keys must match namespace nodes'')
      else Inr ()))"

definition inode_publication_attributes_allowed ::
  "nat \<Rightarrow> stats \<Rightarrow> stats \<Rightarrow> bool \<Rightarrow> bool \<Rightarrow> bool" where
  "inode_publication_attributes_allowed inode original nxt original_file next_file \<longleftrightarrow>
     inode \<noteq> 0 \<and> original_file \<and> next_file
     \<and> st_ino original = inode \<and> st_ino nxt = inode
     \<and> st_mode original AND S_IFMT = S_IFREG \<and> st_mode nxt AND S_IFMT = S_IFREG
     \<and> st_dev original = st_dev nxt \<and> st_mode original = st_mode nxt
     \<and> st_nlink original = st_nlink nxt \<and> st_uid original = st_uid nxt
     \<and> st_gid original = st_gid nxt \<and> st_rdev original = st_rdev nxt
     \<and> st_blksize original = st_blksize nxt \<and> st_atime_ms original = st_atime_ms nxt
     \<and> st_birthtime_ms original = st_birthtime_ms nxt"

definition validate_inode_publication :: "nat \<Rightarrow> node_metadata \<Rightarrow> node_metadata \<Rightarrow> unit result" where
  "validate_inode_publication inode original nxt =
     and_then (validate_node_kind original) (\<lambda>_.
     and_then (validate_node_kind nxt) (\<lambda>_.
     if \<not> inode_publication_attributes_allowed inode (nm_stats original) (nm_stats nxt)
           (is_file_data (nm_data original)) (is_file_data (nm_data nxt))
     then Inl (invalid_namespace ''inode publication changes structural attributes'')
     else Inr ()))"

section \<open>The hexadecimal form of identities\<close>

lemma nibble_hex_digit: "n < 16 \<Longrightarrow> nibble (hex_digit n) = Some n"
  by (auto simp: nibble_def hex_digit_def Let_def)

lemma nibble_eq_Some: "nibble c = Some n \<longleftrightarrow> n < 16 \<and> c = hex_digit n"
proof
  define b where "b = (of_char c :: nat)"
  have c: "c = char_of b" by (simp add: b_def)
  assume "nibble c = Some n"
  then have "48 \<le> b \<and> b \<le> 57 \<and> n = b - 48 \<or> 97 \<le> b \<and> b \<le> 102 \<and> n = b - 97 + 10"
    by (auto simp: nibble_def Let_def b_def [symmetric] split: if_splits)
  then show "n < 16 \<and> c = hex_digit n" unfolding c hex_digit_def by auto
qed (use nibble_hex_digit in blast)

lemma byte_of_nibbles:
  assumes "lo < 16"
  shows "(push_bit 4 (of_nat hi) OR of_nat lo :: 8 word) = of_nat (16 * hi + lo)"
proof -
  have "bit lo n \<Longrightarrow> n < 4" for n
    using assms bit_take_bit_iff [of 4 lo n] by (simp add: take_bit_eq_mod)
  then have "(push_bit 4 (of_nat hi) OR of_nat lo :: 8 word) = push_bit 4 (of_nat hi) + of_nat lo"
    by (intro disjunctive_add [symmetric]) (fastforce simp: bit_push_bit_iff bit_of_nat_iff)
  then show ?thesis by (simp add: push_bit_eq_mult)
qed

lemma byte_nibbles:
  "hi < 16 \<and> lo < 16 \<and> (b :: 8 word) = push_bit 4 (of_nat hi) OR of_nat lo \<longleftrightarrow>
     hi = unat b div 16 \<and> lo = unat b mod 16"
proof -
  have b: "unat b < 256" using unsigned_less [of b] by simp
  show ?thesis
  proof
    assume h: "hi < 16 \<and> lo < 16 \<and> b = push_bit 4 (of_nat hi) OR of_nat lo"
    then have "unat b = (16 * hi + lo) mod 256"
      by (simp add: byte_of_nibbles unat_of_nat del: of_nat_add of_nat_mult)
    with h have "unat b = 16 * hi + lo" by simp
    with h show "hi = unat b div 16 \<and> lo = unat b mod 16" by simp
  next
    assume h: "hi = unat b div 16 \<and> lo = unat b mod 16"
    with b show "hi < 16 \<and> lo < 16 \<and> b = push_bit 4 (of_nat hi) OR of_nat lo"
      by (simp add: byte_of_nibbles)
  qed
qed

lemma hex_pairs_eq_Inr:
  "length s = 2 * n \<Longrightarrow> hex_pairs s = Inr bs \<longleftrightarrow> length bs = n \<and> s = backing_to_hex bs"
proof (induction s arbitrary: bs n rule: hex_pairs.induct)
  case (1 h l rest)
  then obtain k where n: "n = Suc k" by (cases n) auto
  show ?case
  proof (cases bs)
    case (Cons b cs)
    have "hex_pairs (h # l # rest) = Inr bs \<longleftrightarrow>
      (\<exists>hi lo. (hi < 16 \<and> lo < 16 \<and> b = push_bit 4 (of_nat hi) OR of_nat lo)
        \<and> h = hex_digit hi \<and> l = hex_digit lo \<and> hex_pairs rest = Inr cs)"
      by (auto simp: Cons nibble_eq_Some)
    also have "\<dots> \<longleftrightarrow> length bs = n \<and> h # l # rest = backing_to_hex bs"
      using "1.IH" [of k cs] "1.prems" n
      by (auto simp: byte_nibbles Cons backing_to_hex_def)
    finally show ?thesis .
  qed (auto simp: n)
qed (auto simp: backing_to_hex_def)

text \<open>
  The hexadecimal form of a backing identity is canonical: decoding accepts a text exactly when
  it is the encoding of a sixteen-byte identity that is not all zero, and then returns that identity.
\<close>

theorem backing_hex_canonical:
  "backing_from_hex s = Inr bs \<longleftrightarrow>
     length bs = 16 \<and> bs \<noteq> replicate 16 0 \<and> s = backing_to_hex bs"
proof -
  have len: "length (backing_to_hex bs) = 2 * length bs"
    by (induction bs) (auto simp: backing_to_hex_def)
  have "length s = 32 \<Longrightarrow> hex_pairs s = Inr cs \<longleftrightarrow> length cs = 16 \<and> s = backing_to_hex cs" for cs
    using hex_pairs_eq_Inr [of s 16 cs] by simp
  then show ?thesis
    using len by (auto simp: backing_from_hex_def backing_from_bytes_def split: if_splits)
qed
end
