(* ===== verification/Namespace_Validation.thy ===== *)
theory Namespace_Validation
  imports Core_Storage
begin

text \<open>
  What \<^verbatim>\<open>Namespace::validate\<close> (\<^verbatim>\<open>src/storage.rs\<close>) decides. The checker is an ordered sequence of
  passes over tables; \<open>wf_namespace\<close> says the same declaratively: well-formed inodes, exact link
  counts, and directories that form one tree under the root. The theory proves that the two
  agree, and what the tree condition gives a path walker.
\<close>

section \<open>Specification\<close>

definition dir_entries :: "node_data \<Rightarrow> directory_entry list" where
  "dir_entries d = (case d of ND_Directory es \<Rightarrow> es | _ \<Rightarrow> [])"

definition entries_of :: "(nat, node_metadata) fmap \<Rightarrow> nat \<Rightarrow> directory_entry list" where
  "entries_of nodes i = (case fmlookup nodes i of None \<Rightarrow> [] | Some n \<Rightarrow> dir_entries (nm_data n))"

definition is_dir_node :: "(nat, node_metadata) fmap \<Rightarrow> nat \<Rightarrow> bool" where
  "is_dir_node nodes i = (case fmlookup nodes i of None \<Rightarrow> False | Some n \<Rightarrow> is_dir_data (nm_data n))"

text \<open>The number of directory entries that name an inode, and of entries that name directories.\<close>

definition ref_count :: "(nat, node_metadata) fmap \<Rightarrow> nat \<Rightarrow> nat" where
  "ref_count nodes i =
     (\<Sum>p \<in> fmdom' nodes. length (filter (\<lambda>e. dn_inode e = i) (entries_of nodes p)))"

definition child_dir_count :: "(nat, node_metadata) fmap \<Rightarrow> nat \<Rightarrow> nat" where
  "child_dir_count nodes p = length (filter (\<lambda>e. is_dir_node nodes (dn_inode e)) (entries_of nodes p))"

inductive dir_reachable :: "(nat, node_metadata) fmap \<Rightarrow> nat \<Rightarrow> nat \<Rightarrow> bool"
  for nodes root where
  dir_reachable_root: "dir_reachable nodes root root"
| dir_reachable_step: "dir_reachable nodes root p \<Longrightarrow> e \<in> set (entries_of nodes p) \<Longrightarrow>
    is_dir_node nodes (dn_inode e) \<Longrightarrow> dir_reachable nodes root (dn_inode e)"

definition extent_end :: "block_extent \<Rightarrow> nat" where
  "extent_end e = be_file_offset e + be_length e"

definition extent_ok :: "nat \<Rightarrow> block_extent \<Rightarrow> bool" where
  "extent_ok file_size e \<longleftrightarrow>
     0 < be_length e \<and> be_block e \<noteq> [] \<and> extent_end e \<le> U64_MAX
     \<and> be_block_offset e + be_length e \<le> U64_MAX \<and> extent_end e \<le> file_size"

definition extents_ok :: "nat \<Rightarrow> block_extent list \<Rightarrow> bool" where
  "extents_ok file_size es \<longleftrightarrow>
     list_all (extent_ok file_size) es
     \<and> sorted_wrt (\<lambda>a b. extent_end a \<le> be_file_offset b) es"

definition node_kind_ok :: "node_metadata \<Rightarrow> bool" where
  "node_kind_ok n \<longleftrightarrow>
     (let t = file_type_from_mode (st_mode (nm_stats n)) in
      st_mode (nm_stats n) AND S_IFMT = mode_bits t
      \<and> (case nm_data n of
           ND_Directory _ \<Rightarrow> t = Directory
         | ND_File l \<Rightarrow> t = File \<and> is_ok (chunker_from_config (fl_chunker l))
                        \<and> extents_ok (st_size (nm_stats n)) (fl_extents l)
         | ND_Symlink _ \<Rightarrow> t = Symlink
         | ND_Special \<Rightarrow> is_special t))"

definition entry_name_ok :: "string \<Rightarrow> bool" where
  "entry_name_ok x \<longleftrightarrow> x \<noteq> [] \<and> x \<noteq> ''.'' \<and> x \<noteq> ''..'' \<and> CHR ''/'' \<notin> set x \<and> CHR 0x00 \<notin> set x"

definition entries_ok :: "(nat, node_metadata) fmap \<Rightarrow> directory_entry list \<Rightarrow> bool" where
  "entries_ok nodes es \<longleftrightarrow>
     distinct (map dn_name es)
     \<and> (\<forall>e \<in> set es. entry_name_ok (dn_name e) \<and> dn_inode e \<in> fmdom' nodes)"

definition links_ok :: "namespace \<Rightarrow> nat \<Rightarrow> node_metadata \<Rightarrow> bool" where
  "links_ok ns i n \<longleftrightarrow>
     (if is_dir_data (nm_data n)
      then ref_count (ns_nodes ns) i = (if i = ns_root ns then 0 else 1)
           \<and> st_nlink (nm_stats n) = 2 + child_dir_count (ns_nodes ns) i
           \<and> dir_reachable (ns_nodes ns) (ns_root ns) i
      else st_nlink (nm_stats n) = ref_count (ns_nodes ns) i)"

definition wf_namespace :: "namespace \<Rightarrow> bool" where
  "wf_namespace ns \<longleftrightarrow>
     ns_format_version ns = NAMESPACE_FORMAT_VERSION
     \<and> is_ok (chunker_from_config (ns_default_chunker ns))
     \<and> 0 < ns_root ns \<and> is_dir_node (ns_nodes ns) (ns_root ns)
     \<and> (\<forall>i n. fmlookup (ns_nodes ns) i = Some n \<longrightarrow>
          0 < i \<and> i < ns_next_inode ns \<and> st_ino (nm_stats n) = i
          \<and> node_kind_ok n \<and> entries_ok (ns_nodes ns) (dir_entries (nm_data n))
          \<and> links_ok ns i n)"

section \<open>Extents and node kinds\<close>

lemma validate_extents_from_iff:
  "validate_extents_from pe es sz = Inr () \<longleftrightarrow>
     extents_ok sz es \<and> (case pe of None \<Rightarrow> True | Some k \<Rightarrow> (\<forall>e \<in> set es. k \<le> be_file_offset e))"
proof (induction es arbitrary: pe)
  case (Cons e es)
  have mono: "k \<le> be_file_offset e \<Longrightarrow> extent_end e \<le> be_file_offset x \<Longrightarrow> k \<le> be_file_offset x" for k x
    by (simp add: extent_end_def)
  show ?case
    by (auto simp: Cons.IH extents_ok_def extent_ok_def extent_end_def split: option.splits
        dest: mono intro: order_trans)
qed (auto simp: extents_ok_def split: option.splits)

lemma validate_file_extents_iff:
  "validate_file_extents es sz = Inr () \<longleftrightarrow> extents_ok sz es"
  by (simp add: validate_file_extents_def validate_extents_from_iff)

lemma unit_result_cases: "r = Inr () \<longleftrightarrow> is_ok (r :: 'e + unit)"
  by (cases r) auto

lemma validate_file_layout_iff:
  "validate_file_layout l sz = Inr () \<longleftrightarrow>
     is_ok (chunker_from_config (fl_chunker l)) \<and> extents_ok sz (fl_extents l)"
  by (auto simp: validate_file_layout_def validate_file_extents_iff is_ok_iff)

lemma validate_node_kind_iff: "validate_node_kind n = Inr () \<longleftrightarrow> node_kind_ok n"
proof -
  let ?m = "st_mode (nm_stats n) AND S_IFMT"
  have t: "file_type_from_mode (st_mode (nm_stats n)) = t \<and> ?m = mode_bits t \<longleftrightarrow> ?m = mode_bits t" for t
    using from_mode_of_bits by blast
  have k: "node_kind_ok n \<longleftrightarrow> (case nm_data n of
           ND_Directory _ \<Rightarrow> ?m = S_IFDIR
         | ND_File l \<Rightarrow> ?m = S_IFREG \<and> is_ok (chunker_from_config (fl_chunker l))
                        \<and> extents_ok (st_size (nm_stats n)) (fl_extents l)
         | ND_Symlink _ \<Rightarrow> ?m = S_IFLNK
         | ND_Special \<Rightarrow> ?m = S_IFBLK \<or> ?m = S_IFCHR \<or> ?m = S_IFIFO \<or> ?m = S_IFSOCK)"
    using t [of Directory] t [of File] t [of Symlink] t [of BlockDevice] t [of CharacterDevice]
      t [of Fifo] t [of Socket]
    by (cases "file_type_from_mode (st_mode (nm_stats n))")
      (auto simp: node_kind_ok_def Let_def split: node_data.splits)
  show ?thesis
    unfolding k
    by (auto simp: validate_node_kind_def Let_def validate_file_layout_iff
        split: node_data.splits if_splits)
qed

lemma validate_entry_name_iff: "validate_entry_name x = Inr () \<longleftrightarrow> entry_name_ok x"
  by (auto simp: validate_entry_name_def entry_name_ok_def)

lemma node_kind_ok_dir: "node_kind_ok n \<Longrightarrow>
    is_dir_data (nm_data n) \<longleftrightarrow> st_mode (nm_stats n) AND S_IFMT = S_IFDIR"
  by (cases "nm_data n"; cases "file_type_from_mode (st_mode (nm_stats n))")
    (auto simp: node_kind_ok_def Let_def is_dir_data_def mode_consts)

section \<open>The counting pass\<close>

abbreviation cnt :: "(nat, nat) fmap \<Rightarrow> nat \<Rightarrow> nat" where
  "cnt m i \<equiv> (case fmlookup m i of None \<Rightarrow> 0 | Some c \<Rightarrow> c)"

definition dir_ref :: "(nat, node_metadata) fmap \<Rightarrow> directory_entry list \<Rightarrow> nat \<Rightarrow> nat" where
  "dir_ref nodes es i = (if is_dir_node nodes i then length (filter (\<lambda>e. dn_inode e = i) es) else 0)"

lemma increment_count_iff:
  "increment_count m i w = Inr m' \<longleftrightarrow> cnt m i < U64_MAX \<and> m' = fmupd i (cnt m i + 1) m"
  by (auto simp: increment_count_def Let_def)

lemma cnt_upd: "cnt (fmupd i c m) j = (if i = j then c else cnt m j)"
  by simp

lemma is_dir_node_lookup: "fmlookup nodes i = Some n \<Longrightarrow> is_dir_node nodes i \<longleftrightarrow> is_dir_data (nm_data n)"
  by (simp add: is_dir_node_def)

text \<open>One entry: its effect on the tables, and when it is accepted.\<close>

lemma count_entry_iff:
  "count_entry nodes (names, cd, rf, drf) e = Inr st' \<longleftrightarrow>
     entry_name_ok (dn_name e) \<and> dn_name e |\<notin>| names \<and> dn_inode e \<in> fmdom' nodes
     \<and> cnt rf (dn_inode e) < U64_MAX
     \<and> (is_dir_node nodes (dn_inode e) \<longrightarrow> cd < U64_MAX \<and> cnt drf (dn_inode e) < U64_MAX)
     \<and> st' = (finsert (dn_name e) names,
              (if is_dir_node nodes (dn_inode e) then cd + 1 else cd),
              fmupd (dn_inode e) (cnt rf (dn_inode e) + 1) rf,
              (if is_dir_node nodes (dn_inode e)
               then fmupd (dn_inode e) (cnt drf (dn_inode e) + 1) drf else drf))"
  by (cases "fmlookup nodes (dn_inode e)")
    (auto simp: count_entry_def validate_entry_name_iff increment_count_iff is_dir_node_lookup
      fmlookup_dom'_iff split: if_splits)

lemma count_entries_sound:
  assumes "try_fold (count_entry nodes) (names, cd, rf, drf) es = Inr (names', cd', rf', drf')"
  shows "distinct (map dn_name es) \<and> (\<forall>e \<in> set es. dn_name e |\<notin>| names)
    \<and> (\<forall>e \<in> set es. entry_name_ok (dn_name e) \<and> dn_inode e \<in> fmdom' nodes)
    \<and> cd' = cd + length (filter (\<lambda>e. is_dir_node nodes (dn_inode e)) es)
    \<and> (\<forall>i. cnt rf' i = cnt rf i + length (filter (\<lambda>e. dn_inode e = i) es))
    \<and> (\<forall>i. cnt drf' i = cnt drf i + dir_ref nodes es i)"
  using assms
proof (induction es arbitrary: names cd rf drf)
  case (Cons e es)
  obtain n1 c1 r1 d1 where step: "count_entry nodes (names, cd, rf, drf) e = Inr (n1, c1, r1, d1)"
    and rest: "try_fold (count_entry nodes) (n1, c1, r1, d1) es = Inr (names', cd', rf', drf')"
    using Cons.prems by auto
  from step show ?case
    unfolding count_entry_iff using Cons.IH [OF rest]
    by (auto simp: cnt_upd dir_ref_def split: if_splits)
qed (simp add: dir_ref_def)

lemma count_entries_complete:
  assumes "distinct (map dn_name es)" "\<forall>e \<in> set es. dn_name e |\<notin>| names"
    and "\<forall>e \<in> set es. entry_name_ok (dn_name e) \<and> dn_inode e \<in> fmdom' nodes"
    and "cd \<le> b" "\<forall>i. cnt rf i \<le> b" "\<forall>i. cnt drf i \<le> b" "b + length es \<le> U64_MAX"
  shows "is_ok (try_fold (count_entry nodes) (names, cd, rf, drf) es)"
  using assms
proof (induction es arbitrary: names cd rf drf b)
  case (Cons e es)
  let ?i = "dn_inode e"
  have room: "cnt rf ?i < U64_MAX" "cnt drf ?i < U64_MAX" "cd < U64_MAX"
    using Cons.prems(4-7) by (auto intro: le_less_trans)
  obtain st where st: "count_entry nodes (names, cd, rf, drf) e = Inr st"
    using Cons.prems(1-3) room by (auto simp: count_entry_iff)
  obtain n1 c1 r1 d1 where st1: "st = (n1, c1, r1, d1)" by (cases st)
  have "is_ok (try_fold (count_entry nodes) (n1, c1, r1, d1) es)"
  proof (rule Cons.IH [where b = "b + 1"])
    show "\<forall>e \<in> set es. dn_name e |\<notin>| n1"
      using st Cons.prems(1,2) unfolding st1 count_entry_iff by (auto simp: image_iff)
    show "c1 \<le> b + 1" "\<forall>i. cnt r1 i \<le> b + 1" "\<forall>i. cnt d1 i \<le> b + 1"
      using st Cons.prems unfolding st1 count_entry_iff by (auto simp: cnt_upd le_SucI)
  qed (use Cons.prems in auto)
  with st st1 show ?case by simp
qed simp

text \<open>All nodes: the tables are the reference counts of the specification.\<close>

abbreviation node_refs :: "(nat \<times> node_metadata) list \<Rightarrow> nat \<Rightarrow> nat" where
  "node_refs kns i \<equiv>
     sum_list (map (\<lambda>kn. length (filter (\<lambda>e. dn_inode e = i) (dir_entries (nm_data (snd kn))))) kns)"

abbreviation node_entry_total :: "(nat \<times> node_metadata) list \<Rightarrow> nat" where
  "node_entry_total kns \<equiv> sum_list (map (\<lambda>kn. length (dir_entries (nm_data (snd kn)))) kns)"

lemma count_node_iff:
  "count_node nodes (rf, drf, dc) kn = Inr st' \<longleftrightarrow>
     (if is_dir_data (nm_data (snd kn))
      then \<exists>names cd rf' drf'.
             try_fold (count_entry nodes) ({||}, 0, rf, drf) (dir_entries (nm_data (snd kn)))
               = Inr (names, cd, rf', drf')
             \<and> st' = (rf', drf', fmupd (fst kn) cd dc)
      else st' = (rf, drf, dc))"
  by (auto simp: count_node_def is_dir_data_def dir_entries_def split: node_data.splits)

lemma count_nodes_sound:
  assumes "try_fold (count_node nodes) (rf, drf, dc) kns = Inr (rf', drf', dc')"
    and "distinct (map fst kns)"
  shows "(\<forall>kn \<in> set kns. entries_ok nodes (dir_entries (nm_data (snd kn))))
    \<and> (\<forall>i. cnt rf' i = cnt rf i + node_refs kns i)
    \<and> (\<forall>i. cnt drf' i = cnt drf i + (if is_dir_node nodes i then node_refs kns i else 0))
    \<and> (\<forall>k. k \<notin> fst ` set kns \<longrightarrow> cnt dc' k = cnt dc k)
    \<and> (\<forall>kn \<in> set kns. is_dir_data (nm_data (snd kn)) \<longrightarrow> cnt dc' (fst kn)
         = length (filter (\<lambda>e. is_dir_node nodes (dn_inode e)) (dir_entries (nm_data (snd kn)))))"
  using assms
proof (induction kns arbitrary: rf drf dc)
  case (Cons kn kns)
  obtain r1 d1 c1 where step: "count_node nodes (rf, drf, dc) kn = Inr (r1, d1, c1)"
    and rest: "try_fold (count_node nodes) (r1, d1, c1) kns = Inr (rf', drf', dc')"
    using Cons.prems(1) by auto
  note IH = Cons.IH [OF rest]
  show ?case
  proof (cases "is_dir_data (nm_data (snd kn))")
    case True
    then obtain names cd where
      f: "try_fold (count_entry nodes) ({||}, 0, rf, drf) (dir_entries (nm_data (snd kn)))
            = Inr (names, cd, r1, d1)" and c1: "c1 = fmupd (fst kn) cd dc"
      using step by (auto simp: count_node_iff)
    from count_entries_sound [OF f] IH Cons.prems(2) True show ?thesis
      by (auto simp: entries_ok_def c1 dir_ref_def image_iff)
  next
    case False
    then have "dir_entries (nm_data (snd kn)) = []"
      by (auto simp: is_dir_data_def dir_entries_def split: node_data.splits)
    with False step IH Cons.prems(2) show ?thesis
      by (auto simp: count_node_iff entries_ok_def)
  qed
qed simp

lemma count_nodes_complete:
  assumes "\<forall>kn \<in> set kns. entries_ok nodes (dir_entries (nm_data (snd kn)))"
    and "\<forall>i. cnt rf i \<le> b" "\<forall>i. cnt drf i \<le> b" "b + node_entry_total kns \<le> U64_MAX"
  shows "is_ok (try_fold (count_node nodes) (rf, drf, dc) kns)"
  using assms
proof (induction kns arbitrary: rf drf dc b)
  case (Cons kn kns)
  let ?es = "dir_entries (nm_data (snd kn))"
  show ?case
  proof (cases "is_dir_data (nm_data (snd kn))")
    case True
    have ok: "entries_ok nodes ?es" using Cons.prems(1) by simp
    have "is_ok (try_fold (count_entry nodes) ({||}, 0, rf, drf) ?es)"
      by (rule count_entries_complete [where b = b])
        (use ok Cons.prems in \<open>auto simp: entries_ok_def\<close>)
    then obtain names cd r1 d1 where
      f: "try_fold (count_entry nodes) ({||}, 0, rf, drf) ?es = Inr (names, cd, r1, d1)"
      by (auto simp: is_ok_iff)
    have le: "length (filter P ?es) \<le> length ?es" for P by simp
    have "is_ok (try_fold (count_node nodes) (r1, d1, fmupd (fst kn) cd dc) kns)"
    proof (rule Cons.IH [where b = "b + length ?es"])
      show "\<forall>i. cnt r1 i \<le> b + length ?es" "\<forall>i. cnt d1 i \<le> b + length ?es"
        using count_entries_sound [OF f] Cons.prems(2,3) le by (auto simp: dir_ref_def add_mono)
    qed (use Cons.prems in auto)
    moreover have "count_node nodes (rf, drf, dc) kn = Inr (r1, d1, fmupd (fst kn) cd dc)"
      using f True by (simp add: count_node_iff)
    ultimately show ?thesis by simp
  next
    case False
    then have "count_node nodes (rf, drf, dc) kn = Inr (rf, drf, dc)" by (simp add: count_node_iff)
    with Cons show ?thesis by fastforce
  qed
qed simp

section \<open>The directory traversal\<close>

abbreviation dir_set :: "(nat, node_metadata) fmap \<Rightarrow> nat set" where
  "dir_set nodes \<equiv> {i. is_dir_node nodes i}"

definition dir_children :: "(nat, node_metadata) fmap \<Rightarrow> nat \<Rightarrow> nat list" where
  "dir_children nodes i = filter (is_dir_node nodes) (map dn_inode (entries_of nodes i))"

lemma dir_set_subset: "dir_set nodes \<subseteq> fmdom' nodes"
  by (auto simp: is_dir_node_def fmlookup_dom'_iff split: option.splits)

lemma finite_dir_set [simp]: "finite (dir_set nodes)"
  using finite_subset [OF dir_set_subset] by simp

lemma push_children_iff:
  "push_children nodes es pending = Inr pending' \<longleftrightarrow>
     (\<forall>e \<in> set es. dn_inode e \<in> fmdom' nodes)
     \<and> pending' = rev (filter (is_dir_node nodes) (map dn_inode es)) @ pending"
proof (induction es arbitrary: pending)
  case (Cons e es)
  then show ?case
    by (cases "fmlookup nodes (dn_inode e)") (auto simp: is_dir_node_def fmlookup_dom'_iff)
qed auto

declare traverse_directories.simps(2) [simp del]

text \<open>One iteration of the loop, on a table whose entries all resolve.\<close>

lemma traverse_step:
  assumes "\<And>p e. e \<in> set (entries_of nodes p) \<Longrightarrow> dn_inode e \<in> fmdom' nodes"
    and "i |\<notin>| V" "i \<in> fmdom' nodes"
  shows "traverse_directories nodes V (i # pending)
    = traverse_directories nodes (finsert i V) (rev (dir_children nodes i) @ pending)"
proof -
  obtain n where n: "fmlookup nodes i = Some n" using assms(3) by (auto simp: fmlookup_dom'_iff)
  have "(case nm_data n of ND_Directory es \<Rightarrow> push_children nodes es pending | _ \<Rightarrow> Inr pending)
      = Inr (rev (dir_children nodes i) @ pending)"
    using assms(1) [of _ i] n
    by (cases "nm_data n")
      (auto simp: push_children_iff dir_children_def entries_of_def dir_entries_def)
  with assms n show ?thesis by (simp add: traverse_directories.simps(2))
qed

lemma traverse_sound:
  assumes "traverse_directories nodes V pending = Inr V'"
    and "\<And>p e. e \<in> set (entries_of nodes p) \<Longrightarrow> dn_inode e \<in> fmdom' nodes"
    and "\<And>i. i |\<in>| V \<or> i \<in> set pending \<Longrightarrow> is_dir_node nodes i \<and> dir_reachable nodes root i"
  shows "i |\<in>| V' \<Longrightarrow> is_dir_node nodes i \<and> dir_reachable nodes root i"
  using assms
proof (induction nodes V pending rule: traverse_directories.induct)
  case (2 nodes V j pending)
  have new: "j |\<notin>| V"
    using "2.prems"(2) by (auto simp: traverse_directories.simps(2) split: if_splits)
  have j: "is_dir_node nodes j" "dir_reachable nodes root j" using "2.prems"(4) by auto
  then obtain n where n: "fmlookup nodes j = Some n" by (auto simp: is_dir_node_def split: option.splits)
  have dom: "j \<in> fmdom' nodes" using n by (rule fmdom'I)
  note step = traverse_step [OF "2.prems"(3) new dom]
  have run: "(case nm_data n of ND_Directory es \<Rightarrow> push_children nodes es pending | _ \<Rightarrow> Inr pending)
      = Inr (rev (dir_children nodes j) @ pending)"
    using "2.prems"(3) [of _ j] n
    by (cases "nm_data n")
      (auto simp: push_children_iff dir_children_def entries_of_def dir_entries_def)
  show ?case
  proof (rule "2.IH" [OF new n run "2.prems"(1)])
    show "traverse_directories nodes (finsert j V) (rev (dir_children nodes j) @ pending) = Inr V'"
      using "2.prems"(2) step by simp
    fix k assume "k |\<in>| finsert j V \<or> k \<in> set (rev (dir_children nodes j) @ pending)"
    then show "is_dir_node nodes k \<and> dir_reachable nodes root k"
      using j "2.prems"(4) by (auto simp: dir_children_def intro: dir_reachable_step)
  qed (rule "2.prems"(3))
qed auto

lemma sum_eq_1_nat:
  fixes f :: "'b \<Rightarrow> nat"
  assumes "sum f S = 1" "finite S" "p \<in> S" "f p > 0"
  shows "f p = 1" and "q \<in> S \<Longrightarrow> f q > 0 \<Longrightarrow> q = p"
proof -
  have s: "sum f S = f p + sum f (S - {p})" using assms(2,3) by (rule sum.remove)
  with assms show "f p = 1" by simp
  have "sum f (S - {p}) = 0" using s assms(1,4) by linarith
  then have "\<forall>a \<in> S - {p}. f a = 0" using assms(2) by (simp add: sum_eq_0_iff)
  then show "q \<in> S \<Longrightarrow> f q > 0 \<Longrightarrow> q = p" by (metis DiffI less_numeral_extra(3) singletonD)
qed

text \<open>Exact reference counts make the directories a forest: one parent, no parent for the root.\<close>

lemma entry_parent_in_dom: "e \<in> set (entries_of nodes p) \<Longrightarrow> p \<in> fmdom' nodes"
  by (cases "fmlookup nodes p") (auto simp: entries_of_def intro: fmdom'I)

lemma distinct_count_list: "(\<And>c. c \<in> set xs \<Longrightarrow> count_list xs c = 1) \<Longrightarrow> distinct xs"
proof (induction xs)
  case (Cons x xs)
  have "count_list xs x = 0" using Cons.prems [of x] by simp
  then have "x \<notin> set xs" by (simp add: count_list_0_iff)
  moreover have "count_list xs c = 1" if "c \<in> set xs" for c
    using that Cons.prems [of c] \<open>x \<notin> set xs\<close> by (auto split: if_splits)
  ultimately show ?case using Cons.IH by simp
qed simp

lemma dir_children_count:
  assumes "c \<in> set (dir_children nodes p)"
  shows "p \<in> fmdom' nodes" and "length (filter (\<lambda>e. dn_inode e = c) (entries_of nodes p)) > 0"
    and "is_dir_node nodes c"
  using assms entry_parent_in_dom
  by (auto simp: dir_children_def length_greater_0_conv filter_empty_conv)

lemma unique_parent:
  assumes "ref_count nodes c = 1" "c \<in> set (dir_children nodes p)" "c \<in> set (dir_children nodes q)"
  shows "q = p"
  using sum_eq_1_nat(2) [OF assms(1) [unfolded ref_count_def]] dir_children_count [OF assms(2)]
    dir_children_count [OF assms(3)] by simp

lemma root_no_parent: "ref_count nodes c = 0 \<Longrightarrow> c \<notin> set (dir_children nodes p)"
  using dir_children_count [of c nodes p] by (force simp: ref_count_def)

lemma distinct_dir_children:
  assumes "\<And>c. c \<in> set (dir_children nodes p) \<Longrightarrow> ref_count nodes c = 1"
  shows "distinct (dir_children nodes p)"
proof -
  have "count_list (dir_children nodes p) c = 1" if c: "c \<in> set (dir_children nodes p)" for c
  proof -
    have "count_list (dir_children nodes p) c
        = length (filter (\<lambda>e. dn_inode e = c) (entries_of nodes p))"
      using dir_children_count(3) [OF c]
      by (simp add: dir_children_def count_list_eq_length_filter filter_map comp_def conj_commute
          eq_commute cong: conj_cong)
        (metis (mono_tags, lifting))
    then show ?thesis
      using sum_eq_1_nat(1) [OF assms [OF c, unfolded ref_count_def]] dir_children_count [OF c] by simp
  qed
  then show ?thesis by (rule distinct_count_list)
qed

lemma traverse_complete:
  assumes dom: "\<And>p e. e \<in> set (entries_of nodes p) \<Longrightarrow> dn_inode e \<in> fmdom' nodes"
    and rc: "\<And>i. is_dir_node nodes i \<Longrightarrow> ref_count nodes i = (if i = root then 0 else 1)"
    and "distinct pending" "set pending \<inter> fset V = {}"
    and "\<And>i. i \<in> fset V \<union> set pending \<Longrightarrow> is_dir_node nodes i"
    and "\<And>i. i |\<in>| V \<Longrightarrow> set (dir_children nodes i) \<subseteq> fset V \<union> set pending"
    and "\<And>i. i \<in> fset V \<union> set pending \<Longrightarrow> i = root \<or> (\<exists>p. p |\<in>| V \<and> i \<in> set (dir_children nodes p))"
  shows "\<exists>V'. traverse_directories nodes V pending = Inr V' \<and> fset V \<union> set pending \<subseteq> fset V'
    \<and> (\<forall>i. i |\<in>| V' \<longrightarrow> is_dir_node nodes i \<and> set (dir_children nodes i) \<subseteq> fset V')"
  using assms(3-)
proof (induction "fcard (fmdom nodes |-| V)" arbitrary: V pending rule: less_induct)
  case less
  show ?case
  proof (cases pending)
    case Nil
    with less.prems show ?thesis by auto
  next
    case (Cons j rest)
    let ?cs = "dir_children nodes j" and ?V = "finsert j V"
    have j: "is_dir_node nodes j" "j |\<notin>| V" using less.prems Cons by auto
    have jdom: "j \<in> fmdom' nodes" using j(1) dir_set_subset by auto
    have fresh: "c \<noteq> root \<and> c \<notin> fset V \<union> set pending" if c: "c \<in> set ?cs" for c
    proof -
      have d: "is_dir_node nodes c" using dir_children_count(3) [OF c] .
      then have nr: "c \<noteq> root" using root_no_parent rc c by metis
      with rc d have one: "ref_count nodes c = 1" by simp
      have "j |\<in>| V" if "c \<in> fset V \<union> set pending"
        using less.prems(5) [OF that] nr unique_parent [OF one c] by auto
      with j nr show ?thesis by blast
    qed
    have dist: "distinct ?cs"
      using fresh rc dir_children_count(3) by (intro distinct_dir_children) auto
    have smaller: "fcard (fmdom nodes |-| ?V) < fcard (fmdom nodes |-| V)"
      using j jdom by (intro pfsubset_fcard_mono) (auto simp: fmdom'_alt_def)
    have "\<exists>V'. traverse_directories nodes ?V (rev ?cs @ rest) = Inr V'
        \<and> fset ?V \<union> set (rev ?cs @ rest) \<subseteq> fset V'
        \<and> (\<forall>i. i |\<in>| V' \<longrightarrow> is_dir_node nodes i \<and> set (dir_children nodes i) \<subseteq> fset V')"
    proof (rule less.hyps [OF smaller])
      show "distinct (rev ?cs @ rest)" "set (rev ?cs @ rest) \<inter> fset ?V = {}"
        using less.prems(1,2) fresh dist j Cons by auto
      show "is_dir_node nodes i" if "i \<in> fset ?V \<union> set (rev ?cs @ rest)" for i
        using that less.prems(3) dir_children_count(3) Cons by auto
      show "set (dir_children nodes i) \<subseteq> fset ?V \<union> set (rev ?cs @ rest)" if "i |\<in>| ?V" for i
        using that less.prems(4) Cons by auto
      show "i = root \<or> (\<exists>p. p |\<in>| ?V \<and> i \<in> set (dir_children nodes p))"
        if "i \<in> fset ?V \<union> set (rev ?cs @ rest)" for i
        using that less.prems(5) [of i] Cons by auto
    qed
    then show ?thesis
      using traverse_step [OF dom j(2) jdom, where pending = rest] Cons by auto
  qed
qed

section \<open>The checker decides the specification\<close>

lemma node_refs_sorted: "node_refs (sorted_list_of_fmap nodes) i = ref_count nodes i"
proof -
  have "node_refs (sorted_list_of_fmap nodes) i
      = (\<Sum>p \<in> fmdom' nodes. length (filter (\<lambda>e. dn_inode e = i) (dir_entries (nm_data (the (fmlookup nodes p))))))"
    by (rule sum_list_sorted_fmap)
  also have "\<dots> = ref_count nodes i"
    unfolding ref_count_def by (rule sum.cong) (auto simp: entries_of_def fmlookup_dom'_iff)
  finally show ?thesis .
qed

definition entry_total :: "(nat, node_metadata) fmap \<Rightarrow> nat" where
  "entry_total nodes = node_entry_total (sorted_list_of_fmap nodes)"

lemma dir_count_sorted:
  "length (filter (\<lambda>(_, node). is_dir_data (nm_data node)) (sorted_list_of_fmap nodes)) = card (dir_set nodes)"
proof -
  have "filter (\<lambda>(_, node). is_dir_data (nm_data node)) (sorted_list_of_fmap nodes)
      = filter (\<lambda>kn. is_dir_node nodes (fst kn)) (sorted_list_of_fmap nodes)" (is "?l = ?r")
    by (rule filter_cong) (auto simp: set_sorted_fmap is_dir_node_def)
  moreover have "length ?r = card (fst ` set ?r)"
    using distinct_keys_sorted_fmap [of nodes]
    by (metis distinct_card distinct_map_filter length_map list.set_map)
  moreover have "fst ` set ?r = dir_set nodes"
  proof (intro equalityI subsetI)
    fix i assume "i \<in> dir_set nodes"
    then obtain n where "fmlookup nodes i = Some n" "is_dir_node nodes i"
      by (auto simp: is_dir_node_def split: option.splits)
    then have "(i, n) \<in> set ?r" by (simp add: set_sorted_fmap)
    then show "i \<in> fst ` set ?r" by (rule rev_image_eqI) simp
  qed auto
  ultimately show ?thesis by simp
qed

definition dir_links_ok :: "namespace \<Rightarrow> nat \<Rightarrow> node_metadata \<Rightarrow> bool" where
  "dir_links_ok ns i n \<longleftrightarrow>
     ref_count (ns_nodes ns) i = (if i = ns_root ns then 0 else 1)
     \<and> st_nlink (nm_stats n) = 2 + child_dir_count (ns_nodes ns) i
     \<and> 2 + child_dir_count (ns_nodes ns) i \<le> U64_MAX"

lemma validate_directory_link_counts_iff:
  "validate_directory_link_counts r pc cc nl = Inr () \<longleftrightarrow>
     pc = (if r then 0 else 1) \<and> nl = 2 + cc \<and> 2 + cc \<le> U64_MAX"
  by (auto simp: validate_directory_link_counts_def)

lemma validate_directory_links_iff:
  assumes dom: "\<And>p e. e \<in> set (entries_of (ns_nodes ns) p) \<Longrightarrow> dn_inode e \<in> fmdom' (ns_nodes ns)"
    and root: "is_dir_node (ns_nodes ns) (ns_root ns)"
    and drf: "\<And>i. is_dir_node (ns_nodes ns) i \<Longrightarrow> cnt drf i = ref_count (ns_nodes ns) i"
    and dc: "\<And>i. is_dir_node (ns_nodes ns) i \<Longrightarrow> cnt dc i = child_dir_count (ns_nodes ns) i"
  shows "validate_directory_links ns drf dc = Inr () \<longleftrightarrow>
    (\<forall>i n. fmlookup (ns_nodes ns) i = Some n \<longrightarrow> is_dir_data (nm_data n) \<longrightarrow>
       dir_links_ok ns i n \<and> dir_reachable (ns_nodes ns) (ns_root ns) i)"
    (is "?lhs \<longleftrightarrow> ?rhs")
proof -
  let ?nodes = "ns_nodes ns" and ?root = "ns_root ns"
  let ?counts = "\<forall>i n. fmlookup ?nodes i = Some n \<longrightarrow> is_dir_data (nm_data n) \<longrightarrow> dir_links_ok ns i n"
  have loop: "for_each (\<lambda>(inode, node). if \<not> is_dir_data (nm_data node) then Inr ()
          else validate_directory_link_counts (inode = ?root) (cnt drf inode) (cnt dc inode)
                 (st_nlink (nm_stats node))) (sorted_list_of_fmap ?nodes) = Inr () \<longleftrightarrow> ?counts"
    using drf [unfolded is_dir_node_def] dc [unfolded is_dir_node_def]
    by (auto simp: for_each_sorted_fmap validate_directory_link_counts_iff dir_links_ok_def)
  have walk: "(\<exists>V. traverse_directories ?nodes {||} [?root] = Inr V \<and> fcard V = card (dir_set ?nodes))
      \<longleftrightarrow> (\<forall>i. is_dir_node ?nodes i \<longrightarrow> dir_reachable ?nodes ?root i)" if c: ?counts
  proof
    assume "\<exists>V. traverse_directories ?nodes {||} [?root] = Inr V \<and> fcard V = card (dir_set ?nodes)"
    then obtain V where V: "traverse_directories ?nodes {||} [?root] = Inr V"
      "card (fset V) = card (dir_set ?nodes)" by (auto simp: fcard.rep_eq)
    have in_V: "is_dir_node ?nodes i \<and> dir_reachable ?nodes ?root i" if "i |\<in>| V" for i
      by (rule traverse_sound [OF V(1) dom _ that]) (auto simp: root dir_reachable_root)
    then have "fset V = dir_set ?nodes"
      using V(2) by (intro card_subset_eq) auto
    with in_V show "\<forall>i. is_dir_node ?nodes i \<longrightarrow> dir_reachable ?nodes ?root i" by blast
  next
    assume reach: "\<forall>i. is_dir_node ?nodes i \<longrightarrow> dir_reachable ?nodes ?root i"
    have rc: "ref_count ?nodes i = (if i = ?root then 0 else 1)" if "is_dir_node ?nodes i" for i
      using c that by (auto simp: is_dir_node_def dir_links_ok_def split: option.splits)
    have "\<exists>V. traverse_directories ?nodes {||} [?root] = Inr V \<and> fset {||} \<union> set [?root] \<subseteq> fset V
        \<and> (\<forall>i. i |\<in>| V \<longrightarrow> is_dir_node ?nodes i \<and> set (dir_children ?nodes i) \<subseteq> fset V)"
      by (rule traverse_complete [where root = ?root, OF dom rc]) (use root in auto)
    then obtain V where V: "traverse_directories ?nodes {||} [?root] = Inr V" "?root |\<in>| V"
      and cl: "\<And>i. i |\<in>| V \<Longrightarrow> is_dir_node ?nodes i \<and> set (dir_children ?nodes i) \<subseteq> fset V"
      by auto
    have "i |\<in>| V" if "dir_reachable ?nodes ?root i" for i
      using that by induction (use V(2) cl in \<open>auto simp: dir_children_def\<close>)
    with reach cl have "fset V = dir_set ?nodes" by auto
    with V(1) show "\<exists>V. traverse_directories ?nodes {||} [?root] = Inr V \<and> fcard V = card (dir_set ?nodes)"
      by (auto simp: fcard.rep_eq)
  qed
  have "?lhs \<longleftrightarrow> ?counts \<and>
      (\<exists>V. traverse_directories ?nodes {||} [?root] = Inr V \<and> fcard V = card (dir_set ?nodes))"
    unfolding validate_directory_links_def and_then_eq_Inr dir_count_sorted using loop
    by (auto split: if_splits)
  also have "\<dots> \<longleftrightarrow> ?rhs"
    using walk by (auto simp: is_dir_node_def split: option.splits)
  finally show ?thesis .
qed

lemma validate_node_links_iff:
  assumes "\<And>i. cnt rf i = ref_count (ns_nodes ns) i"
  shows "validate_node_links ns rf = Inr () \<longleftrightarrow>
    (\<forall>i n. fmlookup (ns_nodes ns) i = Some n \<longrightarrow> \<not> is_dir_data (nm_data n) \<longrightarrow>
       st_nlink (nm_stats n) = ref_count (ns_nodes ns) i)"
  unfolding validate_node_links_def Let_def assms
  by (auto simp: for_each_sorted_fmap split: if_splits) (metis gr0I)

lemma for_each_validate_node_iff:
  "for_each validate_node (sorted_list_of_fmap nodes) = Inr () \<longleftrightarrow>
    (\<forall>i n. fmlookup nodes i = Some n \<longrightarrow> 0 < i \<and> st_ino (nm_stats n) = i \<and> node_kind_ok n)"
  by (auto simp: for_each_sorted_fmap validate_node_def validate_node_kind_iff)

lemma entries_ok_dom:
  assumes "\<And>i n. fmlookup nodes i = Some n \<Longrightarrow> entries_ok nodes (dir_entries (nm_data n))"
    and "e \<in> set (entries_of nodes p)"
  shows "dn_inode e \<in> fmdom' nodes"
  using assms by (cases "fmlookup nodes p") (auto simp: entries_of_def entries_ok_def)

lemma last_sorted_fset:
  assumes "S \<noteq> {||}"
  shows "i |\<in>| S \<Longrightarrow> i \<le> last (sorted_list_of_fset S)" and "last (sorted_list_of_fset S) |\<in>| S"
proof -
  have ne: "sorted_list_of_fset S \<noteq> []" using assms by (metis fset_of_list_simps(1) sorted_list_of_fset_simps(2))
  then show "last (sorted_list_of_fset S) |\<in>| S"
    by (metis last_in_set sorted_list_of_fset_simps(1))
  assume "i |\<in>| S"
  then have "i \<in> set (sorted_list_of_fset S)" by simp
  moreover have "sorted (sorted_list_of_fset S)" by (simp add: sorted_list_of_fset.rep_eq)
  ultimately show "i \<le> last (sorted_list_of_fset S)"
    by (metis in_set_conv_nth last_conv_nth length_pos_if_in_set less_Suc_eq_le Suc_diff_1 diff_less
        zero_less_one sorted_nth_mono list.size(3) less_numeral_extra(3))
qed

text \<open>The passes after the counting pass, once its tables are known to be the reference counts.\<close>

lemma validate_links_iff:
  assumes run: "try_fold (count_node (ns_nodes ns)) (fmempty, fmempty, fmempty)
      (sorted_list_of_fmap (ns_nodes ns)) = Inr (rf, drf, dc)"
    and root: "is_dir_node (ns_nodes ns) (ns_root ns)"
  shows "(\<forall>i n. fmlookup (ns_nodes ns) i = Some n \<longrightarrow> entries_ok (ns_nodes ns) (dir_entries (nm_data n)))
    \<and> (validate_directory_links ns drf dc = Inr () \<and> validate_node_links ns rf = Inr () \<longleftrightarrow>
        (\<forall>i n. fmlookup (ns_nodes ns) i = Some n \<longrightarrow>
           links_ok ns i n \<and> (is_dir_data (nm_data n) \<longrightarrow> 2 + child_dir_count (ns_nodes ns) i \<le> U64_MAX)))"
proof -
  let ?nodes = "ns_nodes ns"
  note tables = count_nodes_sound [OF run distinct_keys_sorted_fmap, unfolded node_refs_sorted]
  have ok: "entries_ok ?nodes (dir_entries (nm_data n))" if "fmlookup ?nodes i = Some n" for i n
    using tables that set_sorted_fmap [of "(i, n)" ?nodes] by auto
  have rf: "cnt rf i = ref_count ?nodes i" for i using tables by simp
  have drf: "cnt drf i = ref_count ?nodes i" if "is_dir_node ?nodes i" for i
    using tables that by simp
  have dc: "cnt dc i = child_dir_count ?nodes i" if d: "is_dir_node ?nodes i" for i
  proof -
    obtain n where n: "fmlookup ?nodes i = Some n" "is_dir_data (nm_data n)"
      using d by (auto simp: is_dir_node_def split: option.splits)
    then have "(i, n) \<in> set (sorted_list_of_fmap ?nodes)" by (simp add: set_sorted_fmap)
    with tables n show ?thesis by (auto simp: child_dir_count_def entries_of_def)
  qed
  have dom: "dn_inode e \<in> fmdom' ?nodes" if "e \<in> set (entries_of ?nodes p)" for p e
    using entries_ok_dom [of ?nodes e p] ok that by blast
  have split: "links_ok ns i n \<and> (is_dir_data (nm_data n) \<longrightarrow> 2 + child_dir_count ?nodes i \<le> U64_MAX)
      \<longleftrightarrow> (is_dir_data (nm_data n) \<longrightarrow> dir_links_ok ns i n \<and> dir_reachable ?nodes (ns_root ns) i)
        \<and> (\<not> is_dir_data (nm_data n) \<longrightarrow> st_nlink (nm_stats n) = ref_count ?nodes i)" for i n
    by (auto simp: links_ok_def dir_links_ok_def)
  have dirs: "validate_directory_links ns drf dc = Inr () \<longleftrightarrow>
    (\<forall>i n. fmlookup ?nodes i = Some n \<longrightarrow> is_dir_data (nm_data n) \<longrightarrow>
       dir_links_ok ns i n \<and> dir_reachable ?nodes (ns_root ns) i)"
    by (rule validate_directory_links_iff, erule dom, rule root, erule drf, erule dc)
  show ?thesis
    unfolding split validate_node_links_iff [of rf ns, OF rf] dirs using ok by blast
qed

lemma namespace_validate_unfold:
  "namespace_validate ns = Inr () \<longleftrightarrow>
     ns_format_version ns = NAMESPACE_FORMAT_VERSION
     \<and> is_ok (chunker_from_config (ns_default_chunker ns))
     \<and> fmdom (ns_nodes ns) \<noteq> {||}
     \<and> last (sorted_list_of_fset (fmdom (ns_nodes ns))) \<noteq> U64_MAX
     \<and> last (sorted_list_of_fset (fmdom (ns_nodes ns))) < ns_next_inode ns
     \<and> 0 < ns_root ns
     \<and> (\<exists>root. fmlookup (ns_nodes ns) (ns_root ns) = Some root \<and> st_mode (nm_stats root) AND S_IFMT = S_IFDIR)
     \<and> for_each validate_node (sorted_list_of_fmap (ns_nodes ns)) = Inr ()
     \<and> (\<exists>rf drf dc. try_fold (count_node (ns_nodes ns)) (fmempty, fmempty, fmempty)
            (sorted_list_of_fmap (ns_nodes ns)) = Inr (rf, drf, dc)
          \<and> validate_directory_links ns drf dc = Inr () \<and> validate_node_links ns rf = Inr ())"
proof -
  have "sorted_list_of_fset S = [] \<longleftrightarrow> S = {||}" for S :: "nat fset"
    by (metis fset_of_list_simps(1) sorted_list_of_fset_simps(2) sorted_list_of_fset_simps(1)
        set_empty2 bot_fset.rep_eq)
  then show ?thesis
    by (auto simp: namespace_validate_def validate_format_version_def Let_def is_ok_iff not_le)
qed

lemma namespace_validate_sound:
  assumes "namespace_validate ns = Inr ()"
  shows "wf_namespace ns"
proof -
  let ?nodes = "ns_nodes ns"
  from assms obtain rf drf dc root where
    run: "try_fold (count_node ?nodes) (fmempty, fmempty, fmempty) (sorted_list_of_fmap ?nodes)
            = Inr (rf, drf, dc)"
    and links: "validate_directory_links ns drf dc = Inr ()" "validate_node_links ns rf = Inr ()"
    and root: "fmlookup ?nodes (ns_root ns) = Some root" "st_mode (nm_stats root) AND S_IFMT = S_IFDIR"
    and each: "\<And>i n. fmlookup ?nodes i = Some n \<Longrightarrow> 0 < i \<and> st_ino (nm_stats n) = i \<and> node_kind_ok n"
    and last: "last (sorted_list_of_fset (fmdom ?nodes)) < ns_next_inode ns" and ne: "fmdom ?nodes \<noteq> {||}"
    and hd: "ns_format_version ns = NAMESPACE_FORMAT_VERSION"
      "is_ok (chunker_from_config (ns_default_chunker ns))" "0 < ns_root ns"
    by (auto simp: namespace_validate_unfold for_each_validate_node_iff)
  have rd: "is_dir_node ?nodes (ns_root ns)"
    using root each [OF root(1)] node_kind_ok_dir by (auto simp: is_dir_node_def)
  have "i < ns_next_inode ns" if "fmlookup ?nodes i = Some n" for i n
    using last_sorted_fset(1) [OF ne, of i] last that by (auto dest: fmdomI)
  with hd rd each validate_links_iff [OF run rd] links show ?thesis
    by (auto simp: wf_namespace_def)
qed

lemma child_dir_count_le_total:
  assumes "fmlookup nodes i = Some n"
  shows "child_dir_count nodes i \<le> entry_total nodes"
proof -
  have "child_dir_count nodes i \<le> length (dir_entries (nm_data n))"
    using assms by (simp add: child_dir_count_def entries_of_def)
  also have "\<dots> \<le> entry_total nodes"
    unfolding entry_total_def
    by (rule member_le_sum_list) (use assms set_sorted_fmap [of "(i, n)" nodes] in force)+
  finally show ?thesis .
qed

lemma namespace_validate_complete:
  assumes wf: "wf_namespace ns"
    and next_bound: "ns_next_inode ns \<le> U64_MAX" and total: "entry_total (ns_nodes ns) + 2 \<le> U64_MAX"
  shows "namespace_validate ns = Inr ()"
proof -
  let ?nodes = "ns_nodes ns"
  have each: "0 < i" "i < ns_next_inode ns" "st_ino (nm_stats n) = i" "node_kind_ok n"
    "entries_ok ?nodes (dir_entries (nm_data n))" "links_ok ns i n"
    if "fmlookup ?nodes i = Some n" for i n
    using wf that by (auto simp: wf_namespace_def)
  have rd: "is_dir_node ?nodes (ns_root ns)" using wf by (simp add: wf_namespace_def)
  then obtain root where root: "fmlookup ?nodes (ns_root ns) = Some root" "is_dir_data (nm_data root)"
    by (auto simp: is_dir_node_def split: option.splits)
  have mode: "st_mode (nm_stats root) AND S_IFMT = S_IFDIR"
    using node_kind_ok_dir [OF each(4) [OF root(1)]] root(2) by simp
  have ne: "fmdom ?nodes \<noteq> {||}" using root by (auto dest: fmdomI)
  then have last: "last (sorted_list_of_fset (fmdom ?nodes)) < ns_next_inode ns"
    using last_sorted_fset(2) [OF ne] each(2) by (auto simp: fmlookup_dom_iff)
  have "is_ok (try_fold (count_node ?nodes) (fmempty, fmempty, fmempty) (sorted_list_of_fmap ?nodes))"
    by (rule count_nodes_complete [where b = 0])
      (use each(5) total in \<open>auto simp: set_sorted_fmap entry_total_def\<close>)
  then obtain rf drf dc where
    run: "try_fold (count_node ?nodes) (fmempty, fmempty, fmempty) (sorted_list_of_fmap ?nodes)
            = Inr (rf, drf, dc)" by (auto simp: is_ok_iff)
  have "2 + child_dir_count ?nodes i \<le> U64_MAX" if "fmlookup ?nodes i = Some n" for i n
    using child_dir_count_le_total [OF that] total by simp
  with each(6) have "\<forall>i n. fmlookup ?nodes i = Some n \<longrightarrow>
      links_ok ns i n \<and> (is_dir_data (nm_data n) \<longrightarrow> 2 + child_dir_count ?nodes i \<le> U64_MAX)" by blast
  then have "validate_directory_links ns drf dc = Inr () \<and> validate_node_links ns rf = Inr ()"
    using validate_links_iff [OF run rd] by blast
  with run have links: "\<exists>rf drf dc. try_fold (count_node ?nodes) (fmempty, fmempty, fmempty)
      (sorted_list_of_fmap ?nodes) = Inr (rf, drf, dc)
      \<and> validate_directory_links ns drf dc = Inr () \<and> validate_node_links ns rf = Inr ()" by blast
  have max: "last (sorted_list_of_fset (fmdom ?nodes)) \<noteq> U64_MAX" using last next_bound by linarith
  have nodes: "\<forall>i n. fmlookup ?nodes i = Some n \<longrightarrow> 0 < i \<and> st_ino (nm_stats n) = i \<and> node_kind_ok n"
    using each(1,3,4) by blast
  have "ns_format_version ns = NAMESPACE_FORMAT_VERSION" "is_ok (chunker_from_config (ns_default_chunker ns))"
    "0 < ns_root ns" using wf by (simp_all add: wf_namespace_def)
  moreover have "\<exists>root. fmlookup ?nodes (ns_root ns) = Some root \<and> st_mode (nm_stats root) AND S_IFMT = S_IFDIR"
    using root(1) mode by blast
  ultimately show ?thesis
    unfolding namespace_validate_unfold for_each_validate_node_iff
    using ne last max nodes links by (intro conjI)
qed

section \<open>What validation gives\<close>

text \<open>The ranges of the machine integers that hold the next inode and the counters.\<close>

definition namespace_in_range :: "namespace \<Rightarrow> bool" where
  "namespace_in_range ns \<longleftrightarrow> ns_next_inode ns \<le> U64_MAX \<and> entry_total (ns_nodes ns) + 2 \<le> U64_MAX"

text \<open>The directory a list of names leads to, every name but possibly the last a directory.\<close>

fun walk_names :: "(nat, node_metadata) fmap \<Rightarrow> nat \<Rightarrow> string list \<Rightarrow> nat option" where
  "walk_names nodes i [] = Some i"
| "walk_names nodes i (x # xs) =
     (case find (\<lambda>e. dn_name e = x) (entries_of nodes i) of
        None \<Rightarrow> None
      | Some e \<Rightarrow> walk_names nodes (dn_inode e) xs)"

lemma walk_names_append:
  "walk_names nodes i (xs @ ys) =
     (case walk_names nodes i xs of None \<Rightarrow> None | Some j \<Rightarrow> walk_names nodes j ys)"
  by (induction xs arbitrary: i) (auto split: option.splits)

lemma walk_names_snoc:
  "walk_names nodes i (xs @ [x]) = Some d \<longleftrightarrow>
     (\<exists>p e. walk_names nodes i xs = Some p \<and> find (\<lambda>e. dn_name e = x) (entries_of nodes p) = Some e
        \<and> dn_inode e = d)"
  by (auto simp: walk_names_append split: option.splits)

lemma wf_entries:
  assumes "wf_namespace ns" "e \<in> set (entries_of (ns_nodes ns) p)"
  shows "distinct (map dn_name (entries_of (ns_nodes ns) p))" "is_dir_node (ns_nodes ns) p"
    "entry_name_ok (dn_name e)"
  using assms
  by (cases "fmlookup (ns_nodes ns) p";
      fastforce simp: wf_namespace_def entries_of_def entries_ok_def is_dir_node_def dir_entries_def
        is_dir_data_def split: node_data.splits)+

lemma wf_dir_refs:
  assumes "wf_namespace ns" "is_dir_node (ns_nodes ns) d"
  shows "ref_count (ns_nodes ns) d = (if d = ns_root ns then 0 else 1)"
    and "dir_reachable (ns_nodes ns) (ns_root ns) d"
  using assms by (auto simp: wf_namespace_def is_dir_node_def links_ok_def split: option.splits)

lemma find_name:
  assumes "distinct (map dn_name es)" "e \<in> set es"
  shows "find (\<lambda>f. dn_name f = dn_name e) es = Some e"
  using assms by (induction es) force+

lemma find_member: "find P es = Some e \<Longrightarrow> e \<in> set es \<and> P e"
  by (induction es) (auto split: if_splits)

lemma walk_names_reachable:
  assumes wf: "wf_namespace ns" and "dir_reachable (ns_nodes ns) (ns_root ns) d"
  shows "\<exists>xs. walk_names (ns_nodes ns) (ns_root ns) xs = Some d"
  using assms(2)
proof induction
  case dir_reachable_root
  show ?case by (rule exI [of _ "[]"]) simp
next
  case (dir_reachable_step p e)
  then obtain xs where "walk_names (ns_nodes ns) (ns_root ns) xs = Some p" by blast
  moreover have "find (\<lambda>f. dn_name f = dn_name e) (entries_of (ns_nodes ns) p) = Some e"
    using wf_entries(1) [OF wf] dir_reachable_step.hyps(2) find_name by blast
  ultimately have "walk_names (ns_nodes ns) (ns_root ns) (xs @ [dn_name e]) = Some (dn_inode e)"
    unfolding walk_names_snoc by blast
  then show ?case by blast
qed

lemma dir_childrenI:
  "e \<in> set (entries_of nodes p) \<Longrightarrow> is_dir_node nodes (dn_inode e) \<Longrightarrow> dn_inode e \<in> set (dir_children nodes p)"
  by (auto simp: dir_children_def)

lemma dir_entry_unique:
  assumes "ref_count nodes d = 1" "is_dir_node nodes d"
    and e: "e \<in> set (entries_of nodes p)" "dn_inode e = d"
    and f: "f \<in> set (entries_of nodes q)" "dn_inode f = d"
  shows "p = q \<and> e = f"
proof
  have pc: "d \<in> set (dir_children nodes p)" "d \<in> set (dir_children nodes q)"
    using dir_childrenI [OF e(1)] dir_childrenI [OF f(1)] assms(2) e(2) f(2) by simp_all
  show pq: "p = q" using unique_parent [OF assms(1) pc] by simp
  have "length (filter (\<lambda>e. dn_inode e = d) (entries_of nodes p)) = 1"
    using sum_eq_1_nat(1) [OF assms(1) [unfolded ref_count_def]] dir_children_count [OF pc(1)] by simp
  then obtain g where "filter (\<lambda>e. dn_inode e = d) (entries_of nodes p) = [g]"
    by (auto simp: length_Suc_conv)
  moreover have "e \<in> set (filter (\<lambda>e. dn_inode e = d) (entries_of nodes p))"
    "f \<in> set (filter (\<lambda>e. dn_inode e = d) (entries_of nodes p))" using e f pq by auto
  ultimately show "e = f" by simp
qed

lemma walk_names_unique:
  assumes wf: "wf_namespace ns" and d: "is_dir_node (ns_nodes ns) d"
    and "walk_names (ns_nodes ns) (ns_root ns) xs = Some d" "walk_names (ns_nodes ns) (ns_root ns) ys = Some d"
  shows "xs = ys"
  using assms(2-)
proof (induction xs arbitrary: d ys rule: rev_induct)
  case Nil
  then show ?case
    using wf_dir_refs(1) [OF wf Nil.prems(1)] root_no_parent [of "ns_nodes ns" d]
    by (cases ys rule: rev_cases) (fastforce simp: walk_names_snoc dest: dir_childrenI dest!: find_member)+
next
  case (snoc x xs)
  from snoc.prems(2) obtain p e where
    pe: "walk_names (ns_nodes ns) (ns_root ns) xs = Some p" "e \<in> set (entries_of (ns_nodes ns) p)"
      "dn_name e = x" "dn_inode e = d"
    by (auto simp: walk_names_snoc dest!: find_member)
  have nr: "d \<noteq> ns_root ns"
    using wf_dir_refs(1) [OF wf snoc.prems(1)] root_no_parent [of "ns_nodes ns" d p] pe snoc.prems(1)
      dir_childrenI [OF pe(2)] by auto
  with snoc.prems(3) obtain y zs where ys: "ys = zs @ [y]" by (cases ys rule: rev_cases) auto
  with snoc.prems(3) obtain q f where
    qf: "walk_names (ns_nodes ns) (ns_root ns) zs = Some q" "f \<in> set (entries_of (ns_nodes ns) q)"
      "dn_name f = y" "dn_inode f = d"
    by (auto simp: walk_names_snoc dest!: find_member)
  have "p = q \<and> e = f"
    by (rule dir_entry_unique [OF _ snoc.prems(1) pe(2,4) qf(2,4)])
      (use wf_dir_refs(1) [OF wf snoc.prems(1)] nr in simp)
  with snoc.IH [OF wf_entries(2) [OF wf pe(2)] pe(1)] qf(1) pe(3) qf(3) ys show ?case by simp
qed

text \<open>
  Publishing a new version of one regular file: the directory structure is the same before and
  after.
\<close>

lemma file_update_structure:
  assumes orig: "fmlookup nodes i = Some a" "\<not> is_dir_data (nm_data a)" "\<not> is_dir_data (nm_data b)"
  shows "entries_of (fmupd i b nodes) = entries_of nodes" "is_dir_node (fmupd i b nodes) = is_dir_node nodes"
    "fmdom' (fmupd i b nodes) = fmdom' nodes"
proof -
  have e: "dir_entries (nm_data a) = []" "dir_entries (nm_data b) = []"
    using orig(2,3) by (auto simp: dir_entries_def is_dir_data_def split: node_data.splits)
  show "entries_of (fmupd i b nodes) = entries_of nodes" "is_dir_node (fmupd i b nodes) = is_dir_node nodes"
    using orig e by (auto simp: entries_of_def is_dir_node_def fun_eq_iff)
  have "i \<in> fmdom' nodes" using orig(1) by (rule fmdom'I)
  then show "fmdom' (fmupd i b nodes) = fmdom' nodes" by (simp add: insert_absorb)
qed

lemma file_update_counts:
  assumes orig: "fmlookup nodes i = Some a" "\<not> is_dir_data (nm_data a)" "\<not> is_dir_data (nm_data b)"
  shows "ref_count (fmupd i b nodes) = ref_count nodes"
    "child_dir_count (fmupd i b nodes) = child_dir_count nodes"
    "dir_reachable (fmupd i b nodes) root j = dir_reachable nodes root j"
    "entries_ok (fmupd i b nodes) es = entries_ok nodes es"
proof -
  note st = file_update_structure [OF orig]
  show "ref_count (fmupd i b nodes) = ref_count nodes"
    "child_dir_count (fmupd i b nodes) = child_dir_count nodes"
    "entries_ok (fmupd i b nodes) es = entries_ok nodes es"
    by (simp_all only: ref_count_def child_dir_count_def fun_eq_iff entries_ok_def st simp_thms)
  show "dir_reachable (fmupd i b nodes) root j = dir_reachable nodes root j"
  proof
    show "dir_reachable (fmupd i b nodes) root j" if "dir_reachable nodes root j"
      using that by induction (auto simp: st intro: dir_reachable.intros)
    show "dir_reachable nodes root j" if "dir_reachable (fmupd i b nodes) root j"
      using that by induction (auto simp: st intro: dir_reachable.intros)
  qed
qed

lemma wf_namespace_file_update:
  assumes wf: "wf_namespace ns" and i: "fmlookup (ns_nodes ns) i = Some a"
    and ok: "validate_inode_publication i a b = Inr ()"
  shows "wf_namespace (ns\<lparr>ns_nodes := fmupd i b (ns_nodes ns)\<rparr>)"
proof -
  have k: "node_kind_ok b" "is_file_data (nm_data a)" "is_file_data (nm_data b)"
    "st_ino (nm_stats b) = i" "st_nlink (nm_stats b) = st_nlink (nm_stats a)"
    using ok by (auto simp: validate_inode_publication_def validate_node_kind_iff
        inode_publication_attributes_allowed_def split: if_splits)
  then have f: "\<not> is_dir_data (nm_data a)" "\<not> is_dir_data (nm_data b)"
    by (auto simp: is_dir_data_def is_file_data_def split: node_data.splits)
  have de: "dir_entries (nm_data a) = []" "dir_entries (nm_data b) = []"
    using f by (auto simp: dir_entries_def is_dir_data_def split: node_data.splits)
  let ?ns = "ns\<lparr>ns_nodes := fmupd i b (ns_nodes ns)\<rparr>"
  note same = file_update_structure [OF i f] file_update_counts [OF i f]
  have links: "links_ok ?ns j n = links_ok ns j n" for j n
    by (simp add: links_ok_def same)
  have old: "0 < j \<and> j < ns_next_inode ns \<and> st_ino (nm_stats n) = j \<and> node_kind_ok n
      \<and> entries_ok (ns_nodes ns) (dir_entries (nm_data n)) \<and> links_ok ns j n"
    if "fmlookup (ns_nodes ns) j = Some n" for j n
    using wf that by (simp add: wf_namespace_def)
  have new: "links_ok ns i b" "entries_ok (ns_nodes ns) (dir_entries (nm_data b))"
    using old [OF i] f k(5) de by (simp_all add: links_ok_def)
  show ?thesis
    using wf old new k(1,4) old [OF i] unfolding wf_namespace_def
    by (auto simp: links same split: if_splits)
qed

lemma entry_total_alt: "entry_total nodes = (\<Sum>p \<in> fmdom' nodes. length (entries_of nodes p))"
proof -
  have "entry_total nodes = (\<Sum>p \<in> fmdom' nodes. length (dir_entries (nm_data (the (fmlookup nodes p)))))"
    unfolding entry_total_def by (rule sum_list_sorted_fmap)
  also have "\<dots> = (\<Sum>p \<in> fmdom' nodes. length (entries_of nodes p))"
    by (rule sum.cong) (auto simp: entries_of_def fmlookup_dom'_iff)
  finally show ?thesis .
qed

lemma file_update_in_range:
  assumes "namespace_in_range ns" "fmlookup (ns_nodes ns) i = Some a"
    and "is_file_data (nm_data a)" "is_file_data (nm_data b)"
  shows "namespace_in_range (ns\<lparr>ns_nodes := fmupd i b (ns_nodes ns)\<rparr>)"
proof -
  have f: "\<not> is_dir_data (nm_data a)" "\<not> is_dir_data (nm_data b)"
    using assms(3,4) by (auto simp: is_dir_data_def is_file_data_def split: node_data.splits)
  show ?thesis
    using assms(1) file_update_structure [OF assms(2) f] by (simp add: namespace_in_range_def entry_total_alt)
qed

text \<open>The namespace of the witnesses: a directory, a hard-linked file and an empty file.\<close>

definition sample_stats :: "nat \<Rightarrow> u32 \<Rightarrow> nat \<Rightarrow> nat \<Rightarrow> stats" where
  "sample_stats i m nl sz = \<lparr>st_dev = 0, st_ino = i, st_mode = m, st_nlink = nl, st_uid = 0, st_gid = 0,
     st_rdev = 0, st_size = sz, st_blksize = 4096, st_blocks = 0, st_atime_ms = 0, st_mtime_ms = 0,
     st_ctime_ms = 0, st_birthtime_ms = 0\<rparr>"

definition sample_file :: "nat \<Rightarrow> nat \<Rightarrow> block_extent list \<Rightarrow> nat \<Rightarrow> node_metadata" where
  "sample_file i nl es sz = \<lparr>nm_stats = sample_stats i 0x81A4 nl sz,
     nm_data = ND_File \<lparr>fl_chunker = fixed_size_config \<lparr>fsc_size = 4\<rparr>, fl_extents = es\<rparr>\<rparr>"

definition sample_dir :: "nat \<Rightarrow> nat \<Rightarrow> directory_entry list \<Rightarrow> node_metadata" where
  "sample_dir i nl es = \<lparr>nm_stats = sample_stats i 0x41ED nl 0, nm_data = ND_Directory es\<rparr>"

definition sample_namespace :: namespace where
  "sample_namespace = \<lparr>ns_format_version = 1, ns_root = 1, ns_next_inode = 5, ns_default_uid = 0,
     ns_default_gid = 0, ns_umask = 18, ns_default_chunker = fixed_size_config \<lparr>fsc_size = 4\<rparr>,
     ns_nodes = fmap_of_list
       [(1, sample_dir 1 3 [\<lparr>dn_name = ''d'', dn_inode = 2\<rparr>, \<lparr>dn_name = ''f'', dn_inode = 3\<rparr>]),
        (2, sample_dir 2 2 [\<lparr>dn_name = ''g'', dn_inode = 3\<rparr>, \<lparr>dn_name = ''h'', dn_inode = 4\<rparr>]),
        (3, sample_file 3 2 [\<lparr>be_file_offset = 0, be_block = ''b1'', be_block_offset = 0, be_length = 4\<rparr>,
                         \<lparr>be_file_offset = 4, be_block = ''b2'', be_block_offset = 0, be_length = 3\<rparr>] 7),
        (4, sample_file 4 1 [] 0)]\<rparr>"

text \<open>
  C8: Validation decides exactly the declarative well-formedness: on a namespace whose counters fit
  their machine integers, \<^verbatim>\<open>Namespace::validate\<close> succeeds if and only if every inode is well formed
  (its kind matches its mode, its extents are nonempty, in order, disjoint and inside the file),
  every link count is the number of entries that name the inode, and the directories form one tree
  under the root.
\<close>

theorem namespace_validate_iff:
  assumes "namespace_in_range ns"
  shows "namespace_validate ns = Inr () \<longleftrightarrow> wf_namespace ns"
  using assms namespace_validate_sound namespace_validate_complete
  by (auto simp: namespace_in_range_def)

theorem namespace_validate_iff_witness:
  "namespace_in_range sample_namespace \<and> wf_namespace sample_namespace"
proof
  show r: "namespace_in_range sample_namespace" by code_simp
  have "namespace_validate sample_namespace = Inr ()" by code_simp
  then show "wf_namespace sample_namespace" using namespace_validate_iff [OF r] by simp
qed

text \<open>
  In a validated namespace every directory is reached from the root by exactly one list of
  names: directories are neither shared nor cyclic, so walks terminate and a directory has one
  path.
\<close>

theorem validated_directory_unique_path:
  assumes "namespace_validate ns = Inr ()" "is_dir_node (ns_nodes ns) d"
  shows "\<exists>!names. walk_names (ns_nodes ns) (ns_root ns) names = Some d"
proof -
  have wf: "wf_namespace ns" by (rule namespace_validate_sound [OF assms(1)])
  obtain names where "walk_names (ns_nodes ns) (ns_root ns) names = Some d"
    using walk_names_reachable [OF wf wf_dir_refs(2) [OF wf assms(2)]] by blast
  then show ?thesis using walk_names_unique [OF wf assms(2)] by blast
qed

theorem validated_directory_unique_path_witness:
  "\<exists>!names. walk_names (ns_nodes sample_namespace) (ns_root sample_namespace) names = Some 2"
proof (rule validated_directory_unique_path)
  show "namespace_validate sample_namespace = Inr ()" by code_simp
  show "is_dir_node (ns_nodes sample_namespace) 2" by code_simp
qed

text \<open>
  C19: An inode publication that \<^verbatim>\<open>validate_inode_publication\<close> accepts keeps the namespace valid:
  replacing the stored inode by the published one, without looking at the rest of the namespace,
  gives a namespace that full validation accepts.
\<close>

theorem inode_publication_keeps_valid:
  assumes "namespace_validate ns = Inr ()" "namespace_in_range ns"
    and "fmlookup (ns_nodes ns) inode = Some original"
    and "validate_inode_publication inode original published = Inr ()"
  shows "namespace_validate (ns\<lparr>ns_nodes := fmupd inode published (ns_nodes ns)\<rparr>) = Inr ()"
proof -
  let ?ns = "ns\<lparr>ns_nodes := fmupd inode published (ns_nodes ns)\<rparr>"
  have "wf_namespace ?ns"
    by (rule wf_namespace_file_update [OF namespace_validate_sound [OF assms(1)] assms(3,4)])
  moreover have "namespace_in_range ?ns"
    by (rule file_update_in_range [OF assms(2,3)])
      (use assms(4) in \<open>auto simp: validate_inode_publication_def
        inode_publication_attributes_allowed_def split: if_splits\<close>)
  ultimately show ?thesis
    using namespace_validate_complete unfolding namespace_in_range_def by blast
qed

theorem inode_publication_keeps_valid_witness:
  "namespace_validate (sample_namespace\<lparr>ns_nodes := fmupd 4 (sample_file 4 1
     [\<lparr>be_file_offset = 0, be_block = ''b3'', be_block_offset = 0, be_length = 2\<rparr>] 2)
     (ns_nodes sample_namespace)\<rparr>) = Inr ()"
proof (rule inode_publication_keeps_valid)
  show "namespace_validate sample_namespace = Inr ()" "namespace_in_range sample_namespace"
    "fmlookup (ns_nodes sample_namespace) 4 = Some (sample_file 4 1 [] 0)" by code_simp+
  show "validate_inode_publication 4 (sample_file 4 1 [] 0)
    (sample_file 4 1 [\<lparr>be_file_offset = 0, be_block = ''b3'', be_block_offset = 0, be_length = 2\<rparr>] 2) = Inr ()"
    by code_simp
qed

end
