(* ===== verification/Mrs_Decimal.thy ===== *)
theory Mrs_Decimal
  imports Mrs_Prelude
begin

text \<open>
  The decimal text of unsigned 64-bit integers: what \<^verbatim>\<open>to_string\<close> (and \<^verbatim>\<open>format!("{}")\<close>) prints and
  what \<^verbatim>\<open>str::parse::<u64>\<close> of the standard library accepts. The stores build identifiers from it.
\<close>

definition digit_char :: "nat \<Rightarrow> char" where
  "digit_char d = char_of (48 + d)"

definition char_digit :: "char \<Rightarrow> nat option" where
  "char_digit c = (let b = (of_char c :: nat) in if 48 \<le> b \<and> b \<le> 57 then Some (b - 48) else None)"

fun u64_to_string :: "nat \<Rightarrow> string" where
  "u64_to_string n = (if n < 10 then [digit_char n] else u64_to_string (n div 10) @ [digit_char (n mod 10)])"

declare u64_to_string.simps [simp del]

text \<open>The digits of a number, most significant first; \<^const>\<open>None\<close> on a bad digit or on overflow.\<close>

fun parse_digits :: "nat \<Rightarrow> string \<Rightarrow> nat option" where
  "parse_digits acc [] = Some acc"
| "parse_digits acc (c # cs) =
     (case char_digit c of
        None \<Rightarrow> None
      | Some d \<Rightarrow> if acc * 10 + d \<le> U64_MAX then parse_digits (acc * 10 + d) cs else None)"

definition parse_u64 :: "string \<Rightarrow> nat option" where
  "parse_u64 s =
     (case s of
        [] \<Rightarrow> None
      | c # cs \<Rightarrow> if c = CHR ''+'' then (if cs = [] then None else parse_digits 0 cs)
                  else parse_digits 0 s)"

lemma char_digit_digit_char [simp]: "d < 10 \<Longrightarrow> char_digit (digit_char d) = Some d"
  by (simp add: char_digit_def digit_char_def Let_def)

lemma u64_to_string_nonempty [simp]: "u64_to_string n \<noteq> []" "[] \<noteq> u64_to_string n"
  by (simp_all add: u64_to_string.simps [of n])

lemma u64_to_string_digits: "c \<in> set (u64_to_string n) \<Longrightarrow> \<exists>d<10. c = digit_char d"
proof (induction n rule: u64_to_string.induct)
  case (1 n)
  show ?case
  proof (cases "n < 10")
    case True
    then show ?thesis using "1.prems" by (auto simp: u64_to_string.simps [of n])
  next
    case False
    with "1.prems" have "c \<in> set (u64_to_string (n div 10)) \<or> c = digit_char (n mod 10)"
      by (auto simp: u64_to_string.simps [of n])
    then show ?thesis using "1.IH" False by (auto intro: exI [of _ "n mod 10"])
  qed
qed

lemma digit_char_neq:
  assumes "d < 10"
  shows "digit_char d \<noteq> CHR '':''" "digit_char d \<noteq> CHR ''-''" "digit_char d \<noteq> CHR ''+''"
    "digit_char d \<noteq> CHR 0x00"
proof -
  have "of_char (digit_char d) = 48 + d" using assms by (simp add: digit_char_def)
  then show "digit_char d \<noteq> CHR '':''" "digit_char d \<noteq> CHR ''-''" "digit_char d \<noteq> CHR ''+''"
    "digit_char d \<noteq> CHR 0x00" using assms by auto
qed

lemma u64_to_string_chars [simp]:
  "CHR '':'' \<notin> set (u64_to_string n)" "CHR ''-'' \<notin> set (u64_to_string n)"
  "CHR ''+'' \<notin> set (u64_to_string n)" "CHR 0x00 \<notin> set (u64_to_string n)"
  using u64_to_string_digits digit_char_neq by metis+

lemma parse_digits_append:
  "parse_digits acc (xs @ ys) = (case parse_digits acc xs of None \<Rightarrow> None | Some a \<Rightarrow> parse_digits a ys)"
  by (induction xs arbitrary: acc) (auto split: option.splits)

lemma parse_digits_to_string: "n \<le> U64_MAX \<Longrightarrow> parse_digits 0 (u64_to_string n) = Some n"
proof (induction n rule: u64_to_string.induct)
  case (1 n)
  have step: "n div 10 * 10 + n mod 10 = n" by simp
  show ?case
  proof (cases "n < 10")
    case True
    then show ?thesis using "1.prems" by (simp add: u64_to_string.simps [of n])
  next
    case False
    then have "parse_digits 0 (u64_to_string (n div 10)) = Some (n div 10)" using "1.IH" "1.prems" by simp
    then show ?thesis
      using False "1.prems" step by (simp add: u64_to_string.simps [of n] parse_digits_append)
  qed
qed

lemma parse_u64_to_string: "n \<le> U64_MAX \<Longrightarrow> parse_u64 (u64_to_string n) = Some n"
proof -
  assume n: "n \<le> U64_MAX"
  obtain c cs where s: "u64_to_string n = c # cs" by (cases "u64_to_string n") auto
  then have "c \<noteq> CHR ''+''" using u64_to_string_chars(3) [of n] by auto
  then show ?thesis using parse_digits_to_string [OF n] by (simp add: parse_u64_def s)
qed

lemma parse_digits_bound: "parse_digits acc s = Some n \<Longrightarrow> acc \<le> U64_MAX \<Longrightarrow> n \<le> U64_MAX"
  by (induction acc s rule: parse_digits.induct) (auto split: option.splits if_splits)

lemma parse_u64_bound: "parse_u64 s = Some n \<Longrightarrow> n \<le> U64_MAX"
  using parse_digits_bound [of 0 s n] parse_digits_bound [of 0 "tl s" n]
  by (auto simp: parse_u64_def simp del: parse_digits.simps split: list.splits if_splits)

lemma u64_to_string_inj: "u64_to_string m = u64_to_string n \<Longrightarrow> m = n"
proof (induction m arbitrary: n rule: u64_to_string.induct)
  case (1 m)
  have inj: "digit_char a = digit_char b \<Longrightarrow> a < 10 \<Longrightarrow> b < 10 \<Longrightarrow> a = b" for a b
    by (metis char_digit_digit_char option.inject)
  consider "m < 10" "n < 10" | "m < 10" "\<not> n < 10" | "\<not> m < 10" "n < 10" | "\<not> m < 10" "\<not> n < 10" by blast
  then show ?case
  proof cases
    case 4
    with "1.prems" have "u64_to_string (m div 10) = u64_to_string (n div 10)"
      and "digit_char (m mod 10) = digit_char (n mod 10)"
      by (simp_all add: u64_to_string.simps [of m] u64_to_string.simps [of n])
    then have "m div 10 = n div 10" "m mod 10 = n mod 10"
      using "1.IH" [OF \<open>\<not> m < 10\<close>] inj by auto
    then show ?thesis by (metis mult_div_mod_eq)
  qed (use "1.prems" inj in \<open>auto simp: u64_to_string.simps [of m] u64_to_string.simps [of n]\<close>)
qed

end
