(* ===== verification/Core_Versioning.thy ===== *)
theory Core_Versioning
  imports Namespace_Validation Core_Path Mrs_Decimal
    "HOL-Library.List_Lexorder" "HOL-Library.Char_ord"
begin

text \<open>
  Model of \<^verbatim>\<open>src/versioning.rs\<close>: identities of volumes and versions with their text form, version
  records and publications with their validation, and read-lease requests. The JSON encoder that
  \<^verbatim>\<open>matches_committed\<close> compares namespaces with is a parameter, \<open>to_vec\<close>.
\<close>

section \<open>Identities\<close>

definition einval :: "string \<Rightarrow> fs_error" where
  "einval m = with_message m (fs_error_new Einval)"

lemma err_code_einval [simp]: "err_code (einval m) = Einval"
  by (simp add: einval_def)

datatype volume_id = VolumeId (vol_text: string)

definition volume_id_new :: "string \<Rightarrow> volume_id result" where
  "volume_id_new v =
     (if v = [] \<or> str_contains CHR '':'' v \<or> str_contains CHR 0x00 v
      then Inl (einval ''volume id must be non-empty and colon-free'')
      else Inr (VolumeId v))"

datatype version_id = VersionId (ver_volume: volume_id) (ver_sequence: nat)

text \<open>The derived orders: by text, and by volume before sequence.\<close>

instantiation volume_id :: linorder
begin

definition less_eq_volume_id :: "volume_id \<Rightarrow> volume_id \<Rightarrow> bool" where
  "less_eq_volume_id a b \<longleftrightarrow> vol_text a \<le> vol_text b"

definition less_volume_id :: "volume_id \<Rightarrow> volume_id \<Rightarrow> bool" where
  "less_volume_id a b \<longleftrightarrow> vol_text a < vol_text b"

instance
  by intro_classes (auto simp: less_eq_volume_id_def less_volume_id_def volume_id.expand)

end

instantiation version_id :: linorder
begin

definition less_eq_version_id :: "version_id \<Rightarrow> version_id \<Rightarrow> bool" where
  "less_eq_version_id a b \<longleftrightarrow>
     ver_volume a < ver_volume b \<or> ver_volume a = ver_volume b \<and> ver_sequence a \<le> ver_sequence b"

definition less_version_id :: "version_id \<Rightarrow> version_id \<Rightarrow> bool" where
  "less_version_id a b \<longleftrightarrow>
     ver_volume a < ver_volume b \<or> ver_volume a = ver_volume b \<and> ver_sequence a < ver_sequence b"

instance
  by intro_classes (auto simp: less_eq_version_id_def less_version_id_def version_id.expand)

end

definition version_id_new :: "volume_id \<Rightarrow> nat \<Rightarrow> version_id result" where
  "version_id_new volume sequence =
     (if sequence = 0 then Inl (einval ''version sequence must be positive'')
      else Inr (VersionId volume sequence))"

definition version_id_encode :: "version_id \<Rightarrow> string" where
  "version_id_encode v = vol_text (ver_volume v) @ '':'' @ u64_to_string (ver_sequence v)"

definition rsplit_once :: "char \<Rightarrow> string \<Rightarrow> (string \<times> string) option" where
  "rsplit_once c s = (case rfind c s of None \<Rightarrow> None | Some i \<Rightarrow> Some (take i s, drop (Suc i) s))"

definition version_id_decode :: "string \<Rightarrow> version_id result" where
  "version_id_decode v =
     and_then (ok_or (rsplit_once CHR '':'' v) (einval ''invalid version id; expected volume:sequence''))
       (\<lambda>(volume_text, sequence_text).
     and_then (volume_id_new volume_text) (\<lambda>volume.
     and_then (ok_or (parse_u64 sequence_text) (einval ''invalid version sequence'')) (\<lambda>sequence.
     if u64_to_string sequence \<noteq> sequence_text
     then Inl (einval ''version sequence must use canonical decimal text'')
     else version_id_new volume sequence)))"

definition block_store_id_new :: "string \<Rightarrow> string result" where
  "block_store_id_new v =
     (if v = [] \<or> str_contains CHR 0x00 v then Inl (einval ''block store id must be non-empty'') else Inr v)"

definition publication_id_new :: "string \<Rightarrow> string result" where
  "publication_id_new v =
     (if v = [] \<or> str_contains CHR 0x00 v then Inl (einval ''publication id must be non-empty'') else Inr v)"

section \<open>Version records and publications\<close>

datatype version_kind = Initial | Snapshot | NamespacePublication | Restore | Fork

record version_info =
  vi_id :: version_id
  vi_parent :: "version_id option"
  vi_restored_from :: "version_id option"
  vi_forked_from :: "version_id option"
  vi_kind :: version_kind
  vi_namespace :: namespace
  vi_block_store_id :: string
  vi_created_at_ms :: int
  vi_durable :: bool

definition is_some_and :: "'a option \<Rightarrow> ('a \<Rightarrow> bool) \<Rightarrow> bool" where
  "is_some_and v p = (case v of None \<Rightarrow> False | Some x \<Rightarrow> p x)"

lemma is_some_and_iff [simp]: "is_some_and v p \<longleftrightarrow> (\<exists>x. v = Some x \<and> p x)"
  by (auto simp: is_some_and_def split: option.splits)

definition version_info_validate :: "version_info \<Rightarrow> unit result" where
  "version_info_validate v =
     (if ver_sequence (vi_id v) = 0 then Inl (einval ''version sequence must be positive'')
      else if is_some_and (vi_parent v) (\<lambda>p. ver_volume p \<noteq> ver_volume (vi_id v))
      then Inl (einval ''version parent belongs to another volume'')
      else if is_some_and (vi_parent v) (\<lambda>p. ver_sequence p \<ge> ver_sequence (vi_id v))
      then Inl (einval ''version parent must precede its child'')
      else if is_some_and (vi_restored_from v)
                (\<lambda>s. ver_volume s = ver_volume (vi_id v) \<and> ver_sequence s \<ge> ver_sequence (vi_id v))
      then Inl (einval ''restore source must precede the restored version'')
      else namespace_validate (vi_namespace v))"

definition eio :: "string \<Rightarrow> fs_error" where
  "eio m = with_message m (fs_error_new Eio)"

lemma err_code_eio [simp]: "err_code (eio m) = Eio"
  by (simp add: eio_def)

fun flatten_options :: "'a option list \<Rightarrow> 'a list" where
  "flatten_options [] = []"
| "flatten_options (None # xs) = flatten_options xs"
| "flatten_options (Some x # xs) = x # flatten_options xs"

definition version_info_validate_for_volume :: "version_info \<Rightarrow> volume_id \<Rightarrow> unit result" where
  "version_info_validate_for_volume v volume =
     (if ver_volume (vi_id v) \<noteq> volume then Inl (eio ''version belongs to another provider volume'')
      else and_then (version_info_validate v) (\<lambda>_.
      for_each (\<lambda>r. if ver_volume r \<noteq> volume
                    then Inl (eio ''version ancestry crosses provider volumes'') else Inr ())
        (flatten_options [vi_parent v, vi_restored_from v])))"

record version_head_token =
  vh_version :: version_id
  vh_revision :: nat

record version_publication =
  vp_expected_revision :: nat
  vp_expected_parent :: "version_id option"
  vp_operation_id :: string
  vp_namespace :: namespace
  vp_block_store_id :: string
  vp_kind :: version_kind
  vp_restored_from :: "version_id option"
  vp_forked_from :: "version_id option"
  vp_durable :: bool

definition publication_validate :: "version_publication \<Rightarrow> volume_id \<Rightarrow> unit result" where
  "publication_validate p volume =
     (if vp_operation_id p = [] \<or> str_contains CHR 0x00 (vp_operation_id p)
      then Inl (einval ''publication id must be non-empty'')
      else if vp_block_store_id p = [] \<or> str_contains CHR 0x00 (vp_block_store_id p)
      then Inl (einval ''publication block store id must be non-empty'')
      else and_then (namespace_validate (vp_namespace p)) (\<lambda>_.
      if is_some_and (vp_expected_parent p) (\<lambda>q. ver_volume q \<noteq> volume)
      then Inl (einval ''expected version parent belongs to another volume'')
      else if is_some_and (vp_restored_from p) (\<lambda>q. ver_volume q \<noteq> volume)
      then Inl (einval ''restore source belongs to another volume'')
      else Inr ()))"

text \<open>The JSON encoder of the namespace: its error is the text of a serialisation error.\<close>

type_synonym namespace_encoder = "namespace \<Rightarrow> string + bytes"

definition encode_namespace :: "namespace_encoder \<Rightarrow> namespace \<Rightarrow> bytes result" where
  "encode_namespace to_vec ns = (case to_vec ns of Inl m \<Rightarrow> Inl (fs_error_backend m) | Inr b \<Rightarrow> Inr b)"

definition matches_committed ::
  "namespace_encoder \<Rightarrow> version_publication \<Rightarrow> version_info \<Rightarrow> bool result" where
  "matches_committed to_vec p committed =
     and_then (encode_namespace to_vec (vp_namespace p)) (\<lambda>left.
     and_then (encode_namespace to_vec (vi_namespace committed)) (\<lambda>right.
     Inr (vp_expected_parent p = vi_parent committed
          \<and> vp_restored_from p = vi_restored_from committed
          \<and> vp_forked_from p = vi_forked_from committed
          \<and> vp_block_store_id p = vi_block_store_id committed
          \<and> vp_kind p = vi_kind committed
          \<and> vp_durable p = vi_durable committed
          \<and> left = right)))"

section \<open>Read leases\<close>

record read_lease =
  rl_volume :: volume_id
  rl_version :: version_id
  rl_view_id :: string
  rl_owner :: string
  rl_fence :: nat
  rl_expires_at_ms :: nat

text \<open>A \<^verbatim>\<open>Duration\<close>: whole seconds and nanoseconds below a second.\<close>

record duration =
  du_secs :: nat
  du_nanos :: nat

definition as_millis :: "duration \<Rightarrow> nat" where
  "as_millis d = du_secs d * 1000 + du_nanos d div 1000000"

record read_lease_request =
  rr_owner :: string
  rr_ttl :: duration

definition read_lease_request_validate :: "read_lease_request \<Rightarrow> nat result" where
  "read_lease_request_validate r =
     (if rr_owner r = [] then Inl (einval ''read lease owner must not be empty'')
      else if as_millis (rr_ttl r) > U64_MAX
      then Inl (with_message ''read lease TTL overflow'' (fs_error_new Eoverflow))
      else if as_millis (rr_ttl r) = 0 then Inl (einval ''read lease TTL must be positive'')
      else Inr (as_millis (rr_ttl r)))"

section \<open>Facts\<close>

lemma version_info_validate_iff:
  "version_info_validate v = Inr () \<longleftrightarrow>
     0 < ver_sequence (vi_id v) \<and> namespace_validate (vi_namespace v) = Inr ()
     \<and> (\<forall>p. vi_parent v = Some p \<longrightarrow>
          ver_volume p = ver_volume (vi_id v) \<and> ver_sequence p < ver_sequence (vi_id v))
     \<and> (\<forall>p. vi_restored_from v = Some p \<longrightarrow>
          ver_volume p = ver_volume (vi_id v) \<longrightarrow> ver_sequence p < ver_sequence (vi_id v))"
  by (auto simp: version_info_validate_def not_le)

lemma validate_for_volume_iff:
  "version_info_validate_for_volume v vol = Inr () \<longleftrightarrow>
     ver_volume (vi_id v) = vol \<and> version_info_validate v = Inr ()
     \<and> (\<forall>p. vi_parent v = Some p \<or> vi_restored_from v = Some p \<longrightarrow> ver_volume p = vol)"
  by (cases "vi_parent v"; cases "vi_restored_from v")
    (auto simp: version_info_validate_for_volume_def)

lemma publication_validate_iff:
  "publication_validate p vol = Inr () \<longleftrightarrow>
     vp_operation_id p \<noteq> [] \<and> CHR 0x00 \<notin> set (vp_operation_id p)
     \<and> vp_block_store_id p \<noteq> [] \<and> CHR 0x00 \<notin> set (vp_block_store_id p)
     \<and> namespace_validate (vp_namespace p) = Inr ()
     \<and> (\<forall>q. vp_expected_parent p = Some q \<or> vp_restored_from p = Some q \<longrightarrow> ver_volume q = vol)"
  by (auto simp: publication_validate_def)

lemma read_lease_request_validate_iff:
  "read_lease_request_validate r = Inr t \<longleftrightarrow>
     rr_owner r \<noteq> [] \<and> t = as_millis (rr_ttl r) \<and> 0 < t \<and> t \<le> U64_MAX"
  by (auto simp: read_lease_request_validate_def)

lemma rfind_Some:
  "rfind c s = Some i \<Longrightarrow> s = take i s @ c # drop (Suc i) s \<and> c \<notin> set (drop (Suc i) s)"
proof (induction s arbitrary: i)
  case (Cons x s)
  have none: "rfind c s = None \<Longrightarrow> c \<notin> set s" by (induction s) (auto split: option.splits if_splits)
  show ?case using Cons none by (auto split: option.splits if_splits)
qed simp

lemma rsplit_once_iff:
  "rsplit_once c s = Some (a, b) \<longleftrightarrow> s = a @ c # b \<and> c \<notin> set b"
proof
  assume "rsplit_once c s = Some (a, b)"
  then obtain i where "rfind c s = Some i" "a = take i s" "b = drop (Suc i) s"
    by (auto simp: rsplit_once_def split: option.splits)
  then show "s = a @ c # b \<and> c \<notin> set b" using rfind_Some [of c s i] by metis
qed (auto simp: rsplit_once_def rfind_append_sep)

text \<open>
  The text form of version identifiers is a bijection between the valid identifiers (a volume
  that \<^verbatim>\<open>VolumeId::new\<close> accepts, a positive 64-bit sequence) and the texts that \<^verbatim>\<open>VersionId::decode\<close>
  accepts: decoding a text returns an identifier exactly when the identifier is valid and the text
  is its encoding.
\<close>

theorem version_id_decode_iff:
  "version_id_decode t = Inr v \<longleftrightarrow>
     t = version_id_encode v \<and> 0 < ver_sequence v \<and> ver_sequence v \<le> U64_MAX
     \<and> volume_id_new (vol_text (ver_volume v)) = Inr (ver_volume v)"
proof
  assume "version_id_decode t = Inr v"
  then obtain a b n vol where "rsplit_once CHR '':'' t = Some (a, b)" "volume_id_new a = Inr vol"
    "parse_u64 b = Some n" "u64_to_string n = b" "version_id_new vol n = Inr v"
    by (auto simp: version_id_decode_def split: if_splits)
  then show "t = version_id_encode v \<and> 0 < ver_sequence v \<and> ver_sequence v \<le> U64_MAX
     \<and> volume_id_new (vol_text (ver_volume v)) = Inr (ver_volume v)"
    by (auto simp: rsplit_once_iff volume_id_new_def version_id_new_def version_id_encode_def
        dest: parse_u64_bound split: if_splits)
next
  assume v: "t = version_id_encode v \<and> 0 < ver_sequence v \<and> ver_sequence v \<le> U64_MAX
     \<and> volume_id_new (vol_text (ver_volume v)) = Inr (ver_volume v)"
  then have "rsplit_once CHR '':'' t = Some (vol_text (ver_volume v), u64_to_string (ver_sequence v))"
    by (simp add: rsplit_once_iff version_id_encode_def)
  with v show "version_id_decode t = Inr v"
    by (simp add: version_id_decode_def parse_u64_to_string version_id_new_def)
qed

end
