(* ===== verification/Store_Contracts.thy ===== *)
theory Store_Contracts
  imports Core_Versioning
begin

text \<open>
  The storage contracts of \<^verbatim>\<open>src/storage.rs\<close> that file systems rely on and providers implement: a
  metadata store whose writers hold fenced leases and publish by compare-and-swap on a revision,
  and a store of immutable blocks. Each contract is a locale; what a client may conclude is proved
  once inside it.
\<close>

record writer_lease =
  wl_owner :: string
  wl_fence :: nat
  wl_expires_at_ms :: nat

section \<open>Fenced metadata store\<close>

text \<open>
  The state type, its invariant and the transition relation of all operations together are the
  provider's. \<open>acquire\<close> and \<open>publish\<close> take the provider's clock reading first. The laws: an invariant
  that every operation keeps, a fence counter and a revision that never go back, acquisition under
  the next fence, a lease that holds only under the newest fence, and publication only with a lease
  that holds and the current revision.
\<close>

locale fenced_store =
  fixes inv :: "'s \<Rightarrow> bool"
    and step :: "'s \<Rightarrow> 's \<Rightarrow> bool"
    and last_fence :: "'s \<Rightarrow> nat"
    and revision :: "'s \<Rightarrow> nat"
    and holds :: "nat \<Rightarrow> writer_lease \<Rightarrow> 's \<Rightarrow> bool"
    and acquire :: "nat \<Rightarrow> string \<Rightarrow> duration \<Rightarrow> 's \<Rightarrow> (writer_lease \<times> 's) result"
    and publish :: "nat \<Rightarrow> nat \<Rightarrow> writer_lease \<Rightarrow> 'n \<Rightarrow> 's \<Rightarrow> (nat \<times> 's) result"
  assumes step_inv: "inv s \<Longrightarrow> step s s' \<Longrightarrow> inv s'"
    and step_fence: "inv s \<Longrightarrow> step s s' \<Longrightarrow> last_fence s \<le> last_fence s'"
    and step_revision: "inv s \<Longrightarrow> step s s' \<Longrightarrow> revision s \<le> revision s'"
    and acquire_step: "inv s \<Longrightarrow> acquire now owner ttl s = Inr (l, s') \<Longrightarrow> step s s'"
    and acquire_fence: "inv s \<Longrightarrow> acquire now owner ttl s = Inr (l, s') \<Longrightarrow>
          wl_fence l = last_fence s + 1 \<and> last_fence s' = wl_fence l"
    and publish_step: "inv s \<Longrightarrow> publish now expected l ns s = Inr (r, s') \<Longrightarrow> step s s'"
    and holds_newest: "inv s \<Longrightarrow> holds now l s \<Longrightarrow> wl_fence l = last_fence s"
    and publish_holds: "inv s \<Longrightarrow> publish now expected l ns s = Inr (r, s') \<Longrightarrow> holds now l s"
    and publish_cas: "inv s \<Longrightarrow> publish now expected l ns s = Inr (r, s') \<Longrightarrow>
          expected = revision s \<and> r = revision s + 1 \<and> revision s' = r"
begin

lemma run_inv: "step\<^sup>*\<^sup>* s s' \<Longrightarrow> inv s \<Longrightarrow> inv s'"
  by (induction rule: rtranclp_induct) (auto intro: step_inv)

lemma run_monotone:
  assumes "step\<^sup>*\<^sup>* s s'" "inv s"
  shows "last_fence s \<le> last_fence s' \<and> revision s \<le> revision s'"
  using assms(1)
proof (induction rule: rtranclp_induct)
  case (step t u)
  have "inv t" using run_inv [OF step.hyps(1) assms(2)] .
  with step show ?case using step_fence step_revision by (meson order_trans)
qed simp

text \<open>A writer that has been superseded never holds its lease again, whatever happens in between.\<close>

lemma superseded_lease:
  assumes "inv s" "acquire now owner ttl s = Inr (l, s1)" "step\<^sup>*\<^sup>* s1 s2"
    and "wl_fence old < wl_fence l"
  shows "\<not> holds now' old s2"
proof -
  have i1: "inv s1" using assms(1,2) acquire_step step_inv by blast
  have "wl_fence l \<le> last_fence s2"
    using acquire_fence [OF assms(1,2)] run_monotone [OF assms(3) i1] by simp
  then show ?thesis using holds_newest [OF run_inv [OF assms(3) i1]] assms(4) by (metis not_le)
qed

lemma superseded_publish:
  assumes "inv s" "acquire now owner ttl s = Inr (l, s1)" "step\<^sup>*\<^sup>* s1 s2"
    and "wl_fence old < wl_fence l"
  shows "\<not> is_ok (publish now' expected old ns s2)"
  using superseded_lease [OF assms] publish_holds run_inv [OF assms(3)] step_inv acquire_step assms(1,2)
  unfolding is_ok_iff split_paired_Ex by blast

text \<open>Two acquisitions, one after the other, get different fences in order.\<close>

lemma fences_increase:
  assumes "inv s" "acquire now owner ttl s = Inr (l, s1)" "step\<^sup>*\<^sup>* s1 s2"
    and "acquire now' owner' ttl' s2 = Inr (l', s3)"
  shows "wl_fence l < wl_fence l'"
proof -
  have i1: "inv s1" using assms(1,2) acquire_step step_inv by blast
  have "wl_fence l \<le> last_fence s2"
    using acquire_fence [OF assms(1,2)] run_monotone [OF assms(3) i1] by simp
  then show ?thesis using acquire_fence [OF run_inv [OF assms(3) i1] assms(4)] by simp
qed

text \<open>No update is lost: a revision is replaced at most once.\<close>

lemma no_lost_update:
  assumes "inv s" "publish now expected l ns s = Inr (r, s1)" "step\<^sup>*\<^sup>* s1 s2"
  shows "\<not> is_ok (publish now' expected l' ns' s2)"
proof
  have i1: "inv s1" using assms(1,2) publish_step step_inv by blast
  have "expected < revision s2"
    using publish_cas [OF assms(1,2)] run_monotone [OF assms(3) i1] by simp
  moreover assume "is_ok (publish now' expected l' ns' s2)"
  then obtain r' s3 where "publish now' expected l' ns' s2 = Inr (r', s3)" by (auto simp: is_ok_iff)
  then have "expected = revision s2" using publish_cas run_inv [OF assms(3) i1] by blast
  ultimately show False by simp
qed

end

section \<open>Immutable block store\<close>

text \<open>Writing several blocks one after the other, as a writer of chunks does.\<close>

fun put_all :: "(bytes \<Rightarrow> 's \<Rightarrow> (string \<times> 's) result) \<Rightarrow> bytes list \<Rightarrow> 's \<Rightarrow> (string list \<times> 's) result" where
  "put_all put [] s = Inr ([], s)"
| "put_all put (bs # bss) s =
     and_then (put bs s) (\<lambda>(i, s1). and_then (put_all put bss s1) (\<lambda>(is, s2). Inr (i # is, s2)))"

text \<open>
  Blocks are written once under an identity the store chooses. The laws are those of the
  \<^verbatim>\<open>BlockStore\<close> trait: a block can be read back under its identity, and writing one block changes no
  other block.
\<close>

locale block_store =
  fixes put :: "bytes \<Rightarrow> 's \<Rightarrow> (string \<times> 's) result"
    and get :: "string \<Rightarrow> 's \<Rightarrow> bytes result"
  assumes put_get: "put bs s = Inr (i, s') \<Longrightarrow> get i s' = Inr bs"
    and put_keeps: "put bs s = Inr (i, s') \<Longrightarrow> get j s = Inr cs \<Longrightarrow> get j s' = Inr cs"
begin

lemma put_all_keeps:
  "put_all put bss s = Inr (is, s') \<Longrightarrow> get j s = Inr cs \<Longrightarrow> get j s' = Inr cs"
  by (induction bss arbitrary: s "is") (auto dest: put_keeps)

lemma put_all_get:
  "put_all put bss s = Inr (is, s') \<Longrightarrow> list_all2 (\<lambda>i bs. get i s' = Inr bs) is bss"
proof (induction bss arbitrary: s "is")
  case (Cons bs bss)
  then obtain i s1 is' where "put bs s = Inr (i, s1)" "put_all put bss s1 = Inr (is', s')" "is = i # is'"
    by auto
  then show ?case using Cons.IH [of s1 is'] put_get put_all_keeps by auto
qed simp

text \<open>Different contents never share an identity.\<close>

lemma put_distinct:
  assumes "put bs s = Inr (i, s1)" "put cs s1 = Inr (j, s2)" "bs \<noteq> cs"
  shows "i \<noteq> j"
  using assms put_get [OF assms(1)] put_keeps [OF assms(2) put_get [OF assms(1)]] put_get [OF assms(2)]
  by auto

end

end
