(* ===== verification/Memory_Store.thy ===== *)
theory Memory_Store
  imports Store_Contracts
begin

text \<open>
  Model of \<^verbatim>\<open>providers/mount-rs-memory/src/lib.rs\<close>: the volatile metadata store (writer leases,
  publication, version history, read pins) and the volatile block store. A mutex makes every call
  one step on the state, so a call is a function of the state that returns its result with the next
  state; an error leaves the state as it was. Readings of the clock are arguments.
\<close>

section \<open>State\<close>

record lease_state =
  ls_owner :: string
  ls_fence :: nat
  ls_expires_at_ms :: nat

record metadata_state =
  ms_revision :: nat
  ms_namespace :: "namespace option"
  ms_last_fence :: nat
  ms_lease :: "lease_state option"
  ms_volume_id :: volume_id
  ms_next_version :: nat
  ms_versions :: "(version_id, version_info) fmap"
  ms_head :: "version_id option"
  ms_next_read_fence :: nat
  ms_pins :: "(string, read_lease) fmap"
  ms_operations :: "(string, version_id) fmap"

definition metadata_state_default :: metadata_state where
  "metadata_state_default = \<lparr>ms_revision = 0, ms_namespace = None, ms_last_fence = 0, ms_lease = None,
     ms_volume_id = VolumeId ''uninitialized'', ms_next_version = 1, ms_versions = fmempty, ms_head = None,
     ms_next_read_fence = 0, ms_pins = fmempty, ms_operations = fmempty\<rparr>"

text \<open>The process number and the position of the store among the stores of the process.\<close>

definition metadata_with_clock :: "nat \<Rightarrow> nat \<Rightarrow> metadata_state result" where
  "metadata_with_clock process_id sequence =
     (case volume_id_new (''memory-'' @ u64_to_string process_id @ ''-'' @ u64_to_string sequence) of
        Inl _ \<Rightarrow> Inl (rust_panic ''generated memory volume id is valid'')
      | Inr volume \<Rightarrow> Inr (metadata_state_default\<lparr>ms_volume_id := volume\<rparr>))"

section \<open>Writer leases and publication\<close>

definition eoverflow :: fs_error where
  "eoverflow = fs_error_new Eoverflow"

lemma err_code_eoverflow [simp]: "err_code eoverflow = Eoverflow"
  by (simp add: eoverflow_def)

definition duration_ms :: "duration \<Rightarrow> nat result" where
  "duration_ms ttl =
     (if as_millis ttl > U64_MAX
      then Inl (with_message ''lease TTL overflows ms'' (fs_error_new Eoverflow))
      else if as_millis ttl = 0 then Inl (einval ''lease TTL must be positive'')
      else Inr (as_millis ttl))"

definition expiry :: "nat \<Rightarrow> nat \<Rightarrow> nat result" where
  "expiry now_ms ttl_ms =
     ok_or (checked_add now_ms ttl_ms) (with_message ''lease expiry overflows ms'' (fs_error_new Eoverflow))"

definition stale_lease :: "string \<Rightarrow> fs_error" where
  "stale_lease m = with_message m (fs_error_new Estale)"

lemma err_code_stale_lease [simp]: "err_code (stale_lease m) = Estale"
  by (simp add: stale_lease_def)

definition validate_lease :: "metadata_state \<Rightarrow> writer_lease \<Rightarrow> nat \<Rightarrow> unit result" where
  "validate_lease st lease now_ms =
     (case ms_lease st of
        None \<Rightarrow> Inl (stale_lease ''no active writer lease'')
      | Some current \<Rightarrow>
          if now_ms \<ge> ls_expires_at_ms current then Inl (stale_lease ''writer lease expired'')
          else if ls_owner current \<noteq> wl_owner lease \<or> ls_fence current \<noteq> wl_fence lease
                  \<or> ls_expires_at_ms current \<noteq> wl_expires_at_ms lease
          then Inl (stale_lease ''writer lease fencing token is stale'')
          else Inr ())"

definition to_public_lease :: "lease_state \<Rightarrow> writer_lease" where
  "to_public_lease l = \<lparr>wl_owner = ls_owner l, wl_fence = ls_fence l, wl_expires_at_ms = ls_expires_at_ms l\<rparr>"

definition ms_load :: "metadata_state \<Rightarrow> loaded_metadata" where
  "ms_load st = \<lparr>lm_revision = ms_revision st, lm_namespace = ms_namespace st\<rparr>"

definition acquire_writer ::
  "nat \<Rightarrow> string \<Rightarrow> duration \<Rightarrow> metadata_state \<Rightarrow> (writer_lease \<times> metadata_state) result" where
  "acquire_writer now_ms owner ttl st =
     (if owner = [] then Inl (einval ''writer lease owner must not be empty'')
      else and_then (duration_ms ttl) (\<lambda>ttl_ms.
      and_then (expiry now_ms ttl_ms) (\<lambda>expires_at_ms.
      if is_some_and (ms_lease st) (\<lambda>current. now_ms < ls_expires_at_ms current)
      then Inl (with_message ''a writer lease is already active'' (fs_error_new Eagain))
      else and_then (ok_or (checked_add (ms_last_fence st) 1) eoverflow) (\<lambda>fence.
      let lease = \<lparr>ls_owner = owner, ls_fence = fence, ls_expires_at_ms = expires_at_ms\<rparr>
      in Inr (to_public_lease lease, st\<lparr>ms_last_fence := fence, ms_lease := Some lease\<rparr>)))))"

definition renew_writer ::
  "nat \<Rightarrow> writer_lease \<Rightarrow> duration \<Rightarrow> metadata_state \<Rightarrow> (writer_lease \<times> metadata_state) result" where
  "renew_writer now_ms lease ttl st =
     and_then (duration_ms ttl) (\<lambda>ttl_ms.
     and_then (expiry now_ms ttl_ms) (\<lambda>expires_at_ms.
     and_then (validate_lease st lease now_ms) (\<lambda>_.
     let renewed = \<lparr>ls_owner = wl_owner lease, ls_fence = wl_fence lease, ls_expires_at_ms = expires_at_ms\<rparr>
     in Inr (to_public_lease renewed, st\<lparr>ms_lease := Some renewed\<rparr>))))"

definition release_writer :: "nat \<Rightarrow> writer_lease \<Rightarrow> metadata_state \<Rightarrow> (unit \<times> metadata_state) result" where
  "release_writer now_ms lease st =
     and_then (validate_lease st lease now_ms) (\<lambda>_. Inr ((), st\<lparr>ms_lease := None\<rparr>))"

definition revision_conflict :: "nat \<Rightarrow> nat \<Rightarrow> string" where
  "revision_conflict expected actual =
     ''metadata revision conflict: expected '' @ u64_to_string expected @ '', actual '' @ u64_to_string actual"

definition ms_publish ::
  "nat \<Rightarrow> nat \<Rightarrow> writer_lease \<Rightarrow> namespace \<Rightarrow> metadata_state \<Rightarrow> (nat \<times> metadata_state) result" where
  "ms_publish now_ms expected_revision lease ns st =
     and_then (validate_lease st lease now_ms) (\<lambda>_.
     if ms_revision st \<noteq> expected_revision
     then Inl (with_message (revision_conflict expected_revision (ms_revision st)) (fs_error_new Eagain))
     else and_then (ok_or (checked_add (ms_revision st) 1) eoverflow) (\<lambda>revision.
     Inr (revision, st\<lparr>ms_namespace := Some ns, ms_revision := revision\<rparr>)))"

section \<open>Version history\<close>

definition err2 :: "error_code \<Rightarrow> string \<Rightarrow> string \<Rightarrow> fs_error" where
  "err2 c sc m = with_message m (with_syscall sc (fs_error_new c))"

lemma err_code_err2 [simp]: "err_code (err2 c sc m) = c"
  by (simp add: err2_def)

definition ms_version_head :: "metadata_state \<Rightarrow> version_head_token option result" where
  "ms_version_head st =
     (case ms_head st of
        None \<Rightarrow> Inr None
      | Some version \<Rightarrow>
          if ver_volume version \<noteq> ms_volume_id st
          then Inl (err2 Eio ''version head'' ''stored version head belongs to another volume'')
          else and_then (ok_or (fmlookup (ms_versions st) version)
                 (err2 Eio ''version head'' ''stored version head references a missing version'')) (\<lambda>record.
          and_then (version_info_validate_for_volume record (ms_volume_id st)) (\<lambda>_.
          Inr (Some \<lparr>vh_version = version, vh_revision = ms_revision st\<rparr>))))"

definition ms_load_version :: "version_id \<Rightarrow> metadata_state \<Rightarrow> version_info result" where
  "ms_load_version i st =
     (if ver_volume i \<noteq> ms_volume_id st
      then Inl (err2 Enoent ''load version'' ''version belongs to another volume'')
      else and_then (ok_or (fmlookup (ms_versions st) i) (with_syscall ''load version'' (fs_error_new Enoent)))
        (\<lambda>version.
      and_then (version_info_validate_for_volume version (ms_volume_id st)) (\<lambda>_. Inr version)))"

definition ms_list_versions :: "metadata_state \<Rightarrow> version_info list result" where
  "ms_list_versions st =
     try_map (\<lambda>(_, version). and_then (version_info_validate_for_volume version (ms_volume_id st))
                               (\<lambda>_. Inr version))
       (sorted_list_of_fmap (ms_versions st))"

definition ms_find_publication :: "string \<Rightarrow> metadata_state \<Rightarrow> version_info option result" where
  "ms_find_publication operation_id st =
     (case fmlookup (ms_operations st) operation_id of
        None \<Rightarrow> Inr None
      | Some i \<Rightarrow>
          and_then (ok_or (fmlookup (ms_versions st) i) (fs_error_new Eio)) (\<lambda>version.
          and_then (version_info_validate_for_volume version (ms_volume_id st)) (\<lambda>_.
          Inr (Some version))))"

text \<open>The provided method of the trait.\<close>

definition ms_reconcile_publication ::
  "namespace_encoder \<Rightarrow> version_publication \<Rightarrow> metadata_state \<Rightarrow> version_info option result" where
  "ms_reconcile_publication to_vec p st =
     and_then (publication_validate p (ms_volume_id st)) (\<lambda>_.
     and_then (ms_find_publication (vp_operation_id p) st) (\<lambda>found.
     case found of
       None \<Rightarrow> Inr None
     | Some committed \<Rightarrow>
         and_then (matches_committed to_vec p committed) (\<lambda>same.
         if \<not> same
         then Inl (err2 Eexist ''reconcile publication''
                ''publication id was reused with a different payload'')
         else Inr (Some committed))))"

text \<open>The record a publication commits.\<close>

definition published_info :: "version_publication \<Rightarrow> version_id \<Rightarrow> nat \<Rightarrow> version_info" where
  "published_info p i now_ms = \<lparr>vi_id = i, vi_parent = vp_expected_parent p,
     vi_restored_from = vp_restored_from p, vi_forked_from = vp_forked_from p, vi_kind = vp_kind p,
     vi_namespace = vp_namespace p, vi_block_store_id = vp_block_store_id p,
     vi_created_at_ms = min (int now_ms) I64_MAX, vi_durable = False\<rparr>"

definition publish_version ::
  "namespace_encoder \<Rightarrow> nat \<Rightarrow> writer_lease \<Rightarrow> version_publication \<Rightarrow> metadata_state \<Rightarrow>
   (version_info \<times> metadata_state) result" where
  "publish_version to_vec now_ms lease p st =
     (case fmlookup (ms_operations st) (vp_operation_id p) of
        Some existing_id \<Rightarrow>
          and_then (ok_or (fmlookup (ms_versions st) existing_id) (fs_error_new Eio)) (\<lambda>existing.
          and_then (version_info_validate_for_volume existing (ms_volume_id st)) (\<lambda>_.
          and_then (matches_committed to_vec p existing) (\<lambda>same.
          if \<not> same
          then Inl (err2 Eexist ''publish version'' ''publication id was reused with a different payload'')
          else Inr (existing, st))))
      | None \<Rightarrow>
          and_then (publication_validate p (ms_volume_id st)) (\<lambda>_.
          if vp_durable p then Inl (err2 Enotsup ''publish version'' ''memory version store is volatile'')
          else and_then (validate_lease st lease now_ms) (\<lambda>_.
          if ms_revision st \<noteq> vp_expected_revision p
          then Inl (err2 Eagain ''publish version''
                 (revision_conflict (vp_expected_revision p) (ms_revision st)))
          else if is_some_and (ms_head st)
                    (\<lambda>head. ver_volume head \<noteq> ms_volume_id st \<or> fmlookup (ms_versions st) head = None)
          then Inl (err2 Eio ''publish version'' ''stored version head references an invalid version'')
          else if ms_head st \<noteq> vp_expected_parent p
          then Inl (err2 Eagain ''publish version'' ''version head changed concurrently'')
          else and_then (version_id_new (ms_volume_id st) (ms_next_version st)) (\<lambda>i.
          let info = published_info p i now_ms in
          and_then (version_info_validate info) (\<lambda>_.
          and_then (ok_or (checked_add (ms_next_version st) 1) eoverflow) (\<lambda>next_sequence.
          and_then (ok_or (checked_add (ms_revision st) 1) eoverflow) (\<lambda>revision.
          Inr (info, st\<lparr>ms_next_version := next_sequence,
                        ms_namespace := Some (vp_namespace p),
                        ms_revision := revision,
                        ms_head := Some i,
                        ms_operations := fmupd (vp_operation_id p) i (ms_operations st),
                        ms_versions := fmupd i info (ms_versions st)\<rparr>)))))))) "

section \<open>Read pins and deletion\<close>

definition validate_read_lease :: "read_lease \<Rightarrow> read_lease \<Rightarrow> nat \<Rightarrow> unit result" where
  "validate_read_lease current supplied now_ms =
     (if now_ms \<ge> rl_expires_at_ms current then Inl (with_syscall ''read lease'' (fs_error_new Estale))
      else if rl_volume current \<noteq> rl_volume supplied \<or> rl_version current \<noteq> rl_version supplied
              \<or> rl_view_id current \<noteq> rl_view_id supplied \<or> rl_owner current \<noteq> rl_owner supplied
              \<or> rl_fence current \<noteq> rl_fence supplied \<or> rl_expires_at_ms current \<noteq> rl_expires_at_ms supplied
      then Inl (with_syscall ''read lease'' (fs_error_new Estale))
      else Inr ())"

definition view_id_text :: "volume_id \<Rightarrow> nat \<Rightarrow> string" where
  "view_id_text volume fence = vol_text volume @ ''-view-'' @ u64_to_string fence"

definition open_view_pin ::
  "nat \<Rightarrow> version_id \<Rightarrow> read_lease_request \<Rightarrow> metadata_state \<Rightarrow> (read_lease \<times> metadata_state) result" where
  "open_view_pin now_ms i request st =
     and_then (read_lease_request_validate request) (\<lambda>ttl_ms.
     if ver_volume i \<noteq> ms_volume_id st \<or> fmlookup (ms_versions st) i = None
     then Inl (with_syscall ''open version view'' (fs_error_new Enoent))
     else and_then (ok_or (checked_add now_ms ttl_ms) eoverflow) (\<lambda>expires_at_ms.
     and_then (ok_or (checked_add (ms_next_read_fence st) 1) eoverflow) (\<lambda>fence.
     let view_id = view_id_text (ms_volume_id st) fence;
         lease = \<lparr>rl_volume = ms_volume_id st, rl_version = i, rl_view_id = view_id,
                  rl_owner = rr_owner request, rl_fence = fence, rl_expires_at_ms = expires_at_ms\<rparr>
     in Inr (lease, st\<lparr>ms_next_read_fence := fence, ms_pins := fmupd view_id lease (ms_pins st)\<rparr>))))"

definition renew_view_pin ::
  "nat \<Rightarrow> read_lease \<Rightarrow> read_lease_request \<Rightarrow> metadata_state \<Rightarrow> (read_lease \<times> metadata_state) result" where
  "renew_view_pin now_ms lease request st =
     and_then (read_lease_request_validate request) (\<lambda>ttl_ms.
     and_then (ok_or (fmlookup (ms_pins st) (rl_view_id lease))
                (with_syscall ''renew view'' (fs_error_new Estale))) (\<lambda>current.
     and_then (validate_read_lease current lease now_ms) (\<lambda>_.
     if rl_owner current \<noteq> rr_owner request then Inl (with_syscall ''renew view'' (fs_error_new Estale))
     else and_then (ok_or (checked_add now_ms ttl_ms) eoverflow) (\<lambda>expires_at_ms.
     let renewed = current\<lparr>rl_expires_at_ms := expires_at_ms\<rparr>
     in Inr (renewed, st\<lparr>ms_pins := fmupd (rl_view_id lease) renewed (ms_pins st)\<rparr>)))))"

text \<open>The two readings of the clock: the second one only when the first test fails.\<close>

definition close_view_pin ::
  "nat \<Rightarrow> nat \<Rightarrow> read_lease \<Rightarrow> metadata_state \<Rightarrow> (unit \<times> metadata_state) result" where
  "close_view_pin now1 now2 lease st =
     (case fmlookup (ms_pins st) (rl_view_id lease) of
        None \<Rightarrow> Inr ((), st)
      | Some current \<Rightarrow>
          if current = lease \<and> rl_expires_at_ms current \<le> now1
          then Inr ((), st\<lparr>ms_pins := fmdrop (rl_view_id lease) (ms_pins st)\<rparr>)
          else and_then (validate_read_lease current lease now2) (\<lambda>_.
               Inr ((), st\<lparr>ms_pins := fmdrop (rl_view_id lease) (ms_pins st)\<rparr>)))"

definition delete_version ::
  "nat \<Rightarrow> writer_lease \<Rightarrow> version_id \<Rightarrow> metadata_state \<Rightarrow> (unit \<times> metadata_state) result" where
  "delete_version now_ms lease i st =
     and_then (validate_lease st lease now_ms) (\<lambda>_.
     if ver_volume i \<noteq> ms_volume_id st then Inl (with_syscall ''delete version'' (fs_error_new Enoent))
     else if ms_head st = Some i
     then Inl (err2 Ebusy ''delete version'' ''current version cannot be deleted'')
     else if list_ex (\<lambda>(_, pin). rl_version pin = i \<and> rl_expires_at_ms pin > now_ms)
               (sorted_list_of_fmap (ms_pins st))
     then Inl (err2 Ebusy ''delete version'' ''version has an active read lease'')
     else if fmlookup (ms_versions st) i = None
     then Inl (with_syscall ''delete version'' (fs_error_new Enoent))
     else Inr ((), st\<lparr>ms_versions := fmdrop i (ms_versions st),
                      ms_operations := fmfilter (\<lambda>op. fmlookup (ms_operations st) op \<noteq> Some i)
                                         (ms_operations st)\<rparr>))"

end
