(* ===== verification/Memory_Store_Safety.thy ===== *)
theory Memory_Store_Safety
  imports Memory_Store
begin

text \<open>
  Safety of the memory metadata store over arbitrary interleavings of calls: the invariant that every
  call keeps, the fenced-store contract, and what follows for version history and read pins.
\<close>

section \<open>Calls and runs\<close>

text \<open>A call with its arguments, the readings of the clock first.\<close>

datatype ms_call =
    Acquire nat string duration
  | Renew nat writer_lease duration
  | Release nat writer_lease
  | Publish nat nat writer_lease namespace
  | PublishVersion nat writer_lease version_publication
  | OpenPin nat version_id read_lease_request
  | RenewPin nat read_lease read_lease_request
  | ClosePin nat nat read_lease
  | DeleteVersion nat writer_lease version_id

definition next_state :: "('a \<times> 's) result \<Rightarrow> 's \<Rightarrow> 's" where
  "next_state r st = (case r of Inl _ \<Rightarrow> st | Inr (_, st') \<Rightarrow> st')"

fun ms_exec :: "namespace_encoder \<Rightarrow> ms_call \<Rightarrow> metadata_state \<Rightarrow> metadata_state" where
  "ms_exec to_vec (Acquire now owner ttl) st = next_state (acquire_writer now owner ttl st) st"
| "ms_exec to_vec (Renew now l ttl) st = next_state (renew_writer now l ttl st) st"
| "ms_exec to_vec (Release now l) st = next_state (release_writer now l st) st"
| "ms_exec to_vec (Publish now expected l ns) st = next_state (ms_publish now expected l ns st) st"
| "ms_exec to_vec (PublishVersion now l p) st = next_state (publish_version to_vec now l p st) st"
| "ms_exec to_vec (OpenPin now i r) st = next_state (open_view_pin now i r st) st"
| "ms_exec to_vec (RenewPin now l r) st = next_state (renew_view_pin now l r st) st"
| "ms_exec to_vec (ClosePin now now' l) st = next_state (close_view_pin now now' l st) st"
| "ms_exec to_vec (DeleteVersion now l i) st = next_state (delete_version now l i st) st"

definition ms_step :: "namespace_encoder \<Rightarrow> metadata_state \<Rightarrow> metadata_state \<Rightarrow> bool" where
  "ms_step to_vec st st' \<longleftrightarrow> (\<exists>c. st' = ms_exec to_vec c st)"

definition ms_run :: "namespace_encoder \<Rightarrow> ms_call list \<Rightarrow> metadata_state \<Rightarrow> metadata_state" where
  "ms_run to_vec calls st = fold (ms_exec to_vec) calls st"

inductive ms_reachable :: "namespace_encoder \<Rightarrow> metadata_state \<Rightarrow> bool" for to_vec where
  ms_reachable_new: "metadata_with_clock process_id sequence = Inr st \<Longrightarrow> ms_reachable to_vec st"
| ms_reachable_call: "ms_reachable to_vec st \<Longrightarrow> ms_reachable to_vec (ms_exec to_vec c st)"

lemma next_state_simps [simp]: "next_state (Inl e) st = st" "next_state (Inr (x, st')) st = st'"
  by (simp_all add: next_state_def)

lemma next_stateI:
  assumes "P st" "\<And>x st'. r = Inr (x, st') \<Longrightarrow> P st'"
  shows "P (next_state r st)"
  using assms by (cases r) auto

lemma next_state_split:
  "P (next_state r st) \<longleftrightarrow> (\<forall>e. r = Inl e \<longrightarrow> P st) \<and> (\<forall>x st'. r = Inr (x, st') \<longrightarrow> P st')"
  by (cases r) auto

section \<open>Success conditions of the calls\<close>

lemma validate_lease_iff:
  "validate_lease st l now = Inr () \<longleftrightarrow>
     (\<exists>c. ms_lease st = Some c \<and> now < ls_expires_at_ms c \<and> l = to_public_lease c)"
  by (cases "ms_lease st") (auto simp: validate_lease_def to_public_lease_def)

lemma acquire_writer_iff:
  "acquire_writer now owner ttl st = Inr (l, st') \<longleftrightarrow>
     owner \<noteq> [] \<and> 0 < as_millis ttl \<and> as_millis ttl \<le> U64_MAX \<and> now + as_millis ttl \<le> U64_MAX
     \<and> (\<forall>c. ms_lease st = Some c \<longrightarrow> ls_expires_at_ms c \<le> now)
     \<and> ms_last_fence st + 1 \<le> U64_MAX
     \<and> l = \<lparr>wl_owner = owner, wl_fence = ms_last_fence st + 1, wl_expires_at_ms = now + as_millis ttl\<rparr>
     \<and> st' = st\<lparr>ms_last_fence := ms_last_fence st + 1,
          ms_lease := Some \<lparr>ls_owner = owner, ls_fence = ms_last_fence st + 1,
                           ls_expires_at_ms = now + as_millis ttl\<rparr>\<rparr>"
  by (auto simp: acquire_writer_def duration_ms_def expiry_def to_public_lease_def Let_def not_less)

lemma renew_writer_iff:
  "renew_writer now l ttl st = Inr (l', st') \<longleftrightarrow>
     0 < as_millis ttl \<and> as_millis ttl \<le> U64_MAX \<and> now + as_millis ttl \<le> U64_MAX
     \<and> validate_lease st l now = Inr ()
     \<and> l' = l\<lparr>wl_expires_at_ms := now + as_millis ttl\<rparr>
     \<and> st' = st\<lparr>ms_lease := Some \<lparr>ls_owner = wl_owner l, ls_fence = wl_fence l,
                           ls_expires_at_ms = now + as_millis ttl\<rparr>\<rparr>"
  by (cases l) (auto simp: renew_writer_def duration_ms_def expiry_def to_public_lease_def Let_def not_less)

lemma ms_publish_iff:
  "ms_publish now expected l ns st = Inr (r, st') \<longleftrightarrow>
     validate_lease st l now = Inr () \<and> expected = ms_revision st \<and> ms_revision st + 1 \<le> U64_MAX
     \<and> r = ms_revision st + 1 \<and> st' = st\<lparr>ms_namespace := Some ns, ms_revision := r\<rparr>"
  by (auto simp: ms_publish_def)

lemma publish_version_fresh_iff:
  assumes "fmlookup (ms_operations st) (vp_operation_id p) = None"
  shows "publish_version to_vec now l p st = Inr (info, st') \<longleftrightarrow>
     publication_validate p (ms_volume_id st) = Inr () \<and> \<not> vp_durable p
     \<and> validate_lease st l now = Inr () \<and> vp_expected_revision p = ms_revision st
     \<and> vp_expected_parent p = ms_head st
     \<and> (\<forall>h. ms_head st = Some h \<longrightarrow> ver_volume h = ms_volume_id st \<and> fmlookup (ms_versions st) h \<noteq> None)
     \<and> 0 < ms_next_version st \<and> ms_next_version st + 1 \<le> U64_MAX \<and> ms_revision st + 1 \<le> U64_MAX
     \<and> info = published_info p (VersionId (ms_volume_id st) (ms_next_version st)) now
     \<and> version_info_validate info = Inr ()
     \<and> st' = st\<lparr>ms_next_version := ms_next_version st + 1, ms_namespace := Some (vp_namespace p),
          ms_revision := ms_revision st + 1, ms_head := Some (vi_id info),
          ms_operations := fmupd (vp_operation_id p) (vi_id info) (ms_operations st),
          ms_versions := fmupd (vi_id info) info (ms_versions st)\<rparr>"
  using assms
  by (auto simp: publish_version_def version_id_new_def Let_def published_info_def split: if_splits)

lemma publish_version_retry_iff:
  assumes "fmlookup (ms_operations st) (vp_operation_id p) = Some i"
  shows "publish_version to_vec now l p st = Inr (info, st') \<longleftrightarrow>
     fmlookup (ms_versions st) i = Some info \<and> version_info_validate_for_volume info (ms_volume_id st) = Inr ()
     \<and> matches_committed to_vec p info = Inr True \<and> st' = st"
  using assms by (auto simp: publish_version_def split: if_splits)

lemma open_view_pin_iff:
  "open_view_pin now i r st = Inr (l, st') \<longleftrightarrow>
     rr_owner r \<noteq> [] \<and> 0 < as_millis (rr_ttl r) \<and> as_millis (rr_ttl r) \<le> U64_MAX
     \<and> ver_volume i = ms_volume_id st \<and> fmlookup (ms_versions st) i \<noteq> None
     \<and> now + as_millis (rr_ttl r) \<le> U64_MAX \<and> ms_next_read_fence st + 1 \<le> U64_MAX
     \<and> l = \<lparr>rl_volume = ms_volume_id st, rl_version = i,
            rl_view_id = view_id_text (ms_volume_id st) (ms_next_read_fence st + 1),
            rl_owner = rr_owner r, rl_fence = ms_next_read_fence st + 1,
            rl_expires_at_ms = now + as_millis (rr_ttl r)\<rparr>
     \<and> st' = st\<lparr>ms_next_read_fence := ms_next_read_fence st + 1,
                ms_pins := fmupd (rl_view_id l) l (ms_pins st)\<rparr>"
  by (auto simp: open_view_pin_def read_lease_request_validate_iff Let_def)

lemma validate_read_lease_iff:
  "validate_read_lease c l now = Inr () \<longleftrightarrow> now < rl_expires_at_ms c \<and> c = l"
  by (cases c; cases l) (auto simp: validate_read_lease_def)

lemma renew_view_pin_iff:
  "renew_view_pin now l r st = Inr (l', st') \<longleftrightarrow>
     rr_owner r \<noteq> [] \<and> 0 < as_millis (rr_ttl r) \<and> as_millis (rr_ttl r) \<le> U64_MAX
     \<and> fmlookup (ms_pins st) (rl_view_id l) = Some l \<and> now < rl_expires_at_ms l
     \<and> rl_owner l = rr_owner r \<and> now + as_millis (rr_ttl r) \<le> U64_MAX
     \<and> l' = l\<lparr>rl_expires_at_ms := now + as_millis (rr_ttl r)\<rparr>
     \<and> st' = st\<lparr>ms_pins := fmupd (rl_view_id l) l' (ms_pins st)\<rparr>"
  by (auto simp: renew_view_pin_def read_lease_request_validate_iff validate_read_lease_iff Let_def)

lemma close_view_pin_cases:
  assumes "close_view_pin now now' l st = Inr (u, st')"
  shows "st' = st \<and> fmlookup (ms_pins st) (rl_view_id l) = None
    \<or> st' = st\<lparr>ms_pins := fmdrop (rl_view_id l) (ms_pins st)\<rparr> \<and> fmlookup (ms_pins st) (rl_view_id l) = Some l"
  using assms
  by (auto simp: close_view_pin_def validate_read_lease_iff split: option.splits if_splits)

lemma delete_version_iff:
  "delete_version now l i st = Inr (u, st') \<longleftrightarrow>
     validate_lease st l now = Inr () \<and> ver_volume i = ms_volume_id st \<and> ms_head st \<noteq> Some i
     \<and> (\<forall>k pin. fmlookup (ms_pins st) k = Some pin \<longrightarrow> rl_version pin = i \<longrightarrow> rl_expires_at_ms pin \<le> now)
     \<and> fmlookup (ms_versions st) i \<noteq> None
     \<and> st' = st\<lparr>ms_versions := fmdrop i (ms_versions st),
          ms_operations := fmfilter (\<lambda>op. fmlookup (ms_operations st) op \<noteq> Some i) (ms_operations st)\<rparr>"
proof -
  let ?free = "\<forall>k pin. fmlookup (ms_pins st) k = Some pin \<longrightarrow> rl_version pin = i \<longrightarrow> rl_expires_at_ms pin \<le> now"
  have pins: "list_ex (\<lambda>(_, pin). rl_version pin = i \<and> rl_expires_at_ms pin > now) (sorted_list_of_fmap (ms_pins st))
      \<longleftrightarrow> \<not> ?free"
    by (simp add: list_ex_iff set_sorted_fmap not_le Bex_def)
  show ?thesis unfolding delete_version_def pins by (cases ?free) auto
qed

section \<open>The invariant\<close>

definition lease_inv :: "metadata_state \<Rightarrow> bool" where
  "lease_inv st \<longleftrightarrow> (\<forall>c. ms_lease st = Some c \<longrightarrow> ls_fence c = ms_last_fence st)"

definition version_inv :: "metadata_state \<Rightarrow> bool" where
  "version_inv st \<longleftrightarrow> 0 < ms_next_version st
     \<and> (\<forall>i info. fmlookup (ms_versions st) i = Some info \<longrightarrow>
          vi_id info = i \<and> ver_sequence i < ms_next_version st
          \<and> version_info_validate_for_volume info (ms_volume_id st) = Inr () \<and> \<not> vi_durable info)
     \<and> (ms_head st = None \<longrightarrow> ms_next_version st = 1)
     \<and> (\<forall>h. ms_head st = Some h \<longrightarrow>
          fmlookup (ms_versions st) h \<noteq> None \<and> Suc (ver_sequence h) = ms_next_version st)
     \<and> (\<forall>op i. fmlookup (ms_operations st) op = Some i \<longrightarrow> fmlookup (ms_versions st) i \<noteq> None)"

definition pin_inv :: "metadata_state \<Rightarrow> bool" where
  "pin_inv st \<longleftrightarrow> (\<forall>k pin. fmlookup (ms_pins st) k = Some pin \<longrightarrow>
     k = rl_view_id pin \<and> k = view_id_text (ms_volume_id st) (rl_fence pin)
     \<and> rl_volume pin = ms_volume_id st \<and> ver_volume (rl_version pin) = ms_volume_id st
     \<and> rl_fence pin \<le> ms_next_read_fence st)"

definition ms_inv :: "metadata_state \<Rightarrow> bool" where
  "ms_inv st \<longleftrightarrow> lease_inv st \<and> version_inv st \<and> pin_inv st"

lemma ms_inv_new:
  assumes "metadata_with_clock process_id sequence = Inr st"
  shows "ms_inv st"
  using assms
  by (auto simp: metadata_with_clock_def ms_inv_def lease_inv_def version_inv_def pin_inv_def
      metadata_state_default_def split: sum.splits)

lemma lease_only_inv:
  assumes "ms_inv st" "lease_inv (st\<lparr>ms_last_fence := f, ms_lease := l\<rparr>)"
  shows "ms_inv (st\<lparr>ms_last_fence := f, ms_lease := l\<rparr>)"
  using assms by (simp add: ms_inv_def version_inv_def pin_inv_def)

lemma lease_fence:
  assumes "ms_inv st" "validate_lease st l now = Inr ()"
  shows "wl_fence l = ms_last_fence st"
  using assms by (auto simp: ms_inv_def lease_inv_def validate_lease_iff to_public_lease_def)

lemma acquire_inv: "ms_inv st \<Longrightarrow> acquire_writer now owner ttl st = Inr (l, st') \<Longrightarrow> ms_inv st'"
  unfolding acquire_writer_iff by (auto intro!: lease_only_inv simp: lease_inv_def)

lemma renew_inv: "ms_inv st \<Longrightarrow> renew_writer now l ttl st = Inr (l', st') \<Longrightarrow> ms_inv st'"
  using lease_fence [of st l now]
  unfolding renew_writer_iff by (auto simp: ms_inv_def lease_inv_def version_inv_def pin_inv_def)

lemma release_inv: "ms_inv st \<Longrightarrow> release_writer now l st = Inr (u, st') \<Longrightarrow> ms_inv st'"
  by (auto simp: release_writer_def ms_inv_def lease_inv_def version_inv_def pin_inv_def)

lemma publish_inv: "ms_inv st \<Longrightarrow> ms_publish now expected l ns st = Inr (r, st') \<Longrightarrow> ms_inv st'"
  unfolding ms_publish_iff by (auto simp: ms_inv_def lease_inv_def version_inv_def pin_inv_def)

lemma published_info_valid:
  assumes "publication_validate p vol = Inr ()" "version_info_validate (published_info p i now) = Inr ()"
    and "ver_volume i = vol"
  shows "version_info_validate_for_volume (published_info p i now) vol = Inr ()"
  using assms unfolding validate_for_volume_iff publication_validate_iff
  by (auto simp: published_info_def)

lemma version_inv_publish:
  assumes "version_inv st" "vi_id info = VersionId (ms_volume_id st) (ms_next_version st)"
    and "version_info_validate_for_volume info (ms_volume_id st) = Inr ()" "\<not> vi_durable info"
  shows "version_inv (st\<lparr>ms_next_version := ms_next_version st + 1, ms_namespace := ns, ms_revision := r,
    ms_head := Some (vi_id info), ms_operations := fmupd op (vi_id info) (ms_operations st),
    ms_versions := fmupd (vi_id info) info (ms_versions st)\<rparr>)"
  using assms unfolding version_inv_def by (auto simp: less_Suc_eq)

lemma publish_version_inv:
  assumes inv: "ms_inv st" and ok: "publish_version to_vec now l p st = Inr (info, st')"
  shows "ms_inv st'"
proof (cases "fmlookup (ms_operations st) (vp_operation_id p)")
  case None
  note new = ok [unfolded publish_version_fresh_iff [OF None]]
  let ?i = "VersionId (ms_volume_id st) (ms_next_version st)"
  have valid: "version_info_validate_for_volume (published_info p ?i now) (ms_volume_id st) = Inr ()"
    using new published_info_valid by (metis version_id.sel(1))
  have flds: "vi_id (published_info p ?i now) = ?i" "\<not> vi_durable (published_info p ?i now)"
    by (simp_all add: published_info_def)
  have "version_inv st'"
    using new version_inv_publish [of st "published_info p ?i now"] valid flds inv
    by (simp add: ms_inv_def version_inv_def [of st])
  then show ?thesis using new inv by (auto simp: ms_inv_def lease_inv_def pin_inv_def)
next
  case (Some i)
  then show ?thesis using ok inv by (auto simp: publish_version_retry_iff)
qed

lemma pins_only_inv:
  assumes "ms_inv st" "pin_inv (st\<lparr>ms_next_read_fence := f, ms_pins := P\<rparr>)"
  shows "ms_inv (st\<lparr>ms_next_read_fence := f, ms_pins := P\<rparr>)"
  using assms by (simp add: ms_inv_def version_inv_def lease_inv_def)

lemma pin_inv_upd:
  assumes "pin_inv st" "ms_next_read_fence st \<le> f" "rl_fence l \<le> f"
    and "rl_view_id l = view_id_text (ms_volume_id st) (rl_fence l)"
    and "rl_volume l = ms_volume_id st" "ver_volume (rl_version l) = ms_volume_id st"
  shows "pin_inv (st\<lparr>ms_next_read_fence := f, ms_pins := fmupd (rl_view_id l) l (ms_pins st)\<rparr>)"
  using assms order_trans [OF _ assms(2)] unfolding pin_inv_def by simp

lemma open_pin_inv:
  assumes "ms_inv st" "open_view_pin now i r st = Inr (l, st')"
  shows "ms_inv st'"
  using assms pins_only_inv [OF assms(1) pin_inv_upd [of st "ms_next_read_fence st + 1" l]]
  by (simp add: open_view_pin_iff ms_inv_def)

lemma renew_pin_inv:
  assumes "ms_inv st" "renew_view_pin now l r st = Inr (l', st')"
  shows "ms_inv st'"
proof -
  have "pin_inv st" using assms(1) by (simp add: ms_inv_def)
  then have "rl_view_id l = view_id_text (ms_volume_id st) (rl_fence l)" "rl_volume l = ms_volume_id st"
    "ver_volume (rl_version l) = ms_volume_id st" "rl_fence l \<le> ms_next_read_fence st"
    using assms(2) by (auto simp: renew_view_pin_iff pin_inv_def)
  with \<open>pin_inv st\<close> assms show ?thesis
    using pins_only_inv [OF assms(1) pin_inv_upd [of st "ms_next_read_fence st" l']]
    by (simp add: renew_view_pin_iff)
qed

lemma close_pin_inv:
  assumes "ms_inv st" "close_view_pin now now' l st = Inr (u, st')"
  shows "ms_inv st'"
proof -
  have "pin_inv (st\<lparr>ms_next_read_fence := ms_next_read_fence st, ms_pins := fmdrop k (ms_pins st)\<rparr>)" for k
    using assms(1) by (simp add: ms_inv_def pin_inv_def)
  then show ?thesis
    using assms(1) close_view_pin_cases [OF assms(2)]
      pins_only_inv [OF assms(1), where f = "ms_next_read_fence st" and P = "fmdrop (rl_view_id l) (ms_pins st)"]
    by auto
qed

lemma delete_inv: "ms_inv st \<Longrightarrow> delete_version now l i st = Inr (u, st') \<Longrightarrow> ms_inv st'"
  unfolding delete_version_iff
  by (auto simp: ms_inv_def lease_inv_def version_inv_def pin_inv_def split: if_splits option.splits)

lemmas call_invs = acquire_inv renew_inv release_inv publish_inv publish_version_inv open_pin_inv
  renew_pin_inv close_pin_inv delete_inv

lemma ms_exec_inv: "ms_inv st \<Longrightarrow> ms_inv (ms_exec to_vec c st)"
  by (cases c) (simp_all, (rule next_stateI, assumption, erule (1) call_invs)+)

lemma ms_reachable_inv: "ms_reachable to_vec st \<Longrightarrow> ms_inv st"
  by (induction rule: ms_reachable.induct) (auto intro: ms_inv_new ms_exec_inv)

section \<open>The contract\<close>

lemma ms_exec_mono:
  "ms_last_fence st \<le> ms_last_fence (ms_exec to_vec c st) \<and> ms_revision st \<le> ms_revision (ms_exec to_vec c st)
   \<and> ms_next_version st \<le> ms_next_version (ms_exec to_vec c st)
   \<and> ms_volume_id (ms_exec to_vec c st) = ms_volume_id st"
proof (cases c)
  case (PublishVersion now l p)
  then show ?thesis
    by (cases "fmlookup (ms_operations st) (vp_operation_id p)")
      (auto split: next_state_split simp: publish_version_fresh_iff publish_version_retry_iff)
next
  case (ClosePin now now' l)
  then show ?thesis by (auto split: next_state_split dest!: close_view_pin_cases)
qed (auto split: next_state_split simp: acquire_writer_iff renew_writer_iff release_writer_def ms_publish_iff
    open_view_pin_iff renew_view_pin_iff delete_version_iff)

interpretation mem: fenced_store ms_inv "ms_step to_vec" ms_last_fence ms_revision
  "\<lambda>now l st. validate_lease st l now = Inr ()" acquire_writer ms_publish
  for to_vec
proof
  fix st st' :: metadata_state
  assume inv: "ms_inv st"
  show "ms_inv st'" "ms_last_fence st \<le> ms_last_fence st'" "ms_revision st \<le> ms_revision st'"
    if "ms_step to_vec st st'"
    using that ms_exec_inv [OF inv] ms_exec_mono by (auto simp: ms_step_def)
  show "ms_step to_vec st st'" if "acquire_writer now owner ttl st = Inr (l, st')" for now owner ttl l
    unfolding ms_step_def by (rule exI [of _ "Acquire now owner ttl"]) (simp add: that)
  show "wl_fence l = ms_last_fence st + 1 \<and> ms_last_fence st' = wl_fence l"
    if "acquire_writer now owner ttl st = Inr (l, st')" for now owner ttl l
    using that by (simp add: acquire_writer_iff)
  show "ms_step to_vec st st'" if "ms_publish now expected l ns st = Inr (r, st')" for now expected l ns r
    unfolding ms_step_def by (rule exI [of _ "Publish now expected l ns"]) (simp add: that)
  show "wl_fence l = ms_last_fence st" if "validate_lease st l now = Inr ()" for now l
    using lease_fence [OF inv that] .
  show "validate_lease st l now = Inr ()"
    "expected = ms_revision st \<and> r = ms_revision st + 1 \<and> ms_revision st' = r"
    if "ms_publish now expected l ns st = Inr (r, st')" for now expected l ns r
    using that by (simp_all add: ms_publish_iff)
qed

section \<open>Version records\<close>

lemma version_invD:
  assumes "ms_inv st" "fmlookup (ms_versions st) i = Some info"
  shows "vi_id info = i" "ver_sequence i < ms_next_version st" "ver_volume i = ms_volume_id st"
    "version_info_validate_for_volume info (ms_volume_id st) = Inr ()" "\<not> vi_durable info"
proof -
  have "vi_id info = i \<and> ver_sequence i < ms_next_version st
      \<and> version_info_validate_for_volume info (ms_volume_id st) = Inr () \<and> \<not> vi_durable info"
    using assms unfolding ms_inv_def version_inv_def by blast
  then show "vi_id info = i" "ver_sequence i < ms_next_version st" "ver_volume i = ms_volume_id st"
    "version_info_validate_for_volume info (ms_volume_id st) = Inr ()" "\<not> vi_durable info"
    by (auto simp: validate_for_volume_iff)
qed

lemma version_kept_or_deleted:
  assumes "ms_inv st" "fmlookup (ms_versions st) i = Some info"
  shows "fmlookup (ms_versions (ms_exec to_vec c st)) i = Some info
    \<or> fmlookup (ms_versions (ms_exec to_vec c st)) i = None"
proof (cases c)
  case (PublishVersion now l p)
  have "i \<noteq> VersionId (ms_volume_id st) (ms_next_version st)"
    using version_invD(2) [OF assms] by auto
  then show ?thesis
    using PublishVersion assms(2)
    by (cases "fmlookup (ms_operations st) (vp_operation_id p)")
      (auto split: next_state_split simp: publish_version_fresh_iff publish_version_retry_iff published_info_def)
next
  case (ClosePin now now' l)
  then show ?thesis using assms(2) by (auto split: next_state_split dest!: close_view_pin_cases)
qed (use assms(2) in \<open>auto split: next_state_split simp: acquire_writer_iff renew_writer_iff release_writer_def
    ms_publish_iff open_view_pin_iff renew_view_pin_iff delete_version_iff\<close>)

lemma operation_kept_or_deleted:
  assumes "fmlookup (ms_operations st) op = Some i" "ms_inv st"
  shows "fmlookup (ms_operations (ms_exec to_vec c st)) op = Some i
    \<or> fmlookup (ms_versions (ms_exec to_vec c st)) i = None"
proof (cases c)
  case (PublishVersion now l p)
  then show ?thesis
    using assms(1)
    by (cases "fmlookup (ms_operations st) (vp_operation_id p)")
      (auto split: next_state_split simp: publish_version_fresh_iff publish_version_retry_iff published_info_def)
next
  case (ClosePin now now' l)
  then show ?thesis using assms(1) by (auto split: next_state_split dest!: close_view_pin_cases)
qed (use assms(1) in \<open>auto split: next_state_split simp: acquire_writer_iff renew_writer_iff release_writer_def
    ms_publish_iff open_view_pin_iff renew_view_pin_iff delete_version_iff\<close>)

lemma version_stays_deleted:
  assumes "fmlookup (ms_versions st) i = None" "ver_sequence i < ms_next_version st"
  shows "fmlookup (ms_versions (ms_exec to_vec c st)) i = None"
proof (cases c)
  case (PublishVersion now l p)
  have "i \<noteq> VersionId (ms_volume_id st) (ms_next_version st)" using assms(2) by auto
  then show ?thesis
    using PublishVersion assms(1)
    by (cases "fmlookup (ms_operations st) (vp_operation_id p)")
      (auto split: next_state_split simp: publish_version_fresh_iff publish_version_retry_iff published_info_def)
next
  case (ClosePin now now' l)
  then show ?thesis using assms(1) by (auto split: next_state_split dest!: close_view_pin_cases)
qed (use assms(1) in \<open>auto split: next_state_split simp: acquire_writer_iff renew_writer_iff release_writer_def
    ms_publish_iff open_view_pin_iff renew_view_pin_iff delete_version_iff\<close>)

text \<open>A committed version with its operation: unchanged, or deleted for good.\<close>

definition committed_or_deleted :: "string \<Rightarrow> version_info \<Rightarrow> metadata_state \<Rightarrow> bool" where
  "committed_or_deleted op info st \<longleftrightarrow> ms_inv st \<and> ver_sequence (vi_id info) < ms_next_version st
     \<and> (fmlookup (ms_versions st) (vi_id info) = Some info \<and> fmlookup (ms_operations st) op = Some (vi_id info)
        \<or> fmlookup (ms_versions st) (vi_id info) = None)"

lemma committed_step:
  assumes "committed_or_deleted op info st" "ms_step to_vec st st'"
  shows "committed_or_deleted op info st'"
proof -
  obtain c where c: "st' = ms_exec to_vec c st" using assms(2) by (auto simp: ms_step_def)
  have inv: "ms_inv st" and seq: "ver_sequence (vi_id info) < ms_next_version st"
    using assms(1) by (auto simp: committed_or_deleted_def)
  have "ver_sequence (vi_id info) < ms_next_version st'"
    using seq ms_exec_mono [of st to_vec c] c by auto
  then show ?thesis
    using assms(1) ms_exec_inv [OF inv, of to_vec c] version_kept_or_deleted [OF inv, of "vi_id info" info to_vec c]
      operation_kept_or_deleted [OF _ inv, of op "vi_id info" to_vec c]
      version_stays_deleted [OF _ seq, of to_vec c] unfolding committed_or_deleted_def c by auto
qed

lemma committed_run:
  "(ms_step to_vec)\<^sup>*\<^sup>* st st' \<Longrightarrow> committed_or_deleted op info st \<Longrightarrow> committed_or_deleted op info st'"
  by (induction rule: rtranclp_induct) (auto intro: committed_step)

lemma publish_version_commits:
  assumes inv: "ms_inv st" and ok: "publish_version to_vec now l p st = Inr (info, st')"
    and enc: "is_ok (to_vec (vp_namespace p))"
  shows "committed_or_deleted (vp_operation_id p) info st' \<and> fmlookup (ms_versions st') (vi_id info) = Some info
    \<and> matches_committed to_vec p info = Inr True"
proof (cases "fmlookup (ms_operations st) (vp_operation_id p)")
  case None
  note new = ok [unfolded publish_version_fresh_iff [OF None]]
  have "matches_committed to_vec p info = Inr True"
    using new enc by (auto simp: matches_committed_def encode_namespace_def published_info_def is_ok_iff)
  then show ?thesis
    using new publish_version_inv [OF inv ok] by (auto simp: committed_or_deleted_def published_info_def)
next
  case (Some i)
  note old = ok [unfolded publish_version_retry_iff [OF Some]]
  then show ?thesis
    using inv Some version_invD [OF inv, of i info] by (auto simp: committed_or_deleted_def)
qed

section \<open>Read pins\<close>







lemma load_version_inv:
  assumes "ms_inv st"
  shows "ms_load_version i st = Inr info \<longleftrightarrow> fmlookup (ms_versions st) i = Some info"
  using version_invD [OF assms, of i] by (auto simp: ms_load_version_def)

section \<open>Properties\<close>

lemma ms_run_steps: "(ms_step to_vec)\<^sup>*\<^sup>* st (ms_run to_vec calls st)"
proof (induction calls arbitrary: st)
  case (Cons c calls)
  have "ms_step to_vec st (ms_exec to_vec c st)" by (auto simp: ms_step_def)
  with Cons.IH [of "ms_exec to_vec c st"] show ?case by (simp add: ms_run_def converse_rtranclp_into_rtranclp)
qed (simp add: ms_run_def)

lemma ms_run_reachable: "ms_reachable to_vec st \<Longrightarrow> ms_reachable to_vec (ms_run to_vec calls st)"
  by (induction calls arbitrary: st) (auto simp: ms_run_def intro: ms_reachable_call)

lemma list_versions_inv:
  assumes "ms_inv st"
  shows "\<exists>vs. ms_list_versions st = Inr vs \<and> map vi_id vs = sorted_list_of_fset (fmdom (ms_versions st))"
proof -
  let ?l = "sorted_list_of_fmap (ms_versions st)"
  have "try_map (\<lambda>(_, v). and_then (version_info_validate_for_volume v (ms_volume_id st)) (\<lambda>_. Inr v)) ?l
      = Inr (map snd ?l)"
    unfolding try_map_eq_Inr list_all2_conv_all_nth
    using version_invD(4) [OF assms] set_sorted_fmap nth_mem by (fastforce split: prod.splits)
  moreover have "map vi_id (map snd ?l) = map fst ?l"
    using version_invD(1) [OF assms] by (auto simp: set_sorted_fmap)
  moreover have "map fst ?l = sorted_list_of_fset (fmdom (ms_versions st))"
    by (simp add: sorted_list_of_fmap_def comp_def)
  ultimately show ?thesis by (auto simp: ms_list_versions_def)
qed

lemma last_of_sorted_sequences:
  assumes "sorted_wrt (<) (map (ver_sequence \<circ> vi_id) vs)" "h \<in> set (map vi_id vs)"
    and "\<And>i. i \<in> set (map vi_id vs) \<Longrightarrow> ver_sequence i \<le> ver_sequence h"
  shows "vi_id (last vs) = h"
proof -
  have ne: "vs \<noteq> []" using assms(2) by auto
  then obtain us v where vs: "vs = us @ [v]" by (cases vs rule: rev_cases) auto
  show ?thesis using assms unfolding vs by (fastforce simp: sorted_wrt_append)
qed

lemma sequences_sorted:
  assumes inv: "ms_inv st" and vs: "map vi_id vs = sorted_list_of_fset (fmdom (ms_versions st))"
  shows "sorted_wrt (<) (map (ver_sequence \<circ> vi_id) vs)"
proof -
  have "sorted_wrt (<) (map vi_id vs)" unfolding vs by (simp add: sorted_list_of_fset.rep_eq)
  moreover have "ver_volume i = ms_volume_id st" if "i \<in> set (map vi_id vs)" for i
    using that version_invD(3) [OF inv] unfolding vs by (auto simp: fmlookup_dom_iff)
  ultimately show ?thesis
    unfolding sorted_wrt_map by (auto simp: less_version_id_def elim!: sorted_wrt_mono_rel [rotated])
qed

lemma version_head_inv:
  assumes inv: "ms_inv st" and vs: "map vi_id vs = sorted_list_of_fset (fmdom (ms_versions st))"
  shows "\<exists>h. ms_version_head st = Inr h
      \<and> (case h of None \<Rightarrow> vs = [] | Some t \<Rightarrow> vs \<noteq> [] \<and> vi_id (last vs) = vh_version t)"
proof (cases "ms_head st")
  case None
  then have "ms_next_version st = 1" using inv by (simp add: ms_inv_def version_inv_def)
  moreover have "0 < ver_sequence i \<and> ver_sequence i < ms_next_version st" if "i \<in> set (map vi_id vs)" for i
    using that version_invD(1,2,4) [OF inv] unfolding vs
    by (fastforce simp: fmlookup_dom_iff validate_for_volume_iff version_info_validate_iff)
  ultimately have "i \<notin> set (map vi_id vs)" for i by fastforce
  then have "map vi_id vs = []" by (metis list.set_intros(1) neq_Nil_conv)
  then show ?thesis using None by (auto simp: ms_version_head_def)
next
  case (Some h)
  then obtain info where h: "fmlookup (ms_versions st) h = Some info" "Suc (ver_sequence h) = ms_next_version st"
    using inv unfolding ms_inv_def version_inv_def by blast
  then have hm: "h \<in> set (map vi_id vs)" unfolding vs by (auto simp: fmlookup_dom_iff)
  have "ver_sequence i \<le> ver_sequence h" if "i \<in> set (map vi_id vs)" for i
    using that version_invD(2) [OF inv] h(2) unfolding vs by (fastforce simp: fmlookup_dom_iff)
  then have "vi_id (last vs) = h" by (rule last_of_sorted_sequences [OF sequences_sorted [OF inv vs] hm])
  then show ?thesis
    using Some h(1) version_invD(3,4) [OF inv h(1)] hm by (auto simp: ms_version_head_def)
qed

text \<open>The store, encoder and calls of the witnesses.\<close>

definition sample_encoder :: namespace_encoder where
  "sample_encoder ns = Inr [of_nat (fcard (fmdom (ns_nodes ns)))]"

definition sample_store :: metadata_state where
  "sample_store = metadata_state_default\<lparr>ms_volume_id := VolumeId ''memory-7-1''\<rparr>"

definition sample_lease :: writer_lease where
  "sample_lease = \<lparr>wl_owner = ''w'', wl_fence = 1, wl_expires_at_ms = 5100\<rparr>"

definition sample_ttl :: duration where
  "sample_ttl = \<lparr>du_secs = 5, du_nanos = 0\<rparr>"

definition sample_publication :: "nat \<Rightarrow> version_id option \<Rightarrow> string \<Rightarrow> version_publication" where
  "sample_publication revision parent op = \<lparr>vp_expected_revision = revision, vp_expected_parent = parent,
     vp_operation_id = op, vp_namespace = sample_namespace, vp_block_store_id = ''blocks'',
     vp_kind = Snapshot, vp_restored_from = None, vp_forked_from = None, vp_durable = False\<rparr>"

definition sample_id :: "nat \<Rightarrow> version_id" where
  "sample_id n = VersionId (VolumeId ''memory-7-1'') n"

lemma sample_store_reachable: "ms_reachable sample_encoder sample_store"
proof (rule ms_reachable_new)
  show "metadata_with_clock 7 1 = Inr sample_store" by code_simp
qed



text \<open>
  C6: Publication is a compare-and-swap that loses no update: a successful publication advances the
  revision by exactly one and stores its namespace, and afterwards, whatever calls follow, no other
  publication against the same expected revision succeeds.
\<close>

theorem memory_no_lost_update:
  assumes "ms_reachable to_vec st" "ms_publish now expected lease ns st = Inr (r, st1)"
  shows "ms_load st1 = \<lparr>lm_revision = lm_revision (ms_load st) + 1, lm_namespace = Some ns\<rparr> \<and> r = expected + 1
    \<and> \<not> is_ok (ms_publish now' expected lease' ns' (ms_run to_vec calls st1))"
  using mem.no_lost_update [OF ms_reachable_inv [OF assms(1)] assms(2) ms_run_steps] assms(2)
  by (simp add: ms_load_def ms_publish_iff)

theorem memory_no_lost_update_witness:
  "\<not> is_ok (ms_publish 300 0 sample_lease sample_namespace
     (ms_run sample_encoder [Release 250 sample_lease] (snd (projr (ms_publish 200 0 sample_lease sample_namespace
       (ms_run sample_encoder [Acquire 100 ''w'' sample_ttl] sample_store))))))"
proof -
  let ?st = "ms_run sample_encoder [Acquire 100 ''w'' sample_ttl] sample_store"
  have ok: "ms_publish 200 0 sample_lease sample_namespace ?st
      = Inr (1, snd (projr (ms_publish 200 0 sample_lease sample_namespace ?st)))" by code_simp
  show ?thesis
    using memory_no_lost_update [OF ms_run_reachable [OF sample_store_reachable] ok] by simp
qed

text \<open>
  C30: The version history of a reachable store is consistent: the head and the list of versions can
  always be read, the list is in strictly increasing order of sequence with the head last, every
  committed operation is found, and loading a version fails only because there is no such version.
  None of the branches for corrupted history is reached.
\<close>

theorem memory_history_consistent:
  assumes "ms_reachable to_vec st"
  shows "\<exists>vs h. ms_list_versions st = Inr vs \<and> ms_version_head st = Inr h
    \<and> sorted_wrt (<) (map (ver_sequence \<circ> vi_id) vs)
    \<and> (case h of None \<Rightarrow> vs = [] | Some t \<Rightarrow> vs \<noteq> [] \<and> vi_id (last vs) = vh_version t)
    \<and> (\<forall>op. is_ok (ms_find_publication op st))
    \<and> (\<forall>i e. ms_load_version i st = Inl e \<longrightarrow> err_code e = Enoent)"
proof -
  have inv: "ms_inv st" by (rule ms_reachable_inv [OF assms])
  obtain vs where vs: "ms_list_versions st = Inr vs" "map vi_id vs = sorted_list_of_fset (fmdom (ms_versions st))"
    using list_versions_inv [OF inv] by blast
  have "fmlookup (ms_operations st) op = Some i \<longrightarrow> fmlookup (ms_versions st) i \<noteq> None" for op i
    using inv unfolding ms_inv_def version_inv_def by blast
  then have "is_ok (ms_find_publication op st)" for op
    using version_invD(4) [OF inv]
    by (cases "fmlookup (ms_operations st) op") (fastforce simp: ms_find_publication_def)+
  moreover have "err_code e = Enoent" if "ms_load_version i st = Inl e" for i e
    using that version_invD(4) [OF inv, of i]
    by (cases "fmlookup (ms_versions st) i") (auto simp: ms_load_version_def split: if_splits)
  ultimately show ?thesis using vs(1) sequences_sorted [OF inv vs(2)] version_head_inv [OF inv vs(2)] by blast
qed

theorem memory_history_consistent_witness:
  "\<exists>vs h. ms_list_versions (ms_run sample_encoder [Acquire 100 ''w'' sample_ttl,
      PublishVersion 200 sample_lease (sample_publication 0 None ''op1'')] sample_store) = Inr vs
    \<and> ms_version_head (ms_run sample_encoder [Acquire 100 ''w'' sample_ttl,
      PublishVersion 200 sample_lease (sample_publication 0 None ''op1'')] sample_store) = Inr h"
  using memory_history_consistent [OF ms_run_reachable [OF sample_store_reachable]] by blast

text \<open>
  C20: Retrying a publication is safe. After a publication has committed, and as long as its version
  has not been deleted, presenting the same publication again returns the committed record and
  changes nothing, with any lease and after any calls in between; so a lost response can be
  resolved by repeating the call.
\<close>

theorem memory_publication_retry:
  assumes "ms_reachable to_vec st" "publish_version to_vec now lease p st = Inr (info, st1)"
    and "is_ok (to_vec (vp_namespace p))"
    and st2: "st2 = ms_run to_vec calls st1" and "ms_load_version (vi_id info) st2 = Inr info2"
  shows "publish_version to_vec now' lease' p st2 = Inr (info, st2) \<and> info2 = info"
proof -
  have commit: "committed_or_deleted (vp_operation_id p) info st1" "matches_committed to_vec p info = Inr True"
    using publish_version_commits [OF ms_reachable_inv [OF assms(1)] assms(2,3)] by auto
  have now: "committed_or_deleted (vp_operation_id p) info st2"
    unfolding st2 by (rule committed_run [OF ms_run_steps commit(1)])
  then have inv: "ms_inv st2" by (simp add: committed_or_deleted_def)
  have v: "fmlookup (ms_versions st2) (vi_id info) = Some info2" using assms(5) load_version_inv [OF inv] by simp
  then have op: "fmlookup (ms_operations st2) (vp_operation_id p) = Some (vi_id info)" "info2 = info"
    using now by (auto simp: committed_or_deleted_def)
  then show ?thesis
    using v commit(2) version_invD(4) [OF inv v] by (simp add: publish_version_retry_iff [OF op(1)])
qed

theorem memory_publication_retry_witness:
  "\<exists>info st1 info2. publish_version sample_encoder 200 sample_lease (sample_publication 0 None ''op1'')
      (ms_run sample_encoder [Acquire 100 ''w'' sample_ttl] sample_store) = Inr (info, st1)
    \<and> publish_version sample_encoder 9000 sample_lease (sample_publication 0 None ''op1'')
        (ms_run sample_encoder [PublishVersion 300 sample_lease (sample_publication 1 (Some (sample_id 1)) ''op2'')] st1)
      = Inr (info2, ms_run sample_encoder [PublishVersion 300 sample_lease (sample_publication 1 (Some (sample_id 1)) ''op2'')] st1)
    \<and> info2 = info"
proof -
  let ?st = "ms_run sample_encoder [Acquire 100 ''w'' sample_ttl] sample_store"
  let ?p = "sample_publication 0 None ''op1''"
  let ?calls = "[PublishVersion 300 sample_lease (sample_publication 1 (Some (sample_id 1)) ''op2'')]"
  let ?r = "publish_version sample_encoder 200 sample_lease ?p ?st"
  have ok: "?r = Inr (published_info ?p (sample_id 1) 200, snd (projr ?r))" by code_simp
  have enc: "is_ok (sample_encoder (vp_namespace ?p))" by code_simp
  have ld: "ms_load_version (vi_id (published_info ?p (sample_id 1) 200))
      (ms_run sample_encoder ?calls (snd (projr ?r))) = Inr (published_info ?p (sample_id 1) 200)" by code_simp
  show ?thesis
    using memory_publication_retry [OF ms_run_reachable [OF sample_store_reachable] ok enc refl ld] ok by blast
qed



end
