(* ===== verification/Memory_Blocks.thy ===== *)
theory Memory_Blocks
  imports Memory_Store
begin

text \<open>
  Model of \<^verbatim>\<open>MemoryBlockStore\<close> (\<^verbatim>\<open>providers/mount-rs-memory/src/lib.rs\<close>): blocks under an identity
  computed from their contents, with numbered identities for contents whose identity is taken.
\<close>

section \<open>Content identity\<close>

definition BLOCK_OFFSETS :: "u64w list" where
  "BLOCK_OFFSETS = [0xcbf29ce484222325, 0x84222325cbf29ce4, 0x9e3779b185ebca87, 0xd6e8feb86659fd93]"

definition BLOCK_PRIME :: u64w where
  "BLOCK_PRIME = 0x100000001b3"

text \<open>One byte into one lane.\<close>

definition lane_byte :: "nat \<Rightarrow> u8 \<Rightarrow> nat \<Rightarrow> u64w \<Rightarrow> u64w" where
  "lane_byte index b lane v =
     word_rotl (lane * 11 + 5)
       ((v XOR (ucast b + of_nat index * (0x9e3779b97f4a7c15 XOR of_nat lane))) * BLOCK_PRIME)"

definition lane_length :: "nat \<Rightarrow> nat \<Rightarrow> u64w \<Rightarrow> u64w" where
  "lane_length len lane v =
     word_rotl (lane * 13 + 7) ((v XOR (of_nat len + of_nat lane * 0x517cc1b727220a95)) * BLOCK_PRIME)"

text \<open>A pass over the lanes with their numbers.\<close>

definition map_lanes :: "(nat \<Rightarrow> u64w \<Rightarrow> u64w) \<Rightarrow> u64w list \<Rightarrow> u64w list" where
  "map_lanes f lanes = map (\<lambda>(lane, v). f lane v) (zip [0..<length lanes] lanes)"

fun hash_bytes :: "nat \<Rightarrow> bytes \<Rightarrow> u64w list \<Rightarrow> u64w list" where
  "hash_bytes index [] lanes = lanes"
| "hash_bytes index (b # bs) lanes = hash_bytes (Suc index) bs (map_lanes (lane_byte index b) lanes)"

definition hex16 :: "nat \<Rightarrow> string" where
  "hex16 n = map (\<lambda>k. hex_digit (n div 16 ^ k mod 16)) (List.rev [0..<16])"

definition block_id :: "bytes \<Rightarrow> string" where
  "block_id bs =
     (let lanes = map_lanes (lane_length (length bs)) (hash_bytes 0 bs BLOCK_OFFSETS)
      in ''mem-'' @ hex16 (length bs) @ ''-'' @ concat (map (\<lambda>v. hex16 (unat v)) lanes))"

section \<open>Operations\<close>

type_synonym block_map = "(string, bytes) fmap"

text \<open>The loop of \<^verbatim>\<open>put\<close>; the counter is checked, so the loop ends.\<close>

function put_loop :: "string \<Rightarrow> bytes \<Rightarrow> block_map \<Rightarrow> string \<Rightarrow> nat \<Rightarrow> (string \<times> block_map) result" where
  "put_loop base_id bs blocks i collision =
     (case fmlookup blocks i of
        Some existing \<Rightarrow>
          if existing = bs then Inr (i, blocks)
          else (case checked_add collision 1 of
                  None \<Rightarrow> Inl eoverflow
                | Some c \<Rightarrow> put_loop base_id bs blocks (base_id @ ''-'' @ u64_to_string c) c)
      | None \<Rightarrow> Inr (i, fmupd i bs blocks))"
  by pat_completeness auto

termination put_loop
  by (relation "measure (\<lambda>(_, _, _, _, c). U64_MAX - c)") auto

declare put_loop.simps [simp del]

definition block_put :: "bytes \<Rightarrow> block_map \<Rightarrow> (string \<times> block_map) result" where
  "block_put bs blocks = put_loop (block_id bs) bs blocks (block_id bs) 0"

definition block_get :: "string \<Rightarrow> block_map \<Rightarrow> bytes result" where
  "block_get i blocks = ok_or (fmlookup blocks i) (with_message ''block not found'' (fs_error_new Enoent))"

definition block_delete :: "string \<Rightarrow> block_map \<Rightarrow> (unit \<times> block_map) result" where
  "block_delete i blocks =
     (if fmlookup blocks i \<noteq> None then Inr ((), fmdrop i blocks)
      else Inl (with_message ''block not found'' (fs_error_new Enoent)))"

section \<open>The contract\<close>

lemma put_loop_result:
  "put_loop base bs blocks i c = Inr (j, blocks') \<Longrightarrow>
     (fmlookup blocks j = Some bs \<and> blocks' = blocks) \<or> (fmlookup blocks j = None \<and> blocks' = fmupd j bs blocks)"
proof (induction base bs blocks i c rule: put_loop.induct)
  case (1 base bs blocks i c)
  then show ?case
    by (subst (asm) put_loop.simps [of base bs blocks i c]) (auto split: option.splits if_splits)
qed

lemma block_put_result:
  "block_put bs blocks = Inr (j, blocks') \<Longrightarrow>
     (fmlookup blocks j = Some bs \<and> blocks' = blocks) \<or> (fmlookup blocks j = None \<and> blocks' = fmupd j bs blocks)"
  unfolding block_put_def by (rule put_loop_result)

interpretation memblocks: block_store block_put block_get
proof
  fix bs blocks j blocks'
  assume put: "block_put bs blocks = Inr (j, blocks')"
  show "block_get j blocks' = Inr bs" using block_put_result [OF put] by (auto simp: block_get_def)
  show "block_get k blocks' = Inr cs" if "block_get k blocks = Inr cs" for k cs
    using block_put_result [OF put] that by (auto simp: block_get_def)
qed

text \<open>The identities tried, in order, and that one of them is free in a store of at most \<open>U64_MAX\<close> blocks.\<close>

definition candidate :: "string \<Rightarrow> nat \<Rightarrow> string" where
  "candidate base c = (if c = 0 then base else base @ ''-'' @ u64_to_string c)"

lemma candidate_inj: "candidate base a = candidate base b \<longleftrightarrow> a = b"
  using u64_to_string_inj by (auto simp: candidate_def split: if_splits)

lemma put_loop_collide:
  "fmlookup blocks (candidate base c) = Some old \<Longrightarrow> old \<noteq> bs \<Longrightarrow>
   put_loop base bs blocks (candidate base c) c =
     (if Suc c \<le> U64_MAX then put_loop base bs blocks (candidate base (Suc c)) (Suc c) else Inl eoverflow)"
  by (simp add: put_loop.simps [of base bs blocks "candidate base c"] checked_add_def)
    (simp add: candidate_def)

lemma put_loop_stop:
  "fmlookup blocks (candidate base c) = None \<or> fmlookup blocks (candidate base c) = Some bs \<Longrightarrow>
   put_loop base bs blocks (candidate base c) c = Inr (candidate base c, fmupd (candidate base c) bs blocks)"
  by (auto simp: put_loop.simps [of base bs blocks "candidate base c"] intro!: fmap_ext)

lemma put_loop_error:
  assumes "put_loop base bs blocks (candidate base c) c = Inl e"
  shows "\<forall>d. c \<le> d \<and> d \<le> U64_MAX \<longrightarrow> fmlookup blocks (candidate base d) \<noteq> None"
  using assms
proof (induction "U64_MAX - c" arbitrary: c)
  case 0
  have "fmlookup blocks (candidate base c) \<noteq> None" 
    using 0 put_loop_stop [of blocks base c bs] by (cases "fmlookup blocks (candidate base c)") auto
  then show ?case using 0 by (metis diff_is_0_eq le_antisym le_trans)
next
  case (Suc n)
  obtain old where old: "fmlookup blocks (candidate base c) = Some old" "old \<noteq> bs"
    using Suc.prems put_loop_stop [of blocks base c bs] by (cases "fmlookup blocks (candidate base c)") auto
  have le: "Suc c \<le> U64_MAX" "n = U64_MAX - Suc c" using Suc.hyps(2) by simp_all
  have "put_loop base bs blocks (candidate base (Suc c)) (Suc c) = Inl e"
    using Suc.prems put_loop_collide [OF old] le by simp
  then have "\<forall>d. Suc c \<le> d \<and> d \<le> U64_MAX \<longrightarrow> fmlookup blocks (candidate base d) \<noteq> None"
    by (rule Suc.hyps(1) [OF le(2)])
  then show ?case using old(1) by (metis Suc_leI le_neq_implies_less option.distinct(1))
qed

lemma block_put_ok:
  assumes "fcard (fmdom blocks) \<le> U64_MAX"
  shows "is_ok (block_put bs blocks)"
proof (rule ccontr)
  assume "\<not> is_ok (block_put bs blocks)"
  then obtain e where "put_loop (block_id bs) bs blocks (block_id bs) 0 = Inl e"
    by (cases "block_put bs blocks") (auto simp: block_put_def)
  then have "\<forall>d. d \<le> U64_MAX \<longrightarrow> fmlookup blocks (candidate (block_id bs) d) \<noteq> None"
    using put_loop_error [of "block_id bs" bs blocks 0 e] by (simp add: candidate_def)
  then have "candidate (block_id bs) ` {..U64_MAX} \<subseteq> fset (fmdom blocks)"
    by (auto simp: fmlookup_dom_iff)
  then have "card (candidate (block_id bs) ` {..U64_MAX}) \<le> fcard (fmdom blocks)"
    by (simp add: card_mono fcard.rep_eq)
  moreover have "inj_on (candidate (block_id bs)) {..U64_MAX}" by (simp add: inj_on_def candidate_inj)
  then have "card (candidate (block_id bs) ` {..U64_MAX}) = Suc U64_MAX" by (simp add: card_image)
  ultimately show False using assms by simp
qed

lemma put_loop_repeat:
  assumes "put_loop base bs blocks (candidate base c) c = Inr (j, blocks')"
  shows "put_loop base bs blocks' (candidate base c) c = Inr (j, blocks')"
  using assms
proof (induction "U64_MAX - c" arbitrary: c rule: less_induct)
  case less
  let ?i = "candidate base c"
  show ?case
  proof (cases "fmlookup blocks ?i = None \<or> fmlookup blocks ?i = Some bs")
    case True
    then have "j = ?i" "blocks' = fmupd ?i bs blocks" 
      using less.prems put_loop_stop [of blocks base c bs] by auto
    then show ?thesis using put_loop_stop [of blocks' base c bs] by simp
  next
    case False
    then obtain old where old: "fmlookup blocks ?i = Some old" "old \<noteq> bs" by auto
    have le: "Suc c \<le> U64_MAX" using less.prems put_loop_collide [OF old] by (auto split: if_splits)
    then have run: "put_loop base bs blocks (candidate base (Suc c)) (Suc c) = Inr (j, blocks')"
      using less.prems put_loop_collide [OF old] by simp
    then have "fmlookup blocks' ?i = Some old" using put_loop_result [OF run] old by auto
    then show ?thesis using less.hyps [OF _ run] put_loop_collide [OF _ old(2), of blocks'] le by simp
  qed
qed

lemma block_put_repeat: "block_put bs blocks = Inr (i, blocks') \<Longrightarrow> block_put bs blocks' = Inr (i, blocks')"
  using put_loop_repeat [of "block_id bs" bs blocks 0] by (simp add: block_put_def candidate_def)

text \<open>
  C32: Blocks are written once: after a block is put, it is read back under the returned identity, now
  and after any further blocks have been put, and those are read back under theirs; putting the
  same contents again returns the same identity and adds nothing.
\<close>

theorem memory_blocks_write_once:
  assumes "block_put bs blocks = Inr (i, blocks1)" "put_all block_put css blocks1 = Inr (is, blocks2)"
  shows "block_get i blocks2 = Inr bs \<and> list_all2 (\<lambda>j cs. block_get j blocks2 = Inr cs) is css
    \<and> block_put bs blocks1 = Inr (i, blocks1)"
  using memblocks.put_all_keeps [OF assms(2) memblocks.put_get [OF assms(1)]]
    memblocks.put_all_get [OF assms(2)] block_put_repeat [OF assms(1)] by simp

theorem memory_blocks_write_once_witness:
  "\<exists>i blocks1 is blocks2. block_put [1, 2] fmempty = Inr (i, blocks1)
     \<and> put_all block_put [[3], [1, 2]] blocks1 = Inr (is, blocks2) \<and> block_get i blocks2 = Inr [1, 2]"
proof -
  obtain i blocks1 where a: "block_put [1, 2] fmempty = Inr (i, blocks1)"
    by (simp add: block_put_def put_loop.simps)
  have n: "fcard (fmdom blocks1) \<le> 1"
    using block_put_result [OF a] by (auto simp: fcard.rep_eq)
  obtain j blocks2 where b: "block_put [3] blocks1 = Inr (j, blocks2)"
    using block_put_ok [of blocks1 "[3]"] n by (auto simp: is_ok_iff U64_MAX_def)
  have n2: "fcard (fmdom blocks2) \<le> 2"
    using block_put_result [OF b] n by (auto simp: fcard_finsert_if)
  obtain k blocks3 where c: "block_put [1, 2] blocks2 = Inr (k, blocks3)"
    using block_put_ok [of blocks2 "[1, 2]"] n2 by (auto simp: is_ok_iff U64_MAX_def)
  have "put_all block_put [[3], [1, 2]] blocks1 = Inr ([j, k], blocks3)" using b c by simp
  then show ?thesis using memory_blocks_write_once [OF a] a by blast
qed

text \<open>
  C40: Putting a block always succeeds while the store holds at most \<^verbatim>\<open>u64::MAX\<close> blocks: the loop
  over numbered identities ends at a free one, so identity collisions are never an error.
\<close>

theorem memory_block_put_succeeds:
  assumes "fcard (fmdom blocks) \<le> U64_MAX"
  shows "\<exists>i blocks'. block_put bs blocks = Inr (i, blocks')"
  using block_put_ok [OF assms] by (auto simp: is_ok_iff)

theorem memory_block_put_succeeds_witness:
  "\<exists>i blocks'. block_put [7] (fmap_of_list [(block_id [7], [8])]) = Inr (i, blocks')"
  by (rule memory_block_put_succeeds) (simp add: fcard.rep_eq U64_MAX_def)

end
