(* ===== verification/Mem_Children.thy ===== *)
theory Mem_Children
  imports Mrs_Prelude
begin

text \<open>
  Model of \<^verbatim>\<open>Children\<close> (\<^verbatim>\<open>filesystems/mount-rs-memfs/src/lib.rs\<close>): a map from names to inodes that
  lists its entries in insertion order, as a hash map beside a list of names. The contract of such a
  map is a locale, interpreted on the code's operations.
\<close>

section \<open>The contract\<close>

locale insertion_ordered_map =
  fixes wf :: "'m \<Rightarrow> bool"
    and empty :: 'm
    and get :: "'m \<Rightarrow> 'k \<Rightarrow> 'v option"
    and insert :: "'k \<Rightarrow> 'v \<Rightarrow> 'm \<Rightarrow> 'm"
    and remove :: "'k \<Rightarrow> 'm \<Rightarrow> 'm"
    and entries :: "'m \<Rightarrow> ('k \<times> 'v) list"
  assumes wf_empty: "wf empty"
    and wf_insert: "wf m \<Longrightarrow> wf (insert k v m)"
    and wf_remove: "wf m \<Longrightarrow> wf (remove k m)"
    and get_insert: "get (insert k v m) = (get m)(k \<mapsto> v)"
    and get_remove: "get (remove k m) = (get m)(k := None)"
    and get_entries: "wf m \<Longrightarrow> map_of (entries m) = get m"
    and entries_distinct: "wf m \<Longrightarrow> distinct (map fst (entries m))"
    and entries_empty: "entries empty = []"
    and entries_fresh: "wf m \<Longrightarrow> get m k = None \<Longrightarrow> entries (insert k v m) = entries m @ [(k, v)]"
    and entries_remove: "wf m \<Longrightarrow> entries (remove k m) = filter (\<lambda>e. fst e \<noteq> k) (entries m)"
begin

lemma get_empty: "get empty = Map.empty"
  using get_entries [OF wf_empty] by (simp add: entries_empty)

lemma entries_iff: "wf m \<Longrightarrow> (k, v) \<in> set (entries m) \<longleftrightarrow> get m k = Some v"
  using get_entries [of m] entries_distinct [of m] by (metis map_of_eq_Some_iff)

lemma dom_finite: "wf m \<Longrightarrow> finite (dom (get m))"
  using get_entries [of m] finite_dom_map_of by metis

lemma entries_count:
  assumes "wf m"
  shows "length (filter (\<lambda>e. Q (snd e)) (entries m)) = card {k. \<exists>v. get m k = Some v \<and> Q v}"
proof -
  have "{k. \<exists>v. get m k = Some v \<and> Q v} = fst ` set (filter (\<lambda>e. Q (snd e)) (entries m))"
    using entries_iff [OF assms] by force
  moreover have "distinct (map fst (filter (\<lambda>e. Q (snd e)) (entries m)))"
    using entries_distinct [OF assms] by (simp add: distinct_map_filter)
  then have "card (set (map fst (filter (\<lambda>e. Q (snd e)) (entries m)))) = length (filter (\<lambda>e. Q (snd e)) (entries m))"
    by (simp only: distinct_card length_map)
  ultimately show ?thesis by simp
qed

text \<open>Entries keep their place when other keys come and go.\<close>

lemma entries_insert_remove:
  "wf m \<Longrightarrow> get m k = None \<Longrightarrow> entries (remove k (insert k v m)) = entries m"
proof -
  assume m: "wf m" "get m k = None"
  then have "entries (remove k (insert k v m)) = filter (\<lambda>e. fst e \<noteq> k) (entries m)"
    by (simp add: entries_remove wf_insert entries_fresh)
  also have "\<dots> = entries m" using entries_iff [OF m(1)] m(2) by (auto simp: filter_id_conv)
  finally show ?thesis .
qed

end

section \<open>The implementation\<close>

record children =
  ch_values :: "(string, nat) fmap"
  ch_order :: "string list"

definition children_new :: children where
  "children_new = \<lparr>ch_values = fmempty, ch_order = []\<rparr>"

definition children_get :: "children \<Rightarrow> string \<Rightarrow> nat option" where
  "children_get c name = fmlookup (ch_values c) name"

definition children_insert :: "string \<Rightarrow> nat \<Rightarrow> children \<Rightarrow> children" where
  "children_insert name inode c =
     (let c1 = (if fmlookup (ch_values c) name = None then c\<lparr>ch_order := ch_order c @ [name]\<rparr> else c)
      in c1\<lparr>ch_values := fmupd name inode (ch_values c1)\<rparr>)"

definition children_remove :: "string \<Rightarrow> children \<Rightarrow> children" where
  "children_remove name c =
     \<lparr>ch_values = fmdrop name (ch_values c), ch_order = filter (\<lambda>entry. entry \<noteq> name) (ch_order c)\<rparr>"

definition children_is_empty :: "children \<Rightarrow> bool" where
  "children_is_empty c \<longleftrightarrow> fmdom (ch_values c) = {||}"

text \<open>
  The iterator indexes the map by the names of the list and would panic on a missing one; a name of
  the list without a value is dropped here, and \<open>children_wf\<close> excludes it.
\<close>

definition children_iter :: "children \<Rightarrow> (string \<times> nat) list" where
  "children_iter c =
     concat (map (\<lambda>name. case fmlookup (ch_values c) name of None \<Rightarrow> [] | Some i \<Rightarrow> [(name, i)]) (ch_order c))"

definition children_from_iter :: "(string \<times> nat) list \<Rightarrow> children" where
  "children_from_iter es = fold (\<lambda>(name, inode) c. children_insert name inode c) es children_new"

definition children_wf :: "children \<Rightarrow> bool" where
  "children_wf c \<longleftrightarrow> distinct (ch_order c) \<and> set (ch_order c) = fmdom' (ch_values c)"

section \<open>The implementation satisfies the contract\<close>

lemma children_iter_map:
  assumes "children_wf c"
  shows "children_iter c = map (\<lambda>name. (name, the (fmlookup (ch_values c) name))) (ch_order c)"
proof -
  have "(case fmlookup (ch_values c) name of None \<Rightarrow> [] | Some i \<Rightarrow> [(name, i)])
      = [(name, the (fmlookup (ch_values c) name))]" if "name \<in> set (ch_order c)" for name
    using assms that by (auto simp: children_wf_def fmlookup_dom'_iff)
  then have "children_iter c
      = concat (map (\<lambda>name. [(name, the (fmlookup (ch_values c) name))]) (ch_order c))"
    by (simp add: children_iter_def cong: map_cong)
  then show ?thesis by simp
qed

lemma children_wf_order: "children_wf c \<Longrightarrow> name \<in> set (ch_order c) \<longleftrightarrow> fmlookup (ch_values c) name \<noteq> None"
  by (simp add: children_wf_def fmlookup_dom'_iff)

lemma children_wf_insert: "children_wf c \<Longrightarrow> children_wf (children_insert name i c)"
  using children_wf_order [of c name]
  by (cases "fmlookup (ch_values c) name") (simp_all add: children_wf_def children_insert_def insert_absorb)

lemma children_wf_remove: "children_wf c \<Longrightarrow> children_wf (children_remove name c)"
  by (simp add: children_wf_def children_remove_def set_diff_eq)

interpretation kids: insertion_ordered_map children_wf children_new children_get
  children_insert children_remove children_iter
proof
  fix c :: children and k :: string and v :: nat
  show "children_wf children_new" by (simp add: children_wf_def children_new_def)
  show "children_iter children_new = []" by (simp add: children_iter_def children_new_def)
  show "children_get (children_insert k v c) = (children_get c)(k \<mapsto> v)"
    by (auto simp: children_get_def children_insert_def Let_def)
  show "children_get (children_remove k c) = (children_get c)(k := None)"
    by (auto simp: children_get_def children_remove_def)
  assume wf: "children_wf c"
  show "children_wf (children_insert k v c)" by (rule children_wf_insert [OF wf])
  show "children_wf (children_remove k c)" by (rule children_wf_remove [OF wf])
  show "map_of (children_iter c) = children_get c"
  proof
    fix name
    show "map_of (children_iter c) name = children_get c name"
      using wf by (auto simp: children_iter_map children_get_def children_wf_def map_of_map_restrict
          restrict_map_def fmlookup_dom'_iff)
  qed
  show "distinct (map fst (children_iter c))"
    using wf by (simp add: children_iter_map comp_def children_wf_def)
  show "children_iter (children_insert k v c) = children_iter c @ [(k, v)]" if "children_get c k = None"
  proof -
    have "k \<notin> set (ch_order c)" using wf that by (simp add: children_wf_def children_get_def fmlookup_dom'_iff)
    then show ?thesis
      using wf that children_wf_insert [OF wf, of k v]
      by (auto simp: children_iter_map children_insert_def children_get_def)
  qed
  show "children_iter (children_remove k c) = filter (\<lambda>e. fst e \<noteq> k) (children_iter c)"
    using wf children_wf_remove [OF wf, of k]
    by (auto simp: children_iter_map children_remove_def filter_map comp_def)
qed

lemma children_is_empty_iff: "children_is_empty c \<longleftrightarrow> children_get c = Map.empty"
  by (auto simp: children_is_empty_def children_get_def fun_eq_iff)

lemma children_from_iter_wf: "children_wf (children_from_iter es)"
proof -
  have "children_wf c \<Longrightarrow> children_wf (fold (\<lambda>(name, inode) c. children_insert name inode c) es c)" for c
    by (induction es arbitrary: c) (auto simp: children_wf_insert)
  then show ?thesis by (simp add: children_from_iter_def kids.wf_empty)
qed

text \<open>Rebuilding a map from its own entries.\<close>

lemma children_from_iter_iter:
  assumes "children_wf c"
  shows "children_from_iter (children_iter c) = c"
proof -
  have step: "children_wf a \<Longrightarrow> distinct (map fst es) \<Longrightarrow> (\<forall>e \<in> set es. children_get a (fst e) = None) \<Longrightarrow>
      fold (\<lambda>(name, inode) c. children_insert name inode c) es a
      = \<lparr>ch_values = fold (\<lambda>(name, i) m. fmupd name i m) es (ch_values a), ch_order = ch_order a @ map fst es\<rparr>" for a es
  proof (induction es arbitrary: a)
    case (Cons e es)
    obtain name i where e: "e = (name, i)" by (cases e)
    have "\<forall>f \<in> set es. children_get (children_insert name i a) (fst f) = None"
      using Cons.prems e by (auto simp: kids.get_insert)
    then show ?case
      using Cons.IH [OF children_wf_insert [OF Cons.prems(1), of name i]] Cons.prems e
      by (simp add: children_insert_def children_get_def)
  qed simp
  have lookup: "fmlookup (fold (\<lambda>(name, i) m. fmupd name i m) es m) k
      = (case map_of (List.rev es) k of None \<Rightarrow> fmlookup m k | Some i \<Rightarrow> Some i)" for es m k
    by (induction es arbitrary: m) (auto simp: map_add_Some_iff split: option.splits)
  have "fold (\<lambda>(name, i) m. fmupd name i m) (children_iter c) fmempty = ch_values c"
  proof (rule fmap_ext)
    fix k
    have "map_of (List.rev (children_iter c)) k = children_get c k"
      using kids.entries_distinct [OF assms] kids.get_entries [OF assms]
        map_of_inject_set [of "List.rev (children_iter c)" "children_iter c"] by (simp add: rev_map [symmetric])
    then show "fmlookup (fold (\<lambda>(name, i) m. fmupd name i m) (children_iter c) fmempty) k = fmlookup (ch_values c) k"
      by (simp add: lookup children_get_def split: option.splits)
  qed
  moreover have "map fst (children_iter c) = ch_order c" using assms by (simp add: children_iter_map comp_def)
  ultimately show ?thesis
    using step [of children_new "children_iter c"] kids.entries_distinct [OF assms] kids.wf_empty kids.get_empty
    by (simp add: children_from_iter_def children_new_def)
qed

lemma children_iter_from_iter:
  assumes "distinct (map fst es)"
  shows "children_iter (children_from_iter es) = es"
proof -
  have "children_wf a \<Longrightarrow> distinct (map fst es) \<Longrightarrow> (\<forall>e \<in> set es. children_get a (fst e) = None) \<Longrightarrow>
      children_iter (fold (\<lambda>(name, inode) c. children_insert name inode c) es a) = children_iter a @ es" for a es
  proof (induction es arbitrary: a)
    case (Cons e es)
    have "\<forall>f \<in> set es. children_get (children_insert (fst e) (snd e) a) (fst f) = None"
    proof
      fix f assume f: "f \<in> set es"
      then have "fst f \<noteq> fst e" using Cons.prems(2) by (metis distinct.simps(2) image_eqI list.simps(9) list.set_map)
      then show "children_get (children_insert (fst e) (snd e) a) (fst f) = None" using Cons.prems(3) f by (simp add: kids.get_insert)
    qed
    then show ?case
      using Cons.IH [OF children_wf_insert [OF Cons.prems(1), of "fst e" "snd e"]] Cons.prems
        kids.entries_fresh [OF Cons.prems(1), of "fst e" "snd e"] by (simp add: split_beta)
  qed simp
  then show ?thesis
    using assms kids.wf_empty kids.get_empty kids.entries_empty by (simp add: children_from_iter_def)
qed

lemma children_get_from_iter: "distinct (map fst es) \<Longrightarrow> children_get (children_from_iter es) = map_of es"
  using kids.get_entries [OF children_from_iter_wf, of es] by (simp add: children_iter_from_iter)

end
