(* ===== verification/Mrs_State.thy ===== *)
theory Mrs_State
  imports Core_Error
begin

text \<open>
  Fallible code that mutates a locked state: an operation returns its result and the state it
  leaves behind, also when it fails, because the source keeps what it changed before an early
  return. \<open>sbind\<close> is the \<^verbatim>\<open>?\<close> operator in such code.
\<close>

type_synonym ('a, 's) op = "'s \<Rightarrow> 'a result \<times> 's"

definition sret :: "'a \<Rightarrow> ('a, 's) op" where
  "sret x s = (Inr x, s)"

definition sfail :: "fs_error \<Rightarrow> ('a, 's) op" where
  "sfail e s = (Inl e, s)"

definition sbind :: "('a, 's) op \<Rightarrow> ('a \<Rightarrow> ('b, 's) op) \<Rightarrow> ('b, 's) op" where
  "sbind m f s = (case m s of (Inl e, s') \<Rightarrow> (Inl e, s') | (Inr x, s') \<Rightarrow> f x s')"

text \<open>A result computed from the current state, which may be an error.\<close>

definition sread :: "('s \<Rightarrow> 'a result) \<Rightarrow> ('a, 's) op" where
  "sread f s = (f s, s)"

definition smodify :: "('s \<Rightarrow> 's) \<Rightarrow> (unit, 's) op" where
  "smodify f s = (Inr (), f s)"

definition swhen :: "bool \<Rightarrow> (unit, 's) op \<Rightarrow> (unit, 's) op" where
  "swhen b m = (if b then m else sret ())"

text \<open>The outcome of an operation as a value, for code that matches on it.\<close>

definition attempt :: "('a, 's) op \<Rightarrow> ('a result, 's) op" where
  "attempt f s = (case f s of (r, s') \<Rightarrow> (Inr r, s'))"

text \<open>A loop that stops at the first error.\<close>

fun sfold :: "('b \<Rightarrow> 'a \<Rightarrow> ('b, 's) op) \<Rightarrow> 'b \<Rightarrow> 'a list \<Rightarrow> ('b, 's) op" where
  "sfold f acc [] = sret acc"
| "sfold f acc (x # xs) = sbind (f acc x) (\<lambda>acc'. sfold f acc' xs)"

section \<open>Facts\<close>

lemma sop_simps [simp]:
  "sret x s = (Inr x, s)" "sfail e s = (Inl e, s)" "sread f s = (f s, s)" "smodify g s = (Inr (), g s)"
  by (simp_all add: sret_def sfail_def sread_def smodify_def)

lemma sbind_eq_Inr [simp]:
  "sbind m f s = (Inr y, s') \<longleftrightarrow> (\<exists>x t. m s = (Inr x, t) \<and> f x t = (Inr y, s'))"
  by (auto simp: sbind_def split: prod.splits sum.splits)

lemma sbind_eq_Inl:
  "sbind m f s = (Inl e, s') \<longleftrightarrow>
     m s = (Inl e, s') \<or> (\<exists>x t. m s = (Inr x, t) \<and> f x t = (Inl e, s'))"
  by (auto simp: sbind_def split: prod.splits sum.splits)

text \<open>
  \<open>keeps P m\<close>: the operation keeps a predicate on the state, whether it succeeds or fails. This is
  the rule by which invariants go through the code.
\<close>

definition keeps :: "('s \<Rightarrow> bool) \<Rightarrow> ('a, 's) op \<Rightarrow> bool" where
  "keeps P m \<longleftrightarrow> (\<forall>s. P s \<longrightarrow> P (snd (m s)))"

named_theorems keeps_intro

lemma keepsD: "keeps P m \<Longrightarrow> P s \<Longrightarrow> m s = (r, s') \<Longrightarrow> P s'"
  by (auto simp: keeps_def dest: spec [of _ s])

lemma keeps_pure [keeps_intro]: "keeps P (sret x)" "keeps P (sfail e)" "keeps P (sread f)"
  by (simp_all add: keeps_def)

lemma keeps_sbind [keeps_intro]: "keeps P m \<Longrightarrow> (\<And>x. keeps P (f x)) \<Longrightarrow> keeps P (sbind m f)"
  unfolding keeps_def sbind_def by (fastforce split: prod.splits sum.splits)

lemma keeps_if [keeps_intro]: "(b \<Longrightarrow> keeps P m) \<Longrightarrow> (\<not> b \<Longrightarrow> keeps P n) \<Longrightarrow> keeps P (if b then m else n)"
  by simp

lemma keeps_swhen [keeps_intro]: "keeps P m \<Longrightarrow> keeps P (swhen b m)"
  by (simp add: swhen_def keeps_pure)

lemma keeps_sfold [keeps_intro]: "(\<And>acc x. keeps P (f acc x)) \<Longrightarrow> keeps P (sfold f acc xs)"
  by (induction xs arbitrary: acc) (auto intro: keeps_intro)

lemma keeps_option [keeps_intro]:
  "(v = None \<Longrightarrow> keeps P m) \<Longrightarrow> (\<And>x. v = Some x \<Longrightarrow> keeps P (f x)) \<Longrightarrow>
   keeps P (case v of None \<Rightarrow> m | Some x \<Rightarrow> f x)"
  by (cases v) auto

text \<open>
  \<open>wp f Q E s\<close>: from \<open>s\<close> the operation ends in a state with \<open>Q\<close> for its result, or with \<open>E\<close> for its
  error. The equations compute it through the code.
\<close>

definition wp :: "('a, 's) op \<Rightarrow> ('a \<Rightarrow> 's \<Rightarrow> bool) \<Rightarrow> (fs_error \<Rightarrow> 's \<Rightarrow> bool) \<Rightarrow> 's \<Rightarrow> bool" where
  "wp f Q E s = (case f s of (r, s') \<Rightarrow> (case r of Inl e \<Rightarrow> E e s' | Inr x \<Rightarrow> Q x s'))"

named_theorems wp_simps

lemma wp_basic [wp_simps]:
  "wp (sret x) Q E = Q x" "wp (sfail e) Q E = E e"
  "wp (sread f) Q E s = (case f s of Inl e \<Rightarrow> E e s | Inr x \<Rightarrow> Q x s)"
  by (simp_all add: wp_def fun_eq_iff)

lemma wp_smodify [wp_simps]: "wp (smodify g) Q E s = Q () (g s)"
  by (simp add: wp_def)

lemma wp_sbind [wp_simps]: "wp (sbind m f) Q E s = wp m (\<lambda>x. wp (f x) Q E) E s"
  by (simp add: wp_def sbind_def split: prod.split sum.split)

lemma wp_attempt [wp_simps]: "wp (attempt f) Q E s = wp f (\<lambda>x. Q (Inr x)) (\<lambda>e. Q (Inl e)) s"
  by (simp add: wp_def attempt_def split: prod.split sum.split)

lemma wp_if [wp_simps]: "wp (if b then f else g) Q E s = (if b then wp f Q E s else wp g Q E s)"
  by simp

lemma wp_swhen [wp_simps]: "wp (swhen b f) Q E s = (if b then wp f Q E s else Q () s)"
  by (simp add: swhen_def wp_simps)

lemma wp_mono:
  assumes "wp f Q E s" "\<And>x s'. Q x s' \<Longrightarrow> Q' x s'" "\<And>e s'. E e s' \<Longrightarrow> E' e s'"
  shows "wp f Q' E' s"
  using assms by (auto simp: wp_def split: prod.splits sum.splits)

lemma wpD:
  assumes "wp f Q E s" "f s = (r, s')"
  shows "case r of Inl e \<Rightarrow> E e s' | Inr x \<Rightarrow> Q x s'"
  using assms by (simp add: wp_def)

lemma wp_sfold:
  assumes "\<And>acc x s. x \<in> set xs \<Longrightarrow> I acc s \<Longrightarrow> wp (f acc x) I E s" "I acc s"
  shows "wp (sfold f acc xs) I E s"
  using assms
proof (induction xs arbitrary: acc s)
  case (Cons x xs)
  have "wp (f acc x) I E s" using Cons.prems by simp
  then show ?case unfolding sfold.simps wp_sbind by (rule wp_mono) (use Cons in auto)
qed (simp add: wp_simps)

end
