(* ===== verification/Driver_Types.thy ===== *)
theory Driver_Types
  imports Core_Types Mrs_Decimal
begin

text \<open>
  Model of the data types of \<^verbatim>\<open>src/driver.rs\<close>: identities and guards of handle-derived requests, the
  guarded requests themselves, and the bounded directory collector.
\<close>

record path_identity =
  pi_dev :: nat
  pi_ino :: nat

definition identity_from_stats :: "stats \<Rightarrow> path_identity option" where
  "identity_from_stats s = (if st_ino s \<noteq> 0 then Some \<lparr>pi_dev = st_dev s, pi_ino = st_ino s\<rparr> else None)"

fun split_once :: "char \<Rightarrow> string \<Rightarrow> (string \<times> string) option" where
  "split_once c [] = None"
| "split_once c (x # xs) =
     (if x = c then Some ([], xs)
      else (case split_once c xs of None \<Rightarrow> None | Some (a, b) \<Rightarrow> Some (x # a, b)))"

definition parse_backend_key :: "string \<Rightarrow> path_identity option" where
  "parse_backend_key key =
     (case split_once CHR '':'' key of
        None \<Rightarrow> None
      | Some (dev, ino) \<Rightarrow>
          (case (parse_u64 dev, parse_u64 ino) of
             (Some d, Some i) \<Rightarrow> if i \<noteq> 0 then Some \<lparr>pi_dev = d, pi_ino = i\<rparr> else None
           | _ \<Rightarrow> None))"

record path_guard =
  pg_path :: string
  pg_identity :: path_identity

datatype observed_entry = ObservedAny | ObservedAbsent | ObservedIdentity path_identity

record guarded_setattr =
  gs_mode :: "u32 option"
  gs_uid :: "u32 option"
  gs_gid :: "u32 option"
  gs_size :: "nat option"
  gs_atime_ms :: "int option"
  gs_mtime_ms :: "int option"
  gs_expected_ctime_ms :: "int option"

datatype guarded_mutation =
    GM_Setattr path_guard guarded_setattr
  | GM_Open path_guard string observed_entry open_flags u32
  | GM_Mkdir path_guard string u32
  | GM_Symlink path_guard string string
  | GM_Mknod path_guard string u32 nat
  | GM_Unlink path_guard string observed_entry
  | GM_Rmdir path_guard string observed_entry
  | GM_Rename path_guard string observed_entry path_guard string observed_entry
  | GM_Link path_guard path_guard string observed_entry

datatype guarded_read =
    GR_Stat path_guard
  | GR_Lookup path_guard string
  | GR_Readdir path_guard nat
  | GR_Readlink path_guard

record guarded_directory_entry =
  ge_name :: string
  ge_stats :: stats

datatype guarded_read_result =
    RR_Stat stats
  | RR_Lookup stats stats
  | RR_Directory stats "guarded_directory_entry list"
  | RR_Readlink stats string

text \<open>The loop of \<^verbatim>\<open>collect_bounded_dir_entries\<close>, with the output so far.\<close>

fun collect_bounded_loop :: "string \<Rightarrow> nat \<Rightarrow> dir_entry list \<Rightarrow> dir_entry list \<Rightarrow> dir_entry list result" where
  "collect_bounded_loop path max_entries acc [] = Inr acc"
| "collect_bounded_loop path max_entries acc (e # es) =
     (if length acc = max_entries
      then Inl (with_message ''directory exceeds the configured entry limit''
             (with_path path (with_syscall ''scandir'' (fs_error_new Eoverflow))))
      else collect_bounded_loop path max_entries (acc @ [e]) es)"

definition collect_bounded_dir_entries :: "string \<Rightarrow> nat \<Rightarrow> dir_entry list \<Rightarrow> dir_entry list result" where
  "collect_bounded_dir_entries path max_entries entries =
     (if max_entries = 0
      then Inl (with_message ''directory entry limit must be positive''
             (with_path path (with_syscall ''scandir'' (fs_error_new Einval))))
      else collect_bounded_loop path max_entries [] entries)"

lemma collect_bounded_loop_iff:
  "length acc \<le> m \<Longrightarrow> collect_bounded_loop path m acc es = Inr out \<longleftrightarrow>
     length (acc @ es) \<le> m \<and> out = acc @ es"
proof (induction es arbitrary: acc)
  case (Cons e es)
  then show ?case using Cons.IH [of "acc @ [e]"] by auto
qed auto

text \<open>A listing is returned whole when it fits, and not at all otherwise.\<close>

lemma collect_bounded_iff:
  "collect_bounded_dir_entries path m es = Inr out \<longleftrightarrow> 0 < m \<and> length es \<le> m \<and> out = es"
  by (auto simp: collect_bounded_dir_entries_def collect_bounded_loop_iff)

end
