(* ===== verification/Mem_Fs.thy ===== *)
theory Mem_Fs
  imports Mem_Children Mrs_State Driver_Types Core_Path
begin

text \<open>
  Model of \<^verbatim>\<open>filesystems/mount-rs-memfs/src/lib.rs\<close>, first part: nodes, the locked state, and the
  internal operations (node creation, path walk, linking and unlinking of entries, resizing) that the
  driver's calls are made of.

  The environment holds what the code takes from outside: \<open>env_clock i\<close> is the i-th value that
  \<^verbatim>\<open>now_ms\<close> returns, counted in the ghost field \<open>fs_ticks\<close>, and \<open>env_reserve n\<close> says whether
  \<^verbatim>\<open>Vec::try_reserve\<close> grants \<open>n\<close> more bytes. Both are arbitrary. Unchecked additions to counters
  (\<^verbatim>\<open>used_blocks\<close>, \<^verbatim>\<open>node_count\<close>, \<^verbatim>\<open>next_fd\<close>, \<^verbatim>\<open>subdirs\<close>, \<^verbatim>\<open>nlink\<close>) are additions of natural numbers:
  each counter is bounded by the number of nodes, entries, handles or blocks held in memory.
\<close>

record env =
  env_clock :: "nat \<Rightarrow> int"
  env_reserve :: "nat \<Rightarrow> bool"

section \<open>Nodes\<close>

definition BLOCK_SIZE :: nat where
  "BLOCK_SIZE = 4096"

definition MAX_SYMLINK_DEPTH :: nat where
  "MAX_SYMLINK_DEPTH = 40"

record memory_options =
  mp_uid :: u32
  mp_gid :: u32
  mp_umask :: u32
  mp_root_mode :: u32

definition memory_options_default :: memory_options where
  "memory_options_default = \<lparr>mp_uid = 0, mp_gid = 0, mp_umask = 0, mp_root_mode = 0x1ED\<rparr>"

record node =
  nd_ino :: nat
  nd_mode :: u32
  nd_nlink :: nat
  nd_uid :: u32
  nd_gid :: u32
  nd_rdev :: nat
  nd_atime_ms :: int
  nd_mtime_ms :: int
  nd_ctime_ms :: int
  nd_birthtime_ms :: int
  nd_data :: bytes
  nd_target :: "string option"
  nd_children :: children
  nd_subdirs :: nat

definition node_file_type :: "node \<Rightarrow> file_type" where
  "node_file_type n = file_type_from_mode (nd_mode n)"

definition is_directory :: "node \<Rightarrow> bool" where
  "is_directory n \<longleftrightarrow> node_file_type n = Directory"

definition is_symlink :: "node \<Rightarrow> bool" where
  "is_symlink n \<longleftrightarrow> node_file_type n = Symlink"

definition node_size :: "node \<Rightarrow> nat" where
  "node_size n =
     (if is_directory n then BLOCK_SIZE
      else (case nd_target n of Some t \<Rightarrow> length t | None \<Rightarrow> length (nd_data n)))"

definition node_blocks :: "node \<Rightarrow> nat" where
  "node_blocks n = div_ceil (node_size n) BLOCK_SIZE"

definition node_stat :: "node \<Rightarrow> stats" where
  "node_stat n = \<lparr>st_dev = 0, st_ino = nd_ino n, st_mode = nd_mode n,
     st_nlink = (if is_directory n then 2 + nd_subdirs n else nd_nlink n),
     st_uid = nd_uid n, st_gid = nd_gid n, st_rdev = nd_rdev n, st_size = node_size n,
     st_blksize = BLOCK_SIZE, st_blocks = div_ceil (node_size n) 512, st_atime_ms = nd_atime_ms n,
     st_mtime_ms = nd_mtime_ms n, st_ctime_ms = nd_ctime_ms n, st_birthtime_ms = nd_birthtime_ms n\<rparr>"

section \<open>State\<close>

record mem_state =
  fs_root :: nat
  fs_next_ino :: nat
  fs_next_fd :: nat
  fs_node_count :: nat
  fs_used_blocks :: nat
  fs_uid :: u32
  fs_gid :: u32
  fs_umask :: u32
  fs_nodes :: "(nat, node) fmap"
  fs_ticks :: nat

type_synonym 'a fs_op = "('a, mem_state) op"

record entry =
  en_parent :: nat
  en_name :: string
  en_node :: "nat option"
  en_path :: string

definition fs_now :: "env \<Rightarrow> int fs_op" where
  "fs_now env s = (Inr (env_clock env (fs_ticks s)), s\<lparr>fs_ticks := fs_ticks s + 1\<rparr>)"

text \<open>Access to a node by number, and the update of one that is known to be there.\<close>

definition get_node :: "nat \<Rightarrow> fs_error \<Rightarrow> node fs_op" where
  "get_node i e = sread (\<lambda>s. ok_or (fmlookup (fs_nodes s) i) e)"

definition upd_node :: "nat \<Rightarrow> (node \<Rightarrow> node) \<Rightarrow> mem_state \<Rightarrow> mem_state" where
  "upd_node i f s =
     (case fmlookup (fs_nodes s) i of
        None \<Rightarrow> s
      | Some n \<Rightarrow> s\<lparr>fs_nodes := fmupd i (f n) (fs_nodes s)\<rparr>)"

definition fs_dir :: "mem_state \<Rightarrow> nat \<Rightarrow> bool" where
  "fs_dir s i = (case fmlookup (fs_nodes s) i of None \<Rightarrow> False | Some n \<Rightarrow> is_directory n)"

definition sysc :: "error_code \<Rightarrow> string \<Rightarrow> fs_error" where
  "sysc c syscall = with_syscall syscall (fs_error_new c)"

definition syscp :: "error_code \<Rightarrow> string \<Rightarrow> string \<Rightarrow> fs_error" where
  "syscp c syscall path = with_path path (sysc c syscall)"

lemma err_code_sysc [simp]: "err_code (sysc c x) = c" "err_code (syscp c x p) = c"
  by (simp_all add: sysc_def syscp_def)

definition memfs_new :: "env \<Rightarrow> memory_options \<Rightarrow> mem_state" where
  "memfs_new env options =
     (let timestamp = env_clock env 0;
          root = \<lparr>nd_ino = 1, nd_mode = S_IFDIR OR (mp_root_mode options AND PERM_MASK), nd_nlink = 1,
                  nd_uid = mp_uid options, nd_gid = mp_gid options, nd_rdev = 0,
                  nd_atime_ms = timestamp, nd_mtime_ms = timestamp, nd_ctime_ms = timestamp,
                  nd_birthtime_ms = timestamp, nd_data = [], nd_target = None,
                  nd_children = children_new, nd_subdirs = 0\<rparr>
      in \<lparr>fs_root = 1, fs_next_ino = 2, fs_next_fd = 3, fs_node_count = 1,
          fs_used_blocks = node_blocks root, fs_uid = mp_uid options, fs_gid = mp_gid options,
          fs_umask = mp_umask options, fs_nodes = fmupd 1 root fmempty, fs_ticks = 1\<rparr>)"

definition create_node :: "env \<Rightarrow> u32 \<Rightarrow> nat \<Rightarrow> string option \<Rightarrow> nat fs_op" where
  "create_node env mode rdev target =
     sbind (fs_now env) (\<lambda>timestamp.
     sbind (sread (\<lambda>s. Inr (fs_next_ino s))) (\<lambda>ino.
     sbind (sread (\<lambda>s. ok_or (checked_add (fs_next_ino s) 1)
       (with_message ''filesystem inode id overflow'' (sysc Eoverflow ''create'')))) (\<lambda>next.
     sbind (smodify (\<lambda>s.
       let node = \<lparr>nd_ino = ino, nd_mode = mode, nd_nlink = 1, nd_uid = fs_uid s, nd_gid = fs_gid s,
                   nd_rdev = rdev, nd_atime_ms = timestamp, nd_mtime_ms = timestamp,
                   nd_ctime_ms = timestamp, nd_birthtime_ms = timestamp, nd_data = [],
                   nd_target = target, nd_children = children_new, nd_subdirs = 0\<rparr>
       in s\<lparr>fs_next_ino := next, fs_used_blocks := fs_used_blocks s + node_blocks node,
            fs_node_count := fs_node_count s + 1, fs_nodes := fmupd ino node (fs_nodes s)\<rparr>)) (\<lambda>_.
     sret ino))))"

section \<open>Path walk\<close>

text \<open>
  One pass over the components of a normalised path. It arrives at an entry, or meets a symbolic
  link and gives the path to start again from; an empty list of components does not occur
  (\<^verbatim>\<open>unreachable!()\<close>). \<open>before\<close> are the components already passed.
\<close>

datatype walk_outcome = Arrived entry | Redirect string

fun walk_segments ::
  "mem_state \<Rightarrow> bool \<Rightarrow> string \<Rightarrow> string \<Rightarrow> string list \<Rightarrow> string list \<Rightarrow> nat \<Rightarrow> walk_outcome result" where
  "walk_segments s follow_final syscall normalized before [] current =
     Inl (with_message ''panic: unreachable'' (fs_error_new Eio))"
| "walk_segments s follow_final syscall normalized before (name # after) current =
     and_then (ok_or (fmlookup (fs_nodes s) current) (syscp Estale syscall normalized)) (\<lambda>current_node.
     if \<not> is_directory current_node then Inl (syscp Enotdir syscall normalized)
     else (case children_get (nd_children current_node) name of
       None \<Rightarrow>
         if after = []
         then Inr (Arrived \<lparr>en_parent = current, en_name = name, en_node = None, en_path = normalized\<rparr>)
         else Inl (syscp Enoent syscall normalized)
     | Some child \<Rightarrow>
         and_then (ok_or (fmlookup (fs_nodes s) child) (syscp Estale syscall normalized)) (\<lambda>child_node.
         if is_symlink child_node \<and> (after \<noteq> [] \<or> follow_final)
         then (let target = (case nd_target child_node of None \<Rightarrow> [] | Some t \<Rightarrow> t) in
               if target = [] then Inl (syscp Enoent syscall normalized)
               else let parent_path = (if before = [] then ''/'' else ''/'' @ join_with ''/'' before);
                        rewritten = (if starts_with target ''/'' then target else parent_path @ ''/'' @ target)
                    in Inr (Redirect (if after \<noteq> [] then rewritten @ ''/'' @ join_with ''/'' after else rewritten)))
         else if after = []
         then Inr (Arrived \<lparr>en_parent = current, en_name = name, en_node = Some child, en_path = normalized\<rparr>)
         else walk_segments s follow_final syscall normalized (before @ [name]) after child)))"

function walk :: "mem_state \<Rightarrow> string \<Rightarrow> bool \<Rightarrow> string \<Rightarrow> nat \<Rightarrow> entry result" where
  "walk s path follow_final syscall depth =
     (if str_contains CHR 0x00 path then Inl (syscp Einval syscall path)
      else if depth \<ge> MAX_SYMLINK_DEPTH then Inl (syscp Eloop syscall (normalize_path path))
      else let normalized = normalize_path path in
      if normalized = ''/''
      then Inr \<lparr>en_parent = fs_root s, en_name = [], en_node = Some (fs_root s), en_path = normalized\<rparr>
      else (case walk_segments s follow_final syscall normalized [] (split_path normalized) (fs_root s) of
              Inl e \<Rightarrow> Inl e
            | Inr (Arrived en) \<Rightarrow> Inr en
            | Inr (Redirect rewritten) \<Rightarrow> walk s rewritten follow_final syscall (depth + 1)))"
  by pat_completeness auto

termination walk
  by (relation "measure (\<lambda>(_, _, _, _, depth). MAX_SYMLINK_DEPTH - depth)") auto

declare walk.simps [simp del]

definition resolve :: "mem_state \<Rightarrow> string \<Rightarrow> bool \<Rightarrow> string \<Rightarrow> nat result" where
  "resolve s path follow_final syscall =
     and_then (walk s path follow_final syscall 0) (\<lambda>en.
     ok_or (en_node en) (syscp Enoent syscall (en_path en)))"

definition fs_walk :: "string \<Rightarrow> bool \<Rightarrow> string \<Rightarrow> entry fs_op" where
  "fs_walk path follow_final syscall = sread (\<lambda>s. walk s path follow_final syscall 0)"

definition fs_resolve :: "string \<Rightarrow> bool \<Rightarrow> string \<Rightarrow> nat fs_op" where
  "fs_resolve path follow_final syscall = sread (\<lambda>s. resolve s path follow_final syscall)"

section \<open>Entries and contents\<close>

definition estale :: fs_error where
  "estale = fs_error_new Estale"

definition link_entry :: "env \<Rightarrow> entry \<Rightarrow> nat \<Rightarrow> unit fs_op" where
  "link_entry env en i =
     sbind (get_node i estale) (\<lambda>child.
     sbind (get_node (en_parent en) estale) (\<lambda>parent.
     if \<not> is_directory parent then sfail (syscp Enotdir ''link'' (en_path en))
     else sbind (fs_now env) (\<lambda>t.
     smodify (upd_node (en_parent en) (\<lambda>p.
       p\<lparr>nd_children := children_insert (en_name en) i (nd_children p),
         nd_subdirs := (if is_directory child then nd_subdirs p + 1 else nd_subdirs p),
         nd_mtime_ms := t, nd_ctime_ms := t\<rparr>)))))"

text \<open>The second half of \<^verbatim>\<open>unlink_entry\<close>: the node loses a link.\<close>

definition drop_child :: "env \<Rightarrow> nat \<Rightarrow> unit fs_op" where
  "drop_child env i =
     sbind (get_node i estale) (\<lambda>_.
     sbind (fs_now env) (\<lambda>t.
     sbind (smodify (upd_node i (\<lambda>c. c\<lparr>nd_nlink := nd_nlink c - 1, nd_ctime_ms := t\<rparr>))) (\<lambda>_.
     sbind (get_node i estale) (\<lambda>child.
     smodify (\<lambda>s.
       if nd_nlink child = 0
       then s\<lparr>fs_node_count := fs_node_count s - 1, fs_used_blocks := fs_used_blocks s - node_blocks child\<rparr>
       else s)))))"

definition unlink_entry :: "env \<Rightarrow> entry \<Rightarrow> nat \<Rightarrow> unit fs_op" where
  "unlink_entry env en i =
     sbind (get_node i estale) (\<lambda>child.
     sbind (get_node (en_parent en) estale) (\<lambda>_.
     sbind (fs_now env) (\<lambda>t.
     sbind (smodify (upd_node (en_parent en) (\<lambda>p.
       p\<lparr>nd_children := children_remove (en_name en) (nd_children p),
         nd_subdirs := (if is_directory child then nd_subdirs p - 1 else nd_subdirs p),
         nd_mtime_ms := t, nd_ctime_ms := t\<rparr>))) (\<lambda>_.
     drop_child env i))))"

text \<open>\<^verbatim>\<open>Vec::resize\<close> with zero fill.\<close>

definition resize_bytes :: "nat \<Rightarrow> bytes \<Rightarrow> bytes" where
  "resize_bytes len bs = take len bs @ replicate (len - length bs) 0"

definition resize :: "env \<Rightarrow> nat \<Rightarrow> nat \<Rightarrow> string \<Rightarrow> unit fs_op" where
  "resize env i len syscall =
     (if len > U64_MAX then sfail (sysc Efbig syscall)
      else sbind (get_node i (sysc Estale syscall)) (\<lambda>n.
      if len > length (nd_data n) \<and> \<not> env_reserve env (len - length (nd_data n))
      then sfail (sysc Efbig syscall)
      else let n' = n\<lparr>nd_data := resize_bytes len (nd_data n)\<rparr> in
      sbind (smodify (upd_node i (\<lambda>_. n'))) (\<lambda>_.
      smodify (\<lambda>s. if nd_nlink n > 0
                   then s\<lparr>fs_used_blocks := fs_used_blocks s + node_blocks n' - node_blocks n\<rparr> else s))))"

definition stat_locked :: "mem_state \<Rightarrow> nat \<Rightarrow> string \<Rightarrow> stats result" where
  "stat_locked s i syscall =
     and_then (ok_or (fmlookup (fs_nodes s) i) (sysc Estale syscall)) (\<lambda>n. Inr (node_stat n))"

end
