(* ===== verification/Mem_Fs_Ops.thy ===== *)
theory Mem_Fs_Ops
  imports Mem_Fs
begin

text \<open>
  Model of \<^verbatim>\<open>filesystems/mount-rs-memfs/src/lib.rs\<close>, second part: the driver's path operations, and
  open handles. Every driver call holds the file system lock, so it is one operation on the state.
  A handle has a lock of its own; its record is passed and returned.
\<close>

section \<open>Open and handles\<close>

record mem_handle =
  mh_node :: nat
  mh_flags :: open_flags
  mh_path :: string
  mh_fd :: nat
  mh_position :: nat
  mh_closed :: bool

definition touch_mc :: "env \<Rightarrow> nat \<Rightarrow> unit fs_op" where
  "touch_mc env i =
     sbind (fs_now env) (\<lambda>t. smodify (upd_node i (\<lambda>n. n\<lparr>nd_mtime_ms := t, nd_ctime_ms := t\<rparr>)))"

definition open_existing :: "env \<Rightarrow> open_flags \<Rightarrow> entry \<Rightarrow> nat \<Rightarrow> nat fs_op" where
  "open_existing env parsed en i =
     (if of_exclusive parsed then sfail (syscp Eexist ''open'' (en_path en))
      else sbind (get_node i estale) (\<lambda>n.
      let kind = node_file_type n in
      if kind = Directory \<and> of_write parsed then sfail (syscp Eisdir ''open'' (en_path en))
      else if is_special kind then sfail (syscp Enxio ''open'' (en_path en))
      else if of_truncate parsed \<and> kind \<noteq> Directory
      then sbind (resize env i 0 ''truncate'') (\<lambda>_. sbind (touch_mc env i) (\<lambda>_. sret i))
      else sret i))"

text \<open>\<^verbatim>\<open>mode & !umask & 0o7777\<close>.\<close>

definition masked_mode :: "u32 \<Rightarrow> u32 \<Rightarrow> u32" where
  "masked_mode mode umask = mode AND NOT umask AND PERM_MASK"

definition open_create :: "env \<Rightarrow> open_flags \<Rightarrow> entry \<Rightarrow> u32 \<Rightarrow> u32 \<Rightarrow> nat fs_op" where
  "open_create env parsed en mode umask =
     (if \<not> of_create parsed then sfail (syscp Enoent ''open'' (en_path en))
      else sbind (create_node env (S_IFREG OR masked_mode mode umask) 0 None) (\<lambda>i.
      sbind (link_entry env en i) (\<lambda>_. sret i)))"

definition open_flags_locked ::
  "env \<Rightarrow> string \<Rightarrow> open_flags \<Rightarrow> u32 \<Rightarrow> (mem_handle \<times> path_identity) fs_op" where
  "open_flags_locked env path parsed mode =
     (let normalized = normalize_path path in
      if \<not> has_valid_truncate_access parsed
      then sfail (with_message ''truncate requires write access'' (syscp Einval ''open'' normalized))
      else sbind (sread (\<lambda>s. Inr (fs_umask s))) (\<lambda>umask.
      sbind (fs_walk normalized (\<not> (of_create parsed \<and> of_exclusive parsed)) ''open'') (\<lambda>en.
      sbind (case en_node en of
               Some i \<Rightarrow> open_existing env parsed en i
             | None \<Rightarrow> open_create env parsed en mode umask) (\<lambda>i.
      sbind (sread (\<lambda>s. Inr (fs_next_fd s))) (\<lambda>fd.
      sbind (smodify (\<lambda>s. s\<lparr>fs_next_fd := fs_next_fd s + 1\<rparr>)) (\<lambda>_.
      sret (\<lparr>mh_node = i, mh_flags = parsed, mh_path = normalized, mh_fd = fd,
             mh_position = 0, mh_closed = False\<rparr>, \<lparr>pi_dev = 0, pi_ino = i\<rparr>)))))))"

definition fs_open_flags :: "env \<Rightarrow> string \<Rightarrow> open_flags \<Rightarrow> u32 \<Rightarrow> mem_handle fs_op" where
  "fs_open_flags env path parsed mode =
     sbind (open_flags_locked env path parsed mode) (\<lambda>(h, _). sret h)"

definition fs_open :: "env \<Rightarrow> string \<Rightarrow> string \<Rightarrow> u32 \<Rightarrow> mem_handle fs_op" where
  "fs_open env path flags mode =
     (let normalized = normalize_path path in
      sbind (sread (\<lambda>_. open_flags_parse flags normalized)) (\<lambda>parsed.
      fs_open_flags env normalized parsed mode))"

text \<open>
  The admission check of a handle call. It locks the file system for itself, before the call locks it
  again, so other calls may run in between.
\<close>

definition handle_begin :: "mem_handle \<Rightarrow> bool \<Rightarrow> string \<Rightarrow> mem_state \<Rightarrow> unit result" where
  "handle_begin h write syscall s =
     (if mh_closed h \<or> (write \<and> \<not> of_write (mh_flags h)) \<or> (\<not> write \<and> \<not> of_read (mh_flags h))
      then Inl (syscp Ebadf syscall (mh_path h))
      else and_then (ok_or (fmlookup (fs_nodes s) (mh_node h)) (syscp Estale syscall (mh_path h))) (\<lambda>n.
      if is_directory n then Inl (syscp Eisdir syscall (mh_path h))
      else if is_special (node_file_type n) then Inl (syscp Enxio syscall (mh_path h))
      else Inr ()))"

text \<open>
  The part of \<^verbatim>\<open>read\<close>, \<^verbatim>\<open>write\<close> and \<^verbatim>\<open>truncate\<close> under the second lock. A read returns the bytes copied
  to the buffer of the given length; read and write return the handle with its position.
\<close>

definition handle_read_locked ::
  "env \<Rightarrow> mem_handle \<Rightarrow> nat \<Rightarrow> nat option \<Rightarrow> (bytes \<times> mem_handle) fs_op" where
  "handle_read_locked env h buffer_len position =
     sbind (get_node (mh_node h) (syscp Estale ''read'' (mh_path h))) (\<lambda>n.
     let from = (case position of Some p \<Rightarrow> p | None \<Rightarrow> mh_position h);
         count = (if from \<ge> length (nd_data n) then 0 else min buffer_len (length (nd_data n) - from));
         h' = (if position = None then h\<lparr>mh_position := saturating_add (mh_position h) count\<rparr> else h)
     in sbind (fs_now env) (\<lambda>t.
        sbind (smodify (upd_node (mh_node h) (\<lambda>n. n\<lparr>nd_atime_ms := t\<rparr>))) (\<lambda>_.
        sret (take count (drop from (nd_data n)), h'))))"

definition handle_read :: "env \<Rightarrow> mem_handle \<Rightarrow> nat \<Rightarrow> nat option \<Rightarrow> (bytes \<times> mem_handle) fs_op" where
  "handle_read env h buffer_len position =
     sbind (sread (handle_begin h False ''read'')) (\<lambda>_. handle_read_locked env h buffer_len position)"

text \<open>\<^verbatim>\<open>data[start..start + n].copy_from_slice(buffer)\<close> for a range inside the data.\<close>

definition splice :: "nat \<Rightarrow> bytes \<Rightarrow> bytes \<Rightarrow> bytes" where
  "splice start buffer bs = take start bs @ buffer @ drop (start + length buffer) bs"

definition handle_write_locked ::
  "env \<Rightarrow> mem_handle \<Rightarrow> bytes \<Rightarrow> nat option \<Rightarrow> (nat \<times> mem_handle) fs_op" where
  "handle_write_locked env h buffer position =
     sbind (if of_append (mh_flags h)
            then sbind (get_node (mh_node h) estale) (\<lambda>n. sret (length (nd_data n)))
            else sret (case position of Some p \<Rightarrow> p | None \<Rightarrow> mh_position h)) (\<lambda>from.
     sbind (sread (\<lambda>_. ok_or (checked_add from (length buffer)) (syscp Efbig ''write'' (mh_path h)))) (\<lambda>end_pos.
     sbind (get_node (mh_node h) estale) (\<lambda>n.
     sbind (swhen (end_pos > length (nd_data n)) (resize env (mh_node h) end_pos ''write'')) (\<lambda>_.
     sbind (get_node (mh_node h) (sysc Estale ''write'')) (\<lambda>_.
     sbind (sread (\<lambda>_. checked_position from)) (\<lambda>start.
     sbind (smodify (upd_node (mh_node h) (\<lambda>n. n\<lparr>nd_data := splice start buffer (nd_data n)\<rparr>))) (\<lambda>_.
     sbind (touch_mc env (mh_node h)) (\<lambda>_.
     sret (length buffer,
           if of_append (mh_flags h) \<or> position = None then h\<lparr>mh_position := end_pos\<rparr> else h)))))))))"

definition handle_write :: "env \<Rightarrow> mem_handle \<Rightarrow> bytes \<Rightarrow> nat option \<Rightarrow> (nat \<times> mem_handle) fs_op" where
  "handle_write env h buffer position =
     sbind (sread (handle_begin h True ''write'')) (\<lambda>_. handle_write_locked env h buffer position)"

definition handle_stat :: "mem_handle \<Rightarrow> stats fs_op" where
  "handle_stat h =
     (if mh_closed h then sfail (syscp Ebadf ''fstat'' (mh_path h))
      else sread (\<lambda>s. stat_locked s (mh_node h) ''fstat''))"

definition handle_truncate_locked :: "env \<Rightarrow> mem_handle \<Rightarrow> nat \<Rightarrow> unit fs_op" where
  "handle_truncate_locked env h len =
     sbind (resize env (mh_node h) len ''ftruncate'') (\<lambda>_.
     sbind (get_node (mh_node h) estale) (\<lambda>_. touch_mc env (mh_node h)))"

definition handle_truncate :: "env \<Rightarrow> mem_handle \<Rightarrow> nat \<Rightarrow> unit fs_op" where
  "handle_truncate env h len =
     sbind (sread (handle_begin h True ''ftruncate'')) (\<lambda>_. handle_truncate_locked env h len)"

definition handle_close :: "mem_handle \<Rightarrow> mem_handle" where
  "handle_close h = h\<lparr>mh_closed := True\<rparr>"

section \<open>Queries\<close>

definition fs_stat :: "string \<Rightarrow> stats fs_op" where
  "fs_stat path = sbind (fs_resolve path True ''stat'') (\<lambda>i. sread (\<lambda>s. stat_locked s i ''stat''))"

definition fs_lstat :: "string \<Rightarrow> stats fs_op" where
  "fs_lstat path = sbind (fs_resolve path False ''lstat'') (\<lambda>i. sread (\<lambda>s. stat_locked s i ''lstat''))"

definition fs_statfs :: "string \<Rightarrow> stats_fs fs_op" where
  "fs_statfs path =
     sbind (fs_resolve path True ''statfs'') (\<lambda>_.
     sread (\<lambda>s. Inr \<lparr>sf_filesystem_type = 0x01021994, sf_block_size = BLOCK_SIZE, sf_blocks = 1048576,
       sf_blocks_free = 1048576 - fs_used_blocks s, sf_blocks_available = 1048576 - fs_used_blocks s,
       sf_files = 1048576, sf_files_free = 1048576 - fs_node_count s\<rparr>))"

fun readdir_collect ::
  "string \<Rightarrow> nat option \<Rightarrow> (string \<times> nat) list \<Rightarrow> (string \<times> nat) list \<Rightarrow> (string \<times> nat) list result" where
  "readdir_collect path max_entries acc [] = Inr acc"
| "readdir_collect path max_entries acc (e # es) =
     (if max_entries = Some (length acc)
      then Inl (with_message ''directory exceeds the configured entry limit''
             (syscp Eoverflow ''scandir'' (normalize_path path)))
      else readdir_collect path max_entries (acc @ [e]) es)"

definition readdir_with_limit :: "env \<Rightarrow> string \<Rightarrow> nat option \<Rightarrow> dir_entry list fs_op" where
  "readdir_with_limit env path max_entries =
     (if max_entries = Some 0
      then sfail (with_message ''directory entry limit must be positive''
             (syscp Einval ''scandir'' (normalize_path path)))
      else sbind (fs_resolve path True ''scandir'') (\<lambda>i.
      sbind (get_node i estale) (\<lambda>n.
      if \<not> is_directory n then sfail (syscp Enotdir ''scandir'' (normalize_path path))
      else sbind (fs_now env) (\<lambda>t.
      sbind (smodify (upd_node i (\<lambda>n. n\<lparr>nd_atime_ms := t\<rparr>))) (\<lambda>_.
      sbind (sread (\<lambda>_. readdir_collect path max_entries [] (children_iter (nd_children n)))) (\<lambda>children.
      sread (\<lambda>s. Inr (concat (map (\<lambda>(name, child).
        case fmlookup (fs_nodes s) child of
          None \<Rightarrow> []
        | Some c \<Rightarrow> [\<lparr>de_name = name, de_parent_path = normalize_path path,
                      de_file_type = node_file_type c\<rparr>]) children)))))))))"

definition fs_readlink :: "string \<Rightarrow> string fs_op" where
  "fs_readlink path =
     sbind (fs_resolve path False ''readlink'') (\<lambda>i.
     sbind (get_node i estale) (\<lambda>n.
     if \<not> is_symlink n then sfail (syscp Einval ''readlink'' (normalize_path path))
     else sret (case nd_target n of None \<Rightarrow> [] | Some t \<Rightarrow> t)))"

section \<open>Directory operations\<close>

text \<open>The loop of a recursive \<^verbatim>\<open>mkdir\<close>: the path so far and the first directory created.\<close>

definition mkdir_segment ::
  "env \<Rightarrow> string \<Rightarrow> u32 \<Rightarrow> string \<times> string option \<Rightarrow> string \<Rightarrow> (string \<times> string option) fs_op" where
  "mkdir_segment env normalized mode acc segment =
     (case acc of (current0, first_created) \<Rightarrow>
      let current = (if current0 \<noteq> ''/'' then current0 @ ''/'' else current0) @ segment in
      sbind (fs_walk current True ''mkdir'') (\<lambda>en.
      case en_node en of
        Some i \<Rightarrow>
          sbind (sread (\<lambda>s. Inr (fs_dir s i))) (\<lambda>d.
          if \<not> d then sfail (syscp (if current = normalized then Eexist else Enotdir) ''mkdir'' current)
          else sret (current, first_created))
      | None \<Rightarrow>
          sbind (create_node env mode 0 None) (\<lambda>i.
          sbind (link_entry env en i) (\<lambda>_.
          sret (current, case first_created of None \<Rightarrow> Some current | Some f \<Rightarrow> Some f)))))"

definition fs_mkdir :: "env \<Rightarrow> string \<Rightarrow> mkdir_options \<Rightarrow> string option fs_op" where
  "fs_mkdir env path options =
     (if str_contains CHR 0x00 path then sfail (syscp Einval ''mkdir'' path)
      else let normalized = normalize_path path in
      sbind (sread (\<lambda>s. Inr (S_IFDIR OR masked_mode
        (case mo_mode options of None \<Rightarrow> 0x1FF | Some m \<Rightarrow> m) (fs_umask s)))) (\<lambda>mode.
      if mo_recursive options
      then sbind (sfold (mkdir_segment env normalized mode) (''/'', None) (split_path normalized))
             (\<lambda>(_, first_created). sret first_created)
      else sbind (fs_walk normalized False ''mkdir'') (\<lambda>en.
      if en_node en \<noteq> None then sfail (syscp Eexist ''mkdir'' (en_path en))
      else sbind (create_node env mode 0 None) (\<lambda>i.
      sbind (link_entry env en i) (\<lambda>_. sret None)))))"

definition fs_rmdir :: "env \<Rightarrow> string \<Rightarrow> unit fs_op" where
  "fs_rmdir env path =
     sbind (fs_walk path False ''rmdir'') (\<lambda>en.
     sbind (sread (\<lambda>_. ok_or (en_node en) (syscp Enoent ''rmdir'' (en_path en)))) (\<lambda>i.
     sbind (sread (\<lambda>s. guard_err (i = fs_root s) (syscp Ebusy ''rmdir'' (en_path en)))) (\<lambda>_.
     sbind (get_node i estale) (\<lambda>target.
     if \<not> is_directory target then sfail (syscp Enotdir ''rmdir'' (en_path en))
     else if \<not> children_is_empty (nd_children target) then sfail (syscp Enotempty ''rmdir'' (en_path en))
     else unlink_entry env en i))))"

definition fs_unlink :: "env \<Rightarrow> string \<Rightarrow> unit fs_op" where
  "fs_unlink env path =
     sbind (fs_walk path False ''unlink'') (\<lambda>en.
     sbind (sread (\<lambda>_. ok_or (en_node en) (syscp Enoent ''unlink'' (en_path en)))) (\<lambda>i.
     sbind (sread (\<lambda>s. guard_err (fs_dir s i) (syscp Eisdir ''unlink'' (en_path en)))) (\<lambda>_.
     unlink_entry env en i)))"

definition rename_err :: "error_code \<Rightarrow> entry \<Rightarrow> entry \<Rightarrow> fs_error" where
  "rename_err c from to = with_dest (en_path to) (syscp c ''rename'' (en_path from))"

text \<open>The checks on a destination that exists.\<close>

definition rename_destination :: "env \<Rightarrow> bool \<Rightarrow> entry \<Rightarrow> entry \<Rightarrow> nat \<Rightarrow> unit fs_op" where
  "rename_destination env source_dir from to destination =
     sbind (sread (\<lambda>s.
       if source_dir
       then (if \<not> fs_dir s destination then Inl (rename_err Enotdir from to)
             else (case fmlookup (fs_nodes s) destination of
                     Some n \<Rightarrow> if \<not> children_is_empty (nd_children n)
                               then Inl (rename_err Enotempty from to) else Inr ()
                   | None \<Rightarrow> Inr ()))
       else if fs_dir s destination then Inl (rename_err Eisdir from to) else Inr ())) (\<lambda>_.
     unlink_entry env to destination)"

text \<open>The move of the entry, after the checks.\<close>

definition rename_move :: "env \<Rightarrow> bool \<Rightarrow> entry \<Rightarrow> entry \<Rightarrow> nat \<Rightarrow> unit fs_op" where
  "rename_move env source_dir from to from_node =
     sbind (get_node (en_parent from) estale) (\<lambda>_.
     sbind (fs_now env) (\<lambda>t.
     sbind (smodify (upd_node (en_parent from) (\<lambda>p.
       p\<lparr>nd_children := children_remove (en_name from) (nd_children p),
         nd_subdirs := (if source_dir then nd_subdirs p - 1 else nd_subdirs p),
         nd_mtime_ms := t, nd_ctime_ms := t\<rparr>))) (\<lambda>_.
     sbind (link_entry env to from_node) (\<lambda>_.
     sbind (fs_now env) (\<lambda>t2.
     smodify (upd_node from_node (\<lambda>n. n\<lparr>nd_ctime_ms := t2\<rparr>)))))))"

definition rename_entries :: "env \<Rightarrow> entry \<Rightarrow> entry \<Rightarrow> unit fs_op" where
  "rename_entries env from to =
     sbind (sread (\<lambda>_. ok_or (en_node from) (rename_err Enoent from to))) (\<lambda>from_node.
     if from_node = (case en_node to of None \<Rightarrow> 0 | Some i \<Rightarrow> i) then sret ()
     else sbind (sread (\<lambda>s. Inr (fs_dir s from_node))) (\<lambda>source_dir.
     if source_dir \<and> is_path_inside (en_path to) (en_path from) then sfail (rename_err Einval from to)
     else sbind (case en_node to of
                   Some destination \<Rightarrow> rename_destination env source_dir from to destination
                 | None \<Rightarrow> sret ()) (\<lambda>_.
     rename_move env source_dir from to from_node)))"

definition fs_rename :: "env \<Rightarrow> string \<Rightarrow> string \<Rightarrow> unit fs_op" where
  "fs_rename env old_path new_path =
     (let old_path = normalize_path old_path; new_path = normalize_path new_path in
      sbind (fs_walk old_path False ''rename'') (\<lambda>from.
      if en_node from = None then sfail (with_dest new_path (syscp Enoent ''rename'' old_path))
      else sbind (fs_walk new_path False ''rename'') (\<lambda>to. rename_entries env from to)))"

definition fs_link :: "env \<Rightarrow> string \<Rightarrow> string \<Rightarrow> unit fs_op" where
  "fs_link env existing_path new_path =
     sbind (fs_walk existing_path False ''link'') (\<lambda>from.
     sbind (sread (\<lambda>_. ok_or (en_node from)
       (with_dest (normalize_path new_path) (syscp Enoent ''link'' (en_path from))))) (\<lambda>i.
     sbind (sread (\<lambda>s. guard_err (fs_dir s i)
       (with_dest (normalize_path new_path) (syscp Eperm ''link'' (en_path from))))) (\<lambda>_.
     sbind (fs_walk new_path False ''link'') (\<lambda>to.
     if en_node to \<noteq> None then sfail (with_dest (en_path to) (syscp Eexist ''link'' (en_path from)))
     else sbind (fs_now env) (\<lambda>t.
     sbind (smodify (upd_node i (\<lambda>n. n\<lparr>nd_nlink := nd_nlink n + 1, nd_ctime_ms := t\<rparr>))) (\<lambda>_.
     link_entry env to i))))))"

definition fs_symlink :: "env \<Rightarrow> string \<Rightarrow> string \<Rightarrow> unit fs_op" where
  "fs_symlink env target path =
     sbind (fs_walk path False ''symlink'') (\<lambda>en.
     if target = [] then sfail (with_dest (en_path en) (syscp Enoent ''symlink'' target))
     else if en_node en \<noteq> None then sfail (with_dest (en_path en) (syscp Eexist ''symlink'' target))
     else sbind (create_node env (S_IFLNK OR 0x1FF) 0 (Some target)) (\<lambda>i. link_entry env en i))"

definition fs_mknod :: "env \<Rightarrow> string \<Rightarrow> u32 \<Rightarrow> nat \<Rightarrow> unit fs_op" where
  "fs_mknod env path mode dev =
     sbind (sread (\<lambda>s. Inr (fs_umask s))) (\<lambda>umask.
     sbind (fs_walk path False ''mknod'') (\<lambda>en.
     if en_node en \<noteq> None then sfail (syscp Eexist ''mknod'' (en_path en))
     else let kind = file_type_from_mode mode in
     if \<not> is_special kind \<and> kind \<noteq> File then sfail (syscp Eperm ''mknod'' (en_path en))
     else sbind (create_node env (mode_bits kind OR (mode AND NOT S_IFMT AND NOT umask AND PERM_MASK))
                  (if kind = CharacterDevice \<or> kind = BlockDevice then dev else 0) None) (\<lambda>i.
     link_entry env en i)))"

section \<open>Attributes\<close>

definition chmod_node :: "u32 \<Rightarrow> node \<Rightarrow> node" where
  "chmod_node mode n = n\<lparr>nd_mode := (nd_mode n AND S_IFMT) OR (mode AND PERM_MASK)\<rparr>"

definition fs_chmod :: "env \<Rightarrow> string \<Rightarrow> u32 \<Rightarrow> unit fs_op" where
  "fs_chmod env path mode =
     sbind (fs_resolve path True ''chmod'') (\<lambda>i.
     sbind (get_node i estale) (\<lambda>_.
     sbind (fs_now env) (\<lambda>t.
     smodify (upd_node i (\<lambda>n. (chmod_node mode n)\<lparr>nd_ctime_ms := t\<rparr>)))))"

definition fs_chown :: "env \<Rightarrow> string \<Rightarrow> u32 \<Rightarrow> u32 \<Rightarrow> bool \<Rightarrow> string \<Rightarrow> unit fs_op" where
  "fs_chown env path uid gid follow syscall =
     sbind (fs_resolve path follow syscall) (\<lambda>i.
     sbind (get_node i estale) (\<lambda>_.
     sbind (fs_now env) (\<lambda>t.
     smodify (upd_node i (\<lambda>n.
       n\<lparr>nd_uid := (if uid \<noteq> U32_MAX then uid else nd_uid n),
         nd_gid := (if gid \<noteq> U32_MAX then gid else nd_gid n), nd_ctime_ms := t\<rparr>)))))"

definition fs_truncate :: "env \<Rightarrow> string \<Rightarrow> nat \<Rightarrow> unit fs_op" where
  "fs_truncate env path len =
     sbind (fs_resolve path True ''truncate'') (\<lambda>i.
     sbind (get_node i estale) (\<lambda>n.
     let kind = node_file_type n in
     if kind = Directory then sfail (syscp Eisdir ''open'' (normalize_path path))
     else if is_special kind then sfail (syscp Einval ''open'' (normalize_path path))
     else sbind (resize env i len ''truncate'') (\<lambda>_.
     sbind (get_node i estale) (\<lambda>_. touch_mc env i))))"

definition fs_utimes :: "env \<Rightarrow> string \<Rightarrow> int \<Rightarrow> int \<Rightarrow> bool \<Rightarrow> string \<Rightarrow> unit fs_op" where
  "fs_utimes env path atime_ms mtime_ms follow syscall =
     sbind (fs_resolve path follow syscall) (\<lambda>i.
     sbind (get_node i estale) (\<lambda>_.
     sbind (fs_now env) (\<lambda>t.
     smodify (upd_node i (\<lambda>n.
       n\<lparr>nd_atime_ms := atime_ms, nd_mtime_ms := mtime_ms, nd_ctime_ms := t\<rparr>)))))"

end
