(* ===== verification/Mem_Fs_Guarded.thy ===== *)
theory Mem_Fs_Guarded
  imports Mem_Fs_Ops
begin

text \<open>
  Model of \<^verbatim>\<open>filesystems/mount-rs-memfs/src/lib.rs\<close>, third part: reads and mutations derived from
  opaque handles. A request names a path together with the inode it was bound to; the check that the
  path still leads there and the operation happen under one lock.
\<close>

section \<open>Guards\<close>

definition stale_guard :: "string \<Rightarrow> string \<Rightarrow> fs_error" where
  "stale_guard path syscall =
     with_message ''opaque handle no longer names its original inode'' (syscp Estale syscall path)"

lemma err_code_stale_guard [simp]: "err_code (stale_guard p x) = Estale"
  by (simp add: stale_guard_def)

definition next_guarded_time :: "env \<Rightarrow> int \<Rightarrow> string \<Rightarrow> string \<Rightarrow> int fs_op" where
  "next_guarded_time env previous syscall path =
     (if previous + 1 > I64_MAX
      then sfail (with_message ''filesystem change time overflow'' (syscp Eoverflow syscall path))
      else sbind (fs_now env) (\<lambda>t. sret (max (previous + 1) t)))"

definition planned_touch :: "env \<Rightarrow> nat \<Rightarrow> string \<Rightarrow> string \<Rightarrow> (int \<times> int) fs_op" where
  "planned_touch env i syscall path =
     sbind (get_node i (stale_guard path syscall)) (\<lambda>n.
     sbind (next_guarded_time env (nd_mtime_ms n) syscall path) (\<lambda>m.
     sbind (next_guarded_time env (nd_ctime_ms n) syscall path) (\<lambda>c.
     sret (m, c))))"

text \<open>\<^verbatim>\<open>expect("inode retained through locked mutation")\<close> is a panic in the model.\<close>

definition retained :: fs_error where
  "retained = with_message ''panic: inode retained through locked mutation'' (fs_error_new Eio)"

definition apply_touch :: "nat \<Rightarrow> int \<times> int \<Rightarrow> unit fs_op" where
  "apply_touch i touch =
     sbind (get_node i retained) (\<lambda>_.
     smodify (upd_node i (\<lambda>n. n\<lparr>nd_mtime_ms := fst touch, nd_ctime_ms := snd touch\<rparr>)))"

definition apply_ctime :: "nat \<Rightarrow> int \<Rightarrow> unit fs_op" where
  "apply_ctime i ctime =
     sbind (get_node i retained) (\<lambda>_. smodify (upd_node i (\<lambda>n. n\<lparr>nd_ctime_ms := ctime\<rparr>)))"

definition check_path_guard :: "mem_state \<Rightarrow> path_guard \<Rightarrow> string \<Rightarrow> nat result" where
  "check_path_guard s guard syscall =
     (let path = normalize_path (pg_path guard) in
      if pi_ino (pg_identity guard) = 0 then Inl (stale_guard path syscall)
      else (case resolve s path False syscall of
              Inl _ \<Rightarrow> Inl (stale_guard path syscall)
            | Inr i \<Rightarrow>
                and_then (ok_or (fmlookup (fs_nodes s) i) (stale_guard path syscall)) (\<lambda>n.
                if pi_dev (pg_identity guard) \<noteq> 0 \<or> nd_ino n \<noteq> pi_ino (pg_identity guard)
                then Inl (stale_guard path syscall)
                else Inr i)))"

definition matches_observed :: "observed_entry \<Rightarrow> entry \<Rightarrow> bool" where
  "matches_observed observed en =
     (case observed of
        ObservedAny \<Rightarrow> True
      | ObservedAbsent \<Rightarrow> en_node en = None
      | ObservedIdentity identity \<Rightarrow>
          pi_ino identity \<noteq> 0 \<and> pi_dev identity = 0 \<and> en_node en = Some (pi_ino identity))"

definition guarded_child_entry ::
  "mem_state \<Rightarrow> path_guard \<Rightarrow> string \<Rightarrow> observed_entry \<Rightarrow> string \<Rightarrow> entry result" where
  "guarded_child_entry s parent name observed syscall =
     (if name = [] \<or> str_contains CHR ''/'' name \<or> str_contains CHR 0x00 name \<or> name = ''.'' \<or> name = ''..''
      then Inl (syscp Einval syscall name)
      else and_then (check_path_guard s parent syscall) (\<lambda>parent_inode.
      if \<not> fs_dir s parent_inode then Inl (stale_guard (pg_path parent) syscall)
      else and_then (walk s (normalize_path (pg_path parent @ ''/'' @ name)) False syscall 0) (\<lambda>en.
      if en_parent en \<noteq> parent_inode then Inl (stale_guard (pg_path parent) syscall)
      else if \<not> matches_observed observed en then Inl (stale_guard (en_path en) syscall)
      else Inr en)))"

section \<open>Reads\<close>

definition guarded_stat :: "path_guard \<Rightarrow> guarded_read_result fs_op" where
  "guarded_stat target =
     sbind (sread (\<lambda>s. check_path_guard s target ''stat'')) (\<lambda>i.
     sbind (sread (\<lambda>s. stat_locked s i ''stat'')) (\<lambda>st. sret (RR_Stat st)))"

definition guarded_lookup :: "path_guard \<Rightarrow> string \<Rightarrow> guarded_read_result fs_op" where
  "guarded_lookup parent name =
     sbind (sread (\<lambda>s. check_path_guard s parent ''lookup'')) (\<lambda>i.
     sbind (get_node i (stale_guard (pg_path parent) ''lookup'')) (\<lambda>directory.
     if \<not> is_directory directory then sfail (syscp Enotdir ''lookup'' (pg_path parent))
     else if name = [] \<or> str_contains CHR ''/'' name \<or> str_contains CHR 0x00 name
     then sfail (syscp Einval ''lookup'' name)
     else sbind (if name = ''.'' then sret i
                 else if name = ''..''
                 then sread (\<lambda>s. case walk s (pg_path parent) False ''lookup'' 0 of
                                   Inl _ \<Rightarrow> Inl (stale_guard (pg_path parent) ''lookup'')
                                 | Inr en \<Rightarrow> Inr (en_parent en))
                 else sread (\<lambda>_. ok_or (children_get (nd_children directory) name)
                        (syscp Enoent ''lookup'' (normalize_path (pg_path parent @ ''/'' @ name))))) (\<lambda>child.
     sbind (sread (\<lambda>s. stat_locked s child ''lookup'')) (\<lambda>st.
     sret (RR_Lookup (node_stat directory) st)))))"

definition guarded_readdir :: "env \<Rightarrow> path_guard \<Rightarrow> nat \<Rightarrow> guarded_read_result fs_op" where
  "guarded_readdir env directory max_entries =
     sbind (sread (\<lambda>s. check_path_guard s directory ''scandir'')) (\<lambda>i.
     if max_entries = 0
     then sfail (with_message ''directory entry limit must be positive''
            (syscp Einval ''scandir'' (pg_path directory)))
     else sbind (get_node i (stale_guard (pg_path directory) ''scandir'')) (\<lambda>n.
     if \<not> is_directory n then sfail (syscp Enotdir ''scandir'' (pg_path directory))
     else if length (ch_order (nd_children n)) > max_entries
     then sfail (with_message ''directory exceeds the configured entry limit''
            (syscp Eoverflow ''scandir'' (pg_path directory)))
     else sbind (fs_now env) (\<lambda>t.
     sbind (smodify (upd_node i (\<lambda>n. n\<lparr>nd_atime_ms := t\<rparr>))) (\<lambda>_.
     sbind (sread (\<lambda>s. try_map (\<lambda>(name, child).
         and_then (stat_locked s child ''scandir'') (\<lambda>st. Inr \<lparr>ge_name = name, ge_stats = st\<rparr>))
       (children_iter (nd_children n)))) (\<lambda>entries.
     sret (RR_Directory (node_stat (n\<lparr>nd_atime_ms := t\<rparr>)) entries))))))"

definition guarded_readlink :: "path_guard \<Rightarrow> guarded_read_result fs_op" where
  "guarded_readlink target =
     sbind (sread (\<lambda>s. check_path_guard s target ''readlink'')) (\<lambda>i.
     sbind (get_node i (stale_guard (pg_path target) ''readlink'')) (\<lambda>n.
     if \<not> is_symlink n then sfail (syscp Einval ''readlink'' (pg_path target))
     else sret (RR_Readlink (node_stat n) (case nd_target n of None \<Rightarrow> [] | Some t \<Rightarrow> t))))"

fun fs_guarded_read :: "env \<Rightarrow> guarded_read \<Rightarrow> guarded_read_result fs_op" where
  "fs_guarded_read env (GR_Stat target) = guarded_stat target"
| "fs_guarded_read env (GR_Lookup parent name) = guarded_lookup parent name"
| "fs_guarded_read env (GR_Readdir directory max_entries) = guarded_readdir env directory max_entries"
| "fs_guarded_read env (GR_Readlink target) = guarded_readlink target"

section \<open>Mutations\<close>

datatype guarded_mutation_result = MR_Applied | MR_Created path_identity | MR_Opened mem_handle path_identity

definition setattr_changed :: "guarded_setattr \<Rightarrow> bool" where
  "setattr_changed c \<longleftrightarrow> gs_size c \<noteq> None \<or> gs_mode c \<noteq> None
     \<or> (case gs_uid c of None \<Rightarrow> False | Some u \<Rightarrow> u \<noteq> U32_MAX)
     \<or> (case gs_gid c of None \<Rightarrow> False | Some g \<Rightarrow> g \<noteq> U32_MAX)
     \<or> gs_atime_ms c \<noteq> None \<or> gs_mtime_ms c \<noteq> None"

text \<open>The assignments of \<^verbatim>\<open>apply_guarded_setattr\<close>, in its order, with the planned times.\<close>

definition setattr_node :: "guarded_setattr \<Rightarrow> int option \<Rightarrow> int option \<Rightarrow> node \<Rightarrow> node" where
  "setattr_node c next_ctime next_mtime n =
     (let n1 = (case gs_mode c of None \<Rightarrow> n | Some m \<Rightarrow> chmod_node m n);
          n2 = (case gs_uid c of None \<Rightarrow> n1 | Some u \<Rightarrow> if u \<noteq> U32_MAX then n1\<lparr>nd_uid := u\<rparr> else n1);
          n3 = (case gs_gid c of None \<Rightarrow> n2 | Some g \<Rightarrow> if g \<noteq> U32_MAX then n2\<lparr>nd_gid := g\<rparr> else n2);
          n4 = (case gs_atime_ms c of None \<Rightarrow> n3 | Some a \<Rightarrow> n3\<lparr>nd_atime_ms := a\<rparr>);
          n5 = (case gs_mtime_ms c of
                  Some m \<Rightarrow> n4\<lparr>nd_mtime_ms := m\<rparr>
                | None \<Rightarrow> (case next_mtime of None \<Rightarrow> n4 | Some m \<Rightarrow> n4\<lparr>nd_mtime_ms := m\<rparr>))
      in (case next_ctime of None \<Rightarrow> n5 | Some t \<Rightarrow> n5\<lparr>nd_ctime_ms := t\<rparr>))"

definition apply_guarded_setattr :: "env \<Rightarrow> path_guard \<Rightarrow> guarded_setattr \<Rightarrow> unit fs_op" where
  "apply_guarded_setattr env target change =
     sbind (sread (\<lambda>s. check_path_guard s target ''setattr'')) (\<lambda>i.
     sbind (get_node i (stale_guard (pg_path target) ''setattr'')) (\<lambda>n.
     if (case gs_expected_ctime_ms change of None \<Rightarrow> False | Some expected \<Rightarrow> nd_ctime_ms n \<noteq> expected)
     then sfail (with_message ''change time guard does not match the current inode''
            (syscp Eagain ''setattr'' (pg_path target)))
     else if gs_size change \<noteq> None \<and> node_file_type n = Directory
     then sfail (syscp Eisdir ''setattr'' (pg_path target))
     else if gs_size change \<noteq> None \<and> node_file_type n \<noteq> File
     then sfail (syscp Einval ''setattr'' (pg_path target))
     else sbind (if setattr_changed change
                 then sbind (next_guarded_time env (nd_ctime_ms n) ''setattr'' (pg_path target)) (\<lambda>t. sret (Some t))
                 else sret None) (\<lambda>next_ctime.
     sbind (if gs_size change \<noteq> None \<and> gs_mtime_ms change = None
            then sbind (next_guarded_time env (nd_mtime_ms n) ''setattr'' (pg_path target)) (\<lambda>t. sret (Some t))
            else sret None) (\<lambda>next_mtime.
     sbind (case gs_size change of None \<Rightarrow> sret () | Some len \<Rightarrow> resize env i len ''setattr'') (\<lambda>_.
     sbind (get_node i (stale_guard (pg_path target) ''setattr'')) (\<lambda>_.
     smodify (upd_node i (setattr_node change next_ctime next_mtime))))))))"

text \<open>The checks of a guarded open on an entry that exists.\<close>

definition guarded_open_check :: "entry \<Rightarrow> observed_entry \<Rightarrow> open_flags \<Rightarrow> unit fs_op" where
  "guarded_open_check en observed flags =
     (case en_node en of
        None \<Rightarrow> sret ()
      | Some i \<Rightarrow>
          sbind (get_node i (stale_guard (en_path en) ''open'')) (\<lambda>n.
          if is_symlink n then sfail (syscp Eexist ''open'' (en_path en))
          else if of_truncate flags \<and> node_file_type n = File
                  \<and> (case observed of ObservedIdentity _ \<Rightarrow> False | _ \<Rightarrow> True)
          then sfail (stale_guard (en_path en) ''open'')
          else sret ()))"

definition plan_some :: "(int \<times> int) fs_op \<Rightarrow> (int \<times> int) option fs_op" where
  "plan_some m = sbind m (\<lambda>t. sret (Some t))"

definition apply_some :: "nat \<Rightarrow> (int \<times> int) option \<Rightarrow> unit fs_op" where
  "apply_some i touch = (case touch of None \<Rightarrow> sret () | Some t \<Rightarrow> apply_touch i t)"

definition guarded_open ::
  "env \<Rightarrow> path_guard \<Rightarrow> string \<Rightarrow> observed_entry \<Rightarrow> open_flags \<Rightarrow> u32 \<Rightarrow> guarded_mutation_result fs_op" where
  "guarded_open env parent name observed flags mode =
     sbind (sread (\<lambda>s. guarded_child_entry s parent name observed ''open'')) (\<lambda>en.
     sbind (guarded_open_check en observed flags) (\<lambda>_.
     sbind (if en_node en = None \<and> of_create flags
            then plan_some (planned_touch env (en_parent en) ''open'' (en_path en)) else sret None) (\<lambda>parent_touch.
     sbind (if en_node en \<noteq> None \<and> of_truncate flags \<and> \<not> of_exclusive flags
            then sbind (fs_resolve (en_path en) True ''open'') (\<lambda>i.
                 plan_some (planned_touch env i ''open'' (en_path en)))
            else sret None) (\<lambda>target_touch.
     sbind (open_flags_locked env (en_path en) flags mode) (\<lambda>(handle, identity).
     sbind (apply_some (en_parent en) parent_touch) (\<lambda>_.
     sbind (apply_some (pi_ino identity) target_touch) (\<lambda>_.
     sret (MR_Opened handle identity))))))))"

text \<open>The common end of \<^verbatim>\<open>Mkdir\<close>, \<^verbatim>\<open>Symlink\<close> and \<^verbatim>\<open>Mknod\<close>.\<close>

definition guarded_create ::
  "env \<Rightarrow> entry \<Rightarrow> string \<Rightarrow> u32 \<Rightarrow> nat \<Rightarrow> string option \<Rightarrow> guarded_mutation_result fs_op" where
  "guarded_create env en syscall mode dev target =
     sbind (planned_touch env (en_parent en) syscall (en_path en)) (\<lambda>touch.
     sbind (create_node env mode dev target) (\<lambda>i.
     sbind (link_entry env en i) (\<lambda>_.
     sbind (apply_touch (en_parent en) touch) (\<lambda>_.
     sret (MR_Created \<lparr>pi_dev = 0, pi_ino = i\<rparr>)))))"

definition guarded_mkdir :: "env \<Rightarrow> path_guard \<Rightarrow> string \<Rightarrow> u32 \<Rightarrow> guarded_mutation_result fs_op" where
  "guarded_mkdir env parent name mode =
     sbind (sread (\<lambda>s. guarded_child_entry s parent name ObservedAny ''mkdir'')) (\<lambda>en.
     if en_node en \<noteq> None then sfail (syscp Eexist ''mkdir'' (en_path en))
     else sbind (sread (\<lambda>s. Inr (fs_umask s))) (\<lambda>umask.
     guarded_create env en ''mkdir'' (S_IFDIR OR masked_mode mode umask) 0 None))"

definition guarded_symlink :: "env \<Rightarrow> path_guard \<Rightarrow> string \<Rightarrow> string \<Rightarrow> guarded_mutation_result fs_op" where
  "guarded_symlink env parent name target =
     sbind (sread (\<lambda>s. guarded_child_entry s parent name ObservedAny ''symlink'')) (\<lambda>en.
     if target = [] then sfail (with_dest (en_path en) (syscp Enoent ''symlink'' target))
     else if en_node en \<noteq> None then sfail (with_dest (en_path en) (syscp Eexist ''symlink'' target))
     else guarded_create env en ''symlink'' (S_IFLNK OR 0x1FF) 0 (Some target))"

definition guarded_mknod :: "env \<Rightarrow> path_guard \<Rightarrow> string \<Rightarrow> u32 \<Rightarrow> nat \<Rightarrow> guarded_mutation_result fs_op" where
  "guarded_mknod env parent name mode dev =
     sbind (sread (\<lambda>s. guarded_child_entry s parent name ObservedAny ''mknod'')) (\<lambda>en.
     if en_node en \<noteq> None then sfail (syscp Eexist ''mknod'' (en_path en))
     else let kind = file_type_from_mode mode in
     if \<not> is_special kind \<and> kind \<noteq> File then sfail (syscp Eperm ''mknod'' (en_path en))
     else sbind (sread (\<lambda>s. Inr (fs_umask s))) (\<lambda>umask.
     guarded_create env en ''mknod'' (mode_bits kind OR (mode AND NOT S_IFMT AND NOT umask AND PERM_MASK))
       (if kind = CharacterDevice \<or> kind = BlockDevice then dev else 0) None))"

text \<open>The common end of \<^verbatim>\<open>Unlink\<close> and \<^verbatim>\<open>Rmdir\<close>; \<^verbatim>\<open>state.nodes[&inode]\<close> panics on a missing node.\<close>

definition guarded_remove :: "env \<Rightarrow> entry \<Rightarrow> nat \<Rightarrow> string \<Rightarrow> guarded_mutation_result fs_op" where
  "guarded_remove env child i syscall =
     sbind (planned_touch env (en_parent child) syscall (en_path child)) (\<lambda>parent_touch.
     sbind (get_node i retained) (\<lambda>n.
     sbind (next_guarded_time env (nd_ctime_ms n) syscall (en_path child)) (\<lambda>child_ctime.
     sbind (unlink_entry env child i) (\<lambda>_.
     sbind (apply_touch (en_parent child) parent_touch) (\<lambda>_.
     sbind (apply_ctime i child_ctime) (\<lambda>_.
     sret MR_Applied))))))"

definition guarded_unlink :: "env \<Rightarrow> path_guard \<Rightarrow> string \<Rightarrow> observed_entry \<Rightarrow> guarded_mutation_result fs_op" where
  "guarded_unlink env parent name observed =
     sbind (sread (\<lambda>s. guarded_child_entry s parent name observed ''unlink'')) (\<lambda>child.
     sbind (sread (\<lambda>_. ok_or (en_node child) (syscp Enoent ''unlink'' (en_path child)))) (\<lambda>i.
     sbind (sread (\<lambda>s. guard_err (fs_dir s i) (syscp Eisdir ''unlink'' (en_path child)))) (\<lambda>_.
     guarded_remove env child i ''unlink'')))"

definition guarded_rmdir :: "env \<Rightarrow> path_guard \<Rightarrow> string \<Rightarrow> observed_entry \<Rightarrow> guarded_mutation_result fs_op" where
  "guarded_rmdir env parent name observed =
     sbind (sread (\<lambda>s. guarded_child_entry s parent name observed ''rmdir'')) (\<lambda>child.
     sbind (sread (\<lambda>_. ok_or (en_node child) (syscp Enoent ''rmdir'' (en_path child)))) (\<lambda>i.
     sbind (sread (\<lambda>s. guard_err (i = fs_root s) (syscp Ebusy ''rmdir'' (en_path child)))) (\<lambda>_.
     sbind (get_node i estale) (\<lambda>target.
     if \<not> is_directory target then sfail (syscp Enotdir ''rmdir'' (en_path child))
     else if \<not> children_is_empty (nd_children target) then sfail (syscp Enotempty ''rmdir'' (en_path child))
     else guarded_remove env child i ''rmdir''))))"

text \<open>The times planned before a rename: source parent, destination parent, source, destination.\<close>

definition guarded_rename_plan ::
  "env \<Rightarrow> entry \<Rightarrow> entry \<Rightarrow> nat \<Rightarrow> ((int \<times> int) \<times> (int \<times> int) \<times> int \<times> (nat \<times> int) option) fs_op" where
  "guarded_rename_plan env from to source_inode =
     sbind (planned_touch env (en_parent from) ''rename'' (en_path from)) (\<lambda>from_touch.
     sbind (if en_parent from = en_parent to then sret from_touch
            else planned_touch env (en_parent to) ''rename'' (en_path to)) (\<lambda>to_touch.
     sbind (get_node source_inode retained) (\<lambda>n.
     sbind (next_guarded_time env (nd_ctime_ms n) ''rename'' (en_path from)) (\<lambda>source_ctime.
     sbind (case en_node to of
              None \<Rightarrow> sret None
            | Some d \<Rightarrow>
                sbind (get_node d retained) (\<lambda>dn.
                sbind (next_guarded_time env (nd_ctime_ms dn) ''rename'' (en_path to)) (\<lambda>t. sret (Some (d, t)))))
       (\<lambda>destination_ctime.
     sret (from_touch, to_touch, source_ctime, destination_ctime))))))"

definition guarded_rename ::
  "env \<Rightarrow> path_guard \<Rightarrow> string \<Rightarrow> observed_entry \<Rightarrow> path_guard \<Rightarrow> string \<Rightarrow> observed_entry \<Rightarrow>
   guarded_mutation_result fs_op" where
  "guarded_rename env from_parent from_name source to_parent to_name destination =
     sbind (sread (\<lambda>s. guarded_child_entry s from_parent from_name source ''rename'')) (\<lambda>from.
     sbind (sread (\<lambda>s. guarded_child_entry s to_parent to_name destination ''rename'')) (\<lambda>to.
     case en_node from of
       Some source_inode \<Rightarrow>
         if en_node to \<noteq> Some source_inode
         then sbind (guarded_rename_plan env from to source_inode)
                (\<lambda>(from_touch, to_touch, source_ctime, destination_ctime).
              sbind (rename_entries env from to) (\<lambda>_.
              sbind (apply_touch (en_parent from) from_touch) (\<lambda>_.
              sbind (swhen (en_parent from \<noteq> en_parent to) (apply_touch (en_parent to) to_touch)) (\<lambda>_.
              sbind (apply_ctime source_inode source_ctime) (\<lambda>_.
              sbind (case destination_ctime of None \<Rightarrow> sret () | Some (d, t) \<Rightarrow> apply_ctime d t) (\<lambda>_.
              sret MR_Applied))))))
         else sbind (rename_entries env from to) (\<lambda>_. sret MR_Applied)
     | None \<Rightarrow> sbind (rename_entries env from to) (\<lambda>_. sret MR_Applied)))"

definition guarded_link ::
  "env \<Rightarrow> path_guard \<Rightarrow> path_guard \<Rightarrow> string \<Rightarrow> observed_entry \<Rightarrow> guarded_mutation_result fs_op" where
  "guarded_link env source to_parent to_name destination =
     sbind (sread (\<lambda>s. check_path_guard s source ''link'')) (\<lambda>i.
     sbind (sread (\<lambda>s. guard_err (fs_dir s i) (syscp Eperm ''link'' (pg_path source)))) (\<lambda>_.
     sbind (sread (\<lambda>s. guarded_child_entry s to_parent to_name destination ''link'')) (\<lambda>to.
     if en_node to \<noteq> None then sfail (with_dest (en_path to) (syscp Eexist ''link'' (pg_path source)))
     else sbind (planned_touch env (en_parent to) ''link'' (en_path to)) (\<lambda>parent_touch.
     sbind (get_node i retained) (\<lambda>n.
     sbind (next_guarded_time env (nd_ctime_ms n) ''link'' (pg_path source)) (\<lambda>source_ctime.
     sbind (smodify (upd_node i (\<lambda>n. n\<lparr>nd_nlink := nd_nlink n + 1, nd_ctime_ms := source_ctime\<rparr>))) (\<lambda>_.
     sbind (link_entry env to i) (\<lambda>_.
     sbind (apply_touch (en_parent to) parent_touch) (\<lambda>_.
     sret MR_Applied)))))))))"

fun fs_guarded_mutation :: "env \<Rightarrow> guarded_mutation \<Rightarrow> guarded_mutation_result fs_op" where
  "fs_guarded_mutation env (GM_Setattr target change) =
     sbind (apply_guarded_setattr env target change) (\<lambda>_. sret MR_Applied)"
| "fs_guarded_mutation env (GM_Open parent name observed flags mode) =
     guarded_open env parent name observed flags mode"
| "fs_guarded_mutation env (GM_Mkdir parent name mode) = guarded_mkdir env parent name mode"
| "fs_guarded_mutation env (GM_Symlink parent name target) = guarded_symlink env parent name target"
| "fs_guarded_mutation env (GM_Mknod parent name mode dev) = guarded_mknod env parent name mode dev"
| "fs_guarded_mutation env (GM_Unlink parent name observed) = guarded_unlink env parent name observed"
| "fs_guarded_mutation env (GM_Rmdir parent name observed) = guarded_rmdir env parent name observed"
| "fs_guarded_mutation env (GM_Rename from_parent from_name source to_parent to_name destination) =
     guarded_rename env from_parent from_name source to_parent to_name destination"
| "fs_guarded_mutation env (GM_Link source to_parent to_name destination) =
     guarded_link env source to_parent to_name destination"

end
