(* ===== verification/Dir_Tree.thy ===== *)
theory Dir_Tree
  imports Main
begin

text \<open>
  Directory trees, shared by the file systems. A directory structure is a function \<open>kid\<close> from a
  directory and a name to the inode the name leads to. The locale \<open>dir_tree\<close> is the contract of a
  state whose directories form a tree, with what a path walker may rely on; \<open>tree_inv\<close> is the
  invariant with exact link counts that operations on entries keep.
\<close>

section \<open>Walking and reachability\<close>

fun tree_walk :: "('i \<Rightarrow> 'n \<Rightarrow> 'i option) \<Rightarrow> 'i \<Rightarrow> 'n list \<Rightarrow> 'i option" where
  "tree_walk kid i [] = Some i"
| "tree_walk kid i (x # xs) = (case kid i x of None \<Rightarrow> None | Some j \<Rightarrow> tree_walk kid j xs)"

inductive tree_reach :: "('i \<Rightarrow> 'n \<Rightarrow> 'i option) \<Rightarrow> ('i \<Rightarrow> bool) \<Rightarrow> 'i \<Rightarrow> 'i \<Rightarrow> bool"
  for kid dir root where
  tree_reach_root: "tree_reach kid dir root root"
| tree_reach_step: "tree_reach kid dir root p \<Longrightarrow> kid p x = Some c \<Longrightarrow> dir c \<Longrightarrow> tree_reach kid dir root c"

lemma tree_walk_append:
  "tree_walk kid i (xs @ ys) = (case tree_walk kid i xs of None \<Rightarrow> None | Some j \<Rightarrow> tree_walk kid j ys)"
  by (induction xs arbitrary: i) (auto split: option.splits)

lemma tree_walk_snoc:
  "tree_walk kid i (xs @ [x]) = Some c \<longleftrightarrow> (\<exists>p. tree_walk kid i xs = Some p \<and> kid p x = Some c)"
  by (auto simp: tree_walk_append split: option.splits)

lemma tree_reach_walk:
  "tree_reach kid dir root c \<Longrightarrow> \<exists>xs. tree_walk kid root xs = Some c"
proof (induction rule: tree_reach.induct)
  case tree_reach_root
  show ?case by (rule exI [of _ "[]"]) simp
next
  case (tree_reach_step p x c)
  then show ?case using tree_walk_snoc [of kid root _ x c] by blast
qed

lemma tree_reach_trans:
  "tree_reach kid dir q c \<Longrightarrow> tree_reach kid dir root q \<Longrightarrow> tree_reach kid dir root c"
  by (induction rule: tree_reach.induct) (auto intro: tree_reach.intros)

section \<open>The contract of a tree\<close>

locale dir_tree =
  fixes inv :: "'s \<Rightarrow> bool"
    and kid :: "'s \<Rightarrow> 'i \<Rightarrow> 'n \<Rightarrow> 'i option"
    and dir :: "'s \<Rightarrow> 'i \<Rightarrow> bool"
    and root :: "'s \<Rightarrow> 'i"
  assumes entry_parent: "inv s \<Longrightarrow> kid s p x = Some c \<Longrightarrow> dir s p"
    and one_parent: "inv s \<Longrightarrow> kid s p x = Some d \<Longrightarrow> kid s q y = Some d \<Longrightarrow> dir s d \<Longrightarrow> p = q \<and> x = y"
    and root_top: "inv s \<Longrightarrow> kid s p x \<noteq> Some (root s)"
    and all_reached: "inv s \<Longrightarrow> dir s d \<Longrightarrow> tree_reach (kid s) (dir s) (root s) d"
begin

lemma walk_unique:
  assumes "inv s" "dir s d" "tree_walk (kid s) (root s) xs = Some d" "tree_walk (kid s) (root s) ys = Some d"
  shows "xs = ys"
  using assms(2-)
proof (induction xs arbitrary: d ys rule: rev_induct)
  case Nil
  then show ?case
    using root_top [OF assms(1)] by (cases ys rule: rev_cases) (auto simp: tree_walk_snoc)
next
  case (snoc x xs)
  from snoc.prems(2) obtain p where p: "tree_walk (kid s) (root s) xs = Some p" "kid s p x = Some d"
    by (auto simp: tree_walk_snoc)
  have "d \<noteq> root s" using root_top [OF assms(1), of p x] p(2) by auto
  with snoc.prems(3) obtain y zs where ys: "ys = zs @ [y]" by (cases ys rule: rev_cases) auto
  with snoc.prems(3) obtain q where q: "tree_walk (kid s) (root s) zs = Some q" "kid s q y = Some d"
    by (auto simp: tree_walk_snoc)
  have "p = q" "x = y" using one_parent [OF assms(1) p(2) q(2) snoc.prems(1)] by auto
  with snoc.IH [OF entry_parent [OF assms(1) p(2)] p(1)] q(1) ys show ?case by simp
qed

lemma unique_path:
  assumes "inv s" "dir s d"
  shows "\<exists>!xs. tree_walk (kid s) (root s) xs = Some d"
  using tree_reach_walk [OF all_reached [OF assms]] walk_unique [OF assms] by blast

text \<open>A directory below another has the path of the other as a prefix of its own.\<close>

lemma below_prefix:
  assumes "inv s" "dir s q" "tree_walk (kid s) (root s) xs = Some d" "tree_walk (kid s) d zs = Some q"
    and "tree_walk (kid s) (root s) ys = Some q"
  shows "ys = xs @ zs"
  using walk_unique [OF assms(1,2,5), of "xs @ zs"] assms(3,4) by (simp add: tree_walk_append)

end

section \<open>The invariant of operations on entries\<close>

definition refs :: "('i \<Rightarrow> 'n \<Rightarrow> 'i option) \<Rightarrow> 'i \<Rightarrow> ('i \<times> 'n) set" where
  "refs kid i = {(p, x). kid p x = Some i}"

text \<open>
  \<open>nl\<close> is the link count of the inodes that exist, \<open>sub\<close> the count of subdirectories of a
  directory, \<open>ok\<close> the admissible names.
\<close>

definition tree_inv ::
  "('n \<Rightarrow> bool) \<Rightarrow> ('i \<Rightarrow> 'n \<Rightarrow> 'i option) \<Rightarrow> ('i \<Rightarrow> nat option) \<Rightarrow> ('i \<Rightarrow> bool) \<Rightarrow> ('i \<Rightarrow> nat) \<Rightarrow> 'i \<Rightarrow> bool" where
  "tree_inv ok kid nl dir sub root \<longleftrightarrow>
     (\<forall>p x c. kid p x = Some c \<longrightarrow> ok x \<and> dir p \<and> nl p = Some 1 \<and> nl c \<noteq> None)
     \<and> (\<forall>i k. nl i = Some k \<longrightarrow> finite (refs kid i) \<and> k = card (refs kid i) + (if i = root then 1 else 0))
     \<and> (\<forall>i. dir i \<longrightarrow> nl i = Some 0 \<or> nl i = Some 1)
     \<and> dir root \<and> nl root = Some 1
     \<and> (\<forall>i. dir i \<longrightarrow> finite {x. kid i x \<noteq> None} \<and> sub i = card {x. \<exists>c. kid i x = Some c \<and> dir c})
     \<and> (\<forall>i. dir i \<longrightarrow> nl i = Some 1 \<longrightarrow> tree_reach kid dir root i)"

lemma tree_invD:
  assumes "tree_inv ok kid nl dir sub root"
  shows "kid p x = Some c \<Longrightarrow> ok x \<and> dir p \<and> nl p = Some 1 \<and> (\<exists>k. nl c = Some k)"
    and "nl i = Some k \<Longrightarrow> finite (refs kid i) \<and> k = card (refs kid i) + (if i = root then 1 else 0)"
    and "dir i \<Longrightarrow> nl i = Some 0 \<or> nl i = Some 1"
    and "dir root" "nl root = Some 1"
    and "dir i \<Longrightarrow> finite {x. kid i x \<noteq> None} \<and> sub i = card {x. \<exists>c. kid i x = Some c \<and> dir c}"
    and "dir i \<Longrightarrow> nl i = Some 1 \<Longrightarrow> tree_reach kid dir root i"
  using assms unfolding tree_inv_def by auto

lemma tree_inv_root_top:
  assumes "tree_inv ok kid nl dir sub root"
  shows "kid p x \<noteq> Some root"
proof
  assume "kid p x = Some root"
  then have "(p, x) \<in> refs kid root" by (simp add: refs_def)
  moreover have "finite (refs kid root)" "card (refs kid root) = 0"
    using tree_invD(2) [OF assms tree_invD(5) [OF assms]] by auto
  ultimately show False by auto
qed

lemma tree_inv_one_parent:
  assumes "tree_inv ok kid nl dir sub root" "kid p x = Some d" "kid q y = Some d" "dir d"
  shows "p = q \<and> x = y"
proof -
  have "card (refs kid d) \<le> 1" "finite (refs kid d)"
    using tree_invD(3) [OF assms(1,4)] tree_invD(2) [OF assms(1), of d] by auto
  moreover have "{(p, x), (q, y)} \<subseteq> refs kid d" using assms(2,3) by (auto simp: refs_def)
  ultimately have "card {(p, x), (q, y)} \<le> 1" by (meson card_mono le_trans)
  then show ?thesis by (auto simp: card_insert_if split: if_splits)
qed

lemma tree_inv_linked:
  assumes "tree_inv ok kid nl dir sub root" "kid p x = Some c"
  shows "\<exists>k>0. nl c = Some k"
proof -
  obtain k where k: "nl c = Some k" using tree_invD(1) [OF assms] by auto
  have "(p, x) \<in> refs kid c" using assms(2) by (simp add: refs_def)
  then have "0 < card (refs kid c)" using tree_invD(2) [OF assms(1) k] by (auto simp: card_gt_0_iff)
  then show ?thesis using k tree_invD(2) [OF assms(1) k] by auto
qed

lemma tree_inv_dead_unlinked:
  assumes "tree_inv ok kid nl dir sub root" "nl i = Some 0"
  shows "refs kid i = {}" "kid i x = None"
proof -
  show "refs kid i = {}" using tree_invD(2) [OF assms] by auto
  show "kid i x = None" using tree_invD(1) [OF assms(1), of i x] assms(2) by (cases "kid i x") auto
qed

section \<open>Operations on entries\<close>

definition ent_upd :: "('i \<Rightarrow> 'n \<Rightarrow> 'i option) \<Rightarrow> 'i \<Rightarrow> 'n \<Rightarrow> 'i option \<Rightarrow> 'i \<Rightarrow> 'n \<Rightarrow> 'i option" where
  "ent_upd kid p x v = kid(p := (kid p)(x := v))"

lemma ent_upd_apply: "ent_upd kid p x v q y = (if q = p \<and> y = x then v else kid q y)"
  by (simp add: ent_upd_def)

lemma refs_add:
  "kid p x = None \<Longrightarrow> refs (ent_upd kid p x (Some i)) j = (if j = i then insert (p, x) (refs kid i) else refs kid j)"
  by (auto simp: refs_def ent_upd_apply)

lemma refs_remove:
  "kid p x = Some c \<Longrightarrow> refs (ent_upd kid p x None) j = (if j = c then refs kid c - {(p, x)} else refs kid j)"
  by (auto simp: refs_def ent_upd_apply)

lemma refs_finite_add: "finite (refs kid i) \<Longrightarrow> kid p x = None \<Longrightarrow> card (insert (p, x) (refs kid i)) = Suc (card (refs kid i))"
  by (auto simp: refs_def card_insert_if)

lemma tree_reach_mono:
  assumes "tree_reach kid dir root c" "\<And>p x c. kid p x = Some c \<Longrightarrow> dir c \<Longrightarrow> kid' p x = Some c \<and> dir' c"
  shows "tree_reach kid' dir' root c"
  using assms(1) by induction (auto intro: tree_reach.intros dest: assms(2))

lemma names_add: "{y. ent_upd kid p x (Some i) q y \<noteq> None} \<subseteq> insert x {y. kid q y \<noteq> None}"
  by (auto simp: ent_upd_apply)

lemma subs_add:
  assumes "kid p x = None" "finite {y. kid p y \<noteq> None}"
  shows "card {y. \<exists>c. ent_upd kid p x (Some i) p y = Some c \<and> dir c}
    = (if dir i then Suc (card {y. \<exists>c. kid p y = Some c \<and> dir c}) else card {y. \<exists>c. kid p y = Some c \<and> dir c})"
proof -
  let ?S = "{y. \<exists>c. kid p y = Some c \<and> dir c}"
  have "{y. \<exists>c. ent_upd kid p x (Some i) p y = Some c \<and> dir c} = (if dir i then insert x ?S else ?S)"
    using assms(1) by (auto simp: ent_upd_apply)
  moreover have "x \<notin> ?S" using assms(1) by simp
  moreover have "finite ?S" by (rule finite_subset [OF _ assms(2)]) auto
  ultimately show ?thesis by simp
qed

lemma subs_remove:
  assumes "kid p x = Some c" "finite {y. kid p y \<noteq> None}"
  shows "card {y. \<exists>e. ent_upd kid p x None p y = Some e \<and> dir e}
    = (if dir c then card {y. \<exists>e. kid p y = Some e \<and> dir e} - 1 else card {y. \<exists>e. kid p y = Some e \<and> dir e})"
proof -
  let ?S = "{y. \<exists>e. kid p y = Some e \<and> dir e}"
  have "{y. \<exists>e. ent_upd kid p x None p y = Some e \<and> dir e} = (if dir c then ?S - {x} else ?S)"
    using assms(1) by (auto simp: ent_upd_apply)
  moreover have "x \<in> ?S" if "dir c" using assms(1) that by simp
  moreover have "finite ?S" by (rule finite_subset [OF _ assms(2)]) auto
  ultimately show ?thesis by simp
qed

text \<open>
  Adding an entry for an inode that is not yet among the children: the count of subdirectories and
  reachability. \<open>dir'\<close> may differ from \<open>dir\<close> on the new inode only.
\<close>

lemma add_subs:
  assumes inv: "tree_inv ok kid nl dir sub root" and free: "kid p x = None" and j: "dir j"
    and same: "\<And>q y c. kid q y = Some c \<Longrightarrow> dir' c = dir c"
  shows "finite {y. ent_upd kid p x (Some i) j y \<noteq> None}
    \<and> card {y. \<exists>c. ent_upd kid p x (Some i) j y = Some c \<and> dir' c}
        = (if j = p \<and> dir' i then Suc (sub j) else sub j)"
proof -
  have fin: "finite {y. kid j y \<noteq> None}" and eq: "sub j = card {y. \<exists>c. kid j y = Some c \<and> dir c}"
    using tree_invD(6) [OF inv j] by auto
  have "{y. \<exists>c. kid j y = Some c \<and> dir' c} = {y. \<exists>c. kid j y = Some c \<and> dir c}"
    using same by auto
  then have sub: "card {y. \<exists>c. kid j y = Some c \<and> dir' c} = sub j" using eq by simp
  have "finite {y. ent_upd kid p x (Some i) j y \<noteq> None}"
    by (rule finite_subset [OF names_add]) (use fin in simp)
  moreover have "card {y. \<exists>c. ent_upd kid p x (Some i) j y = Some c \<and> dir' c}
      = (if j = p \<and> dir' i then Suc (sub j) else sub j)"
  proof (cases "j = p")
    case True
    then show ?thesis using subs_add [of kid p x i dir'] free fin sub by simp
  next
    case False
    then show ?thesis using sub by (simp add: ent_upd_apply)
  qed
  ultimately show ?thesis by simp
qed

lemma add_reach:
  assumes inv: "tree_inv ok kid nl dir sub root" and p: "dir p" "nl p = Some 1" "kid p x = None"
    and same: "\<And>q y c. kid q y = Some c \<Longrightarrow> dir' c = dir c"
  shows "dir j \<Longrightarrow> nl j = Some 1 \<Longrightarrow> tree_reach (ent_upd kid p x (Some i)) dir' root j"
    and "dir' i \<Longrightarrow> tree_reach (ent_upd kid p x (Some i)) dir' root i"
proof -
  have mono: "tree_reach (ent_upd kid p x (Some i)) dir' root j" if "tree_reach kid dir root j" for j
    using that by (rule tree_reach_mono) (use p(3) same in \<open>auto simp: ent_upd_apply\<close>)
  show "dir j \<Longrightarrow> nl j = Some 1 \<Longrightarrow> tree_reach (ent_upd kid p x (Some i)) dir' root j"
    using mono tree_invD(7) [OF inv] by blast
  have "tree_reach (ent_upd kid p x (Some i)) dir' root p" using mono tree_invD(7) [OF inv] p(1,2) by blast
  then show "dir' i \<Longrightarrow> tree_reach (ent_upd kid p x (Some i)) dir' root i"
    by (rule tree_reach_step [where x = x]) (simp_all add: ent_upd_apply)
qed

text \<open>A new inode under a free name.\<close>

lemma tree_create:
  assumes inv: "tree_inv ok kid nl dir sub root"
    and p: "dir p" "nl p = Some 1" "kid p x = None" "ok x" and i: "nl i = None"
    and dir': "\<And>j. dir' j = (if j = i then d else dir j)" and nl': "\<And>j. nl' j = (if j = i then Some 1 else nl j)"
    and sub': "\<And>j. sub' j = (if j = i then 0 else if j = p \<and> d then Suc (sub p) else sub j)"
  shows "tree_inv ok (ent_upd kid p x (Some i)) nl' dir' sub' root"
proof -
  let ?kid = "ent_upd kid p x (Some i)"
  have ip: "i \<noteq> p" "i \<noteq> root" "\<not> dir i"
    using i p(2) tree_invD(5) [OF inv] tree_invD(3) [OF inv, of i] by auto
  have no: "c \<noteq> i" if "kid q y = Some c" for q y c using tree_invD(1) [OF inv that] i by auto
  have none: "kid i y = None" for y
    using tree_invD(1) [OF inv, of i y] i by (cases "kid i y") auto
  have same: "dir' c = dir c" if "kid q y = Some c" for q y c using no [OF that] by (simp add: dir')
  have r0: "refs kid i = {}" using no by (auto simp: refs_def)
  have edges: "ok y \<and> dir' q \<and> nl' q = Some 1 \<and> nl' c \<noteq> None" if "?kid q y = Some c" for q y c
    using that p ip none tree_invD(1) [OF inv, of q y c]
    by (cases "q = p \<and> y = x") (auto simp: ent_upd_apply dir' nl')
  have counts: "finite (refs ?kid j) \<and> k = card (refs ?kid j) + (if j = root then 1 else 0)" if "nl' j = Some k" for j k
    using that tree_invD(2) [OF inv, of j k] ip r0 by (auto simp: nl' refs_add [of kid, OF p(3)] split: if_splits)
  have subs: "finite {y. ?kid j y \<noteq> None} \<and> sub' j = card {y. \<exists>c. ?kid j y = Some c \<and> dir' c}" if "dir' j" for j
  proof (cases "j = i")
    case True
    then have "?kid j y = None" for y using none ip by (auto simp: ent_upd_apply)
    then show ?thesis using True by (simp add: sub')
  next
    case False
    then show ?thesis
      using add_subs [OF inv p(3), of j dir' i] same that by (auto simp: sub' dir')
  qed
  have reach: "tree_reach ?kid dir' root j" if "dir' j" "nl' j = Some 1" for j
    using that add_reach [OF inv p(1-3), of dir'] same by (cases "j = i") (auto simp: dir' nl')
  have "nl' j = Some 0 \<or> nl' j = Some 1" if "dir' j" for j
    using that tree_invD(3) [OF inv, of j] by (auto simp: dir' nl')
  moreover have "dir' root" "nl' root = Some 1" using ip tree_invD(4,5) [OF inv] by (auto simp: dir' nl')
  ultimately show ?thesis using edges counts subs reach unfolding tree_inv_def by blast
qed

text \<open>Another name for an inode that is not a directory.\<close>

lemma tree_link:
  assumes inv: "tree_inv ok kid nl dir sub root"
    and p: "dir p" "nl p = Some 1" "kid p x = None" "ok x" and i: "nl i = Some k" "\<not> dir i"
    and nl': "\<And>j. nl' j = (if j = i then Some (Suc k) else nl j)"
  shows "tree_inv ok (ent_upd kid p x (Some i)) nl' dir sub root"
proof -
  let ?kid = "ent_upd kid p x (Some i)"
  have ip: "i \<noteq> p" "i \<noteq> root" using i p(1) tree_invD(4) [OF inv] by auto
  have edges: "ok y \<and> dir q \<and> nl' q = Some 1 \<and> nl' c \<noteq> None" if "?kid q y = Some c" for q y c
    using that p ip i tree_invD(1) [OF inv, of q y c]
    by (cases "q = p \<and> y = x") (auto simp: ent_upd_apply nl')
  have counts: "finite (refs ?kid j) \<and> n = card (refs ?kid j) + (if j = root then 1 else 0)" if "nl' j = Some n" for j n
    using that tree_invD(2) [OF inv, of j] ip i
    by (auto simp: nl' refs_add [of kid, OF p(3)] refs_finite_add [where kid = kid, OF _ p(3)] split: if_splits)
  have "finite {y. ?kid j y \<noteq> None} \<and> sub j = card {y. \<exists>c. ?kid j y = Some c \<and> dir c}" if "dir j" for j
    using add_subs [OF inv p(3) that, of dir i] i by auto
  moreover have "tree_reach ?kid dir root j" if "dir j" "nl' j = Some 1" for j
    using that add_reach(1) [OF inv p(1-3), of dir j i] i by (auto simp: nl' split: if_splits)
  moreover have "nl' j = Some 0 \<or> nl' j = Some 1" if "dir j" for j
    using that tree_invD(3) [OF inv, of j] i by (auto simp: nl')
  moreover have "dir root" "nl' root = Some 1" using ip tree_invD(4,5) [OF inv] by (auto simp: nl')
  ultimately show ?thesis using edges counts unfolding tree_inv_def by blast
qed

text \<open>
  Removing the entry of an inode that has no entries of its own, when it is a directory: the other
  directories stay reachable, because none is reached through it.
\<close>

lemma remove_reach:
  assumes "tree_reach kid dir root j" "kid p x = Some c" "j \<noteq> c"
    and leaf: "\<And>y. kid c y = None"
  shows "tree_reach (ent_upd kid p x None) dir root j"
  using assms(1,3)
proof induction
  case (tree_reach_step q y d)
  then have "q \<noteq> c" using leaf [of y] by auto
  moreover have "ent_upd kid p x None q y = Some d"
    using tree_reach_step.hyps(2) tree_reach_step.prems assms(2) by (auto simp: ent_upd_apply)
  ultimately show ?case using tree_reach_step tree_reach.tree_reach_step by metis
qed (rule tree_reach_root)

lemma remove_subs:
  assumes inv: "tree_inv ok kid nl dir sub root" and c: "kid p x = Some c" and j: "dir j"
  shows "finite {y. ent_upd kid p x None j y \<noteq> None}
    \<and> card {y. \<exists>e. ent_upd kid p x None j y = Some e \<and> dir e}
        = (if j = p \<and> dir c then sub j - 1 else sub j)"
proof -
  have fin: "finite {y. kid j y \<noteq> None}" and eq: "sub j = card {y. \<exists>c. kid j y = Some c \<and> dir c}"
    using tree_invD(6) [OF inv j] by auto
  have "finite {y. ent_upd kid p x None j y \<noteq> None}"
    by (rule finite_subset [OF _ fin]) (auto simp: ent_upd_apply)
  moreover have "card {y. \<exists>e. ent_upd kid p x None j y = Some e \<and> dir e}
      = (if j = p \<and> dir c then sub j - 1 else sub j)"
    using subs_remove [where kid = kid, OF c, of dir] fin eq by (cases "j = p") (auto simp: ent_upd_apply)
  ultimately show ?thesis by simp
qed

lemma tree_unlink:
  assumes inv: "tree_inv ok kid nl dir sub root"
    and c: "kid p x = Some c" "nl c = Some k" and leaf: "dir c \<Longrightarrow> (\<And>y. kid c y = None)"
    and nl': "\<And>j. nl' j = (if j = c then Some (k - 1) else nl j)"
    and sub': "\<And>j. sub' j = (if j = p \<and> dir c then sub p - 1 else sub j)"
  shows "tree_inv ok (ent_upd kid p x None) nl' dir sub' root"
proof -
  let ?kid = "ent_upd kid p x None"
  have cr: "c \<noteq> root" using tree_inv_root_top [OF inv, of p x] c(1) by auto
  have k: "0 < k" using tree_inv_linked [OF inv c(1)] c(2) by auto
  have edges: "ok y \<and> dir q \<and> nl' q = Some 1 \<and> nl' e \<noteq> None" if "?kid q y = Some e" for q y e
  proof -
    have q: "kid q y = Some e" using that by (auto simp: ent_upd_apply split: if_splits)
    have "dir q" using tree_invD(1) [OF inv q] by simp
    then have "q \<noteq> c" using leaf [of y] q by auto
    then show ?thesis using tree_invD(1) [OF inv q] by (auto simp: nl')
  qed
  have counts: "finite (refs ?kid j) \<and> n = card (refs ?kid j) + (if j = root then 1 else 0)" if n: "nl' j = Some n" for j n
  proof (cases "j = c")
    case True
    have "(p, x) \<in> refs kid c" using c(1) by (simp add: refs_def)
    then show ?thesis
      using True n cr tree_invD(2) [OF inv c(2)] by (auto simp: nl' refs_remove [of kid, OF c(1)])
  next
    case False
    then show ?thesis using n tree_invD(2) [OF inv, of j n] by (auto simp: nl' refs_remove [of kid, OF c(1)])
  qed
  have subs: "finite {y. ?kid j y \<noteq> None} \<and> sub' j = card {y. \<exists>e. ?kid j y = Some e \<and> dir e}" if "dir j" for j
    using remove_subs [OF inv c(1) that] by (auto simp: sub')
  have reach: "tree_reach ?kid dir root j" if j: "dir j" "nl' j = Some 1" for j
  proof -
    have "j \<noteq> c" using j k tree_invD(3) [OF inv, of c] c(2) by (auto simp: nl')
    moreover have "kid c y = None" for y
      using leaf [of y] tree_invD(1) [OF inv, of c y] by (cases "kid c y") auto
    moreover have "tree_reach kid dir root j" using j \<open>j \<noteq> c\<close> tree_invD(7) [OF inv, of j] by (simp add: nl')
    ultimately show ?thesis using remove_reach [where kid = kid, OF _ c(1)] by blast
  qed
  have "nl' j = Some 0 \<or> nl' j = Some 1" if "dir j" for j
    using that tree_invD(3) [OF inv, of j] c(2) by (auto simp: nl')
  moreover have "dir root" "nl' root = Some 1" using cr tree_invD(4,5) [OF inv] by (auto simp: nl')
  ultimately show ?thesis using edges counts subs reach unfolding tree_inv_def by blast
qed

text \<open>
  Moving an entry. A directory is only moved to a place that is not below it; then everything that
  was reachable still is, through the new entry where it was through the old one.
\<close>

lemma reach_split:
  assumes "tree_reach kid dir root j" "kid p x = Some c"
  shows "tree_reach (ent_upd kid p x None) dir root j \<or> tree_reach (ent_upd kid p x None) dir c j"
  using assms(1)
proof induction
  case (tree_reach_step q y d)
  show ?case
  proof (cases "q = p \<and> y = x")
    case True
    then show ?thesis using tree_reach_step.hyps(2) assms(2) by (auto intro: tree_reach_root)
  next
    case False
    then have "ent_upd kid p x None q y = Some d" using tree_reach_step.hyps(2) by (auto simp: ent_upd_apply)
    then show ?thesis using tree_reach_step tree_reach.tree_reach_step by metis
  qed
qed (simp add: tree_reach_root)

lemma move_reach:
  assumes inv: "tree_inv ok kid nl dir sub root" and c: "kid p x = Some c"
    and q: "dir q" "nl q = Some 1" "kid q y = None"
    and away: "dir c \<Longrightarrow> (\<And>zs. tree_walk kid c zs \<noteq> Some q)" and j: "dir j" "nl j = Some 1"
  shows "tree_reach (ent_upd (ent_upd kid p x None) q y (Some c)) dir root j"
proof -
  let ?cut = "ent_upd kid p x None" and ?kid = "ent_upd (ent_upd kid p x None) q y (Some c)"
  have mono: "tree_reach ?kid dir r i" if "tree_reach ?cut dir r i" for r i
    using that by (rule tree_reach_mono) (use q(3) in \<open>auto simp: ent_upd_apply split: if_splits\<close>)
  have "tree_reach ?cut dir root i \<or> dir c \<and> tree_reach ?cut dir c i" if "dir i" "nl i = Some 1" for i
  proof (cases "dir c")
    case False
    have "tree_reach kid dir root i" using tree_invD(7) [OF inv that] .
    then have "tree_reach ?cut dir root i"
      by (rule tree_reach_mono) (use c False in \<open>auto simp: ent_upd_apply\<close>)
    then show ?thesis by simp
  next
    case True
    then show ?thesis using reach_split [OF tree_invD(7) [OF inv that] c] by blast
  qed
  note split = this
  have "\<not> tree_reach ?cut dir c q" if "dir c"
  proof
    assume "tree_reach ?cut dir c q"
    then have "tree_reach kid dir c q" by (rule tree_reach_mono) (auto simp: ent_upd_apply split: if_splits)
    then show False using tree_reach_walk away [OF that] by metis
  qed
  then have rq: "tree_reach ?kid dir root q" using split [OF q(1,2)] mono by blast
  then have "tree_reach ?kid dir root c" if "dir c"
    by (rule tree_reach_step [where x = y]) (simp_all add: ent_upd_apply that)
  then show ?thesis using split [OF j] mono tree_reach_trans by metis
qed

lemma tree_move:
  assumes inv: "tree_inv ok kid nl dir sub root" and c: "kid p x = Some c"
    and q: "dir q" "nl q = Some 1" "kid q y = None" "ok y"
    and away: "dir c \<Longrightarrow> (\<And>zs. tree_walk kid c zs \<noteq> Some q)"
    and sub1: "\<And>j. sub1 j = (if j = p \<and> dir c then sub p - 1 else sub j)"
    and sub': "\<And>j. sub' j = (if j = q \<and> dir c then Suc (sub1 q) else sub1 j)"
  shows "tree_inv ok (ent_upd (ent_upd kid p x None) q y (Some c)) nl dir sub' root"
proof -
  let ?cut = "ent_upd kid p x None" and ?kid = "ent_upd (ent_upd kid p x None) q y (Some c)"
  have free: "?cut q y = None" using q(3) by (simp add: ent_upd_apply)
  have edges: "ok z \<and> dir r \<and> nl r = Some 1 \<and> nl e \<noteq> None" if "?kid r z = Some e" for r z e
    using that q tree_invD(1) [OF inv c] tree_invD(1) [OF inv, of r z e]
    by (auto simp: ent_upd_apply split: if_splits)
  have counts: "finite (refs ?kid j) \<and> n = card (refs ?kid j) + (if j = root then 1 else 0)" if n: "nl j = Some n" for j n
  proof -
    have px: "(p, x) \<in> refs kid c" "(q, y) \<notin> refs kid c" using c q(3) by (auto simp: refs_def)
    have "0 < card (refs kid c)" if "j = c" using tree_invD(2) [OF inv n] px(1) that by (auto simp: card_gt_0_iff)
    then show ?thesis
      using tree_invD(2) [OF inv n] px by (auto simp: refs_add [of ?cut, OF free] refs_remove [of kid, OF c] card_insert_if)
  qed
  have subs: "finite {z. ?kid j z \<noteq> None} \<and> sub' j = card {z. \<exists>e. ?kid j z = Some e \<and> dir e}" if "dir j" for j
  proof -
    have r: "finite {z. ?cut j z \<noteq> None}" "card {z. \<exists>e. ?cut j z = Some e \<and> dir e} = sub1 j"
      using remove_subs [OF inv c that] by (auto simp: sub1)
    have "finite {z. ?kid j z \<noteq> None}" by (rule finite_subset [OF names_add]) (use r in simp)
    moreover have "card {z. \<exists>e. ?kid j z = Some e \<and> dir e} = sub' j"
      using subs_add [where kid = ?cut, OF free, of c dir] r by (cases "j = q") (auto simp: sub' ent_upd_apply)
    ultimately show ?thesis by simp
  qed
  have "tree_reach ?kid dir root j" if "dir j" "nl j = Some 1" for j
    by (rule move_reach [OF inv c q(1-3) away that])
  then show ?thesis using edges counts subs tree_invD(3-5) [OF inv] unfolding tree_inv_def by blast
qed

text \<open>An inode without links is dropped from a tree.\<close>

lemma tree_drop:
  assumes inv: "tree_inv ok kid nl dir sub root" and c: "nl c = Some 0"
    and nl': "\<And>j. nl' j = (if j = c then None else nl j)" and dir': "\<And>j. dir' j \<longleftrightarrow> j \<noteq> c \<and> dir j"
    and sub': "\<And>j. j \<noteq> c \<Longrightarrow> sub' j = sub j"
  shows "tree_inv ok kid nl' dir' sub' root"
proof -
  have cr: "c \<noteq> root" using c tree_invD(5) [OF inv] by auto
  have to_c: "kid p x \<noteq> Some c" for p x
  proof
    assume "kid p x = Some c"
    then show False using tree_inv_linked [OF inv] c by fastforce
  qed
  have of_c: "kid c x = None" for x
    using tree_invD(1) [OF inv, of c x] c by (cases "kid c x") auto
  have reach: "tree_reach kid dir' root j" if "tree_reach kid dir root j" for j
    using that by (rule tree_reach_mono) (use to_c in \<open>auto simp: dir'\<close>)
  have subs: "{x. \<exists>d. kid j x = Some d \<and> dir' d} = {x. \<exists>d. kid j x = Some d \<and> dir d}" for j
    using to_c by (auto simp: dir')
  have "ok x \<and> dir' p \<and> nl' p = Some 1 \<and> nl' d \<noteq> None" if "kid p x = Some d" for p x d
    using that tree_invD(1) [OF inv that] to_c of_c by (auto simp: dir' nl')
  moreover have "finite (refs kid j) \<and> k = card (refs kid j) + (if j = root then 1 else 0)" if "nl' j = Some k" for j k
    using that tree_invD(2) [OF inv, of j k] by (auto simp: nl' split: if_splits)
  moreover have "finite {x. kid j x \<noteq> None} \<and> sub' j = card {x. \<exists>d. kid j x = Some d \<and> dir' d}" if "dir' j" for j
    using that tree_invD(6) [OF inv, of j] sub' subs by (auto simp: dir')
  moreover have "nl' j = Some 0 \<or> nl' j = Some 1" "nl' j = Some 1 \<Longrightarrow> tree_reach kid dir' root j" if "dir' j" for j
    using that tree_invD(3,7) [OF inv, of j] reach by (auto simp: dir' nl')
  moreover have "dir' root" "nl' root = Some 1" using cr tree_invD(4,5) [OF inv] by (simp_all add: dir' nl')
  ultimately show ?thesis unfolding tree_inv_def by blast
qed

lemma tree_walk_mono:
  "(\<And>p x c. k' p x = Some c \<Longrightarrow> k p x = Some c) \<Longrightarrow> tree_walk k' i xs = Some j \<Longrightarrow> tree_walk k i xs = Some j"
  by (induction xs arbitrary: i) (auto split: option.splits)

end
