(* ===== verification/Mem_Fs_Inv.thy ===== *)
theory Mem_Fs_Inv
  imports Mem_Fs_Guarded Dir_Tree
begin

text \<open>
  The invariant of the memory file system: well-formed nodes, a directory tree with exact link
  counts, and accounting that matches the nodes in use; and that the internal operations keep it.
\<close>

section \<open>The invariant\<close>

definition name_ok :: "string \<Rightarrow> bool" where
  "name_ok x \<longleftrightarrow> valid_component x \<and> CHR 0x00 \<notin> set x"

definition kid :: "mem_state \<Rightarrow> nat \<Rightarrow> string \<Rightarrow> nat option" where
  "kid s p x = (case fmlookup (fs_nodes s) p of None \<Rightarrow> None | Some n \<Rightarrow> children_get (nd_children n) x)"

definition nlinks :: "mem_state \<Rightarrow> nat \<Rightarrow> nat option" where
  "nlinks s i = map_option nd_nlink (fmlookup (fs_nodes s) i)"

definition subdirs :: "mem_state \<Rightarrow> nat \<Rightarrow> nat" where
  "subdirs s i = (case fmlookup (fs_nodes s) i of None \<Rightarrow> 0 | Some n \<Rightarrow> nd_subdirs n)"

definition node_ok :: "node \<Rightarrow> bool" where
  "node_ok n \<longleftrightarrow>
     children_wf (nd_children n) \<and> nd_mode n AND S_IFMT = mode_bits (node_file_type n)
     \<and> (is_symlink n \<longleftrightarrow> nd_target n \<noteq> None)
     \<and> (\<not> is_directory n \<longrightarrow> nd_children n = children_new \<and> nd_subdirs n = 0)
     \<and> (node_file_type n \<noteq> File \<longrightarrow> nd_data n = [])"

definition nodes_ok :: "mem_state \<Rightarrow> bool" where
  "nodes_ok s \<longleftrightarrow> fs_next_ino s \<le> U64_MAX \<and>
     (\<forall>i n. fmlookup (fs_nodes s) i = Some n \<longrightarrow> nd_ino n = i \<and> 0 < i \<and> i < fs_next_ino s \<and> node_ok n)"

definition fs_tree :: "mem_state \<Rightarrow> bool" where
  "fs_tree s \<longleftrightarrow> tree_inv name_ok (kid s) (nlinks s) (fs_dir s) (subdirs s) (fs_root s)"

definition in_use :: "mem_state \<Rightarrow> nat set" where
  "in_use s = {i. \<exists>k>0. nlinks s i = Some k}"

definition blocks_of :: "mem_state \<Rightarrow> nat \<Rightarrow> nat" where
  "blocks_of s i = (case fmlookup (fs_nodes s) i of None \<Rightarrow> 0 | Some n \<Rightarrow> node_blocks n)"

definition accounted :: "mem_state \<Rightarrow> bool" where
  "accounted s \<longleftrightarrow> fs_node_count s = card (in_use s) \<and> fs_used_blocks s = sum (blocks_of s) (in_use s)"

definition memfs_wf :: "mem_state \<Rightarrow> bool" where
  "memfs_wf s \<longleftrightarrow> nodes_ok s \<and> fs_tree s \<and> accounted s"

lemma in_use_finite [simp]: "finite (in_use s)"
proof (rule finite_subset)
  show "in_use s \<subseteq> fmdom' (fs_nodes s)" by (auto simp: in_use_def nlinks_def fmlookup_dom'_iff)
qed simp

lemma memfs_new_wf: "memfs_wf (memfs_new env options)"
proof -
  let ?s = "memfs_new env options"
  have lk: "fmlookup (fs_nodes ?s) i = None" if "i \<noteq> 1" for i
    using that by (simp add: memfs_new_def Let_def)
  obtain n where n: "fmlookup (fs_nodes ?s) 1 = Some n" "nd_children n = children_new" "nd_nlink n = 1"
    "nd_ino n = 1" "nd_mode n = S_IFDIR OR (mp_root_mode options AND PERM_MASK)" "nd_target n = None"
    "nd_data n = []" "nd_subdirs n = 0" "fs_used_blocks ?s = node_blocks n"
    by (simp add: memfs_new_def Let_def)
  have d: "is_directory n" "node_file_type n = Directory"
    using n(5) from_mode_bits_perm [where t = Directory] by (simp_all add: is_directory_def node_file_type_def)
  have ok: "node_ok n"
    using n d kids.wf_empty mode_bits_masked [of Directory] by (simp add: node_ok_def is_symlink_def masked_or_perm)
  have root: "fs_root ?s = 1" "fs_next_ino ?s = 2" "fs_node_count ?s = 1"
    by (simp_all add: memfs_new_def Let_def)
  have k: "kid ?s p x = None" for p x
    using n lk by (cases "p = 1") (auto simp: kid_def kids.get_empty)
  have nl: "nlinks ?s i = (if i = 1 then Some 1 else None)" for i using n lk by (simp add: nlinks_def)
  have fd: "fs_dir ?s i = (i = 1)" for i using n lk d by (cases "i = 1") (auto simp: fs_dir_def)
  have "fs_tree ?s"
    unfolding fs_tree_def tree_inv_def k nl fd root subdirs_def
    by (auto simp: refs_def n simp del: One_nat_def intro: tree_reach_root)
  moreover have "nodes_ok ?s"
    unfolding nodes_ok_def root
  proof (intro conjI allI impI)
    fix i m assume m: "fmlookup (fs_nodes ?s) i = Some m"
    then have "i = 1" using lk [of i] by auto
    then show "nd_ino m = i" "0 < i" "i < 2" "node_ok m" using m n ok by auto
  qed (simp add: U64_MAX_def)
  moreover have "in_use ?s = {1}" by (auto simp: in_use_def nl)
  then have "accounted ?s" using n root by (simp add: accounted_def blocks_of_def)
  ultimately show ?thesis by (simp add: memfs_wf_def)
qed

section \<open>States of the same shape\<close>

text \<open>
  Changes that touch only times, owners and permission bits leave the shape of the state as it is.
  All reading prefixes of the operations, and all their failures, do no more than that.
\<close>

definition same_shape :: "node \<Rightarrow> node \<Rightarrow> bool" where
  "same_shape n m \<longleftrightarrow> nd_ino m = nd_ino n \<and> nd_mode m AND S_IFMT = nd_mode n AND S_IFMT
     \<and> nd_nlink m = nd_nlink n \<and> nd_data m = nd_data n \<and> nd_target m = nd_target n
     \<and> nd_children m = nd_children n \<and> nd_subdirs m = nd_subdirs n"

definition same_state :: "mem_state \<Rightarrow> mem_state \<Rightarrow> bool" where
  "same_state s t \<longleftrightarrow> fs_root t = fs_root s \<and> fs_next_ino t = fs_next_ino s
     \<and> fs_node_count t = fs_node_count s \<and> fs_used_blocks t = fs_used_blocks s
     \<and> fs_uid t = fs_uid s \<and> fs_gid t = fs_gid s \<and> fs_umask t = fs_umask s
     \<and> (\<forall>i. rel_option same_shape (fmlookup (fs_nodes s) i) (fmlookup (fs_nodes t) i))"

lemma same_shape_refl [simp]: "same_shape n n"
  by (simp add: same_shape_def)

lemma same_shape_trans: "same_shape n m \<Longrightarrow> same_shape m k \<Longrightarrow> same_shape n k"
  by (simp add: same_shape_def)

lemma same_shape_type: "same_shape n m \<Longrightarrow> node_file_type m = node_file_type n"
  by (auto simp: same_shape_def node_file_type_def intro: from_mode_cong)

lemma same_shape_kind:
  assumes "same_shape n m"
  shows "is_directory m = is_directory n" "is_symlink m = is_symlink n" "node_size m = node_size n"
    "node_blocks m = node_blocks n" "node_ok m = node_ok n"
  using assms same_shape_type [OF assms]
  by (auto simp: is_directory_def is_symlink_def node_size_def node_blocks_def node_ok_def same_shape_def
      split: option.split)

lemma same_state_refl [simp]: "same_state s s"
  by (simp add: same_state_def option.rel_refl)

lemma same_state_trans:
  assumes "same_state s t" "same_state t u"
  shows "same_state s u"
proof -
  have "rel_option same_shape (fmlookup (fs_nodes s) i) (fmlookup (fs_nodes u) i)" for i
  proof -
    have "rel_option same_shape (fmlookup (fs_nodes s) i) (fmlookup (fs_nodes t) i)"
      "rel_option same_shape (fmlookup (fs_nodes t) i) (fmlookup (fs_nodes u) i)"
      using assms by (simp_all add: same_state_def)
    then show ?thesis by (auto elim!: option.rel_cases intro: same_shape_trans)
  qed
  then show ?thesis using assms by (simp add: same_state_def)
qed

lemma same_state_lookup:
  assumes "same_state s t"
  shows "fmlookup (fs_nodes s) i = None \<longleftrightarrow> fmlookup (fs_nodes t) i = None"
    and "fmlookup (fs_nodes s) i = Some n \<Longrightarrow> \<exists>m. fmlookup (fs_nodes t) i = Some m \<and> same_shape n m"
    and "fmlookup (fs_nodes t) i = Some m \<Longrightarrow> \<exists>n. fmlookup (fs_nodes s) i = Some n \<and> same_shape n m"
proof -
  have r: "rel_option same_shape (fmlookup (fs_nodes s) i) (fmlookup (fs_nodes t) i)"
    using assms by (simp add: same_state_def)
  then show "fmlookup (fs_nodes s) i = None \<longleftrightarrow> fmlookup (fs_nodes t) i = None"
    by (auto elim: option.rel_cases)
  show "fmlookup (fs_nodes s) i = Some n \<Longrightarrow> \<exists>m. fmlookup (fs_nodes t) i = Some m \<and> same_shape n m"
    and "fmlookup (fs_nodes t) i = Some m \<Longrightarrow> \<exists>n. fmlookup (fs_nodes s) i = Some n \<and> same_shape n m"
    using r by (auto elim: option.rel_cases)
qed

lemma same_state_view:
  assumes "same_state s t"
  shows "kid t = kid s" "nlinks t = nlinks s" "fs_dir t = fs_dir s" "subdirs t = subdirs s"
    "blocks_of t = blocks_of s" "fs_root t = fs_root s" "in_use t = in_use s"
proof -
  have c: "(\<exists>n m. fmlookup (fs_nodes s) i = Some n \<and> fmlookup (fs_nodes t) i = Some m \<and> same_shape n m)
      \<or> fmlookup (fs_nodes s) i = None \<and> fmlookup (fs_nodes t) i = None" for i
    using same_state_lookup [OF assms, of i] by (cases "fmlookup (fs_nodes s) i") auto
  show "kid t = kid s"
  proof (intro ext)
    fix i x show "kid t i x = kid s i x" using c [of i] by (auto simp: kid_def same_shape_def)
  qed
  show nl: "nlinks t = nlinks s"
  proof
    fix i show "nlinks t i = nlinks s i" using c [of i] by (auto simp: nlinks_def same_shape_def)
  qed
  show "fs_dir t = fs_dir s"
  proof
    fix i show "fs_dir t i = fs_dir s i" using c [of i] by (auto simp: fs_dir_def same_shape_kind)
  qed
  show "subdirs t = subdirs s"
  proof
    fix i show "subdirs t i = subdirs s i" using c [of i] by (auto simp: subdirs_def same_shape_def)
  qed
  show "blocks_of t = blocks_of s"
  proof
    fix i show "blocks_of t i = blocks_of s i" using c [of i] by (auto simp: blocks_of_def same_shape_kind)
  qed
  show "fs_root t = fs_root s" using assms by (simp add: same_state_def)
  show "in_use t = in_use s" by (simp add: in_use_def nl)
qed

lemma same_state_wf:
  assumes "same_state s t" "memfs_wf s"
  shows "memfs_wf t"
proof -
  have nx: "fs_next_ino t = fs_next_ino s" and cs: "fs_node_count t = fs_node_count s" "fs_used_blocks t = fs_used_blocks s"
    using assms(1) by (simp_all add: same_state_def)
  have "nodes_ok t"
    unfolding nodes_ok_def
  proof (intro conjI allI impI)
    show "fs_next_ino t \<le> U64_MAX" using assms nx by (simp add: memfs_wf_def nodes_ok_def)
    fix i m assume m: "fmlookup (fs_nodes t) i = Some m"
    then obtain n where n: "fmlookup (fs_nodes s) i = Some n" "same_shape n m"
      using same_state_lookup(3) [OF assms(1)] by blast
    then have "nd_ino n = i \<and> 0 < i \<and> i < fs_next_ino s \<and> node_ok n"
      using assms(2) by (auto simp: memfs_wf_def nodes_ok_def)
    then show "nd_ino m = i" "0 < i" "i < fs_next_ino t" "node_ok m"
      using n(2) same_shape_kind(5) [OF n(2)] nx by (auto simp: same_shape_def)
  qed
  then show ?thesis
    using assms(2) cs same_state_view [OF assms(1)] by (simp add: memfs_wf_def fs_tree_def accounted_def)
qed

lemma same_state_upd:
  assumes "\<And>n. fmlookup (fs_nodes s) i = Some n \<Longrightarrow> same_shape n (f n)"
  shows "same_state s (upd_node i f s)"
  using assms by (auto simp: same_state_def upd_node_def option.rel_refl split: option.splits)

lemma same_state_ghost [simp]:
  "same_state s (t\<lparr>fs_ticks := k\<rparr>) = same_state s t" "same_state s (t\<lparr>fs_next_fd := k\<rparr>) = same_state s t"
  by (simp_all add: same_state_def)

end
