(* ===== verification/Mem_Fs_Walk.thy ===== *)
theory Mem_Fs_Walk
  imports Mem_Fs_Inv
begin

text \<open>
  The path walk of the memory file system against the directory tree: an entry it arrives at is the
  entry of a directory on the tree, under the canonical path it reports, and a path whose parent is
  on the tree is found.
\<close>

section \<open>The tree of a state\<close>

text \<open>A directory that has not been removed.\<close>

definition live_dir :: "mem_state \<Rightarrow> nat \<Rightarrow> bool" where
  "live_dir s i \<longleftrightarrow> fs_dir s i \<and> nlinks s i = Some 1"

lemma memfs_tree: "memfs_wf s \<Longrightarrow> tree_inv name_ok (kid s) (nlinks s) (fs_dir s) (subdirs s) (fs_root s)"
  by (simp add: memfs_wf_def fs_tree_def)

lemma live_reach:
  assumes "memfs_wf s" "live_dir s d"
  shows "tree_reach (kid s) (live_dir s) (fs_root s) d"
proof -
  have "tree_reach (kid s) (fs_dir s) (fs_root s) d"
    using tree_invD(7) [OF memfs_tree [OF assms(1)]] assms(2) by (simp add: live_dir_def)
  then show ?thesis
  proof (rule tree_reach_mono)
    fix p x c assume k: "kid s p x = Some c" "fs_dir s c"
    then show "kid s p x = Some c \<and> live_dir s c"
      using tree_inv_linked [OF memfs_tree [OF assms(1)] k(1)] tree_invD(3) [OF memfs_tree [OF assms(1)] k(2)]
      by (auto simp: live_dir_def)
  qed
qed

interpretation memtree: dir_tree memfs_wf kid live_dir fs_root
proof unfold_locales
  fix s p x c assume "memfs_wf s" "kid s p x = Some c"
  then show "live_dir s p" using tree_invD(1) [OF memfs_tree, of s p x c] by (simp add: live_dir_def)
next
  fix s p x d q y assume "memfs_wf s" "kid s p x = Some d" "kid s q y = Some d" "live_dir s d"
  then show "p = q \<and> x = y" using tree_inv_one_parent [OF memfs_tree, of s p x d q y] by (simp add: live_dir_def)
next
  fix s p x assume "memfs_wf s"
  then show "kid s p x \<noteq> Some (fs_root s)" by (rule tree_inv_root_top [OF memfs_tree])
next
  fix s d assume "memfs_wf s" "live_dir s d"
  then show "tree_reach (kid s) (live_dir s) (fs_root s) d" by (rule live_reach)
qed

lemma root_live: "memfs_wf s \<Longrightarrow> live_dir s (fs_root s)"
  using tree_invD(4,5) [OF memfs_tree] by (simp add: live_dir_def)

lemma kid_linked: "memfs_wf s \<Longrightarrow> kid s p x = Some c \<Longrightarrow> \<exists>k>0. nlinks s c = Some k"
  by (rule tree_inv_linked [OF memfs_tree])

lemma kid_name_ok: "memfs_wf s \<Longrightarrow> kid s p x = Some c \<Longrightarrow> name_ok x"
  using tree_invD(1) [OF memfs_tree] by blast

lemma kid_live: "memfs_wf s \<Longrightarrow> kid s p x = Some c \<Longrightarrow> fs_dir s c \<Longrightarrow> live_dir s c"
  using kid_linked [of s p x c] tree_invD(3) [OF memfs_tree, of s c] by (auto simp: live_dir_def)

lemma walk_live:
  assumes "memfs_wf s" "tree_walk (kid s) (fs_root s) cs = Some p" "fs_dir s p"
  shows "live_dir s p"
proof (cases cs rule: rev_cases)
  case Nil
  then show ?thesis using assms root_live [OF assms(1)] by auto
next
  case (snoc xs x)
  then obtain q where "kid s q x = Some p" using assms(2) by (auto simp: tree_walk_snoc)
  then show ?thesis using kid_live assms by blast
qed

lemma fs_dir_iff: "fs_dir s i \<longleftrightarrow> (\<exists>n. fmlookup (fs_nodes s) i = Some n \<and> is_directory n)"
  by (auto simp: fs_dir_def split: option.splits)

lemma nlinks_Some: "nlinks s i = Some k \<longleftrightarrow> (\<exists>n. fmlookup (fs_nodes s) i = Some n \<and> nd_nlink n = k)"
  by (auto simp: nlinks_def)

lemma nlinks_None: "nlinks s i = None \<longleftrightarrow> fmlookup (fs_nodes s) i = None"
  by (auto simp: nlinks_def)

section \<open>Entries\<close>

definition root_entry :: "mem_state \<Rightarrow> entry" where
  "root_entry s = \<lparr>en_parent = fs_root s, en_name = [], en_node = Some (fs_root s), en_path = ''/''\<rparr>"

text \<open>The entry of a name in a directory that the components \<open>cs\<close> lead to.\<close>

definition entry_at :: "mem_state \<Rightarrow> string list \<Rightarrow> entry \<Rightarrow> bool" where
  "entry_at s cs en \<longleftrightarrow>
     tree_walk (kid s) (fs_root s) cs = Some (en_parent en) \<and> fs_dir s (en_parent en)
     \<and> en_node en = kid s (en_parent en) (en_name en)
     \<and> en_path en = render_path (cs @ [en_name en]) \<and> list_all name_ok (cs @ [en_name en])"

definition entry_ok :: "mem_state \<Rightarrow> entry \<Rightarrow> bool" where
  "entry_ok s en \<longleftrightarrow> en = root_entry s \<or> (\<exists>cs. entry_at s cs en)"

lemma walk_segments_arrived:
  assumes "walk_segments s ff sc nz before xs cur = Inr (Arrived en)"
    and "tree_walk (kid s) (fs_root s) before = Some cur"
  shows "\<exists>cs. before @ xs = cs @ [en_name en] \<and> tree_walk (kid s) (fs_root s) cs = Some (en_parent en)
    \<and> fs_dir s (en_parent en) \<and> en_node en = kid s (en_parent en) (en_name en) \<and> en_path en = nz
    \<and> (\<forall>c. en_node en = Some c \<longrightarrow> ff \<longrightarrow> (\<exists>n. fmlookup (fs_nodes s) c = Some n \<and> \<not> is_symlink n))"
  using assms
proof (induction xs arbitrary: before cur)
  case (Cons x xs)
  from Cons.prems(1) obtain n where n: "fmlookup (fs_nodes s) cur = Some n" "is_directory n"
    by (auto split: if_splits)
  have k: "children_get (nd_children n) x = kid s cur x" using n by (simp add: kid_def)
  show ?case
  proof (cases "kid s cur x")
    case None
    then show ?thesis using Cons.prems n k
      by (intro exI [of _ before]) (auto simp: fs_dir_iff split: if_splits)
  next
    case (Some c)
    then obtain m where m: "fmlookup (fs_nodes s) c = Some m" using Cons.prems n k by (auto split: if_splits)
    show ?thesis
    proof (cases "xs = []")
      case True
      then show ?thesis using Cons.prems n k m Some
        by (intro exI [of _ before]) (auto simp: fs_dir_iff Let_def split: if_splits)
    next
      case False
      then have "walk_segments s ff sc nz (before @ [x]) xs c = Inr (Arrived en)"
        using Cons.prems n k m Some by (auto simp: Let_def split: if_splits)
      moreover have "tree_walk (kid s) (fs_root s) (before @ [x]) = Some c"
        using Cons.prems(2) Some by (simp add: tree_walk_snoc)
      ultimately show ?thesis using Cons.IH by fastforce
    qed
  qed
qed simp

lemma name_ok_comps: "CHR 0x00 \<notin> set path \<Longrightarrow> list_all name_ok (norm_comps path)"
  using norm_comps_chars norm_comps_valid_in by (fastforce simp: list_all_iff name_ok_def)

lemma walk_ok:
  "walk s path ff sc d = Inr en \<Longrightarrow> entry_ok s en \<and>
     (ff \<longrightarrow> en \<noteq> root_entry s \<longrightarrow> (\<forall>c. en_node en = Some c \<longrightarrow> (\<exists>n. fmlookup (fs_nodes s) c = Some n \<and> \<not> is_symlink n)))"
proof (induction s path ff sc d rule: walk.induct)
  case (1 s path ff sc d)
  have nul: "CHR 0x00 \<notin> set path" and d: "\<not> d \<ge> MAX_SYMLINK_DEPTH"
    using "1.prems" by (auto simp: walk.simps [of s path] split: if_splits)
  show ?case
  proof (cases "normalize_path path = ''/''")
    case True
    then show ?thesis using "1.prems" nul d
      by (auto simp: walk.simps [of s path] entry_ok_def root_entry_def)
  next
    case False
    note un = "1.prems" [unfolded walk.simps [of s path], simplified Let_def, simplified nul d False, simplified]
    show ?thesis
    proof (cases "walk_segments s ff sc (normalize_path path) [] (split_path (normalize_path path)) (fs_root s)")
      case (Inr out)
      show ?thesis
      proof (cases out)
        case (Arrived e)
        then have e: "e = en" using un Inr nul d False by simp
        from walk_segments_arrived [OF Inr [unfolded Arrived e]]
        obtain cs where cs: "split_path (normalize_path path) = cs @ [en_name en]"
          "tree_walk (kid s) (fs_root s) cs = Some (en_parent en)" "fs_dir s (en_parent en)"
          "en_node en = kid s (en_parent en) (en_name en)" "en_path en = normalize_path path"
          "\<forall>c. en_node en = Some c \<longrightarrow> ff \<longrightarrow> (\<exists>n. fmlookup (fs_nodes s) c = Some n \<and> \<not> is_symlink n)"
          by auto
        have nc: "norm_comps path = cs @ [en_name en]" using cs(1) by (simp add: split_path_norm_comps)
        then have "entry_at s cs en"
          using cs name_ok_comps [OF nul] normalize_path_render [of path] by (simp add: entry_at_def)
        then show ?thesis using cs(6) by (auto simp: entry_ok_def)
      next
        case (Redirect r)
        then show ?thesis using un Inr nul d False "1.IH" by auto
      qed
    qed (use un nul d False in auto)
  qed
qed

lemma walk_entry_ok: "walk s path ff sc d = Inr en \<Longrightarrow> entry_ok s en"
  by (blast dest: walk_ok)

text \<open>What the operations use of an entry.\<close>

lemma entry_parent_live: "memfs_wf s \<Longrightarrow> entry_ok s en \<Longrightarrow> live_dir s (en_parent en)"
  by (auto simp: entry_ok_def entry_at_def root_entry_def intro: root_live walk_live)

lemma entry_free: "entry_ok s en \<Longrightarrow> en_node en = None \<Longrightarrow> kid s (en_parent en) (en_name en) = None \<and> name_ok (en_name en)"
  by (auto simp: entry_ok_def entry_at_def root_entry_def)

lemma entry_taken:
  "entry_ok s en \<Longrightarrow> en_node en = Some c \<Longrightarrow> c \<noteq> fs_root s \<Longrightarrow> kid s (en_parent en) (en_name en) = Some c"
  by (auto simp: entry_ok_def entry_at_def root_entry_def)

lemma entry_node_linked: "memfs_wf s \<Longrightarrow> entry_ok s en \<Longrightarrow> en_node en = Some c \<Longrightarrow> \<exists>k>0. nlinks s c = Some k"
  using root_live [of s] kid_linked [of s]
  by (cases "c = fs_root s") (auto simp: live_dir_def dest: entry_taken)

lemma walk_follow_kind:
  assumes "memfs_wf s" "walk s path True sc d = Inr en" "en_node en = Some c" "fmlookup (fs_nodes s) c = Some n"
  shows "\<not> is_symlink n"
proof (cases "en = root_entry s")
  case True
  then have "is_directory n" using root_live [OF assms(1)] assms(3,4) by (simp add: live_dir_def fs_dir_iff root_entry_def)
  then show ?thesis by (simp add: is_directory_def is_symlink_def)
next
  case False
  then show ?thesis using walk_ok [OF assms(2)] assms(3,4) by auto
qed

section \<open>Completeness\<close>

lemma walk_segments_found:
  assumes wf: "memfs_wf s"
    and "tree_walk (kid s) cur cs = Some p" "fs_dir s p" "fs_dir s cur"
    and last: "\<And>c n. ff \<Longrightarrow> kid s p x = Some c \<Longrightarrow> fmlookup (fs_nodes s) c = Some n \<Longrightarrow> \<not> is_symlink n"
  shows "walk_segments s ff sc nz before (cs @ [x]) cur
    = Inr (Arrived \<lparr>en_parent = p, en_name = x, en_node = kid s p x, en_path = nz\<rparr>)"
  using assms(2-4)
proof (induction cs arbitrary: cur before)
  case Nil
  then obtain n where n: "fmlookup (fs_nodes s) p = Some n" "is_directory n" by (auto simp: fs_dir_iff)
  have k: "children_get (nd_children n) x = kid s p x" using n by (simp add: kid_def)
  show ?case
  proof (cases "kid s p x")
    case (Some c)
    then obtain m where m: "fmlookup (fs_nodes s) c = Some m" using kid_linked [OF wf Some] by (auto simp: nlinks_Some)
    then show ?thesis using n k Some Nil last [OF _ Some m] by auto
  qed (use n k Nil in simp)
next
  case (Cons y ys)
  then obtain n where n: "fmlookup (fs_nodes s) cur = Some n" "is_directory n" by (auto simp: fs_dir_iff)
  have k: "children_get (nd_children n) z = kid s cur z" for z using n by (simp add: kid_def)
  from Cons.prems obtain c where c: "kid s cur y = Some c" "tree_walk (kid s) c ys = Some p"
    by (auto split: option.splits)
  have dc: "fs_dir s c"
  proof (cases ys)
    case (Cons z zs)
    then obtain e where "kid s c z = Some e" using c(2) by (auto split: option.splits)
    then show ?thesis using memtree.entry_parent [OF wf] by (auto simp: live_dir_def)
  qed (use c Cons.prems in simp)
  then obtain m where m: "fmlookup (fs_nodes s) c = Some m" "is_directory m" by (auto simp: fs_dir_iff)
  then have "\<not> is_symlink m" by (simp add: is_directory_def is_symlink_def)
  then show ?case using n k c m Cons.IH [OF c(2) Cons.prems(2) dc] by simp
qed

lemma walk_found:
  assumes "memfs_wf s" "CHR 0x00 \<notin> set path" "norm_comps path = cs @ [x]"
    and "tree_walk (kid s) (fs_root s) cs = Some p" "fs_dir s p"
    and "\<And>c n. ff \<Longrightarrow> kid s p x = Some c \<Longrightarrow> fmlookup (fs_nodes s) c = Some n \<Longrightarrow> \<not> is_symlink n"
  shows "walk s path ff sc 0 = Inr \<lparr>en_parent = p, en_name = x, en_node = kid s p x, en_path = normalize_path path\<rparr>"
proof -
  have "normalize_path path \<noteq> ''/''" using assms(3) by (simp add: normalize_path_root_iff)
  moreover have "split_path (normalize_path path) = cs @ [x]" using assms(3) by (simp add: split_path_norm_comps)
  moreover have "fs_dir s (fs_root s)" using root_live [OF assms(1)] by (simp add: live_dir_def)
  ultimately show ?thesis
    using assms(2) walk_segments_found [OF assms(1,4,5) _ assms(6)]
    by (simp add: walk.simps [of s path] MAX_SYMLINK_DEPTH_def)
qed

text \<open>An entry is found again under the path it reports.\<close>

lemma entry_path_comps:
  assumes "entry_at s cs en"
  shows "norm_comps (en_path en) = cs @ [en_name en]" "CHR 0x00 \<notin> set (en_path en)"
    "normalize_path (en_path en) = en_path en"
proof -
  have v: "list_all name_ok (cs @ [en_name en])" and p: "en_path en = render_path (cs @ [en_name en])"
    using assms by (auto simp: entry_at_def)
  then have "list_all valid_component (cs @ [en_name en])" by (auto simp: list_all_iff name_ok_def)
  then show n: "norm_comps (en_path en) = cs @ [en_name en]" unfolding p by (rule norm_comps_render)
  have j: "set (join_with ''/'' xs) \<subseteq> insert CHR ''/'' (\<Union> (set ` set xs))" for xs
    by (induction "''/''" xs rule: join_with.induct) auto
  have "set (en_path en) \<subseteq> insert CHR ''/'' (\<Union> (set ` set (cs @ [en_name en])))"
    using j [of "cs @ [en_name en]"] unfolding p render_path_def by auto
  then show "CHR 0x00 \<notin> set (en_path en)" using v by (fastforce simp: list_all_iff name_ok_def)
  show "normalize_path (en_path en) = en_path en" unfolding normalize_path_render n using p by simp
qed

lemma walk_again:
  assumes "memfs_wf s" "entry_at s cs en"
    and "\<And>c n. ff \<Longrightarrow> en_node en = Some c \<Longrightarrow> fmlookup (fs_nodes s) c = Some n \<Longrightarrow> \<not> is_symlink n"
  shows "walk s (en_path en) ff sc 0 = Inr en"
  using walk_found [OF assms(1) entry_path_comps(2,1) [OF assms(2)], of "en_parent en" ff sc] assms(2,3)
    entry_path_comps(3) [OF assms(2)]
  by (auto simp: entry_at_def)

text \<open>Without following, the walk arrives at the last component.\<close>

lemma walk_segments_redirect:
  assumes "walk_segments s False sc nz before (xs @ [x]) cur = Inr (Redirect r)"
    and "list_all valid_component (xs @ [x])"
  shows "\<exists>cs. norm_comps r = cs @ [x]"
  using assms
proof (induction xs arbitrary: before cur)
  case Nil
  then show ?case by (auto split: option.splits if_splits)
next
  case (Cons y ys)
  have redirect: "\<exists>cs. norm_comps (t @ ''/'' @ join_with ''/'' (ys @ [x])) = cs @ [x]" for t
    using norm_comps_append_comps [of "ys @ [x]" t] Cons.prems(2) by auto
  obtain n where n: "fmlookup (fs_nodes s) cur = Some n" "is_directory n"
    using Cons.prems(1) by (cases "fmlookup (fs_nodes s) cur") (auto split: if_splits)
  obtain c where c: "children_get (nd_children n) y = Some c"
    using Cons.prems(1) n by (cases "children_get (nd_children n) y") auto
  obtain m where m: "fmlookup (fs_nodes s) c = Some m"
    using Cons.prems(1) n c by (cases "fmlookup (fs_nodes s) c") auto
  show ?case
  proof (cases "is_symlink m")
    case True
    then obtain t where "r = t @ ''/'' @ join_with ''/'' (ys @ [x])"
      using Cons.prems(1) n c m by (auto simp: Let_def split: if_splits)
    then show ?thesis using redirect by blast
  next
    case False
    then have "walk_segments s False sc nz (before @ [y]) (ys @ [x]) c = Inr (Redirect r)"
      using Cons.prems(1) n c m by simp
    then show ?thesis using Cons.IH Cons.prems(2) by simp
  qed
qed

lemma walk_last_name:
  "walk s path False sc d = Inr en \<Longrightarrow> norm_comps path = cs @ [x] \<Longrightarrow> en_name en = x"
proof (induction s path "False" sc d arbitrary: cs rule: walk.induct)
  case (1 s path sc d)
  have nul: "CHR 0x00 \<notin> set path" and d: "\<not> d \<ge> MAX_SYMLINK_DEPTH" and nr: "normalize_path path \<noteq> ''/''"
    using 1(2,3) by (auto simp: walk.simps [of s path] normalize_path_root_iff split: if_splits)
  have sp: "split_path (normalize_path path) = cs @ [x]" using 1(3) by (simp add: split_path_norm_comps)
  have v: "list_all valid_component (cs @ [x])" using norm_comps_valid [of path] 1(3) by simp
  show ?case
  proof (cases "walk_segments s False sc (normalize_path path) [] (split_path (normalize_path path)) (fs_root s)")
    case (Inl e)
    then show ?thesis using 1(2) nul d nr by (simp add: walk.simps [of s path])
  next
    case (Inr out)
    show ?thesis
    proof (cases out)
      case (Arrived e)
      then have "e = en" using 1(2) Inr nul d nr by (simp add: walk.simps [of s path])
      then show ?thesis using walk_segments_arrived [OF Inr [unfolded Arrived]] sp by auto
    next
      case (Redirect r)
      then obtain ds where "norm_comps r = ds @ [x]"
        using walk_segments_redirect [OF Inr [unfolded Redirect sp] v] by blast
      moreover have "walk s r False sc (d + 1) = Inr en"
        using 1(2) Inr Redirect nul d nr by (simp add: walk.simps [of s path])
      ultimately show ?thesis using 1(1) Inr Redirect nul d nr by auto
    qed
  qed
qed

section \<open>States of the same shape\<close>

lemma same_state_walk_segments:
  assumes "same_state s t"
  shows "walk_segments t ff sc nz before xs cur = walk_segments s ff sc nz before xs cur"
proof (induction xs arbitrary: before cur)
  case (Cons x xs)
  have c: "(\<exists>n m. fmlookup (fs_nodes s) i = Some n \<and> fmlookup (fs_nodes t) i = Some m \<and> same_shape n m)
      \<or> fmlookup (fs_nodes s) i = None \<and> fmlookup (fs_nodes t) i = None" for i
    using same_state_lookup [OF assms, of i] by (cases "fmlookup (fs_nodes s) i") auto
  show ?case
  proof (cases "fmlookup (fs_nodes s) cur")
    case None
    then show ?thesis using c [of cur] by simp
  next
    case (Some n)
    then obtain m where m: "fmlookup (fs_nodes t) cur = Some m" "is_directory m = is_directory n"
      "nd_children m = nd_children n"
      using c [of cur] by (auto simp: same_shape_kind) (simp add: same_shape_def)
    show ?thesis
    proof (cases "children_get (nd_children n) x")
      case (Some k)
      show ?thesis
        using \<open>fmlookup (fs_nodes s) cur = Some n\<close> Some m c [of k] Cons.IH
        by (auto simp: Let_def same_shape_kind) (auto simp: same_shape_def)
    qed (use Some m in simp)
  qed
qed simp

lemma same_state_walk:
  "same_state s t \<Longrightarrow> walk t path ff sc d = walk s path ff sc d"
proof (induction s path ff sc d rule: walk.induct)
  case (1 s path ff sc d)
  then have r: "fs_root t = fs_root s" by (simp add: same_state_def)
  show ?case
    unfolding walk.simps [of s path] walk.simps [of t path] same_state_walk_segments [OF "1.prems"] r
    using 1 by (auto simp: Let_def split: sum.split walk_outcome.split)
qed

lemma same_state_resolve: "same_state s t \<Longrightarrow> resolve t path ff sc = resolve s path ff sc"
  by (simp add: resolve_def same_state_walk)

end
