(* ===== verification/Mem_Fs_Logic.thy ===== *)
theory Mem_Fs_Logic
  imports Mem_Fs_Walk
begin

text \<open>
  How the operations of the memory file system are verified. The abstract file system is the pair of
  the directory structure \<open>kid\<close> and the contents of the inodes; \<open>becomes\<close> says which pair a call
  leaves behind. \<open>run_ok\<close> follows an operation through its checks, where nothing but times may
  change and every failure leaves the shape of the state as it was; \<open>must\<close> follows it from the first
  real change on, where it may no longer fail.
\<close>

section \<open>The abstract file system\<close>

type_synonym inode_content = "file_type \<times> bytes \<times> string option"

definition node_content :: "node \<Rightarrow> inode_content" where
  "node_content n = (node_file_type n, nd_data n, nd_target n)"

definition content :: "mem_state \<Rightarrow> nat \<Rightarrow> inode_content option" where
  "content s i = map_option node_content (fmlookup (fs_nodes s) i)"

definition becomes ::
  "mem_state \<Rightarrow> mem_state \<Rightarrow> (nat \<Rightarrow> string \<Rightarrow> nat option) \<Rightarrow> (nat \<Rightarrow> inode_content option) \<Rightarrow> bool" where
  "becomes s t K C \<longleftrightarrow> memfs_wf t \<and> kid t = K \<and> content t = C \<and> fs_root t = fs_root s
     \<and> fs_uid t = fs_uid s \<and> fs_gid t = fs_gid s \<and> fs_umask t = fs_umask s \<and> fs_next_ino s \<le> fs_next_ino t"

text \<open>Inodes never go away and never change their type, so an open handle stays valid.\<close>

definition evolves :: "mem_state \<Rightarrow> mem_state \<Rightarrow> bool" where
  "evolves s t \<longleftrightarrow> (\<forall>i ft d tg. content s i = Some (ft, d, tg) \<longrightarrow> (\<exists>d' tg'. content t i = Some (ft, d', tg')))"

lemma evolves_refl [simp]: "evolves s s"
  by (simp add: evolves_def)

lemma evolves_trans: "evolves s t \<Longrightarrow> evolves t u \<Longrightarrow> evolves s u"
  unfolding evolves_def by metis

lemma content_Some: "content s i = Some c \<longleftrightarrow> (\<exists>n. fmlookup (fs_nodes s) i = Some n \<and> c = node_content n)"
  by (auto simp: content_def)

lemma content_None: "content s i = None \<longleftrightarrow> fmlookup (fs_nodes s) i = None"
  by (auto simp: content_def)

lemma fs_dir_content: "fs_dir s i \<longleftrightarrow> (\<exists>d tg. content s i = Some (Directory, d, tg))"
  by (auto simp: fs_dir_iff content_def node_content_def is_directory_def)

lemma same_state_content: "same_state s t \<Longrightarrow> content t = content s"
proof
  fix i assume st: "same_state s t"
  show "content t i = content s i"
  proof (cases "fmlookup (fs_nodes s) i")
    case None
    then show ?thesis using same_state_lookup(1) [OF st, of i] by (simp add: content_def)
  next
    case (Some n)
    then obtain m where m: "fmlookup (fs_nodes t) i = Some m" "same_shape n m"
      using same_state_lookup(2) [OF st] by blast
    have "node_content m = node_content n"
      using same_shape_type [OF m(2)] m(2) by (simp add: node_content_def same_shape_def)
    then show ?thesis using Some m(1) by (simp add: content_def)
  qed
qed

lemma becomes_same:
  assumes "memfs_wf s" "same_state s t"
  shows "becomes s t (kid s) (content s)"
  using same_state_wf [OF assms(2,1)] same_state_view [OF assms(2)] same_state_content [OF assms(2)] assms(2)
  by (simp add: becomes_def same_state_def)

lemma becomes_step: "becomes s t K C \<Longrightarrow> same_state t u \<Longrightarrow> becomes s u K C"
  using same_state_wf [of t u] same_state_view [of t u] same_state_content [of t u]
  by (simp add: becomes_def same_state_def)

lemma becomes_before: "same_state s s' \<Longrightarrow> becomes s' t K C \<Longrightarrow> becomes s t K C"
  by (simp add: becomes_def same_state_def)

lemma becomes_trans: "becomes s t K C \<Longrightarrow> becomes t u K' C' \<Longrightarrow> becomes s u K' C'"
  by (simp add: becomes_def)

lemma becomes_wf: "becomes s t K C \<Longrightarrow> memfs_wf t"
  by (simp add: becomes_def)

section \<open>Views of an update\<close>

lemma lookup_upd_node [simp]:
  "fmlookup (fs_nodes (upd_node i f s)) j
    = (if j = i then map_option f (fmlookup (fs_nodes s) i) else fmlookup (fs_nodes s) j)"
  by (auto simp: upd_node_def split: option.splits)

lemma upd_node_fields [simp]:
  "fs_root (upd_node i f s) = fs_root s" "fs_next_ino (upd_node i f s) = fs_next_ino s"
  "fs_node_count (upd_node i f s) = fs_node_count s" "fs_used_blocks (upd_node i f s) = fs_used_blocks s"
  "fs_uid (upd_node i f s) = fs_uid s" "fs_gid (upd_node i f s) = fs_gid s"
  "fs_umask (upd_node i f s) = fs_umask s" "fs_ticks (upd_node i f s) = fs_ticks s"
  by (simp_all add: upd_node_def split: option.split)

text \<open>The views read only the nodes.\<close>

lemma view_nodes:
  assumes "fs_nodes t = fs_nodes s"
  shows "kid t = kid s" "nlinks t = nlinks s" "fs_dir t = fs_dir s" "subdirs t = subdirs s"
    "blocks_of t = blocks_of s" "content t = content s" "in_use t = in_use s"
  using assms by (auto simp: fun_eq_iff kid_def nlinks_def fs_dir_def subdirs_def blocks_of_def content_def in_use_def)

lemma view_upd:
  assumes "fmlookup (fs_nodes s) i = Some n"
  shows "kid (upd_node i f s) = (kid s)(i := children_get (nd_children (f n)))"
    "nlinks (upd_node i f s) = (nlinks s)(i \<mapsto> nd_nlink (f n))"
    "fs_dir (upd_node i f s) = (fs_dir s)(i := is_directory (f n))"
    "subdirs (upd_node i f s) = (subdirs s)(i := nd_subdirs (f n))"
    "blocks_of (upd_node i f s) = (blocks_of s)(i := node_blocks (f n))"
    "content (upd_node i f s) = (content s)(i \<mapsto> node_content (f n))"
  using assms
  by (auto simp: fun_eq_iff kid_def nlinks_def fs_dir_def subdirs_def blocks_of_def content_def)

lemma view_id:
  assumes "fmlookup (fs_nodes s) i = Some n"
  shows "(kid s)(i := children_get (nd_children n)) = kid s" "(nlinks s)(i \<mapsto> nd_nlink n) = nlinks s"
    "(fs_dir s)(i := is_directory n) = fs_dir s" "(subdirs s)(i := nd_subdirs n) = subdirs s"
    "(blocks_of s)(i := node_blocks n) = blocks_of s" "(content s)(i \<mapsto> node_content n) = content s"
  using assms
  by (auto simp: fun_eq_iff kid_def nlinks_def fs_dir_def subdirs_def blocks_of_def content_def)

lemma nodes_ok_upd:
  assumes "nodes_ok s" "\<And>n. fmlookup (fs_nodes s) i = Some n \<Longrightarrow> node_ok (f n) \<and> nd_ino (f n) = nd_ino n"
  shows "nodes_ok (upd_node i f s)"
  using assms by (auto simp: nodes_ok_def)

lemma wf_node_ok: "memfs_wf s \<Longrightarrow> fmlookup (fs_nodes s) i = Some n \<Longrightarrow> node_ok n \<and> nd_ino n = i \<and> 0 < i \<and> i < fs_next_ino s"
  by (auto simp: memfs_wf_def nodes_ok_def)

section \<open>Up to the first change\<close>

definition run_ok :: "mem_state \<Rightarrow> 'a fs_op \<Rightarrow> ('a \<Rightarrow> mem_state \<Rightarrow> bool) \<Rightarrow> bool" where
  "run_ok s0 m Q \<longleftrightarrow>
     (\<forall>s. same_state s0 s \<longrightarrow> (case m s of (Inl e, t) \<Rightarrow> same_state s0 t | (Inr x, t) \<Rightarrow> Q x t))"

definition must :: "mem_state \<Rightarrow> 'a fs_op \<Rightarrow> ('a \<Rightarrow> mem_state \<Rightarrow> bool) \<Rightarrow> bool" where
  "must s m Q \<longleftrightarrow> (\<exists>x t. m s = (Inr x, t) \<and> Q x t)"

lemma run_ok_fail: "run_ok s0 (sfail e) Q"
  by (simp add: run_ok_def)

lemma run_ok_ret: "(\<And>s. same_state s0 s \<Longrightarrow> Q x s) \<Longrightarrow> run_ok s0 (sret x) Q"
  by (simp add: run_ok_def)

lemma run_ok_read: "(\<And>x s. same_state s0 s \<Longrightarrow> f s = Inr x \<Longrightarrow> Q x s) \<Longrightarrow> run_ok s0 (sread f) Q"
  by (auto simp: run_ok_def split: sum.split)

lemma run_ok_bind_read:
  "(\<And>x s. same_state s0 s \<Longrightarrow> f s = Inr x \<Longrightarrow> run_ok s0 (g x) Q) \<Longrightarrow> run_ok s0 (sbind (sread f) g) Q"
  by (auto simp: run_ok_def sbind_def split: sum.split)

lemma run_ok_walk:
  "(\<And>en. walk s0 path ff sc 0 = Inr en \<Longrightarrow> run_ok s0 (g en) Q) \<Longrightarrow> run_ok s0 (sbind (fs_walk path ff sc) g) Q"
  unfolding fs_walk_def by (rule run_ok_bind_read) (simp add: same_state_walk)

lemma run_ok_resolve:
  "(\<And>i. resolve s0 path ff sc = Inr i \<Longrightarrow> run_ok s0 (g i) Q) \<Longrightarrow> run_ok s0 (sbind (fs_resolve path ff sc) g) Q"
  unfolding fs_resolve_def by (rule run_ok_bind_read) (simp add: same_state_resolve)

lemma run_ok_get_node:
  assumes "\<And>n0 n. fmlookup (fs_nodes s0) i = Some n0 \<Longrightarrow> same_shape n0 n \<Longrightarrow> run_ok s0 (g n) Q"
  shows "run_ok s0 (sbind (get_node i e) g) Q"
  unfolding get_node_def
proof (rule run_ok_bind_read)
  fix n s assume "same_state s0 s" "ok_or (fmlookup (fs_nodes s) i) e = Inr n"
  then show "run_ok s0 (g n) Q" using same_state_lookup(3) [of s0 s i n] assms by auto
qed

lemma run_ok_attr:
  assumes "keeps (same_state s0) m" "\<And>x s. same_state s0 s \<Longrightarrow> Q x s"
  shows "run_ok s0 m Q"
  using assms unfolding run_ok_def by (auto split: prod.split sum.split dest: keepsD)

lemma run_ok_bind_attr:
  assumes "keeps (same_state s0) m" "\<And>x. run_ok s0 (g x) Q"
  shows "run_ok s0 (sbind m g) Q"
  using assms unfolding run_ok_def sbind_def by (fastforce split: prod.splits sum.splits dest: keepsD)

lemma run_ok_bind:
  assumes "run_ok s0 m R" "\<And>x s. R x s \<Longrightarrow> must s (g x) Q"
  shows "run_ok s0 (sbind m g) Q"
  using assms unfolding run_ok_def must_def sbind_def by (fastforce split: prod.splits sum.splits)

lemma run_ok_if: "(b \<Longrightarrow> run_ok s0 m Q) \<Longrightarrow> (\<not> b \<Longrightarrow> run_ok s0 n Q) \<Longrightarrow> run_ok s0 (if b then m else n) Q"
  by simp

lemma run_ok_option:
  "(v = None \<Longrightarrow> run_ok s0 m Q) \<Longrightarrow> (\<And>x. v = Some x \<Longrightarrow> run_ok s0 (f x) Q) \<Longrightarrow>
   run_ok s0 (case v of None \<Rightarrow> m | Some x \<Rightarrow> f x) Q"
  by (cases v) auto

lemma run_ok_must: "(\<And>s. same_state s0 s \<Longrightarrow> must s m Q) \<Longrightarrow> run_ok s0 m Q"
  by (fastforce simp: run_ok_def must_def)

lemma run_ok_mono: "run_ok s0 m R \<Longrightarrow> (\<And>x s. R x s \<Longrightarrow> Q x s) \<Longrightarrow> run_ok s0 m Q"
  unfolding run_ok_def by (fastforce split: prod.splits sum.splits)

lemma run_ok_let: "run_ok s0 (f v) Q \<Longrightarrow> run_ok s0 (let x = v in f x) Q"
  by simp

lemmas run_rules = run_ok_fail run_ok_walk run_ok_resolve run_ok_get_node run_ok_if run_ok_option run_ok_let

lemma run_okD:
  assumes "run_ok s m Q" "m s = (r, t)"
  shows "case r of Inl e \<Rightarrow> same_state s t | Inr x \<Rightarrow> Q x t"
  using assms unfolding run_ok_def by (auto dest!: spec [of _ s] split: sum.split)

section \<open>After the first change\<close>

lemma must_ret: "Q x s \<Longrightarrow> must s (sret x) Q"
  by (simp add: must_def)

lemma must_bind: "must s m (\<lambda>x t. must t (f x) Q) \<Longrightarrow> must s (sbind m f) Q"
  by (auto simp: must_def sbind_def)

lemma must_read: "f s = Inr x \<Longrightarrow> Q x s \<Longrightarrow> must s (sread f) Q"
  by (simp add: must_def)

lemma must_get: "fmlookup (fs_nodes s) i = Some n \<Longrightarrow> Q n s \<Longrightarrow> must s (get_node i e) Q"
  by (simp add: must_def get_node_def)

lemma must_modify: "Q () (f s) \<Longrightarrow> must s (smodify f) Q"
  by (simp add: must_def)

lemma must_attr:
  assumes "\<And>n. same_shape n (f n)" "\<And>t. same_state s t \<Longrightarrow> Q () t"
  shows "must s (smodify (upd_node i f)) Q"
  by (rule must_modify, rule assms(2), rule same_state_upd, rule assms(1))

lemma must_now: "(\<And>v t. same_state s t \<Longrightarrow> fs_nodes t = fs_nodes s \<Longrightarrow> Q v t) \<Longrightarrow> must s (fs_now env) Q"
  by (simp add: must_def fs_now_def)

lemma must_touch_mc: "(\<And>t. same_state s t \<Longrightarrow> Q () t) \<Longrightarrow> must s (touch_mc env i) Q"
  unfolding touch_mc_def
  by (intro must_bind must_now must_attr) (auto simp: same_shape_def intro: same_state_trans)

lemma must_apply_touch:
  assumes "content s i \<noteq> None" "\<And>t. same_state s t \<Longrightarrow> Q () t"
  shows "must s (apply_touch i touch) Q"
  using assms unfolding apply_touch_def
  by (auto simp: content_None same_shape_def intro!: must_bind must_get must_attr)

lemma must_apply_ctime:
  assumes "content s i \<noteq> None" "\<And>t. same_state s t \<Longrightarrow> Q () t"
  shows "must s (apply_ctime i c) Q"
  using assms unfolding apply_ctime_def
  by (auto simp: content_None same_shape_def intro!: must_bind must_get must_attr)

lemma must_mono: "must s m R \<Longrightarrow> (\<And>x t. R x t \<Longrightarrow> Q x t) \<Longrightarrow> must s m Q"
  by (auto simp: must_def)

section \<open>Operations that change only times and owners\<close>

lemma keeps_same_now [keeps_intro]: "keeps (same_state s0) (fs_now env)"
  by (simp add: keeps_def fs_now_def)

lemma keeps_same_upd: "(\<And>n. same_shape n (f n)) \<Longrightarrow> keeps (same_state s0) (smodify (upd_node i f))"
  unfolding keeps_def by (simp add: same_state_trans [OF _ same_state_upd])

lemma keeps_same_get [keeps_intro]: "keeps (same_state s0) (get_node i e)"
  by (simp add: get_node_def keeps_pure)

lemma keeps_same_time [keeps_intro]: "keeps (same_state s0) (next_guarded_time env p sc path)"
  unfolding next_guarded_time_def by (intro keeps_intro)

lemma keeps_same_planned [keeps_intro]: "keeps (same_state s0) (planned_touch env i sc path)"
  unfolding planned_touch_def by (intro keeps_intro)

lemma keeps_same_plan_some [keeps_intro]: "keeps (same_state s0) m \<Longrightarrow> keeps (same_state s0) (plan_some m)"
  unfolding plan_some_def by (intro keeps_intro)

end
