(* ===== verification/Mem_Fs_Prim.thy ===== *)
theory Mem_Fs_Prim
  imports Mem_Fs_Logic
begin

text \<open>
  The changes the memory file system is made of, each with what it does to the abstract file system:
  a new node under a free name, another name for a node, the removal of a name, the move of a name,
  and new contents of a file.
\<close>

section \<open>Entries of a directory\<close>

definition ent_add :: "nat \<Rightarrow> string \<Rightarrow> nat \<Rightarrow> bool \<Rightarrow> int \<Rightarrow> mem_state \<Rightarrow> mem_state" where
  "ent_add p x i d t = upd_node p (\<lambda>n.
     n\<lparr>nd_children := children_insert x i (nd_children n),
       nd_subdirs := (if d then nd_subdirs n + 1 else nd_subdirs n), nd_mtime_ms := t, nd_ctime_ms := t\<rparr>)"

definition ent_del :: "nat \<Rightarrow> string \<Rightarrow> bool \<Rightarrow> int \<Rightarrow> mem_state \<Rightarrow> mem_state" where
  "ent_del p x d t = upd_node p (\<lambda>n.
     n\<lparr>nd_children := children_remove x (nd_children n),
       nd_subdirs := (if d then nd_subdirs n - 1 else nd_subdirs n), nd_mtime_ms := t, nd_ctime_ms := t\<rparr>)"

lemma ent_fields [simp]:
  "fs_root (ent_add p x i d t s) = fs_root s" "fs_next_ino (ent_add p x i d t s) = fs_next_ino s"
  "fs_node_count (ent_add p x i d t s) = fs_node_count s" "fs_used_blocks (ent_add p x i d t s) = fs_used_blocks s"
  "fs_uid (ent_add p x i d t s) = fs_uid s" "fs_gid (ent_add p x i d t s) = fs_gid s"
  "fs_umask (ent_add p x i d t s) = fs_umask s"
  "fs_root (ent_del p x d t s) = fs_root s" "fs_next_ino (ent_del p x d t s) = fs_next_ino s"
  "fs_node_count (ent_del p x d t s) = fs_node_count s" "fs_used_blocks (ent_del p x d t s) = fs_used_blocks s"
  "fs_uid (ent_del p x d t s) = fs_uid s" "fs_gid (ent_del p x d t s) = fs_gid s"
  "fs_umask (ent_del p x d t s) = fs_umask s"
  by (simp_all add: ent_add_def ent_del_def)

lemma node_simps [simp]:
  "node_file_type (n\<lparr>nd_children := c, nd_subdirs := k, nd_mtime_ms := t, nd_ctime_ms := t'\<rparr>) = node_file_type n"
  "is_directory (n\<lparr>nd_children := c, nd_subdirs := k, nd_mtime_ms := t, nd_ctime_ms := t'\<rparr>) = is_directory n"
  "node_blocks (n\<lparr>nd_children := c, nd_subdirs := k, nd_mtime_ms := t, nd_ctime_ms := t'\<rparr>) = node_blocks n"
  "node_content (n\<lparr>nd_children := c, nd_subdirs := k, nd_mtime_ms := t, nd_ctime_ms := t'\<rparr>) = node_content n"
  "node_file_type (n\<lparr>nd_nlink := k, nd_ctime_ms := t'\<rparr>) = node_file_type n"
  "is_directory (n\<lparr>nd_nlink := k, nd_ctime_ms := t'\<rparr>) = is_directory n"
  "node_blocks (n\<lparr>nd_nlink := k, nd_ctime_ms := t'\<rparr>) = node_blocks n"
  "node_content (n\<lparr>nd_nlink := k, nd_ctime_ms := t'\<rparr>) = node_content n"
  "node_ok (n\<lparr>nd_nlink := k, nd_ctime_ms := t'\<rparr>) = node_ok n"
  by (simp_all add: node_file_type_def is_directory_def is_symlink_def node_blocks_def node_size_def
      node_content_def node_ok_def split: option.split)

lemma node_ok_dir:
  "is_directory n \<Longrightarrow> node_ok n \<Longrightarrow> children_wf c \<Longrightarrow>
   node_ok (n\<lparr>nd_children := c, nd_subdirs := k, nd_mtime_ms := t, nd_ctime_ms := t'\<rparr>)"
  by (auto simp: node_ok_def is_symlink_def is_directory_def)

lemma node_ok_children: "node_ok n \<Longrightarrow> children_wf (nd_children n)"
  by (simp add: node_ok_def)

lemma view_add:
  assumes "fs_dir s p"
  shows "kid (ent_add p x i d t s) = ent_upd (kid s) p x (Some i)"
    "nlinks (ent_add p x i d t s) = nlinks s" "fs_dir (ent_add p x i d t s) = fs_dir s"
    "blocks_of (ent_add p x i d t s) = blocks_of s" "content (ent_add p x i d t s) = content s"
    "subdirs (ent_add p x i d t s) = (subdirs s)(p := if d then Suc (subdirs s p) else subdirs s p)"
proof -
  obtain n where n: "fmlookup (fs_nodes s) p = Some n" using assms by (auto simp: fs_dir_iff)
  show "kid (ent_add p x i d t s) = ent_upd (kid s) p x (Some i)"
    by (simp add: ent_add_def view_upd [OF n] kids.get_insert ent_upd_def kid_def n fun_eq_iff)
  show "nlinks (ent_add p x i d t s) = nlinks s" "fs_dir (ent_add p x i d t s) = fs_dir s"
    "blocks_of (ent_add p x i d t s) = blocks_of s" "content (ent_add p x i d t s) = content s"
    by (simp_all add: ent_add_def view_upd [OF n] view_id [OF n])
  show "subdirs (ent_add p x i d t s) = (subdirs s)(p := if d then Suc (subdirs s p) else subdirs s p)"
    by (auto simp: ent_add_def view_upd [OF n] subdirs_def n fun_eq_iff)
qed

lemma view_del:
  assumes "fs_dir s p"
  shows "kid (ent_del p x d t s) = ent_upd (kid s) p x None"
    "nlinks (ent_del p x d t s) = nlinks s" "fs_dir (ent_del p x d t s) = fs_dir s"
    "blocks_of (ent_del p x d t s) = blocks_of s" "content (ent_del p x d t s) = content s"
    "subdirs (ent_del p x d t s) = (subdirs s)(p := if d then subdirs s p - 1 else subdirs s p)"
proof -
  obtain n where n: "fmlookup (fs_nodes s) p = Some n" using assms by (auto simp: fs_dir_iff)
  show "kid (ent_del p x d t s) = ent_upd (kid s) p x None"
    by (simp add: ent_del_def view_upd [OF n] kids.get_remove ent_upd_def kid_def n fun_eq_iff)
  show "nlinks (ent_del p x d t s) = nlinks s" "fs_dir (ent_del p x d t s) = fs_dir s"
    "blocks_of (ent_del p x d t s) = blocks_of s" "content (ent_del p x d t s) = content s"
    by (simp_all add: ent_del_def view_upd [OF n] view_id [OF n])
  show "subdirs (ent_del p x d t s) = (subdirs s)(p := if d then subdirs s p - 1 else subdirs s p)"
    by (auto simp: ent_del_def view_upd [OF n] subdirs_def n fun_eq_iff)
qed

lemma nodes_ok_ent:
  assumes "nodes_ok s" "fs_dir s p"
  shows "nodes_ok (ent_add p x i d t s)" "nodes_ok (ent_del p x d t s)"
proof -
  have n: "is_directory n \<and> node_ok n" if "fmlookup (fs_nodes s) p = Some n" for n
    using assms that by (auto simp: nodes_ok_def fs_dir_iff)
  show "nodes_ok (ent_add p x i d t s)" "nodes_ok (ent_del p x d t s)"
    unfolding ent_add_def ent_del_def
    by (auto intro!: nodes_ok_upd [OF assms(1)] node_ok_dir kids.wf_insert kids.wf_remove
        dest!: n intro: node_ok_children)
qed

lemma nodes_ok_same: "nodes_ok s \<Longrightarrow> fs_nodes u = fs_nodes s \<Longrightarrow> fs_next_ino u = fs_next_ino s \<Longrightarrow> nodes_ok u"
  by (simp add: nodes_ok_def)

lemma accounted_view:
  "accounted s \<Longrightarrow> nlinks t = nlinks s \<Longrightarrow> blocks_of t = blocks_of s \<Longrightarrow> fs_node_count t = fs_node_count s \<Longrightarrow>
   fs_used_blocks t = fs_used_blocks s \<Longrightarrow> accounted t"
  by (simp add: accounted_def in_use_def)

lemma becomesI:
  assumes "nodes_ok u" "tree_inv name_ok K (nlinks u) (fs_dir u) (subdirs u) (fs_root s)" "accounted u"
    and "kid u = K" "content u = C" "fs_root u = fs_root s" "fs_uid u = fs_uid s" "fs_gid u = fs_gid s"
    and "fs_umask u = fs_umask s" "fs_next_ino s \<le> fs_next_ino u"
  shows "becomes s u K C"
  using assms by (simp add: becomes_def memfs_wf_def fs_tree_def)

lemma must_link_entry:
  assumes "fmlookup (fs_nodes s) i = Some c" "fs_dir s (en_parent en)"
    and "\<And>t u. same_state s u \<Longrightarrow> fs_nodes u = fs_nodes s \<Longrightarrow>
      Q () (ent_add (en_parent en) (en_name en) i (is_directory c) t u)"
  shows "must s (link_entry env en i) Q"
proof -
  obtain n where n: "fmlookup (fs_nodes s) (en_parent en) = Some n" "is_directory n"
    using assms(2) by (auto simp: fs_dir_iff)
  show ?thesis
    unfolding link_entry_def
    by (rule must_bind, rule must_get [OF assms(1)], rule must_bind, rule must_get [OF n(1)])
      (use n(2) assms(3) in \<open>auto simp: ent_add_def intro!: must_bind must_now must_modify\<close>)
qed

section \<open>A new node\<close>

definition new_node :: "u32 \<Rightarrow> string option \<Rightarrow> node \<Rightarrow> bool" where
  "new_node mode target n \<longleftrightarrow> nd_mode n = mode \<and> nd_nlink n = 1 \<and> nd_data n = [] \<and> nd_target n = target
     \<and> nd_children n = children_new \<and> nd_subdirs n = 0"

text \<open>The modes the code creates nodes with: one of the file types, a target exactly for links.\<close>

definition creatable :: "u32 \<Rightarrow> string option \<Rightarrow> bool" where
  "creatable mode target \<longleftrightarrow> mode AND S_IFMT = mode_bits (file_type_from_mode mode)
     \<and> (file_type_from_mode mode = Symlink \<longleftrightarrow> target \<noteq> None)"

definition with_new :: "node \<Rightarrow> mem_state \<Rightarrow> mem_state" where
  "with_new n s = s\<lparr>fs_next_ino := nd_ino n + 1, fs_used_blocks := fs_used_blocks s + node_blocks n,
     fs_node_count := fs_node_count s + 1, fs_nodes := fmupd (nd_ino n) n (fs_nodes s)\<rparr>"

lemma run_ok_create:
  assumes "\<And>s n. same_state s0 s \<Longrightarrow> new_node mode target n \<Longrightarrow> nd_ino n = fs_next_ino s \<Longrightarrow>
      nd_ino n < U64_MAX \<Longrightarrow> must (with_new n s) (g (nd_ino n)) Q"
  shows "run_ok s0 (sbind (create_node env mode rdev target) g) Q"
  unfolding run_ok_def
proof (intro allI impI)
  fix s assume st: "same_state s0 s"
  show "case sbind (create_node env mode rdev target) g s of (Inl e, t) \<Rightarrow> same_state s0 t | (Inr x, t) \<Rightarrow> Q x t"
  proof (cases "fs_next_ino s + 1 \<le> U64_MAX")
    case False
    then show ?thesis using st by (simp add: create_node_def sbind_def fs_now_def checked_add_def)
  next
    case True
    let ?n = "\<lparr>nd_ino = fs_next_ino s, nd_mode = mode, nd_nlink = 1, nd_uid = fs_uid s, nd_gid = fs_gid s,
        nd_rdev = rdev, nd_atime_ms = env_clock env (fs_ticks s), nd_mtime_ms = env_clock env (fs_ticks s),
        nd_ctime_ms = env_clock env (fs_ticks s), nd_birthtime_ms = env_clock env (fs_ticks s), nd_data = [],
        nd_target = target, nd_children = children_new, nd_subdirs = 0\<rparr>"
    let ?s = "s\<lparr>fs_ticks := fs_ticks s + 1\<rparr>"
    have "sbind (create_node env mode rdev target) g s = g (nd_ino ?n) (with_new ?n ?s)"
      using True by (simp add: create_node_def sbind_def fs_now_def checked_add_def with_new_def Let_def)
    moreover have "must (with_new ?n ?s) (g (nd_ino ?n)) Q"
      by (rule assms) (use st True in \<open>simp_all add: new_node_def\<close>)
    ultimately show ?thesis by (auto simp: must_def)
  qed
qed

lemma view_new:
  assumes "nodes_ok s" "nd_ino n = fs_next_ino s" "new_node mode target n"
  shows "kid (with_new n s) = kid s" "nlinks (with_new n s) = (nlinks s)(nd_ino n \<mapsto> 1)"
    "fs_dir (with_new n s) = (fs_dir s)(nd_ino n := is_directory n)"
    "subdirs (with_new n s) = subdirs s" "blocks_of (with_new n s) = (blocks_of s)(nd_ino n := node_blocks n)"
    "content (with_new n s) = (content s)(nd_ino n \<mapsto> node_content n)" "nlinks s (nd_ino n) = None"
proof -
  have none: "fmlookup (fs_nodes s) (nd_ino n) = None"
    using assms(1,2) by (cases "fmlookup (fs_nodes s) (nd_ino n)") (auto simp: nodes_ok_def)
  show "kid (with_new n s) = kid s" "subdirs (with_new n s) = subdirs s"
    using none assms(3) by (auto simp: fun_eq_iff with_new_def kid_def subdirs_def new_node_def kids.get_empty)
  show "nlinks (with_new n s) = (nlinks s)(nd_ino n \<mapsto> 1)" "fs_dir (with_new n s) = (fs_dir s)(nd_ino n := is_directory n)"
    "blocks_of (with_new n s) = (blocks_of s)(nd_ino n := node_blocks n)"
    "content (with_new n s) = (content s)(nd_ino n \<mapsto> node_content n)" "nlinks s (nd_ino n) = None"
    using none assms(3)
    by (auto simp: fun_eq_iff with_new_def nlinks_def fs_dir_def blocks_of_def content_def new_node_def)
qed

lemma new_node_ok:
  assumes "new_node mode target n" "creatable mode target"
  shows "node_ok n" "node_content n = (file_type_from_mode mode, [], target)"
  using assms kids.wf_empty
  by (auto simp: new_node_def creatable_def node_ok_def node_content_def node_file_type_def is_symlink_def)

lemma accounted_new:
  assumes "accounted s" "nlinks s i = None" "nlinks t = (nlinks s)(i \<mapsto> 1)"
    and "blocks_of t = (blocks_of s)(i := b)" "fs_node_count t = fs_node_count s + 1"
    and "fs_used_blocks t = fs_used_blocks s + b"
  shows "accounted t"
proof -
  have i: "i \<notin> in_use s" and u: "in_use t = insert i (in_use s)" using assms(2,3) by (auto simp: in_use_def)
  have "sum (blocks_of t) (in_use s) = sum (blocks_of s) (in_use s)"
    by (rule sum.cong) (use i assms(4) in auto)
  then show ?thesis using assms i u by (simp add: accounted_def)
qed

lemma must_link_new:
  assumes wf: "memfs_wf s" and n: "new_node mode target n" "nd_ino n = fs_next_ino s" "nd_ino n < U64_MAX"
    and c: "creatable mode target" and p: "live_dir s (en_parent en)"
    and free: "kid s (en_parent en) (en_name en) = None" "name_ok (en_name en)"
    and post: "\<And>t. becomes s t (ent_upd (kid s) (en_parent en) (en_name en) (Some (nd_ino n)))
        ((content s)(nd_ino n \<mapsto> (file_type_from_mode mode, [], target))) \<Longrightarrow> Q () t"
  shows "must (with_new n s) (link_entry env en (nd_ino n)) Q"
proof (rule must_link_entry)
  have ok: "nodes_ok s" "accounted s" using wf by (simp_all add: memfs_wf_def)
  note view = view_new [OF ok(1) n(2,1)]
  have fresh: "subdirs s (nd_ino n) = 0" using view(7) by (simp add: nlinks_None subdirs_def)
  have pi: "en_parent en \<noteq> nd_ino n" using p view(7) by (auto simp: live_dir_def)
  then show dir: "fs_dir (with_new n s) (en_parent en)" using p by (simp add: view live_dir_def)
  show "fmlookup (fs_nodes (with_new n s)) (nd_ino n) = Some n" by (simp add: with_new_def)
  have "0 < fs_next_ino s"
    using root_live [OF wf] wf_node_ok [OF wf] by (fastforce simp: live_dir_def fs_dir_iff)
  then have nok: "nodes_ok (with_new n s)"
    using ok(1) n new_node_ok(1) [OF n(1) c] by (auto simp: nodes_ok_def with_new_def less_Suc_eq)
  fix t u assume u: "same_state (with_new n s) u" "fs_nodes u = fs_nodes (with_new n s)"
  have eq: "fs_next_ino u = nd_ino n + 1" "fs_root u = fs_root s" "fs_node_count u = fs_node_count s + 1"
    "fs_used_blocks u = fs_used_blocks s + node_blocks n" "fs_uid u = fs_uid s" "fs_gid u = fs_gid s"
    "fs_umask u = fs_umask s"
    using u(1) by (simp_all add: same_state_def with_new_def)
  have nu: "nodes_ok u" by (rule nodes_ok_same [OF nok u(2)]) (simp add: eq with_new_def)
  have du: "fs_dir u (en_parent en)" using dir view_nodes(3) [OF u(2)] by simp
  let ?t = "ent_add (en_parent en) (en_name en) (nd_ino n) (is_directory n) t u"
  note v = view_add [OF du] view_nodes [OF u(2)] view
  show "Q () ?t"
  proof (rule post, rule becomesI)
    show "nodes_ok ?t" by (rule nodes_ok_ent(1) [OF nu du])
    show "tree_inv name_ok (ent_upd (kid s) (en_parent en) (en_name en) (Some (nd_ino n)))
        (nlinks ?t) (fs_dir ?t) (subdirs ?t) (fs_root s)"
      by (rule tree_create [OF memfs_tree [OF wf], of "en_parent en" _ "nd_ino n" _ "is_directory n"])
        (use p free pi view(7) fresh in \<open>auto simp: v live_dir_def\<close>)
    show "accounted ?t"
      by (rule accounted_new [OF ok(2) view(7)]) (simp_all add: v eq)
    show "content ?t = (content s)(nd_ino n \<mapsto> (file_type_from_mode mode, [], target))"
      by (simp add: v new_node_ok(2) [OF n(1) c])
  qed (use n(2) in \<open>simp_all add: v eq\<close>)
qed

text \<open>Creation followed by linking, as the calls use it, with the rest of the call.\<close>

lemma run_ok_create_link:
  assumes wf: "memfs_wf s0" and en: "entry_ok s0 en" "en_node en = None" and c: "creatable mode target"
    and rest: "\<And>t. becomes s0 t (ent_upd (kid s0) (en_parent en) (en_name en) (Some (fs_next_ino s0)))
        ((content s0)(fs_next_ino s0 \<mapsto> (file_type_from_mode mode, [], target))) \<Longrightarrow> must t (f (fs_next_ino s0)) Q"
  shows "run_ok s0 (sbind (create_node env mode rdev target) (\<lambda>i. sbind (link_entry env en i) (\<lambda>_. f i))) Q"
proof (rule run_ok_create, rule must_bind)
  fix s n assume s: "same_state s0 s" and n: "new_node mode target n" "nd_ino n = fs_next_ino s" "nd_ino n < U64_MAX"
  note v = same_state_view [OF s] same_state_content [OF s]
  have nx: "fs_next_ino s = fs_next_ino s0" using s by (simp add: same_state_def)
  have "live_dir s (en_parent en)" using entry_parent_live [OF wf en(1)] by (simp add: live_dir_def v)
  then show "must (with_new n s) (link_entry env en (nd_ino n)) (\<lambda>_ t. must t (f (nd_ino n)) Q)"
    using entry_free [OF en] rest becomes_before [OF s] n(2)
    by (intro must_link_new [OF same_state_wf [OF s wf] n c]) (simp_all add: v nx)
qed

lemma sbind_ret [simp]: "sbind m sret = m"
  by (auto simp: sbind_def fun_eq_iff split: prod.split sum.split)

lemma run_ok_create_link_end:
  assumes "memfs_wf s0" "entry_ok s0 en" "en_node en = None" "creatable mode target"
    and "\<And>t. becomes s0 t (ent_upd (kid s0) (en_parent en) (en_name en) (Some (fs_next_ino s0)))
        ((content s0)(fs_next_ino s0 \<mapsto> (file_type_from_mode mode, [], target))) \<Longrightarrow> Q () t"
  shows "run_ok s0 (sbind (create_node env mode rdev target) (\<lambda>i. link_entry env en i)) Q"
  using run_ok_create_link [OF assms(1-4), of "\<lambda>_. sret ()" Q env rdev] assms(5)
  by (simp add: must_ret)

section \<open>Another name\<close>

lemma must_link_again:
  assumes wf: "memfs_wf s" and i: "fmlookup (fs_nodes s) i = Some n" "\<not> is_directory n" "0 < nd_nlink n"
    and p: "live_dir s (en_parent en)" and free: "kid s (en_parent en) (en_name en) = None" "name_ok (en_name en)"
    and post: "\<And>t. becomes s t (ent_upd (kid s) (en_parent en) (en_name en) (Some i)) (content s) \<Longrightarrow> Q () t"
  shows "must (upd_node i (\<lambda>n. n\<lparr>nd_nlink := nd_nlink n + 1, nd_ctime_ms := c\<rparr>) s) (link_entry env en i) Q"
    (is "must ?s _ _")
proof (rule must_link_entry)
  have ok: "nodes_ok s" "accounted s" using wf by (simp_all add: memfs_wf_def)
  have "fs_dir s (en_parent en)" using p by (simp add: live_dir_def)
  then have pi: "en_parent en \<noteq> i" using i by (auto simp: fs_dir_iff)
  note view = view_upd [OF i(1)]
  show dir: "fs_dir ?s (en_parent en)" using p pi by (simp add: view live_dir_def)
  show "fmlookup (fs_nodes ?s) i = Some (n\<lparr>nd_nlink := nd_nlink n + 1, nd_ctime_ms := c\<rparr>)" using i by simp
  have nok: "nodes_ok ?s" by (rule nodes_ok_upd [OF ok(1)]) (use wf_node_ok [OF wf] in auto)
  fix t u assume u: "same_state ?s u" "fs_nodes u = fs_nodes ?s"
  have eq: "fs_next_ino u = fs_next_ino s" "fs_root u = fs_root s" "fs_node_count u = fs_node_count s"
    "fs_used_blocks u = fs_used_blocks s" "fs_uid u = fs_uid s" "fs_gid u = fs_gid s" "fs_umask u = fs_umask s"
    using u(1) by (simp_all add: same_state_def)
  have nu: "nodes_ok u" by (rule nodes_ok_same [OF nok u(2)]) (simp add: eq)
  have du: "fs_dir u (en_parent en)" using dir view_nodes(3) [OF u(2)] by simp
  let ?t = "ent_add (en_parent en) (en_name en) i (is_directory (n\<lparr>nd_nlink := nd_nlink n + 1, nd_ctime_ms := c\<rparr>)) t u"
  note v = view_add [OF du] view_nodes [OF u(2)] view
  have ki: "(kid s)(i := children_get (nd_children n)) = kid s" "(subdirs s)(i := nd_subdirs n) = subdirs s"
    using view_id [OF i(1)] by simp_all
  show "Q () ?t"
  proof (rule post, rule becomesI)
    show "nodes_ok ?t" by (rule nodes_ok_ent(1) [OF nu du])
    show "tree_inv name_ok (ent_upd (kid s) (en_parent en) (en_name en) (Some i))
        (nlinks ?t) (fs_dir ?t) (subdirs ?t) (fs_root s)"
    proof -
      have "subdirs ?t = subdirs s" "fs_dir ?t = fs_dir s"
        using i(2) view_id(3) [OF i(1)] by (simp_all add: v ki)
      then show ?thesis
        using tree_link [OF memfs_tree [OF wf], of "en_parent en" "en_name en" i "nd_nlink n" "nlinks ?t"]
          p free i by (simp add: v live_dir_def nlinks_Some fs_dir_iff)
    qed
    have "in_use ?t = in_use s" using i by (auto simp: in_use_def v nlinks_def)
    then show "accounted ?t" using ok(2) by (simp add: accounted_def v eq view_id [OF i(1)])
  qed (simp_all add: v eq view_id [OF i(1)] ki)
qed

section \<open>Removal of a name\<close>

lemma accounted_drop:
  assumes "accounted s" "nlinks s i = Some 1" "nlinks t = (nlinks s)(i \<mapsto> 0)"
    and "blocks_of t = blocks_of s" "fs_node_count t = fs_node_count s - 1"
    and "fs_used_blocks t = fs_used_blocks s - blocks_of s i"
  shows "accounted t"
proof -
  have i: "i \<in> in_use s" and u: "in_use t = in_use s - {i}" using assms(2,3) by (auto simp: in_use_def)
  have "sum (blocks_of s) (in_use s - {i}) = sum (blocks_of s) (in_use s) - blocks_of s i"
    using i by (simp add: sum_diff1_nat)
  then show ?thesis using assms i u by (simp add: accounted_def)
qed

text \<open>The state in which an entry is gone and its node has one link less.\<close>

definition dropped :: "nat \<Rightarrow> string \<Rightarrow> nat \<Rightarrow> mem_state \<Rightarrow> mem_state \<Rightarrow> bool" where
  "dropped p x c s t \<longleftrightarrow> becomes s t (ent_upd (kid s) p x None) (content s)
     \<and> nlinks t = (nlinks s)(c := map_option (\<lambda>k. k - 1) (nlinks s c))"

definition drop_link :: "nat \<Rightarrow> node \<Rightarrow> int \<Rightarrow> mem_state \<Rightarrow> mem_state" where
  "drop_link c n b s =
     (let s' = upd_node c (\<lambda>c. c\<lparr>nd_nlink := nd_nlink c - 1, nd_ctime_ms := b\<rparr>) s
      in if nd_nlink n = 1
         then s'\<lparr>fs_node_count := fs_node_count s' - 1, fs_used_blocks := fs_used_blocks s' - node_blocks n\<rparr>
         else s')"

lemma must_drop_child:
  assumes "fmlookup (fs_nodes s) c = Some n" "0 < nd_nlink n"
    and "\<And>b u. same_state s u \<Longrightarrow> fs_nodes u = fs_nodes s \<Longrightarrow> Q () (drop_link c n b u)"
  shows "must s (drop_child env c) Q"
  unfolding drop_child_def
proof (rule must_bind, rule must_get [OF assms(1)], rule must_bind, rule must_now, rule must_bind, rule must_modify,
    rule must_bind)
  fix b u assume u: "same_state s u" "fs_nodes u = fs_nodes s"
  show "must (upd_node c (\<lambda>c. c\<lparr>nd_nlink := nd_nlink c - 1, nd_ctime_ms := b\<rparr>) u) (get_node c estale)
      (\<lambda>child t. must t (smodify (\<lambda>s. if nd_nlink child = 0
        then s\<lparr>fs_node_count := fs_node_count s - 1, fs_used_blocks := fs_used_blocks s - node_blocks child\<rparr>
        else s)) Q)"
    using assms(1,2) u assms(3) [OF u, of b]
    by (intro must_get must_modify) (auto simp: drop_link_def Let_def split: if_splits)
qed

lemma must_unlink_raw:
  assumes n: "fmlookup (fs_nodes s) c = Some n" "0 < nd_nlink n" and p: "fs_dir s (en_parent en)" "en_parent en \<noteq> c"
    and post: "\<And>a b u v. same_state s u \<Longrightarrow> fs_nodes u = fs_nodes s \<Longrightarrow>
      same_state (ent_del (en_parent en) (en_name en) (is_directory n) a u) v \<Longrightarrow>
      fs_nodes v = fs_nodes (ent_del (en_parent en) (en_name en) (is_directory n) a u) \<Longrightarrow> Q () (drop_link c n b v)"
  shows "must s (unlink_entry env en c) Q"
proof -
  obtain pn where pn: "fmlookup (fs_nodes s) (en_parent en) = Some pn" using p by (auto simp: fs_dir_iff)
  show ?thesis
    unfolding unlink_entry_def ent_del_def [symmetric]
  proof (rule must_bind, rule must_get [OF n(1)], rule must_bind, rule must_get [OF pn],
      rule must_bind, rule must_now, rule must_bind, rule must_modify, rule must_drop_child [OF _ n(2)])
    fix a u assume "same_state s u" "fs_nodes u = fs_nodes s"
    then show "fmlookup (fs_nodes (ent_del (en_parent en) (en_name en) (is_directory n) a u)) c = Some n"
      using n p by (simp add: ent_del_def)
  qed (rule post)
qed

lemma view_drop:
  assumes "fmlookup (fs_nodes s) c = Some n"
  shows "kid (drop_link c n b s) = kid s" "nlinks (drop_link c n b s) = (nlinks s)(c \<mapsto> nd_nlink n - 1)"
    "fs_dir (drop_link c n b s) = fs_dir s" "subdirs (drop_link c n b s) = subdirs s"
    "blocks_of (drop_link c n b s) = blocks_of s" "content (drop_link c n b s) = content s"
proof -
  let ?s = "upd_node c (\<lambda>c. c\<lparr>nd_nlink := nd_nlink c - 1, nd_ctime_ms := b\<rparr>) s"
  have nodes: "fs_nodes (drop_link c n b s) = fs_nodes ?s" by (simp add: drop_link_def Let_def)
  note v = view_nodes [OF nodes] view_upd [OF assms] view_id [OF assms]
  show "kid (drop_link c n b s) = kid s" "nlinks (drop_link c n b s) = (nlinks s)(c \<mapsto> nd_nlink n - 1)"
    "fs_dir (drop_link c n b s) = fs_dir s" "subdirs (drop_link c n b s) = subdirs s"
    "blocks_of (drop_link c n b s) = blocks_of s" "content (drop_link c n b s) = content s"
    by (simp_all add: v)
qed

lemma nodes_ok_drop:
  assumes "nodes_ok s" shows "nodes_ok (drop_link c n b s)"
proof (rule nodes_ok_same)
  show "nodes_ok (upd_node c (\<lambda>c. c\<lparr>nd_nlink := nd_nlink c - 1, nd_ctime_ms := b\<rparr>) s)"
    by (rule nodes_ok_upd [OF assms]) (use assms in \<open>auto simp: nodes_ok_def\<close>)
qed (simp_all add: drop_link_def Let_def)

lemma must_unlink_entry:
  assumes wf: "memfs_wf s" and e: "kid s (en_parent en) (en_name en) = Some c"
    and leaf: "fs_dir s c \<Longrightarrow> kid s c = Map.empty"
    and post: "\<And>t. dropped (en_parent en) (en_name en) c s t \<Longrightarrow> Q () t"
  shows "must s (unlink_entry env en c) Q"
proof -
  let ?p = "en_parent en" and ?x = "en_name en"
  have ok: "nodes_ok s" "accounted s" using wf by (simp_all add: memfs_wf_def)
  obtain n where n: "fmlookup (fs_nodes s) c = Some n" "0 < nd_nlink n" "nlinks s c = Some (nd_nlink n)"
    using kid_linked [OF wf e] by (auto simp: nlinks_Some)
  have pd: "fs_dir s ?p" using memtree.entry_parent [OF wf e] by (simp add: live_dir_def)
  have pc: "?p \<noteq> c" using leaf pd e by auto
  show ?thesis
  proof (rule must_unlink_raw [OF n(1,2) pd pc], rule post)
    fix a b u v assume u: "same_state s u" "fs_nodes u = fs_nodes s"
      and v: "same_state (ent_del ?p ?x (is_directory n) a u) v" "fs_nodes v = fs_nodes (ent_del ?p ?x (is_directory n) a u)"
    let ?t = "drop_link c n b v"
    have du: "fs_dir u ?p" using pd view_nodes(3) [OF u(2)] by simp
    have lv: "fmlookup (fs_nodes v) c = Some n" using n pc u v by (simp add: ent_del_def)
    have eq: "fs_root v = fs_root s" "fs_next_ino v = fs_next_ino s" "fs_node_count v = fs_node_count s"
      "fs_used_blocks v = fs_used_blocks s" "fs_uid v = fs_uid s" "fs_gid v = fs_gid s" "fs_umask v = fs_umask s"
      "fs_next_ino u = fs_next_ino s"
      using u(1) v(1) by (simp_all add: same_state_def)
    have nu: "nodes_ok (ent_del ?p ?x (is_directory n) a u)"
      by (rule nodes_ok_ent(2) [OF nodes_ok_same [OF ok(1) u(2)] du]) (simp add: eq)
    have nv: "nodes_ok v" by (rule nodes_ok_same [OF nu v(2)]) (simp add: eq)
    note w = view_drop [OF lv] view_nodes [OF v(2)] view_del [OF du] view_nodes [OF u(2)]
    have dn: "is_directory n = fs_dir s c" using n(1) by (auto simp: fs_dir_iff)
    show "dropped ?p ?x c s ?t"
      unfolding dropped_def
    proof (intro conjI becomesI)
      show "nodes_ok ?t" by (rule nodes_ok_drop [OF nv])
      show "nlinks ?t = (nlinks s)(c := map_option (\<lambda>k. k - 1) (nlinks s c))" by (simp add: w n)
      show "tree_inv name_ok (ent_upd (kid s) ?p ?x None) (nlinks ?t) (fs_dir ?t) (subdirs ?t) (fs_root s)"
        by (simp only: w, rule tree_unlink [OF memfs_tree [OF wf] e n(3)]) (use leaf in \<open>auto simp: dn\<close>)
      have b: "blocks_of s c = node_blocks n" using n(1) by (simp add: blocks_of_def)
      show "accounted ?t"
      proof (cases "nd_nlink n = 1")
        case True
        then show ?thesis
          by (intro accounted_drop [OF ok(2), of c]) (simp_all add: w n eq b, simp_all add: drop_link_def Let_def eq)
      next
        case False
        then have "in_use ?t = in_use s" using n by (auto simp: in_use_def w)
        moreover have "fs_node_count ?t = fs_node_count s" "fs_used_blocks ?t = fs_used_blocks s"
          using False eq by (simp_all add: drop_link_def Let_def)
        ultimately show ?thesis using ok(2) by (simp add: accounted_def w)
      qed
    qed (simp_all add: w eq, simp_all add: drop_link_def Let_def eq)
  qed
qed

section \<open>Moving a name\<close>

lemma must_move:
  assumes wf: "memfs_wf s" and src: "kid s (en_parent from) (en_name from) = Some c"
    and to: "live_dir s (en_parent to)" "kid s (en_parent to) (en_name to) = None" "name_ok (en_name to)"
    and away: "fs_dir s c \<Longrightarrow> (\<And>zs. tree_walk (kid s) c zs \<noteq> Some (en_parent to))"
    and post: "\<And>t. becomes s t (ent_upd (ent_upd (kid s) (en_parent from) (en_name from) None) (en_parent to) (en_name to) (Some c))
        (content s) \<Longrightarrow> Q () t"
  shows "must s (rename_move env (fs_dir s c) from to c) Q"
  unfolding rename_move_def ent_del_def [symmetric]
proof -
  let ?p = "en_parent from" and ?x = "en_name from" and ?q = "en_parent to" and ?y = "en_name to"
  have ok: "nodes_ok s" "accounted s" using wf by (simp_all add: memfs_wf_def)
  have pd: "fs_dir s ?p" using memtree.entry_parent [OF wf src] by (simp add: live_dir_def)
  then obtain pn where pn: "fmlookup (fs_nodes s) ?p = Some pn" by (auto simp: fs_dir_iff)
  have qd: "fs_dir s ?q" using to by (simp add: live_dir_def)
  show "must s (sbind (get_node ?p estale) (\<lambda>_. sbind (fs_now env) (\<lambda>t.
     sbind (smodify (ent_del ?p ?x (fs_dir s c) t)) (\<lambda>_. sbind (link_entry env to c) (\<lambda>_.
     sbind (fs_now env) (\<lambda>t2. smodify (upd_node c (\<lambda>n. n\<lparr>nd_ctime_ms := t2\<rparr>)))))))) Q"
  proof (rule must_bind, rule must_get [OF pn], rule must_bind, rule must_now, rule must_bind, rule must_modify)
    fix a u assume u: "same_state s u" "fs_nodes u = fs_nodes s"
    let ?u = "ent_del ?p ?x (fs_dir s c) a u"
    have du: "fs_dir u ?p" using pd view_nodes(3) [OF u(2)] by simp
    note w = view_del [OF du] view_nodes [OF u(2)]
    have equ: "fs_root u = fs_root s" "fs_next_ino u = fs_next_ino s" "fs_node_count u = fs_node_count s"
      "fs_used_blocks u = fs_used_blocks s" "fs_uid u = fs_uid s" "fs_gid u = fs_gid s" "fs_umask u = fs_umask s"
      using u(1) by (simp_all add: same_state_def)
    have nu: "nodes_ok ?u" by (rule nodes_ok_ent(2) [OF nodes_ok_same [OF ok(1) u(2)] du]) (simp add: equ)
    obtain m where m: "fmlookup (fs_nodes ?u) c = Some m"
      using kid_linked [OF wf src] w(2) view_nodes(2) [OF u(2)] by (auto simp: nlinks_Some [symmetric])
        (metis nlinks_Some)
    have dm: "is_directory m = fs_dir s c" using m w(3) view_nodes(3) [OF u(2)] by (auto simp: fs_dir_def fun_eq_iff)
        (metis option.simps(5))+
    have qu: "fs_dir ?u ?q" using qd by (simp add: w)
    show "must ?u (sbind (link_entry env to c) (\<lambda>_. sbind (fs_now env) (\<lambda>t2.
        smodify (upd_node c (\<lambda>n. n\<lparr>nd_ctime_ms := t2\<rparr>))))) Q"
    proof (rule must_bind, rule must_link_entry [OF m qu])
      fix b v assume v: "same_state ?u v" "fs_nodes v = fs_nodes ?u"
      let ?v = "ent_add ?q ?y c (is_directory m) b v"
      have dv: "fs_dir v ?q" using qu view_nodes(3) [OF v(2)] by simp
      have eqv: "fs_root v = fs_root s" "fs_next_ino v = fs_next_ino s" "fs_node_count v = fs_node_count s"
        "fs_used_blocks v = fs_used_blocks s" "fs_uid v = fs_uid s" "fs_gid v = fs_gid s" "fs_umask v = fs_umask s"
        using v(1) equ by (simp_all add: same_state_def)
      have nv: "nodes_ok v" by (rule nodes_ok_same [OF nu v(2)]) (simp add: eqv equ)
      note z = view_add [OF dv] view_nodes [OF v(2)] w
      have "becomes s ?v (ent_upd (ent_upd (kid s) ?p ?x None) ?q ?y (Some c)) (content s)"
      proof (rule becomesI)
        show "nodes_ok ?v" by (rule nodes_ok_ent(1) [OF nv dv])
        show "tree_inv name_ok (ent_upd (ent_upd (kid s) ?p ?x None) ?q ?y (Some c))
            (nlinks ?v) (fs_dir ?v) (subdirs ?v) (fs_root s)"
          by (simp only: z, rule tree_move [OF memfs_tree [OF wf] src qd _ to(2,3) away, where
                ?sub1.0 = "(subdirs s)(?p := if fs_dir s c then subdirs s ?p - 1 else subdirs s ?p)"])
            (use to(1) dm in \<open>auto simp: live_dir_def\<close>)
        show "accounted ?v" by (rule accounted_view [OF ok(2)]) (simp_all add: z eqv)
      qed (simp_all add: z eqv)
      then show "must ?v (sbind (fs_now env) (\<lambda>t2. smodify (upd_node c (\<lambda>n. n\<lparr>nd_ctime_ms := t2\<rparr>)))) Q"
        by (intro must_bind must_now must_attr post) (auto simp: same_shape_def intro: becomes_step)
    qed
  qed
qed

section \<open>Contents\<close>

lemma sum_upd:
  fixes b :: "nat \<Rightarrow> nat"
  assumes "finite A"
  shows "sum (b(i := x)) A = (if i \<in> A then sum b A + x - b i else sum b A)"
proof (cases "i \<in> A")
  case True
  have "sum (b(i := x)) (A - {i}) = sum b (A - {i})" by (rule sum.cong) auto
  then show ?thesis using True assms by (simp add: sum.remove [of A i])
next
  case False
  have "sum (b(i := x)) A = sum b A" by (rule sum.cong) (use False in auto)
  then show ?thesis using False by simp
qed

lemma becomes_data:
  assumes wf: "memfs_wf s" and n: "fmlookup (fs_nodes s) i = Some n" "node_file_type n = File"
    and t: "fs_nodes t = fs_nodes (upd_node i (\<lambda>n. n\<lparr>nd_data := d\<rparr>) s)" "fs_root t = fs_root s"
      "fs_next_ino t = fs_next_ino s" "fs_node_count t = fs_node_count s" "fs_uid t = fs_uid s"
      "fs_gid t = fs_gid s" "fs_umask t = fs_umask s"
      "fs_used_blocks t = (if 0 < nd_nlink n then fs_used_blocks s + node_blocks (n\<lparr>nd_data := d\<rparr>) - node_blocks n
                           else fs_used_blocks s)"
  shows "becomes s t (kid s) ((content s)(i \<mapsto> (File, d, None)))"
proof -
  let ?n = "n\<lparr>nd_data := d\<rparr>"
  have ok: "nodes_ok s" "accounted s" "node_ok n" using wf wf_node_ok [OF wf n(1)] by (simp_all add: memfs_wf_def)
  have ft: "node_file_type ?n = File" "is_directory ?n = is_directory n"
    using n(2) by (simp_all add: node_file_type_def is_directory_def)
  have nok: "node_ok ?n" using ok(3) n(2) ft by (simp add: node_ok_def is_symlink_def)
  have tg: "node_content ?n = (File, d, None)"
    using ok(3) n(2) ft(1) by (simp add: node_content_def node_ok_def is_symlink_def)
  note v = view_nodes [OF t(1)] view_upd [OF n(1)]
  have view: "kid t = kid s" "nlinks t = nlinks s" "fs_dir t = fs_dir s" "subdirs t = subdirs s"
    "blocks_of t = (blocks_of s)(i := node_blocks ?n)" "content t = (content s)(i \<mapsto> (File, d, None))"
    using view_id [OF n(1)] by (simp_all add: v ft tg)
  have "nodes_ok (upd_node i (\<lambda>n. n\<lparr>nd_data := d\<rparr>) s)"
    by (rule nodes_ok_upd [OF ok(1)]) (use n nok in auto)
  then have nt: "nodes_ok t" by (rule nodes_ok_same) (simp_all add: t)
  have used: "in_use t = in_use s" "i \<in> in_use s \<longleftrightarrow> 0 < nd_nlink n"
    using n(1) by (auto simp: in_use_def view nlinks_def)
  have b: "blocks_of s i = node_blocks n" using n(1) by (simp add: blocks_of_def)
  have "sum ((blocks_of s)(i := node_blocks ?n)) (in_use s) = (if 0 < nd_nlink n
      then sum (blocks_of s) (in_use s) + node_blocks ?n - node_blocks n else sum (blocks_of s) (in_use s))"
    by (simp only: sum_upd [OF in_use_finite] used(2) b)
  then have "accounted t"
    using ok(2) unfolding accounted_def used(1) view(5) t(4,8) by simp
  then show ?thesis
    by (intro becomesI nt) (use view memfs_tree [OF wf] t in simp_all)
qed

lemma run_ok_resize:
  assumes wf: "memfs_wf s0" and n: "fmlookup (fs_nodes s0) i = Some n0" "node_file_type n0 = File"
    and rest: "\<And>t. becomes s0 t (kid s0) ((content s0)(i \<mapsto> (File, resize_bytes len (nd_data n0), None))) \<Longrightarrow> must t (g ()) Q"
  shows "run_ok s0 (sbind (resize env i len sc) g) Q"
  unfolding run_ok_def
proof (intro allI impI)
  fix s assume st: "same_state s0 s"
  obtain n where m: "fmlookup (fs_nodes s) i = Some n" "same_shape n0 n" using same_state_lookup(2) [OF st n(1)] by blast
  then have d: "nd_data n = nd_data n0" by (simp add: same_shape_def)
  let ?n = "n\<lparr>nd_data := resize_bytes len (nd_data n)\<rparr>"
  show "case sbind (resize env i len sc) g s of (Inl e, t) \<Rightarrow> same_state s0 t | (Inr x, t) \<Rightarrow> Q x t"
  proof (cases "len > U64_MAX \<or> len > length (nd_data n) \<and> \<not> env_reserve env (len - length (nd_data n))")
    case True
    then show ?thesis using st m(1) by (auto simp: resize_def sbind_def get_node_def)
  next
    case False
    let ?s = "upd_node i (\<lambda>_. ?n) s"
    let ?t = "if 0 < nd_nlink n then ?s\<lparr>fs_used_blocks := fs_used_blocks s + node_blocks ?n - node_blocks n\<rparr> else ?s"
    have "sbind (resize env i len sc) g s = g () ?t"
      using False m(1) by (auto simp: resize_def sbind_def get_node_def Let_def)
    moreover have "becomes s ?t (kid s) ((content s)(i \<mapsto> (File, resize_bytes len (nd_data n), None)))"
      by (rule becomes_data [OF same_state_wf [OF st wf] m(1)])
        (use same_shape_type [OF m(2)] n(2) m(1) in \<open>auto simp: upd_node_def\<close>)
    then have "must ?t (g ()) Q"
      using rest becomes_before [OF st] same_state_view [OF st] same_state_content [OF st] d by metis
    ultimately show ?thesis by (auto simp: must_def)
  qed
qed

end
