(* ===== verification/Mem_Fs_Calls.thy ===== *)
theory Mem_Fs_Calls
  imports Mem_Fs_Prim
begin

text \<open>
  What every call of the memory file system does to the abstract file system: the effect of a call
  that succeeds, and that a call that fails leaves the shape of the state as it was.
\<close>

section \<open>Removal\<close>

lemma dropped_before: "same_state s0 s \<Longrightarrow> dropped p x c s t \<Longrightarrow> dropped p x c s0 t"
  using same_state_view [of s0 s] same_state_content [of s0 s] becomes_before [of s0 s t]
  by (simp add: dropped_def)

lemma run_ok_unlink:
  assumes wf: "memfs_wf s0" and en: "entry_ok s0 en" "en_node en = Some c" "c \<noteq> fs_root s0"
    and leaf: "fs_dir s0 c \<Longrightarrow> kid s0 c = Map.empty"
    and rest: "\<And>t. dropped (en_parent en) (en_name en) c s0 t \<Longrightarrow> must t (f ()) Q"
  shows "run_ok s0 (sbind (unlink_entry env en c) f) Q"
proof (rule run_ok_must, rule must_bind)
  fix s assume s: "same_state s0 s"
  note v = same_state_view [OF s]
  show "must s (unlink_entry env en c) (\<lambda>x t. must t (f x) Q)"
    using entry_taken [OF en] leaf rest dropped_before [OF s]
    by (intro must_unlink_entry [OF same_state_wf [OF s wf]]) (simp_all add: v)
qed

lemma run_ok_unlink_end:
  assumes "memfs_wf s0" "entry_ok s0 en" "en_node en = Some c" "c \<noteq> fs_root s0"
    and "fs_dir s0 c \<Longrightarrow> kid s0 c = Map.empty"
    and "\<And>t. dropped (en_parent en) (en_name en) c s0 t \<Longrightarrow> Q () t"
  shows "run_ok s0 (unlink_entry env en c) Q"
  using run_ok_unlink [OF assms(1-5), where f = sret and Q = Q] assms(6) by (simp add: must_ret)

lemma dir_not_root: "memfs_wf s \<Longrightarrow> \<not> fs_dir s c \<Longrightarrow> c \<noteq> fs_root s"
  using root_live [of s] by (auto simp: live_dir_def)

lemma shape_dir: "fmlookup (fs_nodes s0) i = Some n0 \<Longrightarrow> same_shape n0 n \<Longrightarrow> is_directory n = fs_dir s0 i"
  by (simp add: fs_dir_def same_shape_kind)

lemma shape_empty:
  "fmlookup (fs_nodes s0) i = Some n0 \<Longrightarrow> same_shape n0 n \<Longrightarrow> children_is_empty (nd_children n) \<longleftrightarrow> kid s0 i = Map.empty"
  by (simp add: children_is_empty_iff kid_def same_shape_def fun_eq_iff)

lemma same_dir: "same_state s0 s \<Longrightarrow> fs_dir s = fs_dir s0"
  by (rule same_state_view(3))

lemma same_root: "same_state s0 s \<Longrightarrow> fs_root s = fs_root s0"
  by (rule same_state_view(6))

lemma unlink_ok:
  assumes wf: "memfs_wf s0"
  shows "run_ok s0 (fs_unlink env path) (\<lambda>_ t. \<exists>en c. walk s0 path False ''unlink'' 0 = Inr en
    \<and> en_node en = Some c \<and> \<not> fs_dir s0 c \<and> dropped (en_parent en) (en_name en) c s0 t)"
  unfolding fs_unlink_def
proof (rule run_ok_walk, rule run_ok_bind_read, rule run_ok_bind_read, rule run_ok_unlink_end [OF wf])
  fix en c s s' and u :: unit
  assume w: "walk s0 path False ''unlink'' 0 = Inr en" and s: "same_state s0 s" "same_state s0 s'"
    and c: "ok_or (en_node en) (syscp Enoent ''unlink'' (en_path en)) = Inr c"
    and g: "guard_err (fs_dir s' c) (syscp Eisdir ''unlink'' (en_path en)) = Inr u"
  show "entry_ok s0 en" by (rule walk_entry_ok [OF w])
  show e: "en_node en = Some c" using c by simp
  have d: "\<not> fs_dir s0 c" using g same_dir [OF s(2)] by simp
  then show "c \<noteq> fs_root s0" by (rule dir_not_root [OF wf])
  show "kid s0 c = Map.empty" if "fs_dir s0 c" using that d by simp
  show "\<exists>en c. walk s0 path False ''unlink'' 0 = Inr en \<and> en_node en = Some c \<and> \<not> fs_dir s0 c
      \<and> dropped (en_parent en) (en_name en) c s0 t" if "dropped (en_parent en) (en_name en) c s0 t" for t
    using w e d that by blast
qed

lemma rmdir_ok:
  assumes wf: "memfs_wf s0"
  shows "run_ok s0 (fs_rmdir env path) (\<lambda>_ t. \<exists>en c. walk s0 path False ''rmdir'' 0 = Inr en
    \<and> en_node en = Some c \<and> fs_dir s0 c \<and> c \<noteq> fs_root s0 \<and> kid s0 c = Map.empty
    \<and> dropped (en_parent en) (en_name en) c s0 t)"
  unfolding fs_rmdir_def
proof (rule run_ok_walk, rule run_ok_bind_read, rule run_ok_bind_read, rule run_ok_get_node,
    rule run_ok_if [OF run_ok_fail], rule run_ok_if [OF run_ok_fail], rule run_ok_unlink_end [OF wf])
  fix en c s s' n0 n and u :: unit
  assume w: "walk s0 path False ''rmdir'' 0 = Inr en" and s: "same_state s0 s" "same_state s0 s'"
    and c: "ok_or (en_node en) (syscp Enoent ''rmdir'' (en_path en)) = Inr c"
    and g: "guard_err (c = fs_root s') (syscp Ebusy ''rmdir'' (en_path en)) = Inr u"
    and n: "fmlookup (fs_nodes s0) c = Some n0" "same_shape n0 n"
    and k: "\<not> \<not> is_directory n" "\<not> \<not> children_is_empty (nd_children n)"
  show "entry_ok s0 en" by (rule walk_entry_ok [OF w])
  show e: "en_node en = Some c" using c by simp
  show r: "c \<noteq> fs_root s0" using g same_root [OF s(2)] by simp
  have d: "fs_dir s0 c" and l: "kid s0 c = Map.empty" using k shape_dir [OF n] shape_empty [OF n] by auto
  show "kid s0 c = Map.empty" by (rule l)
  show "\<exists>en c. walk s0 path False ''rmdir'' 0 = Inr en \<and> en_node en = Some c \<and> fs_dir s0 c \<and> c \<noteq> fs_root s0
      \<and> kid s0 c = Map.empty \<and> dropped (en_parent en) (en_name en) c s0 t"
    if "dropped (en_parent en) (en_name en) c s0 t" for t
    using w e d l r that by blast
qed

section \<open>Rename\<close>

text \<open>A directory is not moved below itself: the check on paths is the check on the tree.\<close>

lemma rename_away:
  assumes wf: "memfs_wf s" and src: "entry_at s cs from" "en_node from = Some c" "fs_dir s c"
    and to: "entry_at s ds to" and check: "\<not> is_path_inside (en_path to) (en_path from)"
  shows "tree_walk (kid s) c zs \<noteq> Some (en_parent to)"
proof
  assume zs: "tree_walk (kid s) c zs = Some (en_parent to)"
  have f: "tree_walk (kid s) (fs_root s) (cs @ [en_name from]) = Some c"
    using src(1,2) unfolding entry_at_def tree_walk_snoc by auto
  have t: "tree_walk (kid s) (fs_root s) ds = Some (en_parent to)" "live_dir s (en_parent to)"
    using to walk_live [OF wf] by (auto simp: entry_at_def)
  have "ds = (cs @ [en_name from]) @ zs" by (rule memtree.below_prefix [OF wf t(2) f zs t(1)])
  moreover have "norm_comps (en_path from) = cs @ [en_name from]" "norm_comps (en_path to) = ds @ [en_name to]"
    using src(1) to by (auto simp: entry_at_def name_ok_def list_all_iff intro!: norm_comps_render)
  ultimately show False using check by (simp add: is_path_inside_comps)
qed

text \<open>The effect of a rename on the abstract file system.\<close>

definition moved :: "entry \<Rightarrow> entry \<Rightarrow> nat \<Rightarrow> mem_state \<Rightarrow> mem_state \<Rightarrow> bool" where
  "moved from to c s t \<longleftrightarrow>
     becomes s t (ent_upd (ent_upd (kid s) (en_parent from) (en_name from) None) (en_parent to) (en_name to) (Some c)) (content s)
     \<and> kid s (en_parent from) (en_name from) = Some c \<and> live_dir s (en_parent to) \<and> name_ok (en_name to)
     \<and> kid s (en_parent to) (en_name to) = en_node to \<and> en_node to \<noteq> Some c
     \<and> (\<forall>d. en_node to = Some d \<longrightarrow> fs_dir s d = fs_dir s c \<and> (fs_dir s d \<longrightarrow> kid s d = Map.empty))
     \<and> (fs_dir s c \<longrightarrow> (\<forall>zs. tree_walk (kid s) c zs \<noteq> Some (en_parent to)))"

lemma ent_upd_over: "ent_upd (ent_upd (ent_upd K q y None) p x None) q y v = ent_upd (ent_upd K p x None) q y v"
  by (auto simp: fun_eq_iff ent_upd_apply)

text \<open>The part of a rename after its checks; \<open>removed\<close> is the state after the destination is gone.\<close>

lemma rename_tail:
  assumes wf: "memfs_wf s0" and src: "kid s0 (en_parent from) (en_name from) = Some c"
    and to: "live_dir s0 (en_parent to)" "name_ok (en_name to)" "kid s0 (en_parent to) (en_name to) = en_node to"
      "en_node to \<noteq> Some c"
    and away: "fs_dir s0 c \<Longrightarrow> (\<And>zs. tree_walk (kid s0) c zs \<noteq> Some (en_parent to))"
    and dest: "\<And>d. en_node to = Some d \<Longrightarrow> fs_dir s0 d = fs_dir s0 c \<and> (fs_dir s0 d \<longrightarrow> kid s0 d = Map.empty)"
    and s: "en_node to = None \<and> same_state s0 s \<or> (\<exists>d. en_node to = Some d \<and> dropped (en_parent to) (en_name to) d s0 s)"
    and sd: "sd = fs_dir s0 c"
  shows "must s (rename_move env sd from to c) (\<lambda>_ t. moved from to c s0 t)"
proof -
  let ?p = "en_parent from" and ?x = "en_name from" and ?q = "en_parent to" and ?y = "en_name to"
  have b: "becomes s0 s (ent_upd (kid s0) ?q ?y None) (content s0)"
    using s to(3) becomes_same [OF wf] by (auto simp: dropped_def ent_upd_def fun_upd_idem)
  then have k: "kid s = ent_upd (kid s0) ?q ?y None" and wfs: "memfs_wf s" and cs: "content s = content s0"
    and d: "fs_dir s = fs_dir s0"
    by (auto simp: becomes_def fs_dir_content fun_eq_iff)
  have nq: "nlinks s ?q = Some 1"
  proof (cases "en_node to")
    case None
    then have "same_state s0 s" using s by auto
    then show ?thesis using to(1) same_state_view(2) by (simp add: live_dir_def)
  next
    case (Some e)
    then have "?q \<noteq> e" using dest [OF Some] to(1,3) by (auto simp: live_dir_def)
    then show ?thesis using Some s to(1) by (auto simp: dropped_def live_dir_def)
  qed
  have ne: "(?q, ?y) \<noteq> (?p, ?x)" using src to(3,4) by auto
  show ?thesis
    unfolding sd d [symmetric]
  proof (rule must_move [OF wfs])
    show "kid s ?p ?x = Some c" using src ne by (auto simp: k ent_upd_apply)
    show "live_dir s ?q" using nq to(1) by (simp add: live_dir_def d)
    show "kid s ?q ?y = None" by (simp add: k ent_upd_apply)
    show "name_ok ?y" by (rule to(2))
    have sub: "kid s0 r z = Some e" if "kid s r z = Some e" for r z e
      using that by (auto simp: k ent_upd_apply split: if_splits)
    show "tree_walk (kid s) c zs \<noteq> Some ?q" if dc: "fs_dir s c" for zs
    proof
      assume "tree_walk (kid s) c zs = Some ?q"
      then have "tree_walk (kid s0) c zs = Some ?q" by (rule tree_walk_mono [of "kid s" "kid s0", rotated]) (rule sub)
      then show False using away [of zs] dc d by simp
    qed
    fix t assume bt: "becomes s t (ent_upd (ent_upd (kid s) ?p ?x None) ?q ?y (Some c)) (content s)"
    have "becomes s0 t (ent_upd (ent_upd (kid s0) ?p ?x None) ?q ?y (Some c)) (content s0)"
      using becomes_trans [OF b bt] unfolding k ent_upd_over cs .
    then show "moved from to c s0 t" using src to away dest unfolding moved_def by blast
  qed
qed

lemma entry_ok_dest:
  assumes wf: "memfs_wf s" and to: "entry_ok s to" and src: "kid s p x = Some c" "c \<noteq> fs_root s"
    and d: "\<And>d. en_node to = Some d \<Longrightarrow> fs_dir s d = fs_dir s c \<and> (fs_dir s d \<longrightarrow> kid s d = Map.empty)"
  shows "\<exists>ds. entry_at s ds to"
proof (rule ccontr)
  assume "\<nexists>ds. entry_at s ds to"
  then have "en_node to = Some (fs_root s)" using to by (auto simp: entry_ok_def root_entry_def)
  then have "kid s (fs_root s) = Map.empty" "fs_dir s c" using d root_live [OF wf] by (auto simp: live_dir_def)
  moreover obtain y q where "kid s (fs_root s) y = Some q"
  proof -
    have "live_dir s c" using \<open>fs_dir s c\<close> kid_live [OF wf src(1)] by simp
    then obtain xs where "tree_walk (kid s) (fs_root s) xs = Some c"
      using tree_reach_walk [OF live_reach [OF wf]] by blast
    then show thesis using src(2) that by (cases xs) (auto split: option.splits)
  qed
  ultimately show False by simp
qed

lemma rename_destination_ok:
  assumes wf: "memfs_wf s0" and to: "entry_ok s0 to" "en_node to = Some d"
    and src: "kid s0 p x = Some c" "c \<noteq> d"
    and rest: "\<And>t. dropped (en_parent to) (en_name to) d s0 t \<Longrightarrow> fs_dir s0 d = fs_dir s0 c \<Longrightarrow>
      (fs_dir s0 d \<Longrightarrow> kid s0 d = Map.empty) \<Longrightarrow> Q () t"
  shows "run_ok s0 (rename_destination env (fs_dir s0 c) from to d) Q"
  unfolding rename_destination_def
proof (rule run_ok_bind_read)
  fix s and u :: unit
  assume s: "same_state s0 s"
    and chk: "(if fs_dir s0 c
       then (if \<not> fs_dir s d then Inl (rename_err Enotdir from to)
             else (case fmlookup (fs_nodes s) d of
                     Some n \<Rightarrow> if \<not> children_is_empty (nd_children n)
                               then Inl (rename_err Enotempty from to) else Inr ()
                   | None \<Rightarrow> Inr ()))
       else if fs_dir s d then Inl (rename_err Eisdir from to) else Inr ()) = Inr u"
  have dir: "fs_dir s0 d = fs_dir s0 c" using chk same_dir [OF s] by (auto split: if_splits)
  have leaf: "kid s0 d = Map.empty" if d: "fs_dir s0 d"
  proof -
    have "fs_dir s d" using d same_dir [OF s] by simp
    then obtain n where n: "fmlookup (fs_nodes s) d = Some n" by (auto simp: fs_dir_iff)
    then have "children_is_empty (nd_children n)" using chk d dir same_dir [OF s] by (auto split: if_splits)
    then have "kid s d = Map.empty" using n by (simp add: children_is_empty_iff kid_def fun_eq_iff)
    then show ?thesis using same_state_view(1) [OF s] by simp
  qed
  have "d \<noteq> fs_root s0"
  proof
    assume r: "d = fs_root s0"
    then have "fs_dir s0 d" using root_live [OF wf] by (simp add: live_dir_def)
    moreover have "\<exists>ds. entry_at s0 ds to"
      using src r to(2) leaf dir by (intro entry_ok_dest [OF wf to(1) src(1)]) auto
    ultimately show False
      using memtree.root_top [OF wf, of "en_parent to" "en_name to"] r to(2) by (auto simp: entry_at_def)
  qed
  then show "run_ok s0 (unlink_entry env to d) Q"
    using leaf dir rest by (intro run_ok_unlink_end [OF wf to]) auto
qed

text \<open>The root is never moved: its path is inside every path.\<close>

lemma rename_source:
  assumes wf: "memfs_wf s" and src: "entry_ok s from" "en_node from = Some c"
    and chk: "\<not> (fs_dir s c \<and> is_path_inside (en_path to) (en_path from))"
  shows "(\<exists>cs. entry_at s cs from) \<and> c \<noteq> fs_root s"
proof -
  have "from \<noteq> root_entry s"
  proof
    assume "from = root_entry s"
    then show False using chk src(2) root_live [OF wf] norm_comps_render [of "[]"]
      by (simp add: is_path_inside_comps root_entry_def live_dir_def render_path_Nil)
  qed
  then obtain cs where cs: "entry_at s cs from" using src(1) by (auto simp: entry_ok_def)
  then have "c \<noteq> fs_root s"
    using src(2) memtree.root_top [OF wf, of "en_parent from" "en_name from"] by (auto simp: entry_at_def)
  then show ?thesis using cs by blast
qed

lemma rename_entries_ok:
  assumes wf: "memfs_wf s0" and src: "entry_ok s0 from" and to: "entry_ok s0 to"
  shows "run_ok s0 (rename_entries env from to) (\<lambda>_ t. \<exists>c. en_node from = Some c \<and>
    (if en_node to = Some c then same_state s0 t else moved from to c s0 t))"
  unfolding rename_entries_def
proof (rule run_ok_bind_read, rule run_ok_if)
  fix c s assume "ok_or (en_node from) (rename_err Enoent from to) = Inr c"
  then have c: "en_node from = Some c" by simp
  obtain n where "fmlookup (fs_nodes s0) c = Some n"
    using entry_node_linked [OF wf src c] by (auto simp: nlinks_Some)
  then have pos: "0 < c" using wf_node_ok [OF wf] by blast
  { assume "c = (case en_node to of None \<Rightarrow> 0 | Some i \<Rightarrow> i)"
    then have "en_node to = Some c" using pos by (auto split: option.splits)
    then show "run_ok s0 (sret ()) (\<lambda>_ t. \<exists>c. en_node from = Some c \<and>
        (if en_node to = Some c then same_state s0 t else moved from to c s0 t))"
      using c by (intro run_ok_ret) auto }
  assume "c \<noteq> (case en_node to of None \<Rightarrow> 0 | Some i \<Rightarrow> i)"
  then have ne: "en_node to \<noteq> Some c" by auto
  show "run_ok s0 (sbind (sread (\<lambda>s. Inr (fs_dir s c))) (\<lambda>sd.
     if sd \<and> is_path_inside (en_path to) (en_path from) then sfail (rename_err Einval from to)
     else sbind (case en_node to of Some d \<Rightarrow> rename_destination env sd from to d | None \<Rightarrow> sret ()) (\<lambda>_.
     rename_move env sd from to c))) (\<lambda>_ t. \<exists>c. en_node from = Some c \<and>
        (if en_node to = Some c then same_state s0 t else moved from to c s0 t))"
  proof (rule run_ok_bind_read, rule run_ok_if [OF run_ok_fail])
    fix sd s' assume s': "same_state s0 s'" "Inr (fs_dir s' c) = (Inr sd :: bool result)"
      and chk: "\<not> (sd \<and> is_path_inside (en_path to) (en_path from))"
    have sd: "sd = fs_dir s0 c" using s' same_dir by simp
    obtain cs where cs: "entry_at s0 cs from" and cr: "c \<noteq> fs_root s0"
      using rename_source [OF wf src c] chk sd by blast
    then have kc: "kid s0 (en_parent from) (en_name from) = Some c" using c by (simp add: entry_at_def)
    let ?R = "\<lambda>(_ :: unit) s. (en_node to = None \<and> same_state s0 s
        \<or> (\<exists>d. en_node to = Some d \<and> dropped (en_parent to) (en_name to) d s0 s))
        \<and> (\<forall>d. en_node to = Some d \<longrightarrow> fs_dir s0 d = fs_dir s0 c \<and> (fs_dir s0 d \<longrightarrow> kid s0 d = Map.empty))"
    show "run_ok s0 (sbind (case en_node to of Some d \<Rightarrow> rename_destination env sd from to d | None \<Rightarrow> sret ())
       (\<lambda>_. rename_move env sd from to c)) (\<lambda>_ t. \<exists>c. en_node from = Some c \<and>
        (if en_node to = Some c then same_state s0 t else moved from to c s0 t))"
    proof (rule run_ok_bind [where R = ?R])
      show "run_ok s0 (case en_node to of Some d \<Rightarrow> rename_destination env sd from to d | None \<Rightarrow> sret ()) ?R"
        unfolding sd
      proof (rule run_ok_option)
        fix d assume d: "en_node to = Some d"
        then show "run_ok s0 (rename_destination env (fs_dir s0 c) from to d) ?R"
          using ne by (intro rename_destination_ok [OF wf to d kc]) auto
      qed (auto intro: run_ok_ret)
    next
      fix u s assume R: "?R u s"
      then obtain ds where ds: "entry_at s0 ds to" using entry_ok_dest [OF wf to kc cr] by blast
      have t: "live_dir s0 (en_parent to)" "name_ok (en_name to)" "kid s0 (en_parent to) (en_name to) = en_node to"
        using entry_parent_live [OF wf to] ds by (auto simp: entry_at_def)
      have away: "tree_walk (kid s0) c zs \<noteq> Some (en_parent to)" if "fs_dir s0 c" for zs
        using rename_away [OF wf cs c that ds] chk sd that by simp
      have "must s (rename_move env sd from to c) (\<lambda>_ t. moved from to c s0 t)"
        by (rule rename_tail [OF wf kc t ne away _ _ sd]) (use R in blast)+
      then show "must s (rename_move env sd from to c) (\<lambda>_ t. \<exists>c. en_node from = Some c \<and>
            (if en_node to = Some c then same_state s0 t else moved from to c s0 t))"
        by (rule must_mono) (use c ne in auto)
    qed
  qed
qed

lemma rename_ok:
  assumes wf: "memfs_wf s0"
  shows "run_ok s0 (fs_rename env old new) (\<lambda>_ t. \<exists>from to c.
    walk s0 (normalize_path old) False ''rename'' 0 = Inr from \<and> walk s0 (normalize_path new) False ''rename'' 0 = Inr to
    \<and> en_node from = Some c \<and> (if en_node to = Some c then same_state s0 t else moved from to c s0 t))"
  unfolding fs_rename_def Let_def
proof (rule run_ok_walk, rule run_ok_if [OF run_ok_fail], rule run_ok_walk, rule run_ok_mono)
  fix fr to assume w: "walk s0 (normalize_path old) False ''rename'' 0 = Inr fr"
    "walk s0 (normalize_path new) False ''rename'' 0 = Inr to"
  show "run_ok s0 (rename_entries env fr to) (\<lambda>_ t. \<exists>c. en_node fr = Some c \<and>
      (if en_node to = Some c then same_state s0 t else moved fr to c s0 t))"
    by (rule rename_entries_ok [OF wf walk_entry_ok [OF w(1)] walk_entry_ok [OF w(2)]])
qed blast

section \<open>Link\<close>

text \<open>Another name for an inode that is not a directory.\<close>

definition linked :: "entry \<Rightarrow> nat \<Rightarrow> mem_state \<Rightarrow> mem_state \<Rightarrow> bool" where
  "linked to i s t \<longleftrightarrow> becomes s t (ent_upd (kid s) (en_parent to) (en_name to) (Some i)) (content s)
     \<and> live_dir s (en_parent to) \<and> kid s (en_parent to) (en_name to) = None \<and> name_ok (en_name to)
     \<and> \<not> fs_dir s i \<and> (\<exists>p x. kid s p x = Some i)"

lemma run_ok_link:
  assumes wf: "memfs_wf s0" and i: "kid s0 p x = Some i" "\<not> fs_dir s0 i"
    and to: "entry_ok s0 to" "en_node to = None"
    and rest: "\<And>t. linked to i s0 t \<Longrightarrow> must t (f ()) Q"
  shows "run_ok s0 (sbind (smodify (upd_node i (\<lambda>n. n\<lparr>nd_nlink := nd_nlink n + 1, nd_ctime_ms := c\<rparr>)))
    (\<lambda>_. sbind (link_entry env to i) f)) Q"
proof (rule run_ok_must, rule must_bind, rule must_modify, rule must_bind)
  fix s assume s: "same_state s0 s"
  note v = same_state_view [OF s]
  have live: "live_dir s0 (en_parent to)" by (rule entry_parent_live [OF wf to(1)])
  obtain n where n: "fmlookup (fs_nodes s) i = Some n" "0 < nd_nlink n"
    using kid_linked [OF wf i(1)] v(2) by (auto simp: nlinks_Some [symmetric]) (metis nlinks_Some)
  show "must (upd_node i (\<lambda>n. n\<lparr>nd_nlink := nd_nlink n + 1, nd_ctime_ms := c\<rparr>) s) (link_entry env to i)
      (\<lambda>u t. must t (f u) Q)"
  proof (rule must_link_again [OF same_state_wf [OF s wf] n(1) _ n(2)])
    show "\<not> is_directory n" using n(1) i(2) v(3) by (metis fs_dir_iff)
    show "live_dir s (en_parent to)" using live by (simp add: live_dir_def v)
    show "kid s (en_parent to) (en_name to) = None" "name_ok (en_name to)" using entry_free [OF to] by (simp_all add: v)
    fix t assume "becomes s t (ent_upd (kid s) (en_parent to) (en_name to) (Some i)) (content s)"
    then have "linked to i s0 t"
      using becomes_before [OF s] live entry_free [OF to] i same_state_content [OF s] by (auto simp: linked_def v)
    then show "must t (f ()) Q" by (rule rest)
  qed
qed

lemma link_ok:
  assumes wf: "memfs_wf s0"
  shows "run_ok s0 (fs_link env existing new) (\<lambda>_ t. \<exists>from to i. walk s0 existing False ''link'' 0 = Inr from
    \<and> walk s0 new False ''link'' 0 = Inr to \<and> en_node from = Some i \<and> en_node to = None \<and> linked to i s0 t)"
  unfolding fs_link_def
proof (rule run_ok_walk, rule run_ok_bind_read, rule run_ok_bind_read, rule run_ok_walk,
    rule run_ok_if [OF run_ok_fail], rule run_ok_bind_attr [OF keeps_same_now])
  fix fr to i s s' t and u :: unit
  assume w: "walk s0 existing False ''link'' 0 = Inr fr" "walk s0 new False ''link'' 0 = Inr to"
    and s: "same_state s0 s'"
    and i: "ok_or (en_node fr) (with_dest (normalize_path new) (syscp Enoent ''link'' (en_path fr))) = Inr i"
    and g: "guard_err (fs_dir s' i) (with_dest (normalize_path new) (syscp Eperm ''link'' (en_path fr))) = Inr u"
    and n: "\<not> en_node to \<noteq> None"
  have d: "\<not> fs_dir s0 i" using g same_dir [OF s] by simp
  have k: "kid s0 (en_parent fr) (en_name fr) = Some i"
    using entry_taken [OF walk_entry_ok [OF w(1)]] i dir_not_root [OF wf d] by simp
  show "run_ok s0 (sbind (smodify (upd_node i (\<lambda>n. n\<lparr>nd_nlink := nd_nlink n + 1, nd_ctime_ms := t\<rparr>)))
      (\<lambda>_. link_entry env to i)) (\<lambda>_ t. \<exists>from to i. walk s0 existing False ''link'' 0 = Inr from
    \<and> walk s0 new False ''link'' 0 = Inr to \<and> en_node from = Some i \<and> en_node to = None \<and> linked to i s0 t)"
    using run_ok_link [OF wf k d walk_entry_ok [OF w(2)], where f = sret and c = t] n w i
    by (simp add: must_ret del: not_None_eq)
qed

section \<open>Creation\<close>

text \<open>A new inode of a given type under a free name.\<close>

definition created :: "entry \<Rightarrow> file_type \<Rightarrow> string option \<Rightarrow> nat \<Rightarrow> mem_state \<Rightarrow> mem_state \<Rightarrow> bool" where
  "created en ft target i s t \<longleftrightarrow>
     becomes s t (ent_upd (kid s) (en_parent en) (en_name en) (Some i)) ((content s)(i \<mapsto> (ft, [], target)))
     \<and> live_dir s (en_parent en) \<and> kid s (en_parent en) (en_name en) = None \<and> name_ok (en_name en)
     \<and> content s i = None \<and> (ft = Symlink \<longleftrightarrow> target \<noteq> None)"

lemma next_fresh: "memfs_wf s \<Longrightarrow> content s (fs_next_ino s) = None"
  using wf_node_ok [of s "fs_next_ino s"] by (cases "fmlookup (fs_nodes s) (fs_next_ino s)") (auto simp: content_def)

lemma createdI:
  assumes "memfs_wf s" "entry_ok s en" "en_node en = None" "creatable mode target"
    and "becomes s t (ent_upd (kid s) (en_parent en) (en_name en) (Some (fs_next_ino s)))
        ((content s)(fs_next_ino s \<mapsto> (file_type_from_mode mode, [], target)))"
  shows "created en (file_type_from_mode mode) target (fs_next_ino s) s t"
  using assms entry_parent_live entry_free next_fresh by (auto simp: created_def creatable_def)

lemma mode_type:
  "(S_IFREG OR masked_mode m u) AND S_IFMT = mode_bits File" "(S_IFDIR OR masked_mode m u) AND S_IFMT = mode_bits Directory"
  "(S_IFLNK OR 0x1FF) AND S_IFMT = mode_bits Symlink"
  "(mode_bits kind OR (m AND NOT S_IFMT AND NOT u AND PERM_MASK)) AND S_IFMT = mode_bits kind"
  using mode_bits_masked [of File] mode_bits_masked [of Directory]
  by (simp_all add: masked_mode_def masked_or_perm3 masked_or_perm4) (simp add: mode_consts)

lemma created_modes [simp]:
  "file_type_from_mode (S_IFREG OR masked_mode m u) = File" "file_type_from_mode (S_IFDIR OR masked_mode m u) = Directory"
  "file_type_from_mode (S_IFLNK OR 0x1FF) = Symlink"
  "file_type_from_mode (mode_bits kind OR (m AND NOT S_IFMT AND NOT u AND PERM_MASK)) = kind"
  using mode_type by (blast intro: from_mode_of_bits)+

lemma creatable_modes [simp]:
  "creatable (S_IFREG OR masked_mode m u) None" "creatable (S_IFDIR OR masked_mode m u) None"
  "creatable (S_IFLNK OR 0x1FF) (Some t)"
  "kind \<noteq> Symlink \<Longrightarrow> creatable (mode_bits kind OR (m AND NOT S_IFMT AND NOT u AND PERM_MASK)) None"
  unfolding creatable_def mode_type created_modes by simp_all

lemma mkdir_one_ok:
  assumes wf: "memfs_wf s0" and plain: "\<not> mo_recursive options"
  shows "run_ok s0 (fs_mkdir env path options) (\<lambda>r t. r = None \<and> (\<exists>en. walk s0 (normalize_path path) False ''mkdir'' 0 = Inr en
    \<and> en_node en = None \<and> created en Directory None (fs_next_ino s0) s0 t))"
  unfolding fs_mkdir_def Let_def if_not_P [OF plain]
proof (rule run_ok_if [OF run_ok_fail], rule run_ok_bind_read, rule run_ok_walk, rule run_ok_if [OF run_ok_fail])
  fix mode s en
  assume m: "Inr (S_IFDIR OR masked_mode (case mo_mode options of None \<Rightarrow> 0x1FF | Some m \<Rightarrow> m) (fs_umask s)) = (Inr mode :: u32 result)"
    and w: "walk s0 (normalize_path path) False ''mkdir'' 0 = Inr en" and n: "\<not> en_node en \<noteq> None"
  have c: "creatable mode None" "file_type_from_mode mode = Directory" using m by auto
  show "run_ok s0 (sbind (create_node env mode 0 None) (\<lambda>i. sbind (link_entry env en i) (\<lambda>_. sret None)))
     (\<lambda>r t. r = None \<and> (\<exists>en. walk s0 (normalize_path path) False ''mkdir'' 0 = Inr en
    \<and> en_node en = None \<and> created en Directory None (fs_next_ino s0) s0 t))"
    using n w c(2) createdI [OF wf walk_entry_ok [OF w] _ c(1)]
    by (intro run_ok_create_link [OF wf walk_entry_ok [OF w] _ c(1)] must_ret) auto
qed

lemma symlink_ok:
  assumes wf: "memfs_wf s0"
  shows "run_ok s0 (fs_symlink env target path) (\<lambda>_ t. target \<noteq> [] \<and> (\<exists>en. walk s0 path False ''symlink'' 0 = Inr en
    \<and> en_node en = None \<and> created en Symlink (Some target) (fs_next_ino s0) s0 t))"
  unfolding fs_symlink_def
proof (rule run_ok_walk, rule run_ok_if [OF run_ok_fail], rule run_ok_if [OF run_ok_fail])
  fix en assume w: "walk s0 path False ''symlink'' 0 = Inr en" and n: "\<not> en_node en \<noteq> None" and t: "target \<noteq> []"
  show "run_ok s0 (sbind (create_node env (S_IFLNK OR 0x1FF) 0 (Some target)) (\<lambda>i. link_entry env en i))
     (\<lambda>_ t. target \<noteq> [] \<and> (\<exists>en. walk s0 path False ''symlink'' 0 = Inr en
    \<and> en_node en = None \<and> created en Symlink (Some target) (fs_next_ino s0) s0 t))"
    using n w t createdI [OF wf walk_entry_ok [OF w] _ creatable_modes(3)]
    by (intro run_ok_create_link_end [OF wf walk_entry_ok [OF w] _ creatable_modes(3)]) auto
qed

lemma mknod_ok:
  assumes wf: "memfs_wf s0"
  shows "run_ok s0 (fs_mknod env path mode dev) (\<lambda>_ t. \<exists>en ft. walk s0 path False ''mknod'' 0 = Inr en
    \<and> ft = file_type_from_mode mode \<and> (is_special ft \<or> ft = File)
    \<and> en_node en = None \<and> created en ft None (fs_next_ino s0) s0 t)"
  unfolding fs_mknod_def Let_def
proof (rule run_ok_bind_read, rule run_ok_walk, rule run_ok_if [OF run_ok_fail], rule run_ok_if [OF run_ok_fail])
  fix umask s en
  let ?ft = "file_type_from_mode mode"
  assume w: "walk s0 path False ''mknod'' 0 = Inr en" and n: "\<not> en_node en \<noteq> None"
    and k: "\<not> (\<not> is_special ?ft \<and> ?ft \<noteq> File)"
  have c: "creatable (mode_bits ?ft OR (mode AND NOT S_IFMT AND NOT umask AND PERM_MASK)) None"
    using k by (intro creatable_modes(4)) auto
  show "run_ok s0 (sbind (create_node env (mode_bits ?ft OR (mode AND NOT S_IFMT AND NOT umask AND PERM_MASK))
                  (if ?ft = CharacterDevice \<or> ?ft = BlockDevice then dev else 0) None) (\<lambda>i. link_entry env en i))
     (\<lambda>_ t. \<exists>en ft. walk s0 path False ''mknod'' 0 = Inr en \<and> ft = ?ft \<and> (is_special ft \<or> ft = File)
    \<and> en_node en = None \<and> created en ft None (fs_next_ino s0) s0 t)"
    using n w k createdI [OF wf walk_entry_ok [OF w] _ c]
    by (intro run_ok_create_link_end [OF wf walk_entry_ok [OF w] _ c]) auto
qed

end
