(* ===== verification/Mem_Fs_Files.thy ===== *)
theory Mem_Fs_Files
  imports Mem_Fs_Calls
begin

text \<open>
  The calls of the memory file system on contents and attributes: opening, reading, writing and
  truncating files, listing directories, and the calls that change only times, owners and
  permissions.
\<close>

section \<open>Contents\<close>

lemma content_types:
  assumes "memfs_wf s" "content s i = Some (ft, d, tg)"
  shows "ft \<noteq> File \<Longrightarrow> d = []" "ft \<noteq> Symlink \<longleftrightarrow> tg = None"
  using assms wf_node_ok [OF assms(1)]
  by (auto simp: content_Some node_content_def node_ok_def is_symlink_def)

lemma content_file: "memfs_wf s \<Longrightarrow> content s i = Some (File, d, tg) \<Longrightarrow> tg = None"
  using content_types(2) by blast

definition written :: "nat \<Rightarrow> bytes \<Rightarrow> mem_state \<Rightarrow> mem_state \<Rightarrow> bool" where
  "written i d s t \<longleftrightarrow> becomes s t (kid s) ((content s)(i \<mapsto> (File, d, None))) \<and> (\<exists>d0. content s i = Some (File, d0, None))"

lemma written_step: "written i d s t \<Longrightarrow> same_state t u \<Longrightarrow> written i d s u"
  using becomes_step by (auto simp: written_def)

lemma same_content: "same_state s0 s \<Longrightarrow> content s = content s0"
  by (rule same_state_content)

lemma run_ok_resize_file:
  assumes "memfs_wf s0" "content s0 i = Some (File, d, None)"
    and "\<And>t. written i (resize_bytes len d) s0 t \<Longrightarrow> must t (g ()) Q"
  shows "run_ok s0 (sbind (resize env i len sc) g) Q"
proof -
  obtain n where n: "fmlookup (fs_nodes s0) i = Some n" "node_file_type n = File" "nd_data n = d"
    using assms(2) by (auto simp: content_Some node_content_def)
  show ?thesis
    using assms(2,3) n(3) by (intro run_ok_resize [OF assms(1) n(1,2)]) (auto simp: written_def)
qed

lemma must_splice:
  assumes wf: "memfs_wf s" and i: "content s i = Some (File, d, None)" and len: "start + length buffer \<le> length d"
    and post: "\<And>t. written i (splice start buffer d) s t \<Longrightarrow> Q () t"
  shows "must s (smodify (upd_node i (\<lambda>n. n\<lparr>nd_data := splice start buffer (nd_data n)\<rparr>))) Q"
proof (rule must_modify, rule post)
  obtain n where n: "fmlookup (fs_nodes s) i = Some n" "node_file_type n = File" "nd_data n = d" "nd_target n = None"
    using i by (auto simp: content_Some node_content_def)
  have "length (splice start buffer d) = length d" using len by (simp add: splice_def)
  then have "node_blocks (n\<lparr>nd_data := splice start buffer d\<rparr>) = node_blocks n"
    using n by (simp add: node_blocks_def node_size_def is_directory_def node_file_type_def)
  then have "becomes s (upd_node i (\<lambda>n. n\<lparr>nd_data := splice start buffer (nd_data n)\<rparr>) s) (kid s)
      ((content s)(i \<mapsto> (File, splice start buffer d, None)))"
    using n by (intro becomes_data [OF wf n(1,2)]) (auto simp: upd_node_def)
  then show "written i (splice start buffer d) s (upd_node i (\<lambda>n. n\<lparr>nd_data := splice start buffer (nd_data n)\<rparr>) s)"
    using i by (simp add: written_def)
qed

section \<open>Opening\<close>

definition opened :: "open_flags \<Rightarrow> entry \<Rightarrow> nat \<Rightarrow> mem_state \<Rightarrow> mem_state \<Rightarrow> bool" where
  "opened parsed en i s t \<longleftrightarrow>
     (case en_node en of
        None \<Rightarrow> of_create parsed \<and> created en File None i s t
      | Some j \<Rightarrow> i = j \<and> \<not> of_exclusive parsed
          \<and> ((\<exists>d. content s i = Some (File, d, None)) \<and> (if of_truncate parsed then written i [] s t else same_state s t)
             \<or> fs_dir s i \<and> \<not> of_write parsed \<and> same_state s t))"

lemma opened_step: "opened parsed en i s t \<Longrightarrow> same_state t u \<Longrightarrow> opened parsed en i s u"
  using becomes_step [of s t _ _ u] written_step [of i "[]" s t u] same_state_trans [of s t u]
  by (auto simp: opened_def created_def split: option.splits if_splits)

lemma open_existing_ok:
  assumes wf: "memfs_wf s0" and w: "walk s0 path True sc 0 = Inr en" "en_node en = Some i"
  shows "run_ok s0 (open_existing env parsed en i) (\<lambda>j t. opened parsed en j s0 t)"
  unfolding open_existing_def Let_def
proof (rule run_ok_if [OF run_ok_fail], rule run_ok_get_node, rule run_ok_if [OF run_ok_fail],
    rule run_ok_if [OF run_ok_fail], rule run_ok_if)
  fix n0 n
  assume x: "\<not> of_exclusive parsed" and n: "fmlookup (fs_nodes s0) i = Some n0" "same_shape n0 n"
    and d: "\<not> (node_file_type n = Directory \<and> of_write parsed)" and sp: "\<not> is_special (node_file_type n)"
  have "\<not> is_symlink n0" by (rule walk_follow_kind [OF wf w n(1)])
  then have ft: "node_file_type n0 = node_file_type n" "node_file_type n = File \<or> node_file_type n = Directory"
    using not_special_cases [OF sp] same_shape_type [OF n(2)] by (auto simp: is_symlink_def)
  have c: "content s0 i = Some (node_file_type n, nd_data n0, None)"
    using n(1) ft content_types(2) [OF wf, of i "node_file_type n0" "nd_data n0" "nd_target n0"]
    by (auto simp: content_Some node_content_def)
  { assume t: "of_truncate parsed \<and> node_file_type n \<noteq> Directory"
    then have "content s0 i = Some (File, nd_data n0, None)" using c ft by simp
    then show "run_ok s0 (sbind (resize env i 0 ''truncate'') (\<lambda>_. sbind (touch_mc env i) (\<lambda>_. sret i)))
        (\<lambda>j t. opened parsed en j s0 t)"
      using t x w(2)
      by (intro run_ok_resize_file [OF wf] must_bind must_touch_mc must_ret)
        (auto simp: opened_def resize_bytes_def intro: written_step) }
  assume "\<not> (of_truncate parsed \<and> node_file_type n \<noteq> Directory)"
  then show "run_ok s0 (sret i) (\<lambda>j t. opened parsed en j s0 t)"
    using c d ft x w(2) by (intro run_ok_ret) (auto simp: opened_def fs_dir_content)
qed

lemma open_create_ok:
  assumes wf: "memfs_wf s0" and w: "walk s0 path ff sc 0 = Inr en" "en_node en = None"
  shows "run_ok s0 (open_create env parsed en mode umask) (\<lambda>j t. opened parsed en j s0 t)"
  unfolding open_create_def
  using w(2) createdI [OF wf walk_entry_ok [OF w(1)] w(2) creatable_modes(1)]
  by (intro run_ok_if [OF run_ok_fail] run_ok_create_link [OF wf walk_entry_ok [OF w(1)] w(2) creatable_modes(1)] must_ret)
    (auto simp: opened_def)

text \<open>What an opened handle is, and what opening did to the file system.\<close>

definition open_result :: "string \<Rightarrow> open_flags \<Rightarrow> mem_state \<Rightarrow> mem_handle \<times> path_identity \<Rightarrow> mem_state \<Rightarrow> bool" where
  "open_result path parsed s r t \<longleftrightarrow> (case r of (h, identity) \<Rightarrow>
     identity = \<lparr>pi_dev = 0, pi_ino = mh_node h\<rparr> \<and> mh_flags h = parsed \<and> mh_position h = 0 \<and> \<not> mh_closed h
     \<and> has_valid_truncate_access parsed
     \<and> (\<exists>en. walk s (normalize_path path) (\<not> (of_create parsed \<and> of_exclusive parsed)) ''open'' 0 = Inr en
           \<and> opened parsed en (mh_node h) s t))"

lemma open_flags_locked_ok:
  assumes wf: "memfs_wf s0"
  shows "run_ok s0 (open_flags_locked env path parsed mode) (open_result path parsed s0)"
  unfolding open_flags_locked_def Let_def
proof (rule run_ok_if [OF run_ok_fail], rule run_ok_bind_read, rule run_ok_walk)
  fix umask s en
  let ?ff = "\<not> (of_create parsed \<and> of_exclusive parsed)"
  assume v: "\<not> \<not> has_valid_truncate_access parsed" and w: "walk s0 (normalize_path path) ?ff ''open'' 0 = Inr en"
  show "run_ok s0 (sbind (case en_node en of Some i \<Rightarrow> open_existing env parsed en i
             | None \<Rightarrow> open_create env parsed en mode umask) (\<lambda>i.
      sbind (sread (\<lambda>s. Inr (fs_next_fd s))) (\<lambda>fd.
      sbind (smodify (\<lambda>s. s\<lparr>fs_next_fd := fs_next_fd s + 1\<rparr>)) (\<lambda>_.
      sret (\<lparr>mh_node = i, mh_flags = parsed, mh_path = normalize_path path, mh_fd = fd,
             mh_position = 0, mh_closed = False\<rparr>, \<lparr>pi_dev = 0, pi_ino = i\<rparr>))))) (open_result path parsed s0)"
  proof (rule run_ok_bind [where R = "\<lambda>i t. opened parsed en i s0 t"])
    show "run_ok s0 (case en_node en of Some i \<Rightarrow> open_existing env parsed en i
        | None \<Rightarrow> open_create env parsed en mode umask) (\<lambda>i t. opened parsed en i s0 t)"
    proof (rule run_ok_option)
      fix i assume i: "en_node en = Some i"
      show "run_ok s0 (open_existing env parsed en i) (\<lambda>i t. opened parsed en i s0 t)"
      proof (cases "of_exclusive parsed")
        case True
        then show ?thesis by (simp add: open_existing_def run_ok_fail)
      next
        case False
        then show ?thesis using open_existing_ok [OF wf _ i] w by simp
      qed
    qed (rule open_create_ok [OF wf w])
    fix i t assume "opened parsed en i s0 t"
    then have "opened parsed en i s0 (t\<lparr>fs_next_fd := fs_next_fd t + 1\<rparr>)" by (rule opened_step) simp
    then show "must t (sbind (sread (\<lambda>s. Inr (fs_next_fd s))) (\<lambda>fd.
      sbind (smodify (\<lambda>s. s\<lparr>fs_next_fd := fs_next_fd s + 1\<rparr>)) (\<lambda>_.
      sret (\<lparr>mh_node = i, mh_flags = parsed, mh_path = normalize_path path, mh_fd = fd,
             mh_position = 0, mh_closed = False\<rparr>, \<lparr>pi_dev = 0, pi_ino = i\<rparr>)))) (open_result path parsed s0)"
      using v w by (intro must_bind must_read [OF refl] must_modify must_ret) (auto simp: open_result_def)
  qed
qed

lemma open_flags_ok:
  assumes "memfs_wf s0"
  shows "run_ok s0 (fs_open_flags env path parsed mode) (\<lambda>h t. \<exists>identity. open_result path parsed s0 (h, identity) t)"
  unfolding fs_open_flags_def
  by (rule run_ok_bind [OF open_flags_locked_ok [OF assms]]) (auto intro!: must_ret split: prod.splits)

lemma open_ok:
  assumes "memfs_wf s0"
  shows "run_ok s0 (fs_open env path flags mode) (\<lambda>h t. \<exists>parsed identity.
    open_flags_parse flags (normalize_path path) = Inr parsed \<and> open_result (normalize_path path) parsed s0 (h, identity) t)"
  unfolding fs_open_def Let_def
proof (rule run_ok_bind_read, rule run_ok_mono)
  fix parsed s assume "open_flags_parse flags (normalize_path path) = Inr parsed"
  then show "\<exists>identity. open_result (normalize_path path) parsed s0 (h, identity) t \<Longrightarrow> \<exists>parsed identity.
    open_flags_parse flags (normalize_path path) = Inr parsed \<and> open_result (normalize_path path) parsed s0 (h, identity) t" for h t
    by blast
qed (rule open_flags_ok [OF assms])

section \<open>Truncation and attributes\<close>

lemma resolve_entry:
  assumes "resolve s path ff sc = Inr i"
  shows "\<exists>en. walk s path ff sc 0 = Inr en \<and> en_node en = Some i"
  using assms by (auto simp: resolve_def)

lemma content_of_node: "fmlookup (fs_nodes s0) i = Some n0 \<Longrightarrow> content s0 i = Some (node_content n0)"
  by (simp add: content_def)

lemma truncate_ok:
  assumes wf: "memfs_wf s0"
  shows "run_ok s0 (fs_truncate env path len) (\<lambda>_ t. \<exists>i d. resolve s0 path True ''truncate'' = Inr i
    \<and> content s0 i = Some (File, d, None) \<and> written i (resize_bytes len d) s0 t)"
  unfolding fs_truncate_def Let_def
proof (rule run_ok_resolve, rule run_ok_get_node, rule run_ok_if [OF run_ok_fail], rule run_ok_if [OF run_ok_fail])
  fix i n0 n
  assume r: "resolve s0 path True ''truncate'' = Inr i" and n: "fmlookup (fs_nodes s0) i = Some n0" "same_shape n0 n"
    and k: "node_file_type n \<noteq> Directory" "\<not> is_special (node_file_type n)"
  obtain en where en: "walk s0 path True ''truncate'' 0 = Inr en" "en_node en = Some i" using resolve_entry [OF r] by blast
  have "\<not> is_symlink n0" by (rule walk_follow_kind [OF wf en n(1)])
  then have ft: "node_file_type n0 = File"
    using k not_special_cases [OF k(2)] same_shape_type [OF n(2)] by (auto simp: is_symlink_def)
  then have c: "content s0 i = Some (File, nd_data n0, None)"
    using content_of_node [OF n(1)] content_file [OF wf, of i "nd_data n0"] by (auto simp: node_content_def)
  show "run_ok s0 (sbind (resize env i len ''truncate'') (\<lambda>_. sbind (get_node i estale) (\<lambda>_. touch_mc env i)))
     (\<lambda>_ t. \<exists>i d. resolve s0 path True ''truncate'' = Inr i \<and> content s0 i = Some (File, d, None)
       \<and> written i (resize_bytes len d) s0 t)"
  proof (rule run_ok_resize_file [OF wf c], rule must_bind)
    fix t assume t: "written i (resize_bytes len (nd_data n0)) s0 t"
    then obtain m where m: "fmlookup (fs_nodes t) i = Some m"
      by (auto simp: written_def becomes_def content_def fun_eq_iff split: if_splits)
    show "must t (get_node i estale) (\<lambda>_ t. must t (touch_mc env i) (\<lambda>_ t. \<exists>i d. resolve s0 path True ''truncate'' = Inr i
        \<and> content s0 i = Some (File, d, None) \<and> written i (resize_bytes len d) s0 t))"
      using r c written_step [OF t] by (intro must_get [OF m] must_touch_mc) blast
  qed
qed

text \<open>Calls that change only times, owners and permissions, or nothing at all.\<close>

named_theorems attr_only

lemma attr_chmod [attr_only]: "keeps (same_state s0) (fs_chmod env path mode)"
  unfolding fs_chmod_def fs_resolve_def
  by (intro keeps_intro keeps_same_upd) (simp add: chmod_node_def same_shape_def masked_or_perm)

lemma attr_chown [attr_only]: "keeps (same_state s0) (fs_chown env path uid gid follow sc)"
  unfolding fs_chown_def fs_resolve_def by (intro keeps_intro keeps_same_upd) (simp add: same_shape_def)

lemma attr_utimes [attr_only]: "keeps (same_state s0) (fs_utimes env path a m follow sc)"
  unfolding fs_utimes_def fs_resolve_def by (intro keeps_intro keeps_same_upd) (simp add: same_shape_def)

lemma attr_queries [attr_only]:
  "keeps (same_state s0) (fs_stat path)" "keeps (same_state s0) (fs_lstat path)" "keeps (same_state s0) (fs_statfs path)"
  "keeps (same_state s0) (fs_readlink path)" "keeps (same_state s0) (handle_stat h)"
  unfolding fs_stat_def fs_lstat_def fs_statfs_def fs_readlink_def fs_resolve_def handle_stat_def by (intro keeps_intro)+

lemma attr_readdir [attr_only]: "keeps (same_state s0) (readdir_with_limit env path limit)"
  unfolding readdir_with_limit_def fs_resolve_def by (intro keeps_intro keeps_same_upd) (simp add: same_shape_def)

section \<open>Handles\<close>

lemma begin_content:
  assumes wf: "memfs_wf s" and b: "handle_begin h w sc s = Inr ()"
    and k: "\<And>ft d tg. content s (mh_node h) = Some (ft, d, tg) \<Longrightarrow> ft \<noteq> Symlink"
  shows "\<exists>d. content s (mh_node h) = Some (File, d, None)"
proof -
  obtain n where n: "fmlookup (fs_nodes s) (mh_node h) = Some n" "\<not> is_directory n" "\<not> is_special (node_file_type n)"
    using b by (auto simp: handle_begin_def split: if_splits)
  then have "node_file_type n = File"
    using k not_special_cases content_of_node [OF n(1)] by (auto simp: node_content_def is_directory_def)
  then show ?thesis
    using content_of_node [OF n(1)] content_file [OF wf] by (fastforce simp: node_content_def)
qed

text \<open>A read under the lock: the bytes at the position, and the position after them.\<close>

lemma handle_read_locked_ok:
  assumes c: "content s (mh_node h) = Some (File, d, None)"
  shows "must s (handle_read_locked env h len position) (\<lambda>(bs, h') t. same_state s t
    \<and> (let from = (case position of Some p \<Rightarrow> p | None \<Rightarrow> mh_position h) in
       bs = take len (drop from d)
       \<and> h' = (if position = None then h\<lparr>mh_position := saturating_add (mh_position h) (length bs)\<rparr> else h)))"
proof -
  obtain n where n: "fmlookup (fs_nodes s) (mh_node h) = Some n" "nd_data n = d"
    using c by (auto simp: content_Some node_content_def)
  let ?from = "case position of Some p \<Rightarrow> p | None \<Rightarrow> mh_position h"
  let ?count = "if ?from \<ge> length d then 0 else min len (length d - ?from)"
  have bs: "take ?count (drop ?from d) = take len (drop ?from d)" "length (take len (drop ?from d)) = ?count"
    by (auto simp: min_def)
  show ?thesis
    unfolding handle_read_locked_def
    by (rule must_bind, rule must_get [OF n(1)])
      (use n(2) bs in \<open>auto simp: Let_def same_shape_def intro!: must_bind must_now must_attr must_ret
        intro: same_state_trans\<close>)
qed

text \<open>The contents after a write: the gap before the position is filled with zeros.\<close>

definition write_bytes :: "nat \<Rightarrow> bytes \<Rightarrow> bytes \<Rightarrow> bytes" where
  "write_bytes start buffer d =
     take start (d @ replicate (start - length d) 0) @ buffer @ drop (start + length buffer) d"

lemma splice_resize:
  assumes "start + length buffer > length d"
  shows "splice start buffer (resize_bytes (start + length buffer) d) = write_bytes start buffer d"
proof -
  let ?e = "start + length buffer"
  have "take start (resize_bytes ?e d) = take start (d @ replicate (start - length d) 0)"
    using assms by (auto simp: resize_bytes_def min_def)
  moreover have "drop ?e (resize_bytes ?e d) = []" by (simp add: resize_bytes_def)
  ultimately show ?thesis using assms by (simp add: splice_def write_bytes_def)
qed

lemma splice_inside: "start + length buffer \<le> length d \<Longrightarrow> splice start buffer d = write_bytes start buffer d"
  by (simp add: splice_def write_bytes_def)

lemma write_bytes_length: "length (write_bytes start buffer d) = max (length d) (start + length buffer)"
  by (auto simp: write_bytes_def)

lemma sbind_sret [simp]: "sbind (sret x) g = g x"
  by (simp add: sbind_def fun_eq_iff)

lemma run_ok_bind_val:
  assumes "\<And>s. same_state s0 s \<Longrightarrow> m s = (Inr v, s)" "run_ok s0 (g v) Q"
  shows "run_ok s0 (sbind m g) Q"
  using assms by (simp add: run_ok_def sbind_def)

lemma must_write_rest:
  assumes wf: "memfs_wf s" and c: "content s i = Some (File, d, None)"
    and len: "start + length buffer \<le> length d" "start \<le> U64_MAX"
    and post: "\<And>t. written i (splice start buffer d) s t \<Longrightarrow> Q r t"
  shows "must s (sbind (get_node i e) (\<lambda>_. sbind (sread (\<lambda>_. checked_position start)) (\<lambda>start.
     sbind (smodify (upd_node i (\<lambda>n. n\<lparr>nd_data := splice start buffer (nd_data n)\<rparr>))) (\<lambda>_.
     sbind (touch_mc env i) (\<lambda>_. sret r))))) Q"
proof -
  obtain n where n: "fmlookup (fs_nodes s) i = Some n" using c by (auto simp: content_Some)
  have p: "checked_position start = Inr start" using len(2) by (simp add: checked_position_def)
  show ?thesis
    by (rule must_bind, rule must_get [OF n], rule must_bind, rule must_read [OF p], rule must_bind,
        rule must_splice [OF wf c len(1)])
      (intro must_bind must_touch_mc must_ret post, erule (1) written_step)
qed

lemma written_trans:
  "written i d s t \<Longrightarrow> written i d' t u \<Longrightarrow> written i d' s u"
  using becomes_trans [of s t _ _ u] by (fastforce simp: written_def becomes_def)

definition write_from :: "mem_handle \<Rightarrow> nat option \<Rightarrow> bytes \<Rightarrow> nat" where
  "write_from h position d =
     (if of_append (mh_flags h) then length d else case position of Some p \<Rightarrow> p | None \<Rightarrow> mh_position h)"

lemma handle_write_locked_ok:
  assumes wf: "memfs_wf s0" and c: "content s0 (mh_node h) = Some (File, d, None)"
  shows "run_ok s0 (handle_write_locked env h buffer position) (\<lambda>(n, h') t. n = length buffer
    \<and> write_from h position d + length buffer \<le> U64_MAX
    \<and> written (mh_node h) (write_bytes (write_from h position d) buffer d) s0 t
    \<and> h' = (if of_append (mh_flags h) \<or> position = None
            then h\<lparr>mh_position := write_from h position d + length buffer\<rparr> else h))"
  unfolding handle_write_locked_def
proof (rule run_ok_bind_val [where v = "write_from h position d"], goal_cases)
  case (1 s)
  then have "content s (mh_node h) = Some (File, d, None)" using c same_content by simp
  then obtain n where "fmlookup (fs_nodes s) (mh_node h) = Some n" "nd_data n = d"
    by (auto simp: content_Some node_content_def)
  then show ?case by (simp add: write_from_def sbind_def get_node_def)
next
  case 2
  let ?from = "write_from h position d" and ?i = "mh_node h"
  show ?case
  proof (rule run_ok_bind_read, rule run_ok_get_node)
    fix e s n0 n
    assume "ok_or (checked_add ?from (length buffer)) (syscp Efbig ''write'' (mh_path h)) = Inr e"
      and n: "fmlookup (fs_nodes s0) ?i = Some n0" "same_shape n0 n"
    then have e: "e = ?from + length buffer" "e \<le> U64_MAX" by (auto simp: checked_add_def split: if_splits)
    have d: "nd_data n = d" using n c by (auto simp: content_def node_content_def same_shape_def)
    let ?Q = "\<lambda>(n, h') t. n = length buffer \<and> ?from + length buffer \<le> U64_MAX
       \<and> written ?i (write_bytes ?from buffer d) s0 t
       \<and> h' = (if of_append (mh_flags h) \<or> position = None then h\<lparr>mh_position := ?from + length buffer\<rparr> else h)"
    let ?r = "(length buffer, if of_append (mh_flags h) \<or> position = None then h\<lparr>mh_position := e\<rparr> else h)"
    let ?rest = "\<lambda>_ :: unit. sbind (get_node ?i (sysc Estale ''write'')) (\<lambda>_. sbind (sread (\<lambda>_. checked_position ?from)) (\<lambda>start.
       sbind (smodify (upd_node ?i (\<lambda>n. n\<lparr>nd_data := splice start buffer (nd_data n)\<rparr>))) (\<lambda>_.
       sbind (touch_mc env ?i) (\<lambda>_. sret ?r))))"
    show "run_ok s0 (sbind (swhen (e > length (nd_data n)) (resize env ?i e ''write'')) ?rest) ?Q"
    proof (cases "e > length d")
      case True
      have "run_ok s0 (sbind (resize env ?i e ''write'') ?rest) ?Q"
      proof (rule run_ok_resize_file [OF wf c])
        fix t assume t: "written ?i (resize_bytes e d) s0 t"
        then have ct: "memfs_wf t" "content t ?i = Some (File, resize_bytes e d, None)"
          by (auto simp: written_def becomes_def)
        have "written ?i (write_bytes ?from buffer d) s0 u" if "written ?i (splice ?from buffer (resize_bytes e d)) t u" for u
          using written_trans [OF t that] splice_resize [of d ?from buffer] True e by simp
        then show "must t (?rest ()) ?Q"
          using e by (intro must_write_rest [OF ct]) (auto simp: resize_bytes_def)
      qed
      then show ?thesis using True d by (simp add: swhen_def)
    next
      case False
      have "run_ok s0 (?rest ()) ?Q"
      proof (rule run_ok_must)
        fix s assume s: "same_state s0 s"
        have "written ?i (write_bytes ?from buffer d) s0 u" if "written ?i (splice ?from buffer d) s u" for u
          using that splice_inside [of ?from buffer d] False e becomes_before [OF s] same_content [OF s]
            same_state_view(1) [OF s] by (auto simp: written_def)
        then show "must s (?rest ()) ?Q"
          using e False c same_content [OF s] by (intro must_write_rest [OF same_state_wf [OF s wf]]) auto
      qed
      then show ?thesis using False d by (simp add: swhen_def)
    qed
  qed
qed

lemma handle_truncate_locked_ok:
  assumes wf: "memfs_wf s0" and c: "content s0 (mh_node h) = Some (File, d, None)"
  shows "run_ok s0 (handle_truncate_locked env h len) (\<lambda>_ t. written (mh_node h) (resize_bytes len d) s0 t)"
  unfolding handle_truncate_locked_def
proof (rule run_ok_resize_file [OF wf c], rule must_bind)
  fix t assume t: "written (mh_node h) (resize_bytes len d) s0 t"
  then obtain m where m: "fmlookup (fs_nodes t) (mh_node h) = Some m"
    by (auto simp: written_def becomes_def content_def fun_eq_iff split: if_splits)
  show "must t (get_node (mh_node h) estale) (\<lambda>_ t. must t (touch_mc env (mh_node h))
      (\<lambda>_ t. written (mh_node h) (resize_bytes len d) s0 t))"
    using written_step [OF t] by (intro must_get [OF m] must_touch_mc) blast
qed

text \<open>Admission to a file, and the written range read back.\<close>

lemma begin_file:
  assumes c: "content s (mh_node h) = Some (File, d, None)" and o: "\<not> mh_closed h"
    and f: "if w then of_write (mh_flags h) else of_read (mh_flags h)"
  shows "handle_begin h w sc s = Inr ()"
proof -
  obtain n where "fmlookup (fs_nodes s) (mh_node h) = Some n" "node_file_type n = File"
    using c by (auto simp: content_Some node_content_def)
  then show ?thesis using o f by (auto simp: handle_begin_def is_directory_def is_special_def split: if_splits)
qed

lemma write_bytes_inside: "take (length buffer) (drop start (write_bytes start buffer d)) = buffer"
  by (simp add: write_bytes_def)

end
