(* ===== verification/Mem_Fs_Abstract.thy ===== *)
theory Mem_Fs_Abstract
  imports Mem_Fs_Files
begin

text \<open>
  The abstract specification of the memory file system: a directory structure and the contents of
  the inodes, changed by creating, linking, removing, moving and writing. Every call that succeeds
  is such a change, or no change; a call that fails is no change. The exception is a recursive
  \<^verbatim>\<open>mkdir\<close>, which keeps the directories it created before it failed, and is a sequence of changes.
\<close>

section \<open>The specification\<close>

type_synonym afs = "(nat \<Rightarrow> string \<Rightarrow> nat option) \<times> (nat \<Rightarrow> inode_content option)"

definition is_adir :: "(nat \<Rightarrow> inode_content option) \<Rightarrow> nat \<Rightarrow> bool" where
  "is_adir C i \<longleftrightarrow> (case C i of Some (ft, _) \<Rightarrow> ft = Directory | None \<Rightarrow> False)"

text \<open>A directory that can take entries: the root, or one that has a name.\<close>

definition attached :: "nat \<Rightarrow> afs \<Rightarrow> nat \<Rightarrow> bool" where
  "attached root = (\<lambda>(K, C) p. is_adir C p \<and> (p = root \<or> (\<exists>q y. K q y = Some p)))"

inductive afs_step :: "nat \<Rightarrow> afs \<Rightarrow> afs \<Rightarrow> bool" for root where
  afs_create: "attached root (K, C) p \<Longrightarrow> K p x = None \<Longrightarrow> name_ok x \<Longrightarrow> C i = None \<Longrightarrow>
    (ft = Symlink \<longleftrightarrow> target \<noteq> None) \<Longrightarrow>
    afs_step root (K, C) (ent_upd K p x (Some i), C(i \<mapsto> (ft, [], target)))"
| afs_link: "attached root (K, C) p \<Longrightarrow> K p x = None \<Longrightarrow> name_ok x \<Longrightarrow> K q y = Some i \<Longrightarrow> \<not> is_adir C i \<Longrightarrow>
    afs_step root (K, C) (ent_upd K p x (Some i), C)"
| afs_unlink: "K p x = Some c \<Longrightarrow> (is_adir C c \<Longrightarrow> K c = Map.empty) \<Longrightarrow>
    afs_step root (K, C) (ent_upd K p x None, C)"
| afs_rename: "K p x = Some c \<Longrightarrow> attached root (K, C) q \<Longrightarrow> name_ok y \<Longrightarrow> K q y \<noteq> Some c \<Longrightarrow>
    (\<And>d. K q y = Some d \<Longrightarrow> is_adir C d = is_adir C c \<and> (is_adir C d \<longrightarrow> K d = Map.empty)) \<Longrightarrow>
    (is_adir C c \<Longrightarrow> (\<And>zs. tree_walk K c zs \<noteq> Some q)) \<Longrightarrow>
    afs_step root (K, C) (ent_upd (ent_upd K p x None) q y (Some c), C)"
| afs_write: "C i = Some (File, d, None) \<Longrightarrow> afs_step root (K, C) (K, C(i \<mapsto> (File, d', None)))"

definition afs_of :: "mem_state \<Rightarrow> afs" where
  "afs_of s = (kid s, content s)"

text \<open>The calls keep the invariant and take steps of the specification.\<close>

definition advances :: "mem_state \<Rightarrow> mem_state \<Rightarrow> bool" where
  "advances s t \<longleftrightarrow> memfs_wf t \<and> fs_root t = fs_root s \<and> fs_umask t = fs_umask s
     \<and> (afs_step (fs_root s))\<^sup>*\<^sup>* (afs_of s) (afs_of t)"

section \<open>Effects are steps\<close>

lemma is_adir_content: "is_adir (content s) i = fs_dir s i"
  by (auto simp: is_adir_def fs_dir_content split: option.splits)

lemma live_attached:
  assumes wf: "memfs_wf s" and "live_dir s p"
  shows "attached (fs_root s) (kid s, content s) p"
proof (cases "p = fs_root s")
  case False
  have "tree_reach (kid s) (live_dir s) (fs_root s) p" by (rule live_reach [OF assms])
  then show ?thesis
    using False assms(2) by cases (auto simp: attached_def is_adir_content live_dir_def)
qed (use assms in \<open>auto simp: attached_def is_adir_content live_dir_def\<close>)

lemma advances_same: "memfs_wf s \<Longrightarrow> same_state s t \<Longrightarrow> advances s t"
  using same_state_view [of s t] same_state_content [of s t] same_state_wf [of s t]
  by (simp add: advances_def afs_of_def same_state_def)

lemma advances_becomes:
  assumes "becomes s t K C" "afs_step (fs_root s) (afs_of s) (K, C)"
  shows "advances s t"
  using assms by (auto simp: advances_def becomes_def afs_of_def)

lemma advances_trans: "advances s t \<Longrightarrow> advances t u \<Longrightarrow> advances s u"
  unfolding advances_def by (metis rtranclp_trans)

lemma advances_wf: "advances s t \<Longrightarrow> memfs_wf t"
  by (simp add: advances_def)

lemma advances_created: "memfs_wf s \<Longrightarrow> created en ft tg i s t \<Longrightarrow> advances s t"
  unfolding created_def
  by (elim conjE, erule advances_becomes)
    (auto simp: afs_of_def intro!: afs_create live_attached)

lemma advances_linked: "memfs_wf s \<Longrightarrow> linked to i s t \<Longrightarrow> advances s t"
  unfolding linked_def
  by (elim conjE exE, erule advances_becomes)
    (auto simp: afs_of_def is_adir_content intro!: afs_link live_attached)

lemma advances_dropped:
  "dropped p x c s t \<Longrightarrow> kid s p x = Some c \<Longrightarrow> (fs_dir s c \<Longrightarrow> kid s c = Map.empty) \<Longrightarrow> advances s t"
  unfolding dropped_def
  by (elim conjE, erule advances_becomes)
    (auto simp: afs_of_def is_adir_content intro!: afs_unlink)

lemma advances_moved:
  assumes wf: "memfs_wf s" and m: "moved from to c s t"
  shows "advances s t"
proof (rule advances_becomes)
  show "becomes s t (ent_upd (ent_upd (kid s) (en_parent from) (en_name from) None) (en_parent to) (en_name to) (Some c)) (content s)"
    using m by (simp add: moved_def)
  show "afs_step (fs_root s) (afs_of s)
     (ent_upd (ent_upd (kid s) (en_parent from) (en_name from) None) (en_parent to) (en_name to) (Some c), content s)"
    unfolding afs_of_def
    by (rule afs_rename) (use m live_attached [OF wf] in \<open>auto simp: moved_def is_adir_content\<close>)
qed

lemma advances_written: "written i d s t \<Longrightarrow> advances s t"
  unfolding written_def
  by (elim conjE exE, erule advances_becomes) (auto simp: afs_of_def intro: afs_write)

lemma advances_opened:
  assumes "memfs_wf s" "opened parsed en i s t"
  shows "advances s t"
  using assms advances_created advances_written advances_same
  by (auto simp: opened_def split: option.splits if_splits)

lemma dropped_entry:
  "entry_ok s en \<Longrightarrow> en_node en = Some c \<Longrightarrow> c \<noteq> fs_root s \<Longrightarrow> (fs_dir s c \<Longrightarrow> kid s c = Map.empty) \<Longrightarrow>
   dropped (en_parent en) (en_name en) c s t \<Longrightarrow> advances s t"
  by (rule advances_dropped) (auto dest: entry_taken)

section \<open>Calls\<close>

named_theorems call_ok

lemma adv_attr: "memfs_wf s0 \<Longrightarrow> keeps (same_state s0) m \<Longrightarrow> run_ok s0 m (\<lambda>_ t. advances s0 t)"
  by (rule run_ok_attr) (auto intro: advances_same)

lemma adv_unlink [call_ok]: "memfs_wf s0 \<Longrightarrow> run_ok s0 (fs_unlink env path) (\<lambda>_ t. advances s0 t)"
  by (rule run_ok_mono [OF unlink_ok])
    (auto dest: walk_entry_ok dropped_entry [rotated 4] dir_not_root)

lemma adv_rmdir [call_ok]: "memfs_wf s0 \<Longrightarrow> run_ok s0 (fs_rmdir env path) (\<lambda>_ t. advances s0 t)"
  by (rule run_ok_mono [OF rmdir_ok]) (auto dest: walk_entry_ok dropped_entry [rotated 4])

lemma adv_rename [call_ok]: "memfs_wf s0 \<Longrightarrow> run_ok s0 (fs_rename env old new) (\<lambda>_ t. advances s0 t)"
  by (rule run_ok_mono [OF rename_ok]) (auto intro: advances_same advances_moved split: if_splits)

lemma adv_link [call_ok]: "memfs_wf s0 \<Longrightarrow> run_ok s0 (fs_link env old new) (\<lambda>_ t. advances s0 t)"
  by (rule run_ok_mono [OF link_ok]) (auto intro: advances_linked)

lemma adv_symlink [call_ok]: "memfs_wf s0 \<Longrightarrow> run_ok s0 (fs_symlink env target path) (\<lambda>_ t. advances s0 t)"
  by (rule run_ok_mono [OF symlink_ok]) (auto intro: advances_created)

lemma adv_mknod [call_ok]: "memfs_wf s0 \<Longrightarrow> run_ok s0 (fs_mknod env path mode dev) (\<lambda>_ t. advances s0 t)"
  by (rule run_ok_mono [OF mknod_ok]) (auto intro: advances_created)

lemma adv_truncate [call_ok]: "memfs_wf s0 \<Longrightarrow> run_ok s0 (fs_truncate env path len) (\<lambda>_ t. advances s0 t)"
  by (rule run_ok_mono [OF truncate_ok]) (auto intro: advances_written)

lemma open_result_advances: "memfs_wf s0 \<Longrightarrow> open_result path parsed s0 r t \<Longrightarrow> advances s0 t"
  by (auto simp: open_result_def intro: advances_opened split: prod.splits)

lemma adv_open [call_ok]: "memfs_wf s0 \<Longrightarrow> run_ok s0 (fs_open env path flags mode) (\<lambda>_ t. advances s0 t)"
  by (rule run_ok_mono [OF open_ok]) (auto intro: open_result_advances)

lemma adv_open_flags [call_ok]: "memfs_wf s0 \<Longrightarrow> run_ok s0 (fs_open_flags env path parsed mode) (\<lambda>_ t. advances s0 t)"
  by (rule run_ok_mono [OF open_flags_ok]) (auto intro: open_result_advances)

lemma run_advances:
  assumes "run_ok s m (\<lambda>_ t. advances s t)" "memfs_wf s" "m s = (r, t)"
  shows "advances s t"
  using run_okD [OF assms(1,3)] advances_same [OF assms(2)] by (auto split: sum.splits)

section \<open>Recursive mkdir\<close>

lemma sfold_advances:
  assumes step: "\<And>acc x s. memfs_wf s \<Longrightarrow> run_ok s (f acc x) (\<lambda>_ t. advances s t)"
    and "memfs_wf s" "sfold f acc xs s = (r, t)"
  shows "advances s t"
  using assms(2,3)
proof (induction xs arbitrary: acc s)
  case Nil
  then show ?case by (auto intro: advances_same)
next
  case (Cons x xs)
  obtain r1 s1 where one: "f acc x s = (r1, s1)" by fastforce
  have a: "advances s s1" by (rule run_advances [OF step [OF Cons.prems(1)] Cons.prems(1) one])
  show ?case
  proof (cases r1)
    case (Inl e)
    then show ?thesis using one a Cons.prems(2) by (auto simp: sbind_def)
  next
    case (Inr acc')
    then have "sfold f acc' xs s1 = (r, t)" using one Cons.prems(2) by (simp add: sbind_def)
    then show ?thesis using advances_trans [OF a] Cons.IH [OF advances_wf [OF a]] by blast
  qed
qed

lemma mkdir_segment_ok:
  assumes wf: "memfs_wf s0" and m: "creatable mode None" "file_type_from_mode mode = Directory"
  shows "run_ok s0 (mkdir_segment env nz mode (cur, first) seg) (\<lambda>(cur', first') t.
    cur' = (if cur \<noteq> ''/'' then cur @ ''/'' else cur) @ seg \<and>
    (\<exists>en. walk s0 cur' True ''mkdir'' 0 = Inr en \<and>
      (case en_node en of
         Some i \<Rightarrow> fs_dir s0 i \<and> first' = first \<and> same_state s0 t
       | None \<Rightarrow> first' = (case first of None \<Rightarrow> Some cur' | Some f \<Rightarrow> Some f)
                 \<and> created en Directory None (fs_next_ino s0) s0 t)))"
  unfolding mkdir_segment_def Let_def prod.case
proof (rule run_ok_walk, rule run_ok_option)
  let ?cur = "(if cur \<noteq> ''/'' then cur @ ''/'' else cur) @ seg"
  let ?Q = "\<lambda>(cur', first') t.
    cur' = ?cur \<and> (\<exists>en. walk s0 cur' True ''mkdir'' 0 = Inr en \<and>
      (case en_node en of
         Some i \<Rightarrow> fs_dir s0 i \<and> first' = first \<and> same_state s0 t
       | None \<Rightarrow> first' = (case first of None \<Rightarrow> Some cur' | Some f \<Rightarrow> Some f)
                 \<and> created en Directory None (fs_next_ino s0) s0 t))"
  fix en assume w: "walk s0 ?cur True ''mkdir'' 0 = Inr en"
  { assume n: "en_node en = None"
    then show "run_ok s0 (sbind (create_node env mode 0 None) (\<lambda>i. sbind (link_entry env en i) (\<lambda>_.
          sret (?cur, case first of None \<Rightarrow> Some ?cur | Some f \<Rightarrow> Some f)))) ?Q"
      using w createdI [OF wf walk_entry_ok [OF w] n m(1)] m(2)
      by (intro run_ok_create_link [OF wf walk_entry_ok [OF w] n m(1)] must_ret) auto }
  fix i assume i: "en_node en = Some i"
  show "run_ok s0 (sbind (sread (\<lambda>s. Inr (fs_dir s i))) (\<lambda>d.
          if \<not> d then sfail (syscp (if ?cur = nz then Eexist else Enotdir) ''mkdir'' ?cur)
          else sret (?cur, first))) ?Q"
    using w i by (intro run_ok_bind_read run_ok_if [OF run_ok_fail] run_ok_ret) (auto simp: same_dir)
qed

lemma mkdir_segment_advances:
  assumes "memfs_wf s0" "creatable mode None" "file_type_from_mode mode = Directory"
  shows "run_ok s0 (mkdir_segment env nz mode acc seg) (\<lambda>_ t. advances s0 t)"
  by (cases acc, simp only:, rule run_ok_mono [OF mkdir_segment_ok [OF assms]])
    (auto dest: advances_same [OF assms(1)] advances_created [OF assms(1)] split: option.splits)

lemma mkdir_advances:
  assumes wf: "memfs_wf s" and run: "fs_mkdir env path options s = (r, t)"
  shows "advances s t"
proof (cases "mo_recursive options \<and> CHR 0x00 \<notin> set path")
  case False
  have "run_ok s (fs_mkdir env path options) (\<lambda>_ t. advances s t)"
  proof (cases "mo_recursive options")
    case True
    then show ?thesis using False by (simp add: fs_mkdir_def run_ok_fail)
  next
    case False
    show ?thesis
      by (rule run_ok_mono [OF mkdir_one_ok [OF wf False]]) (auto dest: advances_created [OF wf])
  qed
  from run_advances [OF this wf run] show ?thesis .
next
  case True
  let ?mode = "S_IFDIR OR masked_mode (case mo_mode options of None \<Rightarrow> 0x1FF | Some m \<Rightarrow> m) (fs_umask s)"
  obtain r1 where "sfold (mkdir_segment env (normalize_path path) ?mode) (''/'', None) (split_path (normalize_path path)) s = (r1, t)"
    using run True by (auto simp: fs_mkdir_def sbind_def Let_def split: prod.splits sum.splits)
  from sfold_advances [OF _ wf this] show ?thesis by (simp add: mkdir_segment_advances)
qed

end
