(* ===== verification/Mem_Fs_Guard_Safety.thy ===== *)
theory Mem_Fs_Guard_Safety
  imports Mem_Fs_Abstract
begin

text \<open>
  Guarded requests of the memory file system: a request that succeeds has acted on the very inodes it
  was bound to, whatever happened to their paths before, and a request that fails has changed nothing.
\<close>

section \<open>Guards\<close>

lemma same_state_guard: "same_state s0 s \<Longrightarrow> check_path_guard s g sc = check_path_guard s0 g sc"
proof -
  assume s: "same_state s0 s"
  show ?thesis
  proof (cases "resolve s0 (normalize_path (pg_path g)) False sc")
    case (Inr i)
    show ?thesis
    proof (cases "fmlookup (fs_nodes s0) i")
      case None
      then show ?thesis using same_state_lookup(1) [OF s, of i] Inr same_state_resolve [OF s]
        by (simp add: check_path_guard_def Let_def)
    next
      case (Some n)
      then obtain m where "fmlookup (fs_nodes s) i = Some m" "same_shape n m" using same_state_lookup(2) [OF s] by blast
      then show ?thesis using Some Inr same_state_resolve [OF s] 
        by (simp add: check_path_guard_def same_shape_def Let_def)
    qed
  qed (simp add: check_path_guard_def same_state_resolve [OF s] Let_def)
qed

lemma same_state_child:
  "same_state s0 s \<Longrightarrow> guarded_child_entry s g name obs sc = guarded_child_entry s0 g name obs sc"
  unfolding guarded_child_entry_def by (simp only: same_state_guard same_state_walk same_dir)

text \<open>A guard that holds leads to the inode it names.\<close>

abbreviation guard_ino :: "path_guard \<Rightarrow> nat" where
  "guard_ino g \<equiv> pi_ino (pg_identity g)"

definition guard_holds :: "mem_state \<Rightarrow> path_guard \<Rightarrow> bool" where
  "guard_holds s g \<longleftrightarrow> pi_dev (pg_identity g) = 0
     \<and> (\<exists>sc. resolve s (normalize_path (pg_path g)) False sc = Inr (guard_ino g))"

lemma guard_inode:
  assumes "memfs_wf s" "check_path_guard s g sc = Inr i"
  shows "i = guard_ino g" "guard_holds s g"
proof -
  obtain n where r: "resolve s (normalize_path (pg_path g)) False sc = Inr i" and n: "fmlookup (fs_nodes s) i = Some n"
    "nd_ino n = guard_ino g" "pi_dev (pg_identity g) = 0"
    using assms(2) by (auto simp: check_path_guard_def Let_def split: if_splits sum.splits)
  show "i = guard_ino g" using wf_node_ok [OF assms(1) n(1)] n(2) by simp
  then show "guard_holds s g" using r n by (auto simp: guard_holds_def)
qed

definition observed_ok :: "observed_entry \<Rightarrow> nat option \<Rightarrow> bool" where
  "observed_ok obs v = (case obs of
     ObservedAny \<Rightarrow> True
   | ObservedAbsent \<Rightarrow> v = None
   | ObservedIdentity identity \<Rightarrow> pi_dev identity = 0 \<and> v = Some (pi_ino identity))"

text \<open>The entry of a name in the directory a guard names.\<close>

definition child_of :: "mem_state \<Rightarrow> path_guard \<Rightarrow> string \<Rightarrow> observed_entry \<Rightarrow> entry \<Rightarrow> bool" where
  "child_of s g name obs en \<longleftrightarrow> guard_holds s g \<and> (\<exists>cs. entry_at s cs en) \<and> en_parent en = guard_ino g
     \<and> en_name en = name \<and> en_node en = kid s (guard_ino g) name \<and> observed_ok obs (kid s (guard_ino g) name)"

lemma guarded_child:
  assumes wf: "memfs_wf s" and c: "guarded_child_entry s g name obs sc = Inr en"
  shows "child_of s g name obs en"
proof -
  have v: "valid_component name" using c by (auto simp: guarded_child_entry_def valid_component_def split: if_splits)
  have gd: "check_path_guard s g sc = Inr (en_parent en)"
    and w: "walk s (normalize_path (pg_path g @ ''/'' @ name)) False sc 0 = Inr en" and m: "matches_observed obs en"
    using c by (auto simp: guarded_child_entry_def split: if_splits)
  have n: "en_name en = name"
    using walk_last_name [OF w] norm_comps_child [OF v, of "pg_path g"] by simp
  then have "en \<noteq> root_entry s" using v by (auto simp: root_entry_def valid_component_def)
  then obtain cs where cs: "entry_at s cs en" using walk_entry_ok [OF w] by (auto simp: entry_ok_def)
  show ?thesis
    using guard_inode [OF wf gd] cs n m
    by (auto simp: child_of_def entry_at_def matches_observed_def observed_ok_def split: observed_entry.splits)
qed

lemma child_entry_ok: "child_of s g name obs en \<Longrightarrow> entry_ok s en"
  by (auto simp: child_of_def entry_ok_def)

lemma run_ok_guard:
  assumes wf: "memfs_wf s0"
    and "guard_holds s0 g \<Longrightarrow> run_ok s0 (f (guard_ino g)) Q"
  shows "run_ok s0 (sbind (sread (\<lambda>s. check_path_guard s g sc)) f) Q"
proof (rule run_ok_bind_read)
  fix i s assume "same_state s0 s" "check_path_guard s g sc = Inr i"
  then show "run_ok s0 (f i) Q" using guard_inode [OF wf, of g sc i] assms(2) by (simp add: same_state_guard)
qed

lemma run_ok_child:
  assumes wf: "memfs_wf s0"
    and "\<And>en. child_of s0 g name obs en \<Longrightarrow> run_ok s0 (f en) Q"
  shows "run_ok s0 (sbind (sread (\<lambda>s. guarded_child_entry s g name obs sc)) f) Q"
proof (rule run_ok_bind_read)
  fix en s assume "same_state s0 s" "guarded_child_entry s g name obs sc = Inr en"
  then show "run_ok s0 (f en) Q" using guarded_child [OF wf, of g name obs sc en] assms(2) by (simp add: same_state_child)
qed

section \<open>Inodes stay\<close>

lemma afs_step_keeps:
  "afs_step root A B \<Longrightarrow> snd A i = Some (ft, d, tg) \<Longrightarrow> \<exists>d'. snd B i = Some (ft, d', tg)"
  by (induction rule: afs_step.induct) auto

lemma afs_steps_keep:
  "(afs_step root)\<^sup>*\<^sup>* A B \<Longrightarrow> snd A i = Some (ft, d, tg) \<Longrightarrow> \<exists>d'. snd B i = Some (ft, d', tg)"
  by (induction arbitrary: d rule: converse_rtranclp_induct) (auto dest: afs_step_keeps)

lemma advances_content: "advances s t \<Longrightarrow> content s i = Some (ft, d, tg) \<Longrightarrow> \<exists>d'. content t i = Some (ft, d', tg)"
  using afs_steps_keep [of "fs_root s" "afs_of s" "afs_of t" i] by (auto simp: advances_def afs_of_def)

lemma advances_exists: "advances s t \<Longrightarrow> content s i \<noteq> None \<Longrightarrow> content t i \<noteq> None"
  using advances_content by fastforce

lemma dir_exists: "live_dir s i \<Longrightarrow> content s i \<noteq> None"
  by (auto simp: live_dir_def fs_dir_content)

section \<open>Mutations\<close>

lemma same_shape_setattr: "same_shape n (setattr_node c a b n)"
  by (auto simp: setattr_node_def Let_def same_shape_def chmod_node_def masked_or_perm split: option.splits)

text \<open>What each request has done when it succeeds.\<close>

fun guarded_effect :: "guarded_mutation \<Rightarrow> guarded_mutation_result \<Rightarrow> mem_state \<Rightarrow> mem_state \<Rightarrow> bool" where
  "guarded_effect (GM_Setattr target change) r s t \<longleftrightarrow> guard_holds s target \<and> r = MR_Applied \<and>
     (case gs_size change of
        None \<Rightarrow> same_state s t
      | Some len \<Rightarrow> \<exists>d. content s (guard_ino target) = Some (File, d, None)
                    \<and> written (guard_ino target) (resize_bytes len d) s t)"
| "guarded_effect (GM_Open parent name obs flags mode) r s t \<longleftrightarrow>
     (\<exists>en h. child_of s parent name obs en \<and> r = MR_Opened h \<lparr>pi_dev = 0, pi_ino = mh_node h\<rparr>
        \<and> mh_flags h = flags \<and> \<not> mh_closed h \<and> opened flags en (mh_node h) s t)"
| "guarded_effect (GM_Mkdir parent name mode) r s t \<longleftrightarrow>
     (\<exists>en i. child_of s parent name ObservedAny en \<and> r = MR_Created \<lparr>pi_dev = 0, pi_ino = i\<rparr> \<and> created en Directory None i s t)"
| "guarded_effect (GM_Symlink parent name target) r s t \<longleftrightarrow>
     (\<exists>en i. child_of s parent name ObservedAny en \<and> r = MR_Created \<lparr>pi_dev = 0, pi_ino = i\<rparr> \<and> created en Symlink (Some target) i s t)"
| "guarded_effect (GM_Mknod parent name mode dev) r s t \<longleftrightarrow>
     (\<exists>en i. child_of s parent name ObservedAny en \<and> r = MR_Created \<lparr>pi_dev = 0, pi_ino = i\<rparr>
        \<and> created en (file_type_from_mode mode) None i s t)"
| "guarded_effect (GM_Unlink parent name obs) r s t \<longleftrightarrow>
     (\<exists>en c. child_of s parent name obs en \<and> en_node en = Some c \<and> \<not> fs_dir s c \<and> r = MR_Applied
        \<and> dropped (guard_ino parent) name c s t)"
| "guarded_effect (GM_Rmdir parent name obs) r s t \<longleftrightarrow>
     (\<exists>en c. child_of s parent name obs en \<and> en_node en = Some c \<and> fs_dir s c \<and> kid s c = Map.empty \<and> r = MR_Applied
        \<and> dropped (guard_ino parent) name c s t)"
| "guarded_effect (GM_Rename from_parent from_name source to_parent to_name destination) r s t \<longleftrightarrow>
     (\<exists>from to c. child_of s from_parent from_name source from \<and> child_of s to_parent to_name destination to
        \<and> en_node from = Some c \<and> r = MR_Applied
        \<and> (if en_node to = Some c then same_state s t else moved from to c s t))"
| "guarded_effect (GM_Link source to_parent to_name destination) r s t \<longleftrightarrow>
     (\<exists>to. guard_holds s source \<and> child_of s to_parent to_name destination to \<and> r = MR_Applied
        \<and> linked to (guard_ino source) s t)"

lemma setattr_ok:
  assumes wf: "memfs_wf s0"
  shows "run_ok s0 (apply_guarded_setattr env target change)
    (\<lambda>_ t. guarded_effect (GM_Setattr target change) MR_Applied s0 t)"
  unfolding apply_guarded_setattr_def
proof (rule run_ok_guard [OF wf], rule run_ok_get_node, rule run_ok_if [OF run_ok_fail], rule run_ok_if [OF run_ok_fail],
    rule run_ok_if [OF run_ok_fail], rule run_ok_bind_attr, (intro keeps_intro)[1], rule run_ok_bind_attr, (intro keeps_intro)[1])
  fix n0 n nc nm
  let ?i = "guard_ino target"
  assume g: "guard_holds s0 target" and n: "fmlookup (fs_nodes s0) ?i = Some n0" "same_shape n0 n"
    and k: "\<not> (gs_size change \<noteq> None \<and> node_file_type n \<noteq> File)"
  let ?rest = "\<lambda>_ :: unit. sbind (get_node ?i (stale_guard (pg_path target) ''setattr'')) (\<lambda>_.
     smodify (upd_node ?i (setattr_node change nc nm)))"
  have rest: "must s (?rest ()) (\<lambda>_ t. guarded_effect (GM_Setattr target change) MR_Applied s0 t)"
    if ex: "content s ?i \<noteq> None" and eff: "\<And>t. same_state s t \<Longrightarrow> guarded_effect (GM_Setattr target change) MR_Applied s0 t" for s
  proof -
    obtain m where m: "fmlookup (fs_nodes s) ?i = Some m" using ex by (auto simp: content_def)
    show ?thesis by (rule must_bind, rule must_get [OF m], rule must_attr) (rule same_shape_setattr, erule eff)
  qed
  show "run_ok s0 (sbind (case gs_size change of None \<Rightarrow> sret () | Some len \<Rightarrow> resize env ?i len ''setattr'') ?rest)
     (\<lambda>_ t. guarded_effect (GM_Setattr target change) MR_Applied s0 t)"
  proof (cases "gs_size change")
    case None
    have "run_ok s0 (?rest ()) (\<lambda>_ t. guarded_effect (GM_Setattr target change) MR_Applied s0 t)"
      using n(1) g None same_state_trans by (intro run_ok_must rest) (auto simp: same_content content_def)
    then show ?thesis using None by simp
  next
    case (Some len)
    then have "node_file_type n0 = File" using k same_shape_type [OF n(2)] by simp
    then have c: "content s0 ?i = Some (File, nd_data n0, None)"
      using content_of_node [OF n(1)] content_file [OF wf, of ?i "nd_data n0"] by (auto simp: node_content_def)
    have "run_ok s0 (sbind (resize env ?i len ''setattr'') ?rest)
       (\<lambda>_ t. guarded_effect (GM_Setattr target change) MR_Applied s0 t)"
    proof (rule run_ok_resize_file [OF wf c], rule rest)
      fix t assume t: "written ?i (resize_bytes len (nd_data n0)) s0 t"
      then show "content t ?i \<noteq> None" by (auto simp: written_def becomes_def)
      show "guarded_effect (GM_Setattr target change) MR_Applied s0 u" if "same_state t u" for u
        using written_step [OF t that] c g Some by auto
    qed
    then show ?thesis using Some by simp
  qed
qed

lemma must_apply_some:
  assumes "content s i \<noteq> None" "\<And>t. same_state s t \<Longrightarrow> Q () t"
  shows "must s (apply_some i touch) Q"
  using assms by (cases touch) (auto simp: apply_some_def intro: must_ret must_apply_touch)

lemma keeps_open_check [keeps_intro]: "keeps (same_state s0) (guarded_open_check en obs flags)"
  unfolding guarded_open_check_def by (intro keeps_intro)

lemma run_ok_open_check:
  assumes "(\<And>c n. en_node en = Some c \<Longrightarrow> fmlookup (fs_nodes s0) c = Some n \<Longrightarrow> \<not> is_symlink n) \<Longrightarrow> run_ok s0 (f ()) Q"
  shows "run_ok s0 (sbind (guarded_open_check en obs flags) f) Q"
  unfolding run_ok_def
proof (intro allI impI)
  fix s assume s: "same_state s0 s"
  obtain r t where o: "guarded_open_check en obs flags s = (r, t)" by fastforce
  have t: "same_state s0 t" by (rule keepsD [OF keeps_open_check s o])
  show "case sbind (guarded_open_check en obs flags) f s of (Inl e, t) \<Rightarrow> same_state s0 t | (Inr x, t) \<Rightarrow> Q x t"
  proof (cases r)
    case (Inr u)
    have "\<not> is_symlink n" if c: "en_node en = Some c" and n: "fmlookup (fs_nodes s0) c = Some n" for c n
    proof -
      obtain m where m: "fmlookup (fs_nodes s) c = Some m" "same_shape n m" using same_state_lookup(2) [OF s n] by blast
      then have "\<not> is_symlink m" using o Inr c
        by (auto simp: guarded_open_check_def sbind_def get_node_def split: if_splits)
      then show ?thesis using same_shape_kind(2) [OF m(2)] by simp
    qed
    then have "run_ok s0 (f ()) Q" by (rule assms)
    then show ?thesis using o Inr t by (simp add: run_ok_def sbind_def)
  qed (use o t in \<open>simp add: sbind_def\<close>)
qed

lemma guarded_open_ok:
  assumes wf: "memfs_wf s0"
  shows "run_ok s0 (guarded_open env parent name obs flags mode)
    (\<lambda>r t. guarded_effect (GM_Open parent name obs flags mode) r s0 t)"
  unfolding guarded_open_def
proof (rule run_ok_child [OF wf], rule run_ok_open_check, rule run_ok_bind_attr, (intro keeps_intro)[1],
    rule run_ok_bind_attr, (unfold fs_resolve_def, intro keeps_intro)[1], rule run_ok_bind, rule open_flags_locked_ok [OF wf])
  fix en pt tt r t
  assume c: "child_of s0 parent name obs en"
    and nl: "\<And>c n. en_node en = Some c \<Longrightarrow> fmlookup (fs_nodes s0) c = Some n \<Longrightarrow> \<not> is_symlink n"
    and o: "open_result (en_path en) flags s0 r t"
  obtain h where h: "r = (h, \<lparr>pi_dev = 0, pi_ino = mh_node h\<rparr>)" "mh_flags h = flags" "\<not> mh_closed h"
    and w: "\<exists>e. walk s0 (normalize_path (en_path en)) (\<not> (of_create flags \<and> of_exclusive flags)) ''open'' 0 = Inr e
        \<and> opened flags e (mh_node h) s0 t"
    using o by (auto simp: open_result_def split: prod.splits)
  obtain cs where cs: "entry_at s0 cs en" using c by (auto simp: child_of_def)
  have "walk s0 (en_path en) ff ''open'' 0 = Inr en" for ff using walk_again [OF wf cs] nl by blast
  then have op: "opened flags en (mh_node h) s0 t" using w entry_path_comps(3) [OF cs] by simp
  have ad: "advances s0 t" by (rule advances_opened [OF wf op])
  have p: "content t (en_parent en) \<noteq> None"
    using advances_exists [OF ad] dir_exists entry_parent_live [OF wf child_entry_ok [OF c]] by blast
  have i: "content t (mh_node h) \<noteq> None"
  proof (cases "en_node en")
    case None
    then show ?thesis using op by (auto simp: opened_def created_def becomes_def)
  next
    case (Some j)
    then show ?thesis using op advances_exists [OF ad] by (auto simp: opened_def fs_dir_content)
  qed
  show "must t (case r of (handle, identity) \<Rightarrow> sbind (apply_some (en_parent en) pt) (\<lambda>_.
     sbind (apply_some (pi_ino identity) tt) (\<lambda>_. sret (MR_Opened handle identity))))
     (\<lambda>r t. guarded_effect (GM_Open parent name obs flags mode) r s0 t)"
    unfolding h(1) prod.case path_identity.simps
  proof (rule must_bind, rule must_apply_some [OF p], rule must_bind, rule must_apply_some, goal_cases)
    case (1 u)
    then show ?case using i same_content by simp
  next
    case (2 u v)
    have "opened flags en (mh_node h) s0 v" by (rule opened_step [OF op same_state_trans [OF 2]])
    then show ?case unfolding guarded_effect.simps using c h(2,3) by (intro must_ret) blast
  qed
qed

lemma created_step: "created en ft tg i s t \<Longrightarrow> same_state t u \<Longrightarrow> created en ft tg i s u"
  using becomes_step by (auto simp: created_def)

lemma dropped_step: "dropped p x c s t \<Longrightarrow> same_state t u \<Longrightarrow> dropped p x c s u"
  using becomes_step [of s t _ _ u] same_state_view(2) [of t u] by (auto simp: dropped_def)

lemma linked_step: "linked to i s t \<Longrightarrow> same_state t u \<Longrightarrow> linked to i s u"
  using becomes_step by (auto simp: linked_def)

lemma moved_step: "moved from to c s t \<Longrightarrow> same_state t u \<Longrightarrow> moved from to c s u"
  using becomes_step [of s t _ _ u] unfolding moved_def by blast

lemma guarded_create_ok:
  assumes wf: "memfs_wf s0" and c: "child_of s0 parent name obs en" "en_node en = None" and m: "creatable mode target"
    and eff: "\<And>i t. created en (file_type_from_mode mode) target i s0 t \<Longrightarrow> Q (MR_Created \<lparr>pi_dev = 0, pi_ino = i\<rparr>) t"
  shows "run_ok s0 (guarded_create env en sc mode dev target) Q"
  unfolding guarded_create_def
proof (rule run_ok_bind_attr [OF keeps_same_planned], rule run_ok_create_link [OF wf child_entry_ok [OF c(1)] c(2) m],
    rule must_bind, rule must_apply_touch)
  fix touch t
  assume b: "becomes s0 t (ent_upd (kid s0) (en_parent en) (en_name en) (Some (fs_next_ino s0)))
      ((content s0)(fs_next_ino s0 \<mapsto> (file_type_from_mode mode, [], target)))"
  have cr: "created en (file_type_from_mode mode) target (fs_next_ino s0) s0 t"
    by (rule createdI [OF wf child_entry_ok [OF c(1)] c(2) m b])
  show "content t (en_parent en) \<noteq> None"
    using advances_exists [OF advances_created [OF wf cr]] dir_exists entry_parent_live [OF wf child_entry_ok [OF c(1)]] by blast
  show "must u (sret (MR_Created \<lparr>pi_dev = 0, pi_ino = fs_next_ino s0\<rparr>)) Q" if "same_state t u" for u
    by (rule must_ret, rule eff, rule created_step [OF cr that])
qed

lemma guarded_mkdir_ok:
  assumes wf: "memfs_wf s0"
  shows "run_ok s0 (guarded_mkdir env parent name mode) (\<lambda>r t. guarded_effect (GM_Mkdir parent name mode) r s0 t)"
  unfolding guarded_mkdir_def
  by (rule run_ok_child [OF wf], rule run_ok_if [OF run_ok_fail], rule run_ok_bind_read,
      rule guarded_create_ok [OF wf]) auto

lemma guarded_symlink_ok:
  assumes wf: "memfs_wf s0"
  shows "run_ok s0 (guarded_symlink env parent name target) (\<lambda>r t. guarded_effect (GM_Symlink parent name target) r s0 t)"
  unfolding guarded_symlink_def
  by (rule run_ok_child [OF wf], rule run_ok_if [OF run_ok_fail], rule run_ok_if [OF run_ok_fail],
      rule guarded_create_ok [OF wf]) auto

lemma guarded_mknod_ok:
  assumes wf: "memfs_wf s0"
  shows "run_ok s0 (guarded_mknod env parent name mode dev) (\<lambda>r t. guarded_effect (GM_Mknod parent name mode dev) r s0 t)"
  unfolding guarded_mknod_def Let_def
  by (rule run_ok_child [OF wf], rule run_ok_if [OF run_ok_fail], rule run_ok_if [OF run_ok_fail],
      rule run_ok_bind_read, rule guarded_create_ok [OF wf], assumption, blast, rule creatable_modes(4)) auto

lemma guarded_remove_ok:
  assumes wf: "memfs_wf s0" and e: "child_of s0 parent name obs en" "en_node en = Some c" "c \<noteq> fs_root s0"
    and leaf: "fs_dir s0 c \<Longrightarrow> kid s0 c = Map.empty"
    and eff: "\<And>t. dropped (guard_ino parent) name c s0 t \<Longrightarrow> Q MR_Applied t"
  shows "run_ok s0 (guarded_remove env en c sc) Q"
  unfolding guarded_remove_def
proof (rule run_ok_bind_attr [OF keeps_same_planned], rule run_ok_get_node, rule run_ok_bind_attr [OF keeps_same_time],
    rule run_ok_unlink [OF wf child_entry_ok [OF e(1)] e(2,3) leaf], assumption)
  fix pt n0 n ct t
  assume n: "fmlookup (fs_nodes s0) c = Some n0" and d: "dropped (en_parent en) (en_name en) c s0 t"
  have ct: "content t = content s0" using d by (simp add: dropped_def becomes_def)
  have p: "content s0 (en_parent en) \<noteq> None"
    using dir_exists entry_parent_live [OF wf child_entry_ok [OF e(1)]] by blast
  have x: "dropped (guard_ino parent) name c s0 t" using d e(1) by (simp add: child_of_def)
  show "must t (sbind (apply_touch (en_parent en) pt) (\<lambda>_. sbind (apply_ctime c ct') (\<lambda>_. sret MR_Applied))) Q" for ct'
  proof (rule must_bind, rule must_apply_touch, goal_cases)
    case 1
    then show ?case using p ct by simp
  next
    case (2 u)
    have "content u c \<noteq> None" using n ct same_content [OF 2] by (simp add: content_def)
    then show ?case
      by (intro must_bind must_apply_ctime must_ret eff dropped_step [OF x] same_state_trans [OF 2])
  qed
qed

lemma guarded_unlink_ok:
  assumes wf: "memfs_wf s0"
  shows "run_ok s0 (guarded_unlink env parent name obs) (\<lambda>r t. guarded_effect (GM_Unlink parent name obs) r s0 t)"
  unfolding guarded_unlink_def
proof (rule run_ok_child [OF wf], rule run_ok_bind_read, rule run_ok_bind_read, rule guarded_remove_ok [OF wf], assumption)
  fix en c s s' and u :: unit
  assume e: "child_of s0 parent name obs en" and s: "same_state s0 s'"
    and c: "ok_or (en_node en) (syscp Enoent ''unlink'' (en_path en)) = Inr c"
    and g: "guard_err (fs_dir s' c) (syscp Eisdir ''unlink'' (en_path en)) = Inr u"
  have d: "\<not> fs_dir s0 c" using g same_dir [OF s] by simp
  show ec: "en_node en = Some c" using c by simp
  show "c \<noteq> fs_root s0" by (rule dir_not_root [OF wf d])
  show "kid s0 c = Map.empty" if "fs_dir s0 c" using that d by simp
  show "guarded_effect (GM_Unlink parent name obs) MR_Applied s0 t" if "dropped (guard_ino parent) name c s0 t" for t
    using e ec d that by auto
qed

lemma guarded_rmdir_ok:
  assumes wf: "memfs_wf s0"
  shows "run_ok s0 (guarded_rmdir env parent name obs) (\<lambda>r t. guarded_effect (GM_Rmdir parent name obs) r s0 t)"
  unfolding guarded_rmdir_def
proof (rule run_ok_child [OF wf], rule run_ok_bind_read, rule run_ok_bind_read, rule run_ok_get_node,
    rule run_ok_if [OF run_ok_fail], rule run_ok_if [OF run_ok_fail], rule guarded_remove_ok [OF wf], assumption)
  fix en c s s' n0 n and u :: unit
  assume e: "child_of s0 parent name obs en" and s: "same_state s0 s'"
    and c: "ok_or (en_node en) (syscp Enoent ''rmdir'' (en_path en)) = Inr c"
    and g: "guard_err (c = fs_root s') (syscp Ebusy ''rmdir'' (en_path en)) = Inr u"
    and n: "fmlookup (fs_nodes s0) c = Some n0" "same_shape n0 n"
    and k: "\<not> \<not> is_directory n" "\<not> \<not> children_is_empty (nd_children n)"
  have d: "fs_dir s0 c" and l: "kid s0 c = Map.empty" using k shape_dir [OF n] shape_empty [OF n] by auto
  show ec: "en_node en = Some c" using c by simp
  show "c \<noteq> fs_root s0" using g same_root [OF s] by simp
  show "kid s0 c = Map.empty" by (rule l)
  show "guarded_effect (GM_Rmdir parent name obs) MR_Applied s0 t" if "dropped (guard_ino parent) name c s0 t" for t
    using e ec d l that by auto
qed

lemma keeps_rename_plan [keeps_intro]: "keeps (same_state s0) (guarded_rename_plan env from to c)"
  unfolding guarded_rename_plan_def by (intro keeps_intro)

lemma rename_plan_result:
  "guarded_rename_plan env from to c s = (Inr (ft, tt, sc, dest), t) \<Longrightarrow>
   (case dest of None \<Rightarrow> True | Some (d, _) \<Rightarrow> en_node to = Some d)"
  by (auto simp: guarded_rename_plan_def split: option.splits)

lemma run_ok_bind_attr_result:
  assumes "keeps (same_state s0) m" "\<And>x s t. m s = (Inr x, t) \<Longrightarrow> run_ok s0 (g x) Q"
  shows "run_ok s0 (sbind m g) Q"
  unfolding run_ok_def
proof (intro allI impI)
  fix s assume s: "same_state s0 s"
  obtain r t where m: "m s = (r, t)" by fastforce
  have t: "same_state s0 t" by (rule keepsD [OF assms(1) s m])
  show "case sbind m g s of (Inl e, t) \<Rightarrow> same_state s0 t | (Inr x, t) \<Rightarrow> Q x t"
    using m t assms(2) [of s] by (cases r) (auto simp: sbind_def run_ok_def)
qed

lemma rename_rest:
  assumes wf: "memfs_wf s0" and src: "entry_ok s0 fr" "en_node fr = Some c" and to: "entry_ok s0 to"
    and d: "case dest of None \<Rightarrow> True | Some (d, _) \<Rightarrow> en_node to = Some d"
    and t: "advances s0 t" and eff: "\<And>u. same_state t u \<Longrightarrow> Q MR_Applied u"
  shows "must t (sbind (apply_touch (en_parent fr) ft) (\<lambda>_.
     sbind (swhen (en_parent fr \<noteq> en_parent to) (apply_touch (en_parent to) tt)) (\<lambda>_.
     sbind (apply_ctime c sc) (\<lambda>_.
     sbind (case dest of None \<Rightarrow> sret () | Some (d, t) \<Rightarrow> apply_ctime d t) (\<lambda>_. sret MR_Applied))))) Q"
proof -
  have node: "content t i \<noteq> None" if "nlinks s0 i \<noteq> None" for i
    using advances_exists [OF t] that by (simp add: content_None nlinks_None)
  have ps: "content t (en_parent fr) \<noteq> None" "content t (en_parent to) \<noteq> None" "content t c \<noteq> None"
    using entry_parent_live [OF wf src(1)] entry_parent_live [OF wf to] entry_node_linked [OF wf src]
      node [of "en_parent fr"] node [of "en_parent to"] node [of c] by (auto simp: live_dir_def)
  have ds: "content t e \<noteq> None" if "dest = Some (e, x)" for e x
    using d that entry_node_linked [OF wf to, of e] node [of e] by auto
  show ?thesis
  proof (rule must_bind, rule must_apply_touch [OF ps(1)], rule must_bind, rule must_mono [where R = "\<lambda>_. same_state t"], goal_cases)
    case (1 u)
    have "content u (en_parent to) \<noteq> None" using ps(2) same_content [OF 1] by simp
    then show ?case
      using 1 same_state_trans [OF 1] by (auto simp: swhen_def intro: must_ret must_apply_touch)
  next
    case (2 u x v)
    show ?case
    proof (rule must_bind, rule must_apply_ctime)
      show "content v c \<noteq> None" using ps(3) same_content [OF 2(2)] by simp
      fix w assume w: "same_state v w"
      have st: "same_state t w" by (rule same_state_trans [OF 2(2) w])
      show "must w (sbind (case dest of None \<Rightarrow> sret () | Some (d, t) \<Rightarrow> apply_ctime d t) (\<lambda>_. sret MR_Applied)) Q"
      proof (cases dest)
        case None
        show ?thesis unfolding None option.case sbind_sret by (intro must_ret eff st)
      next
        case (Some p)
        obtain e z where p: "p = (e, z)" by (cases p)
        have "content w e \<noteq> None" using ds [of e z] Some p same_content [OF st] by simp
        then show ?thesis
          unfolding Some p option.case prod.case
          by (intro must_bind must_apply_ctime must_ret eff same_state_trans [OF st])
      qed
    qed
  qed
qed

lemma rename_effect_advances:
  "memfs_wf s0 \<Longrightarrow> \<exists>c. en_node fr = Some c \<and> (if en_node to = Some c then same_state s0 t else moved fr to c s0 t) \<Longrightarrow> advances s0 t"
  by (auto intro: advances_same advances_moved split: if_splits)

lemma guarded_rename_ok:
  assumes wf: "memfs_wf s0"
  shows "run_ok s0 (guarded_rename env fp fname src tp tname dst)
    (\<lambda>r t. guarded_effect (GM_Rename fp fname src tp tname dst) r s0 t)"
  unfolding guarded_rename_def
proof (rule run_ok_child [OF wf], rule run_ok_child [OF wf])
  fix fr to assume e: "child_of s0 fp fname src fr" "child_of s0 tp tname dst to"
  note ok = child_entry_ok [OF e(1)] child_entry_ok [OF e(2)]
  let ?Q = "\<lambda>r t. guarded_effect (GM_Rename fp fname src tp tname dst) r s0 t"
  let ?eff = "\<lambda>t. \<exists>c. en_node fr = Some c \<and> (if en_node to = Some c then same_state s0 t else moved fr to c s0 t)"
  have eff: "?Q MR_Applied t" if "?eff t" for t unfolding guarded_effect.simps using that e by blast
  have plain: "run_ok s0 (sbind (rename_entries env fr to) (\<lambda>_. sret MR_Applied)) ?Q"
    by (rule run_ok_bind [OF rename_entries_ok [OF wf ok]]) (intro must_ret eff)
  show "run_ok s0 (case en_node fr of
       Some c \<Rightarrow>
         if en_node to \<noteq> Some c
         then sbind (guarded_rename_plan env fr to c) (\<lambda>(ft, tt, sc, dest).
              sbind (rename_entries env fr to) (\<lambda>_.
              sbind (apply_touch (en_parent fr) ft) (\<lambda>_.
              sbind (swhen (en_parent fr \<noteq> en_parent to) (apply_touch (en_parent to) tt)) (\<lambda>_.
              sbind (apply_ctime c sc) (\<lambda>_.
              sbind (case dest of None \<Rightarrow> sret () | Some (d, t) \<Rightarrow> apply_ctime d t) (\<lambda>_. sret MR_Applied))))))
         else sbind (rename_entries env fr to) (\<lambda>_. sret MR_Applied)
     | None \<Rightarrow> sbind (rename_entries env fr to) (\<lambda>_. sret MR_Applied)) ?Q"
  proof (rule run_ok_option [OF plain], rule run_ok_if [OF _ plain], rule run_ok_bind_attr_result [OF keeps_rename_plan])
    fix c x s u
    assume c: "en_node fr = Some c" "en_node to \<noteq> Some c" and p: "guarded_rename_plan env fr to c s = (Inr x, u)"
    obtain ft tt sc dest where x: "x = (ft, tt, sc, dest)" by (cases x)
    have d: "case dest of None \<Rightarrow> True | Some (d, _) \<Rightarrow> en_node to = Some d"
      by (rule rename_plan_result [OF p [unfolded x]])
    show "run_ok s0 (case x of (ft, tt, sc, dest) \<Rightarrow>
              sbind (rename_entries env fr to) (\<lambda>_.
              sbind (apply_touch (en_parent fr) ft) (\<lambda>_.
              sbind (swhen (en_parent fr \<noteq> en_parent to) (apply_touch (en_parent to) tt)) (\<lambda>_.
              sbind (apply_ctime c sc) (\<lambda>_.
              sbind (case dest of None \<Rightarrow> sret () | Some (d, t) \<Rightarrow> apply_ctime d t) (\<lambda>_. sret MR_Applied)))))) ?Q"
      unfolding x prod.case
    proof (rule run_ok_bind [OF rename_entries_ok [OF wf ok]])
      fix v t assume t: "?eff t"
      have "?eff u" if "same_state t u" for u
        using t c moved_step [OF _ that] by auto
      then show "must t (sbind (apply_touch (en_parent fr) ft) (\<lambda>_.
          sbind (swhen (en_parent fr \<noteq> en_parent to) (apply_touch (en_parent to) tt)) (\<lambda>_.
          sbind (apply_ctime c sc) (\<lambda>_.
          sbind (case dest of None \<Rightarrow> sret () | Some (d, t) \<Rightarrow> apply_ctime d t) (\<lambda>_. sret MR_Applied))))) ?Q"
        by (intro rename_rest [OF wf ok(1) c(1) ok(2) d rename_effect_advances [OF wf t]] eff)
    qed
  qed
qed

lemma guarded_link_ok:
  assumes wf: "memfs_wf s0"
  shows "run_ok s0 (guarded_link env source tp tname dst) (\<lambda>r t. guarded_effect (GM_Link source tp tname dst) r s0 t)"
  unfolding guarded_link_def
proof (rule run_ok_guard [OF wf], rule run_ok_bind_read, rule run_ok_child [OF wf], rule run_ok_if [OF run_ok_fail],
    rule run_ok_bind_attr [OF keeps_same_planned], rule run_ok_get_node, rule run_ok_bind_attr [OF keeps_same_time])
  fix s to pt n0 n sc and u :: unit
  let ?i = "guard_ino source"
  assume g: "guard_holds s0 source" and s: "same_state s0 s"
    and k: "guard_err (fs_dir s ?i) (syscp Eperm ''link'' (pg_path source)) = Inr u"
    and e: "child_of s0 tp tname dst to" and n: "\<not> en_node to \<noteq> None"
  have d: "\<not> fs_dir s0 ?i" using k same_dir [OF s] by simp
  obtain sy where "resolve s0 (normalize_path (pg_path source)) False sy = Inr ?i" using g by (auto simp: guard_holds_def)
  then obtain en where en: "walk s0 (normalize_path (pg_path source)) False sy 0 = Inr en" "en_node en = Some ?i"
    using resolve_entry by blast
  have i: "kid s0 (en_parent en) (en_name en) = Some ?i"
    using entry_taken [OF walk_entry_ok [OF en(1)] en(2) dir_not_root [OF wf d]] .
  have live: "content s0 (en_parent to) \<noteq> None" using dir_exists entry_parent_live [OF wf child_entry_ok [OF e]] by blast
  show "run_ok s0 (sbind (smodify (upd_node ?i (\<lambda>n. n\<lparr>nd_nlink := nd_nlink n + 1, nd_ctime_ms := sc\<rparr>))) (\<lambda>_.
     sbind (link_entry env to ?i) (\<lambda>_. sbind (apply_touch (en_parent to) pt) (\<lambda>_. sret MR_Applied))))
     (\<lambda>r t. guarded_effect (GM_Link source tp tname dst) r s0 t)"
  proof (rule run_ok_link [OF wf i d child_entry_ok [OF e]])
    show "en_node to = None" using n by simp
    fix t assume t: "linked to ?i s0 t"
    then have "content t = content s0" by (simp add: linked_def becomes_def)
    then show "must t (sbind (apply_touch (en_parent to) pt) (\<lambda>_. sret MR_Applied))
        (\<lambda>r t. guarded_effect (GM_Link source tp tname dst) r s0 t)"
      using live e g linked_step [OF t] by (intro must_bind must_apply_touch must_ret) auto
  qed
qed

lemma guarded_mutation_ok:
  assumes wf: "memfs_wf s0"
  shows "run_ok s0 (fs_guarded_mutation env m) (\<lambda>r t. guarded_effect m r s0 t)"
proof (cases m)
  case (GM_Setattr target change)
  show ?thesis
    unfolding GM_Setattr fs_guarded_mutation.simps
    by (rule run_ok_bind [OF setattr_ok [OF wf]]) (rule must_ret)
qed (use guarded_open_ok guarded_mkdir_ok guarded_symlink_ok guarded_mknod_ok guarded_unlink_ok guarded_rmdir_ok
      guarded_rename_ok guarded_link_ok wf in \<open>simp_all only: fs_guarded_mutation.simps\<close>)

lemma effect_advances:
  assumes wf: "memfs_wf s" and e: "guarded_effect m r s t"
  shows "advances s t"
  using e
proof (cases m)
  case (GM_Unlink parent name obs)
  then obtain c where "dropped (guard_ino parent) name c s t" "kid s (guard_ino parent) name = Some c" "\<not> fs_dir s c"
    using e by (auto simp: child_of_def)
  then show ?thesis using advances_dropped by blast
next
  case (GM_Rmdir parent name obs)
  then obtain c where "dropped (guard_ino parent) name c s t" "kid s (guard_ino parent) name = Some c" "kid s c = Map.empty"
    using e by (auto simp: child_of_def)
  then show ?thesis using advances_dropped by blast
qed (auto intro: advances_same [OF wf] advances_written advances_opened [OF wf] advances_created [OF wf]
      advances_moved [OF wf] advances_linked [OF wf] split: option.splits if_splits)

lemma adv_guarded [call_ok]: "memfs_wf s0 \<Longrightarrow> run_ok s0 (fs_guarded_mutation env m) (\<lambda>_ t. advances s0 t)"
  by (rule run_ok_mono [OF guarded_mutation_ok]) (auto intro: effect_advances)

lemma attr_guarded_read [attr_only]: "keeps (same_state s0) (fs_guarded_read env r)"
proof (cases r)
  case (GR_Readdir g limit)
  show ?thesis
    unfolding GR_Readdir fs_guarded_read.simps guarded_readdir_def
    by (intro keeps_intro keeps_same_upd) (simp add: same_shape_def)
qed (simp_all only: fs_guarded_read.simps guarded_stat_def guarded_lookup_def guarded_readlink_def, (intro keeps_intro)+)

end
