(* ===== verification/Mem_Fs_World.thy ===== *)
theory Mem_Fs_World
  imports Mem_Fs_Guard_Safety
begin

text \<open>
  Runs of the memory file system: path calls, guarded requests, and open handles whose calls lock the
  file system twice, so that other calls run between their admission and their effect. The
  invariant holds in every reachable state, and admitted calls find the file they were admitted for.
\<close>

section \<open>Calls\<close>

datatype memfs_call =
    C_Stat string | C_Lstat string | C_Statfs string | C_Readdir string "nat option" | C_Readlink string
  | C_Mkdir string mkdir_options | C_Rmdir string | C_Unlink string | C_Rename string string | C_Link string string
  | C_Symlink string string | C_Mknod string u32 nat | C_Chmod string u32 | C_Chown string u32 u32 bool string
  | C_Truncate string nat | C_Utimes string int int bool string | C_Guarded_Read guarded_read

definition just :: "'a fs_op \<Rightarrow> unit fs_op" where
  "just m = sbind m (\<lambda>_. sret ())"

fun run_call :: "env \<Rightarrow> memfs_call \<Rightarrow> unit fs_op" where
  "run_call env (C_Stat p) = just (fs_stat p)"
| "run_call env (C_Lstat p) = just (fs_lstat p)"
| "run_call env (C_Statfs p) = just (fs_statfs p)"
| "run_call env (C_Readdir p limit) = just (readdir_with_limit env p limit)"
| "run_call env (C_Readlink p) = just (fs_readlink p)"
| "run_call env (C_Mkdir p options) = just (fs_mkdir env p options)"
| "run_call env (C_Rmdir p) = fs_rmdir env p"
| "run_call env (C_Unlink p) = fs_unlink env p"
| "run_call env (C_Rename p q) = fs_rename env p q"
| "run_call env (C_Link p q) = fs_link env p q"
| "run_call env (C_Symlink t p) = fs_symlink env t p"
| "run_call env (C_Mknod p mode dev) = fs_mknod env p mode dev"
| "run_call env (C_Chmod p mode) = fs_chmod env p mode"
| "run_call env (C_Chown p uid gid follow sc) = fs_chown env p uid gid follow sc"
| "run_call env (C_Truncate p len) = fs_truncate env p len"
| "run_call env (C_Utimes p a m follow sc) = fs_utimes env p a m follow sc"
| "run_call env (C_Guarded_Read r) = just (fs_guarded_read env r)"

definition recursive_mkdir :: "memfs_call \<Rightarrow> bool" where
  "recursive_mkdir c = (case c of C_Mkdir _ options \<Rightarrow> mo_recursive options | _ \<Rightarrow> False)"

lemma keeps_just: "keeps P m \<Longrightarrow> keeps P (just m)"
  unfolding just_def by (intro keeps_intro)

lemma just_result: "just m s = (r, t) \<Longrightarrow> \<exists>r'. m s = (r', t) \<and> (\<forall>e. r = Inl e \<longrightarrow> r' = Inl e)"
  by (auto simp: just_def sbind_def split: prod.splits sum.splits)

lemma run_call_attr:
  assumes "memfs_wf s" "keeps (same_state s) m" "m s = (r, t)"
  shows "same_state s t"
  using keepsD [OF assms(2) _ assms(3)] by simp

text \<open>Every call keeps the invariant and takes steps of the specification; a failure takes none.\<close>

lemma mkdir_plain_ok:
  "memfs_wf s \<Longrightarrow> \<not> mo_recursive options \<Longrightarrow> run_ok s (fs_mkdir env p options) (\<lambda>_ t. advances s t)"
  by (rule run_ok_mono [OF mkdir_one_ok]) (auto dest: advances_created)

lemma run_call_ok:
  assumes wf: "memfs_wf s" and c: "\<not> recursive_mkdir c"
  shows "run_ok s (run_call env c) (\<lambda>_ t. advances s t)"
proof (cases c)
  case (C_Mkdir p options)
  then have "run_ok s (fs_mkdir env p options) (\<lambda>_ t. advances s t)"
    using c mkdir_plain_ok [OF wf] by (simp add: recursive_mkdir_def)
  then show ?thesis
    unfolding C_Mkdir run_call.simps just_def by (rule run_ok_bind) (rule must_ret)
qed (simp_all only: run_call.simps,
     (rule call_ok [OF wf] adv_attr [OF wf] keeps_just attr_only)+)

lemma run_call_advances:
  assumes wf: "memfs_wf s" and run: "run_call env c s = (r, t)"
  shows "advances s t"
proof (cases "recursive_mkdir c")
  case True
  then obtain p options where "c = C_Mkdir p options" by (cases c) (auto simp: recursive_mkdir_def)
  then obtain r' where "fs_mkdir env p options s = (r', t)" using run just_result by fastforce
  then show ?thesis by (rule mkdir_advances [OF wf])
next
  case False
  from run_advances [OF run_call_ok [OF wf False] wf run] show ?thesis .
qed

lemma run_call_failure:
  assumes wf: "memfs_wf s" and c: "\<not> recursive_mkdir c" and run: "run_call env c s = (Inl e, t)"
  shows "same_state s t"
  using run_okD [OF run_call_ok [OF wf c] run] by simp

section \<open>Runs\<close>

datatype pending = P_Read nat "nat option" | P_Write bytes "nat option" | P_Truncate nat

record slot =
  sl_handle :: mem_handle
  sl_pending :: "pending option"

record world =
  w_fs :: mem_state
  w_slots :: "slot list"

definition idle_slot :: "mem_handle \<Rightarrow> slot" where
  "idle_slot h = \<lparr>sl_handle = h, sl_pending = None\<rparr>"

fun pending_begin :: "pending \<Rightarrow> mem_handle \<Rightarrow> mem_state \<Rightarrow> unit result" where
  "pending_begin (P_Read _ _) h = handle_begin h False ''read''"
| "pending_begin (P_Write _ _) h = handle_begin h True ''write''"
| "pending_begin (P_Truncate _) h = handle_begin h True ''ftruncate''"

text \<open>The handle after a pending call has run, which is the old one when it fails.\<close>

fun pending_run :: "env \<Rightarrow> pending \<Rightarrow> mem_handle \<Rightarrow> mem_handle fs_op" where
  "pending_run env (P_Read len position) h = sbind (handle_read_locked env h len position) (\<lambda>(_, h'). sret h')"
| "pending_run env (P_Write buffer position) h = sbind (handle_write_locked env h buffer position) (\<lambda>(_, h'). sret h')"
| "pending_run env (P_Truncate len) h = sbind (handle_truncate_locked env h len) (\<lambda>_. sret h)"

definition opened_slots :: "guarded_mutation_result result \<Rightarrow> slot list" where
  "opened_slots r = (case r of Inr (MR_Opened h _) \<Rightarrow> [idle_slot h] | _ \<Rightarrow> [])"

inductive world_step :: "env \<Rightarrow> world \<Rightarrow> world \<Rightarrow> bool" for env where
  step_call: "run_call env c (w_fs w) = (r, s) \<Longrightarrow> world_step env w (w\<lparr>w_fs := s\<rparr>)"
| step_open: "fs_open env path flags mode (w_fs w) = (r, s) \<Longrightarrow>
    world_step env w (w\<lparr>w_fs := s, w_slots := w_slots w @ (case r of Inr h \<Rightarrow> [idle_slot h] | Inl _ \<Rightarrow> [])\<rparr>)"
| step_open_flags: "fs_open_flags env path parsed mode (w_fs w) = (r, s) \<Longrightarrow>
    world_step env w (w\<lparr>w_fs := s, w_slots := w_slots w @ (case r of Inr h \<Rightarrow> [idle_slot h] | Inl _ \<Rightarrow> [])\<rparr>)"
| step_guarded: "fs_guarded_mutation env m (w_fs w) = (r, s) \<Longrightarrow>
    world_step env w (w\<lparr>w_fs := s, w_slots := w_slots w @ opened_slots r\<rparr>)"
| step_begin: "k < length (w_slots w) \<Longrightarrow> sl_pending (w_slots w ! k) = None \<Longrightarrow>
    pending_begin p (sl_handle (w_slots w ! k)) (w_fs w) = Inr () \<Longrightarrow>
    world_step env w (w\<lparr>w_slots := (w_slots w)[k := (w_slots w ! k)\<lparr>sl_pending := Some p\<rparr>]\<rparr>)"
| step_finish: "k < length (w_slots w) \<Longrightarrow> sl_pending (w_slots w ! k) = Some p \<Longrightarrow>
    pending_run env p (sl_handle (w_slots w ! k)) (w_fs w) = (r, s) \<Longrightarrow>
    world_step env w (w\<lparr>w_fs := s,
      w_slots := (w_slots w)[k := idle_slot (case r of Inr h \<Rightarrow> h | Inl _ \<Rightarrow> sl_handle (w_slots w ! k))]\<rparr>)"
| step_close: "k < length (w_slots w) \<Longrightarrow> sl_pending (w_slots w ! k) = None \<Longrightarrow>
    world_step env w (w\<lparr>w_slots := (w_slots w)[k := idle_slot (handle_close (sl_handle (w_slots w ! k)))]\<rparr>)"

inductive world_reachable :: "env \<Rightarrow> memory_options \<Rightarrow> world \<Rightarrow> bool" for env options where
  reach_new: "world_reachable env options \<lparr>w_fs = memfs_new env options, w_slots = []\<rparr>"
| reach_step: "world_reachable env options w \<Longrightarrow> world_step env w w' \<Longrightarrow> world_reachable env options w'"

text \<open>A slot's inode exists, is a file or a directory, and is a file while a call is pending.\<close>

definition slot_ok :: "mem_state \<Rightarrow> slot \<Rightarrow> bool" where
  "slot_ok s sl \<longleftrightarrow> (\<exists>ft d. content s (mh_node (sl_handle sl)) = Some (ft, d, None)
     \<and> (ft = File \<or> ft = Directory \<and> sl_pending sl = None))"

definition world_ok :: "world \<Rightarrow> bool" where
  "world_ok w \<longleftrightarrow> memfs_wf (w_fs w) \<and> list_all (slot_ok (w_fs w)) (w_slots w)"

lemma slot_ok_advances: "advances s t \<Longrightarrow> slot_ok s sl \<Longrightarrow> slot_ok t sl"
  unfolding slot_ok_def using advances_content by blast

lemma slots_advances: "advances s t \<Longrightarrow> list_all (slot_ok s) sls \<Longrightarrow> list_all (slot_ok t) sls"
  by (auto simp: list_all_iff intro: slot_ok_advances)

lemma slot_ok_opened:
  assumes wf: "memfs_wf s" and o: "opened parsed en (mh_node h) s t"
  shows "slot_ok t (idle_slot h)"
proof (cases "en_node en")
  case None
  then show ?thesis using o by (auto simp: opened_def created_def becomes_def slot_ok_def idle_slot_def)
next
  case (Some j)
  then obtain ft d where "content s (mh_node h) = Some (ft, d, None)" "ft = File \<or> ft = Directory"
    using o by (fastforce simp: opened_def fs_dir_content dest: content_types(2) [OF wf])
  then show ?thesis
    using advances_content [OF advances_opened [OF wf o]] by (fastforce simp: slot_ok_def idle_slot_def)
qed

lemma world_ok_extend:
  assumes "world_ok w" "advances (w_fs w) s" "list_all (slot_ok s) sls"
  shows "world_ok (w\<lparr>w_fs := s, w_slots := w_slots w @ sls\<rparr>)"
  using assms slots_advances [OF assms(2)] by (auto simp: world_ok_def advances_def)

lemma pending_file:
  assumes "world_ok w" "k < length (w_slots w)" "sl_pending (w_slots w ! k) = Some p"
  shows "\<exists>d. content (w_fs w) (mh_node (sl_handle (w_slots w ! k))) = Some (File, d, None)"
  using assms by (fastforce simp: world_ok_def list_all_length slot_ok_def)

text \<open>A pending call runs without a change to which inode its handle names.\<close>

lemma pending_run_ok:
  assumes wf: "memfs_wf s" and c: "content s (mh_node h) = Some (File, d, None)"
  shows "run_ok s (pending_run env p h) (\<lambda>h' t. mh_node h' = mh_node h \<and> advances s t)"
proof (cases p)
  case (P_Read len position)
  show ?thesis
    unfolding P_Read pending_run.simps
  proof (rule run_ok_must, rule must_bind)
    fix u assume u: "same_state s u"
    have cu: "content u (mh_node h) = Some (File, d, None)" using c same_content [OF u] by simp
    show "must u (handle_read_locked env h len position)
       (\<lambda>x t. must t (case x of (_, h') \<Rightarrow> sret h') (\<lambda>h' t. mh_node h' = mh_node h \<and> advances s t))"
      by (rule must_mono [OF handle_read_locked_ok [OF cu]])
        (auto simp: Let_def intro!: must_ret advances_same [OF wf] intro: same_state_trans [OF u])
  qed
next
  case (P_Write buffer position)
  show ?thesis
    unfolding P_Write pending_run.simps
    by (rule run_ok_bind [OF handle_write_locked_ok [OF wf c]]) (auto intro!: must_ret intro: advances_written)
next
  case (P_Truncate len)
  show ?thesis
    unfolding P_Truncate pending_run.simps
    by (rule run_ok_bind [OF handle_truncate_locked_ok [OF wf c]]) (auto intro!: must_ret intro: advances_written)
qed

lemma pending_begin_handle: "pending_begin p h s = Inr () \<Longrightarrow> \<exists>b sc. handle_begin h b sc s = Inr ()"
  by (cases p) auto

lemma world_step_ok:
  assumes "world_step env w w'" "world_ok w"
  shows "world_ok w'"
  using assms
proof (induction rule: world_step.induct)
  case (step_call c w r s)
  then have "advances (w_fs w) s" using run_call_advances by (auto simp: world_ok_def)
  then show ?case using world_ok_extend [of w s "[]"] step_call by simp
next
  case (step_open path flags mode w r s)
  have wf: "memfs_wf (w_fs w)" using step_open by (simp add: world_ok_def)
  have "list_all (slot_ok s) (case r of Inr h \<Rightarrow> [idle_slot h] | Inl _ \<Rightarrow> [])"
    using run_okD [OF open_ok [OF wf] step_open(1)] slot_ok_opened [OF wf]
    by (auto simp: open_result_def split: sum.splits)
  then show ?case using world_ok_extend step_open run_advances [OF adv_open [OF wf] wf step_open(1)] by simp
next
  case (step_open_flags path parsed mode w r s)
  have wf: "memfs_wf (w_fs w)" using step_open_flags by (simp add: world_ok_def)
  have "list_all (slot_ok s) (case r of Inr h \<Rightarrow> [idle_slot h] | Inl _ \<Rightarrow> [])"
    using run_okD [OF open_flags_ok [OF wf] step_open_flags(1)] slot_ok_opened [OF wf]
    by (auto simp: open_result_def split: sum.splits)
  then show ?case using world_ok_extend step_open_flags run_advances [OF adv_open_flags [OF wf] wf step_open_flags(1)] by simp
next
  case (step_guarded m w r s)
  have wf: "memfs_wf (w_fs w)" using step_guarded by (simp add: world_ok_def)
  have "list_all (slot_ok s) (opened_slots r)"
    using run_okD [OF guarded_mutation_ok [OF wf] step_guarded(1)] slot_ok_opened [OF wf]
    by (cases m) (auto simp: opened_slots_def split: sum.splits guarded_mutation_result.splits)
  then show ?case using world_ok_extend step_guarded run_advances [OF adv_guarded [OF wf] wf step_guarded(1)] by simp
next
  case (step_begin k w p)
  have wf: "memfs_wf (w_fs w)" and all: "list_all (slot_ok (w_fs w)) (w_slots w)"
    using step_begin by (auto simp: world_ok_def)
  then have sl: "slot_ok (w_fs w) (w_slots w ! k)" using step_begin(1) by (simp add: list_all_length)
  obtain b sc where "handle_begin (sl_handle (w_slots w ! k)) b sc (w_fs w) = Inr ()"
    using pending_begin_handle [OF step_begin(3)] by blast
  then have "\<exists>d. content (w_fs w) (mh_node (sl_handle (w_slots w ! k))) = Some (File, d, None)"
    using begin_content [OF wf] sl by (fastforce simp: slot_ok_def)
  then have "slot_ok (w_fs w) ((w_slots w ! k)\<lparr>sl_pending := Some p\<rparr>)" by (simp add: slot_ok_def)
  then show ?case using wf all step_begin(1) by (simp add: world_ok_def list_all_length nth_list_update)
next
  case (step_finish k w p r s)
  have wf: "memfs_wf (w_fs w)" and all: "list_all (slot_ok (w_fs w)) (w_slots w)"
    using step_finish by (auto simp: world_ok_def)
  let ?h = "sl_handle (w_slots w ! k)"
  obtain d where c: "content (w_fs w) (mh_node ?h) = Some (File, d, None)"
    using pending_file [OF step_finish(4,1,2)] by blast
  have e: "case r of Inl e \<Rightarrow> same_state (w_fs w) s | Inr h' \<Rightarrow> mh_node h' = mh_node ?h \<and> advances (w_fs w) s"
    by (rule run_okD [OF pending_run_ok [OF wf c] step_finish(3)])
  then have ad: "advances (w_fs w) s" using advances_same [OF wf] by (auto split: sum.splits)
  then have sl: "slot_ok s (idle_slot (case r of Inr h \<Rightarrow> h | Inl _ \<Rightarrow> ?h))"
    using advances_content [OF ad c] e by (auto simp: slot_ok_def idle_slot_def split: sum.splits)
  then show ?case
    using slots_advances [OF ad all] ad step_finish(1)
    by (simp add: world_ok_def advances_def list_all_length nth_list_update)
next
  case (step_close k w)
  then show ?case
    by (auto simp: world_ok_def list_all_length nth_list_update slot_ok_def idle_slot_def handle_close_def)
qed

lemma world_reachable_ok: "world_reachable env options w \<Longrightarrow> world_ok w"
proof (induction rule: world_reachable.induct)
  case reach_new
  then show ?case using memfs_new_wf by (simp add: world_ok_def)
qed (rule world_step_ok)

end
