(* ===== verification/Mem_Fs_Paths.thy ===== *)
theory Mem_Fs_Paths
  imports Mem_Fs_World
begin

text \<open>
  Paths after a call: the walk sees only the entries and the contents, and keeps its way when
  entries are added. So the path of a directory just made leads to it.
\<close>

section \<open>The walk over entries and contents\<close>

lemma walk_segments_view:
  "walk_segments s ff sc nz before (name # after) cur =
     (case content s cur of
        None \<Rightarrow> Inl (syscp Estale sc nz)
      | Some (ft, _) \<Rightarrow>
          if ft \<noteq> Directory then Inl (syscp Enotdir sc nz)
          else (case kid s cur name of
            None \<Rightarrow> if after = [] then Inr (Arrived \<lparr>en_parent = cur, en_name = name, en_node = None, en_path = nz\<rparr>)
                    else Inl (syscp Enoent sc nz)
          | Some child \<Rightarrow>
             (case content s child of
                None \<Rightarrow> Inl (syscp Estale sc nz)
              | Some (ft', _, tg) \<Rightarrow>
                 if ft' = Symlink \<and> (after \<noteq> [] \<or> ff)
                 then (let target = (case tg of None \<Rightarrow> [] | Some t \<Rightarrow> t) in
                       if target = [] then Inl (syscp Enoent sc nz)
                       else let parent_path = (if before = [] then ''/'' else ''/'' @ join_with ''/'' before);
                                rewritten = (if starts_with target ''/'' then target else parent_path @ ''/'' @ target)
                            in Inr (Redirect (if after \<noteq> [] then rewritten @ ''/'' @ join_with ''/'' after else rewritten)))
                 else if after = []
                 then Inr (Arrived \<lparr>en_parent = cur, en_name = name, en_node = Some child, en_path = nz\<rparr>)
                 else walk_segments s ff sc nz (before @ [name]) after child)))"
proof (cases "fmlookup (fs_nodes s) cur")
  case (Some n)
  then have k: "kid s cur name = children_get (nd_children n) name" by (simp add: kid_def)
  have c: "content s cur = Some (node_file_type n, nd_data n, nd_target n)"
    using content_of_node [OF Some] by (simp add: node_content_def)
  show ?thesis
  proof (cases "children_get (nd_children n) name")
    case (Some child)
    then show ?thesis
      using k c \<open>fmlookup (fs_nodes s) cur = Some n\<close> content_of_node [of s child]
      by (cases "fmlookup (fs_nodes s) child") (auto simp: is_directory_def is_symlink_def node_content_def content_def)
  qed (use k c Some in \<open>auto simp: is_directory_def\<close>)
qed (simp add: content_def)

declare walk_segments.simps(2) [simp del]

text \<open>Entries are added; what was there stays, and what is new is no symbolic link.\<close>

definition grows :: "mem_state \<Rightarrow> mem_state \<Rightarrow> bool" where
  "grows s t \<longleftrightarrow> fs_root t = fs_root s
     \<and> (\<forall>j v. content s j = Some v \<longrightarrow> content t j = Some v)
     \<and> (\<forall>p x c. kid s p x = Some c \<longrightarrow> kid t p x = Some c)
     \<and> (\<forall>p x c. kid s p x = None \<longrightarrow> kid t p x = Some c \<longrightarrow> (\<exists>ft v. content t c = Some (ft, v) \<and> ft \<noteq> Symlink))"

lemma grows_same: "same_state s t \<Longrightarrow> grows s t"
  using same_state_view [of s t] same_state_content [of s t] by (simp add: grows_def)

lemma grows_created: "created en ft tg i s t \<Longrightarrow> ft \<noteq> Symlink \<Longrightarrow> grows s t"
  by (auto simp: created_def becomes_def grows_def ent_upd_apply split: if_splits)

text \<open>The entry as a state shows it; the root has no name.\<close>

definition seen_in :: "mem_state \<Rightarrow> entry \<Rightarrow> entry" where
  "seen_in t en = (if en_name en = [] then en else en\<lparr>en_node := kid t (en_parent en) (en_name en)\<rparr>)"

lemma walk_segments_grow:
  assumes g: "grows s t" and f: "ff \<longrightarrow> ff'"
    and "walk_segments s ff sc nz before xs cur = Inr out"
    and "[] \<notin> set xs"
    and "ff' \<noteq> ff \<Longrightarrow> (case out of Arrived en \<Rightarrow> en_node en = None | Redirect _ \<Rightarrow> True)"
  shows "walk_segments t ff' sc' nz before xs cur
    = Inr (case out of Arrived en \<Rightarrow> Arrived (seen_in t en) | Redirect r \<Rightarrow> Redirect r)"
  using assms(3-)
proof (induction xs arbitrary: before cur)
  case (Cons x xs)
  obtain v where c: "content s cur = Some (Directory, v)"
    using Cons.prems(1) by (auto simp: walk_segments_view split: option.splits if_splits)
  have ct: "content t cur = Some (Directory, v)" using g c unfolding grows_def by blast
  show ?case
  proof (cases "kid s cur x")
    case None
    then have xs: "xs = []" and out: "out = Arrived \<lparr>en_parent = cur, en_name = x, en_node = None, en_path = nz\<rparr>"
      using Cons.prems(1) c by (auto simp: walk_segments_view split: if_splits)
    show ?thesis
    proof (cases "kid t cur x")
      case (Some e)
      then obtain ft w where "content t e = Some (ft, w)" "ft \<noteq> Symlink" using g None unfolding grows_def by blast
      then show ?thesis using ct xs out Some Cons.prems(2) by (cases w) (auto simp: walk_segments_view seen_in_def)
    qed (use ct xs out in \<open>simp add: walk_segments_view seen_in_def\<close>)
  next
    case (Some e)
    have kt: "kid t cur x = Some e" using g Some unfolding grows_def by blast
    obtain ft d tg where e: "content s e = Some (ft, d, tg)"
      using Cons.prems(1) c Some by (auto simp: walk_segments_view split: option.splits)
    have et: "content t e = Some (ft, d, tg)" using g e unfolding grows_def by blast
    show ?thesis
    proof (cases "xs = [] \<or> ft = Symlink")
      case True
      then show ?thesis
        using Cons.prems f c ct Some kt e et
        by (auto simp: walk_segments_view [of s] walk_segments_view [of t] Let_def seen_in_def split: if_splits option.splits)
    next
      case False
      then have "walk_segments s ff sc nz (before @ [x]) xs e = Inr out"
        using Cons.prems(1) c Some e by (simp add: walk_segments_view [of s])
      then show ?thesis
        using Cons.IH Cons.prems(2,3) False ct kt et by (simp add: walk_segments_view [of t])
    qed
  qed
qed simp

text \<open>A free entry is where the walk still leads.\<close>

lemma walk_grow:
  assumes g: "grows s t"
  shows "walk s path ff sc d = Inr en \<Longrightarrow> ff \<longrightarrow> ff' \<Longrightarrow> en_node en = None \<or> ff' = ff \<Longrightarrow>
    walk t path ff' sc' d = Inr (seen_in t en)"
  using g
proof (induction s path ff sc d rule: walk.induct)
  case (1 s path ff sc d)
  have nul: "CHR 0x00 \<notin> set path" and d: "\<not> d \<ge> MAX_SYMLINK_DEPTH" 
    using "1.prems"(1) by (auto simp: walk.simps [of s path] split: if_splits)
  have root: "fs_root t = fs_root s" using "1.prems"(4) by (simp add: grows_def)
  have ne: "[] \<notin> set (split_path (normalize_path path))"
    using norm_comps_valid_in by (fastforce simp: split_path_norm_comps valid_component_def)
  show ?case
  proof (cases "normalize_path path = ''/''")
    case True
    then show ?thesis using "1.prems"(1) nul d root by (auto simp: walk.simps [of s path] walk.simps [of t path] seen_in_def)
  next
    case nr: False
    obtain out where out: "walk_segments s ff sc (normalize_path path) [] (split_path (normalize_path path)) (fs_root s) = Inr out"
      using "1.prems"(1) nul d nr by (auto simp: walk.simps [of s path] Let_def split: sum.splits)
    show ?thesis
    proof (cases out)
      case (Arrived e)
      then have e: "out = Arrived en" using "1.prems"(1) out nul d nr by (simp add: walk.simps [of s path])
      have "walk_segments t ff' sc' (normalize_path path) [] (split_path (normalize_path path)) (fs_root s) = Inr (Arrived (seen_in t en))"
        using walk_segments_grow [OF "1.prems"(4,2) out ne] "1.prems"(3) e by auto
      then show ?thesis using nul d nr root by (simp add: walk.simps [of t path])
    next
      case (Redirect r)
      have "walk_segments t ff' sc' (normalize_path path) [] (split_path (normalize_path path)) (fs_root s) = Inr (Redirect r)"
        using walk_segments_grow [OF "1.prems"(4,2) out ne] Redirect by auto
      moreover have "walk s r ff sc (d + 1) = Inr en"
        using "1.prems"(1) out Redirect nul d nr by (simp add: walk.simps [of s path])
      then have "walk t r ff' sc' (d + 1) = Inr (seen_in t en)"
        using "1.IH" [OF _ d refl nr out] nul Redirect "1.prems" by simp
      ultimately show ?thesis using nul d nr root by (simp add: walk.simps [of t path])
    qed
  qed
qed

lemma normalize_no_nul: "CHR 0x00 \<notin> set path \<Longrightarrow> CHR 0x00 \<notin> set (normalize_path path)"
proof
  have j: "set (join_with ''/'' xs) \<subseteq> insert CHR ''/'' (\<Union> (set ` set xs))" for xs
    by (induction "''/''" xs rule: join_with.induct) auto
  assume "CHR 0x00 \<notin> set path" "CHR 0x00 \<in> set (normalize_path path)"
  then show False
    using j [of "norm_comps path"] norm_comps_chars [of _ path]
    by (fastforce simp: normalize_path_render render_path_def split: if_splits)
qed

lemma normalize_path_twice: "normalize_path (normalize_path path) = normalize_path path"
  by (metis normalize_path_render norm_comps_normalize)

lemma walk_normalized: "CHR 0x00 \<notin> set path \<Longrightarrow> walk s (normalize_path path) ff sc d = walk s path ff sc d"
  using normalize_no_nul [of path]
  by (simp add: walk.simps [of s path] walk.simps [of s "normalize_path path"] normalize_path_twice)

section \<open>Directories just made\<close>

text \<open>A path leads to a directory.\<close>

definition names_dir :: "mem_state \<Rightarrow> string \<Rightarrow> bool" where
  "names_dir s path \<longleftrightarrow> (\<forall>sc. \<exists>i. resolve s path True sc = Inr i \<and> fs_dir s i)"

lemma root_names_dir: "memfs_wf s \<Longrightarrow> CHR 0x00 \<notin> set path \<Longrightarrow> normalize_path path = ''/'' \<Longrightarrow> names_dir s path"
  using root_live [of s] by (simp add: names_dir_def resolve_def walk.simps [of s path] MAX_SYMLINK_DEPTH_def live_dir_def)

lemma created_names_dir:
  assumes w: "walk s path ff sc 0 = Inr en" and n: "en_node en = None" and c: "created en Directory None i s t"
  shows "names_dir t path"
  unfolding names_dir_def
proof
  fix sc'
  have k: "kid t (en_parent en) (en_name en) = Some i" "content t i = Some (Directory, [], None)"
    using c by (auto simp: created_def becomes_def ent_upd_apply)
  have ne: "en_name en \<noteq> []" using c by (auto simp: created_def name_ok_def valid_component_def)
  have "walk t path True sc' 0 = Inr (seen_in t en)"
    using walk_grow [OF grows_created [OF c] w, of True sc'] n by simp
  then show "\<exists>i. resolve t path True sc' = Inr i \<and> fs_dir t i"
    using k ne by (simp add: resolve_def seen_in_def fs_dir_content)
qed

lemma found_names_dir:
  assumes wf: "memfs_wf s" and w: "walk s path True sc 0 = Inr en" and n: "en_node en = Some i" "fs_dir s i" and t: "same_state s t"
  shows "names_dir t path"
  unfolding names_dir_def
proof
  fix sc'
  have w': "walk t path True sc' 0 = Inr (seen_in t en)" using walk_grow [OF grows_same [OF t] w, of True sc'] by simp
  have "en_node (seen_in t en) = Some i"
    using walk_entry_ok [OF w] n same_state_view(1) [OF t] by (auto simp: entry_ok_def entry_at_def root_entry_def seen_in_def)
  then show "\<exists>i. resolve t path True sc' = Inr i \<and> fs_dir t i"
    using n(2) same_state_view(3) [OF t] w' by (auto simp: resolve_def)
qed

text \<open>The path of names resolves to the directory.\<close>

lemma tree_walk_names: "memfs_wf s \<Longrightarrow> tree_walk (kid s) i cs = Some d \<Longrightarrow> list_all name_ok cs"
  by (induction cs arbitrary: i) (auto split: option.splits dest: kid_name_ok)

lemma resolve_tree:
  assumes wf: "memfs_wf s" and d: "live_dir s d" and w: "tree_walk (kid s) (fs_root s) cs = Some d"
  shows "resolve s (render_path cs) ff sc = Inr d"
proof (cases cs rule: rev_cases)
  case Nil
  moreover have "normalize_path ''/'' = ''/''" by code_simp
  ultimately show ?thesis
    using w by (simp add: resolve_def render_path_def walk.simps [of s "''/''"] MAX_SYMLINK_DEPTH_def)
next
  case (snoc xs x)
  then obtain p where p: "tree_walk (kid s) (fs_root s) xs = Some p" "kid s p x = Some d"
    using w by (auto simp: tree_walk_snoc)
  have "fs_dir s p" using memtree.entry_parent [OF wf p(2)] by (simp add: live_dir_def)
  then have e: "entry_at s xs \<lparr>en_parent = p, en_name = x, en_node = Some d, en_path = render_path cs\<rparr>"
    using p snoc tree_walk_names [OF wf w] by (simp add: entry_at_def)
  have "\<not> is_symlink n" if "fmlookup (fs_nodes s) d = Some n" for n
    using d that by (auto simp: live_dir_def fs_dir_iff is_directory_def is_symlink_def)
  then show ?thesis using walk_again [OF wf e, of ff sc] by (simp add: resolve_def)
qed

text \<open>The loop of a recursive \<^verbatim>\<open>mkdir\<close> has made the path it has read.\<close>

definition extend_path :: "string \<Rightarrow> string \<Rightarrow> string" where
  "extend_path cur seg = (if cur \<noteq> ''/'' then cur @ ''/'' else cur) @ seg"

lemma render_extend:
  assumes "list_all valid_component segs"
  shows "foldl extend_path ''/'' segs = render_path segs"
  using assms
proof (induction segs rule: rev_induct)
  case (snoc x xs)
  have "render_path xs \<noteq> ''/''" if "xs \<noteq> []"
    using that snoc.prems by (cases xs rule: rev_cases) (auto simp: render_path_def join_with_snoc valid_component_def)
  then show ?case
    using snoc by (auto simp: extend_path_def render_path_def join_with_snoc)
qed (simp add: render_path_def)

lemma mkdir_loop:
  assumes "memfs_wf s" and m: "creatable mode None" "file_type_from_mode mode = Directory"
    and "sfold (mkdir_segment env nz mode) (cur, first) segs s = (Inr (cur', first'), t)"
  shows "cur' = foldl extend_path cur segs \<and> (segs \<noteq> [] \<longrightarrow> names_dir t cur')"
  using assms(1,4)
proof (induction segs arbitrary: cur first s)
  case (Cons x xs)
  obtain c1 f1 s1 where one: "mkdir_segment env nz mode (cur, first) x s = (Inr (c1, f1), s1)"
    and rest: "sfold (mkdir_segment env nz mode) (c1, f1) xs s1 = (Inr (cur', first'), t)"
    using Cons.prems(2) by (auto simp: sbind_def split: prod.splits sum.splits)
  have "(\<lambda>(c1, f1) s1. c1 = extend_path cur x \<and> (\<exists>en. walk s c1 True ''mkdir'' 0 = Inr en \<and>
      (case en_node en of
         Some i \<Rightarrow> fs_dir s i \<and> f1 = first \<and> same_state s s1
       | None \<Rightarrow> f1 = (case first of None \<Rightarrow> Some c1 | Some f \<Rightarrow> Some f)
                 \<and> created en Directory None (fs_next_ino s) s s1))) (c1, f1) s1"
    using run_okD [OF mkdir_segment_ok [OF Cons.prems(1) m] one] unfolding extend_path_def sum.case .
  then obtain en where c1: "c1 = extend_path cur x" and w: "walk s c1 True ''mkdir'' 0 = Inr en"
    and e: "case en_node en of
         Some i \<Rightarrow> fs_dir s i \<and> same_state s s1
       | None \<Rightarrow> created en Directory None (fs_next_ino s) s s1"
    by (auto split: option.splits)
  have n: "names_dir s1 c1"
    by (cases "en_node en") (use e in \<open>auto intro: created_names_dir [OF w] found_names_dir [OF Cons.prems(1) w]\<close>)
  have "memfs_wf s1"
    using advances_wf run_advances [OF mkdir_segment_advances [OF Cons.prems(1) m] Cons.prems(1) one] by blast
  from Cons.IH [OF this rest] show ?case using c1 n rest by (cases "xs = []") auto
qed simp

lemma mkdir_names_dir:
  assumes wf: "memfs_wf s" and run: "fs_mkdir env path options s = (Inr r, t)"
  shows "names_dir t path"
proof -
  have nul: "CHR 0x00 \<notin> set path" using run by (auto simp: fs_mkdir_def split: if_splits)
  have wft: "memfs_wf t" using mkdir_advances [OF wf run] by (rule advances_wf)
  have "names_dir t (normalize_path path)"
  proof (cases "mo_recursive options")
    case False
    then show ?thesis using run_okD [OF mkdir_one_ok [OF wf False] run] created_names_dir by auto
  next
    case True
    let ?mode = "S_IFDIR OR masked_mode (case mo_mode options of None \<Rightarrow> 0x1FF | Some m \<Rightarrow> m) (fs_umask s)"
    let ?segs = "split_path (normalize_path path)"
    obtain cur first where l: "sfold (mkdir_segment env (normalize_path path) ?mode) (''/'', None) ?segs s = (Inr (cur, first), t)"
      using run True nul by (auto simp: fs_mkdir_def sbind_def Let_def split: prod.splits sum.splits)
    have "foldl extend_path ''/'' ?segs = normalize_path path"
      using render_extend [of ?segs] by (simp add: split_path_norm_comps norm_comps_valid normalize_path_render [of path])
    moreover have "names_dir t (normalize_path path)" if "?segs = []"
      using root_names_dir [OF wft normalize_no_nul [OF nul]] that
      by (simp add: split_path_norm_comps normalize_path_twice normalize_path_root_iff)
    ultimately show ?thesis using mkdir_loop [OF wf _ _ l] by (cases "?segs = []") auto
  qed
  then show ?thesis using walk_normalized [OF nul] by (simp add: names_dir_def resolve_def)
qed

section \<open>Moved entries\<close>

lemma tree_walk_avoids:
  assumes "\<And>us vs. cs = us @ x # vs \<Longrightarrow> tree_walk K i us \<noteq> Some p"
  shows "tree_walk (ent_upd K p x v) i cs = tree_walk K i cs"
  using assms
proof (induction cs arbitrary: i)
  case (Cons y ys)
  have ne: "\<not> (i = p \<and> y = x)" using Cons.prems [of "[]" ys] by auto
  show ?case
  proof (cases "K i y")
    case (Some j)
    have "tree_walk K j us \<noteq> Some p" if "ys = us @ x # vs" for us vs
      using Cons.prems [of "y # us" vs] that Some by simp
    then show ?thesis using Cons.IH [of j] ne Some by (auto simp: ent_upd_apply)
  qed (use ne in \<open>auto simp: ent_upd_apply\<close>)
qed simp

lemma tree_walk_remove: "tree_walk (ent_upd K p x None) i cs = Some j \<Longrightarrow> tree_walk K i cs = Some j"
  by (induction cs arbitrary: i) (auto simp: ent_upd_apply split: option.splits if_splits)

lemma moved_walk:
  assumes wf: "memfs_wf s" and m: "moved src dst c s t" and ok: "entry_ok s dst"
  shows "walk t (en_path dst) False sc 0 = Inr (dst\<lparr>en_node := Some c\<rparr>)"
proof -
  let ?p = "en_parent src" and ?x = "en_name src" and ?q = "en_parent dst" and ?y = "en_name dst"
  have wft: "memfs_wf t" and kt: "kid t = ent_upd (ent_upd (kid s) ?p ?x None) ?q ?y (Some c)" and root: "fs_root t = fs_root s"
    and c: "kid s ?p ?x = Some c" and lq: "live_dir s ?q" and name: "name_ok ?y"
    and cyc: "fs_dir s c \<Longrightarrow> (\<forall>zs. tree_walk (kid s) c zs \<noteq> Some ?q)" and ct: "content t = content s"
    using m by (auto simp: moved_def becomes_def)
  have "?y \<noteq> []" using name by (simp add: name_ok_def valid_component_def)
  then obtain cs where cs: "entry_at s cs dst" using ok by (auto simp: entry_ok_def root_entry_def)
  have w: "tree_walk (kid s) (fs_root s) cs = Some ?q" using cs by (simp add: entry_at_def)
  have dirs: "fs_dir s c" if "tree_walk (kid s) c vs = Some ?q" for vs
    using that memtree.entry_parent [OF wf, of c] lq by (cases vs) (auto simp: live_dir_def split: option.splits)
  have a1: "tree_walk (ent_upd (kid s) ?p ?x None) (fs_root s) cs = Some ?q"
  proof (subst tree_walk_avoids)
    show "tree_walk (kid s) (fs_root s) us \<noteq> Some ?p" if "cs = us @ ?x # vs" for us vs
      using w that c cyc dirs by (auto simp: tree_walk_append)
  qed (rule w)
  have "tree_walk (kid t) (fs_root t) cs = Some ?q"
    unfolding kt root
  proof (subst tree_walk_avoids)
    show "tree_walk (ent_upd (kid s) ?p ?x None) (fs_root s) us \<noteq> Some ?q" if "cs = us @ ?y # vs" for us vs
    proof
      assume "tree_walk (ent_upd (kid s) ?p ?x None) (fs_root s) us = Some ?q"
      then have "tree_walk (kid s) (fs_root s) us = Some ?q" by (rule tree_walk_remove)
      then show False using memtree.walk_unique [OF wf lq w, of us] that by simp
    qed
  qed (rule a1)
  then have "entry_at t cs (dst\<lparr>en_node := Some c\<rparr>)"
    using cs kt fs_dir_content [of t ?q] fs_dir_content [of s ?q] ct by (simp add: entry_at_def ent_upd_apply)
  from walk_again [OF wft this, of False sc] show ?thesis by simp
qed

end
