(* ===== verification/Mem_Fs_Listing.thy ===== *)
theory Mem_Fs_Listing
  imports Mem_Fs_Paths
begin

text \<open>
  Directory listings of the memory file system, and the change time under guarded \<^verbatim>\<open>setattr\<close>.
\<close>

section \<open>Listings\<close>

lemma readdir_collect_result:
  "readdir_collect path limit acc es =
     (if \<exists>m. limit = Some m \<and> length acc \<le> m \<and> m < length acc + length es
      then Inl (with_message ''directory exceeds the configured entry limit'' (syscp Eoverflow ''scandir'' (normalize_path path)))
      else Inr (acc @ es))"
proof (induction es arbitrary: acc)
  case (Cons e es)
  show ?case
  proof (cases "limit = Some (length acc)")
    case False
    then have "(\<exists>m. limit = Some m \<and> length (acc @ [e]) \<le> m \<and> m < length (acc @ [e]) + length es)
        \<longleftrightarrow> (\<exists>m. limit = Some m \<and> length acc \<le> m \<and> m < length acc + length (e # es))"
      by (cases limit) auto
    then show ?thesis using False Cons.IH [of "acc @ [e]"] by (auto simp del: Cons.IH)
  qed simp
qed simp

lemma children_names:
  assumes wf: "memfs_wf s" and n: "fmlookup (fs_nodes s) i = Some n"
  shows "distinct (map fst (children_iter (nd_children n)))"
    and "(x, c) \<in> set (children_iter (nd_children n)) \<longleftrightarrow> kid s i x = Some c"
    and "length (children_iter (nd_children n)) = card (dom (kid s i))"
proof -
  have w: "children_wf (nd_children n)" using wf_node_ok [OF wf n] by (simp add: node_ok_def)
  show d: "distinct (map fst (children_iter (nd_children n)))" by (rule kids.entries_distinct [OF w])
  have k: "kid s i = children_get (nd_children n)" using n by (simp add: kid_def fun_eq_iff)
  show "(x, c) \<in> set (children_iter (nd_children n)) \<longleftrightarrow> kid s i x = Some c"
    unfolding k by (rule kids.entries_iff [OF w])
  have "dom (kid s i) = set (map fst (children_iter (nd_children n)))"
    unfolding k using kids.get_entries [OF w] dom_map_of_conv_image_fst by (metis set_map)
  then show "length (children_iter (nd_children n)) = card (dom (kid s i))" using distinct_card [OF d] by simp
qed

definition listed :: "mem_state \<Rightarrow> string \<Rightarrow> (string \<times> nat) list \<Rightarrow> dir_entry list" where
  "listed s path es = concat (map (\<lambda>(name, child).
        case fmlookup (fs_nodes s) child of
          None \<Rightarrow> []
        | Some c \<Rightarrow> [\<lparr>de_name = name, de_parent_path = normalize_path path, de_file_type = node_file_type c\<rparr>]) es)"

lemma listed_entries:
  assumes "\<forall>e\<in>set es. content s (snd e) \<noteq> None"
  shows "map de_name (listed s path es) = map fst es"
    and "e \<in> set (listed s path es) \<Longrightarrow> \<exists>c v. (de_name e, c) \<in> set es \<and> content s c = Some (de_file_type e, v)"
proof -
  show "map de_name (listed s path es) = map fst es"
    using assms
  proof (induction es)
    case (Cons e es)
    obtain x c where e: "e = (x, c)" by fastforce
    obtain n where "fmlookup (fs_nodes s) c = Some n" using Cons.prems e by (auto simp: content_def)
    moreover have "map de_name (listed s path es) = map fst es"
      by (rule Cons.IH) (use Cons.prems in simp)
    ultimately show ?case using e by (simp add: listed_def)
  qed (simp add: listed_def)
  assume "e \<in> set (listed s path es)"
  then obtain x c n where "(x, c) \<in> set es" "fmlookup (fs_nodes s) c = Some n" "de_name e = x" "de_file_type e = node_file_type n"
    by (auto simp: listed_def split: option.splits dest: sym [of "Some _"])
  then show "\<exists>c v. (de_name e, c) \<in> set es \<and> content s c = Some (de_file_type e, v)"
    using content_of_node [of s c n] by (auto simp: node_content_def)
qed

lemma readdir_exact:
  assumes wf: "memfs_wf s" and i: "resolve s path True ''scandir'' = Inr i" and d: "fs_dir s i" and l: "limit \<noteq> Some 0"
    and run: "readdir_with_limit env path limit s = (r, t)"
  shows "case r of
      Inr es \<Rightarrow> distinct (map de_name es) \<and> set (map de_name es) = dom (kid s i)
        \<and> (\<forall>e\<in>set es. \<exists>c v. kid s i (de_name e) = Some c \<and> content s c = Some (de_file_type e, v))
        \<and> (\<forall>m. limit = Some m \<longrightarrow> length es \<le> m)
    | Inl e \<Rightarrow> err_code e = Eoverflow \<and> (\<exists>m. limit = Some m \<and> m < card (dom (kid s i)))"
proof -
  obtain n where n: "fmlookup (fs_nodes s) i = Some n" "is_directory n" using d by (auto simp: fs_dir_iff)
  let ?es = "children_iter (nd_children n)"
  note names = children_names [OF wf n(1)]
  have same: "content t = content s" using keepsD [OF attr_readdir _ run] same_state_content by simp
  have r: "r = (case readdir_collect path limit [] ?es of Inl e \<Rightarrow> Inl e | Inr cs \<Rightarrow> Inr (listed t path cs))"
    using run l i n
    by (auto simp: readdir_with_limit_def fs_resolve_def get_node_def sbind_def fs_now_def listed_def split: sum.splits)
  show ?thesis
  proof (cases "\<exists>m. limit = Some m \<and> m < length ?es")
    case True
    then show ?thesis using r names(3) by (auto simp: readdir_collect_result)
  next
    case False
    then have r: "r = Inr (listed t path ?es)" using r by (simp add: readdir_collect_result)
    have ex: "\<forall>e\<in>set ?es. content t (snd e) \<noteq> None"
    proof
      fix e assume "e \<in> set ?es"
      then have "kid s i (fst e) = Some (snd e)" using names(2) [of "fst e" "snd e"] by simp
      from kid_linked [OF wf this] show "content t (snd e) \<noteq> None" unfolding same
        by (auto simp: content_def nlinks_def split: option.splits)
    qed
    have "length (listed t path ?es) = length ?es" using listed_entries(1) [OF ex, where path = path] by (metis length_map)
    moreover have "set (map fst ?es) = dom (kid s i)" using names(2) by (force simp: image_iff)
    moreover have "\<exists>c v. kid s i (de_name e) = Some c \<and> content s c = Some (de_file_type e, v)" if "e \<in> set (listed t path ?es)" for e
      using listed_entries(2) [OF ex that] names(2) same by simp
    ultimately show ?thesis
      unfolding r sum.case listed_entries(1) [OF ex] using names(1) False by auto
  qed
qed

section \<open>Change times\<close>

lemma resize_keeps_ctime:
  assumes "resize env i len sc s = (Inr (), t)"
  shows "map_option nd_ctime_ms (fmlookup (fs_nodes t) j) = map_option nd_ctime_ms (fmlookup (fs_nodes s) j)"
  using assms
  by (cases "fmlookup (fs_nodes s) i")
    (auto simp: resize_def get_node_def upd_node_def Let_def split: if_splits)

lemma next_time_later: "next_guarded_time env previous sc path s = (Inr v, t) \<Longrightarrow> previous < v \<and> fs_nodes t = fs_nodes s"
  by (auto simp: next_guarded_time_def fs_now_def split: if_splits)

lemma setattr_node_ctime: "nd_ctime_ms (setattr_node c (Some v) m n) = v"
  by (simp add: setattr_node_def Let_def)

lemma setattr_ctime:
  assumes wf: "memfs_wf s" and ch: "setattr_changed change"
    and run: "apply_guarded_setattr env target change s = (Inr (), t)"
    and n: "fmlookup (fs_nodes s) (guard_ino target) = Some n"
  shows "\<exists>m. fmlookup (fs_nodes t) (guard_ino target) = Some m \<and> nd_ctime_ms n < nd_ctime_ms m"
proof -
  let ?i = "guard_ino target"
  have gd: "check_path_guard s target ''setattr'' = Inr ?i"
    using run guard_inode [OF wf] by (fastforce simp: apply_guarded_setattr_def)
  obtain v s1 mt s2 u s3 where c: "next_guarded_time env (nd_ctime_ms n) ''setattr'' (pg_path target) s = (Inr v, s1)"
    and m: "(if gs_size change \<noteq> None \<and> gs_mtime_ms change = None
            then sbind (next_guarded_time env (nd_mtime_ms n) ''setattr'' (pg_path target)) (\<lambda>t. sret (Some t))
            else sret None) s1 = (Inr mt, s2)"
    and z: "(case gs_size change of None \<Rightarrow> sret () | Some len \<Rightarrow> resize env ?i len ''setattr'') s2 = (Inr u, s3)"
    and t: "t = upd_node ?i (setattr_node change (Some v) mt) s3"
    using run gd n ch by (auto simp: apply_guarded_setattr_def get_node_def split: if_splits option.splits)
  have "fs_nodes s1 = fs_nodes s" "nd_ctime_ms n < v" using next_time_later [OF c] by auto
  moreover have "fs_nodes s2 = fs_nodes s1" using m by (auto dest: next_time_later split: if_splits)
  ultimately have "map_option nd_ctime_ms (fmlookup (fs_nodes s3) ?i) = Some (nd_ctime_ms n)"
    using n z resize_keeps_ctime [of env ?i _ "''setattr''" s2 s3 ?i] by (auto split: option.splits)
  then show ?thesis
    using t \<open>nd_ctime_ms n < v\<close> by (auto simp: upd_node_def setattr_node_ctime)
qed

lemma setattr_rejected:
  assumes wf: "memfs_wf t" and m: "fmlookup (fs_nodes t) (guard_ino target) = Some m"
    and x: "gs_expected_ctime_ms change = Some x" "x \<noteq> nd_ctime_ms m"
  shows "\<exists>e u. apply_guarded_setattr env target change t = (Inl e, u) \<and> err_code e \<in> {Estale, Eagain}"
proof (cases "check_path_guard t target ''setattr''")
  case (Inl e)
  then have "err_code e = Estale"
    by (auto simp: check_path_guard_def Let_def and_then_def ok_or_def split: if_splits sum.splits option.splits)
  then show ?thesis using Inl by (simp add: apply_guarded_setattr_def sbind_def)
next
  case (Inr i)
  then show ?thesis
    using guard_inode(1) [OF wf Inr] m x by (simp add: apply_guarded_setattr_def sbind_def get_node_def)
qed

end
