(* ===== verification/Mem_Fs_Correct.thy ===== *)
theory Mem_Fs_Correct
  imports Mem_Fs_Listing
begin

text \<open>
  The properties of the memory file system, each with a run on which its hypotheses hold.
\<close>

section \<open>Sample runs\<close>

definition demo_env :: env where
  "demo_env = \<lparr>env_clock = int, env_reserve = (\<lambda>_. True)\<rparr>"

definition demo_run :: "memfs_call list \<Rightarrow> mem_state" where
  "demo_run cs = fold (\<lambda>c s. snd (run_call demo_env c s)) cs (memfs_new demo_env memory_options_default)"

lemma demo_run_wf: "memfs_wf (demo_run cs)"
proof -
  have "memfs_wf s \<Longrightarrow> memfs_wf (fold (\<lambda>c s. snd (run_call demo_env c s)) cs s)" for s
  proof (induction cs arbitrary: s)
    case (Cons c cs)
    obtain r t where "run_call demo_env c s = (r, t)" by fastforce
    then show ?case using Cons run_call_advances [OF Cons.prems] by (simp add: advances_def)
  qed simp
  then show ?thesis by (simp add: demo_run_def memfs_new_wf)
qed

lemma ran: "fst p = r \<Longrightarrow> p = (r, snd p)"
  by (cases p) simp

abbreviation demo_mkdir :: "string \<Rightarrow> memfs_call" where
  "demo_mkdir p \<equiv> C_Mkdir p \<lparr>mo_recursive = False, mo_mode = None\<rparr>"

abbreviation demo_file :: "string \<Rightarrow> memfs_call" where
  "demo_file p \<equiv> C_Mknod p 0x8000 0"

text \<open>A new file system on which one file has been opened, and then a read of it begun.\<close>

definition demo_open :: world where
  "demo_open = (let p = fs_open demo_env ''/f'' ''w+'' 0x1B6 (memfs_new demo_env memory_options_default)
     in \<lparr>w_fs = snd p, w_slots = (case fst p of Inr h \<Rightarrow> [idle_slot h] | Inl _ \<Rightarrow> [])\<rparr>)"

definition demo_reading :: world where
  "demo_reading = demo_open\<lparr>w_slots := (w_slots demo_open)[0 := (w_slots demo_open ! 0)\<lparr>sl_pending := Some (P_Read 4 None)\<rparr>]\<rparr>"

lemma demo_open_reachable: "world_reachable demo_env memory_options_default demo_open"
proof -
  let ?new = "\<lparr>w_fs = memfs_new demo_env memory_options_default, w_slots = []\<rparr>"
  obtain r s where p: "fs_open demo_env ''/f'' ''w+'' 0x1B6 (w_fs ?new) = (r, s)" by fastforce
  have "world_reachable demo_env memory_options_default
      (?new\<lparr>w_fs := s, w_slots := w_slots ?new @ (case r of Inr h \<Rightarrow> [idle_slot h] | Inl _ \<Rightarrow> [])\<rparr>)"
    by (rule reach_step [OF reach_new], rule step_open [OF p])
  then show ?thesis using p by (simp add: demo_open_def)
qed

lemma demo_reading_reachable: "world_reachable demo_env memory_options_default demo_reading"
proof -
  have "0 < length (w_slots demo_open)" "sl_pending (w_slots demo_open ! 0) = None" by code_simp+
  moreover have "pending_begin (P_Read 4 None) (sl_handle (w_slots demo_open ! 0)) (w_fs demo_open) = Inr ()" by code_simp
  ultimately show ?thesis
    unfolding demo_reading_def by (rule reach_step [OF demo_open_reachable step_begin])
qed

section \<open>Reachable states\<close>

text \<open>
  C2: In every state that any interleaving of path calls, guarded requests and handle calls reaches
  from a new file system, the directories form a tree from the root, link counts equal the numbers
  of names, the node and block counters are those of the nodes in use, inode numbers are below the
  next one, and every open handle's inode exists and is a file or a directory.
\<close>

theorem memfs_reachable_wf:
  assumes "world_reachable env options w"
  shows "memfs_wf (w_fs w) \<and> list_all (slot_ok (w_fs w)) (w_slots w)"
  using world_reachable_ok [OF assms] by (simp add: world_ok_def)

theorem memfs_reachable_wf_witness:
  "memfs_wf (w_fs demo_open) \<and> list_all (slot_ok (w_fs demo_open)) (w_slots demo_open) \<and> length (w_slots demo_open) = 1"
proof -
  have "length (w_slots demo_open) = 1" by code_simp
  then show ?thesis using memfs_reachable_wf [OF demo_open_reachable] by blast
qed





section \<open>Paths\<close>

text \<open>
  A walk that succeeds ends at the root or at a name in a directory that is in the tree. It
  reports a normalised path, and walking that path arrives at the same entry. A walk that follows
  the last link does not end at a symbolic link.
\<close>

theorem memfs_walk_sound:
  assumes wf: "memfs_wf s" and w: "walk s path ff sc 0 = Inr en"
  shows "live_dir s (en_parent en) \<and> normalize_path (en_path en) = en_path en
    \<and> en_node en = (if en_name en = [] then Some (fs_root s) else kid s (en_parent en) (en_name en))
    \<and> walk s (en_path en) False sc 0 = Inr en
    \<and> (ff \<longrightarrow> (\<forall>c d tg. en_node en = Some c \<longrightarrow> content s c \<noteq> Some (Symlink, d, tg)))"
proof -
  have ok: "entry_ok s en" by (rule walk_entry_ok [OF w])
  have "normalize_path (en_path en) = en_path en
    \<and> en_node en = (if en_name en = [] then Some (fs_root s) else kid s (en_parent en) (en_name en))
    \<and> walk s (en_path en) False sc 0 = Inr en"
    using ok unfolding entry_ok_def
  proof
    assume e: "en = root_entry s"
    have "normalize_path ''/'' = ''/''" by code_simp
    then show ?thesis
      unfolding e root_entry_def by (simp add: walk.simps [of s "''/''"] MAX_SYMLINK_DEPTH_def)
  next
    assume "\<exists>cs. entry_at s cs en"
    then obtain cs where cs: "entry_at s cs en" by blast
    then show ?thesis
      using entry_path_comps(3) [OF cs] walk_again [OF wf cs, of False sc]
      by (auto simp: entry_at_def name_ok_def valid_component_def)
  qed
  moreover have "content s c \<noteq> Some (Symlink, d, tg)" if "ff" "en_node en = Some c" for c d tg
  proof
    assume "content s c = Some (Symlink, d, tg)"
    then obtain n where "fmlookup (fs_nodes s) c = Some n" "node_file_type n = Symlink"
      by (auto simp: content_Some node_content_def)
    then show False using walk_follow_kind [OF wf _ that(2), of path sc 0 n] w that(1) by (simp add: is_symlink_def)
  qed
  ultimately show ?thesis using entry_parent_live [OF wf ok] by blast
qed

theorem memfs_walk_sound_witness:
  "\<exists>s en. walk s ''/l/f'' True ''open'' 0 = Inr en \<and> en_path en = ''/a/f'' \<and> walk s ''/a/f'' False ''open'' 0 = Inr en"
proof -
  let ?s = "demo_run [demo_mkdir ''/a'', demo_file ''/a/f'', C_Symlink ''a'' ''/l'']"
  have "walk ?s ''/l/f'' True ''open'' 0 = Inr \<lparr>en_parent = 2, en_name = ''f'', en_node = Some 3, en_path = ''/a/f''\<rparr>"
    by code_simp
  with memfs_walk_sound [OF demo_run_wf this] show ?thesis by fastforce
qed

text \<open>
  Every directory in the tree has exactly one path of names from the root, and that path resolves
  to it.
\<close>

theorem memfs_directory_path:
  assumes wf: "memfs_wf s" and d: "live_dir s d"
  shows "\<exists>cs. (\<forall>ys. tree_walk (kid s) (fs_root s) ys = Some d \<longleftrightarrow> ys = cs)
    \<and> (\<forall>ff sc. resolve s (render_path cs) ff sc = Inr d)"
proof -
  obtain cs where cs: "tree_walk (kid s) (fs_root s) cs = Some d" "\<And>ys. tree_walk (kid s) (fs_root s) ys = Some d \<Longrightarrow> ys = cs"
    using memtree.unique_path [OF wf d] by (elim ex1E) blast
  moreover have "resolve s (render_path cs) ff sc = Inr d" for ff sc
    by (rule resolve_tree [OF wf d cs(1)])
  ultimately show ?thesis by blast
qed

theorem memfs_directory_path_witness:
  "\<exists>s cs. live_dir s 2 \<and> (\<forall>ff sc. resolve s (render_path cs) ff sc = Inr 2)"
proof -
  have "live_dir (demo_run [demo_mkdir ''/a'']) 2" by code_simp
  with memfs_directory_path [OF demo_run_wf this] show ?thesis by blast
qed

text \<open>
  C36: When \<^verbatim>\<open>mkdir\<close> returns success, recursive or not, the path it was given resolves to a directory.
\<close>

theorem memfs_mkdir_resolves:
  assumes "memfs_wf s" "fs_mkdir env path options s = (Inr r, t)"
  shows "\<exists>i. resolve t path True sc = Inr i \<and> fs_dir t i"
  using mkdir_names_dir [OF assms] by (simp add: names_dir_def)

theorem memfs_mkdir_resolves_witness:
  "\<exists>s r t. fs_mkdir demo_env ''/l/x/../y//z'' \<lparr>mo_recursive = True, mo_mode = None\<rparr> s = (Inr r, t)
     \<and> (\<exists>i. resolve t ''/l/x/../y//z'' True ''stat'' = Inr i \<and> fs_dir t i)"
proof -
  let ?s = "demo_run [demo_mkdir ''/a'', C_Symlink ''a'' ''/l'']"
  let ?p = "fs_mkdir demo_env ''/l/x/../y//z'' \<lparr>mo_recursive = True, mo_mode = None\<rparr> ?s"
  have "?p = (Inr (Some ''/l/y''), snd ?p)" by (rule ran) code_simp
  then show ?thesis using memfs_mkdir_resolves [OF demo_run_wf] by blast
qed



section \<open>Contents\<close>

text \<open>
  C24: A read that was admitted completes, whatever ran since: in a reachable state with a read
  pending on a handle, the file is still there even when it has lost its names, and the read returns its
  bytes from the requested position and advances the handle by their number.
\<close>

theorem memfs_admitted_read_completes:
  assumes w: "world_reachable env options w" and k: "k < length (w_slots w)"
    and p: "sl_pending (w_slots w ! k) = Some (P_Read len position)"
  shows "\<exists>d bs h' t. content (w_fs w) (mh_node (sl_handle (w_slots w ! k))) = Some (File, d, None)
    \<and> handle_read_locked env (sl_handle (w_slots w ! k)) len position (w_fs w) = (Inr (bs, h'), t)
    \<and> bs = take len (drop (case position of Some p \<Rightarrow> p | None \<Rightarrow> mh_position (sl_handle (w_slots w ! k))) d)
    \<and> (position = None \<longrightarrow> mh_position h' = saturating_add (mh_position (sl_handle (w_slots w ! k))) (length bs))
    \<and> same_state (w_fs w) t"
proof -
  let ?h = "sl_handle (w_slots w ! k)"
  obtain d where d: "content (w_fs w) (mh_node ?h) = Some (File, d, None)"
    using pending_file [OF world_reachable_ok [OF w] k p] by blast
  with handle_read_locked_ok [OF d, of env len position] show ?thesis
    by (auto simp: must_def Let_def)
qed

theorem memfs_admitted_read_completes_witness:
  "\<exists>bs h t. handle_read_locked demo_env (sl_handle (w_slots demo_reading ! 0)) 4 None (w_fs demo_reading) = (Inr (bs, h), t)"
proof -
  have "0 < length (w_slots demo_reading)" "sl_pending (w_slots demo_reading ! 0) = Some (P_Read 4 None)" by code_simp+
  from memfs_admitted_read_completes [OF demo_reading_reachable this] show ?thesis by blast
qed

text \<open>
  C23: What a write stores, a read returns: after a write through one handle, a read at the written
  position through any open readable handle of the inode returns the bytes written, and all other
  bytes of the file are as before, with zeros between an old end and the position.
\<close>

theorem memfs_write_read:
  assumes wf: "memfs_wf s" and d: "content s (mh_node h) = Some (File, d, None)"
    and run: "handle_write env h buffer position s = (Inr (n, h'), t)"
    and g: "mh_node g = mh_node h" "\<not> mh_closed g" "of_read (mh_flags g)"
  shows "\<exists>u. n = length buffer
    \<and> handle_read env g n (Some (write_from h position d)) t = (Inr (buffer, g), u)
    \<and> content u = (content s)(mh_node h \<mapsto> (File, write_bytes (write_from h position d) buffer d, None))
    \<and> kid u = kid s"
proof -
  let ?d = "write_bytes (write_from h position d) buffer d"
  have "handle_write_locked env h buffer position s = (Inr (n, h'), t)"
    using run by (auto simp: handle_write_def)
  from run_okD [OF handle_write_locked_ok [OF wf d] this]
  have n: "n = length buffer" and t: "written (mh_node h) ?d s t" by auto
  have c: "content t (mh_node g) = Some (File, ?d, None)"
    using t g(1) by (simp add: written_def becomes_def)
  have b: "handle_begin g False ''read'' t = Inr ()" by (rule begin_file [OF c g(2)]) (simp add: g(3))
  obtain bs k u where r: "handle_read_locked env g n (Some (write_from h position d)) t = (Inr (bs, k), u)" "same_state t u"
    "bs = take n (drop (write_from h position d) ?d)" "k = g"
    using handle_read_locked_ok [OF c, of env n "Some (write_from h position d)"] by (auto simp: must_def Let_def)
  have "bs = buffer" using r(3) n write_bytes_inside by simp
  moreover have "content u = (content s)(mh_node h \<mapsto> (File, ?d, None))" "kid u = kid s"
    using t same_state_content [OF r(2)] same_state_view(1) [OF r(2)] by (auto simp: written_def becomes_def)
  ultimately show ?thesis using n r b by (simp add: handle_read_def sbind_def)
qed

definition demo_handle :: mem_handle where
  "demo_handle = \<lparr>mh_node = 2, mh_flags = \<lparr>of_read = True, of_write = True, of_create = False, of_truncate = False,
     of_append = False, of_exclusive = False\<rparr>, mh_path = ''/f'', mh_fd = 3, mh_position = 0, mh_closed = False\<rparr>"

theorem memfs_write_read_witness:
  "\<exists>s h t u. handle_write demo_env demo_handle [7, 8] (Some 3) s = (Inr (2, h), t)
     \<and> handle_read demo_env demo_handle 2 (Some 3) t = (Inr ([7, 8], demo_handle), u)"
proof -
  let ?s = "demo_run [demo_file ''/f'']"
  let ?p = "handle_write demo_env demo_handle [7, 8] (Some 3) ?s"
  have p: "?p = (Inr (2, demo_handle), snd ?p)" by (rule ran) code_simp
  have c: "content ?s (mh_node demo_handle) = Some (File, [], None)" by code_simp
  have h: "\<not> mh_closed demo_handle" "of_read (mh_flags demo_handle)" "write_from demo_handle (Some 3) [] = 3" by code_simp+
  from memfs_write_read [OF demo_run_wf c p refl h(1,2)] p show ?thesis unfolding h(3) by blast
qed

text \<open>
  C37: Removing a name of a file does not disturb its open handles: after \<^verbatim>\<open>unlink\<close>, reads through a handle
  of the removed file, or of any other, return the bytes the file had.
\<close>

theorem memfs_unlink_keeps_data:
  assumes wf: "memfs_wf s" and run: "fs_unlink env path s = (r, t)"
    and d: "content s (mh_node h) = Some (File, d, None)" and h: "\<not> mh_closed h" "of_read (mh_flags h)"
  shows "\<exists>u. handle_read env h len (Some off) t = (Inr (take len (drop off d), h), u)"
proof -
  have "content t = content s"
    using run_okD [OF unlink_ok [OF wf] run] same_state_content [of s t]
    by (cases r) (auto simp: dropped_def becomes_def)
  then have c: "content t (mh_node h) = Some (File, d, None)" using d by simp
  have b: "handle_begin h False ''read'' t = Inr ()" by (rule begin_file [OF c h(1)]) (simp add: h(2))
  obtain u where "handle_read_locked env h len (Some off) t = (Inr (take len (drop off d), h), u)"
    using handle_read_locked_ok [OF c, of env len "Some off"] by (auto simp: must_def Let_def)
  then show ?thesis using b by (simp add: handle_read_def sbind_def)
qed

theorem memfs_unlink_keeps_data_witness:
  "\<exists>s t u. fs_unlink demo_env ''/f'' s = (Inr (), t) \<and> handle_read demo_env demo_handle 8 (Some 0) t = (Inr ([], demo_handle), u)"
proof -
  let ?s = "demo_run [demo_file ''/f'']"
  let ?p = "fs_unlink demo_env ''/f'' ?s"
  have p: "?p = (Inr (), snd ?p)" by (rule ran) code_simp
  have c: "content ?s (mh_node demo_handle) = Some (File, [], None)" by code_simp
  have h: "\<not> mh_closed demo_handle" "of_read (mh_flags demo_handle)" by code_simp+
  from memfs_unlink_keeps_data [OF demo_run_wf p c h, of 8 0] p show ?thesis by fastforce
qed

section \<open>Guarded requests\<close>


abbreviation demo_root_guard :: path_guard where
  "demo_root_guard \<equiv> \<lparr>pg_path = ''/'', pg_identity = \<lparr>pi_dev = 0, pi_ino = 1\<rparr>\<rparr>"


text \<open>
  A change time expected by a guarded \<^verbatim>\<open>setattr\<close> is used at most once: after a \<^verbatim>\<open>setattr\<close> that changed an
  attribute of the inode, every \<^verbatim>\<open>setattr\<close> of that inode expecting the change time it had before fails,
  because the change time has strictly grown.
\<close>

theorem memfs_setattr_once:
  assumes wf: "memfs_wf s" and ch: "setattr_changed change"
    and run: "apply_guarded_setattr env target change s = (Inr (), t)"
    and old: "fmlookup (fs_nodes s) (guard_ino target) = Some n"
    and again: "guard_ino target' = guard_ino target" "gs_expected_ctime_ms change' = Some (nd_ctime_ms n)"
  shows "\<exists>m e u. fmlookup (fs_nodes t) (guard_ino target) = Some m \<and> nd_ctime_ms n < nd_ctime_ms m
    \<and> apply_guarded_setattr env' target' change' t = (Inl e, u) \<and> err_code e \<in> {Estale, Eagain}"
proof -
  have "guarded_effect (GM_Setattr target change) MR_Applied s t" using run_okD [OF setattr_ok [OF wf] run] by simp
  then have wft: "memfs_wf t" by (rule advances_wf [OF effect_advances [OF wf]])
  obtain m where m: "fmlookup (fs_nodes t) (guard_ino target) = Some m" "nd_ctime_ms n < nd_ctime_ms m"
    using setattr_ctime [OF wf ch run old] by blast
  have "fmlookup (fs_nodes t) (guard_ino target') = Some m" "nd_ctime_ms n \<noteq> nd_ctime_ms m" using m again by auto
  from setattr_rejected [OF wft this(1) again(2) this(2)] m show ?thesis by blast
qed

theorem memfs_setattr_once_witness:
  "\<exists>s t e u. apply_guarded_setattr demo_env demo_root_guard
       \<lparr>gs_mode = Some 0x1C0, gs_uid = None, gs_gid = None, gs_size = None, gs_atime_ms = None, gs_mtime_ms = None,
        gs_expected_ctime_ms = Some 0\<rparr> s = (Inr (), t)
     \<and> apply_guarded_setattr demo_env demo_root_guard
       \<lparr>gs_mode = Some 0x1FF, gs_uid = None, gs_gid = None, gs_size = None, gs_atime_ms = None, gs_mtime_ms = None,
        gs_expected_ctime_ms = Some 0\<rparr> t = (Inl e, u) \<and> err_code e \<in> {Estale, Eagain}"
proof -
  let ?s = "demo_run []"
  let ?c = "\<lambda>m. \<lparr>gs_mode = Some m, gs_uid = None, gs_gid = None, gs_size = None, gs_atime_ms = None, gs_mtime_ms = None,
    gs_expected_ctime_ms = Some 0\<rparr>"
  let ?p = "apply_guarded_setattr demo_env demo_root_guard (?c 0x1C0) ?s"
  have p: "?p = (Inr (), snd ?p)" by (rule ran) code_simp
  have ch: "setattr_changed (?c 0x1C0)" by code_simp
  have "map_option nd_ctime_ms (fmlookup (fs_nodes ?s) 1) = Some 0" by code_simp
  then obtain n where n: "fmlookup (fs_nodes ?s) (guard_ino demo_root_guard) = Some n" "nd_ctime_ms n = 0" by auto
  have e: "gs_expected_ctime_ms (?c 0x1FF) = Some (nd_ctime_ms n)" using n(2) by simp
  from memfs_setattr_once [OF demo_run_wf ch p n(1) refl e] p show ?thesis by blast
qed

section \<open>Listings\<close>

text \<open>
  C38: A directory listing that succeeds names every entry of the directory exactly once, in the order of
  the directory, with the type of its inode, and stays within the limit. Only a directory with more
  entries than the limit fails with \<^verbatim>\<open>EOVERFLOW\<close>.
\<close>

theorem memfs_readdir_exact:
  assumes wf: "memfs_wf s" and i: "resolve s path True ''scandir'' = Inr i" and d: "fs_dir s i" and l: "limit \<noteq> Some 0"
    and run: "readdir_with_limit env path limit s = (r, t)"
  shows "case r of
      Inr es \<Rightarrow> distinct (map de_name es) \<and> set (map de_name es) = dom (kid s i)
        \<and> (\<forall>e\<in>set es. \<exists>c v. kid s i (de_name e) = Some c \<and> content s c = Some (de_file_type e, v))
        \<and> (\<forall>m. limit = Some m \<longrightarrow> length es \<le> m)
    | Inl e \<Rightarrow> err_code e = Eoverflow \<and> (\<exists>m. limit = Some m \<and> m < card (dom (kid s i)))"
  by (rule readdir_exact [OF assms])

theorem memfs_readdir_exact_witness:
  "\<exists>s es t. readdir_with_limit demo_env ''/'' (Some 2) s = (Inr es, t) \<and> map de_name es = [''b'', ''a'']
     \<and> set (map de_name es) = dom (kid s 1)"
proof -
  let ?s = "demo_run [demo_mkdir ''/b'', demo_file ''/a'']"
  let ?p = "readdir_with_limit demo_env ''/'' (Some 2) ?s"
  have "case fst ?p of Inr es \<Rightarrow> map de_name es = [''b'', ''a''] | Inl _ \<Rightarrow> False" by code_simp
  then obtain es where "fst ?p = Inr es" and n: "map de_name es = [''b'', ''a'']" by (auto split: sum.splits)
  then have p: "?p = (Inr es, snd ?p)" by (intro ran)
  have "resolve ?s ''/'' True ''scandir'' = Inr 1" "fs_dir ?s 1" by code_simp+
  then have "set (map de_name es) = dom (kid ?s 1)" using memfs_readdir_exact [OF demo_run_wf _ _ _ p] by simp
  with p n show ?thesis by (intro exI conjI)
qed

end
