(* ===== verification/Worklist.thy ===== *)
theory Worklist
  imports Mrs_Prelude
begin

text \<open>
  The traversal that several validators share: a stack of keys is popped until it is empty, and a key
  that was not found before pushes its successors. A key without an entry would be a failed index of
  the sources and is \<^term>\<open>None\<close>.
\<close>

text \<open>The top of the stack is the head of the list.\<close>

function worklist :: "('k, 'k list) fmap \<Rightarrow> 'k fset \<Rightarrow> 'k list \<Rightarrow> 'k fset option" where
  "worklist m found [] = Some found"
| "worklist m found (k # pending) =
     (if k |\<in>| found then worklist m found pending
      else (case fmlookup m k of
              None \<Rightarrow> None
            | Some ns \<Rightarrow> worklist m (finsert k found) (rev ns @ pending)))"
  by pat_completeness auto
termination
proof (relation "measures [\<lambda>(m, found, _). fcard (fmdom m |-| found), \<lambda>(_, _, pending). length pending]")
  fix m :: "('k, 'k list) fmap" and found k pending ns
  assume "k |\<notin>| found" "fmlookup m k = Some ns"
  then have "fmdom m |-| finsert k found |\<subset>| fmdom m |-| found" using fmdomI by fastforce
  then show "((m, finsert k found, rev ns @ pending), m, found, k # pending)
      \<in> measures [\<lambda>(m, found, _). fcard (fmdom m |-| found), \<lambda>(_, _, pending). length pending]"
    by (simp add: pfsubset_fcard_mono)
qed auto

definition leads_to :: "('k, 'k list) fmap \<Rightarrow> 'k \<Rightarrow> 'k \<Rightarrow> bool" where
  "leads_to m p i \<longleftrightarrow> (\<exists>ns. fmlookup m p = Some ns \<and> i \<in> set ns)"

lemma leads_to_next: "fmlookup m k = Some ns \<Longrightarrow> leads_to m k i \<longleftrightarrow> i \<in> set ns"
  by (simp add: leads_to_def)

lemma worklist_grows: "worklist m found pending = Some f \<Longrightarrow> fset found \<union> set pending \<subseteq> fset f"
proof (induction m found pending rule: worklist.induct)
  case (2 m found k pending)
  then show ?case by (cases "k |\<in>| found") (fastforce split: option.splits)+
qed simp

lemma worklist_least:
  "worklist m found pending = Some f \<Longrightarrow> fset found \<union> set pending \<subseteq> S \<Longrightarrow>
   (\<And>p i. p \<in> S \<Longrightarrow> leads_to m p i \<Longrightarrow> i \<in> S) \<Longrightarrow> fset f \<subseteq> S"
proof (induction m found pending rule: worklist.induct)
  case (2 m found k pending)
  show ?case
  proof (cases "k |\<in>| found")
    case False
    then obtain ns where n: "fmlookup m k = Some ns" using 2 by (auto split: option.splits)
    have "set ns \<subseteq> S" using "2.prems"(2,3) leads_to_next [OF n] by auto
    then show ?thesis using "2.IH"(2) [OF False n] 2 False n by simp
  qed (use 2 in simp)
qed auto

lemma worklist_closed:
  "worklist m found pending = Some f \<Longrightarrow>
   (\<And>p i. p |\<in>| found \<Longrightarrow> leads_to m p i \<Longrightarrow> i \<in> fset found \<union> set pending) \<Longrightarrow>
   p |\<in>| f \<Longrightarrow> leads_to m p i \<Longrightarrow> i |\<in>| f"
proof (induction m found pending rule: worklist.induct)
  case (2 m found k pending)
  show ?case
  proof (cases "k |\<in>| found")
    case True
    have "i \<in> fset found \<union> set pending" if "p |\<in>| found" "leads_to m p i" for p i
      using "2.prems"(2) [OF that] True by auto
    then show ?thesis using "2.IH"(1) [OF True] 2(3,5,6) True by simp
  next
    case False
    then obtain ns where n: "fmlookup m k = Some ns" using 2(3) by (auto split: option.splits)
    have "i \<in> fset (finsert k found) \<union> set (rev ns @ pending)" if "p |\<in>| finsert k found" "leads_to m p i" for p i
      using that "2.prems"(2) [of p i] leads_to_next [OF n] by auto
    then show ?thesis using "2.IH"(2) [OF False n] 2(3,5,6) False n by simp
  qed
qed auto

text \<open>The traversal finds exactly what the start leads to.\<close>

lemma worklist_reaches:
  assumes w: "worklist m {||} [k] = Some f"
  shows "fset f = {i. (leads_to m)\<^sup>*\<^sup>* k i}"
proof
  show "fset f \<subseteq> {i. (leads_to m)\<^sup>*\<^sup>* k i}" by (rule worklist_least [OF w]) auto
  have start: "k |\<in>| f" using worklist_grows [OF w] by auto
  show "{i. (leads_to m)\<^sup>*\<^sup>* k i} \<subseteq> fset f"
  proof
    fix i assume "i \<in> {i. (leads_to m)\<^sup>*\<^sup>* k i}"
    then have "(leads_to m)\<^sup>*\<^sup>* k i" by simp
    then show "i \<in> fset f" by induction (auto intro: start worklist_closed [OF w])
  qed
qed

text \<open>It ends with a result when every key on the way has an entry.\<close>

lemma worklist_total:
  "(\<And>p i. leads_to m p i \<Longrightarrow> i |\<in>| fmdom m) \<Longrightarrow> (\<And>i. i \<in> set pending \<Longrightarrow> i |\<in>| fmdom m) \<Longrightarrow>
   \<exists>f. worklist m found pending = Some f"
proof (induction m found pending rule: worklist.induct)
  case (2 m found k pending)
  show ?case
  proof (cases "k |\<in>| found")
    case False
    obtain ns where n: "fmlookup m k = Some ns" using "2.prems"(2) [of k] by (auto simp: fmlookup_dom_iff)
    have "i |\<in>| fmdom m" if "i \<in> set (rev ns @ pending)" for i
      using that "2.prems" leads_to_next [OF n] by auto
    then show ?thesis using "2.IH"(2) [OF False n "2.prems"(1)] False n by simp
  qed (use 2 in simp)
qed simp

text \<open>It finds as many keys as there are exactly when it finds all of them.\<close>

lemma worklist_all:
  assumes closed: "\<And>p i. leads_to m p i \<Longrightarrow> i |\<in>| fmdom m" and k: "k |\<in>| fmdom m"
  shows "(\<exists>f. worklist m {||} [k] = Some f \<and> fcard f = fcard (fmdom m)) \<longleftrightarrow> (\<forall>i. i |\<in>| fmdom m \<longrightarrow> (leads_to m)\<^sup>*\<^sup>* k i)"
proof -
  have "\<exists>f. worklist m {||} [k] = Some f" by (rule worklist_total [OF closed]) (use k in auto)
  then obtain f where f: "worklist m {||} [k] = Some f" by blast
  have r: "fset f = {i. (leads_to m)\<^sup>*\<^sup>* k i}" by (rule worklist_reaches [OF f])
  have "fset f \<subseteq> fset (fmdom m)" by (rule worklist_least [OF f]) (use closed k in auto)
  then have sub: "f |\<subseteq>| fmdom m" by (simp add: less_eq_fset.rep_eq)
  have "fcard f = fcard (fmdom m) \<longleftrightarrow> f = fmdom m"
    using sub by (metis fcard_seteq order_refl)
  also have "\<dots> \<longleftrightarrow> (\<forall>i. i |\<in>| fmdom m \<longrightarrow> i \<in> fset f)" using sub by auto
  finally show ?thesis using r by (simp del: worklist.simps add: f)
qed

end
