(* ===== verification/Mem_Fs_Snapshot.thy ===== *)
theory Mem_Fs_Snapshot
  imports Mem_Fs Worklist
begin

text \<open>
  Model of the snapshots of \<^verbatim>\<open>filesystems/mount-rs-memfs/src/lib.rs\<close>: the linked state as a document, its
  validation, and the state restored from it. The JSON text of a document and the iteration order of
  the hash map of nodes are parameters.
\<close>

section \<open>Documents\<close>

record snapshot_node =
  sn_ino :: nat
  sn_mode :: u32
  sn_nlink :: nat
  sn_uid :: u32
  sn_gid :: u32
  sn_rdev :: nat
  sn_atime_ms :: int
  sn_mtime_ms :: int
  sn_ctime_ms :: int
  sn_birthtime_ms :: int
  sn_data :: bytes
  sn_target :: "string option"
  sn_children :: "(string \<times> nat) list"
  sn_subdirs :: nat

record snapshot =
  sp_version :: nat
  sp_root :: nat
  sp_next_ino :: nat
  sp_uid :: u32
  sp_gid :: u32
  sp_umask :: u32
  sp_nodes :: "snapshot_node list"

definition invalid_snapshot :: fs_error where
  "invalid_snapshot = fs_error_backend ''inconsistent filesystem snapshot''"

section \<open>Validation\<close>

text \<open>
  The loops of \<^verbatim>\<open>validate_snapshot\<close>. Every failure is the same error, so the order in which the hash
  map of nodes is visited does not matter.
\<close>

definition admit_node ::
  "nat \<Rightarrow> (nat, snapshot_node) fmap \<Rightarrow> snapshot_node \<Rightarrow> (nat, snapshot_node) fmap result" where
  "admit_node next_ino nodes node =
     (let kind = file_type_from_mode (sn_mode node) in
      if sn_ino node = 0 \<or> sn_ino node \<ge> next_ino \<or> sn_nlink node = 0 \<or> fmlookup nodes (sn_ino node) \<noteq> None
      then Inl invalid_snapshot
      else if mode_bits kind \<noteq> sn_mode node AND S_IFMT then Inl invalid_snapshot
      else if (kind = Symlink) \<noteq> (sn_target node \<noteq> None)
           \<or> kind \<noteq> Directory \<and> (sn_children node \<noteq> [] \<or> sn_subdirs node \<noteq> 0)
           \<or> kind \<noteq> File \<and> sn_data node \<noteq> []
      then Inl invalid_snapshot
      else Inr (fmupd (sn_ino node) node nodes))"

type_synonym child_counts = "string fset \<times> nat \<times> (nat, nat) fmap"

definition count_child ::
  "(nat, snapshot_node) fmap \<Rightarrow> child_counts \<Rightarrow> string \<times> nat \<Rightarrow> child_counts result" where
  "count_child nodes counts entry =
     (case (counts, entry) of ((names, subdirs, references), (name, child)) \<Rightarrow>
      if name = [] \<or> name = ''.'' \<or> name = ''..'' \<or> str_contains CHR ''/'' name \<or> str_contains CHR 0x00 name
         \<or> name |\<in>| names
      then Inl invalid_snapshot
      else and_then (ok_or (fmlookup nodes child) invalid_snapshot) (\<lambda>child_node.
      Inr (finsert name names,
           if sn_mode child_node AND S_IFMT = S_IFDIR then subdirs + 1 else subdirs,
           fmupd child ((case fmlookup references child of None \<Rightarrow> 0 | Some c \<Rightarrow> c) + 1) references)))"

definition count_children ::
  "(nat, snapshot_node) fmap \<Rightarrow> (nat, nat) fmap \<Rightarrow> snapshot_node \<Rightarrow> (nat, nat) fmap result" where
  "count_children nodes references node =
     and_then (try_fold (count_child nodes) ({||}, 0, references) (sn_children node)) (\<lambda>(_, subdirs, references').
     if sn_subdirs node \<noteq> subdirs then Inl invalid_snapshot else Inr references')"

definition check_links :: "(nat, nat) fmap \<Rightarrow> snapshot_node \<Rightarrow> unit result" where
  "check_links references node =
     guard_err ((case fmlookup references (sn_ino node) of None \<Rightarrow> 0 | Some c \<Rightarrow> c) \<noteq> sn_nlink node
         \<or> sn_mode node AND S_IFMT = S_IFDIR \<and> sn_nlink node \<noteq> 1)
       invalid_snapshot"

definition validate_snapshot :: "snapshot \<Rightarrow> unit result" where
  "validate_snapshot sp =
     and_then (try_fold (admit_node (sp_next_ino sp)) fmempty (sp_nodes sp)) (\<lambda>nodes.
     and_then (ok_or (fmlookup nodes (sp_root sp)) invalid_snapshot) (\<lambda>root.
     if sn_mode root AND S_IFMT \<noteq> S_IFDIR then Inl invalid_snapshot
     else and_then (try_fold (count_children nodes) (fmupd (sp_root sp) 1 fmempty)
                      (map snd (sorted_list_of_fmap nodes))) (\<lambda>references.
     and_then (for_each (check_links references) (map snd (sorted_list_of_fmap nodes))) (\<lambda>_.
     and_then (ok_or (worklist (fmmap (map snd \<circ> sn_children) nodes) {||} [sp_root sp])
                 (with_message ''panic: no entry found for key'' (fs_error_new Eio))) (\<lambda>visited.
     guard_err (fcard visited \<noteq> fcard (fmdom nodes)) invalid_snapshot)))))"

section \<open>Taking and restoring\<close>

definition snapshot_node_of :: "node \<Rightarrow> snapshot_node" where
  "snapshot_node_of n =
     \<lparr>sn_ino = nd_ino n, sn_mode = nd_mode n, sn_nlink = nd_nlink n, sn_uid = nd_uid n, sn_gid = nd_gid n,
      sn_rdev = nd_rdev n, sn_atime_ms = nd_atime_ms n, sn_mtime_ms = nd_mtime_ms n, sn_ctime_ms = nd_ctime_ms n,
      sn_birthtime_ms = nd_birthtime_ms n, sn_data = nd_data n, sn_target = nd_target n,
      sn_children = children_iter (nd_children n), sn_subdirs = nd_subdirs n\<rparr>"

definition snapshot_of :: "((nat, node) fmap \<Rightarrow> node list) \<Rightarrow> mem_state \<Rightarrow> snapshot" where
  "snapshot_of values s =
     \<lparr>sp_version = 1, sp_root = fs_root s, sp_next_ino = fs_next_ino s, sp_uid = fs_uid s, sp_gid = fs_gid s,
      sp_umask = fs_umask s,
      sp_nodes = map snapshot_node_of (filter (\<lambda>n. nd_nlink n > 0) (values (fs_nodes s)))\<rparr>"

definition snapshot_bytes ::
  "((nat, node) fmap \<Rightarrow> node list) \<Rightarrow> (snapshot \<Rightarrow> string + bytes) \<Rightarrow> mem_state \<Rightarrow> bytes result" where
  "snapshot_bytes values to_json s =
     (case to_json (snapshot_of values s) of Inl e \<Rightarrow> Inl (fs_error_backend e) | Inr bs \<Rightarrow> Inr bs)"

definition restore_node :: "snapshot_node \<Rightarrow> node" where
  "restore_node n =
     \<lparr>nd_ino = sn_ino n, nd_mode = sn_mode n, nd_nlink = sn_nlink n, nd_uid = sn_uid n, nd_gid = sn_gid n,
      nd_rdev = sn_rdev n, nd_atime_ms = sn_atime_ms n, nd_mtime_ms = sn_mtime_ms n, nd_ctime_ms = sn_ctime_ms n,
      nd_birthtime_ms = sn_birthtime_ms n, nd_data = sn_data n, nd_target = sn_target n,
      nd_children = children_from_iter (sn_children n), nd_subdirs = sn_subdirs n\<rparr>"

text \<open>The loop over the nodes: the table, the used blocks and the node count.\<close>

definition restore_step :: "(nat, node) fmap \<times> nat \<times> nat \<Rightarrow> snapshot_node \<Rightarrow> (nat, node) fmap \<times> nat \<times> nat" where
  "restore_step acc sn =
     (case acc of (nodes, used_blocks, node_count) \<Rightarrow>
      let restored = restore_node sn in
      (fmupd (nd_ino restored) restored nodes,
       if nd_nlink restored > 0 then used_blocks + node_blocks restored else used_blocks,
       if nd_nlink restored > 0 then node_count + 1 else node_count))"

definition restore_state :: "snapshot \<Rightarrow> mem_state" where
  "restore_state sp =
     (case fold (\<lambda>sn acc. restore_step acc sn) (sp_nodes sp) (fmempty, 0, 0) of (nodes, used_blocks, node_count) \<Rightarrow>
      \<lparr>fs_root = sp_root sp, fs_next_ino = max (sp_next_ino sp) 2, fs_next_fd = 3, fs_node_count = node_count,
       fs_used_blocks = used_blocks, fs_uid = sp_uid sp, fs_gid = sp_gid sp, fs_umask = sp_umask sp,
       fs_nodes = nodes, fs_ticks = 0\<rparr>)"

definition from_snapshot :: "(bytes \<Rightarrow> string + snapshot) \<Rightarrow> bytes \<Rightarrow> mem_state result" where
  "from_snapshot from_json bs =
     (case from_json bs of
        Inl e \<Rightarrow> Inl (fs_error_backend (''invalid filesystem snapshot: '' @ e))
      | Inr sp \<Rightarrow>
          if sp_version sp \<noteq> 1 \<or> \<not> list_ex (\<lambda>n. sn_ino n = sp_root sp) (sp_nodes sp)
          then Inl (fs_error_backend ''unsupported filesystem snapshot'')
          else and_then (validate_snapshot sp) (\<lambda>_. Inr (restore_state sp)))"

end
