(* ===== verification/Mem_Fs_Restore.thy ===== *)
theory Mem_Fs_Restore
  imports Mem_Fs_Snapshot Mem_Fs_Walk
begin

text \<open>
  Snapshots of the memory file system: validation decides that a document describes a well-formed
  file system, so that restoring never builds a broken one, whatever the document; and restoring a
  snapshot gives back the linked state exactly.
\<close>

section \<open>What validation decides\<close>

definition snap_kind :: "snapshot_node \<Rightarrow> file_type" where
  "snap_kind n = file_type_from_mode (sn_mode n)"

definition admissible :: "nat \<Rightarrow> snapshot_node \<Rightarrow> bool" where
  "admissible next_ino n \<longleftrightarrow> 0 < sn_ino n \<and> sn_ino n < next_ino \<and> 0 < sn_nlink n
     \<and> sn_mode n AND S_IFMT = mode_bits (snap_kind n)
     \<and> (snap_kind n = Symlink \<longleftrightarrow> sn_target n \<noteq> None)
     \<and> (snap_kind n \<noteq> Directory \<longrightarrow> sn_children n = [] \<and> sn_subdirs n = 0)
     \<and> (snap_kind n \<noteq> File \<longrightarrow> sn_data n = [])"

definition node_table :: "snapshot_node list \<Rightarrow> (nat, snapshot_node) fmap \<Rightarrow> (nat, snapshot_node) fmap" where
  "node_table ns m = fold (\<lambda>n m. fmupd (sn_ino n) n m) ns m"

lemma admit_node_iff:
  "admit_node k m n = Inr m' \<longleftrightarrow> admissible k n \<and> fmlookup m (sn_ino n) = None \<and> m' = fmupd (sn_ino n) n m"
  by (auto simp: admit_node_def admissible_def snap_kind_def Let_def)

lemma admit_nodes_iff:
  "try_fold (admit_node k) m ns = Inr m' \<longleftrightarrow>
     (\<forall>n \<in> set ns. admissible k n \<and> fmlookup m (sn_ino n) = None) \<and> distinct (map sn_ino ns) \<and> m' = node_table ns m"
proof (induction ns arbitrary: m)
  case (Cons n ns)
  show ?case
    by (auto simp: admit_node_iff Cons.IH node_table_def split: if_splits)
qed (auto simp: node_table_def)

lemma node_table_lookup:
  "distinct (map sn_ino ns) \<Longrightarrow> fmlookup (node_table ns m) i = Some n \<longleftrightarrow>
     n \<in> set ns \<and> sn_ino n = i \<or> i \<notin> sn_ino ` set ns \<and> fmlookup m i = Some n"
proof (induction ns arbitrary: m)
  case (Cons a ns)
  have "fmlookup (node_table (a # ns) m) i = fmlookup (node_table ns (fmupd (sn_ino a) a m)) i"
    by (simp add: node_table_def)
  then show ?case using Cons.IH [of "fmupd (sn_ino a) a m"] Cons.prems by auto
qed (simp add: node_table_def)

abbreviation tally :: "(nat, nat) fmap \<Rightarrow> nat \<Rightarrow> nat" where
  "tally m i \<equiv> (case fmlookup m i of None \<Rightarrow> 0 | Some c \<Rightarrow> c)"

definition dir_in :: "(nat, snapshot_node) fmap \<Rightarrow> nat \<Rightarrow> bool" where
  "dir_in nodes i = (case fmlookup nodes i of None \<Rightarrow> False | Some n \<Rightarrow> sn_mode n AND S_IFMT = S_IFDIR)"

lemma count_child_iff:
  "count_child nodes (N, k, R) e = Inr r \<longleftrightarrow> name_ok (fst e) \<and> fst e |\<notin>| N \<and> snd e |\<in>| fmdom nodes
     \<and> r = (finsert (fst e) N, (if dir_in nodes (snd e) then k + 1 else k), fmupd (snd e) (tally R (snd e) + 1) R)"
  by (cases e) (auto simp: count_child_def name_ok_def valid_component_def dir_in_def fmlookup_dom_iff)

lemma count_entries_facts:
  "try_fold (count_child nodes) (N, k, R) es = Inr (N', k', R') \<Longrightarrow>
     (\<forall>e \<in> set es. name_ok (fst e) \<and> fst e |\<notin>| N \<and> snd e |\<in>| fmdom nodes) \<and> distinct (map fst es)
     \<and> k' = k + length (filter (\<lambda>e. dir_in nodes (snd e)) es)
     \<and> (\<forall>i. tally R' i = tally R i + length (filter (\<lambda>e. snd e = i) es))"
proof (induction es arbitrary: N k R)
  case (Cons e es)
  then obtain r where one: "count_child nodes (N, k, R) e = Inr r" and rest: "try_fold (count_child nodes) r es = Inr (N', k', R')"
    by auto
  then show ?case using Cons.IH unfolding count_child_iff by fastforce
qed simp

lemma count_entries_total:
  "(\<forall>e \<in> set es. name_ok (fst e) \<and> fst e |\<notin>| N \<and> snd e |\<in>| fmdom nodes) \<Longrightarrow> distinct (map fst es) \<Longrightarrow>
     \<exists>r. try_fold (count_child nodes) (N, k, R) es = Inr r"
proof (induction es arbitrary: N k R)
  case (Cons e es)
  let ?r = "(finsert (fst e) N, (if dir_in nodes (snd e) then k + 1 else k), fmupd (snd e) (tally R (snd e) + 1) R)"
  have "count_child nodes (N, k, R) e = Inr ?r" unfolding count_child_iff using Cons.prems by simp
  moreover have "\<exists>r. try_fold (count_child nodes) ?r es = Inr r"
    by (rule Cons.IH) (use Cons.prems in \<open>auto simp: image_iff\<close>)
  ultimately show ?case by simp
qed simp

definition children_valid :: "(nat, snapshot_node) fmap \<Rightarrow> snapshot_node \<Rightarrow> bool" where
  "children_valid nodes n \<longleftrightarrow> distinct (map fst (sn_children n))
     \<and> (\<forall>e \<in> set (sn_children n). name_ok (fst e) \<and> snd e |\<in>| fmdom nodes)
     \<and> sn_subdirs n = length (filter (\<lambda>e. dir_in nodes (snd e)) (sn_children n))"

definition named :: "snapshot_node list \<Rightarrow> nat \<Rightarrow> nat" where
  "named ns i = sum_list (map (\<lambda>n. length (filter (\<lambda>e. snd e = i) (sn_children n))) ns)"

lemma count_children_facts:
  "try_fold (count_children nodes) R ns = Inr R' \<Longrightarrow>
     (\<forall>n \<in> set ns. children_valid nodes n) \<and> (\<forall>i. tally R' i = tally R i + named ns i)"
proof (induction ns arbitrary: R)
  case (Cons n ns)
  then obtain R1 where one: "count_children nodes R n = Inr R1" and rest: "try_fold (count_children nodes) R1 ns = Inr R'"
    by auto
  from one obtain N k where c: "try_fold (count_child nodes) ({||}, 0, R) (sn_children n) = Inr (N, k, R1)" "sn_subdirs n = k"
    by (auto simp: count_children_def split: if_splits)
  then show ?case using count_entries_facts [OF c(1)] Cons.IH [OF rest] by (simp add: children_valid_def named_def)
qed (simp add: named_def)

lemma count_children_total:
  "(\<forall>n \<in> set ns. children_valid nodes n) \<Longrightarrow> \<exists>R'. try_fold (count_children nodes) R ns = Inr R'"
proof (induction ns arbitrary: R)
  case (Cons n ns)
  obtain N k R1 where c: "try_fold (count_child nodes) ({||}, 0, R) (sn_children n) = Inr (N, k, R1)"
    using count_entries_total [of "sn_children n" "{||}" nodes 0 R] Cons.prems by (auto simp: children_valid_def)
  then have "count_children nodes R n = Inr R1"
    using count_entries_facts [OF c] Cons.prems by (simp add: count_children_def children_valid_def)
  then show ?case using Cons by simp
qed simp

abbreviation snap_table :: "snapshot \<Rightarrow> (nat, snapshot_node) fmap" where
  "snap_table sp \<equiv> node_table (sp_nodes sp) fmempty"

abbreviation snap_edges :: "snapshot \<Rightarrow> nat \<Rightarrow> nat \<Rightarrow> bool" where
  "snap_edges sp \<equiv> leads_to (fmmap (map snd \<circ> sn_children) (snap_table sp))"

definition snapshot_valid :: "snapshot \<Rightarrow> bool" where
  "snapshot_valid sp \<longleftrightarrow> distinct (map sn_ino (sp_nodes sp))
     \<and> (\<exists>n \<in> set (sp_nodes sp). sn_ino n = sp_root sp \<and> snap_kind n = Directory)
     \<and> (\<forall>n \<in> set (sp_nodes sp). admissible (sp_next_ino sp) n \<and> children_valid (snap_table sp) n
          \<and> sn_nlink n = (if sn_ino n = sp_root sp then 1 else 0) + named (sp_nodes sp) (sn_ino n)
          \<and> (snap_kind n = Directory \<longrightarrow> sn_nlink n = 1)
          \<and> (snap_edges sp)\<^sup>*\<^sup>* (sp_root sp) (sn_ino n))"

lemma mode_dir_iff: "m AND S_IFMT = mode_bits (file_type_from_mode m) \<Longrightarrow> m AND S_IFMT = S_IFDIR \<longleftrightarrow> file_type_from_mode m = Directory"
  using from_mode_of_bits [of m Directory] by auto

lemma table_values:
  assumes "distinct (map sn_ino ns)"
  shows "set (map snd (sorted_list_of_fmap (node_table ns fmempty))) = set ns"
    "distinct (map snd (sorted_list_of_fmap (node_table ns fmempty)))"
    "fmdom (node_table ns fmempty) = fset_of_list (map sn_ino ns)"
proof -
  let ?l = "sorted_list_of_fmap (node_table ns fmempty)"
  have lk: "fmlookup (node_table ns fmempty) i = Some n \<longleftrightarrow> n \<in> set ns \<and> sn_ino n = i" for i n
    using node_table_lookup [OF assms] by simp
  show "set (map snd ?l) = set ns"
  proof (intro set_eqI)
    fix n
    have "n \<in> set (map snd ?l) \<longleftrightarrow> (\<exists>kn \<in> set ?l. snd kn = n)" by auto
    also have "\<dots> \<longleftrightarrow> n \<in> set ns" unfolding ex_sorted_fmap by (simp add: lk)
    finally show "n \<in> set (map snd ?l) \<longleftrightarrow> n \<in> set ns" .
  qed
  have "map sn_ino (map snd ?l) = map fst ?l" using lk by (auto simp: set_sorted_fmap)
  then show "distinct (map snd ?l)" using distinct_keys_sorted_fmap [of "node_table ns fmempty"] by (metis distinct_map)
  show "fmdom (node_table ns fmempty) = fset_of_list (map sn_ino ns)"
    using lk by (auto simp: fmlookup_dom_iff fset_of_list_elem)
qed

lemma named_set: "distinct ns \<Longrightarrow> named ns i = (\<Sum>n \<in> set ns. length (filter (\<lambda>e. snd e = i) (sn_children n)))"
  by (simp add: named_def sum.distinct_set_conv_list)

lemma named_values:
  assumes "distinct (map sn_ino ns)"
  shows "named (map snd (sorted_list_of_fmap (node_table ns fmempty))) i = named ns i"
  using table_values [OF assms] assms by (simp add: named_set distinct_map)

lemma validate_snapshot_decides: "validate_snapshot sp = Inr () \<longleftrightarrow> snapshot_valid sp"
proof (cases "distinct (map sn_ino (sp_nodes sp)) \<and> (\<forall>n \<in> set (sp_nodes sp). admissible (sp_next_ino sp) n)")
  case False
  then show ?thesis by (auto simp: validate_snapshot_def admit_nodes_iff snapshot_valid_def)
next
  case True
  let ?T = "snap_table sp" and ?l = "map snd (sorted_list_of_fmap (snap_table sp))" and ?r = "sp_root sp"
  have d: "distinct (map sn_ino (sp_nodes sp))" using True by blast
  note tab = table_values [OF d]
  have lk: "fmlookup ?T i = Some n \<longleftrightarrow> n \<in> set (sp_nodes sp) \<and> sn_ino n = i" for i n
    using node_table_lookup [OF d] by simp
  have admit: "try_fold (admit_node (sp_next_ino sp)) fmempty (sp_nodes sp) = Inr ?T"
    using True by (simp add: admit_nodes_iff)
  have kind: "sn_mode n AND S_IFMT = S_IFDIR \<longleftrightarrow> snap_kind n = Directory" if "n \<in> set (sp_nodes sp)" for n
    using that True mode_dir_iff [of "sn_mode n"] by (auto simp: admissible_def snap_kind_def)
  have refs: "\<exists>R. try_fold (count_children ?T) (fmupd ?r 1 fmempty) ?l = Inr R \<and> (\<forall>i. tally R i = (if i = ?r then 1 else 0) + named (sp_nodes sp) i)"
    if "\<forall>n \<in> set (sp_nodes sp). children_valid ?T n"
    using count_children_total [of ?l ?T "fmupd ?r 1 fmempty"] that tab(1) named_values [OF d] count_children_facts
    by fastforce
  have vis: "(\<exists>v. worklist (fmmap (map snd \<circ> sn_children) ?T) {||} [?r] = Some v \<and> fcard v = fcard (fmdom ?T))
      \<longleftrightarrow> (\<forall>n \<in> set (sp_nodes sp). (snap_edges sp)\<^sup>*\<^sup>* ?r (sn_ino n))"
    if cv: "\<forall>n \<in> set (sp_nodes sp). children_valid ?T n" and rt: "?r |\<in>| fmdom ?T"
  proof -
    have "i |\<in>| fmdom ?T" if "snap_edges sp p i" for p i
      using that cv lk by (fastforce simp: leads_to_def children_valid_def)
    then show ?thesis
      using worklist_all [of "fmmap (map snd \<circ> sn_children) ?T" ?r] rt by (auto simp: tab(3) fset_of_list_elem)
  qed
  show ?thesis
  proof (cases "(\<exists>n \<in> set (sp_nodes sp). sn_ino n = ?r \<and> snap_kind n = Directory) \<and> (\<forall>n \<in> set (sp_nodes sp). children_valid ?T n)")
    case False
    then show ?thesis
      using tab(1) kind
      by (auto simp: validate_snapshot_def admit lk snapshot_valid_def dest!: count_children_facts split: if_splits)
  next
    case ok: True
    then obtain n R where n: "fmlookup ?T ?r = Some n" "sn_mode n AND S_IFMT = S_IFDIR"
      and R: "try_fold (count_children ?T) (fmupd ?r 1 fmempty) ?l = Inr R" "\<forall>i. tally R i = (if i = ?r then 1 else 0) + named (sp_nodes sp) i"
      using refs kind lk by blast
    have links: "for_each (check_links R) ?l = Inr () \<longleftrightarrow> (\<forall>n \<in> set (sp_nodes sp).
        sn_nlink n = (if sn_ino n = ?r then 1 else 0) + named (sp_nodes sp) (sn_ino n) \<and> (snap_kind n = Directory \<longrightarrow> sn_nlink n = 1))"
      unfolding for_each_eq_Inr tab(1) check_links_def guard_err_eq_Inr using kind R(2) by auto
    have "validate_snapshot sp = Inr () \<longleftrightarrow> for_each (check_links R) ?l = Inr ()
        \<and> (\<exists>v. worklist (fmmap (map snd \<circ> sn_children) ?T) {||} [?r] = Some v \<and> fcard v = fcard (fmdom ?T))"
      unfolding validate_snapshot_def admit and_then_simps n(1) ok_or_simps R(1)
      by (auto simp: n(2) R(1) simp del: One_nat_def worklist.simps)
    then show ?thesis
      unfolding links using vis ok fmdomI [OF n(1)] True by (auto simp: snapshot_valid_def)
  qed
qed

section \<open>Documents and states\<close>

text \<open>A document depicts a state when the nodes of the state are those of the document.\<close>

definition depicts :: "snapshot \<Rightarrow> mem_state \<Rightarrow> bool" where
  "depicts sp t \<longleftrightarrow> distinct (map sn_ino (sp_nodes sp)) \<and> sp_root sp = fs_root t
     \<and> (\<forall>m \<in> set (sp_nodes sp). distinct (map fst (sn_children m)))
     \<and> (\<forall>i n. fmlookup (fs_nodes t) i = Some n \<longleftrightarrow> (\<exists>m \<in> set (sp_nodes sp). sn_ino m = i \<and> n = restore_node m))"

lemma restore_node_kind: "node_file_type (restore_node m) = snap_kind m" "nd_nlink (restore_node m) = sn_nlink m"
    "nd_ino (restore_node m) = sn_ino m" "nd_subdirs (restore_node m) = sn_subdirs m"
  by (simp_all add: restore_node_def node_file_type_def snap_kind_def)

lemma depicts_lookup:
  assumes "depicts sp t" "m \<in> set (sp_nodes sp)"
  shows "fmlookup (fs_nodes t) (sn_ino m) = Some (restore_node m)"
  using assms unfolding depicts_def by blast

lemma depicts_views:
  assumes d: "depicts sp t"
  shows "kid t p x = Some i \<longleftrightarrow> (\<exists>m \<in> set (sp_nodes sp). sn_ino m = p \<and> (x, i) \<in> set (sn_children m))"
    and "fs_dir t i \<longleftrightarrow> (\<exists>m \<in> set (sp_nodes sp). sn_ino m = i \<and> snap_kind m = Directory)"
    and "nlinks t i = Some k \<longleftrightarrow> (\<exists>m \<in> set (sp_nodes sp). sn_ino m = i \<and> sn_nlink m = k)"
proof -
  have one: "m = m'" if "m \<in> set (sp_nodes sp)" "m' \<in> set (sp_nodes sp)" "sn_ino m = sn_ino m'" for m m'
    using d that by (auto simp: depicts_def distinct_map inj_on_def)
  have none: "fmlookup (fs_nodes t) j = None" if "\<not> (\<exists>m \<in> set (sp_nodes sp). sn_ino m = j)" for j
    using d that unfolding depicts_def by (metis option.exhaust)
  show "kid t p x = Some i \<longleftrightarrow> (\<exists>m \<in> set (sp_nodes sp). sn_ino m = p \<and> (x, i) \<in> set (sn_children m))"
  proof (cases "\<exists>m \<in> set (sp_nodes sp). sn_ino m = p")
    case True
    then obtain m where m: "m \<in> set (sp_nodes sp)" "sn_ino m = p" by blast
    have "distinct (map fst (sn_children m))" using d m by (simp add: depicts_def)
    then have "kid t p x = Some i \<longleftrightarrow> (x, i) \<in> set (sn_children m)"
      using depicts_lookup [OF d m(1)] m(2) by (simp add: kid_def restore_node_def children_get_from_iter)
    then show ?thesis using m one by blast
  qed (simp add: kid_def none)
  show "fs_dir t i \<longleftrightarrow> (\<exists>m \<in> set (sp_nodes sp). sn_ino m = i \<and> snap_kind m = Directory)"
  proof (cases "\<exists>m \<in> set (sp_nodes sp). sn_ino m = i")
    case True
    then obtain m where m: "m \<in> set (sp_nodes sp)" "sn_ino m = i" by blast
    then have "fs_dir t i \<longleftrightarrow> snap_kind m = Directory"
      using depicts_lookup [OF d m(1)] by (simp add: fs_dir_def is_directory_def restore_node_kind)
    then show ?thesis using m one by blast
  qed (auto simp: fs_dir_def none)
  show "nlinks t i = Some k \<longleftrightarrow> (\<exists>m \<in> set (sp_nodes sp). sn_ino m = i \<and> sn_nlink m = k)"
  proof (cases "\<exists>m \<in> set (sp_nodes sp). sn_ino m = i")
    case True
    then obtain m where m: "m \<in> set (sp_nodes sp)" "sn_ino m = i" by blast
    then have "nlinks t i = Some k \<longleftrightarrow> sn_nlink m = k"
      using depicts_lookup [OF d m(1)] by (simp add: nlinks_def restore_node_kind)
    then show ?thesis using m one by blast
  qed (auto simp: nlinks_def none)
qed

lemma entry_pairs:
  assumes "distinct (map sn_ino ns)" "\<forall>m \<in> set ns. distinct (map fst (sn_children m))"
  shows "finite {(p, x). \<exists>m \<in> set ns. sn_ino m = p \<and> (x, i) \<in> set (sn_children m)}
    \<and> card {(p, x). \<exists>m \<in> set ns. sn_ino m = p \<and> (x, i) \<in> set (sn_children m)} = named ns i"
  using assms
proof (induction ns)
  case (Cons n ns)
  let ?R = "\<lambda>ns. {(p, x). \<exists>m \<in> set ns. sn_ino m = p \<and> (x, i) \<in> set (sn_children m)}"
  let ?N = "(\<lambda>e. (sn_ino n, fst e)) ` set (filter (\<lambda>e. snd e = i) (sn_children n))"
  have split: "?R (n # ns) = ?N \<union> ?R ns" by force
  have "inj_on fst (set (sn_children n))" using Cons.prems(2) by (simp add: distinct_map)
  then have "inj_on (\<lambda>e. (sn_ino n, fst e)) (set (filter (\<lambda>e. snd e = i) (sn_children n)))"
    by (auto simp: inj_on_def)
  moreover have "distinct (filter (\<lambda>e. snd e = i) (sn_children n))"
    using Cons.prems(2) by (simp add: distinct_map)
  ultimately have "card ?N = length (filter (\<lambda>e. snd e = i) (sn_children n))"
    by (metis card_image distinct_card)
  moreover have "?N \<inter> ?R ns = {}" using Cons.prems(1) by (force simp: image_iff)
  moreover have "finite (?R ns)" "card (?R ns) = named ns i" using Cons by auto
  ultimately show ?case unfolding split by (simp add: card_Un_disjoint named_def)
qed (simp add: named_def)

lemma depicts_refs:
  assumes d: "depicts sp t"
  shows "finite (refs (kid t) i)" "card (refs (kid t) i) = named (sp_nodes sp) i"
proof -
  have "refs (kid t) i = {(p, x). \<exists>m \<in> set (sp_nodes sp). sn_ino m = p \<and> (x, i) \<in> set (sn_children m)}"
    by (simp add: refs_def depicts_views [OF d])
  then show "finite (refs (kid t) i)" "card (refs (kid t) i) = named (sp_nodes sp) i"
    using entry_pairs [of "sp_nodes sp" i] d by (auto simp: depicts_def)
qed

end
