(* ===== verification/Mem_Fs_Roundtrip.thy ===== *)
theory Mem_Fs_Roundtrip
  imports Mem_Fs_Restore Mem_Fs_Correct
begin

text \<open>
  A validated document restores to a well-formed state, and the snapshot of a well-formed state is
  valid and restores to its linked part.
\<close>

section \<open>The restored state\<close>

lemma option_eqI: "(\<And>x. a = Some x \<longleftrightarrow> b = Some x) \<Longrightarrow> a = b"
  by (cases a; cases b) auto

lemma depicts_iff:
  "depicts sp t \<Longrightarrow> fmlookup (fs_nodes t) i = Some n \<longleftrightarrow> (\<exists>m \<in> set (sp_nodes sp). sn_ino m = i \<and> n = restore_node m)"
  by (simp add: depicts_def)

lemma restore_fold:
  "\<forall>n \<in> set ns. 0 < sn_nlink n \<Longrightarrow> fold (\<lambda>sn acc. restore_step acc sn) ns (m, b, c)
     = (fold (\<lambda>n. fmupd (sn_ino n) (restore_node n)) ns m, b + sum_list (map (node_blocks \<circ> restore_node) ns), c + length ns)"
proof (induction ns arbitrary: m b c)
  case (Cons a ns)
  then have "restore_step (m, b, c) a = (fmupd (sn_ino a) (restore_node a) m, b + node_blocks (restore_node a), c + 1)"
    by (simp add: restore_step_def restore_node_kind Let_def)
  then show ?case using Cons by simp
qed simp

lemma restored_lookup:
  "distinct (map sn_ino ns) \<Longrightarrow> fmlookup (fold (\<lambda>n. fmupd (sn_ino n) (restore_node n)) ns m) i = Some k \<longleftrightarrow>
     (\<exists>n \<in> set ns. sn_ino n = i \<and> k = restore_node n) \<or> i \<notin> sn_ino ` set ns \<and> fmlookup m i = Some k"
proof (induction ns arbitrary: m)
  case (Cons a ns)
  then show ?case using Cons.IH [of "fmupd (sn_ino a) (restore_node a) m"] by auto
qed simp

lemma valid_nodes:
  assumes "snapshot_valid sp" "n \<in> set (sp_nodes sp)"
  shows "admissible (sp_next_ino sp) n" "children_valid (snap_table sp) n"
    "sn_nlink n = (if sn_ino n = sp_root sp then 1 else 0) + named (sp_nodes sp) (sn_ino n)"
    "snap_kind n = Directory \<Longrightarrow> sn_nlink n = 1" "(snap_edges sp)\<^sup>*\<^sup>* (sp_root sp) (sn_ino n)"
  using assms unfolding snapshot_valid_def by blast+

lemma valid_table:
  assumes "distinct (map sn_ino (sp_nodes sp))"
  shows "fmlookup (snap_table sp) i = Some n \<longleftrightarrow> n \<in> set (sp_nodes sp) \<and> sn_ino n = i"
  using node_table_lookup [OF assms] by simp

lemma restore_state_fields:
  assumes "snapshot_valid sp"
  shows "restore_state sp = \<lparr>fs_root = sp_root sp, fs_next_ino = max (sp_next_ino sp) 2, fs_next_fd = 3,
      fs_node_count = length (sp_nodes sp), fs_used_blocks = sum_list (map (node_blocks \<circ> restore_node) (sp_nodes sp)),
      fs_uid = sp_uid sp, fs_gid = sp_gid sp, fs_umask = sp_umask sp,
      fs_nodes = fold (\<lambda>n. fmupd (sn_ino n) (restore_node n)) (sp_nodes sp) fmempty, fs_ticks = 0\<rparr>"
  using valid_nodes(1) [OF assms] by (simp add: restore_state_def restore_fold admissible_def)

lemma restore_depicts:
  assumes "snapshot_valid sp"
  shows "depicts sp (restore_state sp)"
proof -
  have "distinct (map sn_ino (sp_nodes sp))" using assms by (simp add: snapshot_valid_def)
  then show ?thesis
    using valid_nodes(2) [OF assms]
    by (auto simp: depicts_def restore_state_fields [OF assms] restored_lookup children_valid_def)
qed

lemma children_from_iter_Nil [simp]: "children_from_iter [] = children_new"
  by (simp add: children_from_iter_def)

lemma restore_node_ok: "admissible k m \<Longrightarrow> node_ok (restore_node m)"
  by (auto simp: node_ok_def is_symlink_def is_directory_def restore_node_kind admissible_def restore_node_def
      node_file_type_def snap_kind_def children_from_iter_wf kids.wf_empty)

lemma snap_edges_iff:
  assumes "depicts sp t"
  shows "snap_edges sp p i \<longleftrightarrow> (\<exists>x. kid t p x = Some i)"
proof -
  have d: "distinct (map sn_ino (sp_nodes sp))" using assms by (simp add: depicts_def)
  have "snap_edges sp p i \<longleftrightarrow> (\<exists>m \<in> set (sp_nodes sp). sn_ino m = p \<and> i \<in> set (map snd (sn_children m)))"
  proof -
    have "snap_edges sp p i \<longleftrightarrow> (\<exists>m. fmlookup (snap_table sp) p = Some m \<and> i \<in> set (map snd (sn_children m)))"
      by (cases "fmlookup (snap_table sp) p") (simp_all add: leads_to_def)
    then show ?thesis unfolding valid_table [OF d] by blast
  qed
  also have "\<dots> \<longleftrightarrow> (\<exists>x. \<exists>m \<in> set (sp_nodes sp). sn_ino m = p \<and> (x, i) \<in> set (sn_children m))"
  proof -
    have "i \<in> set (map snd es) \<longleftrightarrow> (\<exists>x. (x, i) \<in> set es)" for es :: "(string \<times> nat) list" by force
    then show ?thesis by blast
  qed
  finally show ?thesis unfolding depicts_views(1) [OF assms] .
qed

lemma dir_in_iff:
  assumes "depicts sp t" "\<forall>m \<in> set (sp_nodes sp). admissible k m"
  shows "dir_in (snap_table sp) i \<longleftrightarrow> fs_dir t i"
proof -
  have d: "distinct (map sn_ino (sp_nodes sp))" using assms by (simp add: depicts_def)
  have kind: "sn_mode m AND S_IFMT = S_IFDIR \<longleftrightarrow> snap_kind m = Directory" if "m \<in> set (sp_nodes sp)" for m
    using that assms(2) mode_dir_iff [of "sn_mode m"] by (auto simp: admissible_def snap_kind_def)
  have "dir_in (snap_table sp) i \<longleftrightarrow> (\<exists>m. fmlookup (snap_table sp) i = Some m \<and> sn_mode m AND S_IFMT = S_IFDIR)"
    by (simp add: dir_in_def split: option.split)
  then show ?thesis unfolding depicts_views(2) [OF assms(1)] valid_table [OF d] using kind by blast
qed

text \<open>The number of subdirectories of a depicted directory.\<close>

lemma depicts_subdirs:
  assumes "depicts sp t" "\<forall>m \<in> set (sp_nodes sp). admissible k m" "m \<in> set (sp_nodes sp)"
  shows "length (filter (\<lambda>e. dir_in (snap_table sp) (snd e)) (sn_children m))
    = card {x. \<exists>c. kid t (sn_ino m) x = Some c \<and> fs_dir t c}" "finite {x. kid t (sn_ino m) x \<noteq> None}"
proof -
  have dist: "distinct (map fst (sn_children m))" using assms by (simp add: depicts_def)
  have k: "kid t (sn_ino m) = children_get (children_from_iter (sn_children m))"
    using depicts_lookup [OF assms(1,3)] by (auto simp: kid_def restore_node_def)
  show "length (filter (\<lambda>e. dir_in (snap_table sp) (snd e)) (sn_children m)) = card {x. \<exists>c. kid t (sn_ino m) x = Some c \<and> fs_dir t c}"
    unfolding k dir_in_iff [OF assms(1,2)]
    using kids.entries_count [OF children_from_iter_wf, of "fs_dir t" "sn_children m"] by (simp add: children_iter_from_iter dist)
  show "finite {x. kid t (sn_ino m) x \<noteq> None}"
    unfolding k using kids.dom_finite [OF children_from_iter_wf] by (simp add: dom_def)
qed

lemma restore_nodes_ok:
  assumes v: "snapshot_valid sp" and "sp_next_ino sp \<le> U64_MAX"
  shows "nodes_ok (restore_state sp)"
  unfolding nodes_ok_def
proof (intro conjI allI impI)
  have next_ino: "fs_next_ino (restore_state sp) = max (sp_next_ino sp) 2" by (simp add: restore_state_fields [OF v])
  then show "fs_next_ino (restore_state sp) \<le> U64_MAX" using assms(2) by (simp add: U64_MAX_def)
  fix i n assume "fmlookup (fs_nodes (restore_state sp)) i = Some n"
  then obtain m where m: "m \<in> set (sp_nodes sp)" "sn_ino m = i" "n = restore_node m"
    using restore_depicts [OF v] unfolding depicts_def by blast
  then have "admissible (sp_next_ino sp) m" using valid_nodes(1) [OF v] by blast
  then show "nd_ino n = i" "0 < i" "i < fs_next_ino (restore_state sp)" "node_ok n"
    using m restore_node_ok by (auto simp: restore_node_kind admissible_def next_ino)
qed

lemma restore_accounted:
  assumes v: "snapshot_valid sp"
  shows "accounted (restore_state sp)"
proof -
  let ?t = "restore_state sp"
  have d: "distinct (map sn_ino (sp_nodes sp))" using v by (simp add: snapshot_valid_def)
  have pos: "0 < sn_nlink m" if "m \<in> set (sp_nodes sp)" for m
    using valid_nodes(1) [OF v that] by (simp add: admissible_def)
  have u: "in_use ?t = set (map sn_ino (sp_nodes sp))"
    unfolding in_use_def depicts_views(3) [OF restore_depicts [OF v]] using pos by auto
  have b: "blocks_of ?t (sn_ino m) = node_blocks (restore_node m)" if "m \<in> set (sp_nodes sp)" for m
    using depicts_lookup [OF restore_depicts [OF v] that] by (simp add: blocks_of_def)
  have "sum (blocks_of ?t) (in_use ?t) = sum_list (map (blocks_of ?t) (map sn_ino (sp_nodes sp)))"
    unfolding u using d by (rule sum.distinct_set_conv_list)
  also have "map (blocks_of ?t) (map sn_ino (sp_nodes sp)) = map (node_blocks \<circ> restore_node) (sp_nodes sp)"
    using b by simp
  finally show ?thesis
    using distinct_card [OF d] unfolding accounted_def u by (simp add: restore_state_fields [OF v])
qed

lemma valid_entries:
  assumes v: "snapshot_valid sp" and d: "depicts sp t" and k: "kid t p x = Some c"
  shows "name_ok x" "fs_dir t p" "nlinks t p = Some 1" "nlinks t c \<noteq> None"
proof -
  obtain m where m: "m \<in> set (sp_nodes sp)" "sn_ino m = p" "(x, c) \<in> set (sn_children m)"
    using k unfolding depicts_views(1) [OF d] by blast
  have dir: "snap_kind m = Directory" using valid_nodes(1) [OF v m(1)] m(3) by (auto simp: admissible_def)
  show "fs_dir t p" unfolding depicts_views(2) [OF d] using m dir by blast
  show "nlinks t p = Some 1" unfolding depicts_views(3) [OF d] using m dir valid_nodes(4) [OF v m(1)] by blast
  have e: "name_ok x" "c |\<in>| fmdom (snap_table sp)" using valid_nodes(2) [OF v m(1)] m(3) by (auto simp: children_valid_def)
  then obtain m' where m': "fmlookup (snap_table sp) c = Some m'" by (auto simp: fmlookup_dom_iff)
  moreover have "distinct (map sn_ino (sp_nodes sp))" using v by (simp add: snapshot_valid_def)
  ultimately have "m' \<in> set (sp_nodes sp)" "sn_ino m' = c" using valid_table by blast+
  then show "nlinks t c \<noteq> None" using depicts_views(3) [OF d, of c "sn_nlink m'"] by auto
  show "name_ok x" by (fact e)
qed

lemma valid_reach:
  assumes v: "snapshot_valid sp" and d: "depicts sp t" and e: "(snap_edges sp)\<^sup>*\<^sup>* (sp_root sp) i"
  shows "fs_dir t i \<Longrightarrow> tree_reach (kid t) (fs_dir t) (sp_root sp) i"
  using e
proof (induction rule: rtranclp_induct)
  case base
  show ?case by (rule tree_reach_root)
next
  case (step p j)
  then obtain x where x: "kid t p x = Some j" using snap_edges_iff [OF d] by blast
  then show ?case using step valid_entries(2) [OF v d x] tree_reach_step by metis
qed

lemma restore_tree:
  assumes v: "snapshot_valid sp" and d: "depicts sp t" and s: "\<forall>m \<in> set (sp_nodes sp). subdirs t (sn_ino m) = sn_subdirs m"
  shows "fs_tree t"
proof -
  have root: "fs_root t = sp_root sp" using d by (simp add: depicts_def)
  have adm: "\<forall>m \<in> set (sp_nodes sp). admissible (sp_next_ino sp) m" using valid_nodes(1) [OF v] by blast
  show ?thesis
    unfolding fs_tree_def tree_inv_def root
  proof (intro conjI allI impI)
    fix p x c assume "kid t p x = Some c"
    from valid_entries [OF v d this]
    show "name_ok x" "fs_dir t p" "nlinks t p = Some 1" "nlinks t c \<noteq> None" by blast+
  next
    fix i k assume "nlinks t i = Some k"
    then obtain m where "m \<in> set (sp_nodes sp)" "sn_ino m = i" "sn_nlink m = k" unfolding depicts_views(3) [OF d] by blast
    then show "finite (refs (kid t) i)" "k = card (refs (kid t) i) + (if i = sp_root sp then 1 else 0)"
      using valid_nodes(3) [OF v] depicts_refs [OF d, of i] by auto
  next
    fix i assume "fs_dir t i"
    then obtain m where m: "m \<in> set (sp_nodes sp)" "sn_ino m = i" "snap_kind m = Directory" unfolding depicts_views(2) [OF d] by blast
    then show "nlinks t i = Some 0 \<or> nlinks t i = Some 1"
      using valid_nodes(4) [OF v] depicts_views(3) [OF d, of i 1] by blast
    show "finite {x. kid t i x \<noteq> None}" using depicts_subdirs(2) [OF d adm m(1)] m(2) by simp
    show "subdirs t i = card {x. \<exists>c. kid t i x = Some c \<and> fs_dir t c}"
      using depicts_subdirs(1) [OF d adm m(1)] m(2) bspec [OF s m(1)] valid_nodes(2) [OF v m(1)] by (simp add: children_valid_def)
    show "tree_reach (kid t) (fs_dir t) (sp_root sp) i"
      using valid_reach [OF v d valid_nodes(5) [OF v m(1)]] \<open>fs_dir t i\<close> m(2) by simp
  next
    obtain r where "r \<in> set (sp_nodes sp)" "sn_ino r = sp_root sp" "snap_kind r = Directory" using v unfolding snapshot_valid_def by blast
    then show "fs_dir t (sp_root sp)" "nlinks t (sp_root sp) = Some 1"
      using valid_nodes(4) [OF v] unfolding depicts_views(2,3) [OF d] by blast+
  qed
qed

lemma restore_wf:
  assumes v: "snapshot_valid sp" and "sp_next_ino sp \<le> U64_MAX"
  shows "memfs_wf (restore_state sp)"
proof -
  have "subdirs (restore_state sp) (sn_ino m) = sn_subdirs m" if "m \<in> set (sp_nodes sp)" for m
    using depicts_lookup [OF restore_depicts [OF v] that] by (simp add: subdirs_def restore_node_kind)
  then show ?thesis
    using restore_nodes_ok [OF assms] restore_accounted [OF v] restore_tree [OF v restore_depicts [OF v]]
    by (simp add: memfs_wf_def)
qed


section \<open>The document of a well-formed state\<close>

lemma depicts_admissible:
  assumes ok: "nodes_ok t" and d: "depicts sp t" and m: "m \<in> set (sp_nodes sp)" and "0 < sn_nlink m" "fs_next_ino t = sp_next_ino sp"
  shows "admissible (sp_next_ino sp) m"
proof -
  have n: "0 < sn_ino m" "sn_ino m < sp_next_ino sp" "node_ok (restore_node m)"
    using ok depicts_lookup [OF d m] assms(5) unfolding nodes_ok_def by fastforce+
  have "distinct (map fst (sn_children m))" using d m by (simp add: depicts_def)
  then have "children_from_iter (sn_children m) = children_new \<Longrightarrow> sn_children m = []"
    using children_iter_from_iter [of "sn_children m"] kids.entries_empty by simp
  then show ?thesis
    using n assms(4) by (auto simp: admissible_def node_ok_def is_symlink_def is_directory_def restore_node_kind)
      (simp_all add: restore_node_def snap_kind_def node_file_type_def)
qed

lemma reach_edges:
  assumes "depicts sp t" "tree_reach (kid t) (fs_dir t) (sp_root sp) i"
  shows "(snap_edges sp)\<^sup>*\<^sup>* (sp_root sp) i"
  using assms(2)
proof (induction rule: tree_reach.induct)
  case (tree_reach_step p x c)
  then show ?case using snap_edges_iff [OF assms(1)] by (meson rtranclp.rtrancl_into_rtrancl)
qed simp

lemma depicts_children_valid:
  assumes tr: "fs_tree t" and d: "depicts sp t" and adm: "\<forall>m \<in> set (sp_nodes sp). admissible k m" and m: "m \<in> set (sp_nodes sp)"
  shows "children_valid (snap_table sp) m"
proof -
  note inv = tr [unfolded fs_tree_def]
  have dist: "distinct (map fst (sn_children m))" "distinct (map sn_ino (sp_nodes sp))" using d m by (simp_all add: depicts_def)
  have "name_ok (fst e) \<and> snd e |\<in>| fmdom (snap_table sp)" if "e \<in> set (sn_children m)" for e
  proof -
    have "kid t (sn_ino m) (fst e) = Some (snd e)" unfolding depicts_views(1) [OF d] using m that by auto
    from tree_invD(1) [OF inv this] obtain c where "name_ok (fst e)" "nlinks t (snd e) = Some c" by blast
    moreover from this(2) obtain m' where "m' \<in> set (sp_nodes sp)" "sn_ino m' = snd e" unfolding depicts_views(3) [OF d] by blast
    then have "fmlookup (snap_table sp) (snd e) = Some m'" using valid_table [OF dist(2)] by blast
    ultimately show ?thesis by (auto intro: fmdomI)
  qed
  moreover have "sn_subdirs m = length (filter (\<lambda>e. dir_in (snap_table sp) (snd e)) (sn_children m))"
  proof (cases "snap_kind m = Directory")
    case True
    then have "fs_dir t (sn_ino m)" unfolding depicts_views(2) [OF d] using m by blast
    then show ?thesis
      using tree_invD(6) [OF inv, of "sn_ino m"] depicts_subdirs(1) [OF d adm m] depicts_lookup [OF d m]
      by (simp add: subdirs_def restore_node_kind)
  next
    case False
    then show ?thesis using adm m by (auto simp: admissible_def)
  qed
  ultimately show ?thesis using dist by (simp add: children_valid_def)
qed

lemma depicts_valid:
  assumes wf: "memfs_wf t" and d: "depicts sp t" and pos: "\<forall>m \<in> set (sp_nodes sp). 0 < sn_nlink m" and nx: "fs_next_ino t = sp_next_ino sp"
  shows "snapshot_valid sp"
proof -
  have ok: "nodes_ok t" and tr: "fs_tree t" using wf by (simp_all add: memfs_wf_def)
  have root: "fs_root t = sp_root sp" using d by (simp add: depicts_def)
  note inv = tr [unfolded fs_tree_def root]
  have adm: "\<forall>m \<in> set (sp_nodes sp). admissible (sp_next_ino sp) m" using depicts_admissible [OF ok d _ _ nx] pos by blast
  have links: "nlinks t (sn_ino m) = Some (sn_nlink m)" if "m \<in> set (sp_nodes sp)" for m
    unfolding depicts_views(3) [OF d] using that by blast
  have dirs: "fs_dir t (sn_ino m) \<and> sn_nlink m = 1" if "m \<in> set (sp_nodes sp)" "snap_kind m = Directory" for m
  proof -
    have "fs_dir t (sn_ino m)" unfolding depicts_views(2) [OF d] using that by blast
    then show ?thesis using tree_invD(3) [OF inv] links [OF that(1)] pos that(1) by fastforce
  qed
  have reach: "(snap_edges sp)\<^sup>*\<^sup>* (sp_root sp) i" if "fs_dir t i" "nlinks t i = Some 1" for i
    using reach_edges [OF d] tree_invD(7) [OF inv] that by blast
  have "(snap_edges sp)\<^sup>*\<^sup>* (sp_root sp) (sn_ino m)" if m: "m \<in> set (sp_nodes sp)" for m
  proof (cases "sn_ino m = sp_root sp")
    case False
    then have "refs (kid t) (sn_ino m) \<noteq> {}" using tree_invD(2) [OF inv links [OF m]] pos m by auto
    then obtain p x where k: "kid t p x = Some (sn_ino m)" by (auto simp: refs_def)
    then have "(snap_edges sp)\<^sup>*\<^sup>* (sp_root sp) p" using tree_invD(1) [OF inv k] reach by blast
    then show ?thesis using k snap_edges_iff [OF d] by (meson rtranclp.rtrancl_into_rtrancl)
  qed simp
  moreover have "sn_nlink m = (if sn_ino m = sp_root sp then 1 else 0) + named (sp_nodes sp) (sn_ino m)"
    if m: "m \<in> set (sp_nodes sp)" for m
    using tree_invD(2) [OF inv links [OF m]] depicts_refs(2) [OF d] by simp
  moreover have "\<exists>n \<in> set (sp_nodes sp). sn_ino n = sp_root sp \<and> snap_kind n = Directory"
    using tree_invD(4) [OF inv] unfolding depicts_views(2) [OF d] .
  moreover have "distinct (map sn_ino (sp_nodes sp))" using d by (simp add: depicts_def)
  ultimately show ?thesis
    unfolding snapshot_valid_def using adm dirs depicts_children_valid [OF tr d adm] by blast
qed


section \<open>The linked part of a state\<close>

definition linked_part :: "mem_state \<Rightarrow> mem_state" where
  "linked_part s = s\<lparr>fs_nodes := fmfilter (\<lambda>i. nlinks s i \<noteq> Some 0) (fs_nodes s)\<rparr>"

lemma linked_lookup:
  "fmlookup (fs_nodes (linked_part s)) i = (if nlinks s i = Some 0 then None else fmlookup (fs_nodes s) i)"
  by (simp add: linked_part_def)

lemma linked_views:
  "nlinks (linked_part s) i = (if nlinks s i = Some 0 then None else nlinks s i)"
  "fs_dir (linked_part s) i \<longleftrightarrow> fs_dir s i \<and> nlinks s i \<noteq> Some 0"
  "nlinks s i \<noteq> Some 0 \<Longrightarrow> subdirs (linked_part s) i = subdirs s i"
  "blocks_of (linked_part s) i = (if nlinks s i = Some 0 then 0 else blocks_of s i)"
  "in_use (linked_part s) = in_use s"
proof -
  show nl: "nlinks (linked_part s) i = (if nlinks s i = Some 0 then None else nlinks s i)" for i
    unfolding nlinks_def [of "linked_part s"] linked_lookup by (auto simp: nlinks_def)
  show "in_use (linked_part s) = in_use s" by (auto simp: in_use_def nl)
qed (simp_all add: fs_dir_def subdirs_def blocks_of_def linked_lookup)

lemma linked_kid:
  assumes "fs_tree s"
  shows "kid (linked_part s) = kid s" "kid s p x = Some c \<Longrightarrow> nlinks s c \<noteq> Some 0"
proof -
  note inv = assms [unfolded fs_tree_def]
  show "kid (linked_part s) = kid s"
  proof (intro ext)
    fix p x
    have "nlinks s p = Some 0 \<Longrightarrow> kid s p x = None" using tree_invD(1) [OF inv, of p x] by (cases "kid s p x") auto
    then show "kid (linked_part s) p x = kid s p x" by (auto simp: kid_def linked_lookup)
  qed
  show "nlinks s c \<noteq> Some 0" if k: "kid s p x = Some c"
  proof
    assume "nlinks s c = Some 0"
    from tree_invD(2) [OF inv this] have "refs (kid s) c = {}" by auto
    then show False using k by (auto simp: refs_def)
  qed
qed

lemma linked_tree:
  assumes t: "fs_tree s"
  shows "fs_tree (linked_part s)"
proof -
  note inv = t [unfolded fs_tree_def]
  have root: "fs_root (linked_part s) = fs_root s" by (simp add: linked_part_def)
  have reach: "tree_reach (kid s) (fs_dir (linked_part s)) (fs_root s) i" if "tree_reach (kid s) (fs_dir s) (fs_root s) i" for i
    using that
  proof (induction rule: tree_reach.induct)
    case (tree_reach_step p x c)
    then show ?case using linked_kid(2) [OF t] linked_views(2) tree_reach.tree_reach_step by metis
  qed (rule tree_reach_root)
  have sub: "{x. \<exists>c. kid s i x = Some c \<and> fs_dir (linked_part s) c} = {x. \<exists>c. kid s i x = Some c \<and> fs_dir s c}" for i
    using linked_kid(2) [OF t] by (auto simp: linked_views)
  show ?thesis
    unfolding fs_tree_def tree_inv_def root linked_kid(1) [OF t] sub
  proof (intro conjI allI impI)
    fix p x c assume k: "kid s p x = Some c"
    show "name_ok x" "fs_dir (linked_part s) p" "nlinks (linked_part s) p = Some 1" "nlinks (linked_part s) c \<noteq> None"
      using tree_invD(1) [OF inv k] linked_kid(2) [OF t k] by (auto simp: linked_views)
  next
    fix i k assume "nlinks (linked_part s) i = Some k"
    then have "nlinks s i = Some k" by (simp add: linked_views split: if_splits)
    from tree_invD(2) [OF inv this]
    show "finite (refs (kid s) i)" "k = card (refs (kid s) i) + (if i = fs_root s then 1 else 0)" by blast+
  next
    fix i assume "fs_dir (linked_part s) i"
    then have i: "fs_dir s i" "nlinks s i \<noteq> Some 0" by (simp_all add: linked_views)
    show "nlinks (linked_part s) i = Some 0 \<or> nlinks (linked_part s) i = Some 1" using tree_invD(3) [OF inv i(1)] i(2) by (simp add: linked_views)
    show "finite {x. kid s i x \<noteq> None}" "subdirs (linked_part s) i = card {x. \<exists>c. kid s i x = Some c \<and> fs_dir s c}"
      using tree_invD(6) [OF inv i(1)] linked_views(3) [OF i(2)] by simp_all
    show "tree_reach (kid s) (fs_dir (linked_part s)) (fs_root s) i"
      using tree_invD(3,7) [OF inv i(1)] i(2) reach by blast
  qed (use tree_invD(4,5) [OF inv] in \<open>simp_all add: linked_views\<close>)
qed

lemma linked_wf:
  assumes "memfs_wf s"
  shows "memfs_wf (linked_part s)"
proof -
  have "accounted (linked_part s)"
  proof -
    have "sum (blocks_of (linked_part s)) (in_use s) = sum (blocks_of s) (in_use s)"
      by (rule sum.cong) (auto simp: linked_views in_use_def)
    then show ?thesis using assms by (simp add: memfs_wf_def accounted_def linked_views) (simp add: linked_part_def)
  qed
  moreover have "nodes_ok (linked_part s)"
  proof -
    have "fs_next_ino (linked_part s) = fs_next_ino s" by (simp add: linked_part_def)
    then show ?thesis using assms by (auto simp: memfs_wf_def nodes_ok_def linked_lookup split: if_splits)
  qed
  ultimately show ?thesis using assms linked_tree by (simp add: memfs_wf_def)
qed

section \<open>Taking a snapshot and restoring it\<close>

text \<open>The values of a hash map, in some order.\<close>

definition lists_values :: "((nat, node) fmap \<Rightarrow> node list) \<Rightarrow> (nat, node) fmap \<Rightarrow> bool" where
  "lists_values vals m \<longleftrightarrow> (\<exists>ks. distinct ks \<and> set ks = fmdom' m \<and> vals m = map (\<lambda>k. the (fmlookup m k)) ks)"

lemma restore_snapshot_node:
  assumes "children_wf (nd_children n)"
  shows "restore_node (snapshot_node_of n) = n"
  by (simp add: restore_node_def snapshot_node_of_def children_from_iter_iter [OF assms])

lemma snapshot_depicts:
  assumes ok: "nodes_ok s" and vals: "lists_values vals (fs_nodes s)"
  shows "depicts (snapshot_of vals s) (linked_part s)"
proof -
  obtain ks where ks: "distinct ks" "set ks = fmdom' (fs_nodes s)" "vals (fs_nodes s) = map (\<lambda>k. the (fmlookup (fs_nodes s) k)) ks"
    using vals unfolding lists_values_def by blast
  have node: "nd_ino n = i" "children_wf (nd_children n)" if "fmlookup (fs_nodes s) i = Some n" for i n
    using ok that unfolding nodes_ok_def node_ok_def by blast+
  have inos: "map nd_ino (vals (fs_nodes s)) = ks"
    using node(1) ks(2) by (auto simp: ks(3) fmlookup_dom'_iff intro!: map_idI)
  have mem: "n \<in> set (vals (fs_nodes s)) \<longleftrightarrow> fmlookup (fs_nodes s) (nd_ino n) = Some n" for n
  proof -
    have "n \<in> set (vals (fs_nodes s)) \<longleftrightarrow> (\<exists>k. fmlookup (fs_nodes s) k = Some n)"
      by (force simp: ks fmlookup_dom'_iff)
    then show ?thesis using node(1) by blast
  qed
  have "distinct (map sn_ino (sp_nodes (snapshot_of vals s)))"
    using ks(1) inos distinct_map_filter [of nd_ino "vals (fs_nodes s)"]
    by (simp add: snapshot_of_def snapshot_node_of_def comp_def)
  moreover have "\<forall>m \<in> set (sp_nodes (snapshot_of vals s)). distinct (map fst (sn_children m))"
    using node(2) mem kids.entries_distinct by (auto simp: snapshot_of_def snapshot_node_of_def)
  moreover have "fmlookup (fs_nodes (linked_part s)) i = Some n \<longleftrightarrow>
      (\<exists>m \<in> set (sp_nodes (snapshot_of vals s)). sn_ino m = i \<and> n = restore_node m)" for i n
  proof -
    have "(\<exists>m \<in> set (sp_nodes (snapshot_of vals s)). sn_ino m = i \<and> n = restore_node m)
        \<longleftrightarrow> (\<exists>k. fmlookup (fs_nodes s) (nd_ino k) = Some k \<and> nd_nlink k > 0 \<and> nd_ino k = i \<and> n = restore_node (snapshot_node_of k))"
      by (auto simp: snapshot_of_def mem) (auto simp: snapshot_node_of_def)
    also have "\<dots> \<longleftrightarrow> (\<exists>k. fmlookup (fs_nodes s) i = Some k \<and> nd_nlink k > 0 \<and> n = k)"
      using node restore_snapshot_node by metis
    finally show ?thesis by (auto simp: linked_lookup nlinks_def)
  qed
  ultimately show ?thesis unfolding depicts_def by (simp add: snapshot_of_def linked_part_def)
qed


text \<open>
  The same nodes give the same counters, so the restored state is the linked part with fresh
  descriptors.
\<close>

lemma same_nodes_accounted:
  assumes "fs_nodes s = fs_nodes t" "accounted s" "accounted t"
  shows "fs_node_count s = fs_node_count t" "fs_used_blocks s = fs_used_blocks t"
proof -
  have "nlinks s = nlinks t" "blocks_of s = blocks_of t" using assms(1) by (auto simp: nlinks_def blocks_of_def fun_eq_iff)
  then show "fs_node_count s = fs_node_count t" "fs_used_blocks s = fs_used_blocks t"
    using assms by (simp_all add: accounted_def in_use_def)
qed

lemma snapshot_restores:
  assumes wf: "memfs_wf s" and vals: "lists_values vals (fs_nodes s)"
  shows "snapshot_valid (snapshot_of vals s)"
    and "restore_state (snapshot_of vals s) = (linked_part s)\<lparr>fs_next_fd := 3, fs_ticks := 0\<rparr>"
proof -
  let ?sp = "snapshot_of vals s" and ?t = "restore_state (snapshot_of vals s)"
  have ok: "nodes_ok s" using wf by (simp add: memfs_wf_def)
  have d: "depicts ?sp (linked_part s)" by (rule snapshot_depicts [OF ok vals])
  have eqs: "sp_next_ino ?sp = fs_next_ino s" "fs_next_ino (linked_part s) = fs_next_ino s" "fs_root (linked_part s) = fs_root s"
    by (simp_all add: snapshot_of_def linked_part_def)
  have pos: "\<forall>m \<in> set (sp_nodes ?sp). 0 < sn_nlink m" by (auto simp: snapshot_of_def snapshot_node_of_def)
  show v: "snapshot_valid ?sp" using depicts_valid [OF linked_wf [OF wf] d pos] eqs by simp
  have "fs_next_ino s \<le> U64_MAX" using ok by (simp add: nodes_ok_def)
  then have wft: "memfs_wf ?t" using restore_wf [OF v] eqs by simp
  have nodes: "fs_nodes ?t = fs_nodes (linked_part s)"
  proof (rule fmap_ext)
    fix i
    show "fmlookup (fs_nodes ?t) i = fmlookup (fs_nodes (linked_part s)) i"
      by (rule option_eqI) (simp only: depicts_iff [OF restore_depicts [OF v]] depicts_iff [OF d])
  qed
  have "accounted ?t" "accounted (linked_part s)" using wft linked_wf [OF wf] by (simp_all add: memfs_wf_def)
  note counts = same_nodes_accounted [OF nodes this]
  have "2 \<le> fs_next_ino s"
  proof -
    obtain n where n: "fmlookup (fs_nodes s) (fs_root s) = Some n"
      using wf tree_invD(5) [of name_ok "kid s" "nlinks s" "fs_dir s" "subdirs s" "fs_root s"]
      by (auto simp: memfs_wf_def fs_tree_def nlinks_def)
    then show ?thesis using ok unfolding nodes_ok_def by fastforce
  qed
  then have "fs_next_ino ?t = fs_next_ino s" "fs_root ?t = fs_root s" "fs_uid ?t = fs_uid s" "fs_gid ?t = fs_gid s"
    "fs_umask ?t = fs_umask s" "fs_next_fd ?t = 3" "fs_ticks ?t = 0"
    unfolding restore_state_fields [OF v] by (simp_all add: snapshot_of_def)
  then show "?t = (linked_part s)\<lparr>fs_next_fd := 3, fs_ticks := 0\<rparr>"
    using nodes counts by (simp add: linked_part_def)
qed


section \<open>Rejection\<close>

lemma try_fold_Inl: "try_fold f a xs = Inl e \<Longrightarrow> \<exists>b x. x \<in> set xs \<and> f b x = Inl e"
  by (induction xs arbitrary: a) (fastforce split: sum.splits simp: and_then_def)+

lemma count_child_Inl: "count_child nodes a x = Inl e \<Longrightarrow> e = invalid_snapshot"
  by (cases a; cases x) (auto simp: count_child_def ok_or_def split: if_splits option.splits)

lemma count_children_Inl: "count_children nodes a n = Inl e \<Longrightarrow> e = invalid_snapshot"
  by (auto simp: count_children_def and_then_def split: sum.splits if_splits dest!: try_fold_Inl count_child_Inl)

text \<open>Validation fails with its one error, and the traversal never misses a node.\<close>

lemma validate_snapshot_Inl:
  assumes "validate_snapshot sp = Inl e"
  shows "e = invalid_snapshot"
proof (cases "try_fold (admit_node (sp_next_ino sp)) fmempty (sp_nodes sp)")
  case (Inl a)
  then show ?thesis
    using assms by (auto simp: validate_snapshot_def admit_node_def Let_def dest!: try_fold_Inl split: if_splits)
next
  case (Inr nodes)
  then have nodes: "nodes = snap_table sp" and d: "distinct (map sn_ino (sp_nodes sp))" by (simp_all add: admit_nodes_iff)
  let ?l = "map snd (sorted_list_of_fmap nodes)" and ?m = "fmmap (map snd \<circ> sn_children) nodes"
  show ?thesis
  proof (cases "\<exists>root R. fmlookup nodes (sp_root sp) = Some root \<and> sn_mode root AND S_IFMT = S_IFDIR
      \<and> try_fold (count_children nodes) (fmupd (sp_root sp) 1 fmempty) ?l = Inr R")
    case False
    then show ?thesis
      using assms Inr by (auto simp: validate_snapshot_def ok_or_def and_then_def split: option.splits sum.splits if_splits
          dest!: try_fold_Inl count_children_Inl)
  next
    case True
    then obtain root R where r: "fmlookup nodes (sp_root sp) = Some root" "sn_mode root AND S_IFMT = S_IFDIR"
      "try_fold (count_children nodes) (fmupd (sp_root sp) 1 fmempty) ?l = Inr R" by blast
    have "\<forall>n \<in> set (sp_nodes sp). children_valid nodes n"
      using count_children_facts [OF r(3)] table_values(1) [OF d] nodes by blast
    then have "i |\<in>| fmdom nodes" if "leads_to ?m p i" for p i
      using that by (fastforce simp: leads_to_def nodes valid_table [OF d] children_valid_def)
    then obtain v where "worklist ?m {||} [sp_root sp] = Some v"
      using worklist_total [of ?m "[sp_root sp]" "{||}"] fmdomI [OF r(1)] by auto
    then have "for_each (check_links R) ?l = Inl e \<or> e = invalid_snapshot"
      using assms unfolding validate_snapshot_def Inr and_then_simps r(1) ok_or_simps r(3)
      by (auto simp: r(2) r(3) guard_err_def and_then_def simp del: worklist.simps One_nat_def split: sum.splits if_splits)
    then show ?thesis by (auto simp: check_links_def guard_err_def dest!: for_each_eq_Inl split: if_splits)
  qed
qed

section \<open>Properties\<close>

text \<open>
  C11: Restoring never builds a broken file system, whatever the bytes: a document that is accepted gives a
  well-formed state with exactly the nodes of the document, and a document is accepted exactly when it
  has version 1 and describes a well-formed tree. Every rejection is one of three input/output errors, so the
  traversal never looks up a missing node. The hypothesis is that the decoder yields numbers of 64 bits.
\<close>

theorem memfs_snapshot_sound:
  assumes "\<forall>sp. from_json bs = Inr sp \<longrightarrow> sp_next_ino sp \<le> U64_MAX"
  shows "(case from_snapshot from_json bs of
      Inr t \<Rightarrow> memfs_wf t \<and> fs_next_fd t = 3
        \<and> (\<exists>sp. from_json bs = Inr sp \<and> sp_version sp = 1 \<and> snapshot_valid sp \<and> depicts sp t)
    | Inl e \<Rightarrow> \<not> (\<exists>sp. from_json bs = Inr sp \<and> sp_version sp = 1 \<and> snapshot_valid sp)
        \<and> ((\<exists>m. e = fs_error_backend (''invalid filesystem snapshot: '' @ m))
           \<or> e = fs_error_backend ''unsupported filesystem snapshot'' \<or> e = invalid_snapshot))"
proof (cases "from_json bs")
  case (Inl m)
  then show ?thesis by (auto simp: from_snapshot_def)
next
  case (Inr sp)
  have listed: "snapshot_valid sp \<Longrightarrow> list_ex (\<lambda>n. sn_ino n = sp_root sp) (sp_nodes sp)"
    by (auto simp: snapshot_valid_def list_ex_iff)
  show ?thesis
  proof (cases "sp_version sp = 1 \<and> snapshot_valid sp")
    case True
    then have "from_snapshot from_json bs = Inr (restore_state sp)"
      using validate_snapshot_decides [of sp] listed Inr by (simp add: from_snapshot_def)
    moreover have "fs_next_fd (restore_state sp) = 3" using True by (simp add: restore_state_fields)
    ultimately show ?thesis using True Inr assms restore_wf restore_depicts by auto
  next
    case False
    then have "\<exists>e. from_snapshot from_json bs = Inl e \<and> (e = fs_error_backend ''unsupported filesystem snapshot'' \<or> e = invalid_snapshot)"
      using Inr validate_snapshot_decides [of sp] validate_snapshot_Inl [of sp] listed
      by (cases "validate_snapshot sp") (auto simp: from_snapshot_def)
    then show ?thesis using False Inr by auto
  qed
qed

definition ordered_values :: "(nat, node) fmap \<Rightarrow> node list" where
  "ordered_values m = map snd (sorted_list_of_fmap m)"

lemma ordered_values_lists: "lists_values ordered_values m"
  unfolding lists_values_def
proof (intro exI conjI)
  show "ordered_values m = map (\<lambda>k. the (fmlookup m k)) (sorted_list_of_fset (fmdom m))"
    by (simp add: ordered_values_def sorted_list_of_fmap_def comp_def)
qed (simp_all add: distinct_sorted_list_of_fset fmdom'_alt_def)

definition demo_document :: snapshot where
  "demo_document = snapshot_of ordered_values (demo_run [demo_mkdir ''/a'', demo_file ''/x'', C_Unlink ''/x''])"

theorem memfs_snapshot_sound_witness:
  "is_ok (from_snapshot (\<lambda>_. Inr demo_document) []) \<and>
   (\<exists>t. from_snapshot (\<lambda>_. Inr demo_document) [] = Inr t \<and> memfs_wf t \<and> depicts demo_document t)"
proof -
  have ok: "is_ok (from_snapshot (\<lambda>_. Inr demo_document) [])" by code_simp
  have "sp_next_ino demo_document \<le> U64_MAX"
    using demo_run_wf by (simp add: demo_document_def snapshot_of_def memfs_wf_def nodes_ok_def)
  then show ?thesis
    using memfs_snapshot_sound [of "\<lambda>_. Inr demo_document" "[]"] ok by (auto simp: is_ok_def split: sum.splits)
qed


text \<open>
  C28: A snapshot of a well-formed file system restores to exactly its linked part: the same tree,
  contents, attributes, counters and next inode, without the removed files that were only held open. The
  hypotheses are that the map lists each of its values once and that the decoder reads what the encoder wrote.
\<close>

theorem memfs_snapshot_roundtrip:
  assumes wf: "memfs_wf s" and vals: "lists_values vals (fs_nodes s)"
    and json: "\<forall>sp bs. to_json sp = Inr bs \<longrightarrow> from_json bs = Inr sp" and taken: "snapshot_bytes vals to_json s = Inr bs"
  shows "from_snapshot from_json bs = Inr ((linked_part s)\<lparr>fs_next_fd := 3, fs_ticks := 0\<rparr>)
    \<and> memfs_wf (linked_part s) \<and> kid (linked_part s) = kid s
    \<and> (\<forall>i. nlinks s i \<noteq> Some 0 \<longrightarrow> fmlookup (fs_nodes (linked_part s)) i = fmlookup (fs_nodes s) i)"
proof -
  let ?sp = "snapshot_of vals s"
  have "from_json bs = Inr ?sp" using taken json by (auto simp: snapshot_bytes_def split: sum.splits)
  moreover have "sp_version ?sp = 1" by (simp add: snapshot_of_def)
  moreover have "list_ex (\<lambda>n. sn_ino n = sp_root ?sp) (sp_nodes ?sp)"
    using snapshot_restores(1) [OF wf vals] by (auto simp: snapshot_valid_def list_ex_iff)
  ultimately have "from_snapshot from_json bs = Inr (restore_state ?sp)"
    using snapshot_restores(1) [OF wf vals] by (simp add: from_snapshot_def validate_snapshot_decides [symmetric])
  then show ?thesis
    using snapshot_restores(2) [OF wf vals] linked_wf [OF wf] linked_kid(1) [of s] wf
    by (simp add: memfs_wf_def linked_lookup)
qed

text \<open>An encoder that writes one document, and its decoder.\<close>

definition demo_encode :: "snapshot \<Rightarrow> string + bytes" where
  "demo_encode sp = (if sp = demo_document then Inr [1] else Inl ''unsupported'')"

theorem memfs_snapshot_roundtrip_witness:
  "\<exists>s bs. snapshot_bytes ordered_values demo_encode s = Inr bs \<and> fmlookup (fs_nodes s) 3 \<noteq> None
     \<and> from_snapshot (\<lambda>_. Inr demo_document) bs = Inr ((linked_part s)\<lparr>fs_next_fd := 3, fs_ticks := 0\<rparr>)"
proof -
  let ?s = "demo_run [demo_mkdir ''/a'', demo_file ''/x'', C_Unlink ''/x'']"
  have taken: "snapshot_bytes ordered_values demo_encode ?s = Inr [1]"
    by (simp add: snapshot_bytes_def demo_encode_def demo_document_def)
  have "\<forall>sp bs. demo_encode sp = Inr bs \<longrightarrow> (\<lambda>_. Inr demo_document) bs = (Inr sp :: string + snapshot)"
    by (simp add: demo_encode_def)
  from memfs_snapshot_roundtrip [OF demo_run_wf ordered_values_lists this taken]
  have "from_snapshot (\<lambda>_. Inr demo_document) [1] = Inr ((linked_part ?s)\<lparr>fs_next_fd := 3, fs_ticks := 0\<rparr>)" by blast
  moreover have "fmlookup (fs_nodes ?s) 3 \<noteq> None" by code_simp
  ultimately show ?thesis using taken by blast
qed

end
