(* ===== verification/Delegation.thy ===== *)
theory Delegation
  imports Namespace_Validation Worklist "HOL-Library.Char_ord" "HOL-Library.List_Lexorder" "HOL-Library.Product_Lexorder"
begin

text \<open>
  Model of \<^verbatim>\<open>src/delegation.rs\<close>: authority over directory subtrees of a shared namespace. A session
  checks a directory out, publishes namespaces that differ from the stored one inside its subtree
  only, and checks it in; the authority of a crashed session is recovered.
\<close>

section \<open>State\<close>

datatype grant_token = GrantToken (gt_root: nat) (gt_owner: string) (gt_fence: nat)

text \<open>The derived order of the source: by root, then owner, then fence.\<close>

definition token_key :: "grant_token \<Rightarrow> nat \<times> string \<times> nat" where
  "token_key t = (gt_root t, gt_owner t, gt_fence t)"

lemma token_key_inj: "token_key a = token_key b \<longleftrightarrow> a = b"
  by (auto simp: token_key_def grant_token.expand)

instantiation grant_token :: linorder
begin

definition less_eq_grant_token :: "grant_token \<Rightarrow> grant_token \<Rightarrow> bool" where
  "less_eq_grant_token a b \<longleftrightarrow> token_key a \<le> token_key b"

definition less_grant_token :: "grant_token \<Rightarrow> grant_token \<Rightarrow> bool" where
  "less_grant_token a b \<longleftrightarrow> token_key a < token_key b"

instance
  by standard (auto simp: less_eq_grant_token_def less_grant_token_def less_le_not_le token_key_inj
      intro: order_trans dest: order_antisym)

end

record directory_grant =
  dg_token :: grant_token
  dg_orphans :: "nat fset"

record delegation_state =
  dl_backing :: bytes
  dl_next_fence :: nat
  dl_grants :: "(nat, directory_grant) fmap"
  dl_retired :: "grant_token fset"

definition MAX_DELEGATION_IDENTITIES :: nat where
  "MAX_DELEGATION_IDENTITIES = 4096"

definition denied :: "string \<Rightarrow> fs_error" where
  "denied m = with_message m (fs_error_new Estale)"

lemma err_code_denied [simp]: "err_code (denied m) = Estale"
  by (simp add: denied_def)

definition delegation_new :: "bytes \<Rightarrow> delegation_state" where
  "delegation_new backing = \<lparr>dl_backing = backing, dl_next_fence = 1, dl_grants = fmempty, dl_retired = {||}\<rparr>"

section \<open>Subtrees\<close>

text \<open>
  The traversal of \<^verbatim>\<open>subtree\<close>. The index of the node table panics on a missing inode.
\<close>

definition subtree_children :: "node_metadata \<Rightarrow> nat list" where
  "subtree_children node = (case nm_data node of ND_Directory entries \<Rightarrow> map dn_inode entries | _ \<Rightarrow> [])"

definition subtree_loop :: "(nat, node_metadata) fmap \<Rightarrow> nat \<Rightarrow> nat fset result" where
  "subtree_loop nodes root =
     ok_or (worklist (fmmap subtree_children nodes) {||} [root]) (rust_panic ''no entry found for key'')"

definition subtree :: "namespace \<Rightarrow> nat \<Rightarrow> nat fset result" where
  "subtree ns root =
     (if \<not> (case fmlookup (ns_nodes ns) root of None \<Rightarrow> False | Some n \<Rightarrow> is_dir_data (nm_data n))
      then Inl (denied ''grant root is not a directory'')
      else and_then (subtree_loop (ns_nodes ns) root) (\<lambda>found.
      and_then (for_each (\<lambda>(parent, node).
          if parent |\<in>| found then Inr ()
          else (case nm_data node of
                  ND_Directory entries \<Rightarrow>
                    guard_err (list_ex (\<lambda>e. dn_inode e \<noteq> root \<and> dn_inode e |\<in>| found) entries)
                      (denied ''subtree has an external hardlink'')
                | _ \<Rightarrow> Inr ()))
          (sorted_list_of_fmap (ns_nodes ns))) (\<lambda>_.
      Inr found)))"

section \<open>Validation\<close>

text \<open>The loop over all tokens, with the fences and the identities seen.\<close>

definition check_token ::
  "nat \<Rightarrow> nat fset \<times> (nat \<times> string) fset \<Rightarrow> grant_token \<Rightarrow> (nat fset \<times> (nat \<times> string) fset) result" where
  "check_token next_fence seen token =
     (case seen of (fences, identities) \<Rightarrow>
      if gt_owner token = [] \<or> gt_root token = 0 \<or> gt_fence token = 0 \<or> gt_fence token \<ge> next_fence
         \<or> gt_fence token |\<in>| fences \<or> (gt_root token, gt_owner token) |\<in>| identities
      then Inl (denied ''invalid or reused delegation identity'')
      else Inr (finsert (gt_fence token) fences, finsert (gt_root token, gt_owner token) identities))"

definition own_inode :: "nat fset \<Rightarrow> nat \<Rightarrow> nat fset result" where
  "own_inode owned inode =
     (if inode |\<in>| owned then Inl (denied ''overlapping directory grants'') else Inr (finsert inode owned))"

definition check_grant :: "namespace \<Rightarrow> nat fset \<Rightarrow> nat \<times> directory_grant \<Rightarrow> nat fset result" where
  "check_grant ns owned kg =
     (case kg of (root, grant) \<Rightarrow>
      if root \<noteq> gt_root (dg_token grant) then Inl (denied ''grant key differs from root'')
      else and_then (subtree ns root) (\<lambda>linked.
      and_then (for_each (\<lambda>inode.
          guard_err (\<not> (case fmlookup (ns_nodes ns) inode of
                          None \<Rightarrow> False
                        | Some n \<Rightarrow> st_nlink (nm_stats n) = 0 \<and> \<not> is_dir_data (nm_data n)))
            (denied ''invalid orphan ownership provenance''))
          (sorted_list_of_fset (dg_orphans grant))) (\<lambda>_.
      try_fold own_inode owned (sorted_list_of_fset linked @ sorted_list_of_fset (dg_orphans grant)))))"

definition all_tokens :: "delegation_state \<Rightarrow> grant_token list" where
  "all_tokens st = sorted_list_of_fset (dl_retired st) @ map (dg_token \<circ> snd) (sorted_list_of_fmap (dl_grants st))"

definition identity_count :: "delegation_state \<Rightarrow> nat" where
  "identity_count st = fcard (fmdom (dl_grants st)) + fcard (dl_retired st)"

definition delegation_validate :: "delegation_state \<Rightarrow> namespace \<Rightarrow> unit result" where
  "delegation_validate st ns =
     and_then (namespace_validate ns) (\<lambda>_.
     and_then (backing_from_bytes (dl_backing st)) (\<lambda>_.
     if dl_next_fence st = 0 \<or> identity_count st > MAX_DELEGATION_IDENTITIES
     then Inl (denied ''invalid delegation fence or receipt capacity'')
     else and_then (try_fold (check_token (dl_next_fence st)) ({||}, {||}) (all_tokens st)) (\<lambda>_.
     and_then (try_fold (check_grant ns) {||} (sorted_list_of_fmap (dl_grants st))) (\<lambda>_.
     Inr ()))))"

section \<open>Operations\<close>

definition checkout ::
  "delegation_state \<Rightarrow> namespace \<Rightarrow> nat \<Rightarrow> string \<Rightarrow> (directory_grant \<times> delegation_state) result" where
  "checkout st ns root owner =
     and_then (delegation_validate st ns) (\<lambda>_.
     if owner = [] then Inl (fs_error_new Einval)
     else (case fmlookup (dl_grants st) root of
       Some grant \<Rightarrow>
         if gt_owner (dg_token grant) = owner then Inr (grant, st)
         else Inl (denied ''directory already owned'')
     | None \<Rightarrow>
         if list_ex (\<lambda>t. gt_root t = root \<and> gt_owner t = owner) (sorted_list_of_fset (dl_retired st))
         then Inl (denied ''session identity already retired'')
         else if identity_count st \<ge> MAX_DELEGATION_IDENTITIES then Inl (fs_error_new Eoverflow)
         else and_then (ok_or (checked_add (dl_next_fence st) 1) (fs_error_new Eoverflow)) (\<lambda>next.
         and_then (subtree ns root) (\<lambda>claimed.
         and_then (for_each (\<lambda>(_, grant).
             and_then (subtree ns (gt_root (dg_token grant))) (\<lambda>other.
             guard_err (claimed |\<inter>| other \<noteq> {||}) (denied ''ancestor or descendant already owned'')))
             (sorted_list_of_fmap (dl_grants st))) (\<lambda>_.
         let grant = \<lparr>dg_token = GrantToken root owner (dl_next_fence st), dg_orphans = {||}\<rparr>
         in Inr (grant, st\<lparr>dl_grants := fmupd root grant (dl_grants st), dl_next_fence := next\<rparr>))))))"

text \<open>\<^verbatim>\<open>self.grants.get(&token.root).filter(|g| g.token == *token)\<close>.\<close>

definition held_grant :: "delegation_state \<Rightarrow> grant_token \<Rightarrow> directory_grant option" where
  "held_grant st token =
     (case fmlookup (dl_grants st) (gt_root token) of
        None \<Rightarrow> None
      | Some g \<Rightarrow> if dg_token g = token then Some g else None)"

definition header_changed :: "namespace \<Rightarrow> namespace \<Rightarrow> bool" where
  "header_changed old new \<longleftrightarrow>
     ns_format_version old \<noteq> ns_format_version new \<or> ns_root old \<noteq> ns_root new
     \<or> ns_default_uid old \<noteq> ns_default_uid new \<or> ns_default_gid old \<noteq> ns_default_gid new
     \<or> ns_umask old \<noteq> ns_umask new \<or> ns_default_chunker old \<noteq> ns_default_chunker new
     \<or> ns_next_inode new < ns_next_inode old"

definition node_nlink_is :: "(nat \<Rightarrow> bool) \<Rightarrow> namespace \<Rightarrow> nat \<Rightarrow> bool" where
  "node_nlink_is P ns inode =
     (case fmlookup (ns_nodes ns) inode of None \<Rightarrow> False | Some n \<Rightarrow> P (st_nlink (nm_stats n)))"

text \<open>The body of the loop over the inodes of both namespaces.\<close>

definition check_change ::
  "namespace \<Rightarrow> namespace \<Rightarrow> nat fset \<Rightarrow> nat fset \<Rightarrow> nat \<Rightarrow> unit result" where
  "check_change old new authority after inode =
     (if fmlookup (ns_nodes old) inode = fmlookup (ns_nodes new) inode then Inr ()
      else (case fmlookup (ns_nodes old) inode of
        Some before_node \<Rightarrow>
          and_then (case fmlookup (ns_nodes new) inode of
              None \<Rightarrow> Inr ()
            | Some node \<Rightarrow>
                guard_err (st_mode (nm_stats before_node) AND S_IFMT \<noteq> st_mode (nm_stats node) AND S_IFMT
                    \<or> st_dev (nm_stats before_node) \<noteq> st_dev (nm_stats node)
                    \<or> st_birthtime_ms (nm_stats before_node) \<noteq> st_birthtime_ms (nm_stats node))
                  (denied ''existing inode identity mutation'')) (\<lambda>_.
          if inode |\<notin>| authority then Inl (denied ''outside inode mutation'')
          else if node_nlink_is (\<lambda>k. k \<noteq> 0) new inode \<and> inode |\<notin>| after
          then Inl (denied ''inode escaped owned subtree'')
          else Inr ())
      | None \<Rightarrow>
          if inode < ns_next_inode old \<or> inode |\<notin>| after
          then Inl (denied ''inode reuse or anonymous allocation'')
          else Inr ()))"

definition namespace_keys :: "namespace \<Rightarrow> nat list" where
  "namespace_keys ns = sorted_list_of_fset (fmdom (ns_nodes ns))"

definition allocated_inodes :: "namespace \<Rightarrow> namespace \<Rightarrow> nat list" where
  "allocated_inodes old new = filter (\<lambda>i. i |\<notin>| fmdom (ns_nodes old)) (namespace_keys new)"

definition check_allocation :: "namespace \<Rightarrow> namespace \<Rightarrow> unit result" where
  "check_allocation old new =
     (let allocated = allocated_inodes old new in
      and_then (ok_or (checked_add (ns_next_inode old) (length allocated)) (fs_error_new Eoverflow)) (\<lambda>expected_next.
      and_then (for_each (\<lambda>(offset, inode).
          and_then (ok_or (checked_add (ns_next_inode old) offset) (fs_error_new Eoverflow)) (\<lambda>expected.
          guard_err (inode \<noteq> expected) (denied ''sparse global inode allocation'')))
          (enumerate 0 allocated)) (\<lambda>_.
      guard_err (ns_next_inode new \<noteq> expected_next) (denied ''unauthorized global allocator mutation''))))"

definition authorize_publish ::
  "delegation_state \<Rightarrow> namespace \<Rightarrow> namespace \<Rightarrow> grant_token \<Rightarrow> delegation_state result" where
  "authorize_publish st old new token =
     and_then (delegation_validate st old) (\<lambda>_.
     and_then (namespace_validate new) (\<lambda>_.
     and_then (ok_or (held_grant st token) (denied ''stale directory token'')) (\<lambda>grant.
     if header_changed old new then Inl (denied ''namespace header mutation'')
     else and_then (subtree old (gt_root token)) (\<lambda>before.
     and_then (subtree new (gt_root token)) (\<lambda>after.
     let authority = before |\<union>| dg_orphans grant in
     and_then (for_each (\<lambda>inode.
         guard_err (inode |\<in>| fmdom (ns_nodes old) \<and> inode |\<notin>| before)
           (denied ''cross-boundary link or orphan resurrection''))
         (sorted_list_of_fset after)) (\<lambda>_.
     and_then (for_each (check_change old new authority after) (namespace_keys old @ namespace_keys new)) (\<lambda>_.
     and_then (check_allocation old new) (\<lambda>_.
     let orphans = ffilter (node_nlink_is (\<lambda>k. k = 0) new) authority;
         candidate = st\<lparr>dl_grants := fmupd (gt_root token) (grant\<lparr>dg_orphans := orphans\<rparr>) (dl_grants st)\<rparr>
     in and_then (delegation_validate candidate new) (\<lambda>_.
     Inr candidate)))))))))"

definition checkin :: "delegation_state \<Rightarrow> grant_token \<Rightarrow> namespace \<Rightarrow> delegation_state result" where
  "checkin st token ns =
     and_then (delegation_validate st ns) (\<lambda>_.
     if token |\<in>| dl_retired st then Inr st
     else and_then (ok_or (held_grant st token) (denied ''stale checkin token'')) (\<lambda>grant.
     if dg_orphans grant \<noteq> {||} then Inl (denied ''open-unlinked provenance prevents checkin'')
     else Inr (st\<lparr>dl_grants := fmdrop (gt_root token) (dl_grants st),
                  dl_retired := finsert token (dl_retired st)\<rparr>)))"

definition recover ::
  "delegation_state \<Rightarrow> nat \<Rightarrow> nat \<Rightarrow> namespace \<Rightarrow> (delegation_state \<times> namespace) result" where
  "recover st root expected_fence ns =
     and_then (delegation_validate st ns) (\<lambda>_.
     if (case fmlookup (dl_grants st) root of None \<Rightarrow> False | Some g \<Rightarrow> gt_fence (dg_token g) \<noteq> expected_fence)
     then Inl (denied ''recovery fence changed'')
     else if list_ex (\<lambda>t. gt_root t = root \<and> gt_fence t = expected_fence) (sorted_list_of_fset (dl_retired st))
     then Inr (st, ns)
     else and_then (ok_or (case fmlookup (dl_grants st) root of
                             None \<Rightarrow> None
                           | Some g \<Rightarrow> if gt_fence (dg_token g) = expected_fence then Some g else None)
                      (denied ''recovery fence changed'')) (\<lambda>grant.
     let candidate = ns\<lparr>ns_nodes := fmfilter (\<lambda>i. i |\<notin>| dg_orphans grant) (ns_nodes ns)\<rparr>
     in and_then (namespace_validate candidate) (\<lambda>_.
     Inr (st\<lparr>dl_grants := fmdrop root (dl_grants st), dl_retired := finsert (dg_token grant) (dl_retired st)\<rparr>,
          candidate))))"

end
