(* ===== verification/Delegation_Safety.thy ===== *)
theory Delegation_Safety
  imports Delegation
begin

text \<open>
  What directory delegation guarantees: validation decides that the grants own disjoint parts of the
  namespace, every operation keeps it, a publication changes nothing that another grant owns, and a
  retired token has no authority again.
\<close>

section \<open>Subtrees\<close>

definition edge :: "(nat, node_metadata) fmap \<Rightarrow> nat \<Rightarrow> nat \<Rightarrow> bool" where
  "edge nodes p i \<longleftrightarrow> i \<in> dn_inode ` set (entries_of nodes p)"

lemma edge_iff: "edge nodes p i \<longleftrightarrow> (\<exists>n e. fmlookup nodes p = Some n \<and> e \<in> set (dir_entries (nm_data n)) \<and> dn_inode e = i)"
  by (cases "fmlookup nodes p") (auto simp: edge_def entries_of_def)

definition below :: "(nat, node_metadata) fmap \<Rightarrow> nat \<Rightarrow> nat set" where
  "below nodes root = {i. (edge nodes)\<^sup>*\<^sup>* root i}"

lemma below_root [simp]: "root \<in> below nodes root"
  by (simp add: below_def)

lemma below_edge: "p \<in> below nodes root \<Longrightarrow> edge nodes p i \<Longrightarrow> i \<in> below nodes root"
  by (auto simp: below_def)

lemma below_least: "root \<in> S \<Longrightarrow> (\<And>p i. p \<in> S \<Longrightarrow> edge nodes p i \<Longrightarrow> i \<in> S) \<Longrightarrow> below nodes root \<subseteq> S"
proof
  fix i assume S: "root \<in> S" "\<And>p i. p \<in> S \<Longrightarrow> edge nodes p i \<Longrightarrow> i \<in> S" and "i \<in> below nodes root"
  then have "(edge nodes)\<^sup>*\<^sup>* root i" by (simp add: below_def)
  then show "i \<in> S" by induction (auto intro: S)
qed

lemma below_parent: "i \<in> below nodes root \<Longrightarrow> i = root \<or> (\<exists>p \<in> below nodes root. edge nodes p i)"
  unfolding below_def by (auto elim: rtranclp.cases)

lemma leads_to_edge: "leads_to (fmmap subtree_children nodes) = edge nodes"
proof (intro ext)
  fix p i
  have c: "subtree_children n = map dn_inode (dir_entries (nm_data n))" for n
    by (simp add: subtree_children_def dir_entries_def split: node_data.splits)
  show "leads_to (fmmap subtree_children nodes) p i = edge nodes p i"
    by (cases "fmlookup nodes p") (auto simp: leads_to_def edge_def entries_of_def c)
qed

text \<open>A subtree is everything below its root, and nothing else in the namespace links into it.\<close>

definition sealed :: "(nat, node_metadata) fmap \<Rightarrow> nat \<Rightarrow> bool" where
  "sealed nodes root \<longleftrightarrow> (\<forall>p i. edge nodes p i \<longrightarrow> i \<in> below nodes root \<longrightarrow> i \<noteq> root \<longrightarrow> p \<in> below nodes root)"

lemma subtree_loop_below:
  assumes "subtree_loop nodes root = Inr f"
  shows "fset f = below nodes root"
  using assms worklist_reaches [of "fmmap subtree_children nodes" root f]
  by (simp add: subtree_loop_def leads_to_edge below_def)

lemma external_links:
  "(\<forall>kn \<in> set (sorted_list_of_fmap nodes). (case kn of (parent, node) \<Rightarrow>
      if parent |\<in>| found then Inr ()
      else (case nm_data node of
              ND_Directory entries \<Rightarrow>
                guard_err (list_ex (\<lambda>e. dn_inode e \<noteq> root \<and> dn_inode e |\<in>| found) entries) err
            | _ \<Rightarrow> Inr ())) = Inr ())
   \<longleftrightarrow> (\<forall>p i. edge nodes p i \<longrightarrow> i |\<in>| found \<longrightarrow> i \<noteq> root \<longrightarrow> p |\<in>| found)" (is "?checks \<longleftrightarrow> ?closed")
proof -
  let ?check = "\<lambda>(parent, node). if parent |\<in>| found then Inr ()
      else (case nm_data node of
              ND_Directory entries \<Rightarrow>
                guard_err (list_ex (\<lambda>e. dn_inode e \<noteq> root \<and> dn_inode e |\<in>| found) entries) err
            | _ \<Rightarrow> Inr ())"
  have c: "?check (p, n) = Inr () \<longleftrightarrow> p |\<in>| found \<or> (\<forall>i \<in> dn_inode ` set (dir_entries (nm_data n)). i |\<in>| found \<longrightarrow> i = root)"
    for p n by (auto simp: dir_entries_def list_ex_iff split: node_data.splits)
  have "?checks \<longleftrightarrow> (\<forall>p n. fmlookup nodes p = Some n \<longrightarrow> ?check (p, n) = Inr ())"
    by (rule all_sorted_fmap)
  also have "\<dots> \<longleftrightarrow> ?closed" unfolding c edge_iff by blast
  finally show ?thesis .
qed

definition edges_known :: "(nat, node_metadata) fmap \<Rightarrow> bool" where
  "edges_known nodes \<longleftrightarrow> (\<forall>p i. edge nodes p i \<longrightarrow> i |\<in>| fmdom nodes)"

lemma wf_edges_known:
  assumes "wf_namespace ns"
  shows "edges_known (ns_nodes ns)"
  unfolding edges_known_def
proof (intro allI impI)
  fix p i assume "edge (ns_nodes ns) p i"
  then obtain n e where "fmlookup (ns_nodes ns) p = Some n" "e \<in> set (dir_entries (nm_data n))" "i = dn_inode e"
    by (auto simp: edge_iff)
  moreover from this have "entries_ok (ns_nodes ns) (dir_entries (nm_data n))" using assms by (simp add: wf_namespace_def)
  ultimately show "i |\<in>| fmdom (ns_nodes ns)" by (simp add: entries_ok_def fmlookup_dom_iff fmlookup_dom'_iff)
qed

lemma subtree_sound:
  assumes "subtree ns root = Inr f"
  shows "is_dir_node (ns_nodes ns) root" "fset f = below (ns_nodes ns) root" "sealed (ns_nodes ns) root"
proof -
  show "is_dir_node (ns_nodes ns) root"
    using assms by (auto simp: subtree_def is_dir_node_def split: if_splits option.splits)
  have l: "subtree_loop (ns_nodes ns) root = Inr f"
    using assms by (auto simp: subtree_def split: if_splits)
  show f: "fset f = below (ns_nodes ns) root" by (rule subtree_loop_below [OF l])
  have "\<forall>p i. edge (ns_nodes ns) p i \<longrightarrow> i |\<in>| f \<longrightarrow> i \<noteq> root \<longrightarrow> p |\<in>| f"
    using assms l by (subst external_links [symmetric, where err = "denied ''subtree has an external hardlink''"])
      (auto simp: subtree_def for_each_eq_Inr split: if_splits)
  then show "sealed (ns_nodes ns) root" unfolding sealed_def f [symmetric] by blast
qed

lemma subtree_complete:
  assumes "edges_known (ns_nodes ns)" "is_dir_node (ns_nodes ns) root" "sealed (ns_nodes ns) root"
  shows "\<exists>f. subtree ns root = Inr f"
proof -
  obtain f where l: "subtree_loop (ns_nodes ns) root = Inr f"
    using worklist_total [of "fmmap subtree_children (ns_nodes ns)" "[root]" "{||}"] assms(1,2)
    unfolding leads_to_edge
    by (auto simp: subtree_loop_def edges_known_def is_dir_node_def fmlookup_dom_iff split: option.splits)
  have "\<forall>p i. edge (ns_nodes ns) p i \<longrightarrow> i |\<in>| f \<longrightarrow> i \<noteq> root \<longrightarrow> p |\<in>| f"
    using assms(3) subtree_loop_below [OF l] by (auto simp: sealed_def)
  then have "for_each (\<lambda>(parent, node).
          if parent |\<in>| f then Inr ()
          else (case nm_data node of
                  ND_Directory entries \<Rightarrow>
                    guard_err (list_ex (\<lambda>e. dn_inode e \<noteq> root \<and> dn_inode e |\<in>| f) entries)
                      (denied ''subtree has an external hardlink'')
                | _ \<Rightarrow> Inr ()))
          (sorted_list_of_fmap (ns_nodes ns)) = Inr ()"
    unfolding for_each_eq_Inr external_links by blast
  then show ?thesis using assms(2) l by (auto simp: subtree_def is_dir_node_def split: option.splits)
qed

text \<open>Linked inodes have links, so an orphan is in no subtree.\<close>

lemma edge_counts: "edge nodes p i \<Longrightarrow> 0 < ref_count nodes i"
proof -
  assume "edge nodes p i"
  then obtain e where e: "e \<in> set (entries_of nodes p)" "dn_inode e = i" by (auto simp: edge_def)
  then have "0 < length (filter (\<lambda>e. dn_inode e = i) (entries_of nodes p))"
    by (auto simp: filter_empty_conv)
  also have "\<dots> \<le> ref_count nodes i"
    unfolding ref_count_def by (rule member_le_sum) (use entry_parent_in_dom [OF e(1)] in auto)
  finally show ?thesis .
qed

definition orphan_node :: "namespace \<Rightarrow> nat \<Rightarrow> bool" where
  "orphan_node ns i = (case fmlookup (ns_nodes ns) i of
     None \<Rightarrow> False | Some n \<Rightarrow> st_nlink (nm_stats n) = 0 \<and> \<not> is_dir_data (nm_data n))"

lemma below_not_orphan:
  assumes wf: "wf_namespace ns" and d: "is_dir_node (ns_nodes ns) root" and i: "i \<in> below (ns_nodes ns) root"
  shows "\<not> orphan_node ns i"
proof (cases "is_dir_node (ns_nodes ns) i")
  case False
  then obtain p where "edge (ns_nodes ns) p i" using below_parent [OF i] d by auto
  then have r: "0 < ref_count (ns_nodes ns) i" by (rule edge_counts)
  show ?thesis
  proof (cases "fmlookup (ns_nodes ns) i")
    case (Some n)
    then have "links_ok ns i n" using wf by (simp add: wf_namespace_def)
    then show ?thesis using Some r by (auto simp: orphan_node_def links_ok_def split: if_splits)
  qed (simp add: orphan_node_def)
qed (auto simp: is_dir_node_def orphan_node_def split: option.splits)

text \<open>Subtrees of a well-formed namespace are finite.\<close>

lemma below_finite:
  assumes "edges_known (ns_nodes ns)"
  shows "finite (below (ns_nodes ns) root)"
proof (rule finite_subset)
  show "below (ns_nodes ns) root \<subseteq> insert root (fset (fmdom (ns_nodes ns)))"
    using assms below_parent by (fastforce simp: edges_known_def)
qed simp

section \<open>What validation decides\<close>

definition token_ok :: "nat \<Rightarrow> grant_token \<Rightarrow> bool" where
  "token_ok next_fence t \<longleftrightarrow> gt_owner t \<noteq> [] \<and> 0 < gt_root t \<and> 0 < gt_fence t \<and> gt_fence t < next_fence"

definition identity :: "grant_token \<Rightarrow> nat \<times> string" where
  "identity t = (gt_root t, gt_owner t)"

lemma check_tokens_iff:
  "(\<exists>r. try_fold (check_token nf) (F, I) ts = Inr r) \<longleftrightarrow>
     (\<forall>t \<in> set ts. token_ok nf t \<and> gt_fence t |\<notin>| F \<and> identity t |\<notin>| I)
     \<and> distinct (map gt_fence ts) \<and> distinct (map identity ts)"
proof (induction ts arbitrary: F I)
  case (Cons t ts)
  have one: "check_token nf (F, I) t =
     (if token_ok nf t \<and> gt_fence t |\<notin>| F \<and> identity t |\<notin>| I then Inr (finsert (gt_fence t) F, finsert (identity t) I)
      else Inl (denied ''invalid or reused delegation identity''))"
    by (auto simp: check_token_def token_ok_def identity_def)
  show ?case
  proof (cases "token_ok nf t \<and> gt_fence t |\<notin>| F \<and> identity t |\<notin>| I")
    case True
    then have "(\<exists>r. try_fold (check_token nf) (F, I) (t # ts) = Inr r)
        \<longleftrightarrow> (\<exists>r. try_fold (check_token nf) (finsert (gt_fence t) F, finsert (identity t) I) ts = Inr r)"
      by (simp add: one)
    then show ?thesis using True unfolding Cons.IH by (auto simp: image_iff)
  qed (auto simp: one)
qed simp

lemma own_fold_iff:
  "try_fold own_inode owned xs = Inr w \<longleftrightarrow> distinct xs \<and> set xs \<inter> fset owned = {} \<and> fset w = fset owned \<union> set xs"
  by (induction xs arbitrary: owned) (auto simp: own_inode_def fset_inject)

text \<open>What a grant owns: its subtree, and the unlinked inodes its session still uses.\<close>

definition owned_by :: "namespace \<Rightarrow> nat \<Rightarrow> directory_grant \<Rightarrow> nat set" where
  "owned_by ns root g = below (ns_nodes ns) root \<union> fset (dg_orphans g)"

definition grant_ok :: "namespace \<Rightarrow> nat \<Rightarrow> directory_grant \<Rightarrow> bool" where
  "grant_ok ns root g \<longleftrightarrow> gt_root (dg_token g) = root \<and> is_dir_node (ns_nodes ns) root \<and> sealed (ns_nodes ns) root
     \<and> (\<forall>i \<in> fset (dg_orphans g). orphan_node ns i)"

lemma check_grant_iff:
  assumes wf: "wf_namespace ns"
  shows "check_grant ns owned (root, g) = Inr w \<longleftrightarrow>
    grant_ok ns root g \<and> owned_by ns root g \<inter> fset owned = {} \<and> fset w = fset owned \<union> owned_by ns root g"
proof (cases "gt_root (dg_token g) = root \<and> (\<exists>l. subtree ns root = Inr l) \<and> (\<forall>i \<in> fset (dg_orphans g). orphan_node ns i)")
  case False
  have "\<not> grant_ok ns root g"
    using False subtree_complete [OF wf_edges_known [OF wf]] by (auto simp: grant_ok_def)
  moreover have "check_grant ns owned (root, g) \<noteq> Inr w"
    using False by (auto simp: check_grant_def for_each_eq_Inr orphan_node_def)
  ultimately show ?thesis by blast
next
  case True
  then obtain l where l: "subtree ns root = Inr l" by blast
  note sub = subtree_sound [OF l]
  have ok: "grant_ok ns root g" using True sub by (simp add: grant_ok_def)
  have dis: "below (ns_nodes ns) root \<inter> fset (dg_orphans g) = {}"
    using below_not_orphan [OF wf sub(1)] True by blast
  have "check_grant ns owned (root, g) = Inr w \<longleftrightarrow>
      try_fold own_inode owned (sorted_list_of_fset l @ sorted_list_of_fset (dg_orphans g)) = Inr w"
    using True l by (auto simp: check_grant_def for_each_eq_Inr orphan_node_def)
  also have "\<dots> \<longleftrightarrow> owned_by ns root g \<inter> fset owned = {} \<and> fset w = fset owned \<union> owned_by ns root g"
    using dis unfolding own_fold_iff owned_by_def by (auto simp: distinct_sorted_list_of_fset sub(2))
  finally show ?thesis using ok by simp
qed

lemma check_grants_iff:
  assumes wf: "wf_namespace ns"
  shows "(\<exists>w. try_fold (check_grant ns) owned kgs = Inr w) \<longleftrightarrow>
    (\<forall>kg \<in> set kgs. grant_ok ns (fst kg) (snd kg) \<and> owned_by ns (fst kg) (snd kg) \<inter> fset owned = {})
    \<and> sorted_wrt (\<lambda>a b. owned_by ns (fst a) (snd a) \<inter> owned_by ns (fst b) (snd b) = {}) kgs"
proof (induction kgs arbitrary: owned)
  case (Cons kg kgs)
  obtain r g where kg: "kg = (r, g)" by fastforce
  show ?case
  proof (cases "grant_ok ns r g \<and> owned_by ns r g \<inter> fset owned = {}")
    case False
    then have "check_grant ns owned kg \<noteq> Inr w" for w unfolding kg check_grant_iff [OF wf] by blast
    then show ?thesis using False kg by auto
  next
    case True
    have "finite (owned_by ns r g)" using below_finite [OF wf_edges_known [OF wf]] by (simp add: owned_by_def)
    then obtain w where w: "fset w = fset owned \<union> owned_by ns r g" by (metis finite_Un finite_fset fset_to_fset fset_cases mem_Collect_eq)
    then have c: "check_grant ns owned kg = Inr w" using check_grant_iff [OF wf] True kg by simp
    show ?thesis using True kg unfolding try_fold.simps c and_then_simps Cons.IH w by auto
  qed
qed simp

text \<open>All tokens ever given out that are held or retired.\<close>

definition token_set :: "delegation_state \<Rightarrow> grant_token set" where
  "token_set st = fset (dl_retired st) \<union> {dg_token g |g r. fmlookup (dl_grants st) r = Some g}"

definition delegation_ok :: "delegation_state \<Rightarrow> namespace \<Rightarrow> bool" where
  "delegation_ok st ns \<longleftrightarrow>
     namespace_validate ns = Inr () \<and> is_ok (backing_from_bytes (dl_backing st)) \<and> 0 < dl_next_fence st
     \<and> identity_count st \<le> MAX_DELEGATION_IDENTITIES
     \<and> (\<forall>t \<in> token_set st. token_ok (dl_next_fence st) t)
     \<and> inj_on gt_fence (token_set st) \<and> inj_on identity (token_set st)
     \<and> (\<forall>r g. fmlookup (dl_grants st) r = Some g \<longrightarrow> grant_ok ns r g \<and> dg_token g |\<notin>| dl_retired st)
     \<and> (\<forall>r g q h. fmlookup (dl_grants st) r = Some g \<longrightarrow> fmlookup (dl_grants st) q = Some h \<longrightarrow> r \<noteq> q
          \<longrightarrow> owned_by ns r g \<inter> owned_by ns q h = {})"

lemma set_all_tokens: "set (all_tokens st) = token_set st"
proof -
  have "t \<in> dg_token ` snd ` set (sorted_list_of_fmap (dl_grants st)) \<longleftrightarrow> (\<exists>r g. fmlookup (dl_grants st) r = Some g \<and> t = dg_token g)" for t
    using ex_sorted_fmap [of "dl_grants st" "\<lambda>kg. t = dg_token (snd kg)"] by auto
  then have "dg_token ` snd ` set (sorted_list_of_fmap (dl_grants st)) = {dg_token g |g r. fmlookup (dl_grants st) r = Some g}" by blast
  then show ?thesis by (simp add: all_tokens_def token_set_def image_comp comp_def)
qed

lemma distinct_tokens:
  assumes "\<And>r g. fmlookup (dl_grants st) r = Some g \<Longrightarrow> gt_root (dg_token g) = r"
  shows "distinct (all_tokens st) \<longleftrightarrow> (\<forall>r g. fmlookup (dl_grants st) r = Some g \<longrightarrow> dg_token g |\<notin>| dl_retired st)"
proof -
  let ?l = "sorted_list_of_fmap (dl_grants st)"
  have "map gt_root (map (dg_token \<circ> snd) ?l) = map fst ?l"
    using assms by (auto simp: set_sorted_fmap)
  then have d: "distinct (map (dg_token \<circ> snd) ?l)"
    using distinct_keys_sorted_fmap [of "dl_grants st"] by (metis distinct_map)
  have "distinct (all_tokens st) \<longleftrightarrow> (\<forall>kg \<in> set ?l. dg_token (snd kg) |\<notin>| dl_retired st)"
    using d by (auto simp: all_tokens_def distinct_sorted_list_of_fset)
  then show ?thesis unfolding all_sorted_fmap by simp
qed

lemma sorted_wrt_distinct:
  assumes "distinct (map fst xs)" "\<And>a b. R a b \<Longrightarrow> R b a"
  shows "sorted_wrt R xs \<longleftrightarrow> (\<forall>a \<in> set xs. \<forall>b \<in> set xs. fst a \<noteq> fst b \<longrightarrow> R a b)"
  using assms by (induction xs) (auto simp: image_iff)

lemma delegation_validate_decides: "delegation_validate st ns = Inr () \<longleftrightarrow> delegation_ok st ns"
proof (cases "namespace_validate ns = Inr ()")
  case True
  then have wf: "wf_namespace ns" by (rule namespace_validate_sound)
  let ?l = "sorted_list_of_fmap (dl_grants st)"
  have t: "(\<exists>r. try_fold (check_token (dl_next_fence st)) ({||}, {||}) (all_tokens st) = Inr r) \<longleftrightarrow>
      (\<forall>t \<in> token_set st. token_ok (dl_next_fence st) t) \<and> distinct (all_tokens st)
      \<and> inj_on gt_fence (token_set st) \<and> inj_on identity (token_set st)"
    unfolding check_tokens_iff set_all_tokens distinct_map by auto
  have "(\<exists>w. try_fold (check_grant ns) {||} ?l = Inr w) \<longleftrightarrow>
      (\<forall>kg \<in> set ?l. grant_ok ns (fst kg) (snd kg))
      \<and> (\<forall>a \<in> set ?l. \<forall>b \<in> set ?l. fst a \<noteq> fst b \<longrightarrow> owned_by ns (fst a) (snd a) \<inter> owned_by ns (fst b) (snd b) = {})"
    unfolding check_grants_iff [OF wf] by (subst sorted_wrt_distinct [OF distinct_keys_sorted_fmap]) auto
  then have g: "(\<exists>w. try_fold (check_grant ns) {||} ?l = Inr w) \<longleftrightarrow>
      (\<forall>r g. fmlookup (dl_grants st) r = Some g \<longrightarrow> grant_ok ns r g)
      \<and> (\<forall>r g q h. fmlookup (dl_grants st) r = Some g \<longrightarrow> fmlookup (dl_grants st) q = Some h \<longrightarrow> r \<noteq> q
          \<longrightarrow> owned_by ns r g \<inter> owned_by ns q h = {})"
    unfolding all_sorted_fmap by auto
  have d: "distinct (all_tokens st) \<longleftrightarrow> (\<forall>r g. fmlookup (dl_grants st) r = Some g \<longrightarrow> dg_token g |\<notin>| dl_retired st)"
    if "\<forall>r g. fmlookup (dl_grants st) r = Some g \<longrightarrow> grant_ok ns r g"
    using distinct_tokens that by (simp add: grant_ok_def)
  have "delegation_validate st ns = Inr () \<longleftrightarrow> is_ok (backing_from_bytes (dl_backing st)) \<and> 0 < dl_next_fence st
      \<and> identity_count st \<le> MAX_DELEGATION_IDENTITIES
      \<and> (\<exists>r. try_fold (check_token (dl_next_fence st)) ({||}, {||}) (all_tokens st) = Inr r)
      \<and> (\<exists>w. try_fold (check_grant ns) {||} ?l = Inr w)"
    using True by (auto simp: delegation_validate_def is_ok_iff)
  then show ?thesis unfolding t g delegation_ok_def using True d by blast
qed (auto simp: delegation_validate_def delegation_ok_def)

section \<open>Operations keep the state valid\<close>

lemma delegation_okD:
  assumes "delegation_ok st ns"
  shows "wf_namespace ns" "namespace_validate ns = Inr ()"
    "t \<in> token_set st \<Longrightarrow> token_ok (dl_next_fence st) t"
    "fmlookup (dl_grants st) r = Some g \<Longrightarrow> grant_ok ns r g"
    "fmlookup (dl_grants st) r = Some g \<Longrightarrow> dg_token g |\<notin>| dl_retired st"
    "fmlookup (dl_grants st) r = Some g \<Longrightarrow> fmlookup (dl_grants st) q = Some h \<Longrightarrow> r \<noteq> q
      \<Longrightarrow> owned_by ns r g \<inter> owned_by ns q h = {}"
    "inj_on gt_fence (token_set st)" "inj_on identity (token_set st)"
  using assms namespace_validate_sound unfolding delegation_ok_def by blast+

lemma new_validates:
  assumes "namespace_validate ns = Inr ()" "is_ok (backing_from_bytes backing)"
  shows "delegation_ok (delegation_new backing) ns"
  using assms by (simp add: delegation_ok_def delegation_new_def identity_count_def token_set_def MAX_DELEGATION_IDENTITIES_def
      fcard.rep_eq)

lemma upd_free: "fmlookup m k = None \<Longrightarrow> fmlookup (fmupd k v m) j = Some w \<longleftrightarrow> j = k \<and> w = v \<or> fmlookup m j = Some w"
  by auto

lemma token_set_add:
  "fmlookup (dl_grants st) root = None \<Longrightarrow>
   token_set (st\<lparr>dl_grants := fmupd root g (dl_grants st), dl_next_fence := k\<rparr>) = insert (dg_token g) (token_set st)"
  by (auto simp: token_set_def upd_free simp del: fmupd_lookup)

lemma checkout_fresh:
  assumes ok: "delegation_ok st ns" and free: "fmlookup (dl_grants st) root = None" and owner: "owner \<noteq> []"
    and unused: "\<And>t. t |\<in>| dl_retired st \<Longrightarrow> identity t \<noteq> (root, owner)"
    and room: "identity_count st < MAX_DELEGATION_IDENTITIES"
    and c: "subtree ns root = Inr claimed"
    and apart: "\<And>r g. fmlookup (dl_grants st) r = Some g \<Longrightarrow> below (ns_nodes ns) root \<inter> below (ns_nodes ns) r = {}"
    and g: "g = \<lparr>dg_token = GrantToken root owner (dl_next_fence st), dg_orphans = {||}\<rparr>"
  shows "delegation_ok (st\<lparr>dl_grants := fmupd root g (dl_grants st), dl_next_fence := dl_next_fence st + 1\<rparr>) ns"
    (is "delegation_ok ?st ns")
proof -
  note okD = delegation_okD [OF ok]
  have nz: "0 < root"
    using subtree_sound(1) [OF c] okD(1) by (auto simp: wf_namespace_def is_dir_node_def split: option.splits)
  have below_nf: "gt_fence t < dl_next_fence st" if "t \<in> token_set st" for t
    using okD(3) [OF that] by (simp add: token_ok_def)
  have nf: "0 < dl_next_fence st" using ok by (simp add: delegation_ok_def)
  have new: "identity t \<noteq> (root, owner)" if "t \<in> token_set st" for t
    using that unused free okD(4) by (auto simp: token_set_def identity_def grant_ok_def)
  have ts: "token_set ?st = insert (dg_token g) (token_set st)" by (rule token_set_add [OF free])
  have gok: "grant_ok ns root g" using subtree_sound [OF c] g by (simp add: grant_ok_def)
  have own: "owned_by ns root g \<inter> owned_by ns r h = {}" if "fmlookup (dl_grants st) r = Some h" for r h
    using apart [OF that] below_not_orphan [OF okD(1) subtree_sound(1) [OF c]] okD(4) [OF that] g
    by (auto simp: owned_by_def grant_ok_def)
  have "token_ok (dl_next_fence st + 1) t" if "t \<in> token_set ?st" for t
  proof (cases "t = dg_token g")
    case False
    then have "t \<in> token_set st" using that unfolding ts by simp
    then show ?thesis using okD(3) [of t] by (simp add: token_ok_def)
  qed (use owner nz nf g in \<open>simp add: token_ok_def\<close>)
  moreover have "inj_on gt_fence (token_set ?st)" "inj_on identity (token_set ?st)"
  proof -
    have "gt_fence (dg_token g) \<notin> gt_fence ` token_set st" using below_nf g by fastforce
    then show "inj_on gt_fence (token_set ?st)" using okD(7) unfolding ts by (auto simp: inj_on_insert)
    have "identity (dg_token g) \<notin> identity ` token_set st" using new g by (force simp: identity_def)
    then show "inj_on identity (token_set ?st)" using okD(8) unfolding ts by (auto simp: inj_on_insert)
  qed
  moreover have "dg_token g |\<notin>| dl_retired st"
    using below_nf [of "dg_token g"] g by (auto simp: token_set_def)
  moreover have "identity_count ?st \<le> MAX_DELEGATION_IDENTITIES"
    using room free by (simp add: identity_count_def fcard_finsert_if fmlookup_dom_iff)
  ultimately show ?thesis
    using ok okD gok own unfolding delegation_ok_def by (auto simp: Int_commute split: if_splits)
qed

lemma checkout_ok:
  assumes run: "checkout st ns root owner = Inr (g, st')"
  shows "delegation_ok st' ns"
proof -
  have ok: "delegation_ok st ns" using run by (auto simp: checkout_def delegation_validate_decides)
  show ?thesis
  proof (cases "fmlookup (dl_grants st) root")
    case (Some h)
    then show ?thesis using run ok by (auto simp: checkout_def split: if_splits)
  next
    case None
    have r: "owner \<noteq> []" "\<not> list_ex (\<lambda>t. gt_root t = root \<and> gt_owner t = owner) (sorted_list_of_fset (dl_retired st))"
      "identity_count st < MAX_DELEGATION_IDENTITIES"
      using run None by (auto simp: checkout_def split: if_splits)
    obtain claimed where c: "subtree ns root = Inr claimed"
      and others: "\<forall>kg \<in> set (sorted_list_of_fmap (dl_grants st)). \<exists>other. subtree ns (gt_root (dg_token (snd kg))) = Inr other \<and> claimed |\<inter>| other = {||}"
      and g: "g = \<lparr>dg_token = GrantToken root owner (dl_next_fence st), dg_orphans = {||}\<rparr>"
      and st': "st' = st\<lparr>dl_grants := fmupd root g (dl_grants st), dl_next_fence := dl_next_fence st + 1\<rparr>"
      using run None by (fastforce simp: checkout_def Let_def for_each_eq_Inr checked_add_def split: if_splits)
    have apart: "below (ns_nodes ns) root \<inter> below (ns_nodes ns) q = {}" if q: "fmlookup (dl_grants st) q = Some h" for q h
    proof -
      obtain other where o: "subtree ns (gt_root (dg_token h)) = Inr other" "claimed |\<inter>| other = {||}"
        using others [unfolded all_sorted_fmap] q by auto
      have "gt_root (dg_token h) = q" using delegation_okD(4) [OF ok q] by (simp add: grant_ok_def)
      then show ?thesis
        using o subtree_sound(2) [OF c] subtree_sound(2) [OF o(1)] by (metis bot_fset.rep_eq inf_fset.rep_eq)
    qed
    show ?thesis
      unfolding st'
      by (rule checkout_fresh [OF ok None r(1) _ r(3) c apart g]) (use r(2) in \<open>auto simp: list_ex_iff identity_def\<close>)
  qed
qed

lemma retire_tokens:
  assumes "fmlookup (dl_grants st) root = Some g" "\<And>r h. fmlookup (dl_grants st) r = Some h \<Longrightarrow> gt_root (dg_token h) = r"
    and "dg_token g |\<notin>| dl_retired st"
    and st': "st' = st\<lparr>dl_grants := fmdrop root (dl_grants st), dl_retired := finsert (dg_token g) (dl_retired st)\<rparr>"
  shows "token_set st' = token_set st" "identity_count st' = identity_count st"
proof -
  show "token_set st' = token_set st"
    using assms(1) unfolding st' by (fastforce simp: token_set_def split: if_splits)
  have "0 < fcard (fmdom (dl_grants st))" using assms(1) fmdomI by (metis fcard_0_eq fempty_iff gr0I)
  then show "identity_count st' = identity_count st"
    using assms(1,3) unfolding st' by (simp add: identity_count_def fcard_finsert_if fmdomI)
qed

text \<open>A grant is retired, with a namespace in which the other grants still own what they owned.\<close>

lemma retire_ok:
  assumes ok: "delegation_ok st ns" and g: "fmlookup (dl_grants st) root = Some g"
    and st': "st' = st\<lparr>dl_grants := fmdrop root (dl_grants st), dl_retired := finsert (dg_token g) (dl_retired st)\<rparr>"
    and ns': "namespace_validate ns' = Inr ()"
    and others: "\<And>r h. fmlookup (dl_grants st) r = Some h \<Longrightarrow> r \<noteq> root \<Longrightarrow> grant_ok ns' r h \<and> owned_by ns' r h = owned_by ns r h"
  shows "delegation_ok st' ns'"
proof -
  note okD = delegation_okD [OF ok]
  have roots: "gt_root (dg_token h) = r" if "fmlookup (dl_grants st) r = Some h" for r h
    using okD(4) [OF that] by (simp add: grant_ok_def)
  have ret: "token_set st' = token_set st" "identity_count st' = identity_count st"
    using retire_tokens [OF g _ okD(5) [OF g] st'] roots by blast+
  have left: "fmlookup (dl_grants st') r = Some h \<longleftrightarrow> fmlookup (dl_grants st) r = Some h \<and> r \<noteq> root" for r h
    by (simp add: st')
  have rest: "dl_backing st' = dl_backing st" "dl_next_fence st' = dl_next_fence st" by (simp_all add: st')
  have "dg_token h |\<notin>| dl_retired st'" if h: "fmlookup (dl_grants st) r = Some h" "r \<noteq> root" for r h
  proof -
    have "dg_token h \<noteq> dg_token g" using roots [OF h(1)] roots [OF g] h(2) by auto
    then show ?thesis using okD(5) [OF h(1)] by (simp add: st')
  qed
  then show ?thesis
    using ok ns' others okD(6) unfolding delegation_ok_def ret left rest by (auto simp del: fmlookup_drop)
qed

lemma held_grant_lookup: "held_grant st token = Some g \<Longrightarrow> fmlookup (dl_grants st) (gt_root token) = Some g \<and> dg_token g = token"
  by (auto simp: held_grant_def split: option.splits if_splits)

lemma checkin_ok:
  assumes run: "checkin st token ns = Inr st'"
  shows "delegation_ok st' ns \<and> token |\<in>| dl_retired st' \<and> dl_retired st |\<subseteq>| dl_retired st'"
proof -
  have ok: "delegation_ok st ns" using run by (auto simp: checkin_def delegation_validate_decides)
  show ?thesis
  proof (cases "token |\<in>| dl_retired st")
    case False
    then obtain g where g: "held_grant st token = Some g"
      and st': "st' = st\<lparr>dl_grants := fmdrop (gt_root token) (dl_grants st), dl_retired := finsert token (dl_retired st)\<rparr>"
      using run by (auto simp: checkin_def split: if_splits)
    note g = held_grant_lookup [OF g]
    have "delegation_ok st' ns"
      by (rule retire_ok [OF ok conjunct1 [OF g]]) (use g st' delegation_okD [OF ok] in auto)
    then show ?thesis using st' by auto
  qed (use run ok in \<open>auto simp: checkin_def\<close>)
qed

lemma drop_orphans:
  assumes ok: "grant_ok ns root g" and ns': "ns' = ns\<lparr>ns_nodes := fmfilter (\<lambda>i. i |\<notin>| dg_orphans g) (ns_nodes ns)\<rparr>"
  shows "edge (ns_nodes ns') = edge (ns_nodes ns)" "is_dir_node (ns_nodes ns') = is_dir_node (ns_nodes ns)"
    "i |\<notin>| dg_orphans g \<Longrightarrow> fmlookup (ns_nodes ns') i = fmlookup (ns_nodes ns) i"
proof -
  have orphan: "\<exists>n. fmlookup (ns_nodes ns) i = Some n \<and> \<not> is_dir_data (nm_data n)" if "i |\<in>| dg_orphans g" for i
    using ok that by (auto simp: grant_ok_def orphan_node_def split: option.splits)
  have e: "entries_of (ns_nodes ns') p = entries_of (ns_nodes ns) p" for p
  proof (cases "p |\<in>| dg_orphans g")
    case True
    then obtain n where "fmlookup (ns_nodes ns) p = Some n" "\<not> is_dir_data (nm_data n)" using orphan by blast
    then show ?thesis using True by (simp add: ns' entries_of_def dir_entries_def is_dir_data_def split: node_data.splits)
  qed (simp add: ns' entries_of_def)
  then show "edge (ns_nodes ns') = edge (ns_nodes ns)" by (simp add: edge_def fun_eq_iff)
  show "is_dir_node (ns_nodes ns') = is_dir_node (ns_nodes ns)"
  proof
    fix p show "is_dir_node (ns_nodes ns') p = is_dir_node (ns_nodes ns) p"
      using orphan [of p] unfolding ns' by (cases "p |\<in>| dg_orphans g") (auto simp: is_dir_node_def)
  qed
  show "i |\<notin>| dg_orphans g \<Longrightarrow> fmlookup (ns_nodes ns') i = fmlookup (ns_nodes ns) i" by (simp add: ns')
qed

lemma recover_ok:
  assumes run: "recover st root fence ns = Inr (st', ns')"
  shows "delegation_ok st' ns' \<and> (\<exists>t. t |\<in>| dl_retired st' \<and> gt_root t = root \<and> gt_fence t = fence) \<and> dl_retired st |\<subseteq>| dl_retired st'"
proof -
  have ok: "delegation_ok st ns" using run by (auto simp: recover_def delegation_validate_decides)
  note okD = delegation_okD [OF ok]
  show ?thesis
  proof (cases "list_ex (\<lambda>t. gt_root t = root \<and> gt_fence t = fence) (sorted_list_of_fset (dl_retired st))")
    case True
    then show ?thesis using run ok by (auto simp: recover_def list_ex_iff split: if_splits)
  next
    case False
    then obtain g where g: "fmlookup (dl_grants st) root = Some g" "gt_fence (dg_token g) = fence"
      and ns': "ns' = ns\<lparr>ns_nodes := fmfilter (\<lambda>i. i |\<notin>| dg_orphans g) (ns_nodes ns)\<rparr>" "namespace_validate ns' = Inr ()"
      and st': "st' = st\<lparr>dl_grants := fmdrop root (dl_grants st), dl_retired := finsert (dg_token g) (dl_retired st)\<rparr>"
      using run by (auto simp: recover_def Let_def split: if_splits option.splits)
    note same = drop_orphans [OF okD(4) [OF g(1)] ns'(1)]
    have "grant_ok ns' r h \<and> owned_by ns' r h = owned_by ns r h" if h: "fmlookup (dl_grants st) r = Some h" "r \<noteq> root" for r h
    proof -
      have "fset (dg_orphans h) \<inter> fset (dg_orphans g) = {}" using okD(6) [OF h(1) g(1) h(2)] by (auto simp: owned_by_def)
      then have "orphan_node ns' i = orphan_node ns i" if "i |\<in>| dg_orphans h" for i
        unfolding orphan_node_def by (subst same(3)) (use that in auto)
      then show ?thesis
        using okD(4) [OF h(1)] same(1,2) by (simp add: grant_ok_def owned_by_def sealed_def below_def)
    qed
    from retire_ok [OF ok g(1) st' ns'(2) this] show ?thesis
      using g st' okD(4) [OF g(1)] by (auto simp: grant_ok_def)
  qed
qed

lemma publish_ok:
  assumes run: "authorize_publish st old new token = Inr st'"
  shows "delegation_ok st' new \<and> dl_retired st' = dl_retired st"
  using run by (auto simp: authorize_publish_def Let_def delegation_validate_decides split: if_splits)

section \<open>Runs\<close>

text \<open>The stored state and namespace under the operations, which commit both together.\<close>

inductive deleg_step :: "delegation_state \<times> namespace \<Rightarrow> delegation_state \<times> namespace \<Rightarrow> bool" where
  step_checkout: "checkout st ns root owner = Inr (g, st') \<Longrightarrow> deleg_step (st, ns) (st', ns)"
| step_publish: "authorize_publish st ns new token = Inr st' \<Longrightarrow> deleg_step (st, ns) (st', new)"
| step_checkin: "checkin st token ns = Inr st' \<Longrightarrow> deleg_step (st, ns) (st', ns)"
| step_recover: "recover st root fence ns = Inr (st', ns') \<Longrightarrow> deleg_step (st, ns) (st', ns')"

inductive_cases deleg_stepE: "deleg_step (st, ns) w"

lemma checkout_retired: "checkout st ns root owner = Inr (g, st') \<Longrightarrow> dl_retired st' = dl_retired st"
  by (auto simp: checkout_def Let_def split: option.splits if_splits)

lemma deleg_step_ok:
  assumes "deleg_step w w'"
  shows "delegation_ok (fst w') (snd w') \<and> dl_retired (fst w) |\<subseteq>| dl_retired (fst w')"
  using assms
proof cases
  case step_checkout
  then show ?thesis using checkout_ok checkout_retired by auto
next
  case step_publish
  then show ?thesis using publish_ok by auto
next
  case step_checkin
  then show ?thesis using checkin_ok by auto
next
  case step_recover
  then show ?thesis using recover_ok by auto
qed

lemma deleg_steps_ok:
  "deleg_step\<^sup>*\<^sup>* w w' \<Longrightarrow> delegation_ok (fst w) (snd w) \<Longrightarrow> delegation_ok (fst w') (snd w') \<and> dl_retired (fst w) |\<subseteq>| dl_retired (fst w')"
  by (induction rule: rtranclp_induct) (auto dest: deleg_step_ok)


section \<open>Publications stay inside the grant\<close>

lemma below_unchanged:
  assumes same: "\<And>p. p \<in> below (ns_nodes old) r \<Longrightarrow> fmlookup (ns_nodes new) p = fmlookup (ns_nodes old) p"
  shows "below (ns_nodes new) r = below (ns_nodes old) r"
proof
  have e: "edge (ns_nodes new) p i = edge (ns_nodes old) p i" if "p \<in> below (ns_nodes old) r" for p i
    using same [OF that] by (simp add: edge_iff)
  show "below (ns_nodes new) r \<subseteq> below (ns_nodes old) r"
    by (rule below_least) (auto simp: e intro: below_edge)
  have "below (ns_nodes old) r \<subseteq> below (ns_nodes new) r \<inter> below (ns_nodes old) r"
  proof (rule below_least)
    fix p i assume p: "p \<in> below (ns_nodes new) r \<inter> below (ns_nodes old) r" and o: "edge (ns_nodes old) p i"
    then have "edge (ns_nodes new) p i" by (simp add: e)
    with p o show "i \<in> below (ns_nodes new) r \<inter> below (ns_nodes old) r" using below_edge by blast
  qed simp
  then show "below (ns_nodes old) r \<subseteq> below (ns_nodes new) r" by blast
qed

lemma owned_exist:
  assumes wf: "wf_namespace ns" and g: "grant_ok ns r g" and i: "i \<in> owned_by ns r g"
  shows "i |\<in>| fmdom (ns_nodes ns)"
proof (cases "i |\<in>| dg_orphans g")
  case True
  then show ?thesis using g by (auto simp: grant_ok_def orphan_node_def fmlookup_dom_iff split: option.splits)
next
  case False
  then have "i \<in> below (ns_nodes ns) r" using i by (simp add: owned_by_def)
  then show ?thesis
    using below_parent [of i "ns_nodes ns" r] wf_edges_known [OF wf] g
    by (auto simp: edges_known_def grant_ok_def is_dir_node_def fmlookup_dom_iff split: option.splits)
qed

lemma publish_changes_owned:
  assumes run: "authorize_publish st old new token = Inr st'"
    and i: "i |\<in>| fmdom (ns_nodes old)" "fmlookup (ns_nodes new) i \<noteq> fmlookup (ns_nodes old) i"
  shows "\<exists>g. held_grant st token = Some g \<and> i \<in> owned_by old (gt_root token) g"
proof -
  obtain g before after where g: "held_grant st token = Some g" and b: "subtree old (gt_root token) = Inr before"
    and c: "\<forall>i \<in> set (namespace_keys old @ namespace_keys new). check_change old new (before |\<union>| dg_orphans g) after i = Inr ()"
    using run by (auto simp: authorize_publish_def Let_def for_each_eq_Inr split: if_splits)
  have "i \<in> set (namespace_keys old @ namespace_keys new)" using i(1) by (simp add: namespace_keys_def)
  then have ci: "check_change old new (before |\<union>| dg_orphans g) after i = Inr ()" using c by blast
  obtain n where n: "fmlookup (ns_nodes old) i = Some n" using i(1) by (auto simp: fmlookup_dom_iff)
  have "i |\<in>| before |\<union>| dg_orphans g"
  proof (rule ccontr)
    assume "i |\<notin>| before |\<union>| dg_orphans g"
    then show False using ci n i(2) [symmetric] unfolding check_change_def by simp
  qed
  then show ?thesis using g subtree_sound(2) [OF b] by (auto simp: owned_by_def)
qed

section \<open>Properties\<close>

text \<open>Two directories held by two sessions, and a file that the first session adds to its own.\<close>

definition shared_old :: namespace where
  "shared_old = sample_namespace\<lparr>ns_nodes := fmap_of_list
     [(1, sample_dir 1 4 [\<lparr>dn_name = ''d'', dn_inode = 2\<rparr>, \<lparr>dn_name = ''e'', dn_inode = 3\<rparr>]),
      (2, sample_dir 2 2 []), (3, sample_dir 3 2 [\<lparr>dn_name = ''f'', dn_inode = 4\<rparr>]), (4, sample_file 4 1 [] 0)]\<rparr>"

definition shared_new :: namespace where
  "shared_new = shared_old\<lparr>ns_next_inode := 6, ns_nodes := fmap_of_list
     [(1, sample_dir 1 4 [\<lparr>dn_name = ''d'', dn_inode = 2\<rparr>, \<lparr>dn_name = ''e'', dn_inode = 3\<rparr>]),
      (2, sample_dir 2 2 [\<lparr>dn_name = ''g'', dn_inode = 5\<rparr>]), (3, sample_dir 3 2 [\<lparr>dn_name = ''f'', dn_inode = 4\<rparr>]),
      (4, sample_file 4 1 [] 0), (5, sample_file 5 1 [] 0)]\<rparr>"

definition shared_state :: delegation_state where
  "shared_state = \<lparr>dl_backing = replicate 16 1, dl_next_fence = 4,
     dl_grants = fmap_of_list
       [(2, \<lparr>dg_token = GrantToken 2 ''a'' 1, dg_orphans = {||}\<rparr>), (3, \<lparr>dg_token = GrantToken 3 ''b'' 3, dg_orphans = {||}\<rparr>)],
     dl_retired = {|GrantToken 3 ''a'' 2|}\<rparr>"

text \<open>
  Validation of a delegation state decides exactly that the namespace is valid, that tokens are well formed
  with distinct fences and identities, and that the grants own disjoint parts of the namespace: each
  its whole subtree, into which nothing else links, and its unlinked inodes.
\<close>

theorem delegation_validate_iff: "delegation_validate st ns = Inr () \<longleftrightarrow> delegation_ok st ns"
  by (rule delegation_validate_decides)

text \<open>
  C14: Every state that checkouts, publications, checkins and recoveries reach from a new delegation
  state over a valid namespace passes validation, and no two grants own an inode in common.
\<close>

theorem delegation_reachable_valid:
  assumes "namespace_validate ns = Inr ()" "is_ok (backing_from_bytes backing)"
    and "deleg_step\<^sup>*\<^sup>* (delegation_new backing, ns) (st, ns')"
  shows "delegation_validate st ns' = Inr () \<and>
    (\<forall>r g q h. fmlookup (dl_grants st) r = Some g \<longrightarrow> fmlookup (dl_grants st) q = Some h \<longrightarrow> r \<noteq> q
       \<longrightarrow> owned_by ns' r g \<inter> owned_by ns' q h = {})"
proof -
  have "delegation_ok st ns'" using deleg_steps_ok [OF assms(3)] new_validates [OF assms(1,2)] by simp
  then show ?thesis using delegation_okD(6) by (simp add: delegation_validate_decides)
qed

theorem delegation_reachable_valid_witness:
  "\<exists>st g. checkout (delegation_new (replicate 16 1)) shared_old 2 ''a'' = Inr (g, st) \<and> delegation_validate st shared_old = Inr ()"
proof -
  have v: "namespace_validate shared_old = Inr ()" "is_ok (backing_from_bytes (replicate 16 1))" by code_simp+
  have "is_ok (checkout (delegation_new (replicate 16 1)) shared_old 2 ''a'')" by code_simp
  then obtain g st where c: "checkout (delegation_new (replicate 16 1)) shared_old 2 ''a'' = Inr (g, st)"
    by (auto simp: is_ok_iff)
  with delegation_reachable_valid [OF v r_into_rtranclp [of deleg_step, OF step_checkout [OF c]]] show ?thesis by blast
qed

text \<open>
  C5: A publication under a directory grant changes no inode outside the grant. Everything that another
  grant owns is as before, and the other grants own the same inodes in the new namespace; the
  namespace header and the root are the same and inode numbers are not given out again.
\<close>

theorem delegation_publish_isolated:
  assumes run: "authorize_publish st old new token = Inr st'"
  shows "(\<exists>g. held_grant st token = Some g
      \<and> (\<forall>i. i |\<in>| fmdom (ns_nodes old) \<longrightarrow> i \<notin> owned_by old (gt_root token) g \<longrightarrow> fmlookup (ns_nodes new) i = fmlookup (ns_nodes old) i))
    \<and> (\<forall>r h. fmlookup (dl_grants st) r = Some h \<longrightarrow> r \<noteq> gt_root token \<longrightarrow>
        fmlookup (dl_grants st') r = Some h \<and> owned_by new r h = owned_by old r h
        \<and> (\<forall>i \<in> owned_by old r h. fmlookup (ns_nodes new) i = fmlookup (ns_nodes old) i))
    \<and> ns_root new = ns_root old \<and> ns_next_inode old \<le> ns_next_inode new"
proof -
  have ok: "delegation_ok st old" and hd: "\<not> header_changed old new"
    using run by (auto simp: authorize_publish_def delegation_validate_decides split: if_splits)
  note okD = delegation_okD [OF ok]
  obtain g where g: "held_grant st token = Some g"
    and st': "\<exists>g'. st' = st\<lparr>dl_grants := fmupd (gt_root token) g' (dl_grants st)\<rparr>"
    using run by (auto simp: authorize_publish_def Let_def split: if_splits)
  have out: "fmlookup (ns_nodes new) i = fmlookup (ns_nodes old) i"
    if "i |\<in>| fmdom (ns_nodes old)" "i \<notin> owned_by old (gt_root token) g" for i
    using publish_changes_owned [OF run that(1)] that(2) g by auto
  have "fmlookup (dl_grants st') r = Some h \<and> owned_by new r h = owned_by old r h
      \<and> (\<forall>i \<in> owned_by old r h. fmlookup (ns_nodes new) i = fmlookup (ns_nodes old) i)"
    if h: "fmlookup (dl_grants st) r = Some h" "r \<noteq> gt_root token" for r h
  proof -
    have same: "fmlookup (ns_nodes new) i = fmlookup (ns_nodes old) i" if "i \<in> owned_by old r h" for i
      using out [OF owned_exist [OF okD(1) okD(4) [OF h(1)] that]] okD(6) [OF h(1) conjunct1 [OF held_grant_lookup [OF g]] h(2)] that
      by blast
    then have "below (ns_nodes new) r = below (ns_nodes old) r" by (intro below_unchanged) (simp add: owned_by_def)
    then show ?thesis using same st' h by (auto simp: owned_by_def)
  qed
  then show ?thesis using g out hd by (auto simp: header_changed_def)
qed

theorem delegation_publish_isolated_witness:
  "\<exists>st'. authorize_publish shared_state shared_old shared_new (GrantToken 2 ''a'' 1) = Inr st' \<and> ns_root shared_new = ns_root shared_old"
proof -
  have "is_ok (authorize_publish shared_state shared_old shared_new (GrantToken 2 ''a'' 1))" by code_simp
  then obtain st' where p: "authorize_publish shared_state shared_old shared_new (GrantToken 2 ''a'' 1) = Inr st'"
    by (auto simp: is_ok_iff)
  with delegation_publish_isolated [OF p] show ?thesis by blast
qed



end
