(* ===== verification/P9_Locks.thy ===== *)
theory P9_Locks
  imports Core_Error Mrs_Decimal Mrs_State "HOL-Library.List_Lexorder" "HOL-Library.Char_ord"
begin

text \<open>
  Model of \<^verbatim>\<open>transports/mount-rs-9p/src/locks.rs\<close>: the table of byte-range locks behind \<^verbatim>\<open>Tlock\<close> and
  \<^verbatim>\<open>Tgetlock\<close>. Numbers that the code only compares (process, file and client identifiers, lock types)
  are natural numbers; ranges are kept in 128 bits by the source, so that the end of the last byte is a
  number, and are natural numbers with the overflow check written out. The order in which the hash map
  of files lists its keys is a parameter.
\<close>

section \<open>Constants and records\<close>

definition P9_LOCK_TYPE_RDLCK :: nat where "P9_LOCK_TYPE_RDLCK = 0"
definition P9_LOCK_TYPE_WRLCK :: nat where "P9_LOCK_TYPE_WRLCK = 1"
definition P9_LOCK_TYPE_UNLCK :: nat where "P9_LOCK_TYPE_UNLCK = 2"
definition P9_LOCK_SUCCESS :: nat where "P9_LOCK_SUCCESS = 0"
definition P9_LOCK_BLOCKED :: nat where "P9_LOCK_BLOCKED = 1"
definition P9_LOCK_ERROR :: nat where "P9_LOCK_ERROR = 2"

lemmas p9_lock_consts = P9_LOCK_TYPE_RDLCK_def P9_LOCK_TYPE_WRLCK_def P9_LOCK_TYPE_UNLCK_def
  P9_LOCK_SUCCESS_def P9_LOCK_BLOCKED_def P9_LOCK_ERROR_def

definition P9_LOCK_EOF_END :: nat where
  "P9_LOCK_EOF_END = 2 ^ 64"

definition DEFAULT_MAX_LOCKS_PER_FILE :: nat where
  "DEFAULT_MAX_LOCKS_PER_FILE = 1024"

record p9_lock_request =
  rq_path :: string
  rq_fid :: nat
  rq_type :: nat
  rq_start :: nat
  rq_length :: nat
  rq_proc_id :: nat
  rq_client_id :: string

record p9_lock_holder =
  ho_type :: nat
  ho_start :: nat
  ho_length :: nat
  ho_proc_id :: nat
  ho_client_id :: string

record p9_lock_record = p9_lock_holder +
  rec_holder :: nat
  rec_fid :: nat

record range_lock =
  lk_start :: nat
  lk_end :: nat
  lk_type :: nat
  lk_owner :: string
  lk_proc_id :: nat
  lk_client_id :: string
  lk_holder :: nat
  lk_fid :: nat

record lock_table =
  lt_files :: "(string, range_lock list) fmap"
  lt_next_client :: nat
  lt_max_locks_per_file :: nat

section \<open>Ranges\<close>

definition einval_with :: "string \<Rightarrow> fs_error" where
  "einval_with m = with_message m (fs_error_new Einval)"

definition owner_key :: "p9_lock_request \<Rightarrow> string" where
  "owner_key rq = u64_to_string (rq_proc_id rq) @ '':'' @ rq_client_id rq"

definition lock_span :: "nat \<Rightarrow> nat \<Rightarrow> (nat \<times> nat) result" where
  "lock_span start len =
     and_then (if len = 0 then Inr P9_LOCK_EOF_END
               else if start + len < 2 ^ 128 then Inr (start + len)
               else Inl (einval_with ''EINVAL: lock range overflows'')) (\<lambda>stop.
     if stop > P9_LOCK_EOF_END then Inl (einval_with ''EINVAL: invalid lock range'') else Inr (start, stop))"

definition overlaps :: "nat \<Rightarrow> nat \<Rightarrow> nat \<Rightarrow> nat \<Rightarrow> bool" where
  "overlaps left_start left_end right_start right_end \<longleftrightarrow> left_start < right_end \<and> right_start < left_end"

definition subtract_one :: "string \<Rightarrow> nat \<Rightarrow> nat \<Rightarrow> range_lock \<Rightarrow> range_lock list" where
  "subtract_one owner start stop l =
     (if lk_owner l \<noteq> owner \<or> \<not> overlaps (lk_start l) (lk_end l) start stop then [l]
      else (if lk_start l < start then [l\<lparr>lk_end := start\<rparr>] else [])
         @ (if lk_end l > stop then [l\<lparr>lk_start := stop\<rparr>] else []))"

definition subtract :: "string \<Rightarrow> nat \<Rightarrow> nat \<Rightarrow> range_lock list \<Rightarrow> range_lock list" where
  "subtract owner start stop locks = concat (map (subtract_one owner start stop) locks)"

definition coalesce_step :: "range_lock list \<Rightarrow> range_lock \<Rightarrow> range_lock list" where
  "coalesce_step merged l =
     (if merged \<noteq> [] \<and> lk_end (last merged) \<ge> lk_start l \<and> lk_type (last merged) = lk_type l
         \<and> lk_owner (last merged) = lk_owner l \<and> lk_holder (last merged) = lk_holder l \<and> lk_fid (last merged) = lk_fid l
      then butlast merged @ [(last merged)\<lparr>lk_end := max (lk_end (last merged)) (lk_end l)\<rparr>]
      else merged @ [l])"

definition coalesce :: "range_lock list \<Rightarrow> range_lock list" where
  "coalesce locks = foldl coalesce_step [] (sort_key lk_start locks)"

definition lock_length :: "range_lock \<Rightarrow> nat" where
  "lock_length l = (if lk_end l = P9_LOCK_EOF_END then 0 else (lk_end l - lk_start l) mod 2 ^ 64)"

definition lock_holder :: "range_lock \<Rightarrow> p9_lock_holder" where
  "lock_holder l =
     \<lparr>ho_type = lk_type l, ho_start = lk_start l mod 2 ^ 64, ho_length = lock_length l,
      ho_proc_id = lk_proc_id l, ho_client_id = lk_client_id l\<rparr>"

definition lock_record :: "range_lock \<Rightarrow> p9_lock_record" where
  "lock_record l =
     \<lparr>ho_type = lk_type l, ho_start = lk_start l mod 2 ^ 64, ho_length = lock_length l,
      ho_proc_id = lk_proc_id l, ho_client_id = lk_client_id l, rec_holder = lk_holder l, rec_fid = lk_fid l\<rparr>"

section \<open>The table\<close>

definition lock_table_new :: "nat \<Rightarrow> lock_table" where
  "lock_table_new max_locks =
     \<lparr>lt_files = fmempty, lt_next_client = 0, lt_max_locks_per_file = max max_locks 1\<rparr>"

definition lock_client :: "lock_table \<Rightarrow> nat \<times> lock_table" where
  "lock_client t =
     (let t' = t\<lparr>lt_next_client := saturating_add (lt_next_client t) 1\<rparr> in (lt_next_client t', t'))"

definition locks_at :: "lock_table \<Rightarrow> string \<Rightarrow> range_lock list" where
  "locks_at t path = (case fmlookup (lt_files t) path of None \<Rightarrow> [] | Some ls \<Rightarrow> ls)"

definition put_locks :: "string \<Rightarrow> range_lock list \<Rightarrow> lock_table \<Rightarrow> lock_table" where
  "put_locks path ls t = t\<lparr>lt_files := fmupd path ls (lt_files t)\<rparr>"

definition drop_path :: "string \<Rightarrow> lock_table \<Rightarrow> lock_table" where
  "drop_path path t = t\<lparr>lt_files := fmdrop path (lt_files t)\<rparr>"

definition lock_table_size :: "lock_table \<Rightarrow> nat" where
  "lock_table_size t = sum_list (map (length \<circ> snd) (sorted_list_of_fmap (lt_files t)))"

definition lock_table_files :: "lock_table \<Rightarrow> nat" where
  "lock_table_files t = fcard (fmdom (lt_files t))"

definition lock_table_at :: "lock_table \<Rightarrow> string \<Rightarrow> p9_lock_record list" where
  "lock_table_at t path = sort_key ho_start (map lock_record (locks_at t path))"

definition lock_table_held :: "nat \<Rightarrow> lock_table \<Rightarrow> nat" where
  "lock_table_held holder t =
     length (filter (\<lambda>l. lk_holder l = holder) (concat (map snd (sorted_list_of_fmap (lt_files t)))))"

text \<open>A granted range that stands in the way of a request.\<close>

definition conflicts :: "p9_lock_request \<Rightarrow> nat \<Rightarrow> nat \<Rightarrow> range_lock \<Rightarrow> bool" where
  "conflicts rq start stop l \<longleftrightarrow>
     overlaps (lk_start l) (lk_end l) start stop \<and> lk_owner l \<noteq> owner_key rq
     \<and> (lk_type l = P9_LOCK_TYPE_WRLCK \<or> rq_type rq = P9_LOCK_TYPE_WRLCK)"

definition invalid_lock_type :: fs_error where
  "invalid_lock_type = einval_with ''EINVAL: invalid lock type''"

definition table_lock :: "nat \<Rightarrow> p9_lock_request \<Rightarrow> (nat, lock_table) op" where
  "table_lock holder rq t =
     (case lock_span (rq_start rq) (rq_length rq) of
        Inl e \<Rightarrow> (Inl e, t)
      | Inr (start, stop) \<Rightarrow>
          let owner = owner_key rq; path = rq_path rq; locks = locks_at t path in
          if rq_type rq = P9_LOCK_TYPE_UNLCK
          then (let left = subtract owner start stop locks in
                (Inr P9_LOCK_SUCCESS, if left = [] then drop_path path t else put_locks path left t))
          else if rq_type rq \<noteq> P9_LOCK_TYPE_RDLCK \<and> rq_type rq \<noteq> P9_LOCK_TYPE_WRLCK
          then (Inl invalid_lock_type, put_locks path locks t)
          else if list_ex (conflicts rq start stop) locks then (Inr P9_LOCK_BLOCKED, put_locks path locks t)
          else if length locks \<ge> lt_max_locks_per_file t then (Inr P9_LOCK_ERROR, put_locks path locks t)
          else (Inr P9_LOCK_SUCCESS,
                put_locks path (coalesce (subtract owner start stop locks @
                  [\<lparr>lk_start = start, lk_end = stop, lk_type = rq_type rq, lk_owner = owner,
                    lk_proc_id = rq_proc_id rq, lk_client_id = rq_client_id rq, lk_holder = holder, lk_fid = rq_fid rq\<rparr>])) t))"

definition table_getlock :: "p9_lock_request \<Rightarrow> lock_table \<Rightarrow> p9_lock_holder option result" where
  "table_getlock rq t =
     and_then (lock_span (rq_start rq) (rq_length rq)) (\<lambda>(start, stop).
     if rq_type rq \<noteq> P9_LOCK_TYPE_RDLCK \<and> rq_type rq \<noteq> P9_LOCK_TYPE_WRLCK \<and> rq_type rq \<noteq> P9_LOCK_TYPE_UNLCK
     then Inl invalid_lock_type
     else Inr (map_option lock_holder
       (List.find (\<lambda>l. conflicts rq start stop l \<and> rq_type rq \<noteq> P9_LOCK_TYPE_UNLCK) (locks_at t (rq_path rq)))))"

definition drop_where :: "(range_lock \<Rightarrow> bool) \<Rightarrow> lock_table \<Rightarrow> lock_table" where
  "drop_where predicate t =
     (let kept = fmmap (filter (\<lambda>l. \<not> predicate l)) (lt_files t)
      in t\<lparr>lt_files := fmfilter (\<lambda>path. fmlookup kept path \<noteq> Some []) kept\<rparr>)"

definition release_fid :: "nat \<Rightarrow> nat \<Rightarrow> lock_table \<Rightarrow> lock_table" where
  "release_fid holder fid = drop_where (\<lambda>l. lk_holder l = holder \<and> lk_fid l = fid)"

definition release_all :: "nat \<Rightarrow> lock_table \<Rightarrow> lock_table" where
  "release_all holder = drop_where (\<lambda>l. lk_holder l = holder)"

definition remap_moves :: "string \<Rightarrow> string \<Rightarrow> bool" where
  "remap_moves src path \<longleftrightarrow> path = src \<or> src = ''/'' \<and> starts_with path ''/'' \<or> starts_with path (src @ ''/'')"

definition remap_one :: "string \<Rightarrow> string \<Rightarrow> lock_table \<Rightarrow> string \<Rightarrow> lock_table" where
  "remap_one src dst t old =
     (case fmlookup (lt_files t) old of
        None \<Rightarrow> t
      | Some locks \<Rightarrow> (let new = dst @ drop (length src) old in
          put_locks new locks (drop_path new (drop_path old t))))"

definition table_remap ::
  "((string, range_lock list) fmap \<Rightarrow> string list) \<Rightarrow> string \<Rightarrow> string \<Rightarrow> lock_table \<Rightarrow> lock_table" where
  "table_remap keys src dst t =
     (if src = dst then t else foldl (remap_one src dst) t (filter (remap_moves src) (keys (lt_files t))))"

definition table_release :: "string \<Rightarrow> lock_table \<Rightarrow> lock_table" where
  "table_release path = drop_path path"

end
