(* ===== verification/P9_Lock_Safety.thy ===== *)
theory P9_Lock_Safety
  imports P9_Locks
begin

text \<open>
  Byte-range locks as a set of granted bytes: each granted byte carries the tag of the range that
  holds it. The operations of the table are exact on these sets, and in every reachable table two owners
  share a byte only for reading.
\<close>

section \<open>Granted bytes\<close>

record lock_tag =
  tag_type :: nat
  tag_owner :: string
  tag_proc_id :: nat
  tag_client_id :: string
  tag_holder :: nat
  tag_fid :: nat

definition tag_of :: "range_lock \<Rightarrow> lock_tag" where
  "tag_of l = \<lparr>tag_type = lk_type l, tag_owner = lk_owner l, tag_proc_id = lk_proc_id l,
     tag_client_id = lk_client_id l, tag_holder = lk_holder l, tag_fid = lk_fid l\<rparr>"

definition granted_by :: "range_lock list \<Rightarrow> (nat \<times> lock_tag) set" where
  "granted_by ls = {(b, g). \<exists>l \<in> set ls. lk_start l \<le> b \<and> b < lk_end l \<and> g = tag_of l}"

abbreviation granted :: "lock_table \<Rightarrow> string \<Rightarrow> (nat \<times> lock_tag) set" where
  "granted t path \<equiv> granted_by (locks_at t path)"

lemma granted_by_simps [simp]:
  "granted_by [] = {}"
  "granted_by (l # ls) = {lk_start l..<lk_end l} \<times> {tag_of l} \<union> granted_by ls"
  "granted_by (ls @ ms) = granted_by ls \<union> granted_by ms"
  by (auto simp: granted_by_def)

lemma tag_of_range [simp]: "tag_of (l\<lparr>lk_start := a\<rparr>) = tag_of l" "tag_of (l\<lparr>lk_end := a\<rparr>) = tag_of l"
  by (simp_all add: tag_of_def)

lemma granted_by_sort [simp]: "granted_by (sort_key f ls) = granted_by ls"
  by (simp add: granted_by_def)

lemma granted_by_filter:
  "(\<And>l. P l \<longleftrightarrow> Q (tag_of l)) \<Longrightarrow> granted_by (filter P ls) = {(b, g) \<in> granted_by ls. Q g}"
  by (auto simp: granted_by_def)

lemma granted_by_subtract_one:
  assumes "a \<le> c"
  shows "(b, g) \<in> granted_by (subtract_one o1 a c l) \<longleftrightarrow>
    lk_start l \<le> b \<and> b < lk_end l \<and> g = tag_of l \<and> \<not> (lk_owner l = o1 \<and> a \<le> b \<and> b < c)"
proof (cases "lk_owner l = o1 \<and> overlaps (lk_start l) (lk_end l) a c")
  case True
  then show ?thesis using assms unfolding subtract_one_def overlaps_def by force
next
  case False
  then show ?thesis unfolding subtract_one_def overlaps_def by force
qed

lemma granted_by_subtract:
  assumes "a \<le> c"
  shows "(b, g) \<in> granted_by (subtract o1 a c ls) \<longleftrightarrow>
    (b, g) \<in> granted_by ls \<and> \<not> (tag_owner g = o1 \<and> a \<le> b \<and> b < c)"
proof -
  have "(b, g) \<in> granted_by (subtract o1 a c ls) \<longleftrightarrow> (\<exists>l \<in> set ls. (b, g) \<in> granted_by (subtract_one o1 a c l))"
    by (auto simp: granted_by_def subtract_def)
  also have "\<dots> \<longleftrightarrow> (\<exists>l \<in> set ls. (lk_start l \<le> b \<and> b < lk_end l \<and> g = tag_of l) \<and> \<not> (tag_owner g = o1 \<and> a \<le> b \<and> b < c))"
    unfolding granted_by_subtract_one [OF assms] by (auto simp: tag_of_def)
  finally show ?thesis by (auto simp: granted_by_def)
qed

section \<open>Well-formed ranges\<close>

definition lock_key :: "nat \<Rightarrow> string \<Rightarrow> string" where
  "lock_key p c = u64_to_string p @ '':'' @ c"

lemma owner_key_lock_key: "owner_key rq = lock_key (rq_proc_id rq) (rq_client_id rq)"
  by (simp add: owner_key_def lock_key_def)

lemma append_sep_inject: "c \<notin> set x \<Longrightarrow> c \<notin> set y \<Longrightarrow> x @ c # u = y @ c # v \<longleftrightarrow> x = y \<and> u = v"
  by (induction x arbitrary: y; case_tac y) auto

text \<open>The printed owner determines the process and the client.\<close>

lemma lock_key_inject [simp]: "lock_key p c = lock_key q d \<longleftrightarrow> p = q \<and> c = d"
  using append_sep_inject [of "CHR '':''" "u64_to_string p" "u64_to_string q"] u64_to_string_inj
  by (auto simp: lock_key_def)

definition lock_ok :: "range_lock \<Rightarrow> bool" where
  "lock_ok l \<longleftrightarrow> lk_start l < lk_end l \<and> lk_end l \<le> P9_LOCK_EOF_END
     \<and> lk_type l \<in> {P9_LOCK_TYPE_RDLCK, P9_LOCK_TYPE_WRLCK} \<and> lk_owner l = lock_key (lk_proc_id l) (lk_client_id l)"

lemma lock_ok_subtract: "\<forall>l \<in> set ls. lock_ok l \<Longrightarrow> a < c \<Longrightarrow> c \<le> P9_LOCK_EOF_END \<Longrightarrow> \<forall>l \<in> set (subtract o1 a c ls). lock_ok l"
  by (auto simp: subtract_def subtract_one_def lock_ok_def overlaps_def split: if_splits)

lemma coalesce_fold:
  "\<forall>l \<in> set (acc @ ls). lock_ok l \<Longrightarrow> sorted (map lk_start (acc @ ls)) \<Longrightarrow>
     granted_by (foldl coalesce_step acc ls) = granted_by (acc @ ls) \<and> (\<forall>l \<in> set (foldl coalesce_step acc ls). lock_ok l)"
proof (induction ls arbitrary: acc)
  case (Cons l ls)
  show ?case
  proof (cases "coalesce_step acc l = acc @ [l]")
    case True
    then show ?thesis using Cons.IH [of "acc @ [l]"] Cons.prems by simp
  next
    case False
    then have c: "acc \<noteq> []" "lk_end (last acc) \<ge> lk_start l" "lk_type (last acc) = lk_type l" "lk_owner (last acc) = lk_owner l"
      "lk_holder (last acc) = lk_holder l" "lk_fid (last acc) = lk_fid l"
      by (auto simp: coalesce_step_def split: if_splits)
    let ?p = "last acc" and ?m = "(last acc)\<lparr>lk_end := max (lk_end (last acc)) (lk_end l)\<rparr>"
    have split: "acc = butlast acc @ [?p]" using c(1) by simp
    have step: "coalesce_step acc l = butlast acc @ [?m]" using c by (simp add: coalesce_step_def)
    have ok: "lock_ok ?p" "lock_ok l" using Cons.prems(1) c(1) by auto
    have ord: "lk_start ?p \<le> lk_start l"
      using Cons.prems(2) c(1) by (auto simp: sorted_append)
    have tag: "tag_of l = tag_of ?p" using c ok by (simp add: tag_of_def lock_ok_def)
    have m: "lock_ok ?m" using ok by (auto simp: lock_ok_def max_def)
    have same: "granted_by (acc @ l # ls) = granted_by ((butlast acc @ [?m]) @ ls)"
    proof -
      have "{lk_start ?p..<lk_end ?p} \<union> {lk_start l..<lk_end l} = {lk_start ?p..<max (lk_end ?p) (lk_end l)}"
        using ord c(2) by auto
      then show ?thesis by (subst split) (auto simp: tag)
    qed
    have srt: "sorted (map lk_start ((butlast acc @ [?m]) @ ls))"
    proof -
      have "map lk_start ((butlast acc @ [?m]) @ ls) = map lk_start acc @ map lk_start ls" by (subst (3) split) simp
      moreover have "sorted (map lk_start acc @ map lk_start ls)" using Cons.prems(2) by (auto simp: sorted_append)
      ultimately show ?thesis by (simp only:)
    qed
    have "\<forall>k \<in> set ((butlast acc @ [?m]) @ ls). lock_ok k"
      using Cons.prems(1) m by (auto dest: in_set_butlastD)
    then show ?thesis unfolding foldl_Cons step same by (rule Cons.IH [OF _ srt])
  qed
qed simp

lemma coalesce_exact:
  assumes "\<forall>l \<in> set ls. lock_ok l"
  shows "granted_by (coalesce ls) = granted_by ls" "\<forall>l \<in> set (coalesce ls). lock_ok l"
  using coalesce_fold [of "[]" "sort_key lk_start ls"] assms by (auto simp: coalesce_def)


section \<open>The invariant\<close>

text \<open>No two ranges grant the same byte, unless two owners share it for reading.\<close>

definition exclusive :: "(nat \<times> lock_tag) set \<Rightarrow> bool" where
  "exclusive G \<longleftrightarrow> (\<forall>b g h. (b, g) \<in> G \<and> (b, h) \<in> G \<longrightarrow> g = h \<or>
     tag_owner g \<noteq> tag_owner h \<and> tag_type g = P9_LOCK_TYPE_RDLCK \<and> tag_type h = P9_LOCK_TYPE_RDLCK)"

definition locks_inv :: "range_lock list \<Rightarrow> bool" where
  "locks_inv ls \<longleftrightarrow> (\<forall>l \<in> set ls. lock_ok l) \<and> exclusive (granted_by ls)"

definition table_inv :: "lock_table \<Rightarrow> bool" where
  "table_inv t \<longleftrightarrow> (\<forall>path. locks_inv (locks_at t path))"

lemma exclusive_mono: "exclusive G \<Longrightarrow> H \<subseteq> G \<Longrightarrow> exclusive H"
  unfolding exclusive_def by blast

lemma locks_inv_Nil [simp]: "locks_inv []"
  by (simp add: locks_inv_def exclusive_def)

lemma locks_at_simps [simp]:
  "locks_at (put_locks p ls t) q = (if q = p then ls else locks_at t q)"
  "locks_at (drop_path p t) q = (if q = p then [] else locks_at t q)"
  by (simp_all add: locks_at_def put_locks_def drop_path_def)

lemma put_same [simp]: "granted (put_locks p (locks_at t p) t) q = granted t q"
  by simp

text \<open>The bytes of a request.\<close>

lemma lock_span_Inr:
  assumes "lock_span a n = Inr (s, e)" "a \<le> U64_MAX"
  shows "s = a" "s < e" "e \<le> P9_LOCK_EOF_END" "n = 0 \<Longrightarrow> e = P9_LOCK_EOF_END" "n \<noteq> 0 \<Longrightarrow> e = a + n"
  using assms by (auto simp: lock_span_def P9_LOCK_EOF_END_def U64_MAX_def split: if_splits)

lemma lock_span_Inl:
  assumes "lock_span a n = Inl e"
  shows "err_code e = Einval \<and> n \<noteq> 0 \<and> P9_LOCK_EOF_END < a + n"
  using assms by (auto simp: lock_span_def einval_with_def P9_LOCK_EOF_END_def split: if_splits)

definition in_request :: "p9_lock_request \<Rightarrow> nat \<Rightarrow> bool" where
  "in_request rq b \<longleftrightarrow> rq_start rq \<le> b \<and> (rq_length rq = 0 \<or> b < rq_start rq + rq_length rq) \<and> b < P9_LOCK_EOF_END"

definition out_of_range :: "p9_lock_request \<Rightarrow> bool" where
  "out_of_range rq \<longleftrightarrow> rq_length rq \<noteq> 0 \<and> P9_LOCK_EOF_END < rq_start rq + rq_length rq"

lemma lock_span_in_request:
  assumes "lock_span (rq_start rq) (rq_length rq) = Inr (s, e)" "rq_start rq \<le> U64_MAX"
  shows "s \<le> b \<and> b < e \<longleftrightarrow> in_request rq b" "\<not> out_of_range rq"
  using lock_span_Inr [OF assms] by (cases "rq_length rq = 0"; auto simp: in_request_def out_of_range_def)+

text \<open>What stands in the way of a request, in terms of bytes.\<close>

definition clash :: "p9_lock_request \<Rightarrow> (nat \<times> lock_tag) set \<Rightarrow> bool" where
  "clash rq G \<longleftrightarrow> (\<exists>b g. (b, g) \<in> G \<and> in_request rq b \<and> tag_owner g \<noteq> owner_key rq
     \<and> (tag_type g = P9_LOCK_TYPE_WRLCK \<or> rq_type rq = P9_LOCK_TYPE_WRLCK))"

lemma overlaps_byte:
  assumes "a < c" "s < (e :: nat)"
  shows "overlaps a c s e \<longleftrightarrow> (\<exists>b. a \<le> b \<and> b < c \<and> s \<le> b \<and> b < e)"
proof
  assume "overlaps a c s e"
  then show "\<exists>b. a \<le> b \<and> b < c \<and> s \<le> b \<and> b < e"
    using assms by (intro exI [of _ "max a s"]) (auto simp: overlaps_def)
qed (auto simp: overlaps_def)

lemma conflicts_clash:
  assumes "lock_span (rq_start rq) (rq_length rq) = Inr (s, e)" "rq_start rq \<le> U64_MAX" "\<forall>l \<in> set ls. lock_ok l"
  shows "list_ex (conflicts rq s e) ls \<longleftrightarrow> clash rq (granted_by ls)"
proof -
  have one: "conflicts rq s e l \<longleftrightarrow> (\<exists>b. lk_start l \<le> b \<and> b < lk_end l \<and> in_request rq b) \<and> tag_owner (tag_of l) \<noteq> owner_key rq
      \<and> (tag_type (tag_of l) = P9_LOCK_TYPE_WRLCK \<or> rq_type rq = P9_LOCK_TYPE_WRLCK)" if "l \<in> set ls" for l
    using overlaps_byte [OF _ lock_span_Inr(2) [OF assms(1,2)], of "lk_start l" "lk_end l"] assms(3) that
      lock_span_in_request(1) [OF assms(1,2)]
    by (simp add: conflicts_def tag_of_def lock_ok_def)
  have "list_ex (conflicts rq s e) ls \<longleftrightarrow> (\<exists>l \<in> set ls. conflicts rq s e l)" by (simp add: list_ex_iff)
  also have "\<dots> \<longleftrightarrow> clash rq (granted_by ls)"
    unfolding clash_def granted_by_def using one by (simp cong: bex_cong) blast
  finally show ?thesis .
qed


section \<open>Locking\<close>

text \<open>The specification: what a request does to the granted bytes of its file.\<close>

definition cleared :: "p9_lock_request \<Rightarrow> (nat \<times> lock_tag) set \<Rightarrow> (nat \<times> lock_tag) set" where
  "cleared rq G = {(b, g) \<in> G. \<not> (tag_owner g = owner_key rq \<and> in_request rq b)}"

definition request_tag :: "nat \<Rightarrow> p9_lock_request \<Rightarrow> lock_tag" where
  "request_tag holder rq = \<lparr>tag_type = rq_type rq, tag_owner = owner_key rq, tag_proc_id = rq_proc_id rq,
     tag_client_id = rq_client_id rq, tag_holder = holder, tag_fid = rq_fid rq\<rparr>"

definition lock_outcome ::
  "nat \<Rightarrow> p9_lock_request \<Rightarrow> bool \<Rightarrow> (nat \<times> lock_tag) set \<Rightarrow> nat option \<times> (nat \<times> lock_tag) set" where
  "lock_outcome holder rq full G =
     (if out_of_range rq then (None, G)
      else if rq_type rq = P9_LOCK_TYPE_UNLCK then (Some P9_LOCK_SUCCESS, cleared rq G)
      else if rq_type rq \<notin> {P9_LOCK_TYPE_RDLCK, P9_LOCK_TYPE_WRLCK} then (None, G)
      else if clash rq G then (Some P9_LOCK_BLOCKED, G)
      else if full then (Some P9_LOCK_ERROR, G)
      else (Some P9_LOCK_SUCCESS, cleared rq G \<union> {b. in_request rq b} \<times> {request_tag holder rq}))"

lemma cleared_subset: "cleared rq G \<subseteq> G"
  by (auto simp: cleared_def)

lemma granted_cleared:
  assumes "lock_span (rq_start rq) (rq_length rq) = Inr (s, e)" "rq_start rq \<le> U64_MAX"
  shows "granted_by (subtract (owner_key rq) s e ls) = cleared rq (granted_by ls)"
proof -
  have "s \<le> e" using lock_span_Inr(2) [OF assms] by simp
  then show ?thesis
    unfolding cleared_def lock_span_in_request(1) [OF assms, symmetric] by (auto simp: granted_by_subtract)
qed

lemma exclusive_grant:
  assumes ex: "exclusive G" and types: "\<forall>(b, g) \<in> G. tag_type g \<in> {P9_LOCK_TYPE_RDLCK, P9_LOCK_TYPE_WRLCK}"
    and ty: "rq_type rq \<in> {P9_LOCK_TYPE_RDLCK, P9_LOCK_TYPE_WRLCK}" and "\<not> clash rq G"
  shows "exclusive (cleared rq G \<union> {b. in_request rq b} \<times> {request_tag holder rq})"
proof -
  have other: "tag_owner g \<noteq> owner_key rq \<and> tag_type g = P9_LOCK_TYPE_RDLCK \<and> rq_type rq = P9_LOCK_TYPE_RDLCK"
    if "(b, g) \<in> cleared rq G" "in_request rq b" for b g
  proof -
    have "(b, g) \<in> G" "tag_owner g \<noteq> owner_key rq" using that by (auto simp: cleared_def)
    then show ?thesis using that(2) assms(4) types ty unfolding clash_def by fastforce
  qed
  have "exclusive (cleared rq G)" by (rule exclusive_mono [OF ex cleared_subset])
  then show ?thesis using other unfolding exclusive_def by (fastforce simp: request_tag_def)
qed

lemma granted_types: "\<forall>l \<in> set ls. lock_ok l \<Longrightarrow> \<forall>(b, g) \<in> granted_by ls. tag_type g \<in> {P9_LOCK_TYPE_RDLCK, P9_LOCK_TYPE_WRLCK}"
  by (auto simp: granted_by_def tag_of_def lock_ok_def)

lemma grant_locks:
  assumes span: "lock_span (rq_start rq) (rq_length rq) = Inr (s, e)" "rq_start rq \<le> U64_MAX" and inv: "locks_inv ls"
    and ty: "rq_type rq \<in> {P9_LOCK_TYPE_RDLCK, P9_LOCK_TYPE_WRLCK}" and free: "\<not> clash rq (granted_by ls)"
    and l: "l = \<lparr>lk_start = s, lk_end = e, lk_type = rq_type rq, lk_owner = owner_key rq, lk_proc_id = rq_proc_id rq,
      lk_client_id = rq_client_id rq, lk_holder = holder, lk_fid = rq_fid rq\<rparr>"
  shows "granted_by (coalesce (subtract (owner_key rq) s e ls @ [l]))
      = cleared rq (granted_by ls) \<union> {b. in_request rq b} \<times> {request_tag holder rq}"
    and "locks_inv (coalesce (subtract (owner_key rq) s e ls @ [l]))"
proof -
  have ok: "\<forall>l \<in> set ls. lock_ok l" and ex: "exclusive (granted_by ls)" using inv by (simp_all add: locks_inv_def)
  have "lock_ok l" using lock_span_Inr [OF span] ty by (simp add: l lock_ok_def owner_key_lock_key)
  then have all: "\<forall>k \<in> set (subtract (owner_key rq) s e ls @ [l]). lock_ok k"
    using lock_ok_subtract [OF ok lock_span_Inr(2,3) [OF span]] by simp
  have "{s..<e} = {b. in_request rq b}" by (simp add: set_eq_iff lock_span_in_request(1) [OF span])
  then show g: "granted_by (coalesce (subtract (owner_key rq) s e ls @ [l]))
      = cleared rq (granted_by ls) \<union> {b. in_request rq b} \<times> {request_tag holder rq}"
    using coalesce_exact(1) [OF all] granted_cleared [OF span] by (simp add: tag_of_def l request_tag_def)
  show "locks_inv (coalesce (subtract (owner_key rq) s e ls @ [l]))"
    unfolding locks_inv_def g using coalesce_exact(2) [OF all] exclusive_grant [OF ex granted_types [OF ok] ty free] by blast
qed

lemma release_locks:
  assumes span: "lock_span (rq_start rq) (rq_length rq) = Inr (s, e)" "rq_start rq \<le> U64_MAX" and inv: "locks_inv ls"
  shows "locks_inv (subtract (owner_key rq) s e ls)"
  using lock_ok_subtract [OF _ lock_span_Inr(2,3) [OF span]] inv exclusive_mono [OF _ cleared_subset]
  unfolding locks_inv_def granted_cleared [OF span] by blast

definition code_of :: "nat result \<Rightarrow> nat option" where
  "code_of r = (case r of Inl _ \<Rightarrow> None | Inr c \<Rightarrow> Some c)"

lemma table_lock_outcome:
  assumes inv: "table_inv t" and u64: "rq_start rq \<le> U64_MAX" and run: "table_lock holder rq t = (r, t')"
  shows "(code_of r, granted t' (rq_path rq))
      = lock_outcome holder rq (lt_max_locks_per_file t \<le> length (locks_at t (rq_path rq))) (granted t (rq_path rq))
    \<and> (\<forall>p. p \<noteq> rq_path rq \<longrightarrow> locks_at t' p = locks_at t p) \<and> table_inv t'"
proof (cases "lock_span (rq_start rq) (rq_length rq)")
  case (Inl e)
  then show ?thesis
    using run inv lock_span_Inl [OF Inl] by (auto simp: table_lock_def code_of_def lock_outcome_def out_of_range_def)
next
  case (Inr se)
  obtain s e where span: "lock_span (rq_start rq) (rq_length rq) = Inr (s, e)" using Inr by (cases se) auto
  let ?ls = "locks_at t (rq_path rq)"
  have ls: "locks_inv ?ls" using inv by (simp add: table_inv_def)
  then have ok: "\<forall>l \<in> set ?ls. lock_ok l" by (simp add: locks_inv_def)
  note range = lock_span_in_request(2) [OF span u64]
  have invs: "table_inv (put_locks (rq_path rq) ls t) \<longleftrightarrow> locks_inv ls" "table_inv (drop_path (rq_path rq) t)" for ls
    using inv by (auto simp: table_inv_def)
  let ?left = "subtract (owner_key rq) s e ?ls"
  let ?new = "coalesce (?left @ [\<lparr>lk_start = s, lk_end = e, lk_type = rq_type rq, lk_owner = owner_key rq,
    lk_proc_id = rq_proc_id rq, lk_client_id = rq_client_id rq, lk_holder = holder, lk_fid = rq_fid rq\<rparr>])"
  have run': "(r, t') = (if rq_type rq = P9_LOCK_TYPE_UNLCK
       then (Inr P9_LOCK_SUCCESS, if ?left = [] then drop_path (rq_path rq) t else put_locks (rq_path rq) ?left t)
     else if rq_type rq \<notin> {P9_LOCK_TYPE_RDLCK, P9_LOCK_TYPE_WRLCK} then (Inl invalid_lock_type, put_locks (rq_path rq) ?ls t)
     else if clash rq (granted_by ?ls) then (Inr P9_LOCK_BLOCKED, put_locks (rq_path rq) ?ls t)
     else if lt_max_locks_per_file t \<le> length ?ls then (Inr P9_LOCK_ERROR, put_locks (rq_path rq) ?ls t)
     else (Inr P9_LOCK_SUCCESS, put_locks (rq_path rq) ?new t))"
    unfolding run [symmetric] conflicts_clash [OF span u64 ok, symmetric] by (simp add: table_lock_def span Let_def)
  show ?thesis
  proof (cases "rq_type rq = P9_LOCK_TYPE_UNLCK")
    case True
    have "granted t' (rq_path rq) = cleared rq (granted_by ?ls)" "r = Inr P9_LOCK_SUCCESS"
      using run' True granted_cleared [OF span u64, of ?ls] by (simp_all split: if_splits)
    moreover have "table_inv t'" "\<forall>p. p \<noteq> rq_path rq \<longrightarrow> locks_at t' p = locks_at t p"
      using run' True release_locks [OF span u64 ls] invs by (simp_all split: if_splits)
    ultimately show ?thesis using True range by (simp add: lock_outcome_def code_of_def)
  next
    case other: False
    show ?thesis
    proof (cases "rq_type rq \<in> {P9_LOCK_TYPE_RDLCK, P9_LOCK_TYPE_WRLCK} \<and> \<not> clash rq (granted_by ?ls)
        \<and> \<not> lt_max_locks_per_file t \<le> length ?ls")
      case True
      then have "r = Inr P9_LOCK_SUCCESS" "t' = put_locks (rq_path rq) ?new t" using run' other by simp_all
      then show ?thesis
        using True other range invs grant_locks [OF span u64 ls _ _ refl, of holder] by (simp add: lock_outcome_def code_of_def)
    next
      case False
      then have "t' = put_locks (rq_path rq) ?ls t" using run' other by (simp split: if_splits)
      then show ?thesis using False run' other range ls invs by (auto simp: lock_outcome_def code_of_def split: if_splits)
    qed
  qed
qed


section \<open>Releasing and renaming\<close>

lemma locks_at_drop_where: "locks_at (drop_where P t) p = filter (\<lambda>l. \<not> P l) (locks_at t p)"
  by (simp add: locks_at_def drop_where_def Let_def split: option.split)

lemma locks_inv_filter: "locks_inv ls \<Longrightarrow> locks_inv (filter P ls)"
  using exclusive_mono [of "granted_by ls" "granted_by (filter P ls)"] by (auto simp: locks_inv_def granted_by_def)

lemma table_inv_drop_where: "table_inv t \<Longrightarrow> table_inv (drop_where P t)"
  by (simp add: table_inv_def locks_at_drop_where locks_inv_filter)

lemma table_inv_remap_one: "table_inv t \<Longrightarrow> table_inv (remap_one src dst t old)"
proof (cases "fmlookup (lt_files t) old")
  case (Some ls)
  then have "ls = locks_at t old" by (simp add: locks_at_def)
  then show "table_inv t \<Longrightarrow> ?thesis" using Some by (simp add: remap_one_def Let_def table_inv_def)
qed (simp add: remap_one_def)

lemma table_inv_remap: "table_inv t \<Longrightarrow> table_inv (table_remap keys src dst t)"
proof -
  have "table_inv t \<Longrightarrow> table_inv (foldl (remap_one src dst) t ps)" for ps
    by (induction ps arbitrary: t) (simp_all add: table_inv_remap_one)
  then show "table_inv t \<Longrightarrow> table_inv (table_remap keys src dst t)" by (simp add: table_remap_def)
qed

text \<open>Everything that happens to a table.\<close>

inductive lock_step :: "((string, range_lock list) fmap \<Rightarrow> string list) \<Rightarrow> lock_table \<Rightarrow> lock_table \<Rightarrow> bool" for keys where
  step_client: "lock_step keys t (snd (lock_client t))"
| step_lock: "rq_start rq \<le> U64_MAX \<Longrightarrow> lock_step keys t (snd (table_lock holder rq t))"
| step_release_fid: "lock_step keys t (release_fid holder fid t)"
| step_release_all: "lock_step keys t (release_all holder t)"
| step_remap: "lock_step keys t (table_remap keys src dst t)"
| step_release: "lock_step keys t (table_release path t)"

lemma table_inv_new: "table_inv (lock_table_new n)"
  by (simp add: table_inv_def lock_table_new_def locks_at_def)

lemma lock_step_inv:
  assumes "lock_step keys t t'" "table_inv t"
  shows "table_inv t'"
  using assms
proof (induction rule: lock_step.induct)
  case (step_lock rq t holder)
  obtain r t' where run: "table_lock holder rq t = (r, t')" by fastforce
  then show ?case using table_lock_outcome [OF step_lock(2,1) run] by simp
qed (simp_all add: release_fid_def release_all_def table_inv_drop_where table_inv_remap, simp_all add: table_inv_def
    lock_client_def table_release_def locks_at_def [of "_\<lparr>lt_next_client := _\<rparr>"] locks_at_def [symmetric])

lemma lock_steps_inv: "(lock_step keys)\<^sup>*\<^sup>* (lock_table_new n) t \<Longrightarrow> table_inv t"
  by (induction rule: rtranclp_induct) (auto simp: table_inv_new intro: lock_step_inv)

text \<open>A renamed tree takes its locks along, when neither path is inside the other.\<close>

definition lists_keys :: "((string, range_lock list) fmap \<Rightarrow> string list) \<Rightarrow> bool" where
  "lists_keys keys \<longleftrightarrow> (\<forall>m. distinct (keys m) \<and> set (keys m) = fmdom' m)"

definition path_within :: "string \<Rightarrow> string \<Rightarrow> bool" where
  "path_within dir path \<longleftrightarrow> (\<exists>rest. path = dir @ rest \<and> (rest = [] \<or> hd rest = CHR ''/''))"

lemma path_within_refl: "path_within p p"
  unfolding path_within_def by simp

lemma path_within_moved: "path_within src p \<Longrightarrow> path_within dst (dst @ drop (length src) p)"
  unfolding path_within_def by auto

lemma path_within_split: "path_within src p \<Longrightarrow> src @ drop (length src) p = p"
  unfolding path_within_def by auto

lemma remap_moves_within: "src \<noteq> ''/'' \<Longrightarrow> remap_moves src path \<longleftrightarrow> path_within src path"
proof -
  assume "src \<noteq> ''/''"
  moreover have "prefix (src @ ''/'') path \<longleftrightarrow> (\<exists>rest. path = src @ rest \<and> rest \<noteq> [] \<and> hd rest = CHR ''/'')"
  proof
    assume "\<exists>rest. path = src @ rest \<and> rest \<noteq> [] \<and> hd rest = CHR ''/''"
    then obtain rest where "path = src @ rest" "rest \<noteq> []" "hd rest = CHR ''/''" by blast
    then have "path = (src @ ''/'') @ tl rest" by (cases rest) auto
    then show "prefix (src @ ''/'') path" by (metis prefixI)
  qed (auto simp: prefix_def)
  ultimately show ?thesis unfolding remap_moves_def starts_with_prefix path_within_def by auto
qed

abbreviation moved :: "string \<Rightarrow> string \<Rightarrow> string \<Rightarrow> string" where
  "moved src dst p \<equiv> dst @ drop (length src) p"

lemma moved_inject: "path_within src p \<Longrightarrow> path_within src q \<Longrightarrow> moved src dst p = moved src dst q \<longleftrightarrow> p = q"
  by (auto simp: path_within_def)

lemma remap_one_lookup:
  "moved src dst p \<noteq> p \<Longrightarrow> fmlookup (lt_files (remap_one src dst t p)) q =
     (if q = p then None else if q = moved src dst p \<and> fmlookup (lt_files t) p \<noteq> None then fmlookup (lt_files t) p
      else fmlookup (lt_files t) q)"
  by (cases "fmlookup (lt_files t) p") (auto simp: remap_one_def Let_def put_locks_def drop_path_def)

lemma remap_fold:
  assumes out: "\<And>p. path_within src p \<Longrightarrow> \<not> path_within src (moved src dst p)"
  shows "distinct ps \<Longrightarrow> \<forall>p \<in> set ps. path_within src p \<Longrightarrow>
    (\<forall>p. path_within src p \<longrightarrow> fmlookup (lt_files (foldl (remap_one src dst) t ps)) p = (if p \<in> set ps then None else fmlookup (lt_files t) p))
    \<and> (\<forall>p ls. p \<in> set ps \<longrightarrow> fmlookup (lt_files t) p = Some ls \<longrightarrow> fmlookup (lt_files (foldl (remap_one src dst) t ps)) (moved src dst p) = Some ls)
    \<and> (\<forall>q. \<not> path_within src q \<longrightarrow> (\<forall>p \<in> set ps. fmlookup (lt_files t) p \<noteq> None \<longrightarrow> q \<noteq> moved src dst p) \<longrightarrow>
        fmlookup (lt_files (foldl (remap_one src dst) t ps)) q = fmlookup (lt_files t) q)"
proof (induction ps arbitrary: t)
  case (Cons p ps)
  let ?t = "remap_one src dst t p"
  have p: "path_within src p" "p \<notin> set ps" "distinct ps" "\<forall>q \<in> set ps. path_within src q" using Cons.prems by auto
  have np: "moved src dst p \<noteq> p" using out [OF p(1)] p(1) by metis
  note one = remap_one_lookup [OF np]
  note IH = Cons.IH [OF p(3,4), of ?t]
  have other: "q \<noteq> moved src dst p" if "path_within src q" for q using out [OF p(1)] that by metis
  have apart: "moved src dst p \<noteq> moved src dst q" if "q \<in> set ps" for q
    using moved_inject [OF p(1), of q] p(2,4) that by metis
  have "fmlookup (lt_files (foldl (remap_one src dst) t (p # ps))) q = (if q \<in> set (p # ps) then None else fmlookup (lt_files t) q)"
    if q: "path_within src q" for q
    using IH q other [OF q] by (auto simp: one)
  moreover have "fmlookup (lt_files (foldl (remap_one src dst) t (p # ps))) (moved src dst q) = Some ls"
    if q: "q \<in> set (p # ps)" "fmlookup (lt_files t) q = Some ls" for q ls
  proof (cases "q = p")
    case True
    have "fmlookup (lt_files (foldl (remap_one src dst) ?t ps)) (moved src dst p) = fmlookup (lt_files ?t) (moved src dst p)"
      using IH out [OF p(1)] apart by blast
    then show ?thesis using True q(2) np by (simp add: one)
  next
    case False
    then have "q \<in> set ps" "fmlookup (lt_files ?t) q = Some ls" using q other p(4) by (auto simp: one)
    then show ?thesis using IH by simp
  qed
  moreover have "fmlookup (lt_files (foldl (remap_one src dst) t (p # ps))) q = fmlookup (lt_files t) q"
    if q: "\<not> path_within src q" "\<forall>p' \<in> set (p # ps). fmlookup (lt_files t) p' \<noteq> None \<longrightarrow> q \<noteq> moved src dst p'" for q
  proof -
    have "fmlookup (lt_files ?t) p' \<noteq> None \<longrightarrow> q \<noteq> moved src dst p'" if "p' \<in> set ps" for p'
      using q(2) that p(2,4) other by (auto simp: one)
    then have "fmlookup (lt_files (foldl (remap_one src dst) ?t ps)) q = fmlookup (lt_files ?t) q" using IH q(1) by blast
    moreover have "q \<noteq> p" using q(1) p(1) by metis
    ultimately show ?thesis using q(2) by (auto simp: one)
  qed
  ultimately show ?case by blast
qed simp

lemma path_within_comparable: "path_within a p \<Longrightarrow> path_within b p \<Longrightarrow> path_within a b \<or> path_within b a"
proof -
  assume "path_within a p" "path_within b p"
  then obtain r q where e: "p = a @ r" "p = b @ q" "r = [] \<or> hd r = CHR ''/''" "q = [] \<or> hd q = CHR ''/''"
    unfolding path_within_def by blast
  then have "a @ r = b @ q" by simp
  then obtain us where "a = b @ us \<and> us @ r = q \<or> a @ us = b \<and> r = us @ q" by (auto simp: append_eq_append_conv2)
  then show ?thesis
  proof
    assume u: "a = b @ us \<and> us @ r = q"
    then have "us = [] \<or> hd us = CHR ''/''" using e(4) by (cases us) auto
    then show ?thesis using u unfolding path_within_def by blast
  next
    assume u: "a @ us = b \<and> r = us @ q"
    then have "us = [] \<or> hd us = CHR ''/''" using e(3) by (cases us) auto
    then show ?thesis using u unfolding path_within_def by blast
  qed
qed

lemma remap_lookup:
  assumes keys: "lists_keys keys" and src: "src \<noteq> ''/''" and apart: "\<not> path_within src dst" "\<not> path_within dst src"
  shows "path_within src p \<Longrightarrow> fmlookup (lt_files (table_remap keys src dst t)) p = None"
    and "path_within src (src @ rest) \<Longrightarrow> fmlookup (lt_files t) (src @ rest) \<noteq> None \<Longrightarrow>
      fmlookup (lt_files (table_remap keys src dst t)) (dst @ rest) = fmlookup (lt_files t) (src @ rest)"
    and "\<not> path_within src q \<Longrightarrow> (\<forall>rest. q = dst @ rest \<longrightarrow> path_within src (src @ rest) \<longrightarrow> fmlookup (lt_files t) (src @ rest) = None) \<Longrightarrow>
      fmlookup (lt_files (table_remap keys src dst t)) q = fmlookup (lt_files t) q"
proof -
  let ?ps = "filter (remap_moves src) (keys (lt_files t))"
  have "src \<noteq> dst" using apart path_within_refl by metis
  then have t': "table_remap keys src dst t = foldl (remap_one src dst) t ?ps" by (simp add: table_remap_def)
  have ps: "p \<in> set ?ps \<longleftrightarrow> path_within src p \<and> fmlookup (lt_files t) p \<noteq> None" for p
    using keys by (auto simp: lists_keys_def remap_moves_within [OF src] fmlookup_dom'_iff)
  have d: "distinct ?ps" "\<forall>p \<in> set ?ps. path_within src p" using keys ps by (simp_all add: lists_keys_def)
  have out: "\<not> path_within src (moved src dst p)" if "path_within src p" for p
  proof
    assume "path_within src (moved src dst p)"
    moreover have "path_within dst (moved src dst p)" by (rule path_within_moved [OF that])
    ultimately show False using path_within_comparable apart by blast
  qed
  note fold = remap_fold [OF out d, of t, folded t']
  show "path_within src p \<Longrightarrow> fmlookup (lt_files (table_remap keys src dst t)) p = None"
    using conjunct1 [OF fold] ps [of p] by simp
  show "path_within src (src @ rest) \<Longrightarrow> fmlookup (lt_files t) (src @ rest) \<noteq> None \<Longrightarrow>
      fmlookup (lt_files (table_remap keys src dst t)) (dst @ rest) = fmlookup (lt_files t) (src @ rest)"
    using conjunct1 [OF conjunct2 [OF fold], rule_format, of "src @ rest"] ps [of "src @ rest"] by auto
  show "fmlookup (lt_files (table_remap keys src dst t)) q = fmlookup (lt_files t) q"
    if q: "\<not> path_within src q" "\<forall>rest. q = dst @ rest \<longrightarrow> path_within src (src @ rest) \<longrightarrow> fmlookup (lt_files t) (src @ rest) = None"
  proof -
    have "q \<noteq> moved src dst p" if "p \<in> set ?ps" for p
    proof
      assume m: "q = moved src dst p"
      have p: "path_within src p" "fmlookup (lt_files t) p \<noteq> None" using that ps by blast+
      show False using q(2) m p path_within_split [OF p(1)] by metis
    qed
    then show ?thesis using conjunct2 [OF conjunct2 [OF fold]] q(1) by blast
  qed
qed


section \<open>Asking for a conflicting range\<close>

lemma find_Some_ex: "(\<exists>x. List.find P xs = Some x) \<longleftrightarrow> list_ex P xs"
  by (induction xs) auto

lemma holder_covers:
  assumes "lock_ok l" "lk_start l \<le> b" "b < lk_end l"
  shows "ho_start (lock_holder l) \<le> b \<and> (ho_length (lock_holder l) = 0 \<or> b < ho_start (lock_holder l) + ho_length (lock_holder l))"
  using assms by (auto simp: lock_holder_def lock_length_def lock_ok_def P9_LOCK_EOF_END_def)

lemma find_SomeD: "List.find P xs = Some x \<Longrightarrow> x \<in> set xs \<and> P x"
  by (induction xs) (auto split: if_splits)

section \<open>Properties\<close>

text \<open>
  C13: Locks exclude each other. In every table that locking, releasing and renaming reach, if two
  different ranges of a file grant the same byte then their owners differ and both are read locks. Every
  granted byte is a 64-bit offset.
\<close>

theorem p9_locks_exclusive:
  assumes "(lock_step keys)\<^sup>*\<^sup>* (lock_table_new n) t" and g: "(b, g) \<in> granted t path" and h: "(b, h) \<in> granted t path" "g \<noteq> h"
  shows "tag_owner g \<noteq> tag_owner h \<and> tag_type g = P9_LOCK_TYPE_RDLCK \<and> tag_type h = P9_LOCK_TYPE_RDLCK \<and> b \<le> U64_MAX"
proof -
  have inv: "locks_inv (locks_at t path)" using lock_steps_inv [OF assms(1)] by (simp add: table_inv_def)
  obtain l where "l \<in> set (locks_at t path)" "b < lk_end l" using g by (auto simp: granted_by_def)
  then have "b \<le> U64_MAX" using inv by (fastforce simp: locks_inv_def lock_ok_def P9_LOCK_EOF_END_def U64_MAX_def)
  then show ?thesis using inv g h unfolding locks_inv_def exclusive_def by blast
qed

definition demo_request :: "nat \<Rightarrow> nat \<Rightarrow> nat \<Rightarrow> string \<Rightarrow> p9_lock_request" where
  "demo_request ty start len who = \<lparr>rq_path = ''/f'', rq_fid = 1, rq_type = ty, rq_start = start, rq_length = len, rq_proc_id = 7, rq_client_id = who\<rparr>"

definition demo_locked :: lock_table where
  "demo_locked = snd (table_lock 2 (demo_request 0 5 10 ''b'') (snd (table_lock 1 (demo_request 0 0 0 ''a'') (lock_table_new 8))))"

lemma demo_locked_reached: "(lock_step keys)\<^sup>*\<^sup>* (lock_table_new 8) demo_locked"
proof -
  have "lock_step keys (lock_table_new 8) (snd (table_lock 1 (demo_request 0 0 0 ''a'') (lock_table_new 8)))"
    by (rule step_lock) (simp add: demo_request_def)
  moreover have "lock_step keys (snd (table_lock 1 (demo_request 0 0 0 ''a'') (lock_table_new 8))) demo_locked"
    unfolding demo_locked_def by (rule step_lock) (simp add: demo_request_def U64_MAX_def)
  ultimately show ?thesis by (meson converse_rtranclp_into_rtranclp r_into_rtranclp)
qed

abbreviation demo_tag :: "string \<Rightarrow> nat \<Rightarrow> lock_tag" where
  "demo_tag who holder \<equiv> \<lparr>tag_type = 0, tag_owner = ''7:'' @ who, tag_proc_id = 7, tag_client_id = who, tag_holder = holder, tag_fid = 1\<rparr>"

lemma granted_by_iff: "(b, g) \<in> granted_by ls \<longleftrightarrow> list_ex (\<lambda>l. lk_start l \<le> b \<and> b < lk_end l \<and> tag_of l = g) ls"
  by (auto simp: granted_by_def list_ex_iff)

theorem p9_locks_exclusive_witness:
  "\<exists>g h. (7, g) \<in> granted demo_locked ''/f'' \<and> (7, h) \<in> granted demo_locked ''/f'' \<and> tag_owner g \<noteq> tag_owner h
     \<and> tag_type g = P9_LOCK_TYPE_RDLCK"
proof -
  have "(7, demo_tag ''a'' 1) \<in> granted demo_locked ''/f''" "(7, demo_tag ''b'' 2) \<in> granted demo_locked ''/f''"
    unfolding granted_by_iff by code_simp+
  with p9_locks_exclusive [OF demo_locked_reached this] show ?thesis by fastforce
qed

text \<open>
  C17: A lock request does to the granted bytes exactly what its specification says, on every branch: an
  unlock takes away the owner's bytes in the range and nothing else; a lock is refused when another
  owner's range conflicts or the file has as many ranges as allowed, and otherwise replaces the owner's
  bytes in the range; errors change nothing. Other files keep their ranges. Splitting and merging of
  ranges is invisible.
\<close>

theorem p9_lock_refines:
  assumes "(lock_step keys)\<^sup>*\<^sup>* (lock_table_new n) t" "rq_start rq \<le> U64_MAX" "table_lock holder rq t = (r, t')"
  shows "(code_of r, granted t' (rq_path rq))
      = lock_outcome holder rq (lt_max_locks_per_file t \<le> length (locks_at t (rq_path rq))) (granted t (rq_path rq))
    \<and> (\<forall>p. p \<noteq> rq_path rq \<longrightarrow> locks_at t' p = locks_at t p)
    \<and> (\<forall>e. r = Inl e \<longrightarrow> err_code e = Einval)"
proof -
  have "err_code e = Einval" if "r = Inl e" for e
    using assms(3) that lock_span_Inl
    by (auto simp: table_lock_def Let_def invalid_lock_type_def einval_with_def split: sum.splits if_splits)
  then show ?thesis using table_lock_outcome [OF lock_steps_inv [OF assms(1)] assms(2,3)] by blast
qed

theorem p9_lock_refines_witness:
  "granted (snd (table_lock 1 (demo_request 2 5 1 ''a'') demo_locked)) ''/f''
     = cleared (demo_request 2 5 1 ''a'') (granted demo_locked ''/f'')"
proof -
  obtain r t' where run: "table_lock 1 (demo_request 2 5 1 ''a'') demo_locked = (r, t')" by fastforce
  have "rq_start (demo_request 2 5 1 ''a'') \<le> U64_MAX" by (simp add: demo_request_def U64_MAX_def)
  from p9_lock_refines [OF demo_locked_reached this run] show ?thesis
    unfolding run by (simp add: lock_outcome_def demo_request_def out_of_range_def P9_LOCK_EOF_END_def p9_lock_consts)
qed

text \<open>
  Asking and locking agree: for a read or write request in range, \<^verbatim>\<open>getlock\<close> reports a holder exactly when
  the lock call would be blocked, and the holder it reports has the type, process and client of another
  owner's range that covers a byte of the request.
\<close>

theorem p9_getlock_agrees:
  assumes reach: "(lock_step keys)\<^sup>*\<^sup>* (lock_table_new n) t" and u64: "rq_start rq \<le> U64_MAX"
    and ty: "rq_type rq = P9_LOCK_TYPE_RDLCK \<or> rq_type rq = P9_LOCK_TYPE_WRLCK" and got: "table_getlock rq t = Inr found"
  shows "(found \<noteq> None \<longleftrightarrow> fst (table_lock holder rq t) = Inr P9_LOCK_BLOCKED)
    \<and> (\<forall>h. found = Some h \<longrightarrow> (\<exists>b g. (b, g) \<in> granted t (rq_path rq) \<and> in_request rq b \<and> tag_owner g \<noteq> owner_key rq
        \<and> (ho_type h, ho_proc_id h, ho_client_id h) = (tag_type g, tag_proc_id g, tag_client_id g)
        \<and> ho_start h \<le> b \<and> (ho_length h = 0 \<or> b < ho_start h + ho_length h)))"
proof -
  let ?ls = "locks_at t (rq_path rq)"
  obtain s e where span: "lock_span (rq_start rq) (rq_length rq) = Inr (s, e)" using got by (auto simp: table_getlock_def)
  have ok: "\<forall>l \<in> set ?ls. lock_ok l" using lock_steps_inv [OF reach] by (simp add: table_inv_def locks_inv_def)
  have un: "rq_type rq \<noteq> P9_LOCK_TYPE_UNLCK" using ty by (auto simp: p9_lock_consts)
  then have found: "found = map_option lock_holder (List.find (conflicts rq s e) ?ls)"
    using got ty by (auto simp: table_getlock_def span)
  have "found \<noteq> None \<longleftrightarrow> list_ex (conflicts rq s e) ?ls" unfolding found find_Some_ex [symmetric] by auto
  also have "\<dots> \<longleftrightarrow> fst (table_lock holder rq t) = Inr P9_LOCK_BLOCKED"
    using un ty by (auto simp: table_lock_def span Let_def p9_lock_consts)
  finally have iff: "found \<noteq> None \<longleftrightarrow> fst (table_lock holder rq t) = Inr P9_LOCK_BLOCKED" .
  moreover have "\<exists>b g. (b, g) \<in> granted t (rq_path rq) \<and> in_request rq b \<and> tag_owner g \<noteq> owner_key rq
        \<and> (ho_type h, ho_proc_id h, ho_client_id h) = (tag_type g, tag_proc_id g, tag_client_id g)
        \<and> ho_start h \<le> b \<and> (ho_length h = 0 \<or> b < ho_start h + ho_length h)" if h: "found = Some h" for h
  proof -
    obtain l where l: "l \<in> set ?ls" "conflicts rq s e l" "h = lock_holder l"
      using h found by (auto dest!: find_SomeD)
    then obtain b where b: "lk_start l \<le> b" "b < lk_end l" "in_request rq b"
      using overlaps_byte [OF _ lock_span_Inr(2) [OF span u64], of "lk_start l" "lk_end l"] ok
        lock_span_in_request(1) [OF span u64] by (auto simp: conflicts_def lock_ok_def)
    have "(b, tag_of l) \<in> granted t (rq_path rq)" using l(1) b by (auto simp: granted_by_def)
    moreover have "tag_owner (tag_of l) \<noteq> owner_key rq" using l(2) by (simp add: conflicts_def tag_of_def)
    ultimately show ?thesis
      using holder_covers [of l b] ok l b by (intro exI [of _ b] exI [of _ "tag_of l"]) (auto simp: lock_holder_def tag_of_def)
  qed
  ultimately show ?thesis by blast
qed

theorem p9_getlock_agrees_witness:
  "\<exists>h. table_getlock (demo_request 1 20 1 ''b'') demo_locked = Inr (Some h) \<and> ho_client_id h = ''a'' \<and> ho_length h = 0
     \<and> fst (table_lock 2 (demo_request 1 20 1 ''b'') demo_locked) = Inr P9_LOCK_BLOCKED"
proof -
  let ?h = "\<lparr>ho_type = 0, ho_start = 0, ho_length = 0, ho_proc_id = 7, ho_client_id = ''a''\<rparr>"
  have got: "table_getlock (demo_request 1 20 1 ''b'') demo_locked = Inr (Some ?h)" by code_simp
  have "rq_start (demo_request 1 20 1 ''b'') \<le> U64_MAX" "rq_type (demo_request 1 20 1 ''b'') = P9_LOCK_TYPE_RDLCK \<or> rq_type (demo_request 1 20 1 ''b'') = P9_LOCK_TYPE_WRLCK"
    by (simp_all add: demo_request_def U64_MAX_def p9_lock_consts)
  from p9_getlock_agrees [OF demo_locked_reached this got, of 2] show ?thesis using got by simp
qed


text \<open>
  C33: A renamed file or directory takes its locks along. When neither path is inside the other, no
  range is left at the old paths, every path below the old one that had an entry passes its ranges to the
  same path below the new one, replacing what was there, and all other paths keep their ranges. The
  hypothesis on the keys is that a hash map lists each of its keys once.
\<close>

theorem p9_rename_moves_locks:
  assumes "lists_keys keys" "src \<noteq> ''/''" "\<not> path_within src dst" "\<not> path_within dst src"
  shows "(\<forall>p. path_within src p \<longrightarrow> locks_at (table_remap keys src dst t) p = [])
    \<and> (\<forall>rest. path_within src (src @ rest) \<longrightarrow> fmlookup (lt_files t) (src @ rest) \<noteq> None \<longrightarrow>
        locks_at (table_remap keys src dst t) (dst @ rest) = locks_at t (src @ rest))
    \<and> (\<forall>q. \<not> path_within src q \<longrightarrow>
        (\<forall>rest. q = dst @ rest \<longrightarrow> path_within src (src @ rest) \<longrightarrow> fmlookup (lt_files t) (src @ rest) = None) \<longrightarrow>
        locks_at (table_remap keys src dst t) q = locks_at t q)"
  using remap_lookup [OF assms] by (simp add: locks_at_def)

definition ordered_keys :: "(string, range_lock list) fmap \<Rightarrow> string list" where
  "ordered_keys m = map fst (sorted_list_of_fmap m)"

lemma ordered_keys_lists: "lists_keys ordered_keys"
  by (simp add: lists_keys_def ordered_keys_def distinct_keys_sorted_fmap) (simp add: sorted_list_of_fmap_def image_image fmdom'_alt_def)

theorem p9_rename_moves_locks_witness:
  "locks_at (table_remap ordered_keys ''/f'' ''/g'' demo_locked) ''/g'' = locks_at demo_locked ''/f''
     \<and> locks_at (table_remap ordered_keys ''/f'' ''/g'' demo_locked) ''/f'' = [] \<and> locks_at demo_locked ''/f'' \<noteq> []"
proof -
  have "\<not> path_within ''/f'' ''/g''" "\<not> path_within ''/g'' ''/f''" by (auto simp: path_within_def)
  note moves = p9_rename_moves_locks [OF ordered_keys_lists _ this, of demo_locked]
  have l: "locks_at demo_locked ''/f'' \<noteq> []" by code_simp
  then have "fmlookup (lt_files demo_locked) ''/f'' \<noteq> None" by (cases "fmlookup (lt_files demo_locked) ''/f''") (simp_all add: locks_at_def)
  moreover have "path_within ''/f'' ''/f''" by (rule path_within_refl)
  ultimately show ?thesis using moves l by (auto dest: spec [of _ "[]"])
qed

section \<open>Limits of the table\<close>

text \<open>
  The limit on the number of ranges of a file is checked when a range is added, before the new range
  splits others, and not when an unlock splits one: a file can have more ranges than the limit.
\<close>

lemma p9_lock_limit_exceeded:
  "(let t = snd (table_lock 1 (demo_request 1 0 0 ''a'') (lock_table_new 1)) in
    lt_max_locks_per_file t = 1 \<and> lock_table_size (snd (table_lock 1 (demo_request 2 5 1 ''a'') t)) = 2)"
  by code_simp

text \<open>A request with an unknown lock type is refused, but leaves a path with no range in the table.\<close>

lemma p9_lock_empty_entry:
  "(let t = snd (table_lock 1 (demo_request 9 0 0 ''a'') (lock_table_new 1)) in
    lock_table_files t = 1 \<and> lock_table_size t = 0 \<and> lock_table_at t ''/f'' = [] \<and> lock_table_held 1 t = 0)"
  by code_simp

end
