(* ===== verification/Wire_Bytes.thy ===== *)
theory Wire_Bytes
  imports Mrs_Prelude
begin

text \<open>
  What the wire codecs of the transports share: integers as bytes, strings as bytes with the lossy
  UTF-8 decoding of the standard library, readers and writers as operations on a position or a buffer,
  and the calculus by which a reader is shown to return what a writer wrote.
\<close>

named_theorems wire_intro

section \<open>Integers\<close>

type_synonym u16 = "16 word"
type_synonym u64b = "64 word"

fun le_bytes :: "nat \<Rightarrow> nat \<Rightarrow> bytes" where
  "le_bytes 0 n = []"
| "le_bytes (Suc k) n = word_of_nat n # le_bytes k (n div 256)"

fun le_value :: "bytes \<Rightarrow> nat" where
  "le_value [] = 0"
| "le_value (b # bs) = unat b + 256 * le_value bs"

definition be_bytes :: "nat \<Rightarrow> nat \<Rightarrow> bytes" where
  "be_bytes k n = rev (le_bytes k n)"

definition be_value :: "bytes \<Rightarrow> nat" where
  "be_value bs = le_value (rev bs)"

lemma le_bytes_length [simp]: "length (le_bytes k n) = k"
  by (induction k arbitrary: n) auto

lemma be_bytes_length [simp]: "length (be_bytes k n) = k"
  by (simp add: be_bytes_def)

lemma unat_byte: "unat (word_of_nat n :: 8 word) = n mod 256"
  by (simp add: unat_of_nat)

lemma le_value_bytes: "le_value (le_bytes k n) = n mod 256 ^ k"
proof (induction k arbitrary: n)
  case (Suc k)
  have "n mod 256 ^ Suc k = n mod 256 + 256 * (n div 256 mod 256 ^ k)"
    using mod_mult2_eq [of n 256 "256 ^ k"] by (simp add: mult.commute)
  then show ?case using Suc by (simp add: unat_byte)
qed simp

lemma le_value_bound: "le_value bs < 256 ^ length bs"
proof (induction bs)
  case (Cons b bs)
  have "unat b < 256" using unsigned_less [of b] by simp
  then show ?case using Cons by simp
qed simp

lemma le_bytes_value: "le_bytes (length bs) (le_value bs) = bs"
proof (induction bs)
  case (Cons b bs)
  have b: "unat b < 256" using unsigned_less [of b] by simp
  have "(unat b + 256 * le_value bs) div 256 = le_value bs" using b by simp
  moreover have "(word_of_nat (unat b + 256 * le_value bs) :: 8 word) = b"
    by (simp add: word_unat_eq_iff unat_byte b flip: of_nat_mult of_nat_add)
  ultimately show ?case using Cons by (simp flip: of_nat_mult of_nat_add)
qed simp

lemma be_value_bytes: "be_value (be_bytes k n) = n mod 256 ^ k"
  by (simp add: be_value_def be_bytes_def le_value_bytes)

lemma be_value_bound: "be_value bs < 256 ^ length bs"
  using le_value_bound [of "rev bs"] by (simp add: be_value_def)

lemma be_bytes_value: "be_bytes (length bs) (be_value bs) = bs"
  using le_bytes_value [of "rev bs"] by (simp add: be_bytes_def be_value_def)

section \<open>Strings\<close>

text \<open>A Rust string is its UTF-8 bytes; the development writes it as a list of characters.\<close>

definition str_bytes :: "string \<Rightarrow> bytes" where
  "str_bytes s = map (\<lambda>c. word_of_nat (of_char c)) s"

definition bytes_str :: "bytes \<Rightarrow> string" where
  "bytes_str bs = map (\<lambda>b. char_of (unat b)) bs"

lemma str_bytes_length [simp]: "length (str_bytes s) = length s"
  by (simp add: str_bytes_def)

lemma bytes_str_bytes [simp]: "bytes_str (str_bytes s) = s"
proof -
  have "of_char c < (256 :: nat)" for c :: char by simp
  then show ?thesis by (simp add: bytes_str_def str_bytes_def comp_def unat_byte del: of_char_mod_256)
qed

lemma str_bytes_str [simp]: "str_bytes (bytes_str bs) = bs"
proof -
  have "(word_of_nat (of_char (char_of (unat b) :: char)) :: 8 word) = b" for b :: u8
  proof -
    have "unat b < 256" using unsigned_less [of b] by simp
    then show ?thesis by simp
  qed
  then show ?thesis by (simp add: bytes_str_def str_bytes_def comp_def)
qed

text \<open>
  \<^verbatim>\<open>String::from_utf8_lossy\<close>: the next character, or the maximal ill-formed piece at the head, which is
  replaced by U+FFFD.
\<close>

definition utf8_cont :: "u8 \<Rightarrow> bool" where
  "utf8_cont b \<longleftrightarrow> 0x80 \<le> b \<and> b \<le> 0xBF"

definition utf8_second3 :: "u8 \<Rightarrow> u8 \<Rightarrow> bool" where
  "utf8_second3 b c \<longleftrightarrow> (if b = 0xE0 then 0xA0 \<le> c \<and> c \<le> 0xBF else if b = 0xED then 0x80 \<le> c \<and> c \<le> 0x9F else utf8_cont c)"

definition utf8_second4 :: "u8 \<Rightarrow> u8 \<Rightarrow> bool" where
  "utf8_second4 b c \<longleftrightarrow> (if b = 0xF0 then 0x90 \<le> c \<and> c \<le> 0xBF else if b = 0xF4 then 0x80 \<le> c \<and> c \<le> 0x8F else utf8_cont c)"

definition byte_at :: "bytes \<Rightarrow> nat \<Rightarrow> u8" where
  "byte_at bs i = (if i < length bs then bs ! i else 0)"

definition utf8_char_width :: "u8 \<Rightarrow> nat" where
  "utf8_char_width b =
     (if b < 0x80 then 1 else if 0xC2 \<le> b \<and> b \<le> 0xDF then 2 else if 0xE0 \<le> b \<and> b \<le> 0xEF then 3
      else if 0xF0 \<le> b \<and> b \<le> 0xF4 then 4 else 0)"

definition utf8_next :: "bytes \<Rightarrow> nat \<times> bool" where
  "utf8_next bs =
     (let b = byte_at bs 0; w = utf8_char_width b in
      if w = 1 then (1, True)
      else if w = 2 then (if utf8_cont (byte_at bs 1) then (2, True) else (1, False))
      else if w = 3 then
        (if \<not> utf8_second3 b (byte_at bs 1) then (1, False) else if \<not> utf8_cont (byte_at bs 2) then (2, False) else (3, True))
      else if w = 4 then
        (if \<not> utf8_second4 b (byte_at bs 1) then (1, False) else if \<not> utf8_cont (byte_at bs 2) then (2, False)
         else if \<not> utf8_cont (byte_at bs 3) then (3, False) else (4, True))
      else (1, False))"

lemma utf8_next_pos: "0 < fst (utf8_next bs)"
  by (simp add: utf8_next_def Let_def)

function utf8_valid :: "bytes \<Rightarrow> bool" where
  "utf8_valid bs = (if bs = [] then True else snd (utf8_next bs) \<and> utf8_valid (drop (fst (utf8_next bs)) bs))"
  by pat_completeness auto
termination
  by (relation "measure length") (use utf8_next_pos in auto)

definition utf8_replacement :: bytes where
  "utf8_replacement = [0xEF, 0xBF, 0xBD]"

function utf8_lossy :: "bytes \<Rightarrow> bytes" where
  "utf8_lossy bs =
     (if bs = [] then []
      else (if snd (utf8_next bs) then take (fst (utf8_next bs)) bs else utf8_replacement)
        @ utf8_lossy (drop (fst (utf8_next bs)) bs))"
  by pat_completeness auto
termination
  by (relation "measure length") (use utf8_next_pos in auto)

declare utf8_valid.simps [simp del] utf8_lossy.simps [simp del]

lemma utf8_lossy_valid: "utf8_valid bs \<Longrightarrow> utf8_lossy bs = bs"
proof (induction bs rule: utf8_lossy.induct)
  case (1 bs)
  then show ?case
    by (cases "bs = []") (auto simp: utf8_lossy.simps [of bs] utf8_lossy.simps [of "[]"] utf8_valid.simps [of bs])
qed

text \<open>A well-formed character is read from its own bytes, whatever follows.\<close>

lemma byte_at_nonzero: "byte_at bs i \<noteq> 0 \<Longrightarrow> i < length bs \<and> bs ! i = byte_at bs i"
  by (simp add: byte_at_def split: if_splits)

lemma utf8_cont_nonzero: "utf8_cont b \<Longrightarrow> b \<noteq> 0" "utf8_second3 c b \<Longrightarrow> b \<noteq> 0" "utf8_second4 c b \<Longrightarrow> b \<noteq> 0"
  by (auto simp: utf8_cont_def utf8_second3_def utf8_second4_def split: if_splits)

lemma utf8_next_True:
  "utf8_next bs = (n, True) \<longleftrightarrow> n = utf8_char_width (byte_at bs 0) \<and> (n = 1
     \<or> n = 2 \<and> utf8_cont (byte_at bs 1)
     \<or> n = 3 \<and> utf8_second3 (byte_at bs 0) (byte_at bs 1) \<and> utf8_cont (byte_at bs 2)
     \<or> n = 4 \<and> utf8_second4 (byte_at bs 0) (byte_at bs 1) \<and> utf8_cont (byte_at bs 2) \<and> utf8_cont (byte_at bs 3))"
  unfolding utf8_next_def Let_def by auto

lemma utf8_next_length:
  assumes "bs \<noteq> []" "utf8_next bs = (n, True)"
  shows "n \<le> length bs"
proof -
  have "utf8_cont (byte_at bs i) \<Longrightarrow> i < length bs" "utf8_second3 c (byte_at bs i) \<Longrightarrow> i < length bs"
    "utf8_second4 c (byte_at bs i) \<Longrightarrow> i < length bs" for i c
    using byte_at_nonzero utf8_cont_nonzero by blast+
  then show ?thesis using assms unfolding utf8_next_True by (auto simp: Suc_le_eq numeral_eq_Suc)
qed

lemma utf8_next_prefix:
  assumes "bs \<noteq> []" "utf8_next bs = (n, True)"
  shows "utf8_next (take n bs @ rest) = (n, True)"
proof -
  have n: "n \<le> length bs" "0 < n" using utf8_next_length [OF assms] utf8_next_pos [of bs] assms(2) by auto
  have at1: "byte_at (take n bs @ rest) i = byte_at bs i" if "i < n" for i
    using that n by (simp add: byte_at_def nth_append)
  show ?thesis
    using assms(2) at1 [of 1] at1 [of 2] at1 [of 3] unfolding utf8_next_True at1 [OF n(2)] by auto
qed

text \<open>Lossy decoding always gives a well-formed string.\<close>

lemma utf8_valid_replacement: "utf8_valid (utf8_replacement @ rest) \<longleftrightarrow> utf8_valid rest"
proof -
  have "utf8_next (utf8_replacement @ rest) = (3, True)"
    by (simp add: utf8_next_def utf8_char_width_def utf8_replacement_def Let_def byte_at_def utf8_second3_def utf8_cont_def)
  then show ?thesis by (subst utf8_valid.simps) (simp add: utf8_replacement_def)
qed

lemma utf8_lossy_wellformed: "utf8_valid (utf8_lossy bs)"
proof (induction bs rule: utf8_lossy.induct)
  case (1 bs)
  show ?case
  proof (cases "bs = []")
    case True
    then show ?thesis by (simp add: utf8_lossy.simps [of "[]"] utf8_valid.simps [of "[]"])
  next
    case False
    obtain n ok where n: "utf8_next bs = (n, ok)" by fastforce
    let ?rest = "utf8_lossy (drop n bs)"
    have IH: "utf8_valid ?rest" using 1 [OF False] n by simp
    show ?thesis
    proof (cases ok)
      case True
      then have nx: "utf8_next (take n bs @ ?rest) = (n, True)" using utf8_next_prefix [OF False] n by simp
      have "n \<le> length bs" using utf8_next_length [OF False] n True by simp
      then have "utf8_valid (take n bs @ ?rest)" by (subst utf8_valid.simps) (simp add: nx IH)
      then show ?thesis using False n True by (simp add: utf8_lossy.simps [of bs])
    next
      case False
      then show ?thesis using \<open>bs \<noteq> []\<close> n IH by (simp add: utf8_lossy.simps [of bs] utf8_valid_replacement)
    qed
  qed
qed

definition str_ok :: "string \<Rightarrow> bool" where
  "str_ok s \<longleftrightarrow> utf8_valid (str_bytes s)"

definition from_utf8_lossy :: "bytes \<Rightarrow> string" where
  "from_utf8_lossy bs = bytes_str (utf8_lossy bs)"

lemma from_utf8_lossy_ok: "str_ok (from_utf8_lossy bs)"
  by (simp add: str_ok_def from_utf8_lossy_def utf8_lossy_wellformed)

lemma from_utf8_lossy_str [simp]: "str_ok s \<Longrightarrow> from_utf8_lossy (str_bytes s) = s"
  by (simp add: str_ok_def from_utf8_lossy_def utf8_lossy_valid)


section \<open>Readers and writers\<close>

text \<open>
  A reader is an operation on a position in a fixed buffer, a writer one on a growing buffer. Both may
  fail, and keep the state they have reached when they do.
\<close>

type_synonym ('e, 'a, 's) eop = "'s \<Rightarrow> ('e + 'a) \<times> 's"

definition eret :: "'a \<Rightarrow> ('e, 'a, 's) eop" where
  "eret x s = (Inr x, s)"

definition efail :: "'e \<Rightarrow> ('e, 'a, 's) eop" where
  "efail e s = (Inl e, s)"

definition ebind :: "('e, 'a, 's) eop \<Rightarrow> ('a \<Rightarrow> ('e, 'b, 's) eop) \<Rightarrow> ('e, 'b, 's) eop" where
  "ebind m f s = (case m s of (Inl e, s') \<Rightarrow> (Inl e, s') | (Inr x, s') \<Rightarrow> f x s')"

definition elift :: "'e + 'a \<Rightarrow> ('e, 'a, 's) eop" where
  "elift r = (case r of Inl e \<Rightarrow> efail e | Inr x \<Rightarrow> eret x)"

definition ethen :: "('e, unit, 's) eop \<Rightarrow> ('e, 'b, 's) eop \<Rightarrow> ('e, 'b, 's) eop" where
  "ethen m n = ebind m (\<lambda>_. n)"

definition emit :: "bytes \<Rightarrow> ('e, unit, bytes) eop" where
  "emit bs w = (Inr (), w @ bs)"

fun efor :: "('a \<Rightarrow> ('e, unit, 's) eop) \<Rightarrow> 'a list \<Rightarrow> ('e, unit, 's) eop" where
  "efor f [] = eret ()"
| "efor f (x # xs) = ethen (f x) (efor f xs)"

fun ecollect :: "(nat \<Rightarrow> ('e, 'a, 's) eop) \<Rightarrow> nat \<Rightarrow> nat \<Rightarrow> ('e, 'a list, 's) eop" where
  "ecollect f i 0 = eret []"
| "ecollect f i (Suc k) = ebind (f i) (\<lambda>x. ebind (ecollect f (i + 1) k) (\<lambda>xs. eret (x # xs)))"

record reader =
  rd_bytes :: bytes
  rd_offset :: nat

abbreviation reader_at :: "bytes \<Rightarrow> bytes \<Rightarrow> bytes \<Rightarrow> reader" where
  "reader_at pre bs rest \<equiv> \<lparr>rd_bytes = pre @ bs @ rest, rd_offset = length pre\<rparr>"

definition writes :: "('e, unit, bytes) eop \<Rightarrow> bytes \<Rightarrow> bool" where
  "writes m bs \<longleftrightarrow> (\<forall>w. m w = (Inr (), w @ bs))"

definition parses :: "('e, 'a, reader) eop \<Rightarrow> bytes \<Rightarrow> 'a \<Rightarrow> bool" where
  "parses m bs x \<longleftrightarrow> (\<forall>pre rest. length (pre @ bs @ rest) \<le> U64_MAX \<longrightarrow>
     m (reader_at pre bs rest) = (Inr x, \<lparr>rd_bytes = pre @ bs @ rest, rd_offset = length pre + length bs\<rparr>))"

text \<open>What one side writes, the other reads.\<close>

definition transmits :: "('e, unit, bytes) eop \<Rightarrow> ('f, 'a, reader) eop \<Rightarrow> 'a \<Rightarrow> bool" where
  "transmits w m x \<longleftrightarrow> (\<exists>bs. writes w bs \<and> parses m bs x)"

lemma eop_simps [simp]:
  "eret x s = (Inr x, s)" "efail e s = (Inl e, s)" "emit bs w = (Inr (), w @ bs)"
  by (simp_all add: eret_def efail_def emit_def)

lemma ebind_Inr: "m s = (Inr x, s') \<Longrightarrow> ebind m f s = f x s'"
  by (simp add: ebind_def)

lemma writes_emit: "writes (emit bs) bs"
  by (simp add: writes_def)

lemma writes_ethen: "writes m bs \<Longrightarrow> writes n cs \<Longrightarrow> writes (ethen m n) (bs @ cs)"
  by (simp add: writes_def ethen_def ebind_def)

lemma writes_eret: "writes (eret ()) []"
  by (simp add: writes_def)

lemma parses_ebind:
  assumes "parses m bs x" "parses (f x) cs y"
  shows "parses (ebind m f) (bs @ cs) y"
  unfolding parses_def
proof (intro allI impI)
  fix pre rest assume len: "length (pre @ (bs @ cs) @ rest) \<le> U64_MAX"
  have "m (reader_at pre bs (cs @ rest)) = (Inr x, reader_at (pre @ bs) cs rest)"
    using assms(1) len by (simp add: parses_def)
  moreover have "f x (reader_at (pre @ bs) cs rest) = (Inr y, \<lparr>rd_bytes = pre @ bs @ cs @ rest, rd_offset = length pre + length bs + length cs\<rparr>)"
    using assms(2) len unfolding parses_def by (metis append.assoc length_append)
  ultimately show "ebind m f (reader_at pre (bs @ cs) rest)
      = (Inr y, \<lparr>rd_bytes = pre @ (bs @ cs) @ rest, rd_offset = length pre + length (bs @ cs)\<rparr>)"
    by (simp add: ebind_def add.assoc)
qed

lemma parses_eret: "parses (eret x) [] x"
  by (simp add: parses_def)

lemma transmits_then [wire_intro]:
  assumes "transmits w m x" "transmits v (f x) y"
  shows "transmits (ethen w v) (ebind m f) y"
proof -
  obtain bs cs where b: "writes w bs" "parses m bs x" and c: "writes v cs" "parses (f x) cs y"
    using assms by (auto simp: transmits_def)
  show ?thesis unfolding transmits_def using writes_ethen [OF b(1) c(1)] parses_ebind [of m bs x f, OF b(2) c(2)] by auto
qed

lemma transmits_last [wire_intro]:
  "transmits w m x \<Longrightarrow> transmits w (ebind m (\<lambda>x. eret (f x))) (f x)"
proof -
  assume "transmits w m x"
  then obtain bs where bs: "writes w bs" "parses m bs x" by (auto simp: transmits_def)
  have "parses (ebind m (\<lambda>x. eret (f x))) (bs @ []) (f x)"
    by (rule parses_ebind [OF bs(2)]) (rule parses_eret)
  then show ?thesis using bs(1) by (auto simp: transmits_def)
qed

lemma transmits_nothing [wire_intro]: "transmits (eret ()) (eret x) x"
  unfolding transmits_def by (intro exI conjI) (rule writes_eret, rule parses_eret)

lemma transmits_unit: "transmits w m x \<Longrightarrow> transmits (ethen w (eret ())) m x"
  unfolding transmits_def using writes_ethen [OF _ writes_eret] by force

lemma transmits_collect:
  assumes "\<And>i x. x \<in> set xs \<Longrightarrow> transmits (w x) (m i) x"
  shows "transmits (efor w xs) (ecollect m i (length xs)) xs"
  using assms
proof (induction xs arbitrary: i)
  case (Cons x xs)
  have "transmits (efor w xs) (ebind (ecollect m (i + 1) (length xs)) (\<lambda>ys. eret (x # ys))) (x # xs)"
    by (rule transmits_last) (use Cons in auto)
  then have "transmits (ethen (w x) (efor w xs)) (ecollect m i (Suc (length xs))) (x # xs)"
    unfolding ecollect.simps by (rule transmits_then [OF Cons.prems, rotated]) simp
  then show ?case by simp
qed (simp add: transmits_nothing)

section \<open>Readers stay in the buffer\<close>

definition in_bounds :: "('e, 'a, reader) eop \<Rightarrow> bool" where
  "in_bounds m \<longleftrightarrow> (\<forall>r. rd_offset r \<le> length (rd_bytes r) \<longrightarrow>
     rd_bytes (snd (m r)) = rd_bytes r \<and> rd_offset r \<le> rd_offset (snd (m r)) \<and> rd_offset (snd (m r)) \<le> length (rd_bytes r))"

text \<open>Every value a reader returns has a property.\<close>

definition yields :: "('e, 'a, reader) eop \<Rightarrow> ('a \<Rightarrow> bool) \<Rightarrow> bool" where
  "yields m P \<longleftrightarrow> (\<forall>r x r'. m r = (Inr x, r') \<longrightarrow> P x)"

named_theorems bounds_intro
named_theorems yields_intro

lemma in_boundsD:
  assumes "in_bounds m" "m r = (a, r')" "rd_offset r \<le> length (rd_bytes r)"
  shows "rd_bytes r' = rd_bytes r" "rd_offset r \<le> rd_offset r'" "rd_offset r' \<le> length (rd_bytes r)"
  using assms unfolding in_bounds_def by (metis snd_conv)+

lemma in_bounds_basic [bounds_intro]: "in_bounds (eret x)" "in_bounds (efail e)"
  by (simp_all add: in_bounds_def)

lemma in_bounds_ebind [bounds_intro]:
  assumes m: "in_bounds m" and f: "\<And>x. in_bounds (f x)"
  shows "in_bounds (ebind m f)"
  unfolding in_bounds_def
proof (intro allI impI)
  fix r :: reader assume r: "rd_offset r \<le> length (rd_bytes r)"
  obtain a s where s: "m r = (a, s)" by fastforce
  have 1: "rd_bytes s = rd_bytes r" "rd_offset r \<le> rd_offset s" "rd_offset s \<le> length (rd_bytes r)"
    using in_boundsD [OF m s r] by simp_all
  show "rd_bytes (snd (ebind m f r)) = rd_bytes r \<and> rd_offset r \<le> rd_offset (snd (ebind m f r)) \<and> rd_offset (snd (ebind m f r)) \<le> length (rd_bytes r)"
  proof (cases a)
    case (Inl e)
    then show ?thesis using s 1 by (simp add: ebind_def)
  next
    case (Inr x)
    have "rd_bytes (snd (f x s)) = rd_bytes s \<and> rd_offset s \<le> rd_offset (snd (f x s)) \<and> rd_offset (snd (f x s)) \<le> length (rd_bytes s)"
      using f [of x] 1 unfolding in_bounds_def by metis
    then show ?thesis using s Inr 1 by (simp add: ebind_def)
  qed
qed

lemma in_bounds_if [bounds_intro]: "(b \<Longrightarrow> in_bounds m) \<Longrightarrow> (\<not> b \<Longrightarrow> in_bounds n) \<Longrightarrow> in_bounds (if b then m else n)"
  by simp

lemma in_bounds_collect [bounds_intro]: "(\<And>i. in_bounds (m i)) \<Longrightarrow> in_bounds (ecollect m i k)"
  by (induction k arbitrary: i) (auto intro: bounds_intro)

lemma yieldsD: "yields m P \<Longrightarrow> m r = (Inr x, r') \<Longrightarrow> P x"
  by (auto simp: yields_def)

lemma yields_eret: "P x \<Longrightarrow> yields (eret x) P"
  by (simp add: yields_def)

lemma yields_fail: "yields (efail e) P"
  by (simp add: yields_def)

lemma yields_ebind: "yields m Q \<Longrightarrow> (\<And>x. Q x \<Longrightarrow> yields (f x) P) \<Longrightarrow> yields (ebind m f) P"
  unfolding yields_def ebind_def by (fastforce split: prod.splits sum.splits)

lemma yields_any: "yields m (\<lambda>_. True)"
  by (simp add: yields_def)

lemma yields_collect:
  assumes "\<And>i. yields (m i) P"
  shows "yields (ecollect m i k) (\<lambda>xs. length xs = k \<and> (\<forall>x \<in> set xs. P x))"
proof (induction k arbitrary: i)
  case (Suc k)
  show ?case unfolding ecollect.simps by (rule yields_ebind [OF assms], rule yields_ebind [OF Suc], rule yields_eret) auto
qed (simp add: yields_def)

end
