(* ===== verification/P9_Wire.thy ===== *)
theory P9_Wire
  imports Wire_Bytes Mrs_Decimal
begin

text \<open>
  Model of \<^verbatim>\<open>transports/mount-rs-9p/src/wire.rs\<close>: the bounded little-endian reader and the writer of the
  9P codec, with the errors they report, and that they are inverse to each other.
\<close>

section \<open>Errors\<close>

record p9_error =
  p9e_message :: string
  p9e_offset :: "nat option"

definition p9_error_new :: "string \<Rightarrow> p9_error" where
  "p9_error_new m = \<lparr>p9e_message = m, p9e_offset = None\<rparr>"

definition p9_error_at :: "string \<Rightarrow> nat \<Rightarrow> p9_error" where
  "p9_error_at m offset = \<lparr>p9e_message = m, p9e_offset = Some offset\<rparr>"

definition p9_error_display :: "p9_error \<Rightarrow> string" where
  "p9_error_display e =
     (case p9e_offset e of Some offset \<Rightarrow> p9e_message e @ '' at byte '' @ u64_to_string offset | None \<Rightarrow> p9e_message e)"

definition P9_MAX_STRING :: nat where "P9_MAX_STRING = 0xffff"
definition P9_MAX_ITEM :: nat where "P9_MAX_ITEM = 16 * 1024 * 1024"

record p9_qid =
  q_type :: u8
  q_version :: u32
  q_path :: u64b

type_synonym 'a p9_read = "(p9_error, 'a, reader) eop"
type_synonym p9_write = "(p9_error, unit, bytes) eop"

section \<open>The reader\<close>

definition reader_new :: "bytes \<Rightarrow> reader" where
  "reader_new bs = \<lparr>rd_bytes = bs, rd_offset = 0\<rparr>"

definition reader_with_offset :: "bytes \<Rightarrow> nat \<Rightarrow> p9_error + reader" where
  "reader_with_offset bs offset =
     (if offset > length bs then Inl (p9_error_at ''reader offset is beyond the buffer'' offset)
      else Inr \<lparr>rd_bytes = bs, rd_offset = offset\<rparr>)"

definition rd_remaining :: "reader \<Rightarrow> nat" where
  "rd_remaining r = length (rd_bytes r) - rd_offset r"

definition rd_at_end :: "reader \<Rightarrow> bool" where
  "rd_at_end r \<longleftrightarrow> rd_offset r = length (rd_bytes r)"

definition checked_end :: "reader \<Rightarrow> nat \<Rightarrow> nat option" where
  "checked_end r count =
     (case checked_add (rd_offset r) count of None \<Rightarrow> None | Some stop \<Rightarrow> if stop \<le> length (rd_bytes r) then Some stop else None)"

definition rd_need :: "nat \<Rightarrow> string \<Rightarrow> nat p9_read" where
  "rd_need count what r =
     (case checked_end r count of
        None \<Rightarrow> (Inl (p9_error_at (''truncated '' @ what @ '': need '' @ u64_to_string count @ '' bytes, ''
                   @ u64_to_string (rd_remaining r) @ '' left'') (rd_offset r)), r)
      | Some stop \<Rightarrow> (Inr (rd_offset r), r\<lparr>rd_offset := stop\<rparr>))"

definition rd_slice :: "nat \<Rightarrow> nat \<Rightarrow> bytes p9_read" where
  "rd_slice start count r = (Inr (take count (drop start (rd_bytes r))), r)"

definition rd_raw :: "nat \<Rightarrow> string \<Rightarrow> bytes p9_read" where
  "rd_raw count what = ebind (rd_need count what) (\<lambda>start. rd_slice start count)"

definition rd_u8 :: "string \<Rightarrow> u8 p9_read" where
  "rd_u8 what = ebind (rd_raw 1 what) (\<lambda>bs. eret (hd bs))"

definition rd_u16 :: "string \<Rightarrow> u16 p9_read" where
  "rd_u16 what = ebind (rd_raw 2 what) (\<lambda>bs. eret (word_of_nat (le_value bs)))"

definition rd_u32 :: "string \<Rightarrow> u32 p9_read" where
  "rd_u32 what = ebind (rd_raw 4 what) (\<lambda>bs. eret (word_of_nat (le_value bs)))"

definition rd_u64 :: "string \<Rightarrow> u64b p9_read" where
  "rd_u64 what = ebind (rd_raw 8 what) (\<lambda>bs. eret (word_of_nat (le_value bs)))"

definition rd_over_limit :: "string \<Rightarrow> nat \<Rightarrow> nat \<Rightarrow> nat \<Rightarrow> 'a p9_read" where
  "rd_over_limit what len max_len back r =
     (Inl (p9_error_at (what @ '' is '' @ u64_to_string len @ '' bytes, over the '' @ u64_to_string max_len @ ''-byte limit'')
        (rd_offset r - back)), r)"

definition rd_string_max :: "nat \<Rightarrow> string \<Rightarrow> string p9_read" where
  "rd_string_max max_len what =
     ebind (rd_u16 (what @ '' length'')) (\<lambda>len.
     if unat len > max_len then rd_over_limit what (unat len) max_len 2
     else ebind (rd_raw (unat len) what) (\<lambda>bs. eret (from_utf8_lossy bs)))"

definition rd_string :: "string \<Rightarrow> string p9_read" where
  "rd_string = rd_string_max P9_MAX_STRING"

definition rd_qid :: "string \<Rightarrow> p9_qid p9_read" where
  "rd_qid what =
     ebind (rd_u8 (what @ '' type'')) (\<lambda>t. ebind (rd_u32 (what @ '' version'')) (\<lambda>v. ebind (rd_u64 (what @ '' path'')) (\<lambda>p.
     eret \<lparr>q_type = t, q_version = v, q_path = p\<rparr>)))"

definition rd_blob_max :: "nat \<Rightarrow> string \<Rightarrow> bytes p9_read" where
  "rd_blob_max max_len what =
     ebind (rd_u32 (what @ '' count'')) (\<lambda>len.
     if unat len > max_len then rd_over_limit what (unat len) max_len 4 else rd_raw (unat len) what)"

definition rd_blob :: "string \<Rightarrow> bytes p9_read" where
  "rd_blob = rd_blob_max P9_MAX_ITEM"

definition rd_rest :: "bytes p9_read" where
  "rd_rest r = rd_raw (rd_remaining r) ''rest'' r"

definition rd_end :: "string \<Rightarrow> unit p9_read" where
  "rd_end what r =
     (if rd_remaining r \<noteq> 0
      then (Inl (p9_error_at (what @ '' has '' @ u64_to_string (rd_remaining r) @ '' trailing bytes'') (rd_offset r)), r)
      else (Inr (), r))"

section \<open>The writer\<close>

definition wr_raw :: "bytes \<Rightarrow> p9_write" where
  "wr_raw = emit"

definition wr_u8 :: "u8 \<Rightarrow> p9_write" where
  "wr_u8 v = emit [v]"

definition wr_u16 :: "u16 \<Rightarrow> p9_write" where
  "wr_u16 v = emit (le_bytes 2 (unat v))"

definition wr_u32 :: "u32 \<Rightarrow> p9_write" where
  "wr_u32 v = emit (le_bytes 4 (unat v))"

definition wr_u64 :: "u64b \<Rightarrow> p9_write" where
  "wr_u64 v = emit (le_bytes 8 (unat v))"

definition wr_string :: "string \<Rightarrow> p9_write" where
  "wr_string v =
     (let encoded = str_bytes v in
      if length encoded > P9_MAX_STRING
      then efail (p9_error_new (''string is '' @ u64_to_string (length encoded) @ '' bytes, over the 16-bit count''))
      else ethen (wr_u16 (word_of_nat (length encoded))) (wr_raw encoded))"

definition wr_qid :: "p9_qid \<Rightarrow> p9_write" where
  "wr_qid q = ethen (wr_u8 (q_type q)) (ethen (wr_u32 (q_version q)) (wr_u64 (q_path q)))"

definition wr_blob :: "bytes \<Rightarrow> p9_write" where
  "wr_blob bs = ethen (wr_u32 (word_of_nat (length bs))) (wr_raw bs)"

definition patch_u32 :: "nat \<Rightarrow> u32 \<Rightarrow> p9_write" where
  "patch_u32 pos v w =
     (if pos + 4 > length w
      then (Inl (p9_error_at (''cannot patch 4 bytes at '' @ u64_to_string pos @ '' of '' @ u64_to_string (length w)) pos), w)
      else (Inr (), take pos w @ le_bytes 4 (unat v) @ drop (pos + 4) w))"

section \<open>What is written is read\<close>

lemma parses_raw: "parses (rd_raw (length bs) what) bs bs"
  by (simp add: parses_def rd_raw_def ebind_def rd_need_def checked_end_def checked_add_def rd_slice_def)

lemma transmits_int:
  fixes v :: "'a :: len word"
  assumes "LENGTH('a) \<le> 8 * k"
  shows "transmits (emit (le_bytes k (unat v))) (ebind (rd_raw k what) (\<lambda>bs. eret (word_of_nat (le_value bs)))) v"
proof -
  have "unat v < 256 ^ k"
  proof -
    have "unat v < 2 ^ LENGTH('a)" by (rule unsigned_less)
    also have "\<dots> \<le> 2 ^ (8 * k)" using assms by (intro power_increasing) auto
    finally show ?thesis by (simp add: power_mult)
  qed
  moreover have "transmits (emit (le_bytes k (unat v))) (rd_raw k what) (le_bytes k (unat v))"
    unfolding transmits_def using writes_emit parses_raw [of "le_bytes k (unat v)" what] by (metis le_bytes_length)
  from transmits_last [OF this, of "\<lambda>bs. word_of_nat (le_value bs)"]
  have "transmits (emit (le_bytes k (unat v))) (ebind (rd_raw k what) (\<lambda>bs. eret (word_of_nat (le_value bs)))) (word_of_nat (le_value (le_bytes k (unat v))) :: 'a word)" .
  ultimately show ?thesis by (simp add: le_value_bytes)
qed

lemma transmits_u16 [wire_intro]: "transmits (wr_u16 v) (rd_u16 what) v"
  unfolding wr_u16_def rd_u16_def by (rule transmits_int) simp

lemma transmits_u32 [wire_intro]: "transmits (wr_u32 v) (rd_u32 what) v"
  unfolding wr_u32_def rd_u32_def by (rule transmits_int) simp

lemma transmits_u64 [wire_intro]: "transmits (wr_u64 v) (rd_u64 what) v"
  unfolding wr_u64_def rd_u64_def by (rule transmits_int) simp

lemma transmits_u8 [wire_intro]: "transmits (wr_u8 v) (rd_u8 what) v"
proof -
  have "transmits (wr_u8 v) (rd_raw 1 what) [v]"
    unfolding transmits_def wr_u8_def using writes_emit parses_raw [of "[v]" what] by (metis One_nat_def length_Cons list.size(3))
  from transmits_last [OF this, of hd] show ?thesis by (simp add: rd_u8_def)
qed

lemma transmits_raw: "n = length bs \<Longrightarrow> transmits (wr_raw bs) (rd_raw n what) bs"
  unfolding transmits_def wr_raw_def using writes_emit parses_raw by blast

definition p9_string_ok :: "string \<Rightarrow> bool" where
  "p9_string_ok s \<longleftrightarrow> str_ok s \<and> length s \<le> P9_MAX_STRING"

lemma transmits_string [wire_intro]:
  assumes "p9_string_ok s"
  shows "transmits (wr_string s) (rd_string what) s"
proof -
  have len: "unat (word_of_nat (length s) :: u16) = length s" and ok: "length s \<le> P9_MAX_STRING" "str_ok s"
    using assms by (simp_all add: p9_string_ok_def P9_MAX_STRING_def unat_of_nat)
  have "transmits (wr_raw (str_bytes s)) (ebind (rd_raw (length s) what) (\<lambda>bs. eret (from_utf8_lossy bs))) s"
    using transmits_last [OF transmits_raw [OF refl], of "str_bytes s" what from_utf8_lossy] ok by simp
  then show ?thesis
    using ok unfolding wr_string_def rd_string_def rd_string_max_def Let_def
    by (auto simp: len intro!: transmits_then transmits_u16)
qed

lemma transmits_qid [wire_intro]: "transmits (wr_qid q) (rd_qid what) q"
proof -
  have "transmits (wr_qid q) (rd_qid what) \<lparr>q_type = q_type q, q_version = q_version q, q_path = q_path q\<rparr>"
    unfolding wr_qid_def rd_qid_def by (rule wire_intro)+
  then show ?thesis by (cases q) simp
qed

lemma transmits_blob [wire_intro]:
  assumes "length bs \<le> P9_MAX_ITEM"
  shows "transmits (wr_blob bs) (rd_blob what) bs"
proof -
  have len: "unat (word_of_nat (length bs) :: u32) = length bs"
    using assms by (simp add: P9_MAX_ITEM_def unat_of_nat)
  then show ?thesis
    unfolding wr_blob_def rd_blob_def rd_blob_max_def using assms by (auto simp: len intro!: transmits_then transmits_u32 transmits_raw)
qed

section \<open>Bounds and types of what is read\<close>

lemma in_bounds_raw [bounds_intro]: "in_bounds (rd_raw count what)"
  by (auto simp: in_bounds_def rd_raw_def ebind_def rd_need_def checked_end_def checked_add_def rd_slice_def split: if_splits)

lemma in_bounds_over [bounds_intro]: "in_bounds (rd_over_limit what len max_len back)"
  by (simp add: in_bounds_def rd_over_limit_def)

lemma in_bounds_wire [bounds_intro]:
  "in_bounds (rd_u8 what)" "in_bounds (rd_u16 what)" "in_bounds (rd_u32 what)" "in_bounds (rd_u64 what)"
  "in_bounds (rd_string what)" "in_bounds (rd_blob what)"
  unfolding rd_u8_def rd_u16_def rd_u32_def rd_u64_def rd_string_def rd_string_max_def rd_blob_def rd_blob_max_def
  by (intro bounds_intro)+

lemma in_bounds_qid [bounds_intro]: "in_bounds (rd_qid what)"
  unfolding rd_qid_def by (intro bounds_intro)

lemma in_bounds_end [bounds_intro]: "in_bounds (rd_end what)"
  by (simp add: in_bounds_def rd_end_def)

lemma raw_length: "rd_raw count what r = (Inr bs, r') \<Longrightarrow> length bs = count"
  by (auto simp: rd_raw_def ebind_def rd_need_def checked_end_def checked_add_def rd_slice_def split: if_splits)

lemma yields_string: "yields (rd_string what) str_ok"
  unfolding rd_string_def rd_string_max_def
  by (rule yields_ebind [OF yields_any])
    (auto intro!: yields_ebind [OF yields_any] yields_eret from_utf8_lossy_ok simp: yields_def rd_over_limit_def ebind_def
      split: sum.splits prod.splits if_splits)

lemma yields_blob: "yields (rd_blob what) (\<lambda>bs. length bs \<le> P9_MAX_ITEM)"
  unfolding rd_blob_def rd_blob_max_def
  by (rule yields_ebind [OF yields_any]) (auto simp: yields_def rd_over_limit_def dest: raw_length split: if_splits)

end
