(* ===== verification/P9_Messages.thy ===== *)
theory P9_Messages
  imports P9_Wire
begin

text \<open>
  The 9P2000.L messages of \<^verbatim>\<open>transports/mount-rs-9p/src/protocol.rs\<close>: a record for each structure, and its
  writer and reader, field by field as the source has them.
\<close>

section \<open>Shared parts\<close>

definition P9_MAXWELEM :: nat where "P9_MAXWELEM = 16"

record p9_time =
  time_sec :: u64b
  time_nsec :: u64b

definition write_time :: "p9_time \<Rightarrow> p9_write" where
  "write_time v = ethen (wr_u64 (time_sec v)) (wr_u64 (time_nsec v))"

definition read_time :: "string \<Rightarrow> p9_time p9_read" where
  "read_time what =
     ebind (rd_u64 (what @ ''_sec'')) (\<lambda>s. ebind (rd_u64 (what @ ''_nsec'')) (\<lambda>n. eret \<lparr>time_sec = s, time_nsec = n\<rparr>))"

definition check_elements :: "nat \<Rightarrow> string \<Rightarrow> p9_error + nat" where
  "check_elements count what =
     (if count > P9_MAXWELEM
      then Inl (p9_error_new (what @ '' is '' @ u64_to_string count @ '', over the 16-element limit''))
      else Inr count)"

definition read_element_count :: "string \<Rightarrow> nat p9_read" where
  "read_element_count what = ebind (rd_u16 what) (\<lambda>n. elift (check_elements (unat n) what))"

record twalk =
  twalk_fid :: u32
  twalk_newfid :: u32
  twalk_wnames :: "string list"

definition write_twalk :: "twalk \<Rightarrow> p9_write" where
  "write_twalk v =
     ethen (wr_u32 (twalk_fid v)) (ethen (wr_u32 (twalk_newfid v))
     (ebind (elift (check_elements (length (twalk_wnames v)) ''nwname'')) (\<lambda>n.
     ethen (wr_u16 (word_of_nat n)) (efor wr_string (twalk_wnames v)))))"

definition read_twalk :: "twalk p9_read" where
  "read_twalk =
     ebind (rd_u32 ''fid'') (\<lambda>x0. ebind (rd_u32 ''newfid'') (\<lambda>x1. ebind (read_element_count ''nwname'') (\<lambda>count.
     ebind (ecollect (\<lambda>i. rd_string (''wname['' @ u64_to_string i @ '']'')) 0 count) (\<lambda>x2.
     eret \<lparr>twalk_fid = x0, twalk_newfid = x1, twalk_wnames = x2\<rparr>))))"

record rwalk =
  rwalk_wqids :: "p9_qid list"

definition write_rwalk :: "rwalk \<Rightarrow> p9_write" where
  "write_rwalk v =
     ebind (elift (check_elements (length (rwalk_wqids v)) ''nwqid'')) (\<lambda>n.
     ethen (wr_u16 (word_of_nat n)) (efor wr_qid (rwalk_wqids v)))"

definition read_rwalk :: "rwalk p9_read" where
  "read_rwalk =
     ebind (read_element_count ''nwqid'') (\<lambda>count.
     ebind (ecollect (\<lambda>i. rd_qid (''wqid['' @ u64_to_string i @ '']'')) 0 count) (\<lambda>x0. eret \<lparr>rwalk_wqids = x0\<rparr>))"

section \<open>Messages\<close>

record tversion =
  tversion_msize :: "u32"
  tversion_version :: "string"

definition write_tversion :: "tversion \<Rightarrow> p9_write" where
  "write_tversion v =
     ethen (wr_u32 (tversion_msize v)) (wr_string (tversion_version v))"

definition read_tversion :: "tversion p9_read" where
  "read_tversion =
     ebind (rd_u32 ''msize'') (\<lambda>x0. ebind (rd_string ''version'') (\<lambda>x1.
     eret \<lparr>tversion_msize = x0, tversion_version = x1\<rparr>))"

abbreviation write_rversion :: "tversion \<Rightarrow> p9_write" where
  "write_rversion \<equiv> write_tversion"

abbreviation read_rversion :: "tversion p9_read" where
  "read_rversion \<equiv> read_tversion"

record tauth =
  tauth_afid :: "u32"
  tauth_uname :: "string"
  tauth_aname :: "string"
  tauth_n_uname :: "u32"

definition write_tauth :: "tauth \<Rightarrow> p9_write" where
  "write_tauth v =
     ethen (wr_u32 (tauth_afid v)) (ethen (wr_string (tauth_uname v)) (ethen (wr_string (tauth_aname v)) (wr_u32 (tauth_n_uname v))))"

definition read_tauth :: "tauth p9_read" where
  "read_tauth =
     ebind (rd_u32 ''afid'') (\<lambda>x0. ebind (rd_string ''uname'') (\<lambda>x1. ebind (rd_string ''aname'') (\<lambda>x2.
     ebind (rd_u32 ''n_uname'') (\<lambda>x3.
     eret \<lparr>tauth_afid = x0, tauth_uname = x1, tauth_aname = x2, tauth_n_uname = x3\<rparr>))))"

record rauth =
  rauth_aqid :: "p9_qid"

definition write_rauth :: "rauth \<Rightarrow> p9_write" where
  "write_rauth v =
     wr_qid (rauth_aqid v)"

definition read_rauth :: "rauth p9_read" where
  "read_rauth =
     ebind (rd_qid ''aqid'') (\<lambda>x0.
     eret \<lparr>rauth_aqid = x0\<rparr>)"

record tattach =
  tattach_fid :: "u32"
  tattach_afid :: "u32"
  tattach_uname :: "string"
  tattach_aname :: "string"
  tattach_n_uname :: "u32"

definition write_tattach :: "tattach \<Rightarrow> p9_write" where
  "write_tattach v =
     ethen (wr_u32 (tattach_fid v)) (ethen (wr_u32 (tattach_afid v)) (ethen (wr_string (tattach_uname v)) (ethen (wr_string (tattach_aname v)) (wr_u32 (tattach_n_uname v)))))"

definition read_tattach :: "tattach p9_read" where
  "read_tattach =
     ebind (rd_u32 ''fid'') (\<lambda>x0. ebind (rd_u32 ''afid'') (\<lambda>x1. ebind (rd_string ''uname'') (\<lambda>x2.
     ebind (rd_string ''aname'') (\<lambda>x3. ebind (rd_u32 ''n_uname'') (\<lambda>x4.
     eret \<lparr>tattach_fid = x0, tattach_afid = x1, tattach_uname = x2, tattach_aname = x3, tattach_n_uname = x4\<rparr>)))))"

record rattach =
  rattach_qid :: "p9_qid"

definition write_rattach :: "rattach \<Rightarrow> p9_write" where
  "write_rattach v =
     wr_qid (rattach_qid v)"

definition read_rattach :: "rattach p9_read" where
  "read_rattach =
     ebind (rd_qid ''qid'') (\<lambda>x0.
     eret \<lparr>rattach_qid = x0\<rparr>)"

record rlerror =
  rlerror_ecode :: "u32"

definition write_rlerror :: "rlerror \<Rightarrow> p9_write" where
  "write_rlerror v =
     wr_u32 (rlerror_ecode v)"

definition read_rlerror :: "rlerror p9_read" where
  "read_rlerror =
     ebind (rd_u32 ''ecode'') (\<lambda>x0.
     eret \<lparr>rlerror_ecode = x0\<rparr>)"

record tflush =
  tflush_oldtag :: "u16"

definition write_tflush :: "tflush \<Rightarrow> p9_write" where
  "write_tflush v =
     wr_u16 (tflush_oldtag v)"

definition read_tflush :: "tflush p9_read" where
  "read_tflush =
     ebind (rd_u16 ''oldtag'') (\<lambda>x0.
     eret \<lparr>tflush_oldtag = x0\<rparr>)"

record tread =
  tread_fid :: "u32"
  tread_offset :: "u64b"
  tread_count :: "u32"

definition write_tread :: "tread \<Rightarrow> p9_write" where
  "write_tread v =
     ethen (wr_u32 (tread_fid v)) (ethen (wr_u64 (tread_offset v)) (wr_u32 (tread_count v)))"

definition read_tread :: "tread p9_read" where
  "read_tread =
     ebind (rd_u32 ''fid'') (\<lambda>x0. ebind (rd_u64 ''offset'') (\<lambda>x1. ebind (rd_u32 ''count'') (\<lambda>x2.
     eret \<lparr>tread_fid = x0, tread_offset = x1, tread_count = x2\<rparr>)))"

record rread =
  rread_data :: "bytes"

definition write_rread :: "rread \<Rightarrow> p9_write" where
  "write_rread v =
     wr_blob (rread_data v)"

definition read_rread :: "rread p9_read" where
  "read_rread =
     ebind (rd_blob ''read data'') (\<lambda>x0.
     eret \<lparr>rread_data = x0\<rparr>)"

record twrite =
  twrite_fid :: "u32"
  twrite_offset :: "u64b"
  twrite_data :: "bytes"

definition write_twrite :: "twrite \<Rightarrow> p9_write" where
  "write_twrite v =
     ethen (wr_u32 (twrite_fid v)) (ethen (wr_u64 (twrite_offset v)) (wr_blob (twrite_data v)))"

definition read_twrite :: "twrite p9_read" where
  "read_twrite =
     ebind (rd_u32 ''fid'') (\<lambda>x0. ebind (rd_u64 ''offset'') (\<lambda>x1. ebind (rd_blob ''write data'') (\<lambda>x2.
     eret \<lparr>twrite_fid = x0, twrite_offset = x1, twrite_data = x2\<rparr>)))"

record rwrite =
  rwrite_count :: "u32"

definition write_rwrite :: "rwrite \<Rightarrow> p9_write" where
  "write_rwrite v =
     wr_u32 (rwrite_count v)"

definition read_rwrite :: "rwrite p9_read" where
  "read_rwrite =
     ebind (rd_u32 ''count'') (\<lambda>x0.
     eret \<lparr>rwrite_count = x0\<rparr>)"

record fid_request =
  fid_request_fid :: "u32"

definition write_fid_request :: "fid_request \<Rightarrow> p9_write" where
  "write_fid_request v =
     wr_u32 (fid_request_fid v)"

definition read_fid_request :: "fid_request p9_read" where
  "read_fid_request =
     ebind (rd_u32 ''fid'') (\<lambda>x0.
     eret \<lparr>fid_request_fid = x0\<rparr>)"

abbreviation write_tclunk :: "fid_request \<Rightarrow> p9_write" where
  "write_tclunk \<equiv> write_fid_request"

abbreviation read_tclunk :: "fid_request p9_read" where
  "read_tclunk \<equiv> read_fid_request"

abbreviation write_tremove :: "fid_request \<Rightarrow> p9_write" where
  "write_tremove \<equiv> write_fid_request"

abbreviation read_tremove :: "fid_request p9_read" where
  "read_tremove \<equiv> read_fid_request"

abbreviation write_tstatfs :: "fid_request \<Rightarrow> p9_write" where
  "write_tstatfs \<equiv> write_fid_request"

abbreviation read_tstatfs :: "fid_request p9_read" where
  "read_tstatfs \<equiv> read_fid_request"

record rstatfs =
  rstatfs_type :: "u32"
  rstatfs_bsize :: "u32"
  rstatfs_blocks :: "u64b"
  rstatfs_bfree :: "u64b"
  rstatfs_bavail :: "u64b"
  rstatfs_files :: "u64b"
  rstatfs_ffree :: "u64b"
  rstatfs_fsid :: "u64b"
  rstatfs_namelen :: "u32"

definition write_rstatfs :: "rstatfs \<Rightarrow> p9_write" where
  "write_rstatfs v =
     ethen (wr_u32 (rstatfs_type v)) (ethen (wr_u32 (rstatfs_bsize v)) (ethen (wr_u64 (rstatfs_blocks v)) (ethen (wr_u64 (rstatfs_bfree v)) (ethen (wr_u64 (rstatfs_bavail v)) (ethen (wr_u64 (rstatfs_files v)) (ethen (wr_u64 (rstatfs_ffree v)) (ethen (wr_u64 (rstatfs_fsid v)) (wr_u32 (rstatfs_namelen v)))))))))"

definition read_rstatfs :: "rstatfs p9_read" where
  "read_rstatfs =
     ebind (rd_u32 ''type'') (\<lambda>x0. ebind (rd_u32 ''bsize'') (\<lambda>x1. ebind (rd_u64 ''blocks'') (\<lambda>x2.
     ebind (rd_u64 ''bfree'') (\<lambda>x3. ebind (rd_u64 ''bavail'') (\<lambda>x4. ebind (rd_u64 ''files'') (\<lambda>x5.
     ebind (rd_u64 ''ffree'') (\<lambda>x6. ebind (rd_u64 ''fsid'') (\<lambda>x7. ebind (rd_u32 ''namelen'') (\<lambda>x8.
     eret \<lparr>rstatfs_type = x0, rstatfs_bsize = x1, rstatfs_blocks = x2, rstatfs_bfree = x3, rstatfs_bavail = x4, rstatfs_files = x5, rstatfs_ffree = x6, rstatfs_fsid = x7, rstatfs_namelen = x8\<rparr>)))))))))"

record tlopen =
  tlopen_fid :: "u32"
  tlopen_flags :: "u32"

definition write_tlopen :: "tlopen \<Rightarrow> p9_write" where
  "write_tlopen v =
     ethen (wr_u32 (tlopen_fid v)) (wr_u32 (tlopen_flags v))"

definition read_tlopen :: "tlopen p9_read" where
  "read_tlopen =
     ebind (rd_u32 ''fid'') (\<lambda>x0. ebind (rd_u32 ''flags'') (\<lambda>x1.
     eret \<lparr>tlopen_fid = x0, tlopen_flags = x1\<rparr>))"

record rlopen =
  rlopen_qid :: "p9_qid"
  rlopen_iounit :: "u32"

definition write_rlopen :: "rlopen \<Rightarrow> p9_write" where
  "write_rlopen v =
     ethen (wr_qid (rlopen_qid v)) (wr_u32 (rlopen_iounit v))"

definition read_rlopen :: "rlopen p9_read" where
  "read_rlopen =
     ebind (rd_qid ''qid'') (\<lambda>x0. ebind (rd_u32 ''iounit'') (\<lambda>x1.
     eret \<lparr>rlopen_qid = x0, rlopen_iounit = x1\<rparr>))"

abbreviation write_rlcreate :: "rlopen \<Rightarrow> p9_write" where
  "write_rlcreate \<equiv> write_rlopen"

abbreviation read_rlcreate :: "rlopen p9_read" where
  "read_rlcreate \<equiv> read_rlopen"

record tlcreate =
  tlcreate_fid :: "u32"
  tlcreate_name :: "string"
  tlcreate_flags :: "u32"
  tlcreate_mode :: "u32"
  tlcreate_gid :: "u32"

definition write_tlcreate :: "tlcreate \<Rightarrow> p9_write" where
  "write_tlcreate v =
     ethen (wr_u32 (tlcreate_fid v)) (ethen (wr_string (tlcreate_name v)) (ethen (wr_u32 (tlcreate_flags v)) (ethen (wr_u32 (tlcreate_mode v)) (wr_u32 (tlcreate_gid v)))))"

definition read_tlcreate :: "tlcreate p9_read" where
  "read_tlcreate =
     ebind (rd_u32 ''fid'') (\<lambda>x0. ebind (rd_string ''name'') (\<lambda>x1. ebind (rd_u32 ''flags'') (\<lambda>x2.
     ebind (rd_u32 ''mode'') (\<lambda>x3. ebind (rd_u32 ''gid'') (\<lambda>x4.
     eret \<lparr>tlcreate_fid = x0, tlcreate_name = x1, tlcreate_flags = x2, tlcreate_mode = x3, tlcreate_gid = x4\<rparr>)))))"

record qid_reply =
  qid_reply_qid :: "p9_qid"

definition write_qid_reply :: "qid_reply \<Rightarrow> p9_write" where
  "write_qid_reply v =
     wr_qid (qid_reply_qid v)"

definition read_qid_reply :: "qid_reply p9_read" where
  "read_qid_reply =
     ebind (rd_qid ''qid'') (\<lambda>x0.
     eret \<lparr>qid_reply_qid = x0\<rparr>)"

abbreviation write_rsymlink :: "qid_reply \<Rightarrow> p9_write" where
  "write_rsymlink \<equiv> write_qid_reply"

abbreviation read_rsymlink :: "qid_reply p9_read" where
  "read_rsymlink \<equiv> read_qid_reply"

abbreviation write_rmknod :: "qid_reply \<Rightarrow> p9_write" where
  "write_rmknod \<equiv> write_qid_reply"

abbreviation read_rmknod :: "qid_reply p9_read" where
  "read_rmknod \<equiv> read_qid_reply"

abbreviation write_rmkdir :: "qid_reply \<Rightarrow> p9_write" where
  "write_rmkdir \<equiv> write_qid_reply"

abbreviation read_rmkdir :: "qid_reply p9_read" where
  "read_rmkdir \<equiv> read_qid_reply"

record tsymlink =
  tsymlink_dfid :: "u32"
  tsymlink_name :: "string"
  tsymlink_symtgt :: "string"
  tsymlink_gid :: "u32"

definition write_tsymlink :: "tsymlink \<Rightarrow> p9_write" where
  "write_tsymlink v =
     ethen (wr_u32 (tsymlink_dfid v)) (ethen (wr_string (tsymlink_name v)) (ethen (wr_string (tsymlink_symtgt v)) (wr_u32 (tsymlink_gid v))))"

definition read_tsymlink :: "tsymlink p9_read" where
  "read_tsymlink =
     ebind (rd_u32 ''dfid'') (\<lambda>x0. ebind (rd_string ''name'') (\<lambda>x1. ebind (rd_string ''symtgt'') (\<lambda>x2.
     ebind (rd_u32 ''gid'') (\<lambda>x3.
     eret \<lparr>tsymlink_dfid = x0, tsymlink_name = x1, tsymlink_symtgt = x2, tsymlink_gid = x3\<rparr>))))"

record tmknod =
  tmknod_dfid :: "u32"
  tmknod_name :: "string"
  tmknod_mode :: "u32"
  tmknod_major :: "u32"
  tmknod_minor :: "u32"
  tmknod_gid :: "u32"

definition write_tmknod :: "tmknod \<Rightarrow> p9_write" where
  "write_tmknod v =
     ethen (wr_u32 (tmknod_dfid v)) (ethen (wr_string (tmknod_name v)) (ethen (wr_u32 (tmknod_mode v)) (ethen (wr_u32 (tmknod_major v)) (ethen (wr_u32 (tmknod_minor v)) (wr_u32 (tmknod_gid v))))))"

definition read_tmknod :: "tmknod p9_read" where
  "read_tmknod =
     ebind (rd_u32 ''dfid'') (\<lambda>x0. ebind (rd_string ''name'') (\<lambda>x1. ebind (rd_u32 ''mode'') (\<lambda>x2.
     ebind (rd_u32 ''major'') (\<lambda>x3. ebind (rd_u32 ''minor'') (\<lambda>x4. ebind (rd_u32 ''gid'') (\<lambda>x5.
     eret \<lparr>tmknod_dfid = x0, tmknod_name = x1, tmknod_mode = x2, tmknod_major = x3, tmknod_minor = x4, tmknod_gid = x5\<rparr>))))))"

record tmkdir =
  tmkdir_dfid :: "u32"
  tmkdir_name :: "string"
  tmkdir_mode :: "u32"
  tmkdir_gid :: "u32"

definition write_tmkdir :: "tmkdir \<Rightarrow> p9_write" where
  "write_tmkdir v =
     ethen (wr_u32 (tmkdir_dfid v)) (ethen (wr_string (tmkdir_name v)) (ethen (wr_u32 (tmkdir_mode v)) (wr_u32 (tmkdir_gid v))))"

definition read_tmkdir :: "tmkdir p9_read" where
  "read_tmkdir =
     ebind (rd_u32 ''dfid'') (\<lambda>x0. ebind (rd_string ''name'') (\<lambda>x1. ebind (rd_u32 ''mode'') (\<lambda>x2.
     ebind (rd_u32 ''gid'') (\<lambda>x3.
     eret \<lparr>tmkdir_dfid = x0, tmkdir_name = x1, tmkdir_mode = x2, tmkdir_gid = x3\<rparr>))))"

record trename =
  trename_fid :: "u32"
  trename_dfid :: "u32"
  trename_name :: "string"

definition write_trename :: "trename \<Rightarrow> p9_write" where
  "write_trename v =
     ethen (wr_u32 (trename_fid v)) (ethen (wr_u32 (trename_dfid v)) (wr_string (trename_name v)))"

definition read_trename :: "trename p9_read" where
  "read_trename =
     ebind (rd_u32 ''fid'') (\<lambda>x0. ebind (rd_u32 ''dfid'') (\<lambda>x1. ebind (rd_string ''name'') (\<lambda>x2.
     eret \<lparr>trename_fid = x0, trename_dfid = x1, trename_name = x2\<rparr>)))"

record trenameat =
  trenameat_olddirfid :: "u32"
  trenameat_oldname :: "string"
  trenameat_newdirfid :: "u32"
  trenameat_newname :: "string"

definition write_trenameat :: "trenameat \<Rightarrow> p9_write" where
  "write_trenameat v =
     ethen (wr_u32 (trenameat_olddirfid v)) (ethen (wr_string (trenameat_oldname v)) (ethen (wr_u32 (trenameat_newdirfid v)) (wr_string (trenameat_newname v))))"

definition read_trenameat :: "trenameat p9_read" where
  "read_trenameat =
     ebind (rd_u32 ''olddirfid'') (\<lambda>x0. ebind (rd_string ''oldname'') (\<lambda>x1. ebind (rd_u32 ''newdirfid'') (\<lambda>x2.
     ebind (rd_string ''newname'') (\<lambda>x3.
     eret \<lparr>trenameat_olddirfid = x0, trenameat_oldname = x1, trenameat_newdirfid = x2, trenameat_newname = x3\<rparr>))))"

record tunlinkat =
  tunlinkat_dirfid :: "u32"
  tunlinkat_name :: "string"
  tunlinkat_flags :: "u32"

definition write_tunlinkat :: "tunlinkat \<Rightarrow> p9_write" where
  "write_tunlinkat v =
     ethen (wr_u32 (tunlinkat_dirfid v)) (ethen (wr_string (tunlinkat_name v)) (wr_u32 (tunlinkat_flags v)))"

definition read_tunlinkat :: "tunlinkat p9_read" where
  "read_tunlinkat =
     ebind (rd_u32 ''dirfid'') (\<lambda>x0. ebind (rd_string ''name'') (\<lambda>x1. ebind (rd_u32 ''flags'') (\<lambda>x2.
     eret \<lparr>tunlinkat_dirfid = x0, tunlinkat_name = x1, tunlinkat_flags = x2\<rparr>)))"

record tlink =
  tlink_dfid :: "u32"
  tlink_fid :: "u32"
  tlink_name :: "string"

definition write_tlink :: "tlink \<Rightarrow> p9_write" where
  "write_tlink v =
     ethen (wr_u32 (tlink_dfid v)) (ethen (wr_u32 (tlink_fid v)) (wr_string (tlink_name v)))"

definition read_tlink :: "tlink p9_read" where
  "read_tlink =
     ebind (rd_u32 ''dfid'') (\<lambda>x0. ebind (rd_u32 ''fid'') (\<lambda>x1. ebind (rd_string ''name'') (\<lambda>x2.
     eret \<lparr>tlink_dfid = x0, tlink_fid = x1, tlink_name = x2\<rparr>)))"

record rreadlink =
  rreadlink_target :: "string"

definition write_rreadlink :: "rreadlink \<Rightarrow> p9_write" where
  "write_rreadlink v =
     wr_string (rreadlink_target v)"

definition read_rreadlink :: "rreadlink p9_read" where
  "read_rreadlink =
     ebind (rd_string ''target'') (\<lambda>x0.
     eret \<lparr>rreadlink_target = x0\<rparr>)"

record tgetattr =
  tgetattr_fid :: "u32"
  tgetattr_request_mask :: "u64b"

definition write_tgetattr :: "tgetattr \<Rightarrow> p9_write" where
  "write_tgetattr v =
     ethen (wr_u32 (tgetattr_fid v)) (wr_u64 (tgetattr_request_mask v))"

definition read_tgetattr :: "tgetattr p9_read" where
  "read_tgetattr =
     ebind (rd_u32 ''fid'') (\<lambda>x0. ebind (rd_u64 ''request_mask'') (\<lambda>x1.
     eret \<lparr>tgetattr_fid = x0, tgetattr_request_mask = x1\<rparr>))"

record rgetattr =
  rgetattr_valid :: "u64b"
  rgetattr_qid :: "p9_qid"
  rgetattr_mode :: "u32"
  rgetattr_uid :: "u32"
  rgetattr_gid :: "u32"
  rgetattr_nlink :: "u64b"
  rgetattr_rdev :: "u64b"
  rgetattr_size :: "u64b"
  rgetattr_blksize :: "u64b"
  rgetattr_blocks :: "u64b"
  rgetattr_atime :: "p9_time"
  rgetattr_mtime :: "p9_time"
  rgetattr_ctime :: "p9_time"
  rgetattr_btime :: "p9_time"
  rgetattr_gen :: "u64b"
  rgetattr_data_version :: "u64b"

definition write_rgetattr :: "rgetattr \<Rightarrow> p9_write" where
  "write_rgetattr v =
     ethen (wr_u64 (rgetattr_valid v)) (ethen (wr_qid (rgetattr_qid v)) (ethen (wr_u32 (rgetattr_mode v)) (ethen (wr_u32 (rgetattr_uid v)) (ethen (wr_u32 (rgetattr_gid v)) (ethen (wr_u64 (rgetattr_nlink v)) (ethen (wr_u64 (rgetattr_rdev v)) (ethen (wr_u64 (rgetattr_size v)) (ethen (wr_u64 (rgetattr_blksize v)) (ethen (wr_u64 (rgetattr_blocks v)) (ethen (write_time (rgetattr_atime v)) (ethen (write_time (rgetattr_mtime v)) (ethen (write_time (rgetattr_ctime v)) (ethen (write_time (rgetattr_btime v)) (ethen (wr_u64 (rgetattr_gen v)) (wr_u64 (rgetattr_data_version v))))))))))))))))"

definition read_rgetattr :: "rgetattr p9_read" where
  "read_rgetattr =
     ebind (rd_u64 ''valid'') (\<lambda>x0. ebind (rd_qid ''qid'') (\<lambda>x1. ebind (rd_u32 ''mode'') (\<lambda>x2.
     ebind (rd_u32 ''uid'') (\<lambda>x3. ebind (rd_u32 ''gid'') (\<lambda>x4. ebind (rd_u64 ''nlink'') (\<lambda>x5.
     ebind (rd_u64 ''rdev'') (\<lambda>x6. ebind (rd_u64 ''size'') (\<lambda>x7. ebind (rd_u64 ''blksize'') (\<lambda>x8.
     ebind (rd_u64 ''blocks'') (\<lambda>x9. ebind (read_time ''atime'') (\<lambda>x10. ebind (read_time ''mtime'') (\<lambda>x11.
     ebind (read_time ''ctime'') (\<lambda>x12. ebind (read_time ''btime'') (\<lambda>x13. ebind (rd_u64 ''gen'') (\<lambda>x14.
     ebind (rd_u64 ''data_version'') (\<lambda>x15.
     eret \<lparr>rgetattr_valid = x0, rgetattr_qid = x1, rgetattr_mode = x2, rgetattr_uid = x3, rgetattr_gid = x4, rgetattr_nlink = x5, rgetattr_rdev = x6, rgetattr_size = x7, rgetattr_blksize = x8, rgetattr_blocks = x9, rgetattr_atime = x10, rgetattr_mtime = x11, rgetattr_ctime = x12, rgetattr_btime = x13, rgetattr_gen = x14, rgetattr_data_version = x15\<rparr>))))))))))))))))"

record tsetattr =
  tsetattr_fid :: "u32"
  tsetattr_valid :: "u32"
  tsetattr_mode :: "u32"
  tsetattr_uid :: "u32"
  tsetattr_gid :: "u32"
  tsetattr_size :: "u64b"
  tsetattr_atime :: "p9_time"
  tsetattr_mtime :: "p9_time"

definition write_tsetattr :: "tsetattr \<Rightarrow> p9_write" where
  "write_tsetattr v =
     ethen (wr_u32 (tsetattr_fid v)) (ethen (wr_u32 (tsetattr_valid v)) (ethen (wr_u32 (tsetattr_mode v)) (ethen (wr_u32 (tsetattr_uid v)) (ethen (wr_u32 (tsetattr_gid v)) (ethen (wr_u64 (tsetattr_size v)) (ethen (write_time (tsetattr_atime v)) (write_time (tsetattr_mtime v))))))))"

definition read_tsetattr :: "tsetattr p9_read" where
  "read_tsetattr =
     ebind (rd_u32 ''fid'') (\<lambda>x0. ebind (rd_u32 ''valid'') (\<lambda>x1. ebind (rd_u32 ''mode'') (\<lambda>x2.
     ebind (rd_u32 ''uid'') (\<lambda>x3. ebind (rd_u32 ''gid'') (\<lambda>x4. ebind (rd_u64 ''size'') (\<lambda>x5.
     ebind (read_time ''atime'') (\<lambda>x6. ebind (read_time ''mtime'') (\<lambda>x7.
     eret \<lparr>tsetattr_fid = x0, tsetattr_valid = x1, tsetattr_mode = x2, tsetattr_uid = x3, tsetattr_gid = x4, tsetattr_size = x5, tsetattr_atime = x6, tsetattr_mtime = x7\<rparr>))))))))"

record txattrwalk =
  txattrwalk_fid :: "u32"
  txattrwalk_newfid :: "u32"
  txattrwalk_name :: "string"

definition write_txattrwalk :: "txattrwalk \<Rightarrow> p9_write" where
  "write_txattrwalk v =
     ethen (wr_u32 (txattrwalk_fid v)) (ethen (wr_u32 (txattrwalk_newfid v)) (wr_string (txattrwalk_name v)))"

definition read_txattrwalk :: "txattrwalk p9_read" where
  "read_txattrwalk =
     ebind (rd_u32 ''fid'') (\<lambda>x0. ebind (rd_u32 ''newfid'') (\<lambda>x1. ebind (rd_string ''name'') (\<lambda>x2.
     eret \<lparr>txattrwalk_fid = x0, txattrwalk_newfid = x1, txattrwalk_name = x2\<rparr>)))"

record rxattrwalk =
  rxattrwalk_size :: "u64b"

definition write_rxattrwalk :: "rxattrwalk \<Rightarrow> p9_write" where
  "write_rxattrwalk v =
     wr_u64 (rxattrwalk_size v)"

definition read_rxattrwalk :: "rxattrwalk p9_read" where
  "read_rxattrwalk =
     ebind (rd_u64 ''size'') (\<lambda>x0.
     eret \<lparr>rxattrwalk_size = x0\<rparr>)"

record txattrcreate =
  txattrcreate_fid :: "u32"
  txattrcreate_name :: "string"
  txattrcreate_attr_size :: "u64b"
  txattrcreate_flags :: "u32"

definition write_txattrcreate :: "txattrcreate \<Rightarrow> p9_write" where
  "write_txattrcreate v =
     ethen (wr_u32 (txattrcreate_fid v)) (ethen (wr_string (txattrcreate_name v)) (ethen (wr_u64 (txattrcreate_attr_size v)) (wr_u32 (txattrcreate_flags v))))"

definition read_txattrcreate :: "txattrcreate p9_read" where
  "read_txattrcreate =
     ebind (rd_u32 ''fid'') (\<lambda>x0. ebind (rd_string ''name'') (\<lambda>x1. ebind (rd_u64 ''attr_size'') (\<lambda>x2.
     ebind (rd_u32 ''flags'') (\<lambda>x3.
     eret \<lparr>txattrcreate_fid = x0, txattrcreate_name = x1, txattrcreate_attr_size = x2, txattrcreate_flags = x3\<rparr>))))"

record treaddir =
  treaddir_fid :: "u32"
  treaddir_offset :: "u64b"
  treaddir_count :: "u32"

definition write_treaddir :: "treaddir \<Rightarrow> p9_write" where
  "write_treaddir v =
     ethen (wr_u32 (treaddir_fid v)) (ethen (wr_u64 (treaddir_offset v)) (wr_u32 (treaddir_count v)))"

definition read_treaddir :: "treaddir p9_read" where
  "read_treaddir =
     ebind (rd_u32 ''fid'') (\<lambda>x0. ebind (rd_u64 ''offset'') (\<lambda>x1. ebind (rd_u32 ''count'') (\<lambda>x2.
     eret \<lparr>treaddir_fid = x0, treaddir_offset = x1, treaddir_count = x2\<rparr>)))"

record rreaddir =
  rreaddir_data :: "bytes"

definition write_rreaddir :: "rreaddir \<Rightarrow> p9_write" where
  "write_rreaddir v =
     wr_blob (rreaddir_data v)"

definition read_rreaddir :: "rreaddir p9_read" where
  "read_rreaddir =
     ebind (rd_blob ''readdir data'') (\<lambda>x0.
     eret \<lparr>rreaddir_data = x0\<rparr>)"

record p9_dirent =
  dirent_qid :: "p9_qid"
  dirent_offset :: "u64b"
  dirent_type :: "u8"
  dirent_name :: "string"

definition write_dirent :: "p9_dirent \<Rightarrow> p9_write" where
  "write_dirent v =
     ethen (wr_qid (dirent_qid v)) (ethen (wr_u64 (dirent_offset v)) (ethen (wr_u8 (dirent_type v)) (wr_string (dirent_name v))))"

definition read_dirent :: "p9_dirent p9_read" where
  "read_dirent =
     ebind (rd_qid ''dirent qid'') (\<lambda>x0. ebind (rd_u64 ''dirent offset'') (\<lambda>x1. ebind (rd_u8 ''dirent type'') (\<lambda>x2.
     ebind (rd_string ''dirent name'') (\<lambda>x3.
     eret \<lparr>dirent_qid = x0, dirent_offset = x1, dirent_type = x2, dirent_name = x3\<rparr>))))"

record tfsync =
  tfsync_fid :: "u32"
  tfsync_datasync :: "u32"

definition write_tfsync :: "tfsync \<Rightarrow> p9_write" where
  "write_tfsync v =
     ethen (wr_u32 (tfsync_fid v)) (wr_u32 (tfsync_datasync v))"

definition read_tfsync :: "tfsync p9_read" where
  "read_tfsync =
     ebind (rd_u32 ''fid'') (\<lambda>x0. ebind (rd_u32 ''datasync'') (\<lambda>x1.
     eret \<lparr>tfsync_fid = x0, tfsync_datasync = x1\<rparr>))"

record tlock =
  tlock_fid :: "u32"
  tlock_type :: "u8"
  tlock_flags :: "u32"
  tlock_start :: "u64b"
  tlock_length :: "u64b"
  tlock_proc_id :: "u32"
  tlock_client_id :: "string"

definition write_tlock :: "tlock \<Rightarrow> p9_write" where
  "write_tlock v =
     ethen (wr_u32 (tlock_fid v)) (ethen (wr_u8 (tlock_type v)) (ethen (wr_u32 (tlock_flags v)) (ethen (wr_u64 (tlock_start v)) (ethen (wr_u64 (tlock_length v)) (ethen (wr_u32 (tlock_proc_id v)) (wr_string (tlock_client_id v)))))))"

definition read_tlock :: "tlock p9_read" where
  "read_tlock =
     ebind (rd_u32 ''fid'') (\<lambda>x0. ebind (rd_u8 ''type'') (\<lambda>x1. ebind (rd_u32 ''flags'') (\<lambda>x2.
     ebind (rd_u64 ''start'') (\<lambda>x3. ebind (rd_u64 ''length'') (\<lambda>x4. ebind (rd_u32 ''proc_id'') (\<lambda>x5.
     ebind (rd_string ''client_id'') (\<lambda>x6.
     eret \<lparr>tlock_fid = x0, tlock_type = x1, tlock_flags = x2, tlock_start = x3, tlock_length = x4, tlock_proc_id = x5, tlock_client_id = x6\<rparr>)))))))"

record rlock =
  rlock_status :: "u8"

definition write_rlock :: "rlock \<Rightarrow> p9_write" where
  "write_rlock v =
     wr_u8 (rlock_status v)"

definition read_rlock :: "rlock p9_read" where
  "read_rlock =
     ebind (rd_u8 ''status'') (\<lambda>x0.
     eret \<lparr>rlock_status = x0\<rparr>)"

record tgetlock =
  tgetlock_fid :: "u32"
  tgetlock_type :: "u8"
  tgetlock_start :: "u64b"
  tgetlock_length :: "u64b"
  tgetlock_proc_id :: "u32"
  tgetlock_client_id :: "string"

definition write_tgetlock :: "tgetlock \<Rightarrow> p9_write" where
  "write_tgetlock v =
     ethen (wr_u32 (tgetlock_fid v)) (ethen (wr_u8 (tgetlock_type v)) (ethen (wr_u64 (tgetlock_start v)) (ethen (wr_u64 (tgetlock_length v)) (ethen (wr_u32 (tgetlock_proc_id v)) (wr_string (tgetlock_client_id v))))))"

definition read_tgetlock :: "tgetlock p9_read" where
  "read_tgetlock =
     ebind (rd_u32 ''fid'') (\<lambda>x0. ebind (rd_u8 ''type'') (\<lambda>x1. ebind (rd_u64 ''start'') (\<lambda>x2.
     ebind (rd_u64 ''length'') (\<lambda>x3. ebind (rd_u32 ''proc_id'') (\<lambda>x4. ebind (rd_string ''client_id'') (\<lambda>x5.
     eret \<lparr>tgetlock_fid = x0, tgetlock_type = x1, tgetlock_start = x2, tgetlock_length = x3, tgetlock_proc_id = x4, tgetlock_client_id = x5\<rparr>))))))"

record rgetlock =
  rgetlock_type :: "u8"
  rgetlock_start :: "u64b"
  rgetlock_length :: "u64b"
  rgetlock_proc_id :: "u32"
  rgetlock_client_id :: "string"

definition write_rgetlock :: "rgetlock \<Rightarrow> p9_write" where
  "write_rgetlock v =
     ethen (wr_u8 (rgetlock_type v)) (ethen (wr_u64 (rgetlock_start v)) (ethen (wr_u64 (rgetlock_length v)) (ethen (wr_u32 (rgetlock_proc_id v)) (wr_string (rgetlock_client_id v)))))"

definition read_rgetlock :: "rgetlock p9_read" where
  "read_rgetlock =
     ebind (rd_u8 ''type'') (\<lambda>x0. ebind (rd_u64 ''start'') (\<lambda>x1. ebind (rd_u64 ''length'') (\<lambda>x2.
     ebind (rd_u32 ''proc_id'') (\<lambda>x3. ebind (rd_string ''client_id'') (\<lambda>x4.
     eret \<lparr>rgetlock_type = x0, rgetlock_start = x1, rgetlock_length = x2, rgetlock_proc_id = x3, rgetlock_client_id = x4\<rparr>)))))"

end
