(* ===== verification/P9_Protocol.thy ===== *)
theory P9_Protocol
  imports P9_Messages
begin

text \<open>
  The framing of 9P messages and the packing of directory entries, from
  \<^verbatim>\<open>transports/mount-rs-9p/src/protocol.rs\<close>: the header and size field around every message, and the entries
  a directory reply carries.  The capacity that \<^verbatim>\<open>P9Writer::new\<close> takes only preallocates and is left out.
\<close>

section \<open>Message names\<close>

definition message_names :: "(u8 \<times> string) list" where
  "message_names =
     [(6, ''Tlerror''), (7, ''Rlerror''), (8, ''Tstatfs''), (9, ''Rstatfs''), (12, ''Tlopen''), (13, ''Rlopen''),
      (14, ''Tlcreate''), (15, ''Rlcreate''), (16, ''Tsymlink''), (17, ''Rsymlink''), (18, ''Tmknod''), (19, ''Rmknod''),
      (20, ''Trename''), (21, ''Rrename''), (22, ''Treadlink''), (23, ''Rreadlink''), (24, ''Tgetattr''), (25, ''Rgetattr''),
      (26, ''Tsetattr''), (27, ''Rsetattr''), (30, ''Txattrwalk''), (31, ''Rxattrwalk''), (32, ''Txattrcreate''),
      (33, ''Rxattrcreate''), (40, ''Treaddir''), (41, ''Rreaddir''), (50, ''Tfsync''), (51, ''Rfsync''), (52, ''Tlock''),
      (53, ''Rlock''), (54, ''Tgetlock''), (55, ''Rgetlock''), (70, ''Tlink''), (71, ''Rlink''), (72, ''Tmkdir''),
      (73, ''Rmkdir''), (74, ''Trenameat''), (75, ''Rrenameat''), (76, ''Tunlinkat''), (77, ''Runlinkat''),
      (100, ''Tversion''), (101, ''Rversion''), (102, ''Tauth''), (103, ''Rauth''), (104, ''Tattach''), (105, ''Rattach''),
      (106, ''Terror''), (107, ''Rerror''), (108, ''Tflush''), (109, ''Rflush''), (110, ''Twalk''), (111, ''Rwalk''),
      (112, ''Topen''), (113, ''Ropen''), (114, ''Tcreate''), (115, ''Rcreate''), (116, ''Tread''), (117, ''Rread''),
      (118, ''Twrite''), (119, ''Rwrite''), (120, ''Tclunk''), (121, ''Rclunk''), (122, ''Tremove''), (123, ''Rremove''),
      (124, ''Tstat''), (125, ''Rstat''), (126, ''Twstat''), (127, ''Rwstat'')]"

definition message_name :: "u8 \<Rightarrow> string" where
  "message_name t = (case map_of message_names t of Some name \<Rightarrow> name | None \<Rightarrow> ''UNKNOWN('' @ u64_to_string (unat t) @ '')'')"

section \<open>Header and frame\<close>

definition P9_HDRSZ :: nat where "P9_HDRSZ = 7"
definition P9_QID_SIZE :: nat where "P9_QID_SIZE = 13"
definition P9_TVERSION :: u8 where "P9_TVERSION = 100"

record p9_header =
  hdr_size :: u32
  hdr_type :: u8
  hdr_tag :: u16

definition read_header :: "p9_header p9_read" where
  "read_header =
     ebind (rd_u32 ''size'') (\<lambda>x0. ebind (rd_u8 ''type'') (\<lambda>x1. ebind (rd_u16 ''tag'') (\<lambda>x2.
     eret \<lparr>hdr_size = x0, hdr_type = x1, hdr_tag = x2\<rparr>)))"

definition write_header :: "p9_header \<Rightarrow> p9_write" where
  "write_header h = ethen (wr_u32 (hdr_size h)) (ethen (wr_u8 (hdr_type h)) (wr_u16 (hdr_tag h)))"

definition encode_message :: "u8 \<Rightarrow> u16 \<Rightarrow> p9_write \<Rightarrow> p9_error + bytes" where
  "encode_message t tag write =
     (case ethen (write_header \<lparr>hdr_size = 0, hdr_type = t, hdr_tag = tag\<rparr>) write [] of
        (Inl e, _) \<Rightarrow> Inl e
      | (Inr _, w) \<Rightarrow>
          if length w > 0xffffffff then Inl (p9_error_new (message_name t @ '' is too large for the size field''))
          else (case patch_u32 0 (word_of_nat (length w)) w of (Inl e, _) \<Rightarrow> Inl e | (Inr _, w') \<Rightarrow> Inr w'))"

definition decode_message :: "bytes \<Rightarrow> p9_error + p9_header \<times> reader" where
  "decode_message bs =
     (if length bs < P9_HDRSZ
      then Inl (p9_error_new (''truncated 9P header: need 7 bytes, '' @ u64_to_string (length bs) @ '' left''))
      else case read_header (reader_new bs) of
        (Inl e, _) \<Rightarrow> Inl e
      | (Inr h, r) \<Rightarrow>
          if unat (hdr_size h) \<noteq> length bs
          then Inl (p9_error_new (message_name (hdr_type h) @ '' says '' @ u64_to_string (unat (hdr_size h))
                 @ '' bytes but the frame is '' @ u64_to_string (length bs)))
          else Inr (h, r))"

definition decode_message_as :: "bytes \<Rightarrow> 'a p9_read \<Rightarrow> p9_error + p9_header \<times> 'a" where
  "decode_message_as bs read =
     (case decode_message bs of
        Inl e \<Rightarrow> Inl e
      | Inr (h, body) \<Rightarrow> (case ebind read (\<lambda>v. ethen (rd_end (message_name (hdr_type h))) (eret v)) body of
          (Inl e, _) \<Rightarrow> Inl e | (Inr v, _) \<Rightarrow> Inr (h, v)))"

section \<open>Directory entries\<close>

definition dirent_size :: "string \<Rightarrow> nat" where
  "dirent_size name = P9_QID_SIZE + 8 + 1 + 2 + length (str_bytes name)"

text \<open>The reading loop ends because an entry takes at least one byte.\<close>

lemma raw_consumes:
  "rd_raw n what r = (Inr bs, r') \<Longrightarrow>
     rd_bytes r' = rd_bytes r \<and> rd_offset r' = rd_offset r + n \<and> rd_offset r + n \<le> length (rd_bytes r)"
  by (auto simp: rd_raw_def ebind_def rd_need_def checked_end_def checked_add_def rd_slice_def split: if_splits)

lemma ebind_InrE:
  assumes "ebind m f r = (Inr y, r')"
  obtains x s where "m r = (Inr x, s)" "f x s = (Inr y, r')"
  using assms by (auto simp: ebind_def split: prod.splits sum.splits)

lemma read_dirent_consumes:
  assumes "read_dirent r = (Inr d, r')"
  shows "rd_remaining r' < rd_remaining r"
proof -
  let ?entry = "\<lambda>q. ebind (rd_u64 ''dirent offset'') (\<lambda>x1. ebind (rd_u8 ''dirent type'') (\<lambda>x2. ebind (rd_string ''dirent name'') (\<lambda>x3.
       eret \<lparr>dirent_qid = q, dirent_offset = x1, dirent_type = x2, dirent_name = x3\<rparr>)))"
  let ?tail = "\<lambda>t. ebind (rd_u32 (''dirent qid'' @ '' version'')) (\<lambda>v. ebind (rd_u64 (''dirent qid'' @ '' path'')) (\<lambda>p.
       eret \<lparr>q_type = t, q_version = v, q_path = p\<rparr>))"
  obtain q r1 where q: "rd_qid ''dirent qid'' r = (Inr q, r1)" and rest: "?entry q r1 = (Inr d, r')"
    using assms unfolding read_dirent_def by (rule ebind_InrE)
  obtain t r0 where t: "rd_u8 (''dirent qid'' @ '' type'') r = (Inr t, r0)" and more: "?tail t r0 = (Inr q, r1)"
    using q unfolding rd_qid_def by (rule ebind_InrE)
  obtain b where b: "rd_raw 1 (''dirent qid'' @ '' type'') r = (Inr b, r0)"
    using t unfolding rd_u8_def by (auto elim: ebind_InrE)
  have 0: "rd_bytes r0 = rd_bytes r" "rd_offset r0 = rd_offset r + 1" "rd_offset r + 1 \<le> length (rd_bytes r)"
    using raw_consumes [OF b] by simp_all
  have "in_bounds (?tail t)" by (rule bounds_intro)+
  from in_boundsD [OF this more] have 1: "rd_bytes r1 = rd_bytes r0" "rd_offset r0 \<le> rd_offset r1" "rd_offset r1 \<le> length (rd_bytes r0)"
    using 0 by simp_all
  have "in_bounds (?entry q)" by (rule bounds_intro)+
  from in_boundsD [OF this rest] have 2: "rd_bytes r' = rd_bytes r1" "rd_offset r1 \<le> rd_offset r'"
    using 0 1 by simp_all
  show ?thesis using 0 1 2 by (simp add: rd_remaining_def)
qed

function read_dirents_from :: "reader \<Rightarrow> p9_error + p9_dirent list" where
  "read_dirents_from r =
     (if rd_at_end r then Inr []
      else case read_dirent r of
        (Inl e, _) \<Rightarrow> Inl e
      | (Inr d, r') \<Rightarrow> (case read_dirents_from r' of Inl e \<Rightarrow> Inl e | Inr ds \<Rightarrow> Inr (d # ds)))"
  by pat_completeness auto
termination
  by (relation "measure rd_remaining") (auto dest: read_dirent_consumes [OF sym])

declare read_dirents_from.simps [simp del]

definition read_dirents :: "bytes \<Rightarrow> p9_error + p9_dirent list" where
  "read_dirents data = read_dirents_from (reader_new data)"

record dirent_packer =
  packer_max_size :: nat
  packer_writer :: bytes
  packer_count :: nat

definition packer_new :: "nat \<Rightarrow> dirent_packer" where
  "packer_new max_size = \<lparr>packer_max_size = max_size, packer_writer = [], packer_count = 0\<rparr>"

definition packer_size :: "dirent_packer \<Rightarrow> nat" where
  "packer_size p = length (packer_writer p)"

definition packer_remaining :: "dirent_packer \<Rightarrow> nat" where
  "packer_remaining p = packer_max_size p - packer_size p"

definition packer_add :: "p9_dirent \<Rightarrow> (p9_error, bool, dirent_packer) eop" where
  "packer_add d p =
     (let size = dirent_size (dirent_name d) in
      if length (str_bytes (dirent_name d)) > P9_MAX_STRING
      then (Inl (p9_error_new (''dirent name is '' @ u64_to_string (length (str_bytes (dirent_name d)))
              @ '' bytes, over the 16-bit count'')), p)
      else if size > packer_remaining p then (Inr False, p)
      else case write_dirent d (packer_writer p) of
        (Inl e, w) \<Rightarrow> (Inl e, p\<lparr>packer_writer := w\<rparr>)
      | (Inr _, w) \<Rightarrow> (Inr True, p\<lparr>packer_writer := w, packer_count := packer_count p + 1\<rparr>))"

end
