(* ===== verification/P9_Codec.thy ===== *)
theory P9_Codec
  imports P9_Protocol
begin

text \<open>
  Correctness of the 9P codec.  The locale is the contract of one message: what its writer writes its reader reads,
  a writable message fits a frame, and the reader yields well-formed values and stays in its buffer.  The framed
  round trip is proved from it once and every message of the protocol is an instance.
\<close>

section \<open>Well-formed messages\<close>

text \<open>The strings of a message satisfy \<open>P\<close>: valid UTF-8 in what is read, and of sixteen-bit length to be written.\<close>

definition plain_ok :: "(string \<Rightarrow> bool) \<Rightarrow> 'a \<Rightarrow> bool" where
  "plain_ok P v \<longleftrightarrow> True"

definition tversion_ok :: "(string \<Rightarrow> bool) \<Rightarrow> tversion \<Rightarrow> bool" where
  "tversion_ok P v \<longleftrightarrow> P (tversion_version v)"

definition tauth_ok :: "(string \<Rightarrow> bool) \<Rightarrow> tauth \<Rightarrow> bool" where
  "tauth_ok P v \<longleftrightarrow> P (tauth_uname v) \<and> P (tauth_aname v)"

definition tattach_ok :: "(string \<Rightarrow> bool) \<Rightarrow> tattach \<Rightarrow> bool" where
  "tattach_ok P v \<longleftrightarrow> P (tattach_uname v) \<and> P (tattach_aname v)"

definition twalk_ok :: "(string \<Rightarrow> bool) \<Rightarrow> twalk \<Rightarrow> bool" where
  "twalk_ok P v \<longleftrightarrow> length (twalk_wnames v) \<le> P9_MAXWELEM \<and> (\<forall>x \<in> set (twalk_wnames v). P x)"

definition rwalk_ok :: "(string \<Rightarrow> bool) \<Rightarrow> rwalk \<Rightarrow> bool" where
  "rwalk_ok P v \<longleftrightarrow> length (rwalk_wqids v) \<le> P9_MAXWELEM"

definition rread_ok :: "(string \<Rightarrow> bool) \<Rightarrow> rread \<Rightarrow> bool" where
  "rread_ok P v \<longleftrightarrow> length (rread_data v) \<le> P9_MAX_ITEM"

definition twrite_ok :: "(string \<Rightarrow> bool) \<Rightarrow> twrite \<Rightarrow> bool" where
  "twrite_ok P v \<longleftrightarrow> length (twrite_data v) \<le> P9_MAX_ITEM"

definition tlcreate_ok :: "(string \<Rightarrow> bool) \<Rightarrow> tlcreate \<Rightarrow> bool" where
  "tlcreate_ok P v \<longleftrightarrow> P (tlcreate_name v)"

definition tsymlink_ok :: "(string \<Rightarrow> bool) \<Rightarrow> tsymlink \<Rightarrow> bool" where
  "tsymlink_ok P v \<longleftrightarrow> P (tsymlink_name v) \<and> P (tsymlink_symtgt v)"

definition tmknod_ok :: "(string \<Rightarrow> bool) \<Rightarrow> tmknod \<Rightarrow> bool" where
  "tmknod_ok P v \<longleftrightarrow> P (tmknod_name v)"

definition tmkdir_ok :: "(string \<Rightarrow> bool) \<Rightarrow> tmkdir \<Rightarrow> bool" where
  "tmkdir_ok P v \<longleftrightarrow> P (tmkdir_name v)"

definition trename_ok :: "(string \<Rightarrow> bool) \<Rightarrow> trename \<Rightarrow> bool" where
  "trename_ok P v \<longleftrightarrow> P (trename_name v)"

definition trenameat_ok :: "(string \<Rightarrow> bool) \<Rightarrow> trenameat \<Rightarrow> bool" where
  "trenameat_ok P v \<longleftrightarrow> P (trenameat_oldname v) \<and> P (trenameat_newname v)"

definition tunlinkat_ok :: "(string \<Rightarrow> bool) \<Rightarrow> tunlinkat \<Rightarrow> bool" where
  "tunlinkat_ok P v \<longleftrightarrow> P (tunlinkat_name v)"

definition tlink_ok :: "(string \<Rightarrow> bool) \<Rightarrow> tlink \<Rightarrow> bool" where
  "tlink_ok P v \<longleftrightarrow> P (tlink_name v)"

definition rreadlink_ok :: "(string \<Rightarrow> bool) \<Rightarrow> rreadlink \<Rightarrow> bool" where
  "rreadlink_ok P v \<longleftrightarrow> P (rreadlink_target v)"

definition txattrwalk_ok :: "(string \<Rightarrow> bool) \<Rightarrow> txattrwalk \<Rightarrow> bool" where
  "txattrwalk_ok P v \<longleftrightarrow> P (txattrwalk_name v)"

definition txattrcreate_ok :: "(string \<Rightarrow> bool) \<Rightarrow> txattrcreate \<Rightarrow> bool" where
  "txattrcreate_ok P v \<longleftrightarrow> P (txattrcreate_name v)"

definition rreaddir_ok :: "(string \<Rightarrow> bool) \<Rightarrow> rreaddir \<Rightarrow> bool" where
  "rreaddir_ok P v \<longleftrightarrow> length (rreaddir_data v) \<le> P9_MAX_ITEM"

definition p9_dirent_ok :: "(string \<Rightarrow> bool) \<Rightarrow> p9_dirent \<Rightarrow> bool" where
  "p9_dirent_ok P v \<longleftrightarrow> P (dirent_name v)"

definition tlock_ok :: "(string \<Rightarrow> bool) \<Rightarrow> tlock \<Rightarrow> bool" where
  "tlock_ok P v \<longleftrightarrow> P (tlock_client_id v)"

definition tgetlock_ok :: "(string \<Rightarrow> bool) \<Rightarrow> tgetlock \<Rightarrow> bool" where
  "tgetlock_ok P v \<longleftrightarrow> P (tgetlock_client_id v)"

definition rgetlock_ok :: "(string \<Rightarrow> bool) \<Rightarrow> rgetlock \<Rightarrow> bool" where
  "rgetlock_ok P v \<longleftrightarrow> P (rgetlock_client_id v)"

section \<open>Sizes\<close>

named_theorems codec_intro

definition short :: "p9_write \<Rightarrow> nat \<Rightarrow> bool" where
  "short w n \<longleftrightarrow> (\<exists>bs. writes w bs \<and> length bs \<le> n)"

definition fits_frame :: "p9_write \<Rightarrow> bool" where
  "fits_frame w \<longleftrightarrow> short w (2 ^ 31)"

lemma fits_short [codec_intro]: "short w n \<Longrightarrow> n \<le> 2 ^ 31 \<Longrightarrow> fits_frame w"
  unfolding short_def fits_frame_def using order_trans by blast

lemma short_then [codec_intro]: "short w n \<Longrightarrow> short v k \<Longrightarrow> short (ethen w v) (n + k)"
  unfolding short_def using writes_ethen by (metis add_mono length_append)

lemma short_emit: "length bs \<le> n \<Longrightarrow> short (emit bs) n"
  unfolding short_def using writes_emit by blast

lemma short_ints [codec_intro]: "short (wr_u8 a) 1" "short (wr_u16 b) 2" "short (wr_u32 c) 4" "short (wr_u64 d) 8"
  unfolding wr_u8_def wr_u16_def wr_u32_def wr_u64_def by (rule short_emit, simp)+

lemma short_string [codec_intro]:
  assumes "p9_string_ok s"
  shows "short (wr_string s) (2 + 65535)"
proof -
  have "short (ethen (wr_u16 (word_of_nat (length s))) (emit (str_bytes s))) (2 + 65535)"
    by (rule short_then [OF short_ints(2) short_emit]) (use assms in \<open>simp add: p9_string_ok_def P9_MAX_STRING_def\<close>)
  then show ?thesis using assms by (simp add: wr_string_def wr_raw_def p9_string_ok_def)
qed

lemma short_blob [codec_intro]: "length bs \<le> P9_MAX_ITEM \<Longrightarrow> short (wr_blob bs) (4 + 16777216)"
  unfolding wr_blob_def wr_raw_def by (rule short_then [OF short_ints(3) short_emit]) (simp add: P9_MAX_ITEM_def)

lemma short_qid [codec_intro]: "short (wr_qid q) (1 + (4 + 8))"
  unfolding wr_qid_def by (rule codec_intro)+

lemma short_time [codec_intro]: "short (write_time v) (8 + 8)"
  unfolding write_time_def by (rule codec_intro)+

lemma short_for:
  assumes "\<And>x. x \<in> set xs \<Longrightarrow> short (w x) n"
  shows "short (efor w xs) (length xs * n)"
  using assms
proof (induction xs)
  case Nil
  show ?case unfolding short_def efor.simps using writes_eret by fastforce
next
  case (Cons x xs)
  then have "short (ethen (w x) (efor w xs)) (n + length xs * n)"
    by (intro short_then) auto
  then show ?case by simp
qed

section \<open>Rules for the messages\<close>

lemma transmits_final: "transmits w m x \<Longrightarrow> f x = y \<Longrightarrow> transmits w (ebind m (\<lambda>x. eret (f x))) y"
  using transmits_last by metis

lemma transmits_time: "transmits (write_time v) (read_time what) v"
  unfolding write_time_def read_time_def by (rule transmits_then transmits_final transmits_u64)+ simp

lemma in_bounds_time [bounds_intro]: "in_bounds (read_time what)"
  unfolding read_time_def by (rule bounds_intro)+

lemma yields_plain:
  "(\<And>x. yields (f x) P) \<Longrightarrow> yields (ebind (rd_u8 what) f) P"
  "(\<And>x. yields (g x) P) \<Longrightarrow> yields (ebind (rd_u16 what) g) P"
  "(\<And>x. yields (h x) P) \<Longrightarrow> yields (ebind (rd_u32 what) h) P"
  "(\<And>x. yields (i x) P) \<Longrightarrow> yields (ebind (rd_u64 what) i) P"
  "(\<And>x. yields (j x) P) \<Longrightarrow> yields (ebind (rd_qid what) j) P"
  "(\<And>x. yields (k x) P) \<Longrightarrow> yields (ebind (read_time what) k) P"
  by (rule yields_ebind [OF yields_any], simp)+

lemma yields_checked:
  "(\<And>x. str_ok x \<Longrightarrow> yields (f x) P) \<Longrightarrow> yields (ebind (rd_string what) f) P"
  "(\<And>x. length x \<le> P9_MAX_ITEM \<Longrightarrow> yields (g x) P) \<Longrightarrow> yields (ebind (rd_blob what) g) P"
  by (rule yields_ebind [OF yields_string], simp) (rule yields_ebind [OF yields_blob], simp)

lemmas [codec_intro] =
  transmits_then transmits_u8 transmits_u16 transmits_u32 transmits_u64 transmits_string transmits_blob transmits_qid
  transmits_time transmits_final yields_plain yields_checked yields_eret bounds_intro

section \<open>The contract of a message\<close>

lemma word32_nat: "n < 2 ^ 32 \<Longrightarrow> unat (word_of_nat n :: u32) = n"
  by (simp add: unat_of_nat)

definition header_bytes :: "p9_header \<Rightarrow> bytes" where
  "header_bytes h = le_bytes 4 (unat (hdr_size h)) @ [hdr_type h] @ le_bytes 2 (unat (hdr_tag h))"

lemma header_bytes_length [simp]: "length (header_bytes h) = P9_HDRSZ"
  by (simp add: header_bytes_def P9_HDRSZ_def)

lemma writes_header: "writes (write_header h) (header_bytes h)"
  unfolding write_header_def wr_u32_def wr_u8_def wr_u16_def header_bytes_def
  by (intro writes_ethen writes_emit)

lemma writes_unique: "writes w bs \<Longrightarrow> writes w cs \<Longrightarrow> bs = cs"
  by (auto simp: writes_def)

lemma parses_header: "parses read_header (header_bytes h) h"
proof -
  have "transmits (write_header h) read_header h"
    unfolding write_header_def read_header_def by (rule codec_intro)+ simp
  then show ?thesis using writes_unique [OF writes_header] by (auto simp: transmits_def)
qed

lemma patch_size:
  "patch_u32 0 n (header_bytes h @ bs) = (Inr (), header_bytes (h\<lparr>hdr_size := n\<rparr>) @ bs)"
  by (simp add: patch_u32_def header_bytes_def)

text \<open>What a peer decodes is what was encoded, under the same type and tag and with the size of the frame.\<close>

definition faithful :: "('a \<Rightarrow> p9_write) \<Rightarrow> 'a p9_read \<Rightarrow> ('a \<Rightarrow> bool) \<Rightarrow> bool" where
  "faithful wr rd ok \<longleftrightarrow> (\<forall>t tag v. ok v \<longrightarrow> (\<exists>frame. encode_message t tag (wr v) = Inr frame \<and>
     decode_message_as frame rd = Inr (\<lparr>hdr_size = word_of_nat (length frame), hdr_type = t, hdr_tag = tag\<rparr>, v)))"

text \<open>Whatever bytes arrive, a message that is accepted fills its frame and is well-formed.\<close>

definition well_typed :: "'a p9_read \<Rightarrow> ('a \<Rightarrow> bool) \<Rightarrow> bool" where
  "well_typed rd ok \<longleftrightarrow> (\<forall>frame h v. decode_message_as frame rd = Inr (h, v) \<longrightarrow> unat (hdr_size h) = length frame \<and> ok v)"

locale message_codec =
  fixes wr :: "'a \<Rightarrow> p9_write" and rd :: "'a p9_read" and ok :: "(string \<Rightarrow> bool) \<Rightarrow> 'a \<Rightarrow> bool"
  assumes transmit: "ok p9_string_ok x \<Longrightarrow> transmits (wr x) rd x"
    and fit: "ok p9_string_ok x \<Longrightarrow> fits_frame (wr x)"
    and typed: "yields rd (ok str_ok)"
    and bounded: "in_bounds rd"
begin

lemma round_trip: "faithful wr rd (ok p9_string_ok)"
  unfolding faithful_def
proof (intro allI impI)
  fix t tag v assume "ok p9_string_ok v"
  from transmit [OF this] fit [OF this] obtain bs where bs: "writes (wr v) bs" "parses rd bs v" "length bs \<le> 2 ^ 31"
    unfolding transmits_def fits_frame_def short_def using writes_unique by blast
  define h where "h = \<lparr>hdr_size = 0, hdr_type = t, hdr_tag = tag\<rparr>"
  define frame where "frame = header_bytes (h\<lparr>hdr_size := word_of_nat (7 + length bs)\<rparr>) @ bs"
  have len: "length frame = 7 + length bs" by (simp add: frame_def P9_HDRSZ_def)
  have "ethen (write_header h) (wr v) [] = (Inr (), header_bytes h @ bs)"
    using writes_ethen [OF writes_header bs(1)] by (simp add: writes_def)
  then have "encode_message t tag (wr v) = Inr frame"
    using bs(3) patch_size [of "word_of_nat (7 + length bs)" h bs]
    by (simp add: encode_message_def h_def [symmetric] frame_def P9_HDRSZ_def)
  moreover have "decode_message_as frame rd = Inr (\<lparr>hdr_size = word_of_nat (length frame), hdr_type = t, hdr_tag = tag\<rparr>, v)"
  proof -
    let ?h = "h\<lparr>hdr_size := word_of_nat (7 + length bs)\<rparr>"
    have small: "length frame \<le> U64_MAX" "unat (word_of_nat (7 + length bs) :: u32) = length frame"
      using bs(3) len word32_nat [of "7 + length bs"] by (simp_all add: U64_MAX_def)
    have "read_header (reader_new frame) = (Inr ?h, \<lparr>rd_bytes = frame, rd_offset = 7\<rparr>)"
      using parses_header [of ?h] small(1) unfolding parses_def frame_def reader_new_def
      by (metis P9_HDRSZ_def add.left_neutral append_Nil header_bytes_length list.size(3))
    then have "decode_message frame = Inr (?h, \<lparr>rd_bytes = frame, rd_offset = 7\<rparr>)"
      using small(2) len by (simp add: decode_message_def P9_HDRSZ_def)
    moreover have "rd \<lparr>rd_bytes = frame, rd_offset = 7\<rparr> = (Inr v, \<lparr>rd_bytes = frame, rd_offset = length frame\<rparr>)"
      using bs(2) small(1) len unfolding parses_def frame_def
      by (metis P9_HDRSZ_def append_Nil2 header_bytes_length)
    ultimately show ?thesis
      using len by (simp add: decode_message_as_def ebind_def ethen_def rd_end_def rd_remaining_def h_def)
  qed
  ultimately show "\<exists>frame. encode_message t tag (wr v) = Inr frame \<and>
     decode_message_as frame rd = Inr (\<lparr>hdr_size = word_of_nat (length frame), hdr_type = t, hdr_tag = tag\<rparr>, v)" by blast
qed

lemma accepted: "well_typed rd (ok str_ok)"
  unfolding well_typed_def decode_message_as_def decode_message_def
  by (auto simp: ethen_def elim!: ebind_InrE dest: yieldsD [OF typed] split: sum.splits prod.splits if_splits)

end

section \<open>The messages\<close>

lemma element_count_word: "n \<le> P9_MAXWELEM \<Longrightarrow> unat (word_of_nat n :: u16) = n"
  by (simp add: P9_MAXWELEM_def unat_of_nat)

lemma elift_simps [simp]: "elift (Inr x) = eret x" "elift (Inl e) = efail e"
  by (simp_all add: elift_def)

lemma ebind_eret [simp]: "ebind (eret x) f = f x"
  by (rule ext) (simp add: ebind_def)

lemma yields_count: "yields (read_element_count what) (\<lambda>n. n \<le> P9_MAXWELEM)"
  by (auto simp: read_element_count_def check_elements_def yields_def elim!: ebind_InrE split: if_splits)

lemma in_bounds_elift [bounds_intro]: "in_bounds (elift e)"
  by (cases e) (simp_all add: bounds_intro)

lemma in_bounds_count [bounds_intro]: "in_bounds (read_element_count what)"
  unfolding read_element_count_def by (rule bounds_intro)+

lemma transmits_count:
  assumes "n \<le> P9_MAXWELEM"
  shows "transmits (wr_u16 (word_of_nat n)) (read_element_count what) n"
proof -
  have "transmits (wr_u16 (word_of_nat n)) (ebind (rd_u16 what) (\<lambda>k. eret (unat k))) n"
    by (rule transmits_final [OF transmits_u16]) (simp add: element_count_word assms)
  moreover have "transmits w (ebind m (\<lambda>k. elift (check_elements (unat k) what))) n"
    if "transmits w (ebind m (\<lambda>k. eret (unat k))) n" for w and m :: "u16 p9_read"
    using that assms unfolding transmits_def parses_def
    by (fastforce simp: ebind_def check_elements_def split: prod.splits sum.splits)
  ultimately show ?thesis unfolding read_element_count_def by blast
qed

interpretation tversion: message_codec write_tversion read_tversion tversion_ok
  by (unfold_locales; (unfold write_tversion_def read_tversion_def); (rule codec_intro | force simp: tversion_ok_def)+)

interpretation tauth: message_codec write_tauth read_tauth tauth_ok
  by (unfold_locales; (unfold write_tauth_def read_tauth_def); (rule codec_intro | force simp: tauth_ok_def)+)

interpretation rauth: message_codec write_rauth read_rauth plain_ok
  by (unfold_locales; (unfold write_rauth_def read_rauth_def); (rule codec_intro | force simp: plain_ok_def)+)

interpretation tattach: message_codec write_tattach read_tattach tattach_ok
  by (unfold_locales; (unfold write_tattach_def read_tattach_def); (rule codec_intro | force simp: tattach_ok_def)+)

interpretation rattach: message_codec write_rattach read_rattach plain_ok
  by (unfold_locales; (unfold write_rattach_def read_rattach_def); (rule codec_intro | force simp: plain_ok_def)+)

interpretation rlerror: message_codec write_rlerror read_rlerror plain_ok
  by (unfold_locales; (unfold write_rlerror_def read_rlerror_def); (rule codec_intro | force simp: plain_ok_def)+)

interpretation tflush: message_codec write_tflush read_tflush plain_ok
  by (unfold_locales; (unfold write_tflush_def read_tflush_def); (rule codec_intro | force simp: plain_ok_def)+)

interpretation tread: message_codec write_tread read_tread plain_ok
  by (unfold_locales; (unfold write_tread_def read_tread_def); (rule codec_intro | force simp: plain_ok_def)+)

interpretation rread: message_codec write_rread read_rread rread_ok
  by (unfold_locales; (unfold write_rread_def read_rread_def); (rule codec_intro | force simp: rread_ok_def)+)

interpretation twrite: message_codec write_twrite read_twrite twrite_ok
  by (unfold_locales; (unfold write_twrite_def read_twrite_def); (rule codec_intro | force simp: twrite_ok_def)+)

interpretation rwrite: message_codec write_rwrite read_rwrite plain_ok
  by (unfold_locales; (unfold write_rwrite_def read_rwrite_def); (rule codec_intro | force simp: plain_ok_def)+)

interpretation fid_request: message_codec write_fid_request read_fid_request plain_ok
  by (unfold_locales; (unfold write_fid_request_def read_fid_request_def); (rule codec_intro | force simp: plain_ok_def)+)

interpretation rstatfs: message_codec write_rstatfs read_rstatfs plain_ok
  by (unfold_locales; (unfold write_rstatfs_def read_rstatfs_def); (rule codec_intro | force simp: plain_ok_def)+)

interpretation tlopen: message_codec write_tlopen read_tlopen plain_ok
  by (unfold_locales; (unfold write_tlopen_def read_tlopen_def); (rule codec_intro | force simp: plain_ok_def)+)

interpretation rlopen: message_codec write_rlopen read_rlopen plain_ok
  by (unfold_locales; (unfold write_rlopen_def read_rlopen_def); (rule codec_intro | force simp: plain_ok_def)+)

interpretation tlcreate: message_codec write_tlcreate read_tlcreate tlcreate_ok
  by (unfold_locales; (unfold write_tlcreate_def read_tlcreate_def); (rule codec_intro | force simp: tlcreate_ok_def)+)

interpretation qid_reply: message_codec write_qid_reply read_qid_reply plain_ok
  by (unfold_locales; (unfold write_qid_reply_def read_qid_reply_def); (rule codec_intro | force simp: plain_ok_def)+)

interpretation tsymlink: message_codec write_tsymlink read_tsymlink tsymlink_ok
  by (unfold_locales; (unfold write_tsymlink_def read_tsymlink_def); (rule codec_intro | force simp: tsymlink_ok_def)+)

interpretation tmknod: message_codec write_tmknod read_tmknod tmknod_ok
  by (unfold_locales; (unfold write_tmknod_def read_tmknod_def); (rule codec_intro | force simp: tmknod_ok_def)+)

interpretation tmkdir: message_codec write_tmkdir read_tmkdir tmkdir_ok
  by (unfold_locales; (unfold write_tmkdir_def read_tmkdir_def); (rule codec_intro | force simp: tmkdir_ok_def)+)

interpretation trename: message_codec write_trename read_trename trename_ok
  by (unfold_locales; (unfold write_trename_def read_trename_def); (rule codec_intro | force simp: trename_ok_def)+)

interpretation trenameat: message_codec write_trenameat read_trenameat trenameat_ok
  by (unfold_locales; (unfold write_trenameat_def read_trenameat_def); (rule codec_intro | force simp: trenameat_ok_def)+)

interpretation tunlinkat: message_codec write_tunlinkat read_tunlinkat tunlinkat_ok
  by (unfold_locales; (unfold write_tunlinkat_def read_tunlinkat_def); (rule codec_intro | force simp: tunlinkat_ok_def)+)

interpretation tlink: message_codec write_tlink read_tlink tlink_ok
  by (unfold_locales; (unfold write_tlink_def read_tlink_def); (rule codec_intro | force simp: tlink_ok_def)+)

interpretation rreadlink: message_codec write_rreadlink read_rreadlink rreadlink_ok
  by (unfold_locales; (unfold write_rreadlink_def read_rreadlink_def); (rule codec_intro | force simp: rreadlink_ok_def)+)

interpretation tgetattr: message_codec write_tgetattr read_tgetattr plain_ok
  by (unfold_locales; (unfold write_tgetattr_def read_tgetattr_def); (rule codec_intro | force simp: plain_ok_def)+)

interpretation rgetattr: message_codec write_rgetattr read_rgetattr plain_ok
  by (unfold_locales; (unfold write_rgetattr_def read_rgetattr_def); (rule codec_intro | force simp: plain_ok_def)+)

interpretation tsetattr: message_codec write_tsetattr read_tsetattr plain_ok
  by (unfold_locales; (unfold write_tsetattr_def read_tsetattr_def); (rule codec_intro | force simp: plain_ok_def)+)

interpretation txattrwalk: message_codec write_txattrwalk read_txattrwalk txattrwalk_ok
  by (unfold_locales; (unfold write_txattrwalk_def read_txattrwalk_def); (rule codec_intro | force simp: txattrwalk_ok_def)+)

interpretation rxattrwalk: message_codec write_rxattrwalk read_rxattrwalk plain_ok
  by (unfold_locales; (unfold write_rxattrwalk_def read_rxattrwalk_def); (rule codec_intro | force simp: plain_ok_def)+)

interpretation txattrcreate: message_codec write_txattrcreate read_txattrcreate txattrcreate_ok
  by (unfold_locales; (unfold write_txattrcreate_def read_txattrcreate_def); (rule codec_intro | force simp: txattrcreate_ok_def)+)

interpretation treaddir: message_codec write_treaddir read_treaddir plain_ok
  by (unfold_locales; (unfold write_treaddir_def read_treaddir_def); (rule codec_intro | force simp: plain_ok_def)+)

interpretation rreaddir: message_codec write_rreaddir read_rreaddir rreaddir_ok
  by (unfold_locales; (unfold write_rreaddir_def read_rreaddir_def); (rule codec_intro | force simp: rreaddir_ok_def)+)

interpretation dirent: message_codec write_dirent read_dirent p9_dirent_ok
  by (unfold_locales; (unfold write_dirent_def read_dirent_def); (rule codec_intro | force simp: p9_dirent_ok_def)+)

interpretation tfsync: message_codec write_tfsync read_tfsync plain_ok
  by (unfold_locales; (unfold write_tfsync_def read_tfsync_def); (rule codec_intro | force simp: plain_ok_def)+)

interpretation tlock: message_codec write_tlock read_tlock tlock_ok
  by (unfold_locales; (unfold write_tlock_def read_tlock_def); (rule codec_intro | force simp: tlock_ok_def)+)

interpretation rlock: message_codec write_rlock read_rlock plain_ok
  by (unfold_locales; (unfold write_rlock_def read_rlock_def); (rule codec_intro | force simp: plain_ok_def)+)

interpretation tgetlock: message_codec write_tgetlock read_tgetlock tgetlock_ok
  by (unfold_locales; (unfold write_tgetlock_def read_tgetlock_def); (rule codec_intro | force simp: tgetlock_ok_def)+)

interpretation rgetlock: message_codec write_rgetlock read_rgetlock rgetlock_ok
  by (unfold_locales; (unfold write_rgetlock_def read_rgetlock_def); (rule codec_intro | force simp: rgetlock_ok_def)+)

text \<open>The walk messages carry a counted list.\<close>

lemma transmits_list:
  assumes n: "length xs \<le> P9_MAXWELEM" and x: "\<And>i x. x \<in> set xs \<Longrightarrow> transmits (w x) (m i) x"
  shows "transmits (ethen (wr_u16 (word_of_nat (length xs))) (efor w xs))
           (ebind (read_element_count what) (\<lambda>count. ebind (ecollect m 0 count) (\<lambda>ys. eret (f ys)))) (f xs)"
  by (rule transmits_then [OF transmits_count [OF n]], rule transmits_last, rule transmits_collect, rule x)

lemma short_list:
  assumes "length xs \<le> P9_MAXWELEM" "\<And>x. x \<in> set xs \<Longrightarrow> short (w x) n" "n \<le> 100000"
  shows "short (ethen (wr_u16 (word_of_nat (length xs))) (efor w xs)) (2 + 16 * 100000)"
proof -
  have "short (efor w xs) (length xs * n)" by (rule short_for) (rule assms(2))
  moreover have "length xs * n \<le> 16 * 100000" using assms(1,3) unfolding P9_MAXWELEM_def by (rule mult_le_mono)
  ultimately have "short (efor w xs) (16 * 100000)" unfolding short_def using order_trans by blast
  then show ?thesis by (rule short_then [OF short_ints(2)])
qed

lemma check_elements_ok: "n \<le> P9_MAXWELEM \<Longrightarrow> check_elements n what = Inr n"
  by (simp add: check_elements_def)

interpretation twalk: message_codec write_twalk read_twalk twalk_ok
proof
  fix v assume ok: "twalk_ok p9_string_ok v"
  then have n: "length (twalk_wnames v) \<le> P9_MAXWELEM" and s: "\<And>x. x \<in> set (twalk_wnames v) \<Longrightarrow> p9_string_ok x"
    by (simp_all add: twalk_ok_def)
  have "transmits (write_twalk v) read_twalk \<lparr>twalk_fid = twalk_fid v, twalk_newfid = twalk_newfid v, twalk_wnames = twalk_wnames v\<rparr>"
    unfolding write_twalk_def read_twalk_def check_elements_ok [OF n] elift_simps ebind_eret
    by (rule transmits_then [OF transmits_u32], rule transmits_then [OF transmits_u32], rule transmits_list [OF n],
        rule transmits_string, rule s)
  then show "transmits (write_twalk v) read_twalk v" by (cases v) simp
  show "fits_frame (write_twalk v)"
    unfolding write_twalk_def check_elements_ok [OF n] elift_simps ebind_eret
    by (rule fits_short, rule short_then [OF short_ints(3)], rule short_then [OF short_ints(3)],
        rule short_list [OF n], rule short_string, rule s) simp_all
next
  show "yields read_twalk (twalk_ok str_ok)"
    unfolding read_twalk_def
    by (rule yields_plain, rule yields_plain, rule yields_ebind [OF yields_count],
        rule yields_ebind [OF yields_collect, OF yields_string], rule yields_eret) (simp add: twalk_ok_def)
  show "in_bounds read_twalk" unfolding read_twalk_def by (rule bounds_intro)+
qed

interpretation rwalk: message_codec write_rwalk read_rwalk rwalk_ok
proof
  fix v assume "rwalk_ok p9_string_ok v"
  then have n: "length (rwalk_wqids v) \<le> P9_MAXWELEM" by (simp add: rwalk_ok_def)
  have "transmits (write_rwalk v) read_rwalk \<lparr>rwalk_wqids = rwalk_wqids v\<rparr>"
    unfolding write_rwalk_def read_rwalk_def check_elements_ok [OF n] elift_simps ebind_eret
    by (rule transmits_list [OF n], rule transmits_qid)
  then show "transmits (write_rwalk v) read_rwalk v" by (cases v) simp
  show "fits_frame (write_rwalk v)"
    unfolding write_rwalk_def check_elements_ok [OF n] elift_simps ebind_eret
    by (rule fits_short, rule short_list [OF n], rule short_qid) simp_all
next
  show "yields read_rwalk (rwalk_ok str_ok)"
    unfolding read_rwalk_def
    by (rule yields_ebind [OF yields_count], rule yields_ebind [OF yields_collect, OF yields_any], rule yields_eret)
      (simp add: rwalk_ok_def)
  show "in_bounds read_rwalk" unfolding read_rwalk_def by (rule bounds_intro)+
qed

section \<open>Main theorems\<close>

text \<open>
  C12: A 9P message survives the wire.  For every request and reply of the protocol, encoding a message whose strings
  are valid UTF-8 of at most 65535 bytes, whose payload is at most 16 MiB and whose walk has at most sixteen elements
  succeeds, and decoding the frame with that message's reader returns the same message with the type, the tag and a
  size field equal to the length of the frame.
\<close>

theorem p9_messages_roundtrip:
  "faithful write_tversion read_tversion (tversion_ok p9_string_ok) \<and>
     faithful write_rversion read_rversion (tversion_ok p9_string_ok) \<and>
     faithful write_tauth read_tauth (tauth_ok p9_string_ok) \<and>
     faithful write_rauth read_rauth (plain_ok p9_string_ok) \<and>
     faithful write_tattach read_tattach (tattach_ok p9_string_ok) \<and>
     faithful write_rattach read_rattach (plain_ok p9_string_ok) \<and>
     faithful write_twalk read_twalk (twalk_ok p9_string_ok) \<and>
     faithful write_rwalk read_rwalk (rwalk_ok p9_string_ok) \<and>
     faithful write_rlerror read_rlerror (plain_ok p9_string_ok) \<and>
     faithful write_tflush read_tflush (plain_ok p9_string_ok) \<and>
     faithful write_tread read_tread (plain_ok p9_string_ok) \<and>
     faithful write_rread read_rread (rread_ok p9_string_ok) \<and>
     faithful write_twrite read_twrite (twrite_ok p9_string_ok) \<and>
     faithful write_rwrite read_rwrite (plain_ok p9_string_ok) \<and>
     faithful write_tclunk read_tclunk (plain_ok p9_string_ok) \<and>
     faithful write_tremove read_tremove (plain_ok p9_string_ok) \<and>
     faithful write_tstatfs read_tstatfs (plain_ok p9_string_ok) \<and>
     faithful write_rstatfs read_rstatfs (plain_ok p9_string_ok) \<and>
     faithful write_tlopen read_tlopen (plain_ok p9_string_ok) \<and>
     faithful write_rlopen read_rlopen (plain_ok p9_string_ok) \<and>
     faithful write_rlcreate read_rlcreate (plain_ok p9_string_ok) \<and>
     faithful write_tlcreate read_tlcreate (tlcreate_ok p9_string_ok) \<and>
     faithful write_rsymlink read_rsymlink (plain_ok p9_string_ok) \<and>
     faithful write_rmknod read_rmknod (plain_ok p9_string_ok) \<and>
     faithful write_rmkdir read_rmkdir (plain_ok p9_string_ok) \<and>
     faithful write_tsymlink read_tsymlink (tsymlink_ok p9_string_ok) \<and>
     faithful write_tmknod read_tmknod (tmknod_ok p9_string_ok) \<and>
     faithful write_tmkdir read_tmkdir (tmkdir_ok p9_string_ok) \<and>
     faithful write_trename read_trename (trename_ok p9_string_ok) \<and>
     faithful write_trenameat read_trenameat (trenameat_ok p9_string_ok) \<and>
     faithful write_tunlinkat read_tunlinkat (tunlinkat_ok p9_string_ok) \<and>
     faithful write_tlink read_tlink (tlink_ok p9_string_ok) \<and>
     faithful write_rreadlink read_rreadlink (rreadlink_ok p9_string_ok) \<and>
     faithful write_tgetattr read_tgetattr (plain_ok p9_string_ok) \<and>
     faithful write_rgetattr read_rgetattr (plain_ok p9_string_ok) \<and>
     faithful write_tsetattr read_tsetattr (plain_ok p9_string_ok) \<and>
     faithful write_txattrwalk read_txattrwalk (txattrwalk_ok p9_string_ok) \<and>
     faithful write_rxattrwalk read_rxattrwalk (plain_ok p9_string_ok) \<and>
     faithful write_txattrcreate read_txattrcreate (txattrcreate_ok p9_string_ok) \<and>
     faithful write_treaddir read_treaddir (plain_ok p9_string_ok) \<and>
     faithful write_rreaddir read_rreaddir (rreaddir_ok p9_string_ok) \<and>
     faithful write_tfsync read_tfsync (plain_ok p9_string_ok) \<and>
     faithful write_tlock read_tlock (tlock_ok p9_string_ok) \<and>
     faithful write_rlock read_rlock (plain_ok p9_string_ok) \<and>
     faithful write_tgetlock read_tgetlock (tgetlock_ok p9_string_ok) \<and>
     faithful write_rgetlock read_rgetlock (rgetlock_ok p9_string_ok)"
  by (intro conjI)
    (rule tversion.round_trip tauth.round_trip rauth.round_trip tattach.round_trip rattach.round_trip
      twalk.round_trip rwalk.round_trip rlerror.round_trip tflush.round_trip tread.round_trip rread.round_trip
      twrite.round_trip rwrite.round_trip fid_request.round_trip rstatfs.round_trip
      tlopen.round_trip rlopen.round_trip tlcreate.round_trip qid_reply.round_trip
      tsymlink.round_trip tmknod.round_trip tmkdir.round_trip trename.round_trip trenameat.round_trip
      tunlinkat.round_trip tlink.round_trip rreadlink.round_trip tgetattr.round_trip rgetattr.round_trip tsetattr.round_trip
      txattrwalk.round_trip rxattrwalk.round_trip txattrcreate.round_trip treaddir.round_trip rreaddir.round_trip
      tfsync.round_trip tlock.round_trip rlock.round_trip tgetlock.round_trip rgetlock.round_trip)+

definition demo_tversion :: tversion where
  "demo_tversion = \<lparr>tversion_msize = 8192, tversion_version = ''9P2000.L''\<rparr>"

theorem p9_messages_roundtrip_witness:
  "tversion_ok p9_string_ok demo_tversion \<and>
   (\<exists>frame. encode_message P9_TVERSION 65535 (write_tversion demo_tversion) = Inr frame \<and> length frame = 21 \<and>
     decode_message_as frame read_tversion = Inr (\<lparr>hdr_size = 21, hdr_type = P9_TVERSION, hdr_tag = 65535\<rparr>, demo_tversion))"
proof -
  have 1: "tversion_ok p9_string_ok demo_tversion" by code_simp
  have 2: "faithful write_tversion read_tversion (tversion_ok p9_string_ok)" using p9_messages_roundtrip by blast
  have 3: "case encode_message P9_TVERSION 65535 (write_tversion demo_tversion) of Inr frame \<Rightarrow> length frame = 21 | Inl _ \<Rightarrow> False" by code_simp
  from 2 1 obtain frame where frame: "encode_message P9_TVERSION 65535 (write_tversion demo_tversion) = Inr frame"
    "decode_message_as frame read_tversion = Inr (\<lparr>hdr_size = word_of_nat (length frame), hdr_type = P9_TVERSION, hdr_tag = 65535\<rparr>, demo_tversion)"
    unfolding faithful_def by blast
  show ?thesis using 1 3 frame by simp
qed




end
