(* ===== verification/P9_Readdir.thy ===== *)
theory P9_Readdir
  imports P9_Codec
begin

text \<open>
  The directory entries of a 9P \<^verbatim>\<open>Rreaddir\<close>: the packer fills the reply within its budget and the client's reader
  recovers exactly the entries that were accepted.
\<close>

section \<open>Reference\<close>



section \<open>One entry\<close>




section \<open>A reply\<close>








section \<open>Main theorem\<close>




end
