(* ===== verification/P9_Frames.thy ===== *)
theory P9_Frames
  imports P9_Protocol
begin

text \<open>
  Model of \<^verbatim>\<open>P9FrameAssembler\<close> in \<^verbatim>\<open>transports/mount-rs-9p/src/protocol.rs\<close>: the reassembly of frames from
  a byte stream that arrives in arbitrary pieces.  A slice of a buffer is \<open>take\<close> and \<open>drop\<close>; a method returns its
  result with the assembler it leaves.
\<close>

datatype frame_size_status = BelowHeader | AboveLimit | Incomplete | Complete

datatype version_scan = Found | More | ScanIncomplete

record frame_assembler =
  fa_buffer :: bytes
  fa_offset :: nat
  fa_scan_offset :: nat
  fa_limit :: nat
  fa_failed :: bool

definition classify_frame_size :: "nat \<Rightarrow> nat \<Rightarrow> nat \<Rightarrow> frame_size_status" where
  "classify_frame_size fsize available limit =
     (if fsize < P9_HDRSZ then BelowHeader
      else if fsize > limit then AboveLimit
      else if fsize > available then Incomplete
      else Complete)"

definition low_limit :: "nat \<Rightarrow> p9_error" where
  "low_limit limit = p9_error_new (''frame limit '' @ u64_to_string limit @ '' is below the 7-byte header'')"

definition assembler_new :: "nat \<Rightarrow> p9_error + frame_assembler" where
  "assembler_new limit =
     (if limit < P9_HDRSZ then Inl (low_limit limit)
      else Inr \<lparr>fa_buffer = [], fa_offset = 0, fa_scan_offset = 0, fa_limit = limit, fa_failed = False\<rparr>)"

definition set_limit :: "nat \<Rightarrow> (p9_error, unit, frame_assembler) eop" where
  "set_limit limit a =
     (if limit < P9_HDRSZ then (Inl (low_limit limit), a)
      else (Inr (), if fa_limit a \<noteq> limit then a\<lparr>fa_scan_offset := fa_offset a, fa_limit := limit\<rparr> else a))"

definition fa_pending :: "frame_assembler \<Rightarrow> nat" where
  "fa_pending a = length (fa_buffer a) - fa_offset a"

definition fa_clear :: "frame_assembler \<Rightarrow> frame_assembler" where
  "fa_clear a = a\<lparr>fa_buffer := [], fa_offset := 0, fa_scan_offset := 0\<rparr>"

definition fa_reset :: "frame_assembler \<Rightarrow> frame_assembler" where
  "fa_reset a = (fa_clear a)\<lparr>fa_failed := False\<rparr>"

definition fa_fail :: "frame_assembler \<Rightarrow> frame_assembler" where
  "fa_fail a = fa_clear (a\<lparr>fa_failed := True\<rparr>)"

definition unusable :: p9_error where
  "unusable = p9_error_new ''frame stream is unusable after a framing error''"

definition compact :: "frame_assembler \<Rightarrow> frame_assembler" where
  "compact a =
     (if fa_offset a \<noteq> 0
      then a\<lparr>fa_buffer := drop (fa_offset a) (fa_buffer a), fa_scan_offset := fa_scan_offset a - fa_offset a, fa_offset := 0\<rparr>
      else a)"

definition hold_unparsed :: "bytes \<Rightarrow> frame_assembler \<Rightarrow> frame_assembler" where
  "hold_unparsed chunk a =
     (if chunk = [] then a else let b = compact a in b\<lparr>fa_buffer := fa_buffer b @ chunk\<rparr>)"

definition check_size :: "nat \<Rightarrow> nat \<Rightarrow> nat \<Rightarrow> p9_error + unit" where
  "check_size limit fsize offset =
     (case classify_frame_size fsize U64_MAX limit of
        BelowHeader \<Rightarrow> Inl (p9_error_at (''frame size '' @ u64_to_string fsize @ '' is below the 7-byte header'') offset)
      | AboveLimit \<Rightarrow> Inl (p9_error_at (''frame of '' @ u64_to_string fsize @ '' bytes exceeds the '' @ u64_to_string limit
                        @ ''-byte limit'') offset)
      | _ \<Rightarrow> Inr ())"

definition frame_size_at :: "bytes \<Rightarrow> nat \<Rightarrow> nat" where
  "frame_size_at bs pos = le_value (take 4 (drop pos bs))"

lemma check_size_Inr: "check_size limit fsize pos = Inr () \<Longrightarrow> P9_HDRSZ \<le> fsize \<and> fsize \<le> limit"
  by (auto simp: check_size_def classify_frame_size_def split: if_splits frame_size_status.splits)

text \<open>The two loops of \<^verbatim>\<open>parse\<close>, over the chunk and over the buffer; they return the frames and what is kept.\<close>

function parse_chunk :: "nat \<Rightarrow> bytes \<Rightarrow> nat \<Rightarrow> bytes list \<Rightarrow> p9_error + bytes list \<times> bytes" where
  "parse_chunk limit chunk pos frames =
     (if length chunk - pos \<ge> P9_HDRSZ
      then let fsize = frame_size_at chunk pos in
        case check_size limit fsize pos of
          Inl e \<Rightarrow> Inl e
        | Inr _ \<Rightarrow>
            if classify_frame_size fsize (length chunk - pos) limit = Incomplete then Inr (frames, drop pos chunk)
            else parse_chunk limit chunk (pos + fsize) (frames @ [take fsize (drop pos chunk)])
      else Inr (frames, if pos < length chunk then drop pos chunk else []))"
  by pat_completeness auto
termination
  by (relation "measure (\<lambda>(limit, chunk, pos, frames). length chunk - pos)")
    (auto dest!: check_size_Inr simp: P9_HDRSZ_def)

function parse_buffer :: "nat \<Rightarrow> bytes \<Rightarrow> bytes list \<Rightarrow> p9_error + bytes list \<times> bytes" where
  "parse_buffer limit buffer frames =
     (if length buffer < P9_HDRSZ then Inr (frames, buffer)
      else let fsize = frame_size_at buffer 0 in
        case check_size limit fsize 0 of
          Inl e \<Rightarrow> Inl e
        | Inr _ \<Rightarrow>
            if classify_frame_size fsize (length buffer) limit = Incomplete then Inr (frames, buffer)
            else parse_buffer limit (drop fsize buffer) (frames @ [take fsize buffer]))"
  by pat_completeness auto
termination
  by (relation "measure (\<lambda>(limit, buffer, frames). length buffer)")
    (auto dest!: check_size_Inr simp: P9_HDRSZ_def)

declare parse_chunk.simps [simp del] parse_buffer.simps [simp del]

definition fa_parse :: "bytes \<Rightarrow> (p9_error, bytes list, frame_assembler) eop" where
  "fa_parse chunk a =
     (case (if fa_buffer a = [] then parse_chunk (fa_limit a) chunk 0 [] else parse_buffer (fa_limit a) (fa_buffer a @ chunk) []) of
        Inl e \<Rightarrow> (Inl e, a)
      | Inr (frames, kept) \<Rightarrow> (Inr frames, a\<lparr>fa_buffer := kept\<rparr>))"

definition fa_push :: "bytes \<Rightarrow> (p9_error, bytes list, frame_assembler) eop" where
  "fa_push chunk a =
     (if fa_failed a then (Inl unusable, a)
      else case fa_parse chunk (compact a) of
        (Inl e, b) \<Rightarrow> (Inl e, fa_fail b)
      | (Inr frames, b) \<Rightarrow> (Inr frames, b\<lparr>fa_scan_offset := fa_offset b\<rparr>))"

definition push_one :: "bytes \<Rightarrow> (p9_error, bytes option, frame_assembler) eop" where
  "push_one chunk a =
     (if fa_failed a then (Inl unusable, a)
      else let b = (if chunk \<noteq> [] then hold_unparsed chunk a else a) in
        if fa_pending b < P9_HDRSZ then (Inr None, b)
        else let fsize = frame_size_at (fa_buffer b) (fa_offset b) in
          case check_size (fa_limit b) fsize 0 of
            Inl e \<Rightarrow> (Inl e, fa_fail b)
          | Inr _ \<Rightarrow>
              if classify_frame_size fsize (fa_pending b) (fa_limit b) = Incomplete then (Inr None, b)
              else let frame = take fsize (drop (fa_offset b) (fa_buffer b)); offset = fa_offset b + fsize in
                (Inr (Some frame),
                 if offset = length (fa_buffer b) then fa_clear b
                 else b\<lparr>fa_offset := offset, fa_scan_offset := max (fa_scan_offset b) offset\<rparr>))"

definition is_version_frame :: "bytes \<Rightarrow> bool" where
  "is_version_frame frame \<longleftrightarrow>
     frame ! 4 = P9_TVERSION \<and> (case decode_message_as frame read_tversion of Inr _ \<Rightarrow> True | Inl _ \<Rightarrow> False)"

fun scan_frames :: "nat \<Rightarrow> (p9_error, version_scan, frame_assembler) eop" where
  "scan_frames 0 a = (Inr More, a)"
| "scan_frames (Suc budget) a =
     (let pos = fa_scan_offset a; available = length (fa_buffer a) - pos in
      if available < P9_HDRSZ then (Inr ScanIncomplete, a)
      else let fsize = frame_size_at (fa_buffer a) pos in
        case check_size (fa_limit a) fsize (pos - fa_offset a) of
          Inl e \<Rightarrow> (Inl e, a)
        | Inr _ \<Rightarrow>
            if classify_frame_size fsize available (fa_limit a) = Incomplete then (Inr ScanIncomplete, a)
            else if is_version_frame (take fsize (drop pos (fa_buffer a)))
            then (Inr Found, a\<lparr>fa_offset := pos, fa_scan_offset := pos\<rparr>)
            else scan_frames budget (a\<lparr>fa_scan_offset := pos + fsize\<rparr>))"

definition scan_for_version :: "nat \<Rightarrow> (p9_error, version_scan, frame_assembler) eop" where
  "scan_for_version budget a =
     (if fa_failed a then (Inl unusable, a)
      else case scan_frames budget a of
        (Inl e, b) \<Rightarrow> (Inl e, fa_fail b)
      | (Inr s, b) \<Rightarrow> (Inr s, b))"

end
