(* ===== verification/P9_Connection.thy ===== *)
theory P9_Connection
  imports P9_Frames
begin

text \<open>
  Model of a 9P connection of \<^verbatim>\<open>transports/mount-rs-9p/src/server.rs\<close>: \<^verbatim>\<open>enqueue_frames\<close>,
  \<^verbatim>\<open>discard_prior_calls_for_version\<close> and the loop of \<^verbatim>\<open>run_connection\<close> with its request tasks and its writer
  task.  One event is one atomic piece of it: the part of the loop before the \<^verbatim>\<open>select\<close>, one of its arms, or a
  step of a task between two points where it waits; events of the tasks come between any two others.  What a call
  does is the session's; of it the loop sees the negotiated \<^verbatim>\<open>msize\<close>, which only a version request changes.
  A shutdown or a broken stream only ends the loop and has no event.
\<close>

section \<open>Queueing frames\<close>

datatype pending_frame = Request bytes | Version bytes

fun pending_len :: "pending_frame \<Rightarrow> nat" where
  "pending_len (Request bs) = length bs"
| "pending_len (Version bs) = length bs"

fun is_version :: "pending_frame \<Rightarrow> bool" where
  "is_version (Request bs) = False"
| "is_version (Version bs) = True"

definition MAX_FRAMES_PER_PARSE :: nat where "MAX_FRAMES_PER_PARSE = 4096"

record frame_queue =
  fq_assembler :: frame_assembler
  fq_frames :: "pending_frame list"
  fq_bytes :: nat

definition queue_full :: "nat \<Rightarrow> p9_error" where
  "queue_full pending_limit = p9_error_new (''9P pending request queue exceeds '' @ u64_to_string pending_limit @ '' bytes'')"

text \<open>The loop, with the number of frames it may still parse.\<close>

fun enqueue_loop :: "nat \<Rightarrow> nat \<Rightarrow> nat \<Rightarrow> bytes \<Rightarrow> (p9_error, bool, frame_queue) eop" where
  "enqueue_loop 0 pending_limit pending_frame_limit chunk q =
     (Inr False, q\<lparr>fq_assembler := hold_unparsed chunk (fq_assembler q)\<rparr>)"
| "enqueue_loop (Suc left) pending_limit pending_frame_limit chunk q =
     (if length (fq_frames q) \<ge> pending_frame_limit
      then (Inr False, q\<lparr>fq_assembler := hold_unparsed chunk (fq_assembler q)\<rparr>)
      else case push_one chunk (fq_assembler q) of
        (Inl e, a) \<Rightarrow> (Inl e, q\<lparr>fq_assembler := a\<rparr>)
      | (Inr None, a) \<Rightarrow> (Inr False, q\<lparr>fq_assembler := a\<rparr>)
      | (Inr (Some frame), a) \<Rightarrow>
          let version = is_version_frame frame; pending = (if version then Version frame else Request frame) in
          if pending_len pending > pending_limit - fq_bytes q then (Inl (queue_full pending_limit), q\<lparr>fq_assembler := a\<rparr>)
          else let q' = q\<lparr>fq_assembler := a, fq_bytes := fq_bytes q + pending_len pending, fq_frames := fq_frames q @ [pending]\<rparr> in
            if version then (Inr True, q') else enqueue_loop left pending_limit pending_frame_limit [] q')"

definition enqueue_frames :: "nat \<Rightarrow> nat \<Rightarrow> bytes \<Rightarrow> (p9_error, bool, frame_queue) eop" where
  "enqueue_frames pending_limit pending_frame_limit chunk =
     ebind (enqueue_loop MAX_FRAMES_PER_PARSE pending_limit pending_frame_limit chunk) (\<lambda>version_queued q.
       if fa_pending (fq_assembler q) > pending_limit - fq_bytes q then (Inl (queue_full pending_limit), q)
       else (Inr version_queued, q))"

section \<open>State of a connection\<close>

record conn_config =
  max_frame :: nat
  max_in_flight :: nat

definition READ_BUFFER :: nat where "READ_BUFFER = 64 * 1024"

definition saturating_mul :: "nat \<Rightarrow> nat \<Rightarrow> nat" where
  "saturating_mul a b = min (a * b) U64_MAX"

definition conn_pending_limit :: "conn_config \<Rightarrow> nat" where
  "conn_pending_limit cfg = max (saturating_mul (max_frame cfg) (max_in_flight cfg)) READ_BUFFER"

definition conn_frame_limit :: "conn_config \<Rightarrow> nat" where
  "conn_frame_limit cfg = min (max (saturating_mul (max_in_flight cfg) 1024) (READ_BUFFER div P9_HDRSZ)) 65536"

text \<open>
  A request task works until the session has its reply, waits until the writer has taken care of that, and finishes.
  The number of renegotiations at its start, \<open>generation\<close>, is kept for the theorems; the code has the
  sixty-four bit \<open>epoch\<close>.
\<close>

datatype task_phase = Working | Waiting | Acked | Finished

record conn_task =
  task_id :: nat
  task_epoch :: nat
  task_generation :: nat
  task_version :: bool
  task_aborted :: bool
  task_phase :: task_phase

record reply_write =
  rw_task :: nat
  rw_epoch :: nat
  rw_generation :: nat
  rw_version :: bool

datatype loop_point = LoopTop | Selecting bool

record conn =
  cn_queue :: frame_queue
  cn_fenced :: bool
  cn_running :: bool
  cn_aborting :: bool
  cn_resume :: bool
  cn_epoch :: nat
  cn_generation :: nat
  cn_msize :: "nat option"
  cn_tasks :: "conn_task list"
  cn_next_task :: nat
  cn_channel :: "reply_write list"
  cn_writer :: "reply_write option"
  cn_written :: "reply_write list"
  cn_point :: loop_point

datatype conn_stop = StopFrame p9_error | StopVersionLost | StopQueueFull | StopTask

definition conn_start :: "conn_config \<Rightarrow> p9_error + conn" where
  "conn_start cfg =
     (case assembler_new (max (max_frame cfg) P9_HDRSZ) of
        Inl e \<Rightarrow> Inl e
      | Inr a \<Rightarrow> Inr \<lparr>cn_queue = \<lparr>fq_assembler = a, fq_frames = [], fq_bytes = 0\<rparr>, cn_fenced = False, cn_running = False,
          cn_aborting = False, cn_resume = False, cn_epoch = 0, cn_generation = 0, cn_msize = None, cn_tasks = [],
          cn_next_task = 0, cn_channel = [], cn_writer = None, cn_written = [], cn_point = LoopTop\<rparr>)"

section \<open>The loop\<close>

fun drop_requests :: "pending_frame list \<Rightarrow> nat \<Rightarrow> pending_frame list \<times> nat" where
  "drop_requests (Request bs # frames) count = drop_requests frames (count - length bs)"
| "drop_requests frames count = (frames, count)"

definition abort_task :: "conn_task \<Rightarrow> conn_task" where
  "abort_task t = (if task_phase t = Finished then t else t\<lparr>task_aborted := True\<rparr>)"

definition discard_prior_calls_for_version :: "conn \<Rightarrow> conn" where
  "discard_prior_calls_for_version c =
     (let (frames, count) = drop_requests (fq_frames (cn_queue c)) (fq_bytes (cn_queue c)) in
      c\<lparr>cn_queue := (cn_queue c)\<lparr>fq_frames := frames, fq_bytes := count\<rparr>,
        cn_epoch := (cn_epoch c + 1) mod 2 ^ 64, cn_generation := cn_generation c + 1,
        cn_tasks := map abort_task (cn_tasks c)\<rparr>)"

definition queue_input :: "conn_config \<Rightarrow> bytes \<Rightarrow> conn \<Rightarrow> (p9_error + bool) \<times> conn" where
  "queue_input cfg chunk c =
     (let (r, q) = enqueue_frames (conn_pending_limit cfg) (conn_frame_limit cfg) chunk (cn_queue c) in
      (r, c\<lparr>cn_queue := q\<rparr>))"

definition take_input :: "conn_config \<Rightarrow> bytes \<Rightarrow> conn \<Rightarrow> conn_stop + conn" where
  "take_input cfg chunk c =
     (case queue_input cfg chunk c of
        (Inl e, _) \<Rightarrow> Inl (StopFrame e)
      | (Inr fenced, d) \<Rightarrow>
          let d = d\<lparr>cn_fenced := fenced\<rparr> in
          Inr (if fenced \<and> cn_msize d \<noteq> None then (discard_prior_calls_for_version d)\<lparr>cn_aborting := True\<rparr> else d))"

definition loop_resume :: "conn_config \<Rightarrow> conn \<Rightarrow> conn_stop + conn" where
  "loop_resume cfg c =
     (if cn_resume c \<or> (\<not> cn_fenced c \<and> fa_pending (fq_assembler (cn_queue c)) > 0
           \<and> length (fq_frames (cn_queue c)) < conn_frame_limit cfg)
      then take_input cfg [] (c\<lparr>cn_resume := False\<rparr>) else Inr c)"

text \<open>With the queue full, look ahead for a version request; the flag asks for another round of scanning.\<close>

definition loop_scan :: "conn_config \<Rightarrow> conn \<Rightarrow> conn_stop + conn \<times> bool" where
  "loop_scan cfg c =
     (if \<not> cn_fenced c \<and> cn_msize c \<noteq> None \<and> length (fq_frames (cn_queue c)) \<ge> conn_frame_limit cfg
         \<and> fa_pending (fq_assembler (cn_queue c)) > 0
      then let (r, a) = scan_for_version MAX_FRAMES_PER_PARSE (fq_assembler (cn_queue c));
               d = c\<lparr>cn_queue := (cn_queue c)\<lparr>fq_assembler := a\<rparr>\<rparr> in
        case r of
          Inl e \<Rightarrow> Inl (StopFrame e)
        | Inr Found \<Rightarrow>
            (case queue_input cfg [] ((discard_prior_calls_for_version d)\<lparr>cn_aborting := True\<rparr>) of
               (Inl e, _) \<Rightarrow> Inl (StopFrame e)
             | (Inr False, _) \<Rightarrow> Inl StopVersionLost
             | (Inr True, f) \<Rightarrow> Inr (f\<lparr>cn_fenced := True\<rparr>, False))
        | Inr More \<Rightarrow> Inr (d, True)
        | Inr ScanIncomplete \<Rightarrow> Inr (d, False)
      else Inr (c, False))"

definition loop_head :: "conn_config \<Rightarrow> conn \<Rightarrow> conn_stop + conn" where
  "loop_head cfg c =
     (case loop_resume cfg c of
        Inl e \<Rightarrow> Inl e
      | Inr d \<Rightarrow> (case loop_scan cfg d of Inl e \<Rightarrow> Inl e | Inr (f, scan_again) \<Rightarrow> Inr (f\<lparr>cn_point := Selecting scan_again\<rparr>)))"

definition find_task :: "nat \<Rightarrow> conn \<Rightarrow> conn_task option" where
  "find_task i c = find (\<lambda>t. task_id t = i) (cn_tasks c)"

definition remove_task :: "nat \<Rightarrow> conn \<Rightarrow> conn" where
  "remove_task i c = c\<lparr>cn_tasks := filter (\<lambda>t. task_id t \<noteq> i) (cn_tasks c)\<rparr>"

definition set_phase :: "nat \<Rightarrow> task_phase \<Rightarrow> conn \<Rightarrow> conn" where
  "set_phase i p c = c\<lparr>cn_tasks := map (\<lambda>t. if task_id t = i then t\<lparr>task_phase := p\<rparr> else t) (cn_tasks c)\<rparr>"

definition put_limit :: "nat \<Rightarrow> conn \<Rightarrow> conn_stop + conn" where
  "put_limit limit c =
     (case set_limit limit (fq_assembler (cn_queue c)) of
        (Inl e, _) \<Rightarrow> Inl (StopFrame e)
      | (Inr _, a) \<Rightarrow> Inr (c\<lparr>cn_queue := (cn_queue c)\<lparr>fq_assembler := a\<rparr>\<rparr>))"

definition join_finished :: "conn_config \<Rightarrow> conn_task \<Rightarrow> conn \<Rightarrow> conn_stop + conn" where
  "join_finished cfg t c =
     (let d = remove_task (task_id t) c in
      if task_version t
      then let limit = (case cn_msize c of None \<Rightarrow> max (max_frame cfg) P9_HDRSZ | Some msize \<Rightarrow> msize) in
        (case put_limit limit (d\<lparr>cn_running := False, cn_fenced := False, cn_aborting := False\<rparr>) of
           Inl e \<Rightarrow> Inl e | Inr f \<Rightarrow> Inr (f\<lparr>cn_resume := True\<rparr>))
      else Inr d)"

definition join_cancelled :: "conn_task \<Rightarrow> conn \<Rightarrow> conn_stop + conn" where
  "join_cancelled t c = (if cn_aborting c \<and> \<not> cn_running c then Inr (remove_task (task_id t) c) else Inl StopTask)"

definition holds_permit :: "conn_task \<Rightarrow> bool" where
  "holds_permit t \<longleftrightarrow> task_phase t \<noteq> Finished"

definition may_dispatch :: "conn_config \<Rightarrow> conn \<Rightarrow> bool" where
  "may_dispatch cfg c \<longleftrightarrow> fq_frames (cn_queue c) \<noteq> [] \<and> \<not> cn_running c
     \<and> (\<not> is_version (hd (fq_frames (cn_queue c))) \<or> cn_tasks c = [])
     \<and> length (filter holds_permit (cn_tasks c)) < max_in_flight cfg"

definition dispatch :: "conn \<Rightarrow> conn" where
  "dispatch c =
     (let frame = hd (fq_frames (cn_queue c)); q = cn_queue c in
      c\<lparr>cn_queue := q\<lparr>fq_frames := tl (fq_frames q), fq_bytes := fq_bytes q - pending_len frame\<rparr>,
        cn_running := (if is_version frame then True else cn_running c),
        cn_tasks := cn_tasks c @ [\<lparr>task_id = cn_next_task c, task_epoch = cn_epoch c, task_generation = cn_generation c,
                      task_version = is_version frame, task_aborted = False, task_phase = Working\<rparr>],
        cn_next_task := cn_next_task c + 1\<rparr>)"

definition read_input :: "conn_config \<Rightarrow> bytes \<Rightarrow> conn \<Rightarrow> conn_stop + conn" where
  "read_input cfg chunk c =
     (let held = saturating_add (fq_bytes (cn_queue c)) (fa_pending (fq_assembler (cn_queue c))) in
      if held \<ge> conn_pending_limit cfg then Inl StopQueueFull
      else case (if \<not> cn_fenced c \<and> cn_msize c \<noteq> None then put_limit (the (cn_msize c)) c else Inr c) of
        Inl e \<Rightarrow> Inl e
      | Inr d \<Rightarrow>
          if cn_fenced d
          then if length chunk > conn_pending_limit cfg - held then Inl StopQueueFull
            else Inr (d\<lparr>cn_queue := (cn_queue d)\<lparr>fq_assembler := hold_unparsed chunk (fq_assembler (cn_queue d))\<rparr>\<rparr>)
          else take_input cfg chunk d)"

section \<open>The writer\<close>

definition stale :: "reply_write \<Rightarrow> conn \<Rightarrow> bool" where
  "stale r c \<longleftrightarrow> \<not> rw_version r \<and> rw_epoch r \<noteq> cn_epoch c"

definition acknowledge :: "reply_write \<Rightarrow> conn \<Rightarrow> conn" where
  "acknowledge r c =
     c\<lparr>cn_tasks := map (\<lambda>t. if task_id t = rw_task r \<and> task_phase t = Waiting then t\<lparr>task_phase := Acked\<rparr> else t) (cn_tasks c)\<rparr>"

definition writer_take :: "conn \<Rightarrow> conn option" where
  "writer_take c =
     (case (cn_writer c, cn_channel c) of
        (None, r # rest) \<Rightarrow>
          let d = c\<lparr>cn_channel := rest\<rparr> in
          Some (if stale r c then acknowledge r d else d\<lparr>cn_writer := Some r\<rparr>)
      | _ \<Rightarrow> None)"

definition writer_write :: "conn \<Rightarrow> conn option" where
  "writer_write c =
     (case cn_writer c of
        Some r \<Rightarrow>
          let d = c\<lparr>cn_writer := None\<rparr> in
          Some (acknowledge r (if stale r c then d else d\<lparr>cn_written := cn_written c @ [r]\<rparr>))
      | None \<Rightarrow> None)"

section \<open>Events\<close>

datatype conn_event =
    Head | Yield | JoinFinished nat | JoinCancelled nat | Dispatch | Read bytes
  | SessionMsize "nat option" | TaskReply nat | TaskSilent nat | TaskReturn nat | WriterTake | WriterWrite

definition task_reply :: "conn_config \<Rightarrow> conn_task \<Rightarrow> conn \<Rightarrow> conn option" where
  "task_reply cfg t c =
     (if task_phase t = Working \<and> length (cn_channel c) < max (max_in_flight cfg) 1
      then Some (set_phase (task_id t) Waiting (c\<lparr>cn_channel := cn_channel c
             @ [\<lparr>rw_task = task_id t, rw_epoch = task_epoch t, rw_generation = task_generation t, rw_version = task_version t\<rparr>]\<rparr>))
      else None)"

definition at_top :: "(conn_stop + conn) \<Rightarrow> (conn_stop + conn) option" where
  "at_top r = Some (case r of Inl e \<Rightarrow> Inl e | Inr c \<Rightarrow> Inr (c\<lparr>cn_point := LoopTop\<rparr>))"

fun conn_exec :: "conn_config \<Rightarrow> conn_event \<Rightarrow> conn \<Rightarrow> (conn_stop + conn) option" where
  "conn_exec cfg Head c = (if cn_point c = LoopTop then Some (loop_head cfg c) else None)"
| "conn_exec cfg Yield c = (if cn_point c = Selecting True then at_top (Inr c) else None)"
| "conn_exec cfg (JoinFinished i) c =
     (case find_task i c of
        Some t \<Rightarrow> if cn_point c \<noteq> LoopTop \<and> task_phase t = Finished then at_top (join_finished cfg t c) else None
      | None \<Rightarrow> None)"
| "conn_exec cfg (JoinCancelled i) c =
     (case find_task i c of
        Some t \<Rightarrow> if cn_point c \<noteq> LoopTop \<and> task_aborted t \<and> task_phase t \<noteq> Finished then at_top (join_cancelled t c) else None
      | None \<Rightarrow> None)"
| "conn_exec cfg Dispatch c = (if cn_point c = Selecting False \<and> may_dispatch cfg c then at_top (Inr (dispatch c)) else None)"
| "conn_exec cfg (Read chunk) c =
     (if cn_point c \<noteq> LoopTop \<and> chunk \<noteq> [] \<and> length chunk \<le> READ_BUFFER then at_top (read_input cfg chunk c) else None)"
| "conn_exec cfg (SessionMsize m) c = (if cn_running c then Some (Inr (c\<lparr>cn_msize := m\<rparr>)) else None)"
| "conn_exec cfg (TaskReply i) c = (case find_task i c of Some t \<Rightarrow> map_option Inr (task_reply cfg t c) | None \<Rightarrow> None)"
| "conn_exec cfg (TaskSilent i) c =
     (case find_task i c of
        Some t \<Rightarrow> if task_phase t = Working then Some (Inr (set_phase i Finished c)) else None | None \<Rightarrow> None)"
| "conn_exec cfg (TaskReturn i) c =
     (case find_task i c of
        Some t \<Rightarrow> if task_phase t = Acked then Some (Inr (set_phase i Finished c)) else None | None \<Rightarrow> None)"
| "conn_exec cfg WriterTake c = map_option Inr (writer_take c)"
| "conn_exec cfg WriterWrite c = map_option Inr (writer_write c)"

inductive conn_reachable :: "conn_config \<Rightarrow> conn \<Rightarrow> bool" where
  conn_starts: "conn_start cfg = Inr c \<Longrightarrow> conn_reachable cfg c"
| conn_steps: "conn_reachable cfg c \<Longrightarrow> conn_exec cfg e c = Some (Inr d) \<Longrightarrow> conn_reachable cfg d"

end
