(* ===== verification/P9_Frame_Safety.thy ===== *)
theory P9_Frame_Safety
  imports P9_Frames "HOL-Library.Sublist"
begin

text \<open>
  Correctness of the 9P frame assembler against a reference that cuts a whole byte stream.  The locale is what a
  way of feeding the assembler promises of one piece of the stream; that the pieces do not matter follows from it
  once, for \<^verbatim>\<open>push\<close> and for repeated \<^verbatim>\<open>push_one\<close>.
\<close>

section \<open>Reference: cutting a stream\<close>

text \<open>The frames of a stream, the bytes left over, and whether these start with a bad size field.\<close>

function cut_frames :: "nat \<Rightarrow> bytes \<Rightarrow> bytes list \<times> bytes \<times> bool" where
  "cut_frames limit s =
     (if length s < P9_HDRSZ then ([], s, False)
      else let n = frame_size_at s 0 in
        if n < P9_HDRSZ \<or> limit < n then ([], s, True)
        else if length s < n then ([], s, False)
        else let (frames, rest) = cut_frames limit (drop n s) in (take n s # frames, rest))"
  by pat_completeness auto
termination
  by (relation "measure (\<lambda>(limit, s). length s)") (auto simp: P9_HDRSZ_def)

declare cut_frames.simps [simp del]

definition frame_ok :: "nat \<Rightarrow> bytes \<Rightarrow> bool" where
  "frame_ok limit f \<longleftrightarrow> P9_HDRSZ \<le> length f \<and> length f \<le> limit \<and> frame_size_at f 0 = length f"

lemma frame_size_take: "4 \<le> n \<Longrightarrow> frame_size_at (take n s) 0 = frame_size_at s 0"
  by (simp add: frame_size_at_def min_def)

lemma frame_size_append: "4 \<le> length s \<Longrightarrow> frame_size_at (s @ t) 0 = frame_size_at s 0"
  by (simp add: frame_size_at_def)

lemma frame_size_drop: "frame_size_at s pos = frame_size_at (drop pos s) 0"
  by (simp add: frame_size_at_def)

lemma cut_frames_sound:
  "cut_frames limit s = (frames, rest, bad) \<Longrightarrow> s = concat frames @ rest \<and> (\<forall>f \<in> set frames. frame_ok limit f)"
proof (induction limit s arbitrary: frames rest bad rule: cut_frames.induct)
  case (1 limit s)
  show ?case
  proof (cases "length s < P9_HDRSZ \<or> frame_size_at s 0 < P9_HDRSZ \<or> limit < frame_size_at s 0 \<or> length s < frame_size_at s 0")
    case True
    then show ?thesis using "1.prems" by (subst (asm) cut_frames.simps) (auto simp: Let_def split: if_splits)
  next
    case False
    let ?n = "frame_size_at s 0"
    obtain fs where fs: "cut_frames limit (drop ?n s) = (fs, rest, bad)" "frames = take ?n s # fs"
      using "1.prems" False by (subst (asm) cut_frames.simps) (auto simp: Let_def split: prod.splits)
    have "drop ?n s = concat fs @ rest \<and> (\<forall>f \<in> set fs. frame_ok limit f)"
      using "1.IH" [of ?n fs rest bad] False fs(1) by simp
    moreover have "frame_ok limit (take ?n s)"
      using False frame_size_take [of ?n s] by (auto simp: frame_ok_def P9_HDRSZ_def)
    ultimately show ?thesis using fs(2) by (metis append_take_drop_id append.assoc concat.simps(2) set_ConsD)
  qed
qed

lemma cut_frames_rest:
  "cut_frames limit s = (frames, rest, bad) \<Longrightarrow> cut_frames limit rest = ([], rest, bad)"
proof (induction limit s arbitrary: frames rest bad rule: cut_frames.induct)
  case (1 limit s)
  show ?case
  proof (cases "length s < P9_HDRSZ \<or> frame_size_at s 0 < P9_HDRSZ \<or> limit < frame_size_at s 0 \<or> length s < frame_size_at s 0")
    case True
    then have "frames = [] \<and> rest = s" using "1.prems" by (subst (asm) cut_frames.simps) (auto simp: Let_def split: if_splits)
    then show ?thesis using "1.prems" by simp
  next
    case False
    then show ?thesis
      using "1.prems" "1.IH" [of "frame_size_at s 0"] by (subst (asm) cut_frames.simps) (auto simp: Let_def split: prod.splits)
  qed
qed

lemma cut_frames_step:
  assumes "P9_HDRSZ \<le> length s" "P9_HDRSZ \<le> frame_size_at s 0" "frame_size_at s 0 \<le> limit" "frame_size_at s 0 \<le> length s"
  shows "cut_frames limit s =
    (take (frame_size_at s 0) s # fst (cut_frames limit (drop (frame_size_at s 0) s)), snd (cut_frames limit (drop (frame_size_at s 0) s)))"
  using assms by (subst cut_frames.simps) (simp add: Let_def split_beta)

lemma cut_frames_bad:
  "P9_HDRSZ \<le> length s \<Longrightarrow> frame_size_at s 0 < P9_HDRSZ \<or> limit < frame_size_at s 0 \<Longrightarrow> cut_frames limit s = ([], s, True)"
  by (subst cut_frames.simps) (auto simp: Let_def)

lemma cut_frames_wait:
  "length s < P9_HDRSZ \<or> (P9_HDRSZ \<le> frame_size_at s 0 \<and> frame_size_at s 0 \<le> limit \<and> length s < frame_size_at s 0)
     \<Longrightarrow> cut_frames limit s = ([], s, False)"
  by (subst cut_frames.simps) (auto simp: Let_def)

text \<open>Cutting a prefix and going on with what is left cuts the whole.\<close>

lemma cut_frames_append:
  assumes "cut_frames limit s = (frames, rest, bad)"
  shows "cut_frames limit (s @ t) =
    (if bad then (frames, rest @ t, True)
     else (frames @ fst (cut_frames limit (rest @ t)), snd (cut_frames limit (rest @ t))))"
  using assms
proof (induction limit s arbitrary: frames rest bad rule: cut_frames.induct)
  case (1 limit s)
  let ?n = "frame_size_at s 0"
  consider (wait) "length s < P9_HDRSZ \<or> (P9_HDRSZ \<le> ?n \<and> ?n \<le> limit \<and> length s < ?n)"
    | (bad) "P9_HDRSZ \<le> length s" "?n < P9_HDRSZ \<or> limit < ?n"
    | (step) "P9_HDRSZ \<le> length s" "P9_HDRSZ \<le> ?n" "?n \<le> limit" "?n \<le> length s" by linarith
  then show ?case
  proof cases
    case wait
    then show ?thesis using "1.prems" cut_frames_wait [OF wait] by simp
  next
    case bad
    have "frame_size_at (s @ t) 0 = ?n" by (rule frame_size_append) (use bad(1) in \<open>simp add: P9_HDRSZ_def\<close>)
    then have "cut_frames limit (s @ t) = ([], s @ t, True)" by (intro cut_frames_bad) (use bad in auto)
    then show ?thesis using "1.prems" cut_frames_bad [OF bad] by simp
  next
    case step
    have n: "frame_size_at (s @ t) 0 = ?n" by (rule frame_size_append) (use step(1) in \<open>simp add: P9_HDRSZ_def\<close>)
    obtain fs where fs: "cut_frames limit (drop ?n s) = (fs, rest, bad)" "frames = take ?n s # fs"
      using "1.prems" cut_frames_step [OF step] by (metis Pair_inject prod.collapse)
    have "cut_frames limit (s @ t) = (take ?n s # fst (cut_frames limit (drop ?n s @ t)), snd (cut_frames limit (drop ?n s @ t)))"
      using cut_frames_step [of "s @ t" limit] step by (simp add: n)
    then show ?thesis using "1.IH" [OF _ refl _ _ fs(1)] fs step by simp
  qed
qed

lemma cut_frames_cases:
  obtains (wait) "length s < P9_HDRSZ \<or> (P9_HDRSZ \<le> frame_size_at s 0 \<and> frame_size_at s 0 \<le> limit \<and> length s < frame_size_at s 0)"
  | (bad) "P9_HDRSZ \<le> length s" "frame_size_at s 0 < P9_HDRSZ \<or> limit < frame_size_at s 0"
  | (step) "P9_HDRSZ \<le> length s" "P9_HDRSZ \<le> frame_size_at s 0" "frame_size_at s 0 \<le> limit" "frame_size_at s 0 \<le> length s"
  by linarith

lemma cut_frames_pending:
  assumes "cut_frames limit s = (frames, rest, False)" "P9_HDRSZ \<le> limit"
  shows "length rest < limit"
proof -
  have r: "cut_frames limit rest = ([], rest, False)" by (rule cut_frames_rest [OF assms(1)])
  show ?thesis
    by (cases rule: cut_frames_cases [where s = rest and limit = limit])
      (use r cut_frames_bad [of rest limit] cut_frames_step [of rest limit] assms(2) in auto)
qed

section \<open>The parsing loops cut\<close>

lemma check_size_cases:
  "P9_HDRSZ \<le> n \<Longrightarrow> n \<le> limit \<Longrightarrow> check_size limit n pos = Inr ()"
  "n < P9_HDRSZ \<or> limit < n \<Longrightarrow> \<exists>e. check_size limit n pos = Inl e"
  by (auto simp: check_size_def classify_frame_size_def split: frame_size_status.splits)

lemma classify_incomplete:
  "P9_HDRSZ \<le> n \<Longrightarrow> n \<le> limit \<Longrightarrow> classify_frame_size n available limit = Incomplete \<longleftrightarrow> available < n"
  by (simp add: classify_frame_size_def)

lemma parse_buffer_cut:
  "cut_frames limit s = (fs, rest, bad) \<Longrightarrow>
     (if bad then \<exists>e. parse_buffer limit s frames = Inl e else parse_buffer limit s frames = Inr (frames @ fs, rest))"
proof (induction limit s arbitrary: fs frames rule: cut_frames.induct)
  case (1 limit s)
  show ?case
  proof (cases rule: cut_frames_cases [where s = s and limit = limit])
    case wait
    then show ?thesis using "1.prems" cut_frames_wait [OF wait]
      by (subst parse_buffer.simps) (auto simp: Let_def check_size_cases classify_incomplete)
  next
    case bad
    obtain e where "check_size limit (frame_size_at s 0) 0 = Inl e" using check_size_cases(2) [OF bad(2)] by blast
    then have "parse_buffer limit s frames = Inl e" using bad(1) by (subst parse_buffer.simps) (simp add: Let_def)
    then show ?thesis using "1.prems" cut_frames_bad [OF bad] by simp
  next
    case step
    let ?n = "frame_size_at s 0"
    obtain gs where gs: "cut_frames limit (drop ?n s) = (gs, rest, bad)" "fs = take ?n s # gs"
      using "1.prems" cut_frames_step [OF step] by (metis Pair_inject prod.collapse)
    have "parse_buffer limit s frames = parse_buffer limit (drop ?n s) (frames @ [take ?n s])"
      using step by (subst parse_buffer.simps) (simp add: Let_def check_size_cases classify_incomplete)
    then show ?thesis using "1.IH" [OF _ refl _ _ gs(1), of "frames @ [take ?n s]"] gs(2) step by (simp split: if_splits)
  qed
qed

lemma parse_chunk_cut:
  "cut_frames limit (drop pos chunk) = (fs, rest, bad) \<Longrightarrow>
     (if bad then \<exists>e. parse_chunk limit chunk pos frames = Inl e else parse_chunk limit chunk pos frames = Inr (frames @ fs, rest))"
proof (induction limit chunk pos frames arbitrary: fs rule: parse_chunk.induct)
  case (1 limit chunk pos frames)
  let ?n = "frame_size_at chunk pos" and ?s = "drop pos chunk"
  have n: "frame_size_at ?s 0 = ?n" by (rule frame_size_drop [symmetric])
  show ?case
  proof (cases rule: cut_frames_cases [where s = "?s" and limit = limit])
    case wait
    have "parse_chunk limit chunk pos frames = Inr (frames, ?s)"
      using wait by (subst parse_chunk.simps) (auto simp: n Let_def check_size_cases classify_incomplete)
    then show ?thesis using "1.prems" cut_frames_wait [OF wait] by simp
  next
    case bad
    obtain e where "check_size limit ?n pos = Inl e" using check_size_cases(2) [OF bad(2)] unfolding n by blast
    then have "parse_chunk limit chunk pos frames = Inl e" using bad(1) by (subst parse_chunk.simps) (simp add: Let_def)
    then show ?thesis using "1.prems" cut_frames_bad [OF bad] by simp
  next
    case step
    obtain gs where gs: "cut_frames limit (drop ?n ?s) = (gs, rest, bad)" "fs = take ?n ?s # gs"
      using "1.prems" cut_frames_step [OF step] unfolding n by (metis Pair_inject prod.collapse)
    have c: "check_size limit ?n pos = Inr ()" "classify_frame_size ?n (length chunk - pos) limit \<noteq> Incomplete" "P9_HDRSZ \<le> length chunk - pos"
      using step by (simp_all add: n check_size_cases classify_incomplete)
    have "parse_chunk limit chunk pos frames = parse_chunk limit chunk (pos + ?n) (frames @ [take ?n ?s])"
      using c by (subst parse_chunk.simps) (simp add: Let_def)
    moreover have "cut_frames limit (drop (pos + ?n) chunk) = (gs, rest, bad)" using gs(1) by (simp add: add.commute)
    ultimately show ?thesis using "1.IH" [OF c(3) refl c(1,2)] gs(2) by (simp split: if_splits)
  qed
qed

section \<open>One piece of the stream\<close>

text \<open>An assembler that has not failed keeps its two offsets in the buffer, in order.\<close>

definition fa_live :: "frame_assembler \<Rightarrow> bool" where
  "fa_live a \<longleftrightarrow> \<not> fa_failed a \<and> fa_offset a \<le> fa_scan_offset a \<and> fa_scan_offset a \<le> length (fa_buffer a)"

definition fa_bytes :: "frame_assembler \<Rightarrow> bytes" where
  "fa_bytes a = drop (fa_offset a) (fa_buffer a)"

lemma fa_pending_bytes: "fa_pending a = length (fa_bytes a)"
  by (simp add: fa_pending_def fa_bytes_def)

lemma compact_bytes:
  "fa_bytes (compact a) = fa_bytes a" "fa_offset (compact a) = 0" "fa_buffer (compact a) = fa_bytes a"
  "fa_limit (compact a) = fa_limit a" "fa_failed (compact a) = fa_failed a"
  by (simp_all add: compact_def fa_bytes_def)

lemma compact_live: "fa_live a \<Longrightarrow> fa_live (compact a)"
  by (auto simp: compact_def fa_live_def)

lemma push_cut:
  assumes live: "fa_live a" and cut: "cut_frames (fa_limit a) (fa_bytes a @ chunk) = (frames, rest, bad)"
  shows "if bad then \<exists>e. fa_push chunk a = (Inl e, fa_fail (compact a))
    else \<exists>a'. fa_push chunk a = (Inr frames, a') \<and> fa_live a' \<and> fa_bytes a' = rest \<and> fa_limit a' = fa_limit a"
proof -
  let ?c = "compact a"
  have "if bad then \<exists>e. fa_parse chunk ?c = (Inl e, ?c) else fa_parse chunk ?c = (Inr frames, ?c\<lparr>fa_buffer := rest\<rparr>)"
    using parse_chunk_cut [of "fa_limit a" 0 chunk frames rest bad "[]"] parse_buffer_cut [of "fa_limit a" "fa_bytes a @ chunk" frames rest bad "[]"] cut
    by (auto simp: fa_parse_def compact_bytes)
  then show ?thesis
    using live by (auto simp: fa_push_def fa_live_def fa_bytes_def compact_bytes split: if_splits)
qed

lemma hold_bytes:
  assumes "fa_live a"
  shows "fa_bytes (hold_unparsed chunk a) = fa_bytes a @ chunk" "fa_live (hold_unparsed chunk a)"
    "fa_limit (hold_unparsed chunk a) = fa_limit a"
  using assms compact_live [OF assms]
  by (auto simp: hold_unparsed_def Let_def compact_bytes fa_live_def fa_bytes_def)

lemma hold_nothing [simp]: "hold_unparsed [] a = a"
  by (simp add: hold_unparsed_def)

lemma push_one_held:
  assumes "fa_live a"
  shows "push_one chunk a = push_one [] (hold_unparsed chunk a)"
proof -
  have "\<not> fa_failed a" "\<not> fa_failed (hold_unparsed chunk a)"
    using assms hold_bytes(2) [OF assms, of chunk] by (simp_all add: fa_live_def)
  then show ?thesis by (cases "chunk = []") (simp_all add: push_one_def)
qed

lemma push_one_wait:
  assumes "fa_live a" "cut_frames (fa_limit a) (fa_bytes a) = ([], rest, False)"
  shows "push_one [] a = (Inr None, a)"
proof -
  let ?s = "fa_bytes a"
  have n: "frame_size_at (fa_buffer a) (fa_offset a) = frame_size_at ?s 0"
    by (simp add: fa_bytes_def frame_size_drop [symmetric])
  show ?thesis
    by (cases rule: cut_frames_cases [where s = "?s" and limit = "fa_limit a"])
      (use assms cut_frames_bad [of ?s "fa_limit a"] cut_frames_step [of ?s "fa_limit a"] in
        \<open>auto simp: push_one_def fa_live_def fa_pending_bytes n Let_def check_size_cases classify_incomplete\<close>)
qed

lemma push_one_bad:
  assumes "fa_live a" "cut_frames (fa_limit a) (fa_bytes a) = ([], rest, True)"
  shows "\<exists>e. push_one [] a = (Inl e, fa_fail a)"
proof -
  let ?s = "fa_bytes a"
  have n: "frame_size_at (fa_buffer a) (fa_offset a) = frame_size_at ?s 0"
    by (simp add: fa_bytes_def frame_size_drop [symmetric])
  have b: "P9_HDRSZ \<le> length ?s" "frame_size_at ?s 0 < P9_HDRSZ \<or> fa_limit a < frame_size_at ?s 0"
    by (cases rule: cut_frames_cases [where s = "?s" and limit = "fa_limit a"];
        use assms(2) cut_frames_wait [of ?s "fa_limit a"] cut_frames_step [of ?s "fa_limit a"] in auto)+
  obtain e where "check_size (fa_limit a) (frame_size_at ?s 0) 0 = Inl e" using check_size_cases(2) [OF b(2)] by blast
  then show ?thesis using assms(1) b(1) by (auto simp: push_one_def fa_live_def fa_pending_bytes n Let_def)
qed

lemma push_one_frame:
  assumes live: "fa_live a" and cut: "cut_frames (fa_limit a) (fa_bytes a) = (f # frames, rest, bad)"
  shows "\<exists>a'. push_one [] a = (Inr (Some f), a') \<and> fa_live a' \<and> fa_bytes a' = drop (length f) (fa_bytes a) \<and>
    fa_limit a' = fa_limit a \<and> cut_frames (fa_limit a) (fa_bytes a') = (frames, rest, bad)"
proof -
  let ?s = "fa_bytes a" and ?n = "frame_size_at (fa_bytes a) 0"
  have n: "frame_size_at (fa_buffer a) (fa_offset a) = ?n"
    by (simp add: fa_bytes_def frame_size_drop [symmetric])
  have st: "P9_HDRSZ \<le> length ?s \<and> P9_HDRSZ \<le> ?n \<and> ?n \<le> fa_limit a \<and> ?n \<le> length ?s"
    by (cases rule: cut_frames_cases [where s = "?s" and limit = "fa_limit a"];
        use cut cut_frames_wait [of ?s "fa_limit a"] cut_frames_bad [of ?s "fa_limit a"] in auto)
  then have f: "f = take ?n ?s" "cut_frames (fa_limit a) (drop ?n ?s) = (frames, rest, bad)"
    using cut cut_frames_step [of ?s "fa_limit a"] by (auto simp: prod_eq_iff)
  have len: "length f = ?n" "fa_offset a + ?n \<le> length (fa_buffer a)"
    using st f(1) live by (auto simp: fa_bytes_def fa_live_def)
  let ?a = "if fa_offset a + ?n = length (fa_buffer a) then fa_clear a
    else a\<lparr>fa_offset := fa_offset a + ?n, fa_scan_offset := max (fa_scan_offset a) (fa_offset a + ?n)\<rparr>"
  have "push_one [] a = (Inr (Some f), ?a)"
    using live st f(1)
    by (simp add: push_one_def fa_live_def fa_pending_bytes n Let_def check_size_cases classify_incomplete flip: fa_bytes_def)
  moreover have "fa_live ?a" "fa_limit ?a = fa_limit a" using live len(2) by (auto simp: fa_live_def fa_clear_def)
  moreover have "fa_bytes ?a = drop ?n ?s" by (auto simp: fa_bytes_def fa_clear_def add.commute)
  ultimately show ?thesis using f(2) len(1) by metis
qed

text \<open>Draining the assembler one frame at a time, as many calls as it takes.\<close>

fun pop_frames :: "nat \<Rightarrow> (p9_error, bytes list, frame_assembler) eop" where
  "pop_frames 0 a = (Inr [], a)"
| "pop_frames (Suc k) a =
     (case push_one [] a of
        (Inl e, a') \<Rightarrow> (Inl e, a')
      | (Inr None, a') \<Rightarrow> (Inr [], a')
      | (Inr (Some f), a') \<Rightarrow> (case pop_frames k a' of (Inl e, b) \<Rightarrow> (Inl e, b) | (Inr fs, b) \<Rightarrow> (Inr (f # fs), b)))"

definition push_each :: "bytes \<Rightarrow> (p9_error, bytes list, frame_assembler) eop" where
  "push_each chunk a = (if fa_failed a then (Inl unusable, a)
     else let b = hold_unparsed chunk a in pop_frames (fa_pending b + 1) b)"

lemma pop_frames_cut:
  "fa_live a \<Longrightarrow> cut_frames (fa_limit a) (fa_bytes a) = (frames, rest, bad) \<Longrightarrow> length frames < k \<Longrightarrow>
    (if bad then \<exists>e b. pop_frames k a = (Inl e, fa_fail b)
     else \<exists>a'. pop_frames k a = (Inr frames, a') \<and> fa_live a' \<and> fa_bytes a' = rest \<and> fa_limit a' = fa_limit a)"
proof (induction k arbitrary: a frames)
  case (Suc k)
  show ?case
  proof (cases frames)
    case Nil
    have "rest = fa_bytes a" using cut_frames_sound [OF Suc.prems(2)] Nil by simp
    then show ?thesis
      using Nil Suc.prems(1,2) push_one_wait [of a rest] push_one_bad [of a rest] by (cases bad) force+
  next
    case (Cons f fs)
    obtain a' where a': "push_one [] a = (Inr (Some f), a')" "fa_live a'" "fa_limit a' = fa_limit a"
      "cut_frames (fa_limit a) (fa_bytes a') = (fs, rest, bad)"
      using push_one_frame [OF Suc.prems(1)] Suc.prems(2) Cons by blast
    have "if bad then \<exists>e b. pop_frames k a' = (Inl e, fa_fail b)
      else \<exists>b. pop_frames k a' = (Inr fs, b) \<and> fa_live b \<and> fa_bytes b = rest \<and> fa_limit b = fa_limit a'"
      by (rule Suc.IH) (use a' Suc.prems(3) Cons in simp_all)
    then show ?thesis using a'(1,3) Cons by (auto split: if_splits)
  qed
qed simp

lemma cut_frames_count: "cut_frames limit s = (frames, rest, bad) \<Longrightarrow> length frames \<le> length s"
proof -
  assume c: "cut_frames limit s = (frames, rest, bad)"
  have "length frames \<le> length (concat frames)" if "\<forall>f \<in> set frames. frame_ok limit f"
    using that by (induction frames) (auto simp: frame_ok_def P9_HDRSZ_def)
  then show ?thesis using cut_frames_sound [OF c] by (metis length_append trans_le_add1)
qed

lemma push_each_cut:
  assumes "fa_live a" "cut_frames (fa_limit a) (fa_bytes a @ chunk) = (frames, rest, bad)"
  shows "if bad then \<exists>e b. push_each chunk a = (Inl e, fa_fail b)
    else \<exists>a'. push_each chunk a = (Inr frames, a') \<and> fa_live a' \<and> fa_bytes a' = rest \<and> fa_limit a' = fa_limit a"
proof -
  define b where "b = hold_unparsed chunk a"
  define k where "k = fa_pending b + 1"
  have p: "push_each chunk a = pop_frames k b"
    using assms(1) by (simp add: push_each_def fa_live_def Let_def b_def k_def)
  have b: "fa_live b" "fa_limit b = fa_limit a" "fa_bytes b = fa_bytes a @ chunk"
    using hold_bytes [OF assms(1), of chunk] by (simp_all add: b_def)
  have "length frames < k" using cut_frames_count [OF assms(2)] b(3) by (simp add: k_def fa_pending_bytes)
  then show ?thesis unfolding p b(2) [symmetric] by (intro pop_frames_cut b(1)) (use assms(2) b(2,3) in simp_all)
qed

section \<open>The whole stream\<close>

text \<open>Feeding pieces until one is refused: the frames delivered, whether that happened, and the final state.\<close>

fun feed_chunks :: "(bytes \<Rightarrow> ('e, bytes list, 's) eop) \<Rightarrow> bytes list \<Rightarrow> 's \<Rightarrow> bytes list \<times> bool \<times> 's" where
  "feed_chunks feed [] s = ([], False, s)"
| "feed_chunks feed (c # cs) s =
     (case feed c s of
        (Inl e, s') \<Rightarrow> ([], True, s')
      | (Inr frames, s') \<Rightarrow> (let (more, r) = feed_chunks feed cs s' in (frames @ more, r)))"

locale stream_framer =
  fixes feed :: "bytes \<Rightarrow> ('e, bytes list, 's) eop"
    and kept :: "'s \<Rightarrow> bytes" and limit :: "'s \<Rightarrow> nat" and live :: "'s \<Rightarrow> bool" and dead :: "'s \<Rightarrow> bool"
  assumes feeds: "live s \<Longrightarrow> cut_frames (limit s) (kept s @ c) = (frames, rest, False) \<Longrightarrow>
      \<exists>s'. feed c s = (Inr frames, s') \<and> live s' \<and> kept s' = rest \<and> limit s' = limit s"
    and stops: "live s \<Longrightarrow> cut_frames (limit s) (kept s @ c) = (frames, rest, True) \<Longrightarrow> \<exists>e s'. feed c s = (Inl e, s') \<and> dead s'"
begin

lemma chunks_good:
  assumes "live s" "cut_frames (limit s) (kept s) = ([], kept s, False)"
    "cut_frames (limit s) (kept s @ concat cs) = (frames, rest, False)"
  shows "\<exists>s'. feed_chunks feed cs s = (frames, False, s') \<and> live s' \<and> kept s' = rest \<and> limit s' = limit s"
  using assms
proof (induction cs arbitrary: s frames)
  case Nil
  then show ?case by simp
next
  case (Cons c cs)
  obtain fs r b where c: "cut_frames (limit s) (kept s @ c) = (fs, r, b)" by (metis prod_cases3)
  have all: "cut_frames (limit s) ((kept s @ c) @ concat cs) = (frames, rest, False)" using Cons.prems(3) by simp
  have b: "\<not> b" using cut_frames_append [OF c, of "concat cs"] all by (auto split: if_splits)
  obtain s1 where s1: "feed c s = (Inr fs, s1)" "live s1" "kept s1 = r" "limit s1 = limit s"
    using feeds [OF Cons.prems(1)] c b by (metis (full_types))
  obtain gs where gs: "cut_frames (limit s1) (kept s1 @ concat cs) = (gs, rest, False)" "frames = fs @ gs"
    using cut_frames_append [OF c, of "concat cs"] all b s1(3,4) by (metis (no_types, lifting) fst_conv prod.collapse snd_conv)
  have "cut_frames (limit s1) (kept s1) = ([], kept s1, False)" using cut_frames_rest [OF c] b s1(3,4) by simp
  from Cons.IH [OF s1(2) this gs(1)] show ?case using s1 gs(2) by auto
qed

lemma chunks_bad:
  assumes "live s" "cut_frames (limit s) (kept s) = ([], kept s, False)"
    "cut_frames (limit s) (kept s @ concat cs) = (frames, rest, True)"
  shows "\<exists>fs s'. feed_chunks feed cs s = (fs, True, s') \<and> prefix fs frames \<and> dead s'"
  using assms
proof (induction cs arbitrary: s frames)
  case (Cons c cs)
  obtain fs r b where c: "cut_frames (limit s) (kept s @ c) = (fs, r, b)" by (metis prod_cases3)
  have all: "cut_frames (limit s) ((kept s @ c) @ concat cs) = (frames, rest, True)" using Cons.prems(3) by simp
  show ?case
  proof (cases b)
    case True
    then obtain e s' where "feed c s = (Inl e, s')" "dead s'" using stops [OF Cons.prems(1)] c by metis
    then show ?thesis by simp
  next
    case False
    obtain s1 where s1: "feed c s = (Inr fs, s1)" "live s1" "kept s1 = r" "limit s1 = limit s"
      using feeds [OF Cons.prems(1)] c False by (metis (full_types))
    obtain gs where gs: "cut_frames (limit s1) (kept s1 @ concat cs) = (gs, rest, True)" "frames = fs @ gs"
      using cut_frames_append [OF c, of "concat cs"] all False s1(3,4) by (metis (no_types, lifting) fst_conv prod.collapse snd_conv)
    have "cut_frames (limit s1) (kept s1) = ([], kept s1, False)" using cut_frames_rest [OF c] False s1(3,4) by simp
    from Cons.IH [OF s1(2) this gs(1)] show ?thesis using s1(1) gs(2) by auto
  qed
qed simp

end

lemma fail_failed [simp]: "fa_failed (fa_fail a)"
  by (simp add: fa_fail_def fa_clear_def)

interpretation pushing: stream_framer fa_push fa_bytes fa_limit fa_live fa_failed
proof
  fix s c frames rest assume "fa_live s" "cut_frames (fa_limit s) (fa_bytes s @ c) = (frames, rest, False)"
  from push_cut [OF this] show "\<exists>s'. fa_push c s = (Inr frames, s') \<and> fa_live s' \<and> fa_bytes s' = rest \<and> fa_limit s' = fa_limit s"
    by simp
next
  fix s c frames rest assume "fa_live s" "cut_frames (fa_limit s) (fa_bytes s @ c) = (frames, rest, True)"
  from push_cut [OF this] show "\<exists>e s'. fa_push c s = (Inl e, s') \<and> fa_failed s'"
    using fail_failed by auto
qed

interpretation popping: stream_framer push_each fa_bytes fa_limit fa_live fa_failed
proof
  fix s c frames rest assume "fa_live s" "cut_frames (fa_limit s) (fa_bytes s @ c) = (frames, rest, False)"
  from push_each_cut [OF this] show "\<exists>s'. push_each c s = (Inr frames, s') \<and> fa_live s' \<and> fa_bytes s' = rest \<and> fa_limit s' = fa_limit s"
    by simp
next
  fix s c frames rest assume "fa_live s" "cut_frames (fa_limit s) (fa_bytes s @ c) = (frames, rest, True)"
  from push_each_cut [OF this] show "\<exists>e s'. push_each c s = (Inl e, s') \<and> fa_failed s'"
    using fail_failed by auto
qed

section \<open>Scanning ahead\<close>

definition fa_unscanned :: "frame_assembler \<Rightarrow> bytes" where
  "fa_unscanned a = drop (fa_scan_offset a) (fa_buffer a)"

lemma scan_frames_cut:
  assumes "fa_live a" "cut_frames (fa_limit a) (fa_unscanned a) = (frames, rest, False)"
  shows "if \<exists>f \<in> set (take budget frames). is_version_frame f
    then \<exists>a'. scan_frames budget a = (Inr Found, a') \<and> fa_live a' \<and> fa_limit a' = fa_limit a \<and>
      fa_bytes a' = concat (dropWhile (Not \<circ> is_version_frame) frames) @ rest
    else \<exists>n. scan_frames budget a = (Inr (if length frames < budget then ScanIncomplete else More), a\<lparr>fa_scan_offset := n\<rparr>)"
  using assms
proof (induction budget arbitrary: a frames)
  case 0
  then show ?case by (auto intro: exI [of _ "fa_scan_offset a"])
next
  case (Suc budget)
  let ?s = "fa_unscanned a" and ?n = "frame_size_at (fa_unscanned a) 0" and ?l = "fa_limit a"
  have n: "frame_size_at (fa_buffer a) (fa_scan_offset a) = ?n" "length (fa_buffer a) - fa_scan_offset a = length ?s"
    by (simp_all add: fa_unscanned_def frame_size_drop [symmetric])
  show ?case
  proof (cases rule: cut_frames_cases [where s = "?s" and limit = "?l"])
    case wait
    then have "scan_frames (Suc budget) a = (Inr ScanIncomplete, a\<lparr>fa_scan_offset := fa_scan_offset a\<rparr>)"
      by (auto simp: n Let_def check_size_cases classify_incomplete)
    then show ?thesis
      using Suc.prems(2) cut_frames_wait [OF wait] by (auto intro!: exI [of _ "fa_scan_offset a"] simp del: scan_frames.simps)
  next
    case bad
    then show ?thesis using Suc.prems(2) cut_frames_bad [OF bad] by simp
  next
    case step
    let ?f = "take ?n ?s" and ?b = "a\<lparr>fa_scan_offset := fa_scan_offset a + ?n\<rparr>"
    obtain fs where fs: "cut_frames ?l (drop ?n ?s) = (fs, rest, False)" "frames = ?f # fs"
      using Suc.prems(2) cut_frames_step [OF step] by (metis Pair_inject prod.collapse)
    have len: "fa_scan_offset a + ?n \<le> length (fa_buffer a)" using step n(2) Suc.prems(1) unfolding fa_live_def by linarith
    have go: "scan_frames (Suc budget) a =
      (if is_version_frame ?f then (Inr Found, a\<lparr>fa_offset := fa_scan_offset a, fa_scan_offset := fa_scan_offset a\<rparr>) else scan_frames budget ?b)"
      using step by (simp add: n Let_def check_size_cases classify_incomplete flip: fa_unscanned_def)
    show ?thesis
    proof (cases "is_version_frame ?f")
      case True
      have "?s = concat frames @ rest" using cut_frames_sound [OF Suc.prems(2)] by simp
      then show ?thesis
        using True go fs(2) Suc.prems(1) unfolding fa_unscanned_def by (auto simp: fa_bytes_def fa_live_def)
    next
      case False
      have b: "fa_live ?b" "fa_limit ?b = ?l" "fa_unscanned ?b = drop ?n ?s"
        using Suc.prems(1) len by (simp_all add: fa_live_def fa_unscanned_def add.commute)
      show ?thesis using Suc.IH [OF b(1), of fs] fs b(2,3) False go by (auto split: if_splits)
    qed
  qed
qed

section \<open>Main theorems\<close>

text \<open>
  C10: However a connection's byte stream is split into pieces, the assembler delivers the same frames: those of the
  whole stream, in order, each with a size field equal to its length, of at least a header and at most the limit,
  the bytes of an incomplete frame being kept and fewer than the limit.  This holds for taking all frames of a piece
  and for taking them one at a time.  Where the stream holds a size field below the header or above the limit, some
  piece is refused, only frames before it have been delivered, and every later call fails.
\<close>

theorem p9_frames_any_chunking:
  assumes new: "assembler_new limit = Inr a" and cut: "cut_frames limit (concat pieces) = (frames, rest, bad)"
    and feed: "feed \<in> {fa_push, push_each}"
  shows "concat frames @ rest = concat pieces \<and> (\<forall>f \<in> set frames. frame_ok limit f) \<and>
    (if bad then \<exists>fs a'. feed_chunks feed pieces a = (fs, True, a') \<and> prefix fs frames \<and> (\<forall>c. feed c a' = (Inl unusable, a'))
     else \<exists>a'. feed_chunks feed pieces a = (frames, False, a') \<and> fa_bytes a' = rest \<and> fa_pending a' < limit)"
proof -
  have a: "fa_live a" "fa_bytes a = []" "fa_limit a = limit" "P9_HDRSZ \<le> limit"
    using new by (auto simp: assembler_new_def fa_live_def fa_bytes_def split: if_splits)
  have e: "cut_frames (fa_limit a) (fa_bytes a) = ([], fa_bytes a, False)"
    by (rule cut_frames_wait) (simp add: a(2) P9_HDRSZ_def)
  have "\<exists>a'. feed_chunks feed pieces a = (frames, False, a') \<and> fa_bytes a' = rest \<and> fa_pending a' < limit" if "\<not> bad"
    using feed pushing.chunks_good [OF a(1) e, of pieces] popping.chunks_good [OF a(1) e, of pieces] cut that a
      cut_frames_pending [of limit "concat pieces" frames rest]
    by (fastforce simp: fa_pending_bytes)
  moreover have "\<exists>fs a'. feed_chunks feed pieces a = (fs, True, a') \<and> prefix fs frames \<and> (\<forall>c. feed c a' = (Inl unusable, a'))" if "bad"
    using feed pushing.chunks_bad [OF a(1) e, of pieces] popping.chunks_bad [OF a(1) e, of pieces] cut that a
    by (fastforce simp: fa_push_def push_each_def)
  ultimately show ?thesis using cut_frames_sound [OF cut] by simp
qed

definition demo_frame :: bytes where
  "demo_frame = [7, 0, 0, 0, 120, 1, 0]"

definition demo_version :: bytes where
  "demo_version = [21, 0, 0, 0, 100, 255, 255, 0, 32, 0, 0, 8, 0, 57, 80, 50, 48, 48, 48, 46, 76]"

definition demo_pieces :: "bytes list" where
  "demo_pieces = [[7, 0], [0, 0, 120, 1, 0, 21], drop 1 demo_version @ [9, 0]]"

definition demo_assembler :: frame_assembler where
  "demo_assembler = \<lparr>fa_buffer = [], fa_offset = 0, fa_scan_offset = 0, fa_limit = 64, fa_failed = False\<rparr>"

theorem p9_frames_any_chunking_witness:
  "assembler_new 64 = Inr demo_assembler \<and>
   cut_frames 64 (concat demo_pieces) = ([demo_frame, demo_version], [9, 0], False) \<and>
   (\<exists>a'. feed_chunks fa_push demo_pieces demo_assembler = ([demo_frame, demo_version], False, a') \<and> fa_bytes a' = [9, 0])"
proof -
  have "assembler_new 64 = Inr demo_assembler" by code_simp
  moreover have "cut_frames 64 (concat demo_pieces) = ([demo_frame, demo_version], [9, 0], False)" by code_simp
  ultimately show ?thesis using p9_frames_any_chunking [of 64 demo_assembler demo_pieces _ _ _ fa_push] by auto
qed

text \<open>
  Scanning the frames received ahead of the queue finds a version request exactly when one of the complete
  frames the budget covers is a well-formed \<^verbatim>\<open>Tversion\<close>; the next frame taken is then the first such frame.
  Otherwise nothing is consumed, and the scan says whether it ran out of complete frames or out of budget.
\<close>

theorem p9_version_scan:
  assumes live: "fa_live a" and cut: "cut_frames (fa_limit a) (fa_unscanned a) = (frames, rest, False)"
    and scan: "scan_for_version budget a = (r, a')"
  shows "if \<exists>f \<in> set (take budget frames). is_version_frame f
    then r = Inr Found \<and> fst (push_one [] a') = Inr (Some (hd (dropWhile (Not \<circ> is_version_frame) frames)))
    else r = Inr (if length frames < budget then ScanIncomplete else More) \<and> fa_bytes a' = fa_bytes a"
proof (cases "\<exists>f \<in> set (take budget frames). is_version_frame f")
  case True
  let ?d = "dropWhile (Not \<circ> is_version_frame) frames"
  obtain b where b: "scan_frames budget a = (Inr Found, b)" "fa_live b" "fa_limit b = fa_limit a" "fa_bytes b = concat ?d @ rest"
    using scan_frames_cut [OF live cut, of budget] True by auto
  have ra: "r = Inr Found" "a' = b" using scan b(1) live by (auto simp: scan_for_version_def fa_live_def)
  obtain f ds where d: "?d = f # ds" using True by (metis comp_apply dropWhile_eq_Nil_conv in_set_takeD neq_Nil_conv)
  have "\<forall>g \<in> set ?d. frame_ok (fa_limit a) g" using cut_frames_sound [OF cut] set_dropWhileD by metis
  then have "frame_ok (fa_limit a) f" using d by simp
  then have "\<exists>gs. cut_frames (fa_limit a) (fa_bytes b) = (f # gs, snd (cut_frames (fa_limit a) (concat ds @ rest)))"
    using cut_frames_step [of "fa_bytes b" "fa_limit a"] frame_size_append [of f "concat ds @ rest"] b(4) d
    by (auto simp: frame_ok_def P9_HDRSZ_def)
  then show ?thesis using push_one_frame [OF b(2)] b(3) True ra d by (metis fst_conv list.sel(1) prod.collapse)
next
  case False
  obtain n where "scan_frames budget a = (Inr (if length frames < budget then ScanIncomplete else More), a\<lparr>fa_scan_offset := n\<rparr>)"
    using scan_frames_cut [OF live cut, of budget] False by auto
  then show ?thesis using scan live False by (auto simp: scan_for_version_def fa_live_def fa_bytes_def)
qed

definition demo_scanning :: frame_assembler where
  "demo_scanning = demo_assembler\<lparr>fa_buffer := demo_frame @ demo_version @ [9, 0]\<rparr>"

theorem p9_version_scan_witness:
  "fa_live demo_scanning \<and> cut_frames 64 (fa_unscanned demo_scanning) = ([demo_frame, demo_version], [9, 0], False) \<and>
   fst (scan_for_version 4096 demo_scanning) = Inr Found \<and>
   fst (push_one [] (snd (scan_for_version 4096 demo_scanning))) = Inr (Some demo_version)"
proof -
  have 1: "fa_live demo_scanning" "cut_frames (fa_limit demo_scanning) (fa_unscanned demo_scanning) = ([demo_frame, demo_version], [9, 0], False)"
    by code_simp+
  have 2: "is_version_frame demo_version" "\<not> is_version_frame demo_frame" "fa_limit demo_scanning = 64" by code_simp+
  show ?thesis using p9_version_scan [OF 1 prod.collapse [symmetric], of 4096] 1 2 by simp
qed

end
