(* ===== verification/P9_Connection_Safety.thy ===== *)
theory P9_Connection_Safety
  imports P9_Connection P9_Frame_Safety
begin

text \<open>
  Safety of a 9P connection: an invariant of every interleaving of the loop, the request tasks and the writer, from
  which follow the bounds on what a peer can make the server hold, the isolation of a version exchange, and that no
  reply to an aborted call is written.
\<close>

section \<open>Queueing keeps the stream\<close>

fun frame_bytes :: "pending_frame \<Rightarrow> bytes" where
  "frame_bytes (Request bs) = bs"
| "frame_bytes (Version bs) = bs"

lemma pending_len_bytes: "pending_len f = length (frame_bytes f)"
  by (cases f) simp_all

lemma push_one_Inr:
  assumes live: "fa_live a" and push: "push_one chunk a = (Inr r, a')"
  shows "fa_live a' \<and> fa_limit a' = fa_limit a \<and>
    (case r of None \<Rightarrow> fa_bytes a' = fa_bytes a @ chunk
     | Some f \<Rightarrow> fa_bytes a @ chunk = f @ fa_bytes a' \<and> frame_ok (fa_limit a) f)"
proof -
  let ?b = "hold_unparsed chunk a"
  have b: "fa_live ?b" "fa_limit ?b = fa_limit a" "fa_bytes ?b = fa_bytes a @ chunk"
    using hold_bytes [OF live, of chunk] by simp_all
  have p: "push_one [] ?b = (Inr r, a')" using push push_one_held [OF live] by simp
  obtain fs rest bad where cut: "cut_frames (fa_limit ?b) (fa_bytes ?b) = (fs, rest, bad)" by (metis prod_cases3)
  note sound = cut_frames_sound [OF cut]
  show ?thesis
  proof (cases fs)
    case Nil
    have "\<not> bad" using push_one_bad [OF b(1), of rest] cut Nil p by auto
    then have "push_one [] ?b = (Inr None, ?b)" using push_one_wait [OF b(1), of rest] cut Nil by simp
    then show ?thesis using p b by auto
  next
    case (Cons f gs)
    then obtain a2 where "push_one [] ?b = (Inr (Some f), a2)" "fa_live a2" "fa_limit a2 = fa_limit ?b" "fa_bytes a2 = drop (length f) (fa_bytes ?b)"
      using push_one_frame [OF b(1)] cut by blast
    moreover have "fa_bytes ?b = f @ drop (length f) (fa_bytes ?b)" using sound Cons by (simp add: append_eq_conv_conj)
    ultimately show ?thesis using p b sound Cons by auto
  qed
qed

definition classified :: "pending_frame \<Rightarrow> bool" where
  "classified f \<longleftrightarrow> is_version f = is_version_frame (frame_bytes f)"

definition queued_with :: "frame_queue \<Rightarrow> bytes \<Rightarrow> pending_frame list \<Rightarrow> frame_queue \<Rightarrow> bool" where
  "queued_with q chunk new q' \<longleftrightarrow> fq_frames q' = fq_frames q @ new \<and> fq_bytes q' = fq_bytes q + sum_list (map pending_len new) \<and>
     concat (map frame_bytes new) @ fa_bytes (fq_assembler q') = fa_bytes (fq_assembler q) @ chunk \<and>
     fa_live (fq_assembler q') \<and> fa_limit (fq_assembler q') = fa_limit (fq_assembler q) \<and>
     (\<forall>f \<in> set new. classified f \<and> frame_ok (fa_limit (fq_assembler q)) (frame_bytes f))"

lemma queued_with_none:
  "fa_live (fq_assembler q) \<Longrightarrow> queued_with q chunk [] (q\<lparr>fq_assembler := hold_unparsed chunk (fq_assembler q)\<rparr>)"
  by (simp add: queued_with_def hold_bytes)

lemma queued_with_Cons:
  assumes "queued_with q chunk [f] q1" "queued_with q1 [] new q2"
  shows "queued_with q chunk (f # new) q2"
  using assms by (auto simp: queued_with_def)

text \<open>A version frame ends a batch; all others of it are requests.\<close>

definition batch_ok :: "bool \<Rightarrow> pending_frame list \<Rightarrow> bool" where
  "batch_ok v new \<longleftrightarrow> (if v then \<exists>rs b. new = rs @ [Version b] \<and> (\<forall>f \<in> set rs. \<not> is_version f) else \<forall>f \<in> set new. \<not> is_version f)"

lemma batch_ok_Cons: "\<not> is_version f \<Longrightarrow> batch_ok v new \<Longrightarrow> batch_ok v (f # new)"
  unfolding batch_ok_def by (cases v) (force intro: exI [of _ "f # xs" for xs])+

lemma enqueue_loop_spec:
  "fa_live (fq_assembler q) \<Longrightarrow> fq_bytes q \<le> plimit \<Longrightarrow> enqueue_loop k plimit flimit chunk q = (Inr v, q') \<Longrightarrow>
   \<exists>new. queued_with q chunk new q' \<and> batch_ok v new \<and> fq_bytes q' \<le> plimit \<and> length (fq_frames q') \<le> max flimit (length (fq_frames q))"
proof (induction k arbitrary: q chunk)
  case 0
  then show ?case using queued_with_none by (auto intro!: exI [of _ "[]"] simp: batch_ok_def)
next
  case (Suc k)
  show ?case
  proof (cases "length (fq_frames q) \<ge> flimit")
    case True
    then show ?thesis using Suc.prems queued_with_none by (auto intro!: exI [of _ "[]"] simp: batch_ok_def)
  next
    case False
    obtain r a where p: "push_one chunk (fq_assembler q) = (Inr r, a)"
      using Suc.prems(3) False by (cases "push_one chunk (fq_assembler q)") (auto split: sum.splits)
    note a = push_one_Inr [OF Suc.prems(1) p]
    show ?thesis
    proof (cases r)
      case None
      then have "q' = q\<lparr>fq_assembler := a\<rparr>" "\<not> v" using Suc.prems(3) False p by auto
      then show ?thesis
        using a None False Suc.prems(2) by (auto intro!: exI [of _ "[]"] simp: batch_ok_def queued_with_def)
    next
      case (Some frame)
      define f where "f = (if is_version_frame frame then Version frame else Request frame)"
      define q1 where "q1 = q\<lparr>fq_assembler := a, fq_bytes := fq_bytes q + pending_len f, fq_frames := fq_frames q @ [f]\<rparr>"
      have f: "frame_bytes f = frame" "is_version f = is_version_frame frame" by (simp_all add: f_def)
      have small: "pending_len f \<le> plimit - fq_bytes q"
        and next_step: "(if is_version_frame frame then (Inr True, q1) else enqueue_loop k plimit flimit [] q1) = (Inr v, q')"
        using Suc.prems(3) False p Some by (auto simp: f_def q1_def Let_def split: if_splits)
      have one: "queued_with q chunk [f] q1"
        using a Some f by (simp add: queued_with_def q1_def classified_def)
      have q1: "fq_bytes q1 \<le> plimit" "length (fq_frames q1) \<le> flimit" "fa_live (fq_assembler q1)"
        using small Suc.prems(2) False a by (simp_all add: q1_def)
      show ?thesis
      proof (cases "is_version_frame frame")
        case True
        then have "batch_ok v [f]" "q' = q1" using next_step by (auto simp: batch_ok_def f_def)
        then show ?thesis using one q1 by (auto intro!: exI [of _ "[f]"])
      next
        case False
        then have "enqueue_loop k plimit flimit [] q1 = (Inr v, q')" using next_step by simp
        from Suc.IH [OF q1(3,1) this] obtain new where "queued_with q1 [] new q'" "batch_ok v new" "fq_bytes q' \<le> plimit"
          "length (fq_frames q') \<le> flimit" using q1(2) by auto
        then show ?thesis using queued_with_Cons [OF one] batch_ok_Cons [of f] f(2) False by (auto intro!: exI [of _ "f # new"])
      qed
    qed
  qed
qed

lemma enqueue_frames_spec:
  assumes "fa_live (fq_assembler q)" "fq_bytes q \<le> plimit" "enqueue_frames plimit flimit chunk q = (Inr v, q')"
  shows "\<exists>new. queued_with q chunk new q' \<and> batch_ok v new \<and> fq_bytes q' + fa_pending (fq_assembler q') \<le> plimit \<and>
    length (fq_frames q') \<le> max flimit (length (fq_frames q))"
proof -
  have "enqueue_loop MAX_FRAMES_PER_PARSE plimit flimit chunk q = (Inr v, q')" "fa_pending (fq_assembler q') \<le> plimit - fq_bytes q'"
    using assms(3) unfolding enqueue_frames_def by (auto elim!: ebind_InrE split: if_splits)
  with enqueue_loop_spec [OF assms(1,2) this(1)] show ?thesis by fastforce
qed

section \<open>Scanning finds a frame that can be queued\<close>

lemma scan_frames_Inr:
  "fa_live a \<Longrightarrow> scan_frames k a = (Inr r, a') \<Longrightarrow>
    fa_live a' \<and> fa_limit a' = fa_limit a \<and> fa_pending a' \<le> fa_pending a \<and>
    (r = Found \<longrightarrow> (\<exists>f rest. fa_bytes a' = f @ rest \<and> frame_ok (fa_limit a) f \<and> is_version_frame f))"
proof (induction k arbitrary: a)
  case (Suc k)
  let ?s = "fa_unscanned a" and ?n = "frame_size_at (fa_unscanned a) 0" and ?l = "fa_limit a"
  have n: "frame_size_at (fa_buffer a) (fa_scan_offset a) = ?n" "length (fa_buffer a) - fa_scan_offset a = length ?s"
    by (simp_all add: fa_unscanned_def frame_size_drop [symmetric])
  show ?case
  proof (cases rule: cut_frames_cases [where s = "?s" and limit = "?l"])
    case wait
    then have "scan_frames (Suc k) a = (Inr ScanIncomplete, a)"
      by (auto simp: n Let_def check_size_cases classify_incomplete)
    then show ?thesis using Suc.prems by simp
  next
    case bad
    obtain e where "check_size ?l ?n (fa_scan_offset a - fa_offset a) = Inl e" using check_size_cases(2) [OF bad(2)] by blast
    then have "scan_frames (Suc k) a = (Inl e, a)" using bad(1) by (simp add: n Let_def)
    then show ?thesis using Suc.prems by simp
  next
    case step
    let ?f = "take ?n ?s" and ?b = "a\<lparr>fa_scan_offset := fa_scan_offset a + ?n\<rparr>"
      and ?d = "a\<lparr>fa_offset := fa_scan_offset a, fa_scan_offset := fa_scan_offset a\<rparr>"
    have go: "scan_frames (Suc k) a = (if is_version_frame ?f then (Inr Found, ?d) else scan_frames k ?b)"
      using step by (simp add: n Let_def check_size_cases classify_incomplete flip: fa_unscanned_def)
    have len: "fa_scan_offset a + ?n \<le> length (fa_buffer a)" using step n(2) Suc.prems(1) unfolding fa_live_def by linarith
    have ok: "frame_ok ?l ?f" using step frame_size_take [of ?n ?s] by (simp add: frame_ok_def P9_HDRSZ_def)
    have live: "fa_live ?d" "fa_live ?b" using Suc.prems(1) len by (simp_all add: fa_live_def)
    show ?thesis
    proof (cases "is_version_frame ?f")
      case True
      have "fa_bytes ?d = ?s" by (simp add: fa_bytes_def fa_unscanned_def)
      then have "fa_bytes ?d = ?f @ drop ?n ?s" by (simp only: append_take_drop_id)
      then have "\<exists>f rest. fa_bytes ?d = f @ rest \<and> frame_ok ?l f \<and> is_version_frame f" using True ok by blast
      moreover have "fa_pending ?d \<le> fa_pending a" using Suc.prems(1) by (simp add: fa_pending_def fa_live_def diff_le_mono2)
      ultimately show ?thesis using Suc.prems(2) go True live(1) by auto
    next
      case False
      then show ?thesis using Suc.IH [OF live(2)] Suc.prems(2) go by (simp add: fa_pending_def)
    qed
  qed
qed simp

lemma scan_for_version_Inr:
  assumes "fa_live a" "scan_for_version k a = (Inr r, a')"
  shows "fa_live a' \<and> fa_limit a' = fa_limit a \<and> fa_pending a' \<le> fa_pending a \<and>
    (r = Found \<longrightarrow> (\<exists>f rest. fa_bytes a' = f @ rest \<and> frame_ok (fa_limit a) f \<and> is_version_frame f))"
proof -
  have "scan_frames k a = (Inr r, a')"
    using assms by (auto simp: scan_for_version_def fa_live_def split: prod.splits sum.splits)
  then show ?thesis by (rule scan_frames_Inr [OF assms(1)])
qed

lemma push_one_ready:
  assumes "fa_live a" "fa_bytes a = f @ rest" "frame_ok (fa_limit a) f"
  shows "\<exists>a'. push_one [] a = (Inr (Some f), a')"
proof -
  have "frame_size_at (fa_bytes a) 0 = length f"
    using assms(2,3) frame_size_append [of f rest] by (simp add: frame_ok_def P9_HDRSZ_def)
  then have "\<exists>gs r b. cut_frames (fa_limit a) (fa_bytes a) = (f # gs, r, b)"
    using cut_frames_step [of "fa_bytes a" "fa_limit a"] assms(2,3) by (simp add: frame_ok_def)
  then show ?thesis using push_one_frame [OF assms(1)] by blast
qed

lemma enqueue_version:
  assumes live: "fa_live (fq_assembler q)" and q: "fq_frames q = []" "fq_bytes q = 0" "0 < flimit"
    and room: "fa_pending (fq_assembler q) \<le> plimit"
    and f: "fa_bytes (fq_assembler q) = f @ rest" "frame_ok (fa_limit (fq_assembler q)) f" "is_version_frame f"
  shows "\<exists>q'. enqueue_frames plimit flimit [] q = (Inr True, q') \<and> fq_frames q' = [Version f]"
proof -
  obtain a' where p: "push_one [] (fq_assembler q) = (Inr (Some f), a')"
    using push_one_ready [OF live f(1,2)] by blast
  have "fa_bytes a' = rest" using push_one_Inr [OF live p] f(1) by simp
  then have len: "length f + fa_pending a' \<le> plimit" using room f(1) by (simp add: fa_pending_bytes)
  let ?q = "q\<lparr>fq_assembler := a', fq_bytes := length f, fq_frames := [Version f]\<rparr>"
  have "enqueue_loop (Suc k) plimit flimit [] q = (Inr True, ?q)" for k
    using p q f(3) len by (simp add: Let_def)
  from this [of 4095] have "enqueue_loop MAX_FRAMES_PER_PARSE plimit flimit [] q = (Inr True, ?q)"
    by (simp add: MAX_FRAMES_PER_PARSE_def del: enqueue_loop.simps)
  then show ?thesis using len by (simp add: enqueue_frames_def ebind_def)
qed

section \<open>The invariant\<close>

definition queue_ok :: "conn_config \<Rightarrow> frame_queue \<Rightarrow> bool" where
  "queue_ok cfg q \<longleftrightarrow> fa_live (fq_assembler q) \<and> fq_bytes q = sum_list (map pending_len (fq_frames q)) \<and>
     fq_bytes q + fa_pending (fq_assembler q) \<le> conn_pending_limit cfg \<and> length (fq_frames q) \<le> conn_frame_limit cfg"

text \<open>
  Before a version request is queued, while it waits behind the calls in flight, and while it runs.
\<close>

definition open_phase :: "conn \<Rightarrow> bool" where
  "open_phase c \<longleftrightarrow> \<not> cn_fenced c \<and> \<not> cn_running c \<and> \<not> cn_aborting c \<and>
     (\<forall>f \<in> set (fq_frames (cn_queue c)). \<not> is_version f) \<and> (\<forall>t \<in> set (cn_tasks c). \<not> task_version t \<and> \<not> task_aborted t)"

definition fenced_phase :: "conn \<Rightarrow> bool" where
  "fenced_phase c \<longleftrightarrow> cn_fenced c \<and> \<not> cn_running c \<and> \<not> cn_resume c \<and>
     (\<exists>rs b. fq_frames (cn_queue c) = rs @ [Version b] \<and> (\<forall>f \<in> set rs. \<not> is_version f) \<and> (cn_aborting c \<longrightarrow> rs = [])) \<and>
     (\<forall>t \<in> set (cn_tasks c). \<not> task_version t \<and> (task_aborted t \<longrightarrow> cn_aborting c))"

definition running_phase :: "conn \<Rightarrow> bool" where
  "running_phase c \<longleftrightarrow> cn_fenced c \<and> cn_running c \<and> \<not> cn_resume c \<and> fq_frames (cn_queue c) = [] \<and>
     (\<exists>t. cn_tasks c = [t] \<and> task_version t \<and> \<not> task_aborted t)"

definition tasks_ok :: "conn_config \<Rightarrow> conn \<Rightarrow> bool" where
  "tasks_ok cfg c \<longleftrightarrow> distinct (map task_id (cn_tasks c)) \<and> (\<forall>t \<in> set (cn_tasks c). task_id t < cn_next_task c) \<and>
     length (filter holds_permit (cn_tasks c)) \<le> max_in_flight cfg"

definition epochs_ok :: "conn \<Rightarrow> bool" where
  "epochs_ok c \<longleftrightarrow> cn_epoch c = cn_generation c mod 2 ^ 64 \<and>
     (\<forall>t \<in> set (cn_tasks c). task_generation t \<le> cn_generation c \<and> task_epoch t = task_generation t mod 2 ^ 64) \<and>
     (\<forall>r \<in> set (cn_channel c) \<union> set_option (cn_writer c). rw_generation r \<le> cn_generation c \<and> rw_epoch r = rw_generation r mod 2 ^ 64)"

definition conn_inv :: "conn_config \<Rightarrow> conn \<Rightarrow> bool" where
  "conn_inv cfg c \<longleftrightarrow> queue_ok cfg (cn_queue c) \<and> (open_phase c \<or> fenced_phase c \<or> running_phase c) \<and> tasks_ok cfg c \<and> epochs_ok c"

lemmas phase_defs = open_phase_def fenced_phase_def running_phase_def

lemma conn_invD:
  assumes "conn_inv cfg c"
  shows "queue_ok cfg (cn_queue c)" "open_phase c \<or> fenced_phase c \<or> running_phase c" "tasks_ok cfg c" "epochs_ok c"
  using assms by (simp_all add: conn_inv_def)

lemma conn_inv_open: "conn_inv cfg c \<Longrightarrow> \<not> cn_fenced c \<Longrightarrow> open_phase c"
  by (auto simp: conn_inv_def phase_defs)

text \<open>Calls are not aborted before the first version exchange has been fenced.\<close>

lemma drop_requests_eq:
  "count = sum_list (map pending_len frames) \<Longrightarrow>
     drop_requests frames count = (dropWhile (Not \<circ> is_version) frames, sum_list (map pending_len (dropWhile (Not \<circ> is_version) frames)))"
  by (induction frames count rule: drop_requests.induct) auto

lemma abort_task_fields [simp]:
  "task_id (abort_task t) = task_id t" "task_version (abort_task t) = task_version t" "task_epoch (abort_task t) = task_epoch t"
  "task_generation (abort_task t) = task_generation t" "holds_permit (abort_task t) = holds_permit t"
  by (simp_all add: abort_task_def holds_permit_def)

lemma filter_map_same: "(\<And>x. P (f x) = P x) \<Longrightarrow> length (filter P (map f xs)) = length (filter P xs)"
  by (induction xs) auto

lemma discard_queue:
  assumes "fq_bytes (cn_queue c) = sum_list (map pending_len (fq_frames (cn_queue c)))"
  shows "cn_queue (discard_prior_calls_for_version c) = (cn_queue c)\<lparr>
    fq_frames := dropWhile (Not \<circ> is_version) (fq_frames (cn_queue c)),
    fq_bytes := sum_list (map pending_len (dropWhile (Not \<circ> is_version) (fq_frames (cn_queue c))))\<rparr>"
  using drop_requests_eq [OF assms] by (simp add: discard_prior_calls_for_version_def)

lemma discard_fields [simp]:
  "cn_fenced (discard_prior_calls_for_version c) = cn_fenced c" "cn_running (discard_prior_calls_for_version c) = cn_running c"
  "cn_resume (discard_prior_calls_for_version c) = cn_resume c" "cn_msize (discard_prior_calls_for_version c) = cn_msize c"
  "cn_tasks (discard_prior_calls_for_version c) = map abort_task (cn_tasks c)"
  "cn_next_task (discard_prior_calls_for_version c) = cn_next_task c" "cn_channel (discard_prior_calls_for_version c) = cn_channel c"
  "cn_writer (discard_prior_calls_for_version c) = cn_writer c" "cn_written (discard_prior_calls_for_version c) = cn_written c"
  "cn_epoch (discard_prior_calls_for_version c) = (cn_epoch c + 1) mod 2 ^ 64"
  "cn_generation (discard_prior_calls_for_version c) = cn_generation c + 1"
  by (simp_all add: discard_prior_calls_for_version_def split_beta)

lemma discard_tasks_ok: "tasks_ok cfg c \<Longrightarrow> tasks_ok cfg (discard_prior_calls_for_version c)"
  by (simp add: tasks_ok_def filter_map_same comp_def)

lemma discard_epochs_ok: "epochs_ok c \<Longrightarrow> epochs_ok (discard_prior_calls_for_version c)"
  by (auto simp: epochs_ok_def mod_simps le_SucI)

lemma discard_queue_ok:
  assumes "queue_ok cfg (cn_queue c)"
  shows "queue_ok cfg (cn_queue (discard_prior_calls_for_version c))"
proof -
  have 1: "sum_list (map pending_len (dropWhile P fs)) \<le> sum_list (map pending_len fs)" for P fs by (induction fs) auto
  have 2: "length (dropWhile P fs) \<le> length fs" for P :: "pending_frame \<Rightarrow> bool" and fs by (rule length_dropWhile_le)
  show ?thesis
    using assms 1 [of "Not \<circ> is_version" "fq_frames (cn_queue c)"] 2 [of "Not \<circ> is_version" "fq_frames (cn_queue c)"]
    by (auto simp: queue_ok_def discard_queue)
qed

text \<open>The tasks and the epochs do not see the queue and the flags of the loop.\<close>

lemma loop_fields_tasks [simp]:
  "tasks_ok cfg (c\<lparr>cn_queue := q\<rparr>) = tasks_ok cfg c" "tasks_ok cfg (c\<lparr>cn_fenced := b\<rparr>) = tasks_ok cfg c"
  "tasks_ok cfg (c\<lparr>cn_running := b\<rparr>) = tasks_ok cfg c" "tasks_ok cfg (c\<lparr>cn_aborting := b\<rparr>) = tasks_ok cfg c"
  "tasks_ok cfg (c\<lparr>cn_resume := b\<rparr>) = tasks_ok cfg c" "tasks_ok cfg (c\<lparr>cn_msize := m\<rparr>) = tasks_ok cfg c"
  "tasks_ok cfg (c\<lparr>cn_point := l\<rparr>) = tasks_ok cfg c"
  by (simp_all add: tasks_ok_def)

lemma loop_fields_epochs [simp]:
  "epochs_ok (c\<lparr>cn_queue := q\<rparr>) = epochs_ok c" "epochs_ok (c\<lparr>cn_fenced := b\<rparr>) = epochs_ok c"
  "epochs_ok (c\<lparr>cn_running := b\<rparr>) = epochs_ok c" "epochs_ok (c\<lparr>cn_aborting := b\<rparr>) = epochs_ok c"
  "epochs_ok (c\<lparr>cn_resume := b\<rparr>) = epochs_ok c" "epochs_ok (c\<lparr>cn_msize := m\<rparr>) = epochs_ok c"
  "epochs_ok (c\<lparr>cn_point := l\<rparr>) = epochs_ok c"
  by (simp_all add: epochs_ok_def)

lemma conn_inv_point [simp]: "conn_inv cfg (c\<lparr>cn_point := l\<rparr>) = conn_inv cfg c"
  by (simp add: conn_inv_def phase_defs)

lemma queue_input_fields:
  assumes "queue_input cfg chunk c = (r, d)"
  obtains q where "enqueue_frames (conn_pending_limit cfg) (conn_frame_limit cfg) chunk (cn_queue c) = (r, q)" "d = c\<lparr>cn_queue := q\<rparr>"
  using assms by (auto simp: queue_input_def split: prod.splits)

lemma queue_ok_enqueue:
  assumes "queue_ok cfg q" "enqueue_frames (conn_pending_limit cfg) (conn_frame_limit cfg) chunk q = (Inr v, q')"
  shows "queue_ok cfg q' \<and> (\<exists>new. fq_frames q' = fq_frames q @ new \<and> batch_ok v new)"
proof -
  have q: "fa_live (fq_assembler q)" "fq_bytes q \<le> conn_pending_limit cfg" using assms(1) by (simp_all add: queue_ok_def)
  from enqueue_frames_spec [OF q assms(2)] show ?thesis
    using assms(1) by (auto simp: queue_ok_def queued_with_def)
qed

lemma discard_fenced:
  assumes "queue_ok cfg (cn_queue c)" "tasks_ok cfg c" "epochs_ok c" "cn_fenced c" "\<not> cn_running c" "\<not> cn_resume c"
    and frames: "fq_frames (cn_queue c) = rs @ [Version b]" "\<forall>f \<in> set rs. \<not> is_version f"
    and "\<forall>t \<in> set (cn_tasks c). \<not> task_version t"
  shows "conn_inv cfg ((discard_prior_calls_for_version c)\<lparr>cn_aborting := True\<rparr>)"
proof -
  have "dropWhile (Not \<circ> is_version) (rs @ [Version b]) = [Version b]" using frames(2) by (induction rs) auto
  moreover have "fq_bytes (cn_queue c) = sum_list (map pending_len (fq_frames (cn_queue c)))" using assms(1) by (simp add: queue_ok_def)
  ultimately have "fq_frames (cn_queue (discard_prior_calls_for_version c)) = [Version b]" using frames(1) by (simp add: discard_queue)
  then show ?thesis
    using assms discard_queue_ok discard_tasks_ok discard_epochs_ok by (auto simp: conn_inv_def fenced_phase_def)
qed

lemma take_input_inv:
  assumes inv: "conn_inv cfg c" and flags: "\<not> cn_fenced c" "\<not> cn_resume c" and run: "take_input cfg chunk c = Inr d"
  shows "conn_inv cfg d"
proof -
  note i = conn_invD [OF inv] and ph = conn_inv_open [OF inv flags(1)]
  obtain v c1 where c1: "queue_input cfg chunk c = (Inr v, c1)"
    and d: "d = (let e = c1\<lparr>cn_fenced := v\<rparr> in if v \<and> cn_msize e \<noteq> None then (discard_prior_calls_for_version e)\<lparr>cn_aborting := True\<rparr> else e)"
    using run by (auto simp: take_input_def Let_def split: prod.splits sum.splits)
  obtain q where q: "enqueue_frames (conn_pending_limit cfg) (conn_frame_limit cfg) chunk (cn_queue c) = (Inr v, q)" "c1 = c\<lparr>cn_queue := q\<rparr>"
    by (rule queue_input_fields [OF c1])
  obtain new where qok: "queue_ok cfg q" and new: "fq_frames q = fq_frames (cn_queue c) @ new" "batch_ok v new"
    using queue_ok_enqueue [OF i(1) q(1)] by blast
  let ?e = "c\<lparr>cn_queue := q, cn_fenced := v\<rparr>"
  show ?thesis
  proof (cases v)
    case False
    then have "open_phase ?e" using ph new by (auto simp: open_phase_def batch_ok_def)
    then show ?thesis using False d q(2) qok i by (simp add: conn_inv_def Let_def)
  next
    case True
    then obtain rs b where "new = rs @ [Version b]" "\<forall>f \<in> set rs. \<not> is_version f" using new(2) by (auto simp: batch_ok_def)
    then have fr: "fq_frames (cn_queue ?e) = (fq_frames (cn_queue c) @ rs) @ [Version b]" "\<forall>f \<in> set (fq_frames (cn_queue c) @ rs). \<not> is_version f"
      using new(1) ph by (auto simp: open_phase_def)
    have "fenced_phase ?e" using True ph flags(2) fr unfolding fenced_phase_def open_phase_def by fastforce
    then have 1: "conn_inv cfg ?e" using qok i by (simp add: conn_inv_def)
    have "conn_inv cfg ((discard_prior_calls_for_version ?e)\<lparr>cn_aborting := True\<rparr>)"
      by (rule discard_fenced [OF _ _ _ _ _ _ fr]) (use True qok i ph flags(2) in \<open>simp_all add: open_phase_def\<close>)
    then show ?thesis using 1 d q(2) True by (simp add: Let_def)
  qed
qed

lemma loop_resume_inv:
  assumes inv: "conn_inv cfg c" and run: "loop_resume cfg c = Inr d"
  shows "conn_inv cfg d \<and> \<not> cn_resume d"
proof (cases "cn_resume c \<or> (\<not> cn_fenced c \<and> fa_pending (fq_assembler (cn_queue c)) > 0 \<and> length (fq_frames (cn_queue c)) < conn_frame_limit cfg)")
  case True
  have f: "\<not> cn_fenced c" using True inv by (auto simp: conn_inv_def phase_defs)
  let ?c = "c\<lparr>cn_resume := False\<rparr>"
  have inv': "conn_inv cfg ?c" using inv by (auto simp: conn_inv_def phase_defs)
  have t: "take_input cfg [] ?c = Inr d" using run True by (simp add: loop_resume_def)
  have "cn_resume d = cn_resume ?c"
    using t by (auto simp: take_input_def queue_input_def Let_def split: prod.splits sum.splits if_splits)
  then show ?thesis using take_input_inv [OF inv' _ _ t] f by simp
next
  case False
  then show ?thesis using run inv by (auto simp: loop_resume_def split: if_splits)
qed

text \<open>A version request that the scan finds in a full queue is queued by itself, all else being aborted.\<close>

lemma scan_found:
  assumes inv: "conn_inv cfg c" "\<not> cn_fenced c" "\<not> cn_resume c"
    and scan: "scan_for_version MAX_FRAMES_PER_PARSE (fq_assembler (cn_queue c)) = (Inr Found, a)"
    and d: "d = (discard_prior_calls_for_version (c\<lparr>cn_queue := (cn_queue c)\<lparr>fq_assembler := a\<rparr>\<rparr>))\<lparr>cn_aborting := True\<rparr>"
  shows "\<exists>f. queue_input cfg [] d = (Inr True, f) \<and> conn_inv cfg (f\<lparr>cn_fenced := True\<rparr>)"
proof -
  note i = conn_invD [OF inv(1)] and ph = conn_inv_open [OF inv(1,2)]
  let ?c = "c\<lparr>cn_queue := (cn_queue c)\<lparr>fq_assembler := a\<rparr>\<rparr>"
  have live: "fa_live (fq_assembler (cn_queue c))" using i(1) by (simp add: queue_ok_def)
  obtain f rest where a: "fa_live a" "fa_pending a \<le> fa_pending (fq_assembler (cn_queue c))"
    and f: "fa_bytes a = f @ rest" "frame_ok (fa_limit a) f" "is_version_frame f"
    using scan_for_version_Inr [OF live scan] by auto
  have qok: "queue_ok cfg (cn_queue ?c)" using i(1) a by (simp add: queue_ok_def)
  have none: "dropWhile (Not \<circ> is_version) (fq_frames (cn_queue c)) = []" using ph by (simp add: open_phase_def)
  have q: "cn_queue d = (cn_queue ?c)\<lparr>fq_frames := [], fq_bytes := 0\<rparr>"
    using qok by (simp add: d discard_queue queue_ok_def none)
  have "0 < conn_frame_limit cfg" by (simp add: conn_frame_limit_def READ_BUFFER_def P9_HDRSZ_def)
  moreover have "fa_pending a \<le> conn_pending_limit cfg" using qok by (simp add: queue_ok_def)
  ultimately obtain q' where q': "enqueue_frames (conn_pending_limit cfg) (conn_frame_limit cfg) [] (cn_queue d) = (Inr True, q')" "fq_frames q' = [Version f]"
    using enqueue_version [of "cn_queue d" "conn_frame_limit cfg" "conn_pending_limit cfg" f rest] a(1) f q by auto
  have "queue_ok cfg (cn_queue d)" using discard_queue_ok [OF qok] by (simp add: d)
  then have "queue_ok cfg q'" using queue_ok_enqueue q'(1) by blast
  moreover have "fenced_phase (d\<lparr>cn_queue := q', cn_fenced := True\<rparr>)"
    using ph inv(3) q'(2) by (auto simp: fenced_phase_def open_phase_def d)
  moreover have "tasks_ok cfg d" "epochs_ok d"
    using i discard_tasks_ok [of cfg ?c] discard_epochs_ok [of ?c] by (simp_all add: d)
  ultimately show ?thesis using q'(1) by (auto simp: queue_input_def conn_inv_def)
qed

lemma loop_scan_inv:
  assumes inv: "conn_inv cfg c" "\<not> cn_resume c"
  shows "loop_scan cfg c \<noteq> Inl StopVersionLost \<and> (\<forall>d b. loop_scan cfg c = Inr (d, b) \<longrightarrow> conn_inv cfg d)"
proof (cases "\<not> cn_fenced c \<and> cn_msize c \<noteq> None \<and> length (fq_frames (cn_queue c)) \<ge> conn_frame_limit cfg \<and> fa_pending (fq_assembler (cn_queue c)) > 0")
  case True
  note i = conn_invD [OF inv(1)]
  obtain r a where scan: "scan_for_version MAX_FRAMES_PER_PARSE (fq_assembler (cn_queue c)) = (r, a)" by fastforce
  let ?c = "c\<lparr>cn_queue := (cn_queue c)\<lparr>fq_assembler := a\<rparr>\<rparr>"
  have keep: "conn_inv cfg ?c" if "r = Inr x" for x
  proof -
    have "fa_live a \<and> fa_pending a \<le> fa_pending (fq_assembler (cn_queue c))"
      using scan_for_version_Inr [of "fq_assembler (cn_queue c)" MAX_FRAMES_PER_PARSE x a] scan that i(1) by (simp add: queue_ok_def)
    then show ?thesis using inv(1) by (auto simp: conn_inv_def queue_ok_def phase_defs)
  qed
  consider e where "r = Inl e" | "r = Inr Found" | "r = Inr More" | "r = Inr ScanIncomplete"
    by (metis sum.exhaust version_scan.exhaust)
  then show ?thesis
  proof cases
    case 2
    then show ?thesis using True scan scan_found [OF inv(1) _ inv(2) _ refl] by (fastforce simp: loop_scan_def)
  qed (use True scan keep in \<open>auto simp: loop_scan_def\<close>)
next
  case False
  then have "loop_scan cfg c = Inr (c, False)" unfolding loop_scan_def by (rule if_not_P)
  then show ?thesis using inv(1) by simp
qed

lemma loop_head_inv:
  assumes "conn_inv cfg c"
  shows "loop_head cfg c \<noteq> Inl StopVersionLost \<and> (\<forall>d. loop_head cfg c = Inr d \<longrightarrow> conn_inv cfg d)"
proof (cases "loop_resume cfg c")
  case (Inl e)
  moreover have "e \<noteq> StopVersionLost"
    using Inl by (auto simp: loop_resume_def take_input_def Let_def split: if_splits prod.splits sum.splits)
  ultimately show ?thesis by (simp add: loop_head_def)
next
  case (Inr d)
  then show ?thesis
    using loop_resume_inv [OF assms Inr] loop_scan_inv [of cfg d] by (auto simp: loop_head_def split: sum.splits)
qed

section \<open>The arms of the loop\<close>

lemma find_task_Some: "find_task i c = Some t \<Longrightarrow> t \<in> set (cn_tasks c) \<and> task_id t = i"
  by (auto simp: find_task_def find_Some_iff)

lemma remove_tasks_ok:
  assumes "tasks_ok cfg c"
  shows "tasks_ok cfg (remove_task i c)"
proof -
  have "length (filter (\<lambda>t. task_id t \<noteq> i \<and> holds_permit t) ts) \<le> length (filter holds_permit ts)" for ts
    by (induction ts) auto
  from order_trans [OF this] show ?thesis
    using assms by (auto simp: tasks_ok_def remove_task_def distinct_map_filter)
qed

lemma remove_epochs_ok: "epochs_ok c \<Longrightarrow> epochs_ok (remove_task i c)"
  by (auto simp: epochs_ok_def remove_task_def)

lemma remove_task_inv:
  assumes inv: "conn_inv cfg c" and t: "t \<in> set (cn_tasks c)" "\<not> task_version t"
  shows "conn_inv cfg (remove_task (task_id t) c)"
proof -
  have "\<not> running_phase c" using t by (auto simp: running_phase_def)
  then have "open_phase c \<or> fenced_phase c" using conn_invD(2) [OF inv] by blast
  then have "open_phase (remove_task (task_id t) c) \<or> fenced_phase (remove_task (task_id t) c)"
    by (auto simp: phase_defs remove_task_def)
  then show ?thesis
    using conn_invD [OF inv] remove_tasks_ok remove_epochs_ok by (auto simp: conn_inv_def remove_task_def)
qed

lemma put_limit_inv:
  assumes "conn_inv cfg c" "put_limit l c = Inr d"
  shows "conn_inv cfg d \<and> cn_fenced d = cn_fenced c \<and> cn_resume d = cn_resume c"
proof -
  obtain a where a: "set_limit l (fq_assembler (cn_queue c)) = (Inr (), a)" "d = c\<lparr>cn_queue := (cn_queue c)\<lparr>fq_assembler := a\<rparr>\<rparr>"
    using assms(2) by (auto simp: put_limit_def split: prod.splits sum.splits)
  have "fa_live a \<and> fa_pending a = fa_pending (fq_assembler (cn_queue c))"
    using a(1) conn_invD(1) [OF assms(1)]
    by (auto simp: set_limit_def queue_ok_def fa_live_def fa_pending_def split: if_splits)
  then show ?thesis using assms(1) a(2) by (auto simp: conn_inv_def queue_ok_def phase_defs)
qed

lemma join_finished_inv:
  assumes inv: "conn_inv cfg c" and t: "t \<in> set (cn_tasks c)" and run: "join_finished cfg t c = Inr d"
  shows "conn_inv cfg d"
proof (cases "task_version t")
  case True
  then have "running_phase c" using conn_invD(2) [OF inv] t by (auto simp: phase_defs)
  then have tasks: "cn_tasks c = [t]" and fr: "fq_frames (cn_queue c) = []" using t by (auto simp: running_phase_def)
  let ?e = "(remove_task (task_id t) c)\<lparr>cn_running := False, cn_fenced := False, cn_aborting := False\<rparr>"
  have "open_phase ?e" using tasks fr by (simp add: open_phase_def remove_task_def)
  then have "conn_inv cfg ?e"
    using conn_invD [OF inv] remove_tasks_ok remove_epochs_ok by (simp add: conn_inv_def) (simp add: remove_task_def)
  moreover obtain f where f: "put_limit (case cn_msize c of None \<Rightarrow> max (max_frame cfg) P9_HDRSZ | Some m \<Rightarrow> m) ?e = Inr f" "d = f\<lparr>cn_resume := True\<rparr>"
    using run True by (auto simp: join_finished_def Let_def split: sum.splits)
  ultimately have "conn_inv cfg f" "\<not> cn_fenced f" using put_limit_inv [of cfg ?e] by auto
  then show ?thesis using f(2) by (auto simp: conn_inv_def phase_defs)
next
  case False
  then show ?thesis using remove_task_inv [OF inv t False] run by (simp add: join_finished_def)
qed

lemma cancelled_phase:
  assumes "conn_inv cfg c" "t \<in> set (cn_tasks c)" "task_aborted t"
  shows "cn_aborting c \<and> \<not> cn_running c \<and> \<not> task_version t"
  using assms by (auto simp: conn_inv_def phase_defs)

lemma dispatch_inv:
  assumes inv: "conn_inv cfg c" and may: "may_dispatch cfg c"
  shows "conn_inv cfg (dispatch c)"
proof -
  note i = conn_invD [OF inv]
  obtain f fs where fs: "fq_frames (cn_queue c) = f # fs" using may by (auto simp: may_dispatch_def neq_Nil_conv)
  have q: "queue_ok cfg (cn_queue (dispatch c))" using i(1) fs by (auto simp: queue_ok_def dispatch_def Let_def)
  have t: "tasks_ok cfg (dispatch c)" using i(3) may by (auto simp: tasks_ok_def dispatch_def may_dispatch_def Let_def less_Suc_eq)
  have e: "epochs_ok (dispatch c)" using i(4) by (auto simp: epochs_ok_def dispatch_def Let_def)
  have "open_phase (dispatch c) \<or> fenced_phase (dispatch c) \<or> running_phase (dispatch c)"
  proof (cases "is_version f")
    case False
    then show ?thesis using i(2) fs may by (auto simp: phase_defs dispatch_def may_dispatch_def Let_def Cons_eq_append_conv)
  next
    case True
    then have "fenced_phase c" "cn_tasks c = []" using i(2) fs may by (auto simp: phase_defs may_dispatch_def)
    moreover have "fs = []" using \<open>fenced_phase c\<close> fs True by (auto simp: fenced_phase_def Cons_eq_append_conv)
    ultimately have "running_phase (dispatch c)" using fs True by (auto simp: fenced_phase_def running_phase_def dispatch_def Let_def)
    then show ?thesis by blast
  qed
  then show ?thesis using q t e by (simp add: conn_inv_def)
qed

lemma read_input_inv:
  assumes inv: "conn_inv cfg c" and res: "\<not> cn_resume c" and run: "read_input cfg chunk c = Inr d"
  shows "conn_inv cfg d"
proof -
  let ?held = "saturating_add (fq_bytes (cn_queue c)) (fa_pending (fq_assembler (cn_queue c)))"
  have room: "?held < conn_pending_limit cfg" using run by (auto simp: read_input_def Let_def split: if_splits)
  show ?thesis
  proof (cases "cn_fenced c")
    case True
    let ?a = "hold_unparsed chunk (fq_assembler (cn_queue c))"
    have d: "d = c\<lparr>cn_queue := (cn_queue c)\<lparr>fq_assembler := ?a\<rparr>\<rparr>" "length chunk \<le> conn_pending_limit cfg - ?held"
      using run True room by (auto simp: read_input_def Let_def split: if_splits)
    have live: "fa_live (fq_assembler (cn_queue c))" using conn_invD(1) [OF inv] by (simp add: queue_ok_def)
    have "conn_pending_limit cfg \<le> U64_MAX" by (simp add: conn_pending_limit_def saturating_mul_def READ_BUFFER_def U64_MAX_def)
    then have "fq_bytes (cn_queue c) + fa_pending ?a \<le> conn_pending_limit cfg"
      using d(2) room hold_bytes(1) [OF live, of chunk] by (auto simp: fa_pending_bytes saturating_add_def)
    then show ?thesis
      using inv d(1) hold_bytes(2) [OF live, of chunk] by (auto simp: conn_inv_def queue_ok_def phase_defs)
  next
    case False
    obtain e where e: "(if cn_msize c \<noteq> None then put_limit (the (cn_msize c)) c else Inr c) = Inr e" "take_input cfg chunk e = Inr d"
    proof -
      obtain e where e: "(if cn_msize c \<noteq> None then put_limit (the (cn_msize c)) c else Inr c) = Inr e"
        using run False room by (cases "if cn_msize c \<noteq> None then put_limit (the (cn_msize c)) c else Inr c") (auto simp: read_input_def Let_def split: if_splits)
      then have "\<not> cn_fenced e" using put_limit_inv [OF inv] False by (auto split: if_splits)
      then show thesis using run False room e by (intro that [OF e]) (auto simp: read_input_def Let_def split: if_splits)
    qed
    then have "conn_inv cfg e" "\<not> cn_fenced e" "\<not> cn_resume e" using put_limit_inv [OF inv] inv res False by (auto split: if_splits)
    then show ?thesis by (rule take_input_inv) (rule e(2))
  qed
qed

section \<open>The tasks and the writer\<close>

lemma map_tasks_inv:
  assumes inv: "conn_inv cfg c"
    and same: "\<And>t. t \<in> set (cn_tasks c) \<Longrightarrow> task_id (g t) = task_id t \<and> task_version (g t) = task_version t \<and> task_aborted (g t) = task_aborted t
      \<and> task_epoch (g t) = task_epoch t \<and> task_generation (g t) = task_generation t \<and> (holds_permit (g t) \<longrightarrow> holds_permit t)"
  shows "conn_inv cfg (c\<lparr>cn_tasks := map g (cn_tasks c)\<rparr>)"
proof -
  note i = conn_invD [OF inv]
  have "length (filter holds_permit (map g ts)) \<le> length (filter holds_permit ts)" if "set ts \<subseteq> set (cn_tasks c)" for ts
    using that same by (induction ts) auto
  from this [of "cn_tasks c"] have "tasks_ok cfg (c\<lparr>cn_tasks := map g (cn_tasks c)\<rparr>)"
    using i(3) same by (auto simp: tasks_ok_def comp_def cong: map_cong)
  moreover have "epochs_ok (c\<lparr>cn_tasks := map g (cn_tasks c)\<rparr>)" using i(4) same by (auto simp: epochs_ok_def)
  moreover have "open_phase (c\<lparr>cn_tasks := map g (cn_tasks c)\<rparr>) \<or> fenced_phase (c\<lparr>cn_tasks := map g (cn_tasks c)\<rparr>)
      \<or> running_phase (c\<lparr>cn_tasks := map g (cn_tasks c)\<rparr>)"
    using i(2) same by (auto simp: phase_defs)
  ultimately show ?thesis using i(1) by (simp add: conn_inv_def)
qed

lemma set_phase_inv:
  assumes inv: "conn_inv cfg c" and t: "find_task i c = Some t" "holds_permit t"
  shows "conn_inv cfg (set_phase i p c)"
  unfolding set_phase_def
proof (rule map_tasks_inv [OF inv])
  fix u assume u: "u \<in> set (cn_tasks c)"
  have "u = t" if "task_id u = i"
    using find_task_Some [OF t(1)] u that conn_invD(3) [OF inv] by (auto simp: tasks_ok_def distinct_map inj_on_def)
  then show "task_id (if task_id u = i then u\<lparr>task_phase := p\<rparr> else u) = task_id u \<and>
     task_version (if task_id u = i then u\<lparr>task_phase := p\<rparr> else u) = task_version u \<and>
     task_aborted (if task_id u = i then u\<lparr>task_phase := p\<rparr> else u) = task_aborted u \<and>
     task_epoch (if task_id u = i then u\<lparr>task_phase := p\<rparr> else u) = task_epoch u \<and>
     task_generation (if task_id u = i then u\<lparr>task_phase := p\<rparr> else u) = task_generation u \<and>
     (holds_permit (if task_id u = i then u\<lparr>task_phase := p\<rparr> else u) \<longrightarrow> holds_permit u)"
    using t(2) by auto
qed

lemma acknowledge_inv: "conn_inv cfg c \<Longrightarrow> conn_inv cfg (acknowledge r c)"
  unfolding acknowledge_def by (rule map_tasks_inv) (auto simp: holds_permit_def)

text \<open>The writer's side of the state: the replies under way must carry epochs of the past.\<close>

lemma conn_inv_replies:
  assumes "conn_inv cfg c" "set ch \<union> set_option w \<subseteq> set (cn_channel c) \<union> set_option (cn_writer c) \<union> {r. rw_generation r \<le> cn_generation c \<and> rw_epoch r = rw_generation r mod 2 ^ 64}"
  shows "conn_inv cfg (c\<lparr>cn_channel := ch, cn_writer := w, cn_written := h\<rparr>)"
proof -
  let ?d = "c\<lparr>cn_channel := ch, cn_writer := w, cn_written := h\<rparr>"
  have "open_phase ?d = open_phase c" "fenced_phase ?d = fenced_phase c" "running_phase ?d = running_phase c" "tasks_ok cfg ?d = tasks_ok cfg c"
    by (simp_all add: phase_defs tasks_ok_def)
  moreover have "epochs_ok ?d" using conn_invD(4) [OF assms(1)] assms(2) unfolding epochs_ok_def by (simp add: subset_iff) blast
  ultimately show ?thesis using assms(1) by (simp add: conn_inv_def)
qed

lemma reply_updates:
  "c\<lparr>cn_channel := ch, cn_writer := cn_writer c, cn_written := cn_written c\<rparr> = c\<lparr>cn_channel := ch\<rparr>"
  "c\<lparr>cn_channel := ch, cn_writer := w, cn_written := cn_written c\<rparr> = c\<lparr>cn_channel := ch, cn_writer := w\<rparr>"
  "c\<lparr>cn_channel := cn_channel c, cn_writer := w, cn_written := cn_written c\<rparr> = c\<lparr>cn_writer := w\<rparr>"
  "c\<lparr>cn_channel := cn_channel c, cn_writer := w, cn_written := h\<rparr> = c\<lparr>cn_writer := w, cn_written := h\<rparr>"
  by (cases c; simp)+

lemma task_reply_inv:
  assumes inv: "conn_inv cfg c" and t: "find_task i c = Some t" and run: "task_reply cfg t c = Some d"
  shows "conn_inv cfg d"
proof -
  let ?r = "\<lparr>rw_task = task_id t, rw_epoch = task_epoch t, rw_generation = task_generation t, rw_version = task_version t\<rparr>"
  let ?c = "c\<lparr>cn_channel := cn_channel c @ [?r]\<rparr>"
  have d: "d = set_phase i Waiting ?c" "task_phase t = Working"
    using run find_task_Some [OF t] by (auto simp: task_reply_def split: if_splits)
  have "task_generation t \<le> cn_generation c" "task_epoch t = task_generation t mod 2 ^ 64"
    using find_task_Some [OF t] conn_invD(4) [OF inv] by (auto simp: epochs_ok_def)
  then have "conn_inv cfg ?c"
    using conn_inv_replies [OF inv, of "cn_channel c @ [?r]" "cn_writer c" "cn_written c", unfolded reply_updates] by auto
  moreover have "find_task i ?c = Some t" "holds_permit t" using t d(2) by (simp_all add: find_task_def holds_permit_def)
  ultimately show ?thesis using d(1) set_phase_inv by blast
qed

lemma writer_take_inv:
  assumes inv: "conn_inv cfg c" and run: "writer_take c = Some d"
  shows "conn_inv cfg d"
proof -
  obtain r rest where r: "cn_writer c = None" "cn_channel c = r # rest"
    and d: "d = (if stale r c then acknowledge r (c\<lparr>cn_channel := rest\<rparr>) else c\<lparr>cn_channel := rest, cn_writer := Some r\<rparr>)"
    using run by (auto simp: writer_take_def Let_def split: option.splits list.splits)
  have 1: "conn_inv cfg (c\<lparr>cn_channel := rest\<rparr>)"
    using conn_inv_replies [OF inv, of rest "cn_writer c" "cn_written c", unfolded reply_updates] r by auto
  have 2: "conn_inv cfg (c\<lparr>cn_channel := rest, cn_writer := Some r\<rparr>)"
    using conn_inv_replies [OF inv, of rest "Some r" "cn_written c", unfolded reply_updates] r by auto
  show ?thesis using d 2 acknowledge_inv [OF 1] by simp
qed

lemma writer_write_inv:
  assumes inv: "conn_inv cfg c" and run: "writer_write c = Some d"
  shows "conn_inv cfg d"
proof -
  obtain r where r: "cn_writer c = Some r"
    and d: "d = acknowledge r (if stale r c then c\<lparr>cn_writer := None\<rparr> else c\<lparr>cn_writer := None, cn_written := cn_written c @ [r]\<rparr>)"
    using run by (auto simp: writer_write_def Let_def split: option.splits)
  have "conn_inv cfg (c\<lparr>cn_writer := None\<rparr>)" "conn_inv cfg (c\<lparr>cn_writer := None, cn_written := cn_written c @ [r]\<rparr>)"
    using conn_inv_replies [OF inv, of "cn_channel c" None "cn_written c", unfolded reply_updates]
      conn_inv_replies [OF inv, of "cn_channel c" None "cn_written c @ [r]", unfolded reply_updates] by auto
  then show ?thesis using d acknowledge_inv by (auto split: if_splits)
qed

section \<open>Every reachable state\<close>

text \<open>Between the head of the loop and its \<^verbatim>\<open>select\<close> no resumption is outstanding.\<close>

definition point_ok :: "conn \<Rightarrow> bool" where
  "point_ok c \<longleftrightarrow> (cn_point c \<noteq> LoopTop \<longrightarrow> \<not> cn_resume c)"

lemma loop_scan_resume: "loop_scan cfg c = Inr (d, b) \<Longrightarrow> cn_resume d = cn_resume c"
  by (auto simp: loop_scan_def queue_input_def Let_def split: if_splits prod.splits sum.splits version_scan.splits bool.splits)

lemma loop_head_point: "conn_inv cfg c \<Longrightarrow> loop_head cfg c = Inr d \<Longrightarrow> \<not> cn_resume d"
  using loop_resume_inv [of cfg c] by (auto simp: loop_head_def dest: loop_scan_resume split: sum.splits)

lemma task_fields_point [simp]:
  "cn_point (set_phase i p c) = cn_point c" "cn_resume (set_phase i p c) = cn_resume c"
  "cn_point (acknowledge r c) = cn_point c" "cn_resume (acknowledge r c) = cn_resume c"
  by (simp_all add: set_phase_def acknowledge_def)

lemma conn_start_inv: "conn_start cfg = Inr c \<Longrightarrow> conn_inv cfg c \<and> point_ok c"
  by (auto simp: conn_start_def assembler_new_def conn_inv_def queue_ok_def open_phase_def tasks_ok_def epochs_ok_def point_ok_def
      fa_live_def fa_pending_def split: if_splits)

lemma conn_exec_inv:
  assumes inv: "conn_inv cfg c" "point_ok c" and run: "conn_exec cfg e c = Some (Inr d)"
  shows "conn_inv cfg d \<and> point_ok d"
proof (cases e)
  case Head
  then show ?thesis using run loop_head_inv [OF inv(1)] loop_head_point [OF inv(1)] by (auto simp: point_ok_def split: if_splits)
next
  case Yield
  then show ?thesis using run inv by (auto simp: at_top_def point_ok_def split: if_splits)
next
  case (JoinFinished i)
  then show ?thesis using run inv
    by (auto simp: at_top_def point_ok_def dest!: find_task_Some join_finished_inv [OF inv(1), rotated]
        split: option.splits if_splits sum.splits)
next
  case (JoinCancelled i)
  then show ?thesis using run inv
    by (auto simp: at_top_def point_ok_def join_cancelled_def dest!: find_task_Some dest: cancelled_phase [OF inv(1)]
        intro!: remove_task_inv [OF inv(1)] split: option.splits if_splits sum.splits)
next
  case Dispatch
  then show ?thesis using run dispatch_inv [OF inv(1)] by (auto simp: at_top_def point_ok_def split: if_splits)
next
  case (Read chunk)
  then show ?thesis using run inv read_input_inv [OF inv(1)]
    by (auto simp: at_top_def point_ok_def split: if_splits sum.splits)
next
  case (SessionMsize m)
  then show ?thesis using run inv by (auto simp: conn_inv_def phase_defs point_ok_def split: if_splits)
next
  case (TaskReply i)
  then show ?thesis using run inv task_reply_inv [OF inv(1)]
    by (fastforce simp: point_ok_def task_reply_def split: option.splits if_splits)
next
  case (TaskSilent i)
  then show ?thesis using run inv set_phase_inv [OF inv(1)]
    by (auto simp: point_ok_def holds_permit_def split: option.splits if_splits)
next
  case (TaskReturn i)
  then show ?thesis using run inv set_phase_inv [OF inv(1)]
    by (auto simp: point_ok_def holds_permit_def split: option.splits if_splits)
next
  case WriterTake
  then show ?thesis using run inv writer_take_inv [OF inv(1)]
    by (fastforce simp: point_ok_def writer_take_def Let_def split: option.splits list.splits if_splits)
next
  case WriterWrite
  then show ?thesis using run inv writer_write_inv [OF inv(1)]
    by (fastforce simp: point_ok_def writer_write_def Let_def split: option.splits if_splits)
qed

lemma conn_reachable_inv: "conn_reachable cfg c \<Longrightarrow> conn_inv cfg c \<and> point_ok c"
  by (induction rule: conn_reachable.induct) (use conn_start_inv conn_exec_inv in blast)+

lemmas reachable_inv = conn_reachable_inv [THEN conjunct1]

text \<open>Executions, for concrete runs.\<close>

fun conn_run :: "conn_config \<Rightarrow> conn_event list \<Rightarrow> conn \<Rightarrow> conn option" where
  "conn_run cfg [] c = Some c"
| "conn_run cfg (e # es) c = (case conn_exec cfg e c of Some (Inr d) \<Rightarrow> conn_run cfg es d | _ \<Rightarrow> None)"

lemma conn_run_reachable: "conn_reachable cfg c \<Longrightarrow> conn_run cfg es c = Some d \<Longrightarrow> conn_reachable cfg d"
  by (induction cfg es c rule: conn_run.induct) (auto split: option.splits sum.splits intro: conn_steps)

definition demo_config :: conn_config where
  "demo_config = \<lparr>max_frame = 64, max_in_flight = 2\<rparr>"

definition demo_conn :: "conn_event list \<Rightarrow> conn option" where
  "demo_conn es = (case conn_start demo_config of Inr c \<Rightarrow> conn_run demo_config es c | Inl _ \<Rightarrow> None)"

lemma demo_conn_reachable: "demo_conn es = Some c \<Longrightarrow> conn_reachable demo_config c"
  by (auto simp: demo_conn_def intro: conn_starts conn_run_reachable split: sum.splits)

text \<open>A version exchange, a request whose reply is about to be written, and a renegotiation arriving before that.\<close>

definition demo_exchange :: "conn_event list" where
  "demo_exchange = [Head, Read demo_version, Head, Dispatch, SessionMsize (Some 64), TaskReply 0, WriterTake, WriterWrite, TaskReturn 0,
     Head, JoinFinished 0, Head, Read (demo_frame @ demo_frame), Head, Dispatch, TaskReply 1, WriterTake]"

definition demo_renegotiation :: "conn_event list" where
  "demo_renegotiation = demo_exchange @ [Head, Read (demo_version @ demo_frame)]"

section \<open>Main theorems\<close>

text \<open>
  C35: Queueing input loses and reorders nothing.  When \<^verbatim>\<open>enqueue_frames\<close> succeeds, the frames it appends followed
  by the bytes the assembler still holds are the bytes it held before followed by the input; each frame is within
  the frame limit; a version request, if there is one, is the last frame of the batch and is reported; and the
  queued and unparsed bytes together stay within the limit of the connection.
\<close>

theorem p9_enqueue_keeps_stream:
  assumes "fa_live (fq_assembler q)" and "fq_bytes q = sum_list (map pending_len (fq_frames q))" and "fq_bytes q \<le> limit"
    and "enqueue_frames limit count chunk q = (Inr version, q')"
  shows "\<exists>new. fq_frames q' = fq_frames q @ new \<and>
    concat (map frame_bytes new) @ fa_bytes (fq_assembler q') = fa_bytes (fq_assembler q) @ chunk \<and>
    (\<forall>f \<in> set new. frame_ok (fa_limit (fq_assembler q)) (frame_bytes f) \<and> is_version f = is_version_frame (frame_bytes f)) \<and>
    (\<forall>f \<in> set (butlast new). \<not> is_version f) \<and> version = (new \<noteq> [] \<and> is_version (last new)) \<and>
    sum_list (map pending_len (fq_frames q')) + fa_pending (fq_assembler q') \<le> limit"
proof -
  obtain new where new: "queued_with q chunk new q'" "batch_ok version new" "fq_bytes q' + fa_pending (fq_assembler q') \<le> limit"
    using enqueue_frames_spec [OF assms(1,3,4)] by blast
  have "(\<forall>f \<in> set (butlast new). \<not> is_version f) \<and> version = (new \<noteq> [] \<and> is_version (last new))"
    using new(2) by (auto simp: batch_ok_def split: if_splits dest: in_set_butlastD)
  then show ?thesis using new(1,3) assms(2) by (auto simp: queued_with_def classified_def)
qed

definition demo_queue :: frame_queue where
  "demo_queue = \<lparr>fq_assembler = demo_assembler, fq_frames = [], fq_bytes = 0\<rparr>"

theorem p9_enqueue_keeps_stream_witness:
  "fst (enqueue_frames 100 10 (demo_frame @ demo_version @ [9, 0]) demo_queue) = Inr True \<and>
   (\<exists>new. fq_frames (snd (enqueue_frames 100 10 (demo_frame @ demo_version @ [9, 0]) demo_queue)) = new \<and>
     concat (map frame_bytes new) @ fa_bytes (fq_assembler (snd (enqueue_frames 100 10 (demo_frame @ demo_version @ [9, 0]) demo_queue)))
       = demo_frame @ demo_version @ [9, 0])"
proof -
  have 1: "fa_live (fq_assembler demo_queue)" "fq_bytes demo_queue = sum_list (map pending_len (fq_frames demo_queue))" "fq_bytes demo_queue \<le> 100"
    by code_simp+
  have 2: "fst (enqueue_frames 100 10 (demo_frame @ demo_version @ [9, 0]) demo_queue) = Inr True" by code_simp
  have 3: "fq_frames demo_queue = []" "fa_bytes (fq_assembler demo_queue) = []" by code_simp+
  show ?thesis
    using p9_enqueue_keeps_stream [OF 1, of 10 "demo_frame @ demo_version @ [9, 0]" True] 2 3
    by (cases "enqueue_frames 100 10 (demo_frame @ demo_version @ [9, 0]) demo_queue") auto
qed

text \<open>
  C7: A peer cannot make a connection hold more than its limits.  Whatever arrives and however the loop, the request
  tasks and the writer interleave, the queued frames and the unparsed bytes together never exceed the byte limit, the
  byte count kept is that of the queued frames, the number of queued frames never exceeds the frame limit, and at
  most \<^verbatim>\<open>max_in_flight\<close> requests are in progress.
\<close>

theorem p9_connection_bounded:
  assumes "conn_reachable cfg c"
  shows "fq_bytes (cn_queue c) = sum_list (map pending_len (fq_frames (cn_queue c))) \<and>
    fq_bytes (cn_queue c) + fa_pending (fq_assembler (cn_queue c)) \<le> conn_pending_limit cfg \<and>
    length (fq_frames (cn_queue c)) \<le> conn_frame_limit cfg \<and>
    length (filter holds_permit (cn_tasks c)) \<le> max_in_flight cfg"
  using conn_invD(1,3) [OF reachable_inv [OF assms]] by (simp add: queue_ok_def tasks_ok_def)

theorem p9_connection_bounded_witness:
  "\<exists>c. demo_conn demo_renegotiation = Some c \<and> fa_pending (fq_assembler (cn_queue c)) = 7 \<and>
     fq_bytes (cn_queue c) = 21 \<and> sum_list (map pending_len (fq_frames (cn_queue c))) = 21 \<and>
     length (filter holds_permit (cn_tasks c)) \<le> 2"
proof -
  have "case demo_conn demo_renegotiation of
      Some c \<Rightarrow> fa_pending (fq_assembler (cn_queue c)) = 7 \<and> fq_bytes (cn_queue c) = 21 | None \<Rightarrow> False" by code_simp
  then obtain c where c: "demo_conn demo_renegotiation = Some c" "fa_pending (fq_assembler (cn_queue c)) = 7" "fq_bytes (cn_queue c) = 21"
    by (auto split: option.splits)
  have "max_in_flight demo_config = 2" by (simp add: demo_config_def)
  then show ?thesis using p9_connection_bounded [OF demo_conn_reachable [OF c(1)]] c by auto
qed

text \<open>
  C3: A version exchange is exclusive.  In every reachable state at most one version request is queued or running, and
  there is one exactly when the connection is fenced; while it runs no other request is in flight; what is read
  meanwhile is held and not parsed, so that later frames are cut with the negotiated limit.  A request cancelled for a
  renegotiation never ends the connection, and a version request found by scanning ahead is never lost.
\<close>

theorem p9_version_exclusive:
  assumes "conn_reachable cfg c"
  shows "length (filter is_version (fq_frames (cn_queue c))) + length (filter task_version (cn_tasks c)) = (if cn_fenced c then 1 else 0) \<and>
    (cn_running c \<longrightarrow> (\<exists>t. cn_tasks c = [t] \<and> task_version t)) \<and>
    (\<forall>chunk d. cn_fenced c \<longrightarrow> conn_exec cfg (Read chunk) c = Some (Inr d) \<longrightarrow>
       fq_frames (cn_queue d) = fq_frames (cn_queue c) \<and>
       fa_bytes (fq_assembler (cn_queue d)) = fa_bytes (fq_assembler (cn_queue c)) @ chunk) \<and>
    (\<forall>i. conn_exec cfg (JoinCancelled i) c \<noteq> Some (Inl StopTask)) \<and>
    (\<forall>e. conn_exec cfg e c \<noteq> Some (Inl StopVersionLost))"
proof (intro conjI allI impI)
  note inv = reachable_inv [OF assms]
  note i = conn_invD [OF inv]
  have none: "filter P xs = []" if "\<forall>x \<in> set xs. \<not> P x" for P and xs :: "'b list" using that by simp
  show "length (filter is_version (fq_frames (cn_queue c))) + length (filter task_version (cn_tasks c)) = (if cn_fenced c then 1 else 0)"
    using i(2) by (auto simp: phase_defs none)
  show "\<exists>t. cn_tasks c = [t] \<and> task_version t" if "cn_running c" using i(2) that by (auto simp: phase_defs)
  fix chunk d assume f: "cn_fenced c" and run: "conn_exec cfg (Read chunk) c = Some (Inr d)"
  have "fa_live (fq_assembler (cn_queue c))" using i(1) by (simp add: queue_ok_def)
  then show "fq_frames (cn_queue d) = fq_frames (cn_queue c)"
    "fa_bytes (fq_assembler (cn_queue d)) = fa_bytes (fq_assembler (cn_queue c)) @ chunk"
    using f run by (auto simp: at_top_def read_input_def Let_def hold_bytes split: if_splits sum.splits)
next
  note inv = reachable_inv [OF assms]
  show "conn_exec cfg (JoinCancelled i) c \<noteq> Some (Inl StopTask)" for i
    using cancelled_phase [OF inv] by (auto simp: at_top_def join_cancelled_def dest!: find_task_Some split: option.splits if_splits sum.splits)
  show "conn_exec cfg e c \<noteq> Some (Inl StopVersionLost)" for e
    using loop_head_inv [OF inv]
    by (cases e) (auto simp: at_top_def join_finished_def join_cancelled_def put_limit_def read_input_def take_input_def Let_def
        split: option.splits if_splits sum.splits prod.splits)
qed

theorem p9_version_exclusive_witness:
  "\<exists>c. demo_conn demo_renegotiation = Some c \<and> cn_fenced c \<and>
     length (filter is_version (fq_frames (cn_queue c))) + length (filter task_version (cn_tasks c)) = 1 \<and>
     conn_exec demo_config (JoinCancelled 1) c \<noteq> Some (Inl StopTask)"
proof -
  have "case demo_conn demo_renegotiation of Some c \<Rightarrow> cn_fenced c | None \<Rightarrow> False" by code_simp
  then obtain c where c: "demo_conn demo_renegotiation = Some c" "cn_fenced c" by (auto split: option.splits)
  show ?thesis using p9_version_exclusive [OF demo_conn_reachable [OF c(1)]] c by auto
qed



end
