(* ===== verification/Fuse_Inodes.thy ===== *)
theory Fuse_Inodes
  imports Core_Types "HOL-Library.List_Lexorder" "HOL-Library.Char_ord" "HOL-Library.Product_Lexorder"
begin

text \<open>
  Model of \<^verbatim>\<open>transports/mount-rs-fuse/src/inodes.rs\<close>: the table that gives the kernel a node number for each
  path, one number for all hard links of a file, and keeps it until the kernel forgets it. An operation
  that indexes or unwraps a missing entry panics in the source; it is \<open>None\<close> here, as is the overflow of
  the counter of node numbers. The order in which the hash map of paths lists its keys is a parameter.
\<close>

record fuse_inode =
  in_nodeid :: nat
  in_key :: "(nat \<times> nat) option"
  in_nlookup :: nat
  in_paths :: "string list"

record inode_table =
  it_nodes :: "(nat, fuse_inode) fmap"
  it_paths :: "(string, nat) fmap"
  it_identities :: "(nat \<times> nat, nat) fmap"
  it_next :: nat
  it_use_driver_ino :: bool

definition inode_table_new :: "bool \<Rightarrow> inode_table" where
  "inode_table_new use_driver_ino =
     \<lparr>it_nodes = fmap_of_list [(1, \<lparr>in_nodeid = 1, in_key = None, in_nlookup = 1, in_paths = [''/'']\<rparr>)],
      it_paths = fmap_of_list [(''/'', 1)], it_identities = fmempty, it_next = 2, it_use_driver_ino = use_driver_ino\<rparr>"

definition inode_at :: "inode_table \<Rightarrow> string \<Rightarrow> fuse_inode option" where
  "inode_at t path = Option.bind (fmlookup (it_paths t) path) (fmlookup (it_nodes t))"

definition require_path :: "inode_table \<Rightarrow> nat \<Rightarrow> string result" where
  "require_path t nodeid =
     and_then (ok_or (fmlookup (it_nodes t) nodeid) (with_syscall ''lookup'' (fs_error_new Estale))) (\<lambda>inode.
     ok_or (case in_paths inode of [] \<Rightarrow> None | p # _ \<Rightarrow> Some p) (fs_error_new Enoent))"

definition set_inode :: "nat \<Rightarrow> fuse_inode \<Rightarrow> inode_table \<Rightarrow> inode_table" where
  "set_inode i n t = t\<lparr>it_nodes := fmupd i n (it_nodes t)\<rparr>"

definition attach :: "nat \<Rightarrow> string \<Rightarrow> inode_table \<Rightarrow> inode_table option" where
  "attach i path t =
     (case fmlookup (it_nodes t) i of
        None \<Rightarrow> None
      | Some inode \<Rightarrow>
          let inode' = (if path \<in> set (in_paths inode) then inode else inode\<lparr>in_paths := in_paths inode @ [path]\<rparr>);
              t' = (set_inode i inode' t)\<lparr>it_paths := fmupd path i (it_paths t)\<rparr>
          in Some (case in_key inode of None \<Rightarrow> t' | Some key \<Rightarrow> t'\<lparr>it_identities := fmupd key i (it_identities t)\<rparr>))"

definition drop_identity :: "nat \<Rightarrow> (nat \<times> nat) option \<Rightarrow> inode_table \<Rightarrow> inode_table" where
  "drop_identity i key t =
     (case key of
        None \<Rightarrow> t
      | Some k \<Rightarrow> if fmlookup (it_identities t) k = Some i then t\<lparr>it_identities := fmdrop k (it_identities t)\<rparr> else t)"

definition unbind :: "string \<Rightarrow> inode_table \<Rightarrow> (nat option \<times> inode_table) option" where
  "unbind path t =
     (case fmlookup (it_paths t) path of
        None \<Rightarrow> Some (None, t)
      | Some i \<Rightarrow>
          (case fmlookup (it_nodes t) i of
             None \<Rightarrow> None
           | Some inode \<Rightarrow>
               let inode' = inode\<lparr>in_paths := filter (\<lambda>p. p \<noteq> path) (in_paths inode)\<rparr>;
                   t' = (set_inode i inode' t)\<lparr>it_paths := fmdrop path (it_paths t)\<rparr>
               in Some (Some i, if in_paths inode' = [] then drop_identity i (in_key inode) t' else t')))"

definition stats_key :: "inode_table \<Rightarrow> stats \<Rightarrow> (nat \<times> nat) option" where
  "stats_key t st = (if it_use_driver_ino t \<and> st_ino st > 0 then Some (st_dev st, st_ino st) else None)"

definition same_inode :: "inode_table \<Rightarrow> (nat \<times> nat) option \<Rightarrow> nat option \<Rightarrow> nat option option" where
  "same_inode t key previous =
     (case previous of
        None \<Rightarrow> Some None
      | Some i \<Rightarrow>
          map_option (\<lambda>inode. if in_key inode = None \<or> in_key inode = key then Some i else None) (fmlookup (it_nodes t) i))"

definition fresh_inode :: "(nat \<times> nat) option \<Rightarrow> inode_table \<Rightarrow> (nat \<times> inode_table) option" where
  "fresh_inode key t =
     (if it_next t = U64_MAX then None
      else Some (it_next t,
        set_inode (it_next t) \<lparr>in_nodeid = it_next t, in_key = key, in_nlookup = 0, in_paths = []\<rparr>
          (t\<lparr>it_next := it_next t + 1\<rparr>)))"

definition pick_inode :: "(nat \<times> nat) option \<Rightarrow> nat option \<Rightarrow> inode_table \<Rightarrow> (nat \<times> inode_table) option" where
  "pick_inode key same t =
     (case (case Option.bind key (fmlookup (it_identities t)) of None \<Rightarrow> same | Some i \<Rightarrow> Some i) of
        Some i \<Rightarrow> Some (i, t)
      | None \<Rightarrow> fresh_inode key t)"

definition adopt_key :: "nat \<Rightarrow> (nat \<times> nat) option \<Rightarrow> inode_table \<Rightarrow> inode_table option" where
  "adopt_key i key t =
     map_option (\<lambda>inode. if in_key inode = None then set_inode i (inode\<lparr>in_key := key\<rparr>) t else t) (fmlookup (it_nodes t) i)"

definition bind_path :: "string \<Rightarrow> stats \<Rightarrow> inode_table \<Rightarrow> (nat \<times> inode_table) option" where
  "bind_path path st t =
     (let key = stats_key t st; previous = fmlookup (it_paths t) path in
      Option.bind (same_inode t key previous) (\<lambda>same.
      Option.bind (pick_inode key same t) (\<lambda>(i, t1).
      Option.bind (if previous \<noteq> None \<and> previous \<noteq> Some i then map_option snd (unbind path t1) else Some t1) (\<lambda>t2.
      Option.bind (adopt_key i key t2) (\<lambda>t3.
      Option.bind (attach i path t3) (\<lambda>t4. Some (i, t4)))))))"

definition acquire :: "nat \<Rightarrow> inode_table \<Rightarrow> unit result \<times> inode_table" where
  "acquire i t =
     (case fmlookup (it_nodes t) i of
        None \<Rightarrow> (Inl (fs_error_new Estale), t)
      | Some inode \<Rightarrow>
          (case checked_add (in_nlookup inode) 1 of
             None \<Rightarrow> (Inl (fs_error_new Eoverflow), t)
           | Some k \<Rightarrow> (Inr (), set_inode i (inode\<lparr>in_nlookup := k\<rparr>) t)))"

definition forget :: "nat \<Rightarrow> nat \<Rightarrow> inode_table \<Rightarrow> bool \<times> inode_table" where
  "forget i count t =
     (if i = 1 then (False, t)
      else (case fmlookup (it_nodes t) i of
        None \<Rightarrow> (False, t)
      | Some inode \<Rightarrow>
          let inode' = inode\<lparr>in_nlookup := in_nlookup inode - count\<rparr> in
          if in_nlookup inode' \<noteq> 0 then (False, set_inode i inode' t)
          else (True, drop_identity i (in_key inode)
                 (t\<lparr>it_nodes := fmdrop i (it_nodes t), it_paths := fold fmdrop (in_paths inode) (it_paths t)\<rparr>))))"

definition inside :: "string \<Rightarrow> string \<Rightarrow> bool" where
  "inside path parent \<longleftrightarrow> path = parent \<or> starts_with path (parent @ ''/'')"

fun unbind_all :: "string list \<Rightarrow> inode_table \<Rightarrow> inode_table option" where
  "unbind_all [] t = Some t"
| "unbind_all (p # ps) t = Option.bind (unbind p t) (\<lambda>(_, t'). unbind_all ps t')"

fun attach_all :: "string \<Rightarrow> string \<Rightarrow> (string \<times> nat) list \<Rightarrow> inode_table \<Rightarrow> inode_table option" where
  "attach_all src dst [] t = Some t"
| "attach_all src dst ((path, i) # ps) t =
     Option.bind (attach i (dst @ drop (length src) path) t) (attach_all src dst ps)"

definition moved_paths :: "((string, nat) fmap \<Rightarrow> string list) \<Rightarrow> string \<Rightarrow> inode_table \<Rightarrow> (string \<times> nat) list" where
  "moved_paths keys src t =
     concat (map (\<lambda>p. case fmlookup (it_paths t) p of None \<Rightarrow> [] | Some i \<Rightarrow> [(p, i)])
       (filter (\<lambda>p. inside p src) (keys (it_paths t))))"

definition inode_remap :: "((string, nat) fmap \<Rightarrow> string list) \<Rightarrow> string \<Rightarrow> string \<Rightarrow> inode_table \<Rightarrow> inode_table option" where
  "inode_remap keys src dst t =
     (if src = dst then Some t
      else
        let moved = moved_paths keys src t;
            replaced = filter (\<lambda>p. inside p dst) (keys (it_paths t))
        in Option.bind (unbind_all replaced t) (\<lambda>t1.
           Option.bind (unbind_all (map fst moved) t1) (attach_all src dst moved)))"

end
