(* ===== verification/Fuse_Inode_Safety.thy ===== *)
theory Fuse_Inode_Safety
  imports Fuse_Inodes
begin

text \<open>
  The table of node numbers: the invariant that ties paths, nodes and driver identities together, that
  no call panics, that a forgotten number never comes back, and what a rename does.
\<close>

section \<open>The invariant\<close>

text \<open>
  \<open>table_ok E t\<close> leaves out the requirement that a node with a key and a path has its identity listed for
  the nodes of \<open>E\<close>; a call that has given a key to a node, and not yet attached the path, is in such a state.
\<close>

definition table_ok :: "nat set \<Rightarrow> inode_table \<Rightarrow> bool" where
  "table_ok E t \<longleftrightarrow>
     (\<forall>p i. fmlookup (it_paths t) p = Some i \<longleftrightarrow> (\<exists>n. fmlookup (it_nodes t) i = Some n \<and> p \<in> set (in_paths n)))
     \<and> (\<forall>i n. fmlookup (it_nodes t) i = Some n \<longrightarrow> in_nodeid n = i \<and> 0 < i \<and> i < it_next t \<and> distinct (in_paths n))
     \<and> (\<forall>k i. fmlookup (it_identities t) k = Some i \<longrightarrow> (\<exists>n. fmlookup (it_nodes t) i = Some n \<and> in_key n = Some k \<and> in_paths n \<noteq> []))
     \<and> (\<forall>i n k. fmlookup (it_nodes t) i = Some n \<and> in_key n = Some k \<and> in_paths n \<noteq> [] \<and> i \<notin> E \<longrightarrow> fmlookup (it_identities t) k = Some i)
     \<and> fmlookup (it_nodes t) 1 \<noteq> None \<and> it_next t \<le> U64_MAX"

lemma table_okD:
  assumes "table_ok E t"
  shows "fmlookup (it_paths t) p = Some i \<longleftrightarrow> (\<exists>n. fmlookup (it_nodes t) i = Some n \<and> p \<in> set (in_paths n))"
    and "fmlookup (it_nodes t) i = Some n \<Longrightarrow> in_nodeid n = i \<and> 0 < i \<and> i < it_next t \<and> distinct (in_paths n)"
    and "fmlookup (it_identities t) k = Some i \<Longrightarrow> \<exists>n. fmlookup (it_nodes t) i = Some n \<and> in_key n = Some k \<and> in_paths n \<noteq> []"
    and "fmlookup (it_nodes t) i = Some n \<Longrightarrow> in_key n = Some k \<Longrightarrow> in_paths n \<noteq> [] \<Longrightarrow> i \<notin> E \<Longrightarrow> fmlookup (it_identities t) k = Some i"
    and "fmlookup (it_nodes t) 1 \<noteq> None" "it_next t \<le> U64_MAX"
  using assms unfolding table_ok_def by blast+

lemma table_ok_mono: "table_ok E t \<Longrightarrow> E \<subseteq> F \<Longrightarrow> table_ok F t"
  unfolding table_ok_def by blast

lemma table_ok_new: "table_ok {} (inode_table_new u)"
  by (auto simp: table_ok_def inode_table_new_def U64_MAX_def fmlookup_of_list split: if_splits)

lemma set_inode_simps [simp]:
  "it_nodes (set_inode i n t) = fmupd i n (it_nodes t)" "it_paths (set_inode i n t) = it_paths t"
  "it_identities (set_inode i n t) = it_identities t" "it_next (set_inode i n t) = it_next t"
  "it_use_driver_ino (set_inode i n t) = it_use_driver_ino t"
  by (simp_all add: set_inode_def)

lemma drop_identity_simps [simp]:
  "it_nodes (drop_identity i k t) = it_nodes t" "it_paths (drop_identity i k t) = it_paths t"
  "it_next (drop_identity i k t) = it_next t" "it_use_driver_ino (drop_identity i k t) = it_use_driver_ino t"
  by (auto simp: drop_identity_def split: option.splits)

lemma drop_identity_lookup:
  "fmlookup (it_identities (drop_identity i key t)) k =
     (if key = Some k \<and> fmlookup (it_identities t) k = Some i then None else fmlookup (it_identities t) k)"
  by (auto simp: drop_identity_def split: option.splits)

section \<open>Unbinding and attaching\<close>

definition without :: "string set \<Rightarrow> fuse_inode \<Rightarrow> fuse_inode" where
  "without P n = n\<lparr>in_paths := filter (\<lambda>p. p \<notin> P) (in_paths n)\<rparr>"

lemma without_fields [simp]:
  "in_key (without P n) = in_key n" "in_nlookup (without P n) = in_nlookup n" "in_nodeid (without P n) = in_nodeid n"
  "in_paths (without P n) = filter (\<lambda>p. p \<notin> P) (in_paths n)"
  by (simp_all add: without_def)

text \<open>The state after paths were taken away: what is left of the nodes, and no new identities.\<close>

definition stripped :: "string set \<Rightarrow> inode_table \<Rightarrow> inode_table \<Rightarrow> bool" where
  "stripped P t t' \<longleftrightarrow> table_ok {} t'
     \<and> (\<forall>q. fmlookup (it_paths t') q = (if q \<in> P then None else fmlookup (it_paths t) q))
     \<and> (\<forall>i. fmlookup (it_nodes t') i = map_option (without P) (fmlookup (it_nodes t) i))
     \<and> (\<forall>k i. fmlookup (it_identities t') k = Some i \<longrightarrow> fmlookup (it_identities t) k = Some i)
     \<and> it_next t' = it_next t \<and> it_use_driver_ino t' = it_use_driver_ino t"

lemma stripped_empty: "table_ok {} t \<Longrightarrow> stripped {} t t"
  by (simp add: stripped_def without_def option.map_ident_strong)

lemma without_absent: "p \<notin> set (in_paths n) \<Longrightarrow> without {p} n = n"
proof -
  assume "p \<notin> set (in_paths n)"
  then have "filter (\<lambda>q. q \<notin> {p}) (in_paths n) = in_paths n" by (auto intro: filter_True)
  then show ?thesis by (simp add: without_def)
qed

lemma without_without: "without Q (without P n) = without (P \<union> Q) n"
  by (auto simp: without_def intro: filter_cong)

lemma stripped_trans:
  assumes "stripped P t u" "stripped Q u v"
  shows "stripped (P \<union> Q) t v"
  using assms by (simp add: stripped_def option.map_comp comp_def without_without)

lemma unbind_strips:
  assumes ok: "table_ok {} t"
  shows "\<exists>r t'. unbind p t = Some (r, t') \<and> stripped {p} t t' \<and> r = fmlookup (it_paths t) p"
proof (cases "fmlookup (it_paths t) p")
  case None
  have "p \<notin> set (in_paths n)" if "fmlookup (it_nodes t) i = Some n" for i n
    using table_okD(1) [OF ok, of p] None that by auto
  then have "map_option (without {p}) (fmlookup (it_nodes t) i) = fmlookup (it_nodes t) i" for i
    by (cases "fmlookup (it_nodes t) i") (auto simp: without_absent)
  then show ?thesis using None ok by (auto simp: unbind_def stripped_def)
next
  case (Some i)
  then obtain n where n: "fmlookup (it_nodes t) i = Some n" "p \<in> set (in_paths n)" using table_okD(1) [OF ok] by blast
  let ?n = "without {p} n" and ?t = "(set_inode i (without {p} n) t)\<lparr>it_paths := fmdrop p (it_paths t)\<rparr>"
  let ?t' = "if in_paths ?n = [] then drop_identity i (in_key n) ?t else ?t"
  have run: "unbind p t = Some (Some i, ?t')" using Some n by (simp add: unbind_def Let_def without_def)
  have other: "p \<notin> set (in_paths m)" if "fmlookup (it_nodes t) j = Some m" "j \<noteq> i" for j m
    using table_okD(1) [OF ok, of p j] that Some by auto
  have nodes: "fmlookup (it_nodes ?t') j = map_option (without {p}) (fmlookup (it_nodes t) j)" for j
  proof (cases "j = i")
    case False
    have "without {p} m = m" if "fmlookup (it_nodes t) j = Some m" for m
      using other [OF that False] by (rule without_absent)
    then show ?thesis using False by (cases "fmlookup (it_nodes t) j") auto
  qed (simp add: n)
  have mine: "fmlookup (it_identities t) k = Some i" if "in_key n = Some k" for k
    using table_okD(4) [OF ok n(1) that] n(2) by (cases "in_paths n") auto
  have ids: "fmlookup (it_identities ?t') k = (if in_paths ?n = [] \<and> in_key n = Some k then None else fmlookup (it_identities t) k)" for k
    using mine by (simp add: drop_identity_lookup)
  have "table_ok {} ?t'"
    unfolding table_ok_def nodes ids
  proof (intro conjI allI impI)
    fix q j
    show "fmlookup (it_paths ?t') q = Some j \<longleftrightarrow> (\<exists>m. map_option (without {p}) (fmlookup (it_nodes t) j) = Some m \<and> q \<in> set (in_paths m))"
      using table_okD(1) [OF ok, of q j] by auto
  next
    fix j m assume "map_option (without {p}) (fmlookup (it_nodes t) j) = Some m"
    then obtain m' where "fmlookup (it_nodes t) j = Some m'" "m = without {p} m'" by auto
    then show "in_nodeid m = j" "0 < j" "j < it_next ?t'" "distinct (in_paths m)" using table_okD(2) [OF ok] by auto
  next
    fix k j assume k: "(if in_paths ?n = [] \<and> in_key n = Some k then None else fmlookup (it_identities t) k) = Some j"
    then have "fmlookup (it_identities t) k = Some j" by (simp split: if_splits)
    then obtain m where m: "fmlookup (it_nodes t) j = Some m" "in_key m = Some k" "in_paths m \<noteq> []"
      using table_okD(3) [OF ok] by blast
    have "in_paths (without {p} m) \<noteq> []"
    proof (cases "j = i")
      case True
      then show ?thesis using k m n(1) by (auto split: if_splits)
    next
      case False
      then have "without {p} m = m" using other [OF m(1)] without_absent by blast
      then show ?thesis using m(3) by simp
    qed
    then show "\<exists>m. map_option (without {p}) (fmlookup (it_nodes t) j) = Some m \<and> in_key m = Some k \<and> in_paths m \<noteq> []"
      using m by auto
  next
    fix j m k assume "map_option (without {p}) (fmlookup (it_nodes t) j) = Some m \<and> in_key m = Some k \<and> in_paths m \<noteq> [] \<and> j \<notin> {}"
    then obtain m' where m: "fmlookup (it_nodes t) j = Some m'" "m = without {p} m'" "in_key m' = Some k" "in_paths m \<noteq> []" by auto
    have "in_paths m' \<noteq> []" using m by auto
    then have "fmlookup (it_identities t) k = Some j" using table_okD(4) [OF ok m(1,3)] by simp
    moreover have "\<not> (in_paths ?n = [] \<and> in_key n = Some k)"
      using calculation mine [of k] n(1) m(1,2,4) by auto
    ultimately show "(if in_paths ?n = [] \<and> in_key n = Some k then None else fmlookup (it_identities t) k) = Some j" by simp
  qed (use table_okD(5,6) [OF ok] in auto)
  then have "stripped {p} t ?t'"
    unfolding stripped_def using nodes ids by (auto split: if_splits)
  then show ?thesis unfolding run Some by (intro exI conjI) (rule refl | assumption)+
qed

lemma unbind_all_strips:
  "table_ok {} t \<Longrightarrow> \<exists>t'. unbind_all ps t = Some t' \<and> stripped (set ps) t t'"
proof (induction ps arbitrary: t)
  case (Cons p ps)
  obtain r u where u: "unbind p t = Some (r, u)" "stripped {p} t u" using unbind_strips [OF Cons.prems] by blast
  have "table_ok {} u" using u(2) by (simp add: stripped_def)
  from Cons.IH [OF this] obtain v where v: "unbind_all ps u = Some v" "stripped (set ps) u v" by blast
  then show ?case using u(1) stripped_trans [OF u(2) v(2)] by simp
qed (simp add: stripped_empty)


lemma in_paths_same [simp]: "n\<lparr>in_paths := in_paths n\<rparr> = (n :: fuse_inode)"
  by (cases n) simp

definition attached :: "nat \<Rightarrow> string \<Rightarrow> fuse_inode \<Rightarrow> inode_table \<Rightarrow> inode_table \<Rightarrow> bool" where
  "attached i p n t t' \<longleftrightarrow> table_ok {} t'
     \<and> (\<forall>q. fmlookup (it_paths t') q = (if q = p then Some i else fmlookup (it_paths t) q))
     \<and> (\<forall>j. j \<noteq> i \<longrightarrow> fmlookup (it_nodes t') j = fmlookup (it_nodes t) j)
     \<and> fmlookup (it_nodes t') i = Some (n\<lparr>in_paths := if p \<in> set (in_paths n) then in_paths n else in_paths n @ [p]\<rparr>)
     \<and> (\<forall>k. fmlookup (it_identities t') k = (if in_key n = Some k then Some i else fmlookup (it_identities t) k))
     \<and> it_next t' = it_next t \<and> it_use_driver_ino t' = it_use_driver_ino t"

lemma attach_attaches:
  assumes ok: "table_ok {i} t" and n: "fmlookup (it_nodes t) i = Some n" and p: "fmlookup (it_paths t) p = None \<or> fmlookup (it_paths t) p = Some i"
    and key: "\<And>k j. in_key n = Some k \<Longrightarrow> fmlookup (it_identities t) k = Some j \<Longrightarrow> j = i"
  shows "\<exists>t'. attach i p t = Some t' \<and> attached i p n t t'"
proof -
  let ?n = "n\<lparr>in_paths := if p \<in> set (in_paths n) then in_paths n else in_paths n @ [p]\<rparr>"
  let ?t = "(set_inode i ?n t)\<lparr>it_paths := fmupd p i (it_paths t)\<rparr>"
  let ?t' = "case in_key n of None \<Rightarrow> ?t | Some k \<Rightarrow> ?t\<lparr>it_identities := fmupd k i (it_identities t)\<rparr>"
  have run: "attach i p t = Some ?t'" using n by (cases "in_key n") (simp_all add: attach_def Let_def)
  have fields: "it_nodes ?t' = fmupd i ?n (it_nodes t)" "it_paths ?t' = fmupd p i (it_paths t)" "it_next ?t' = it_next t"
    "it_use_driver_ino ?t' = it_use_driver_ino t" by (simp_all split: option.split)
  have ids: "fmlookup (it_identities ?t') k = (if in_key n = Some k then Some i else fmlookup (it_identities t) k)" for k
    by (simp split: option.split)
  have pn: "in_paths ?n \<noteq> []" "set (in_paths ?n) = insert p (set (in_paths n))" "distinct (in_paths ?n)" "in_key ?n = in_key n" "in_nodeid ?n = i"
    using table_okD(2) [OF ok n] by (auto simp: insert_absorb)
  have other: "p \<notin> set (in_paths m)" if "fmlookup (it_nodes t) j = Some m" "j \<noteq> i" for j m
    using table_okD(1) [OF ok, of p j] p that by auto
  have "table_ok {} ?t'"
    unfolding table_ok_def fields ids
  proof (intro conjI allI impI)
    fix q j
    show "fmlookup (fmupd p i (it_paths t)) q = Some j \<longleftrightarrow> (\<exists>m. fmlookup (fmupd i ?n (it_nodes t)) j = Some m \<and> q \<in> set (in_paths m))"
      using table_okD(1) [OF ok, of q j] n pn(2) other by (cases "q = p"; cases "j = i") auto
  next
    fix j m assume "fmlookup (fmupd i ?n (it_nodes t)) j = Some m"
    then show "in_nodeid m = j" "0 < j" "j < it_next t" "distinct (in_paths m)"
      using table_okD(2) [OF ok] table_okD(2) [OF ok n] pn by (auto split: if_splits)
  next
    fix k j assume k: "(if in_key n = Some k then Some i else fmlookup (it_identities t) k) = Some j"
    show "\<exists>m. fmlookup (fmupd i ?n (it_nodes t)) j = Some m \<and> in_key m = Some k \<and> in_paths m \<noteq> []"
    proof (cases "in_key n = Some k")
      case True
      then show ?thesis using k pn by simp
    next
      case False
      then obtain m where "fmlookup (it_nodes t) j = Some m" "in_key m = Some k" "in_paths m \<noteq> []"
        using k table_okD(3) [OF ok, of k j] by auto
      then show ?thesis using False n by auto
    qed
  next
    fix j m k assume m: "fmlookup (fmupd i ?n (it_nodes t)) j = Some m \<and> in_key m = Some k \<and> in_paths m \<noteq> [] \<and> j \<notin> {}"
    show "(if in_key n = Some k then Some i else fmlookup (it_identities t) k) = Some j"
    proof (cases "j = i")
      case True
      then show ?thesis using m pn(4) by auto
    next
      case False
      then have "fmlookup (it_identities t) k = Some j" using m table_okD(4) [OF ok, of j m k] by simp
      then show ?thesis using key [of k j] False by auto
    qed
  qed (use table_okD(5,6) [OF ok] n in auto)
  then have "attached i p n t ?t'"
    unfolding attached_def fields ids by simp
  then show ?thesis unfolding run by (intro exI conjI) (rule refl | assumption)+
qed


section \<open>Binding\<close>

text \<open>
  What a call may do to the set of nodes: it never brings back a number that was given out and is not
  in use, and moves the counter by at most one.
\<close>

definition keeps_numbers :: "inode_table \<Rightarrow> inode_table \<Rightarrow> bool" where
  "keeps_numbers t t' \<longleftrightarrow> it_next t \<le> it_next t' \<and> it_next t' \<le> it_next t + 1
     \<and> (\<forall>i. i < it_next t \<and> fmlookup (it_nodes t) i = None \<longrightarrow> fmlookup (it_nodes t') i = None)"

lemma keeps_numbers_refl [simp]: "keeps_numbers t t"
  by (simp add: keeps_numbers_def)

lemma keeps_numbers_same:
  "keeps_numbers t u \<Longrightarrow> it_next u' = it_next u \<Longrightarrow> (\<And>i. fmlookup (it_nodes u') i = None \<longleftrightarrow> fmlookup (it_nodes u) i = None) \<Longrightarrow>
   keeps_numbers t u'"
  by (simp add: keeps_numbers_def)

lemma keeps_numbers_stripped: "keeps_numbers t u \<Longrightarrow> stripped P u v \<Longrightarrow> keeps_numbers t v"
  by (rule keeps_numbers_same) (auto simp: stripped_def)

lemma keeps_numbers_attached:
  "keeps_numbers t u \<Longrightarrow> fmlookup (it_nodes u) i = Some m \<Longrightarrow> attached i p n u v \<Longrightarrow> keeps_numbers t v"
  by (rule keeps_numbers_same, assumption, simp add: attached_def, case_tac "ia = i") (simp_all add: attached_def)

text \<open>The node picked for a path, before the path is attached.\<close>

definition fits :: "nat \<Rightarrow> (nat \<times> nat) option \<Rightarrow> fuse_inode \<Rightarrow> inode_table \<Rightarrow> bool" where
  "fits i key n t \<longleftrightarrow> fmlookup (it_nodes t) i = Some n
     \<and> (\<forall>k j. (in_key n = Some k \<or> in_key n = None \<and> key = Some k) \<longrightarrow> fmlookup (it_identities t) k = Some j \<longrightarrow> j = i)"

lemma fresh_fits:
  assumes ok: "table_ok {} t" and free: "it_next t < U64_MAX" and none: "Option.bind key (fmlookup (it_identities t)) = None"
  shows "\<exists>i t1 n. fresh_inode key t = Some (i, t1) \<and> table_ok {} t1 \<and> fits i key n t1 \<and> it_paths t1 = it_paths t \<and> keeps_numbers t t1"
proof -
  let ?n = "\<lparr>in_nodeid = it_next t, in_key = key, in_nlookup = 0, in_paths = []\<rparr>"
  let ?t = "set_inode (it_next t) ?n (t\<lparr>it_next := it_next t + 1\<rparr>)"
  have new: "fmlookup (it_nodes t) (it_next t) = None"
    using table_okD(2) [OF ok, of "it_next t"] by (cases "fmlookup (it_nodes t) (it_next t)") auto
  have "table_ok {} ?t"
    unfolding table_ok_def
  proof (intro conjI allI impI)
    fix p i show "fmlookup (it_paths ?t) p = Some i \<longleftrightarrow> (\<exists>n. fmlookup (it_nodes ?t) i = Some n \<and> p \<in> set (in_paths n))"
      using table_okD(1) [OF ok, of p i] new by auto
  next
    fix i n assume "fmlookup (it_nodes ?t) i = Some n"
    then show "in_nodeid n = i" "0 < i" "i < it_next ?t" "distinct (in_paths n)"
      using table_okD(2) [OF ok, of i n] table_okD(2) [OF ok, of 1] table_okD(5) [OF ok] by (auto split: if_splits)
  next
    fix k i assume "fmlookup (it_identities ?t) k = Some i"
    then have "\<exists>n. fmlookup (it_nodes t) i = Some n \<and> in_key n = Some k \<and> in_paths n \<noteq> []" using table_okD(3) [OF ok] by simp
    then show "\<exists>n. fmlookup (it_nodes ?t) i = Some n \<and> in_key n = Some k \<and> in_paths n \<noteq> []" using new by auto
  next
    fix i n k assume "fmlookup (it_nodes ?t) i = Some n \<and> in_key n = Some k \<and> in_paths n \<noteq> [] \<and> i \<notin> {}"
    then show "fmlookup (it_identities ?t) k = Some i" using table_okD(4) [OF ok, of i n k] by (auto split: if_splits)
  qed (use table_okD(5) [OF ok] free in auto)
  moreover have "fits (it_next t) key ?n ?t" using none by (auto simp: fits_def)
  moreover have "keeps_numbers t ?t" by (simp add: keeps_numbers_def)
  ultimately show ?thesis using free by (auto simp: fresh_inode_def)
qed

lemma pick_fits:
  assumes ok: "table_ok {} t" and free: "it_next t < U64_MAX" and same: "same_inode t key (fmlookup (it_paths t) p) = Some same"
  shows "\<exists>i t1 n. pick_inode key same t = Some (i, t1) \<and> table_ok {} t1 \<and> fits i key n t1 \<and> it_paths t1 = it_paths t \<and> keeps_numbers t t1"
proof (cases "Option.bind key (fmlookup (it_identities t))")
  case (Some i)
  then obtain k where k: "key = Some k" "fmlookup (it_identities t) k = Some i" by (cases key) auto
  obtain n where n: "fmlookup (it_nodes t) i = Some n" "in_key n = Some k" using table_okD(3) [OF ok k(2)] by blast
  then have "fits i key n t" using k by (simp add: fits_def)
  then show ?thesis using ok Some by (auto simp: pick_inode_def)
next
  case none: None
  show ?thesis
  proof (cases same)
    case None
    then show ?thesis using fresh_fits [OF ok free none] none by (simp add: pick_inode_def)
  next
    case (Some i)
    obtain j where j: "fmlookup (it_paths t) p = Some j" using same Some by (cases "fmlookup (it_paths t) p") (simp_all add: same_inode_def)
    obtain n where n: "fmlookup (it_paths t) p = Some i" "fmlookup (it_nodes t) i = Some n" "in_key n = None \<or> in_key n = key"
      using same Some j by (cases "fmlookup (it_nodes t) j") (simp_all add: same_inode_def split: if_splits)
    have "p \<in> set (in_paths n)" using table_okD(1) [OF ok, of p i] n by auto
    then have "in_paths n \<noteq> []" by auto
    have "fits i key n t"
      unfolding fits_def
    proof (intro conjI allI impI)
      fix k j assume k: "in_key n = Some k \<or> in_key n = None \<and> key = Some k" and j: "fmlookup (it_identities t) k = Some j"
      then have "key = Some k" using n(3) by auto
      then show "j = i" using none j by simp
    qed (rule n(2))
    then show ?thesis using ok Some none by (auto simp: pick_inode_def)
  qed
qed

lemma adopt_adopts:
  assumes ok: "table_ok {} t" and fit: "fits i key n t"
  shows "\<exists>t' m. adopt_key i key t = Some t' \<and> table_ok {i} t' \<and> fmlookup (it_nodes t') i = Some m \<and> it_paths t' = it_paths t
    \<and> (\<forall>k j. in_key m = Some k \<longrightarrow> fmlookup (it_identities t') k = Some j \<longrightarrow> j = i)
    \<and> it_next t' = it_next t \<and> (\<forall>j. fmlookup (it_nodes t') j = None \<longleftrightarrow> fmlookup (it_nodes t) j = None)"
proof (cases "in_key n")
  case (Some k)
  then show ?thesis using fit table_ok_mono [OF ok, of "{i}"] by (auto simp: adopt_key_def fits_def)
next
  case None
  let ?m = "n\<lparr>in_key := key\<rparr>"
  let ?t = "set_inode i ?m t"
  have n: "fmlookup (it_nodes t) i = Some n" using fit by (simp add: fits_def)
  have "table_ok {i} ?t"
    unfolding table_ok_def
  proof (intro conjI allI impI)
    fix p j show "fmlookup (it_paths ?t) p = Some j \<longleftrightarrow> (\<exists>n. fmlookup (it_nodes ?t) j = Some n \<and> p \<in> set (in_paths n))"
      using table_okD(1) [OF ok, of p j] n by auto
  next
    fix j m assume "fmlookup (it_nodes ?t) j = Some m"
    then show "in_nodeid m = j" "0 < j" "j < it_next ?t" "distinct (in_paths m)"
      using table_okD(2) [OF ok, of j m] table_okD(2) [OF ok n] by (auto split: if_splits)
  next
    fix k j assume "fmlookup (it_identities ?t) k = Some j"
    then have "\<exists>m. fmlookup (it_nodes t) j = Some m \<and> in_key m = Some k \<and> in_paths m \<noteq> []" using table_okD(3) [OF ok] by simp
    then show "\<exists>m. fmlookup (it_nodes ?t) j = Some m \<and> in_key m = Some k \<and> in_paths m \<noteq> []" using n None by auto
  next
    fix j m k assume "fmlookup (it_nodes ?t) j = Some m \<and> in_key m = Some k \<and> in_paths m \<noteq> [] \<and> j \<notin> {i}"
    then show "fmlookup (it_identities ?t) k = Some j" using table_okD(4) [OF ok, of j m k] by auto
  qed (use table_okD(5,6) [OF ok] in auto)
  moreover have "adopt_key i key t = Some ?t" using n None by (simp add: adopt_key_def)
  ultimately show ?thesis using fit None n unfolding fits_def by auto
qed


lemma bind_binds:
  assumes ok: "table_ok {} t" and free: "it_next t < U64_MAX"
  shows "\<exists>i t'. bind_path p st t = Some (i, t') \<and> table_ok {} t' \<and> keeps_numbers t t' \<and> fmlookup (it_nodes t') i \<noteq> None
    \<and> (\<forall>q. fmlookup (it_paths t') q = (if q = p then Some i else fmlookup (it_paths t) q))"
proof -
  let ?key = "stats_key t st" and ?prev = "fmlookup (it_paths t) p"
  have "\<exists>same. same_inode t ?key ?prev = Some same"
  proof (cases ?prev)
    case (Some j)
    then obtain n where "fmlookup (it_nodes t) j = Some n" using table_okD(1) [OF ok] by blast
    then show ?thesis using Some by (simp add: same_inode_def)
  qed (simp add: same_inode_def)
  then obtain same where same: "same_inode t ?key ?prev = Some same" by blast
  obtain i t1 n where pick: "pick_inode ?key same t = Some (i, t1)" "table_ok {} t1" "fits i ?key n t1"
    "it_paths t1 = it_paths t" "keeps_numbers t t1" using pick_fits [OF ok free same] by blast
  let ?un = "if ?prev \<noteq> None \<and> ?prev \<noteq> Some i then map_option snd (unbind p t1) else Some t1"
  have "\<exists>t2 m. ?un = Some t2 \<and> table_ok {} t2 \<and> fits i ?key m t2 \<and> keeps_numbers t t2
      \<and> (fmlookup (it_paths t2) p = None \<or> fmlookup (it_paths t2) p = Some i)
      \<and> (\<forall>q. q \<noteq> p \<longrightarrow> fmlookup (it_paths t2) q = fmlookup (it_paths t) q)"
  proof (cases "?prev \<noteq> None \<and> ?prev \<noteq> Some i")
    case True
    obtain r t2 where u: "unbind p t1 = Some (r, t2)" "stripped {p} t1 t2" using unbind_strips [OF pick(2)] by blast
    have f: "fits i ?key (without {p} n) t2" using pick(3) u(2) by (auto simp: fits_def stripped_def)
    have "?un = Some t2" using True u(1) by simp
    moreover have "table_ok {} t2" "fmlookup (it_paths t2) p = None" "\<forall>q. q \<noteq> p \<longrightarrow> fmlookup (it_paths t2) q = fmlookup (it_paths t) q"
      using u(2) pick(4) by (simp_all add: stripped_def)
    ultimately show ?thesis using f keeps_numbers_stripped [OF pick(5) u(2)] by blast
  next
    case False
    then have "?un = Some t1" by (rule if_not_P)
    moreover have "?prev = None \<or> ?prev = Some i" using False by blast
    ultimately show ?thesis using pick by metis
  qed
  then obtain t2 m where un: "?un = Some t2" "table_ok {} t2" "fits i ?key m t2" "keeps_numbers t t2"
    "fmlookup (it_paths t2) p = None \<or> fmlookup (it_paths t2) p = Some i"
    "\<forall>q. q \<noteq> p \<longrightarrow> fmlookup (it_paths t2) q = fmlookup (it_paths t) q" by blast
  obtain t3 m3 where ad: "adopt_key i ?key t2 = Some t3" "table_ok {i} t3" "fmlookup (it_nodes t3) i = Some m3" "it_paths t3 = it_paths t2"
    "\<forall>k j. in_key m3 = Some k \<longrightarrow> fmlookup (it_identities t3) k = Some j \<longrightarrow> j = i" "it_next t3 = it_next t2"
    "\<forall>j. fmlookup (it_nodes t3) j = None \<longleftrightarrow> fmlookup (it_nodes t2) j = None"
    using adopt_adopts [OF un(2,3)] by blast
  obtain t4 where at4: "attach i p t3 = Some t4" "attached i p m3 t3 t4"
    using attach_attaches [OF ad(2,3), of p] un(5) ad(4,5) by auto
  have num: "keeps_numbers t t3" by (rule keeps_numbers_same [OF un(4) ad(6)]) (use ad(7) in blast)
  have "bind_path p st t = Some (i, t4)"
    unfolding bind_path_def Let_def same option.simps(3) bind.bind_lunit pick(1) prod.case un(1) ad(1) at4(1) by simp
  moreover have "fmlookup (it_paths t4) q = (if q = p then Some i else fmlookup (it_paths t) q)" for q
    using at4(2) ad(4) un(6) by (simp add: attached_def)
  moreover have "table_ok {} t4" "fmlookup (it_nodes t4) i \<noteq> None" using at4(2) by (simp_all add: attached_def)
  ultimately show ?thesis using keeps_numbers_attached [OF num ad(3) at4(2)] by blast
qed

section \<open>Counting lookups\<close>

lemma table_ok_nlookup:
  assumes ok: "table_ok {} t" and n: "fmlookup (it_nodes t) i = Some n"
  shows "table_ok {} (set_inode i (n\<lparr>in_nlookup := k\<rparr>) t)"
  unfolding table_ok_def
proof (intro conjI allI impI)
  let ?t = "set_inode i (n\<lparr>in_nlookup := k\<rparr>) t"
  fix p j show "fmlookup (it_paths ?t) p = Some j \<longleftrightarrow> (\<exists>m. fmlookup (it_nodes ?t) j = Some m \<and> p \<in> set (in_paths m))"
    using table_okD(1) [OF ok, of p j] n by auto
next
  let ?t = "set_inode i (n\<lparr>in_nlookup := k\<rparr>) t"
  fix j m assume "fmlookup (it_nodes ?t) j = Some m"
  then show "in_nodeid m = j" "0 < j" "j < it_next ?t" "distinct (in_paths m)"
    using table_okD(2) [OF ok, of j m] table_okD(2) [OF ok n] by (auto split: if_splits)
next
  let ?t = "set_inode i (n\<lparr>in_nlookup := k\<rparr>) t"
  fix key j assume "fmlookup (it_identities ?t) key = Some j"
  then have "\<exists>m. fmlookup (it_nodes t) j = Some m \<and> in_key m = Some key \<and> in_paths m \<noteq> []" using table_okD(3) [OF ok] by simp
  then show "\<exists>m. fmlookup (it_nodes ?t) j = Some m \<and> in_key m = Some key \<and> in_paths m \<noteq> []" using n by auto
next
  let ?t = "set_inode i (n\<lparr>in_nlookup := k\<rparr>) t"
  fix j m key assume "fmlookup (it_nodes ?t) j = Some m \<and> in_key m = Some key \<and> in_paths m \<noteq> [] \<and> j \<notin> {}"
  then show "fmlookup (it_identities ?t) key = Some j"
    using table_okD(4) [OF ok, of j m key] table_okD(4) [OF ok n, of key] by (auto split: if_splits)
qed (use table_okD(5,6) [OF ok] in auto)

lemma fold_fmdrop: "fmlookup (fold fmdrop ps m) q = (if q \<in> set ps then None else fmlookup m q)"
  by (induction ps arbitrary: m) auto

lemma table_ok_removed:
  assumes ok: "table_ok {} t" and n: "fmlookup (it_nodes t) i = Some n" and "i \<noteq> 1"
  shows "table_ok {} (drop_identity i (in_key n) (t\<lparr>it_nodes := fmdrop i (it_nodes t), it_paths := fold fmdrop (in_paths n) (it_paths t)\<rparr>))"
    (is "table_ok {} ?t")
  unfolding table_ok_def
proof (intro conjI allI impI)
  fix p j
  have "fmlookup (it_paths t) p = Some i \<longleftrightarrow> p \<in> set (in_paths n)" using table_okD(1) [OF ok, of p i] n by simp
  then show "fmlookup (it_paths ?t) p = Some j \<longleftrightarrow> (\<exists>m. fmlookup (it_nodes ?t) j = Some m \<and> p \<in> set (in_paths m))"
    using table_okD(1) [OF ok, of p j] by (auto simp: fold_fmdrop)
next
  fix j m assume "fmlookup (it_nodes ?t) j = Some m"
  then show "in_nodeid m = j" "0 < j" "j < it_next ?t" "distinct (in_paths m)"
    using table_okD(2) [OF ok, of j m] by (auto split: if_splits)
next
  fix key j assume "fmlookup (it_identities ?t) key = Some j"
  then have key: "fmlookup (it_identities t) key = Some j" "\<not> (in_key n = Some key \<and> j = i)"
    by (auto simp: drop_identity_lookup split: if_splits)
  then obtain m where m: "fmlookup (it_nodes t) j = Some m" "in_key m = Some key" "in_paths m \<noteq> []" using table_okD(3) [OF ok] by blast
  then have "j \<noteq> i" using key(2) n by auto
  then show "\<exists>m. fmlookup (it_nodes ?t) j = Some m \<and> in_key m = Some key \<and> in_paths m \<noteq> []" using m by auto
next
  fix j m key assume "fmlookup (it_nodes ?t) j = Some m \<and> in_key m = Some key \<and> in_paths m \<noteq> [] \<and> j \<notin> {}"
  then show "fmlookup (it_identities ?t) key = Some j"
    using table_okD(4) [OF ok, of j m key] by (auto simp: drop_identity_lookup split: if_splits)
qed (use table_okD(5,6) [OF ok] assms(3) in auto)

lemma forget_keeps:
  assumes ok: "table_ok {} t" and run: "forget i c t = (b, t')"
  shows "table_ok {} t' \<and> keeps_numbers t t' \<and> (b \<longrightarrow> fmlookup (it_nodes t') i = None \<and> i < it_next t')"
proof (cases "i = 1 \<or> fmlookup (it_nodes t) i = None")
  case False
  then obtain n where n: "fmlookup (it_nodes t) i = Some n" "i \<noteq> 1" by auto
  then have "i < it_next t" using table_okD(2) [OF ok] by blast
  then show ?thesis
    using run n table_ok_nlookup [OF ok n(1)] table_ok_removed [OF ok n]
    by (auto simp: forget_def Let_def keeps_numbers_def split: if_splits)
next
  case True
  then have "b = False" "t' = t" using run by (auto simp: forget_def split: if_splits)
  then show ?thesis using ok by simp
qed

lemma acquire_keeps:
  assumes ok: "table_ok {} t" and run: "acquire i t = (r, t')"
  shows "table_ok {} t' \<and> keeps_numbers t t'"
  using run ok table_ok_nlookup [OF ok]
  by (auto simp: acquire_def keeps_numbers_def checked_add_def split: option.splits if_splits)


section \<open>Renaming\<close>

definition node_meta :: "inode_table \<Rightarrow> nat \<Rightarrow> ((nat \<times> nat) option \<times> nat) option" where
  "node_meta t i = map_option (\<lambda>n. (in_key n, in_nlookup n)) (fmlookup (it_nodes t) i)"

lemma stripped_meta: "stripped P t t' \<Longrightarrow> node_meta t' = node_meta t"
  by (auto simp: stripped_def node_meta_def option.map_comp comp_def fun_eq_iff)

lemma attached_meta: "attached i p n t t' \<Longrightarrow> fmlookup (it_nodes t) i = Some n \<Longrightarrow> node_meta t' = node_meta t"
proof
  fix j assume "attached i p n t t'" "fmlookup (it_nodes t) i = Some n"
  then show "node_meta t' j = node_meta t j" by (cases "j = i") (simp_all add: attached_def node_meta_def)
qed

text \<open>
  Nodes that paths can be attached to, one after the other: an identity in the table that equals the key of
  a node is that node's, and no two of the nodes have the same key.
\<close>

definition attachable :: "nat set \<Rightarrow> inode_table \<Rightarrow> bool" where
  "attachable I t \<longleftrightarrow> (\<forall>i \<in> I. fmlookup (it_nodes t) i \<noteq> None)
     \<and> (\<forall>i \<in> I. \<forall>k c j. node_meta t i = Some (Some k, c) \<longrightarrow> fmlookup (it_identities t) k = Some j \<longrightarrow> j = i)
     \<and> (\<forall>i \<in> I. \<forall>j \<in> I. \<forall>k c d. node_meta t i = Some (Some k, c) \<longrightarrow> node_meta t j = Some (Some k, d) \<longrightarrow> i = j)"

lemma attached_ids:
  "attached i p n t t' \<Longrightarrow> fmlookup (it_identities t') k = (if in_key n = Some k then Some i else fmlookup (it_identities t) k)"
  unfolding attached_def by blast

lemma attachable_attached:
  assumes a: "attachable I t" and i: "i \<in> I" and n: "fmlookup (it_nodes t) i = Some n" and at1: "attached i p n t t'"
  shows "attachable I t'"
proof -
  note meta = attached_meta [OF at1 n]
  have "fmlookup (it_nodes t') j \<noteq> None" if "j \<in> I" for j
    using a that at1 by (cases "j = i") (auto simp: attachable_def attached_def)
  moreover have "j' = j" if j: "j \<in> I" "node_meta t j = Some (Some k, c)" "fmlookup (it_identities t') k = Some j'" for j k c j'
  proof (cases "in_key n = Some k")
    case True
    then have "node_meta t i = Some (Some k, in_nlookup n)" using n by (simp add: node_meta_def)
    then have "j = i" using a i j unfolding attachable_def by blast
    then show ?thesis using j(3) attached_ids [OF at1] True by simp
  next
    case False
    then have "fmlookup (it_identities t) k = Some j'" using j(3) attached_ids [OF at1] by simp
    then show ?thesis using a j unfolding attachable_def by blast
  qed
  ultimately show ?thesis using a unfolding attachable_def meta by blast
qed

lemma attach_all_attaches:
  assumes "table_ok {} t" "attachable I t" "\<forall>(p, i) \<in> set ms. i \<in> I" "distinct (map (\<lambda>(p, i). dst @ drop (length src) p) ms)"
    and "\<forall>(p, i) \<in> set ms. fmlookup (it_paths t) (dst @ drop (length src) p) = None"
  shows "\<exists>t'. attach_all src dst ms t = Some t' \<and> table_ok {} t' \<and> node_meta t' = node_meta t \<and> it_next t' = it_next t
    \<and> (\<forall>q. (\<forall>(p, i) \<in> set ms. q \<noteq> dst @ drop (length src) p) \<longrightarrow> fmlookup (it_paths t') q = fmlookup (it_paths t) q)
    \<and> (\<forall>(p, i) \<in> set ms. fmlookup (it_paths t') (dst @ drop (length src) p) = Some i)"
  using assms
proof (induction ms arbitrary: t)
  case (Cons pi ms)
  obtain p i where pi: "pi = (p, i)" by (cases pi)
  let ?new = "dst @ drop (length src) p"
  have i: "i \<in> I" "fmlookup (it_paths t) ?new = None" using Cons.prems pi by auto
  obtain n where n: "fmlookup (it_nodes t) i = Some n" using Cons.prems(2) i(1) by (auto simp: attachable_def)
  have "j = i" if "in_key n = Some k" "fmlookup (it_identities t) k = Some j" for k j
  proof -
    have "node_meta t i = Some (Some k, in_nlookup n)" using n that by (simp add: node_meta_def)
    then show ?thesis using Cons.prems(2) i(1) that(2) unfolding attachable_def by blast
  qed
  then obtain u where u: "attach i ?new t = Some u" "attached i ?new n t u"
    using attach_attaches [OF table_ok_mono [OF Cons.prems(1)] n, of ?new] i(2) by blast
  have paths: "fmlookup (it_paths u) q = (if q = ?new then Some i else fmlookup (it_paths t) q)" for q
    using u(2) by (simp add: attached_def)
  have fresh: "\<forall>(q, j) \<in> set ms. dst @ drop (length src) q \<noteq> ?new" using Cons.prems(4) pi by force
  have "\<forall>(q, j) \<in> set ms. fmlookup (it_paths u) (dst @ drop (length src) q) = None"
    using Cons.prems(5) fresh by (auto simp: pi paths)
  then obtain v where v: "attach_all src dst ms u = Some v" "table_ok {} v" "node_meta v = node_meta u" "it_next v = it_next u"
    "\<forall>q. (\<forall>(p, i) \<in> set ms. q \<noteq> dst @ drop (length src) p) \<longrightarrow> fmlookup (it_paths v) q = fmlookup (it_paths u) q"
    "\<forall>(p, i) \<in> set ms. fmlookup (it_paths v) (dst @ drop (length src) p) = Some i"
    using Cons.IH [OF _ attachable_attached [OF Cons.prems(2) i(1) n u(2)]] u(2) Cons.prems(3,4) pi by (auto simp: attached_def)
  have "fmlookup (it_paths v) ?new = Some i"
  proof -
    have "\<forall>(q, j) \<in> set ms. ?new \<noteq> dst @ drop (length src) q" using fresh by fastforce
    then show ?thesis using v(5) paths by simp
  qed
  moreover have "attach_all src dst (pi # ms) t = Some v" using pi u(1) v(1) by simp
  moreover have "it_next v = it_next t" "node_meta v = node_meta t"
    using v(3,4) u(2) attached_meta [OF u(2) n] by (simp_all add: attached_def)
  moreover have "fmlookup (it_paths v) q = fmlookup (it_paths t) q" if "\<forall>(p, i) \<in> set (pi # ms). q \<noteq> dst @ drop (length src) p" for q
    using that v(5) paths pi by auto
  ultimately show ?case using v(2,6) pi by auto
qed simp


definition lists_paths :: "((string, nat) fmap \<Rightarrow> string list) \<Rightarrow> bool" where
  "lists_paths keys \<longleftrightarrow> (\<forall>m. distinct (keys m) \<and> set (keys m) = fmdom' m)"

lemma inside_split: "inside p src \<Longrightarrow> src @ drop (length src) p = p"
  by (auto simp: inside_def starts_with_prefix prefix_def)

lemma inside_moved: "inside p src \<Longrightarrow> inside (dst @ drop (length src) p) dst"
  by (auto simp: inside_def starts_with_prefix prefix_def)

lemma inside_rest: "inside p src \<Longrightarrow> p = src @ rest \<Longrightarrow> inside (dst @ rest) dst"
  using inside_moved [of p src dst] by simp

lemma moved_list:
  assumes "lists_paths keys"
  shows "(p, i) \<in> set (moved_paths keys src t) \<longleftrightarrow> fmlookup (it_paths t) p = Some i \<and> inside p src"
    "distinct (map fst (moved_paths keys src t))" "distinct (map (\<lambda>(p, i). dst @ drop (length src) p) (moved_paths keys src t))"
proof -
  let ?ms = "moved_paths keys src t"
  have keys: "distinct (keys (it_paths t))" "set (keys (it_paths t)) = fmdom' (it_paths t)" using assms(1) by (simp_all add: lists_paths_def)
  show mem: "(p, i) \<in> set ?ms \<longleftrightarrow> fmlookup (it_paths t) p = Some i \<and> inside p src" for p i
    using keys(2) by (auto simp: moved_paths_def fmlookup_dom'_iff split: option.splits)
  have "map fst ?ms = filter (\<lambda>p. inside p src) (keys (it_paths t))"
  proof -
    have "map fst (concat (map (\<lambda>p. case fmlookup (it_paths t) p of None \<Rightarrow> [] | Some i \<Rightarrow> [(p, i)]) ps)) = ps"
      if "set ps \<subseteq> fmdom' (it_paths t)" for ps
      using that by (induction ps) (auto simp: fmlookup_dom'_iff)
    then show ?thesis using keys(2) by (auto simp: moved_paths_def)
  qed
  then show "distinct (map fst ?ms)" using keys(1) by simp
  have "inj_on (\<lambda>p. dst @ drop (length src) p) (set (map fst ?ms))"
  proof (rule inj_onI)
    fix p q assume "p \<in> set (map fst ?ms)" "q \<in> set (map fst ?ms)" "dst @ drop (length src) p = dst @ drop (length src) q"
    moreover from this have "inside p src" "inside q src" using mem by auto
    ultimately show "p = q" using inside_split by (metis same_append_eq)
  qed
  then have "distinct (map (\<lambda>p. dst @ drop (length src) p) (map fst ?ms))" using \<open>distinct (map fst ?ms)\<close> by (simp only: distinct_map)
  then show "distinct (map (\<lambda>(p, i). dst @ drop (length src) p) ?ms)" by (simp add: comp_def case_prod_unfold)
qed

lemma remap_remaps:
  assumes ok: "table_ok {} t" and keys: "lists_paths keys"
  shows "\<exists>t'. inode_remap keys src dst t = Some t' \<and> table_ok {} t' \<and> node_meta t' = node_meta t \<and> it_next t' = it_next t
    \<and> (src \<noteq> dst \<longrightarrow>
        (\<forall>p i. fmlookup (it_paths t) p = Some i \<longrightarrow> inside p src \<longrightarrow> fmlookup (it_paths t') (dst @ drop (length src) p) = Some i)
        \<and> (\<forall>q. (\<forall>p. fmlookup (it_paths t) p \<noteq> None \<longrightarrow> inside p src \<longrightarrow> q \<noteq> dst @ drop (length src) p) \<longrightarrow>
            fmlookup (it_paths t') q = (if inside q src \<or> inside q dst then None else fmlookup (it_paths t) q)))"
proof (cases "src = dst")
  case False
  let ?ms = "moved_paths keys src t"
  let ?rs = "filter (\<lambda>p. inside p dst) (keys (it_paths t))"
  note ms = moved_list [OF keys, where t = t and src = src]
  obtain t1 where t1: "unbind_all ?rs t = Some t1" "stripped (set ?rs) t t1" using unbind_all_strips [OF ok] by blast
  then have "table_ok {} t1" by (simp add: stripped_def)
  then obtain t2 where t2: "unbind_all (map fst ?ms) t1 = Some t2" "stripped (set (map fst ?ms)) t1 t2" using unbind_all_strips by blast
  let ?P = "set ?rs \<union> set (map fst ?ms)" and ?I = "snd ` set ?ms"
  have st: "stripped ?P t t2" by (rule stripped_trans [OF t1(2) t2(2)])
  have ok2: "table_ok {} t2" and ids: "\<And>k i. fmlookup (it_identities t2) k = Some i \<Longrightarrow> fmlookup (it_identities t) k = Some i"
    using st unfolding stripped_def by blast+
  have P: "q \<in> ?P \<longleftrightarrow> fmlookup (it_paths t) q \<noteq> None \<and> (inside q src \<or> inside q dst)" for q
    using keys ms(1) by (force simp: lists_paths_def fmlookup_dom'_iff image_iff)
  have paths2: "fmlookup (it_paths t2) q = (if inside q src \<or> inside q dst then None else fmlookup (it_paths t) q)" for q
    using st P [of q] unfolding stripped_def by auto
  have owner: "fmlookup (it_identities t) k = Some i" if i: "i \<in> ?I" "node_meta t i = Some (Some k, c)" for i k c
  proof -
    obtain p n where "fmlookup (it_paths t) p = Some i" "fmlookup (it_nodes t) i = Some n" "in_key n = Some k"
      using i ms(1) by (auto simp: node_meta_def)
    moreover from this have "in_paths n \<noteq> []" using table_okD(1) [OF ok, of p i] by auto
    ultimately show ?thesis using table_okD(4) [OF ok] by blast
  qed
  have meta: "node_meta t2 = node_meta t" by (rule stripped_meta [OF st])
  have live: "fmlookup (it_nodes t2) i \<noteq> None" if i: "i \<in> ?I" for i
  proof -
    obtain p where "fmlookup (it_paths t) p = Some i" using i ms(1) by auto
    then obtain n where "fmlookup (it_nodes t) i = Some n" using table_okD(1) [OF ok] by blast
    then show ?thesis using st by (simp add: stripped_def)
  qed
  have "j = i" if "i \<in> ?I" "node_meta t i = Some (Some k, c)" "fmlookup (it_identities t2) k = Some j" for i k c j
    using owner [OF that(1,2)] ids [OF that(3)] by simp
  moreover have "i = j" if "i \<in> ?I" "j \<in> ?I" "node_meta t i = Some (Some k, c)" "node_meta t j = Some (Some k, d)" for i j k c d
    using owner [OF that(1,3)] owner [OF that(2,4)] by simp
  ultimately have att: "attachable ?I t2" unfolding attachable_def meta using live by blast
  have free: "\<forall>(p, i) \<in> set ?ms. fmlookup (it_paths t2) (dst @ drop (length src) p) = None"
    using ms(1) inside_moved by (auto simp: paths2)
  have mem: "\<forall>(p, i) \<in> set ?ms. i \<in> ?I" by force
  obtain t3 where t3: "attach_all src dst ?ms t2 = Some t3" "table_ok {} t3" "node_meta t3 = node_meta t2" "it_next t3 = it_next t2"
    "\<forall>q. (\<forall>(p, i) \<in> set ?ms. q \<noteq> dst @ drop (length src) p) \<longrightarrow> fmlookup (it_paths t3) q = fmlookup (it_paths t2) q"
    "\<forall>(p, i) \<in> set ?ms. fmlookup (it_paths t3) (dst @ drop (length src) p) = Some i"
    using attach_all_attaches [OF ok2 att mem ms(3) free] by blast
  have "inode_remap keys src dst t = Some t3"
    using False t1(1) t2(1) t3(1) by (simp add: inode_remap_def Let_def)
  moreover have "it_next t3 = it_next t" using t3(4) st by (simp add: stripped_def)
  moreover have "fmlookup (it_paths t3) (dst @ drop (length src) p) = Some i" if "fmlookup (it_paths t) p = Some i" "inside p src" for p i
    using t3(6) that ms(1) by blast
  moreover have "fmlookup (it_paths t3) q = (if inside q src \<or> inside q dst then None else fmlookup (it_paths t) q)"
    if q: "\<forall>p. fmlookup (it_paths t) p \<noteq> None \<longrightarrow> inside p src \<longrightarrow> q \<noteq> dst @ drop (length src) p" for q
  proof -
    have "\<forall>(p, i) \<in> set ?ms. q \<noteq> dst @ drop (length src) p" using q ms(1) by auto
    then show ?thesis using t3(5) paths2 by simp
  qed
  ultimately show ?thesis using t3(2,3) meta by auto
qed (use ok in \<open>simp add: inode_remap_def\<close>)


section \<open>Runs\<close>

datatype fuse_call =
    F_Bind string stats
  | F_Acquire nat
  | F_Unbind string
  | F_Forget nat nat
  | F_Remap string string

definition fuse_exec :: "((string, nat) fmap \<Rightarrow> string list) \<Rightarrow> fuse_call \<Rightarrow> inode_table \<Rightarrow> inode_table option" where
  "fuse_exec keys c t = (case c of
      F_Bind p st \<Rightarrow> map_option snd (bind_path p st t)
    | F_Acquire i \<Rightarrow> Some (snd (acquire i t))
    | F_Unbind p \<Rightarrow> map_option snd (unbind p t)
    | F_Forget i k \<Rightarrow> Some (snd (forget i k t))
    | F_Remap src dst \<Rightarrow> inode_remap keys src dst t)"

fun fuse_run :: "((string, nat) fmap \<Rightarrow> string list) \<Rightarrow> fuse_call list \<Rightarrow> inode_table \<Rightarrow> inode_table option" where
  "fuse_run keys [] t = Some t"
| "fuse_run keys (c # cs) t = Option.bind (fuse_exec keys c t) (fuse_run keys cs)"

lemma keeps_numbers_meta: "node_meta t' = node_meta t \<Longrightarrow> it_next t' = it_next t \<Longrightarrow> keeps_numbers t t'"
proof -
  assume meta: "node_meta t' = node_meta t" and "it_next t' = it_next t"
  moreover have "fmlookup (it_nodes t') i = None \<longleftrightarrow> fmlookup (it_nodes t) i = None" for i
    using fun_cong [OF meta, of i] by (auto simp: node_meta_def)
  ultimately show ?thesis by (simp add: keeps_numbers_def)
qed

lemma fuse_exec_keeps:
  assumes keys: "lists_paths keys" and ok: "table_ok {} t" and free: "it_next t < U64_MAX"
  shows "\<exists>t'. fuse_exec keys c t = Some t' \<and> table_ok {} t' \<and> keeps_numbers t t'"
proof (cases c)
  case (F_Bind p st)
  then show ?thesis using bind_binds [OF ok free, of p st] by (auto simp: fuse_exec_def)
next
  case (F_Acquire i)
  then show ?thesis using acquire_keeps [OF ok, of i] by (cases "acquire i t") (simp add: fuse_exec_def)
next
  case (F_Unbind p)
  obtain r t' where "unbind p t = Some (r, t')" "stripped {p} t t'" using unbind_strips [OF ok] by blast
  then show ?thesis using F_Unbind keeps_numbers_stripped [of t t "{p}" t'] by (simp add: fuse_exec_def stripped_def)
next
  case (F_Forget i k)
  then show ?thesis using forget_keeps [OF ok, of i k] by (cases "forget i k t") (simp add: fuse_exec_def)
next
  case (F_Remap src dst)
  then show ?thesis using remap_remaps [OF ok keys, of src dst] keeps_numbers_meta by (auto simp: fuse_exec_def)
qed

lemma fuse_run_keeps:
  assumes keys: "lists_paths keys"
  shows "table_ok {} t \<Longrightarrow> it_next t + length cs \<le> U64_MAX \<Longrightarrow>
    \<exists>t'. fuse_run keys cs t = Some t' \<and> table_ok {} t' \<and> it_next t \<le> it_next t' \<and> it_next t' \<le> it_next t + length cs
      \<and> (\<forall>i. i < it_next t \<and> fmlookup (it_nodes t) i = None \<longrightarrow> fmlookup (it_nodes t') i = None)"
proof (induction cs arbitrary: t)
  case (Cons c cs)
  then obtain u where u: "fuse_exec keys c t = Some u" "table_ok {} u" "keeps_numbers t u"
    using fuse_exec_keeps [OF keys Cons.prems(1), of c] by auto
  have "it_next u + length cs \<le> U64_MAX" using u(3) Cons.prems(2) by (simp add: keeps_numbers_def)
  from Cons.IH [OF u(2) this] obtain v where "fuse_run keys cs u = Some v" "table_ok {} v" "it_next u \<le> it_next v"
    "it_next v \<le> it_next u + length cs" "\<forall>i. i < it_next u \<and> fmlookup (it_nodes u) i = None \<longrightarrow> fmlookup (it_nodes v) i = None" by blast
  then show ?case using u by (auto simp: keeps_numbers_def)
qed simp

section \<open>Properties\<close>

text \<open>
  C16: No sequence of calls panics or runs out of numbers before \<open>2 ^ 64 - 2\<close> calls, and the table it leaves
  is coherent: a bound path leads to a live node that lists it, a live node with a path can name one, and
  two paths whose nodes have the same driver identity have the same node, so hard links share their number.
\<close>

theorem fuse_calls_coherent:
  assumes "lists_paths keys" "length cs + 2 \<le> U64_MAX"
  shows "\<exists>t. fuse_run keys cs (inode_table_new u) = Some t
    \<and> (\<forall>p i. fmlookup (it_paths t) p = Some i \<longrightarrow> (\<exists>n. inode_at t p = Some n \<and> in_nodeid n = i \<and> p \<in> set (in_paths n)
         \<and> (\<exists>q. require_path t i = Inr q \<and> fmlookup (it_paths t) q = Some i)))
    \<and> (\<forall>p q n m k. inode_at t p = Some n \<longrightarrow> inode_at t q = Some m \<longrightarrow> in_key n = Some k \<longrightarrow> in_key m = Some k \<longrightarrow> n = m)
    \<and> fmlookup (it_nodes t) 1 \<noteq> None"
proof -
  have "it_next (inode_table_new u) + length cs \<le> U64_MAX" using assms(2) by (simp add: inode_table_new_def)
  from fuse_run_keeps [OF assms(1) table_ok_new this] obtain t where t: "fuse_run keys cs (inode_table_new u) = Some t" "table_ok {} t" by blast
  have at1: "\<exists>i. fmlookup (it_paths t) p = Some i \<and> fmlookup (it_nodes t) i = Some n \<and> in_paths n \<noteq> []" if "inode_at t p = Some n" for p n
    using that table_okD(1) [OF t(2), of p] by (fastforce simp: inode_at_def Option.bind_eq_Some_conv)
  have "\<exists>n. inode_at t p = Some n \<and> in_nodeid n = i \<and> p \<in> set (in_paths n) \<and> (\<exists>q. require_path t i = Inr q \<and> fmlookup (it_paths t) q = Some i)"
    if p: "fmlookup (it_paths t) p = Some i" for p i
  proof -
    obtain n where n: "fmlookup (it_nodes t) i = Some n" "p \<in> set (in_paths n)" using p table_okD(1) [OF t(2)] by blast
    then obtain q qs where q: "in_paths n = q # qs" by (cases "in_paths n") auto
    then have "fmlookup (it_paths t) q = Some i" using table_okD(1) [OF t(2), of q i] n by simp
    then show ?thesis using n p q table_okD(2) [OF t(2) n(1)] by (simp add: inode_at_def require_path_def)
  qed
  moreover have "n = m" if "inode_at t p = Some n" "inode_at t q = Some m" "in_key n = Some k" "in_key m = Some k" for p q n m k
    using at1 [OF that(1)] at1 [OF that(2)] table_okD(4) [OF t(2), of _ n k] table_okD(4) [OF t(2), of _ m k] that(3,4) by auto
  ultimately show ?thesis using t(1) table_okD(5) [OF t(2)] by blast
qed


definition demo_stats :: "nat \<Rightarrow> stats" where
  "demo_stats ino = \<lparr>st_dev = 0, st_ino = ino, st_mode = 0x81A4, st_nlink = 1, st_uid = 0, st_gid = 0, st_rdev = 0, st_size = 0,
     st_blksize = 4096, st_blocks = 0, st_atime_ms = 0, st_mtime_ms = 0, st_ctime_ms = 0, st_birthtime_ms = 0\<rparr>"

definition sorted_paths :: "(string, nat) fmap \<Rightarrow> string list" where
  "sorted_paths m = map fst (sorted_list_of_fmap m)"

lemma sorted_paths_lists: "lists_paths sorted_paths"
  by (simp add: lists_paths_def sorted_paths_def distinct_keys_sorted_fmap) (simp add: sorted_list_of_fmap_def image_image fmdom'_alt_def)

definition demo_calls :: "fuse_call list" where
  "demo_calls = [F_Bind ''/d/a'' (demo_stats 5), F_Acquire 2, F_Bind ''/d/b'' (demo_stats 5), F_Bind ''/e/a'' (demo_stats 6)]"

definition demo_table :: inode_table where
  "demo_table = the (fuse_run sorted_paths demo_calls (inode_table_new True))"

lemma demo_table_run: "fuse_run sorted_paths demo_calls (inode_table_new True) = Some demo_table"
  "fmlookup (it_paths demo_table) ''/d/a'' = Some 2" "fmlookup (it_paths demo_table) ''/d/b'' = Some 2"
  "fmlookup (it_paths demo_table) ''/e/a'' = Some 3"
  by code_simp+

theorem fuse_calls_coherent_witness:
  "\<exists>t n. fuse_run sorted_paths demo_calls (inode_table_new True) = Some t \<and> inode_at t ''/d/b'' = Some n \<and> ''/d/b'' \<in> set (in_paths n)"
proof -
  have "length demo_calls + 2 \<le> U64_MAX" by (simp add: demo_calls_def U64_MAX_def)
  from fuse_calls_coherent [OF sorted_paths_lists this, of True] show ?thesis
    using demo_table_run by fastforce
qed

text \<open>
  C27: A node number that the kernel has forgotten is never given out again: after any further calls the
  number is stale, and no path is bound to it.
\<close>

theorem fuse_forgotten_stays_stale:
  assumes keys: "lists_paths keys" and short: "length cs + length ds + 3 \<le> U64_MAX"
    and run: "fuse_run keys cs (inode_table_new u) = Some t" and gone: "forget i c t = (True, t')" and later: "fuse_run keys ds t' = Some v"
  shows "(\<exists>e. require_path v i = Inl e \<and> err_code e = Estale) \<and> (\<forall>p st j w. bind_path p st v = Some (j, w) \<longrightarrow> j \<noteq> i)"
proof -
  have n0: "it_next (inode_table_new u) = 2" by (simp add: inode_table_new_def)
  then have "it_next (inode_table_new u) + length cs \<le> U64_MAX" using short by simp
  from fuse_run_keeps [OF keys table_ok_new this] run n0 have t: "table_ok {} t" "it_next t \<le> 2 + length cs" by auto
  have t': "table_ok {} t'" "keeps_numbers t t'" "fmlookup (it_nodes t') i = None" "i < it_next t'"
    using forget_keeps [OF t(1) gone] by auto
  have "it_next t' = it_next t" using gone by (auto simp: forget_def Let_def split: if_splits option.splits)
  then have "it_next t' + length ds \<le> U64_MAX" using t(2) short by simp
  from fuse_run_keeps [OF keys t'(1) this] later t'(3,4)
  have v: "table_ok {} v" "it_next v \<le> it_next t' + length ds" "fmlookup (it_nodes v) i = None" "i < it_next v" by auto
  have "it_next v < U64_MAX" using v(2) \<open>it_next t' = it_next t\<close> t(2) short by simp
  note b = bind_binds [OF v(1) this]
  have "j \<noteq> i" if "bind_path p st v = Some (j, w)" for p st j w
    using b [of p st] that v(3,4) by (auto simp: keeps_numbers_def)
  then show ?thesis using v(3) by (auto simp: require_path_def)
qed

theorem fuse_forgotten_stays_stale_witness:
  "\<exists>t' v. forget 2 1 demo_table = (True, t') \<and> fuse_run sorted_paths [F_Bind ''/d/a'' (demo_stats 5)] t' = Some v
     \<and> (\<exists>e. require_path v 2 = Inl e \<and> err_code e = Estale)"
proof -
  let ?t = "snd (forget 2 1 demo_table)" and ?v = "the (fuse_run sorted_paths [F_Bind ''/d/a'' (demo_stats 5)] (snd (forget 2 1 demo_table)))"
  have f: "forget 2 1 demo_table = (True, ?t)" by code_simp
  have r: "fuse_run sorted_paths [F_Bind ''/d/a'' (demo_stats 5)] ?t = Some ?v" by code_simp
  have "length demo_calls + length [F_Bind ''/d/a'' (demo_stats 5)] + 3 \<le> U64_MAX" by (simp add: demo_calls_def U64_MAX_def)
  from fuse_forgotten_stays_stale [OF sorted_paths_lists this demo_table_run(1) f r] f r show ?thesis by blast
qed

text \<open>
  C34: A rename keeps node numbers. In every reachable table a rename succeeds and keeps every node with its
  key and lookup count; a path below the old name is bound to the same number below the new name; a path
  that was below the new name, or was below the old one, and is no target of the move, is no longer bound; and all other
  paths are bound as before.
\<close>

theorem fuse_rename_keeps_numbers:
  assumes keys: "lists_paths keys" and short: "length cs + 2 \<le> U64_MAX" and run: "fuse_run keys cs (inode_table_new u) = Some t"
    and "src \<noteq> dst"
  shows "\<exists>t'. inode_remap keys src dst t = Some t' \<and> node_meta t' = node_meta t
    \<and> (\<forall>p i. fmlookup (it_paths t) p = Some i \<longrightarrow> inside p src \<longrightarrow> fmlookup (it_paths t') (dst @ drop (length src) p) = Some i)
    \<and> (\<forall>q. (\<forall>p. fmlookup (it_paths t) p \<noteq> None \<longrightarrow> inside p src \<longrightarrow> q \<noteq> dst @ drop (length src) p) \<longrightarrow>
        fmlookup (it_paths t') q = (if inside q src \<or> inside q dst then None else fmlookup (it_paths t) q))"
proof -
  have "it_next (inode_table_new u) + length cs \<le> U64_MAX" using short by (simp add: inode_table_new_def)
  from fuse_run_keeps [OF keys table_ok_new this] run have "table_ok {} t" by auto
  from remap_remaps [OF this keys, of src dst] assms(4) show ?thesis by blast
qed

theorem fuse_rename_keeps_numbers_witness:
  "\<exists>t'. inode_remap sorted_paths ''/d'' ''/e'' demo_table = Some t' \<and> fmlookup (it_paths t') ''/e/a'' = Some 2
     \<and> fmlookup (it_paths t') ''/d/a'' = None \<and> node_meta t' 3 = node_meta demo_table 3"
proof -
  have short: "length demo_calls + 2 \<le> U64_MAX" by (simp add: demo_calls_def U64_MAX_def)
  have "''/d'' \<noteq> ''/e''" by simp
  from fuse_rename_keeps_numbers [OF sorted_paths_lists short demo_table_run(1) this] obtain t' where
    t': "inode_remap sorted_paths ''/d'' ''/e'' demo_table = Some t'" "node_meta t' = node_meta demo_table"
    "\<forall>p i. fmlookup (it_paths demo_table) p = Some i \<longrightarrow> inside p ''/d'' \<longrightarrow> fmlookup (it_paths t') (''/e'' @ drop (length ''/d'') p) = Some i"
    "\<forall>q. (\<forall>p. fmlookup (it_paths demo_table) p \<noteq> None \<longrightarrow> inside p ''/d'' \<longrightarrow> q \<noteq> ''/e'' @ drop (length ''/d'') p) \<longrightarrow>
        fmlookup (it_paths t') q = (if inside q ''/d'' \<or> inside q ''/e'' then None else fmlookup (it_paths demo_table) q)" by blast
  have "inside ''/d/a'' ''/d''" by code_simp
  then have "fmlookup (it_paths t') ''/e/a'' = Some 2" "fmlookup (it_paths t') ''/d/a'' = None"
    using t'(3) [rule_format, OF demo_table_run(2)] t'(4) [rule_format, of "''/d/a''"] by auto
  then show ?thesis using t'(1,2) by auto
qed

end
