(* ===== verification/Chunked_Layout.thy ===== *)
theory Chunked_Layout
  imports Namespace_Validation Store_Contracts
begin

text \<open>
  Model of the file layouts of the chunked file system
  (\<^verbatim>\<open>filesystems/mount-rs-chunked/src/lib.rs\<close>): a file is a list of extents over immutable blocks, and
  what no extent covers reads as zero. Truncation trims extents, a write replaces the chunks it
  touches by new blocks. The block store is the parameter of the generic type of the source: its
  \<open>put\<close> and \<open>get\<close> are arguments, its state is passed along. An allocation that fails
  (\<^verbatim>\<open>try_reserve_exact\<close>) is not modelled.
\<close>

section \<open>Errors\<close>

definition error_with_path :: "error_code \<Rightarrow> string \<Rightarrow> string \<Rightarrow> fs_error" where
  "error_with_path code syscall path = with_path path (with_syscall syscall (fs_error_new code))"

definition with_context :: "fs_error \<Rightarrow> string \<Rightarrow> string option \<Rightarrow> fs_error" where
  "with_context e syscall path =
     (let message = fs_error_display e;
          result = with_syscall syscall (fs_error_new (err_code e));
          result = (case path of None \<Rightarrow> result | Some p \<Rightarrow> with_path p result)
      in with_message message result)"

definition map_err :: "('e \<Rightarrow> 'f) \<Rightarrow> 'e + 'a \<Rightarrow> 'f + 'a" where
  "map_err f r = (case r of Inl e \<Rightarrow> Inl (f e) | Inr x \<Rightarrow> Inr x)"

section \<open>Extents\<close>

abbreviation range_overflow :: fs_error where
  "range_overflow \<equiv> with_message ''file extent range overflow'' (fs_error_new Eio)"

fun trim_extents :: "block_extent list \<Rightarrow> nat \<Rightarrow> block_extent list result" where
  "trim_extents [] len = Inr []"
| "trim_extents (e # es) len =
     and_then (ok_or (checked_add (be_file_offset e) (be_length e)) range_overflow) (\<lambda>e_end.
     and_then (trim_extents es len) (\<lambda>retained.
     if be_file_offset e \<ge> len then Inr retained
     else let e' = (if e_end > len then e\<lparr>be_length := len - be_file_offset e\<rparr> else e)
          in Inr (if be_length e' > 0 then e' # retained else retained)))"

text \<open>What is kept of one extent when a range is replaced: the parts before and after the range.\<close>

definition cut_extent :: "nat \<Rightarrow> nat \<Rightarrow> block_extent \<Rightarrow> block_extent list result" where
  "cut_extent r_start r_end e =
     and_then (ok_or (checked_add (be_file_offset e) (be_length e)) range_overflow) (\<lambda>e_end.
     if e_end \<le> r_start \<or> be_file_offset e \<ge> r_end then Inr [e]
     else
       let before = (if be_file_offset e < r_start
                     then [e\<lparr>be_length := r_start - be_file_offset e\<rparr>] else [])
       in if e_end > r_end
          then and_then (ok_or (checked_add (be_block_offset e) (r_end - be_file_offset e))
                           (with_message ''block range overflow'' (fs_error_new Eio))) (\<lambda>offset.
               Inr (before @ [\<lparr>be_file_offset = r_end, be_block = be_block e,
                               be_block_offset = offset, be_length = e_end - r_end\<rparr>]))
          else Inr before)"

definition replace_extent_range ::
  "block_extent list \<Rightarrow> nat \<Rightarrow> nat \<Rightarrow> block_extent option \<Rightarrow> block_extent list result" where
  "replace_extent_range extents r_start r_end replacement =
     (if r_start \<ge> r_end
      then Inl (with_message ''invalid extent replacement range'' (fs_error_new Einval))
      else and_then (ok_or (checked_add (length extents) (if replacement = None then 0 else 1))
                       (with_message ''extent list is too large'' (fs_error_new Enomem))) (\<lambda>_.
      and_then (try_map (cut_extent r_start r_end) extents) (\<lambda>parts.
      Inr (sort_key be_file_offset
             (concat parts @ (case replacement of None \<Rightarrow> [] | Some e \<Rightarrow> [e]))))))"

section \<open>Reading\<close>

text \<open>\<^verbatim>\<open>buffer[at..at + n].copy_from_slice(bytes)\<close>, inside the buffer.\<close>

definition copy_into :: "'a list \<Rightarrow> nat \<Rightarrow> 'a list \<Rightarrow> 'a list" where
  "copy_into buffer p xs = take p buffer @ xs @ drop (p + length xs) buffer"

definition copy_extent ::
  "(string \<Rightarrow> 's \<Rightarrow> bytes result) \<Rightarrow> 's \<Rightarrow> nat \<Rightarrow> nat \<Rightarrow> nat \<Rightarrow> string \<Rightarrow> string
     \<Rightarrow> bytes \<Rightarrow> block_extent \<Rightarrow> bytes result" where
  "copy_extent get blocks file_size position b_end path syscall buffer e =
     and_then (ok_or (checked_add (be_file_offset e) (be_length e)) (error_with_path Eio syscall path)) (\<lambda>e_end.
     let start = max position (be_file_offset e); copy_end = min (min b_end e_end) file_size
     in if start \<ge> copy_end then Inr buffer
        else
     and_then (map_err (\<lambda>err. with_context err syscall (Some path)) (get (be_block e) blocks)) (\<lambda>bs.
     and_then (ok_or (checked_add (be_block_offset e) (start - be_file_offset e))
                 (error_with_path Eio syscall path)) (\<lambda>source_offset.
     let copy_length = copy_end - start; destination_offset = start - position
     in
     and_then (ok_or (checked_add source_offset copy_length) (error_with_path Eio syscall path)) (\<lambda>source_end.
     and_then (ok_or (checked_add destination_offset copy_length) (error_with_path Eio syscall path)) (\<lambda>destination_end.
     if source_end > length bs \<or> destination_end > length buffer
     then Inl (with_message ''block extent exceeds immutable block length'' (error_with_path Eio syscall path))
     else Inr (copy_into buffer destination_offset (take copy_length (drop source_offset bs))))))))"

text \<open>The buffer is returned; \<open>n\<close> is its length.\<close>

definition read_layout_into ::
  "(string \<Rightarrow> 's \<Rightarrow> bytes result) \<Rightarrow> 's \<Rightarrow> file_layout \<Rightarrow> nat \<Rightarrow> nat \<Rightarrow> nat \<Rightarrow> string \<Rightarrow> string \<Rightarrow> bytes result" where
  "read_layout_into get blocks layout file_size position n path syscall =
     and_then (ok_or (checked_add position n) (error_with_path Efbig syscall path)) (\<lambda>b_end.
     try_fold (copy_extent get blocks file_size position b_end path syscall) (replicate n 0) (fl_extents layout))"

definition read_layout_all ::
  "(string \<Rightarrow> 's \<Rightarrow> bytes result) \<Rightarrow> 's \<Rightarrow> file_layout \<Rightarrow> nat \<Rightarrow> string \<Rightarrow> bytes result" where
  "read_layout_all get blocks layout file_size path =
     read_layout_into get blocks layout file_size 0 file_size path ''write''"

section \<open>Writing\<close>

definition fixed_chunk_size :: "chunker_config \<Rightarrow> nat option result" where
  "fixed_chunk_size config =
     (if cc_algorithm config \<noteq> ''fixed-size'' then Inr None
      else and_then (chunker_from_config config) (\<lambda>chunker.
      and_then (ok_or (fmlookup (cc_parameters config) ''chunk_size'')
                  (with_message ''invalid chunk_size'' (fs_error_new Einval))) (\<lambda>n.
      if fixed_size_config chunker \<noteq> config
      then Inl (with_message ''chunker configuration mismatch'' (fs_error_new Eproto))
      else Inr (Some n))))"

text \<open>A chunk is stored as a block unless all its bytes are zero; then it stays a hole.\<close>

definition put_chunk ::
  "(bytes \<Rightarrow> 's \<Rightarrow> (string \<times> 's) result) \<Rightarrow> nat \<Rightarrow> bytes \<Rightarrow> string \<Rightarrow> 's \<Rightarrow> (block_extent option \<times> 's) result" where
  "put_chunk put offset chunk path blocks =
     (if list_ex (\<lambda>b. b \<noteq> 0) chunk
      then and_then (map_err (\<lambda>err. with_context err ''block-put'' (Some path)) (put chunk blocks)) (\<lambda>(block, blocks).
           Inr (Some \<lparr>be_file_offset = offset, be_block = block, be_block_offset = 0, be_length = length chunk\<rparr>, blocks))
      else Inr (None, blocks))"

text \<open>One round of the loop over the chunks that the input touches.\<close>

definition rewrite_chunk ::
  "(bytes \<Rightarrow> 's \<Rightarrow> (string \<times> 's) result) \<Rightarrow> (string \<Rightarrow> 's \<Rightarrow> bytes result) \<Rightarrow> file_layout \<Rightarrow> nat \<Rightarrow> nat
     \<Rightarrow> bytes \<Rightarrow> nat \<Rightarrow> nat \<Rightarrow> string \<Rightarrow> nat \<Rightarrow> block_extent list \<times> 's \<Rightarrow> nat \<Rightarrow> (block_extent list \<times> 's) result" where
  "rewrite_chunk put get layout old_size position input input_end new_size path sz st index =
     (let fbig = error_with_path Efbig ''write'' path in
     case st of (extents, blocks) \<Rightarrow>
     and_then (ok_or (if index * sz \<le> U64_MAX then Some (index * sz) else None) fbig) (\<lambda>chunk_start.
     and_then (ok_or (if chunk_start \<le> new_size then Some (new_size - chunk_start) else None) fbig) (\<lambda>remaining.
     let chunk_length = min remaining sz in
     and_then (ok_or (checked_add chunk_start chunk_length) fbig) (\<lambda>chunk_end.
     and_then (if position > chunk_start \<or> input_end < chunk_end
               then read_layout_into get blocks layout old_size chunk_start chunk_length path ''write''
               else Inr (replicate chunk_length 0)) (\<lambda>chunk.
     let write_start = max position chunk_start; write_end = min input_end chunk_end;
         destination = write_start - chunk_start; source = write_start - position;
         n = write_end - write_start
     in
     if write_end < write_start then Inl (rust_panic ''attempt to subtract with overflow'')
     else
     and_then (ok_or (checked_add destination n) fbig) (\<lambda>destination_end.
     and_then (ok_or (checked_add source n) fbig) (\<lambda>source_end.
     if destination_end > length chunk \<or> source_end > length input
     then Inl (with_message ''chunk write range exceeds buffer'' (error_with_path Eio ''write'' path))
     else
     and_then (put_chunk put chunk_start (copy_into chunk destination (take n (drop source input))) path blocks)
       (\<lambda>(replacement, blocks).
     and_then (replace_extent_range extents chunk_start chunk_end replacement) (\<lambda>extents.
     Inr (extents, blocks))))))))))"

text \<open>One round of the loop that stores a whole file again, with the offset reached so far.\<close>

definition store_chunk ::
  "(bytes \<Rightarrow> 's \<Rightarrow> (string \<times> 's) result) \<Rightarrow> string \<Rightarrow> block_extent list \<times> nat \<times> 's \<Rightarrow> bytes
     \<Rightarrow> (block_extent list \<times> nat \<times> 's) result" where
  "store_chunk put path st chunk =
     (case st of (extents, offset, blocks) \<Rightarrow>
      if chunk = [] then Inl (error_with_path Eio ''write'' path)
      else and_then (put_chunk put offset chunk path blocks) (\<lambda>(extent, blocks).
      and_then (ok_or (checked_add offset (length chunk)) (error_with_path Efbig ''write'' path)) (\<lambda>offset.
      Inr (extents @ (case extent of None \<Rightarrow> [] | Some e \<Rightarrow> [e]), offset, blocks))))"

text \<open>
  The second part runs for the algorithms other than fixed-size chunks; \<^verbatim>\<open>from_config\<close> knows none
  so far. An empty input at the start of a file would make \<^verbatim>\<open>input_end - 1\<close> overflow; no caller
  passes one. Neither does a caller pass a new size that ends before the input.
\<close>

definition rewrite_layout ::
  "(bytes \<Rightarrow> 's \<Rightarrow> (string \<times> 's) result) \<Rightarrow> (string \<Rightarrow> 's \<Rightarrow> bytes result) \<Rightarrow> file_layout \<Rightarrow> nat \<Rightarrow> nat
     \<Rightarrow> bytes \<Rightarrow> nat \<Rightarrow> string \<Rightarrow> 's \<Rightarrow> (file_layout \<times> 's) result" where
  "rewrite_layout put get layout old_size position input new_size path blocks =
     and_then (fixed_chunk_size (fl_chunker layout)) (\<lambda>chunk_size.
     let fbig = error_with_path Efbig ''write'' path in
     case chunk_size of
       Some sz \<Rightarrow>
         let first = position div sz in
         and_then (ok_or (checked_add position (length input)) fbig) (\<lambda>input_end.
         if input_end = 0 then Inl (rust_panic ''attempt to subtract with overflow'')
         else let last_chunk = (input_end - 1) div sz in
         and_then (try_fold (rewrite_chunk put get layout old_size position input input_end new_size path sz)
                     (fl_extents layout, blocks) [first..<Suc last_chunk]) (\<lambda>(extents, blocks).
         Inr (\<lparr>fl_chunker = fl_chunker layout, fl_extents = extents\<rparr>, blocks)))
     | None \<Rightarrow>
         and_then (chunker_from_config (fl_chunker layout)) (\<lambda>chunker.
         and_then (read_layout_all get blocks layout old_size path) (\<lambda>bs.
         if new_size < length bs then Inl (error_with_path Eio ''write'' path)
         else let bs = bs @ replicate (new_size - length bs) 0 in
         and_then (ok_or (checked_add position (length input)) fbig) (\<lambda>input_end.
         if input_end > length bs then Inl fbig
         else
         and_then (try_fold (store_chunk put path) ([], 0, blocks)
                     (fixed_size_chunks chunker (copy_into bs position input))) (\<lambda>(extents, offset, blocks).
         if offset \<noteq> new_size
         then Inl (with_message ''chunker did not cover the complete file'' (error_with_path Eio ''write'' path))
         else Inr (\<lparr>fl_chunker = fl_chunker layout, fl_extents = extents\<rparr>, blocks))))))"

end
