(* ===== verification/Chunked_Namespace.thy ===== *)
theory Chunked_Namespace
  imports Chunked_Layout Core_Path Driver_Types
begin

text \<open>
  Model of the namespace operations of the chunked file system
  (\<^verbatim>\<open>filesystems/mount-rs-chunked/src/lib.rs\<close>): the initial namespace, path walking, directory entries,
  and the candidate namespace that each mutation builds before it is published. A mutation returns
  the candidate; an error leaves the namespace as it was. The clock reading is an argument, the same
  for all time stamps of one mutation. The locks of the runtime state are not modelled.
\<close>

section \<open>Nodes and times\<close>

abbreviation CHUNKED_BLOCK_SIZE :: nat where
  "CHUNKED_BLOCK_SIZE \<equiv> 4096"

definition CHUNKED_SYMLINK_DEPTH :: nat where
  "CHUNKED_SYMLINK_DEPTH = 40"

definition base_stats :: "nat \<Rightarrow> u32 \<Rightarrow> u32 \<Rightarrow> u32 \<Rightarrow> nat \<Rightarrow> nat \<Rightarrow> nat \<Rightarrow> stats" where
  "base_stats inode mode uid gid nlink sz blocks =
     \<lparr>st_dev = 0, st_ino = inode, st_mode = mode, st_nlink = nlink, st_uid = uid, st_gid = gid, st_rdev = 0,
      st_size = sz, st_blksize = CHUNKED_BLOCK_SIZE, st_blocks = blocks,
      st_atime_ms = 0, st_mtime_ms = 0, st_ctime_ms = 0, st_birthtime_ms = 0\<rparr>"

definition with_times :: "int \<Rightarrow> stats \<Rightarrow> stats" where
  "with_times timestamp st =
     st\<lparr>st_atime_ms := timestamp, st_mtime_ms := timestamp, st_ctime_ms := timestamp, st_birthtime_ms := timestamp\<rparr>"

definition new_file_node :: "nat \<Rightarrow> u32 \<Rightarrow> u32 \<Rightarrow> u32 \<Rightarrow> chunker_config \<Rightarrow> int \<Rightarrow> node_metadata" where
  "new_file_node inode mode uid gid config now =
     \<lparr>nm_stats = with_times now (base_stats inode mode uid gid 1 0 0),
      nm_data = ND_File \<lparr>fl_chunker = config, fl_extents = []\<rparr>\<rparr>"

definition new_directory_node :: "nat \<Rightarrow> u32 \<Rightarrow> u32 \<Rightarrow> u32 \<Rightarrow> int \<Rightarrow> node_metadata" where
  "new_directory_node inode mode uid gid now =
     \<lparr>nm_stats = with_times now
        (base_stats inode mode uid gid 2 CHUNKED_BLOCK_SIZE (div_ceil CHUNKED_BLOCK_SIZE 512)),
      nm_data = ND_Directory []\<rparr>"

text \<open>The options that the operations below read; the chunker is its configuration.\<close>

record chunked_options =
  co_owner :: string
  co_lease_ttl :: duration
  co_concurrent_writes :: bool
  co_writeback :: bool
  co_delegated :: bool
  co_chunker :: chunker_config
  co_uid :: u32
  co_gid :: u32
  co_umask :: u32
  co_root_mode :: u32

definition initial_namespace :: "chunked_options \<Rightarrow> int \<Rightarrow> namespace result" where
  "initial_namespace opts timestamp =
     and_then (chunker_from_config (co_chunker opts)) (\<lambda>_.
     Inr \<lparr>ns_format_version = NAMESPACE_FORMAT_VERSION, ns_root = 1, ns_next_inode = 2,
          ns_default_uid = co_uid opts, ns_default_gid = co_gid opts, ns_umask = co_umask opts,
          ns_default_chunker = co_chunker opts,
          ns_nodes = fmap_of_list
            [(1, \<lparr>nm_stats = \<lparr>st_dev = 0, st_ino = 1, st_mode = S_IFDIR OR (co_root_mode opts AND PERM_MASK),
                   st_nlink = 2, st_uid = co_uid opts, st_gid = co_gid opts, st_rdev = 0,
                   st_size = CHUNKED_BLOCK_SIZE, st_blksize = CHUNKED_BLOCK_SIZE,
                   st_blocks = div_ceil CHUNKED_BLOCK_SIZE 512,
                   st_atime_ms = timestamp, st_mtime_ms = timestamp, st_ctime_ms = timestamp,
                   st_birthtime_ms = timestamp\<rparr>,
                 nm_data = ND_Directory []\<rparr>)]\<rparr>)"

definition set_file_size :: "nat \<Rightarrow> stats \<Rightarrow> stats" where
  "set_file_size sz st = st\<lparr>st_size := sz, st_blocks := div_ceil sz 512\<rparr>"

definition next_concurrent_time :: "int \<Rightarrow> int \<Rightarrow> string \<Rightarrow> int result" where
  "next_concurrent_time prior now overflow_message =
     (if prior + 1 > I64_MAX then Inl (with_message overflow_message (fs_error_new Eoverflow))
      else Inr (max now (prior + 1)))"

definition touch_changed :: "bool \<Rightarrow> int \<Rightarrow> stats \<Rightarrow> stats result" where
  "touch_changed concurrent now st =
     and_then (if concurrent then next_concurrent_time (st_ctime_ms st) now ''file change time overflow'' else Inr now)
       (\<lambda>t. Inr (st\<lparr>st_ctime_ms := t\<rparr>))"

definition touch_modified :: "bool \<Rightarrow> int \<Rightarrow> stats \<Rightarrow> stats result" where
  "touch_modified concurrent now st =
     (if \<not> concurrent then Inr (st\<lparr>st_mtime_ms := now, st_ctime_ms := now\<rparr>)
      else and_then (next_concurrent_time (st_mtime_ms st) now ''file modification time overflow'') (\<lambda>next_mtime.
           and_then (next_concurrent_time (st_ctime_ms st) now ''file change time overflow'') (\<lambda>next_ctime.
           Inr (st\<lparr>st_mtime_ms := next_mtime, st_ctime_ms := next_ctime\<rparr>))))"

section \<open>Paths\<close>

record ns_entry =
  ne_parent :: nat
  ne_name :: string
  ne_node :: "nat option"
  ne_path :: string

text \<open>The loop over the segments ends at an entry or at a symbolic link to follow.\<close>

definition link_target :: "bool \<Rightarrow> node_metadata \<Rightarrow> string option" where
  "link_target follow node = (case nm_data node of ND_Symlink target \<Rightarrow> if follow then Some target else None | _ \<Rightarrow> None)"

datatype ns_walk_outcome = NsArrived ns_entry | NsRedirect string

fun ns_walk_segments ::
  "namespace \<Rightarrow> bool \<Rightarrow> string \<Rightarrow> string \<Rightarrow> string list \<Rightarrow> string list \<Rightarrow> nat \<Rightarrow> ns_walk_outcome result" where
  "ns_walk_segments ns follow_final syscall normalized before [] current = Inl (rust_panic ''unreachable'')"
| "ns_walk_segments ns follow_final syscall normalized before (name # after) current =
     and_then (ok_or (fmlookup (ns_nodes ns) current) (error_with_path Estale syscall normalized)) (\<lambda>current_node.
     case nm_data current_node of
       ND_Directory entries \<Rightarrow>
         (case find (\<lambda>e. dn_name e = name) entries of
            None \<Rightarrow>
              if after = []
              then Inr (NsArrived \<lparr>ne_parent = current, ne_name = name, ne_node = None, ne_path = normalized\<rparr>)
              else Inl (error_with_path Enoent syscall normalized)
          | Some e \<Rightarrow>
              and_then (ok_or (fmlookup (ns_nodes ns) (dn_inode e)) (error_with_path Estale syscall normalized)) (\<lambda>child_node.
              case link_target (after \<noteq> [] \<or> follow_final) child_node of
                Some target \<Rightarrow>
                  if target = [] then Inl (error_with_path Enoent syscall normalized)
                  else let parent_path = (if before = [] then ''/'' else ''/'' @ join_with ''/'' before);
                           rewritten = (if starts_with target ''/'' then target else parent_path @ ''/'' @ target)
                       in Inr (NsRedirect (if after \<noteq> [] then rewritten @ ''/'' @ join_with ''/'' after else rewritten))
              | None \<Rightarrow>
                  if after = []
                  then Inr (NsArrived \<lparr>ne_parent = current, ne_name = name, ne_node = Some (dn_inode e), ne_path = normalized\<rparr>)
                  else ns_walk_segments ns follow_final syscall normalized (before @ [name]) after (dn_inode e)))
     | _ \<Rightarrow> Inl (error_with_path Enotdir syscall normalized))"

function ns_walk :: "namespace \<Rightarrow> string \<Rightarrow> bool \<Rightarrow> string \<Rightarrow> nat \<Rightarrow> ns_entry result" where
  "ns_walk ns path follow_final syscall depth =
     (if depth > CHUNKED_SYMLINK_DEPTH then Inl (error_with_path Eloop syscall (normalize_path path))
      else let normalized = normalize_path path in
      if normalized = ''/''
      then Inr \<lparr>ne_parent = ns_root ns, ne_name = [], ne_node = Some (ns_root ns), ne_path = normalized\<rparr>
      else (case ns_walk_segments ns follow_final syscall normalized [] (split_path normalized) (ns_root ns) of
              Inl e \<Rightarrow> Inl e
            | Inr (NsArrived en) \<Rightarrow> Inr en
            | Inr (NsRedirect rewritten) \<Rightarrow> ns_walk ns rewritten follow_final syscall (depth + 1)))"
  by pat_completeness auto

termination ns_walk
  by (relation "measure (\<lambda>(_, _, _, _, depth). Suc CHUNKED_SYMLINK_DEPTH - depth)") auto

declare ns_walk.simps [simp del]

definition ns_resolve :: "namespace \<Rightarrow> string \<Rightarrow> bool \<Rightarrow> string \<Rightarrow> nat result" where
  "ns_resolve ns path follow_final syscall =
     and_then (ns_walk ns path follow_final syscall 0) (\<lambda>en.
     ok_or (ne_node en) (error_with_path Enoent syscall (ne_path en)))"

section \<open>Entries\<close>

abbreviation ns_dir :: "namespace \<Rightarrow> nat \<Rightarrow> bool" where
  "ns_dir ns inode \<equiv> (case fmlookup (ns_nodes ns) inode of None \<Rightarrow> False | Some n \<Rightarrow> is_dir_data (nm_data n))"

abbreviation ns_put :: "nat \<Rightarrow> node_metadata \<Rightarrow> namespace \<Rightarrow> namespace" where
  "ns_put inode n ns \<equiv> ns\<lparr>ns_nodes := fmupd inode n (ns_nodes ns)\<rparr>"

text \<open>The nodes of a parent: looked up, and refused when it is no directory.\<close>

definition parent_entries :: "namespace \<Rightarrow> nat \<Rightarrow> string \<Rightarrow> string \<Rightarrow> (node_metadata \<times> directory_entry list) result" where
  "parent_entries ns parent syscall path =
     and_then (ok_or (fmlookup (ns_nodes ns) parent) (error_with_path Estale syscall path)) (\<lambda>node.
     case nm_data node of
       ND_Directory entries \<Rightarrow> Inr (node, entries)
     | _ \<Rightarrow> Inl (error_with_path Enotdir syscall path))"

definition add_entry :: "nat \<Rightarrow> string \<Rightarrow> nat \<Rightarrow> string \<Rightarrow> string \<Rightarrow> bool \<Rightarrow> int \<Rightarrow> namespace \<Rightarrow> namespace result" where
  "add_entry parent name inode syscall path concurrent now ns =
     (let is_directory = ns_dir ns inode in
     and_then (parent_entries ns parent syscall path) (\<lambda>(parent_node, entries).
     if list_ex (\<lambda>e. dn_name e = name) entries then Inl (error_with_path Eexist syscall path)
     else
     and_then (if is_directory
               then ok_or (checked_add (st_nlink (nm_stats parent_node)) 1) (error_with_path Emlink syscall path)
               else Inr (st_nlink (nm_stats parent_node))) (\<lambda>nlink.
     and_then (touch_modified concurrent now ((nm_stats parent_node)\<lparr>st_nlink := nlink\<rparr>)) (\<lambda>st.
     Inr (ns_put parent
            \<lparr>nm_stats = st, nm_data = ND_Directory (entries @ [\<lparr>dn_name = name, dn_inode = inode\<rparr>])\<rparr> ns)))))"

definition detach_entry ::
  "nat \<Rightarrow> string \<Rightarrow> bool \<Rightarrow> string \<Rightarrow> string \<Rightarrow> bool \<Rightarrow> int \<Rightarrow> namespace \<Rightarrow> (nat \<times> namespace) result" where
  "detach_entry parent name decrement_link syscall path concurrent now ns =
     and_then (parent_entries ns parent syscall path) (\<lambda>(parent_node, entries).
     and_then (ok_or (find (\<lambda>e. dn_name e = name) entries) (error_with_path Enoent syscall path)) (\<lambda>entry.
     let inode = dn_inode entry in
     and_then (if ns_dir ns inode
               then (if st_nlink (nm_stats parent_node) = 0 then Inl (error_with_path Eio syscall path)
                     else Inr (st_nlink (nm_stats parent_node) - 1))
               else Inr (st_nlink (nm_stats parent_node))) (\<lambda>nlink.
     and_then (touch_modified concurrent now ((nm_stats parent_node)\<lparr>st_nlink := nlink\<rparr>)) (\<lambda>st.
     let ns = ns_put parent \<lparr>nm_stats = st, nm_data = ND_Directory (remove1 entry entries)\<rparr> ns in
     case fmlookup (ns_nodes ns) inode of
       Some node \<Rightarrow>
         if decrement_link \<and> \<not> is_dir_data (nm_data node)
         then if st_nlink (nm_stats node) = 0 then Inl (error_with_path Eio syscall path)
              else and_then (touch_changed concurrent now ((nm_stats node)\<lparr>st_nlink := st_nlink (nm_stats node) - 1\<rparr>)) (\<lambda>st.
                   Inr (inode, ns_put inode (node\<lparr>nm_stats := st\<rparr>) ns))
         else Inr (inode, ns)
     | None \<Rightarrow> Inr (inode, ns)))))"

text \<open>
  What a removed entry leaves: the namespace and the nodes kept for open handles. \<open>open_refs\<close> are the
  inodes with open handles.
\<close>

type_synonym orphans = "(nat, node_metadata) fmap"

definition reap_detached ::
  "chunked_options \<Rightarrow> nat fset \<Rightarrow> nat \<Rightarrow> namespace \<times> orphans \<Rightarrow> (namespace \<times> orphans) result" where
  "reap_detached opts open_refs inode st =
     (case st of (ns, orphans) \<Rightarrow>
      let drop_node = ns\<lparr>ns_nodes := fmdrop inode (ns_nodes ns)\<rparr> in
      if co_delegated opts
      then if inode |\<in>| open_refs \<and> ns_dir ns inode
           then Inl (with_message ''open directory removal requires handle retirement'' (fs_error_new Enotsup))
           else if inode |\<notin>| open_refs then Inr (drop_node, orphans) else Inr (ns, orphans)
      else if co_concurrent_writes opts
      then (case fmlookup (ns_nodes ns) inode of
              Some node \<Rightarrow> if \<not> is_dir_data (nm_data node) then Inr (ns, orphans) else Inr (drop_node, orphans)
            | None \<Rightarrow> Inr (drop_node, orphans))
      else (case fmlookup (ns_nodes ns) inode of
              None \<Rightarrow> Inr (ns, orphans)
            | Some node \<Rightarrow>
                if is_dir_data (nm_data node) \<or> st_nlink (nm_stats node) = 0
                then Inr (drop_node, if inode |\<in>| open_refs then fmupd inode node orphans else orphans)
                else Inr (ns, orphans)))"

end
