(* ===== verification/Chunked_Mutations.thy ===== *)
theory Chunked_Mutations
  imports Chunked_Namespace
begin

text \<open>
  Model of the mutations of the chunked file system
  (\<^verbatim>\<open>filesystems/mount-rs-chunked/src/lib.rs\<close>): what each request makes of the namespace it was handed,
  before publication. Removals also return the nodes kept for open handles.
\<close>

section \<open>Creation\<close>

text \<open>The next inode number is taken and the node inserted; then the entry is added.\<close>

definition insert_new ::
  "nat \<Rightarrow> string \<Rightarrow> node_metadata \<Rightarrow> string \<Rightarrow> string \<Rightarrow> string \<Rightarrow> bool \<Rightarrow> int \<Rightarrow> namespace \<Rightarrow> (nat \<times> namespace) result" where
  "insert_new parent name node syscall path overflow_path concurrent now ns =
     (let inode = ns_next_inode ns in
      and_then (ok_or (checked_add inode 1) (error_with_path Eoverflow syscall overflow_path)) (\<lambda>next_inode.
      and_then (add_entry parent name inode syscall path concurrent now
                  (ns_put inode node (ns\<lparr>ns_next_inode := next_inode\<rparr>))) (\<lambda>ns.
      Inr (inode, ns))))"

definition apply_mkdir :: "string \<Rightarrow> u32 \<Rightarrow> bool \<Rightarrow> int \<Rightarrow> namespace \<Rightarrow> (nat \<times> namespace) result" where
  "apply_mkdir path mode concurrent now ns =
     (let normalized = normalize_path path in
      and_then (ns_walk ns normalized False ''mkdir'' 0) (\<lambda>en.
      if ne_node en \<noteq> None then Inl (error_with_path Eexist ''mkdir'' (ne_path en))
      else insert_new (ne_parent en) (ne_name en)
             (new_directory_node (ns_next_inode ns) (S_IFDIR OR (mode AND NOT (ns_umask ns) AND PERM_MASK))
                (ns_default_uid ns) (ns_default_gid ns) now)
             ''mkdir'' (ne_path en) normalized concurrent now ns))"

text \<open>
  The recursive form walks every prefix of the path. The fold carries the prefix reached, the first
  directory created and the namespace.
\<close>

definition ns_mkdir_segment ::
  "string \<Rightarrow> u32 \<Rightarrow> bool \<Rightarrow> int \<Rightarrow> string \<times> string option \<times> namespace \<Rightarrow> string \<Rightarrow> (string \<times> string option \<times> namespace) result" where
  "ns_mkdir_segment normalized mode concurrent now st segment =
     (case st of (current, first_created, ns) \<Rightarrow>
      let current = (if current \<noteq> ''/'' then current @ ''/'' else current) @ segment in
      and_then (ns_walk ns current True ''mkdir'' 0) (\<lambda>en.
      case ne_node en of
        Some inode \<Rightarrow>
          and_then (ok_or (fmlookup (ns_nodes ns) inode) (error_with_path Estale ''mkdir'' current)) (\<lambda>node.
          if \<not> is_dir_data (nm_data node)
          then Inl (error_with_path (if current = normalized then Eexist else Enotdir) ''mkdir'' current)
          else Inr (current, first_created, ns))
      | None \<Rightarrow>
          and_then (insert_new (ne_parent en) (ne_name en)
                      (new_directory_node (ns_next_inode ns) mode (ns_default_uid ns) (ns_default_gid ns) now)
                      ''mkdir'' current current concurrent now ns) (\<lambda>(_, ns).
          Inr (current, (case first_created of None \<Rightarrow> Some current | Some p \<Rightarrow> Some p), ns))))"

definition ns_mkdir :: "string \<Rightarrow> mkdir_options \<Rightarrow> bool \<Rightarrow> int \<Rightarrow> namespace \<Rightarrow> (string option \<times> namespace) result" where
  "ns_mkdir path options concurrent now ns =
     (let normalized = normalize_path path;
          requested = (case mo_mode options of None \<Rightarrow> 0x1FF | Some m \<Rightarrow> m);
          mode = S_IFDIR OR (requested AND NOT (ns_umask ns) AND PERM_MASK)
      in if mo_recursive options
         then and_then (try_fold (ns_mkdir_segment normalized mode concurrent now) (''/'', None, ns) (split_path normalized))
                (\<lambda>(_, first_created, ns). Inr (first_created, ns))
         else and_then (apply_mkdir normalized mode concurrent now ns) (\<lambda>(_, ns). Inr (None, ns)))"

definition apply_symlink :: "string \<Rightarrow> string \<Rightarrow> bool \<Rightarrow> int \<Rightarrow> namespace \<Rightarrow> (nat \<times> namespace) result" where
  "apply_symlink target path concurrent now ns =
     (let normalized = normalize_path path in
      if target = [] then Inl (with_dest normalized (error_with_path Enoent ''symlink'' target))
      else and_then (ns_walk ns normalized False ''symlink'' 0) (\<lambda>en.
      if ne_node en \<noteq> None then Inl (error_with_path Eexist ''symlink'' (ne_path en))
      else insert_new (ne_parent en) (ne_name en)
             \<lparr>nm_stats = with_times now (base_stats (ns_next_inode ns) (S_IFLNK OR 0x1FF)
                (ns_default_uid ns) (ns_default_gid ns) 1 (length target) (div_ceil (length target) 512)),
              nm_data = ND_Symlink target\<rparr>
             ''symlink'' (ne_path en) normalized concurrent now ns))"

definition apply_mknod :: "string \<Rightarrow> u32 \<Rightarrow> nat \<Rightarrow> bool \<Rightarrow> int \<Rightarrow> namespace \<Rightarrow> (nat \<times> namespace) result" where
  "apply_mknod path mode dev concurrent now ns =
     (let normalized = normalize_path path in
      and_then (ns_walk ns normalized False ''mknod'' 0) (\<lambda>en.
      if ne_node en \<noteq> None then Inl (error_with_path Eexist ''mknod'' (ne_path en))
      else let kind = file_type_from_mode mode in
      if \<not> is_special kind \<and> kind \<noteq> File then Inl (error_with_path Eperm ''mknod'' (ne_path en))
      else insert_new (ne_parent en) (ne_name en)
             \<lparr>nm_stats = (with_times now (base_stats (ns_next_inode ns)
                (mode_bits kind OR (mode AND NOT S_IFMT AND NOT (ns_umask ns) AND PERM_MASK))
                (ns_default_uid ns) (ns_default_gid ns) 1 0 0))
                  \<lparr>st_rdev := if kind = BlockDevice \<or> kind = CharacterDevice then dev else 0\<rparr>,
              nm_data = (if kind = File
                         then ND_File \<lparr>fl_chunker = ns_default_chunker ns, fl_extents = []\<rparr>
                         else ND_Special)\<rparr>
             ''mknod'' (ne_path en) normalized concurrent now ns))"

definition apply_link :: "string \<Rightarrow> string \<Rightarrow> bool \<Rightarrow> int \<Rightarrow> namespace \<Rightarrow> namespace result" where
  "apply_link existing_path target_path concurrent now ns =
     (let existing = normalize_path existing_path; new_path = normalize_path target_path in
      and_then (ns_walk ns existing False ''link'' 0) (\<lambda>source.
      and_then (ok_or (ne_node source) (with_dest new_path (error_with_path Enoent ''link'' (ne_path source)))) (\<lambda>inode.
      if ns_dir ns inode then Inl (with_dest new_path (error_with_path Eperm ''link'' (ne_path source)))
      else and_then (ns_walk ns new_path False ''link'' 0) (\<lambda>dest.
      if ne_node dest \<noteq> None then Inl (error_with_path Eexist ''link'' (ne_path dest))
      else and_then (case fmlookup (ns_nodes ns) inode of
                       None \<Rightarrow> Inr ns
                     | Some node \<Rightarrow>
                         and_then (ok_or (checked_add (st_nlink (nm_stats node)) 1)
                                     (error_with_path Emlink ''link'' (ne_path source))) (\<lambda>nlink.
                         and_then (touch_changed concurrent now ((nm_stats node)\<lparr>st_nlink := nlink\<rparr>)) (\<lambda>st.
                         Inr (ns_put inode (node\<lparr>nm_stats := st\<rparr>) ns)))) (\<lambda>ns.
      add_entry (ne_parent dest) (ne_name dest) inode ''link'' (ne_path dest) concurrent now ns)))))"

section \<open>Removal\<close>

definition apply_unlink ::
  "chunked_options \<Rightarrow> nat fset \<Rightarrow> string \<Rightarrow> int \<Rightarrow> namespace \<times> orphans \<Rightarrow> (namespace \<times> orphans) result" where
  "apply_unlink opts open_refs path now st =
     (case st of (ns, orphans) \<Rightarrow>
      and_then (ns_walk ns path False ''unlink'' 0) (\<lambda>en.
      and_then (ok_or (ne_node en) (error_with_path Enoent ''unlink'' (ne_path en))) (\<lambda>inode.
      and_then (ok_or (fmlookup (ns_nodes ns) inode) (error_with_path Estale ''unlink'' (ne_path en))) (\<lambda>node.
      if is_dir_data (nm_data node) then Inl (error_with_path Eisdir ''unlink'' (ne_path en))
      else and_then (detach_entry (ne_parent en) (ne_name en) True ''unlink'' (ne_path en)
                       (co_concurrent_writes opts) now ns) (\<lambda>(_, ns).
      reap_detached opts open_refs inode (ns, orphans))))))"

definition apply_rmdir ::
  "chunked_options \<Rightarrow> nat fset \<Rightarrow> string \<Rightarrow> int \<Rightarrow> namespace \<times> orphans \<Rightarrow> (namespace \<times> orphans) result" where
  "apply_rmdir opts open_refs path now st =
     (case st of (ns, orphans) \<Rightarrow>
      and_then (ns_walk ns (normalize_path path) False ''rmdir'' 0) (\<lambda>en.
      and_then (ok_or (ne_node en) (error_with_path Enoent ''rmdir'' (ne_path en))) (\<lambda>inode.
      if inode = ns_root ns then Inl (error_with_path Ebusy ''rmdir'' (ne_path en))
      else and_then (ok_or (fmlookup (ns_nodes ns) inode) (error_with_path Estale ''rmdir'' (ne_path en))) (\<lambda>node.
      case nm_data node of
        ND_Directory entries \<Rightarrow>
          if entries \<noteq> [] then Inl (error_with_path Enotempty ''rmdir'' (ne_path en))
          else and_then (detach_entry (ne_parent en) (ne_name en) True ''rmdir'' (ne_path en)
                           (co_concurrent_writes opts) now ns) (\<lambda>(_, ns).
          reap_detached opts open_refs inode (ns, orphans))
      | _ \<Rightarrow> Inl (error_with_path Enotdir ''rmdir'' (ne_path en))))))"

text \<open>What a rename replaces is removed first.\<close>

definition clear_destination ::
  "chunked_options \<Rightarrow> nat fset \<Rightarrow> (error_code \<Rightarrow> fs_error) \<Rightarrow> bool \<Rightarrow> ns_entry \<Rightarrow> int \<Rightarrow> namespace \<times> orphans
     \<Rightarrow> (namespace \<times> orphans) result" where
  "clear_destination opts open_refs refuse source_is_dir dest now st =
     (case st of (ns, orphans) \<Rightarrow>
      case ne_node dest of
        None \<Rightarrow> Inr (ns, orphans)
      | Some destination \<Rightarrow>
          let destination_entries = (case fmlookup (ns_nodes ns) destination of
                Some n \<Rightarrow> (case nm_data n of ND_Directory es \<Rightarrow> Some es | _ \<Rightarrow> None)
              | None \<Rightarrow> None)
          in if source_is_dir \<and> destination_entries = None then Inl (refuse Enotdir)
             else if source_is_dir \<and> destination_entries \<noteq> Some [] then Inl (refuse Enotempty)
             else if \<not> source_is_dir \<and> destination_entries \<noteq> None then Inl (refuse Eisdir)
             else and_then (detach_entry (ne_parent dest) (ne_name dest) True ''rename'' (ne_path dest)
                              (co_concurrent_writes opts) now ns)
                    (\<lambda>(_, ns). reap_detached opts open_refs destination (ns, orphans)))"

definition apply_rename ::
  "chunked_options \<Rightarrow> nat fset \<Rightarrow> string \<Rightarrow> string \<Rightarrow> int \<Rightarrow> namespace \<times> orphans \<Rightarrow> (namespace \<times> orphans) result" where
  "apply_rename opts open_refs old_path new_path now st =
     (case st of (ns, orphans) \<Rightarrow>
      let old_normalized = normalize_path old_path; new_normalized = normalize_path new_path;
          concurrent = co_concurrent_writes opts;
          refuse = (\<lambda>code. with_dest new_normalized (error_with_path code ''rename'' old_normalized))
      in
      and_then (ns_walk ns old_normalized False ''rename'' 0) (\<lambda>src.
      and_then (ok_or (ne_node src) (refuse Enoent)) (\<lambda>source.
      if source = ns_root ns then Inl (error_with_path Einval ''rename'' old_normalized)
      else and_then (ns_walk ns new_normalized False ''rename'' 0) (\<lambda>dest.
      if ne_node dest = Some source then Inr (ns, orphans)
      else let source_is_dir = ns_dir ns source in
      if source_is_dir \<and> is_path_inside (ne_path dest) (ne_path src) then Inl (refuse Einval)
      else
      and_then (clear_destination opts open_refs refuse source_is_dir dest now (ns, orphans))
        (\<lambda>(ns, orphans).
      and_then (detach_entry (ne_parent src) (ne_name src) False ''rename'' (ne_path src) concurrent now ns) (\<lambda>(_, ns).
      and_then (add_entry (ne_parent dest) (ne_name dest) source ''rename'' (ne_path dest) concurrent now ns) (\<lambda>ns.
      case fmlookup (ns_nodes ns) source of
        None \<Rightarrow> Inr (ns, orphans)
      | Some node \<Rightarrow>
          and_then (touch_changed concurrent now (nm_stats node)) (\<lambda>st.
          Inr (ns_put source (node\<lparr>nm_stats := st\<rparr>) ns, orphans)))))))))"

end
