(* ===== verification/Chunked_Attributes.thy ===== *)
theory Chunked_Attributes
  imports Chunked_Mutations
begin

text \<open>
  Model of the remaining mutations of the chunked file system
  (\<^verbatim>\<open>filesystems/mount-rs-chunked/src/lib.rs\<close>): attributes and truncation, opening with creation and
  truncation, whole-file replacement, and the requests of opaque handles, which are guarded by the
  identity of the inode a path led to.
\<close>

section \<open>Attributes\<close>

definition resolve_node :: "namespace \<Rightarrow> string \<Rightarrow> bool \<Rightarrow> string \<Rightarrow> (nat \<times> node_metadata) result" where
  "resolve_node ns path follow syscall =
     and_then (ns_resolve ns path follow syscall) (\<lambda>inode.
     and_then (ok_or (fmlookup (ns_nodes ns) inode) (error_with_path Estale syscall path)) (\<lambda>node.
     Inr (inode, node)))"

definition ns_chmod :: "string \<Rightarrow> u32 \<Rightarrow> bool \<Rightarrow> int \<Rightarrow> namespace \<Rightarrow> namespace result" where
  "ns_chmod path mode concurrent now ns =
     and_then (resolve_node ns (normalize_path path) True ''chmod'') (\<lambda>(inode, node).
     and_then (touch_changed concurrent now
                 ((nm_stats node)\<lparr>st_mode := (st_mode (nm_stats node) AND S_IFMT) OR (mode AND PERM_MASK)\<rparr>)) (\<lambda>st.
     Inr (ns_put inode (node\<lparr>nm_stats := st\<rparr>) ns)))"

definition chown_path :: "string \<Rightarrow> u32 \<Rightarrow> u32 \<Rightarrow> bool \<Rightarrow> string \<Rightarrow> bool \<Rightarrow> int \<Rightarrow> namespace \<Rightarrow> namespace result" where
  "chown_path path uid gid follow syscall concurrent now ns =
     and_then (resolve_node ns (normalize_path path) follow syscall) (\<lambda>(inode, node).
     let st = nm_stats node;
         st = (if uid \<noteq> U32_MAX then st\<lparr>st_uid := uid\<rparr> else st);
         st = (if gid \<noteq> U32_MAX then st\<lparr>st_gid := gid\<rparr> else st)
     in and_then (touch_changed concurrent now st) (\<lambda>st.
     Inr (ns_put inode (node\<lparr>nm_stats := st\<rparr>) ns)))"

definition utimes_path :: "string \<Rightarrow> int \<Rightarrow> int \<Rightarrow> bool \<Rightarrow> string \<Rightarrow> bool \<Rightarrow> int \<Rightarrow> namespace \<Rightarrow> namespace result" where
  "utimes_path path atime_ms mtime_ms follow syscall concurrent now ns =
     and_then (resolve_node ns (normalize_path path) follow syscall) (\<lambda>(inode, node).
     and_then (touch_changed concurrent now
                 ((nm_stats node)\<lparr>st_atime_ms := atime_ms, st_mtime_ms := mtime_ms\<rparr>)) (\<lambda>st.
     Inr (ns_put inode (node\<lparr>nm_stats := st\<rparr>) ns)))"

text \<open>
  A file with new data: its layout and size, and the times of a modification. Truncation to a
  shorter length trims the extents; the error for a special file is the caller's.
\<close>

definition store_file :: "file_layout \<Rightarrow> nat \<Rightarrow> bool \<Rightarrow> int \<Rightarrow> node_metadata \<Rightarrow> node_metadata result" where
  "store_file layout sz concurrent now node =
     and_then (touch_modified concurrent now (set_file_size sz (nm_stats node))) (\<lambda>st.
     Inr \<lparr>nm_stats = st, nm_data = ND_File layout\<rparr>)"

definition truncate_node ::
  "error_code \<Rightarrow> string \<Rightarrow> string \<Rightarrow> nat \<Rightarrow> bool \<Rightarrow> int \<Rightarrow> node_metadata \<Rightarrow> node_metadata result" where
  "truncate_node special syscall path len concurrent now node =
     (case nm_data node of
        ND_File layout \<Rightarrow>
          and_then (if len < st_size (nm_stats node) then trim_extents (fl_extents layout) len
                    else Inr (fl_extents layout)) (\<lambda>extents.
          store_file (layout\<lparr>fl_extents := extents\<rparr>) len concurrent now node)
      | ND_Directory _ \<Rightarrow> Inl (error_with_path Eisdir syscall path)
      | ND_Special \<Rightarrow> Inl (error_with_path special syscall path)
      | ND_Symlink _ \<Rightarrow> Inl (error_with_path Eio syscall path))"

definition ns_truncate :: "string \<Rightarrow> nat \<Rightarrow> bool \<Rightarrow> int \<Rightarrow> namespace \<Rightarrow> namespace result" where
  "ns_truncate path len concurrent now ns =
     and_then (resolve_node ns (normalize_path path) True ''truncate'') (\<lambda>(inode, node).
     and_then (truncate_node Einval ''truncate'' (normalize_path path) len concurrent now node) (\<lambda>node.
     Inr (ns_put inode node ns)))"

section \<open>Whole files\<close>

record whole_file_mutation =
  wf_path :: string
  wf_inode :: nat
  wf_expected_revision :: nat
  wf_new_inode :: bool
  wf_original :: "node_metadata option"
  wf_layout :: file_layout
  wf_data_length :: nat

datatype whole_file_result = WfConflict | WfCommitted

definition write_base_unchanged :: "node_metadata \<Rightarrow> node_metadata \<Rightarrow> bool" where
  "write_base_unchanged current original \<longleftrightarrow>
     st_ino (nm_stats current) = st_ino (nm_stats original)
     \<and> st_size (nm_stats current) = st_size (nm_stats original)
     \<and> (case (nm_data current, nm_data original) of (ND_File a, ND_File b) \<Rightarrow> a = b | _ \<Rightarrow> False)"

definition apply_whole_file ::
  "nat \<Rightarrow> whole_file_mutation \<Rightarrow> bool \<Rightarrow> int \<Rightarrow> namespace \<Rightarrow> (whole_file_result \<times> namespace) result" where
  "apply_whole_file current_revision m concurrent now ns =
     (if wf_new_inode m
      then
        and_then (ns_walk ns (wf_path m) True ''open'' 0) (\<lambda>en.
        if current_revision \<noteq> wf_expected_revision m \<or> ns_next_inode ns \<noteq> wf_inode m \<or> ne_node en \<noteq> None
        then Inr (WfConflict, ns)
        else and_then (insert_new (ne_parent en) (ne_name en)
                         (new_file_node (wf_inode m) (S_IFREG OR (0x1B6 AND NOT (ns_umask ns) AND PERM_MASK))
                            (ns_default_uid ns) (ns_default_gid ns) (ns_default_chunker ns) now)
                         ''open'' (ne_path en) (wf_path m) concurrent now ns) (\<lambda>(_, ns).
        and_then (ok_or (fmlookup (ns_nodes ns) (wf_inode m)) (error_with_path Estale ''write'' (wf_path m))) (\<lambda>target.
        and_then (store_file (wf_layout m) (wf_data_length m) concurrent now target) (\<lambda>node.
        Inr (WfCommitted, ns_put (wf_inode m) node ns)))))
      else if current_revision \<noteq> wf_expected_revision m then Inr (WfConflict, ns)
      else if (case ns_walk ns (wf_path m) True ''write'' 0 of Inl _ \<Rightarrow> None | Inr en \<Rightarrow> ne_node en) \<noteq> Some (wf_inode m)
      then Inr (WfConflict, ns)
      else (case fmlookup (ns_nodes ns) (wf_inode m) of
              None \<Rightarrow> Inr (WfConflict, ns)
            | Some target \<Rightarrow>
                if \<not> (case wf_original m of None \<Rightarrow> False | Some original \<Rightarrow> write_base_unchanged target original)
                then Inr (WfConflict, ns)
                else and_then (store_file (wf_layout m) (wf_data_length m) concurrent now target) (\<lambda>node.
                     Inr (WfCommitted, ns_put (wf_inode m) node ns))))"

section \<open>Guards of opaque handles\<close>

definition ns_stale_guard :: "string \<Rightarrow> string \<Rightarrow> fs_error" where
  "ns_stale_guard path syscall =
     with_message ''opaque handle no longer names its original inode'' (error_with_path Estale syscall path)"

definition ns_check_path_guard :: "namespace \<Rightarrow> path_guard \<Rightarrow> string \<Rightarrow> nat result" where
  "ns_check_path_guard ns guard syscall =
     (let path = normalize_path (pg_path guard) in
      if pi_ino (pg_identity guard) = 0 then Inl (ns_stale_guard path syscall)
      else and_then (map_err (\<lambda>_. ns_stale_guard path syscall) (ns_resolve ns path False syscall)) (\<lambda>inode.
      and_then (ok_or (fmlookup (ns_nodes ns) inode) (ns_stale_guard path syscall)) (\<lambda>node.
      if st_dev (nm_stats node) \<noteq> pi_dev (pg_identity guard) \<or> st_ino (nm_stats node) \<noteq> pi_ino (pg_identity guard)
      then Inl (ns_stale_guard path syscall)
      else Inr inode)))"

definition guarded_child_path :: "path_guard \<Rightarrow> string \<Rightarrow> string \<Rightarrow> string result" where
  "guarded_child_path parent name syscall =
     (if name = [] \<or> str_contains CHR ''/'' name \<or> str_contains CHR 0x00 name \<or> name = ''.'' \<or> name = ''..''
      then Inl (error_with_path Einval syscall name)
      else Inr (normalize_path (pg_path parent @ ''/'' @ name)))"

definition check_observed_entry ::
  "namespace \<Rightarrow> nat option \<Rightarrow> observed_entry \<Rightarrow> string \<Rightarrow> string \<Rightarrow> unit result" where
  "check_observed_entry ns inode observed path syscall =
     (case observed of
        ObservedAny \<Rightarrow> Inr ()
      | ObservedAbsent \<Rightarrow> if inode = None then Inr () else Inl (ns_stale_guard path syscall)
      | ObservedIdentity identity \<Rightarrow>
          if pi_ino identity = 0 then Inl (ns_stale_guard path syscall)
          else and_then (ok_or (case inode of None \<Rightarrow> None | Some i \<Rightarrow> fmlookup (ns_nodes ns) i) (ns_stale_guard path syscall)) (\<lambda>node.
               if st_dev (nm_stats node) = pi_dev identity \<and> st_ino (nm_stats node) = pi_ino identity
               then Inr () else Inl (ns_stale_guard path syscall)))"

definition ns_guarded_child_entry ::
  "namespace \<Rightarrow> path_guard \<Rightarrow> string \<Rightarrow> observed_entry \<Rightarrow> string \<Rightarrow> ns_entry result" where
  "ns_guarded_child_entry ns parent name observed syscall =
     and_then (ns_check_path_guard ns parent syscall) (\<lambda>parent_inode.
     and_then (ok_or (fmlookup (ns_nodes ns) parent_inode) (ns_stale_guard (pg_path parent) syscall)) (\<lambda>parent_node.
     if \<not> is_dir_data (nm_data parent_node) then Inl (ns_stale_guard (pg_path parent) syscall)
     else and_then (guarded_child_path parent name syscall) (\<lambda>path.
     and_then (ns_walk ns path False syscall 0) (\<lambda>en.
     if ne_parent en \<noteq> parent_inode then Inl (ns_stale_guard (pg_path parent) syscall)
     else and_then (check_observed_entry ns (ne_node en) observed path syscall) (\<lambda>_. Inr en)))))"

definition ns_guarded_setattr :: "path_guard \<Rightarrow> guarded_setattr \<Rightarrow> bool \<Rightarrow> int \<Rightarrow> namespace \<Rightarrow> namespace result" where
  "ns_guarded_setattr target change concurrent now ns =
     and_then (ns_check_path_guard ns target ''setattr'') (\<lambda>inode.
     and_then (ok_or (fmlookup (ns_nodes ns) inode) (ns_stale_guard (pg_path target) ''setattr'')) (\<lambda>node.
     if (case gs_expected_ctime_ms change of None \<Rightarrow> False | Some t \<Rightarrow> st_ctime_ms (nm_stats node) \<noteq> t)
     then Inl (with_message ''change time guard does not match the current inode''
                 (error_with_path Eagain ''setattr'' (pg_path target)))
     else
     let uid = (case gs_uid change of Some u \<Rightarrow> if u \<noteq> U32_MAX then Some u else None | None \<Rightarrow> None);
         gid = (case gs_gid change of Some g \<Rightarrow> if g \<noteq> U32_MAX then Some g else None | None \<Rightarrow> None);
         st = nm_stats node;
         st = (case gs_mode change of None \<Rightarrow> st | Some m \<Rightarrow> st\<lparr>st_mode := (st_mode st AND S_IFMT) OR (m AND PERM_MASK)\<rparr>);
         st = (case uid of None \<Rightarrow> st | Some u \<Rightarrow> st\<lparr>st_uid := u\<rparr>);
         st = (case gid of None \<Rightarrow> st | Some g \<Rightarrow> st\<lparr>st_gid := g\<rparr>);
         metadata_changed = (gs_mode change \<noteq> None \<or> uid \<noteq> None \<or> gid \<noteq> None
                             \<or> gs_atime_ms change \<noteq> None \<or> gs_mtime_ms change \<noteq> None)
     in
     and_then (case gs_size change of
                 None \<Rightarrow> Inr (node\<lparr>nm_stats := st\<rparr>)
               | Some len \<Rightarrow> truncate_node Einval ''setattr'' (pg_path target) len concurrent now (node\<lparr>nm_stats := st\<rparr>)) (\<lambda>node.
     let st = nm_stats node;
         st = (case gs_atime_ms change of None \<Rightarrow> st | Some t \<Rightarrow> st\<lparr>st_atime_ms := t\<rparr>);
         st = (case gs_mtime_ms change of None \<Rightarrow> st | Some t \<Rightarrow> st\<lparr>st_mtime_ms := t\<rparr>)
     in
     and_then (if metadata_changed \<and> gs_size change = None then touch_changed concurrent now st else Inr st) (\<lambda>st.
     Inr (ns_put inode (node\<lparr>nm_stats := st\<rparr>) ns)))))"

end
