(* ===== verification/Chunked_Requests.thy ===== *)
theory Chunked_Requests
  imports Chunked_Attributes
begin

text \<open>
  Model of the requests of the chunked file system that combine its namespace operations
  (\<^verbatim>\<open>filesystems/mount-rs-chunked/src/lib.rs\<close>): opening, the guarded mutations and the guarded reads.
  The state is the namespace with the nodes kept for open handles.
\<close>

section \<open>Opening\<close>

text \<open>
  The part of \<^verbatim>\<open>open_flags_inner\<close> up to publication: the inode opened, whether the namespace changed,
  and the candidate. \<open>authority\<close> is the check of the delegated mode on an inode.
\<close>

definition open_guard ::
  "namespace \<Rightarrow> string \<Rightarrow> open_flags \<Rightarrow> ns_entry \<Rightarrow> (path_guard \<times> string \<times> observed_entry) option \<Rightarrow> unit result" where
  "open_guard ns normalized flags en guard =
     (case guard of
        None \<Rightarrow> Inr ()
      | Some (parent_guard, name, observed) \<Rightarrow>
          and_then (ns_guarded_child_entry ns parent_guard name observed ''open'') (\<lambda>original.
          if ne_path original \<noteq> normalized \<or> ne_parent en \<noteq> ne_parent original
          then Inl (ns_stale_guard (pg_path parent_guard) ''open'')
          else if (case ne_node original of
                     None \<Rightarrow> False
                   | Some inode \<Rightarrow> (case fmlookup (ns_nodes ns) inode of
                       None \<Rightarrow> False
                     | Some n \<Rightarrow> (case nm_data n of ND_Symlink _ \<Rightarrow> True | _ \<Rightarrow> False)))
          then Inl (error_with_path Eexist ''open'' normalized)
          else if ne_node en \<noteq> ne_node original then Inl (ns_stale_guard normalized ''open'')
          else if of_truncate flags \<and> \<not> of_exclusive flags \<and> ne_node original \<noteq> None
                  \<and> (case observed of ObservedIdentity _ \<Rightarrow> False | _ \<Rightarrow> True)
          then Inl (ns_stale_guard normalized ''open'')
          else Inr ()))"

definition open_candidate ::
  "(namespace \<Rightarrow> nat \<Rightarrow> unit result) \<Rightarrow> chunked_options \<Rightarrow> string \<Rightarrow> open_flags \<Rightarrow> u32
     \<Rightarrow> (path_guard \<times> string \<times> observed_entry) option \<Rightarrow> int \<Rightarrow> namespace \<Rightarrow> (nat \<times> bool \<times> namespace) result" where
  "open_candidate authority opts path flags mode guard now ns =
     (if \<not> of_read flags \<and> \<not> of_write flags then Inl (error_with_path Einval ''open'' path)
      else if of_truncate flags \<and> \<not> of_write flags then Inl (error_with_path Einval ''open'' path)
      else let normalized = normalize_path path; concurrent = co_concurrent_writes opts in
      and_then (ns_walk ns normalized (\<not> (of_create flags \<and> of_exclusive flags)) ''open'' 0) (\<lambda>en.
      and_then (open_guard ns normalized flags en guard) (\<lambda>_.
      and_then (if co_delegated opts
                then authority ns (case ne_node en of None \<Rightarrow> ne_parent en | Some i \<Rightarrow> i) else Inr ()) (\<lambda>_.
      case ne_node en of
        Some inode \<Rightarrow>
          if of_exclusive flags then Inl (error_with_path Eexist ''open'' (ne_path en))
          else and_then (ok_or (fmlookup (ns_nodes ns) inode) (error_with_path Estale ''open'' (ne_path en))) (\<lambda>node.
          let kind = file_type_from_mode (st_mode (nm_stats node)) in
          if kind = Directory \<and> of_write flags then Inl (error_with_path Eisdir ''open'' (ne_path en))
          else if is_special kind then Inl (error_with_path Enxio ''open'' (ne_path en))
          else if of_truncate flags
          then and_then (touch_modified concurrent now (set_file_size 0 (nm_stats node))) (\<lambda>st.
               Inr (inode, True, ns_put inode
                 \<lparr>nm_stats = st,
                  nm_data = (case nm_data node of ND_File l \<Rightarrow> ND_File (l\<lparr>fl_extents := []\<rparr>) | d \<Rightarrow> d)\<rparr> ns))
          else Inr (inode, False, ns))
      | None \<Rightarrow>
          if \<not> of_create flags then Inl (error_with_path Enoent ''open'' (ne_path en))
          else and_then (parent_entries ns (ne_parent en) ''open'' (ne_path en)) (\<lambda>_.
          and_then (insert_new (ne_parent en) (ne_name en)
                      (new_file_node (ns_next_inode ns) (S_IFREG OR (mode AND NOT (ns_umask ns) AND PERM_MASK))
                         (ns_default_uid ns) (ns_default_gid ns) (ns_default_chunker ns) now)
                      ''open'' (ne_path en) (ne_path en) concurrent now ns) (\<lambda>(inode, ns).
          Inr (inode, True, ns)))))))"

section \<open>Guarded mutations\<close>

datatype guarded_outcome = GoApplied | GoCreated nat | GoOpened nat

definition guarded_candidate ::
  "(namespace \<Rightarrow> nat \<Rightarrow> unit result) \<Rightarrow> chunked_options \<Rightarrow> nat fset \<Rightarrow> guarded_mutation \<Rightarrow> int \<Rightarrow> namespace \<times> orphans
     \<Rightarrow> (guarded_outcome \<times> namespace \<times> orphans) result" where
  "guarded_candidate authority opts open_refs request now st =
     (case st of (ns, orphans) \<Rightarrow>
      let concurrent = co_concurrent_writes opts;
          created = (\<lambda>r. and_then r (\<lambda>(inode, ns). Inr (GoCreated inode, ns, orphans)));
          applied = (\<lambda>r. and_then r (\<lambda>(ns, orphans). Inr (GoApplied, ns, orphans)))
      in (case request of
        GM_Setattr target change \<Rightarrow>
          and_then (ns_guarded_setattr target change concurrent now ns) (\<lambda>ns. Inr (GoApplied, ns, orphans))
      | GM_Open parent name observed flags mode \<Rightarrow>
          and_then (guarded_child_path parent name ''open'') (\<lambda>path.
          and_then (open_candidate authority opts path flags mode (Some (parent, name, observed)) now ns) (\<lambda>(inode, _, ns).
          Inr (GoOpened inode, ns, orphans)))
      | GM_Mkdir parent name mode \<Rightarrow>
          and_then (guarded_child_path parent name ''mkdir'') (\<lambda>path.
          and_then (ns_guarded_child_entry ns parent name ObservedAny ''mkdir'') (\<lambda>_.
          created (apply_mkdir path mode concurrent now ns)))
      | GM_Symlink parent name target \<Rightarrow>
          and_then (guarded_child_path parent name ''symlink'') (\<lambda>path.
          and_then (ns_guarded_child_entry ns parent name ObservedAny ''symlink'') (\<lambda>_.
          created (apply_symlink target path concurrent now ns)))
      | GM_Mknod parent name mode dev \<Rightarrow>
          and_then (guarded_child_path parent name ''mknod'') (\<lambda>path.
          and_then (ns_guarded_child_entry ns parent name ObservedAny ''mknod'') (\<lambda>_.
          created (apply_mknod path mode dev concurrent now ns)))
      | GM_Unlink parent name observed \<Rightarrow>
          and_then (guarded_child_path parent name ''unlink'') (\<lambda>path.
          and_then (ns_guarded_child_entry ns parent name observed ''unlink'') (\<lambda>_.
          applied (apply_unlink opts open_refs path now (ns, orphans))))
      | GM_Rmdir parent name observed \<Rightarrow>
          and_then (guarded_child_path parent name ''rmdir'') (\<lambda>path.
          and_then (ns_guarded_child_entry ns parent name observed ''rmdir'') (\<lambda>_.
          applied (apply_rmdir opts open_refs path now (ns, orphans))))
      | GM_Rename from_parent from_name source to_parent to_name destination \<Rightarrow>
          and_then (guarded_child_path from_parent from_name ''rename'') (\<lambda>old_path.
          and_then (guarded_child_path to_parent to_name ''rename'') (\<lambda>new_path.
          and_then (ns_guarded_child_entry ns from_parent from_name source ''rename'') (\<lambda>_.
          and_then (ns_guarded_child_entry ns to_parent to_name destination ''rename'') (\<lambda>_.
          applied (apply_rename opts open_refs old_path new_path now (ns, orphans))))))
      | GM_Link source to_parent to_name destination \<Rightarrow>
          and_then (guarded_child_path to_parent to_name ''link'') (\<lambda>new_path.
          and_then (ns_check_path_guard ns source ''link'') (\<lambda>_.
          and_then (ns_guarded_child_entry ns to_parent to_name destination ''link'') (\<lambda>_.
          and_then (apply_link (pg_path source) new_path concurrent now ns) (\<lambda>ns.
          Inr (GoApplied, ns, orphans)))))))"

section \<open>Guarded reads\<close>

definition guarded_node :: "namespace \<Rightarrow> path_guard \<Rightarrow> string \<Rightarrow> (nat \<times> node_metadata) result" where
  "guarded_node ns guard syscall =
     and_then (ns_check_path_guard ns guard syscall) (\<lambda>inode.
     and_then (ok_or (fmlookup (ns_nodes ns) inode) (ns_stale_guard (pg_path guard) syscall)) (\<lambda>node.
     Inr (inode, node)))"

definition ns_guarded_read :: "guarded_read \<Rightarrow> namespace \<Rightarrow> guarded_read_result result" where
  "ns_guarded_read request ns =
     (case request of
        GR_Stat target \<Rightarrow>
          and_then (guarded_node ns target ''guarded stat'') (\<lambda>(_, node). Inr (RR_Stat (nm_stats node)))
      | GR_Lookup parent name \<Rightarrow>
          and_then (guarded_node ns parent ''guarded lookup'') (\<lambda>(inode, node).
          case nm_data node of
            ND_Directory entries \<Rightarrow>
              and_then
                (if name = ''.'' then Inr inode
                 else if name = ''..''
                 then and_then (ns_walk ns (pg_path parent) False ''guarded lookup'' 0) (\<lambda>en. Inr (ne_parent en))
                 else and_then (guarded_child_path parent name ''guarded lookup'') (\<lambda>_.
                      and_then (ok_or (find (\<lambda>e. dn_name e = name) entries)
                                  (error_with_path Enoent ''guarded lookup'' (pg_path parent @ ''/'' @ name))) (\<lambda>e.
                      Inr (dn_inode e)))) (\<lambda>child.
              and_then (ok_or (fmlookup (ns_nodes ns) child)
                          (ns_stale_guard (pg_path parent @ ''/'' @ name) ''guarded lookup'')) (\<lambda>child_node.
              Inr (RR_Lookup (nm_stats node) (nm_stats child_node))))
          | _ \<Rightarrow> Inl (error_with_path Enotdir ''guarded lookup'' (pg_path parent)))
      | GR_Readdir directory max_entries \<Rightarrow>
          if max_entries = 0
          then Inl (with_message ''directory entry limit must be positive''
                      (error_with_path Einval ''guarded readdir'' (pg_path directory)))
          else and_then (guarded_node ns directory ''guarded readdir'') (\<lambda>(_, node).
          case nm_data node of
            ND_Directory entries \<Rightarrow>
              if length entries > max_entries
              then Inl (with_message ''directory exceeds the configured entry limit''
                          (error_with_path Eoverflow ''guarded readdir'' (pg_path directory)))
              else and_then (try_map (\<lambda>e.
                       and_then (ok_or (fmlookup (ns_nodes ns) (dn_inode e))
                                   (ns_stale_guard (pg_path directory) ''guarded readdir'')) (\<lambda>child.
                       Inr \<lparr>ge_name = dn_name e, ge_stats = nm_stats child\<rparr>)) entries) (\<lambda>listing.
              Inr (RR_Directory (nm_stats node) listing))
          | _ \<Rightarrow> Inl (error_with_path Enotdir ''guarded readdir'' (pg_path directory)))
      | GR_Readlink target \<Rightarrow>
          and_then (guarded_node ns target ''guarded readlink'') (\<lambda>(_, node).
          case nm_data node of
            ND_Symlink link \<Rightarrow> Inr (RR_Readlink (nm_stats node) link)
          | _ \<Rightarrow> Inl (error_with_path Einval ''guarded readlink'' (pg_path target))))"

end
