(* ===== verification/Chunked_Mount.thy ===== *)
theory Chunked_Mount
  imports Chunked_Requests Memory_Store Memory_Blocks Mrs_State
begin

text \<open>
  Model of a chunked mount that owns its volume exclusively, over the memory providers
  (\<^verbatim>\<open>filesystems/mount-rs-chunked/src/lib.rs\<close>, \<^verbatim>\<open>providers/mount-rs-memory\<close>): opening and shutting
  down, the writer lease with its renewal and recovery, publication with and without write-back,
  mutation batches, and the reads, writes and closes of handles. The metadata store is shared: other
  clients may act on it before every call of the mount.
\<close>

section \<open>State\<close>

text \<open>
  \<^verbatim>\<open>ChunkedInner\<close> with its \<^verbatim>\<open>RuntimeState\<close> and its lease, and the two stores. The maps of the mode with
  independently versioned inodes, which this mode never fills, are left out.
\<close>

record chunked_mount =
  cm_options :: chunked_options
  cm_lease :: "writer_lease option"
  cm_lease_renewed :: bool
  cm_namespace :: namespace
  cm_revision :: nat
  cm_persisted_revision :: nat
  cm_pending_namespace :: bool
  cm_next_fd :: nat
  cm_open_refs :: "(nat, nat) fmap"
  cm_pending_atime :: "(nat, int) fmap"
  cm_orphans :: orphans
  cm_failure :: "fs_error option"
  cm_closed :: bool
  cm_metadata :: metadata_state
  cm_blocks :: block_map

text \<open>
  The surroundings of one call: the readings of the clock in milliseconds, and what other clients do
  to the metadata store before each call the mount makes to it. Both are numbered within the call.
\<close>

record surroundings =
  su_clock :: "nat \<Rightarrow> nat"
  su_others :: "nat \<Rightarrow> metadata_state \<Rightarrow> metadata_state"

definition later :: "nat \<Rightarrow> surroundings \<Rightarrow> surroundings" where
  "later k w = \<lparr>su_clock = (\<lambda>i. su_clock w (k + i)), su_others = (\<lambda>i. su_others w (k + i))\<rparr>"

definition provider :: "surroundings \<Rightarrow> nat \<Rightarrow> (nat \<Rightarrow> metadata_state \<Rightarrow> ('a \<times> metadata_state) result) \<Rightarrow> ('a, chunked_mount) op" where
  "provider w i call m =
     (let st = su_others w i (cm_metadata m) in
      case call (su_clock w i) st of
        Inl e \<Rightarrow> (Inl e, m\<lparr>cm_metadata := st\<rparr>)
      | Inr (x, st') \<Rightarrow> (Inr x, m\<lparr>cm_metadata := st'\<rparr>))"

definition fail_closed :: "fs_error \<Rightarrow> ('a, chunked_mount) op" where
  "fail_closed e m = (Inl e, if cm_failure m = None then m\<lparr>cm_failure := Some e\<rparr> else m)"

definition check_alive :: "chunked_mount \<Rightarrow> unit result" where
  "check_alive m =
     (case cm_failure m of
        Some e \<Rightarrow> Inl e
      | None \<Rightarrow> if cm_closed m then Inl (with_message ''filesystem is closed'' (fs_error_new Ebadf)) else Inr ())"

section \<open>The writer lease\<close>

datatype reacquired_fence = FenceNext | FenceFenced | FenceOverflow

definition classify_reacquired_fence :: "nat \<Rightarrow> nat \<Rightarrow> reacquired_fence" where
  "classify_reacquired_fence prior acquired =
     (case checked_add prior 1 of
        None \<Rightarrow> FenceOverflow
      | Some next_fence \<Rightarrow> if acquired = next_fence then FenceNext else FenceFenced)"

definition release_and_fail :: "surroundings \<Rightarrow> writer_lease \<Rightarrow> fs_error \<Rightarrow> ('a, chunked_mount) op" where
  "release_and_fail w lease e =
     sbind (attempt (provider w 4 (\<lambda>now. release_writer now lease))) (\<lambda>_. fail_closed e)"

definition reacquire_expired_lease :: "surroundings \<Rightarrow> writer_lease \<Rightarrow> (writer_lease, chunked_mount) op" where
  "reacquire_expired_lease w current =
     sbind (sread (\<lambda>m. Inr (cm_options m))) (\<lambda>opts.
     sbind (attempt (provider w 2 (\<lambda>now. acquire_writer now (co_owner opts) (co_lease_ttl opts)))) (\<lambda>r.
     case r of
       Inl e \<Rightarrow>
         fail_closed (if err_code e = Eagain
                      then with_message (fs_error_display e) (with_syscall ''lease-acquire'' (fs_error_new Estale))
                      else with_context e ''lease-acquire'' None)
     | Inr acquired \<Rightarrow>
         (case classify_reacquired_fence (wl_fence current) (wl_fence acquired) of
            FenceOverflow \<Rightarrow>
              release_and_fail w acquired
                (with_message ''writer lease fence overflow'' (with_syscall ''lease-acquire'' (fs_error_new Eoverflow)))
          | d \<Rightarrow>
              if d \<noteq> FenceNext \<or> wl_owner acquired \<noteq> co_owner opts
              then release_and_fail w acquired
                     (with_message ''writer lease was fenced by another owner''
                       (with_syscall ''lease-acquire'' (fs_error_new Estale)))
              else sbind (provider w 3 (\<lambda>_ st. Inr (ms_load st, st))) (\<lambda>loaded.
              case loaded_metadata_validate loaded of
                Inl e \<Rightarrow> release_and_fail w acquired (with_context e ''metadata-validate'' None)
              | Inr _ \<Rightarrow>
                  sbind (sread Inr) (\<lambda>m.
                  (case cm_failure m of
                     Some e \<Rightarrow> release_and_fail w acquired e
                   | None \<Rightarrow>
                       if cm_closed m
                       then release_and_fail w acquired
                              (with_message ''filesystem is closed'' (with_syscall ''lease-acquire'' (fs_error_new Ebadf)))
                       else if lm_revision loaded \<noteq> cm_persisted_revision m
                       then release_and_fail w acquired
                              (with_message ''metadata changed while the writer lease was expired''
                                (with_syscall ''lease-acquire'' (fs_error_new Eagain)))
                       else sbind (smodify (\<lambda>m. m\<lparr>cm_lease := Some acquired, cm_lease_renewed := True\<rparr>)) (\<lambda>_.
                            sret acquired)))))))"

definition renew_lease_inner :: "surroundings \<Rightarrow> bool \<Rightarrow> (writer_lease, chunked_mount) op" where
  "renew_lease_inner w forced =
     sbind (sread (\<lambda>m. ok_or (cm_lease m) (with_message ''writer lease released'' (fs_error_new Ebadf)))) (\<lambda>current.
     sbind (sread Inr) (\<lambda>m.
     let margin_ms = min (as_millis (co_lease_ttl (cm_options m))) 5000;
         now = su_clock w 0
     in
     if \<not> forced \<and> cm_lease_renewed m \<and> wl_expires_at_ms current > min U64_MAX (now + margin_ms)
     then sret current
     else sbind (attempt (provider w 1 (\<lambda>now. renew_writer now current (co_lease_ttl (cm_options m))))) (\<lambda>r.
     case r of
       Inl e \<Rightarrow>
         if err_code e = Estale then reacquire_expired_lease w current
         else fail_closed (with_context e ''lease-renew'' None)
     | Inr renewed \<Rightarrow>
         sbind (smodify (\<lambda>m. m\<lparr>cm_lease := Some renewed, cm_lease_renewed := True\<rparr>)) (\<lambda>_. sret renewed))))"

text \<open>In this mode an operation starts by renewing the lease, and the forced renewal is the validation.\<close>

abbreviation renew_lease :: "surroundings \<Rightarrow> (writer_lease, chunked_mount) op" where
  "renew_lease w \<equiv> renew_lease_inner w False"

section \<open>Snapshots and publication\<close>

definition fold_atimes :: "(nat, int) fmap \<Rightarrow> namespace \<Rightarrow> namespace" where
  "fold_atimes pending ns =
     ns\<lparr>ns_nodes := fmmap_keys (\<lambda>i n.
          case fmlookup pending i of
            None \<Rightarrow> n
          | Some t \<Rightarrow> n\<lparr>nm_stats := (nm_stats n)\<lparr>st_atime_ms := max (st_atime_ms (nm_stats n)) t\<rparr>\<rparr>) (ns_nodes ns)\<rparr>"

definition mount_snapshot :: "chunked_mount \<Rightarrow> (namespace \<times> nat) result" where
  "mount_snapshot m =
     and_then (check_alive m) (\<lambda>_. Inr (fold_atimes (cm_pending_atime m) (cm_namespace m), cm_revision m))"

definition node_snapshot :: "chunked_mount \<Rightarrow> namespace \<Rightarrow> nat \<Rightarrow> string \<Rightarrow> string \<Rightarrow> (node_metadata \<times> bool) result" where
  "node_snapshot m ns inode syscall path =
     (case fmlookup (ns_nodes ns) inode of
        Some node \<Rightarrow> Inr (node, False)
      | None \<Rightarrow>
          and_then (ok_or (fmlookup (cm_orphans m) inode) (error_with_path Estale syscall path)) (\<lambda>node.
          Inr (node, True)))"

text \<open>An inode that is open but not in the next namespace keeps its node for its handles.\<close>

definition retain_open_detached :: "namespace \<Rightarrow> chunked_mount \<Rightarrow> chunked_mount" where
  "retain_open_detached next_ns m =
     m\<lparr>cm_orphans := fmadd
         (fmfilter (\<lambda>i. (case fmlookup (cm_open_refs m) i of None \<Rightarrow> False | Some c \<Rightarrow> 0 < c)
                        \<and> fmlookup (ns_nodes next_ns) i = None) (ns_nodes (cm_namespace m)))
         (cm_orphans m)\<rparr>"

text \<open>
  The branch of the durable publication for exclusive ownership. The barriers of the memory stores
  always succeed.
\<close>

definition publish_namespace_durable :: "surroundings \<Rightarrow> nat \<Rightarrow> namespace \<Rightarrow> (nat, chunked_mount) op" where
  "publish_namespace_durable w expected_revision ns =
     sbind (sread Inr) (\<lambda>m.
     sbind (swhen (co_writeback (cm_options m)) (sbind (renew_lease_inner w True) (\<lambda>_. sret ()))) (\<lambda>_.
     sbind (renew_lease (later 5 w)) (\<lambda>lease.
     sbind (attempt (provider w 10 (\<lambda>now. ms_publish now expected_revision lease ns))) (\<lambda>r.
     case r of
       Inl e \<Rightarrow> fail_closed (with_context e ''metadata-publish'' None)
     | Inr revision \<Rightarrow>
         sbind (smodify (\<lambda>m. m\<lparr>cm_namespace := ns,
                  cm_revision := (if co_writeback (cm_options m) then cm_revision m else revision),
                  cm_persisted_revision := revision, cm_pending_atime := fmempty\<rparr>)) (\<lambda>_.
         sret revision)))))"

text \<open>
  The guard of a publication: an error that left it armed makes the mount unusable. A publication
  dropped before its outcome is known leaves the guard the same way, and the provider may have
  applied it or not.
\<close>

definition publication_guard :: "bool \<Rightarrow> ('a, chunked_mount) op \<Rightarrow> ('a, chunked_mount) op" where
  "publication_guard armed f m =
     (case f m of
        (Inr x, m') \<Rightarrow> (Inr x, m')
      | (Inl e, m') \<Rightarrow>
          (Inl e, if armed \<and> cm_failure m' = None
                  then m'\<lparr>cm_failure := Some (with_message ''metadata publication canceled before its outcome was known''
                           (with_syscall ''metadata-publish'' (fs_error_new Eio)))\<rparr>
                  else m'))"

definition publication_cancelled :: "surroundings \<Rightarrow> bool \<Rightarrow> nat \<Rightarrow> namespace \<Rightarrow> (unit, chunked_mount) op" where
  "publication_cancelled w applied expected_revision ns =
     sbind (sread Inr) (\<lambda>m.
     sbind (swhen (co_writeback (cm_options m)) (sbind (renew_lease_inner w True) (\<lambda>_. sret ()))) (\<lambda>_.
     sbind (renew_lease (later 5 w)) (\<lambda>lease.
     publication_guard True
       (sbind (attempt (provider w 10 (\<lambda>now st. if applied then ms_publish now expected_revision lease ns st else Inr (0, st))))
         (\<lambda>_. sfail (fs_error_new Eio))))))"

definition publish_namespace :: "surroundings \<Rightarrow> nat \<Rightarrow> namespace \<Rightarrow> (nat, chunked_mount) op" where
  "publish_namespace w expected_revision ns =
     sbind (sread Inr) (\<lambda>m.
     if \<not> co_writeback (cm_options m) then publish_namespace_durable w expected_revision ns
     else case cm_failure m of
       Some e \<Rightarrow> sfail e
     | None \<Rightarrow>
         if cm_closed m then sfail (fs_error_new Ebadf)
         else if expected_revision \<noteq> cm_revision m then sfail (fs_error_new Eagain)
         else sbind (sread (\<lambda>m. ok_or (checked_add (cm_revision m) 1)
                       (with_message ''local namespace generation overflow'' (fs_error_new Eio)))) (\<lambda>generation.
         sbind (smodify (\<lambda>m. (retain_open_detached ns m)\<lparr>cm_namespace := ns, cm_revision := generation,
                  cm_pending_namespace := True, cm_pending_atime := fmempty\<rparr>)) (\<lambda>_.
         sret generation)))"

definition drain_writeback :: "surroundings \<Rightarrow> (bool, chunked_mount) op" where
  "drain_writeback w =
     sbind (sread Inr) (\<lambda>m.
     if \<not> co_writeback (cm_options m) then sret False
     else sbind (sread mount_snapshot) (\<lambda>(ns, generation).
     if \<not> cm_pending_namespace m \<and> cm_pending_atime m = fmempty then sret False
     else sbind (attempt (publish_namespace_durable w (cm_persisted_revision m) ns)) (\<lambda>r.
     case r of
       Inl e \<Rightarrow> fail_closed e
     | Inr _ \<Rightarrow> sbind (smodify (\<lambda>m. m\<lparr>cm_revision := generation, cm_pending_namespace := False\<rparr>)) (\<lambda>_. sret True))))"

definition flush_pending_atime :: "surroundings \<Rightarrow> (unit, chunked_mount) op" where
  "flush_pending_atime w =
     sbind (sread Inr) (\<lambda>m.
     if cm_pending_atime m = fmempty then sret ()
     else sbind (renew_lease w) (\<lambda>_.
     sbind (sread mount_snapshot) (\<lambda>(ns, revision).
     sbind (publish_namespace (later 5 w) revision ns) (\<lambda>_. sret ()))))"

definition syncfs :: "surroundings \<Rightarrow> (unit, chunked_mount) op" where
  "syncfs w =
     sbind (renew_lease w) (\<lambda>_.
     sbind (sread mount_snapshot) (\<lambda>_.
     sbind (sread Inr) (\<lambda>m.
     publication_guard (co_writeback (cm_options m))
      (sbind (drain_writeback (later 5 w)) (\<lambda>drained.
       if drained then sret ()
       else sbind (flush_pending_atime (later 20 w)) (\<lambda>_.
       sbind (renew_lease_inner (later 40 w) True) (\<lambda>_. sret ())))))))"

section \<open>Mutations\<close>

definition mount_mutate :: "surroundings \<Rightarrow> (namespace \<Rightarrow> ('a \<times> namespace, chunked_mount) op) \<Rightarrow> ('a, chunked_mount) op" where
  "mount_mutate w operation =
     sbind (renew_lease w) (\<lambda>_.
     sbind (sread mount_snapshot) (\<lambda>(ns, revision).
     sbind (operation ns) (\<lambda>(result, ns).
     sbind (publish_namespace (later 5 w) revision ns) (\<lambda>_. sret result))))"

text \<open>Operations on the namespace, without and with the nodes kept for handles.\<close>

definition on_namespace :: "(namespace \<Rightarrow> ('a \<times> namespace) result) \<Rightarrow> namespace \<Rightarrow> ('a \<times> namespace, chunked_mount) op" where
  "on_namespace f ns = sread (\<lambda>_. f ns)"

definition on_detached ::
  "(nat fset \<Rightarrow> namespace \<times> orphans \<Rightarrow> ('a \<times> namespace \<times> orphans) result) \<Rightarrow> namespace \<Rightarrow> ('a \<times> namespace, chunked_mount) op" where
  "on_detached f ns m =
     (case f (fmdom (cm_open_refs m)) (ns, cm_orphans m) of
        Inl e \<Rightarrow> (Inl e, m)
      | Inr (x, ns', orphans) \<Rightarrow> (Inr (x, ns'), m\<lparr>cm_orphans := orphans\<rparr>))"

section \<open>Mutation batches\<close>

text \<open>
  A queued request; its caller may have gone before the batch reaches it, or before the reply.
\<close>

datatype mutation_kind = MutWholeFile whole_file_mutation | MutUnlink string

record mutation_request =
  mr_kind :: mutation_kind
  mr_closed :: bool
  mr_lost :: bool

datatype mutation_result = MrUnit | MrWholeFile whole_file_result

type_synonym batch_state = "namespace \<times> bool \<times> mutation_result result option list"

definition batch_step :: "nat \<Rightarrow> int \<Rightarrow> batch_state \<Rightarrow> mutation_request \<Rightarrow> (batch_state, chunked_mount) op" where
  "batch_step revision now st request =
     sbind (sread (\<lambda>m. Inr (cm_options m))) (\<lambda>opts.
     case st of (ns, changed, responses) \<Rightarrow>
     if mr_closed request then sret (ns, changed, responses @ [None])
     else (case mr_kind request of
       MutWholeFile mutation \<Rightarrow>
         let mutation = (if wf_new_inode mutation \<and> wf_expected_revision mutation = revision
                         then mutation\<lparr>wf_inode := ns_next_inode ns\<rparr> else mutation)
         in (case apply_whole_file revision mutation (co_concurrent_writes opts) now ns of
               Inl e \<Rightarrow> sret (ns, changed, responses @ [Some (Inl e)])
             | Inr (WfConflict, _) \<Rightarrow> sret (ns, changed, responses @ [Some (Inr (MrWholeFile WfConflict))])
             | Inr (WfCommitted, ns') \<Rightarrow> sret (ns', True, responses @ [Some (Inr (MrWholeFile WfCommitted))]))
     | MutUnlink path \<Rightarrow>
         sbind (attempt (on_detached (\<lambda>open_refs st. and_then (apply_unlink opts open_refs path now st) (\<lambda>st. Inr ((), st))) ns)) (\<lambda>r.
         case r of
           Inl e \<Rightarrow> sret (ns, changed, responses @ [Some (Inl e)])
         | Inr (_, ns') \<Rightarrow> sret (ns', True, responses @ [Some (Inr MrUnit)]))))"

text \<open>A committed request whose caller has gone makes the mount unusable.\<close>

definition batch_reply :: "mutation_request \<times> mutation_result result option \<Rightarrow> (unit, chunked_mount) op" where
  "batch_reply rr =
     (if mr_lost (fst rr) \<and> (case snd rr of Some (Inr (MrWholeFile WfConflict)) \<Rightarrow> False | Some (Inr _) \<Rightarrow> True | _ \<Rightarrow> False)
      then sbind (attempt (fail_closed (with_message ''committed mutation response was canceled before acknowledgement''
                   (with_syscall ''mutation-batch'' (fs_error_new Eio))))) (\<lambda>_ :: unit result. sret ())
      else sret ())"

definition apply_mutation_batch ::
  "surroundings \<Rightarrow> int \<Rightarrow> mutation_request list \<Rightarrow> (mutation_result result option list, chunked_mount) op" where
  "apply_mutation_batch w now requests =
     sbind (attempt (sbind (renew_lease w) (\<lambda>_. sread mount_snapshot))) (\<lambda>prepared.
     case prepared of
       Inl e \<Rightarrow> sret (map (\<lambda>_. Some (Inl e)) requests)
     | Inr (ns, revision) \<Rightarrow>
         sbind (sfold (batch_step revision now) (ns, False, []) requests) (\<lambda>(ns, changed, responses).
         sbind (if changed then attempt (publish_namespace (later 5 w) revision ns) else sret (Inr 0)) (\<lambda>published.
         case published of
           Inl e \<Rightarrow> sret (map (\<lambda>_. Some (Inl e)) requests)
         | Inr _ \<Rightarrow> sbind (sfold (\<lambda>_. batch_reply) () (zip requests responses)) (\<lambda>_. sret responses))))"

section \<open>Writing and reading open files\<close>

text \<open>What a write will do: the node it starts from, whether that is detached, and the new range.\<close>

definition write_plan ::
  "chunked_mount \<Rightarrow> namespace \<Rightarrow> nat \<Rightarrow> string \<Rightarrow> bytes \<Rightarrow> nat \<Rightarrow> bool \<Rightarrow> (node_metadata \<times> bool \<times> file_layout \<times> nat \<times> nat) result" where
  "write_plan m ns inode path input position append_mode =
     and_then (node_snapshot m ns inode ''write'' path) (\<lambda>(node, orphan).
     case nm_data node of
       ND_File layout \<Rightarrow>
         let start = (if append_mode then st_size (nm_stats node) else position) in
         and_then (ok_or (checked_add start (length input)) (error_with_path Efbig ''write'' path)) (\<lambda>end_pos.
         Inr (node, orphan, layout, start, end_pos))
     | ND_Directory _ \<Rightarrow> Inl (error_with_path Eisdir ''write'' path)
     | ND_Special \<Rightarrow> Inl (error_with_path Enxio ''write'' path)
     | ND_Symlink _ \<Rightarrow> Inl (error_with_path Eio ''write'' path))"

text \<open>Blocks stored before an error stay in the store unreferenced; the model forgets them.\<close>

definition rewrite_blocks ::
  "file_layout \<Rightarrow> nat \<Rightarrow> nat \<Rightarrow> bytes \<Rightarrow> nat \<Rightarrow> string \<Rightarrow> (file_layout, chunked_mount) op" where
  "rewrite_blocks layout old_size start input new_size path m =
     (case rewrite_layout block_put block_get layout old_size start input new_size path (cm_blocks m) of
        Inl e \<Rightarrow> (Inl e, m)
      | Inr (layout', blocks) \<Rightarrow> (Inr layout', m\<lparr>cm_blocks := blocks\<rparr>))"

definition store_orphan :: "nat \<Rightarrow> node_metadata result \<Rightarrow> (unit, chunked_mount) op" where
  "store_orphan inode r m =
     (case r of Inl e \<Rightarrow> (Inl e, m) | Inr node \<Rightarrow> (Inr (), m\<lparr>cm_orphans := fmupd inode node (cm_orphans m)\<rparr>))"

definition write_at_serial ::
  "surroundings \<Rightarrow> int \<Rightarrow> nat \<Rightarrow> string \<Rightarrow> bytes \<Rightarrow> nat \<Rightarrow> bool \<Rightarrow> (nat \<times> nat, chunked_mount) op" where
  "write_at_serial w now inode path input position append_mode =
     sbind (renew_lease w) (\<lambda>_.
     sbind (sread mount_snapshot) (\<lambda>(ns, revision).
     sbind (sread (\<lambda>m. write_plan m ns inode path input position append_mode)) (\<lambda>(node, orphan, layout, start, end_pos).
     if input = [] then sret (0, start)
     else let new_size = max (st_size (nm_stats node)) end_pos in
     sbind (rewrite_blocks layout (st_size (nm_stats node)) start input new_size path) (\<lambda>new_layout.
     sbind (sread Inr) (\<lambda>m.
     let concurrent = co_concurrent_writes (cm_options m) in
     if orphan
     then sbind (sread (\<lambda>m. ok_or (fmlookup (cm_orphans m) inode) (error_with_path Estale ''write'' path))) (\<lambda>target.
          sbind (store_orphan inode (store_file new_layout new_size concurrent now target)) (\<lambda>_.
          sret (length input, end_pos)))
     else sbind (sread (\<lambda>_. ok_or (fmlookup (ns_nodes ns) inode) (error_with_path Estale ''write'' path))) (\<lambda>target.
          sbind (sread (\<lambda>_. store_file new_layout new_size concurrent now target)) (\<lambda>node.
          sbind (publish_namespace (later 5 w) revision (ns_put inode node ns)) (\<lambda>_.
          sret (length input, end_pos)))))))))"

text \<open>
  The optimistic write. Its first part plans the write and stores the blocks, and leaves the gate with
  the result or with the write prepared. The second part commits a prepared write only on the node it
  started from; otherwise the whole write is done again under the gate.
\<close>

record prepared_write =
  pw_inode :: nat
  pw_path :: string
  pw_input :: bytes
  pw_position :: nat
  pw_append :: bool
  pw_node :: node_metadata
  pw_orphan :: bool
  pw_layout :: file_layout
  pw_size :: nat
  pw_end :: nat

definition write_prepare ::
  "surroundings \<Rightarrow> nat \<Rightarrow> string \<Rightarrow> bytes \<Rightarrow> nat \<Rightarrow> bool \<Rightarrow> (nat \<times> nat + prepared_write, chunked_mount) op" where
  "write_prepare w inode path input position append_mode =
     sbind (renew_lease w) (\<lambda>_.
     sbind (sread mount_snapshot) (\<lambda>(ns, _).
     sbind (sread (\<lambda>m. write_plan m ns inode path input position append_mode)) (\<lambda>(node, orphan, layout, start, end_pos).
     if input = [] then sret (Inl (0, start))
     else let new_size = max (st_size (nm_stats node)) end_pos in
     sbind (rewrite_blocks layout (st_size (nm_stats node)) start input new_size path) (\<lambda>new_layout.
     sret (Inr \<lparr>pw_inode = inode, pw_path = path, pw_input = input, pw_position = position, pw_append = append_mode,
                pw_node = node, pw_orphan = orphan, pw_layout = new_layout, pw_size = new_size, pw_end = end_pos\<rparr>)))))"

definition write_commit :: "surroundings \<Rightarrow> int \<Rightarrow> prepared_write \<Rightarrow> (bool, chunked_mount) op" where
  "write_commit w now p =
     sbind (sread (\<lambda>m. Inr (co_concurrent_writes (cm_options m)))) (\<lambda>concurrent.
     if pw_orphan p
     then sbind (sread (\<lambda>m. Inr (fmlookup (cm_orphans m) (pw_inode p)))) (\<lambda>t.
          case t of
            None \<Rightarrow> sret False
          | Some target \<Rightarrow>
              if \<not> write_base_unchanged target (pw_node p) then sret False
              else sbind (store_orphan (pw_inode p) (store_file (pw_layout p) (pw_size p) concurrent now target)) (\<lambda>_.
                   sret True))
     else sbind (sread mount_snapshot) (\<lambda>(ns, revision).
          case fmlookup (ns_nodes ns) (pw_inode p) of
            None \<Rightarrow> sret False
          | Some target \<Rightarrow>
              if \<not> write_base_unchanged target (pw_node p) then sret False
              else sbind (sread (\<lambda>_. store_file (pw_layout p) (pw_size p) concurrent now target)) (\<lambda>node.
                   sbind (publish_namespace w revision (ns_put (pw_inode p) node ns)) (\<lambda>_. sret True))))"

definition write_finish :: "surroundings \<Rightarrow> int \<Rightarrow> prepared_write \<Rightarrow> (nat \<times> nat, chunked_mount) op" where
  "write_finish w now p =
     sbind (renew_lease w) (\<lambda>_.
     sbind (write_commit (later 5 w) now p) (\<lambda>committed.
     if committed then sret (length (pw_input p), pw_end p)
     else write_at_serial (later 25 w) now (pw_inode p) (pw_path p) (pw_input p) (pw_position p) (pw_append p)))"

text \<open>The whole write, where \<open>between\<close> is what other tasks of the mount do outside the gate.\<close>

definition write_at ::
  "surroundings \<Rightarrow> int \<Rightarrow> (chunked_mount \<Rightarrow> chunked_mount) \<Rightarrow> nat \<Rightarrow> string \<Rightarrow> bytes \<Rightarrow> nat \<Rightarrow> bool \<Rightarrow> (nat \<times> nat, chunked_mount) op" where
  "write_at w now between inode path input position append_mode =
     sbind (write_prepare w inode path input position append_mode) (\<lambda>r.
     case r of
       Inl result \<Rightarrow> sret result
     | Inr p \<Rightarrow> sbind (smodify between) (\<lambda>_. write_finish (later 5 w) now p))"

text \<open>
  A read, in the same two parts, gives the bytes; the access time is kept aside until the next
  publication.
\<close>

record prepared_read =
  pr_inode :: nat
  pr_path :: string
  pr_position :: nat
  pr_node :: node_metadata
  pr_orphan :: bool
  pr_layout :: file_layout
  pr_count :: nat

definition read_plan :: "chunked_mount \<Rightarrow> namespace \<Rightarrow> nat \<Rightarrow> string \<Rightarrow> nat \<Rightarrow> nat \<Rightarrow> prepared_read result" where
  "read_plan m ns inode path position len =
     and_then (node_snapshot m ns inode ''read'' path) (\<lambda>(node, orphan).
     case nm_data node of
       ND_File layout \<Rightarrow>
         Inr \<lparr>pr_inode = inode, pr_path = path, pr_position = position, pr_node = node, pr_orphan = orphan, pr_layout = layout,
              pr_count = (if position \<ge> st_size (nm_stats node) then 0 else min len (st_size (nm_stats node) - position))\<rparr>
     | ND_Directory _ \<Rightarrow> Inl (error_with_path Eisdir ''read'' path)
     | ND_Special \<Rightarrow> Inl (error_with_path Enxio ''read'' path)
     | ND_Symlink _ \<Rightarrow> Inl (error_with_path Eio ''read'' path))"

definition read_prepare :: "surroundings \<Rightarrow> nat \<Rightarrow> string \<Rightarrow> nat \<Rightarrow> nat \<Rightarrow> (prepared_read, chunked_mount) op" where
  "read_prepare w inode path len position =
     sbind (renew_lease w) (\<lambda>_.
     sbind (sread mount_snapshot) (\<lambda>(ns, _). sread (\<lambda>m. read_plan m ns inode path position len)))"

definition touch_read :: "int \<Rightarrow> nat \<Rightarrow> node_metadata \<Rightarrow> bool \<Rightarrow> namespace \<Rightarrow> chunked_mount \<Rightarrow> chunked_mount" where
  "touch_read now inode original orphan ns m =
     (let set_atime = (\<lambda>m. case fmlookup (cm_orphans m) inode of
                       None \<Rightarrow> m
                     | Some n \<Rightarrow> m\<lparr>cm_orphans := fmupd inode (n\<lparr>nm_stats := (nm_stats n)\<lparr>st_atime_ms := now\<rparr>\<rparr>) (cm_orphans m)\<rparr>)
      in
      if orphan then set_atime m
      else if (case fmlookup (ns_nodes ns) inode of None \<Rightarrow> False | Some n \<Rightarrow> write_base_unchanged n original)
      then m\<lparr>cm_pending_atime := fmupd inode
                (case fmlookup (cm_pending_atime m) inode of None \<Rightarrow> now | Some t \<Rightarrow> max t now) (cm_pending_atime m)\<rparr>
      else if (case fmlookup (cm_orphans m) inode of None \<Rightarrow> False | Some n \<Rightarrow> write_base_unchanged n original)
      then set_atime m else m)"

definition read_finish :: "surroundings \<Rightarrow> int \<Rightarrow> prepared_read \<Rightarrow> (bytes, chunked_mount) op" where
  "read_finish w now p =
     sbind (sread (\<lambda>m. if pr_count p > 0
              then read_layout_into block_get (cm_blocks m) (pr_layout p) (st_size (nm_stats (pr_node p)))
                     (pr_position p) (pr_count p) (pr_path p) ''read''
              else Inr [])) (\<lambda>bs.
     sbind (renew_lease w) (\<lambda>_.
     if pr_count p = 0 then sret []
     else if pr_orphan p
     then sbind (sread Inr) (\<lambda>m.
          sbind (smodify (touch_read now (pr_inode p) (pr_node p) True (cm_namespace m))) (\<lambda>_. sret bs))
     else sbind (sread mount_snapshot) (\<lambda>(ns, _).
          sbind (smodify (touch_read now (pr_inode p) (pr_node p) False ns)) (\<lambda>_. sret bs))))"

definition read_at ::
  "surroundings \<Rightarrow> int \<Rightarrow> (chunked_mount \<Rightarrow> chunked_mount) \<Rightarrow> nat \<Rightarrow> string \<Rightarrow> nat \<Rightarrow> nat \<Rightarrow> (bytes, chunked_mount) op" where
  "read_at w now between inode path len position =
     sbind (read_prepare w inode path len position) (\<lambda>p.
     sbind (smodify between) (\<lambda>_. read_finish (later 5 w) now p))"

text \<open>
  Replacing a whole file: the blocks of the new contents are stored first, and the mutation is queued
  for a batch.
\<close>

definition whole_file_prepare :: "surroundings \<Rightarrow> int \<Rightarrow> string \<Rightarrow> bytes \<Rightarrow> (whole_file_mutation, chunked_mount) op" where
  "whole_file_prepare w now path input =
     (let normalized = normalize_path path in
     sbind (renew_lease w) (\<lambda>_.
     sbind (sread mount_snapshot) (\<lambda>(ns, revision).
     sbind (sread (\<lambda>_. ns_walk ns normalized True ''open'' 0)) (\<lambda>en.
     sbind (sread (\<lambda>_.
       case ne_node en of
         Some inode \<Rightarrow>
           and_then (ok_or (fmlookup (ns_nodes ns) inode) (error_with_path Estale ''open'' (ne_path en))) (\<lambda>node.
           case nm_data node of
             ND_File layout \<Rightarrow> Inr (fl_chunker layout, Some node, inode)
           | ND_Directory _ \<Rightarrow> Inl (error_with_path Eisdir ''open'' (ne_path en))
           | ND_Special \<Rightarrow> Inl (error_with_path Enxio ''open'' (ne_path en))
           | ND_Symlink _ \<Rightarrow> Inl (error_with_path Eio ''open'' (ne_path en)))
       | None \<Rightarrow>
           and_then (parent_entries ns (ne_parent en) ''open'' (ne_path en)) (\<lambda>_.
           Inr (ns_default_chunker ns, None, ns_next_inode ns)))) (\<lambda>(config, original, inode).
     let empty_layout = \<lparr>fl_chunker = config, fl_extents = []\<rparr> in
     sbind (if input = [] then sret empty_layout
            else rewrite_blocks empty_layout 0 0 input (length input) normalized) (\<lambda>new_layout.
     sret \<lparr>wf_path = normalized, wf_inode = inode, wf_expected_revision = revision, wf_new_inode = (original = None),
           wf_original = original, wf_layout = new_layout, wf_data_length = length input\<rparr>))))))"

definition truncate_inode :: "surroundings \<Rightarrow> int \<Rightarrow> nat \<Rightarrow> string \<Rightarrow> nat \<Rightarrow> (unit, chunked_mount) op" where
  "truncate_inode w now inode path len =
     sbind (renew_lease w) (\<lambda>_.
     sbind (sread mount_snapshot) (\<lambda>(ns, revision).
     sbind (sread (\<lambda>m. node_snapshot m ns inode ''ftruncate'' path)) (\<lambda>(node, orphan).
     sbind (sread (\<lambda>m. truncate_node Enxio ''ftruncate'' path len (co_concurrent_writes (cm_options m)) now node)) (\<lambda>node.
     if orphan then store_orphan inode (Inr node)
     else sbind (publish_namespace (later 5 w) revision (ns_put inode node ns)) (\<lambda>_. sret ())))))"

section \<open>Handles\<close>

definition allocate_fd :: "nat \<Rightarrow> (nat, chunked_mount) op" where
  "allocate_fd inode =
     sbind (sread check_alive) (\<lambda>_.
     sbind (sread Inr) (\<lambda>m.
     sbind (sread (\<lambda>_. ok_or (checked_add (case fmlookup (cm_open_refs m) inode of None \<Rightarrow> 0 | Some c \<Rightarrow> c) 1)
                     (with_message ''open reference overflow'' (fs_error_new Emfile)))) (\<lambda>next_count.
     sbind (sread (\<lambda>_. ok_or (checked_add (cm_next_fd m) 1)
                     (with_message ''file descriptor overflow'' (fs_error_new Emfile)))) (\<lambda>next_fd.
     sbind (smodify (\<lambda>m. m\<lparr>cm_next_fd := next_fd, cm_open_refs := fmupd inode next_count (cm_open_refs m)\<rparr>)) (\<lambda>_.
     sret (cm_next_fd m))))))"

definition release_ref :: "nat \<Rightarrow> chunked_mount \<Rightarrow> chunked_mount" where
  "release_ref inode m =
     (let m = (case fmlookup (cm_open_refs m) inode of
                 None \<Rightarrow> m
               | Some c \<Rightarrow> m\<lparr>cm_open_refs := (if c - 1 = 0 then fmdrop inode (cm_open_refs m)
                                                else fmupd inode (c - 1) (cm_open_refs m))\<rparr>)
      in if fmlookup (cm_open_refs m) inode = None then m\<lparr>cm_orphans := fmdrop inode (cm_orphans m)\<rparr> else m)"

definition should_reap :: "chunked_mount \<Rightarrow> nat \<Rightarrow> bool" where
  "should_reap m inode \<longleftrightarrow>
     (case fmlookup (ns_nodes (cm_namespace m)) inode of
        None \<Rightarrow> False
      | Some node \<Rightarrow> st_nlink (nm_stats node) = 0 \<and> fmlookup (cm_open_refs m) inode = None)"

definition close_inode_after_gate :: "surroundings \<Rightarrow> nat \<Rightarrow> (unit, chunked_mount) op" where
  "close_inode_after_gate w inode =
     sbind (smodify (release_ref inode)) (\<lambda>_.
     sbind (sread Inr) (\<lambda>m.
     if cm_failure m \<noteq> None \<or> cm_closed m \<or> \<not> should_reap m inode then sret ()
     else sbind (renew_lease w) (\<lambda>_.
     sbind (sread Inr) (\<lambda>m.
     if cm_failure m \<noteq> None \<or> cm_closed m \<or> \<not> should_reap m inode then sret ()
     else let ns = cm_namespace m in
     sbind (publish_namespace (later 5 w) (cm_revision m) (ns\<lparr>ns_nodes := fmdrop inode (ns_nodes ns)\<rparr>)) (\<lambda>_. sret ())))))"

definition stat_inode :: "nat \<Rightarrow> string \<Rightarrow> string \<Rightarrow> chunked_mount \<Rightarrow> stats result" where
  "stat_inode inode syscall path m =
     and_then (check_alive m) (\<lambda>_.
     and_then (ok_or (case fmlookup (ns_nodes (cm_namespace m)) inode of
                        Some n \<Rightarrow> Some (nm_stats n)
                      | None \<Rightarrow> map_option nm_stats (fmlookup (cm_orphans m) inode))
                (error_with_path Estale syscall path)) (\<lambda>st.
     Inr (case fmlookup (cm_pending_atime m) inode of
            None \<Rightarrow> st
          | Some t \<Rightarrow> st\<lparr>st_atime_ms := max (st_atime_ms st) t\<rparr>)))"

definition open_file ::
  "surroundings \<Rightarrow> int \<Rightarrow> string \<Rightarrow> open_flags \<Rightarrow> u32 \<Rightarrow> (path_guard \<times> string \<times> observed_entry) option \<Rightarrow> (nat \<times> nat, chunked_mount) op" where
  "open_file w now path flags mode guard =
     (if \<not> of_read flags \<and> \<not> of_write flags \<or> of_truncate flags \<and> \<not> of_write flags
      then sfail (error_with_path Einval ''open'' path)
      else
     sbind (renew_lease w) (\<lambda>_.
     sbind (sread mount_snapshot) (\<lambda>(ns, revision).
     sbind (sread (\<lambda>m. open_candidate (\<lambda>_ _. Inr ()) (cm_options m) path flags mode guard now ns)) (\<lambda>(inode, changed, ns).
     sbind (swhen changed (sbind (publish_namespace (later 5 w) revision ns) (\<lambda>_. sret ()))) (\<lambda>_.
     sbind (allocate_fd inode) (\<lambda>fd. sret (inode, fd)))))))"

text \<open>
  The remaining calls of the driver: those by path, each one mutation, and the guarded ones, of which
  opening goes its own way.
\<close>

datatype path_call =
    PC_Mkdir string mkdir_options
  | PC_Rmdir string
  | PC_Rename string string
  | PC_Link string string
  | PC_Symlink string string
  | PC_Mknod string u32 nat
  | PC_Chmod string u32
  | PC_Chown string u32 u32 bool
  | PC_Utimes string int int bool
  | PC_Truncate string nat

fun path_candidate ::
  "chunked_options \<Rightarrow> int \<Rightarrow> path_call \<Rightarrow> nat fset \<Rightarrow> namespace \<times> orphans \<Rightarrow> (unit \<times> namespace \<times> orphans) result" where
  "path_candidate opts now (PC_Mkdir path options) refs (ns, orphans) =
     and_then (ns_mkdir path options (co_concurrent_writes opts) now ns) (\<lambda>(_, ns). Inr ((), ns, orphans))"
| "path_candidate opts now (PC_Rmdir path) refs st =
     and_then (apply_rmdir opts refs (normalize_path path) now st) (\<lambda>st. Inr ((), st))"
| "path_candidate opts now (PC_Rename old_path new_path) refs st =
     and_then (apply_rename opts refs (normalize_path old_path) (normalize_path new_path) now st) (\<lambda>st. Inr ((), st))"
| "path_candidate opts now (PC_Link existing new_path) refs (ns, orphans) =
     and_then (apply_link (normalize_path existing) (normalize_path new_path) (co_concurrent_writes opts) now ns) (\<lambda>ns. Inr ((), ns, orphans))"
| "path_candidate opts now (PC_Symlink target path) refs (ns, orphans) =
     and_then (apply_symlink target (normalize_path path) (co_concurrent_writes opts) now ns) (\<lambda>(_, ns). Inr ((), ns, orphans))"
| "path_candidate opts now (PC_Mknod path mode dev) refs (ns, orphans) =
     and_then (apply_mknod (normalize_path path) mode dev (co_concurrent_writes opts) now ns) (\<lambda>(_, ns). Inr ((), ns, orphans))"
| "path_candidate opts now (PC_Chmod path mode) refs (ns, orphans) =
     and_then (ns_chmod path mode (co_concurrent_writes opts) now ns) (\<lambda>ns. Inr ((), ns, orphans))"
| "path_candidate opts now (PC_Chown path uid gid follow) refs (ns, orphans) =
     and_then (chown_path path uid gid follow (if follow then ''chown'' else ''lchown'') (co_concurrent_writes opts) now ns) (\<lambda>ns.
     Inr ((), ns, orphans))"
| "path_candidate opts now (PC_Utimes path atime mtime follow) refs (ns, orphans) =
     and_then (utimes_path path atime mtime follow (if follow then ''utimes'' else ''lutimes'') (co_concurrent_writes opts) now ns) (\<lambda>ns.
     Inr ((), ns, orphans))"
| "path_candidate opts now (PC_Truncate path len) refs (ns, orphans) =
     and_then (ns_truncate path len (co_concurrent_writes opts) now ns) (\<lambda>ns. Inr ((), ns, orphans))"

definition mount_call :: "surroundings \<Rightarrow> int \<Rightarrow> path_call \<Rightarrow> (unit, chunked_mount) op" where
  "mount_call w now call =
     sbind (sread (\<lambda>m. Inr (cm_options m))) (\<lambda>opts. mount_mutate w (on_detached (path_candidate opts now call)))"

text \<open>
  A call by path, and the draining of write-back, dropped while the answer of the store is awaited.
  With write-back a call stages its namespace without waiting.
\<close>

definition call_cancelled :: "surroundings \<Rightarrow> bool \<Rightarrow> int \<Rightarrow> path_call \<Rightarrow> (unit, chunked_mount) op" where
  "call_cancelled w applied now call =
     sbind (renew_lease w) (\<lambda>_.
     sbind (sread mount_snapshot) (\<lambda>(ns, revision).
     sbind (sread (\<lambda>m. Inr (cm_options m))) (\<lambda>opts.
     sbind (on_detached (path_candidate opts now call) ns) (\<lambda>(_, ns).
     if co_writeback opts then sfail (fs_error_new Eio)
     else publication_cancelled (later 5 w) applied revision ns))))"

definition drain_cancelled :: "surroundings \<Rightarrow> bool \<Rightarrow> (unit, chunked_mount) op" where
  "drain_cancelled w applied =
     sbind (sread mount_snapshot) (\<lambda>(ns, _).
     sbind (sread Inr) (\<lambda>m.
     if co_writeback (cm_options m) then publication_cancelled w applied (cm_persisted_revision m) ns else sret ()))"

text \<open>The names of a guarded request are checked before the mutation.\<close>

definition check_names :: "guarded_mutation \<Rightarrow> unit result" where
  "check_names request =
     (let checked = (\<lambda>parent name syscall. and_then (guarded_child_path parent name syscall) (\<lambda>_. Inr ())) in
      case request of
        GM_Mkdir parent name _ \<Rightarrow> checked parent name ''mkdir''
      | GM_Symlink parent name _ \<Rightarrow> checked parent name ''symlink''
      | GM_Mknod parent name _ _ \<Rightarrow> checked parent name ''mknod''
      | GM_Unlink parent name _ \<Rightarrow> checked parent name ''unlink''
      | GM_Rmdir parent name _ \<Rightarrow> checked parent name ''rmdir''
      | GM_Rename from_parent from_name _ to_parent to_name _ \<Rightarrow>
          and_then (checked from_parent from_name ''rename'') (\<lambda>_. checked to_parent to_name ''rename'')
      | GM_Link _ to_parent to_name _ \<Rightarrow> checked to_parent to_name ''link''
      | _ \<Rightarrow> Inr ())"

definition mount_guarded :: "surroundings \<Rightarrow> int \<Rightarrow> guarded_mutation \<Rightarrow> (guarded_outcome, chunked_mount) op" where
  "mount_guarded w now request =
     (case request of
        GM_Open parent name observed flags mode \<Rightarrow>
          sbind (sread (\<lambda>_. guarded_child_path parent name ''open'')) (\<lambda>path.
          sbind (open_file w now path flags mode (Some (parent, name, observed))) (\<lambda>(inode, _). sret (GoOpened inode)))
      | _ \<Rightarrow>
          sbind (sread (\<lambda>_. check_names request)) (\<lambda>_.
          sbind (sread (\<lambda>m. Inr (cm_options m))) (\<lambda>opts.
          mount_mutate w (on_detached (\<lambda>refs. guarded_candidate (\<lambda>_ _. Inr ()) opts refs request now)))))"

record chunked_handle =
  ch_inode :: nat
  ch_path :: string
  ch_flags :: open_flags
  ch_position :: nat
  ch_closed :: bool

definition check_open :: "chunked_handle \<Rightarrow> bool \<Rightarrow> string \<Rightarrow> nat result" where
  "check_open h writing syscall =
     (if ch_closed h \<or> writing \<and> \<not> of_write (ch_flags h) \<or> \<not> writing \<and> \<not> of_read (ch_flags h)
      then Inl (error_with_path Ebadf syscall (ch_path h))
      else Inr (ch_position h))"

definition chunked_handle_read ::
  "surroundings \<Rightarrow> int \<Rightarrow> (chunked_mount \<Rightarrow> chunked_mount) \<Rightarrow> chunked_handle \<Rightarrow> nat \<Rightarrow> nat option \<Rightarrow> (bytes \<times> chunked_handle, chunked_mount) op" where
  "chunked_handle_read w now between h len position =
     sbind (sread (\<lambda>_. check_open h False ''read'')) (\<lambda>current.
     sbind (read_at w now between (ch_inode h) (ch_path h) len (case position of None \<Rightarrow> current | Some p \<Rightarrow> p)) (\<lambda>bs.
     if position = None
     then sbind (sread (\<lambda>_. ok_or (checked_add current (length bs)) (error_with_path Efbig ''read'' (ch_path h)))) (\<lambda>next_pos.
          sret (bs, h\<lparr>ch_position := next_pos\<rparr>))
     else sret (bs, h)))"

definition chunked_handle_write ::
  "surroundings \<Rightarrow> int \<Rightarrow> (chunked_mount \<Rightarrow> chunked_mount) \<Rightarrow> chunked_handle \<Rightarrow> bytes \<Rightarrow> nat option \<Rightarrow> (nat \<times> chunked_handle, chunked_mount) op" where
  "chunked_handle_write w now between h input position =
     sbind (sread (\<lambda>_. check_open h True ''write'')) (\<lambda>current.
     sbind (write_at w now between (ch_inode h) (ch_path h) input
              (case position of None \<Rightarrow> current | Some p \<Rightarrow> p) (of_append (ch_flags h))) (\<lambda>(count, end_pos).
     sret (count, if position = None \<or> of_append (ch_flags h) then h\<lparr>ch_position := end_pos\<rparr> else h)))"

definition chunked_handle_truncate :: "surroundings \<Rightarrow> int \<Rightarrow> chunked_handle \<Rightarrow> nat \<Rightarrow> (unit, chunked_mount) op" where
  "chunked_handle_truncate w now h len =
     sbind (sread (\<lambda>_. check_open h True ''ftruncate'')) (\<lambda>_. truncate_inode w now (ch_inode h) (ch_path h) len)"

text \<open>The handle is closed before the reference is released, also when the rest fails.\<close>

definition chunked_handle_close :: "surroundings \<Rightarrow> chunked_handle \<Rightarrow> chunked_mount \<Rightarrow> chunked_handle \<times> unit result \<times> chunked_mount" where
  "chunked_handle_close w h m =
     (if ch_closed h then (h, Inr (), m) else (h\<lparr>ch_closed := True\<rparr>, close_inode_after_gate w (ch_inode h) m))"

section \<open>Opening and shutting down\<close>

definition released :: "surroundings \<Rightarrow> nat \<Rightarrow> writer_lease \<Rightarrow> metadata_state \<Rightarrow> metadata_state" where
  "released w i lease st =
     (let st = su_others w i st in
      case release_writer (su_clock w i) lease st of Inl _ \<Rightarrow> st | Inr (_, st') \<Rightarrow> st')"

definition first_namespace :: "chunked_options \<Rightarrow> int \<Rightarrow> loaded_metadata \<Rightarrow> (namespace \<times> bool) result" where
  "first_namespace opts now loaded =
     (case lm_namespace loaded of
        Some ns \<Rightarrow> Inr (ns, False)
      | None \<Rightarrow>
          if lm_revision loaded \<noteq> 0 then Inl (fs_error_backend ''metadata revision has no corresponding namespace'')
          else and_then (initial_namespace opts now) (\<lambda>ns.
               and_then (namespace_validate ns) (\<lambda>_. Inr (ns, True))))"

definition fresh_mount :: "chunked_options \<Rightarrow> writer_lease \<Rightarrow> namespace \<Rightarrow> nat \<Rightarrow> metadata_state \<Rightarrow> block_map \<Rightarrow> chunked_mount" where
  "fresh_mount opts lease ns revision st blocks =
     \<lparr>cm_options = opts, cm_lease = Some lease, cm_lease_renewed = False, cm_namespace = ns, cm_revision = revision,
      cm_persisted_revision = revision, cm_pending_namespace = False, cm_next_fd = 3, cm_open_refs = fmempty,
      cm_pending_atime = fmempty, cm_orphans = fmempty, cm_failure = None, cm_closed = False,
      cm_metadata = st, cm_blocks = blocks\<rparr>"

definition open_exclusive ::
  "surroundings \<Rightarrow> chunked_options \<Rightarrow> int \<Rightarrow> block_map \<Rightarrow> metadata_state \<Rightarrow> chunked_mount result \<times> metadata_state" where
  "open_exclusive w opts now blocks st =
     (let st = su_others w 0 st in
      case acquire_writer (su_clock w 0) (co_owner opts) (co_lease_ttl opts) st of
        Inl e \<Rightarrow> (Inl e, st)
      | Inr (lease, st) \<Rightarrow>
          let st = su_others w 1 st; loaded = ms_load st in
          (case and_then (loaded_metadata_validate loaded) (\<lambda>_. first_namespace opts now loaded) of
             Inl e \<Rightarrow> (Inl e, released w 2 lease st)
           | Inr (ns, initial) \<Rightarrow>
               let m = fresh_mount opts lease ns (lm_revision loaded) st blocks in
               if \<not> initial then (Inr m, st)
               else (case publish_namespace_durable (later 3 w) (lm_revision loaded) ns m of
                       (Inr _, m') \<Rightarrow> (Inr m', cm_metadata m')
                     | (Inl e, m') \<Rightarrow>
                         (Inl e, case cm_lease m' of
                                   None \<Rightarrow> cm_metadata m'
                                 | Some latest \<Rightarrow> released w 20 latest (cm_metadata m')))))"

definition shutdown :: "surroundings \<Rightarrow> (unit, chunked_mount) op" where
  "shutdown w =
     sbind (sread Inr) (\<lambda>before.
     sbind (swhen (\<not> cm_closed before \<and> cm_failure before = None)
              (sbind (drain_writeback w) (\<lambda>_. flush_pending_atime (later 20 w)))) (\<lambda>_.
     sbind (sread Inr) (\<lambda>m.
     sbind (if \<not> cm_closed before \<and> cm_lease m \<noteq> None
            then attempt (sbind (renew_lease_inner (later 40 w) True) (\<lambda>_. sret ()))
            else sret (Inr ())) (\<lambda>refresh.
     sbind (smodify (\<lambda>m. m\<lparr>cm_closed := True\<rparr>)) (\<lambda>_.
     sbind (sread (\<lambda>m. Inr (cm_lease m))) (\<lambda>held.
     case held of
       None \<Rightarrow> sread (\<lambda>_. refresh)
     | Some lease \<Rightarrow>
         sbind (attempt (provider (later 45 w) 0 (\<lambda>now. release_writer now lease))) (\<lambda>r.
         case r of
           Inl e \<Rightarrow> fail_closed (with_context e ''lease-release'' None)
         | Inr _ \<Rightarrow> sbind (smodify (\<lambda>m. m\<lparr>cm_lease := None\<rparr>)) (\<lambda>_. sread (\<lambda>_. refresh))))))))) "

section \<open>Block roots\<close>

definition node_block_roots :: "node_metadata \<Rightarrow> string list" where
  "node_block_roots node = (case nm_data node of ND_File layout \<Rightarrow> map be_block (fl_extents layout) | _ \<Rightarrow> [])"

text \<open>The blocks that reconciliation keeps: those of the namespace and of the nodes kept for handles.\<close>

definition live_blocks :: "chunked_mount \<Rightarrow> namespace \<Rightarrow> string fset" where
  "live_blocks m ns =
     ffUnion ((\<lambda>n. fset_of_list (node_block_roots n)) |`| (fmran (ns_nodes ns) |\<union>| fmran (cm_orphans m)))"

end
