(* ===== verification/Chunked_Tree.thy ===== *)
theory Chunked_Tree
  imports Namespace_Validation Dir_Tree
begin

text \<open>
  Namespaces as directory trees: the validity that \<^verbatim>\<open>Namespace::validate\<close> decides is the tree invariant of
  the entries together with conditions on each node, so that the lemmas on trees apply to the
  operations of the chunked file system.
\<close>

section \<open>The view\<close>

definition ns_kid :: "(nat, node_metadata) fmap \<Rightarrow> nat \<Rightarrow> string \<Rightarrow> nat option" where
  "ns_kid nodes p x = map_option dn_inode (find (\<lambda>e. dn_name e = x) (entries_of nodes p))"

text \<open>The links of the tree: a directory has one, a file as many as it records.\<close>

definition ns_links :: "(nat, node_metadata) fmap \<Rightarrow> nat \<Rightarrow> nat option" where
  "ns_links nodes i =
     map_option (\<lambda>n. if is_dir_data (nm_data n) then 1 else st_nlink (nm_stats n)) (fmlookup nodes i)"

definition ns_subdirs :: "(nat, node_metadata) fmap \<Rightarrow> nat \<Rightarrow> nat" where
  "ns_subdirs nodes i =
     (case fmlookup nodes i of None \<Rightarrow> 0 | Some n \<Rightarrow> if is_dir_data (nm_data n) then st_nlink (nm_stats n) - 2 else 0)"

definition ns_node_ok :: "nat \<Rightarrow> nat \<Rightarrow> node_metadata \<Rightarrow> bool" where
  "ns_node_ok next_inode i n \<longleftrightarrow>
     0 < i \<and> i < next_inode \<and> st_ino (nm_stats n) = i \<and> node_kind_ok n
     \<and> distinct (map dn_name (dir_entries (nm_data n)))
     \<and> (is_dir_data (nm_data n) \<longrightarrow> 2 \<le> st_nlink (nm_stats n))"

definition ns_base :: "namespace \<Rightarrow> bool" where
  "ns_base ns \<longleftrightarrow>
     ns_format_version ns = NAMESPACE_FORMAT_VERSION
     \<and> is_ok (chunker_from_config (ns_default_chunker ns)) \<and> 0 < ns_root ns
     \<and> (\<forall>i n. fmlookup (ns_nodes ns) i = Some n \<longrightarrow> ns_node_ok (ns_next_inode ns) i n)"

abbreviation nodes_tree :: "(nat, node_metadata) fmap \<Rightarrow> nat \<Rightarrow> bool" where
  "nodes_tree nodes root \<equiv>
     tree_inv entry_name_ok (ns_kid nodes) (ns_links nodes) (is_dir_node nodes) (ns_subdirs nodes) root"

section \<open>Entries and counts\<close>

lemma find_name_iff:
  assumes "distinct (map dn_name es)"
  shows "find (\<lambda>e. dn_name e = x) es = Some e \<longleftrightarrow> e \<in> set es \<and> dn_name e = x"
  using find_name [OF assms, of e] by (auto dest: find_member)

lemma find_name_None: "find (\<lambda>e. dn_name e = x) es = None \<longleftrightarrow> x \<notin> dn_name ` set es"
  by (auto simp: find_None_iff)

lemma entries_card:
  assumes "distinct (map dn_name es)"
  shows "length (filter (\<lambda>e. P (dn_inode e)) es)
    = card {x. \<exists>c. map_option dn_inode (find (\<lambda>e. dn_name e = x) es) = Some c \<and> P c}"
proof -
  let ?fs = "filter (\<lambda>e. P (dn_inode e)) es"
  have "{x. \<exists>c. map_option dn_inode (find (\<lambda>e. dn_name e = x) es) = Some c \<and> P c} = set (map dn_name ?fs)"
    using find_name_iff [OF assms] by auto
  moreover have "distinct (map dn_name ?fs)" using assms by (rule distinct_map_filter)
  ultimately show ?thesis using distinct_card by (metis length_map)
qed

lemma ns_kid_Some: "ns_kid nodes p x = Some c \<Longrightarrow> \<exists>e \<in> set (entries_of nodes p). dn_name e = x \<and> dn_inode e = c"
  by (auto simp: ns_kid_def dest!: find_member)

lemma ns_kid_dir: "ns_kid nodes p x = Some c \<Longrightarrow> is_dir_node nodes p \<and> p \<in> fmdom' nodes"
  by (cases "fmlookup nodes p")
    (auto simp: entries_of_def dir_entries_def is_dir_node_def is_dir_data_def dest!: ns_kid_Some
      split: node_data.splits intro: fmdom'I)

lemma finite_kids: "finite {x. ns_kid nodes p x \<noteq> None}"
proof -
  have "{x. ns_kid nodes p x \<noteq> None} \<subseteq> dn_name ` set (entries_of nodes p)" by (auto dest: ns_kid_Some)
  then show ?thesis by (rule finite_subset) simp
qed

lemma ref_count_refs:
  assumes "\<And>p. distinct (map dn_name (entries_of nodes p))"
  shows "finite (refs (ns_kid nodes) i) \<and> ref_count nodes i = card (refs (ns_kid nodes) i)"
proof -
  have r: "refs (ns_kid nodes) i = Sigma (fmdom' nodes) (\<lambda>p. {x. ns_kid nodes p x = Some i})"
    by (auto simp: refs_def dest: ns_kid_dir)
  have fin: "finite {x. ns_kid nodes p x = Some i}" for p
    by (rule finite_subset [OF _ finite_kids [of nodes p]]) auto
  have "length (filter (\<lambda>e. dn_inode e = i) (entries_of nodes p)) = card {x. ns_kid nodes p x = Some i}" for p
    using entries_card [OF assms, of "\<lambda>c. c = i" p] by (simp add: ns_kid_def)
  then show ?thesis using fin by (simp add: r ref_count_def)
qed

lemma child_dir_count_kids:
  assumes "distinct (map dn_name (entries_of nodes p))"
  shows "child_dir_count nodes p = card {x. \<exists>c. ns_kid nodes p x = Some c \<and> is_dir_node nodes c}"
  using entries_card [OF assms, of "is_dir_node nodes"] by (simp add: child_dir_count_def ns_kid_def)

lemma dir_reachable_tree:
  assumes "\<And>p. distinct (map dn_name (entries_of nodes p))"
  shows "dir_reachable nodes root d \<longleftrightarrow> tree_reach (ns_kid nodes) (is_dir_node nodes) root d"
proof
  assume "dir_reachable nodes root d"
  then show "tree_reach (ns_kid nodes) (is_dir_node nodes) root d"
  proof induction
    case (dir_reachable_step p e)
    then have "ns_kid nodes p (dn_name e) = Some (dn_inode e)" using find_name [OF assms] by (simp add: ns_kid_def)
    then show ?case using dir_reachable_step by (auto intro: tree_reach_step)
  qed (rule tree_reach_root)
next
  assume "tree_reach (ns_kid nodes) (is_dir_node nodes) root d"
  then show "dir_reachable nodes root d"
    by induction (auto dest!: ns_kid_Some intro: dir_reachable.intros)
qed

section \<open>Validity is the tree invariant\<close>

lemma entries_distinct:
  assumes "ns_base ns"
  shows "distinct (map dn_name (entries_of (ns_nodes ns) p))"
  using assms by (cases "fmlookup (ns_nodes ns) p") (auto simp: ns_base_def ns_node_ok_def entries_of_def)

lemma entry_kid: "ns_base ns \<Longrightarrow> e \<in> set (entries_of (ns_nodes ns) p) \<Longrightarrow> ns_kid (ns_nodes ns) p (dn_name e) = Some (dn_inode e)"
  using find_name [OF entries_distinct] by (simp add: ns_kid_def)

lemma wf_namespace_base:
  assumes "wf_namespace ns"
  shows "ns_base ns"
  using assms unfolding wf_namespace_def ns_base_def ns_node_ok_def entries_ok_def links_ok_def by auto

lemma wf_namespace_tree:
  assumes wf: "wf_namespace ns"
  shows "nodes_tree (ns_nodes ns) (ns_root ns)"
proof -
  let ?nodes = "ns_nodes ns"
  note base = wf_namespace_base [OF wf]
  note dist = entries_distinct [OF base]
  have n: "st_ino (nm_stats n) = i" "entries_ok ?nodes (dir_entries (nm_data n))" "links_ok ns i n"
    if "fmlookup ?nodes i = Some n" for i n
    using wf that by (auto simp: wf_namespace_def)
  have edges: "entry_name_ok x \<and> is_dir_node ?nodes p \<and> ns_links ?nodes p = Some 1 \<and> ns_links ?nodes c \<noteq> None"
    if k: "ns_kid ?nodes p x = Some c" for p x c
  proof -
    obtain e m where e: "e \<in> set (dir_entries (nm_data m))" "fmlookup ?nodes p = Some m" "dn_name e = x" "dn_inode e = c"
      using ns_kid_Some [OF k] by (auto simp: entries_of_def split: option.splits)
    then have "entry_name_ok x" "c \<in> fmdom' ?nodes" using n(2) by (auto simp: entries_ok_def)
    then show ?thesis using ns_kid_dir [OF k] by (auto simp: ns_links_def is_dir_node_def fmlookup_dom'_iff split: option.splits)
  qed
  have root: "is_dir_node ?nodes (ns_root ns)" using wf by (simp add: wf_namespace_def)
  then have root1: "ns_links ?nodes (ns_root ns) = Some 1" by (auto simp: ns_links_def is_dir_node_def split: option.splits)
  have counts: "finite (refs (ns_kid ?nodes) i) \<and> k = card (refs (ns_kid ?nodes) i) + (if i = ns_root ns then 1 else 0)"
    if "ns_links ?nodes i = Some k" for i k
    using that ref_count_refs [OF dist, of i] n(3) [of i] root
    by (auto simp: ns_links_def links_ok_def is_dir_node_def split: if_splits option.splits)
  have dirs: "finite {x. ns_kid ?nodes i x \<noteq> None} \<and> ns_subdirs ?nodes i = card {x. \<exists>c. ns_kid ?nodes i x = Some c \<and> is_dir_node ?nodes c}"
    "tree_reach (ns_kid ?nodes) (is_dir_node ?nodes) (ns_root ns) i" "ns_links ?nodes i = Some 1"
    if "is_dir_node ?nodes i" for i
    using that finite_kids [of ?nodes i] child_dir_count_kids [OF dist, of i] dir_reachable_tree [OF dist, of "ns_root ns" i] n(3) [of i]
    by (auto simp: is_dir_node_def ns_subdirs_def ns_links_def links_ok_def split: option.splits)
  have "\<forall>p x c. ns_kid ?nodes p x = Some c \<longrightarrow>
      entry_name_ok x \<and> is_dir_node ?nodes p \<and> ns_links ?nodes p = Some 1 \<and> ns_links ?nodes c \<noteq> None"
    using edges by blast
  then show ?thesis using counts dirs root root1 unfolding tree_inv_def by simp
qed

lemma tree_wf_namespace:
  assumes base: "ns_base ns" and tree: "nodes_tree (ns_nodes ns) (ns_root ns)"
  shows "wf_namespace ns"
proof -
  let ?nodes = "ns_nodes ns"
  note dist = entries_distinct [OF base] and inv = tree_invD [OF tree]
  have "entries_ok ?nodes (dir_entries (nm_data n)) \<and> links_ok ns i n" if n: "fmlookup ?nodes i = Some n" for i n
  proof
    have "entry_name_ok (dn_name e) \<and> dn_inode e \<in> fmdom' ?nodes" if e: "e \<in> set (dir_entries (nm_data n))" for e
    proof -
      have "ns_kid ?nodes i (dn_name e) = Some (dn_inode e)"
        using entry_kid [OF base, of e i] e n by (simp add: entries_of_def)
      from inv(1) [OF this] show ?thesis by (auto simp: ns_links_def intro: fmdom'I)
    qed
    then show "entries_ok ?nodes (dir_entries (nm_data n))"
      using dist [of i] n by (simp add: entries_ok_def entries_of_def)
    have two: "is_dir_data (nm_data n) \<Longrightarrow> 2 \<le> st_nlink (nm_stats n)" using base n by (auto simp: ns_base_def ns_node_ok_def)
    show "links_ok ns i n"
    proof (cases "is_dir_data (nm_data n)")
      case True
      then have d: "is_dir_node ?nodes i" "ns_links ?nodes i = Some 1" using n by (simp_all add: is_dir_node_def ns_links_def)
      have "st_nlink (nm_stats n) - 2 = child_dir_count ?nodes i"
        using inv(6) [OF d(1)] child_dir_count_kids [OF dist, of i] n True by (simp add: ns_subdirs_def)
      then have "st_nlink (nm_stats n) = 2 + child_dir_count ?nodes i" using two [OF True] by simp
      then show ?thesis
        using True inv(2) [OF d(2)] inv(7) [OF d] ref_count_refs [OF dist, of i] dir_reachable_tree [OF dist]
        by (auto simp: links_ok_def split: if_splits)
    next
      case False
      have l: "ns_links ?nodes i = Some (st_nlink (nm_stats n))" "i \<noteq> ns_root ns"
        using False n inv(4) by (auto simp: ns_links_def is_dir_node_def)
      then show ?thesis using inv(2) [OF l(1)] ref_count_refs [OF dist, of i] False by (simp add: links_ok_def)
    qed
  qed
  then show ?thesis using base inv(4) unfolding wf_namespace_def ns_base_def ns_node_ok_def by auto
qed

lemma wf_namespace_iff: "wf_namespace ns \<longleftrightarrow> ns_base ns \<and> nodes_tree (ns_nodes ns) (ns_root ns)"
  using wf_namespace_base wf_namespace_tree tree_wf_namespace by blast

section \<open>Changes of one node\<close>

lemma find_snoc:
  "find (\<lambda>f. dn_name f = y) (es @ [e]) =
     (case find (\<lambda>f. dn_name f = y) es of None \<Rightarrow> if dn_name e = y then Some e else None | Some f \<Rightarrow> Some f)"
  by (induction es) auto

lemma find_remove1:
  assumes "distinct (map dn_name es)" "find (\<lambda>f. dn_name f = x) es = Some e"
  shows "find (\<lambda>f. dn_name f = y) (remove1 e es) = (if y = x then None else find (\<lambda>f. dn_name f = y) es)"
proof -
  have "distinct es" "inj_on dn_name (set es)" using assms(1) by (simp_all add: distinct_map)
  moreover from this have "inj_on dn_name (set es - {e})" by (auto intro: inj_on_subset)
  ultimately have ds: "distinct (map dn_name (remove1 e es))" and set: "set (remove1 e es) = set es - {e}"
    by (simp_all add: distinct_map set_remove1_eq)
  have e: "e \<in> set es" "dn_name e = x" using find_member [OF assms(2)] by auto
  have eq: "z = e" if "z \<in> set es" "dn_name z = x" for z
    using that e \<open>inj_on dn_name (set es)\<close> by (auto dest: inj_onD)
  show ?thesis
  proof (cases "y \<noteq> x \<and> (\<exists>z \<in> set es. dn_name z = y)")
    case True
    then obtain z where z: "z \<in> set es" "dn_name z = y" by blast
    then have "z \<in> set (remove1 e es)" using e True set by auto
    then show ?thesis using find_name [OF assms(1) z(1)] find_name [OF ds] z(2) True by auto
  next
    case False
    then have "y \<notin> dn_name ` set (remove1 e es)" "y \<noteq> x \<Longrightarrow> y \<notin> dn_name ` set es" using eq unfolding set by blast+
    then show ?thesis using find_name_None by metis
  qed
qed

text \<open>A directory with other entries and another link count.\<close>

lemma dir_update_view:
  assumes "fmlookup nodes p = Some n" "is_dir_data (nm_data n)" "nm_data n' = ND_Directory es"
  shows "is_dir_node (fmupd p n' nodes) = is_dir_node nodes"
    "ns_links (fmupd p n' nodes) = ns_links nodes"
    "ns_kid (fmupd p n' nodes) q y = (if q = p then map_option dn_inode (find (\<lambda>e. dn_name e = y) es) else ns_kid nodes q y)"
    "ns_subdirs (fmupd p n' nodes) j = (if j = p then st_nlink (nm_stats n') - 2 else ns_subdirs nodes j)"
  using assms
  by (auto simp: fun_eq_iff is_dir_node_def ns_links_def ns_kid_def ns_subdirs_def entries_of_def dir_entries_def is_dir_data_def)

text \<open>A node that is no directory, with another link count.\<close>

lemma file_update_view:
  assumes "fmlookup nodes i = Some n" "\<not> is_dir_data (nm_data n)" "\<not> is_dir_data (nm_data n')"
  shows "is_dir_node (fmupd i n' nodes) = is_dir_node nodes"
    "ns_links (fmupd i n' nodes) j = (if j = i then Some (st_nlink (nm_stats n')) else ns_links nodes j)"
    "ns_kid (fmupd i n' nodes) = ns_kid nodes" "ns_subdirs (fmupd i n' nodes) = ns_subdirs nodes"
  using assms
  by (auto simp: fun_eq_iff is_dir_node_def ns_links_def ns_kid_def ns_subdirs_def entries_of_def dir_entries_def is_dir_data_def
      split: node_data.splits)

text \<open>A node of the same shape: kind, entries and links as before.\<close>

lemma same_shape_view:
  assumes "fmlookup nodes i = Some n" "is_dir_data (nm_data n') = is_dir_data (nm_data n)"
    and "dir_entries (nm_data n') = dir_entries (nm_data n)" "st_nlink (nm_stats n') = st_nlink (nm_stats n)"
  shows "is_dir_node (fmupd i n' nodes) = is_dir_node nodes" "ns_links (fmupd i n' nodes) = ns_links nodes"
    "ns_kid (fmupd i n' nodes) = ns_kid nodes" "ns_subdirs (fmupd i n' nodes) = ns_subdirs nodes"
  using assms by (auto simp: fun_eq_iff is_dir_node_def ns_links_def ns_kid_def ns_subdirs_def entries_of_def)

text \<open>A new node without entries, and a node without entries that is dropped.\<close>

lemma fresh_view:
  assumes "fmlookup nodes i = None" "dir_entries (nm_data n) = []"
  shows "is_dir_node (fmupd i n nodes) j = (if j = i then is_dir_data (nm_data n) else is_dir_node nodes j)"
    "ns_links (fmupd i n nodes) j = (if j = i then Some (if is_dir_data (nm_data n) then 1 else st_nlink (nm_stats n)) else ns_links nodes j)"
    "ns_kid (fmupd i n nodes) = ns_kid nodes"
    "ns_subdirs (fmupd i n nodes) j = (if j = i then (if is_dir_data (nm_data n) then st_nlink (nm_stats n) - 2 else 0) else ns_subdirs nodes j)"
  using assms by (auto simp: fun_eq_iff is_dir_node_def ns_links_def ns_kid_def ns_subdirs_def entries_of_def)

lemma drop_view:
  assumes "entries_of nodes i = []"
  shows "is_dir_node (fmdrop i nodes) j = (j \<noteq> i \<and> is_dir_node nodes j)"
    "ns_links (fmdrop i nodes) j = (if j = i then None else ns_links nodes j)"
    "ns_kid (fmdrop i nodes) = ns_kid nodes"
    "ns_subdirs (fmdrop i nodes) j = (if j = i then 0 else ns_subdirs nodes j)"
  using assms by (auto simp: fun_eq_iff is_dir_node_def ns_links_def ns_kid_def ns_subdirs_def entries_of_def)

end
