(* ===== verification/Chunked_Layout_Safety.thy ===== *)
theory Chunked_Layout_Safety
  imports Chunked_Layout Memory_Blocks
begin

text \<open>
  What the layouts of the chunked file system promise. The contents of a file is a function from
  offsets to bytes, read off the extents; reading returns it, truncation cuts it, and a write
  replaces exactly the bytes of the input. The lemmas are proved against the contract of the block
  store and used through its interpretation on the memory store.
\<close>

section \<open>Contents of extents\<close>

definition covers :: "block_extent \<Rightarrow> nat \<Rightarrow> bool" where
  "covers e k \<longleftrightarrow> be_file_offset e \<le> k \<and> k < extent_end e"

definition covered :: "block_extent list \<Rightarrow> nat \<Rightarrow> bool" where
  "covered es k \<longleftrightarrow> (\<exists>e \<in> set es. covers e k)"

definition extent_byte :: "(string \<Rightarrow> 's \<Rightarrow> bytes result) \<Rightarrow> 's \<Rightarrow> block_extent \<Rightarrow> nat \<Rightarrow> u8" where
  "extent_byte get s e k =
     (case get (be_block e) s of
        Inl _ \<Rightarrow> 0
      | Inr bs \<Rightarrow> bs ! (be_block_offset e + (k - be_file_offset e)))"

definition layout_byte :: "(string \<Rightarrow> 's \<Rightarrow> bytes result) \<Rightarrow> 's \<Rightarrow> block_extent list \<Rightarrow> nat \<Rightarrow> u8" where
  "layout_byte get s es k =
     (case find (\<lambda>e. covers e k) es of None \<Rightarrow> 0 | Some e \<Rightarrow> extent_byte get s e k)"

definition extent_stored :: "(string \<Rightarrow> 's \<Rightarrow> bytes result) \<Rightarrow> 's \<Rightarrow> block_extent \<Rightarrow> bool" where
  "extent_stored get s e \<longleftrightarrow>
     (case get (be_block e) s of Inl _ \<Rightarrow> False | Inr bs \<Rightarrow> be_block_offset e + be_length e \<le> length bs)"

definition layout_stored :: "(string \<Rightarrow> 's \<Rightarrow> bytes result) \<Rightarrow> 's \<Rightarrow> block_extent list \<Rightarrow> bool" where
  "layout_stored get s es \<longleftrightarrow> list_all (extent_stored get s) es"

lemma layout_stored_member: "layout_stored get s es \<Longrightarrow> e \<in> set es \<Longrightarrow> extent_stored get s e"
  by (simp add: layout_stored_def list_all_iff)

lemma extent_storedE:
  assumes "extent_stored get s e"
  obtains bs where "get (be_block e) s = Inr bs" "be_block_offset e + be_length e \<le> length bs"
  using assms by (auto simp: extent_stored_def split: sum.splits)

lemma extents_ok_member: "extents_ok sz es \<Longrightarrow> e \<in> set es \<Longrightarrow> extent_ok sz e"
  by (simp add: extents_ok_def list_all_iff)

lemma extents_ok_Cons:
  "extents_ok sz (e # es) \<longleftrightarrow>
     extent_ok sz e \<and> (\<forall>x \<in> set es. extent_end e \<le> be_file_offset x) \<and> extents_ok sz es"
  by (auto simp: extents_ok_def)

lemma covered_simps [simp]:
  "\<not> covered [] k"
  "covered (e # es) k \<longleftrightarrow> covers e k \<or> covered es k"
  "covered (xs @ ys) k \<longleftrightarrow> covered xs k \<or> covered ys k"
  by (auto simp: covered_def)

lemma covers_less: "extents_ok sz es \<Longrightarrow> e \<in> set es \<Longrightarrow> covers e k \<Longrightarrow> k < sz"
  using extents_ok_member by (fastforce simp: covers_def extent_ok_def)

lemma layout_byte_Nil [simp]: "layout_byte get s [] k = 0"
  by (simp add: layout_byte_def)

lemma layout_byte_uncovered: "\<not> covered es k \<Longrightarrow> layout_byte get s es k = 0"
  by (auto simp: covered_def layout_byte_def find_None_iff [THEN iffD2])

lemma layout_byte_member:
  assumes "extents_ok sz es" "e \<in> set es" "covers e k"
  shows "layout_byte get s es k = extent_byte get s e k"
  using assms
proof (induction es)
  case (Cons x es)
  have "x = e" if "covers x k"
    using Cons.prems that by (auto simp: extents_ok_Cons covers_def)
  then show ?case
    using Cons by (cases "covers x k") (auto simp: layout_byte_def extents_ok_Cons)
qed simp

lemma layout_byte_beyond: "extents_ok sz es \<Longrightarrow> sz \<le> k \<Longrightarrow> layout_byte get s es k = 0"
  by (rule layout_byte_uncovered) (auto simp: covered_def dest: covers_less)

lemma layout_byte_cong:
  assumes "\<And>e. e \<in> set es \<Longrightarrow> get (be_block e) s' = get (be_block e) s"
  shows "layout_byte get s' es k = layout_byte get s es k"
proof (cases "find (\<lambda>e. covers e k) es")
  case (Some e)
  then have "e \<in> set es" by (rule find_member [THEN conjunct1])
  then show ?thesis using assms Some by (simp add: layout_byte_def extent_byte_def)
qed (simp add: layout_byte_def)

section \<open>Parts of extents\<close>

text \<open>An extent that shows the same bytes as another one, on a part of its range.\<close>

definition part_of :: "block_extent \<Rightarrow> block_extent \<Rightarrow> bool" where
  "part_of x y \<longleftrightarrow> be_block x = be_block y \<and> be_file_offset y \<le> be_file_offset x \<and> extent_end x \<le> extent_end y
     \<and> be_block_offset x = be_block_offset y + (be_file_offset x - be_file_offset y)"

lemma part_of_refl [simp]: "part_of x x"
  by (simp add: part_of_def)

lemma part_covers: "part_of x y \<Longrightarrow> covers x k \<Longrightarrow> covers y k \<and> extent_byte get s x k = extent_byte get s y k"
  by (auto simp: part_of_def covers_def extent_byte_def split: sum.splits)

lemma part_stored: "part_of x y \<Longrightarrow> extent_stored get s y \<Longrightarrow> extent_stored get s x"
  by (auto simp: part_of_def extent_stored_def extent_end_def split: sum.splits)

lemma part_ok: "part_of x y \<Longrightarrow> extent_ok sz y \<Longrightarrow> extent_end x \<le> sz' \<Longrightarrow> 0 < be_length x \<Longrightarrow> extent_ok sz' x"
  by (auto simp: part_of_def extent_ok_def extent_end_def)

text \<open>\<open>keep\<close> says which offsets keep their byte.\<close>

lemma parts_contents:
  assumes ok: "extents_ok sz es" "extents_ok sz' es'"
    and parts: "\<And>x. x \<in> set es' \<Longrightarrow> \<exists>y \<in> set es. part_of x y"
    and only: "\<And>x. x \<in> set es' \<Longrightarrow> covers x k \<Longrightarrow> keep k"
    and all: "covered es k \<Longrightarrow> keep k \<Longrightarrow> covered es' k"
  shows "layout_byte get s es' k = (if keep k then layout_byte get s es k else 0)"
proof (cases "covered es' k")
  case True
  then obtain x y where x: "x \<in> set es'" "covers x k" and y: "y \<in> set es" "part_of x y"
    using parts unfolding covered_def by blast
  then show ?thesis
    using part_covers [OF y(2) x(2), of get s] layout_byte_member [OF ok(1) y(1), of k get s]
      layout_byte_member [OF ok(2) x, of get s] only by simp
next
  case False
  then have "layout_byte get s es' k = 0" by (rule layout_byte_uncovered)
  moreover have "layout_byte get s es k = 0" if "keep k"
    using False all that by (intro layout_byte_uncovered) blast
  ultimately show ?thesis by simp
qed

lemma parts_stored:
  "(\<And>x. x \<in> set es' \<Longrightarrow> \<exists>y \<in> set es. part_of x y) \<Longrightarrow> layout_stored get s es \<Longrightarrow> layout_stored get s es'"
  unfolding layout_stored_def list_all_iff by (meson part_stored)

section \<open>Truncation\<close>

lemma trim_extents_parts:
  assumes "extents_ok sz es"
  shows "\<exists>es'. trim_extents es len = Inr es' \<and> extents_ok len es'
    \<and> (\<forall>x \<in> set es'. \<exists>y \<in> set es. part_of x y)
    \<and> (\<forall>k < len. covered es k \<longrightarrow> covered es' k)"
  using assms
proof (induction es)
  case (Cons e es)
  then obtain es' where es': "trim_extents es len = Inr es'" "extents_ok len es'"
    and sub: "\<forall>x \<in> set es'. \<exists>y \<in> set es. part_of x y"
    and sup: "\<forall>k < len. covered es k \<longrightarrow> covered es' k"
    by (auto simp: extents_ok_Cons)
  have e: "extent_ok sz e" using Cons.prems by (simp add: extents_ok_Cons)
  have after: "extent_end e \<le> be_file_offset x" if x: "x \<in> set es'" for x
  proof -
    obtain y where "y \<in> set es" "be_file_offset y \<le> be_file_offset x"
      using sub x by (auto simp: part_of_def)
    then show ?thesis using Cons.prems by (auto simp: extents_ok_Cons)
  qed
  show ?case
  proof (cases "be_file_offset e \<ge> len")
    case True
    then show ?thesis using es' sub sup e by (auto simp: extent_ok_def extent_end_def covers_def)
  next
    case False
    let ?e = "if extent_end e > len then e\<lparr>be_length := len - be_file_offset e\<rparr> else e"
    have res: "trim_extents (e # es) len = Inr (?e # es')"
      using False es' e by (auto simp: extent_ok_def extent_end_def Let_def)
    have e': "part_of ?e e" "extent_ok len ?e" "extent_end ?e \<le> extent_end e"
      using False e by (auto simp: part_of_def extent_ok_def extent_end_def)
    then have "extents_ok len (?e # es')"
      using es'(2) after unfolding extents_ok_Cons by (meson le_trans)
    with e'(1) show ?thesis
      using False res sub sup by (intro exI [of _ "?e # es'"]) (auto simp: covers_def extent_end_def)
  qed
qed (simp add: extents_ok_def)

lemma trim_extents_contents:
  assumes ok: "extents_ok sz es" and res: "trim_extents es len = Inr es'"
  shows "extents_ok len es'" "layout_stored get s es \<Longrightarrow> layout_stored get s es'"
    "layout_byte get s es' k = (if k < len then layout_byte get s es k else 0)"
proof -
  show ok': "extents_ok len es'" using trim_extents_parts [OF ok, of len] res by auto
  show "layout_stored get s es \<Longrightarrow> layout_stored get s es'"
    by (rule parts_stored) (use trim_extents_parts [OF ok, of len] res in auto)
  show "layout_byte get s es' k = (if k < len then layout_byte get s es k else 0)"
    by (rule parts_contents [OF ok ok'])
      (use trim_extents_parts [OF ok, of len] res covers_less [OF ok'] in auto)
qed

section \<open>Replacing a range\<close>

text \<open>The parts of one extent lie in order, outside the range, and keep all bytes outside it.\<close>

lemma cut_extent_parts:
  assumes "extent_ok sz e" "a < b"
  shows "\<exists>xs. cut_extent a b e = Inr xs \<and> extents_ok sz xs \<and> (\<forall>x \<in> set xs. part_of x e \<and> (extent_end x \<le> a \<or> b \<le> be_file_offset x))
    \<and> (\<forall>k. covers e k \<longrightarrow> \<not> (a \<le> k \<and> k < b) \<longrightarrow> covered xs k)"
  using assms
  by (auto simp: cut_extent_def extent_ok_def extent_end_def extents_ok_def part_of_def covers_def Let_def)

lemma cut_extents_parts:
  assumes "extents_ok sz es" "a < b"
  shows "\<exists>ps. try_map (cut_extent a b) es = Inr ps \<and> extents_ok sz (concat ps)
    \<and> (\<forall>x \<in> set (concat ps). (\<exists>y \<in> set es. part_of x y) \<and> (extent_end x \<le> a \<or> b \<le> be_file_offset x))
    \<and> (\<forall>k. covered es k \<longrightarrow> \<not> (a \<le> k \<and> k < b) \<longrightarrow> covered (concat ps) k)"
  using assms(1)
proof (induction es)
  case (Cons e es)
  have e: "extent_ok sz e" using Cons.prems by (simp add: extents_ok_Cons)
  obtain xs where xs: "cut_extent a b e = Inr xs" "extents_ok sz xs"
    "\<forall>x \<in> set xs. part_of x e \<and> (extent_end x \<le> a \<or> b \<le> be_file_offset x)"
    "\<forall>k. covers e k \<longrightarrow> \<not> (a \<le> k \<and> k < b) \<longrightarrow> covered xs k"
    using cut_extent_parts [OF e assms(2)] by blast
  obtain ps where ps: "try_map (cut_extent a b) es = Inr ps" "extents_ok sz (concat ps)"
    "\<forall>x \<in> set (concat ps). (\<exists>y \<in> set es. part_of x y) \<and> (extent_end x \<le> a \<or> b \<le> be_file_offset x)"
    "\<forall>k. covered es k \<longrightarrow> \<not> (a \<le> k \<and> k < b) \<longrightarrow> covered (concat ps) k"
    using Cons by (auto simp: extents_ok_Cons)
  have "extent_end x \<le> be_file_offset z" if x: "x \<in> set xs" and z: "z \<in> set (concat ps)" for x z
  proof -
    obtain y where "y \<in> set es" "part_of z y" using ps(3) z by blast
    then show ?thesis using xs(3) x Cons.prems unfolding extents_ok_Cons part_of_def by (meson le_trans)
  qed
  then have "extents_ok sz (concat (xs # ps))"
    using xs(2) ps(2) by (auto simp: extents_ok_def sorted_wrt_append)
  then show ?case using xs(1,3,4) ps(1,3,4) by (intro exI [of _ "xs # ps"]) auto
qed (simp add: extents_ok_def)

text \<open>Sorting by offset puts disjoint extents in order.\<close>

lemma sort_extents_ok:
  assumes "list_all (extent_ok sz) es" "distinct es"
    and apart: "\<And>x y. x \<in> set es \<Longrightarrow> y \<in> set es \<Longrightarrow> x \<noteq> y \<Longrightarrow> extent_end x \<le> be_file_offset y \<or> extent_end y \<le> be_file_offset x"
  shows "extents_ok sz (sort_key be_file_offset es)"
proof -
  let ?s = "sort_key be_file_offset es"
  have both: "sorted_wrt (\<lambda>x y. f x \<le> f y \<and> x \<noteq> y) xs" if "sorted (map f xs)" "distinct xs" for f :: "block_extent \<Rightarrow> nat" and xs
    using that by (induction xs) auto
  have "sorted_wrt (\<lambda>x y. be_file_offset x \<le> be_file_offset y \<and> x \<noteq> y) ?s"
    using assms(2) by (intro both) simp_all
  then have "sorted_wrt (\<lambda>x y. extent_end x \<le> be_file_offset y) ?s"
    by (rule sorted_wrt_mono_rel [rotated])
      (use apart assms(1) in \<open>force simp: list_all_iff extent_ok_def extent_end_def\<close>)
  then show ?thesis using assms(1) by (simp add: extents_ok_def list_all_iff)
qed


lemma extents_ok_distinct: "extents_ok sz es \<Longrightarrow> distinct es"
  by (induction es) (auto simp: extents_ok_Cons extent_ok_def extent_end_def)

lemma extents_ok_apart:
  "extents_ok sz es \<Longrightarrow> x \<in> set es \<Longrightarrow> y \<in> set es \<Longrightarrow> x \<noteq> y \<Longrightarrow>
     extent_end x \<le> be_file_offset y \<or> extent_end y \<le> be_file_offset x"
  by (induction es) (auto simp: extents_ok_Cons)

lemma extents_ok_mono: "extents_ok sz es \<Longrightarrow> sz \<le> sz' \<Longrightarrow> extents_ok sz' es"
  by (auto simp: extents_ok_def extent_ok_def list_all_iff)

lemma extents_ok_length: "extents_ok sz es \<Longrightarrow> length es \<le> sz"
proof (induction es arbitrary: sz rule: rev_induct)
  case (snoc e es)
  have e: "0 < be_length e" "be_file_offset e + be_length e \<le> sz"
    using snoc.prems by (auto simp: extents_ok_def extent_ok_def extent_end_def)
  have "extents_ok (be_file_offset e) es"
    using snoc.prems by (auto simp: extents_ok_def sorted_wrt_append extent_ok_def list_all_iff)
  then show ?case using snoc.IH e by force
qed simp

text \<open>A new extent in a gap.\<close>

definition spans :: "nat \<Rightarrow> nat \<Rightarrow> nat \<Rightarrow> block_extent option \<Rightarrow> bool" where
  "spans sz a b r \<longleftrightarrow> (case r of None \<Rightarrow> True | Some e \<Rightarrow> extent_ok sz e \<and> be_file_offset e = a \<and> extent_end e = b)"

lemma spans_mono: "spans sz a b r \<Longrightarrow> sz \<le> sz' \<Longrightarrow> spans sz' a b r"
  by (auto simp: spans_def extent_ok_def split: option.splits)

lemma insert_extent_ok:
  assumes ok: "extents_ok sz xs" "a < b" and r: "spans sz a b r"
    and out: "\<And>x. x \<in> set xs \<Longrightarrow> extent_end x \<le> a \<or> b \<le> be_file_offset x"
  shows "extents_ok sz (sort_key be_file_offset (xs @ (case r of None \<Rightarrow> [] | Some e \<Rightarrow> [e])))"
proof (rule sort_extents_ok)
  let ?r = "case r of None \<Rightarrow> [] | Some e \<Rightarrow> [e]"
  have new: "extent_end x \<le> be_file_offset e \<or> extent_end e \<le> be_file_offset x" "x \<noteq> e"
    if "r = Some e" "x \<in> set xs" for x e
    using out [OF that(2)] r that(1) ok(2) extents_ok_member [OF ok(1) that(2)]
    by (auto simp: spans_def extent_ok_def extent_end_def)
  show "list_all (extent_ok sz) (xs @ ?r)"
    using ok(1) r by (auto simp: spans_def extents_ok_def split: option.splits)
  show "distinct (xs @ ?r)"
    using extents_ok_distinct [OF ok(1)] new(2) by (auto split: option.splits)
  show "extent_end x \<le> be_file_offset y \<or> extent_end y \<le> be_file_offset x"
    if "x \<in> set (xs @ ?r)" "y \<in> set (xs @ ?r)" "x \<noteq> y" for x y
    using that new(1) extents_ok_apart [OF ok(1)] by (fastforce split: option.splits)
qed

lemma insert_extent_contents:
  assumes ok: "extents_ok sz xs" "a < b" and r: "spans sz a b r"
    and out: "\<And>x. x \<in> set xs \<Longrightarrow> extent_end x \<le> a \<or> b \<le> be_file_offset x"
  shows "layout_byte get s (sort_key be_file_offset (xs @ (case r of None \<Rightarrow> [] | Some e \<Rightarrow> [e]))) k
    = (case r of None \<Rightarrow> layout_byte get s xs k
       | Some e \<Rightarrow> if a \<le> k \<and> k < b then extent_byte get s e k else layout_byte get s xs k)"
    (is "layout_byte get s ?es k = _")
proof -
  have ok': "extents_ok sz ?es" by (rule insert_extent_ok [OF assms])
  consider (new) e where "r = Some e" "a \<le> k" "k < b" | (old) x where "x \<in> set xs" "covers x k"
    | (hole) "\<not> covered ?es k" "\<not> covered xs k" "r = None \<or> \<not> (a \<le> k \<and> k < b)"
    using r by (auto simp: covered_def covers_def spans_def split: option.splits)
  then show ?thesis
  proof cases
    case new
    then have "covers e k" using r by (simp add: covers_def spans_def)
    then show ?thesis using layout_byte_member [OF ok', of e k get s] new by simp
  next
    case old
    then have "\<not> (a \<le> k \<and> k < b)" using out [OF old(1)] by (auto simp: covers_def)
    then show ?thesis
      using layout_byte_member [OF ok', of x k get s] layout_byte_member [OF ok(1) old, of get s] old
      by (auto split: option.splits)
  next
    case hole
    then show ?thesis by (auto simp: layout_byte_uncovered split: option.splits)
  qed
qed

text \<open>
  The new bytes of the range are those of the replacement, which spans it, or zero; the bytes
  outside are kept.
\<close>

lemma replace_extent_range_contents:
  assumes ok: "extents_ok sz es" "a < b" and r: "spans sz a b r"
  shows "\<exists>es'. (replace_extent_range es a b r = (if length es + (if r = None then 0 else 1) \<le> U64_MAX then Inr es'
        else Inl (with_message ''extent list is too large'' (fs_error_new Enomem))))
    \<and> extents_ok sz es'
    \<and> (layout_stored get s es \<longrightarrow> (\<forall>e. r = Some e \<longrightarrow> extent_stored get s e) \<longrightarrow> layout_stored get s es')
    \<and> (\<forall>k. layout_byte get s es' k =
          (if a \<le> k \<and> k < b then (case r of None \<Rightarrow> 0 | Some e \<Rightarrow> extent_byte get s e k)
           else layout_byte get s es k))"
proof -
  obtain ps where ps: "try_map (cut_extent a b) es = Inr ps" "extents_ok sz (concat ps)"
    and parts: "\<And>x. x \<in> set (concat ps) \<Longrightarrow> \<exists>y \<in> set es. part_of x y"
    and out: "\<And>x. x \<in> set (concat ps) \<Longrightarrow> extent_end x \<le> a \<or> b \<le> be_file_offset x"
    and all: "\<And>k. covered es k \<Longrightarrow> \<not> (a \<le> k \<and> k < b) \<Longrightarrow> covered (concat ps) k"
    using cut_extents_parts [OF ok(1,2)] by metis
  let ?es = "sort_key be_file_offset (concat ps @ (case r of None \<Rightarrow> [] | Some e \<Rightarrow> [e]))"
  have res: "replace_extent_range es a b r = (if length es + (if r = None then 0 else 1) \<le> U64_MAX then Inr ?es
        else Inl (with_message ''extent list is too large'' (fs_error_new Enomem)))"
    using ps(1) ok(2) by (auto simp: replace_extent_range_def checked_add_def split: option.splits)
  have old: "layout_byte get s (concat ps) k = (if \<not> (a \<le> k \<and> k < b) then layout_byte get s es k else 0)" for k
    by (rule parts_contents [OF ok(1) ps(2) parts, where keep = "\<lambda>k. \<not> (a \<le> k \<and> k < b)"])
      (use out all in \<open>fastforce simp: covers_def\<close>)+
  have "layout_byte get s ?es k = (if a \<le> k \<and> k < b then (case r of None \<Rightarrow> 0 | Some e \<Rightarrow> extent_byte get s e k)
      else layout_byte get s es k)" for k
    using insert_extent_contents [OF ps(2) ok(2) r out, of get s k] old [of k] by (auto split: option.splits)
  moreover have "layout_stored get s ?es" if "layout_stored get s es" "\<forall>e. r = Some e \<longrightarrow> extent_stored get s e"
    using parts_stored [of "concat ps" es get s] parts that
    by (auto simp: layout_stored_def list_all_iff split: option.splits)
  ultimately show ?thesis using res insert_extent_ok [OF ps(2) ok(2) r out] by blast
qed

section \<open>Reading\<close>

lemma copy_into_nth:
  "p + length xs \<le> length b \<Longrightarrow> length (copy_into b p xs) = length b"
  "p + length xs \<le> length b \<Longrightarrow> j < length b \<Longrightarrow>
     copy_into b p xs ! j = (if p \<le> j \<and> j < p + length xs then xs ! (j - p) else b ! j)"
  by (auto simp: copy_into_def nth_append)

lemma copy_extent_ok:
  assumes e: "extent_ok sz e" "extent_stored get s e" and b: "position + length buf \<le> U64_MAX"
  shows "\<exists>buf'. copy_extent get s fsz position (position + length buf) path syscall buf e = Inr buf'
    \<and> length buf' = length buf
    \<and> (\<forall>j < length buf. buf' ! j =
          (if covers e (position + j) \<and> position + j < fsz then extent_byte get s e (position + j) else buf ! j))"
proof -
  obtain bs where bs: "get (be_block e) s = Inr bs" "be_block_offset e + be_length e \<le> length bs"
    using e(2) by (rule extent_storedE)
  define start where "start = max position (be_file_offset e)"
  define stop where "stop = min (min (position + length buf) (extent_end e)) fsz"
  define src where "src = be_block_offset e + (start - be_file_offset e)"
  have bound: "be_file_offset e + be_length e \<le> U64_MAX" "be_block_offset e + be_length e \<le> U64_MAX"
    using e(1) by (auto simp: extent_ok_def extent_end_def)
  have inside: "covers e (position + j) \<and> position + j < fsz \<longleftrightarrow> start \<le> position + j \<and> position + j < stop"
    if "j < length buf" for j
    using that by (auto simp: covers_def start_def stop_def)
  show ?thesis
  proof (cases "stop \<le> start")
    case True
    then have "copy_extent get s fsz position (position + length buf) path syscall buf e = Inr buf"
      using bound by (simp add: copy_extent_def Let_def extent_end_def start_def stop_def)
    then show ?thesis using True inside by auto
  next
    case False
    have n: "position \<le> start" "be_file_offset e \<le> start" "stop \<le> position + length buf"
      "stop \<le> be_file_offset e + be_length e"
      by (auto simp: start_def stop_def extent_end_def)
    have src: "src + (stop - start) \<le> be_block_offset e + be_length e" using n False by (simp add: src_def)
    define xs where "xs = take (stop - start) (drop src bs)"
    have len: "length xs = stop - start" using src bs(2) by (simp add: xs_def)
    have room: "start - position + length xs \<le> length buf" using n False len by simp
    have "src \<le> U64_MAX" "stop - position \<le> length buf" using src bound n by auto
    then have "copy_extent get s fsz position (position + length buf) path syscall buf e = Inr (copy_into buf (start - position) xs)"
      using False bound n bs b src
      by (simp add: copy_extent_def Let_def map_err_def checked_add_def xs_def
          flip: start_def extent_end_def stop_def src_def)
    moreover have "copy_into buf (start - position) xs ! j =
        (if covers e (position + j) \<and> position + j < fsz then extent_byte get s e (position + j) else buf ! j)"
      if j: "j < length buf" for j
    proof -
      have "xs ! (j - (start - position)) = extent_byte get s e (position + j)" if "start \<le> position + j" "position + j < stop"
        using that n len src bs by (simp add: xs_def extent_byte_def src_def ac_simps)
      then show ?thesis using copy_into_nth(2) [OF room j] len n(1) unfolding inside [OF j] by auto
    qed
    ultimately show ?thesis using copy_into_nth(1) [OF room] by auto
  qed
qed

text \<open>Reading returns the contents, zero beyond the size given.\<close>

lemma read_extents:
  assumes "extents_ok sz es" "layout_stored get s es" "position + length buf \<le> U64_MAX"
  shows "\<exists>buf'. try_fold (copy_extent get s fsz position (position + length buf) path syscall) buf es = Inr buf'
    \<and> length buf' = length buf
    \<and> (\<forall>j < length buf. buf' ! j =
          (if covered es (position + j) \<and> position + j < fsz then layout_byte get s es (position + j) else buf ! j))"
  using assms
proof (induction es arbitrary: buf)
  case (Cons e es)
  obtain b1 where b1: "copy_extent get s fsz position (position + length buf) path syscall buf e = Inr b1"
    "length b1 = length buf"
    "\<forall>j < length buf. b1 ! j =
          (if covers e (position + j) \<and> position + j < fsz then extent_byte get s e (position + j) else buf ! j)"
    using copy_extent_ok [of sz e get s position buf fsz path syscall] Cons.prems
    by (auto simp: extents_ok_Cons layout_stored_def)
  obtain b2 where b2: "try_fold (copy_extent get s fsz position (position + length buf) path syscall) b1 es = Inr b2"
    "length b2 = length buf"
    "\<forall>j < length buf. b2 ! j =
          (if covered es (position + j) \<and> position + j < fsz then layout_byte get s es (position + j) else b1 ! j)"
    using Cons.IH [of b1] Cons.prems b1(2) by (auto simp: extents_ok_Cons layout_stored_def)
  have "\<not> covers e k" if "covered es k" for k
    using Cons.prems(1) that by (auto simp: covered_def covers_def extents_ok_Cons)
  then have "b2 ! j = (if covered (e # es) (position + j) \<and> position + j < fsz
      then layout_byte get s (e # es) (position + j) else buf ! j)" if "j < length buf" for j
    using b1(3) b2(3) that by (auto simp: layout_byte_def)
  then show ?case using b1(1) b2 by simp
qed simp

lemma read_layout_into_contents:
  assumes "extents_ok sz (fl_extents l)" "layout_stored get s (fl_extents l)" "position + n \<le> U64_MAX"
  shows "read_layout_into get s l fsz position n path syscall
    = Inr (map (\<lambda>k. if k < fsz then layout_byte get s (fl_extents l) k else 0) [position..<position + n])"
proof -
  obtain buf where buf: "try_fold (copy_extent get s fsz position (position + n) path syscall) (replicate n 0) (fl_extents l) = Inr buf"
    "length buf = n"
    "\<forall>j < n. buf ! j = (if covered (fl_extents l) (position + j) \<and> position + j < fsz
        then layout_byte get s (fl_extents l) (position + j) else replicate n 0 ! j)"
    using read_extents [of sz "fl_extents l" get s position "replicate n 0" fsz path syscall] assms by auto
  have "buf = map (\<lambda>k. if k < fsz then layout_byte get s (fl_extents l) k else 0) [position..<position + n]"
    by (rule nth_equalityI) (auto simp: buf layout_byte_uncovered)
  then show ?thesis using buf(1) assms(3) by (simp add: read_layout_into_def checked_add_def)
qed

definition layout_contents :: "(string \<Rightarrow> 's \<Rightarrow> bytes result) \<Rightarrow> 's \<Rightarrow> block_extent list \<Rightarrow> nat \<Rightarrow> bytes" where
  "layout_contents get s es n = map (layout_byte get s es) [0..<n]"

lemma read_layout_all_contents:
  assumes "extents_ok sz (fl_extents l)" "layout_stored get s (fl_extents l)" "sz \<le> U64_MAX"
  shows "read_layout_all get s l sz path = Inr (layout_contents get s (fl_extents l) sz)"
  using read_layout_into_contents [OF assms(1,2), of 0 sz sz path] assms(3)
  by (simp add: read_layout_all_def layout_contents_def)

section \<open>Writing\<close>

text \<open>The bytes of a chunk \<open>[a, b)\<close> that the input touches, the old ones read where the input leaves some.\<close>

definition overlay :: "nat \<Rightarrow> bytes \<Rightarrow> (nat \<Rightarrow> u8) \<Rightarrow> nat \<Rightarrow> u8" where
  "overlay position input f k =
     (if position \<le> k \<and> k < position + length input then input ! (k - position) else f k)"

lemma overlay_chunk:
  fixes position a b :: nat and input :: bytes
  defines "ws \<equiv> max position a" and "we \<equiv> min (position + length input) b"
  assumes ab: "a < b" "a < position + length input" "position < b" "input \<noteq> []"
    and len: "length chunk = b - a" and old: "position > a \<or> position + length input < b \<Longrightarrow> chunk = map f [a..<b]"
  shows "ws \<le> we" "ws - a + (we - ws) \<le> length chunk" "ws - position + (we - ws) \<le> length input"
    "copy_into chunk (ws - a) (take (we - ws) (drop (ws - position) input)) = map (overlay position input f) [a..<b]"
proof -
  have w: "position \<le> ws" "a \<le> ws" "ws \<le> we" "we \<le> position + length input" "we \<le> b"
    using ab by (auto simp: ws_def we_def)
  have iff: "(position \<le> k \<and> k < position + length input) \<longleftrightarrow> (ws \<le> k \<and> k < we)" if "a \<le> k" "k < b" for k
    using that by (auto simp: ws_def we_def)
  show "ws \<le> we" by (rule w(3))
  show room: "ws - a + (we - ws) \<le> length chunk" "ws - position + (we - ws) \<le> length input" using w len by auto
  define xs where "xs = take (we - ws) (drop (ws - position) input)"
  have len_xs: "length xs = we - ws" using room(2) by (simp add: xs_def)
  have fit: "ws - a + length xs \<le> length chunk" using room(1) len_xs by simp
  have "copy_into chunk (ws - a) xs = map (overlay position input f) [a..<b]"
  proof (rule nth_equalityI)
    show "length (copy_into chunk (ws - a) xs) = length (map (overlay position input f) [a..<b])"
      using copy_into_nth(1) [OF fit] len by simp
    fix j assume "j < length (copy_into chunk (ws - a) xs)"
    then have j: "j < length chunk" "j < b - a" using copy_into_nth(1) [OF fit] len by auto
    have new: "xs ! (j - (ws - a)) = input ! (a + j - position)" if "ws \<le> a + j" "a + j < we"
      using that w by (simp add: xs_def ac_simps)
    have kept: "chunk ! j = f (a + j)" if "\<not> (ws \<le> a + j \<and> a + j < we)"
    proof -
      have "position > a \<or> position + length input < b"
      proof (rule ccontr)
        assume "\<not> (position > a \<or> position + length input < b)"
        then have "ws = a" "we = b" by (auto simp: ws_def we_def)
        with that j show False by simp
      qed
      then show ?thesis using old j by simp
    qed
    have "ws - a \<le> j \<and> j < ws - a + (we - ws) \<longleftrightarrow> ws \<le> a + j \<and> a + j < we" using w by auto
    then have "copy_into chunk (ws - a) xs ! j = (if ws \<le> a + j \<and> a + j < we then xs ! (j - (ws - a)) else chunk ! j)"
      using copy_into_nth(2) [OF fit j(1)] len_xs by simp
    then show "copy_into chunk (ws - a) xs ! j = map (overlay position input f) [a..<b] ! j"
      using j(2) new kept iff [of "a + j"] by (auto simp: overlay_def)
  qed
  then show "copy_into chunk (ws - a) (take (we - ws) (drop (ws - position) input)) = map (overlay position input f) [a..<b]"
    by (simp add: xs_def)
qed

text \<open>
  Blocks that stay readable from one state of the store to a later one; a file that is rewritten:
  its layout before, in a store state, and the sizes and the input of the write; the chunks that the
  input touches and the offsets of a chunk.
\<close>

definition blocks_kept :: "(string \<Rightarrow> 's \<Rightarrow> bytes result) \<Rightarrow> 's \<Rightarrow> 's \<Rightarrow> bool" where
  "blocks_kept get s s' \<longleftrightarrow> (\<forall>j cs. get j s = Inr cs \<longrightarrow> get j s' = Inr cs)"

definition rewritable ::
  "(string \<Rightarrow> 's \<Rightarrow> bytes result) \<Rightarrow> 's \<Rightarrow> file_layout \<Rightarrow> nat \<Rightarrow> nat \<Rightarrow> bytes \<Rightarrow> nat \<Rightarrow> bool" where
  "rewritable get s l old position input new \<longleftrightarrow>
     extents_ok old (fl_extents l) \<and> layout_stored get s (fl_extents l)
     \<and> old \<le> new \<and> position + length input \<le> new \<and> input \<noteq> []"

definition touched :: "nat \<Rightarrow> nat \<Rightarrow> bytes \<Rightarrow> nat \<Rightarrow> bool" where
  "touched sz position input i \<longleftrightarrow> i * sz < position + length input \<and> position < i * sz + sz"

definition in_chunk :: "nat \<Rightarrow> nat \<Rightarrow> nat \<Rightarrow> nat \<Rightarrow> bool" where
  "in_chunk sz new i k \<longleftrightarrow> i * sz \<le> k \<and> k < min new (i * sz + sz)"

lemma fixed_chunk_size_ok:
  assumes "is_ok (chunker_from_config config)"
  shows "\<exists>sz > 0. fixed_chunk_size config = Inr (Some sz)"
proof -
  obtain c where c: "chunker_from_config config = Inr c" using assms by (auto simp: is_ok_iff)
  have "cc_algorithm config = ''fixed-size''" "fmlookup (cc_parameters config) ''chunk_size'' = Some (fsc_size c)"
    using c by (auto simp: chunker_from_config_def split: if_splits option.splits)
  then show ?thesis using c chunker_config_roundtrip by (auto simp: fixed_chunk_size_def)
qed

text \<open>The identities of stored blocks are not empty.\<close>

locale block_writer = block_store +
  assumes put_named: "put bs s = Inr (i, s') \<Longrightarrow> i \<noteq> []"
begin

lemma kept_refl [simp]: "blocks_kept get s s"
  by (simp add: blocks_kept_def)

lemma kept_trans: "blocks_kept get s t \<Longrightarrow> blocks_kept get t u \<Longrightarrow> blocks_kept get s u"
  by (simp add: blocks_kept_def)

lemma put_kept: "put bs s = Inr (i, s') \<Longrightarrow> blocks_kept get s s'"
  by (auto simp: blocks_kept_def intro: put_keeps)

lemma kept_extent: "blocks_kept get s s' \<Longrightarrow> extent_stored get s e \<Longrightarrow> extent_stored get s' e"
  by (elim extent_storedE) (simp add: blocks_kept_def extent_stored_def)

lemma kept_stored: "blocks_kept get s s' \<Longrightarrow> layout_stored get s es \<Longrightarrow> layout_stored get s' es"
  by (simp add: layout_stored_def list_all_iff kept_extent)

lemma kept_byte:
  assumes "blocks_kept get s s'" "layout_stored get s es"
  shows "layout_byte get s' es k = layout_byte get s es k"
proof (rule layout_byte_cong)
  fix e assume "e \<in> set es"
  then have "extent_stored get s e" by (rule layout_stored_member [OF assms(2)])
  then show "get (be_block e) s' = get (be_block e) s"
    using assms(1) by (elim extent_storedE) (simp add: blocks_kept_def)
qed

lemma put_chunk_ok:
  assumes "put_chunk put a chunk path s = Inr (r, s')" "chunk \<noteq> []" "a + length chunk \<le> sz" "sz \<le> U64_MAX"
  shows "spans sz a (a + length chunk) r" "r = Some e \<Longrightarrow> extent_stored get s' e" "blocks_kept get s s'"
    "a \<le> k \<Longrightarrow> k < a + length chunk \<Longrightarrow> (case r of None \<Rightarrow> 0 | Some e \<Rightarrow> extent_byte get s' e k) = chunk ! (k - a)"
proof -
  consider (zero) "r = None" "s' = s" "\<forall>b \<in> set chunk. b = 0"
    | (block) i where "put chunk s = Inr (i, s')"
        "r = Some \<lparr>be_file_offset = a, be_block = i, be_block_offset = 0, be_length = length chunk\<rparr>"
    using assms(1) by (auto simp: put_chunk_def map_err_def list_ex_iff split: if_splits sum.splits)
  note cases = this
  show "spans sz a (a + length chunk) r"
    using cases by cases (use assms in \<open>auto simp: spans_def extent_ok_def extent_end_def dest: put_named\<close>)
  show "blocks_kept get s s'" using cases by cases (auto intro: put_kept)
  show "extent_stored get s' e" if "r = Some e"
    using cases by cases (use that in \<open>auto simp: extent_stored_def put_get\<close>)
  show "(case r of None \<Rightarrow> 0 | Some e \<Rightarrow> extent_byte get s' e k) = chunk ! (k - a)" if "a \<le> k" "k < a + length chunk"
    using cases
  proof cases
    case zero
    have "chunk ! (k - a) \<in> set chunk" using that by (intro nth_mem) auto
    then show ?thesis using zero by simp
  qed (simp add: extent_byte_def put_get)
qed

text \<open>One round of the loop, with the chunk it stores.\<close>

lemma rewrite_chunk_eq:
  fixes position and input :: bytes
  assumes l: "extents_ok old (fl_extents l)" "layout_stored get s0 (fl_extents l)" "blocks_kept get s0 s"
    and sz: "0 < sz" "old \<le> new" "position + length input \<le> new" "min new (i * sz + sz) \<le> U64_MAX" "input \<noteq> []"
    and i: "i * sz < position + length input" "position < i * sz + sz"
  defines "a \<equiv> i * sz" and "b \<equiv> min new (i * sz + sz)"
  shows "rewrite_chunk put get l old position input (position + length input) new path sz (es, s) i
    = and_then (put_chunk put a (map (overlay position input (layout_byte get s0 (fl_extents l))) [a..<b]) path s) (\<lambda>(r, s).
      and_then (replace_extent_range es a b r) (\<lambda>es. Inr (es, s)))"
proof -
  let ?f = "layout_byte get s0 (fl_extents l)" and ?e = "position + length input"
  have "position < new" using sz(3,5) by (cases input) auto
  then have ab: "a < b" "b \<le> new" "a \<le> new" "min (new - a) sz = b - a" "a < ?e" "position < b"
    using sz(1-3) i by (auto simp: a_def b_def)
  have bu: "b \<le> U64_MAX" using sz(4) by (simp add: a_def b_def)
  have rd: "read_layout_into get s l old a (b - a) path ''write'' = Inr (map ?f [a..<b])"
    using read_layout_into_contents [OF l(1) kept_stored [OF l(3,2)], of a "b - a" old path] ab bu
      kept_byte [OF l(3,2)] layout_byte_beyond [OF l(1)] by (auto simp: not_less)
  define chunk where "chunk = (if position > a \<or> ?e < b then map ?f [a..<b] else replicate (b - a) 0)"
  have pick: "(if position > a \<or> ?e < b then read_layout_into get s l old a (b - a) path ''write'' else Inr (replicate (b - a) 0))
      = Inr chunk"
    using rd by (simp add: chunk_def)
  have len: "length chunk = b - a" by (simp add: chunk_def)
  have old: "position > a \<or> ?e < b \<Longrightarrow> chunk = map ?f [a..<b]" by (simp add: chunk_def)
  define ws where "ws = max position a"
  define we where "we = min ?e b"
  note o = overlay_chunk [OF ab(1,5,6) sz(5) len old, folded ws_def we_def]
  have u: "b \<le> U64_MAX" "a \<le> U64_MAX" "a + (b - a) = b" using ab bu by auto
  have "we \<le> b" by (simp add: we_def)
  then have v: "ws - a + (we - ws) \<le> U64_MAX" "ws - position + (we - ws) \<le> U64_MAX"
    using o(1) bu by linarith+
  have c: "\<not> we < ws" "\<not> (ws - a + (we - ws) > length chunk \<or> ws - position + (we - ws) > length input)"
    using o(1-3) by auto
  show ?thesis
    by (simp only: rewrite_chunk_def Let_def prod.case a_def [symmetric] checked_add_def u v c ab(3,4) if_True if_False
        and_then_simps ok_or_simps pick ws_def [symmetric] we_def [symmetric] o(4))
qed

lemma rewrite_chunk_fits:
  "rewrite_chunk put get l old position input input_end new path sz st i = Inr r \<Longrightarrow> min new (i * sz + sz) \<le> U64_MAX"
  by (cases st) (auto simp: rewrite_chunk_def Let_def checked_add_def min_def split: if_splits)

lemma rewrite_chunk_step:
  assumes l: "rewritable get s0 l old position input new" "blocks_kept get s0 s" and sz: "0 < sz" "touched sz position input i"
    and fit: "min new (i * sz + sz) \<le> U64_MAX"
  shows "i * sz < min new (i * sz + sz)" "min new (i * sz + sz) \<le> new"
    "rewrite_chunk put get l old position input (position + length input) new path sz (es, s) i
      = and_then (put_chunk put (i * sz)
           (map (overlay position input (layout_byte get s0 (fl_extents l))) [i * sz..<min new (i * sz + sz)]) path s) (\<lambda>(r, s).
        and_then (replace_extent_range es (i * sz) (min new (i * sz + sz)) r) (\<lambda>es. Inr (es, s)))"
proof -
  show "i * sz < min new (i * sz + sz)" "min new (i * sz + sz) \<le> new"
    using l(1) sz by (auto simp: rewritable_def touched_def)
qed (rule rewrite_chunk_eq; use l sz fit in \<open>auto simp: rewritable_def touched_def\<close>)

lemma rewrite_chunk_ok:
  assumes l: "rewritable get s0 l old position input new" "blocks_kept get s0 s" and sz: "0 < sz" "touched sz position input i"
    and es: "extents_ok new es" "layout_stored get s es"
    and res: "rewrite_chunk put get l old position input (position + length input) new path sz (es, s) i = Inr (es', s')"
  shows "extents_ok new es' \<and> layout_stored get s' es' \<and> blocks_kept get s s'
    \<and> (\<forall>k. layout_byte get s' es' k =
          (if in_chunk sz new i k then overlay position input (layout_byte get s0 (fl_extents l)) k
           else layout_byte get s es k))"
proof -
  define a where "a = i * sz"
  define b where "b = min new (a + sz)"
  let ?ov = "overlay position input (layout_byte get s0 (fl_extents l))"
  note step = rewrite_chunk_step [OF l sz rewrite_chunk_fits [OF res], folded a_def, folded b_def]
  note ab = step(1,2)
  have bu: "b \<le> U64_MAX" using rewrite_chunk_fits [OF res] by (simp add: a_def b_def)
  obtain r s1 where put: "put_chunk put a (map ?ov [a..<b]) path s = Inr (r, s1)"
    and rep: "replace_extent_range es a b r = Inr es'" "s' = s1"
    using res [unfolded step(3)] by auto
  note p = put_chunk_ok [OF put, of b]
  have chunk: "spans new a b r" "\<And>e. r = Some e \<Longrightarrow> extent_stored get s1 e" "blocks_kept get s s1"
    "\<And>k. a \<le> k \<Longrightarrow> k < b \<Longrightarrow> (case r of None \<Rightarrow> 0 | Some e \<Rightarrow> extent_byte get s1 e k) = ?ov k"
    using p ab bu spans_mono [OF _ ab(2)] by auto
  obtain es1 where es1: "replace_extent_range es a b r = Inr es1" "extents_ok new es1"
    "layout_stored get s1 es \<longrightarrow> (\<forall>e. r = Some e \<longrightarrow> extent_stored get s1 e) \<longrightarrow> layout_stored get s1 es1"
    "\<forall>k. layout_byte get s1 es1 k = (if a \<le> k \<and> k < b then (case r of None \<Rightarrow> 0 | Some e \<Rightarrow> extent_byte get s1 e k)
           else layout_byte get s1 es k)"
    using replace_extent_range_contents [OF es(1) ab(1) chunk(1), of get s1] rep(1) by (auto split: if_splits)
  have "layout_byte get s1 es1 k = (if a \<le> k \<and> k < b then ?ov k else layout_byte get s es k)" for k
    using es1(4) chunk(4) [of k] kept_byte [OF chunk(3) es(2)] by (cases "a \<le> k \<and> k < b") auto
  then show ?thesis
    using es1(1-3) rep chunk(2,3) kept_stored [OF chunk(3) es(2)] by (simp add: a_def b_def in_chunk_def)
qed

text \<open>Nothing but the block store can make a round fail.\<close>

lemma rewrite_chunk_error:
  assumes l: "rewritable get s0 l old position input new" "blocks_kept get s0 s" and fits: "new < U64_MAX"
    and sz: "0 < sz" "touched sz position input i"
    and es: "extents_ok new es"
    and res: "rewrite_chunk put get l old position input (position + length input) new path sz (es, s) i = Inl err"
  shows "\<exists>bs e. put bs s = Inl e \<and> err = with_context e ''block-put'' (Some path)"
proof -
  define a where "a = i * sz"
  define b where "b = min new (a + sz)"
  let ?ov = "overlay position input (layout_byte get s0 (fl_extents l))"
  have "min new (i * sz + sz) \<le> U64_MAX" using fits by simp
  note step = rewrite_chunk_step [OF l sz this, folded a_def, folded b_def]
  note ab = step(1,2)
  have eq: "and_then (put_chunk put a (map ?ov [a..<b]) path s)
      (\<lambda>(r, s). and_then (replace_extent_range es a b r) (\<lambda>es. Inr (es, s))) = Inl err"
    using res unfolding step(3) .
  show ?thesis
  proof (cases "put_chunk put a (map ?ov [a..<b]) path s")
    case (Inl e)
    then show ?thesis using eq by (auto simp: put_chunk_def map_err_def split: if_splits sum.splits)
  next
    case (Inr p)
    then obtain r s1 where put: "put_chunk put a (map ?ov [a..<b]) path s = Inr (r, s1)" by (cases p) auto
    have "spans new a b r" using put_chunk_ok(1) [OF put, of new] ab fits by simp
    then show ?thesis
      using replace_extent_range_contents [OF es ab(1), of r get s1] extents_ok_length [OF es] fits eq put
      by (auto split: if_splits)
  qed
qed

text \<open>The loop over the chunks touched.\<close>

lemma rewrite_loop_ok:
  assumes l: "rewritable get s0 l old position input new" "blocks_kept get s0 s" and sz: "0 < sz" "\<forall>i \<in> set is. touched sz position input i"
    and es: "extents_ok new es" "layout_stored get s es"
    and res: "try_fold (rewrite_chunk put get l old position input (position + length input) new path sz) (es, s) is = Inr (es', s')"
  shows "extents_ok new es' \<and> layout_stored get s' es' \<and> blocks_kept get s s'
    \<and> (\<forall>k. layout_byte get s' es' k =
          (if \<exists>i \<in> set is. in_chunk sz new i k
           then overlay position input (layout_byte get s0 (fl_extents l)) k else layout_byte get s es k))"
  using l(2) sz(2) es res
proof (induction "is" arbitrary: es s)
  case (Cons i "is")
  obtain es1 s1 where step: "rewrite_chunk put get l old position input (position + length input) new path sz (es, s) i = Inr (es1, s1)"
    and rest: "try_fold (rewrite_chunk put get l old position input (position + length input) new path sz) (es1, s1) is = Inr (es', s')"
    using Cons.prems(5) by auto
  have i: "touched sz position input i" using Cons.prems(2) by simp
  note ok = rewrite_chunk_ok [OF l(1) Cons.prems(1) sz(1) i Cons.prems(3,4) step]
  have "blocks_kept get s0 s1" using ok Cons.prems(1) kept_trans by blast
  note ok' = Cons.IH [OF this _ _ _ rest]
  show ?case using ok ok' Cons.prems(2) kept_trans by auto
qed simp

text \<open>The blocks that a loop stores, at most one in each round.\<close>

lemma rewrite_chunk_puts:
  assumes "rewritable get s0 l old position input new" "blocks_kept get s0 s" "0 < sz" "touched sz position input i"
    and "rewrite_chunk put get l old position input (position + length input) new path sz (es, s) i = Inr (es', s')"
  shows "\<exists>bss ids. length bss \<le> 1 \<and> put_all put bss s = Inr (ids, s')"
proof -
  obtain a chunk r where "put_chunk put a chunk path s = Inr (r, s')"
    using assms(5) unfolding rewrite_chunk_step(3) [OF assms(1-4) rewrite_chunk_fits [OF assms(5)]] by auto
  then consider "s' = s" | i where "put chunk s = Inr (i, s')"
    by (auto simp: put_chunk_def map_err_def split: if_splits sum.splits)
  then show ?thesis
  proof cases
    case 1
    then show ?thesis by (intro exI [of _ "[]"]) simp
  next
    case 2
    then show ?thesis by (intro exI [of _ "[chunk]"]) simp
  qed
qed

lemma put_all_append:
  "put_all put (xs @ ys) s = and_then (put_all put xs s) (\<lambda>(is, s). and_then (put_all put ys s) (\<lambda>(js, s). Inr (is @ js, s)))"
  by (induction xs arbitrary: s) (auto simp: and_then_def split: sum.splits prod.splits)

lemma rewrite_loop_error:
  assumes l: "rewritable get s0 l old position input new" "blocks_kept get s0 s" and fits: "new < U64_MAX"
    and sz: "0 < sz" "\<forall>i \<in> set is. touched sz position input i"
    and es: "extents_ok new es" "layout_stored get s es"
    and res: "try_fold (rewrite_chunk put get l old position input (position + length input) new path sz) (es, s) is = Inl err"
  shows "\<exists>bss ids t bs e. length bss < length is \<and> put_all put bss s = Inr (ids, t) \<and> put bs t = Inl e
    \<and> err = with_context e ''block-put'' (Some path)"
  using l(2) sz(2) es res
proof (induction "is" arbitrary: es s)
  case (Cons i "is")
  have i: "touched sz position input i" using Cons.prems(2) by simp
  show ?case
  proof (cases "rewrite_chunk put get l old position input (position + length input) new path sz (es, s) i")
    case (Inl e)
    then have "\<exists>bs e. put bs s = Inl e \<and> err = with_context e ''block-put'' (Some path)"
      using rewrite_chunk_error [OF l(1) Cons.prems(1) fits sz(1) i Cons.prems(3)] Cons.prems(5) by simp
    then show ?thesis by (intro exI [of _ "[]"]) simp
  next
    case (Inr p)
    then obtain es1 s1 where step: "rewrite_chunk put get l old position input (position + length input) new path sz (es, s) i = Inr (es1, s1)"
      by (cases p) auto
    note ok = rewrite_chunk_ok [OF l(1) Cons.prems(1) sz(1) i Cons.prems(3,4) step]
    then have "blocks_kept get s0 s1" using Cons.prems(1) kept_trans by blast
    then obtain bss ids t bs e where r: "length bss < length is" "put_all put bss s1 = Inr (ids, t)" "put bs t = Inl e"
      "err = with_context e ''block-put'' (Some path)"
      using Cons.IH [of s1 es1] ok step Cons.prems(2,5) by auto
    obtain bss0 ids0 where "length bss0 \<le> 1" "put_all put bss0 s = Inr (ids0, s1)"
      using rewrite_chunk_puts [OF l(1) Cons.prems(1) sz(1) i step] by blast
    then show ?thesis
      using r by (intro exI [of _ "bss0 @ bss"] exI [of _ "ids0 @ ids"] exI [of _ t] exI [of _ bs] exI [of _ e])
        (simp add: put_all_append)
  qed
qed simp

lemma touched_range:
  assumes "0 < sz" "input \<noteq> []" "i \<in> set [position div sz..<Suc ((position + length input - 1) div sz)]"
  shows "touched sz position input i"
proof -
  have i: "position div sz \<le> i" "i \<le> (position + length input - 1) div sz"
    using assms(3) by (auto split: if_splits)
  have "i * sz \<le> (position + length input - 1) div sz * sz" using i(2) by (rule mult_le_mono1)
  also have "\<dots> \<le> position + length input - 1" by (rule div_times_less_eq_dividend)
  finally have "i * sz < position + length input" using assms(2) by (cases input) auto
  moreover have "position div sz * sz \<le> i * sz" using i(1) by (rule mult_le_mono1)
  then have "position < i * sz + sz" using dividend_less_div_times [OF assms(1), of position] by linarith
  ultimately show ?thesis by (simp add: touched_def)
qed

lemma chunk_count:
  assumes "0 < sz" "input \<noteq> []"
  shows "length [position div sz..<Suc ((position + length input - 1) div sz)] \<le> length input + 1"
proof -
  have "length input \<le> length input * sz" using assms(1) by simp
  then have "(position + length input - 1) div sz \<le> (position + length input * sz) div sz"
    by (intro div_le_mono) linarith
  also have "\<dots> = position div sz + length input" using assms(1) by simp
  finally show ?thesis unfolding length_upt by linarith
qed

lemma input_in_chunks:
  assumes "0 < sz" "position \<le> k" "k < position + length input" "position + length input \<le> new"
  shows "\<exists>i \<in> set [position div sz..<Suc ((position + length input - 1) div sz)]. in_chunk sz new i k"
proof (rule bexI [of _ "k div sz"])
  have "k < k div sz * sz + sz" using assms(1) by (metis add.commute dividend_less_div_times)
  then show "in_chunk sz new (k div sz) k" using assms by (simp add: in_chunk_def)
  show "k div sz \<in> set [position div sz..<Suc ((position + length input - 1) div sz)]"
    using div_le_mono [OF assms(2), of sz] div_le_mono [of k "position + length input - 1" sz] assms(3)
    by (simp add: less_Suc_eq_le del: upt_Suc)
qed

lemma rewrite_layout_ok:
  assumes l: "rewritable get s l old position input new" and c: "is_ok (chunker_from_config (fl_chunker l))"
    and res: "rewrite_layout put get l old position input new path s = Inr (l', s')"
  shows "fl_chunker l' = fl_chunker l \<and> extents_ok new (fl_extents l') \<and> layout_stored get s' (fl_extents l')
    \<and> blocks_kept get s s'
    \<and> (\<forall>k. layout_byte get s' (fl_extents l') k = overlay position input (layout_byte get s (fl_extents l)) k)"
proof -
  obtain sz where sz: "0 < sz" "fixed_chunk_size (fl_chunker l) = Inr (Some sz)" using fixed_chunk_size_ok [OF c] by blast
  let ?is = "[position div sz..<Suc ((position + length input - 1) div sz)]"
  have l': "input \<noteq> []" "position + length input \<le> new" "extents_ok old (fl_extents l)"
    "layout_stored get s (fl_extents l)" "old \<le> new"
    using l by (auto simp: rewritable_def)
  obtain es' where loop: "try_fold (rewrite_chunk put get l old position input (position + length input) new path sz)
      (fl_extents l, s) ?is = Inr (es', s')" and es': "l' = \<lparr>fl_chunker = fl_chunker l, fl_extents = es'\<rparr>"
    using res l' unfolding rewrite_layout_def sz(2) Let_def checked_add_def by (auto simp del: upt_Suc split: if_splits)
  have ts: "\<forall>i \<in> set ?is. touched sz position input i" using touched_range [OF sz(1) l'(1)] by blast
  note ok = rewrite_loop_ok [OF l kept_refl sz(1) ts extents_ok_mono [OF l'(3,5)] l'(4) loop]
  have "layout_byte get s' es' k = overlay position input (layout_byte get s (fl_extents l)) k" for k
    using ok input_in_chunks [OF sz(1) _ _ l'(2), of k] by (auto simp: overlay_def simp del: upt_Suc set_upt)
  then show ?thesis using ok es' by simp
qed

lemma rewrite_layout_error:
  assumes l: "rewritable get s l old position input new" and fits: "new < U64_MAX" and c: "is_ok (chunker_from_config (fl_chunker l))"
    and res: "rewrite_layout put get l old position input new path s = Inl err"
  shows "\<exists>bss ids t bs e. length bss < length input + 1 \<and> put_all put bss s = Inr (ids, t) \<and> put bs t = Inl e
    \<and> err = with_context e ''block-put'' (Some path)"
proof -
  obtain sz where sz: "0 < sz" "fixed_chunk_size (fl_chunker l) = Inr (Some sz)" using fixed_chunk_size_ok [OF c] by blast
  let ?is = "[position div sz..<Suc ((position + length input - 1) div sz)]"
  have l': "input \<noteq> []" "position + length input \<le> new" "new < U64_MAX" "extents_ok old (fl_extents l)"
    "layout_stored get s (fl_extents l)" "old \<le> new"
    using l fits by (auto simp: rewritable_def)
  have loop: "try_fold (rewrite_chunk put get l old position input (position + length input) new path sz)
      (fl_extents l, s) ?is = Inl err"
    using res l' unfolding rewrite_layout_def sz(2) Let_def checked_add_def
    by (auto simp del: upt_Suc simp: and_then_eq_Inl split: if_splits)
  have ts: "\<forall>i \<in> set ?is. touched sz position input i" using touched_range [OF sz(1) l'(1)] by blast
  obtain bss ids t bs e where r: "length bss < length ?is" "put_all put bss s = Inr (ids, t)" "put bs t = Inl e"
    "err = with_context e ''block-put'' (Some path)"
    using rewrite_loop_error [OF l kept_refl fits sz(1) ts extents_ok_mono [OF l'(4,6)] l'(5) loop] by blast
  have "length bss < length input + 1" using r(1) chunk_count [OF sz(1) l'(1)] by (rule order_less_le_trans)
  then show ?thesis using r(2-4) by blast
qed

end

section \<open>On the memory block store\<close>

lemma block_id_nonempty: "put_loop base bs blocks i c = Inr (j, blocks') \<Longrightarrow> i \<noteq> [] \<Longrightarrow> base \<noteq> [] \<Longrightarrow> j \<noteq> []"
proof (induction base bs blocks i c rule: put_loop.induct)
  case (1 base bs blocks i c)
  show ?case
    using 1(2-) 1(1) unfolding put_loop.simps [of base bs blocks i c]
    by (auto split: option.splits if_splits)
qed

interpretation memwriter: block_writer block_put block_get
  by unfold_locales (auto simp: block_put_def block_id_def Let_def dest!: block_id_nonempty)

lemma put_all_card:
  "put_all block_put bss blocks = Inr (ids, blocks') \<Longrightarrow> fcard (fmdom blocks') \<le> fcard (fmdom blocks) + length bss"
proof (induction bss arbitrary: blocks ids)
  case (Cons bs bss)
  then obtain i b1 js where p: "block_put bs blocks = Inr (i, b1)" "put_all block_put bss b1 = Inr (js, blocks')" by auto
  have "fcard (fmdom b1) \<le> Suc (fcard (fmdom blocks))"
    using block_put_result [OF p(1)] by (auto simp: fcard_finsert_if)
  then show ?case using Cons.IH [OF p(2)] by simp
qed simp

lemma validate_file_layout_parts:
  "validate_file_layout l sz = Inr () \<longleftrightarrow> is_ok (chunker_from_config (fl_chunker l)) \<and> extents_ok sz (fl_extents l)"
  by (rule validate_file_layout_iff)

lemma overlay_contents:
  assumes "\<And>k. sz \<le> k \<Longrightarrow> f k = 0"
  shows "map (overlay position input f) [0..<max sz (position + length input)]
    = copy_into (map f [0..<sz] @ replicate (position + length input - sz) 0) position input"
    (is "?l = copy_into ?b position input")
proof (rule nth_equalityI)
  have fit: "position + length input \<le> length ?b" by simp
  show "length ?l = length (copy_into ?b position input)" by (simp only: copy_into_nth(1) [OF fit]) simp
  fix j assume j: "j < length ?l"
  then have "?b ! j = f j" using assms [of j] by (auto simp: nth_append)
  then show "?l ! j = copy_into ?b position input ! j"
    using j copy_into_nth(2) [OF fit, of j] by (auto simp: overlay_def)
qed

lemma rewrite_layout_total:
  assumes "validate_file_layout l sz = Inr ()" "layout_stored block_get blocks (fl_extents l)"
    and "input \<noteq> []" "sz < U64_MAX" "position + length input < U64_MAX"
    and "fcard (fmdom blocks) + length input \<le> U64_MAX"
  shows "\<exists>l' blocks'. rewrite_layout block_put block_get l sz position input (max sz (position + length input)) path blocks
    = Inr (l', blocks')"
proof (cases "rewrite_layout block_put block_get l sz position input (max sz (position + length input)) path blocks")
  case (Inl err)
  have v: "is_ok (chunker_from_config (fl_chunker l))" "extents_ok sz (fl_extents l)"
    using assms(1) by (simp_all add: validate_file_layout_parts)
  have r: "rewritable block_get blocks l sz position input (max sz (position + length input))"
    using assms(2-5) v(2) by (simp add: rewritable_def)
  obtain bss ids t bs e where e: "length bss < length input + 1" "put_all block_put bss blocks = Inr (ids, t)" "block_put bs t = Inl e"
    using memwriter.rewrite_layout_error [OF r _ v(1) Inl] assms(4,5) max_less_iff_conj by blast
  have "fcard (fmdom t) \<le> U64_MAX" using put_all_card [OF e(2)] e(1) assms(6) by linarith
  then show ?thesis using block_put_ok [of t bs] e(3) by simp
qed auto

section \<open>Properties\<close>

text \<open>
  C9: A write to a file of the chunked file system is a write to its bytes: reading the new layout
  back gives the old contents, extended by zeros where the file grows, with the input copied over
  the range written. The new layout passes validation for the new size, its blocks are stored, and
  every layout that was stored before still reads the same bytes.
\<close>

theorem chunked_write_refines:
  assumes "validate_file_layout l sz = Inr ()" "layout_stored block_get blocks (fl_extents l)"
    and "input \<noteq> []" "sz \<le> U64_MAX" "position + length input \<le> U64_MAX"
    and "rewrite_layout block_put block_get l sz position input (max sz (position + length input)) path blocks
           = Inr (l', blocks')"
  shows "(\<exists>old. read_layout_all block_get blocks l sz path = Inr old \<and> length old = sz
      \<and> read_layout_all block_get blocks' l' (max sz (position + length input)) path
          = Inr (copy_into (old @ replicate (position + length input - sz) 0) position input))
    \<and> validate_file_layout l' (max sz (position + length input)) = Inr ()
    \<and> layout_stored block_get blocks' (fl_extents l')
    \<and> (\<forall>m msz. validate_file_layout m msz = Inr () \<and> layout_stored block_get blocks (fl_extents m) \<and> msz \<le> U64_MAX \<longrightarrow>
         read_layout_all block_get blocks' m msz path = read_layout_all block_get blocks m msz path)"
proof -
  let ?new = "max sz (position + length input)"
  have v: "is_ok (chunker_from_config (fl_chunker l))" "extents_ok sz (fl_extents l)"
    using assms(1) by (simp_all add: validate_file_layout_parts)
  have r: "rewritable block_get blocks l sz position input ?new" using assms(2-5) v(2) by (simp add: rewritable_def)
  note ok = memwriter.rewrite_layout_ok [OF r v(1) assms(6)]
  have k: "blocks_kept block_get blocks blocks'" using ok by simp
  have "layout_contents block_get blocks' (fl_extents l') ?new
      = copy_into (layout_contents block_get blocks (fl_extents l) sz @ replicate (position + length input - sz) 0) position input"
    using overlay_contents [of sz "layout_byte block_get blocks (fl_extents l)" position input, OF layout_byte_beyond [OF v(2)]] ok
    by (simp add: layout_contents_def cong: map_cong)
  moreover have "read_layout_all block_get blocks' m msz path = read_layout_all block_get blocks m msz path"
    if "validate_file_layout m msz = Inr ()" "layout_stored block_get blocks (fl_extents m)" "msz \<le> U64_MAX" for m msz
  proof -
    have m: "extents_ok msz (fl_extents m)" using that(1) by (simp add: validate_file_layout_parts)
    show ?thesis
      using read_layout_all_contents [OF m that(2,3)] read_layout_all_contents [OF m memwriter.kept_stored [OF k that(2)] that(3)]
        memwriter.kept_byte [OF k that(2)] by (simp add: layout_contents_def cong: map_cong)
  qed
  ultimately show ?thesis
    using read_layout_all_contents [OF v(2) assms(2)] read_layout_all_contents [of ?new l' block_get blocks'] assms(4,5) ok v(1)
    by (auto simp: validate_file_layout_parts layout_contents_def)
qed

definition sample_layout :: file_layout where
  "sample_layout = \<lparr>fl_chunker = fixed_size_config \<lparr>fsc_size = 4\<rparr>,
     fl_extents = [\<lparr>be_file_offset = 0, be_block = ''b'', be_block_offset = 1, be_length = 3\<rparr>]\<rparr>"

definition sample_blocks :: block_map where
  "sample_blocks = fmap_of_list [(''b'', [1, 2, 3, 4])]"

theorem chunked_write_refines_witness:
  "\<exists>l' blocks'. rewrite_layout block_put block_get sample_layout 6 3 [9, 8] 6 ''/f'' sample_blocks = Inr (l', blocks')
     \<and> read_layout_all block_get blocks' l' 6 ''/f'' = Inr [2, 3, 4, 9, 8, 0]"
proof -
  have pre: "validate_file_layout sample_layout 6 = Inr ()" "layout_stored block_get sample_blocks (fl_extents sample_layout)"
    "read_layout_all block_get sample_blocks sample_layout 6 ''/f'' = Inr [2, 3, 4, 0, 0, 0]"
    by code_simp+
  obtain l' blocks' where r: "rewrite_layout block_put block_get sample_layout 6 3 [9, 8] 6 ''/f'' sample_blocks = Inr (l', blocks')"
    using rewrite_layout_total [OF pre(1,2), of "[9, 8]" 3 "''/f''"]
    by (auto simp: U64_MAX_def sample_blocks_def fcard.rep_eq)
  show ?thesis
    using chunked_write_refines [OF pre(1,2), of "[9, 8]" 3 "''/f''" l' blocks'] r pre(3)
    by (auto simp: U64_MAX_def copy_into_def)
qed



end
