(* ===== verification/Chunked_Namespace_Safety.thy ===== *)
theory Chunked_Namespace_Safety
  imports Chunked_Requests Chunked_Tree Chunked_Layout_Safety
begin

text \<open>
  The namespace operations of the chunked file system keep namespaces valid: what they do to the
  tree of entries and to single nodes, and that every candidate a mutation builds passes validation.
\<close>

section \<open>Times and stats\<close>

text \<open>Stats that differ in times and ownership only.\<close>

definition stats_like :: "stats \<Rightarrow> stats \<Rightarrow> bool" where
  "stats_like a b \<longleftrightarrow> st_ino a = st_ino b \<and> st_mode a = st_mode b \<and> st_size a = st_size b \<and> st_nlink a = st_nlink b"

lemma touch_modified_like: "touch_modified c now st = Inr st' \<Longrightarrow> stats_like st' st"
  by (auto simp: touch_modified_def stats_like_def split: if_splits)

lemma touch_changed_like: "touch_changed c now st = Inr st' \<Longrightarrow> stats_like st' st"
  by (auto simp: touch_changed_def stats_like_def)

section \<open>Walking\<close>

abbreviation nkid :: "namespace \<Rightarrow> nat \<Rightarrow> string \<Rightarrow> nat option" where
  "nkid ns \<equiv> ns_kid (ns_nodes ns)"

abbreviation ndir :: "namespace \<Rightarrow> nat \<Rightarrow> bool" where
  "ndir ns \<equiv> is_dir_node (ns_nodes ns)"

text \<open>
  Symbolic links whose targets are free of NUL characters, and files whose blocks are in the store.
\<close>

definition data_clean :: "block_map \<Rightarrow> node_data \<Rightarrow> bool" where
  "data_clean B d =
     (case d of
        ND_Symlink t \<Rightarrow> CHR 0x00 \<notin> set t
      | ND_File l \<Rightarrow> layout_stored block_get B (fl_extents l)
      | _ \<Rightarrow> True)"

lemma data_clean_simps [simp]:
  "data_clean B (ND_Symlink t) \<longleftrightarrow> CHR 0x00 \<notin> set t"
  "data_clean B (ND_File l) \<longleftrightarrow> layout_stored block_get B (fl_extents l)"
  "data_clean B (ND_Directory es)" "data_clean B ND_Special"
  by (simp_all add: data_clean_def)

definition clean_links :: "block_map \<Rightarrow> namespace \<Rightarrow> bool" where
  "clean_links B ns \<longleftrightarrow> (\<forall>i n. fmlookup (ns_nodes ns) i = Some n \<longrightarrow> data_clean B (nm_data n))"

lemma clean_linksD: "clean_links B ns \<Longrightarrow> fmlookup (ns_nodes ns) i = Some n \<Longrightarrow> data_clean B (nm_data n)"
  by (simp add: clean_links_def)

text \<open>The entry of a name in a directory that the components \<open>cs\<close> lead to, and the entry of the root.\<close>

definition ns_entry_at :: "namespace \<Rightarrow> string list \<Rightarrow> ns_entry \<Rightarrow> bool" where
  "ns_entry_at ns cs en \<longleftrightarrow>
     tree_walk (nkid ns) (ns_root ns) cs = Some (ne_parent en) \<and> ndir ns (ne_parent en)
     \<and> ne_node en = nkid ns (ne_parent en) (ne_name en)
     \<and> ne_path en = render_path (cs @ [ne_name en]) \<and> list_all valid_component (cs @ [ne_name en])
     \<and> entry_name_ok (ne_name en)"

definition ns_root_entry :: "namespace \<Rightarrow> ns_entry" where
  "ns_root_entry ns = \<lparr>ne_parent = ns_root ns, ne_name = [], ne_node = Some (ns_root ns), ne_path = ''/''\<rparr>"

definition ns_entry_ok :: "namespace \<Rightarrow> ns_entry \<Rightarrow> bool" where
  "ns_entry_ok ns en \<longleftrightarrow> en = ns_root_entry ns \<or> (\<exists>cs. ns_entry_at ns cs en)"

lemma ns_walk_segments_dir:
  assumes "ns_walk_segments ns ff sc nz before (x # xs) cur = Inr out"
  obtains n es where "fmlookup (ns_nodes ns) cur = Some n" "nm_data n = ND_Directory es"
proof -
  obtain n where n: "fmlookup (ns_nodes ns) cur = Some n" using assms by auto
  then show ?thesis using assms that by (cases "nm_data n") auto
qed

lemma ns_walk_segments_arrived:
  assumes "ns_walk_segments ns ff sc nz before xs cur = Inr (NsArrived en)"
    and "tree_walk (nkid ns) (ns_root ns) before = Some cur"
  shows "\<exists>cs. before @ xs = cs @ [ne_name en] \<and> tree_walk (nkid ns) (ns_root ns) cs = Some (ne_parent en)
    \<and> ndir ns (ne_parent en) \<and> ne_node en = nkid ns (ne_parent en) (ne_name en) \<and> ne_path en = nz"
  using assms
proof (induction xs arbitrary: before cur)
  case (Cons x xs)
  from Cons.prems(1) obtain n es where n: "fmlookup (ns_nodes ns) cur = Some n" "nm_data n = ND_Directory es"
    by (rule ns_walk_segments_dir)
  have d: "ndir ns cur" and k: "nkid ns cur x = map_option dn_inode (find (\<lambda>e. dn_name e = x) es)"
    using n by (simp_all add: is_dir_node_def is_dir_data_def ns_kid_def entries_of_def dir_entries_def)
  show ?case
  proof (cases "find (\<lambda>e. dn_name e = x) es")
    case None
    then show ?thesis using Cons.prems n d k by (intro exI [of _ before]) (auto split: if_splits)
  next
    case (Some e)
    then obtain m where m: "fmlookup (ns_nodes ns) (dn_inode e) = Some m" using Cons.prems(1) n by auto
    have l: "link_target (xs \<noteq> [] \<or> ff) m = None"
      using Cons.prems(1) n Some m by (cases "link_target (xs \<noteq> [] \<or> ff) m") (auto simp: Let_def split: if_splits)
    show ?thesis
    proof (cases "xs = []")
      case True
      then show ?thesis using Cons.prems n d k Some m l by (intro exI [of _ before]) auto
    next
      case False
      then have "ns_walk_segments ns ff sc nz (before @ [x]) xs (dn_inode e) = Inr (NsArrived en)"
        using Cons.prems n Some m l by simp
      moreover have "tree_walk (nkid ns) (ns_root ns) (before @ [x]) = Some (dn_inode e)"
        using Cons.prems(2) k Some by (simp add: tree_walk_snoc)
      ultimately show ?thesis using Cons.IH by fastforce
    qed
  qed
qed simp

text \<open>A link that is followed has no NUL characters in the path it leads to.\<close>

lemma ns_walk_segments_redirect:
  assumes "ns_walk_segments ns ff sc nz before xs cur = Inr (NsRedirect r)" "clean_links B ns"
    and "CHR 0x00 \<notin> \<Union> (set ` set (before @ xs))"
  shows "CHR 0x00 \<notin> set r"
  using assms
proof (induction xs arbitrary: before cur)
  case (Cons x xs)
  have join: "CHR 0x00 \<notin> set (join_with ''/'' ys)" if "CHR 0x00 \<notin> \<Union> (set ` set ys)" for ys
    using that by (induction "''/''" ys rule: join_with.induct) auto
  from Cons.prems(1) obtain n es where d: "fmlookup (ns_nodes ns) cur = Some n" "nm_data n = ND_Directory es"
    by (rule ns_walk_segments_dir)
  from Cons.prems(1) d obtain e where e: "find (\<lambda>e. dn_name e = x) es = Some e"
    by (cases "find (\<lambda>e. dn_name e = x) es") (auto split: if_splits)
  from Cons.prems(1) d e obtain m where m: "fmlookup (ns_nodes ns) (dn_inode e) = Some m" by auto
  note n = d e m
  show ?case
  proof (cases "link_target (xs \<noteq> [] \<or> ff) m")
    case (Some t)
    then have "nm_data m = ND_Symlink t" by (auto simp: link_target_def split: node_data.splits if_splits)
    then have "CHR 0x00 \<notin> set t" using clean_linksD [OF Cons.prems(2) n(4)] by simp
    then show ?thesis using Cons.prems n Some join [of before] join [of xs] by (auto simp: Let_def split: if_splits)
  next
    case None
    then have "ns_walk_segments ns ff sc nz (before @ [x]) xs (dn_inode e) = Inr (NsRedirect r)"
      using Cons.prems(1) n by (auto split: if_splits)
    then show ?thesis using Cons.IH Cons.prems(2,3) by simp
  qed
qed simp

lemma norm_comps_clean: "CHR 0x00 \<notin> set path \<Longrightarrow> CHR 0x00 \<notin> \<Union> (set ` set (norm_comps path))"
  using norm_comps_chars by fastforce

lemma ns_walk_ok:
  assumes "ns_walk ns path ff sc d = Inr en" "clean_links B ns" "CHR 0x00 \<notin> set path"
  shows "ns_entry_ok ns en"
  using assms
proof (induction ns path ff sc d rule: ns_walk.induct)
  case (1 ns path ff sc d)
  note un = "1.prems"(1) [unfolded ns_walk.simps [of ns path] Let_def]
  have d: "\<not> d > CHUNKED_SYMLINK_DEPTH" using un by (auto split: if_splits)
  show ?case
  proof (cases "normalize_path path = ''/''")
    case True
    then show ?thesis using un d by (auto simp: ns_entry_ok_def ns_root_entry_def)
  next
    case False
    then obtain out where out: "ns_walk_segments ns ff sc (normalize_path path) [] (split_path (normalize_path path)) (ns_root ns) = Inr out"
      using un d by (auto split: sum.splits)
    have sp: "split_path (normalize_path path) = norm_comps path" by (simp add: split_path_norm_comps)
    show ?thesis
    proof (cases out)
      case (NsArrived e)
      then have e: "e = en" using un d False out by simp
      obtain cs where cs: "norm_comps path = cs @ [ne_name en]" "tree_walk (nkid ns) (ns_root ns) cs = Some (ne_parent en)"
        "ndir ns (ne_parent en)" "ne_node en = nkid ns (ne_parent en) (ne_name en)" "ne_path en = normalize_path path"
        using ns_walk_segments_arrived [OF out [unfolded NsArrived e sp]] by auto
      have v: "list_all valid_component (cs @ [ne_name en])" using norm_comps_valid [of path] cs(1) by simp
      have "CHR 0x00 \<notin> set (ne_name en)" using norm_comps_clean [OF "1.prems"(3)] cs(1) by auto
      then have "entry_name_ok (ne_name en)" using v by (auto simp: entry_name_ok_def valid_component_def)
      then show ?thesis
        using cs v normalize_path_render [of path] by (auto simp: ns_entry_ok_def ns_entry_at_def)
    next
      case (NsRedirect r)
      have "CHR 0x00 \<notin> set r"
        using ns_walk_segments_redirect [OF out [unfolded NsRedirect sp] "1.prems"(2)] norm_comps_clean [OF "1.prems"(3)] by simp
      then show ?thesis using un d False out NsRedirect "1.IH" "1.prems"(2) by (auto simp: Let_def)
    qed
  qed
qed

section \<open>Nodes\<close>

definition ns_nodes_ok :: "nat \<Rightarrow> (nat, node_metadata) fmap \<Rightarrow> bool" where
  "ns_nodes_ok next_inode nodes \<longleftrightarrow> (\<forall>i n. fmlookup nodes i = Some n \<longrightarrow> ns_node_ok next_inode i n)"

lemma ns_nodes_okD: "ns_nodes_ok nx nodes \<Longrightarrow> fmlookup nodes i = Some n \<Longrightarrow> ns_node_ok nx i n"
  by (simp add: ns_nodes_ok_def)

lemma ns_nodes_ok_upd: "ns_nodes_ok nx nodes \<Longrightarrow> ns_node_ok nx i n \<Longrightarrow> ns_nodes_ok nx (fmupd i n nodes)"
  by (simp add: ns_nodes_ok_def)

lemma ns_nodes_ok_drop: "ns_nodes_ok nx nodes \<Longrightarrow> ns_nodes_ok nx (fmdrop i nodes)"
  by (auto simp: ns_nodes_ok_def split: if_splits)

lemma ns_nodes_ok_mono: "ns_nodes_ok nx nodes \<Longrightarrow> nx \<le> nx' \<Longrightarrow> ns_nodes_ok nx' nodes"
  by (fastforce simp: ns_nodes_ok_def ns_node_ok_def)

lemma ns_nodes_ok_fresh: "ns_nodes_ok nx nodes \<Longrightarrow> fmlookup nodes nx = None"
  by (cases "fmlookup nodes nx") (auto simp: ns_nodes_ok_def ns_node_ok_def)

lemma ns_base_nodes:
  "ns_base ns \<longleftrightarrow> ns_format_version ns = NAMESPACE_FORMAT_VERSION
     \<and> is_ok (chunker_from_config (ns_default_chunker ns)) \<and> 0 < ns_root ns \<and> ns_nodes_ok (ns_next_inode ns) (ns_nodes ns)"
  by (simp add: ns_base_def ns_nodes_ok_def)

text \<open>A node with the same data and stats that agree on kind and size.\<close>

lemma ns_node_ok_stats:
  assumes "ns_node_ok nx i n" "st_ino st = st_ino (nm_stats n)" "st_mode st = st_mode (nm_stats n)"
    and "st_size st = st_size (nm_stats n)" "is_dir_data (nm_data n) \<Longrightarrow> 2 \<le> st_nlink st"
  shows "ns_node_ok nx i \<lparr>nm_stats = st, nm_data = nm_data n\<rparr>"
  using assms by (cases "nm_data n") (simp_all add: ns_node_ok_def node_kind_ok_def)

lemma ns_node_ok_dir:
  assumes "ns_node_ok nx i n" "nm_data n = ND_Directory es" "st_ino st = st_ino (nm_stats n)" "st_mode st = st_mode (nm_stats n)"
    and "2 \<le> st_nlink st" "distinct (map dn_name es')"
  shows "ns_node_ok nx i \<lparr>nm_stats = st, nm_data = ND_Directory es'\<rparr>"
  using assms by (simp add: ns_node_ok_def node_kind_ok_def dir_entries_def)

lemma clean_links_put:
  assumes "clean_links B ns" "data_clean B (nm_data n)"
  shows "clean_links B (ns_put i n ns)"
  using assms by (auto simp: clean_links_def)

lemma ns_dir_node: "ns_dir ns i \<longleftrightarrow> ndir ns i"
  by (simp add: is_dir_node_def)

section \<open>Entries\<close>

lemma parent_entries_Inr:
  "parent_entries ns p sc path = Inr (n, es) \<longleftrightarrow> fmlookup (ns_nodes ns) p = Some n \<and> nm_data n = ND_Directory es"
proof (cases "fmlookup (ns_nodes ns) p")
  case (Some m)
  then show ?thesis by (cases "nm_data m") (auto simp: parent_entries_def)
qed (simp add: parent_entries_def)

lemma add_entryE:
  assumes "add_entry p x c sc path con now ns = Inr ns'"
  obtains n es st where "fmlookup (ns_nodes ns) p = Some n" "nm_data n = ND_Directory es" "x \<notin> dn_name ` set es"
    "ns' = ns_put p \<lparr>nm_stats = st, nm_data = ND_Directory (es @ [\<lparr>dn_name = x, dn_inode = c\<rparr>])\<rparr> ns"
    "stats_like st ((nm_stats n)\<lparr>st_nlink := st_nlink (nm_stats n) + (if ndir ns c then 1 else 0)\<rparr>)"
proof -
  have "\<exists>n es st. parent_entries ns p sc path = Inr (n, es) \<and> \<not> list_ex (\<lambda>e. dn_name e = x) es
    \<and> touch_modified con now ((nm_stats n)\<lparr>st_nlink := st_nlink (nm_stats n) + (if ndir ns c then 1 else 0)\<rparr>) = Inr st
    \<and> ns' = ns_put p \<lparr>nm_stats = st, nm_data = ND_Directory (es @ [\<lparr>dn_name = x, dn_inode = c\<rparr>])\<rparr> ns"
    using assms unfolding add_entry_def Let_def ns_dir_node by (cases "ndir ns c") (auto split: if_splits)
  then obtain n es st where r: "parent_entries ns p sc path = Inr (n, es)" "\<not> list_ex (\<lambda>e. dn_name e = x) es"
    "touch_modified con now ((nm_stats n)\<lparr>st_nlink := st_nlink (nm_stats n) + (if ndir ns c then 1 else 0)\<rparr>) = Inr st"
    "ns' = ns_put p \<lparr>nm_stats = st, nm_data = ND_Directory (es @ [\<lparr>dn_name = x, dn_inode = c\<rparr>])\<rparr> ns"
    by blast
  show ?thesis
    using r(1,2) by (intro that [OF _ _ _ r(4) touch_modified_like [OF r(3)]]) (auto simp: parent_entries_Inr list_ex_iff)
qed

lemma add_entry_ok:
  assumes res: "add_entry p x c sc path con now ns = Inr ns'" and ok: "ns_nodes_ok nx (ns_nodes ns)"
  shows "ns' = ns\<lparr>ns_nodes := ns_nodes ns'\<rparr>" "ns_nodes_ok nx (ns_nodes ns')" "clean_links B ns \<Longrightarrow> clean_links B ns'"
    "nkid ns' = ent_upd (nkid ns) p x (Some c)" "nkid ns p x = None" "ndir ns' = ndir ns"
    "ns_links (ns_nodes ns') = ns_links (ns_nodes ns)"
    "ns_subdirs (ns_nodes ns') j = (if j = p \<and> ndir ns c then Suc (ns_subdirs (ns_nodes ns) p) else ns_subdirs (ns_nodes ns) j)"
proof -
  obtain n es st where n: "fmlookup (ns_nodes ns) p = Some n" "nm_data n = ND_Directory es" "x \<notin> dn_name ` set es"
    and ns': "ns' = ns_put p \<lparr>nm_stats = st, nm_data = ND_Directory (es @ [\<lparr>dn_name = x, dn_inode = c\<rparr>])\<rparr> ns"
    and st: "stats_like st ((nm_stats n)\<lparr>st_nlink := st_nlink (nm_stats n) + (if ndir ns c then 1 else 0)\<rparr>)"
    using res by (rule add_entryE)
  have d: "is_dir_data (nm_data n)" using n by (simp add: is_dir_data_def)
  note node = ns_nodes_okD [OF ok n(1)]
  then have two: "2 \<le> st_nlink (nm_stats n)" and dist: "distinct (map dn_name es)"
    using d n(2) by (auto simp: ns_node_ok_def dir_entries_def)
  let ?n = "\<lparr>nm_stats = st, nm_data = ND_Directory (es @ [\<lparr>dn_name = x, dn_inode = c\<rparr>])\<rparr>"
  note view = dir_update_view [OF n(1) d, of ?n "es @ [\<lparr>dn_name = x, dn_inode = c\<rparr>]", simplified]
  show "ns' = ns\<lparr>ns_nodes := ns_nodes ns'\<rparr>" using ns' by simp
  have "ns_node_ok nx p ?n" using st two dist n(3) by (intro ns_node_ok_dir [OF node n(2)]) (auto simp: stats_like_def)
  then show "ns_nodes_ok nx (ns_nodes ns')" using ns_nodes_ok_upd [OF ok] ns' by simp
  show "clean_links B ns \<Longrightarrow> clean_links B ns'" unfolding ns' by (rule clean_links_put) simp_all
  have kp: "nkid ns p y = map_option dn_inode (find (\<lambda>e. dn_name e = y) es)" for y
    using n by (simp add: ns_kid_def entries_of_def dir_entries_def)
  show none: "nkid ns p x = None" using n(3) by (simp add: kp find_name_None)
  show "nkid ns' = ent_upd (nkid ns) p x (Some c)"
    using none by (auto simp: fun_eq_iff ns' view ent_upd_apply kp find_snoc split: option.splits)
  show "ndir ns' = ndir ns" "ns_links (ns_nodes ns') = ns_links (ns_nodes ns)" by (simp_all add: ns' view)
  have "ns_subdirs (ns_nodes ns) p = st_nlink (nm_stats n) - 2" using n(1) d by (simp add: ns_subdirs_def)
  then show "ns_subdirs (ns_nodes ns') j = (if j = p \<and> ndir ns c then Suc (ns_subdirs (ns_nodes ns) p) else ns_subdirs (ns_nodes ns) j)"
    using two st by (auto simp: ns' view stats_like_def)
qed

text \<open>The parent after an entry is removed, and the inode whose link may be taken away.\<close>

lemma detach_entryE:
  assumes "detach_entry p x dec sc path con now ns = Inr (c, ns')"
  obtains n es e st ns1 where "fmlookup (ns_nodes ns) p = Some n" "nm_data n = ND_Directory es"
    "find (\<lambda>e. dn_name e = x) es = Some e" "c = dn_inode e"
    "ns1 = ns_put p \<lparr>nm_stats = st, nm_data = ND_Directory (remove1 e es)\<rparr> ns"
    "stats_like st ((nm_stats n)\<lparr>st_nlink := st_nlink (nm_stats n) - (if ndir ns c then 1 else 0)\<rparr>)"
    "if dec \<and> c \<in> fmdom' (ns_nodes ns1) \<and> \<not> ndir ns1 c
     then \<exists>m st'. fmlookup (ns_nodes ns1) c = Some m \<and> 0 < st_nlink (nm_stats m)
        \<and> stats_like st' ((nm_stats m)\<lparr>st_nlink := st_nlink (nm_stats m) - 1\<rparr>) \<and> ns' = ns_put c (m\<lparr>nm_stats := st'\<rparr>) ns1
     else ns' = ns1"
proof -
  obtain n es e where pe: "parent_entries ns p sc path = Inr (n, es)" "find (\<lambda>e. dn_name e = x) es = Some e"
    using assms by (auto simp: detach_entry_def)
  obtain st where t: "touch_modified con now ((nm_stats n)\<lparr>st_nlink := st_nlink (nm_stats n) - (if ndir ns (dn_inode e) then 1 else 0)\<rparr>) = Inr st"
    and r: "(let ns = ns_put p \<lparr>nm_stats = st, nm_data = ND_Directory (remove1 e es)\<rparr> ns; inode = dn_inode e in
     case fmlookup (ns_nodes ns) inode of
       Some node \<Rightarrow>
         if dec \<and> \<not> is_dir_data (nm_data node)
         then if st_nlink (nm_stats node) = 0 then Inl (error_with_path Eio sc path)
              else and_then (touch_changed con now ((nm_stats node)\<lparr>st_nlink := st_nlink (nm_stats node) - 1\<rparr>)) (\<lambda>st.
                   Inr (inode, ns_put inode (node\<lparr>nm_stats := st\<rparr>) ns))
         else Inr (inode, ns)
     | None \<Rightarrow> Inr (inode, ns)) = Inr (c, ns')"
    using assms pe unfolding detach_entry_def Let_def ns_dir_node
    by (cases "ndir ns (dn_inode e)") (auto simp del: fmupd_lookup split: if_splits)
  define ns1 where "ns1 = ns_put p \<lparr>nm_stats = st, nm_data = ND_Directory (remove1 e es)\<rparr> ns"
  have c: "c = dn_inode e" using r by (auto simp: Let_def split: option.splits if_splits)
  show ?thesis
  proof (rule that [OF _ _ pe(2) c ns1_def])
    show "fmlookup (ns_nodes ns) p = Some n" "nm_data n = ND_Directory es" using pe(1) by (auto simp: parent_entries_Inr)
    show "stats_like st ((nm_stats n)\<lparr>st_nlink := st_nlink (nm_stats n) - (if ndir ns c then 1 else 0)\<rparr>)"
      using touch_modified_like [OF t] c by simp
    show "if dec \<and> c \<in> fmdom' (ns_nodes ns1) \<and> \<not> ndir ns1 c
     then \<exists>m st'. fmlookup (ns_nodes ns1) c = Some m \<and> 0 < st_nlink (nm_stats m)
        \<and> stats_like st' ((nm_stats m)\<lparr>st_nlink := st_nlink (nm_stats m) - 1\<rparr>) \<and> ns' = ns_put c (m\<lparr>nm_stats := st'\<rparr>) ns1
     else ns' = ns1"
    proof (cases "fmlookup (ns_nodes ns1) c")
      case None
      then show ?thesis using r unfolding Let_def ns1_def [symmetric] c [symmetric] by (simp add: fmlookup_dom'_iff)
    next
      case (Some m)
      then show ?thesis
        using r unfolding Let_def ns1_def [symmetric] c [symmetric]
        by (auto simp: fmlookup_dom'_iff is_dir_node_def dest: touch_changed_like split: if_splits)
    qed
  qed
qed

text \<open>What the two changes do to the view: first the parent loses an entry, then a file loses a link.\<close>

lemma parent_without_entry:
  assumes n: "fmlookup (ns_nodes ns) p = Some n" "nm_data n = ND_Directory es" "find (\<lambda>e. dn_name e = x) es = Some e"
    and st: "stats_like st ((nm_stats n)\<lparr>st_nlink := st_nlink (nm_stats n) - (if d then 1 else 0)\<rparr>)"
    and ok: "ns_nodes_ok nx (ns_nodes ns)" and sub: "d \<longrightarrow> 0 < ns_subdirs (ns_nodes ns) p"
  defines "ns1 \<equiv> ns_put p \<lparr>nm_stats = st, nm_data = ND_Directory (remove1 e es)\<rparr> ns"
  shows "ns_nodes_ok nx (ns_nodes ns1)" "clean_links B ns \<Longrightarrow> clean_links B ns1" "nkid ns p x = Some (dn_inode e)"
    "nkid ns1 = ent_upd (nkid ns) p x None" "ndir ns1 = ndir ns" "ns_links (ns_nodes ns1) = ns_links (ns_nodes ns)"
    "ns_subdirs (ns_nodes ns1) j = (if j = p \<and> d then ns_subdirs (ns_nodes ns) p - 1 else ns_subdirs (ns_nodes ns) j)"
proof -
  have d: "is_dir_data (nm_data n)" using n by (simp add: is_dir_data_def)
  note node = ns_nodes_okD [OF ok n(1)]
  then have two: "2 \<le> st_nlink (nm_stats n)" and dist: "distinct (map dn_name es)"
    using d n(2) by (auto simp: ns_node_ok_def dir_entries_def)
  have sp: "ns_subdirs (ns_nodes ns) p = st_nlink (nm_stats n) - 2" using n(1) d by (simp add: ns_subdirs_def)
  let ?n = "\<lparr>nm_stats = st, nm_data = ND_Directory (remove1 e es)\<rparr>"
  note view = dir_update_view [OF n(1) d, of ?n "remove1 e es", simplified]
  have "distinct (map dn_name (remove1 e es))"
    using dist by (auto simp: distinct_map intro: inj_on_subset)
  moreover have "2 \<le> st_nlink st" using st two sub sp by (cases d) (auto simp: stats_like_def)
  ultimately have "ns_node_ok nx p ?n" using st by (intro ns_node_ok_dir [OF node n(2)]) (auto simp: stats_like_def)
  then show "ns_nodes_ok nx (ns_nodes ns1)" using ns_nodes_ok_upd [OF ok] by (simp add: ns1_def)
  show "clean_links B ns \<Longrightarrow> clean_links B ns1" unfolding ns1_def by (rule clean_links_put) simp_all
  have kp: "nkid ns p y = map_option dn_inode (find (\<lambda>e. dn_name e = y) es)" for y
    using n by (simp add: ns_kid_def entries_of_def dir_entries_def)
  show "nkid ns p x = Some (dn_inode e)" using n(3) by (simp add: kp)
  show "nkid ns1 = ent_upd (nkid ns) p x None"
    by (auto simp: fun_eq_iff ns1_def view ent_upd_apply kp find_remove1 [OF dist n(3)])
  show "ndir ns1 = ndir ns" "ns_links (ns_nodes ns1) = ns_links (ns_nodes ns)" by (simp_all add: ns1_def view)
  show "ns_subdirs (ns_nodes ns1) j = (if j = p \<and> d then ns_subdirs (ns_nodes ns) p - 1 else ns_subdirs (ns_nodes ns) j)"
    using st sp by (auto simp: ns1_def view stats_like_def)
qed

lemma detach_entry_ok:
  assumes res: "detach_entry p x dec sc path con now ns = Inr (c, ns')" and ok: "ns_nodes_ok nx (ns_nodes ns)"
    and sub: "ndir ns c \<longrightarrow> 0 < ns_subdirs (ns_nodes ns) p"
  shows "ns' = ns\<lparr>ns_nodes := ns_nodes ns'\<rparr>" "ns_nodes_ok nx (ns_nodes ns')" "clean_links B ns \<Longrightarrow> clean_links B ns'"
    "nkid ns p x = Some c" "nkid ns' = ent_upd (nkid ns) p x None" "ndir ns' = ndir ns"
    "ns_links (ns_nodes ns') j = (if dec \<and> \<not> ndir ns c \<and> j = c then map_option (\<lambda>k. k - 1) (ns_links (ns_nodes ns) c)
        else ns_links (ns_nodes ns) j)"
    "ns_subdirs (ns_nodes ns') j = (if j = p \<and> ndir ns c then ns_subdirs (ns_nodes ns) p - 1 else ns_subdirs (ns_nodes ns) j)"
proof -
  obtain n es e st ns1 where d: "fmlookup (ns_nodes ns) p = Some n" "nm_data n = ND_Directory es"
    "find (\<lambda>e. dn_name e = x) es = Some e" "c = dn_inode e"
    "ns1 = ns_put p \<lparr>nm_stats = st, nm_data = ND_Directory (remove1 e es)\<rparr> ns"
    "stats_like st ((nm_stats n)\<lparr>st_nlink := st_nlink (nm_stats n) - (if ndir ns c then 1 else 0)\<rparr>)"
    "if dec \<and> c \<in> fmdom' (ns_nodes ns1) \<and> \<not> ndir ns1 c
     then \<exists>m st'. fmlookup (ns_nodes ns1) c = Some m \<and> 0 < st_nlink (nm_stats m)
        \<and> stats_like st' ((nm_stats m)\<lparr>st_nlink := st_nlink (nm_stats m) - 1\<rparr>) \<and> ns' = ns_put c (m\<lparr>nm_stats := st'\<rparr>) ns1
     else ns' = ns1"
    using res by (rule detach_entryE)
  note v1 = parent_without_entry [OF d(1-3,6) ok sub, folded d(5) d(4)]
  consider (same) "ns' = ns1" "dec \<Longrightarrow> \<not> ndir ns c \<Longrightarrow> ns_links (ns_nodes ns) c = None"
    | (drop) m st' where "dec" "fmlookup (ns_nodes ns1) c = Some m" "\<not> is_dir_data (nm_data m)"
        "stats_like st' ((nm_stats m)\<lparr>st_nlink := st_nlink (nm_stats m) - 1\<rparr>)" "ns' = ns_put c (m\<lparr>nm_stats := st'\<rparr>) ns1"
  proof (cases "dec \<and> c \<in> fmdom' (ns_nodes ns1) \<and> \<not> ndir ns1 c")
    case True
    then show ?thesis using d(7) that(2) by (auto simp: is_dir_node_def)
  next
    case False
    then have "ns_links (ns_nodes ns1) c = None" if "dec" "\<not> ndir ns c"
      using that v1(5) by (auto simp: ns_links_def fmlookup_dom'_iff)
    then show ?thesis using False d(7) that(1) v1(6) by auto
  qed
  then have "ns' = ns\<lparr>ns_nodes := ns_nodes ns'\<rparr> \<and> ns_nodes_ok nx (ns_nodes ns') \<and> (clean_links B ns \<longrightarrow> clean_links B ns')
    \<and> nkid ns' = ent_upd (nkid ns) p x None \<and> ndir ns' = ndir ns
    \<and> ns_links (ns_nodes ns') j = (if dec \<and> \<not> ndir ns c \<and> j = c then map_option (\<lambda>k. k - 1) (ns_links (ns_nodes ns) c)
        else ns_links (ns_nodes ns) j)
    \<and> ns_subdirs (ns_nodes ns') j = (if j = p \<and> ndir ns c then ns_subdirs (ns_nodes ns) p - 1 else ns_subdirs (ns_nodes ns) j)"
  proof cases
    case same
    then show ?thesis using v1 d(5) by auto
  next
    case drop
    let ?m = "m\<lparr>nm_stats := st'\<rparr>"
    note view = file_update_view [OF drop(2,3), of ?m]
    have m: "\<not> is_dir_data (nm_data ?m)" using drop(3) by simp
    have "ns_node_ok nx c \<lparr>nm_stats = st', nm_data = nm_data m\<rparr>"
      using drop(3,4) by (intro ns_node_ok_stats [OF ns_nodes_okD [OF v1(1) drop(2)]]) (auto simp: stats_like_def)
    moreover have "\<lparr>nm_stats = st', nm_data = nm_data m\<rparr> = ?m" by simp
    ultimately have ok': "ns_nodes_ok nx (ns_nodes ns')" using ns_nodes_ok_upd [OF v1(1), of c ?m] drop(5) by simp
    have "clean_links B ns'" if "clean_links B ns"
      unfolding drop(5) by (rule clean_links_put [OF v1(2) [OF that]]) (use clean_linksD [OF v1(2) [OF that] drop(2)] in simp)
    moreover have "\<not> ndir ns1 c" "ns_links (ns_nodes ns1) c = Some (st_nlink (nm_stats m))"
      using drop(2,3) by (simp_all add: is_dir_node_def ns_links_def)
    ultimately show ?thesis
      using ok' drop(1,4,5) view [OF m] v1(4-7) d(5) by (simp add: stats_like_def)
  qed
  then show "ns' = ns\<lparr>ns_nodes := ns_nodes ns'\<rparr>" "ns_nodes_ok nx (ns_nodes ns')" "clean_links B ns \<Longrightarrow> clean_links B ns'"
    "nkid ns' = ent_upd (nkid ns) p x None" "ndir ns' = ndir ns"
    "ns_links (ns_nodes ns') j = (if dec \<and> \<not> ndir ns c \<and> j = c then map_option (\<lambda>k. k - 1) (ns_links (ns_nodes ns) c)
        else ns_links (ns_nodes ns) j)"
    "ns_subdirs (ns_nodes ns') j = (if j = p \<and> ndir ns c then ns_subdirs (ns_nodes ns) p - 1 else ns_subdirs (ns_nodes ns) j)"
    by blast+
  show "nkid ns p x = Some c" using v1(3) d(4) by simp
qed

section \<open>Good namespaces\<close>

definition ns_good :: "block_map \<Rightarrow> namespace \<Rightarrow> bool" where
  "ns_good B ns \<longleftrightarrow> wf_namespace ns \<and> clean_links B ns"

definition header_ok :: "namespace \<Rightarrow> bool" where
  "header_ok ns \<longleftrightarrow> ns_format_version ns = NAMESPACE_FORMAT_VERSION
     \<and> is_ok (chunker_from_config (ns_default_chunker ns)) \<and> 0 < ns_root ns"

lemma header_ok_nodes [simp]: "header_ok (ns\<lparr>ns_nodes := m\<rparr>) = header_ok ns"
  by (simp add: header_ok_def)

lemma ns_good_iff:
  "ns_good B ns \<longleftrightarrow> header_ok ns \<and> ns_nodes_ok (ns_next_inode ns) (ns_nodes ns)
     \<and> nodes_tree (ns_nodes ns) (ns_root ns) \<and> clean_links B ns"
  by (auto simp: ns_good_def wf_namespace_iff ns_base_nodes header_ok_def)

lemma ns_goodD:
  assumes "ns_good B ns"
  shows "header_ok ns" "ns_nodes_ok (ns_next_inode ns) (ns_nodes ns)" "nodes_tree (ns_nodes ns) (ns_root ns)" "clean_links B ns"
  using assms by (auto simp: ns_good_iff)

text \<open>A candidate that differs in its nodes, by the laws of the tree.\<close>

lemma ns_goodI:
  assumes "ns' = ns\<lparr>ns_nodes := ns_nodes ns'\<rparr>" "ns_good B ns" "ns_nodes_ok (ns_next_inode ns) (ns_nodes ns')"
    and "nodes_tree (ns_nodes ns') (ns_root ns)" "clean_links B ns'"
  shows "ns_good B ns'"
proof -
  have "ns_next_inode ns' = ns_next_inode ns" "ns_root ns' = ns_root ns" "header_ok ns' = header_ok ns"
    by (subst assms(1); simp add: header_ok_def)+
  then show ?thesis using assms(2-) by (simp add: ns_good_iff)
qed

lemma dir_links: "ndir ns i \<Longrightarrow> ns_links (ns_nodes ns) i = Some 1"
  by (auto simp: is_dir_node_def ns_links_def split: option.splits)

lemma ns_entry_parent_dir: "ns_good B ns \<Longrightarrow> ns_entry_ok ns en \<Longrightarrow> ndir ns (ne_parent en)"
  using tree_invD(4) [OF ns_goodD(3)] by (auto simp: ns_entry_ok_def ns_entry_at_def ns_root_entry_def)

lemma ns_entry_free: "ns_entry_ok ns en \<Longrightarrow> ne_node en = None \<Longrightarrow> nkid ns (ne_parent en) (ne_name en) = None \<and> entry_name_ok (ne_name en)"
  by (auto simp: ns_entry_ok_def ns_entry_at_def ns_root_entry_def)

lemma ns_entry_taken:
  "ns_entry_ok ns en \<Longrightarrow> ne_node en = Some c \<Longrightarrow> c \<noteq> ns_root ns \<Longrightarrow> nkid ns (ne_parent en) (ne_name en) = Some c"
  by (auto simp: ns_entry_ok_def ns_entry_at_def ns_root_entry_def)

section \<open>Creation\<close>

text \<open>A node fit to be inserted under a number.\<close>

definition fresh_node_ok :: "nat \<Rightarrow> node_metadata \<Rightarrow> bool" where
  "fresh_node_ok i n \<longleftrightarrow> st_ino (nm_stats n) = i \<and> node_kind_ok n \<and> dir_entries (nm_data n) = []
     \<and> st_nlink (nm_stats n) = (if is_dir_data (nm_data n) then 2 else 1)
     \<and> (\<forall>B. data_clean B (nm_data n))"

lemma insert_new_good:
  assumes good: "ns_good B ns" and p: "ndir ns p" "entry_name_ok x" and n: "fresh_node_ok (ns_next_inode ns) n"
    and res: "insert_new p x n sc path opath con now ns = Inr (i, ns')"
  shows "ns_good B ns' \<and> i = ns_next_inode ns \<and> ns_next_inode ns' = Suc i \<and> nkid ns' = ent_upd (nkid ns) p x (Some i)
    \<and> ns_root ns' = ns_root ns \<and> fmlookup (ns_nodes ns') i = Some n"
proof -
  let ?i = "ns_next_inode ns" and ?nodes = "ns_nodes ns"
  define ns1 where "ns1 = ns_put ?i n (ns\<lparr>ns_next_inode := Suc ?i\<rparr>)"
  have add: "add_entry p x ?i sc path con now ns1 = Inr ns'" "i = ?i" "Suc ?i \<le> U64_MAX"
    using res by (auto simp: insert_new_def Let_def ns1_def)
  note g = ns_goodD [OF good]
  have fresh: "fmlookup ?nodes ?i = None" by (rule ns_nodes_ok_fresh [OF g(2)])
  have de: "dir_entries (nm_data n) = []" using n by (simp add: fresh_node_ok_def)
  note v = fresh_view [OF fresh de]
  have pi: "p \<noteq> ?i" using p(1) fresh by (auto simp: is_dir_node_def)
  have pos: "0 < ?i" using ns_nodes_okD [OF g(2)] p(1) by (fastforce simp: is_dir_node_def ns_node_ok_def split: option.splits)
  have "ns_node_ok (Suc ?i) ?i n" using n pos by (simp add: ns_node_ok_def fresh_node_ok_def)
  then have ok1: "ns_nodes_ok (Suc ?i) (ns_nodes ns1)"
    using ns_nodes_ok_upd [OF ns_nodes_ok_mono [OF g(2)], of "Suc ?i" ?i n] by (simp add: ns1_def)
  note a = add_entry_ok [OF add(1) ok1]
  have k1: "nkid ns1 = nkid ns" using v(3) by (simp add: ns1_def)
  have free: "nkid ns p x = None" using a(5) k1 by simp
  have "nodes_tree (ns_nodes ns') (ns_root ns)"
    unfolding a(4) a(6) a(7) k1
    by (rule tree_create [OF g(3) p(1) dir_links [OF p(1)] free p(2), where d = "is_dir_data (nm_data n)"])
      (use fresh n v pi a(8) in \<open>auto simp: ns1_def ns_links_def fresh_node_ok_def\<close>)
  moreover have "clean_links B ns1"
    using g(4) n by (auto simp: clean_links_def ns1_def fresh_node_ok_def)
  moreover have h: "ns_next_inode ns' = Suc ?i" "ns_root ns' = ns_root ns" "header_ok ns' = header_ok ns"
    by (subst a(1); simp add: ns1_def header_ok_def)+
  ultimately have "ns_good B ns'" using a(2,3) g(1) by (simp add: ns_good_iff)
  moreover have "fmlookup (ns_nodes ns') ?i = Some n"
    using add(1) pi by (elim add_entryE) (simp add: ns1_def)
  ultimately show ?thesis using add(2) a(4) k1 h by simp
qed

lemmas fresh_node_simps = fresh_node_ok_def node_kind_ok_def with_times_def base_stats_def dir_entries_def is_dir_data_def

lemma mode_fits: "m AND S_IFMT = mode_bits t \<Longrightarrow> file_type_from_mode m = t \<and> m AND S_IFMT = mode_bits (file_type_from_mode m)"
  by (simp add: from_mode_of_bits)

lemma new_directory_ok:
  "fresh_node_ok i (new_directory_node i (S_IFDIR OR (p AND q AND PERM_MASK)) uid gid now)"
  using mode_fits [of "S_IFDIR OR (p AND q AND PERM_MASK)" Directory] mode_bits_masked [of Directory]
  by (simp add: new_directory_node_def fresh_node_simps masked_or_perm3)

lemma new_file_ok:
  assumes "is_ok (chunker_from_config c)"
  shows "fresh_node_ok i (new_file_node i (S_IFREG OR (p AND q AND PERM_MASK)) uid gid c now)"
  using assms mode_fits [of "S_IFREG OR (p AND q AND PERM_MASK)" File] mode_bits_masked [of File]
  by (simp add: new_file_node_def fresh_node_simps masked_or_perm3 extents_ok_def layout_stored_def)

lemma new_symlink_ok:
  assumes "CHR 0x00 \<notin> set t"
  shows "fresh_node_ok i \<lparr>nm_stats = with_times now (base_stats i (S_IFLNK OR 0x1FF) uid gid 1 sz blocks), nm_data = ND_Symlink t\<rparr>"
  using assms by (simp add: fresh_node_simps mode_consts file_type_from_mode_def)

lemma new_special_ok:
  assumes "is_ok (chunker_from_config c)" "is_special kind \<or> kind = File"
  shows "fresh_node_ok i \<lparr>nm_stats = (with_times now (base_stats i (mode_bits kind OR (p AND q AND r AND PERM_MASK)) uid gid 1 0 0))
      \<lparr>st_rdev := rdev\<rparr>,
    nm_data = (if kind = File then ND_File \<lparr>fl_chunker = c, fl_extents = []\<rparr> else ND_Special)\<rparr>"
  using assms mode_fits [of "mode_bits kind OR (p AND q AND r AND PERM_MASK)" kind] mode_bits_masked [of kind]
  by (auto simp: fresh_node_simps masked_or_perm4 extents_ok_def layout_stored_def)

lemma ns_good_chunker: "ns_good B ns \<Longrightarrow> is_ok (chunker_from_config (ns_default_chunker ns))"
  using ns_goodD(1) by (simp add: header_ok_def)

lemma norm_path_clean: "CHR 0x00 \<notin> set path \<Longrightarrow> CHR 0x00 \<notin> set (normalize_path path)"
proof -
  assume "CHR 0x00 \<notin> set path"
  then have *: "CHR 0x00 \<notin> \<Union> (set ` set (norm_comps path))" by (rule norm_comps_clean)
  have "CHR 0x00 \<notin> set (join_with ''/'' ys)" if "CHR 0x00 \<notin> \<Union> (set ` set ys)" for ys
    using that by (induction "''/''" ys rule: join_with.induct) auto
  then show ?thesis using * by (simp add: normalize_path_render render_path_def)
qed

lemma walk_good:
  assumes "ns_good B ns" "CHR 0x00 \<notin> set path" "ns_walk ns path ff sc d = Inr en"
  shows "ns_entry_ok ns en" "ndir ns (ne_parent en)"
  using ns_walk_ok [OF assms(3) ns_goodD(4) [OF assms(1)] assms(2)] ns_entry_parent_dir [OF assms(1)] by auto

text \<open>The common end of the creating operations.\<close>

lemma create_at_entry:
  assumes good: "ns_good B ns" "CHR 0x00 \<notin> set path" and w: "ns_walk ns path ff sc d = Inr en" "ne_node en = None"
    and n: "fresh_node_ok (ns_next_inode ns) n"
    and res: "insert_new (ne_parent en) (ne_name en) n sc' epath opath con now ns = Inr (i, ns')"
  shows "ns_good B ns' \<and> i = ns_next_inode ns \<and> ns_next_inode ns' = Suc i
    \<and> nkid ns' = ent_upd (nkid ns) (ne_parent en) (ne_name en) (Some i)
    \<and> ns_root ns' = ns_root ns \<and> fmlookup (ns_nodes ns') i = Some n"
  using walk_good [OF good w(1)] ns_entry_free [OF _ w(2)] by (intro insert_new_good [OF good(1) _ _ n res]) auto

lemma apply_mkdir_good:
  assumes "ns_good B ns" "CHR 0x00 \<notin> set path" "apply_mkdir path mode con now ns = Inr (i, ns')"
  shows "ns_good B ns'"
proof -
  from assms(3) obtain en where w: "ns_walk ns (normalize_path path) False ''mkdir'' 0 = Inr en" "ne_node en = None"
    and r: "insert_new (ne_parent en) (ne_name en)
       (new_directory_node (ns_next_inode ns) (S_IFDIR OR (mode AND NOT (ns_umask ns) AND PERM_MASK)) (ns_default_uid ns) (ns_default_gid ns) now)
       ''mkdir'' (ne_path en) (normalize_path path) con now ns = Inr (i, ns')"
    by (auto simp: apply_mkdir_def Let_def split: if_splits)
  show ?thesis
    using create_at_entry [OF assms(1) norm_path_clean [OF assms(2)] w new_directory_ok r] by blast
qed

lemma apply_symlink_good:
  assumes "ns_good B ns" "CHR 0x00 \<notin> set path" "CHR 0x00 \<notin> set target" "apply_symlink target path con now ns = Inr (i, ns')"
  shows "ns_good B ns'"
proof -
  from assms(4) obtain en where w: "ns_walk ns (normalize_path path) False ''symlink'' 0 = Inr en" "ne_node en = None"
    and r: "insert_new (ne_parent en) (ne_name en)
       \<lparr>nm_stats = with_times now (base_stats (ns_next_inode ns) (S_IFLNK OR 0x1FF)
          (ns_default_uid ns) (ns_default_gid ns) 1 (length target) (div_ceil (length target) 512)), nm_data = ND_Symlink target\<rparr>
       ''symlink'' (ne_path en) (normalize_path path) con now ns = Inr (i, ns')"
    by (auto simp: apply_symlink_def Let_def split: if_splits)
  show ?thesis
    using create_at_entry [OF assms(1) norm_path_clean [OF assms(2)] w new_symlink_ok [OF assms(3)] r] by blast
qed

lemma apply_mknod_good:
  assumes "ns_good B ns" "CHR 0x00 \<notin> set path" "apply_mknod path mode dev con now ns = Inr (i, ns')"
  shows "ns_good B ns'"
proof -
  let ?k = "file_type_from_mode mode"
  from assms(3) obtain en where w: "ns_walk ns (normalize_path path) False ''mknod'' 0 = Inr en" "ne_node en = None"
    and k: "is_special ?k \<or> ?k = File"
    and r: "insert_new (ne_parent en) (ne_name en)
       \<lparr>nm_stats = (with_times now (base_stats (ns_next_inode ns)
          (mode_bits ?k OR (mode AND NOT S_IFMT AND NOT (ns_umask ns) AND PERM_MASK))
          (ns_default_uid ns) (ns_default_gid ns) 1 0 0))\<lparr>st_rdev := if ?k = BlockDevice \<or> ?k = CharacterDevice then dev else 0\<rparr>,
        nm_data = (if ?k = File then ND_File \<lparr>fl_chunker = ns_default_chunker ns, fl_extents = []\<rparr> else ND_Special)\<rparr>
       ''mknod'' (ne_path en) (normalize_path path) con now ns = Inr (i, ns')"
    unfolding apply_mknod_def Let_def by (auto split: if_split_asm)
  show ?thesis
    using create_at_entry [OF assms(1) norm_path_clean [OF assms(2)] w new_special_ok [OF ns_good_chunker [OF assms(1)] k] r] by blast
qed

lemma ns_mkdir_segment_good:
  assumes good: "ns_good B ns" "CHR 0x00 \<notin> set current" "CHR 0x00 \<notin> set segment"
    and res: "ns_mkdir_segment normalized (S_IFDIR OR (p AND q AND PERM_MASK)) con now (current, first_created, ns) segment
      = Inr (current', first', ns')"
  shows "ns_good B ns' \<and> CHR 0x00 \<notin> set current'"
proof -
  define cur where "cur = (if current \<noteq> ''/'' then current @ ''/'' else current) @ segment"
  have clean: "CHR 0x00 \<notin> set cur" using good(2,3) by (auto simp: cur_def)
  obtain en where w: "ns_walk ns cur True ''mkdir'' 0 = Inr en"
    using res unfolding ns_mkdir_segment_def Let_def prod.case cur_def [symmetric] by auto
  show ?thesis
  proof (cases "ne_node en")
    case None
    then obtain i where "insert_new (ne_parent en) (ne_name en)
        (new_directory_node (ns_next_inode ns) (S_IFDIR OR (p AND q AND PERM_MASK)) (ns_default_uid ns) (ns_default_gid ns) now)
        ''mkdir'' cur cur con now ns = Inr (i, ns')" "current' = cur"
      using res w unfolding ns_mkdir_segment_def Let_def prod.case cur_def [symmetric] w and_then_simps None option.case
      by (auto simp only: and_then_eq_Inr sum.inject prod.inject prod.case split: prod.splits)
    then show ?thesis using create_at_entry [OF good(1) clean w None new_directory_ok] clean by blast
  next
    case (Some j)
    then have "ns' = ns" "current' = cur"
      using res w unfolding ns_mkdir_segment_def Let_def prod.case cur_def [symmetric] by (auto split: if_splits)
    then show ?thesis using good clean by simp
  qed
qed

lemma ns_mkdir_good:
  assumes good: "ns_good B ns" "CHR 0x00 \<notin> set path" and res: "ns_mkdir path options con now ns = Inr (r, ns')"
  shows "ns_good B ns'"
proof (cases "mo_recursive options")
  case False
  then obtain i mode where "apply_mkdir (normalize_path path) mode con now ns = Inr (i, ns')"
    using res by (auto simp: ns_mkdir_def Let_def)
  then show ?thesis using apply_mkdir_good good norm_path_clean by blast
next
  case True
  define mode where "mode = S_IFDIR OR ((case mo_mode options of None \<Rightarrow> 0x1FF | Some m \<Rightarrow> m) AND NOT (ns_umask ns) AND PERM_MASK)"
  obtain current where fold: "try_fold (ns_mkdir_segment (normalize_path path) mode con now) (''/'', None, ns) (split_path (normalize_path path))
      = Inr (current, r, ns')"
    using res True by (auto simp: ns_mkdir_def Let_def mode_def)
  have seg: "CHR 0x00 \<notin> set x" if "x \<in> set (split_path (normalize_path path))" for x
    using norm_comps_clean [OF good(2)] that by (auto simp: split_path_norm_comps)
  let ?P = "\<lambda>(cur, f, n). ns_good B n \<and> CHR 0x00 \<notin> set cur"
  have "?P (current, r, ns')"
  proof (rule try_fold_invariant [where P = ?P, OF fold])
    show "?P (''/'', None, ns)" using good(1) by simp
    fix t x t' assume x: "x \<in> set (split_path (normalize_path path))" and P: "?P t"
      and step: "ns_mkdir_segment (normalize_path path) mode con now t x = Inr t'"
    obtain c f m c' f' m' where t: "t = (c, f, m)" "t' = (c', f', m')" by (cases t; cases t')
    have m: "ns_good B m" "CHR 0x00 \<notin> set c" using P t by simp_all
    show "?P t'" using ns_mkdir_segment_good [OF m seg [OF x] step [unfolded t mode_def]] t by simp
  qed
  then show ?thesis by simp
qed

section \<open>Links and attributes\<close>

text \<open>A node of the same shape.\<close>

lemma put_same_shape_good:
  assumes good: "ns_good B ns" and i: "fmlookup (ns_nodes ns) i = Some n" and n': "ns_node_ok (ns_next_inode ns) i n'"
    and same: "is_dir_data (nm_data n') = is_dir_data (nm_data n)" "dir_entries (nm_data n') = dir_entries (nm_data n)"
      "st_nlink (nm_stats n') = st_nlink (nm_stats n)" "data_clean B (nm_data n')"
  shows "ns_good B (ns_put i n' ns)"
proof (rule ns_goodI [OF _ good])
  note g = ns_goodD [OF good]
  show "ns_nodes_ok (ns_next_inode ns) (ns_nodes (ns_put i n' ns))" using ns_nodes_ok_upd [OF g(2) n'] by simp
  show "nodes_tree (ns_nodes (ns_put i n' ns)) (ns_root ns)" using same_shape_view [OF i same(1-3)] g(3) by simp
  show "clean_links B (ns_put i n' ns)" by (rule clean_links_put [OF g(4) same(4)])
qed simp

lemma put_stats_good:
  assumes good: "ns_good B ns" and i: "fmlookup (ns_nodes ns) i = Some n"
    and st: "st_ino st = st_ino (nm_stats n)" "st_mode st AND S_IFMT = st_mode (nm_stats n) AND S_IFMT"
      "st_size st = st_size (nm_stats n)" "st_nlink st = st_nlink (nm_stats n)"
  shows "ns_good B (ns_put i (n\<lparr>nm_stats := st\<rparr>) ns)"
proof (rule put_same_shape_good [OF good i])
  have n: "ns_node_ok (ns_next_inode ns) i n" by (rule ns_nodes_okD [OF ns_goodD(2) [OF good] i])
  have "file_type_from_mode (st_mode st) = file_type_from_mode (st_mode (nm_stats n))" using st(2) by (rule from_mode_cong)
  then show "ns_node_ok (ns_next_inode ns) i (n\<lparr>nm_stats := st\<rparr>)"
    using n st by (cases "nm_data n") (simp_all add: ns_node_ok_def node_kind_ok_def)
  show "data_clean B (nm_data (n\<lparr>nm_stats := st\<rparr>))" using clean_linksD [OF ns_goodD(4) [OF good] i] by simp
qed (use st in simp_all)

lemma apply_link_good:
  assumes good: "ns_good B ns" "CHR 0x00 \<notin> set existing" "CHR 0x00 \<notin> set target"
    and res: "apply_link existing target con now ns = Inr ns'"
  shows "ns_good B ns'"
proof -
  obtain src i dest ns1 where s: "ns_walk ns (normalize_path existing) False ''link'' 0 = Inr src" "ne_node src = Some i"
    "\<not> ndir ns i" "ns_walk ns (normalize_path target) False ''link'' 0 = Inr dest" "ne_node dest = None"
    and one: "(case fmlookup (ns_nodes ns) i of None \<Rightarrow> Inr ns
       | Some node \<Rightarrow> and_then (ok_or (checked_add (st_nlink (nm_stats node)) 1) (error_with_path Emlink ''link'' (ne_path src))) (\<lambda>nlink.
           and_then (touch_changed con now ((nm_stats node)\<lparr>st_nlink := nlink\<rparr>)) (\<lambda>st. Inr (ns_put i (node\<lparr>nm_stats := st\<rparr>) ns)))) = Inr ns1"
    and add: "add_entry (ne_parent dest) (ne_name dest) i ''link'' (ne_path dest) con now ns1 = Inr ns'"
    using res unfolding apply_link_def Let_def ns_dir_node by (auto split: if_splits)
  note g = ns_goodD [OF good(1)]
  have w1: "ns_entry_ok ns src" by (rule walk_good(1) [OF good(1) norm_path_clean [OF good(2)] s(1)])
  note w2 = walk_good [OF good(1) norm_path_clean [OF good(3)] s(4)]
  have "i \<noteq> ns_root ns" using s(3) tree_invD(4) [OF g(3)] by auto
  then have "ns_links (ns_nodes ns) i \<noteq> None" using ns_entry_taken [OF w1 s(2)] tree_invD(1) [OF g(3)] by fastforce
  then obtain n where n: "fmlookup (ns_nodes ns) i = Some n" "\<not> is_dir_data (nm_data n)"
    using s(3) by (auto simp: ns_links_def is_dir_node_def)
  then obtain st where st: "stats_like st ((nm_stats n)\<lparr>st_nlink := Suc (st_nlink (nm_stats n))\<rparr>)" and ns1: "ns1 = ns_put i (n\<lparr>nm_stats := st\<rparr>) ns"
    using one by (auto dest: touch_changed_like)
  have "ns_node_ok (ns_next_inode ns) i \<lparr>nm_stats = st, nm_data = nm_data n\<rparr>"
    using st n(2) by (intro ns_node_ok_stats [OF ns_nodes_okD [OF g(2) n(1)]]) (auto simp: stats_like_def)
  then have "ns_node_ok (ns_next_inode ns) i (n\<lparr>nm_stats := st\<rparr>)" by (cases n) simp
  then have ok1: "ns_nodes_ok (ns_next_inode ns) (ns_nodes ns1)" using ns_nodes_ok_upd [OF g(2)] by (simp add: ns1)
  have clean: "clean_links B ns1" unfolding ns1 by (rule clean_links_put [OF g(4)]) (use clean_linksD [OF g(4) n(1)] in simp)
  note v = file_update_view [OF n, of "n\<lparr>nm_stats := st\<rparr>"] and a = add_entry_ok [OF add ok1]
  have v1: "nkid ns1 = nkid ns" "ndir ns1 = ndir ns" "ns_subdirs (ns_nodes ns1) = ns_subdirs (ns_nodes ns)"
    "\<And>j. ns_links (ns_nodes ns1) j = (if j = i then Some (Suc (st_nlink (nm_stats n))) else ns_links (ns_nodes ns) j)"
    using v n(2) st by (simp_all add: ns1 stats_like_def)
  have sub: "ns_subdirs (ns_nodes ns') = ns_subdirs (ns_nodes ns)" using a(8) v1 s(3) by (simp add: fun_eq_iff)
  have "nodes_tree (ns_nodes ns') (ns_root ns)"
    unfolding a(4) a(6) a(7) v1(1,2) sub
  proof (rule tree_link [OF g(3) w2(2) dir_links [OF w2(2)]])
    show "nkid ns (ne_parent dest) (ne_name dest) = None" "entry_name_ok (ne_name dest)" using ns_entry_free [OF w2(1) s(5)] by auto
    show "ns_links (ns_nodes ns) i = Some (st_nlink (nm_stats n))" using n by (simp add: ns_links_def)
  qed (use s(3) v1(4) in auto)
  then show ?thesis
    using a(1-3) ok1 clean by (intro ns_goodI [OF _ good(1)]) (auto simp: ns1)
qed

section \<open>Removal\<close>

lemma subdirs_pos:
  assumes good: "ns_good B ns" and k: "nkid ns p x = Some c" "ndir ns c"
  shows "0 < ns_subdirs (ns_nodes ns) p"
proof -
  note inv = tree_invD [OF ns_goodD(3) [OF good]]
  have "finite {y. nkid ns p y \<noteq> None}" "ns_subdirs (ns_nodes ns) p = card {y. \<exists>c. nkid ns p y = Some c \<and> ndir ns c}"
    using inv(1) [OF k(1)] inv(6) [of p] by auto
  moreover have "x \<in> {y. \<exists>c. nkid ns p y = Some c \<and> ndir ns c}" using k by blast
  moreover have "finite {y. \<exists>c. nkid ns p y = Some c \<and> ndir ns c}"
    by (rule finite_subset [OF _ calculation(1)]) auto
  ultimately show ?thesis by (auto simp: card_gt_0_iff)
qed

lemma detach_good:
  assumes good: "ns_good B ns" and det: "detach_entry p x dec sc path con now ns = Inr (c, ns')"
  shows "nkid ns p x = Some c" "ndir ns c \<longrightarrow> 0 < ns_subdirs (ns_nodes ns) p"
proof -
  show k: "nkid ns p x = Some c"
    using det by (elim detach_entryE) (auto simp: ns_kid_def entries_of_def dir_entries_def)
  show "ndir ns c \<longrightarrow> 0 < ns_subdirs (ns_nodes ns) p" using subdirs_pos [OF good k] by blast
qed

text \<open>
  Deleting a node is safe when it has no entry left. In the delegated mode the code does not look at
  the links of the node; \<open>unlinked_alone\<close> is the condition under which this does no harm.
\<close>

definition unlinked_alone :: "chunked_options \<Rightarrow> nat fset \<Rightarrow> namespace \<Rightarrow> nat \<Rightarrow> bool" where
  "unlinked_alone opts open_refs ns c \<longleftrightarrow>
     (co_delegated opts \<longrightarrow> c |\<notin>| open_refs \<longrightarrow> ns_links (ns_nodes ns) c = Some 1)"

lemma reap_cases:
  assumes "reap_detached opts open_refs c (ns, orphans) = Inr (ns', orphans')" "c \<in> fmdom' (ns_nodes ns)"
  shows "(ns' = ns \<and> \<not> ndir ns c) \<or>
    (ns' = ns\<lparr>ns_nodes := fmdrop c (ns_nodes ns)\<rparr>
     \<and> (ndir ns c \<or> (co_delegated opts \<and> c |\<notin>| open_refs) \<or> ns_links (ns_nodes ns) c = Some 0))"
  using assms
  by (auto simp: reap_detached_def Let_def is_dir_node_def ns_links_def fmlookup_dom'_iff split: if_splits)

lemma remove_dir_good:
  assumes good: "ns_good B ns" and det: "detach_entry p x True sc path con now ns = Inr (c, ns1)"
    and leaf: "ndir ns c" "entries_of (ns_nodes ns) c = []"
  shows "ns_good B (ns1\<lparr>ns_nodes := fmdrop c (ns_nodes ns1)\<rparr>)"
    "nkid (ns1\<lparr>ns_nodes := fmdrop c (ns_nodes ns1)\<rparr>) = ent_upd (nkid ns) p x None"
proof -
  note g = ns_goodD [OF good]
  note kc = detach_good(1) [OF good det]
  note d = detach_entry_ok [OF det g(2) detach_good(2) [OF good det]]
  have none: "nkid ns c y = None" for y using leaf(2) by (simp add: ns_kid_def)
  have "entries_of (ns_nodes ns1) c = []"
  proof (rule ccontr)
    assume ne: "entries_of (ns_nodes ns1) c \<noteq> []"
    then obtain e where "e \<in> set (entries_of (ns_nodes ns1) c)" by (cases "entries_of (ns_nodes ns1) c") auto
    then have "nkid ns1 c (dn_name e) \<noteq> None" by (auto simp: ns_kid_def find_None_iff)
    then show False using none d(5) by (auto simp: ent_upd_apply split: if_splits)
  qed
  note v = drop_view [OF this]
  have cut: "tree_inv entry_name_ok (ent_upd (nkid ns) p x None) (\<lambda>j. if j = c then Some (1 - 1) else ns_links (ns_nodes ns) j) (ndir ns)
      (ns_subdirs (ns_nodes ns1)) (ns_root ns)"
    by (rule tree_unlink [OF g(3) kc dir_links [OF leaf(1)] none]) (use d(8) in auto)
  have "nodes_tree (fmdrop c (ns_nodes ns1)) (ns_root ns)"
    unfolding v(3) d(5)
    by (rule tree_drop [OF cut, of c]) (use v d(6,7) leaf(1) in auto)
  moreover have "clean_links B (ns1\<lparr>ns_nodes := fmdrop c (ns_nodes ns1)\<rparr>)"
    using d(3) [OF g(4)] by (auto simp: clean_links_def split: if_splits)
  ultimately show "ns_good B (ns1\<lparr>ns_nodes := fmdrop c (ns_nodes ns1)\<rparr>)"
    using ns_nodes_ok_drop [OF d(2)] by (intro ns_goodI [OF _ good]) (subst d(1), auto)
  show "nkid (ns1\<lparr>ns_nodes := fmdrop c (ns_nodes ns1)\<rparr>) = ent_upd (nkid ns) p x None"
    using v(3) d(5) by simp
qed

lemma detach_file_good:
  assumes good: "ns_good B ns" and det: "detach_entry p x True sc path con now ns = Inr (c, ns1)" and plain: "\<not> ndir ns c"
  shows "ns_good B ns1 \<and> nkid ns1 = ent_upd (nkid ns) p x None \<and> nkid ns p x = Some c
    \<and> (\<exists>k. ns_links (ns_nodes ns) c = Some k \<and> ns_links (ns_nodes ns1) c = Some (k - 1))"
proof -
  note g = ns_goodD [OF good]
  note d = detach_entry_ok [OF det g(2) detach_good(2) [OF good det]]
  obtain k where k: "ns_links (ns_nodes ns) c = Some k" using tree_invD(1) [OF g(3) d(4)] plain by auto
  have "nodes_tree (ns_nodes ns1) (ns_root ns)"
    unfolding d(5,6)
    by (rule tree_unlink [OF g(3) d(4) k]) (use plain k d(7,8) in auto)
  then have "ns_good B ns1" using d(1-3) plain g(4) by (intro ns_goodI [OF _ good]) auto
  then show ?thesis using d(4,5,7) plain k by auto
qed

lemma drop_file_good:
  assumes good: "ns_good B ns" and c: "ns_links (ns_nodes ns) c = Some 0" "\<not> ndir ns c"
  shows "ns_good B (ns\<lparr>ns_nodes := fmdrop c (ns_nodes ns)\<rparr>) \<and> ns_kid (fmdrop c (ns_nodes ns)) = nkid ns"
proof -
  note g = ns_goodD [OF good]
  have "entries_of (ns_nodes ns) c = []"
    using c(2) by (auto simp: entries_of_def is_dir_node_def dir_entries_def is_dir_data_def split: option.splits node_data.splits)
  note v = drop_view [OF this]
  have "nodes_tree (fmdrop c (ns_nodes ns)) (ns_root ns)"
    unfolding v(3) by (rule tree_drop [OF g(3) c(1)]) (use v in auto)
  moreover have "clean_links B (ns\<lparr>ns_nodes := fmdrop c (ns_nodes ns)\<rparr>)"
    using g(4) by (auto simp: clean_links_def split: if_splits)
  ultimately show ?thesis using ns_nodes_ok_drop [OF g(2)] v(3) by (intro conjI ns_goodI [OF _ good]) auto
qed

text \<open>A file whose contents can be read in full; the nodes kept for open handles are such.\<close>

definition file_ready :: "block_map \<Rightarrow> node_metadata \<Rightarrow> bool" where
  "file_ready B n =
     (case nm_data n of
        ND_File l \<Rightarrow> is_ok (chunker_from_config (fl_chunker l)) \<and> extents_ok (st_size (nm_stats n)) (fl_extents l)
          \<and> layout_stored block_get B (fl_extents l)
      | _ \<Rightarrow> True)"

definition orphans_ready :: "block_map \<Rightarrow> orphans \<Rightarrow> bool" where
  "orphans_ready B orphans \<longleftrightarrow> (\<forall>i n. fmlookup orphans i = Some n \<longrightarrow> file_ready B n)"

lemma node_ready:
  assumes "ns_nodes_ok nx (ns_nodes ns)" "clean_links B ns" "fmlookup (ns_nodes ns) i = Some n"
  shows "file_ready B n"
  using ns_nodes_okD [OF assms(1,3)] clean_linksD [OF assms(2,3)]
  by (auto simp: file_ready_def ns_node_ok_def node_kind_ok_def split: node_data.splits)

lemma orphans_ready_upd: "orphans_ready B orphans \<Longrightarrow> file_ready B n \<Longrightarrow> orphans_ready B (fmupd i n orphans)"
  by (simp add: orphans_ready_def)

lemma reap_orphans:
  assumes "reap_detached opts open_refs c (ns, orphans) = Inr (ns', orphans')"
  shows "orphans' = orphans \<or> (\<exists>n. fmlookup (ns_nodes ns) c = Some n \<and> orphans' = fmupd c n orphans)"
  using assms by (auto simp: reap_detached_def Let_def split: if_splits option.splits)

lemma detach_reap_good:
  assumes good: "ns_good B ns" and det: "detach_entry p x True sc path con now ns = Inr (c, ns1)"
    and reap: "reap_detached opts open_refs c (ns1, orphans) = Inr (ns2, orphans2)"
    and leaf: "ndir ns c \<Longrightarrow> entries_of (ns_nodes ns) c = []" and alone: "unlinked_alone opts open_refs ns c"
  shows "ns_good B ns2 \<and> nkid ns2 = ent_upd (nkid ns) p x None \<and> (\<forall>j. ndir ns2 j \<longrightarrow> ndir ns j) \<and> ns_root ns2 = ns_root ns
    \<and> (orphans_ready B orphans \<longrightarrow> orphans_ready B orphans2)"
proof -
  note kc = detach_good(1) [OF good det]
  note d = detach_entry_ok [OF det ns_goodD(2) [OF good] detach_good(2) [OF good det]]
  have links: "ns_links (ns_nodes ns) c \<noteq> None" using tree_invD(1) [OF ns_goodD(3) [OF good] kc] by auto
  then have "ns_links (ns_nodes ns1) c \<noteq> None" using d(7) by auto
  then have dom: "c \<in> fmdom' (ns_nodes ns1)" by (auto simp: ns_links_def fmlookup_dom'_iff)
  have drop: "is_dir_node (fmdrop c (ns_nodes ns1)) j \<longrightarrow> ndir ns1 j" for j by (simp add: is_dir_node_def)
  then have keep: "\<forall>j. ndir ns2 j \<longrightarrow> ndir ns j" using reap_cases [OF reap dom] d(6) by auto
  have "ns_root ns1 = ns_root ns" by (subst d(1)) simp
  then have root: "ns_root ns2 = ns_root ns" using reap_cases [OF reap dom] by auto
  have "ns_good B ns2 \<and> nkid ns2 = ent_upd (nkid ns) p x None"
  proof (cases "ndir ns c")
    case True
    then have "ns2 = ns1\<lparr>ns_nodes := fmdrop c (ns_nodes ns1)\<rparr>" using reap_cases [OF reap dom] d(6) by auto
    then show ?thesis using remove_dir_good [OF good det True leaf [OF True]] by simp
  next
    case False
    note f = detach_file_good [OF good det False]
    have f1: "\<not> ndir ns1 c" using False d(6) by simp
    show ?thesis
    proof (cases "ns2 = ns1")
      case True
      then show ?thesis using f by simp
    next
      case drop: False
      then have "ns2 = ns1\<lparr>ns_nodes := fmdrop c (ns_nodes ns1)\<rparr>" "ns_links (ns_nodes ns1) c = Some 0"
        using reap_cases [OF reap dom] f1 f alone by (auto simp: unlinked_alone_def)
      then show ?thesis using drop_file_good [of B ns1 c] f f1 by simp
    qed
  qed
  moreover have "orphans_ready B orphans \<longrightarrow> orphans_ready B orphans2"
    using reap_orphans [OF reap] node_ready [OF d(2) d(3) [OF ns_goodD(4) [OF good]]] orphans_ready_upd by blast
  ultimately show ?thesis using keep root by blast
qed

lemma apply_unlink_good:
  assumes good: "ns_good B ns" "CHR 0x00 \<notin> set path" and mode: "\<not> co_delegated opts"
    and res: "apply_unlink opts open_refs path now (ns, orphans) = Inr (ns', orphans')"
  shows "ns_good B ns' \<and> (orphans_ready B orphans \<longrightarrow> orphans_ready B orphans')"
proof -
  obtain en c n i ns1 where w: "ns_walk ns path False ''unlink'' 0 = Inr en" "ne_node en = Some c"
    and n: "fmlookup (ns_nodes ns) c = Some n" "\<not> is_dir_data (nm_data n)"
    and det: "detach_entry (ne_parent en) (ne_name en) True ''unlink'' (ne_path en) (co_concurrent_writes opts) now ns = Inr (i, ns1)"
    and reap: "reap_detached opts open_refs c (ns1, orphans) = Inr (ns', orphans')"
    using res by (auto simp: apply_unlink_def split: if_splits)
  have plain: "\<not> ndir ns c" using n by (simp add: is_dir_node_def)
  then have "c \<noteq> ns_root ns" using tree_invD(4) [OF ns_goodD(3) [OF good(1)]] by auto
  then have "i = c" using ns_entry_taken [OF walk_good(1) [OF good w(1)] w(2)] detach_good(1) [OF good(1) det] by simp
  then show ?thesis
    using detach_reap_good [OF good(1) det [unfolded \<open>i = c\<close>] reap] plain mode by (simp add: unlinked_alone_def)
qed

lemma apply_rmdir_good:
  assumes good: "ns_good B ns" "CHR 0x00 \<notin> set path" and mode: "\<not> co_delegated opts"
    and res: "apply_rmdir opts open_refs path now (ns, orphans) = Inr (ns', orphans')"
  shows "ns_good B ns' \<and> (orphans_ready B orphans \<longrightarrow> orphans_ready B orphans')"
proof -
  obtain en c n where w: "ns_walk ns (normalize_path path) False ''rmdir'' 0 = Inr en" "ne_node en = Some c" "c \<noteq> ns_root ns"
    and n: "fmlookup (ns_nodes ns) c = Some n"
    using res by (auto simp: apply_rmdir_def split: if_splits)
  obtain i ns1 where d: "nm_data n = ND_Directory []"
    and det: "detach_entry (ne_parent en) (ne_name en) True ''rmdir'' (ne_path en) (co_concurrent_writes opts) now ns = Inr (i, ns1)"
    and reap: "reap_detached opts open_refs c (ns1, orphans) = Inr (ns', orphans')"
    using res w n by (cases "nm_data n") (auto simp: apply_rmdir_def split: if_splits)
  have leaf: "entries_of (ns_nodes ns) c = []" using n d by (simp add: entries_of_def dir_entries_def)
  have "i = c"
    using ns_entry_taken [OF walk_good(1) [OF good(1) norm_path_clean [OF good(2)] w(1)] w(2,3)] detach_good(1) [OF good(1) det] by simp
  then show ?thesis
    using detach_reap_good [OF good(1) det [unfolded \<open>i = c\<close>] reap leaf] mode by (simp add: unlinked_alone_def)
qed

section \<open>Renaming\<close>

interpretation nstree: dir_tree "ns_good B" nkid ndir ns_root for B
proof unfold_locales
  fix ns p x c assume "ns_good B ns" "nkid ns p x = Some c"
  then show "ndir ns p" using tree_invD(1) [OF ns_goodD(3)] by blast
next
  fix ns p x d q y assume "ns_good B ns" "nkid ns p x = Some d" "nkid ns q y = Some d" "ndir ns d"
  then show "p = q \<and> x = y" using tree_inv_one_parent [OF ns_goodD(3)] by blast
next
  fix ns p x assume "ns_good B ns"
  then show "nkid ns p x \<noteq> Some (ns_root ns)" by (rule tree_inv_root_top [OF ns_goodD(3)])
next
  fix ns d assume "ns_good B ns" "ndir ns d"
  then show "tree_reach (nkid ns) (ndir ns) (ns_root ns) d" using tree_invD(7) [OF ns_goodD(3)] dir_links by blast
qed

lemma move_good:
  assumes good: "ns_good B ns" and det: "detach_entry p x False sc path con now ns = Inr (c, ns1)"
    and add: "add_entry q y c sc' path' con now ns1 = Inr ns2" and y: "entry_name_ok y" "(q, y) \<noteq> (p, x)"
    and away: "ndir ns c \<Longrightarrow> (\<And>zs. tree_walk (nkid ns) c zs \<noteq> Some q)"
  shows "ns_good B ns2"
proof -
  note g = ns_goodD [OF good]
  note d = detach_entry_ok [OF det g(2) detach_good(2) [OF good det]]
  note a = add_entry_ok [OF add d(2)]
  have free: "nkid ns q y = None" using a(5) d(5) y(2) by (auto simp: ent_upd_apply split: if_splits)
  have "ndir ns1 q" using add by (elim add_entryE) (simp add: is_dir_node_def is_dir_data_def)
  then have q: "ndir ns q" using d(6) by simp
  have links: "ns_links (ns_nodes ns1) = ns_links (ns_nodes ns)" using d(7) by (simp add: fun_eq_iff)
  have "nodes_tree (ns_nodes ns2) (ns_root ns)"
    unfolding a(4) a(6) a(7) d(5,6) links
    by (rule tree_move [OF g(3) d(4) q dir_links [OF q] free y(1) away])
      (use d(6,8) a(8) in \<open>auto simp: fun_eq_iff\<close>)
  moreover have "ns1\<lparr>ns_nodes := ns_nodes ns2\<rparr> = ns\<lparr>ns_nodes := ns_nodes ns2\<rparr>" by (subst d(1)) simp
  then have "ns2 = ns\<lparr>ns_nodes := ns_nodes ns2\<rparr>" using a(1) by simp
  ultimately show ?thesis using a(2,3) d(3) g(4) by (intro ns_goodI [OF _ good]) auto
qed

lemma entry_at_ok:
  assumes "ns_entry_ok ns en" "ne_node en = Some c" "c \<noteq> ns_root ns"
  obtains cs where "ns_entry_at ns cs en"
  using assms by (auto simp: ns_entry_ok_def ns_root_entry_def)

text \<open>A directory is never renamed below itself: its path would be a prefix of the new one.\<close>

lemma ns_rename_away:
  assumes good: "ns_good B ns" and src: "ns_entry_at ns cs src" "ne_node src = Some c" "ndir ns c"
    and dest: "ns_entry_at ns ds dest" and inside: "\<not> is_path_inside (ne_path dest) (ne_path src)"
  shows "tree_walk (nkid ns) c zs \<noteq> Some (ne_parent dest)"
proof
  assume zs: "tree_walk (nkid ns) c zs = Some (ne_parent dest)"
  have c: "tree_walk (nkid ns) (ns_root ns) (cs @ [ne_name src]) = Some c"
    using src(1,2) unfolding tree_walk_snoc ns_entry_at_def by auto
  have "ndir ns (ne_parent dest)" "tree_walk (nkid ns) (ns_root ns) ds = Some (ne_parent dest)"
    using dest by (auto simp: ns_entry_at_def)
  from nstree.below_prefix [OF good this(1) c zs this(2)] have "ds = (cs @ [ne_name src]) @ zs" .
  then have "prefix (cs @ [ne_name src]) (ds @ [ne_name dest])" by simp
  then show False
    using inside src(1) dest unfolding is_path_inside_comps by (simp add: ns_entry_at_def)
qed

text \<open>The destination of a rename that goes through is a proper entry.\<close>

lemma root_not_empty:
  assumes good: "ns_good B ns" and k: "nkid ns p x = Some c"
  shows "entries_of (ns_nodes ns) (ns_root ns) \<noteq> []"
proof
  assume empty: "entries_of (ns_nodes ns) (ns_root ns) = []"
  have "tree_reach (nkid ns) (ndir ns) (ns_root ns) p" using nstree.all_reached [OF good] nstree.entry_parent [OF good k] .
  then have "p = ns_root ns"
  proof cases
    case (tree_reach_step q y)
    have "q = ns_root ns \<Longrightarrow> False" using tree_reach_step(2) empty by (simp add: ns_kid_def)
    moreover have "tree_reach (nkid ns) (ndir ns) (ns_root ns) q \<Longrightarrow> q = ns_root ns"
      by (induction rule: tree_reach.induct) (auto simp: ns_kid_def empty)
    ultimately show ?thesis using tree_reach_step(1) by blast
  qed simp
  then show False using k empty by (simp add: ns_kid_def)
qed

lemma clear_destination_good:
  assumes good: "ns_good B ns" and dest: "ns_entry_ok ns dest" and mode: "\<not> co_delegated opts" and k: "nkid ns p x = Some c"
    and res: "clear_destination opts open_refs refuse sd dest now (ns, orphans) = Inr (ns1, orphans1)"
  shows "ns_good B ns1 \<and> (\<exists>ds. ns_entry_at ns ds dest) \<and> (\<forall>p x d. nkid ns1 p x = Some d \<longrightarrow> nkid ns p x = Some d)
    \<and> (\<forall>j. ndir ns1 j \<longrightarrow> ndir ns j) \<and> (orphans_ready B orphans \<longrightarrow> orphans_ready B orphans1)"
proof (cases "ne_node dest")
  case None
  then show ?thesis using res good dest by (auto simp: clear_destination_def ns_entry_ok_def ns_root_entry_def)
next
  case (Some t)
  let ?es = "case fmlookup (ns_nodes ns) t of Some n \<Rightarrow> (case nm_data n of ND_Directory es \<Rightarrow> Some es | _ \<Rightarrow> None) | None \<Rightarrow> None"
  obtain i ns2 where det: "detach_entry (ne_parent dest) (ne_name dest) True ''rename'' (ne_path dest) (co_concurrent_writes opts) now ns = Inr (i, ns2)"
    and reap: "reap_detached opts open_refs t (ns2, orphans) = Inr (ns1, orphans1)" and es: "?es = None \<or> ?es = Some []"
    using res Some unfolding clear_destination_def prod.case Let_def by (auto split: if_split_asm)
  have leaf: "ndir ns t \<Longrightarrow> entries_of (ns_nodes ns) t = []"
    using es by (auto simp: is_dir_node_def entries_of_def dir_entries_def is_dir_data_def split: option.splits node_data.splits)
  have "t \<noteq> ns_root ns" using root_not_empty [OF good k] leaf tree_invD(4) [OF ns_goodD(3) [OF good]] by auto
  then obtain ds where ds: "ns_entry_at ns ds dest" using entry_at_ok [OF dest Some] by blast
  then have "i = t" using detach_good(1) [OF good det] Some by (simp add: ns_entry_at_def)
  from detach_reap_good [OF good det [unfolded this] reap leaf] mode
  have r: "ns_good B ns1" "nkid ns1 = ent_upd (nkid ns) (ne_parent dest) (ne_name dest) None" "\<forall>j. ndir ns1 j \<longrightarrow> ndir ns j"
    "orphans_ready B orphans \<longrightarrow> orphans_ready B orphans1"
    by (auto simp: unlinked_alone_def)
  then show ?thesis using ds by (auto simp: ent_upd_apply split: if_splits)
qed

lemma apply_rename_good:
  assumes good: "ns_good B ns" "CHR 0x00 \<notin> set old" "CHR 0x00 \<notin> set new" and mode: "\<not> co_delegated opts"
    and res: "apply_rename opts open_refs old new now (ns, orphans) = Inr (ns', orphans')"
  shows "ns_good B ns' \<and> (orphans_ready B orphans \<longrightarrow> orphans_ready B orphans')"
proof -
  note un = apply_rename_def Let_def prod.case ns_dir_node
  obtain src c dest where w: "ns_walk ns (normalize_path old) False ''rename'' 0 = Inr src" "ne_node src = Some c" "c \<noteq> ns_root ns"
    "ns_walk ns (normalize_path new) False ''rename'' 0 = Inr dest"
    using res unfolding un by (auto split: if_split_asm)
  have ok: "ns_entry_ok ns src" "ns_entry_ok ns dest"
    using walk_good(1) [OF good(1) norm_path_clean [OF good(2)] w(1)] walk_good(1) [OF good(1) norm_path_clean [OF good(3)] w(4)] .
  show ?thesis
  proof (cases "ne_node dest = Some c")
    case True
    then show ?thesis using res w good(1) unfolding un by simp
  next
    case False
    obtain cs where cs: "ns_entry_at ns cs src" using entry_at_ok [OF ok(1) w(2,3)] .
    have kc: "nkid ns (ne_parent src) (ne_name src) = Some c" using cs w(2) by (simp add: ns_entry_at_def)
    obtain refuse ns1 orphans1 i ns2 ns3 where inside: "ndir ns c \<Longrightarrow> \<not> is_path_inside (ne_path dest) (ne_path src)"
      and clear: "clear_destination opts open_refs refuse (ndir ns c) dest now (ns, orphans) = Inr (ns1, orphans1)"
      and det: "detach_entry (ne_parent src) (ne_name src) False ''rename'' (ne_path src) (co_concurrent_writes opts) now ns1 = Inr (i, ns2)"
      and add: "add_entry (ne_parent dest) (ne_name dest) c ''rename'' (ne_path dest) (co_concurrent_writes opts) now ns2 = Inr ns3"
      and touch: "(case fmlookup (ns_nodes ns3) c of None \<Rightarrow> Inr (ns3, orphans1)
         | Some node \<Rightarrow> and_then (touch_changed (co_concurrent_writes opts) now (nm_stats node)) (\<lambda>st.
             Inr (ns_put c (node\<lparr>nm_stats := st\<rparr>) ns3, orphans1))) = Inr (ns', orphans')"
      using res w False unfolding un by (auto split: if_split_asm)
    obtain ds where r: "ns_good B ns1" "ns_entry_at ns ds dest" "\<forall>p x d. nkid ns1 p x = Some d \<longrightarrow> nkid ns p x = Some d"
      "\<forall>j. ndir ns1 j \<longrightarrow> ndir ns j" "orphans_ready B orphans \<longrightarrow> orphans_ready B orphans1"
      using clear_destination_good [OF good(1) ok(2) mode kc clear] by blast
    have ic: "i = c" using detach_good(1) [OF r(1) det] r(3) kc by fastforce
    have "ns_good B ns3"
    proof (rule move_good [OF r(1) det [unfolded ic] add])
      show "entry_name_ok (ne_name dest)" using r(2) by (simp add: ns_entry_at_def)
      show "(ne_parent dest, ne_name dest) \<noteq> (ne_parent src, ne_name src)" using r(2) False kc by (auto simp: ns_entry_at_def)
      fix zs assume "ndir ns1 c"
      then have d: "ndir ns c" using r(4) by blast
      show "tree_walk (nkid ns1) c zs \<noteq> Some (ne_parent dest)"
        using ns_rename_away [OF good(1) cs w(2) d r(2) inside [OF d], of zs] tree_walk_mono [of "nkid ns1" "nkid ns" c zs] r(3) by blast
    qed
    then show ?thesis
      using touch r(5) put_stats_good [of B ns3 c] by (auto simp: stats_like_def dest!: touch_changed_like split: option.splits)
  qed
qed

end
