(* ===== verification/Chunked_Files_Safety.thy ===== *)
theory Chunked_Files_Safety
  imports Chunked_Namespace_Safety
begin

text \<open>
  The mutations of the chunked file system on attributes and file contents keep its namespace valid
  and its files readable: attributes, truncation, whole files, opening and the guarded requests.
\<close>

text \<open>An early return that was not taken.\<close>

lemma else_Inr: "(if b then Inl e else r) = Inr x \<longleftrightarrow> \<not> b \<and> r = Inr x"
  by simp

section \<open>File contents\<close>

lemma store_file_ok:
  assumes "store_file l sz con now n = Inr n'"
  shows "nm_data n' = ND_File l" "st_size (nm_stats n') = sz" "st_ino (nm_stats n') = st_ino (nm_stats n)"
    "st_mode (nm_stats n') = st_mode (nm_stats n)" "st_nlink (nm_stats n') = st_nlink (nm_stats n)"
  using assms by (auto simp: store_file_def set_file_size_def stats_like_def dest!: touch_modified_like)

lemma put_file_good:
  assumes good: "ns_good B ns" and i: "fmlookup (ns_nodes ns) i = Some n" "nm_data n = ND_File l0"
    and n': "nm_data n' = ND_File l" "st_ino (nm_stats n') = st_ino (nm_stats n)"
      "st_mode (nm_stats n') AND S_IFMT = st_mode (nm_stats n) AND S_IFMT" "st_nlink (nm_stats n') = st_nlink (nm_stats n)"
    and l: "is_ok (chunker_from_config (fl_chunker l))" "extents_ok (st_size (nm_stats n')) (fl_extents l)"
      "layout_stored block_get B (fl_extents l)"
  shows "ns_good B (ns_put i n' ns)"
proof (rule put_same_shape_good [OF good i(1)])
  have n: "ns_node_ok (ns_next_inode ns) i n" by (rule ns_nodes_okD [OF ns_goodD(2) [OF good] i(1)])
  have "file_type_from_mode (st_mode (nm_stats n')) = file_type_from_mode (st_mode (nm_stats n))"
    using n'(3) by (rule from_mode_cong)
  then show "ns_node_ok (ns_next_inode ns) i n'"
    using n i(2) n' l by (simp add: ns_node_ok_def node_kind_ok_def Let_def is_dir_data_def dir_entries_def)
qed (use i n' l in \<open>simp_all add: is_dir_data_def dir_entries_def\<close>)

lemma truncate_node_ok:
  assumes res: "truncate_node code sc path len con now n = Inr n'" and ready: "file_ready B n"
  obtains l l' where "nm_data n = ND_File l" "nm_data n' = ND_File l'" "file_ready B n'"
    "st_size (nm_stats n') = len" "st_ino (nm_stats n') = st_ino (nm_stats n)"
    "st_mode (nm_stats n') = st_mode (nm_stats n)" "st_nlink (nm_stats n') = st_nlink (nm_stats n)"
    "\<forall>k. layout_byte block_get B (fl_extents l') k = (if k < len then layout_byte block_get B (fl_extents l) k else 0)"
proof -
  obtain l es where l: "nm_data n = ND_File l"
    and es: "(if len < st_size (nm_stats n) then trim_extents (fl_extents l) len else Inr (fl_extents l)) = Inr es"
    and st: "store_file (l\<lparr>fl_extents := es\<rparr>) len con now n = Inr n'"
    using res by (cases "nm_data n") (auto simp: truncate_node_def)
  have r: "is_ok (chunker_from_config (fl_chunker l))" "extents_ok (st_size (nm_stats n)) (fl_extents l)"
    "layout_stored block_get B (fl_extents l)" using ready l by (simp_all add: file_ready_def)
  have e: "extents_ok len es \<and> layout_stored block_get B es
    \<and> (\<forall>k. layout_byte block_get B es k = (if k < len then layout_byte block_get B (fl_extents l) k else 0))"
  proof (cases "len < st_size (nm_stats n)")
    case True
    then have "trim_extents (fl_extents l) len = Inr es" using es by simp
    note t = trim_extents_contents [OF r(2) this]
    show ?thesis using t(1) t(2) [OF r(3)] t(3) [of block_get B] by blast
  next
    case False
    then show ?thesis using es r extents_ok_mono [OF r(2), of len] layout_byte_beyond [OF r(2), of _ block_get B] by auto
  qed
  note s = store_file_ok [OF st]
  show ?thesis
    by (rule that [OF l s(1) _ s(2-5)]) (use e r s in \<open>simp_all add: file_ready_def\<close>)
qed

lemma good_ready: "ns_good B ns \<Longrightarrow> fmlookup (ns_nodes ns) i = Some n \<Longrightarrow> file_ready B n"
  using node_ready ns_goodD(2,4) by blast

lemma truncate_good:
  assumes good: "ns_good B ns" and i: "fmlookup (ns_nodes ns) i = Some n"
    and res: "truncate_node code sc path len con now n = Inr n'"
  shows "ns_good B (ns_put i n' ns)"
proof -
  obtain l l' where t: "nm_data n = ND_File l" "nm_data n' = ND_File l'" "file_ready B n'"
    "st_ino (nm_stats n') = st_ino (nm_stats n)" "st_mode (nm_stats n') = st_mode (nm_stats n)"
    "st_nlink (nm_stats n') = st_nlink (nm_stats n)"
    using truncate_node_ok [OF res good_ready [OF good i]] .
  show ?thesis
    by (rule put_file_good [OF good i t(1,2,4) _ t(6)]) (use t in \<open>simp_all add: file_ready_def\<close>)
qed

section \<open>Attributes\<close>

lemma resolve_node_eq: "resolve_node ns path follow sc = Inr (i, n) \<Longrightarrow> fmlookup (ns_nodes ns) i = Some n"
  by (auto simp: resolve_node_def)

lemma ns_chmod_good:
  assumes "ns_good B ns" "ns_chmod path mode con now ns = Inr ns'"
  shows "ns_good B ns'"
proof -
  obtain i n st where n: "fmlookup (ns_nodes ns) i = Some n" and ns': "ns' = ns_put i (n\<lparr>nm_stats := st\<rparr>) ns"
    and st: "stats_like st ((nm_stats n)\<lparr>st_mode := (st_mode (nm_stats n) AND S_IFMT) OR (mode AND PERM_MASK)\<rparr>)"
    using assms(2) by (auto simp: ns_chmod_def dest!: resolve_node_eq touch_changed_like)
  show ?thesis unfolding ns' using st
    by (intro put_stats_good [OF assms(1) n]) (simp_all add: stats_like_def masked_or_perm)
qed

lemma chown_path_good:
  assumes "ns_good B ns" "chown_path path uid gid follow sc con now ns = Inr ns'"
  shows "ns_good B ns'"
proof -
  obtain i n st where n: "fmlookup (ns_nodes ns) i = Some n" and ns': "ns' = ns_put i (n\<lparr>nm_stats := st\<rparr>) ns"
    and st: "stats_like st (nm_stats n)"
    using assms(2) by (auto simp: chown_path_def Let_def stats_like_def dest!: resolve_node_eq touch_changed_like)
  show ?thesis unfolding ns' using st by (intro put_stats_good [OF assms(1) n]) (simp_all add: stats_like_def)
qed

lemma utimes_path_good:
  assumes "ns_good B ns" "utimes_path path atime mtime follow sc con now ns = Inr ns'"
  shows "ns_good B ns'"
proof -
  obtain i n st where n: "fmlookup (ns_nodes ns) i = Some n" and ns': "ns' = ns_put i (n\<lparr>nm_stats := st\<rparr>) ns"
    and st: "stats_like st (nm_stats n)"
    using assms(2) by (auto simp: utimes_path_def stats_like_def dest!: resolve_node_eq touch_changed_like)
  show ?thesis unfolding ns' using st by (intro put_stats_good [OF assms(1) n]) (simp_all add: stats_like_def)
qed

lemma ns_truncate_good:
  assumes "ns_good B ns" "ns_truncate path len con now ns = Inr ns'"
  shows "ns_good B ns'"
proof -
  obtain i n n' where "fmlookup (ns_nodes ns) i = Some n" "ns' = ns_put i n' ns"
    "truncate_node Einval ''truncate'' (normalize_path path) len con now n = Inr n'"
    using assms(2) by (auto simp: ns_truncate_def dest!: resolve_node_eq)
  then show ?thesis using truncate_good [OF assms(1)] by simp
qed

text \<open>
  Setting attributes through a handle: the resized node, or the node itself, with the new times. Its
  type and link count stay.
\<close>

lemma setattr_cases:
  assumes "ns_guarded_setattr target change con now ns = Inr ns'"
  obtains i n st1 n2 st where "fmlookup (ns_nodes ns) i = Some n" "ns' = ns_put i (n2\<lparr>nm_stats := st\<rparr>) ns"
    "st_ino st1 = st_ino (nm_stats n)" "st_mode st1 AND S_IFMT = st_mode (nm_stats n) AND S_IFMT"
    "st_size st1 = st_size (nm_stats n)" "st_nlink st1 = st_nlink (nm_stats n)" "stats_like st (nm_stats n2)"
    "n2 = n\<lparr>nm_stats := st1\<rparr> \<or> (\<exists>len. truncate_node Einval ''setattr'' (pg_path target) len con now (n\<lparr>nm_stats := st1\<rparr>) = Inr n2)"
proof -
  define st1 where "st1 n = (let st = nm_stats n;
      st = (case gs_mode change of None \<Rightarrow> st | Some m \<Rightarrow> st\<lparr>st_mode := (st_mode st AND S_IFMT) OR (m AND PERM_MASK)\<rparr>);
      st = (case (case gs_uid change of Some u \<Rightarrow> if u \<noteq> U32_MAX then Some u else None | None \<Rightarrow> None) of None \<Rightarrow> st | Some u \<Rightarrow> st\<lparr>st_uid := u\<rparr>)
    in (case (case gs_gid change of Some g \<Rightarrow> if g \<noteq> U32_MAX then Some g else None | None \<Rightarrow> None) of None \<Rightarrow> st | Some g \<Rightarrow> st\<lparr>st_gid := g\<rparr>))" for n :: node_metadata
  have like1: "st_ino (st1 n) = st_ino (nm_stats n)" "st_mode (st1 n) AND S_IFMT = st_mode (nm_stats n) AND S_IFMT"
    "st_size (st1 n) = st_size (nm_stats n)" "st_nlink (st1 n) = st_nlink (nm_stats n)" for n :: node_metadata
    by (auto simp: st1_def Let_def masked_or_perm split: option.splits)
  obtain i n where n: "fmlookup (ns_nodes ns) i = Some n" and guard: "ns_check_path_guard ns target ''setattr'' = Inr i"
    using assms by (auto simp: ns_guarded_setattr_def)
  define t where "t m = (let st = nm_stats m;
      st = (case gs_atime_ms change of None \<Rightarrow> st | Some a \<Rightarrow> st\<lparr>st_atime_ms := a\<rparr>)
    in (case gs_mtime_ms change of None \<Rightarrow> st | Some a \<Rightarrow> st\<lparr>st_mtime_ms := a\<rparr>))" for m :: node_metadata
  have like2: "stats_like (t m) (nm_stats m)" for m by (simp add: t_def Let_def stats_like_def split: option.splits)
  define changed where "changed \<longleftrightarrow> (gs_mode change \<noteq> None
      \<or> (case gs_uid change of Some u \<Rightarrow> if u \<noteq> U32_MAX then Some u else None | None \<Rightarrow> None) \<noteq> None
      \<or> (case gs_gid change of Some g \<Rightarrow> if g \<noteq> U32_MAX then Some g else None | None \<Rightarrow> None) \<noteq> None
      \<or> gs_atime_ms change \<noteq> None \<or> gs_mtime_ms change \<noteq> None) \<and> gs_size change = None"
  have "and_then (case gs_size change of None \<Rightarrow> Inr (n\<lparr>nm_stats := st1 n\<rparr>)
      | Some len \<Rightarrow> truncate_node Einval ''setattr'' (pg_path target) len con now (n\<lparr>nm_stats := st1 n\<rparr>)) (\<lambda>n2.
      and_then (if changed then touch_changed con now (t n2) else Inr (t n2)) (\<lambda>st. Inr (ns_put i (n2\<lparr>nm_stats := st\<rparr>) ns))) = Inr ns'"
    using assms n guard unfolding ns_guarded_setattr_def Let_def st1_def t_def changed_def
    by (simp add: else_Inr split del: if_split)
  then obtain n2 st where n2: "(case gs_size change of None \<Rightarrow> Inr (n\<lparr>nm_stats := st1 n\<rparr>)
      | Some len \<Rightarrow> truncate_node Einval ''setattr'' (pg_path target) len con now (n\<lparr>nm_stats := st1 n\<rparr>)) = Inr n2"
    and st: "(if changed then touch_changed con now (t n2) else Inr (t n2)) = Inr st" and ns': "ns' = ns_put i (n2\<lparr>nm_stats := st\<rparr>) ns"
    by auto
  have "stats_like st (nm_stats n2)"
    using st like2 [of n2] by (auto simp: stats_like_def dest!: touch_changed_like split: if_splits)
  then show ?thesis by (rule that [OF n ns' like1]) (use n2 in \<open>auto split: option.splits\<close>)
qed

lemma ns_guarded_setattr_good:
  assumes good: "ns_good B ns" and res: "ns_guarded_setattr target change con now ns = Inr ns'"
  shows "ns_good B ns'"
  using res
proof (rule setattr_cases)
  fix i n st1 n2 st
  assume n: "fmlookup (ns_nodes ns) i = Some n" and ns': "ns' = ns_put i (n2\<lparr>nm_stats := st\<rparr>) ns"
    and st1: "st_ino st1 = st_ino (nm_stats n)" "st_mode st1 AND S_IFMT = st_mode (nm_stats n) AND S_IFMT"
      "st_size st1 = st_size (nm_stats n)" "st_nlink st1 = st_nlink (nm_stats n)"
    and st: "stats_like st (nm_stats n2)"
    and n2: "n2 = n\<lparr>nm_stats := st1\<rparr> \<or> (\<exists>len. truncate_node Einval ''setattr'' (pg_path target) len con now (n\<lparr>nm_stats := st1\<rparr>) = Inr n2)"
  show ?thesis
  proof (cases "n2 = n\<lparr>nm_stats := st1\<rparr>")
    case True
    have "ns_good B (ns_put i (n\<lparr>nm_stats := st\<rparr>) ns)"
      using st st1 True by (intro put_stats_good [OF good n]) (simp_all add: stats_like_def)
    then show ?thesis using ns' True by simp
  next
    case False
    then obtain len where t: "truncate_node Einval ''setattr'' (pg_path target) len con now (n\<lparr>nm_stats := st1\<rparr>) = Inr n2"
      using n2 by blast
    have "file_ready B (n\<lparr>nm_stats := st1\<rparr>)" using good_ready [OF good n] st1(3) by (simp add: file_ready_def split: node_data.splits)
    then obtain l l' where tr: "nm_data n = ND_File l" "nm_data n2 = ND_File l'" "file_ready B n2"
      "st_ino (nm_stats n2) = st_ino st1" "st_mode (nm_stats n2) = st_mode st1" "st_nlink (nm_stats n2) = st_nlink st1"
      by (rule truncate_node_ok [OF t]) (simp add: that)
    show ?thesis unfolding ns'
      by (rule put_file_good [OF good n tr(1), of _ l']) (use tr st st1 in \<open>simp_all add: file_ready_def stats_like_def\<close>)
  qed
qed

section \<open>Whole files and opening\<close>

text \<open>The layout a whole-file mutation brings, which the caller has written to the block store.\<close>

definition whole_file_ready :: "block_map \<Rightarrow> whole_file_mutation \<Rightarrow> bool" where
  "whole_file_ready B m \<longleftrightarrow>
     is_ok (chunker_from_config (fl_chunker (wf_layout m)))
     \<and> extents_ok (wf_data_length m) (fl_extents (wf_layout m)) \<and> layout_stored block_get B (fl_extents (wf_layout m))"

lemma store_file_good:
  assumes "ns_good B ns" "fmlookup (ns_nodes ns) i = Some n" "nm_data n = ND_File l0" "store_file l sz con now n = Inr n'"
    and "is_ok (chunker_from_config (fl_chunker l))" "extents_ok sz (fl_extents l)" "layout_stored block_get B (fl_extents l)"
  shows "ns_good B (ns_put i n' ns)"
  using store_file_ok [OF assms(4)] assms(5-) by (intro put_file_good [OF assms(1-3)]) simp_all

lemma apply_whole_file_good:
  assumes good: "ns_good B ns" "CHR 0x00 \<notin> set (wf_path m)" "whole_file_ready B m"
    and res: "apply_whole_file current m con now ns = Inr (r, ns')"
  shows "ns_good B ns'"
proof -
  let ?i = "wf_inode m"
  let ?new = "new_file_node ?i (S_IFREG OR (0x1B6 AND NOT (ns_umask ns) AND PERM_MASK)) (ns_default_uid ns) (ns_default_gid ns) (ns_default_chunker ns) now"
  consider (same) "ns' = ns"
    | (new) en j ns1 t n where "ns_walk ns (wf_path m) True ''open'' 0 = Inr en" "ne_node en = None" "?i = ns_next_inode ns"
        "insert_new (ne_parent en) (ne_name en) ?new ''open'' (ne_path en) (wf_path m) con now ns = Inr (j, ns1)"
        "fmlookup (ns_nodes ns1) ?i = Some t" "store_file (wf_layout m) (wf_data_length m) con now t = Inr n" "ns' = ns_put ?i n ns1"
    | (old) t l n where "fmlookup (ns_nodes ns) ?i = Some t" "nm_data t = ND_File l"
        "store_file (wf_layout m) (wf_data_length m) con now t = Inr n" "ns' = ns_put ?i n ns"
  proof (cases "wf_new_inode m")
    case True
    then obtain en where w: "ns_walk ns (wf_path m) True ''open'' 0 = Inr en"
      using res by (auto simp: apply_whole_file_def)
    show ?thesis
    proof (cases "current \<noteq> wf_expected_revision m \<or> ns_next_inode ns \<noteq> ?i \<or> ne_node en \<noteq> None")
      case False
      have "\<exists>j ns1 t n. insert_new (ne_parent en) (ne_name en) ?new ''open'' (ne_path en) (wf_path m) con now ns = Inr (j, ns1)
        \<and> fmlookup (ns_nodes ns1) ?i = Some t \<and> store_file (wf_layout m) (wf_data_length m) con now t = Inr n \<and> ns' = ns_put ?i n ns1"
        using res True w False unfolding apply_whole_file_def by auto
      then show ?thesis using new [OF w] False by auto
    qed (use res True w same in \<open>simp add: apply_whole_file_def\<close>)
  next
    case False
    then have r: "current = wf_expected_revision m \<and> (case ns_walk ns (wf_path m) True ''write'' 0 of Inl _ \<Rightarrow> None | Inr en \<Rightarrow> ne_node en) = Some ?i \<or> ns' = ns"
      using res by (simp add: apply_whole_file_def split: if_split_asm)
    show ?thesis
    proof (cases "ns' = ns")
      case changed: False
      then obtain t o' n where "fmlookup (ns_nodes ns) ?i = Some t" "write_base_unchanged t o'"
        "store_file (wf_layout m) (wf_data_length m) con now t = Inr n" "ns' = ns_put ?i n ns"
        using res False r unfolding apply_whole_file_def by (simp split: option.split_asm if_split_asm) auto
      then show ?thesis using old by (auto simp: write_base_unchanged_def split: node_data.splits)
    qed (use same in simp)
  qed
  then show ?thesis
  proof cases
    case new
    have "fresh_node_ok (ns_next_inode ns) ?new" using new_file_ok [OF ns_good_chunker [OF good(1)], of ?i] new(3) by simp
    from create_at_entry [OF good(1,2) new(1,2) this new(4)] new(3,5)
    have "ns_good B ns1" "t = ?new" by auto
    moreover from this(2) have "\<exists>l. nm_data t = ND_File l" by (simp add: new_file_node_def with_times_def)
    ultimately show ?thesis using good(3) store_file_good [OF _ new(5) _ new(6)] new(7) by (auto simp: whole_file_ready_def)
  next
    case old
    then show ?thesis using good(3) store_file_good [OF good(1) old(1-3)] by (simp add: whole_file_ready_def)
  qed (use good in simp)
qed

lemma open_candidate_good:
  assumes good: "ns_good B ns" "CHR 0x00 \<notin> set path"
    and res: "open_candidate authority opts path flags mode guard now ns = Inr (i, changed, ns')"
  shows "ns_good B ns' \<and> (\<not> changed \<longrightarrow> ns' = ns)"
proof -
  let ?con = "co_concurrent_writes opts"
  let ?new = "new_file_node (ns_next_inode ns) (S_IFREG OR (mode AND NOT (ns_umask ns) AND PERM_MASK)) (ns_default_uid ns) (ns_default_gid ns) (ns_default_chunker ns) now"
  obtain en where w: "ns_walk ns (normalize_path path) (\<not> (of_create flags \<and> of_exclusive flags)) ''open'' 0 = Inr en"
    using res unfolding open_candidate_def Let_def by (auto split: if_split_asm)
  consider (same) "ns' = ns"
    | (trunc) n st where "fmlookup (ns_nodes ns) i = Some n" "changed" "\<not> is_special (file_type_from_mode (st_mode (nm_stats n)))"
        "file_type_from_mode (st_mode (nm_stats n)) \<noteq> Directory" "touch_modified ?con now (set_file_size 0 (nm_stats n)) = Inr st"
        "ns' = ns_put i \<lparr>nm_stats = st, nm_data = (case nm_data n of ND_File l \<Rightarrow> ND_File (l\<lparr>fl_extents := []\<rparr>) | d \<Rightarrow> d)\<rparr> ns"
    | (create) "ne_node en = None" "changed"
        "insert_new (ne_parent en) (ne_name en) ?new ''open'' (ne_path en) (ne_path en) ?con now ns = Inr (i, ns')"
  proof (cases "ne_node en")
    case None
    then show ?thesis using res w create unfolding open_candidate_def Let_def by (auto split: if_split_asm)
  next
    case (Some j)
    then obtain n where n: "fmlookup (ns_nodes ns) j = Some n" "\<not> (file_type_from_mode (st_mode (nm_stats n)) = Directory \<and> of_write flags)"
      "\<not> is_special (file_type_from_mode (st_mode (nm_stats n)))" and f: "\<not> (of_truncate flags \<and> \<not> of_write flags)"
      and r: "(if of_truncate flags
          then and_then (touch_modified ?con now (set_file_size 0 (nm_stats n))) (\<lambda>st.
               Inr (j, True, ns_put j \<lparr>nm_stats = st, nm_data = (case nm_data n of ND_File l \<Rightarrow> ND_File (l\<lparr>fl_extents := []\<rparr>) | d \<Rightarrow> d)\<rparr> ns))
          else Inr (j, False, ns)) = Inr (i, changed, ns')"
      using res w unfolding open_candidate_def Let_def by (auto simp add: else_Inr split del: if_split)
    show ?thesis
    proof (cases "of_truncate flags")
      case True
      then have "file_type_from_mode (st_mode (nm_stats n)) \<noteq> Directory" using f n(2) by blast
      then show ?thesis using r True n trunc by auto
    qed (use r same in simp)
  qed
  then show ?thesis
  proof cases
    case trunc
    let ?n = "\<lparr>nm_stats = st, nm_data = (case nm_data n of ND_File l \<Rightarrow> ND_File (l\<lparr>fl_extents := []\<rparr>) | d \<Rightarrow> d)\<rparr>"
    have st: "st_ino st = st_ino (nm_stats n)" "st_mode st = st_mode (nm_stats n)" "st_nlink st = st_nlink (nm_stats n)"
      using touch_modified_like [OF trunc(5)] by (simp_all add: stats_like_def set_file_size_def)
    have n: "ns_node_ok (ns_next_inode ns) i n" by (rule ns_nodes_okD [OF ns_goodD(2) [OF good(1)] trunc(1)])
    have "ns_good B (ns_put i ?n ns)"
      by (rule put_same_shape_good [OF good(1) trunc(1)];
          use n st clean_linksD [OF ns_goodD(4) [OF good(1)] trunc(1)] in
            \<open>simp add: ns_node_ok_def node_kind_ok_def Let_def extents_ok_def layout_stored_def is_dir_data_def dir_entries_def split: node_data.splits\<close>)
    then show ?thesis using trunc by simp
  next
    case create
    then show ?thesis
      using create_at_entry [OF good(1) norm_path_clean [OF good(2)] w _ new_file_ok [OF ns_good_chunker [OF good(1)]]] by simp
  qed (use good in simp)
qed

section \<open>Guarded mutations\<close>

text \<open>The paths of the guards and the target of a symbolic link are free of NUL characters.\<close>

fun request_clean :: "guarded_mutation \<Rightarrow> bool" where
  "request_clean (GM_Setattr target change) \<longleftrightarrow> CHR 0x00 \<notin> set (pg_path target)"
| "request_clean (GM_Open parent name observed flags mode) \<longleftrightarrow> CHR 0x00 \<notin> set (pg_path parent)"
| "request_clean (GM_Mkdir parent name mode) \<longleftrightarrow> CHR 0x00 \<notin> set (pg_path parent)"
| "request_clean (GM_Symlink parent name target) \<longleftrightarrow> CHR 0x00 \<notin> set (pg_path parent) \<and> CHR 0x00 \<notin> set target"
| "request_clean (GM_Mknod parent name mode dev) \<longleftrightarrow> CHR 0x00 \<notin> set (pg_path parent)"
| "request_clean (GM_Unlink parent name observed) \<longleftrightarrow> CHR 0x00 \<notin> set (pg_path parent)"
| "request_clean (GM_Rmdir parent name observed) \<longleftrightarrow> CHR 0x00 \<notin> set (pg_path parent)"
| "request_clean (GM_Rename from_parent from_name source to_parent to_name destination) \<longleftrightarrow>
     CHR 0x00 \<notin> set (pg_path from_parent) \<and> CHR 0x00 \<notin> set (pg_path to_parent)"
| "request_clean (GM_Link source to_parent to_name destination) \<longleftrightarrow>
     CHR 0x00 \<notin> set (pg_path source) \<and> CHR 0x00 \<notin> set (pg_path to_parent)"

lemma guarded_child_path_clean:
  assumes "guarded_child_path parent name sc = Inr path" "CHR 0x00 \<notin> set (pg_path parent)"
  shows "CHR 0x00 \<notin> set path"
proof -
  have "path = normalize_path (pg_path parent @ ''/'' @ name)" "CHR 0x00 \<notin> set name"
    using assms(1) by (auto simp: guarded_child_path_def str_contains_def list_ex_iff split: if_split_asm)
  then show ?thesis using norm_path_clean [of "pg_path parent @ ''/'' @ name"] assms(2) by simp
qed

lemma guarded_candidate_good:
  assumes good: "ns_good B ns" "request_clean request" and mode: "\<not> co_delegated opts"
    and res: "guarded_candidate authority opts open_refs request now (ns, orphans) = Inr (outcome, ns', orphans')"
  shows "ns_good B ns' \<and> (orphans_ready B orphans \<longrightarrow> orphans_ready B orphans')"
proof (cases request)
  case (GM_Setattr target change)
  then show ?thesis using res good ns_guarded_setattr_good by (auto simp: guarded_candidate_def)
next
  case (GM_Open parent name observed flags mode)
  then show ?thesis
    using res good by (auto simp: guarded_candidate_def dest!: guarded_child_path_clean dest: open_candidate_good)
next
  case (GM_Mkdir parent name mode)
  then show ?thesis
    using res good by (auto simp: guarded_candidate_def dest!: guarded_child_path_clean dest: apply_mkdir_good)
next
  case (GM_Symlink parent name target)
  then show ?thesis
    using res good by (auto simp: guarded_candidate_def dest!: guarded_child_path_clean dest: apply_symlink_good)
next
  case (GM_Mknod parent name mode dev)
  then show ?thesis
    using res good by (auto simp: guarded_candidate_def dest!: guarded_child_path_clean dest: apply_mknod_good)
next
  case (GM_Unlink parent name observed)
  then show ?thesis
    using res good mode by (auto simp: guarded_candidate_def dest!: guarded_child_path_clean dest: apply_unlink_good)
next
  case (GM_Rmdir parent name observed)
  then show ?thesis
    using res good mode by (auto simp: guarded_candidate_def dest!: guarded_child_path_clean dest: apply_rmdir_good)
next
  case (GM_Rename from_parent from_name source to_parent to_name destination)
  then show ?thesis
    using res good mode by (auto simp: guarded_candidate_def dest!: guarded_child_path_clean dest: apply_rename_good)
next
  case (GM_Link source to_parent to_name destination)
  then show ?thesis
    using res good by (auto simp: guarded_candidate_def dest!: guarded_child_path_clean dest: apply_link_good)
qed

lemma initial_namespace_good:
  assumes "initial_namespace opts now = Inr ns"
  shows "ns_good B ns"
proof -
  have c: "is_ok (chunker_from_config (co_chunker opts))" using assms by (auto simp: initial_namespace_def is_ok_iff)
  let ?n = "\<lparr>nm_stats = \<lparr>st_dev = 0, st_ino = 1, st_mode = S_IFDIR OR (co_root_mode opts AND PERM_MASK),
                   st_nlink = 2, st_uid = co_uid opts, st_gid = co_gid opts, st_rdev = 0,
                   st_size = CHUNKED_BLOCK_SIZE, st_blksize = CHUNKED_BLOCK_SIZE,
                   st_blocks = div_ceil CHUNKED_BLOCK_SIZE 512,
                   st_atime_ms = now, st_mtime_ms = now, st_ctime_ms = now, st_birthtime_ms = now\<rparr>,
                 nm_data = ND_Directory []\<rparr>"
  have ns: "header_ok ns" "ns_nodes ns = fmupd 1 ?n fmempty" "ns_root ns = 1" "ns_next_inode ns = 2"
    using assms c by (auto simp: initial_namespace_def header_ok_def)
  have mode: "file_type_from_mode (S_IFDIR OR (co_root_mode opts AND PERM_MASK)) = Directory
    \<and> (S_IFDIR OR (co_root_mode opts AND PERM_MASK)) AND S_IFMT = mode_bits Directory"
    using mode_fits [of "S_IFDIR OR (co_root_mode opts AND PERM_MASK)" Directory] mode_bits_masked [of Directory]
    by (simp add: masked_or_perm)
  have look: "fmlookup (ns_nodes ns) i = (if i = 1 then Some ?n else None)" for i using ns by simp
  have e: "entries_of (ns_nodes ns) i = []" for i using look by (simp add: entries_of_def dir_entries_def)
  have "ns_nodes_ok 2 (ns_nodes ns)"
    using mode by (auto simp: ns_nodes_ok_def look ns_node_ok_def node_kind_ok_def Let_def dir_entries_def is_dir_data_def)
  moreover have "clean_links B ns" by (auto simp: clean_links_def look)
  moreover have "nodes_tree (ns_nodes ns) 1"
    by (auto simp: tree_inv_def ns_kid_def e ns_links_def ns_subdirs_def look is_dir_data_def is_dir_node_def refs_def
        intro: tree_reach.intros split: if_splits)
  ultimately show ?thesis using ns by (simp add: ns_good_iff)
qed

end
