(* ===== verification/Chunked_Mount_Safety.thy ===== *)
theory Chunked_Mount_Safety
  imports Chunked_Mount Chunked_Files_Safety Memory_Store_Safety
begin

text \<open>
  Safety of an exclusive chunked mount while other clients use the same metadata store: what its calls
  do to the store, and that an unusable or superseded mount publishes nothing.
\<close>

section \<open>Other clients\<close>

text \<open>A store after calls: its revision does not go back, and at one revision it has one namespace.\<close>

definition ms_after :: "metadata_state \<Rightarrow> metadata_state \<Rightarrow> bool" where
  "ms_after st st' \<longleftrightarrow> ms_revision st \<le> ms_revision st' \<and> (ms_revision st' = ms_revision st \<longrightarrow> ms_namespace st' = ms_namespace st)"

text \<open>
  What the mount may find done to the store beside its own publications: a relation that allows
  every change of leases. The other clients of the surroundings stay within it.
\<close>

definition allows :: "(metadata_state \<Rightarrow> metadata_state \<Rightarrow> bool) \<Rightarrow> surroundings \<Rightarrow> bool" where
  "allows R w \<longleftrightarrow> (\<forall>i st. R st (su_others w i st))"

text \<open>A change of the mount in its lease only, with a failure recorded if there was none.\<close>

definition framed :: "(metadata_state \<Rightarrow> metadata_state \<Rightarrow> bool) \<Rightarrow> chunked_mount \<Rightarrow> chunked_mount \<Rightarrow> bool" where
  "framed R m m' \<longleftrightarrow>
     m' = m\<lparr>cm_lease := cm_lease m', cm_lease_renewed := cm_lease_renewed m', cm_failure := cm_failure m',
             cm_metadata := cm_metadata m'\<rparr>
     \<and> R (cm_metadata m) (cm_metadata m') \<and> (cm_failure m \<noteq> None \<longrightarrow> cm_failure m' = cm_failure m)"

lemma framedD:
  assumes "framed R m m'"
  shows "cm_options m' = cm_options m" "cm_namespace m' = cm_namespace m" "cm_revision m' = cm_revision m"
    "cm_persisted_revision m' = cm_persisted_revision m" "cm_pending_namespace m' = cm_pending_namespace m"
    "cm_next_fd m' = cm_next_fd m" "cm_open_refs m' = cm_open_refs m" "cm_pending_atime m' = cm_pending_atime m"
    "cm_orphans m' = cm_orphans m" "cm_closed m' = cm_closed m" "cm_blocks m' = cm_blocks m"
    "R (cm_metadata m) (cm_metadata m')" "cm_failure m \<noteq> None \<Longrightarrow> cm_failure m' = cm_failure m"
  using assms unfolding framed_def by - (subst (asm) conj_assoc [symmetric], (erule conjE)+, (erule ssubst)?, simp; fail)+

lemma framedI:
  assumes "cm_options m' = cm_options m" "cm_namespace m' = cm_namespace m" "cm_revision m' = cm_revision m"
    "cm_persisted_revision m' = cm_persisted_revision m" "cm_pending_namespace m' = cm_pending_namespace m"
    "cm_next_fd m' = cm_next_fd m" "cm_open_refs m' = cm_open_refs m" "cm_pending_atime m' = cm_pending_atime m"
    "cm_orphans m' = cm_orphans m" "cm_closed m' = cm_closed m" "cm_blocks m' = cm_blocks m"
    "R (cm_metadata m) (cm_metadata m')" "cm_failure m \<noteq> None \<Longrightarrow> cm_failure m' = cm_failure m"
  shows "framed R m m'"
  using assms by (simp add: framed_def)

lemma allows_later: "allows R w \<Longrightarrow> allows R (later k w)"
  by (simp add: allows_def later_def)

lemma keeps_attempt [keeps_intro]: "keeps P f \<Longrightarrow> keeps P (attempt f)"
  by (simp add: keeps_def attempt_def case_prod_beta)

lemma keeps_smodify: "(\<And>m. P m \<Longrightarrow> P (g m)) \<Longrightarrow> keeps P (smodify g)"
  by (simp add: keeps_def)

lemma keeps_sum [keeps_intro]:
  "(\<And>e. v = Inl e \<Longrightarrow> keeps P (f e)) \<Longrightarrow> (\<And>x. v = Inr x \<Longrightarrow> keeps P (g x)) \<Longrightarrow> keeps P (case v of Inl e \<Rightarrow> f e | Inr x \<Rightarrow> g x)"
  by (cases v) auto

lemma keeps_prod [keeps_intro]: "(\<And>x y. p = (x, y) \<Longrightarrow> keeps P (f x y)) \<Longrightarrow> keeps P (case p of (x, y) \<Rightarrow> f x y)"
  by (cases p) auto

lemma wp_provider [wp_simps]:
  "wp (provider w i call) Q E m =
     (case call (su_clock w i) (su_others w i (cm_metadata m)) of
        Inl e \<Rightarrow> E e (m\<lparr>cm_metadata := su_others w i (cm_metadata m)\<rparr>)
      | Inr (x, st) \<Rightarrow> Q x (m\<lparr>cm_metadata := st\<rparr>))"
  by (simp add: wp_def provider_def Let_def split: sum.split)

lemma wp_fail_closed [wp_simps]:
  "wp (fail_closed e) Q E m = E e (if cm_failure m = None then m\<lparr>cm_failure := Some e\<rparr> else m)"
  by (simp add: wp_def fail_closed_def)

text \<open>The mount after a durable publication into the store \<open>st\<close>, and after a staged one.\<close>

definition installed :: "namespace \<Rightarrow> metadata_state \<Rightarrow> chunked_mount \<Rightarrow> chunked_mount" where
  "installed ns st m =
     m\<lparr>cm_metadata := st\<lparr>ms_namespace := Some ns, ms_revision := Suc (ms_revision st)\<rparr>, cm_namespace := ns,
       cm_revision := (if co_writeback (cm_options m) then cm_revision m else Suc (ms_revision st)),
       cm_persisted_revision := Suc (ms_revision st), cm_pending_atime := fmempty\<rparr>"

definition staged :: "namespace \<Rightarrow> chunked_mount \<Rightarrow> chunked_mount" where
  "staged ns m = (retain_open_detached ns m)\<lparr>cm_namespace := ns, cm_revision := Suc (cm_revision m),
     cm_pending_namespace := True, cm_pending_atime := fmempty\<rparr>"

lemma staged_simps [simp]:
  "cm_options (staged ns m) = cm_options m" "cm_blocks (staged ns m) = cm_blocks m" "cm_namespace (staged ns m) = ns"
  "cm_revision (staged ns m) = Suc (cm_revision m)" "cm_persisted_revision (staged ns m) = cm_persisted_revision m"
  "cm_pending_namespace (staged ns m)" "cm_failure (staged ns m) = cm_failure m" "cm_closed (staged ns m) = cm_closed m"
  "cm_metadata (staged ns m) = cm_metadata m" "cm_orphans (staged ns m) = cm_orphans (retain_open_detached ns m)"
  "cm_pending_atime (staged ns m) = fmempty"
  by (simp_all add: staged_def retain_open_detached_def)

locale store_history =
  fixes R :: "metadata_state \<Rightarrow> metadata_state \<Rightarrow> bool"
  assumes same: "ms_load st' = ms_load st \<Longrightarrow> R st st'"
    and trans: "R st st' \<Longrightarrow> R st' st'' \<Longrightarrow> R st st''"
begin

lemma framed_refl: "framed R m m"
  by (simp add: framed_def same)

lemma framed_trans:
  assumes "framed R m m'" "framed R m' m''"
  shows "framed R m m''"
proof -
  note a = framedD [OF assms(1)] and b = framedD [OF assms(2)]
  show ?thesis by (rule framedI) (simp_all add: a(1-11,13) b(1-11,13) trans [OF a(12) b(12)])
qed

lemma keeps_framed: "(\<And>n. framed R n (snd (f n))) \<Longrightarrow> keeps (framed R m) f"
  using framed_trans by (auto simp: keeps_def)

lemma keeps_fail [keeps_intro]: "keeps (framed R m) (fail_closed e)"
  by (rule keeps_framed) (simp add: fail_closed_def framed_def same)

lemma keeps_provider:
  assumes "allows R w" "\<And>now st x st'. call now st = Inr (x, st') \<Longrightarrow> ms_load st' = ms_load st"
  shows "keeps (framed R m) (provider w i call)"
proof -
  have "framed R n (snd (provider w i call n))" for n
  proof -
    have o: "R (cm_metadata n) (su_others w i (cm_metadata n))" using assms(1) by (simp add: allows_def)
    have "R (cm_metadata n) st'" if "call (su_clock w i) (su_others w i (cm_metadata n)) = Inr (x, st')" for x st'
      using trans [OF o same [OF assms(2) [OF that]]] .
    then show ?thesis using o by (auto simp: provider_def Let_def framed_def split: sum.splits)
  qed
  then show ?thesis by (rule keeps_framed)
qed

lemma lease_calls:
  "acquire_writer now owner ttl st = Inr (l, st') \<Longrightarrow> ms_load st' = ms_load st"
  "renew_writer now l0 ttl st = Inr (l, st') \<Longrightarrow> ms_load st' = ms_load st"
  "release_writer now l0 st = Inr (u, st') \<Longrightarrow> ms_load st' = ms_load st"
  by (auto simp: ms_load_def acquire_writer_iff renew_writer_iff release_writer_def)

lemma keeps_lease:
  "keeps (framed R m) (smodify (\<lambda>m. m\<lparr>cm_lease := l, cm_lease_renewed := b\<rparr>))"
  by (rule keeps_framed) (simp add: framed_def same)

lemma keeps_lease_calls:
  assumes "allows R w"
  shows "keeps (framed R m) (provider w i (\<lambda>now. acquire_writer now owner ttl))"
    "keeps (framed R m) (provider w i (\<lambda>now. renew_writer now l ttl))"
    "keeps (framed R m) (provider w i (\<lambda>now. release_writer now l))"
    "keeps (framed R m) (provider w i (\<lambda>_ st. Inr (ms_load st, st)))"
  by (rule keeps_provider [OF assms]; auto dest: lease_calls)+

lemma keeps_fence:
  "(d = FenceNext \<Longrightarrow> keeps P f) \<Longrightarrow> (d = FenceFenced \<Longrightarrow> keeps P g) \<Longrightarrow> (d = FenceOverflow \<Longrightarrow> keeps P h) \<Longrightarrow>
   keeps P (case d of FenceNext \<Rightarrow> f | FenceFenced \<Rightarrow> g | FenceOverflow \<Rightarrow> h)"
  by (cases d) auto

lemma keeps_renew:
  assumes "allows R w"
  shows "keeps (framed R m) (renew_lease_inner w forced)"
proof -
  note calls = keeps_lease_calls [OF assms]
  have "keeps (framed R m) (reacquire_expired_lease w current)" for current
    unfolding reacquire_expired_lease_def release_and_fail_def
    by (intro keeps_intro calls keeps_fence keeps_lease)
  then show ?thesis
    unfolding renew_lease_inner_def Let_def by (intro keeps_intro calls keeps_lease)
qed

lemma wp_renew:
  assumes "allows R w" "\<And>m' l. framed R m m' \<Longrightarrow> Q l m'" "\<And>m' e. framed R m m' \<Longrightarrow> E e m'"
  shows "wp (renew_lease_inner w forced) Q E m"
  using keepsD [OF keeps_renew [OF assms(1)] framed_refl] assms(2,3) by (auto simp: wp_def split: prod.split sum.split)

lemma wp_durable:
  assumes w: "allows R w"
    and ok: "\<And>m1 st. framed R m m1 \<Longrightarrow> R (cm_metadata m1) st \<Longrightarrow> ms_revision st = expected \<Longrightarrow> Q (Suc expected) (installed ns st m1)"
    and err: "\<And>m' e. framed R m m' \<Longrightarrow> E e m'"
  shows "wp (publish_namespace_durable w expected ns) Q E m"
proof -
  have tail: "wp (sbind (renew_lease (later 5 w)) (\<lambda>lease.
     sbind (attempt (provider w 10 (\<lambda>now. ms_publish now expected lease ns))) (\<lambda>r.
     case r of
       Inl e \<Rightarrow> fail_closed (with_context e ''metadata-publish'' None)
     | Inr revision \<Rightarrow>
         sbind (smodify (\<lambda>m. m\<lparr>cm_namespace := ns,
                  cm_revision := (if co_writeback (cm_options m) then cm_revision m else revision),
                  cm_persisted_revision := revision, cm_pending_atime := fmempty\<rparr>)) (\<lambda>_.
         sret revision)))) Q E m0" if m0: "framed R m m0" for m0
    unfolding wp_sbind
  proof (rule wp_renew [OF allows_later [OF w]])
    fix m1 l assume "framed R m0 m1"
    then have m1: "framed R m m1" by (rule framed_trans [OF m0])
    define st where "st = su_others w 10 (cm_metadata m1)"
    have R: "R (cm_metadata m1) st" using w by (simp add: allows_def st_def)
    have "framed R m1 (if cm_failure m1 = None then m1\<lparr>cm_metadata := st, cm_failure := Some f\<rparr> else m1\<lparr>cm_metadata := st\<rparr>)" for f
      using R by (simp add: framed_def)
    then have fail: "E e (if cm_failure m1 = None then m1\<lparr>cm_metadata := st, cm_failure := Some f\<rparr> else m1\<lparr>cm_metadata := st\<rparr>)" for e f
      by (intro err framed_trans [OF m1])
    show "wp (attempt (provider w 10 (\<lambda>now. ms_publish now expected l ns))) (\<lambda>r. wp (case r of
       Inl e \<Rightarrow> fail_closed (with_context e ''metadata-publish'' None)
     | Inr revision \<Rightarrow>
         sbind (smodify (\<lambda>m. m\<lparr>cm_namespace := ns,
                  cm_revision := (if co_writeback (cm_options m) then cm_revision m else revision),
                  cm_persisted_revision := revision, cm_pending_atime := fmempty\<rparr>)) (\<lambda>_.
         sret revision)) Q E) E m1"
    proof (cases "ms_publish (su_clock w 10) expected l ns st")
      case (Inl e)
      then show ?thesis
        using fail [of "with_context e ''metadata-publish'' None" "with_context e ''metadata-publish'' None"]
        by (simp add: wp_simps flip: st_def)
    next
      case (Inr p)
      then have "Inr p = Inr (Suc expected, st\<lparr>ms_namespace := Some ns, ms_revision := Suc expected\<rparr>)" and x: "ms_revision st = expected"
        by (cases p; simp add: ms_publish_iff)+
      then show ?thesis
        using Inr ok [OF m1 R x]
        by (cases "co_writeback (cm_options m1)") (simp_all add: wp_simps installed_def flip: st_def)
    qed
  qed (auto intro: err framed_trans [OF m0])
  have "wp (swhen (co_writeback (cm_options m)) (sbind (renew_lease_inner w True) (\<lambda>_. sret ()))) (\<lambda>_. framed R m) (\<lambda>_. framed R m) m"
    by (auto simp: wp_simps framed_refl intro: wp_renew [OF w])
  then show ?thesis
    unfolding publish_namespace_durable_def wp_sbind [of "sread Inr"] wp_basic sum.case
    by (subst wp_sbind) (rule wp_mono [OF _ tail err])
qed

lemma wp_publish:
  assumes w: "allows R w"
    and durable: "\<And>m1 st. \<not> co_writeback (cm_options m) \<Longrightarrow> framed R m m1 \<Longrightarrow> R (cm_metadata m1) st \<Longrightarrow> ms_revision st = expected \<Longrightarrow>
      Q (Suc expected) (installed ns st m1)"
    and local: "co_writeback (cm_options m) \<Longrightarrow> check_alive m = Inr () \<Longrightarrow> expected = cm_revision m \<Longrightarrow> Q (Suc expected) (staged ns m)"
    and err: "\<And>m' e. framed R m m' \<Longrightarrow> E e m'"
  shows "wp (publish_namespace w expected ns) Q E m"
proof (cases "co_writeback (cm_options m)")
  case True
  then show ?thesis
    using local err [OF framed_refl]
    by (auto simp: publish_namespace_def wp_simps check_alive_def ok_or_def checked_add_def staged_def retain_open_detached_def split: option.split)
next
  case False
  have "wp (publish_namespace_durable w expected ns) Q E m"
    by (rule wp_durable [OF w]) (use False durable err in auto)
  then show ?thesis using False by (simp add: publish_namespace_def wp_simps)
qed

end

section \<open>The invariant\<close>

text \<open>
  Between the mount and the store: the mount knows a revision the store has had, and where nothing is
  staged and the store is still at that revision it has the namespace of the mount. Of the mount: its
  namespace is valid, and every file in it or kept for a handle can be read.
\<close>

definition mount_sync :: "chunked_mount \<Rightarrow> bool" where
  "mount_sync m \<longleftrightarrow>
     cm_persisted_revision m \<le> ms_revision (cm_metadata m)
     \<and> (\<not> cm_pending_namespace m \<longrightarrow> cm_persisted_revision m = ms_revision (cm_metadata m) \<longrightarrow>
          ms_namespace (cm_metadata m) = Some (cm_namespace m))
     \<and> (\<not> co_writeback (cm_options m) \<longrightarrow> \<not> cm_pending_namespace m \<and> cm_revision m = cm_persisted_revision m)"

definition mount_sound :: "chunked_mount \<Rightarrow> bool" where
  "mount_sound m \<longleftrightarrow>
     ns_good (cm_blocks m) (cm_namespace m) \<and> orphans_ready (cm_blocks m) (cm_orphans m)
     \<and> \<not> co_delegated (cm_options m) \<and> \<not> co_concurrent_writes (cm_options m)"

lemma fold_atimes_good:
  assumes "ns_good B ns"
  shows "ns_good B (fold_atimes pending ns)"
proof (rule ns_goodI [OF _ assms])
  let ?f = "\<lambda>i n. case fmlookup pending i of None \<Rightarrow> n
    | Some t \<Rightarrow> n\<lparr>nm_stats := (nm_stats n)\<lparr>st_atime_ms := max (st_atime_ms (nm_stats n)) t\<rparr>\<rparr>"
  let ?nodes = "fmmap_keys ?f (ns_nodes ns)"
  have look: "fmlookup ?nodes i = map_option (?f i) (fmlookup (ns_nodes ns) i)" for i by simp
  have same: "nm_data (?f i n) = nm_data n" "st_ino (nm_stats (?f i n)) = st_ino (nm_stats n)" "st_mode (nm_stats (?f i n)) = st_mode (nm_stats n)"
    "st_size (nm_stats (?f i n)) = st_size (nm_stats n)" "st_nlink (nm_stats (?f i n)) = st_nlink (nm_stats n)" for i n
    by (simp_all split: option.split)
  note g = ns_goodD [OF assms]
  show "fold_atimes pending ns = ns\<lparr>ns_nodes := ns_nodes (fold_atimes pending ns)\<rparr>" by (simp add: fold_atimes_def)
  have nodes: "ns_nodes (fold_atimes pending ns) = ?nodes" by (simp add: fold_atimes_def)
  have node: "ns_node_ok nx i (?f i n) = ns_node_ok nx i n" for nx i n
    by (cases "nm_data n") (simp_all add: ns_node_ok_def node_kind_ok_def same)
  show "ns_nodes_ok (ns_next_inode ns) (ns_nodes (fold_atimes pending ns))"
    using ns_nodes_okD [OF g(2)] unfolding nodes ns_nodes_ok_def look by (auto simp: node)
  show "clean_links B (fold_atimes pending ns)"
    using clean_linksD [OF g(4)] unfolding clean_links_def nodes look by (auto simp: same)
  have "entries_of ?nodes = entries_of (ns_nodes ns)" "is_dir_node ?nodes = is_dir_node (ns_nodes ns)"
    "ns_links ?nodes = ns_links (ns_nodes ns)" "ns_subdirs ?nodes = ns_subdirs (ns_nodes ns)"
    by (rule ext, rename_tac i, case_tac "fmlookup (ns_nodes ns) i";
        simp add: entries_of_def is_dir_node_def ns_links_def ns_subdirs_def look same)+
  moreover from this(1) have "ns_kid ?nodes = ns_kid (ns_nodes ns)" by (intro ext) (simp add: ns_kid_def)
  ultimately show "nodes_tree (ns_nodes (fold_atimes pending ns)) (ns_root ns)" using g(3) unfolding nodes by simp
qed

lemma data_clean_kept: "blocks_kept block_get B B' \<Longrightarrow> data_clean B d \<Longrightarrow> data_clean B' d"
  by (cases d) (auto intro: memwriter.kept_stored)

lemma ns_good_kept: "blocks_kept block_get B B' \<Longrightarrow> ns_good B ns \<Longrightarrow> ns_good B' ns"
  by (auto simp: ns_good_def clean_links_def intro: data_clean_kept)

lemma file_ready_kept: "blocks_kept block_get B B' \<Longrightarrow> file_ready B n \<Longrightarrow> file_ready B' n"
  by (auto simp: file_ready_def split: node_data.splits intro: memwriter.kept_stored)

definition mount_inv :: "(chunked_mount \<Rightarrow> bool) \<Rightarrow> chunked_mount \<Rightarrow> bool" where
  "mount_inv X m \<longleftrightarrow> mount_sound m \<and> mount_sync m \<and> X m"

text \<open>The strings of a call are free of NUL characters.\<close>

fun path_clean :: "path_call \<Rightarrow> bool" where
  "path_clean (PC_Mkdir path options) \<longleftrightarrow> CHR 0x00 \<notin> set path"
| "path_clean (PC_Rmdir path) \<longleftrightarrow> CHR 0x00 \<notin> set path"
| "path_clean (PC_Rename old_path new_path) \<longleftrightarrow> CHR 0x00 \<notin> set old_path \<and> CHR 0x00 \<notin> set new_path"
| "path_clean (PC_Link existing new_path) \<longleftrightarrow> CHR 0x00 \<notin> set existing \<and> CHR 0x00 \<notin> set new_path"
| "path_clean (PC_Symlink target path) \<longleftrightarrow> CHR 0x00 \<notin> set target \<and> CHR 0x00 \<notin> set path"
| "path_clean (PC_Mknod path mode dev) \<longleftrightarrow> CHR 0x00 \<notin> set path"
| "path_clean _ \<longleftrightarrow> True"

lemma path_candidate_good:
  assumes "ns_good B ns" "path_clean c" "\<not> co_delegated opts" "path_candidate opts now c rs (ns, orphans) = Inr (u, ns', orphans')"
  shows "ns_good B ns' \<and> (orphans_ready B orphans \<longrightarrow> orphans_ready B orphans')"
  using assms
  by (cases c)
    (auto dest: ns_mkdir_good apply_rmdir_good apply_rename_good apply_link_good apply_symlink_good apply_mknod_good
      ns_chmod_good chown_path_good utimes_path_good ns_truncate_good norm_path_clean)

lemma check_alive_iff: "check_alive m = Inr () \<longleftrightarrow> cm_failure m = None \<and> \<not> cm_closed m"
  by (simp add: check_alive_def split: option.split)

lemma wp_on_detached [wp_simps]:
  "wp (on_detached f ns) Q E m =
     (case f (fmdom (cm_open_refs m)) (ns, cm_orphans m) of
        Inl e \<Rightarrow> E e m
      | Inr (x, ns', orphans) \<Rightarrow> Q (x, ns') (m\<lparr>cm_orphans := orphans\<rparr>))"
  by (simp add: wp_def on_detached_def split: sum.split)

text \<open>
  The invariant with an addition \<open>X\<close> about the usability of the mount and the contents of the store.
  The laws say what \<open>X\<close> must stand: changes of leases and of other parts of the mount, failing and
  closing, and publications.
\<close>

locale mount_invariant = store_history +
  fixes X :: "chunked_mount \<Rightarrow> bool"
  assumes R_after: "R st st' \<Longrightarrow> ms_after st st'"
    and X_framed: "X m \<Longrightarrow> framed R m m' \<Longrightarrow> X m'"
    and X_local: "X m \<Longrightarrow> cm_failure m' = cm_failure m \<Longrightarrow> cm_closed m' = cm_closed m \<Longrightarrow>
          cm_persisted_revision m' = cm_persisted_revision m \<Longrightarrow> cm_metadata m' = cm_metadata m \<Longrightarrow>
          blocks_kept block_get (cm_blocks m) (cm_blocks m') \<Longrightarrow> X m'"
    and X_unusable: "X m \<Longrightarrow> cm_metadata m' = cm_metadata m \<Longrightarrow> cm_blocks m' = cm_blocks m \<Longrightarrow>
          cm_failure m' \<noteq> None \<or> cm_closed m' \<Longrightarrow> X m'"
    and X_publish: "X m \<Longrightarrow> check_alive m = Inr () \<Longrightarrow> R (cm_metadata m) st \<Longrightarrow> ms_revision st = cm_persisted_revision m \<Longrightarrow>
          ns_good (cm_blocks m) ns \<Longrightarrow> cm_blocks m' = cm_blocks m \<Longrightarrow>
          cm_metadata m' = st\<lparr>ms_namespace := Some ns, ms_revision := Suc (ms_revision st)\<rparr> \<Longrightarrow> X m'"
begin

lemma inv_framed:
  assumes "mount_inv X m" "framed R m m'"
  shows "mount_inv X m'"
proof -
  note f = framedD [OF assms(2)]
  have "ms_after (cm_metadata m) (cm_metadata m')" by (rule R_after [OF f(12)])
  then have "mount_sync m'" using assms(1) by (auto simp: mount_inv_def mount_sync_def ms_after_def f(1-5))
  then show ?thesis using assms X_framed [of m m'] by (simp add: mount_inv_def mount_sound_def f(1-11))
qed

lemma inv_local:
  assumes "mount_inv X m" "orphans_ready (cm_blocks m') (cm_orphans m')" "blocks_kept block_get (cm_blocks m) (cm_blocks m')"
    and "cm_options m' = cm_options m" "cm_namespace m' = cm_namespace m" "cm_revision m' = cm_revision m"
      "cm_persisted_revision m' = cm_persisted_revision m" "cm_pending_namespace m' = cm_pending_namespace m"
      "cm_failure m' = cm_failure m" "cm_closed m' = cm_closed m" "cm_metadata m' = cm_metadata m"
  shows "mount_inv X m'"
  using assms X_local [of m m'] ns_good_kept [OF assms(3)] by (simp add: mount_inv_def mount_sound_def mount_sync_def)

lemma inv_unusable:
  assumes "mount_inv X m" "cm_failure m' \<noteq> None \<or> cm_closed m'"
    and "m' = m\<lparr>cm_failure := cm_failure m', cm_closed := cm_closed m'\<rparr>"
  shows "mount_inv X m'"
proof -
  have "cm_metadata m' = cm_metadata m" "cm_blocks m' = cm_blocks m" by (subst assms(3), simp)+
  then have "X m'" using X_unusable assms(1,2) by (auto simp: mount_inv_def)
  moreover have "mount_sound m' \<and> mount_sync m'"
    using assms(1) by (subst assms(3), subst assms(3)) (simp add: mount_inv_def mount_sound_def mount_sync_def)
  ultimately show ?thesis by (simp add: mount_inv_def)
qed

lemma inv_install:
  assumes inv: "mount_inv X m" and alive: "check_alive m = Inr ()" and f: "framed R m m1" "R (cm_metadata m1) st"
    and rev: "ms_revision st = cm_persisted_revision m" and good: "ns_good (cm_blocks m) ns"
    and m': "cm_options m' = cm_options m" "cm_blocks m' = cm_blocks m" "cm_orphans m' = cm_orphans m" "cm_namespace m' = ns"
      "cm_metadata m' = st\<lparr>ms_namespace := Some ns, ms_revision := Suc (ms_revision st)\<rparr>"
      "cm_persisted_revision m' = Suc (ms_revision st)" "\<not> cm_pending_namespace m'"
      "co_writeback (cm_options m) \<or> cm_revision m' = Suc (ms_revision st)"
  shows "mount_inv X m'"
proof -
  have "R (cm_metadata m) st" by (rule trans [OF framedD(12) [OF f(1)] f(2)])
  then have "X m'" using X_publish alive rev good m'(2,5) inv by (auto simp: mount_inv_def)
  then show ?thesis using inv good m' by (auto simp: mount_inv_def mount_sound_def mount_sync_def)
qed

lemma retained_ready:
  assumes "mount_sound m"
  shows "orphans_ready (cm_blocks m) (cm_orphans (retain_open_detached ns m))"
  using assms good_ready unfolding mount_sound_def orphans_ready_def retain_open_detached_def
  by (auto split: if_splits)

lemma inv_stage:
  assumes "mount_inv X m" "co_writeback (cm_options m)" "ns_good (cm_blocks m) ns"
  shows "mount_inv X (staged ns m)"
proof -
  have "X m" "mount_sound m" "mount_sync m" using assms(1) by (simp_all add: mount_inv_def)
  note parts = this
  have "X (staged ns m)" by (rule X_local [OF parts(1)]) simp_all
  moreover have "mount_sound (staged ns m)"
    using parts(2) assms(3) retained_ready [OF parts(2), of ns] by (simp add: mount_sound_def)
  moreover have "mount_sync (staged ns m)" using parts(3) assms(2) by (simp add: mount_sync_def)
  ultimately show ?thesis by (simp add: mount_inv_def)
qed

lemma wp_publish_inv:
  assumes w: "allows R w" and inv: "mount_inv X m" and alive: "check_alive m = Inr ()" and good: "ns_good (cm_blocks m) ns"
  shows "wp (publish_namespace w (cm_revision m) ns) (\<lambda>_. mount_inv X) (\<lambda>_. mount_inv X) m"
proof (rule wp_publish [OF w])
  fix m1 st assume wb: "\<not> co_writeback (cm_options m)" and f: "framed R m m1" "R (cm_metadata m1) st" "ms_revision st = cm_revision m"
  have s: "\<not> cm_pending_namespace m" "cm_revision m = cm_persisted_revision m"
    using inv wb by (simp_all add: mount_inv_def mount_sync_def)
  note d = framedD [OF f(1)]
  show "mount_inv X (installed ns st m1)"
    by (rule inv_install [OF inv alive f(1,2) _ good]) (simp_all add: installed_def d f(3) s wb)
qed (use inv good in \<open>auto intro: inv_stage inv_framed\<close>)

lemma wp_locked:
  assumes w: "allows R w" and inv: "mount_inv X m"
    and step: "\<And>m'. mount_inv X m' \<Longrightarrow> check_alive m' = Inr () \<Longrightarrow> framed R m m' \<Longrightarrow>
      ns_good (cm_blocks m') (fold_atimes (cm_pending_atime m') (cm_namespace m')) \<Longrightarrow>
      wp (f (fold_atimes (cm_pending_atime m') (cm_namespace m'), cm_revision m')) Q E m'"
    and err: "\<And>e m'. mount_inv X m' \<Longrightarrow> E e m'"
  shows "wp (sbind (renew_lease_inner w forced) (\<lambda>_. sbind (sread mount_snapshot) f)) Q E m"
  unfolding wp_sbind
proof (rule wp_renew [OF w])
  fix m' assume f: "framed R m m'"
  then have inv': "mount_inv X m'" by (rule inv_framed [OF inv])
  then have "ns_good (cm_blocks m') (fold_atimes (cm_pending_atime m') (cm_namespace m'))"
    by (intro fold_atimes_good) (simp add: mount_inv_def mount_sound_def)
  then show "wp (sread mount_snapshot) (\<lambda>x. wp (f x) Q E) E m'"
    using step [OF inv' _ f] err [OF inv'] by (cases "check_alive m'") (simp_all add: wp_simps mount_snapshot_def)
qed (auto intro: err inv_framed [OF inv])

lemma mutate_inv:
  assumes w: "allows R w" and inv: "mount_inv X m"
    and op: "\<And>m ns x ns' o'. mount_inv X m \<Longrightarrow> ns_good (cm_blocks m) ns \<Longrightarrow> cm_options m = opts \<Longrightarrow>
      f (fmdom (cm_open_refs m)) (ns, cm_orphans m) = Inr (x, ns', o') \<Longrightarrow> ns_good (cm_blocks m) ns' \<and> orphans_ready (cm_blocks m) o'"
    and opts: "cm_options m = opts"
  shows "wp (mount_mutate w (on_detached f)) (\<lambda>_. mount_inv X) (\<lambda>_. mount_inv X) m"
  unfolding mount_mutate_def
proof (rule wp_locked [OF w inv])
  fix m' assume inv': "mount_inv X m'" and alive: "check_alive m' = Inr ()" and f: "framed R m m'"
    and good: "ns_good (cm_blocks m') (fold_atimes (cm_pending_atime m') (cm_namespace m'))"
  let ?ns = "fold_atimes (cm_pending_atime m') (cm_namespace m')"
  note d = framedD [OF f]
  show "wp (case (?ns, cm_revision m') of (ns, revision) \<Rightarrow> sbind (on_detached f ns)
      (\<lambda>(result, ns). sbind (publish_namespace (later 5 w) revision ns) (\<lambda>_. sret result))) (\<lambda>_. mount_inv X) (\<lambda>_. mount_inv X) m'"
  proof (cases "f (fmdom (cm_open_refs m')) (?ns, cm_orphans m')")
    case (Inl e)
    then show ?thesis using inv' by (simp add: wp_simps)
  next
    case (Inr p)
    obtain x ns' o' where p: "p = (x, ns', o')" by (cases p)
    have c: "ns_good (cm_blocks m') ns' \<and> orphans_ready (cm_blocks m') o'"
      by (rule op [OF inv' good _ Inr [unfolded p]]) (simp add: d opts)
    have "mount_inv X (m'\<lparr>cm_orphans := o'\<rparr>)" by (rule inv_local [OF inv']) (use c in simp_all)
    moreover have "check_alive (m'\<lparr>cm_orphans := o'\<rparr>) = Inr ()" using alive by (simp add: check_alive_iff)
    ultimately show ?thesis
      using wp_publish_inv [OF allows_later [OF w], of "m'\<lparr>cm_orphans := o'\<rparr>" ns' 5] c Inr p by (simp add: wp_simps)
  qed
qed

end

section \<open>Two histories\<close>

text \<open>
  Other clients that call the store as they like; and no other clients, for a mount that cannot
  publish, because it failed, is closed, or has missed a revision.
\<close>

definition unusable :: "chunked_mount \<Rightarrow> bool" where
  "unusable m \<longleftrightarrow> cm_failure m \<noteq> None \<or> cm_closed m \<or> cm_persisted_revision m \<noteq> ms_revision (cm_metadata m)"

abbreviation same_contents :: "metadata_state \<Rightarrow> metadata_state \<Rightarrow> bool" where
  "same_contents st st' \<equiv> ms_load st' = ms_load st"

lemma same_contents_iff: "same_contents st st' \<longleftrightarrow> ms_revision st' = ms_revision st \<and> ms_namespace st' = ms_namespace st"
  by (auto simp: ms_load_def)

interpretation shared: mount_invariant ms_after "\<lambda>_. True"
  by unfold_locales (auto simp: ms_after_def ms_load_def)

interpretation alone: mount_invariant same_contents "\<lambda>m. unusable m \<and> ms_load (cm_metadata m) = contents" for contents
proof unfold_locales
  fix m m' assume "unusable m \<and> ms_load (cm_metadata m) = contents" "framed same_contents m m'"
  then show "unusable m' \<and> ms_load (cm_metadata m') = contents"
    using framedD [of same_contents m m'] by (auto simp: unusable_def same_contents_iff)
next
  fix m st m' ns
  assume "unusable m \<and> ms_load (cm_metadata m) = contents" "check_alive m = Inr ()" "same_contents (cm_metadata m) st"
    "ms_revision st = cm_persisted_revision m"
  then show "unusable m' \<and> ms_load (cm_metadata m') = contents"
    by (auto simp: unusable_def check_alive_iff same_contents_iff)
qed (auto simp: ms_after_def ms_load_def unusable_def)

lemma ms_exec_after: "ms_after st (ms_exec to_vec c st)"
proof (cases c)
  case (PublishVersion now l p)
  then show ?thesis
    by (cases "fmlookup (ms_operations st) (vp_operation_id p)")
      (auto split: next_state_split simp: publish_version_fresh_iff publish_version_retry_iff ms_after_def)
next
  case (ClosePin now now' l)
  then show ?thesis by (auto split: next_state_split simp: ms_after_def dest!: close_view_pin_cases)
qed (auto split: next_state_split simp: ms_after_def acquire_writer_iff renew_writer_iff release_writer_def ms_publish_iff
    open_view_pin_iff renew_view_pin_iff delete_version_iff)

lemma ms_run_after: "ms_after st (ms_run to_vec calls st)"
proof (induction calls arbitrary: st)
  case (Cons c calls)
  show ?case
    using shared.trans [OF ms_exec_after Cons.IH] by (simp add: ms_run_def)
qed (simp add: ms_run_def ms_after_def)

end
