(* ===== verification/Spec2Isabelle.thy ===== *)
theory Spec2Isabelle
  imports Core_Path Core_Types Core_Chunking Namespace_Validation Core_Versioning Memory_Store_Safety
    Memory_Blocks Mem_Fs_Correct Mem_Fs_Roundtrip Delegation_Safety P9_Lock_Safety P9_Readdir
    P9_Connection_Safety Fuse_Inode_Safety Chunked_Mount_Safety
begin

text \<open>
  A verification development for mount-rs, a Rust library that mounts virtual file systems over
  exchangeable metadata and block stores.

  \<^bold>\<open>Parts.\<close> The core crate (\<^verbatim>\<open>src/src\<close>) fixes errors, paths, types, open flags, the chunking contract,
  the namespace document that metadata stores keep, and version histories. Providers implement the
  stores; \<^verbatim>\<open>providers/mount-rs-memory\<close> is the reference provider with writer leases, publication
  by compare-and-swap, versions with read pins, and content-addressed blocks. File systems implement
  the driver interface; \<^verbatim>\<open>filesystems/mount-rs-memfs\<close> is the reference file system in memory, and
  \<^verbatim>\<open>filesystems/mount-rs-chunked\<close> keeps its namespace in a metadata store and the chunks of its files in
  a block store.
  Transports expose drivers to kernels and networks; of them the development has the 9P transport's wire
  format, messages, framing, connection loop and lock table (\<^verbatim>\<open>transports/mount-rs-9p\<close>) and the
  inode table of the FUSE transport (\<^verbatim>\<open>transports/mount-rs-fuse\<close>).

  \<^bold>\<open>Theories.\<close>
  \<^item> \<open>Mrs_Prelude\<close>, \<open>Mrs_Decimal\<close>, \<open>Mrs_State\<close>: results, checked arithmetic, strings, decimal numbers,
    and operations on a locked state that may fail.
  \<^item> \<open>Core_Error\<close>, \<open>Core_Path\<close>, \<open>Core_Types\<close>, \<open>Core_Chunking\<close>: \<^verbatim>\<open>error.rs\<close>, \<^verbatim>\<open>path.rs\<close>, \<^verbatim>\<open>types.rs\<close> with
    \<^verbatim>\<open>handle.rs\<close>, \<^verbatim>\<open>chunking.rs\<close>.
  \<^item> \<open>Core_Storage\<close> models the namespace and its validation from \<^verbatim>\<open>storage.rs\<close>; \<open>Namespace_Validation\<close>
    proves validation equivalent to a declarative definition.
  \<^item> \<open>Core_Versioning\<close>: identifiers, version records and read leases of \<^verbatim>\<open>versioning.rs\<close>.
  \<^item> \<open>Store_Contracts\<close>: the contracts of a fenced metadata store and of a block store, as locales.
    \<open>Memory_Store\<close>, \<open>Memory_Store_Safety\<close> and \<open>Memory_Blocks\<close> model the memory provider and
    interpret them.
  \<^item> \<open>Driver_Types\<close>: guarded requests of \<^verbatim>\<open>driver.rs\<close>.
  \<^item> \<open>Mem_Children\<close>, \<open>Mem_Fs\<close>, \<open>Mem_Fs_Ops\<close>, \<open>Mem_Fs_Guarded\<close>: the memory file system. \<open>Dir_Tree\<close> is the
    contract of a directory tree; \<open>Mem_Fs_Inv\<close>, \<open>Mem_Fs_Walk\<close> and \<open>Mem_Fs_Logic\<close> hold the invariant,
    the path walk and the calculus by which the calls are verified. \<open>Mem_Fs_Prim\<close>, \<open>Mem_Fs_Calls\<close> and
    \<open>Mem_Fs_Files\<close> verify the primitives, the path calls and the handle calls, \<open>Mem_Fs_Guard_Safety\<close>
    the guarded requests; \<open>Mem_Fs_Abstract\<close> gives the abstract file tree and the refinement to it.
    \<open>Mem_Fs_World\<close> interleaves calls, \<open>Mem_Fs_Paths\<close> and \<open>Mem_Fs_Listing\<close> treat resolution and listing,
    and \<open>Mem_Fs_Correct\<close> states the properties.
  \<^item> \<open>Mem_Fs_Snapshot\<close> and \<open>Mem_Fs_Restore\<close>: the snapshot document, its validation and the restored state;
    \<open>Mem_Fs_Roundtrip\<close> proves that restoring is sound on any bytes and inverse to taking a snapshot.
  \<^item> \<open>Chunked_Layout\<close> models the extents of a file of the chunked file system over a block store;
    \<open>Chunked_Layout_Safety\<close> proves that writing a layout is writing bytes. \<open>Chunked_Namespace\<close>,
    \<open>Chunked_Mutations\<close>, \<open>Chunked_Attributes\<close> and \<open>Chunked_Requests\<close> model its path walk, its mutations of the
    namespace, attributes and guarded requests. \<open>Chunked_Tree\<close> interprets the contract of a directory tree
    for namespaces; \<open>Chunked_Namespace_Safety\<close> and \<open>Chunked_Files_Safety\<close> prove that every request keeps the
    namespace valid and its files readable.
  \<^item> \<open>Chunked_Mount\<close> models a mount that owns its volume exclusively, over the memory stores, with other
    clients acting on the metadata store between its calls: the lease, publication with and without
    write-back, batches, handles, opening and shutting down. \<open>Chunked_Mount_Safety\<close> has the calculus for its
    calls, with what the other clients may do as a parameter of a locale.
  \<^item> \<open>Worklist\<close>: the depth-first traversal with a set of visited nodes that two components share.
  \<^item> \<open>Delegation\<close> and \<open>Delegation_Safety\<close>: the directory grants of \<^verbatim>\<open>delegation.rs\<close>, their validation, and
    the isolation of one grant from another.
  \<^item> \<open>Wire_Bytes\<close>: bytes, UTF-8, and a calculus for readers and writers that may fail.
  \<^item> \<open>P9_Wire\<close>, \<open>P9_Messages\<close> and \<open>P9_Protocol\<close>: the reader and writer of \<^verbatim>\<open>wire.rs\<close>, the messages and the
    framing of \<^verbatim>\<open>protocol.rs\<close>. \<open>P9_Codec\<close> has the contract of a message as a locale, interprets it for every
    message and proves the round trip and the typing of what is accepted; \<open>P9_Readdir\<close> treats listings.
  \<^item> \<open>P9_Frames\<close> models the frame assembler and \<open>P9_Frame_Safety\<close> proves it independent of how the stream is
    cut, from one contract for its two ways of taking frames.
  \<^item> \<open>P9_Connection\<close> models the loop of a connection of \<^verbatim>\<open>server.rs\<close> with its tasks and writer as events over a
    state; \<open>P9_Connection_Safety\<close> proves an invariant of every interleaving.
  \<^item> \<open>P9_Locks\<close> and \<open>P9_Lock_Safety\<close>: the byte-range locks of \<^verbatim>\<open>locks.rs\<close>, their exclusion and their
    refinement of locks by single bytes.
  \<^item> \<open>Fuse_Inodes\<close> and \<open>Fuse_Inode_Safety\<close>: the node numbers of \<^verbatim>\<open>inodes.rs\<close>, their coherence and stability.

  \<^bold>\<open>Modelling.\<close> Numbers of 64 bits are natural numbers with the bounds of their checked operations
  written out; mode bits are words. A clock reading is an argument. The text encodings of serde are
  parameters. A lock turns a call into one operation on the state; calls that lock twice are two
  operations.

  Loops are recursive functions that are proved to end; none needs fuel. The loop of a connection is a
  transition per event, with no bound on their number. The order in which a hash map lists its keys is a parameter
  with the law that each key is listed once.

  \<^bold>\<open>Not modelled.\<close> The handlers of the 9P and FUSE calls, the other transports, bindings, SQL and object store
  providers, and the shared and delegated mounts of the chunked file system with their retries and timers: most
  of their behaviour rests on external engines and schedulers.
\<close>

end
